(* ===== verification/Prelude.thy ===== *)
theory Prelude
  imports Main "HOL-Library.Word" "HOL-Library.Code_Target_Nat"
begin

unbundle bit_operations_syntax

text \<open>
  Shared vocabulary of the development: byte strings and machine integers, Rust results
  and the question-mark operator, checked and saturating arithmetic, and the
  little-endian and big-endian integer conversions of the standard library with the
  lemmas every codec proof uses. Slice lengths and offsets (\<^verbatim>\<open>usize\<close>) are natural
  numbers with the 64-bit bound written out where the code checks it.
\<close>

section \<open>Types\<close>

type_synonym byte = "8 word"
type_synonym bytes = "byte list"
type_synonym u16 = "16 word"
type_synonym u32 = "32 word"
type_synonym u64 = "64 word"

named_theorems res_simps \<open>rules that run the error monad on constructors\<close>
named_theorems res_splits \<open>inversion of successful runs of the error monad\<close>

section \<open>Results and the question-mark operator\<close>

definition bind_res :: "'e + 'a \<Rightarrow> ('a \<Rightarrow> 'e + 'b) \<Rightarrow> 'e + 'b" where
  "bind_res m f = (case m of Inl e \<Rightarrow> Inl e | Inr x \<Rightarrow> f x)"

definition map_err :: "('e \<Rightarrow> 'f) \<Rightarrow> 'e + 'a \<Rightarrow> 'f + 'a" where
  "map_err g m = (case m of Inl e \<Rightarrow> Inl (g e) | Inr x \<Rightarrow> Inr x)"

definition ok_or :: "'a option \<Rightarrow> 'e \<Rightarrow> 'e + 'a" where
  "ok_or m e = (case m of None \<Rightarrow> Inl e | Some x \<Rightarrow> Inr x)"

definition require :: "bool \<Rightarrow> 'e \<Rightarrow> 'e + unit" where
  "require c e = (if c then Inr () else Inl e)"

definition is_ok :: "'e + 'a \<Rightarrow> bool" where
  "is_ok m = (case m of Inl _ \<Rightarrow> False | Inr _ \<Rightarrow> True)"

lemma bind_res_Inl [simp, res_simps]: "bind_res (Inl e) f = Inl e"
  by (simp add: bind_res_def)

lemma bind_res_Inr [simp, res_simps]: "bind_res (Inr x) f = f x"
  by (simp add: bind_res_def)

lemma map_err_simps [simp, res_simps]:
  "map_err g (Inl e) = Inl (g e)"
  "map_err g (Inr x) = Inr x"
  by (simp_all add: map_err_def)

lemma ok_or_simps [simp, res_simps]:
  "ok_or None e = Inl e"
  "ok_or (Some x) e = Inr x"
  by (simp_all add: ok_or_def)

lemma require_simps [simp, res_simps]:
  "require True e = Inr ()"
  "require False e = Inl e"
  by (simp_all add: require_def)

lemma is_ok_simps [simp]: "\<not> is_ok (Inl e)" "is_ok (Inr x)"
  by (simp_all add: is_ok_def)

lemma is_ok_iff: "is_ok m \<longleftrightarrow> (\<exists>x. m = Inr x)"
  by (cases m) auto

lemma bind_res_eq_Inr [res_splits]:
  "bind_res m f = Inr y \<longleftrightarrow> (\<exists>x. m = Inr x \<and> f x = Inr y)"
  by (cases m) auto

lemma bind_res_eq_Inl:
  "bind_res m f = Inl e \<longleftrightarrow> m = Inl e \<or> (\<exists>x. m = Inr x \<and> f x = Inl e)"
  by (cases m) auto

lemma map_err_eq_Inr [simp, res_splits]: "map_err g m = Inr x \<longleftrightarrow> m = Inr x"
  by (cases m) auto

lemma ok_or_eq_Inr [simp, res_splits]: "ok_or m e = Inr x \<longleftrightarrow> m = Some x"
  by (cases m) auto

lemma require_eq_Inr [simp, res_splits]: "require c e = Inr u \<longleftrightarrow> c"
  by (simp add: require_def)

lemma require_eq_Inl [simp]: "require c e = Inl e' \<longleftrightarrow> \<not> c \<and> e' = e"
  by (auto simp: require_def)

lemma bind_res_cong [fundef_cong]:
  assumes "m = m'" and "\<And>x. m' = Inr x \<Longrightarrow> f x = f' x"
  shows "bind_res m f = bind_res m' f'"
  using assms by (cases m') auto

lemma bind_res_assoc: "bind_res (bind_res m f) g = bind_res m (\<lambda>x. bind_res (f x) g)"
  by (cases m) auto

section \<open>Checked and saturating arithmetic\<close>

definition usize_max :: nat where
  "usize_max = 2 ^ 64 - 1"

definition checked_add_usize :: "nat \<Rightarrow> nat \<Rightarrow> nat option" where
  "checked_add_usize a b = (if a + b \<le> usize_max then Some (a + b) else None)"

definition checked_sub_usize :: "nat \<Rightarrow> nat \<Rightarrow> nat option" where
  "checked_sub_usize a b = (if b \<le> a then Some (a - b) else None)"

definition checked_mul_usize :: "nat \<Rightarrow> nat \<Rightarrow> nat option" where
  "checked_mul_usize a b = (if a * b \<le> usize_max then Some (a * b) else None)"

definition saturating_add_usize :: "nat \<Rightarrow> nat \<Rightarrow> nat" where
  "saturating_add_usize a b = min (a + b) usize_max"

definition checked_add :: "'w::len word \<Rightarrow> 'w word \<Rightarrow> 'w word option" where
  "checked_add a b = (if unat a + unat b < 2 ^ LENGTH('w) then Some (a + b) else None)"

definition checked_sub :: "'w::len word \<Rightarrow> 'w word \<Rightarrow> 'w word option" where
  "checked_sub a b = (if b \<le> a then Some (a - b) else None)"

definition checked_mul :: "'w::len word \<Rightarrow> 'w word \<Rightarrow> 'w word option" where
  "checked_mul a b = (if unat a * unat b < 2 ^ LENGTH('w) then Some (a * b) else None)"

definition saturating_add :: "'w::len word \<Rightarrow> 'w word \<Rightarrow> 'w word" where
  "saturating_add a b = (if unat a + unat b < 2 ^ LENGTH('w) then a + b else - 1)"

definition saturating_sub :: "'w::len word \<Rightarrow> 'w word \<Rightarrow> 'w word" where
  "saturating_sub a b = (if b \<le> a then a - b else 0)"

definition overflowing_add :: "'w::len word \<Rightarrow> 'w word \<Rightarrow> 'w word \<times> bool" where
  "overflowing_add a b = (a + b, 2 ^ LENGTH('w) \<le> unat a + unat b)"

definition overflowing_sub :: "'w::len word \<Rightarrow> 'w word \<Rightarrow> 'w word \<times> bool" where
  "overflowing_sub a b = (a - b, a < b)"

lemma checked_add_Some:
  "checked_add a b = Some c \<Longrightarrow> unat c = unat a + unat b"
  by (auto simp: checked_add_def unat_word_ariths split: if_splits)

lemma checked_sub_Some:
  "checked_sub a b = Some c \<Longrightarrow> unat c + unat b = unat a"
  by (auto simp: checked_sub_def word_le_nat_alt unat_sub split: if_splits)

lemma checked_mul_Some:
  "checked_mul a b = Some c \<Longrightarrow> unat c = unat a * unat b"
  by (auto simp: checked_mul_def unat_word_ariths split: if_splits)

lemma unat_saturating_add:
  fixes a b :: "'w::len word"
  shows "unat (saturating_add a b) = min (unat a + unat b) (2 ^ LENGTH('w) - 1)"
proof -
  have "unat (- 1 :: 'w word) = 2 ^ LENGTH('w) - 1"
    by (simp add: unsigned_minus_1_eq_mask mask_eq_exp_minus_1)
  then show ?thesis by (auto simp: saturating_add_def unat_word_ariths)
qed

lemma unat_saturating_sub:
  "unat (saturating_sub a b) = unat a - unat b"
  by (auto simp: saturating_sub_def unat_sub word_le_nat_alt)

section \<open>Shifts and masks as arithmetic\<close>

lemma nat_or_push_bit:
  assumes "y < 2 ^ n"
  shows "push_bit n x OR y = x * 2 ^ n + (y::nat)"
proof -
  have y: "take_bit n y = y" using assms by (simp add: take_bit_nat_eq_self)
  have "push_bit n x AND y = 0"
  proof (rule bit_eqI)
    fix k
    have "bit y k \<Longrightarrow> k < n" using y by (metis bit_take_bit_iff)
    then show "bit (push_bit n x AND y) k = bit 0 k" by (auto simp: bit_simps)
  qed
  then have "push_bit n x OR y = push_bit n x + y" by (simp add: disjunctive_add_eq_or)
  then show ?thesis by (simp add: push_bit_eq_mult)
qed

lemma unat_drop_bit_div: "unat (drop_bit n w) = unat w div 2 ^ n"
  unfolding unat_drop_bit_eq by (rule drop_bit_eq_div)

lemma unat_push_bit_small:
  assumes "unat w * 2 ^ n < 2 ^ LENGTH('w)"
  shows "unat (push_bit n (w::'w::len word)) = unat w * 2 ^ n"
proof -
  have "unat (push_bit n w) = take_bit LENGTH('w) (push_bit n (unat w))" by (rule unsigned_push_bit_eq)
  then show ?thesis using assms by (simp only: push_bit_eq_mult take_bit_eq_mod mod_less)
qed

lemma unat_and_mask_mod: "unat (w AND mask n) = unat w mod 2 ^ n"
proof -
  have "unat (w AND mask n) = unat (take_bit n w)" by (simp only: take_bit_eq_mask)
  also have "\<dots> = take_bit n (unat w)" by (rule unsigned_take_bit_eq)
  finally show ?thesis by (simp only: take_bit_eq_mod)
qed

lemma word_and_bit: "n < LENGTH('w) \<Longrightarrow> (w::'w::len word) AND 2 ^ n \<noteq> 0 \<longleftrightarrow> odd (unat w div 2 ^ n)"
  by (simp add: and_exp_eq_0_iff_not_bit bit_iff_odd [of "unat w", symmetric] bit_unsigned_iff)

section \<open>Integers as byte strings\<close>

primrec le_bytes :: "nat \<Rightarrow> nat \<Rightarrow> bytes" where
  "le_bytes 0 v = []"
| "le_bytes (Suc n) v = word_of_nat v # le_bytes n (v div 256)"

primrec le_nat :: "bytes \<Rightarrow> nat" where
  "le_nat [] = 0"
| "le_nat (b # bs) = unat b + 256 * le_nat bs"

definition be_bytes :: "nat \<Rightarrow> nat \<Rightarrow> bytes" where
  "be_bytes n v = rev (le_bytes n v)"

definition be_nat :: "bytes \<Rightarrow> nat" where
  "be_nat bs = le_nat (rev bs)"

lemma unat_less_pow: "unat (w::'w::len word) < 2 ^ LENGTH('w)"
  by (rule unsigned_less)

lemma unat_ucast_mod: "unat (ucast (w::'v::len word) :: 'w::len word) = unat w mod 2 ^ LENGTH('w)"
  by (simp add: unsigned_ucast_eq take_bit_eq_mod)

lemma unat_byte_less: "unat (b::byte) < 256"
  using unat_less_pow [of b] by simp

lemma unat_byte_mod [simp]: "256 \<le> n \<Longrightarrow> unat (b::byte) mod n = unat b"
  using unat_byte_less [of b] by simp

lemma length_le_bytes [simp]: "length (le_bytes n v) = n"
  by (induction n arbitrary: v) auto

lemma length_be_bytes [simp]: "length (be_bytes n v) = n"
  by (simp add: be_bytes_def)

lemma le_bytes_snoc: "le_bytes (Suc n) v = le_bytes n v @ [word_of_nat (v div 256 ^ n)]"
proof (induction n arbitrary: v)
  case (Suc n)
  have "le_bytes (Suc (Suc n)) v = word_of_nat v # le_bytes (Suc n) (v div 256)" by (rule le_bytes.simps)
  also have "\<dots> = le_bytes (Suc n) v @ [word_of_nat (v div 256 div 256 ^ n)]"
    by (subst Suc) simp
  finally show ?case by (simp only: power_Suc div_mult2_eq)
qed simp

lemma le_nat_less: "le_nat bs < 256 ^ length bs"
proof (induction bs)
  case (Cons b bs)
  have "unat b < 256" by (rule unat_byte_less)
  with Cons have "unat b + 256 * le_nat bs < 256 * Suc (le_nat bs)" by simp
  also have "\<dots> \<le> 256 * 256 ^ length bs" using Cons by (intro mult_le_mono2) simp
  finally show ?case by simp
qed simp

lemma be_nat_less: "be_nat bs < 256 ^ length bs"
  using le_nat_less [of "rev bs"] by (simp add: be_nat_def)

lemma le_nat_le_bytes: "le_nat (le_bytes n v) = v mod 256 ^ n"
proof (induction n arbitrary: v)
  case (Suc n)
  have "le_nat (le_bytes (Suc n) v) = v mod 256 + 256 * (v div 256 mod 256 ^ n)"
    by (simp add: Suc unat_of_nat)
  also have "\<dots> = v mod (256 * 256 ^ n)"
    by (simp add: mod_mult2_eq)
  finally show ?case by simp
qed simp

lemma le_nat_le_bytes_small: "v < 256 ^ n \<Longrightarrow> le_nat (le_bytes n v) = v"
  by (simp add: le_nat_le_bytes)

lemma le_bytes_le_nat: "le_bytes (length bs) (le_nat bs) = bs"
proof (induction bs)
  case (Cons b bs)
  have "(unat b + 256 * le_nat bs) div 256 = le_nat bs"
    by (simp add: unat_byte_less)
  moreover have "word_of_nat (unat b + 256 * le_nat bs) = b"
  proof -
    have "(256::byte) = 0" by simp
    then have "(256::byte) * word_of_nat (le_nat bs) = 0" by (metis mult_zero_left)
    then show ?thesis by simp
  qed
  ultimately show ?case using Cons by simp
qed simp

lemma be_nat_be_bytes: "be_nat (be_bytes n v) = v mod 256 ^ n"
  by (simp add: be_nat_def be_bytes_def le_nat_le_bytes)

lemma be_bytes_be_nat: "be_bytes (length bs) (be_nat bs) = bs"
  using le_bytes_le_nat [of "rev bs"] by (simp add: be_nat_def be_bytes_def)

lemma le_nat_inj: "length xs = length ys \<Longrightarrow> le_nat xs = le_nat ys \<longleftrightarrow> xs = ys"
  by (metis le_bytes_le_nat)

lemma be_nat_inj: "length xs = length ys \<Longrightarrow> be_nat xs = be_nat ys \<longleftrightarrow> xs = ys"
  by (metis be_bytes_be_nat)

lemma le_nat_append: "le_nat (xs @ ys) = le_nat xs + 256 ^ length xs * le_nat ys"
  by (induction xs) (simp_all add: algebra_simps)

lemma be_nat_append: "be_nat (xs @ ys) = be_nat xs * 256 ^ length ys + be_nat ys"
  by (simp add: be_nat_def le_nat_append algebra_simps)

lemma be_nat_simps [simp]:
  "be_nat [] = 0"
  "be_nat (b # bs) = unat b * 256 ^ length bs + be_nat bs"
  using be_nat_append [of "[b]" bs] by (simp_all add: be_nat_def)

lemma le_nat_replicate_0 [simp]: "le_nat (replicate n 0) = 0"
  by (induction n) auto

lemma be_nat_replicate_0 [simp]: "be_nat (replicate n 0) = 0"
  by (simp add: be_nat_def)

subsection \<open>Fixed-width integers\<close>

definition u16_to_le :: "u16 \<Rightarrow> bytes" where "u16_to_le w = le_bytes 2 (unat w)"
definition u32_to_le :: "u32 \<Rightarrow> bytes" where "u32_to_le w = le_bytes 4 (unat w)"
definition u64_to_le :: "u64 \<Rightarrow> bytes" where "u64_to_le w = le_bytes 8 (unat w)"
definition u64_to_be :: "u64 \<Rightarrow> bytes" where "u64_to_be w = be_bytes 8 (unat w)"

definition u16_of_le :: "bytes \<Rightarrow> u16" where "u16_of_le bs = word_of_nat (le_nat bs)"
definition u32_of_le :: "bytes \<Rightarrow> u32" where "u32_of_le bs = word_of_nat (le_nat bs)"
definition u64_of_le :: "bytes \<Rightarrow> u64" where "u64_of_le bs = word_of_nat (le_nat bs)"
definition u64_of_be :: "bytes \<Rightarrow> u64" where "u64_of_be bs = word_of_nat (be_nat bs)"
definition u16_of_be :: "bytes \<Rightarrow> u16" where "u16_of_be bs = word_of_nat (be_nat bs)"

lemmas int_bytes_defs =
  u16_to_le_def u32_to_le_def u64_to_le_def u64_to_be_def
  u16_of_le_def u32_of_le_def u64_of_le_def u64_of_be_def u16_of_be_def

lemma length_int_bytes [simp]:
  "length (u16_to_le a) = 2" "length (u32_to_le b) = 4"
  "length (u64_to_le c) = 8" "length (u64_to_be c) = 8"
  by (simp_all add: int_bytes_defs)

lemma unat_less_256_pow:
  "unat (a::u16) < 256 ^ 2" "unat (b::u32) < 256 ^ 4" "unat (c::u64) < 256 ^ 8"
  using unat_less_pow [of a] unat_less_pow [of b] unat_less_pow [of c] by simp_all

lemma int_of_bytes [simp]:
  "u16_of_le (u16_to_le a) = a"
  "u32_of_le (u32_to_le b) = b"
  "u64_of_le (u64_to_le c) = c"
  "u64_of_be (u64_to_be c) = c"
  using unat_less_256_pow(1) [of a] unat_less_256_pow(2) [of b] unat_less_256_pow(3) [of c]
  by (simp_all add: int_bytes_defs le_nat_le_bytes be_nat_be_bytes)

lemma unat_word_of_nat_small:
  "n < 2 ^ LENGTH('w::len) \<Longrightarrow> unat (word_of_nat n :: 'w word) = n"
  by (simp add: unat_of_nat)

lemma unat_int_of_bytes:
  "length bs = 2 \<Longrightarrow> unat (u16_of_le bs) = le_nat bs"
  "length bs = 4 \<Longrightarrow> unat (u32_of_le bs) = le_nat bs"
  "length bs = 8 \<Longrightarrow> unat (u64_of_le bs) = le_nat bs"
  "length bs = 8 \<Longrightarrow> unat (u64_of_be bs) = be_nat bs"
  using le_nat_less [of bs] be_nat_less [of bs]
  by (simp_all add: int_bytes_defs unat_of_nat)

lemma bytes_of_int [simp]:
  "length bs = 2 \<Longrightarrow> u16_to_le (u16_of_le bs) = bs"
  "length bs = 4 \<Longrightarrow> u32_to_le (u32_of_le bs) = bs"
  "length bs = 8 \<Longrightarrow> u64_to_le (u64_of_le bs) = bs"
  "length bs = 8 \<Longrightarrow> u64_to_be (u64_of_be bs) = bs"
  using le_bytes_le_nat [of bs] be_bytes_be_nat [of bs]
  by (simp_all add: u16_to_le_def u32_to_le_def u64_to_le_def u64_to_be_def unat_int_of_bytes)

lemma int_bytes_inj [simp]:
  "u16_to_le a = u16_to_le a' \<longleftrightarrow> a = a'"
  "u32_to_le b = u32_to_le b' \<longleftrightarrow> b = b'"
  "u64_to_le c = u64_to_le c' \<longleftrightarrow> c = c'"
  by (metis int_of_bytes)+

section \<open>Lists\<close>

definition slice_of :: "nat \<Rightarrow> nat \<Rightarrow> 'a list \<Rightarrow> 'a list" where
  "slice_of from to xs = take (to - from) (drop from xs)"

definition get :: "'a list \<Rightarrow> nat \<Rightarrow> 'a option" where
  "get xs i = (if i < length xs then Some (xs ! i) else None)"

definition get_range :: "'a list \<Rightarrow> nat \<Rightarrow> nat \<Rightarrow> 'a list option" where
  "get_range xs from to = (if from \<le> to \<and> to \<le> length xs then Some (slice_of from to xs) else None)"

definition as_array :: "nat \<Rightarrow> 'a list \<Rightarrow> 'a list option" where
  "as_array n xs = (if length xs = n then Some xs else None)"

lemma as_array_Some [simp]: "as_array n xs = Some ys \<longleftrightarrow> length xs = n \<and> ys = xs"
  by (auto simp: as_array_def)

lemma as_array_None [simp]: "as_array n xs = None \<longleftrightarrow> length xs \<noteq> n"
  by (auto simp: as_array_def)

lemma get_Some: "get xs i = Some x \<longleftrightarrow> i < length xs \<and> xs ! i = x"
  by (auto simp: get_def)

lemma get_None: "get xs i = None \<longleftrightarrow> length xs \<le> i"
  by (auto simp: get_def)

lemma get_append_length [simp]: "get (xs @ y # ys) (length xs) = Some y"
  by (simp add: get_def)

lemma length_slice [simp]: "to \<le> length xs \<Longrightarrow> length (slice_of from to xs) = to - from"
  by (simp add: slice_of_def)

lemma slice_append:
  "slice_of (length xs) (length xs + n) (xs @ ys) = take n ys"
  by (simp add: slice_of_def)

definition div_ceil :: "nat \<Rightarrow> nat \<Rightarrow> nat" where
  "div_ceil a b = (a + b - 1) div b"

section \<open>Hash functions without accidents\<close>

text \<open>No two strings of the list collide, and none hashes to 32 zero bytes.\<close>

definition collision_free :: "(bytes \<Rightarrow> bytes) \<Rightarrow> bytes list \<Rightarrow> bool" where
  "collision_free H xs \<longleftrightarrow>
     (\<forall>x\<in>set xs. H x \<noteq> replicate 32 0 \<and> (\<forall>y\<in>set xs. H x = H y \<longrightarrow> x = y))"

lemma collision_free_code [code]:
  "collision_free H xs =
     (let hs = map H (remdups xs) in list_all (\<lambda>h. h \<noteq> replicate 32 0) hs \<and> distinct hs)"
  by (auto simp: collision_free_def Let_def list_all_iff distinct_map inj_on_def)

lemma collision_freeD:
  assumes "collision_free H xs"
  shows "x \<in> set xs \<Longrightarrow> y \<in> set xs \<Longrightarrow> H x = H y \<Longrightarrow> x = y"
    and "x \<in> set xs \<Longrightarrow> H x \<noteq> replicate 32 0"
  using assms by (auto simp: collision_free_def)

text \<open>A toy hash to 32 bytes for concrete examples.\<close>

definition sample_hash :: "bytes \<Rightarrow> bytes" where
  "sample_hash bs = replicate 30 0xaa @ [sum_list bs, word_of_nat (length bs)]"

end
