(* ===== verification/Encoding.thy ===== *)
theory Encoding
  imports Prelude
begin

text \<open>
  Model of \<^verbatim>\<open>crates/hns-encoding/src/lib.rs\<close>: the bounded little-endian decoder, the
  encoder, compact sizes and varbytes. A \<^verbatim>\<open>&mut Decoder\<close> operation is a reader: a
  function from the decoder to an error or a value with the advanced decoder. Every
  caller in the repository propagates a decoding error with the question mark and drops the
  decoder, so the state after an error is not part of the model.

  The interface that message codecs rely on is the locale \<open>codec\<close>: an encoding is read
  back, whatever follows it, and a successful read has consumed exactly the encoding of
  its value. Its instances for the integers, compact sizes, arrays and varbytes are
  interpretations at the end of the theory.
\<close>

section \<open>Decoder\<close>

datatype decode_error =
    UnexpectedEnd nat nat
  | LengthExceedsBound nat nat
  | TrailingBytes nat
  | InvalidValue string string

record decoder =
  dec_input :: bytes
  dec_position :: nat

type_synonym ('e, 'a) reader = "decoder \<Rightarrow> 'e + 'a \<times> decoder"

definition dreturn :: "'a \<Rightarrow> ('e, 'a) reader" where
  "dreturn x d = Inr (x, d)"

definition derror :: "'e \<Rightarrow> ('e, 'a) reader" where
  "derror e d = Inl e"

definition dbind :: "('e, 'a) reader \<Rightarrow> ('a \<Rightarrow> ('e, 'b) reader) \<Rightarrow> ('e, 'b) reader" where
  "dbind p f d = bind_res (p d) (\<lambda>(x, d'). f x d')"

definition dlift :: "('e \<Rightarrow> 'f) \<Rightarrow> ('e, 'a) reader \<Rightarrow> ('f, 'a) reader" where
  "dlift g p d = map_err g (p d)"

definition dcheck :: "'e + 'a \<Rightarrow> ('e, 'a) reader" where
  "dcheck m d = bind_res m (\<lambda>x. Inr (x, d))"

definition decoder_new :: "bytes \<Rightarrow> decoder" where
  "decoder_new bs = \<lparr>dec_input = bs, dec_position = 0\<rparr>"

definition decoder_position :: "('e, nat) reader" where
  "decoder_position d = Inr (dec_position d, d)"

definition decoder_remaining :: "decoder \<Rightarrow> nat" where
  "decoder_remaining d = length (dec_input d) - dec_position d"

definition read_slice :: "nat \<Rightarrow> (decode_error, bytes) reader" where
  "read_slice n d =
     bind_res
       (ok_or (checked_add_usize (dec_position d) n)
          (LengthExceedsBound usize_max (decoder_remaining d)))
       (\<lambda>end_pos.
          if end_pos > length (dec_input d)
          then Inl (UnexpectedEnd (dec_position d) (end_pos - length (dec_input d)))
          else Inr (slice_of (dec_position d) end_pos (dec_input d), d\<lparr>dec_position := end_pos\<rparr>))"

definition read_array :: "nat \<Rightarrow> (decode_error, bytes) reader" where
  "read_array n = read_slice n"

definition read_u8 :: "(decode_error, byte) reader" where
  "read_u8 = dbind (read_array 1) (\<lambda>bs. dreturn (bs ! 0))"

definition read_u16_le :: "(decode_error, u16) reader" where
  "read_u16_le = dbind (read_array 2) (\<lambda>bs. dreturn (u16_of_le bs))"

definition read_u32_le :: "(decode_error, u32) reader" where
  "read_u32_le = dbind (read_array 4) (\<lambda>bs. dreturn (u32_of_le bs))"

definition read_u64_le :: "(decode_error, u64) reader" where
  "read_u64_le = dbind (read_array 8) (\<lambda>bs. dreturn (u64_of_le bs))"

definition read_compact_size :: "(decode_error, u64) reader" where
  "read_compact_size =
     dbind read_u8 (\<lambda>tag.
       if tag \<le> 0xfc then dreturn (ucast tag)
       else if tag = 0xfd then
         dbind read_u16_le (\<lambda>v. let value = (ucast v :: u64) in
           if value < 0xfd then derror (InvalidValue ''compact size'' ''noncanonical u16 encoding'')
           else dreturn value)
       else if tag = 0xfe then
         dbind read_u32_le (\<lambda>v. let value = (ucast v :: u64) in
           if value \<le> 0xffff then derror (InvalidValue ''compact size'' ''noncanonical u32 encoding'')
           else dreturn value)
       else
         dbind read_u64_le (\<lambda>value.
           if value \<le> 0xffffffff then derror (InvalidValue ''compact size'' ''noncanonical u64 encoding'')
           else dreturn value))"

text \<open>
  On a 64-bit target \<^verbatim>\<open>usize::try_from\<close> of a \<^verbatim>\<open>u64\<close> always succeeds, so its error
  branch is unreachable and the conversion is \<open>unat\<close>.
\<close>

definition read_compact_usize :: "nat \<Rightarrow> (decode_error, nat) reader" where
  "read_compact_usize maximum =
     dbind read_compact_size (\<lambda>v.
       if unat v > maximum then derror (LengthExceedsBound (unat v) maximum)
       else dreturn (unat v))"

definition read_bounded_vec :: "nat \<Rightarrow> nat \<Rightarrow> (decode_error, bytes) reader" where
  "read_bounded_vec len maximum =
     (if len > maximum then derror (LengthExceedsBound len maximum) else read_slice len)"

definition read_varbytes :: "nat \<Rightarrow> (decode_error, bytes) reader" where
  "read_varbytes maximum =
     dbind (read_compact_usize maximum) (\<lambda>len. read_bounded_vec len maximum)"

definition decoder_finish :: "decoder \<Rightarrow> decode_error + unit" where
  "decoder_finish d =
     (if decoder_remaining d = 0 then Inr () else Inl (TrailingBytes (decoder_remaining d)))"

text \<open>A counted loop that pushes one element per round.\<close>

primrec read_times :: "nat \<Rightarrow> ('e, 'a) reader \<Rightarrow> ('e, 'a list) reader" where
  "read_times 0 p = dreturn []"
| "read_times (Suc n) p = dbind p (\<lambda>x. dbind (read_times n p) (\<lambda>xs. dreturn (x # xs)))"

section \<open>Encoder\<close>

record encoder =
  enc_bytes :: bytes

definition encoder_new :: encoder where
  "encoder_new = \<lparr>enc_bytes = []\<rparr>"

definition put_bytes :: "bytes \<Rightarrow> encoder \<Rightarrow> encoder" where
  "put_bytes bs e = e\<lparr>enc_bytes := enc_bytes e @ bs\<rparr>"

definition put_u8 :: "byte \<Rightarrow> encoder \<Rightarrow> encoder" where
  "put_u8 v e = e\<lparr>enc_bytes := enc_bytes e @ [v]\<rparr>"

definition put_u16_le :: "u16 \<Rightarrow> encoder \<Rightarrow> encoder" where
  "put_u16_le v e = e\<lparr>enc_bytes := enc_bytes e @ u16_to_le v\<rparr>"

definition put_u32_le :: "u32 \<Rightarrow> encoder \<Rightarrow> encoder" where
  "put_u32_le v e = e\<lparr>enc_bytes := enc_bytes e @ u32_to_le v\<rparr>"

definition put_u64_le :: "u64 \<Rightarrow> encoder \<Rightarrow> encoder" where
  "put_u64_le v e = e\<lparr>enc_bytes := enc_bytes e @ u64_to_le v\<rparr>"

definition put_compact_size :: "u64 \<Rightarrow> encoder \<Rightarrow> encoder" where
  "put_compact_size v e =
     (if v \<le> 0xfc then put_u8 (ucast v) e
      else if v \<le> 0xffff then put_u16_le (ucast v) (put_u8 0xfd e)
      else if v \<le> 0xffffffff then put_u32_le (ucast v) (put_u8 0xfe e)
      else put_u64_le v (put_u8 0xff e))"

definition put_varbytes :: "bytes \<Rightarrow> encoder \<Rightarrow> encoder" where
  "put_varbytes bs e = put_bytes bs (put_compact_size (word_of_nat (length bs)) e)"

definition into_bytes :: "encoder \<Rightarrow> bytes" where
  "into_bytes e = enc_bytes e"

text \<open>A straight-line sequence of encoder calls, in source order.\<close>

definition put_seq :: "(encoder \<Rightarrow> encoder) list \<Rightarrow> encoder \<Rightarrow> encoder" where
  "put_seq ps e = foldl (\<lambda>e p. p e) e ps"

definition encode_with :: "(encoder \<Rightarrow> encoder) list \<Rightarrow> bytes" where
  "encode_with ps = into_bytes (put_seq ps encoder_new)"

text \<open>The bytes a compact size and a length-prefixed string contribute.\<close>

definition compact_bytes :: "u64 \<Rightarrow> bytes" where
  "compact_bytes v = into_bytes (put_compact_size v encoder_new)"

definition var_bytes :: "bytes \<Rightarrow> bytes" where
  "var_bytes bs = into_bytes (put_varbytes bs encoder_new)"

section \<open>Encoder lemmas\<close>

lemma into_bytes_put [simp]:
  "into_bytes encoder_new = []"
  "into_bytes (put_bytes bs e) = into_bytes e @ bs"
  "into_bytes (put_u8 b e) = into_bytes e @ [b]"
  "into_bytes (put_u16_le v16 e) = into_bytes e @ u16_to_le v16"
  "into_bytes (put_u32_le v32 e) = into_bytes e @ u32_to_le v32"
  "into_bytes (put_u64_le v64 e) = into_bytes e @ u64_to_le v64"
  by (simp_all add: into_bytes_def encoder_new_def put_bytes_def put_u8_def
      put_u16_le_def put_u32_le_def put_u64_le_def)

lemma compact_bytes_eq:
  "compact_bytes v =
     (if v \<le> 0xfc then [ucast v]
      else if v \<le> 0xffff then 0xfd # u16_to_le (ucast v)
      else if v \<le> 0xffffffff then 0xfe # u32_to_le (ucast v)
      else 0xff # u64_to_le v)"
  by (simp add: compact_bytes_def put_compact_size_def)

lemma into_bytes_put_compact_size [simp]:
  "into_bytes (put_compact_size v e) = into_bytes e @ compact_bytes v"
  by (simp add: compact_bytes_eq put_compact_size_def)

lemma var_bytes_eq: "var_bytes bs = compact_bytes (word_of_nat (length bs)) @ bs"
  by (simp add: var_bytes_def put_varbytes_def)

lemma into_bytes_put_varbytes [simp]:
  "into_bytes (put_varbytes bs e) = into_bytes e @ var_bytes bs"
  by (simp add: put_varbytes_def var_bytes_eq)

lemma put_seq_simps [simp]:
  "put_seq [] e = e"
  "put_seq (p # ps) e = put_seq ps (p e)"
  by (simp_all add: put_seq_def)

lemma put_seq_append: "put_seq (ps @ qs) e = put_seq qs (put_seq ps e)"
  by (simp add: put_seq_def)

lemma into_bytes_put_seq_map:
  assumes "\<And>x e. into_bytes (p x e) = into_bytes e @ f x"
  shows "into_bytes (put_seq (map p xs) e) = into_bytes e @ concat (map f xs)"
  by (induction xs arbitrary: e) (simp_all add: assms)

section \<open>Cursors\<close>

text \<open>A decoder that has consumed \<open>pre\<close> and has \<open>rest\<close> ahead of it.\<close>

definition cursor :: "bytes \<Rightarrow> bytes \<Rightarrow> decoder" where
  "cursor pre rest = \<lparr>dec_input = pre @ rest, dec_position = length pre\<rparr>"

definition fits :: "bytes \<Rightarrow> bytes \<Rightarrow> bool" where
  "fits pre rest \<longleftrightarrow> length pre + length rest \<le> usize_max"

lemma cursor_inject [simp]: "cursor p r = cursor p' r' \<longleftrightarrow> p = p' \<and> r = r'"
  by (auto simp: cursor_def)

lemma cursor_sel [simp]:
  "dec_position (cursor pre rest) = length pre"
  "decoder_remaining (cursor pre rest) = length rest"
  "dec_input (cursor pre rest) = pre @ rest"
  by (simp_all add: cursor_def decoder_remaining_def)

lemma decoder_new_cursor: "decoder_new bs = cursor [] bs"
  by (simp add: decoder_new_def cursor_def)

lemma decoder_is_cursor:
  "dec_position d \<le> length (dec_input d) \<Longrightarrow>
     d = cursor (take (dec_position d) (dec_input d)) (drop (dec_position d) (dec_input d))"
  by (cases d) (simp add: cursor_def)

lemma fits_append [simp]: "fits (pre @ xs) rest \<longleftrightarrow> fits pre (xs @ rest)"
  by (auto simp: fits_def)

lemma fits_prefix: "fits pre (xs @ rest) \<Longrightarrow> length pre + length xs \<le> usize_max"
  by (simp add: fits_def)

lemma reader_simps [simp, res_simps]:
  "dreturn x d = Inr (x, d)"
  "derror e d = Inl e"
  "dlift g p d = map_err g (p d)"
  "dcheck m d = bind_res m (\<lambda>x. Inr (x, d))"
  "decoder_position d = Inr (dec_position d, d)"
  by (simp_all add: dreturn_def derror_def dlift_def dcheck_def decoder_position_def)

lemma dbind_eq_Inr [res_splits]:
  "dbind p f d = Inr r \<longleftrightarrow> (\<exists>x d'. p d = Inr (x, d') \<and> f x d' = Inr r)"
  by (auto simp: dbind_def bind_res_eq_Inr)

lemma dbind_run [res_simps]: "p d = Inr (x, d') \<Longrightarrow> dbind p f d = f x d'"
  by (simp add: dbind_def)

lemma dbind_fail [res_simps]: "p d = Inl e \<Longrightarrow> dbind p f d = Inl e"
  by (simp add: dbind_def)

lemma dbind_cong [fundef_cong]:
  assumes "p d = p' d'" and "\<And>x d''. p' d' = Inr (x, d'') \<Longrightarrow> f x d'' = f' x d''" and "d = d'"
  shows "dbind p f d = dbind p' f' d'"
  using assms by (cases "p' d'") (auto simp: dbind_def)

lemma read_slice_cursor:
  "read_slice n (cursor pre rest) =
     (if usize_max < length pre + n then Inl (LengthExceedsBound usize_max (length rest))
      else if length rest < n then Inl (UnexpectedEnd (length pre) (n - length rest))
      else Inr (take n rest, cursor (pre @ take n rest) (drop n rest)))"
  by (auto simp: read_slice_def checked_add_usize_def slice_append cursor_def
      decoder_remaining_def min_def)

lemma read_slice_run [simp]:
  "fits pre (bs @ suf) \<Longrightarrow> length bs = n \<Longrightarrow>
     read_slice n (cursor pre (bs @ suf)) = Inr (bs, cursor (pre @ bs) suf)"
  by (auto simp: read_slice_cursor fits_def)

lemma read_slice_back:
  assumes "read_slice n (cursor pre rest) = Inr (bs, d')"
  shows "length bs = n \<and> (\<exists>suf. rest = bs @ suf \<and> d' = cursor (pre @ bs) suf)"
  using assms by (auto simp: read_slice_cursor split: if_splits intro: exI [of _ "drop n rest"])

lemma read_array_length: "read_array n d = Inr (bs, d') \<Longrightarrow> length bs = n"
  by (auto simp: read_array_def read_slice_def bind_res_eq_Inr checked_add_usize_def split: if_splits)

lemma decoder_finish_cursor [simp]:
  "decoder_finish (cursor pre rest) = (if rest = [] then Inr () else Inl (TrailingBytes (length rest)))"
  by (simp add: decoder_finish_def)

section \<open>The codec interface\<close>

locale codec =
  fixes enc :: "'a \<Rightarrow> bytes"
    and rd :: "decoder \<Rightarrow> 'e + 'a \<times> decoder"
    and vld :: "'a \<Rightarrow> bool"
  assumes reads: "vld v \<Longrightarrow> fits pre (enc v @ suf) \<Longrightarrow>
      rd (cursor pre (enc v @ suf)) = Inr (v, cursor (pre @ enc v) suf)"
    and reads_back: "rd (cursor pre rest) = Inr (v, d') \<Longrightarrow>
      vld v \<and> (\<exists>suf. rest = enc v @ suf \<and> d' = cursor (pre @ enc v) suf)"
begin

lemma prefix_free:
  assumes "vld v" and "vld w" and eq: "enc v @ xs = enc w @ ys"
    and "fits [] (enc v @ xs)"
  shows "v = w \<and> xs = ys"
proof -
  have "rd (cursor [] (enc v @ xs)) = Inr (v, cursor (enc v) xs)"
    using reads [of v "[]" xs] assms(1,4) by simp
  moreover have "rd (cursor [] (enc w @ ys)) = Inr (w, cursor (enc w) ys)"
    using reads [of w "[]" ys] assms(2,4) unfolding eq by simp
  ultimately have "Inr (v, cursor (enc v) xs) = (Inr (w, cursor (enc w) ys) :: 'e + 'a \<times> decoder)"
    unfolding eq by (rule trans [OF sym])
  then show ?thesis by simp
qed

lemma enc_inj: "vld v \<Longrightarrow> vld w \<Longrightarrow> fits [] (enc v) \<Longrightarrow> enc v = enc w \<longleftrightarrow> v = w"
  using prefix_free [of v w "[]" "[]"] by auto

lemma rd_iff:
  assumes "fits pre rest"
  shows "rd (cursor pre rest) = Inr (v, d') \<longleftrightarrow>
    vld v \<and> (\<exists>suf. rest = enc v @ suf \<and> d' = cursor (pre @ enc v) suf)"
proof
  assume "rd (cursor pre rest) = Inr (v, d')"
  then show "vld v \<and> (\<exists>suf. rest = enc v @ suf \<and> d' = cursor (pre @ enc v) suf)" by (rule reads_back)
next
  assume "vld v \<and> (\<exists>suf. rest = enc v @ suf \<and> d' = cursor (pre @ enc v) suf)"
  then show "rd (cursor pre rest) = Inr (v, d')" using assms reads by auto
qed

lemma times_reads:
  assumes "\<forall>v \<in> set vs. vld v" and "fits pre (concat (map enc vs) @ suf)"
  shows "read_times (length vs) rd (cursor pre (concat (map enc vs) @ suf)) =
    Inr (vs, cursor (pre @ concat (map enc vs)) suf)"
  using assms
proof (induction vs arbitrary: pre)
  case (Cons v vs)
  have "rd (cursor pre (enc v @ concat (map enc vs) @ suf)) =
      Inr (v, cursor (pre @ enc v) (concat (map enc vs) @ suf))"
    using Cons.prems by (intro reads) simp_all
  moreover have "read_times (length vs) rd (cursor (pre @ enc v) (concat (map enc vs) @ suf)) =
      Inr (vs, cursor ((pre @ enc v) @ concat (map enc vs)) suf)"
    using Cons.prems by (intro Cons.IH) simp_all
  ultimately show ?case by (simp add: dbind_run)
qed simp

lemma times_back:
  assumes "read_times n rd (cursor pre rest) = Inr (vs, d')"
  shows "length vs = n \<and> (\<forall>v \<in> set vs. vld v) \<and>
    (\<exists>suf. rest = concat (map enc vs) @ suf \<and> d' = cursor (pre @ concat (map enc vs)) suf)"
  using assms
proof (induction n arbitrary: pre rest vs d')
  case (Suc n)
  from Suc.prems obtain v d1 ws d2 where
    1: "rd (cursor pre rest) = Inr (v, d1)" and
    2: "read_times n rd d1 = Inr (ws, d2)" and vs: "vs = v # ws" "d' = d2"
    by (auto simp: dbind_eq_Inr)
  from reads_back [OF 1] obtain suf where vld: "vld v" and rest: "rest = enc v @ suf"
    and d1: "d1 = cursor (pre @ enc v) suf" by auto
  from Suc.IH [OF 2 [unfolded d1]] show ?case using vld rest vs by auto
qed simp

end

lemma codec_dlift: "codec enc rd vld \<Longrightarrow> codec enc (dlift g rd) vld"
  by (auto simp: codec_def)

lemma codec_map:
  assumes "codec enc rd vld" and inv: "\<And>v. vld v \<Longrightarrow> g (f v) = v"
    and inv': "\<And>w. vld' w \<longleftrightarrow> vld (g w) \<and> f (g w) = w"
  shows "codec (\<lambda>w. enc (g w)) (dbind rd (\<lambda>v. dreturn (f v))) vld'"
proof (rule codec.intro)
  fix w pre suf
  assume "vld' w" and "fits pre (enc (g w) @ suf)"
  then show "dbind rd (\<lambda>v. dreturn (f v)) (cursor pre (enc (g w) @ suf)) =
      Inr (w, cursor (pre @ enc (g w)) suf)"
    using codec.reads [OF assms(1), of "g w" pre suf] inv' by (simp add: dbind_run)
next
  fix pre rest w d'
  assume "dbind rd (\<lambda>v. dreturn (f v)) (cursor pre rest) = Inr (w, d')"
  then obtain v where v: "rd (cursor pre rest) = Inr (v, d')" and w: "w = f v"
    by (auto simp: dbind_eq_Inr)
  from codec.reads_back [OF assms(1) v] show
    "vld' w \<and> (\<exists>suf. rest = enc (g w) @ suf \<and> d' = cursor (pre @ enc (g w)) suf)"
    using inv inv' w by auto
qed

section \<open>Instances\<close>

interpretation arr: codec "\<lambda>bs. bs" "read_array n" "\<lambda>bs. length bs = n" for n
  by unfold_locales (auto simp: read_array_def dest: read_slice_back)

lemma codec_fixed:
  assumes inv: "\<And>v. length (to v) = n \<and> of_bs (to v) = v"
    and inv': "\<And>bs. length bs = n \<Longrightarrow> to (of_bs bs) = bs"
  shows "codec to (dbind (read_array n) (\<lambda>bs. dreturn (of_bs bs))) (\<lambda>_. True)"
  by (rule codec_map [OF arr.codec_axioms]) (auto simp: inv inv')

interpretation u8: codec "\<lambda>b. [b]" read_u8 "\<lambda>_. True"
  unfolding read_u8_def by (rule codec_fixed) (auto simp: length_Suc_conv)

interpretation u16: codec u16_to_le read_u16_le "\<lambda>_. True"
  unfolding read_u16_le_def by (rule codec_fixed) simp_all

interpretation u32: codec u32_to_le read_u32_le "\<lambda>_. True"
  unfolding read_u32_le_def by (rule codec_fixed) simp_all

interpretation u64: codec u64_to_le read_u64_le "\<lambda>_. True"
  unfolding read_u64_le_def by (rule codec_fixed) simp_all

lemma read_u8_run [simp]:
  "fits pre (b # suf) \<Longrightarrow> read_u8 (cursor pre (b # suf)) = Inr (b, cursor (pre @ [b]) suf)"
  using u8.reads [where v = b and pre = pre and suf = suf] by simp

lemma read_u8_back:
  "read_u8 (cursor pre rest) = Inr (b, d') \<Longrightarrow>
     \<exists>suf. rest = b # suf \<and> d' = cursor (pre @ [b]) suf"
  using u8.reads_back [of pre rest b d'] by simp

lemmas fixed_reads [simp] =
  u16.reads [OF TrueI] u32.reads [OF TrueI] u64.reads [OF TrueI] arr.reads

subsection \<open>Compact sizes\<close>

lemma ucast_le_iff:
  "(ucast (a::u16) :: u64) \<le> 0xffff" "(ucast (b::u32) :: u64) \<le> 0xffffffff"
  "unat (ucast a :: u64) = unat a" "unat (ucast b :: u64) = unat b"
  "unat (ucast c :: u64) = unat (c::byte)"
proof -
  have "unat c < 18446744073709551616" using unat_byte_less [of c] by linarith
  then show "(ucast a :: u64) \<le> 0xffff" "(ucast b :: u64) \<le> 0xffffffff"
    "unat (ucast a :: u64) = unat a" "unat (ucast b :: u64) = unat b"
    "unat (ucast c :: u64) = unat c"
    using unat_less_pow [of a] unat_less_pow [of b]
    by (simp_all add: word_le_nat_alt unat_ucast_mod)
qed

lemma ucast_ucast_back:
  "(v::u64) \<le> 0xffff \<Longrightarrow> ucast (ucast v :: u16) = v"
  "v \<le> 0xffffffff \<Longrightarrow> ucast (ucast v :: u32) = v"
  "v \<le> 0xfc \<Longrightarrow> ucast (ucast v :: byte) = v"
  by (simp_all add: word_unat_eq_iff word_le_nat_alt unat_ucast_mod ucast_le_iff)

lemma ucast_up_down:
  "ucast (ucast (a::u16) :: u64) = a" "ucast (ucast (b::u32) :: u64) = b"
  "ucast (ucast (c::byte) :: u64) = c"
  by (simp_all add: word_unat_eq_iff unat_ucast_mod ucast_le_iff unat_less_pow [THEN less_le_trans])

lemma compact_reads:
  assumes "fits pre (compact_bytes v @ suf)"
  shows "read_compact_size (cursor pre (compact_bytes v @ suf)) =
    Inr (v, cursor (pre @ compact_bytes v) suf)"
proof -
  consider "v \<le> 0xfc" | "\<not> v \<le> 0xfc" "v \<le> 0xffff" | "\<not> v \<le> 0xfc" "\<not> v \<le> 0xffff" "v \<le> 0xffffffff"
    | "\<not> v \<le> 0xfc" "\<not> v \<le> 0xffff" "\<not> v \<le> 0xffffffff"
    by blast
  then show ?thesis
  proof cases
    case 1
    then have "(ucast v :: byte) \<le> 0xfc"
      by (simp add: word_le_nat_alt unat_ucast_mod)
    with 1 assms show ?thesis
      by (simp add: compact_bytes_eq read_compact_size_def dbind_run ucast_ucast_back)
  next
    case 2
    then have "\<not> v < 0xfd" by (simp add: word_le_nat_alt word_less_nat_alt)
    with 2 assms show ?thesis
      by (simp add: compact_bytes_eq read_compact_size_def dbind_run ucast_ucast_back)
  next
    case 3
    with assms show ?thesis
      by (simp add: compact_bytes_eq read_compact_size_def dbind_run ucast_ucast_back)
  next
    case 4
    with assms show ?thesis
      by (simp add: compact_bytes_eq read_compact_size_def dbind_run)
  qed
qed

lemma compact_back:
  assumes "read_compact_size (cursor pre rest) = Inr (v, d')"
  shows "\<exists>suf. rest = compact_bytes v @ suf \<and> d' = cursor (pre @ compact_bytes v) suf"
proof -
  from assms obtain tag d1 where tag: "read_u8 (cursor pre rest) = Inr (tag, d1)"
    by (auto simp: read_compact_size_def dbind_eq_Inr)
  from read_u8_back [OF tag] obtain suf where rest: "rest = tag # suf"
    and d1: "d1 = cursor (pre @ [tag]) suf" by auto
  consider "tag \<le> 0xfc" | "\<not> tag \<le> 0xfc" "tag = 0xfd" | "\<not> tag \<le> 0xfc" "tag = 0xfe"
    | "\<not> tag \<le> 0xfc" "tag \<noteq> 0xfd" "tag \<noteq> 0xfe" by blast
  then show ?thesis
  proof cases
    case 1
    then have "(ucast tag :: u64) \<le> 0xfc" by (simp add: word_le_nat_alt ucast_le_iff)
    with 1 assms tag d1 rest show ?thesis
      by (auto simp: read_compact_size_def dbind_run compact_bytes_eq ucast_up_down)
  next
    case 2
    with assms tag d1 obtain w where w: "read_u16_le (cursor (pre @ [tag]) suf) = Inr (w, d')"
      and v: "v = ucast w" "\<not> (ucast w :: u64) < 0xfd"
      by (auto simp: read_compact_size_def dbind_run dbind_eq_Inr Let_def split: if_splits)
    from v have "\<not> v \<le> 0xfc" by (simp add: word_le_nat_alt word_less_nat_alt)
    with v u16.reads_back [OF w] show ?thesis
      by (auto simp: compact_bytes_eq rest 2 ucast_le_iff ucast_up_down)
  next
    case 3
    with assms tag d1 obtain w where w: "read_u32_le (cursor (pre @ [tag]) suf) = Inr (w, d')"
      and v: "v = ucast w" "\<not> (ucast w :: u64) \<le> 0xffff"
      by (auto simp: read_compact_size_def dbind_run dbind_eq_Inr Let_def split: if_splits)
    from v have "\<not> v \<le> 0xfc" by (simp add: word_le_nat_alt)
    with v u32.reads_back [OF w] show ?thesis
      by (auto simp: compact_bytes_eq rest 3 ucast_le_iff ucast_up_down)
  next
    case 4
    then have "\<not> unat tag \<le> 252 \<and> unat tag \<noteq> 253 \<and> unat tag \<noteq> 254"
      by (simp add: word_le_nat_alt word_unat_eq_iff)
    with unat_byte_less [of tag] have "unat tag = 255" by linarith
    then have t: "tag = 0xff" by (simp add: word_unat_eq_iff)
    with 4 assms tag d1 have w: "read_u64_le (cursor (pre @ [tag]) suf) = Inr (v, d')"
      and v: "\<not> v \<le> 0xffffffff"
      by (auto simp: read_compact_size_def dbind_run dbind_eq_Inr Let_def split: if_splits)
    from v have "\<not> v \<le> 0xfc" "\<not> v \<le> 0xffff" by (simp_all add: word_le_nat_alt)
    with v u64.reads_back [OF w] show ?thesis
      by (auto simp: compact_bytes_eq rest t)
  qed
qed

interpretation compact: codec compact_bytes read_compact_size "\<lambda>_. True"
  by unfold_locales (simp_all add: compact_reads compact_back)

lemma length_compact_bytes:
  "length (compact_bytes v) =
     (if v \<le> 0xfc then 1 else if v \<le> 0xffff then 3 else if v \<le> 0xffffffff then 5 else 9)"
  by (simp add: compact_bytes_eq)

subsection \<open>Bounded lengths and byte strings\<close>

definition len_bytes :: "nat \<Rightarrow> bytes" where
  "len_bytes n = compact_bytes (word_of_nat n)"

lemma var_bytes_len: "var_bytes bs = len_bytes (length bs) @ bs"
  by (simp add: var_bytes_eq len_bytes_def)

interpretation len: codec len_bytes "read_compact_usize maximum" "\<lambda>n. n \<le> maximum \<and> n \<le> usize_max"
  for maximum
proof
  fix v pre suf
  assume v: "v \<le> maximum \<and> v \<le> usize_max" and "fits pre (len_bytes v @ suf)"
  then have "unat (word_of_nat v :: u64) = v" by (simp add: unat_of_nat usize_max_def)
  with v \<open>fits pre (len_bytes v @ suf)\<close> show
    "read_compact_usize maximum (cursor pre (len_bytes v @ suf)) = Inr (v, cursor (pre @ len_bytes v) suf)"
    by (simp add: read_compact_usize_def len_bytes_def dbind_run compact_reads)
next
  fix pre rest v d'
  assume "read_compact_usize maximum (cursor pre rest) = Inr (v, d')"
  then obtain w where w: "read_compact_size (cursor pre rest) = Inr (w, d')"
    and v: "v = unat w" "unat w \<le> maximum"
    by (auto simp: read_compact_usize_def dbind_eq_Inr split: if_splits)
  have "unat w \<le> usize_max" using unat_less_pow [of w] by (simp add: usize_max_def)
  with v compact_back [OF w] show "(v \<le> maximum \<and> v \<le> usize_max) \<and>
      (\<exists>suf. rest = len_bytes v @ suf \<and> d' = cursor (pre @ len_bytes v) suf)"
    by (simp add: len_bytes_def)
qed

lemma read_bounded_vec_run [simp]:
  "fits pre (bs @ suf) \<Longrightarrow> length bs = n \<Longrightarrow> n \<le> maximum \<Longrightarrow>
     read_bounded_vec n maximum (cursor pre (bs @ suf)) = Inr (bs, cursor (pre @ bs) suf)"
  by (simp add: read_bounded_vec_def)

lemma read_bounded_vec_back:
  assumes "read_bounded_vec n maximum (cursor pre rest) = Inr (bs, d')"
  shows "length bs = n \<and> n \<le> maximum \<and> (\<exists>suf. rest = bs @ suf \<and> d' = cursor (pre @ bs) suf)"
  using assms read_slice_back [of n pre rest bs d']
  by (auto simp: read_bounded_vec_def split: if_splits)

interpretation var: codec var_bytes "read_varbytes maximum"
    "\<lambda>bs. length bs \<le> maximum \<and> length bs \<le> usize_max" for maximum
proof
  fix bs pre suf
  assume "length bs \<le> maximum \<and> length bs \<le> usize_max" and "fits pre (var_bytes bs @ suf)"
  then show "read_varbytes maximum (cursor pre (var_bytes bs @ suf)) = Inr (bs, cursor (pre @ var_bytes bs) suf)"
    by (simp add: read_varbytes_def var_bytes_len dbind_run len.reads)
next
  fix pre rest bs d'
  assume "read_varbytes maximum (cursor pre rest) = Inr (bs, d')"
  then obtain n d1 where n: "read_compact_usize maximum (cursor pre rest) = Inr (n, d1)"
    and bs: "read_bounded_vec n maximum d1 = Inr (bs, d')"
    by (auto simp: read_varbytes_def dbind_eq_Inr)
  from len.reads_back [OF n] obtain suf where suf: "rest = len_bytes n @ suf" "n \<le> usize_max"
    and d1: "d1 = cursor (pre @ len_bytes n) suf" by auto
  from read_bounded_vec_back [OF bs [unfolded d1]] show
    "(length bs \<le> maximum \<and> length bs \<le> usize_max) \<and>
      (\<exists>suf. rest = var_bytes bs @ suf \<and> d' = cursor (pre @ var_bytes bs) suf)"
    using suf by (auto simp: var_bytes_len)
qed

lemmas codec_runs = compact.reads [OF TrueI] len.reads var.reads
lemmas codec_backs = read_u8_back u16.reads_back u32.reads_back u64.reads_back arr.reads_back
  compact.reads_back len.reads_back var.reads_back read_bounded_vec_back

section \<open>Readers under a budget\<close>

text \<open>
  A reader inside a larger message, which may consume at most \<open>maximum\<close> bytes counted from
  the position \<open>start\<close> where the message began.
\<close>

locale budgeted =
  fixes enc :: "'a \<Rightarrow> bytes"
    and rd :: "nat \<Rightarrow> nat \<Rightarrow> decoder \<Rightarrow> 'e + 'a \<times> decoder"
    and vld :: "'a \<Rightarrow> bool"
  assumes within: "vld v \<Longrightarrow> fits pre (enc v @ suf) \<Longrightarrow> start \<le> length pre \<Longrightarrow>
      length (pre @ enc v) - start \<le> maximum \<Longrightarrow>
      rd start maximum (cursor pre (enc v @ suf)) = Inr (v, cursor (pre @ enc v) suf)"
    and within_back: "rd start maximum (cursor pre rest) = Inr (v, d') \<Longrightarrow> start \<le> length pre \<Longrightarrow>
      length pre - start \<le> maximum \<Longrightarrow>
      vld v \<and> length (pre @ enc v) - start \<le> maximum \<and>
      (\<exists>suf. rest = enc v @ suf \<and> d' = cursor (pre @ enc v) suf)"
begin

lemma times_within:
  assumes "\<forall>v \<in> set vs. vld v" and "fits pre (concat (map enc vs) @ suf)" and "start \<le> length pre"
    and "length (pre @ concat (map enc vs)) - start \<le> maximum"
  shows "read_times (length vs) (rd start maximum) (cursor pre (concat (map enc vs) @ suf)) =
    Inr (vs, cursor (pre @ concat (map enc vs)) suf)"
  using assms
proof (induction vs arbitrary: pre)
  case (Cons v vs)
  have "rd start maximum (cursor pre (enc v @ concat (map enc vs) @ suf)) =
      Inr (v, cursor (pre @ enc v) (concat (map enc vs) @ suf))"
    using Cons.prems by (intro within) simp_all
  moreover have "read_times (length vs) (rd start maximum) (cursor (pre @ enc v) (concat (map enc vs) @ suf)) =
      Inr (vs, cursor ((pre @ enc v) @ concat (map enc vs)) suf)"
    using Cons.prems by (intro Cons.IH) simp_all
  ultimately show ?case by (simp add: dbind_run)
qed simp

lemma times_within_back:
  assumes "read_times n (rd start maximum) (cursor pre rest) = Inr (vs, d')"
    and "start \<le> length pre" and "length pre - start \<le> maximum"
  shows "length vs = n \<and> (\<forall>v \<in> set vs. vld v) \<and> length (pre @ concat (map enc vs)) - start \<le> maximum \<and>
    (\<exists>suf. rest = concat (map enc vs) @ suf \<and> d' = cursor (pre @ concat (map enc vs)) suf)"
  using assms
proof (induction n arbitrary: pre rest vs d')
  case (Suc n)
  from Suc.prems obtain v d1 ws where 1: "rd start maximum (cursor pre rest) = Inr (v, d1)"
    and 2: "read_times n (rd start maximum) d1 = Inr (ws, d')" and vs: "vs = v # ws"
    by (auto simp: dbind_eq_Inr)
  from within_back [OF 1 Suc.prems(2,3)] obtain suf where v: "vld v"
    "length (pre @ enc v) - start \<le> maximum" "rest = enc v @ suf" and d1: "d1 = cursor (pre @ enc v) suf" by auto
  from Suc.IH [OF 2 [unfolded d1]] v Suc.prems(2) vs show ?case by auto
qed simp

end

text \<open>
  The length-prefixed string under a budget, for any budget check with the usual meaning:
  the prefix, the check, and the string only if it fits what remains.
\<close>

lemma budgeted_varbytes:
  fixes budget :: "nat \<Rightarrow> nat \<Rightarrow> ('e, nat) reader"
  assumes budget: "\<And>start maximum pre rest. budget start maximum (cursor pre rest) =
      (if maximum < length pre - start then Inl (err (length pre - start) maximum)
       else Inr (maximum - (length pre - start), cursor pre rest))"
  shows "budgeted var_bytes (\<lambda>start maximum.
      dbind (dlift g (read_compact_usize m)) (\<lambda>len.
      dbind (budget start maximum) (\<lambda>remaining.
      dbind decoder_position (\<lambda>position.
        if remaining < len then derror (over position start len maximum)
        else dlift g (read_bounded_vec len remaining))))) (\<lambda>item. length item \<le> m)"
proof
  fix item pre suf start maximum
  assume vld: "length item \<le> m" and fit: "fits pre (var_bytes item @ suf)" and start: "start \<le> length pre"
    and fits: "length (pre @ var_bytes item) - start \<le> maximum"
  have "length item \<le> usize_max" using fit by (simp add: fits_def var_bytes_len)
  then have "read_compact_usize m (cursor pre (var_bytes item @ suf)) =
      Inr (length item, cursor (pre @ len_bytes (length item)) (item @ suf))"
    using vld fit by (simp add: var_bytes_len len.reads)
  moreover have "length pre + length (len_bytes (length item)) - start \<le> maximum"
    "length item \<le> maximum - (length pre + length (len_bytes (length item)) - start)"
    using fits start by (simp_all add: var_bytes_len)
  ultimately show "dbind (dlift g (read_compact_usize m)) (\<lambda>len. dbind (budget start maximum) (\<lambda>remaining.
      dbind decoder_position (\<lambda>position. if remaining < len then derror (over position start len maximum)
        else dlift g (read_bounded_vec len remaining)))) (cursor pre (var_bytes item @ suf)) =
      Inr (item, cursor (pre @ var_bytes item) suf)"
    using fit by (simp add: dbind_run var_bytes_len budget)
next
  fix start maximum pre rest item d'
  assume run: "dbind (dlift g (read_compact_usize m)) (\<lambda>len. dbind (budget start maximum) (\<lambda>remaining.
      dbind decoder_position (\<lambda>position. if remaining < len then derror (over position start len maximum)
        else dlift g (read_bounded_vec len remaining)))) (cursor pre rest) = Inr (item, d')"
    and start: "start \<le> length pre" "length pre - start \<le> maximum"
  from run obtain n d1 where n: "read_compact_usize m (cursor pre rest) = Inr (n, d1)"
    and tail: "dbind (budget start maximum) (\<lambda>remaining. dbind decoder_position (\<lambda>position.
       if remaining < n then derror (over position start n maximum)
       else dlift g (read_bounded_vec n remaining))) d1 = Inr (item, d')"
    by (auto simp: dbind_eq_Inr)
  from len.reads_back [OF n] obtain suf where suf: "rest = len_bytes n @ suf" "n \<le> m"
    and d1: "d1 = cursor (pre @ len_bytes n) suf" by auto
  from tail d1 obtain k where k: "length (pre @ len_bytes n) - start \<le> maximum"
    "k = maximum - (length (pre @ len_bytes n) - start)" "n \<le> k"
    and vec: "read_bounded_vec n k (cursor (pre @ len_bytes n) suf) = Inr (item, d')"
    by (auto simp: dbind_eq_Inr budget split: if_splits)
  from read_bounded_vec_back [OF vec] show "length item \<le> m \<and> length (pre @ var_bytes item) - start \<le> maximum \<and>
      (\<exists>suf. rest = var_bytes item @ suf \<and> d' = cursor (pre @ var_bytes item) suf)"
    using suf k start by (auto simp: var_bytes_len)
qed

section \<open>Progress\<close>

text \<open>A successful read keeps the input and never moves backwards.\<close>

definition advances :: "('e, 'a) reader \<Rightarrow> bool" where
  "advances p \<longleftrightarrow> (\<forall>d x d'. p d = Inr (x, d') \<longrightarrow>
     dec_input d' = dec_input d \<and> dec_position d \<le> dec_position d')"

named_theorems progress \<open>readers that advance\<close>

lemma advancesD:
  "advances p \<Longrightarrow> p d = Inr (x, d') \<Longrightarrow> dec_input d' = dec_input d \<and> dec_position d \<le> dec_position d'"
  by (simp add: advances_def)

lemma advances_basic [progress]:
  "advances (dreturn x)" "advances (derror e)" "advances (dcheck m)" "advances decoder_position"
  by (auto simp: advances_def bind_res_eq_Inr)

lemma advances_dbind [progress]: "advances p \<Longrightarrow> (\<And>x. advances (f x)) \<Longrightarrow> advances (dbind p f)"
  unfolding advances_def dbind_eq_Inr by (metis order_trans)

lemma advances_dlift [progress]: "advances p \<Longrightarrow> advances (dlift g p)"
  by (simp add: advances_def)

lemma advances_if [progress]: "(c \<Longrightarrow> advances p) \<Longrightarrow> (\<not> c \<Longrightarrow> advances q) \<Longrightarrow> advances (if c then p else q)"
  by simp

lemma advances_read_slice [progress]: "advances (read_slice n)"
  by (auto simp: advances_def read_slice_def bind_res_eq_Inr checked_add_usize_def split: if_splits)

lemma advances_reads [progress]:
  "advances (read_array n)" "advances read_u8" "advances read_u16_le" "advances read_u32_le" "advances read_u64_le"
  "advances (read_bounded_vec n m)"
  by (auto simp: read_array_def read_u8_def read_u16_le_def read_u32_le_def read_u64_le_def
      read_bounded_vec_def intro!: progress)

lemma advances_read_times [progress]: "advances p \<Longrightarrow> advances (read_times n p)"
  by (induction n) (auto intro!: progress)

lemma read_u8_progress:
  assumes "read_u8 d = Inr (b, d')"
  shows "dec_input d' = dec_input d" and "dec_position d' = Suc (dec_position d)"
    and "dec_position d' \<le> length (dec_input d)"
  using assms by (auto simp: read_u8_def dbind_eq_Inr read_array_def read_slice_def bind_res_eq_Inr
      checked_add_usize_def split: if_splits)

text \<open>The definitions that run a reader on a concrete input.\<close>

lemmas reader_eval = dbind_def decoder_new_def read_u8_def read_u16_le_def read_u32_le_def read_u64_le_def
  read_array_def read_slice_def read_bounded_vec_def read_compact_size_def read_compact_usize_def
  read_varbytes_def decoder_remaining_def decoder_finish_def checked_add_usize_def usize_max_def
  slice_of_def bind_res_def

end
