(* ===== verification/Primitives.thy ===== *)
theory Primitives
  imports Encoding
begin

text \<open>
  Model of \<^verbatim>\<open>crates/hns-primitives/src/lib.rs\<close>. The byte newtypes (hashes and roots) are
  byte strings whose length 32 is part of the well-formedness predicates of the messages
  that carry them; the integer newtypes are words. Outpoints, amounts and the 256-bit
  chainwork keep their operations. The contract that amounts and chainwork share, exact
  checked arithmetic below a bound, is the locale \<open>checked_amount\<close>.
\<close>

type_synonym hash32 = bytes
type_synonym height = u32
type_synonym block_time = u64
type_synonym dollarydoos = u64
type_synonym compact_target = u32
type_synonym u128 = "128 word"

section \<open>Outpoints\<close>

record outpoint =
  op_hash :: hash32
  op_index :: u32

definition outpoint_null :: outpoint where
  "outpoint_null = \<lparr>op_hash = replicate 32 0, op_index = 0xffffffff\<rparr>"

definition outpoint_is_null :: "outpoint \<Rightarrow> bool" where
  "outpoint_is_null op \<longleftrightarrow> op_index op = 0xffffffff \<and> op_hash op = replicate 32 0"

definition outpoint_encode :: "outpoint \<Rightarrow> bytes" where
  "outpoint_encode op = op_hash op @ u32_to_le (op_index op)"

definition outpoint_ok :: "outpoint \<Rightarrow> bool" where
  "outpoint_ok op \<longleftrightarrow> length (op_hash op) = 32"

lemma outpoint_is_null_iff [simp]: "outpoint_is_null op \<longleftrightarrow> op = outpoint_null"
  by (cases op) (auto simp: outpoint_is_null_def outpoint_null_def)

lemma outpoint_null_ok [simp]: "outpoint_ok outpoint_null"
  by (simp add: outpoint_ok_def outpoint_null_def)

lemma outpoint_encode_inj:
  "outpoint_ok a \<Longrightarrow> outpoint_ok b \<Longrightarrow> outpoint_encode a = outpoint_encode b \<longleftrightarrow> a = b"
  by (cases a; cases b) (auto simp: outpoint_ok_def outpoint_encode_def)

section \<open>Amounts\<close>

datatype arithmetic_error = Overflow | Underflow

definition dollarydoos_checked_add :: "dollarydoos \<Rightarrow> dollarydoos \<Rightarrow> arithmetic_error + dollarydoos" where
  "dollarydoos_checked_add a b = ok_or (checked_add a b) Overflow"

definition dollarydoos_checked_sub :: "dollarydoos \<Rightarrow> dollarydoos \<Rightarrow> arithmetic_error + dollarydoos" where
  "dollarydoos_checked_sub a b = ok_or (checked_sub a b) Underflow"

section \<open>Chainwork\<close>

datatype chainwork = Chainwork u64 u64 u64 u64

datatype ordering = Less | Equal | Greater

definition chainwork_zero :: chainwork where
  "chainwork_zero = Chainwork 0 0 0 0"

primrec limbs_le :: "chainwork \<Rightarrow> u64 list" where
  "limbs_le (Chainwork a b c d) = [a, b, c, d]"

definition from_limbs_le :: "u64 list \<Rightarrow> chainwork" where
  "from_limbs_le xs = Chainwork (xs ! 0) (xs ! 1) (xs ! 2) (xs ! 3)"

definition chainwork_from_be_bytes :: "bytes \<Rightarrow> chainwork" where
  "chainwork_from_be_bytes bs =
     from_limbs_le (rev (map (\<lambda>i. u64_of_be (slice_of (i * 8) (i * 8 + 8) bs)) [0, 1, 2, 3]))"

definition chainwork_to_be_bytes :: "chainwork \<Rightarrow> bytes" where
  "chainwork_to_be_bytes c = concat (map u64_to_be (rev (limbs_le c)))"

text \<open>The carry and borrow loops over the limbs, least significant first.\<close>

fun add_limbs :: "bool \<Rightarrow> u64 list \<Rightarrow> u64 list \<Rightarrow> u64 list \<times> bool" where
  "add_limbs carry (a # as) (b # bs) =
     (let (s1, c1) = overflowing_add a b;
          (s2, c2) = overflowing_add s1 (if carry then 1 else 0);
          (out, c) = add_limbs (c1 \<or> c2) as bs
      in (s2 # out, c))"
| "add_limbs carry _ _ = ([], carry)"

fun sub_limbs :: "bool \<Rightarrow> u64 list \<Rightarrow> u64 list \<Rightarrow> u64 list \<times> bool" where
  "sub_limbs borrow (a # as) (b # bs) =
     (let (d1, b1) = overflowing_sub a b;
          (d2, b2) = overflowing_sub d1 (if borrow then 1 else 0);
          (out, c) = sub_limbs (b1 \<or> b2) as bs
      in (d2 # out, c))"
| "sub_limbs borrow _ _ = ([], borrow)"

fun mul_limbs :: "u128 \<Rightarrow> u64 list \<Rightarrow> u64 \<Rightarrow> u64 list \<times> u128" where
  "mul_limbs carry [] m = ([], carry)"
| "mul_limbs carry (a # as) m =
     (let product = ucast a * ucast m + carry;
          (out, c) = mul_limbs (drop_bit 64 product) as m
      in (ucast product # out, c))"

text \<open>The division loop runs from the most significant limb, so its list is reversed.\<close>

fun div_limbs :: "u128 \<Rightarrow> u64 list \<Rightarrow> u64 \<Rightarrow> u64 list" where
  "div_limbs remainder [] divisor = []"
| "div_limbs remainder (a # as) divisor =
     (let dividend = push_bit 64 remainder OR ucast a
      in ucast (dividend div ucast divisor) # div_limbs (dividend mod ucast divisor) as divisor)"

fun cmp_limbs :: "u64 list \<Rightarrow> u64 list \<Rightarrow> ordering" where
  "cmp_limbs (a # as) (b # bs) =
     (if a < b then Less else if b < a then Greater else cmp_limbs as bs)"
| "cmp_limbs _ _ = Equal"

definition chainwork_cmp :: "chainwork \<Rightarrow> chainwork \<Rightarrow> ordering" where
  "chainwork_cmp a b = cmp_limbs (rev (limbs_le a)) (rev (limbs_le b))"

definition chainwork_checked_add :: "chainwork \<Rightarrow> chainwork \<Rightarrow> arithmetic_error + chainwork" where
  "chainwork_checked_add a b =
     (let (out, carry) = add_limbs False (limbs_le a) (limbs_le b)
      in if carry then Inl Overflow else Inr (from_limbs_le out))"

definition chainwork_checked_sub :: "chainwork \<Rightarrow> chainwork \<Rightarrow> arithmetic_error + chainwork" where
  "chainwork_checked_sub a b =
     (if chainwork_cmp a b = Less then Inl Underflow
      else Inr (from_limbs_le (fst (sub_limbs False (limbs_le a) (limbs_le b)))))"

definition chainwork_checked_mul_u64 :: "chainwork \<Rightarrow> u64 \<Rightarrow> arithmetic_error + chainwork" where
  "chainwork_checked_mul_u64 a m =
     (let (out, carry) = mul_limbs 0 (limbs_le a) m
      in if carry = 0 then Inr (from_limbs_le out) else Inl Overflow)"

definition chainwork_checked_div_u64 :: "chainwork \<Rightarrow> u64 \<Rightarrow> arithmetic_error + chainwork" where
  "chainwork_checked_div_u64 a divisor =
     (if divisor = 0 then Inl Underflow
      else Inr (from_limbs_le (rev (div_limbs 0 (rev (limbs_le a)) divisor))))"

section \<open>The number a chainwork stands for\<close>

primrec limbs_nat :: "u64 list \<Rightarrow> nat" where
  "limbs_nat [] = 0"
| "limbs_nat (a # as) = unat a + 2 ^ 64 * limbs_nat as"

definition work_nat :: "chainwork \<Rightarrow> nat" where
  "work_nat c = limbs_nat (limbs_le c)"

definition work_of_nat :: "nat \<Rightarrow> chainwork" where
  "work_of_nat n = Chainwork (word_of_nat n) (word_of_nat (n div 2 ^ 64))
     (word_of_nat (n div 2 ^ 128)) (word_of_nat (n div 2 ^ 192))"

lemma limbs_nat_less: "limbs_nat as < 2 ^ (64 * length as)"
proof (induction as)
  case (Cons a as)
  have "unat a < 2 ^ 64" using unat_less_pow [of a] by simp
  then have "limbs_nat (a # as) < 2 ^ 64 * Suc (limbs_nat as)" by simp
  also have "\<dots> \<le> 2 ^ 64 * 2 ^ (64 * length as)"
    using Cons by (intro mult_le_mono2) simp
  finally show ?case by (simp add: power_add)
qed simp

lemma limbs_nat_inj:
  "length as = length bs \<Longrightarrow> limbs_nat as = limbs_nat bs \<longleftrightarrow> as = bs"
proof (induction as bs rule: list_induct2)
  case (Cons a as b bs)
  show ?case
  proof
    assume eq: "limbs_nat (a # as) = limbs_nat (b # bs)"
    have "unat a < 2 ^ 64" "unat b < 2 ^ 64"
      using unat_less_pow [of a] unat_less_pow [of b] by simp_all
    then have "unat a = limbs_nat (a # as) mod 2 ^ 64" "unat b = limbs_nat (b # bs) mod 2 ^ 64"
      by simp_all
    with eq have ab: "unat a = unat b" by metis
    with eq Cons.IH show "a # as = b # bs" by (simp add: word_unat_eq_iff)
  qed simp
qed simp

lemma length_limbs_le [simp]: "length (limbs_le c) = 4"
  by (cases c) simp

lemma work_nat_less: "work_nat c < 2 ^ 256"
  using limbs_nat_less [of "limbs_le c"] by (simp add: work_nat_def)

lemma work_nat_inj [simp]: "work_nat a = work_nat b \<longleftrightarrow> a = b"
  by (cases a; cases b) (simp add: work_nat_def limbs_nat_inj del: limbs_nat.simps)

lemma work_nat_zero [simp]: "work_nat chainwork_zero = 0"
  by (simp add: work_nat_def chainwork_zero_def)

lemma from_limbs_le_inv: "length as = 4 \<Longrightarrow> limbs_le (from_limbs_le as) = as"
  by (auto simp: from_limbs_le_def length_Suc_conv numeral_eq_Suc)

lemma work_nat_from_limbs: "length as = 4 \<Longrightarrow> work_nat (from_limbs_le as) = limbs_nat as"
  by (simp add: work_nat_def from_limbs_le_inv)

subsection \<open>Loop invariants of the limb arithmetic\<close>

lemma overflowing_add_nat:
  fixes a b :: u64
  assumes "overflowing_add a b = (s, c)"
  shows "unat s + 2 ^ 64 * of_bool c = unat a + unat b"
  using assms unat_less_pow [of a] unat_less_pow [of b]
  by (auto simp: overflowing_add_def unat_plus_if')

lemma overflowing_sub_nat:
  fixes a b :: u64
  assumes "overflowing_sub a b = (s, c)"
  shows "unat s + unat b = unat a + 2 ^ 64 * of_bool c"
  using assms unat_less_pow [of a] unat_less_pow [of b]
  by (auto simp: overflowing_sub_def unat_sub_if' word_less_nat_alt)

lemma add_limbs_nat:
  assumes "length as = length bs" and "add_limbs carry as bs = (out, c)"
  shows "length out = length as \<and>
    limbs_nat out + 2 ^ (64 * length as) * of_bool c = limbs_nat as + limbs_nat bs + of_bool carry"
  using assms
proof (induction as bs arbitrary: carry out c rule: list_induct2)
  case (Cons a as b bs)
  obtain s1 c1 where 1: "overflowing_add a b = (s1, c1)" by fastforce
  obtain s2 c2 where 2: "overflowing_add s1 (if carry then 1 else 0) = (s2, c2)" by fastforce
  obtain out' where 3: "add_limbs (c1 \<or> c2) as bs = (out', c)" and out: "out = s2 # out'"
    using Cons.prems 1 2 by (auto split: prod.splits)
  have ih: "length out' = length as"
    "limbs_nat out' + 2 ^ (64 * length as) * of_bool c = limbs_nat as + limbs_nat bs + of_bool (c1 \<or> c2)"
    using Cons.IH [OF 3] by auto
  have n1: "unat s1 + 2 ^ 64 * of_bool c1 = unat a + unat b" by (rule overflowing_add_nat [OF 1])
  have n2: "unat s2 + 2 ^ 64 * of_bool c2 = unat s1 + of_bool carry"
    using overflowing_add_nat [OF 2] by (simp split: if_splits)
  have "unat a < 2 ^ 64" "unat b < 2 ^ 64" "unat s1 < 2 ^ 64"
    using unat_less_pow [of a] unat_less_pow [of b] unat_less_pow [of s1] by simp_all
  with n1 n2 have "of_bool (c1 \<or> c2) = (of_bool c1 + of_bool c2 :: nat)"
    by (cases c1; cases c2; cases carry) auto
  with n1 n2 have low: "unat s2 + 2 ^ 64 * of_bool (c1 \<or> c2) = unat a + unat b + of_bool carry"
    by simp
  have "limbs_nat out + 2 ^ (64 * length (a # as)) * of_bool c =
      unat s2 + 2 ^ 64 * (limbs_nat out' + 2 ^ (64 * length as) * of_bool c)"
    by (simp add: out power_add algebra_simps)
  also have "\<dots> = (unat s2 + 2 ^ 64 * of_bool (c1 \<or> c2)) + 2 ^ 64 * (limbs_nat as + limbs_nat bs)"
    unfolding ih by (simp add: algebra_simps)
  also have "\<dots> = limbs_nat (a # as) + limbs_nat (b # bs) + of_bool carry"
    unfolding low by (simp add: algebra_simps)
  finally show ?case using ih out by simp
qed auto

lemma sub_limbs_nat:
  assumes "length as = length bs" and "sub_limbs borrow as bs = (out, c)"
  shows "length out = length as \<and>
    limbs_nat out + limbs_nat bs + of_bool borrow = limbs_nat as + 2 ^ (64 * length as) * of_bool c"
  using assms
proof (induction as bs arbitrary: borrow out c rule: list_induct2)
  case (Cons a as b bs)
  obtain s1 c1 where 1: "overflowing_sub a b = (s1, c1)" by fastforce
  obtain s2 c2 where 2: "overflowing_sub s1 (if borrow then 1 else 0) = (s2, c2)" by fastforce
  obtain out' where 3: "sub_limbs (c1 \<or> c2) as bs = (out', c)" and out: "out = s2 # out'"
    using Cons.prems 1 2 by (auto split: prod.splits)
  have ih: "length out' = length as"
    "limbs_nat out' + limbs_nat bs + of_bool (c1 \<or> c2) = limbs_nat as + 2 ^ (64 * length as) * of_bool c"
    using Cons.IH [OF 3] by auto
  have n1: "unat s1 + unat b = unat a + 2 ^ 64 * of_bool c1" by (rule overflowing_sub_nat [OF 1])
  have n2: "unat s2 + of_bool borrow = unat s1 + 2 ^ 64 * of_bool c2"
    using overflowing_sub_nat [OF 2] by (cases borrow; cases c2) auto
  have "unat a < 2 ^ 64" "unat b < 2 ^ 64" "unat s1 < 2 ^ 64" "unat s2 < 2 ^ 64"
    using unat_less_pow [of a] unat_less_pow [of b] unat_less_pow [of s1] unat_less_pow [of s2]
    by simp_all
  with n1 n2 have "of_bool (c1 \<or> c2) = (of_bool c1 + of_bool c2 :: nat)"
    by (cases c1; cases c2; cases borrow) auto
  with n1 n2 have low: "unat s2 + unat b + of_bool borrow = unat a + 2 ^ 64 * of_bool (c1 \<or> c2)"
    by simp
  have "limbs_nat out + limbs_nat (b # bs) + of_bool borrow =
      (unat s2 + unat b + of_bool borrow) + 2 ^ 64 * (limbs_nat out' + limbs_nat bs)"
    by (simp add: out algebra_simps)
  also have "\<dots> = unat a + 2 ^ 64 * (limbs_nat out' + limbs_nat bs + of_bool (c1 \<or> c2))"
    unfolding low by (simp add: algebra_simps)
  also have "\<dots> = limbs_nat (a # as) + 2 ^ (64 * length (a # as)) * of_bool c"
    unfolding ih by (simp add: power_add algebra_simps)
  finally show ?case using ih out by simp
qed auto

lemma unat_ucast_128 [simp]: "unat (ucast (a::u64) :: u128) = unat a"
proof -
  have "unat a < 2 ^ 128" using unat_less_pow [of a] by (rule less_trans) simp
  then show ?thesis by (simp add: unat_ucast_mod)
qed

lemma mul_step_nat:
  fixes a m :: u64 and c :: u128
  assumes "unat c < 2 ^ 64"
  defines "p \<equiv> ucast a * ucast m + c"
  shows "unat (ucast p :: u64) + 2 ^ 64 * unat (drop_bit 64 p) = unat a * unat m + unat c"
    and "unat (drop_bit 64 p) < 2 ^ 64"
proof -
  have "unat a \<le> 2 ^ 64 - 1" "unat m \<le> 2 ^ 64 - 1"
    using unat_less_pow [of a] unat_less_pow [of m] by simp_all
  then have "unat a * unat m \<le> (2 ^ 64 - 1) * (2 ^ 64 - 1)" by (rule mult_le_mono)
  with assms have lt: "unat a * unat m + unat c < 2 ^ 128" by simp
  then have p: "unat p = unat a * unat m + unat c"
    by (simp add: p_def unat_word_ariths)
  then show "unat (ucast p :: u64) + 2 ^ 64 * unat (drop_bit 64 p) = unat a * unat m + unat c"
    by (simp add: unat_ucast_mod unat_drop_bit_div)
  show "unat (drop_bit 64 p) < 2 ^ 64"
    using lt p by (simp add: unat_drop_bit_div less_mult_imp_div_less)
qed

lemma mul_limbs_nat:
  assumes "unat carry < 2 ^ 64" and "mul_limbs carry as m = (out, c)"
  shows "length out = length as \<and> unat c < 2 ^ 64 \<and>
    limbs_nat out + 2 ^ (64 * length as) * unat c = limbs_nat as * unat m + unat carry"
  using assms
proof (induction as arbitrary: carry out)
  case (Cons a as)
  define p where "p = ucast a * ucast m + carry"
  obtain out' where 1: "mul_limbs (drop_bit 64 p) as m = (out', c)" and out: "out = ucast p # out'"
    using Cons.prems by (auto simp: p_def Let_def split: prod.splits)
  note step = mul_step_nat [OF Cons.prems(1), of a m, folded p_def]
  have ih: "length out' = length as" "unat c < 2 ^ 64"
    "limbs_nat out' + 2 ^ (64 * length as) * unat c = limbs_nat as * unat m + unat (drop_bit 64 p)"
    using Cons.IH [OF step(2) 1] by auto
  have "limbs_nat out + 2 ^ (64 * length (a # as)) * unat c =
      unat (ucast p :: u64) + 2 ^ 64 * (limbs_nat out' + 2 ^ (64 * length as) * unat c)"
    by (simp add: out power_add algebra_simps)
  also have "\<dots> = (unat (ucast p :: u64) + 2 ^ 64 * unat (drop_bit 64 p)) + 2 ^ 64 * (limbs_nat as * unat m)"
    unfolding ih by (simp add: algebra_simps)
  also have "\<dots> = limbs_nat (a # as) * unat m + unat carry"
    unfolding step by (simp add: algebra_simps)
  finally show ?case using ih out by simp
qed auto

lemma dividend_nat:
  fixes r :: u128 and a :: u64
  assumes "unat r < 2 ^ 64"
  shows "unat (push_bit 64 r OR ucast a) = unat r * 2 ^ 64 + unat a"
proof -
  have a: "unat a < 2 ^ 64" using unat_less_pow [of a] by simp
  have "push_bit 64 (unat r) < 2 ^ 128" using assms by (simp add: push_bit_eq_mult)
  then have "unat (push_bit 64 r) = push_bit 64 (unat r)"
    by (simp add: unsigned_push_bit_eq take_bit_nat_eq_self)
  then show ?thesis using nat_or_push_bit [OF a, of "unat r"] by (simp add: unsigned_or_eq)
qed

lemma limbs_nat_append:
  "limbs_nat (as @ bs) = limbs_nat as + 2 ^ (64 * length as) * limbs_nat bs"
  by (induction as) (simp_all add: power_add algebra_simps)

lemma div_limbs_nat:
  assumes "unat r < unat divisor"
  shows "length (div_limbs r as divisor) = length as \<and>
    limbs_nat (rev (div_limbs r as divisor)) =
      (unat r * 2 ^ (64 * length as) + limbs_nat (rev as)) div unat divisor"
  using assms
proof (induction as arbitrary: r)
  case (Cons a as)
  define n d where "n = unat r * 2 ^ 64 + unat a" and "d = push_bit 64 r OR ucast a"
  define B where "B = (2::nat) ^ (64 * length as)"
  have dpos: "0 < unat divisor" and r: "unat r < 2 ^ 64" and a: "unat a < 2 ^ 64"
    using Cons.prems unat_less_pow [of divisor] unat_less_pow [of a] by simp_all
  have dn: "unat d = n" unfolding d_def n_def by (rule dividend_nat [OF r])
  have q: "unat (d div ucast divisor) = n div unat divisor"
    and m: "unat (d mod ucast divisor) = n mod unat divisor"
    by (simp_all add: unat_div unat_mod dn)
  have "n < unat divisor * 2 ^ 64"
  proof -
    have "n < Suc (unat r) * 2 ^ 64" using a by (simp add: n_def)
    also have "\<dots> \<le> unat divisor * 2 ^ 64" using Cons.prems by (intro mult_le_mono1) simp
    finally show ?thesis .
  qed
  then have "n div unat divisor < 2 ^ 64" using dpos by (simp add: div_less_iff_less_mult mult.commute)
  then have q': "unat (ucast (d div ucast divisor) :: u64) = n div unat divisor"
    by (simp add: unat_ucast_mod q)
  have ih: "length (div_limbs (d mod ucast divisor) as divisor) = length as"
    "limbs_nat (rev (div_limbs (d mod ucast divisor) as divisor)) =
       (n mod unat divisor * B + limbs_nat (rev as)) div unat divisor"
    using Cons.IH [of "d mod ucast divisor"] dpos by (simp_all add: m B_def)
  have "unat r * 2 ^ (64 * length (a # as)) + limbs_nat (rev (a # as)) = n * B + limbs_nat (rev as)"
    by (simp add: limbs_nat_append n_def B_def power_add algebra_simps)
  also have "\<dots> = (n mod unat divisor * B + limbs_nat (rev as)) + (n div unat divisor * B) * unat divisor"
  proof -
    have "n * B = (n div unat divisor * unat divisor + n mod unat divisor) * B"
      by (simp only: div_mult_mod_eq)
    then show ?thesis by (simp only: add_mult_distrib add_mult_distrib2 ac_simps)
  qed
  finally have "(unat r * 2 ^ (64 * length (a # as)) + limbs_nat (rev (a # as))) div unat divisor =
      (n mod unat divisor * B + limbs_nat (rev as)) div unat divisor + n div unat divisor * B"
    using dpos by simp
  then show ?case using ih q'
    by (simp add: Let_def limbs_nat_append B_def mult.commute flip: d_def)
qed simp

lemma cmp_limbs_nat:
  assumes "length as = length bs"
  shows "cmp_limbs as bs =
    (if limbs_nat (rev as) < limbs_nat (rev bs) then Less
     else if limbs_nat (rev bs) < limbs_nat (rev as) then Greater else Equal)"
  using assms
proof (induction as bs rule: list_induct2)
  case (Cons a as b bs)
  define B where "B = (2::nat) ^ (64 * length as)"
  have lt: "limbs_nat (rev as) < B" "limbs_nat (rev bs) < B"
    using limbs_nat_less [of "rev as"] limbs_nat_less [of "rev bs"] Cons.hyps by (simp_all add: B_def)
  have val: "limbs_nat (rev (a # as)) = limbs_nat (rev as) + B * unat a"
    "limbs_nat (rev (b # bs)) = limbs_nat (rev bs) + B * unat b"
    using Cons.hyps by (simp_all add: limbs_nat_append B_def)
  have mono: "limbs_nat x + B * unat u < limbs_nat y + B * unat v"
    if "unat u < unat v" "limbs_nat x < B" for x y and u v :: u64
  proof -
    have "limbs_nat x + B * unat u < B * Suc (unat u)" using that by simp
    also have "\<dots> \<le> B * unat v" using that by (intro mult_le_mono2) simp
    finally show ?thesis by simp
  qed
  consider "unat a < unat b" | "unat b < unat a" | "a = b"
    by (metis linorder_neqE_nat word_unat_eq_iff)
  then show ?case
  proof cases
    case 1
    with mono [OF 1 lt(1), of "rev bs"] show ?thesis
      unfolding val cmp_limbs.simps by (simp add: word_less_nat_alt)
  next
    case 2
    with mono [OF 2 lt(2), of "rev as"] show ?thesis
      unfolding val cmp_limbs.simps by (simp add: word_less_nat_alt)
  next
    case 3
    with Cons.IH show ?thesis unfolding val cmp_limbs.simps by simp
  qed
qed simp

lemma chainwork_cmp_nat:
  "chainwork_cmp a b =
    (if work_nat a < work_nat b then Less else if work_nat b < work_nat a then Greater else Equal)"
  by (simp add: chainwork_cmp_def cmp_limbs_nat work_nat_def)

text \<open>The source's \<^verbatim>\<open>Ord\<close> instance.\<close>

instantiation chainwork :: linorder
begin

definition less_eq_chainwork :: "chainwork \<Rightarrow> chainwork \<Rightarrow> bool" where
  "less_eq_chainwork a b \<longleftrightarrow> chainwork_cmp a b \<noteq> Greater"

definition less_chainwork :: "chainwork \<Rightarrow> chainwork \<Rightarrow> bool" where
  "less_chainwork a b \<longleftrightarrow> chainwork_cmp a b = Less"

instance
  by standard (auto simp: less_eq_chainwork_def less_chainwork_def chainwork_cmp_nat split: if_splits)

end

lemma chainwork_le_iff: "a \<le> b \<longleftrightarrow> work_nat a \<le> work_nat b"
  by (auto simp: less_eq_chainwork_def chainwork_cmp_nat)

lemma work_nat_of_nat: "n < 2 ^ 256 \<Longrightarrow> work_nat (work_of_nat n) = n"
proof -
  assume n: "n < 2 ^ 256"
  have "work_nat (work_of_nat n) =
      n mod 2 ^ 64 + 2 ^ 64 * (n div 2 ^ 64 mod 2 ^ 64 + 2 ^ 64 * (n div 2 ^ 128 mod 2 ^ 64 +
        2 ^ 64 * (n div 2 ^ 192 mod 2 ^ 64)))"
    by (simp add: work_nat_def work_of_nat_def unat_of_nat)
  also have "\<dots> = n mod 2 ^ 256"
    by (simp add: mod_mult2_eq [of n "2 ^ 64" "2 ^ 192", simplified]
        mod_mult2_eq [of "n div 2 ^ 64" "2 ^ 64" "2 ^ 128", simplified]
        mod_mult2_eq [of "n div 2 ^ 128" "2 ^ 64" "2 ^ 64", simplified] div_mult2_eq [symmetric])
  finally show ?thesis using n by simp
qed

lemma work_of_nat_nat [simp]: "work_of_nat (work_nat c) = c"
  using work_nat_of_nat [OF work_nat_less [of c]] by simp

section \<open>Exact checked arithmetic\<close>

locale checked_amount =
  fixes num :: "'a \<Rightarrow> nat"
    and bound :: nat
    and add sub :: "'a \<Rightarrow> 'a \<Rightarrow> arithmetic_error + 'a"
  assumes num_inject: "num a = num b \<Longrightarrow> a = b"
    and num_bound: "num a < bound"
    and add_exact: "num a + num b < bound \<Longrightarrow> \<exists>c. add a b = Inr c \<and> num c = num a + num b"
    and add_overflow: "bound \<le> num a + num b \<Longrightarrow> add a b = Inl Overflow"
    and sub_exact: "num b \<le> num a \<Longrightarrow> \<exists>c. sub a b = Inr c \<and> num c = num a - num b"
    and sub_underflow: "num a < num b \<Longrightarrow> sub a b = Inl Underflow"
begin

lemma add_Inr_iff: "add a b = Inr c \<longleftrightarrow> num a + num b < bound \<and> num c = num a + num b"
  using add_exact [of a b] add_overflow [of a b] num_inject
  by (cases "num a + num b < bound") (auto simp: not_less)

lemma sub_Inr_iff: "sub a b = Inr c \<longleftrightarrow> num b \<le> num a \<and> num c = num a - num b"
  using sub_exact [of b a] sub_underflow [of a b] num_inject
  by (cases "num b \<le> num a") (auto simp: not_le)

lemma add_commute: "add a b = add b a"
proof (cases "add b a")
  case (Inl e)
  then have "bound \<le> num b + num a" using add_exact [of b a] by (cases "num b + num a < bound") auto
  then show ?thesis using add_overflow [of a b] add_overflow [of b a] by (simp add: add.commute)
next
  case (Inr c)
  then have "add a b = Inr c" by (simp add: add_Inr_iff add.commute)
  with Inr show ?thesis by simp
qed

lemma sub_add_cancel: "add a b = Inr c \<Longrightarrow> sub c b = Inr a"
  by (auto simp: add_Inr_iff sub_Inr_iff)

lemma add_sub_cancel: "sub a b = Inr c \<Longrightarrow> add c b = Inr a"
  using num_bound [of a] by (auto simp: add_Inr_iff sub_Inr_iff)

lemma sub_total_iff: "is_ok (sub a b) \<longleftrightarrow> num b \<le> num a"
  using sub_exact [of b a] sub_underflow [of a b]
  by (cases "num b \<le> num a") (auto simp: is_ok_iff not_le)

end

interpretation doos: checked_amount unat "2 ^ 64" dollarydoos_checked_add dollarydoos_checked_sub
proof
  fix a b :: u64
  show "unat a = unat b \<Longrightarrow> a = b" by (simp add: word_unat_eq_iff)
  show "unat a < 2 ^ 64" using unat_less_pow [of a] by simp
  show "unat a + unat b < 2 ^ 64 \<Longrightarrow> \<exists>c. dollarydoos_checked_add a b = Inr c \<and> unat c = unat a + unat b"
    by (auto simp: dollarydoos_checked_add_def checked_add_def unat_word_ariths)
  show "2 ^ 64 \<le> unat a + unat b \<Longrightarrow> dollarydoos_checked_add a b = Inl Overflow"
    by (auto simp: dollarydoos_checked_add_def checked_add_def)
  show "unat b \<le> unat a \<Longrightarrow> \<exists>c. dollarydoos_checked_sub a b = Inr c \<and> unat c = unat a - unat b"
    by (auto simp: dollarydoos_checked_sub_def checked_sub_def word_le_nat_alt unat_sub)
  show "unat a < unat b \<Longrightarrow> dollarydoos_checked_sub a b = Inl Underflow"
    by (auto simp: dollarydoos_checked_sub_def checked_sub_def word_le_nat_alt)
qed

lemma chainwork_add_cases:
  obtains (ok) c where "chainwork_checked_add a b = Inr c" "work_nat c = work_nat a + work_nat b"
      "work_nat a + work_nat b < 2 ^ 256"
    | (overflow) "chainwork_checked_add a b = Inl Overflow" "2 ^ 256 \<le> work_nat a + work_nat b"
proof -
  obtain out c where run: "add_limbs False (limbs_le a) (limbs_le b) = (out, c)" by fastforce
  from add_limbs_nat [OF _ run] have len: "length out = 4"
    and val: "limbs_nat out + 2 ^ 256 * of_bool c = work_nat a + work_nat b"
    by (simp_all add: work_nat_def)
  show ?thesis
  proof (cases c)
    case True
    with run val show ?thesis by (intro overflow) (simp_all add: chainwork_checked_add_def)
  next
    case False
    with run val len limbs_nat_less [of out] show ?thesis
      by (intro ok [of "from_limbs_le out"])
        (simp_all add: chainwork_checked_add_def work_nat_from_limbs)
  qed
qed

interpretation work: checked_amount work_nat "2 ^ 256" chainwork_checked_add chainwork_checked_sub
proof
  fix a b :: chainwork
  show "work_nat a = work_nat b \<Longrightarrow> a = b" by simp
  show "work_nat a < 2 ^ 256" by (rule work_nat_less)
  show "\<exists>c. chainwork_checked_add a b = Inr c \<and> work_nat c = work_nat a + work_nat b"
    if "work_nat a + work_nat b < 2 ^ 256"
    by (cases a b rule: chainwork_add_cases) (use that in auto)
  show "chainwork_checked_add a b = Inl Overflow" if "2 ^ 256 \<le> work_nat a + work_nat b"
    by (cases a b rule: chainwork_add_cases) (use that in auto)
  show "\<exists>c. chainwork_checked_sub a b = Inr c \<and> work_nat c = work_nat a - work_nat b"
    if le: "work_nat b \<le> work_nat a"
  proof -
    obtain out c where run: "sub_limbs False (limbs_le a) (limbs_le b) = (out, c)" by fastforce
    from sub_limbs_nat [OF _ run] have len: "length out = 4"
      and val: "limbs_nat out + work_nat b = work_nat a + 2 ^ 256 * of_bool c"
      by (simp_all add: work_nat_def)
    have "limbs_nat out < 2 ^ 256" using limbs_nat_less [of out] len by simp
    with val le have "\<not> c" by (cases c) auto
    with val have "limbs_nat out = work_nat a - work_nat b" by simp
    with le run len show ?thesis
      by (simp add: chainwork_checked_sub_def chainwork_cmp_nat work_nat_from_limbs)
  qed
  show "chainwork_checked_sub a b = Inl Underflow" if "work_nat a < work_nat b"
    using that by (simp add: chainwork_checked_sub_def chainwork_cmp_nat)
qed

lemma chainwork_mul_exact:
  "chainwork_checked_mul_u64 a m =
     (if work_nat a * unat m < 2 ^ 256 then Inr (work_of_nat (work_nat a * unat m)) else Inl Overflow)"
proof -
  obtain out c where run: "mul_limbs 0 (limbs_le a) m = (out, c)" by fastforce
  from mul_limbs_nat [OF _ run] have len: "length out = 4"
    and val: "limbs_nat out + 2 ^ 256 * unat c = work_nat a * unat m"
    by (simp_all add: work_nat_def)
  have lt: "limbs_nat out < 2 ^ 256" using limbs_nat_less [of out] len by simp
  have "c = 0 \<longleftrightarrow> work_nat a * unat m < 2 ^ 256"
  proof
    show "c = 0 \<Longrightarrow> work_nat a * unat m < 2 ^ 256" using val lt by simp
    show "work_nat a * unat m < 2 ^ 256 \<Longrightarrow> c = 0"
      using val by (cases "unat c = 0") (auto simp: unat_eq_0)
  qed
  moreover have "c = 0 \<Longrightarrow> from_limbs_le out = work_of_nat (work_nat a * unat m)"
    using val len lt by (simp flip: work_nat_inj add: work_nat_from_limbs work_nat_of_nat)
  ultimately show ?thesis using run by (simp add: chainwork_checked_mul_u64_def)
qed

lemma chainwork_div_exact:
  assumes "divisor \<noteq> 0"
  shows "chainwork_checked_div_u64 a divisor = Inr (work_of_nat (work_nat a div unat divisor))"
proof -
  have pos: "unat (0::u128) < unat divisor" using assms by (simp add: unat_gt_0)
  note * = div_limbs_nat [OF pos, of "rev (limbs_le a)"]
  have "work_nat (from_limbs_le (rev (div_limbs 0 (rev (limbs_le a)) divisor))) = work_nat a div unat divisor"
    using * by (simp add: work_nat_from_limbs) (simp add: work_nat_def)
  moreover have "work_nat a div unat divisor < 2 ^ 256"
    using work_nat_less [of a] div_le_dividend [of "work_nat a" "unat divisor"] by linarith
  ultimately show ?thesis using assms
    by (simp add: chainwork_checked_div_u64_def work_nat_of_nat flip: work_nat_inj)
qed

lemma chainwork_div_zero: "chainwork_checked_div_u64 a 0 = Inl Underflow"
  by (simp add: chainwork_checked_div_u64_def)

subsection \<open>Byte conversions\<close>

lemma be_nat_u64_to_be [simp]: "be_nat (u64_to_be w) = unat w"
  using unat_less_256_pow(3) [of w] by (simp add: u64_to_be_def be_nat_be_bytes)

lemma be_nat_chainwork_bytes:
  "be_nat (chainwork_to_be_bytes c) = work_nat c" "length (chainwork_to_be_bytes c) = 32"
  by (cases c; simp add: chainwork_to_be_bytes_def work_nat_def be_nat_append)+

lemma split_32:
  assumes "length bs = 32"
  shows "bs = slice_of 0 8 bs @ slice_of 8 16 bs @ slice_of 16 24 bs @ slice_of 24 32 bs"
proof -
  have "bs = take 8 bs @ take 8 (drop 8 bs) @ take 8 (drop 16 bs) @ drop 24 bs"
    using append_take_drop_id [of 8 bs] append_take_drop_id [of 8 "drop 8 bs"]
      append_take_drop_id [of 8 "drop 16 bs"] by simp
  then show ?thesis using assms by (simp add: slice_of_def)
qed

lemma work_nat_from_be_bytes:
  assumes "length bs = 32"
  shows "work_nat (chainwork_from_be_bytes bs) = be_nat bs"
proof -
  have "be_nat bs = be_nat (slice_of 0 8 bs @ slice_of 8 16 bs @ slice_of 16 24 bs @ slice_of 24 32 bs)"
    using split_32 [OF assms] by metis
  then show ?thesis using assms
    by (simp add: chainwork_from_be_bytes_def from_limbs_le_def work_nat_def
        be_nat_append unat_int_of_bytes algebra_simps)
qed

lemma chainwork_bytes_roundtrip:
  "chainwork_from_be_bytes (chainwork_to_be_bytes c) = c"
  by (simp flip: work_nat_inj add: work_nat_from_be_bytes be_nat_chainwork_bytes)

end
