(* ===== verification/Target.thy ===== *)
theory Target
  imports Primitives
begin

text \<open>
  The arithmetic core of \<^verbatim>\<open>crates/hns-header-consensus/src/lib.rs\<close>: the private 256-bit
  integer \<^verbatim>\<open>U256\<close> on big-endian byte arrays (lines 559 to 671) and the compact
  difficulty target \<^verbatim>\<open>DecodedTarget\<close> (lines 168 to 258). The byte loops are refined to
  arithmetic on the number \<open>be_nat\<close> of the array: addition, subtraction and the
  shift-and-subtract division of \<open>2 ^ 256\<close>.
\<close>

type_synonym u256 = bytes

section \<open>U256\<close>

definition u256_zero :: u256 where
  "u256_zero = replicate 32 0"

definition u256_from_u64 :: "u64 \<Rightarrow> u256" where
  "u256_from_u64 v = replicate 24 0 @ u64_to_be v"

definition u256_one :: u256 where
  "u256_one = u256_from_u64 1"

text \<open>The derived lexicographic order of byte arrays.\<close>

fun bytes_le :: "bytes \<Rightarrow> bytes \<Rightarrow> bool" where
  "bytes_le [] _ = True"
| "bytes_le (a # as) [] = False"
| "bytes_le (a # as) (b # bs) = (a < b \<or> a = b \<and> bytes_le as bs)"

text \<open>The loops run from byte 31 down to byte 0, so they take reversed arrays.\<close>

fun u256_add_loop :: "u16 \<Rightarrow> bytes \<Rightarrow> bytes \<Rightarrow> bytes \<times> u16" where
  "u256_add_loop carry (a # as) (b # bs) =
     (let total = ucast a + ucast b + carry;
          (out, c) = u256_add_loop (drop_bit 8 total) as bs
      in (ucast total # out, c))"
| "u256_add_loop carry _ _ = ([], carry)"

definition u256_checked_add :: "u256 \<Rightarrow> u256 \<Rightarrow> u256 option" where
  "u256_checked_add a b =
     (let (out, carry) = u256_add_loop 0 (rev a) (rev b)
      in if carry = 0 then Some (rev out) else None)"

text \<open>
  The source subtracts in \<^verbatim>\<open>i16\<close>, whose range the differences (from \<open>- 256\<close> to \<open>255\<close>)
  never leave, so the model uses unbounded integers.
\<close>

fun u256_sub_loop :: "int \<Rightarrow> bytes \<Rightarrow> bytes \<Rightarrow> bytes" where
  "u256_sub_loop borrow (a # as) (b # bs) =
     (let difference = int (unat a) - int (unat b) - borrow
      in if difference < 0
         then word_of_int (difference + 256) # u256_sub_loop 1 as bs
         else word_of_int difference # u256_sub_loop 0 as bs)"
| "u256_sub_loop borrow _ _ = []"

definition u256_wrapping_sub :: "u256 \<Rightarrow> u256 \<Rightarrow> u256" where
  "u256_wrapping_sub a b = rev (u256_sub_loop 0 (rev a) (rev b))"

definition u256_checked_sub :: "u256 \<Rightarrow> u256 \<Rightarrow> u256 option" where
  "u256_checked_sub a b = (if bytes_le b a then Some (u256_wrapping_sub a b) else None)"

fun shl_loop :: "byte \<Rightarrow> bytes \<Rightarrow> bytes" where
  "shl_loop carry [] = []"
| "shl_loop carry (b # bs) = (push_bit 1 b OR carry) # shl_loop (drop_bit 7 b) bs"

definition shift_left_one :: "u256 \<Rightarrow> u256 \<times> bool" where
  "shift_left_one a = (rev (shl_loop 0 (rev a)), a ! 0 AND 0x80 \<noteq> 0)"

definition u256_set_bit :: "u256 \<Rightarrow> nat \<Rightarrow> u256" where
  "u256_set_bit a n = a[31 - n div 8 := (a ! (31 - n div 8)) OR push_bit (n mod 8) 1]"

definition div_step :: "u256 \<Rightarrow> nat \<Rightarrow> u256 \<times> u256 \<Rightarrow> u256 \<times> u256" where
  "div_step divisor n = (\<lambda>(remainder, quotient).
     let (shifted, high) = shift_left_one remainder;
         r = (if n = 256 then shifted[31 := (shifted ! 31) OR 1] else shifted)
     in if high \<or> bytes_le divisor r
        then (u256_wrapping_sub r divisor, if n < 256 then u256_set_bit quotient n else quotient)
        else (r, quotient))"

definition divide_two_to_256 :: "u256 \<Rightarrow> u256 option" where
  "divide_two_to_256 divisor =
     (if bytes_le divisor u256_one then None
      else Some (snd (fold (div_step divisor) (rev [0..<257]) (u256_zero, u256_zero))))"

definition work_for_target :: "u256 \<Rightarrow> u256 option" where
  "work_for_target t =
     (if t = u256_zero then None
      else case u256_checked_add t u256_one of
        None \<Rightarrow> Some u256_one
      | Some divisor \<Rightarrow> divide_two_to_256 divisor)"

definition target_for_work :: "u256 \<Rightarrow> u256 option" where
  "target_for_work w =
     (if w = u256_zero then None
      else if w = u256_one then Some (replicate 32 0xff)
      else Option.bind (divide_two_to_256 w) (\<lambda>q. u256_checked_sub q u256_one))"

section \<open>Compact targets\<close>

record decoded_target =
  dt_bytes :: u256
  dt_negative :: bool
  dt_overflow :: bool

definition place_byte :: "nat \<Rightarrow> nat \<times> byte \<Rightarrow> bytes \<times> bool \<Rightarrow> bytes \<times> bool" where
  "place_byte exponent = (\<lambda>(offset, b) (bs, overflow).
     let position = 32 - int exponent + int offset
     in if \<not> (0 \<le> position \<and> position < 32) then (bs, overflow \<or> b \<noteq> 0)
        else (bs[nat position := b], overflow))"

definition from_compact :: "compact_target \<Rightarrow> decoded_target" where
  "from_compact bits =
     (if bits = 0 then \<lparr>dt_bytes = replicate 32 0, dt_negative = False, dt_overflow = False\<rparr>
      else
        let exponent = unat (drop_bit 24 bits);
            negative = (bits AND 0x00800000 \<noteq> 0);
            mantissa = bits AND 0x007fffff
        in if exponent \<le> 3 then
             let v = drop_bit (8 * (3 - exponent)) mantissa
             in \<lparr>dt_bytes = replicate 29 0 @ drop 1 (be_bytes 4 (unat v)),
                 dt_negative = negative, dt_overflow = False\<rparr>
           else
             let mantissa_bytes = [ucast (drop_bit 16 mantissa AND 0xff),
                   ucast (drop_bit 8 mantissa AND 0xff), ucast (mantissa AND 0xff)];
                 (bs, overflow) = fold (place_byte exponent) (enumerate 0 mantissa_bytes)
                   (replicate 32 0, False)
             in \<lparr>dt_bytes = bs, dt_negative = negative, dt_overflow = overflow\<rparr>)"

definition target_is_valid :: "decoded_target \<Rightarrow> bool" where
  "target_is_valid t \<longleftrightarrow>
     \<not> dt_negative t \<and> \<not> dt_overflow t \<and> list_ex (\<lambda>b. b \<noteq> 0) (dt_bytes t)"

definition target_is_met_by :: "decoded_target \<Rightarrow> hash32 \<Rightarrow> bool" where
  "target_is_met_by t h \<longleftrightarrow> target_is_valid t \<and> bytes_le h (dt_bytes t)"

definition target_proof :: "decoded_target \<Rightarrow> chainwork option" where
  "target_proof t =
     (if \<not> target_is_valid t then None
      else map_option chainwork_from_be_bytes (work_for_target (dt_bytes t)))"

fun first_nonzero :: "bytes \<Rightarrow> nat option" where
  "first_nonzero [] = None"
| "first_nonzero (b # bs) = (if b \<noteq> 0 then Some 0 else map_option Suc (first_nonzero bs))"

definition to_compact :: "decoded_target \<Rightarrow> compact_target" where
  "to_compact t =
     (case first_nonzero (dt_bytes t) of
        None \<Rightarrow> 0
      | Some first \<Rightarrow>
          let exponent = 32 - first;
              mantissa =
                (if exponent \<le> 3
                 then push_bit (8 * (3 - exponent))
                   (foldl (\<lambda>v b. push_bit 8 v OR ucast b) (0 :: u32) (drop first (dt_bytes t)))
                 else (push_bit 16 (ucast (dt_bytes t ! first)) OR
                       push_bit 8 (ucast (dt_bytes t ! (first + 1)))) OR
                       ucast (dt_bytes t ! (first + 2)));
              (exponent', mantissa') =
                (if mantissa AND 0x00800000 \<noteq> 0 then (exponent + 1, drop_bit 8 mantissa)
                 else (exponent, mantissa))
          in push_bit 24 (word_of_nat exponent') OR mantissa')"

section \<open>Arithmetic meaning of the byte loops\<close>

lemma bytes_le_nat: "length as = length bs \<Longrightarrow> bytes_le as bs \<longleftrightarrow> be_nat as \<le> be_nat bs"
proof (induction as bs rule: list_induct2)
  case (Cons a as b bs)
  define B where "B = (256::nat) ^ length bs"
  have lt: "be_nat as < B" "be_nat bs < B"
    using be_nat_less [of as] be_nat_less [of bs] Cons.hyps by (simp_all add: B_def)
  have mono: "unat u * B + x < unat v * B + y" if "unat u < unat v" "x < B" for u v :: byte and x y
  proof -
    have "unat u * B + x < Suc (unat u) * B" using that by simp
    also have "\<dots> \<le> unat v * B" using that by (intro mult_le_mono1) simp
    finally show ?thesis by simp
  qed
  consider "unat a < unat b" | "unat b < unat a" | "a = b"
    by (metis linorder_neqE_nat word_unat_eq_iff)
  then show ?case
  proof cases
    case 1
    from mono [OF 1 lt(1), of "be_nat bs"] 1 show ?thesis
      using Cons.hyps by (simp add: word_less_nat_alt B_def)
  next
    case 2
    then have "\<not> a < b" "a \<noteq> b" by (auto simp: word_less_nat_alt)
    with mono [OF 2 lt(2), of "be_nat as"] show ?thesis
      using Cons.hyps by (simp add: B_def)
  next
    case 3
    then show ?thesis using Cons by simp
  qed
qed simp

lemma u256_add_step:
  fixes a b :: byte and c :: u16
  assumes "unat c \<le> 1"
  defines "s \<equiv> ucast a + ucast b + c"
  shows "unat (ucast s :: byte) + 256 * unat (drop_bit 8 s) = unat a + unat b + unat c"
    and "unat (drop_bit 8 s) \<le> 1"
proof -
  have ab: "unat a < 256" "unat b < 256" by (rule unat_byte_less)+
  have "unat (ucast a :: u16) = unat a" "unat (ucast b :: u16) = unat b"
    using ab by (simp_all add: unat_ucast_mod)
  with ab assms have s: "unat s = unat a + unat b + unat c"
    by (simp add: s_def unat_word_ariths)
  then show "unat (ucast s :: byte) + 256 * unat (drop_bit 8 s) = unat a + unat b + unat c"
    by (simp add: unat_ucast_mod unat_drop_bit_div)
  show "unat (drop_bit 8 s) \<le> 1" using ab assms s by (simp add: unat_drop_bit_div)
qed

lemma u256_add_loop_nat:
  assumes "length as = length bs" and "unat carry \<le> 1" and "u256_add_loop carry as bs = (out, c)"
  shows "length out = length as \<and> unat c \<le> 1 \<and>
    le_nat out + 256 ^ length as * unat c = le_nat as + le_nat bs + unat carry"
  using assms
proof (induction as bs arbitrary: carry out rule: list_induct2)
  case (Cons a as b bs)
  define s :: u16 where "s = ucast a + ucast b + carry"
  obtain out' where 1: "u256_add_loop (drop_bit 8 s) as bs = (out', c)" and out: "out = ucast s # out'"
    using Cons.prems by (auto simp: s_def Let_def split: prod.splits)
  note step = u256_add_step [OF Cons.prems(1), of a b, folded s_def]
  have ih: "length out' = length as" "unat c \<le> 1"
    "le_nat out' + 256 ^ length as * unat c = le_nat as + le_nat bs + unat (drop_bit 8 s)"
    using Cons.IH [OF step(2) 1] by auto
  have "le_nat out + 256 ^ length (a # as) * unat c =
      unat (ucast s :: byte) + 256 * (le_nat out' + 256 ^ length as * unat c)"
    by (simp add: out algebra_simps)
  also have "\<dots> = (unat (ucast s :: byte) + 256 * unat (drop_bit 8 s)) + 256 * (le_nat as + le_nat bs)"
    unfolding ih by (simp add: algebra_simps)
  also have "\<dots> = le_nat (a # as) + le_nat (b # bs) + unat carry"
    unfolding step by simp
  finally show ?case using ih out by simp
qed auto

lemma u256_checked_add_nat:
  assumes "length a = 32" and "length b = 32"
  shows "u256_checked_add a b =
    (if be_nat a + be_nat b < 256 ^ 32 then Some (be_bytes 32 (be_nat a + be_nat b)) else None)"
proof -
  obtain out c where run: "u256_add_loop 0 (rev a) (rev b) = (out, c)" by fastforce
  from u256_add_loop_nat [OF _ _ run] assms have len: "length out = 32" and c: "unat c \<le> 1"
    and val: "le_nat out + 256 ^ 32 * unat c = be_nat a + be_nat b"
    by (simp_all add: be_nat_def)
  have lt: "le_nat out < 256 ^ 32" using le_nat_less [of out] len by simp
  have out: "rev out = be_bytes 32 (le_nat out)"
    using le_bytes_le_nat [of out] len by (simp add: be_bytes_def)
  show ?thesis
  proof (cases "c = 0")
    case True
    with val lt out run show ?thesis by (simp add: u256_checked_add_def)
  next
    case False
    then have "unat c = 1" using c by (metis le_neq_implies_less less_one unat_eq_0)
    with val False run show ?thesis by (simp add: u256_checked_add_def)
  qed
qed

lemma u256_sub_loop_nat:
  assumes "length as = length bs" and "borrow = 0 \<or> borrow = 1"
  shows "length (u256_sub_loop borrow as bs) = length as \<and>
    (\<exists>c. (c = 0 \<or> c = 1) \<and>
      int (le_nat (u256_sub_loop borrow as bs)) + int (le_nat bs) + borrow =
        int (le_nat as) + 256 ^ length as * c)"
  using assms
proof (induction as bs arbitrary: borrow rule: list_induct2)
  case (Cons a as b bs)
  define d where "d = int (unat a) - int (unat b) - borrow"
  define c1 :: int where "c1 = (if d < 0 then 1 else 0)"
  define low :: byte where "low = word_of_int (if d < 0 then d + 256 else d)"
  have ab: "int (unat a) < 256" "int (unat b) < 256"
    using unat_byte_less [of a] unat_byte_less [of b] by linarith+
  have low: "int (unat low) = d + 256 * c1"
  proof -
    obtain x y where xy: "x = int (unat a)" "y = int (unat b)" "0 \<le> x" "0 \<le> y" by simp
    have "0 \<le> d + 256 * c1" "d + 256 * c1 < 256"
      using ab Cons.prems xy(3,4) unfolding d_def c1_def xy(1,2) [symmetric] by auto
    moreover have "low = word_of_int (d + 256 * c1)" by (simp add: low_def c1_def)
    moreover have "int (unat (word_of_int x :: byte)) = x" if "0 \<le> x" "x < 256" for x
      using that by (simp add: uint_word_of_int)
    ultimately show ?thesis by metis
  qed
  have run: "u256_sub_loop borrow (a # as) (b # bs) = low # u256_sub_loop c1 as bs"
    by (simp add: Let_def d_def low_def c1_def)
  have "c1 = 0 \<or> c1 = 1" by (simp add: c1_def)
  then obtain c where ih: "length (u256_sub_loop c1 as bs) = length as" "c = 0 \<or> c = 1"
    "int (le_nat (u256_sub_loop c1 as bs)) + int (le_nat bs) + c1 = int (le_nat as) + 256 ^ length as * c"
    using Cons.IH [of c1] by blast
  have "int (le_nat (u256_sub_loop borrow (a # as) (b # bs))) + int (le_nat (b # bs)) + borrow =
      int (unat low) + int (unat b) + borrow + 256 * (int (le_nat (u256_sub_loop c1 as bs)) + int (le_nat bs))"
    by (simp only: run le_nat.simps) (simp add: algebra_simps)
  also have "\<dots> = int (unat a) + 256 * (int (le_nat as) + 256 ^ length as * c)"
    using low ih(3) by (simp add: d_def algebra_simps)
  also have "\<dots> = int (le_nat (a # as)) + 256 ^ length (a # as) * c"
    by (simp add: algebra_simps)
  finally show ?case using ih by (simp only: run) auto
qed simp

lemma u256_wrapping_sub_nat:
  assumes "length a = 32" and "length b = 32"
  shows "u256_wrapping_sub a b =
    be_bytes 32 (if be_nat b \<le> be_nat a then be_nat a - be_nat b else be_nat a + 256 ^ 32 - be_nat b)"
    and "length (u256_wrapping_sub a b) = 32"
proof -
  define out where "out = u256_sub_loop 0 (rev a) (rev b)"
  from u256_sub_loop_nat [of "rev a" "rev b" 0] assms obtain c where len: "length out = 32"
    and c: "c = 0 \<or> c = 1"
    and val: "int (le_nat out) + int (be_nat b) = int (be_nat a) + 256 ^ 32 * c"
    by (auto simp: out_def be_nat_def)
  have lt: "int (le_nat out) < 256 ^ 32" "int (be_nat a) < 256 ^ 32" "int (be_nat b) < 256 ^ 32"
    using le_nat_less [of out] be_nat_less [of a] be_nat_less [of b] len assms by simp_all
  have out: "rev out = be_bytes 32 (le_nat out)"
    using le_bytes_le_nat [of out] len by (simp add: be_bytes_def)
  have "le_nat out = (if be_nat b \<le> be_nat a then be_nat a - be_nat b else be_nat a + 256 ^ 32 - be_nat b)"
    using c val lt by auto
  with out show "u256_wrapping_sub a b =
      be_bytes 32 (if be_nat b \<le> be_nat a then be_nat a - be_nat b else be_nat a + 256 ^ 32 - be_nat b)"
    by (simp only: u256_wrapping_sub_def flip: out_def)
  show "length (u256_wrapping_sub a b) = 32" using len by (simp add: u256_wrapping_sub_def out_def)
qed

lemma u256_checked_sub_nat:
  assumes "length a = 32" and "length b = 32"
  shows "u256_checked_sub a b =
    (if be_nat b \<le> be_nat a then Some (be_bytes 32 (be_nat a - be_nat b)) else None)"
  using assms by (simp add: u256_checked_sub_def bytes_le_nat u256_wrapping_sub_nat)

lemma shl_byte_nat:
  fixes b c :: byte
  assumes "unat c \<le> 1"
  shows "unat (push_bit 1 b OR c) + 256 * unat (drop_bit 7 b) = 2 * unat b + unat c"
    and "unat (drop_bit 7 b) \<le> 1"
proof -
  have d: "unat (drop_bit 7 b) = unat b div 128" by (simp add: unat_drop_bit_div)
  have b: "unat b < 256" by (rule unat_byte_less)
  have "unat (push_bit 1 b) = (2 * unat b) mod (2 * 128)"
    by (simp add: push_bit_eq_mult unat_word_ariths(2) mult.commute)
  also have "\<dots> = 2 * (unat b mod 128)" by (rule mult_mod_right [symmetric])
  also have "\<dots> = push_bit 1 (unat b mod 128)" by (simp add: push_bit_eq_mult)
  finally have "unat (push_bit 1 b OR c) = unat b mod 128 * 2 + unat c"
    using nat_or_push_bit [of "unat c" 1 "unat b mod 128"] assms by (simp add: unsigned_or_eq)
  moreover have "unat b mod 128 + 128 * (unat b div 128) = unat b" by simp
  ultimately show "unat (push_bit 1 b OR c) + 256 * unat (drop_bit 7 b) = 2 * unat b + unat c"
    unfolding d by linarith
  show "unat (drop_bit 7 b) \<le> 1" using b unfolding d by linarith
qed

lemma shl_loop_nat:
  assumes "unat c \<le> 1"
  shows "length (shl_loop c as) = length as \<and>
    le_nat (shl_loop c as) + 256 ^ length as * (if as = [] then unat c else unat (drop_bit 7 (last as))) =
      2 * le_nat as + unat c"
  using assms
proof (induction as arbitrary: c)
  case (Cons a as)
  note step = shl_byte_nat [OF Cons.prems, of a]
  define k where "k = (if as = [] then unat (drop_bit 7 a) else unat (drop_bit 7 (last as)))"
  have ih: "length (shl_loop (drop_bit 7 a) as) = length as"
    "le_nat (shl_loop (drop_bit 7 a) as) + 256 ^ length as * k = 2 * le_nat as + unat (drop_bit 7 a)"
    using Cons.IH [OF step(2)] by (simp_all add: k_def)
  have "le_nat (shl_loop c (a # as)) + 256 ^ length (a # as) * k =
      unat (push_bit 1 a OR c) + 256 * (le_nat (shl_loop (drop_bit 7 a) as) + 256 ^ length as * k)"
    by (simp add: algebra_simps)
  also have "\<dots> = (unat (push_bit 1 a OR c) + 256 * unat (drop_bit 7 a)) + 512 * le_nat as"
    unfolding ih by simp
  also have "\<dots> = 2 * le_nat (a # as) + unat c" unfolding step by simp
  finally have "le_nat (shl_loop c (a # as)) + 256 ^ length (a # as) * k = 2 * le_nat (a # as) + unat c" .
  moreover have "k = (if a # as = [] then unat c else unat (drop_bit 7 (last (a # as))))"
    by (simp add: k_def)
  ultimately show ?case using ih by simp
qed simp

lemma byte_high_bit: "b AND 0x80 \<noteq> 0 \<longleftrightarrow> unat (drop_bit 7 (b::byte)) = 1"
proof -
  have "unat b div 128 < 2" using unat_byte_less [of b] by linarith
  then show ?thesis using word_and_bit [of 7 b] by (auto simp: unat_drop_bit_div less_2_cases_iff)
qed

lemma shift_left_one_nat:
  assumes "length a = 32"
  shows "shift_left_one a = (be_bytes 32 (2 * be_nat a mod 256 ^ 32), 256 ^ 32 \<le> 2 * be_nat a)"
proof -
  define out where "out = shl_loop 0 (rev a)"
  have ne: "rev a \<noteq> []" "last (rev a) = a ! 0" using assms by (cases a; simp)+
  have len: "length out = 32"
    and val: "le_nat out + 256 ^ 32 * unat (drop_bit 7 (a ! 0)) = 2 * be_nat a"
    using shl_loop_nat [of 0 "rev a"] assms ne by (simp_all add: out_def be_nat_def)
  have lt: "le_nat out < 256 ^ 32" using le_nat_less [of out] len by simp
  have k: "unat (drop_bit 7 (a ! 0)) \<le> 1" by (rule shl_byte_nat(2) [of 0]) simp
  have "rev out = be_bytes 32 (le_nat out)"
    using le_bytes_le_nat [of out] len by (simp add: be_bytes_def)
  moreover have "le_nat out = 2 * be_nat a mod 256 ^ 32"
    by (metis val lt mod_less mod_mult_self2)
  moreover have "unat (drop_bit 7 (a ! 0)) = 1 \<longleftrightarrow> 256 ^ 32 \<le> 2 * be_nat a"
    using val lt k by (cases "unat (drop_bit 7 (a ! 0))") auto
  ultimately show ?thesis by (simp add: shift_left_one_def out_def byte_high_bit)
qed

lemma byte_set_bit_nat:
  fixes b :: byte
  assumes "j < 8" and "even (unat b div 2 ^ j)"
  shows "unat (b OR push_bit j 1) = unat b + 2 ^ j"
proof -
  have p: "unat (push_bit j 1 :: byte) = 2 ^ j"
    using unat_word_of_nat_small [of "2 ^ j", where 'w = 8] power_strict_increasing [of j 8 "2::nat"] assms(1)
    by (simp add: push_bit_eq_mult)
  have "unat b AND 2 ^ j = 0" using assms(2) by (simp add: and_exp_eq_0_iff_not_bit bit_iff_odd)
  then have "unat b OR 2 ^ j = unat b + 2 ^ j" by (simp add: disjunctive_add_eq_or)
  then show ?thesis by (simp only: unsigned_or_eq p)
qed

lemma u256_set_bit_nat:
  assumes "length a = 32" and n: "n < 256" and even: "even (be_nat a div 2 ^ n)"
  shows "u256_set_bit a n = be_bytes 32 (be_nat a + 2 ^ n)"
proof -
  define i j k where "i = 31 - n div 8" and "j = n mod 8" and "k = n div 8"
  define xs b ys where "xs = take i a" and "b = a ! i" and "ys = drop (Suc i) a"
  have i: "i < 32" "length xs = i" "length ys = k" "j < 8"
    using assms by (auto simp: i_def j_def k_def xs_def ys_def)
  have a: "a = xs @ b # ys" using i assms by (simp add: xs_def b_def ys_def id_take_nth_drop)
  have pow: "(2::nat) ^ n = 256 ^ k * 2 ^ j"
  proof -
    have "(256::nat) ^ k = 2 ^ (8 * k)" by (simp add: power_mult)
    moreover have "n = 8 * k + j" by (simp add: j_def k_def)
    ultimately show ?thesis by (simp add: power_add)
  qed
  have val: "be_nat a = (be_nat xs * 256 + unat b) * 256 ^ k + be_nat ys"
    unfolding a by (simp add: be_nat_append i algebra_simps)
  have "be_nat ys < 256 ^ k" using be_nat_less [of ys] i by simp
  then have "be_nat a div 2 ^ n = (be_nat xs * 256 + unat b) div 2 ^ j"
    unfolding pow val div_mult2_eq by simp
  also have "\<dots> = be_nat xs * (2 * 2 ^ (7 - j)) + unat b div 2 ^ j"
  proof -
    have "(256::nat) = 2 * 2 ^ (7 - j) * 2 ^ j"
      using i(4) power_add [of "2::nat" "7 - j" j] by (simp add: mult.commute)
    then have "be_nat xs * 256 + unat b = unat b + be_nat xs * (2 * 2 ^ (7 - j)) * 2 ^ j"
      by (metis add.commute mult.assoc)
    moreover have "(unat b + be_nat xs * (2 * 2 ^ (7 - j)) * 2 ^ j) div 2 ^ j =
        be_nat xs * (2 * 2 ^ (7 - j)) + unat b div 2 ^ j"
      by (rule div_mult_self1) simp
    ultimately show ?thesis by (simp only:)
  qed
  finally have "even (unat b div 2 ^ j)" using even by simp
  then have b: "unat (b OR push_bit j 1) = unat b + 2 ^ j" by (rule byte_set_bit_nat [OF i(4)])
  have upd: "u256_set_bit a n = xs @ (b OR push_bit j 1) # ys"
    using i assms(1) unfolding u256_set_bit_def i_def [symmetric] j_def [symmetric] b_def [symmetric]
    by (simp add: upd_conv_take_nth_drop xs_def ys_def)
  then have "be_nat (u256_set_bit a n) = be_nat a + 2 ^ n"
    using b unfolding val pow by (simp add: be_nat_append i algebra_simps)
  then show ?thesis
    using be_bytes_be_nat [of "u256_set_bit a n"] assms(1) by (simp add: u256_set_bit_def)
qed

section \<open>Division\<close>

text \<open>
  The state of the division loop with \<open>k\<close> bits to go: quotient and remainder of the part
  of \<open>2 ^ 256\<close> shifted in so far.
\<close>

definition div_state :: "nat \<Rightarrow> nat \<Rightarrow> u256 \<times> u256" where
  "div_state dv k =
     (be_bytes 32 (2 ^ (256 - k) mod dv), be_bytes 32 (2 ^ k * (2 ^ (256 - k) div dv)))"

lemma div_double: "0 < dv \<Longrightarrow> 2 * p div dv = 2 * (p div dv) + (if dv \<le> 2 * (p mod dv) then 1 else (0::nat))"
  "0 < dv \<Longrightarrow> 2 * p mod dv = (if dv \<le> 2 * (p mod dv) then 2 * (p mod dv) - dv else 2 * (p mod dv))"
proof -
  assume dv: "0 < dv"
  have p: "2 * p = 2 * (p mod dv) + dv * (2 * (p div dv))"
    by (metis mult_div_mod_eq add.commute distrib_left mult.left_commute)
  have r: "p mod dv < dv" using dv by simp
  have q: "2 * (p mod dv) div dv = (if dv \<le> 2 * (p mod dv) then 1 else 0)"
    using r by (auto simp: div_nat_eqI)
  show "2 * p div dv = 2 * (p div dv) + (if dv \<le> 2 * (p mod dv) then 1 else 0)"
    using q dv by (subst p) (simp add: div_mult_self2)
  have m: "2 * (p mod dv) mod dv = (if dv \<le> 2 * (p mod dv) then 2 * (p mod dv) - dv else 2 * (p mod dv))"
    using r by (auto simp: le_mod_geq)
  show "2 * p mod dv = (if dv \<le> 2 * (p mod dv) then 2 * (p mod dv) - dv else 2 * (p mod dv))"
    by (subst p) (simp add: m)
qed

lemma div_quotient_bound: "1 < dv \<Longrightarrow> k \<le> 256 \<Longrightarrow> 2 ^ k * (2 ^ (256 - k) div dv) < (256::nat) ^ 32"
proof -
  assume "1 < dv" "k \<le> 256"
  then have "2 ^ (256 - k) div dv < (2::nat) ^ (256 - k)" by (intro div_less_dividend) simp_all
  then have "2 ^ k * (2 ^ (256 - k) div dv) < 2 ^ k * (2::nat) ^ (256 - k)" by simp
  also have "\<dots> = 2 ^ 256" using \<open>k \<le> 256\<close> by (simp flip: power_add)
  finally show ?thesis by simp
qed

lemma div_step_state:
  assumes len: "length d = 32" and dv: "1 < be_nat d" and n: "n < 256"
  shows "div_step d n (div_state (be_nat d) (Suc n)) = div_state (be_nat d) n"
proof -
  define D P where "D = be_nat d" and "P = (2::nat) ^ (256 - Suc n)"
  define R A where "R = P mod D" and "A = P div D"
  have D: "1 < D" "D < 256 ^ 32" using dv be_nat_less [of d] len by (simp_all add: D_def)
  have R: "R < D" using D by (simp add: R_def)
  have P: "2 ^ (256 - n) = 2 * P" using n by (simp add: P_def Suc_diff_Suc flip: power_Suc)
  have q: "2 ^ Suc n * A < (256::nat) ^ 32"
    using div_quotient_bound [OF D(1), of "Suc n"] n by (simp add: A_def P_def)
  have st: "div_state (be_nat d) (Suc n) = (be_bytes 32 R, be_bytes 32 (2 ^ Suc n * A))"
    by (simp only: div_state_def R_def A_def P_def D_def)
  have st': "div_state (be_nat d) n = (be_bytes 32 (2 * P mod D), be_bytes 32 (2 ^ n * (2 * P div D)))"
    by (simp only: div_state_def P D_def)
  have shift: "shift_left_one (be_bytes 32 R) = (be_bytes 32 (2 * R mod 256 ^ 32), 256 ^ 32 \<le> 2 * R)"
    using R D by (subst shift_left_one_nat) (simp_all add: be_nat_be_bytes)
  have cond: "256 ^ 32 \<le> 2 * R \<or> bytes_le d (be_bytes 32 (2 * R mod 256 ^ 32)) \<longleftrightarrow> D \<le> 2 * R"
  proof (cases "256 ^ 32 \<le> 2 * R")
    case True
    then show ?thesis using D by linarith
  next
    case False
    then show ?thesis using len by (simp add: bytes_le_nat be_nat_be_bytes D_def [symmetric])
  qed
  have sub: "u256_wrapping_sub (be_bytes 32 (2 * R mod 256 ^ 32)) d = be_bytes 32 (2 * R - D)" if "D \<le> 2 * R"
  proof (cases "256 ^ 32 \<le> 2 * R")
    case True
    then have "2 * R mod 256 ^ 32 = 2 * R - 256 ^ 32" using R D by (simp add: le_mod_geq)
    then show ?thesis using True R D len
      by (simp add: u256_wrapping_sub_nat be_nat_be_bytes D_def [symmetric])
  next
    case False
    then show ?thesis using that len
      by (simp add: u256_wrapping_sub_nat be_nat_be_bytes D_def [symmetric])
  qed
  have bit: "u256_set_bit (be_bytes 32 (2 ^ Suc n * A)) n = be_bytes 32 (2 ^ n * (2 * A + 1))"
    using q n by (subst u256_set_bit_nat) (simp_all add: be_nat_be_bytes algebra_simps)
  have step: "div_step d n (be_bytes 32 R, be_bytes 32 (2 ^ Suc n * A)) =
      (if D \<le> 2 * R then (be_bytes 32 (2 * R - D), be_bytes 32 (2 ^ n * (2 * A + 1)))
       else (be_bytes 32 (2 * R mod 256 ^ 32), be_bytes 32 (2 ^ Suc n * A)))"
    unfolding div_step_def prod.case shift Let_def
    using n sub by (auto simp only: bit cond if_True if_False split: if_splits)
  have small: "2 * R mod 256 ^ 32 = 2 * R" if "\<not> D \<le> 2 * R" using that D by simp
  have "0 < D" using D by simp
  note double = div_double [OF this, of P, folded R_def A_def]
  show ?thesis unfolding st st' step double using small by (cases "D \<le> 2 * R") (simp_all add: mult_ac)
qed

lemma div_loop:
  assumes "length d = 32" and "1 < be_nat d" and "k \<le> 256"
  shows "fold (div_step d) (rev [0..<k]) (div_state (be_nat d) k) = div_state (be_nat d) 0"
  using assms(3) by (induction k) (simp_all add: div_step_state [OF assms(1,2)] Suc_le_eq less_imp_le)

lemma be_nat_one: "be_nat u256_one = 1" "length u256_one = 32"
  by (simp_all add: u256_one_def u256_from_u64_def u64_to_be_def be_nat_append be_nat_be_bytes)

lemma be_nat_zero: "be_nat u256_zero = 0" "length u256_zero = 32"
  by (simp_all add: u256_zero_def)

lemma div_first_step:
  assumes len: "length d = 32" and dv: "1 < be_nat d"
  shows "div_step d 256 (u256_zero, u256_zero) = div_state (be_nat d) 256"
proof -
  have z: "u256_zero = be_bytes 32 0"
    using be_bytes_be_nat [of u256_zero] by (simp add: be_nat_zero)
  have sh: "shift_left_one u256_zero = (be_bytes 32 0, False)"
    by (simp add: shift_left_one_nat be_nat_zero)
  have one: "u256_zero[31 := (u256_zero ! 31) OR 1] = be_bytes 32 1"
    using u256_set_bit_nat [of u256_zero 0] by (simp add: u256_set_bit_def be_nat_zero)
  show ?thesis using assms
    by (simp add: div_step_def sh one div_state_def bytes_le_nat be_nat_be_bytes z [symmetric] Let_def)
qed

lemma rev_upt_257: "rev [0..<257] = 256 # rev [0..<256]"
proof -
  have "(257::nat) = Suc 256" by simp
  then show ?thesis by (simp only: upt_Suc_append le0 rev_append rev.simps append.simps)
qed

lemma divide_two_to_256_nat:
  assumes "length d = 32"
  shows "divide_two_to_256 d =
    (if be_nat d \<le> 1 then None else Some (be_bytes 32 (2 ^ 256 div be_nat d)))"
proof (cases "be_nat d \<le> 1")
  case True
  then show ?thesis using assms by (simp add: divide_two_to_256_def bytes_le_nat be_nat_one)
next
  case False
  then have "1 < be_nat d" by simp
  then have "fold (div_step d) (rev [0..<257]) (u256_zero, u256_zero) = div_state (be_nat d) 0"
    by (simp only: rev_upt_257 fold_simps div_first_step [OF assms] div_loop [OF assms _ order_refl])
  with False show ?thesis using assms
    by (simp add: divide_two_to_256_def bytes_le_nat be_nat_one div_state_def)
qed

text \<open>Work and target, as numbers: \<open>w = 2 ^ 256 div (t + 1)\<close> and \<open>t = 2 ^ 256 div w - 1\<close>.\<close>

lemma be_nat_eq_iff: "length a = 32 \<Longrightarrow> length b = 32 \<Longrightarrow> a = b \<longleftrightarrow> be_nat a = be_nat b"
  by (simp add: be_nat_inj)

lemma work_for_target_nat:
  assumes len: "length t = 32"
  shows "work_for_target t =
    (if be_nat t = 0 then None else Some (be_bytes 32 (2 ^ 256 div (be_nat t + 1))))"
proof -
  have lt: "be_nat t < 256 ^ 32" using be_nat_less [of t] len by simp
  have z: "t = u256_zero \<longleftrightarrow> be_nat t = 0" using len by (simp add: be_nat_eq_iff be_nat_zero)
  show ?thesis
  proof (cases "be_nat t + 1 < 256 ^ 32")
    case True
    then have "u256_checked_add t u256_one = Some (be_bytes 32 (be_nat t + 1))"
      using len by (simp add: u256_checked_add_nat be_nat_one)
    with True show ?thesis by (simp add: work_for_target_def z divide_two_to_256_nat be_nat_be_bytes)
  next
    case False
    then have t: "be_nat t + 1 = 256 ^ 32" using lt by simp
    have "u256_one = be_bytes 32 1" using be_bytes_be_nat [of u256_one] by (simp add: be_nat_one)
    with t len show ?thesis by (simp add: work_for_target_def z u256_checked_add_nat be_nat_one)
  qed
qed

lemma be_nat_replicate_ff: "be_nat (replicate n 0xff) = 256 ^ n - 1"
proof (induction n)
  case (Suc n)
  have "(0::nat) < 256 ^ n" by simp
  then have "255 * 256 ^ n + (256 ^ n - 1) = 256 ^ Suc n - (1::nat)" by (simp del: zero_less_power)
  then show ?case using Suc by simp
qed simp

lemma target_for_work_nat:
  assumes len: "length w = 32"
  shows "target_for_work w =
    (if be_nat w = 0 then None else Some (be_bytes 32 (2 ^ 256 div be_nat w - 1)))"
proof -
  have lt: "be_nat w < 256 ^ 32" using be_nat_less [of w] len by simp
  have z: "w = u256_zero \<longleftrightarrow> be_nat w = 0" "w = u256_one \<longleftrightarrow> be_nat w = 1"
    using len by (simp_all add: be_nat_eq_iff be_nat_zero be_nat_one)
  have ones: "replicate 32 0xff = be_bytes 32 (256 ^ 32 - 1)"
    using be_bytes_be_nat [of "replicate 32 0xff"] by (simp add: be_nat_replicate_ff)
  consider "be_nat w = 0" | "be_nat w = 1" | "1 < be_nat w" by linarith
  then show ?thesis
  proof cases
    case 3
    have q: "2 ^ 256 div be_nat w < 256 ^ 32" using 3 by (intro div_less_dividend [THEN less_le_trans]) simp_all
    have "0 < 2 ^ 256 div be_nat w" using 3 lt by (simp add: div_greater_zero_iff)
    with 3 q z show ?thesis
      by (simp add: target_for_work_def divide_two_to_256_nat [OF len] u256_checked_sub_nat be_nat_one be_nat_be_bytes)
  qed (use z ones in \<open>simp_all add: target_for_work_def\<close>)
qed

section \<open>The compact form\<close>

text \<open>The three fields of a compact word, as numbers.\<close>

definition compact_exponent :: "compact_target \<Rightarrow> nat" where
  "compact_exponent bits = unat bits div 2 ^ 24"

definition compact_mantissa :: "compact_target \<Rightarrow> nat" where
  "compact_mantissa bits = unat bits mod 2 ^ 23"

definition compact_value :: "compact_target \<Rightarrow> nat" where
  "compact_value bits =
     (if compact_exponent bits \<le> 3 then compact_mantissa bits div 256 ^ (3 - compact_exponent bits)
      else compact_mantissa bits * 256 ^ (compact_exponent bits - 3))"

lemma compact_mantissa_less: "compact_mantissa bits < 2 ^ 23"
  by (simp add: compact_mantissa_def)

lemma u32_fields:
  fixes w :: u32
  shows "w AND 0x00800000 \<noteq> 0 \<longleftrightarrow> odd (unat w div 2 ^ 23)"
    and "unat (w AND 0x007fffff) = unat w mod 2 ^ 23"
    and "unat (ucast (w AND 0xff) :: byte) = unat w mod 256"
proof -
  show "w AND 0x00800000 \<noteq> 0 \<longleftrightarrow> odd (unat w div 2 ^ 23)" using word_and_bit [of 23 w] by simp
  have "(0x007fffff :: u32) = mask 23" "(0xff :: u32) = mask 8" by (simp_all add: mask_eq_exp_minus_1)
  then show "unat (w AND 0x007fffff) = unat w mod 2 ^ 23" "unat (ucast (w AND 0xff) :: byte) = unat w mod 256"
    by (simp_all only: unat_ucast_mod unat_and_mask_mod) simp_all
qed

lemma place_three:
  assumes "3 < e"
  shows "fold (place_byte e) (enumerate 0 [x, y, z]) (replicate 32 0, False) =
    (if e \<le> 32 then (replicate (32 - e) 0 @ [x, y, z] @ replicate (e - 3) 0, False)
     else if e = 33 then (y # z # replicate 30 0, x \<noteq> 0)
     else if e = 34 then (z # replicate 31 0, x \<noteq> 0 \<or> y \<noteq> 0)
     else (replicate 32 0, x \<noteq> 0 \<or> y \<noteq> 0 \<or> z \<noteq> 0))"
proof -
  consider "e \<le> 32" | "e = 33" | "e = 34" | "34 < e" by linarith
  then show ?thesis
  proof cases
    case 1
    define k where "k = 32 - e"
    have k: "k + 3 + (e - 3) = 32" "nat (32 - int e) = k" "nat (32 - int e + 1) = k + 1"
      "nat (32 - int e + 2) = k + 2"
      using assms 1 by (simp_all add: k_def)
    have "replicate 32 (0::byte) = replicate k 0 @ [0, 0, 0] @ replicate (e - 3) 0"
      unfolding k(1) [symmetric] replicate_add by (simp add: eval_nat_numeral)
    then have "(replicate 32 0)[k := x, k + 1 := y, k + 2 := z] = replicate k 0 @ [x, y, z] @ replicate (e - 3) 0"
      by (simp add: list_update_append)
    then show ?thesis using 1 assms k by (simp add: place_byte_def k_def)
  qed (auto simp: place_byte_def eval_nat_numeral)
qed

definition compact_negative :: "compact_target \<Rightarrow> bool" where
  "compact_negative bits \<longleftrightarrow> odd (unat bits div 2 ^ 23)"

lemma drop_be_bytes_4: "drop 1 (be_bytes 4 v) = be_bytes 3 v"
proof -
  have "(4::nat) = Suc 3" by simp
  then show ?thesis by (simp only: be_bytes_def le_bytes_snoc) simp
qed

lemma from_compact_small:
  assumes "compact_exponent bits \<le> 3"
  shows "from_compact bits = \<lparr>dt_bytes = be_bytes 32 (compact_value bits),
    dt_negative = compact_negative bits, dt_overflow = False\<rparr>"
proof (cases "bits = 0")
  case True
  have "replicate 32 0 = be_bytes 32 0" using be_bytes_be_nat [of "replicate 32 0"] by simp
  then show ?thesis using True
    by (simp add: from_compact_def compact_value_def compact_mantissa_def compact_exponent_def compact_negative_def)
next
  case False
  define V where "V = compact_value bits"
  have e: "unat (drop_bit 24 bits) = compact_exponent bits"
    by (simp add: unat_drop_bit_div compact_exponent_def)
  have v: "unat (drop_bit (8 * (3 - compact_exponent bits)) (bits AND 0x007fffff)) = V"
    using assms unfolding unat_drop_bit_div u32_fields
    by (simp add: V_def compact_value_def compact_mantissa_def power_mult)
  have "V \<le> compact_mantissa bits" using assms by (simp add: V_def compact_value_def)
  also have "\<dots> < 256 ^ 3" using compact_mantissa_less [of bits] by simp
  finally have "be_nat (replicate 29 0 @ be_bytes 3 V) = V" by (simp add: be_nat_append be_nat_be_bytes)
  then have "replicate 29 0 @ be_bytes 3 V = be_bytes 32 V"
    using be_bytes_be_nat [of "replicate 29 0 @ be_bytes 3 V"] by simp
  moreover have "drop 1 (be_bytes 4 V) = be_bytes 3 V" by (rule drop_be_bytes_4)
  ultimately show ?thesis
    using False assms unfolding from_compact_def Let_def e v u32_fields(1) V_def compact_negative_def
    by (simp only: if_False if_True)
qed

lemma mantissa_bytes:
  fixes bits :: u32
  defines "x \<equiv> ucast (drop_bit 16 (bits AND 0x007fffff) AND 0xff) :: byte"
    and "y \<equiv> ucast (drop_bit 8 (bits AND 0x007fffff) AND 0xff) :: byte"
    and "z \<equiv> ucast ((bits AND 0x007fffff) AND 0xff) :: byte"
  shows "be_nat [x, y, z] = compact_mantissa bits"
    and "x = 0 \<longleftrightarrow> compact_mantissa bits < 65536"
    and "x = 0 \<and> y = 0 \<longleftrightarrow> compact_mantissa bits < 256"
    and "x = 0 \<and> y = 0 \<and> z = 0 \<longleftrightarrow> compact_mantissa bits = 0"
proof -
  define m where "m = compact_mantissa bits"
  have low: "unat (bits AND 0x007fffff) = m" by (simp only: u32_fields m_def compact_mantissa_def)
  have "m < 8388608" using compact_mantissa_less [of bits] by (simp add: m_def)
  then have "m div 65536 < 256" by linarith
  then have xyz: "unat x = m div 65536" "unat y = m div 256 mod 256" "unat z = m mod 256"
    unfolding x_def y_def z_def u32_fields(3) unat_drop_bit_div low by simp_all
  show "be_nat [x, y, z] = compact_mantissa bits" 
  proof -
    define h where "h = m div 256"
    have "m = h * 256 + m mod 256" "h = h div 256 * 256 + h mod 256" by (simp_all add: h_def)
    moreover have "m div 65536 = h div 256" by (simp add: h_def flip: div_mult2_eq)
    ultimately have "m div 65536 * 65536 + (h mod 256 * 256 + m mod 256) = m" by linarith
    then show ?thesis using xyz by (simp add: h_def [symmetric] m_def [symmetric])
  qed
  have zero: "x = 0 \<longleftrightarrow> m div 65536 = 0" "y = 0 \<longleftrightarrow> m div 256 mod 256 = 0" "z = 0 \<longleftrightarrow> m mod 256 = 0"
    by (simp_all only: xyz [symmetric] unat_eq_0)
  have mods: "m < 65536 \<Longrightarrow> m div 256 mod 256 = m div 256" "m < 256 \<Longrightarrow> m mod 256 = m"
    by (simp_all add: less_mult_imp_div_less)
  show x: "x = 0 \<longleftrightarrow> compact_mantissa bits < 65536"
    unfolding zero m_def [symmetric] by (simp add: div_eq_0_iff)
  show xy: "x = 0 \<and> y = 0 \<longleftrightarrow> compact_mantissa bits < 256"
    unfolding x zero(2) m_def [symmetric] by (cases "m < 65536") (simp_all only: mods, auto simp: div_eq_0_iff)
  show "x = 0 \<and> y = 0 \<and> z = 0 \<longleftrightarrow> compact_mantissa bits = 0"
    unfolding conj_assoc [symmetric] xy zero(3) m_def [symmetric] using mods by auto
qed

lemma from_compact_large:
  assumes e: "3 < compact_exponent bits"
  shows "dt_overflow (from_compact bits) \<longleftrightarrow> 256 ^ 32 \<le> compact_value bits"
    and "\<not> dt_overflow (from_compact bits) \<Longrightarrow> be_nat (dt_bytes (from_compact bits)) = compact_value bits"
    and "dt_negative (from_compact bits) \<longleftrightarrow> compact_negative bits"
    and "length (dt_bytes (from_compact bits)) = 32"
proof -
  define m where "m = compact_mantissa bits"
  obtain x y z :: byte where xyz: "be_nat [x, y, z] = m" "x = 0 \<longleftrightarrow> m < 65536"
      "x = 0 \<and> y = 0 \<longleftrightarrow> m < 256" "x = 0 \<and> y = 0 \<and> z = 0 \<longleftrightarrow> m = 0"
    and run: "from_compact bits =
      (let (bs, overflow) = fold (place_byte (compact_exponent bits)) (enumerate 0 [x, y, z]) (replicate 32 0, False)
       in \<lparr>dt_bytes = bs, dt_negative = compact_negative bits, dt_overflow = overflow\<rparr>)"
  proof
    have "unat (drop_bit 24 bits) = compact_exponent bits"
      by (simp add: unat_drop_bit_div compact_exponent_def)
    moreover have "bits \<noteq> 0" using e by (auto simp: compact_exponent_def)
    ultimately show "from_compact bits =
      (let (bs, overflow) = fold (place_byte (compact_exponent bits))
           (enumerate 0 [ucast (drop_bit 16 (bits AND 0x007fffff) AND 0xff),
              ucast (drop_bit 8 (bits AND 0x007fffff) AND 0xff), ucast ((bits AND 0x007fffff) AND 0xff)])
           (replicate 32 0, False)
       in \<lparr>dt_bytes = bs, dt_negative = compact_negative bits, dt_overflow = overflow\<rparr>)"
      using e unfolding from_compact_def Let_def compact_negative_def u32_fields(1)
      by (simp only: if_False not_le [symmetric])
  qed (unfold m_def, (rule mantissa_bytes)+)
  show "dt_negative (from_compact bits) \<longleftrightarrow> compact_negative bits"
    "length (dt_bytes (from_compact bits)) = 32"
    unfolding run place_three [OF e] using e by (simp_all add: Let_def split: prod.splits)
  have m: "m < 256 ^ 3" using compact_mantissa_less [of bits] by (simp add: m_def)
  have val: "compact_value bits = m * 256 ^ (compact_exponent bits - 3)"
    using e by (simp add: compact_value_def m_def)
  consider "compact_exponent bits \<le> 32" | "compact_exponent bits = 33" | "compact_exponent bits = 34"
    | "34 < compact_exponent bits" by linarith
  then have "(dt_overflow (from_compact bits) \<longleftrightarrow> 256 ^ 32 \<le> compact_value bits) \<and>
     (\<not> dt_overflow (from_compact bits) \<longrightarrow> be_nat (dt_bytes (from_compact bits)) = compact_value bits)"
  proof cases
    case 1
    have "m * 256 ^ (compact_exponent bits - 3) < 256 ^ 3 * 256 ^ (compact_exponent bits - 3)"
      using m by (intro mult_strict_right_mono) simp_all
    also have "\<dots> = (256::nat) ^ compact_exponent bits" 
      using e by (simp only: power_add [symmetric]) simp
    also have "\<dots> \<le> 256 ^ 32" using 1 by (intro power_increasing) simp_all
    finally show ?thesis unfolding run place_three [OF e] val 
      using 1 by (simp add: be_nat_append xyz(1) [simplified, symmetric] algebra_simps)
  next
    case 2
    then show ?thesis unfolding run place_three [OF e] val using xyz(1,2) by auto
  next
    case 3
    then show ?thesis unfolding run place_three [OF e] val using xyz(1,3) by auto
  next
    case 4
    have "256 ^ 32 \<le> (256::nat) ^ (compact_exponent bits - 3)" using 4 by (intro power_increasing) simp_all
    then have "256 ^ 32 \<le> m * 256 ^ (compact_exponent bits - 3) \<longleftrightarrow> m \<noteq> 0"
      by (cases m) (simp_all add: trans_le_add1)
    then show ?thesis unfolding run place_three [OF e] val using 4 xyz(4) by auto
  qed
  then show "dt_overflow (from_compact bits) \<longleftrightarrow> 256 ^ 32 \<le> compact_value bits"
    "\<not> dt_overflow (from_compact bits) \<Longrightarrow> be_nat (dt_bytes (from_compact bits)) = compact_value bits"
    by blast+
qed

lemma compact_value_small: "compact_exponent bits \<le> 3 \<Longrightarrow> compact_value bits < 256 ^ 32"
  using le_less_trans [OF div_le_dividend compact_mantissa_less, of bits "256 ^ (3 - compact_exponent bits)"]
  by (simp add: compact_value_def)

lemma from_compact_value:
  shows "dt_overflow (from_compact bits) \<longleftrightarrow> 256 ^ 32 \<le> compact_value bits"
    and "\<not> dt_overflow (from_compact bits) \<Longrightarrow> be_nat (dt_bytes (from_compact bits)) = compact_value bits"
    and "dt_negative (from_compact bits) \<longleftrightarrow> compact_negative bits"
    and "length (dt_bytes (from_compact bits)) = 32"
  by (cases "compact_exponent bits \<le> 3";
      use from_compact_large [of bits] compact_value_small [of bits] in
        \<open>simp add: from_compact_small be_nat_be_bytes not_le [symmetric]\<close>)+

text \<open>A compact word whose value fits decodes to that number.\<close>

lemma from_compact_eq:
  assumes "compact_value bits < 256 ^ 32"
  shows "from_compact bits = \<lparr>dt_bytes = be_bytes 32 (compact_value bits),
    dt_negative = compact_negative bits, dt_overflow = False\<rparr>"
proof -
  have "\<not> dt_overflow (from_compact bits)" using from_compact_value(1) [of bits] assms by simp
  moreover have "dt_bytes (from_compact bits) = be_bytes 32 (compact_value bits)"
    using from_compact_value(2,4) [of bits] calculation be_bytes_be_nat by metis
  ultimately show ?thesis using from_compact_value(3) [of bits] by simp
qed

lemma first_nonzero_split:
  "case first_nonzero bs of None \<Rightarrow> bs = replicate (length bs) 0
   | Some f \<Rightarrow> f < length bs \<and> take f bs = replicate f 0 \<and> bs ! f \<noteq> 0"
  by (induction bs) (auto split: option.splits)

lemma u32_shift_or:
  fixes v :: u32 and b :: byte
  assumes "unat v < 2 ^ 24"
  shows "unat (push_bit 8 v OR ucast b) = unat v * 256 + unat b"
proof -
  have "unat v * 256 < 2 ^ 32" using assms by simp
  then have "unat (push_bit 8 v) = push_bit 8 (unat v)"
    by (simp add: push_bit_eq_mult unat_word_ariths(2))
  moreover have "unat (ucast b :: u32) = unat b" by (simp add: unat_ucast_mod)
  ultimately show ?thesis
    using nat_or_push_bit [of "unat b" 8 "unat v"] unat_byte_less [of b] by (simp add: unsigned_or_eq)
qed

lemma foldl_shift_or:
  "length bs \<le> 3 \<Longrightarrow> unat (foldl (\<lambda>v b. push_bit 8 v OR ucast b) (0 :: u32) bs) = be_nat bs"
proof (induction bs rule: rev_induct)
  case (snoc b bs)
  have "be_nat bs < 256 ^ 3"
    using be_nat_less [of bs] snoc.prems power_increasing [of "length bs" 3 "256::nat"] by simp
  then show ?case using snoc by (simp add: u32_shift_or be_nat_append)
qed simp

text \<open>
  The canonical compact form of a nonzero 256-bit number: its size in bytes and its three
  leading bytes, moved down by one byte when the top bit would read as a sign.
\<close>

lemma leading_bytes:
  assumes len: "length bs = 32" and f: "first_nonzero bs = Some f"
  defines "e \<equiv> 32 - f"
  shows "256 ^ (e - 1) \<le> be_nat bs" and "be_nat bs < 256 ^ e" and "1 \<le> e" and "e \<le> 32"
    and "be_nat (drop f bs) = be_nat bs"
    and "3 < e \<Longrightarrow> be_nat [bs ! f, bs ! (f + 1), bs ! (f + 2)] = be_nat bs div 256 ^ (e - 3)"
proof -
  have sp: "f < 32" "take f bs = replicate f 0" "bs ! f \<noteq> 0"
    using first_nonzero_split [of bs] f len by simp_all
  have "be_nat bs = be_nat (take f bs @ drop f bs)" by simp
  then show drop: "be_nat (drop f bs) = be_nat bs" unfolding be_nat_append sp by simp
  show "1 \<le> e" "e \<le> 32" using sp by (simp_all add: e_def)
  show "be_nat bs < 256 ^ e" using be_nat_less [of "drop f bs"] len by (simp add: drop e_def)
  have hd: "drop f bs = bs ! f # drop (Suc f) bs" using sp len by (simp add: Cons_nth_drop_Suc)
  have "1 \<le> unat (bs ! f)" using sp(3) by (metis One_nat_def Suc_leI neq0_conv unat_eq_0)
  then have "256 ^ (e - 1) \<le> unat (bs ! f) * 256 ^ (e - 1)" by simp
  also have "\<dots> \<le> be_nat (drop f bs)" unfolding hd using len by (simp add: e_def)
  finally show "256 ^ (e - 1) \<le> be_nat bs" by (simp only: drop)
  show "be_nat [bs ! f, bs ! (f + 1), bs ! (f + 2)] = be_nat bs div 256 ^ (e - 3)" if "3 < e"
  proof -
    have "drop f bs = [bs ! f, bs ! (f + 1), bs ! (f + 2)] @ drop (f + 3) bs"
      using that len by (simp add: e_def Cons_nth_drop_Suc eval_nat_numeral)
    then have "be_nat bs = be_nat [bs ! f, bs ! (f + 1), bs ! (f + 2)] * 256 ^ (e - 3) + be_nat (drop (f + 3) bs)"
      using be_nat_append [of "[bs ! f, bs ! (f + 1), bs ! (f + 2)]" "drop (f + 3) bs"] drop len
      by (simp add: e_def)
    moreover have "be_nat (drop (f + 3) bs) < 256 ^ (e - 3)"
      using be_nat_less [of "drop (f + 3) bs"] len by (simp add: e_def)
    ultimately show ?thesis by (simp only: div_mult_self3 div_less) 
  qed
qed

definition leading_mantissa :: "nat \<Rightarrow> nat \<Rightarrow> nat" where
  "leading_mantissa e v = (if e \<le> 3 then v * 256 ^ (3 - e) else v div 256 ^ (e - 3))"

lemma leading_mantissa_bounds:
  assumes "256 ^ (e - 1) \<le> v" and "v < 256 ^ e" and "1 \<le> e"
  shows "65536 \<le> leading_mantissa e v" and "leading_mantissa e v < 16777216"
proof -
  have pow: "256 ^ (e - 1) * 256 ^ (3 - e) = (65536::nat)" "256 ^ e * 256 ^ (3 - e) = (16777216::nat)"
    if "e \<le> 3" using that assms(3) by (simp_all flip: power_add)
  have pow': "256 ^ (e - 1) = (65536::nat) * 256 ^ (e - 3)" "256 ^ e = (16777216::nat) * 256 ^ (e - 3)"
    if "\<not> e \<le> 3"
  proof -
    have "e - 1 = 2 + (e - 3)" "e = 3 + (e - 3)" using that by simp_all
    then have "(256::nat) ^ (e - 1) = 256 ^ 2 * 256 ^ (e - 3)" "(256::nat) ^ e = 256 ^ 3 * 256 ^ (e - 3)"
      by (metis power_add)+
    then show "256 ^ (e - 1) = (65536::nat) * 256 ^ (e - 3)" "256 ^ e = (16777216::nat) * 256 ^ (e - 3)"
      by simp_all
  qed
  show "65536 \<le> leading_mantissa e v"
    using mult_le_mono1 [OF assms(1), of "256 ^ (3 - e)"] assms(1) pow pow'
    by (cases "e \<le> 3") (simp_all only: leading_mantissa_def if_True if_False, simp add: less_eq_div_iff_mult_less_eq)
  show "leading_mantissa e v < 16777216"
    using mult_strict_right_mono [OF assms(2), of "256 ^ (3 - e)"] assms(2) pow pow'
    by (cases "e \<le> 3") (simp_all only: leading_mantissa_def if_True if_False, simp_all add: div_less_iff_less_mult)
qed

lemma leading_mantissa_word:
  assumes len: "length bs = 32" and f: "first_nonzero bs = Some f"
  shows "unat (if 32 - f \<le> 3
     then push_bit (8 * (3 - (32 - f))) (foldl (\<lambda>v b. push_bit 8 v OR ucast b) (0 :: u32) (drop f bs))
     else (push_bit 16 (ucast (bs ! f)) OR push_bit 8 (ucast (bs ! (f + 1)))) OR ucast (bs ! (f + 2))) =
     leading_mantissa (32 - f) (be_nat bs)"
proof (cases "32 - f \<le> 3")
  case True
  have "unat (foldl (\<lambda>v b. push_bit 8 v OR ucast b) (0 :: u32) (drop f bs)) = be_nat bs"
    using True len leading_bytes(5) [OF len f] by (simp add: foldl_shift_or)
  moreover have "be_nat bs * 256 ^ (3 - (32 - f)) < 2 ^ 32"
    using leading_mantissa_bounds(2) [OF leading_bytes(1-3) [OF len f]] True by (simp add: leading_mantissa_def)
  moreover have "(2::nat) ^ (8 * (3 - (32 - f))) = 256 ^ (3 - (32 - f))" by (simp add: power_mult)
  ultimately show ?thesis using True
      unat_push_bit_small [of "foldl (\<lambda>v b. push_bit 8 v OR ucast b) (0 :: u32) (drop f bs)" "8 * (3 - (32 - f))"]
    by (simp add: leading_mantissa_def)
next
  case False
  have "push_bit 16 (ucast (bs ! f)) OR push_bit 8 (ucast (bs ! (f + 1))) =
      push_bit 8 (push_bit 8 (ucast (bs ! f) :: u32) OR ucast (bs ! (f + 1)))"
    by (simp add: push_bit_or)
  then have eq: "(push_bit 16 (ucast (bs ! f)) OR push_bit 8 (ucast (bs ! (f + 1)))) OR ucast (bs ! (f + 2)) =
      foldl (\<lambda>v b. push_bit 8 v OR ucast b) (0 :: u32) [bs ! f, bs ! (f + 1), bs ! (f + 2)]"
    by simp
  have "unat ((push_bit 16 (ucast (bs ! f)) OR push_bit 8 (ucast (bs ! (f + 1)))) OR ucast (bs ! (f + 2)) :: u32) =
      be_nat [bs ! f, bs ! (f + 1), bs ! (f + 2)]"
    unfolding eq by (rule foldl_shift_or) simp
  also have "\<dots> = be_nat bs div 256 ^ (32 - f - 3)" using False by (intro leading_bytes(6) [OF len f]) simp
  finally show ?thesis using False by (simp only: if_False leading_mantissa_def)
qed

lemma compact_word_nat:
  assumes "e < 256" and "unat m < 2 ^ 24"
  shows "unat (push_bit 24 (word_of_nat e) OR (m :: u32)) = e * 2 ^ 24 + unat m"
proof -
  have "unat (push_bit 24 (word_of_nat e) :: u32) = push_bit 24 e"
    using assms(1) by (simp add: push_bit_eq_mult unat_word_ariths(2) unat_of_nat)
  then show ?thesis using nat_or_push_bit [OF assms(2), of e] by (simp only: unsigned_or_eq)
qed

lemma to_compact_nat:
  assumes len: "length (dt_bytes t) = 32" and f: "first_nonzero (dt_bytes t) = Some f"
  defines "M \<equiv> leading_mantissa (32 - f) (be_nat (dt_bytes t))"
  shows "unat (to_compact t) =
    (if 2 ^ 23 \<le> M then Suc (32 - f) * 2 ^ 24 + M div 256 else (32 - f) * 2 ^ 24 + M)"
proof -
  note lm = leading_mantissa_word [OF len f, folded M_def]
  define m where "m = (if 32 - f \<le> 3
     then push_bit (8 * (3 - (32 - f))) (foldl (\<lambda>v b. push_bit 8 v OR ucast b) (0 :: u32) (drop f (dt_bytes t)))
     else (push_bit 16 (ucast (dt_bytes t ! f)) OR push_bit 8 (ucast (dt_bytes t ! (f + 1)))) OR
       ucast (dt_bytes t ! (f + 2)))"
  have m: "unat m = M" using lm by (simp only: m_def)
  have M: "M < 2 ^ 24"
    using leading_mantissa_bounds(2) [OF leading_bytes(1-3) [OF len f]] by (simp add: M_def)
  have "M div 2 ^ 23 < 2" using M by (simp add: div_less_iff_less_mult)
  then have sign: "m AND 0x00800000 \<noteq> 0 \<longleftrightarrow> 2 ^ 23 \<le> M"
    unfolding u32_fields m by (auto simp: less_2_cases_iff div_eq_0_iff)
  have "to_compact t = (if 2 ^ 23 \<le> M then push_bit 24 (word_of_nat (32 - f + 1)) OR drop_bit 8 m
      else push_bit 24 (word_of_nat (32 - f)) OR m)"
    unfolding to_compact_def f option.case Let_def m_def [symmetric] sign by simp
  moreover have "unat (drop_bit 8 m) = M div 256" using m by (simp add: unat_drop_bit_div)
  moreover have "M div 256 < 2 ^ 24" using M by linarith
  moreover have "32 - f + 1 < 256" "32 - f < 256" by simp_all
  ultimately show ?thesis
    using compact_word_nat [of "32 - f + 1" "drop_bit 8 m"] compact_word_nat [of "32 - f" m] M m
    by (cases "2 ^ 23 \<le> M") (simp_all only: Suc_eq_plus1 if_True if_False)
qed

lemma compact_fields:
  assumes "unat bits = e * 2 ^ 24 + m" and "m < 2 ^ 23"
  shows "compact_exponent bits = e" and "compact_mantissa bits = m" and "\<not> compact_negative bits"
proof -
  have "unat bits = m + (2 * e) * 2 ^ 23" "m < 2 ^ 24" using assms by simp_all
  then have "unat bits mod 2 ^ 23 = m" "unat bits div 2 ^ 23 = 2 * e" "unat bits div 2 ^ 24 = e"
    using assms by (simp_all only: mod_mult_self1 mod_less div_mult_self1 div_less div_mult_self3) simp_all
  then show "compact_exponent bits = e" "compact_mantissa bits = m" "\<not> compact_negative bits"
    by (simp_all only: compact_exponent_def compact_mantissa_def compact_negative_def) simp
qed

lemma to_compact_fields:
  assumes len: "length (dt_bytes t) = 32" and f: "first_nonzero (dt_bytes t) = Some f"
  defines "M \<equiv> leading_mantissa (32 - f) (be_nat (dt_bytes t))"
  shows "\<not> compact_negative (to_compact t)"
    and "compact_exponent (to_compact t) = (if 2 ^ 23 \<le> M then Suc (32 - f) else 32 - f)"
    and "compact_mantissa (to_compact t) = (if 2 ^ 23 \<le> M then M div 256 else M)"
proof -
  note n = to_compact_nat [OF len f, folded M_def]
  have "M < 16777216"
    unfolding M_def by (rule leading_mantissa_bounds(2) [OF leading_bytes(1-3) [OF len f]])
  then have "M div 256 < 2 ^ 23" by (simp add: div_less_iff_less_mult)
  then have "unat (to_compact t) = (if 2 ^ 23 \<le> M then Suc (32 - f) else 32 - f) * 2 ^ 24 +
      (if 2 ^ 23 \<le> M then M div 256 else M)" "(if 2 ^ 23 \<le> M then M div 256 else M) < 2 ^ 23"
    unfolding n by simp_all
  then show "\<not> compact_negative (to_compact t)"
    "compact_exponent (to_compact t) = (if 2 ^ 23 \<le> M then Suc (32 - f) else 32 - f)"
    "compact_mantissa (to_compact t) = (if 2 ^ 23 \<le> M then M div 256 else M)"
    by (rule compact_fields)+
qed

lemma to_compact_value:
  assumes len: "length (dt_bytes t) = 32" and f: "first_nonzero (dt_bytes t) = Some f"
  defines "u \<equiv> 256 ^ (compact_exponent (to_compact t) - 3)"
  shows "compact_value (to_compact t) = be_nat (dt_bytes t) div u * u"
proof -
  define e V where "e = 32 - f" and "V = be_nat (dt_bytes t)"
  define M where "M = leading_mantissa e V"
  note fl = to_compact_fields(2,3) [OF len f, folded e_def V_def, folded M_def]
  have shift: "V * 256 ^ (3 - e) div 256 div 256 ^ (3 - Suc e) = V" if "e < 3"
  proof -
    have "3 - e = Suc (3 - Suc e)" using that by simp
    then show ?thesis by (simp flip: div_mult2_eq)
  qed
  have down: "V div 256 ^ (e - 3) div 256 = V div 256 ^ (Suc e - 3)" if "3 \<le> e"
    using Suc_diff_le [OF that] by (simp only: power_Suc2 div_mult2_eq)
  consider "e < 3" | "e = 3" | "3 < e" by linarith
  then show ?thesis
    unfolding u_def compact_value_def fl V_def [symmetric] M_def leading_mantissa_def
    by cases (use shift down in \<open>auto simp: not_le\<close>)
qed

lemma to_compact_unit:
  assumes len: "length (dt_bytes t) = 32" and f: "first_nonzero (dt_bytes t) = Some f"
    and "3 < compact_exponent (to_compact t)"
  shows "2 ^ 15 * 256 ^ (compact_exponent (to_compact t) - 3) \<le> compact_value (to_compact t)"
proof -
  have "65536 \<le> leading_mantissa (32 - f) (be_nat (dt_bytes t))"
    by (rule leading_mantissa_bounds(1) [OF leading_bytes(1-3) [OF len f]])
  then have "2 ^ 15 \<le> compact_mantissa (to_compact t)"
    unfolding to_compact_fields(3) [OF len f] by (simp add: less_eq_div_iff_mult_less_eq)
  moreover have "compact_value (to_compact t) =
      compact_mantissa (to_compact t) * 256 ^ (compact_exponent (to_compact t) - 3)"
    using assms(3) by (simp add: compact_value_def)
  ultimately show ?thesis by (simp only: mult_le_mono1)
qed

lemma to_compact_zero:
  assumes "first_nonzero (dt_bytes t) = None"
  shows "to_compact t = 0" and "be_nat (dt_bytes t) = 0"
  using assms first_nonzero_split [of "dt_bytes t"] by (simp_all add: to_compact_def) (metis be_nat_replicate_0)

text \<open>
  Reading back the compact form of a target gives the target rounded down, by less than
  one part in \<open>2 ^ 15\<close>.
\<close>

lemma to_compact_rounds:
  assumes len: "length (dt_bytes t) = 32"
  shows "from_compact (to_compact t) = \<lparr>dt_bytes = be_bytes 32 (compact_value (to_compact t)),
      dt_negative = False, dt_overflow = False\<rparr>"
    and "compact_value (to_compact t) \<le> be_nat (dt_bytes t)"
    and "2 ^ 15 * (be_nat (dt_bytes t) - compact_value (to_compact t)) \<le> compact_value (to_compact t)"
proof -
  define V W where "V = be_nat (dt_bytes t)" and "W = compact_value (to_compact t)"
  have "W \<le> V \<and> 2 ^ 15 * (V - W) \<le> W \<and> \<not> compact_negative (to_compact t)"
  proof (cases "first_nonzero (dt_bytes t)")
    case None
    then show ?thesis unfolding V_def W_def to_compact_zero [OF None]
      by (simp add: compact_value_def compact_negative_def compact_mantissa_def)
  next
    case (Some f)
    define E where "E = compact_exponent (to_compact t)"
    define u :: nat where "u = 256 ^ (E - 3)"
    have W: "W = V div u * u"
      unfolding W_def V_def u_def E_def by (rule to_compact_value [OF len Some])
    have u: "0 < u" by (simp add: u_def)
    have "V - W = V mod u" unfolding W by (rule minus_div_mult_eq_mod)
    moreover have "2 ^ 15 * (V mod u) \<le> W"
    proof (cases "3 < E")
      case True
      have "2 ^ 15 * (V mod u) \<le> 2 ^ 15 * u" using u by (intro mult_le_mono2) (simp add: less_imp_le)
      also have "\<dots> \<le> W" using to_compact_unit [OF len Some] True by (simp only: W_def u_def E_def)
      finally show ?thesis .
    qed (simp add: u_def)
    ultimately show ?thesis using to_compact_fields(1) [OF len Some] by (simp only: W div_times_less_eq_dividend) simp
  qed
  moreover have "V < 256 ^ 32" using be_nat_less [of "dt_bytes t"] len by (simp add: V_def)
  ultimately show "from_compact (to_compact t) = \<lparr>dt_bytes = be_bytes 32 (compact_value (to_compact t)),
      dt_negative = False, dt_overflow = False\<rparr>"
    "compact_value (to_compact t) \<le> be_nat (dt_bytes t)"
    "2 ^ 15 * (be_nat (dt_bytes t) - compact_value (to_compact t)) \<le> compact_value (to_compact t)"
    using from_compact_eq [of "to_compact t"] by (simp_all add: V_def W_def)
qed

lemma le_power_exponent: "(256::nat) ^ (e - 1) < 256 ^ e' \<Longrightarrow> e \<le> e'"
  using power_less_imp_less_exp [of "256::nat" "e - 1" e'] by simp

text \<open>A number that came from a compact word is a multiple of the unit of its compact form.\<close>

lemma to_compact_divides:
  assumes fit: "compact_value bits < 256 ^ 32"
    and f: "first_nonzero (be_bytes 32 (compact_value bits)) = Some f"
  defines "e \<equiv> 32 - f" and "V \<equiv> compact_value bits"
  shows "256 ^ ((if 2 ^ 23 \<le> leading_mantissa e V then Suc e else e) - 3) dvd V"
proof -
  define E m where "E = compact_exponent bits" and "m = compact_mantissa bits"
  have m: "m < 2 ^ 23" unfolding m_def by (rule compact_mantissa_less)
  have bnd: "256 ^ (e - 1) \<le> V"
    using leading_bytes(1) [OF _ f] fit by (simp add: be_nat_be_bytes e_def V_def)
  show ?thesis
  proof (cases "E \<le> 3")
    case True
    then have "V \<le> m" by (simp add: V_def compact_value_def E_def m_def)
    then have V: "V < 2 ^ 23" using m by linarith
    then have "256 ^ (e - 1) < (256::nat) ^ 3" using bnd by simp
    then have "e \<le> 3" by (rule le_power_exponent)
    then show ?thesis using V by (cases "e = 3") (simp_all add: leading_mantissa_def)
  next
    case False
    then have V: "V = m * 256 ^ (E - 3)" by (simp add: V_def compact_value_def E_def m_def)
    have "m * 256 ^ (E - 3) < 256 ^ 3 * 256 ^ (E - 3)" using m by (intro mult_strict_right_mono) simp_all
    also have "\<dots> = (256::nat) ^ E" using False by (simp only: power_add [symmetric]) simp
    finally have "256 ^ (e - 1) < (256::nat) ^ E" using bnd V by (simp only: order.strict_trans1)
    then have "e \<le> E" by (rule le_power_exponent)
    moreover have "leading_mantissa e V = m" if "e = E" using that False by (simp add: leading_mantissa_def V)
    ultimately have "(if 2 ^ 23 \<le> leading_mantissa e V then Suc e else e) \<le> E"
      using m by (cases "e = E") auto
    then show ?thesis unfolding V by (intro dvd_mult le_imp_power_dvd) simp
  qed
qed

lemma compact_stable:
  assumes "\<not> dt_negative (from_compact bits)" and "\<not> dt_overflow (from_compact bits)"
  shows "from_compact (to_compact (from_compact bits)) = from_compact bits"
proof -
  define t V where "t = from_compact bits" and "V = compact_value bits"
  have fit: "V < 256 ^ 32" using assms(2) from_compact_value(1) [of bits] by (simp add: V_def)
  have t: "t = \<lparr>dt_bytes = be_bytes 32 V, dt_negative = False, dt_overflow = False\<rparr>"
    using from_compact_eq [OF fit [unfolded V_def]] assms(1) by (simp add: t_def V_def)
  have len: "length (dt_bytes t) = 32" by (simp add: t)
  have val: "be_nat (dt_bytes t) = V" using fit by (simp add: t be_nat_be_bytes)
  have "compact_value (to_compact t) = V"
  proof (cases "first_nonzero (dt_bytes t)")
    case None
    then show ?thesis using to_compact_zero [OF None] val by (simp add: compact_value_def compact_mantissa_def)
  next
    case (Some f)
    then have "256 ^ (compact_exponent (to_compact t) - 3) dvd V"
      unfolding to_compact_fields(2) [OF len Some] val V_def
      by (intro to_compact_divides) (use fit in \<open>simp_all add: t V_def\<close>)
    then show ?thesis using to_compact_value [OF len Some] val by simp
  qed
  then show ?thesis using to_compact_rounds(1) [OF len] t by (simp add: t_def)
qed

end
