(* ===== verification/Header.thy ===== *)
theory Header
  imports Encoding Target
begin

text \<open>
  Model of the header half of \<^verbatim>\<open>crates/hns-header-consensus/src/lib.rs\<close>: the 236-byte header
  and its codec, the hash construction, the network parameters, the difficulty rule and
  header validation. BLAKE2b and SHA3 come from third-party crates: the record
  \<open>pow_hashes\<close> holds them as functions on byte strings, and hashing a list of parts is
  hashing their concatenation, which is what a sequence of \<^verbatim>\<open>update\<close> calls means.
\<close>

section \<open>Headers\<close>

record header =
  h_nonce :: u32
  h_time :: block_time
  h_previous_block :: hash32
  h_tree_root :: hash32
  h_extra_nonce :: bytes
  h_reserved_root :: hash32
  h_witness_root :: hash32
  h_merkle_root :: hash32
  h_version :: u32
  h_bits :: compact_target
  h_mask :: hash32

datatype header_error =
    HeaderDecode decode_error
  | InvalidLength nat
  | WrongGenesis
  | WrongPreviousBlock
  | InvalidTime
  | InvalidDifficulty
  | MissingDifficultyPoint
  | InvalidProofOfWork
  | ClampPanic

text \<open>\<open>ClampPanic\<close> stands for the panic of \<^verbatim>\<open>u64::clamp\<close> on an empty range.\<close>

definition header_ok :: "header \<Rightarrow> bool" where
  "header_ok h \<longleftrightarrow> length (h_previous_block h) = 32 \<and> length (h_tree_root h) = 32 \<and>
     length (h_extra_nonce h) = 24 \<and> length (h_reserved_root h) = 32 \<and>
     length (h_witness_root h) = 32 \<and> length (h_merkle_root h) = 32 \<and> length (h_mask h) = 32"

definition header_default :: header where
  "header_default = \<lparr>h_nonce = 0, h_time = 0, h_previous_block = replicate 32 0,
     h_tree_root = replicate 32 0, h_extra_nonce = replicate 24 0, h_reserved_root = replicate 32 0,
     h_witness_root = replicate 32 0, h_merkle_root = replicate 32 0, h_version = 0, h_bits = 0,
     h_mask = replicate 32 0\<rparr>"

definition header_encode :: "header \<Rightarrow> bytes" where
  "header_encode h = encode_with
     [put_u32_le (h_nonce h), put_u64_le (h_time h), put_bytes (h_previous_block h),
      put_bytes (h_tree_root h), put_bytes (h_extra_nonce h), put_bytes (h_reserved_root h),
      put_bytes (h_witness_root h), put_bytes (h_merkle_root h), put_u32_le (h_version h),
      put_u32_le (h_bits h), put_bytes (h_mask h)]"

definition read_header :: "(decode_error, header) reader" where
  "read_header =
     dbind read_u32_le (\<lambda>nonce.
     dbind read_u64_le (\<lambda>time.
     dbind (read_array 32) (\<lambda>previous_block.
     dbind (read_array 32) (\<lambda>tree_root.
     dbind (read_array 24) (\<lambda>extra_nonce.
     dbind (read_array 32) (\<lambda>reserved_root.
     dbind (read_array 32) (\<lambda>witness_root.
     dbind (read_array 32) (\<lambda>merkle_root.
     dbind read_u32_le (\<lambda>version.
     dbind read_u32_le (\<lambda>bits.
     dbind (read_array 32) (\<lambda>mask.
       dreturn \<lparr>h_nonce = nonce, h_time = time, h_previous_block = previous_block,
         h_tree_root = tree_root, h_extra_nonce = extra_nonce, h_reserved_root = reserved_root,
         h_witness_root = witness_root, h_merkle_root = merkle_root, h_version = version,
         h_bits = bits, h_mask = mask\<rparr>)))))))))))"

definition header_decode :: "bytes \<Rightarrow> header_error + header" where
  "header_decode input =
     (if length input \<noteq> 236 then Inl (InvalidLength (length input))
      else bind_res (map_err HeaderDecode (read_header (decoder_new input))) (\<lambda>(h, d).
           bind_res (map_err HeaderDecode (decoder_finish d)) (\<lambda>_. Inr h)))"

section \<open>Hash construction\<close>

record pow_hashes =
  ph_blake2b_256 :: "bytes \<Rightarrow> bytes"
  ph_blake2b_512 :: "bytes \<Rightarrow> bytes"
  ph_sha3_256 :: "bytes \<Rightarrow> bytes"

definition blake2b_256 :: "pow_hashes \<Rightarrow> bytes list \<Rightarrow> bytes" where
  "blake2b_256 H parts = ph_blake2b_256 H (concat parts)"

definition blake2b_512 :: "pow_hashes \<Rightarrow> bytes \<Rightarrow> bytes" where
  "blake2b_512 H input = ph_blake2b_512 H input"

definition sha3_256 :: "pow_hashes \<Rightarrow> bytes list \<Rightarrow> bytes" where
  "sha3_256 H parts = ph_sha3_256 H (concat parts)"

definition subheader :: "header \<Rightarrow> bytes" where
  "subheader h = encode_with
     [put_bytes (h_extra_nonce h), put_bytes (h_reserved_root h), put_bytes (h_witness_root h),
      put_bytes (h_merkle_root h), put_u32_le (h_version h), put_u32_le (h_bits h)]"

definition sub_hash :: "pow_hashes \<Rightarrow> header \<Rightarrow> bytes" where
  "sub_hash H h = blake2b_256 H [subheader h]"

definition mask_hash :: "pow_hashes \<Rightarrow> header \<Rightarrow> bytes" where
  "mask_hash H h = blake2b_256 H [h_previous_block h, h_mask h]"

definition commit_hash :: "pow_hashes \<Rightarrow> header \<Rightarrow> bytes" where
  "commit_hash H h = blake2b_256 H [sub_hash H h, mask_hash H h]"

definition header_padding :: "nat \<Rightarrow> header \<Rightarrow> bytes" where
  "header_padding n h =
     map (\<lambda>index. (h_previous_block h ! (index mod 32)) XOR (h_tree_root h ! (index mod 32))) [0..<n]"

definition preheader :: "pow_hashes \<Rightarrow> header \<Rightarrow> bytes" where
  "preheader H h = encode_with
     [put_u32_le (h_nonce h), put_u64_le (h_time h), put_bytes (header_padding 20 h),
      put_bytes (h_previous_block h), put_bytes (h_tree_root h), put_bytes (commit_hash H h)]"

definition share_hash :: "pow_hashes \<Rightarrow> header \<Rightarrow> hash32" where
  "share_hash H h =
     (let pre = preheader H h;
          left = blake2b_512 H pre;
          right = sha3_256 H [pre, header_padding 8 h]
      in blake2b_256 H [left, header_padding 32 h, right])"

definition pow_hash :: "pow_hashes \<Rightarrow> header \<Rightarrow> hash32" where
  "pow_hash H h = map2 (\<lambda>b m. b XOR m) (share_hash H h) (h_mask h)"

definition block_hash :: "pow_hashes \<Rightarrow> header \<Rightarrow> hash32" where
  "block_hash H h = pow_hash H h"

definition verify_pow :: "pow_hashes \<Rightarrow> header \<Rightarrow> bool" where
  "verify_pow H h = target_is_met_by (from_compact (h_bits h)) (pow_hash H h)"

section \<open>Networks\<close>

datatype network = Mainnet | Testnet | Regtest | Simnet

fun network_id :: "network \<Rightarrow> byte" where
  "network_id Mainnet = 0"
| "network_id Testnet = 1"
| "network_id Regtest = 2"
| "network_id Simnet = 3"

text \<open>A \<^verbatim>\<open>None\<close> here is the panic of the constant function, which stops compilation.\<close>

definition hex_nibble :: "byte \<Rightarrow> byte option" where
  "hex_nibble v =
     (if 0x30 \<le> v \<and> v \<le> 0x39 then Some (v - 0x30)
      else if 0x61 \<le> v \<and> v \<le> 0x66 then Some (v - 0x61 + 10)
      else if 0x41 \<le> v \<and> v \<le> 0x46 then Some (v - 0x41 + 10)
      else None)"

fun hex_pairs :: "string \<Rightarrow> bytes option" where
  "hex_pairs (a # b # cs) =
     (case (hex_nibble (of_char a), hex_nibble (of_char b), hex_pairs cs) of
        (Some hi, Some lo, Some out) \<Rightarrow> Some ((push_bit 4 hi OR lo) # out)
      | _ \<Rightarrow> None)"
| "hex_pairs [] = Some []"
| "hex_pairs [_] = None"

definition hex32 :: "string \<Rightarrow> bytes option" where
  "hex32 value = (if length value = 64 then hex_pairs value else None)"

record pow_parameters =
  pp_limit :: bytes
  pp_bits :: compact_target
  pp_target_window :: u32
  pp_target_spacing :: u32
  pp_target_timespan :: u32
  pp_minimum_actual_timespan :: u32
  pp_maximum_actual_timespan :: u32
  pp_target_reset :: bool
  pp_no_retargeting :: bool

record network_parameters =
  np_network :: network
  np_packet_magic :: u32
  np_port :: u16
  np_brontide_port :: u16
  np_pow :: pow_parameters
  np_genesis_hash :: hash32
  np_genesis_time :: block_time

fun parameters :: "network \<Rightarrow> network_parameters" where
  "parameters Mainnet = \<lparr>np_network = Mainnet, np_packet_magic = 0x5b6ef2d3, np_port = 12038,
     np_brontide_port = 44806,
     np_pow = \<lparr>pp_limit = the (hex32 ''0000000000ffff00000000000000000000000000000000000000000000000000''),
       pp_bits = 0x1c00ffff, pp_target_window = 144, pp_target_spacing = 600,
       pp_target_timespan = 86400, pp_minimum_actual_timespan = 21600,
       pp_maximum_actual_timespan = 345600, pp_target_reset = False, pp_no_retargeting = False\<rparr>,
     np_genesis_hash = the (hex32 ''5b6ef2d3c1f3cdcadfd9a030ba1811efdd17740f14e166489760741d075992e0''),
     np_genesis_time = 1580745078\<rparr>"
| "parameters Testnet = \<lparr>np_network = Testnet, np_packet_magic = 0xb1520dd2, np_port = 13038,
     np_brontide_port = 45806,
     np_pow = \<lparr>pp_limit = the (hex32 ''00000000ffff0000000000000000000000000000000000000000000000000000''),
       pp_bits = 0x1d00ffff, pp_target_window = 144, pp_target_spacing = 600,
       pp_target_timespan = 86400, pp_minimum_actual_timespan = 21600,
       pp_maximum_actual_timespan = 345600, pp_target_reset = True, pp_no_retargeting = False\<rparr>,
     np_genesis_hash = the (hex32 ''b1520dd24372f82ec94ebf8cf9d9b037d419c4aa3575d05dec70aedd1b427901''),
     np_genesis_time = 1580745079\<rparr>"
| "parameters Regtest = \<lparr>np_network = Regtest, np_packet_magic = 0xae3895cf, np_port = 14038,
     np_brontide_port = 46806,
     np_pow = \<lparr>pp_limit = the (hex32 ''7fffff0000000000000000000000000000000000000000000000000000000000''),
       pp_bits = 0x207fffff, pp_target_window = 144, pp_target_spacing = 600,
       pp_target_timespan = 86400, pp_minimum_actual_timespan = 21600,
       pp_maximum_actual_timespan = 345600, pp_target_reset = True, pp_no_retargeting = True\<rparr>,
     np_genesis_hash = the (hex32 ''ae3895cf597eff05b19e02a70ceeeecb9dc72dbfe6504a50e9343a72f06a87c5''),
     np_genesis_time = 1580745080\<rparr>"
| "parameters Simnet = \<lparr>np_network = Simnet, np_packet_magic = 0x0e648edc, np_port = 15038,
     np_brontide_port = 47806,
     np_pow = \<lparr>pp_limit = the (hex32 ''7fffff0000000000000000000000000000000000000000000000000000000000''),
       pp_bits = 0x207fffff, pp_target_window = 144, pp_target_spacing = 600,
       pp_target_timespan = 86400, pp_minimum_actual_timespan = 21600,
       pp_maximum_actual_timespan = 345600, pp_target_reset = False, pp_no_retargeting = False\<rparr>,
     np_genesis_hash = the (hex32 ''0e648edc9cddb179014658061ea3f666a45cf44881877ae506e6babefbef6992''),
     np_genesis_time = 1580745081\<rparr>"

definition genesis_header :: "network_parameters \<Rightarrow> header" where
  "genesis_header p = \<lparr>h_nonce = 0, h_time = np_genesis_time p, h_previous_block = replicate 32 0,
     h_tree_root = replicate 32 0, h_extra_nonce = replicate 24 0, h_reserved_root = replicate 32 0,
     h_witness_root = the (hex32 ''1a2c60b9439206938f8d7823782abdb8b211a57431e9c9b6a6365d8d42893351''),
     h_merkle_root = the (hex32 ''8e4c9756fef2ad10375f360e0560fcc7587eb5223ddf8cd7c7e06e60a1140b15''),
     h_version = 0, h_bits = pp_bits (np_pow p), h_mask = replicate 32 0\<rparr>"

section \<open>Difficulty and validation\<close>

record difficulty_point =
  dp_height :: height
  dp_time :: block_time
  dp_bits :: compact_target
  dp_chainwork :: chainwork

definition clamp :: "u64 \<Rightarrow> u64 \<Rightarrow> u64 \<Rightarrow> u64 option" where
  "clamp low high x =
     (if high < low then None else Some (if x < low then low else if high < x then high else x))"

definition retarget_bits ::
  "pow_parameters \<Rightarrow> difficulty_point \<Rightarrow> difficulty_point \<Rightarrow> header_error + compact_target" where
  "retarget_bits p first final =
     (if dp_height final \<le> dp_height first then Inl InvalidDifficulty
      else
        bind_res (map_err (\<lambda>_. InvalidDifficulty)
          (chainwork_checked_sub (dp_chainwork final) (dp_chainwork first))) (\<lambda>work_delta.
        bind_res (map_err (\<lambda>_. InvalidDifficulty)
          (chainwork_checked_mul_u64 work_delta (ucast (pp_target_spacing p)))) (\<lambda>scaled_work.
        bind_res (ok_or (clamp (ucast (pp_minimum_actual_timespan p)) (ucast (pp_maximum_actual_timespan p))
          (saturating_sub (dp_time final) (dp_time first))) ClampPanic) (\<lambda>actual_timespan.
        bind_res (map_err (\<lambda>_. InvalidDifficulty)
          (chainwork_checked_div_u64 scaled_work actual_timespan)) (\<lambda>w.
        if w = chainwork_zero then Inr (pp_bits p)
        else bind_res (ok_or (target_for_work (chainwork_to_be_bytes w)) InvalidDifficulty) (\<lambda>t.
          if \<not> bytes_le t (pp_limit p) then Inr (pp_bits p)
          else Inr (to_compact \<lparr>dt_bytes = t, dt_negative = False, dt_overflow = False\<rparr>)))))))"

definition expected_next_bits ::
  "pow_parameters \<Rightarrow> block_time \<Rightarrow> difficulty_point \<Rightarrow> difficulty_point option \<Rightarrow>
   difficulty_point option \<Rightarrow> header_error + compact_target" where
  "expected_next_bits p next_time previous first_suitable last_suitable =
     (if pp_no_retargeting p then Inr (pp_bits p)
      else if pp_target_reset p \<and>
        saturating_add (dp_time previous) (ucast (pp_target_spacing p) * 2) < next_time
      then Inr (pp_bits p)
      else if dp_height previous < saturating_add (pp_target_window p) 2 then
        if dp_bits previous \<noteq> pp_bits p then Inl InvalidDifficulty else Inr (pp_bits p)
      else bind_res (ok_or first_suitable MissingDifficultyPoint) (\<lambda>first.
           bind_res (ok_or last_suitable MissingDifficultyPoint) (\<lambda>final.
             retarget_bits p first final)))"

record header_validation_context =
  hvc_height :: height
  hvc_previous_block :: hash32
  hvc_median_time :: block_time
  hvc_now :: block_time
  hvc_expected_bits :: compact_target

definition validate_header ::
  "pow_hashes \<Rightarrow> network_parameters \<Rightarrow> header \<Rightarrow> header_validation_context \<Rightarrow> header_error + chainwork" where
  "validate_header H p h c =
     (let is_genesis = (hvc_height c = 0) in
      if is_genesis \<and> (h \<noteq> genesis_header p \<or> block_hash H h \<noteq> np_genesis_hash p)
      then Inl WrongGenesis
      else if \<not> is_genesis \<and> h_previous_block h \<noteq> hvc_previous_block c then Inl WrongPreviousBlock
      else if h_time h \<le> hvc_median_time c \<or> saturating_add (hvc_now c) 7200 < h_time h
      then Inl InvalidTime
      else if h_bits h \<noteq> hvc_expected_bits c then Inl InvalidDifficulty
      else
        let target = from_compact (h_bits h) in
        if \<not> is_genesis \<and> \<not> target_is_met_by target (pow_hash H h) then Inl InvalidProofOfWork
        else ok_or (target_proof target) InvalidProofOfWork)"

section \<open>The header codec\<close>

lemma header_encode_eq:
  "header_encode h = u32_to_le (h_nonce h) @ u64_to_le (h_time h) @ h_previous_block h @
     h_tree_root h @ h_extra_nonce h @ h_reserved_root h @ h_witness_root h @ h_merkle_root h @
     u32_to_le (h_version h) @ u32_to_le (h_bits h) @ h_mask h"
  by (simp add: header_encode_def encode_with_def)

lemma length_header_encode: "header_ok h \<Longrightarrow> length (header_encode h) = 236"
  by (simp add: header_encode_eq header_ok_def)

interpretation hdr: codec header_encode read_header header_ok
proof
  fix h pre suf
  assume "header_ok h" and "fits pre (header_encode h @ suf)"
  then show "read_header (cursor pre (header_encode h @ suf)) = Inr (h, cursor (pre @ header_encode h) suf)"
    by (simp add: read_header_def header_encode_eq header_ok_def dbind_run)
next
  fix pre rest h d'
  assume "read_header (cursor pre rest) = Inr (h, d')"
  then show "header_ok h \<and> (\<exists>suf. rest = header_encode h @ suf \<and> d' = cursor (pre @ header_encode h) suf)"
    by (auto simp: read_header_def dbind_eq_Inr header_encode_eq header_ok_def
        dest!: u32.reads_back u64.reads_back arr.reads_back)
qed

lemma usize_max_ge: "n < 2 ^ 64 \<Longrightarrow> n \<le> usize_max"
  by (simp add: usize_max_def)

lemma header_decode_iff:
  "header_decode input = Inr h \<longleftrightarrow> header_ok h \<and> input = header_encode h"
proof
  assume "header_decode input = Inr h"
  then obtain d where rd: "read_header (cursor [] input) = Inr (h, d)" and fin: "decoder_finish d = Inr ()"
    by (auto simp: header_decode_def decoder_new_cursor bind_res_eq_Inr split: if_splits)
  from hdr.reads_back [OF rd] fin show "header_ok h \<and> input = header_encode h"
    by (auto split: if_splits)
next
  assume h: "header_ok h \<and> input = header_encode h"
  then have "fits [] (header_encode h @ [])"
    by (simp add: fits_def length_header_encode usize_max_ge)
  from hdr.reads [OF _ this] h show "header_decode input = Inr h"
    by (simp add: header_decode_def decoder_new_cursor length_header_encode)
qed

text \<open>
  Decoding is exactly the inverse of encoding. A byte string decodes to a header if and
  only if it is the encoding of that header, so every header has one encoding of 236 bytes,
  every accepted input is canonical and no two headers share an encoding.
\<close>

theorem header_codec_exact:
  "header_decode input = Inr h \<longleftrightarrow> header_ok h \<and> input = header_encode h"
  by (rule header_decode_iff)

section \<open>Validation\<close>

lemma target_is_valid_nat:
  assumes "length (dt_bytes t) = 32"
  shows "target_is_valid t \<longleftrightarrow> \<not> dt_negative t \<and> \<not> dt_overflow t \<and> be_nat (dt_bytes t) \<noteq> 0"
proof -
  have "list_ex (\<lambda>b. b \<noteq> 0) (dt_bytes t) \<longleftrightarrow> dt_bytes t \<noteq> replicate 32 0"
    using assms by (auto simp: list_ex_iff dest: replicate_eqI)
  also have "\<dots> \<longleftrightarrow> be_nat (dt_bytes t) \<noteq> 0"
    using be_nat_inj [of "dt_bytes t" "replicate 32 0"] assms by simp
  finally show ?thesis by (simp add: target_is_valid_def)
qed

lemma target_proof_work:
  assumes "length (dt_bytes t) = 32"
  shows "target_proof t = Some w \<longleftrightarrow>
    target_is_valid t \<and> work_nat w = 2 ^ 256 div (be_nat (dt_bytes t) + 1)"
proof (cases "target_is_valid t")
  case True
  then have ne: "be_nat (dt_bytes t) \<noteq> 0" by (simp add: target_is_valid_nat [OF assms])
  define W where "W = 2 ^ 256 div (be_nat (dt_bytes t) + 1)"
  have "be_nat (dt_bytes t) + 1 > 1" using ne by simp
  then have "W < 256 ^ 32" unfolding W_def by (intro div_less_dividend [THEN less_le_trans]) simp_all
  then have "work_nat (chainwork_from_be_bytes (be_bytes 32 W)) = W"
    by (simp add: work_nat_from_be_bytes be_nat_be_bytes)
  moreover have "target_proof t = Some (chainwork_from_be_bytes (be_bytes 32 W))"
    using True ne by (simp add: target_proof_def work_for_target_nat [OF assms] W_def)
  ultimately show ?thesis using True unfolding W_def [symmetric] by (metis option.inject work_nat_inj)
qed (simp add: target_proof_def)

lemma length_pow_hash:
  "(\<And>bs. length (ph_blake2b_256 H bs) = 32) \<Longrightarrow> header_ok h \<Longrightarrow> length (pow_hash H h) = 32"
  by (simp add: pow_hash_def share_hash_def Let_def blake2b_256_def header_ok_def)

text \<open>
  C4: the exact acceptance condition of header validation at every height, and the work it
  returns. An accepted header lies in the permitted time window and carries the expected
  difficulty, which is a valid target. At height zero it is the genesis header of the network,
  with its hash, and needs no proof of work; past genesis it extends the expected block and has
  a proof-of-work hash that is numerically at most its target. The work credited is
  \<open>2 ^ 256 div (target + 1)\<close>.
\<close>

theorem validate_header_exact:
  assumes "\<And>bs. length (ph_blake2b_256 H bs) = 32" and "header_ok h"
  defines "t \<equiv> from_compact (h_bits h)"
  shows "validate_header H p h c = Inr w \<longleftrightarrow>
    (if hvc_height c = 0 then h = genesis_header p \<and> block_hash H h = np_genesis_hash p
     else h_previous_block h = hvc_previous_block c \<and> be_nat (pow_hash H h) \<le> be_nat (dt_bytes t)) \<and>
    unat (hvc_median_time c) < unat (h_time h) \<and>
    unat (h_time h) \<le> min (unat (hvc_now c) + 7200) (2 ^ 64 - 1) \<and>
    h_bits h = hvc_expected_bits c \<and> target_is_valid t \<and>
    work_nat w = 2 ^ 256 div (be_nat (dt_bytes t) + 1)"
proof -
  have len: "length (dt_bytes t) = 32" by (simp add: t_def from_compact_value)
  have met: "target_is_met_by t (pow_hash H h) \<longleftrightarrow>
      target_is_valid t \<and> be_nat (pow_hash H h) \<le> be_nat (dt_bytes t)"
    using length_pow_hash [OF assms(1,2)] len by (simp add: target_is_met_by_def bytes_le_nat)
  have time: "h_time h \<le> hvc_median_time c \<or> saturating_add (hvc_now c) 7200 < h_time h \<longleftrightarrow>
      \<not> (unat (hvc_median_time c) < unat (h_time h) \<and>
         unat (h_time h) \<le> min (unat (hvc_now c) + 7200) (2 ^ 64 - 1))"
    by (auto simp: word_le_nat_alt word_less_nat_alt unat_saturating_add)
  show ?thesis
    unfolding validate_header_def Let_def time t_def [symmetric] met
    using target_proof_work [OF len, of w] by (cases "hvc_height c = 0") auto
qed

definition sample_hashes :: pow_hashes where
  "sample_hashes = \<lparr>ph_blake2b_256 = \<lambda>_. replicate 32 0, ph_blake2b_512 = \<lambda>_. [], ph_sha3_256 = \<lambda>_. []\<rparr>"

definition sample_header :: header where
  "sample_header = header_default\<lparr>h_time := 1, h_bits := 0x207fffff\<rparr>"

definition sample_context :: header_validation_context where
  "sample_context = \<lparr>hvc_height = 1, hvc_previous_block = replicate 32 0, hvc_median_time = 0,
     hvc_now = 0, hvc_expected_bits = 0x207fffff\<rparr>"

lemma zero_xor_zero: "map2 (\<lambda>b m. b XOR m) (replicate n (0::byte)) (replicate n 0) = replicate n 0"
  by (induction n) simp_all

lemma regtest_target:
  "compact_value 0x207fffff = 0x7fffff * 256 ^ 29" "\<not> compact_negative 0x207fffff"
  by (simp_all add: compact_value_def compact_exponent_def compact_mantissa_def compact_negative_def)

theorem validate_header_exact_witness:
  "validate_header sample_hashes (parameters Regtest) sample_header sample_context = Inr (work_of_nat 2)"
proof -
  have H: "length (ph_blake2b_256 sample_hashes bs) = 32" for bs by (simp add: sample_hashes_def)
  have h: "header_ok sample_header"
    by (simp add: sample_header_def header_default_def header_ok_def)
  have t: "from_compact 0x207fffff = \<lparr>dt_bytes = be_bytes 32 (0x7fffff * 256 ^ 29),
      dt_negative = False, dt_overflow = False\<rparr>"
    using from_compact_eq [of "0x207fffff"] regtest_target by simp
  have pow: "pow_hash sample_hashes sample_header = replicate 32 0"
    by (simp add: pow_hash_def share_hash_def blake2b_256_def sample_hashes_def sample_header_def
        header_default_def Let_def zero_xor_zero)
  show ?thesis
    unfolding validate_header_exact [OF H h] pow
    by (simp add: sample_header_def sample_context_def header_default_def t target_is_valid_nat
        be_nat_be_bytes work_nat_of_nat)
qed

section \<open>Difficulty\<close>

text \<open>The retargeting rule on numbers: height, work and time differences of two points.\<close>

definition retarget_spec ::
  "pow_parameters \<Rightarrow> difficulty_point \<Rightarrow> difficulty_point \<Rightarrow> header_error + compact_target" where
  "retarget_spec p first final =
     (let delta = work_nat (dp_chainwork final) - work_nat (dp_chainwork first);
          span = max (unat (pp_minimum_actual_timespan p))
            (min (unat (pp_maximum_actual_timespan p)) (unat (dp_time final) - unat (dp_time first)));
          w = delta * unat (pp_target_spacing p) div span;
          target = 2 ^ 256 div w - 1
      in if unat (dp_height final) \<le> unat (dp_height first) \<or>
            work_nat (dp_chainwork final) < work_nat (dp_chainwork first) \<or>
            2 ^ 256 \<le> delta * unat (pp_target_spacing p)
         then Inl InvalidDifficulty
         else if unat (pp_maximum_actual_timespan p) < unat (pp_minimum_actual_timespan p)
         then Inl ClampPanic
         else if span = 0 then Inl InvalidDifficulty
         else if w = 0 \<or> be_nat (pp_limit p) < target then Inr (pp_bits p)
         else Inr (to_compact \<lparr>dt_bytes = be_bytes 32 target, dt_negative = False, dt_overflow = False\<rparr>))"

lemma clamp_nat:
  "clamp lo hi x = (if unat hi < unat lo then None
     else Some (word_of_nat (max (unat lo) (min (unat hi) (unat x)))))"
  by (auto simp: clamp_def word_less_nat_alt max_def min_def)

lemma ucast_u64_nat [simp]: "unat (ucast (a::u32) :: u64) = unat a"
  by (rule ucast_le_iff)

text \<open>The tail of the rule, from the scaled work and the clamped time span.\<close>

lemma retarget_target:
  assumes limit: "length (pp_limit p) = 32" and w: "w < 2 ^ 256"
  shows "(if work_of_nat w = chainwork_zero then Inr (pp_bits p)
     else bind_res (ok_or (target_for_work (chainwork_to_be_bytes (work_of_nat w))) InvalidDifficulty) (\<lambda>t.
       if \<not> bytes_le t (pp_limit p) then Inr (pp_bits p)
       else Inr (to_compact \<lparr>dt_bytes = t, dt_negative = False, dt_overflow = False\<rparr>))) =
   (if w = 0 \<or> be_nat (pp_limit p) < 2 ^ 256 div w - 1 then Inr (pp_bits p)
    else Inr (to_compact \<lparr>dt_bytes = be_bytes 32 (2 ^ 256 div w - 1), dt_negative = False, dt_overflow = False\<rparr>))"
proof -
  have zero: "work_of_nat w = chainwork_zero \<longleftrightarrow> w = 0"
    using w by (simp add: work_nat_of_nat flip: work_nat_inj)
  have "2 ^ 256 div w \<le> 256 ^ 32" using div_le_dividend [of "256 ^ 32" w] by simp
  moreover have "x - 1 < n" if "x \<le> n" "0 < n" for x n :: nat using that by simp
  ultimately have "2 ^ 256 div w - 1 < 256 ^ 32" by (metis zero_less_power zero_less_numeral)
  then show ?thesis
    using zero limit w
    by (simp add: target_for_work_nat be_nat_chainwork_bytes work_nat_of_nat bytes_le_nat be_nat_be_bytes not_le)
qed

lemma retarget_bits_spec:
  assumes limit: "length (pp_limit p) = 32"
  shows "retarget_bits p first final = retarget_spec p first final"
proof -
  define delta where "delta = work_nat (dp_chainwork final) - work_nat (dp_chainwork first)"
  define S where "S = unat (pp_target_spacing p)"
  define lo hi where "lo = unat (pp_minimum_actual_timespan p)" and "hi = unat (pp_maximum_actual_timespan p)"
  define span where "span = max lo (min hi (unat (dp_time final) - unat (dp_time first)))"
  have span: "unat (word_of_nat span :: u64) = span"
  proof -
    have "lo < 2 ^ 64" "hi < 2 ^ 64" using unat_less_pow [of "pp_minimum_actual_timespan p"]
      unat_less_pow [of "pp_maximum_actual_timespan p"] by (simp_all add: lo_def hi_def)
    then have "span < 2 ^ 64" by (simp add: span_def)
    then show ?thesis by (simp add: unat_of_nat)
  qed
  have clamp: "clamp (ucast (pp_minimum_actual_timespan p)) (ucast (pp_maximum_actual_timespan p))
      (saturating_sub (dp_time final) (dp_time first)) = (if hi < lo then None else Some (word_of_nat span))"
    by (simp add: clamp_nat unat_saturating_sub lo_def hi_def span_def)
  consider "unat (dp_height final) \<le> unat (dp_height first)"
    | "\<not> unat (dp_height final) \<le> unat (dp_height first)" "work_nat (dp_chainwork final) < work_nat (dp_chainwork first)"
    | d where "\<not> unat (dp_height final) \<le> unat (dp_height first)" "\<not> work_nat (dp_chainwork final) < work_nat (dp_chainwork first)"
        "chainwork_checked_sub (dp_chainwork final) (dp_chainwork first) = Inr d" "work_nat d = delta"
    using work.sub_exact [of "dp_chainwork first" "dp_chainwork final"] unfolding delta_def by fastforce
  then show ?thesis
  proof cases
    case 3
    have div: "chainwork_checked_div_u64 (work_of_nat (delta * S)) (word_of_nat span) =
        (if span = 0 then Inl Underflow else Inr (work_of_nat (delta * S div span)))" if "delta * S < 2 ^ 256"
      using that span chainwork_div_exact [of "word_of_nat span"]
      by (cases "span = 0") (auto simp: chainwork_div_zero work_nat_of_nat simp flip: unat_eq_0)
    have "delta * S div span < 2 ^ 256" if "delta * S < 2 ^ 256"
      using that div_le_dividend [of "delta * S" span] by linarith
    note tail = retarget_target [OF limit this]
    show ?thesis using 3
      unfolding retarget_bits_def retarget_spec_def Let_def delta_def [symmetric] S_def [symmetric]
        lo_def [symmetric] hi_def [symmetric] span_def [symmetric] clamp
      by (simp add: chainwork_mul_exact S_def [symmetric] word_le_nat_alt div tail)
  qed (simp_all add: retarget_bits_def retarget_spec_def word_le_nat_alt work.sub_underflow)
qed

text \<open>
  C29: the limb and byte arithmetic of \<^verbatim>\<open>retarget_bits\<close> computes the difficulty rule on
  numbers, with every error of the code accounted for.
\<close>

theorem retarget_bits_refines:
  "length (pp_limit p) = 32 \<Longrightarrow> retarget_bits p first final = retarget_spec p first final"
  by (rule retarget_bits_spec)

lemma hex_limits:
  "the (hex32 ''0000000000ffff00000000000000000000000000000000000000000000000000'') = replicate 5 0 @ [0xff, 0xff] @ replicate 25 0"
  "the (hex32 ''00000000ffff0000000000000000000000000000000000000000000000000000'') = replicate 4 0 @ [0xff, 0xff] @ replicate 26 0"
  "the (hex32 ''7fffff0000000000000000000000000000000000000000000000000000000000'') = [0x7f, 0xff, 0xff] @ replicate 29 0"
  by code_simp+

lemma hex_lengths:
  "length (the (hex32 ''5b6ef2d3c1f3cdcadfd9a030ba1811efdd17740f14e166489760741d075992e0'')) = 32"
  "length (the (hex32 ''b1520dd24372f82ec94ebf8cf9d9b037d419c4aa3575d05dec70aedd1b427901'')) = 32"
  "length (the (hex32 ''ae3895cf597eff05b19e02a70ceeeecb9dc72dbfe6504a50e9343a72f06a87c5'')) = 32"
  "length (the (hex32 ''0e648edc9cddb179014658061ea3f666a45cf44881877ae506e6babefbef6992'')) = 32"
  "length (the (hex32 ''1a2c60b9439206938f8d7823782abdb8b211a57431e9c9b6a6365d8d42893351'')) = 32"
  "length (the (hex32 ''8e4c9756fef2ad10375f360e0560fcc7587eb5223ddf8cd7c7e06e60a1140b15'')) = 32"
  by code_simp+

lemma starting_targets:
  "from_compact 0x1c00ffff = \<lparr>dt_bytes = replicate 5 0 @ [0xff, 0xff] @ replicate 25 0, dt_negative = False, dt_overflow = False\<rparr>"
  "from_compact 0x1d00ffff = \<lparr>dt_bytes = replicate 4 0 @ [0xff, 0xff] @ replicate 26 0, dt_negative = False, dt_overflow = False\<rparr>"
  "from_compact 0x207fffff = \<lparr>dt_bytes = [0x7f, 0xff, 0xff] @ replicate 29 0, dt_negative = False, dt_overflow = False\<rparr>"
  by code_simp+

lemma network_consistent:
  "from_compact (pp_bits (np_pow (parameters n))) =
     \<lparr>dt_bytes = pp_limit (np_pow (parameters n)), dt_negative = False, dt_overflow = False\<rparr>"
  "length (pp_limit (np_pow (parameters n))) = 32"
  by (cases n; simp add: hex_limits starting_targets)+

text \<open>
  On every network the compact starting difficulty denotes exactly the proof-of-work
  limit, which is a valid target, and the timespan constants are consistent.
\<close>

theorem network_parameters_consistent:
  "dt_bytes (from_compact (pp_bits (np_pow (parameters n)))) = pp_limit (np_pow (parameters n)) \<and>
   target_is_valid (from_compact (pp_bits (np_pow (parameters n)))) \<and>
   length (pp_limit (np_pow (parameters n))) = 32 \<and>
   pp_target_timespan (np_pow (parameters n)) = pp_target_window (np_pow (parameters n)) * pp_target_spacing (np_pow (parameters n)) \<and>
   pp_minimum_actual_timespan (np_pow (parameters n)) * 4 = pp_target_timespan (np_pow (parameters n)) \<and>
   pp_maximum_actual_timespan (np_pow (parameters n)) = pp_target_timespan (np_pow (parameters n)) * 4 \<and>
   header_ok (genesis_header (parameters n)) \<and> length (np_genesis_hash (parameters n)) = 32"
  by (cases n) (simp_all add: starting_targets hex_limits hex_lengths target_is_valid_def genesis_header_def header_ok_def)


text \<open>
  A difficulty the rule hands out on a network is never easier than that network's
  limit: the compact word is a non-negative number at most the limit.
\<close>

theorem expected_bits_within_limit:
  assumes "expected_next_bits (np_pow (parameters n)) time previous first_suitable last_suitable = Inr bits"
  shows "\<not> dt_negative (from_compact bits) \<and> \<not> dt_overflow (from_compact bits) \<and>
    be_nat (dt_bytes (from_compact bits)) \<le> be_nat (pp_limit (np_pow (parameters n)))"
proof -
  define p where "p = np_pow (parameters n)"
  note c = network_consistent [of n, folded p_def]
  have start: "\<not> dt_negative (from_compact (pp_bits p)) \<and> \<not> dt_overflow (from_compact (pp_bits p)) \<and>
      be_nat (dt_bytes (from_compact (pp_bits p))) \<le> be_nat (pp_limit p)"
    by (simp add: c)
  have retarget: "bits = pp_bits p \<or> (\<exists>v < 256 ^ 32. v \<le> be_nat (pp_limit p) \<and>
      bits = to_compact \<lparr>dt_bytes = be_bytes 32 v, dt_negative = False, dt_overflow = False\<rparr>)"
    if "retarget_bits p a b = Inr bits" for a b
  proof -
    have "retarget_spec p a b = Inr bits" using that retarget_bits_spec [OF c(2)] by simp
    then obtain v where "bits = pp_bits p \<or> v \<le> be_nat (pp_limit p) \<and>
        bits = to_compact \<lparr>dt_bytes = be_bytes 32 v, dt_negative = False, dt_overflow = False\<rparr>"
      unfolding retarget_spec_def Let_def by (metis sum.distinct(1) sum.inject(2) not_less)
    moreover have "be_nat (pp_limit p) < 256 ^ 32" using be_nat_less [of "pp_limit p"] c(2) by simp
    ultimately show ?thesis using le_less_trans by blast
  qed
  from assms have "bits = pp_bits p \<or> (\<exists>a b. retarget_bits p a b = Inr bits)"
    by (auto simp: expected_next_bits_def p_def [symmetric] bind_res_eq_Inr split: if_splits)
  with retarget consider "bits = pp_bits p" | v where "v < 256 ^ 32" "v \<le> be_nat (pp_limit p)"
      "bits = to_compact \<lparr>dt_bytes = be_bytes 32 v, dt_negative = False, dt_overflow = False\<rparr>"
    by blast
  then have "\<not> dt_negative (from_compact bits) \<and> \<not> dt_overflow (from_compact bits) \<and>
      be_nat (dt_bytes (from_compact bits)) \<le> be_nat (pp_limit p)"
  proof cases
    case 2
    have "compact_value bits \<le> v"
      using to_compact_rounds(2) [of "\<lparr>dt_bytes = be_bytes 32 v, dt_negative = False, dt_overflow = False\<rparr>"] 2
      by (simp add: be_nat_be_bytes)
    with 2 show ?thesis
      using to_compact_rounds(1) [of "\<lparr>dt_bytes = be_bytes 32 v, dt_negative = False, dt_overflow = False\<rparr>"]
      by (simp add: be_nat_be_bytes)
  qed (use start in simp)
  then show ?thesis unfolding p_def .
qed


definition sample_point :: difficulty_point where
  "sample_point = \<lparr>dp_height = 0, dp_time = 0, dp_bits = 0, dp_chainwork = chainwork_zero\<rparr>"

theorem retarget_bits_refines_witness:
  "length (pp_limit (np_pow (parameters Simnet))) = 32 \<and>
   retarget_bits (np_pow (parameters Simnet)) sample_point (sample_point\<lparr>dp_height := 1\<rparr>) = Inr 0x207fffff"
proof -
  have "length (pp_limit (np_pow (parameters Simnet))) = 32" by (rule network_consistent)
  from retarget_bits_refines [OF this] this show ?thesis
    by (simp add: retarget_spec_def sample_point_def Let_def)
qed

theorem expected_bits_within_limit_witness:
  "expected_next_bits (np_pow (parameters Regtest)) 7 sample_point None None = Inr 0x207fffff \<and>
   be_nat (dt_bytes (from_compact 0x207fffff)) \<le> be_nat (pp_limit (np_pow (parameters Regtest)))"
proof -
  have "expected_next_bits (np_pow (parameters Regtest)) 7 sample_point None None = Inr 0x207fffff"
    by (simp add: expected_next_bits_def)
  with expected_bits_within_limit [OF this] show ?thesis by blast
qed

end
