(* ===== verification/Covenants.thy ===== *)
theory Covenants
  imports Encoding Primitives
begin

text \<open>
  Model of \<^verbatim>\<open>crates/hns-covenants/src/lib.rs\<close>: covenant kinds, the covenant codec with its
  size limits, name validation and the two hash helpers. The third-party hash functions
  are function arguments. The codec is an instance of the locale \<open>codec\<close> for every
  decoding limit, and decoding a whole input is proved to be the inverse of encoding.
\<close>

section \<open>Covenants\<close>

datatype covenant_kind =
    CNone | Claim | Open | Bid | Reveal | Redeem | Register | Update | Renew | Transfer
  | Finalize | Revoke | CUnknown byte

definition kind_from_u8 :: "byte \<Rightarrow> covenant_kind" where
  "kind_from_u8 v =
     (if v = 0 then CNone else if v = 1 then Claim else if v = 2 then Open else if v = 3 then Bid
      else if v = 4 then Reveal else if v = 5 then Redeem else if v = 6 then Register
      else if v = 7 then Update else if v = 8 then Renew else if v = 9 then Transfer
      else if v = 10 then Finalize else if v = 11 then Revoke else CUnknown v)"

fun kind_as_u8 :: "covenant_kind \<Rightarrow> byte" where
  "kind_as_u8 CNone = 0"
| "kind_as_u8 Claim = 1"
| "kind_as_u8 Open = 2"
| "kind_as_u8 Bid = 3"
| "kind_as_u8 Reveal = 4"
| "kind_as_u8 Redeem = 5"
| "kind_as_u8 Register = 6"
| "kind_as_u8 Update = 7"
| "kind_as_u8 Renew = 8"
| "kind_as_u8 Transfer = 9"
| "kind_as_u8 Finalize = 10"
| "kind_as_u8 Revoke = 11"
| "kind_as_u8 (CUnknown v) = v"

fun kind_is_name :: "covenant_kind \<Rightarrow> bool" where
  "kind_is_name CNone = False"
| "kind_is_name (CUnknown _) = False"
| "kind_is_name _ = True"

definition kind_is_linked :: "covenant_kind \<Rightarrow> bool" where
  "kind_is_linked k \<longleftrightarrow> k \<in> {Reveal, Redeem, Register, Update, Renew, Transfer, Finalize, Revoke}"

definition kind_is_unspendable :: "covenant_kind \<Rightarrow> bool" where
  "kind_is_unspendable k \<longleftrightarrow> k = Revoke"

record covenant =
  cov_kind :: covenant_kind
  cov_items :: "bytes list"

datatype covenant_error =
    CovDecode decode_error
  | TooLarge nat nat
  | InvalidName
  | UnsupportedResourceVersion
  | UnsupportedResourceRecord byte
  | InvalidResource string
  | InvalidNameState string
  | NonCanonicalNameState
  | NameStateHashMismatch
  | InvalidTransferCovenant string
  | InvalidFinalizeCovenant string
  | FinalizeNameHashMismatch

definition max_covenant_items :: nat where "max_covenant_items = 1000"
definition max_covenant_item_size :: nat where "max_covenant_item_size = 1000000"
definition max_covenant_encoded_size :: nat where
  "max_covenant_encoded_size = max_covenant_item_size + 9"
definition max_name_size :: nat where "max_name_size = 63"
definition max_resource_size :: nat where "max_resource_size = 512"

lemmas covenant_limits = max_covenant_items_def max_covenant_item_size_def
  max_covenant_encoded_size_def max_name_size_def max_resource_size_def

definition covenant_default :: covenant where
  "covenant_default = \<lparr>cov_kind = CNone, cov_items = []\<rparr>"

definition compact_size_len :: "u64 \<Rightarrow> nat" where
  "compact_size_len v =
     (if v \<le> 0xfc then 1 else if v \<le> 0xffff then 3 else if v \<le> 0xffffffff then 5 else 9)"

fun encoded_size_items :: "nat \<Rightarrow> bytes list \<Rightarrow> covenant_error + nat" where
  "encoded_size_items encoded_size [] = Inr encoded_size"
| "encoded_size_items encoded_size (item # items) =
     (if length item > max_covenant_item_size
      then Inl (TooLarge (length item) max_covenant_item_size)
      else bind_res
        (ok_or (Option.bind (checked_add_usize encoded_size (compact_size_len (word_of_nat (length item))))
                  (\<lambda>size. checked_add_usize size (length item)))
          (TooLarge usize_max max_covenant_encoded_size))
        (\<lambda>encoded_size.
           if encoded_size > max_covenant_encoded_size
           then Inl (TooLarge encoded_size max_covenant_encoded_size)
           else encoded_size_items encoded_size items))"

definition covenant_encoded_size :: "covenant \<Rightarrow> covenant_error + nat" where
  "covenant_encoded_size c =
     (if length (cov_items c) > max_covenant_items
      then Inl (TooLarge (length (cov_items c)) max_covenant_items)
      else bind_res
        (ok_or (checked_add_usize 1 (compact_size_len (word_of_nat (length (cov_items c)))))
          (TooLarge usize_max max_covenant_encoded_size))
        (\<lambda>encoded_size. encoded_size_items encoded_size (cov_items c)))"

definition covenant_validate_bounds :: "covenant \<Rightarrow> covenant_error + unit" where
  "covenant_validate_bounds c = bind_res (covenant_encoded_size c) (\<lambda>_. Inr ())"

definition put_covenant :: "covenant \<Rightarrow> encoder \<Rightarrow> encoder" where
  "put_covenant c = put_seq
     ([put_u8 (kind_as_u8 (cov_kind c)), put_compact_size (word_of_nat (length (cov_items c)))] @
      map put_varbytes (cov_items c))"

definition covenant_encode_to :: "covenant \<Rightarrow> encoder \<Rightarrow> covenant_error + encoder" where
  "covenant_encode_to c e = bind_res (covenant_validate_bounds c) (\<lambda>_. Inr (put_covenant c e))"

definition covenant_encode :: "covenant \<Rightarrow> covenant_error + bytes" where
  "covenant_encode c =
     bind_res (covenant_encoded_size c) (\<lambda>_. Inr (into_bytes (put_covenant c encoder_new)))"

definition ensure_decode_budget :: "nat \<Rightarrow> nat \<Rightarrow> (covenant_error, nat) reader" where
  "ensure_decode_budget start maximum =
     dbind decoder_position (\<lambda>position.
       let consumed = position - start in
       if consumed > maximum then derror (TooLarge consumed maximum)
       else dreturn (maximum - consumed))"

definition read_covenant_item :: "nat \<Rightarrow> nat \<Rightarrow> (covenant_error, bytes) reader" where
  "read_covenant_item start maximum =
     dbind (dlift CovDecode (read_compact_usize max_covenant_item_size)) (\<lambda>len.
     dbind (ensure_decode_budget start maximum) (\<lambda>remaining.
     dbind decoder_position (\<lambda>position.
       if len > remaining
       then derror (TooLarge (saturating_add_usize (position - start) len) maximum)
       else dlift CovDecode (read_bounded_vec len remaining))))"

definition covenant_decode_from_with_limit :: "nat \<Rightarrow> (covenant_error, covenant) reader" where
  "covenant_decode_from_with_limit limit =
     (let maximum = min limit max_covenant_encoded_size in
      if maximum < 2 then derror (TooLarge 2 maximum)
      else
        dbind decoder_position (\<lambda>start.
        dbind (dlift CovDecode read_u8) (\<lambda>kind.
        dbind (dlift CovDecode (read_compact_usize max_covenant_items)) (\<lambda>count.
        dbind (ensure_decode_budget start maximum) (\<lambda>_.
        dbind (read_times count (read_covenant_item start maximum)) (\<lambda>items.
          dreturn \<lparr>cov_kind = kind_from_u8 kind, cov_items = items\<rparr>))))))"

definition covenant_decode_from :: "(covenant_error, covenant) reader" where
  "covenant_decode_from = covenant_decode_from_with_limit max_covenant_encoded_size"

definition covenant_decode :: "bytes \<Rightarrow> covenant_error + covenant" where
  "covenant_decode input =
     (if length input > max_covenant_encoded_size
      then Inl (TooLarge (length input) max_covenant_encoded_size)
      else bind_res (covenant_decode_from (decoder_new input)) (\<lambda>(c, d).
           bind_res (map_err CovDecode (decoder_finish d)) (\<lambda>_. Inr c)))"

definition cov_item :: "covenant \<Rightarrow> nat \<Rightarrow> bytes option" where
  "cov_item c i = get (cov_items c) i"

definition cov_item_u8 :: "covenant \<Rightarrow> nat \<Rightarrow> byte option" where
  "cov_item_u8 c i =
     Option.bind (cov_item c i) (\<lambda>item. if length item = 1 then Some (item ! 0) else None)"

definition cov_item_u32 :: "covenant \<Rightarrow> nat \<Rightarrow> u32 option" where
  "cov_item_u32 c i =
     Option.bind (cov_item c i) (\<lambda>item. map_option u32_of_le (as_array 4 item))"

definition cov_item_u64 :: "covenant \<Rightarrow> nat \<Rightarrow> u64 option" where
  "cov_item_u64 c i =
     Option.bind (cov_item c i) (\<lambda>item. map_option u64_of_le (as_array 8 item))"

definition cov_item_name_hash :: "covenant \<Rightarrow> nat \<Rightarrow> hash32 option" where
  "cov_item_name_hash c i = Option.bind (cov_item c i) (as_array 32)"

section \<open>Names\<close>

definition ascii :: "string \<Rightarrow> bytes" where
  "ascii s = map of_char s"

definition name_char_ok :: "bytes \<Rightarrow> nat \<times> byte \<Rightarrow> bool" where
  "name_char_ok name = (\<lambda>(index, b).
     (0x30 \<le> b \<and> b \<le> 0x39 \<or> 0x61 \<le> b \<and> b \<le> 0x7a) \<or>
     (b = 0x2d \<or> b = 0x5f) \<and> index \<noteq> 0 \<and> index + 1 \<noteq> length name)"

definition validate_name :: "bytes \<Rightarrow> bool" where
  "validate_name name =
     (if name = [] \<or> length name > max_name_size then False
      else if name \<in> {ascii ''example'', ascii ''invalid'', ascii ''local'', ascii ''localhost'', ascii ''test''}
      then False
      else list_all (name_char_ok name) (enumerate 0 name))"

definition hash_name :: "(bytes \<Rightarrow> bytes) \<Rightarrow> bytes \<Rightarrow> covenant_error + hash32" where
  "hash_name sha3 name = (if \<not> validate_name name then Inl InvalidName else Inr (sha3 name))"

definition blind_bid :: "(bytes \<Rightarrow> bytes) \<Rightarrow> u64 \<Rightarrow> bytes \<Rightarrow> bytes" where
  "blind_bid blake2b v nonce = blake2b (u64_to_le v @ nonce)"

section \<open>Sizes\<close>

definition kind_ok :: "covenant_kind \<Rightarrow> bool" where
  "kind_ok k \<longleftrightarrow> (case k of CUnknown v \<Rightarrow> 12 \<le> v | _ \<Rightarrow> True)"

definition covenant_bytes :: "covenant \<Rightarrow> bytes" where
  "covenant_bytes c = into_bytes (put_covenant c encoder_new)"

definition covenant_ok :: "nat \<Rightarrow> covenant \<Rightarrow> bool" where
  "covenant_ok limit c \<longleftrightarrow> kind_ok (cov_kind c) \<and> length (cov_items c) \<le> max_covenant_items \<and>
     (\<forall>item \<in> set (cov_items c). length item \<le> max_covenant_item_size) \<and>
     length (covenant_bytes c) \<le> min limit max_covenant_encoded_size"

lemma kind_as_u8_from: "kind_as_u8 (kind_from_u8 v) = v"
  by (simp add: kind_from_u8_def)

lemma kind_from_u8_as: "kind_ok k \<Longrightarrow> kind_from_u8 (kind_as_u8 k) = k"
  by (cases k) (auto simp: kind_ok_def kind_from_u8_def word_le_nat_alt)

lemma kind_from_u8_ok: "kind_ok (kind_from_u8 v)"
proof -
  have "12 \<le> v" if "v \<notin> {0, 1, 2, 3, 4, 5, 6, 7, 8, 9, 10, 11}"
  proof -
    have "unat v \<notin> {0, 1, 2, 3, 4, 5, 6, 7, 8, 9, 10, 11}"
      using that by (simp add: word_unat_eq_iff)
    then have "12 \<le> unat v" by (simp, presburger)
    then show ?thesis by (simp add: word_le_nat_alt)
  qed
  then show ?thesis by (simp add: kind_ok_def kind_from_u8_def)
qed

lemma covenant_bytes_eq:
  "covenant_bytes c = kind_as_u8 (cov_kind c) # len_bytes (length (cov_items c)) @
     concat (map var_bytes (cov_items c))"
  by (simp add: covenant_bytes_def put_covenant_def len_bytes_def into_bytes_put_seq_map)

lemma into_bytes_put_covenant [simp]: "into_bytes (put_covenant c e) = into_bytes e @ covenant_bytes c"
  by (simp add: covenant_bytes_eq put_covenant_def len_bytes_def into_bytes_put_seq_map)

lemma compact_size_len_bytes: "compact_size_len v = length (compact_bytes v)"
  by (simp add: compact_size_len_def length_compact_bytes)

lemma length_var_bytes: "length (var_bytes item) = compact_size_len (word_of_nat (length item)) + length item"
  by (simp add: var_bytes_eq compact_size_len_bytes)

lemma compact_size_len_le: "compact_size_len v \<le> 9"
  by (simp add: compact_size_len_def)

lemma encoded_size_items_iff:
  "start \<le> max_covenant_encoded_size \<Longrightarrow>
   encoded_size_items start items = Inr n \<longleftrightarrow>
     (\<forall>item \<in> set items. length item \<le> max_covenant_item_size) \<and>
     n = start + length (concat (map var_bytes items)) \<and> n \<le> max_covenant_encoded_size"
proof (induction items arbitrary: start)
  case (Cons item items)
  show ?case
  proof (cases "length item \<le> max_covenant_item_size")
    case True
    define size where "size = start + length (var_bytes item)"
    have "size \<le> usize_max"
      using True Cons.prems compact_size_len_le [of "word_of_nat (length item)"]
      by (simp add: size_def length_var_bytes covenant_limits usize_max_def)
    then have "Option.bind (checked_add_usize start (compact_size_len (word_of_nat (length item))))
        (\<lambda>size. checked_add_usize size (length item)) = Some size"
      by (simp add: checked_add_usize_def size_def length_var_bytes)
    then show ?thesis
      using True Cons.IH [of size] by (auto simp: size_def)
  qed auto
qed auto

lemma covenant_encoded_size_iff:
  "covenant_encoded_size c = Inr n \<longleftrightarrow>
     length (cov_items c) \<le> max_covenant_items \<and>
     (\<forall>item \<in> set (cov_items c). length item \<le> max_covenant_item_size) \<and>
     n = length (covenant_bytes c) \<and> n \<le> max_covenant_encoded_size"
proof -
  define s where "s = 1 + compact_size_len (word_of_nat (length (cov_items c)))"
  have s: "s \<le> max_covenant_encoded_size" "s \<le> usize_max"
    using compact_size_len_le [of "word_of_nat (length (cov_items c))"]
    by (simp_all add: s_def covenant_limits usize_max_def)
  have "length (covenant_bytes c) = s + length (concat (map var_bytes (cov_items c)))"
    by (simp add: covenant_bytes_eq s_def compact_size_len_bytes len_bytes_def)
  with s show ?thesis
    using encoded_size_items_iff [OF s(1), of "cov_items c" n]
    by (auto simp: covenant_encoded_size_def checked_add_usize_def s_def)
qed

section \<open>The covenant codec\<close>

lemma ensure_budget_cursor [simp]:
  "ensure_decode_budget start maximum (cursor pre rest) =
     (if length pre - start > maximum then Inl (TooLarge (length pre - start) maximum)
      else Inr (maximum - (length pre - start), cursor pre rest))"
  by (simp add: ensure_decode_budget_def dbind_def Let_def)

interpretation cov_items: budgeted var_bytes read_covenant_item "\<lambda>item. length item \<le> max_covenant_item_size"
  unfolding read_covenant_item_def [abs_def] by (rule budgeted_varbytes) (rule ensure_budget_cursor)

interpretation cov: codec covenant_bytes "covenant_decode_from_with_limit limit" "covenant_ok limit" for limit
proof
  fix c pre suf
  assume ok: "covenant_ok limit c" and fit: "fits pre (covenant_bytes c @ suf)"
  define n where "n = length (cov_items c)"
  have n: "n \<le> max_covenant_items" "n \<le> usize_max"
    using ok by (simp_all add: covenant_ok_def n_def covenant_limits usize_max_def)
  have "2 \<le> length (covenant_bytes c)"
    using compact_size_len_bytes [of "word_of_nat n"]
    by (simp add: covenant_bytes_eq len_bytes_def n_def length_compact_bytes)
  with ok have lim: "length (covenant_bytes c) \<le> min limit max_covenant_encoded_size"
    "\<not> min limit max_covenant_encoded_size < 2"
    unfolding covenant_ok_def by linarith+
  have items: "read_times n (read_covenant_item (length pre) (min limit max_covenant_encoded_size))
      (cursor (pre @ kind_as_u8 (cov_kind c) # len_bytes n) (concat (map var_bytes (cov_items c)) @ suf)) =
      Inr (cov_items c, cursor (pre @ covenant_bytes c) suf)"
    using cov_items.times_within [of "cov_items c" "pre @ kind_as_u8 (cov_kind c) # len_bytes n" suf "length pre"
        "min limit max_covenant_encoded_size"] ok fit lim
    by (simp add: covenant_ok_def covenant_bytes_eq n_def)
  have budget: "ensure_decode_budget (length pre) (min limit max_covenant_encoded_size)
      (cursor (pre @ kind_as_u8 (cov_kind c) # len_bytes n) rest) =
      Inr (min limit max_covenant_encoded_size - Suc (length (len_bytes n)),
        cursor (pre @ kind_as_u8 (cov_kind c) # len_bytes n) rest)" for rest
  proof -
    have "Suc (length (len_bytes n)) \<le> length (covenant_bytes c)" by (simp add: covenant_bytes_eq n_def)
    then have "\<not> min limit max_covenant_encoded_size < Suc (length (len_bytes n))" using lim(1) by linarith
    then show ?thesis by simp
  qed
  show "covenant_decode_from_with_limit limit (cursor pre (covenant_bytes c @ suf)) =
      Inr (c, cursor (pre @ covenant_bytes c) suf)"
    using ok fit lim n items
    by (simp add: covenant_decode_from_with_limit_def covenant_bytes_eq dbind_run Let_def
        n_def [symmetric] len.reads kind_from_u8_as covenant_ok_def budget del: ensure_budget_cursor)
next
  fix pre rest c d'
  define maximum where "maximum = min limit max_covenant_encoded_size"
  assume run: "covenant_decode_from_with_limit limit (cursor pre rest) = Inr (c, d')"
  then obtain k d1 n d2 items where k: "read_u8 (cursor pre rest) = Inr (k, d1)"
    and n: "read_compact_usize max_covenant_items d1 = Inr (n, d2)"
    and tail: "dbind (ensure_decode_budget (length pre) maximum)
      (\<lambda>_. read_times n (read_covenant_item (length pre) maximum)) d2 = Inr (items, d')"
    and c: "c = \<lparr>cov_kind = kind_from_u8 k, cov_items = items\<rparr>"
    unfolding covenant_decode_from_with_limit_def Let_def maximum_def [symmetric]
    by (fastforce simp: dbind_eq_Inr split: if_splits)
  from read_u8_back [OF k] obtain suf1 where rest: "rest = k # suf1" and d1: "d1 = cursor (pre @ [k]) suf1" by auto
  from len.reads_back [OF n [unfolded d1]] obtain suf2 where suf1: "suf1 = len_bytes n @ suf2"
    "n \<le> max_covenant_items" and d2: "d2 = cursor (pre @ k # len_bytes n) suf2" by auto
  from tail d2 have items: "read_times n (read_covenant_item (length pre) maximum)
      (cursor (pre @ k # len_bytes n) suf2) = Inr (items, d')" "length (k # len_bytes n) \<le> maximum"
    by (auto simp: dbind_eq_Inr split: if_splits)
  from cov_items.times_within_back [OF items(1)] items(2)
  show "covenant_ok limit c \<and> (\<exists>suf. rest = covenant_bytes c @ suf \<and> d' = cursor (pre @ covenant_bytes c) suf)"
    using rest suf1 c
    by (auto simp: covenant_ok_def covenant_bytes_eq kind_from_u8_ok kind_as_u8_from maximum_def)
qed

lemma covenant_encode_iff:
  "covenant_encode c = Inr bs \<longleftrightarrow>
     bs = covenant_bytes c \<and> length (cov_items c) \<le> max_covenant_items \<and>
     (\<forall>item \<in> set (cov_items c). length item \<le> max_covenant_item_size) \<and>
     length bs \<le> max_covenant_encoded_size"
  by (auto simp: covenant_encode_def bind_res_eq_Inr covenant_encoded_size_iff)

lemma covenant_encode_to_iff:
  "covenant_encode_to c e = Inr e' \<longleftrightarrow>
     e' = put_covenant c e \<and> length (cov_items c) \<le> max_covenant_items \<and>
     (\<forall>item \<in> set (cov_items c). length item \<le> max_covenant_item_size) \<and>
     length (covenant_bytes c) \<le> max_covenant_encoded_size"
  by (auto simp: covenant_encode_to_def covenant_validate_bounds_def bind_res_eq_Inr covenant_encoded_size_iff)

text \<open>
  Covenant decoding accepts exactly the covenants that encode, each in its only
  encoding: an input decodes to a covenant if and only if that covenant is canonical
  (its unknown kinds do not shadow a known one) and encodes to that input. All size limits
  on both sides agree.
\<close>

theorem covenant_codec_exact:
  "covenant_decode input = Inr c \<longleftrightarrow> kind_ok (cov_kind c) \<and> covenant_encode c = Inr input"
proof
  assume "covenant_decode input = Inr c"
  then obtain d where rd: "covenant_decode_from_with_limit max_covenant_encoded_size (cursor [] input) = Inr (c, d)"
    and fin: "decoder_finish d = Inr ()"
    by (auto simp: covenant_decode_def covenant_decode_from_def decoder_new_cursor bind_res_eq_Inr split: if_splits)
  from cov.reads_back [OF rd] fin show "kind_ok (cov_kind c) \<and> covenant_encode c = Inr input"
    by (auto simp: covenant_ok_def covenant_encode_iff split: if_splits)
next
  assume c: "kind_ok (cov_kind c) \<and> covenant_encode c = Inr input"
  then have "covenant_ok max_covenant_encoded_size c" "input = covenant_bytes c"
    "length input \<le> max_covenant_encoded_size"
    by (auto simp: covenant_ok_def covenant_encode_iff)
  moreover from this have "fits [] (covenant_bytes c @ [])"
    by (simp add: fits_def covenant_limits usize_max_def)
  ultimately show "covenant_decode input = Inr c"
    using cov.reads [of max_covenant_encoded_size c "[]" "[]"]
    by (simp add: covenant_decode_def covenant_decode_from_def decoder_new_cursor)
qed

end
