(* ===== verification/NameState.thy ===== *)
theory NameState
  imports Covenants
begin

text \<open>
  Model of \<^verbatim>\<open>crates/hns-covenants/src/name_state.rs\<close>: the authenticated name-tree value,
  its bitmap-driven encoder and its strict decoder. The parameter \<open>sha3\<close> is the SHA3-256 of
  the third-party crate, which binds a name to its tree key.
\<close>

record name_state =
  ns_name_hash :: hash32
  ns_name :: bytes
  ns_height :: height
  ns_renewal :: height
  ns_owner :: outpoint
  ns_value :: dollarydoos
  ns_highest :: dollarydoos
  ns_resource_data :: bytes
  ns_transfer :: height
  ns_revoked :: height
  ns_claimed :: height
  ns_renewals :: u32
  ns_registered :: bool
  ns_expired :: bool
  ns_weak :: bool

definition max_name_state_size :: nat where "max_name_state_size = 668"
definition hsd_max_safe_integer :: u64 where "hsd_max_safe_integer = push_bit 53 1 - 1"
definition name_state_field_mask :: u16 where "name_state_field_mask = push_bit 10 1 - 1"

definition name_state_null :: "hash32 \<Rightarrow> name_state" where
  "name_state_null name_hash = \<lparr>ns_name_hash = name_hash, ns_name = [], ns_height = 0,
     ns_renewal = 0, ns_owner = outpoint_null, ns_value = 0, ns_highest = 0,
     ns_resource_data = [], ns_transfer = 0, ns_revoked = 0, ns_claimed = 0, ns_renewals = 0,
     ns_registered = False, ns_expired = False, ns_weak = False\<rparr>"

definition name_state_is_null :: "name_state \<Rightarrow> bool" where
  "name_state_is_null s \<longleftrightarrow>
     ns_height s = 0 \<and> ns_renewal s = 0 \<and> outpoint_is_null (ns_owner s) \<and> ns_value s = 0 \<and>
     ns_highest s = 0 \<and> ns_resource_data s = [] \<and> ns_transfer s = 0 \<and> ns_revoked s = 0 \<and>
     ns_claimed s = 0 \<and> ns_renewals s = 0 \<and> \<not> ns_registered s \<and> \<not> ns_expired s \<and> \<not> ns_weak s"

definition owner_outpoint :: "name_state \<Rightarrow> outpoint option" where
  "owner_outpoint s = (if outpoint_is_null (ns_owner s) then None else Some (ns_owner s))"

definition validate_key_binding :: "(bytes \<Rightarrow> bytes) \<Rightarrow> name_state \<Rightarrow> covenant_error + unit" where
  "validate_key_binding sha3 s =
     (if \<not> name_state_is_null s
      then bind_res (hash_name sha3 (ns_name s)) (\<lambda>h.
             if h \<noteq> ns_name_hash s then Inl NameStateHashMismatch else Inr ())
      else Inr ())"

definition validate_lengths :: "nat \<Rightarrow> nat \<Rightarrow> covenant_error + unit" where
  "validate_lengths name_length resource_length =
     (if name_length > max_name_size then Inl (TooLarge name_length max_name_size)
      else if resource_length > max_resource_size then Inl (TooLarge resource_length max_resource_size)
      else Inr ())"

definition validate_safe_integer :: "u64 \<Rightarrow> covenant_error + unit" where
  "validate_safe_integer v =
     (if hsd_max_safe_integer < v
      then Inl (InvalidNameState ''compact integer exceeds HSD's safe-integer range'') else Inr ())"

definition read_safe_integer :: "(covenant_error, u64) reader" where
  "read_safe_integer =
     dbind (dlift CovDecode read_compact_size) (\<lambda>v.
     dbind (dcheck (validate_safe_integer v)) (\<lambda>_. dreturn v))"

definition read_u32_compact :: "string \<Rightarrow> (covenant_error, u32) reader" where
  "read_u32_compact reason =
     dbind (dlift CovDecode read_compact_size) (\<lambda>v.
       if v \<le> 0xffffffff then dreturn (ucast v) else derror (InvalidNameState reason))"

text \<open>The bitmap of present optional fields, set bit by bit in the order of the source.\<close>

definition set_field :: "bool \<Rightarrow> nat \<Rightarrow> u16 \<Rightarrow> u16" where
  "set_field c i field = (if c then field OR push_bit i 1 else field)"

definition name_state_field :: "name_state \<Rightarrow> u16" where
  "name_state_field s =
     set_field (ns_weak s) 9 (set_field (ns_expired s) 8 (set_field (ns_registered s) 7
     (set_field (ns_renewals s \<noteq> 0) 6 (set_field (ns_claimed s \<noteq> 0) 5
     (set_field (ns_revoked s \<noteq> 0) 4 (set_field (ns_transfer s \<noteq> 0) 3
     (set_field (ns_highest s \<noteq> 0) 2 (set_field (ns_value s \<noteq> 0) 1
     (set_field (\<not> outpoint_is_null (ns_owner s)) 0 0)))))))))"

definition put_when :: "bool \<Rightarrow> (encoder \<Rightarrow> encoder) \<Rightarrow> encoder \<Rightarrow> encoder" where
  "put_when c p e = (if c then p e else e)"

definition name_state_encode :: "(bytes \<Rightarrow> bytes) \<Rightarrow> name_state \<Rightarrow> covenant_error + bytes" where
  "name_state_encode sha3 s =
     bind_res (validate_lengths (length (ns_name s)) (length (ns_resource_data s))) (\<lambda>_.
     bind_res (validate_safe_integer (ns_value s)) (\<lambda>_.
     bind_res (validate_safe_integer (ns_highest s)) (\<lambda>_.
     bind_res (validate_key_binding sha3 s) (\<lambda>_.
     Inr (encode_with
       [put_u8 (word_of_nat (length (ns_name s))), put_bytes (ns_name s),
        put_u16_le (word_of_nat (length (ns_resource_data s))), put_bytes (ns_resource_data s),
        put_u32_le (ns_height s), put_u32_le (ns_renewal s), put_u16_le (name_state_field s),
        put_when (\<not> outpoint_is_null (ns_owner s))
          (put_seq [put_bytes (op_hash (ns_owner s)), put_compact_size (ucast (op_index (ns_owner s)))]),
        put_when (ns_value s \<noteq> 0) (put_compact_size (ns_value s)),
        put_when (ns_highest s \<noteq> 0) (put_compact_size (ns_highest s)),
        put_when (ns_transfer s \<noteq> 0) (put_u32_le (ns_transfer s)),
        put_when (ns_revoked s \<noteq> 0) (put_u32_le (ns_revoked s)),
        put_when (ns_claimed s \<noteq> 0) (put_u32_le (ns_claimed s)),
        put_when (ns_renewals s \<noteq> 0) (put_compact_size (ucast (ns_renewals s)))])))))"

definition field_set :: "u16 \<Rightarrow> nat \<Rightarrow> bool" where
  "field_set field i \<longleftrightarrow> field AND push_bit i 1 \<noteq> 0"

definition read_when :: "bool \<Rightarrow> ('e, 'a) reader \<Rightarrow> 'a \<Rightarrow> ('e, 'a) reader" where
  "read_when c p dflt = (if c then p else dreturn dflt)"

definition read_owner :: "(covenant_error, outpoint) reader" where
  "read_owner =
     dbind (dlift CovDecode (read_array 32)) (\<lambda>h.
     dbind (read_u32_compact ''owner index exceeds u32'') (\<lambda>i.
       dreturn \<lparr>op_hash = h, op_index = i\<rparr>))"

definition read_name_state :: "hash32 \<Rightarrow> (covenant_error, name_state) reader" where
  "read_name_state name_hash =
     dbind (dlift CovDecode read_u8) (\<lambda>name_length.
     if unat name_length > max_name_size then derror (InvalidNameState ''name exceeds 63 bytes'')
     else
     dbind (dlift CovDecode (read_bounded_vec (unat name_length) max_name_size)) (\<lambda>name.
     dbind (dlift CovDecode read_u16_le) (\<lambda>resource_length.
     if unat resource_length > max_resource_size
     then derror (InvalidNameState ''resource data exceeds 512 bytes'')
     else
     dbind (dlift CovDecode (read_bounded_vec (unat resource_length) max_resource_size)) (\<lambda>resource_data.
     dbind (dlift CovDecode read_u32_le) (\<lambda>height.
     dbind (dlift CovDecode read_u32_le) (\<lambda>renewal.
     dbind (dlift CovDecode read_u16_le) (\<lambda>field.
     if field AND NOT name_state_field_mask \<noteq> 0
     then derror (InvalidNameState ''optional-field bitmap contains unknown bits'')
     else
     dbind (read_when (field_set field 0) read_owner outpoint_null) (\<lambda>owner.
     dbind (read_when (field_set field 1) read_safe_integer 0) (\<lambda>val.
     dbind (read_when (field_set field 2) read_safe_integer 0) (\<lambda>highest.
     dbind (read_when (field_set field 3) (dlift CovDecode read_u32_le) 0) (\<lambda>transfer.
     dbind (read_when (field_set field 4) (dlift CovDecode read_u32_le) 0) (\<lambda>revoked.
     dbind (read_when (field_set field 5) (dlift CovDecode read_u32_le) 0) (\<lambda>claimed.
     dbind (read_when (field_set field 6) (read_u32_compact ''renewal count exceeds u32'') 0) (\<lambda>renewals.
       dreturn \<lparr>ns_name_hash = name_hash, ns_name = name, ns_height = height, ns_renewal = renewal,
         ns_owner = owner, ns_value = val, ns_highest = highest, ns_resource_data = resource_data,
         ns_transfer = transfer, ns_revoked = revoked, ns_claimed = claimed, ns_renewals = renewals,
         ns_registered = field_set field 7, ns_expired = field_set field 8,
         ns_weak = field_set field 9\<rparr>))))))))))))))"

definition name_state_decode :: "(bytes \<Rightarrow> bytes) \<Rightarrow> hash32 \<Rightarrow> bytes \<Rightarrow> covenant_error + name_state" where
  "name_state_decode sha3 name_hash input =
     (if length input > max_name_state_size then Inl (TooLarge (length input) max_name_state_size)
      else
        bind_res (read_name_state name_hash (decoder_new input)) (\<lambda>(state, d).
        bind_res (map_err CovDecode (decoder_finish d)) (\<lambda>_.
        bind_res (validate_key_binding sha3 state) (\<lambda>_.
        bind_res (name_state_encode sha3 state) (\<lambda>encoded.
          if encoded \<noteq> input then Inl NonCanonicalNameState else Inr state)))))"

section \<open>The optional fields\<close>

lemma field_set_bit: "i < 16 \<Longrightarrow> field_set f i \<longleftrightarrow> bit f i"
  using and_exp_eq_0_iff_not_bit [of f i] by (simp add: field_set_def)

lemma bit_set_field: "i < 16 \<Longrightarrow> bit (set_field c i f) j \<longleftrightarrow> (c \<and> i = j) \<or> bit f j"
  by (auto simp: set_field_def bit_simps)

lemma name_state_field_bits:
  "bit (name_state_field s) i \<longleftrightarrow>
     (i = 0 \<and> ns_owner s \<noteq> outpoint_null) \<or> (i = 1 \<and> ns_value s \<noteq> 0) \<or> (i = 2 \<and> ns_highest s \<noteq> 0) \<or>
     (i = 3 \<and> ns_transfer s \<noteq> 0) \<or> (i = 4 \<and> ns_revoked s \<noteq> 0) \<or> (i = 5 \<and> ns_claimed s \<noteq> 0) \<or>
     (i = 6 \<and> ns_renewals s \<noteq> 0) \<or> (i = 7 \<and> ns_registered s) \<or> (i = 8 \<and> ns_expired s) \<or> (i = 9 \<and> ns_weak s)"
  by (auto simp: name_state_field_def bit_set_field)

lemma name_state_field_mask_ok: "name_state_field s AND NOT name_state_field_mask = 0"
proof (rule bit_eqI)
  fix n
  have "name_state_field_mask = mask 10" by (simp add: name_state_field_mask_def mask_eq_exp_minus_1)
  then have "bit name_state_field_mask n \<longleftrightarrow> n < 10" unfolding \<open>_ = mask 10\<close> bit_mask_iff by auto
  then show "bit (name_state_field s AND NOT name_state_field_mask) n = bit 0 n"
    by (auto simp: bit_and_iff bit_not_iff name_state_field_bits)
qed

text \<open>An optional field contributes its bytes when present.\<close>

definition opt_bytes :: "bool \<Rightarrow> bytes \<Rightarrow> bytes" where
  "opt_bytes c bs = (if c then bs else [])"

lemma into_bytes_put_when [simp]:
  assumes "\<And>e. into_bytes (p e) = into_bytes e @ bs"
  shows "into_bytes (put_when c p e) = into_bytes e @ opt_bytes c bs"
  using assms by (simp add: put_when_def opt_bytes_def)

lemma opt_reads:
  assumes "c \<Longrightarrow> fits pre (bs @ suf) \<Longrightarrow> p (cursor pre (bs @ suf)) = Inr (v, cursor (pre @ bs) suf)"
    and "fits pre (opt_bytes c bs @ suf)" and "\<not> c \<Longrightarrow> v = dflt"
  shows "read_when c p dflt (cursor pre (opt_bytes c bs @ suf)) = Inr (v, cursor (pre @ opt_bytes c bs) suf)"
  using assms by (cases c) (simp_all add: read_when_def opt_bytes_def)

lemma read_safe_integer_run:
  assumes "v \<le> hsd_max_safe_integer" and "fits pre (compact_bytes v @ suf)"
  shows "read_safe_integer (cursor pre (compact_bytes v @ suf)) = Inr (v, cursor (pre @ compact_bytes v) suf)"
  using assms by (simp add: read_safe_integer_def dbind_run compact_reads validate_safe_integer_def)

lemma read_u32_compact_run:
  assumes "fits pre (compact_bytes (ucast v) @ suf)"
  shows "read_u32_compact reason (cursor pre (compact_bytes (ucast v) @ suf)) =
    Inr (v, cursor (pre @ compact_bytes (ucast v)) suf)"
  using assms by (simp add: read_u32_compact_def dbind_run compact_reads ucast_le_iff ucast_up_down)

definition owner_bytes :: "outpoint \<Rightarrow> bytes" where
  "owner_bytes op = op_hash op @ compact_bytes (ucast (op_index op))"

lemma read_owner_run:
  assumes "length (op_hash op) = 32" and "fits pre (owner_bytes op @ suf)"
  shows "read_owner (cursor pre (owner_bytes op @ suf)) = Inr (op, cursor (pre @ owner_bytes op) suf)"
  using assms by (simp add: read_owner_def owner_bytes_def dbind_run read_u32_compact_run)

lemma opt_runs:
  "fits pre (opt_bytes (h \<noteq> 0) (u32_to_le h) @ suf) \<Longrightarrow>
     read_when (h \<noteq> 0) (dlift CovDecode read_u32_le) 0 (cursor pre (opt_bytes (h \<noteq> 0) (u32_to_le h) @ suf)) =
       Inr (h, cursor (pre @ opt_bytes (h \<noteq> 0) (u32_to_le h)) suf)"
  "fits pre (opt_bytes (v \<noteq> 0) (compact_bytes v) @ suf) \<Longrightarrow> v \<le> hsd_max_safe_integer \<Longrightarrow>
     read_when (v \<noteq> 0) read_safe_integer 0 (cursor pre (opt_bytes (v \<noteq> 0) (compact_bytes v) @ suf)) =
       Inr (v, cursor (pre @ opt_bytes (v \<noteq> 0) (compact_bytes v)) suf)"
  "fits pre (opt_bytes (h \<noteq> 0) (compact_bytes (ucast h)) @ suf) \<Longrightarrow>
     read_when (h \<noteq> 0) (read_u32_compact reason) 0 (cursor pre (opt_bytes (h \<noteq> 0) (compact_bytes (ucast h)) @ suf)) =
       Inr (h, cursor (pre @ opt_bytes (h \<noteq> 0) (compact_bytes (ucast h))) suf)"
  "fits pre (opt_bytes (op \<noteq> outpoint_null) (owner_bytes op) @ suf) \<Longrightarrow> outpoint_ok op \<Longrightarrow>
     read_when (op \<noteq> outpoint_null) read_owner outpoint_null
       (cursor pre (opt_bytes (op \<noteq> outpoint_null) (owner_bytes op) @ suf)) =
       Inr (op, cursor (pre @ opt_bytes (op \<noteq> outpoint_null) (owner_bytes op)) suf)"
  by (intro opt_reads; simp add: read_safe_integer_run read_u32_compact_run read_owner_run outpoint_ok_def)+

section \<open>The codec\<close>

definition name_state_bytes :: "name_state \<Rightarrow> bytes" where
  "name_state_bytes s =
     word_of_nat (length (ns_name s)) # ns_name s @
     u16_to_le (word_of_nat (length (ns_resource_data s))) @ ns_resource_data s @
     u32_to_le (ns_height s) @ u32_to_le (ns_renewal s) @ u16_to_le (name_state_field s) @
     opt_bytes (ns_owner s \<noteq> outpoint_null) (owner_bytes (ns_owner s)) @
     opt_bytes (ns_value s \<noteq> 0) (compact_bytes (ns_value s)) @
     opt_bytes (ns_highest s \<noteq> 0) (compact_bytes (ns_highest s)) @
     opt_bytes (ns_transfer s \<noteq> 0) (u32_to_le (ns_transfer s)) @
     opt_bytes (ns_revoked s \<noteq> 0) (u32_to_le (ns_revoked s)) @
     opt_bytes (ns_claimed s \<noteq> 0) (u32_to_le (ns_claimed s)) @
     opt_bytes (ns_renewals s \<noteq> 0) (compact_bytes (ucast (ns_renewals s)))"

definition name_state_ok :: "(bytes \<Rightarrow> bytes) \<Rightarrow> name_state \<Rightarrow> bool" where
  "name_state_ok sha3 s \<longleftrightarrow>
     length (ns_name s) \<le> 63 \<and> length (ns_resource_data s) \<le> 512 \<and>
     ns_value s \<le> hsd_max_safe_integer \<and> ns_highest s \<le> hsd_max_safe_integer \<and>
     (\<not> name_state_is_null s \<longrightarrow> validate_name (ns_name s) \<and> sha3 (ns_name s) = ns_name_hash s)"

lemma name_state_encode_iff:
  "name_state_encode sha3 s = Inr bs \<longleftrightarrow> name_state_ok sha3 s \<and> bs = name_state_bytes s"
proof -
  have "into_bytes (put_seq [put_bytes (op_hash op), put_compact_size (ucast (op_index op))] e) =
      into_bytes e @ owner_bytes op" for op e
    by (simp add: owner_bytes_def)
  then have "encode_with
       [put_u8 (word_of_nat (length (ns_name s))), put_bytes (ns_name s),
        put_u16_le (word_of_nat (length (ns_resource_data s))), put_bytes (ns_resource_data s),
        put_u32_le (ns_height s), put_u32_le (ns_renewal s), put_u16_le (name_state_field s),
        put_when (\<not> outpoint_is_null (ns_owner s))
          (put_seq [put_bytes (op_hash (ns_owner s)), put_compact_size (ucast (op_index (ns_owner s)))]),
        put_when (ns_value s \<noteq> 0) (put_compact_size (ns_value s)),
        put_when (ns_highest s \<noteq> 0) (put_compact_size (ns_highest s)),
        put_when (ns_transfer s \<noteq> 0) (put_u32_le (ns_transfer s)),
        put_when (ns_revoked s \<noteq> 0) (put_u32_le (ns_revoked s)),
        put_when (ns_claimed s \<noteq> 0) (put_u32_le (ns_claimed s)),
        put_when (ns_renewals s \<noteq> 0) (put_compact_size (ucast (ns_renewals s)))] = name_state_bytes s"
    by (simp add: encode_with_def name_state_bytes_def)
  then show ?thesis
    unfolding name_state_encode_def
    by (auto simp: bind_res_eq_Inr name_state_ok_def validate_lengths_def validate_safe_integer_def
        validate_key_binding_def hash_name_def covenant_limits split: if_splits)
qed

lemma length_opt_bytes: "length (opt_bytes c bs) \<le> length bs"
  by (simp add: opt_bytes_def)

lemma length_name_state_bytes:
  assumes "name_state_ok sha3 s" and "outpoint_ok (ns_owner s)"
  shows "length (name_state_bytes s) \<le> 660"
proof -
  have c32: "length (compact_bytes (ucast (w::u32))) \<le> 5" for w
    using ucast_le_iff(2) [of w] by (simp add: length_compact_bytes)
  have own: "length (owner_bytes (ns_owner s)) \<le> 37"
    using c32 [of "op_index (ns_owner s)"] assms(2) by (simp add: owner_bytes_def outpoint_ok_def)
  have opt: "length (opt_bytes c bs) \<le> n" if "length bs \<le> n" for c bs n
    using le_trans [OF length_opt_bytes that] .
  have c64: "length (compact_bytes v) \<le> 9" for v by (simp add: length_compact_bytes)
  have u: "length (u32_to_le w) \<le> 4" for w by simp
  show ?thesis
    using assms(1) opt [OF own, of "ns_owner s \<noteq> outpoint_null"]
      opt [OF c64, of "ns_value s \<noteq> 0" "ns_value s"] opt [OF c64, of "ns_highest s \<noteq> 0" "ns_highest s"]
      opt [OF u, of "ns_transfer s \<noteq> 0" "ns_transfer s"] opt [OF u, of "ns_revoked s \<noteq> 0" "ns_revoked s"]
      opt [OF u, of "ns_claimed s \<noteq> 0" "ns_claimed s"] opt [OF c32, of "ns_renewals s \<noteq> 0" "ns_renewals s"]
    by (simp add: name_state_ok_def name_state_bytes_def)
qed

lemma read_name_state_run:
  assumes ok: "name_state_ok sha3 s" and own: "outpoint_ok (ns_owner s)"
    and fit: "fits pre (name_state_bytes s @ suf)"
  shows "read_name_state (ns_name_hash s) (cursor pre (name_state_bytes s @ suf)) =
    Inr (s, cursor (pre @ name_state_bytes s) suf)"
proof -
  have lens: "unat (word_of_nat (length (ns_name s)) :: byte) = length (ns_name s)"
    "unat (word_of_nat (length (ns_resource_data s)) :: u16) = length (ns_resource_data s)"
    using ok by (simp_all add: name_state_ok_def unat_of_nat)
  have bits: "field_set (name_state_field s) 0 \<longleftrightarrow> ns_owner s \<noteq> outpoint_null"
    "field_set (name_state_field s) 1 \<longleftrightarrow> ns_value s \<noteq> 0"
    "field_set (name_state_field s) (Suc 0) \<longleftrightarrow> ns_value s \<noteq> 0"
    "field_set (name_state_field s) 2 \<longleftrightarrow> ns_highest s \<noteq> 0"
    "field_set (name_state_field s) 3 \<longleftrightarrow> ns_transfer s \<noteq> 0"
    "field_set (name_state_field s) 4 \<longleftrightarrow> ns_revoked s \<noteq> 0"
    "field_set (name_state_field s) 5 \<longleftrightarrow> ns_claimed s \<noteq> 0"
    "field_set (name_state_field s) 6 \<longleftrightarrow> ns_renewals s \<noteq> 0"
    "field_set (name_state_field s) 7 \<longleftrightarrow> ns_registered s"
    "field_set (name_state_field s) 8 \<longleftrightarrow> ns_expired s"
    "field_set (name_state_field s) 9 \<longleftrightarrow> ns_weak s"
    by (simp_all add: field_set_bit name_state_field_bits)
  show ?thesis
    using ok own fit lens opt_runs(3) [where suf = "[]"]
    by (simp add: read_name_state_def name_state_bytes_def dbind_run name_state_ok_def covenant_limits
        name_state_field_mask_ok bits opt_runs)
qed

lemma read_name_state_sel:
  assumes "read_name_state key d = Inr (s, d')"
  shows "ns_name_hash s = key" and "outpoint_ok (ns_owner s)"
proof -
  have "outpoint_ok op" if "read_when c read_owner outpoint_null d = Inr (op, d')" for c d op d'
    using that by (auto simp: read_when_def read_owner_def dbind_eq_Inr outpoint_ok_def outpoint_null_def
        dest!: read_array_length split: if_splits)
  then show "ns_name_hash s = key" "outpoint_ok (ns_owner s)"
    using assms by (auto simp: read_name_state_def dbind_eq_Inr split: if_splits)
qed

text \<open>
  The strict name-state decoder accepts under a tree key exactly the values whose name
  state encodes to them, and that state is bound to the key. So every encodable state
  round-trips, every accepted value is canonical, and the size limit never rejects an
  encodable state (the longest encoding has 660 bytes).
\<close>

theorem name_state_codec_exact:
  "name_state_decode sha3 key input = Inr s \<longleftrightarrow>
     ns_name_hash s = key \<and> outpoint_ok (ns_owner s) \<and> name_state_encode sha3 s = Inr input"
proof (intro iffI; (elim conjE)?)
  assume dec: "name_state_decode sha3 key input = Inr s"
  then obtain d where rd: "read_name_state key (decoder_new input) = Inr (s, d)"
    and enc: "name_state_encode sha3 s = Inr input"
    by (auto simp: name_state_decode_def bind_res_eq_Inr split: if_splits)
  with read_name_state_sel [OF rd] show "ns_name_hash s = key \<and> outpoint_ok (ns_owner s) \<and>
      name_state_encode sha3 s = Inr input"
    by simp
next
  assume key: "ns_name_hash s = key" and own: "outpoint_ok (ns_owner s)"
    and enc: "name_state_encode sha3 s = Inr input"
  from enc have ok: "name_state_ok sha3 s" and input: "input = name_state_bytes s"
    by (simp_all add: name_state_encode_iff)
  have len: "length input \<le> 660" unfolding input by (rule length_name_state_bytes [OF ok own])
  then have "fits [] (name_state_bytes s @ [])" by (simp add: fits_def input usize_max_def)
  from read_name_state_run [OF ok own this] have "read_name_state key (decoder_new input) = Inr (s, cursor input [])"
    by (simp add: decoder_new_cursor input key)
  moreover have "validate_key_binding sha3 s = Inr ()"
    using ok by (auto simp: name_state_ok_def validate_key_binding_def hash_name_def)
  ultimately show "name_state_decode sha3 key input = Inr s"
    using len enc by (simp add: name_state_decode_def max_name_state_size_def)
qed

end
