(* ===== verification/Resource.thy ===== *)
theory Resource
  imports NameState
begin

text \<open>
  Model of \<^verbatim>\<open>crates/hns-covenants/src/resource.rs\<close>: HSD's version-zero resource records with
  compressed DNS names. The loop over one name and the loop over the records are
  functions with termination proofs: a name step either adds a label, which the limit of
  255 bytes bounds, or follows one of at most ten pointers; a record consumes its tag byte.
\<close>

section \<open>Records\<close>

datatype resource_record =
    Ds u16 byte byte bytes
  | Ns "bytes list"
  | Glue4 "bytes list" bytes
  | Glue6 "bytes list" bytes
  | Synth4 bytes
  | Synth6 bytes
  | Txt "bytes list"

fun record_kind :: "resource_record \<Rightarrow> byte" where
  "record_kind (Ds _ _ _ _) = 0"
| "record_kind (Ns _) = 1"
| "record_kind (Glue4 _ _) = 2"
| "record_kind (Glue6 _ _) = 3"
| "record_kind (Synth4 _) = 4"
| "record_kind (Synth6 _) = 5"
| "record_kind (Txt _) = 6"

definition name_is_root :: "bytes list \<Rightarrow> bool" where
  "name_is_root labels \<longleftrightarrow> labels = []"

record resource =
  res_raw :: bytes
  res_records :: "resource_record list"

definition max_dns_name_size :: nat where "max_dns_name_size = 255"
definition max_dns_pointers :: nat where "max_dns_pointers = 10"

section \<open>Compressed names\<close>

function decode_name_loop ::
  "bytes \<Rightarrow> bool list \<Rightarrow> nat \<Rightarrow> nat option \<Rightarrow> bytes list \<Rightarrow> nat list \<Rightarrow> bool list \<Rightarrow> nat \<Rightarrow> nat \<Rightarrow>
   covenant_error + bytes list \<times> nat list \<times> nat option" where
  "decode_name_loop raw known position encoded_end labels literals followed pointers expanded =
     (case get raw position of
        None \<Rightarrow> Inl (InvalidResource ''truncated DNS name'')
      | Some len \<Rightarrow>
        if len AND 0xc0 = 0 then
          if len = 0 then
            Inr (labels, literals, if encoded_end = None then checked_add_usize position 1 else encoded_end)
          else if len > 63 then Inl (InvalidResource ''DNS label exceeds 63 bytes'')
          else
            bind_res (ok_or (checked_add_usize position 1) (InvalidResource ''DNS name offset overflow'')) (\<lambda>label_start.
            bind_res (ok_or (checked_add_usize label_start (unat len)) (InvalidResource ''DNS name offset overflow'')) (\<lambda>label_end.
            bind_res (ok_or (get_range raw label_start label_end) (InvalidResource ''truncated DNS label'')) (\<lambda>label.
            bind_res (ok_or (checked_add_usize expanded (1 + length label)) (InvalidResource ''DNS name size overflow'')) (\<lambda>expanded'.
              if expanded' > max_dns_name_size
              then Inl (InvalidResource ''DNS name exceeds 255 wire bytes'')
              else decode_name_loop raw known label_end encoded_end (labels @ [label])
                     (literals @ [position]) followed pointers expanded'))))
        else if len AND 0xc0 = 0xc0 then
          (case get raw (position + 1) of
             None \<Rightarrow> Inl (InvalidResource ''truncated DNS compression pointer'')
           | Some low \<Rightarrow>
             let target = push_bit 8 (unat (len AND 0x3f)) OR unat low in
             if target \<ge> position \<or> target \<ge> length raw \<or> get known target \<noteq> Some True
             then Inl (InvalidResource ''DNS compression pointer is not a prior label'')
             else if followed ! target \<or> pointers \<ge> max_dns_pointers
             then Inl (InvalidResource ''DNS compression pointer loop or depth overflow'')
             else decode_name_loop raw known target
                    (if encoded_end = None then checked_add_usize position 2 else encoded_end)
                    labels literals (followed[target := True]) (pointers + 1) expanded)
        else Inl (InvalidResource ''invalid DNS label prefix''))"
  by pat_completeness auto

termination
  by (relation "measure (\<lambda>(raw, known, position, encoded_end, labels, literals, followed, pointers, expanded).
        (max_dns_pointers - pointers) + (max_dns_name_size - expanded))")
    (auto simp: checked_add_usize_def split: if_splits)

definition decode_name :: "bytes \<Rightarrow> bool list \<Rightarrow> (covenant_error, bytes list \<times> bool list) reader" where
  "decode_name raw known =
     dbind decoder_position (\<lambda>start.
     dbind (dcheck (decode_name_loop raw known start None [] [] (replicate max_resource_size False) 0 1))
       (\<lambda>(labels, literals, encoded_end).
     dbind (dcheck (ok_or encoded_end (InvalidResource ''DNS name has no encoded end''))) (\<lambda>encoded_end.
     dbind (dcheck (ok_or (checked_sub_usize encoded_end start) (InvalidResource ''DNS name offset underflow''))) (\<lambda>consumed.
     dbind (dlift CovDecode (read_slice consumed)) (\<lambda>_.
       dreturn (labels, foldl (\<lambda>k offset. k[offset := True]) known literals))))))"

section \<open>The record loop\<close>

definition read_txt_string :: "(covenant_error, bytes) reader" where
  "read_txt_string =
     dbind (dlift CovDecode read_u8) (\<lambda>len. dlift CovDecode (read_bounded_vec (unat len) 255))"

text \<open>The arms of the match on the tag byte.\<close>

definition decode_record_body ::
  "bytes \<Rightarrow> bool list \<Rightarrow> byte \<Rightarrow> (covenant_error, resource_record \<times> bool list) reader" where
  "decode_record_body raw known kind =
     (if kind = 0 then
        dbind (dlift CovDecode (read_array 2)) (\<lambda>key_tag.
        dbind (dlift CovDecode read_u8) (\<lambda>algorithm.
        dbind (dlift CovDecode read_u8) (\<lambda>digest_type.
        dbind (dlift CovDecode read_u8) (\<lambda>digest_length.
        dbind (dlift CovDecode (read_bounded_vec (unat digest_length) 255)) (\<lambda>digest.
          dreturn (Ds (u16_of_be key_tag) algorithm digest_type digest, known))))))
      else if kind = 1 then
        dbind (decode_name raw known) (\<lambda>(name_server, known'). dreturn (Ns name_server, known'))
      else if kind = 2 then
        dbind (decode_name raw known) (\<lambda>(name_server, known').
        dbind (dlift CovDecode (read_array 4)) (\<lambda>address. dreturn (Glue4 name_server address, known')))
      else if kind = 3 then
        dbind (decode_name raw known) (\<lambda>(name_server, known').
        dbind (dlift CovDecode (read_array 16)) (\<lambda>address. dreturn (Glue6 name_server address, known')))
      else if kind = 4 then
        dbind (dlift CovDecode (read_array 4)) (\<lambda>address. dreturn (Synth4 address, known))
      else if kind = 5 then
        dbind (dlift CovDecode (read_array 16)) (\<lambda>address. dreturn (Synth6 address, known))
      else if kind = 6 then
        dbind (dlift CovDecode read_u8) (\<lambda>count.
        dbind (read_times (unat count) read_txt_string) (\<lambda>strings. dreturn (Txt strings, known)))
      else derror (UnsupportedResourceRecord kind))"

definition decode_record :: "bytes \<Rightarrow> bool list \<Rightarrow> (covenant_error, resource_record \<times> bool list) reader" where
  "decode_record raw known =
     dbind (dlift CovDecode read_u8) (\<lambda>kind. decode_record_body raw known kind)"

lemma advances_decode_name [progress]: "advances (decode_name raw known)"
  by (auto simp: decode_name_def intro!: progress split: prod.split)

lemma advances_txt [progress]: "advances read_txt_string"
  by (auto simp: read_txt_string_def intro!: progress)

lemma advances_decode_record_body [progress]: "advances (decode_record_body raw known kind)"
  by (auto simp: decode_record_body_def intro!: progress split: prod.split)

lemma decode_record_progress:
  assumes "decode_record raw known d = Inr (r, d')"
  shows "dec_input d' = dec_input d \<and> dec_position d < dec_position d' \<and> decoder_remaining d' < decoder_remaining d"
proof -
  from assms obtain kind d1 where tag: "read_u8 d = Inr (kind, d1)"
    and body: "decode_record_body raw known kind d1 = Inr (r, d')"
    by (auto simp: decode_record_def dbind_eq_Inr)
  from advancesD [OF advances_decode_record_body body] read_u8_progress [OF tag]
  show ?thesis by (auto simp: decoder_remaining_def)
qed

function decode_records_loop ::
  "bytes \<Rightarrow> bool list \<Rightarrow> decoder \<Rightarrow> covenant_error + resource_record list \<times> decoder" where
  "decode_records_loop raw known d =
     (if decoder_remaining d = 0 then Inr ([], d)
      else bind_res (decode_record raw known d) (\<lambda>x.
           bind_res (decode_records_loop raw (snd (fst x)) (snd x)) (\<lambda>(rs, d'').
             Inr (fst (fst x) # rs, d''))))"
  by pat_completeness auto

termination
  by (relation "measure (\<lambda>(raw, known, d). decoder_remaining d)")
    (auto dest: decode_record_progress)

declare decode_name_loop.simps [simp del] decode_records_loop.simps [simp del]

definition decode_records :: "bytes \<Rightarrow> covenant_error + resource_record list" where
  "decode_records raw =
     (if length raw > max_resource_size then Inl (TooLarge (length raw) max_resource_size)
      else bind_res (map_err CovDecode (read_u8 (decoder_new raw))) (\<lambda>(version, d).
        if version \<noteq> 0 then Inl UnsupportedResourceVersion
        else bind_res (decode_records_loop raw (replicate max_resource_size False) d) (\<lambda>(records, d').
             bind_res (map_err CovDecode (decoder_finish d')) (\<lambda>_. Inr records))))"

definition resource_new :: "bytes \<Rightarrow> covenant_error + resource" where
  "resource_new raw =
     bind_res (decode_records raw) (\<lambda>records. Inr \<lparr>res_raw = raw, res_records = records\<rparr>)"

definition resource_decode :: "bytes \<Rightarrow> covenant_error + resource" where
  "resource_decode raw =
     (if length raw > max_resource_size then Inl (TooLarge (length raw) max_resource_size)
      else resource_new raw)"

definition resource_encode :: "resource \<Rightarrow> bytes" where
  "resource_encode r = res_raw r"

definition name_state_resource :: "name_state \<Rightarrow> covenant_error + resource option" where
  "name_state_resource s =
     (if ns_resource_data s = [] then Inr None
      else bind_res (resource_decode (ns_resource_data s)) (\<lambda>r. Inr (Some r)))"

section \<open>DNS limits\<close>

definition dns_name_size :: "bytes list \<Rightarrow> nat" where
  "dns_name_size labels = 1 + sum_list (map (\<lambda>l. 1 + length l) labels)"

definition dns_name_ok :: "bytes list \<Rightarrow> bool" where
  "dns_name_ok labels \<longleftrightarrow> list_all (\<lambda>l. 1 \<le> length l \<and> length l \<le> 63) labels \<and> dns_name_size labels \<le> 255"

fun record_ok :: "resource_record \<Rightarrow> bool" where
  "record_ok (Ds _ _ _ digest) = (length digest \<le> 255)"
| "record_ok (Ns name) = dns_name_ok name"
| "record_ok (Glue4 name address) = (dns_name_ok name \<and> length address = 4)"
| "record_ok (Glue6 name address) = (dns_name_ok name \<and> length address = 16)"
| "record_ok (Synth4 address) = (length address = 4)"
| "record_ok (Synth6 address) = (length address = 16)"
| "record_ok (Txt strings) = (length strings \<le> 255 \<and> list_all (\<lambda>s. length s \<le> 255) strings)"

lemma get_range_length: "get_range xs i j = Some ys \<Longrightarrow> length ys = j - i"
  by (auto simp: get_range_def split: if_splits)

lemma decode_name_loop_ok:
  assumes "decode_name_loop raw known position encoded_end labels literals followed pointers expanded =
      Inr (labels', literals', encoded_end')"
    and "dns_name_ok labels" and "dns_name_size labels = expanded"
  shows "dns_name_ok labels'"
  using assms
proof (induction raw known position encoded_end labels literals followed pointers expanded
    rule: decode_name_loop.induct)
  case (1 raw known position encoded_end labels literals followed pointers expanded)
  note prems = "1.prems"(1) [unfolded decode_name_loop.simps [of raw known position]]
  obtain len where len: "get raw position = Some len" using prems by (auto split: option.splits)
  consider (root) "len AND 0xc0 = 0" "len = 0"
    | (label) "len AND 0xc0 = 0" "len \<noteq> 0" "\<not> len > 63"
    | (pointer) "len AND 0xc0 \<noteq> 0" "len AND 0xc0 = 0xc0"
    using prems len by (auto split: if_splits)
  then show ?case
  proof cases
    case root
    then show ?thesis using prems len "1.prems" by simp
  next
    case label
    then obtain ls le lab ex where 2: "checked_add_usize position 1 = Some ls"
      "checked_add_usize ls (unat len) = Some le" "get_range raw ls le = Some lab"
      "checked_add_usize expanded (1 + length lab) = Some ex" "\<not> ex > max_dns_name_size"
      and run: "decode_name_loop raw known le encoded_end (labels @ [lab]) (literals @ [position]) followed pointers ex =
        Inr (labels', literals', encoded_end')"
      using prems len by (auto simp: bind_res_eq_Inr split: if_splits)
    have "length lab = unat len" using 2 get_range_length [OF 2(3)] by (auto simp: checked_add_usize_def split: if_splits)
    moreover have "1 \<le> unat len" "unat len \<le> 63"
      using label by (auto simp: word_less_nat_alt unat_gt_0 Suc_le_eq)
    moreover have "ex = expanded + (1 + length lab)" using 2 by (auto simp: checked_add_usize_def split: if_splits)
    ultimately have "dns_name_ok (labels @ [lab])" "dns_name_size (labels @ [lab]) = ex"
      using "1.prems" 2(5) by (auto simp: dns_name_ok_def dns_name_size_def max_dns_name_size_def)
    with "1.IH"(1) [OF len label _ _ _ _ 2(5) run] 2 show ?thesis by simp
  next
    case pointer
    then obtain low where low: "get raw (position + 1) = Some low" using prems len by (auto split: option.splits)
    define target where "target = push_bit 8 (unat (len AND 0x3f)) OR unat low"
    have ok: "\<not> (target \<ge> position \<or> target \<ge> length raw \<or> get known target \<noteq> Some True)"
      "\<not> (followed ! target \<or> pointers \<ge> max_dns_pointers)"
      and run: "decode_name_loop raw known target (if encoded_end = None then checked_add_usize position 2 else encoded_end)
        labels literals (followed[target := True]) (pointers + 1) expanded = Inr (labels', literals', encoded_end')"
      using prems len pointer low by (auto simp: Let_def target_def [symmetric] split: if_splits)
    from "1.IH"(2) [OF len pointer low refl, folded target_def, OF ok run] "1.prems" show ?thesis by simp
  qed
qed

lemma decode_name_ok:
  assumes "decode_name raw known d = Inr ((labels, known'), d')"
  shows "dns_name_ok labels"
proof -
  from assms obtain literals encoded_end where
    "decode_name_loop raw known (dec_position d) None [] [] (replicate max_resource_size False) 0 1 =
      Inr (labels, literals, encoded_end)"
    by (auto simp: decode_name_def dbind_eq_Inr bind_res_eq_Inr)
  from decode_name_loop_ok [OF this] show ?thesis by (simp add: dns_name_ok_def dns_name_size_def)
qed

lemma read_bounded_vec_length:
  "read_bounded_vec n m d = Inr (bs, d') \<Longrightarrow> length bs = n \<and> n \<le> m"
  using read_array_length [of n d bs d'] by (auto simp: read_bounded_vec_def read_array_def split: if_splits)

lemma read_txt_strings_ok:
  "read_times n read_txt_string d = Inr (strings, d') \<Longrightarrow> length strings = n \<and> list_all (\<lambda>s. length s \<le> 255) strings"
  by (induction n arbitrary: d strings d')
    (auto simp: dbind_eq_Inr read_txt_string_def dest!: read_bounded_vec_length)

lemma decode_record_ok:
  assumes "decode_record raw known d = Inr ((r, known'), d')"
  shows "record_ok r"
proof -
  from assms obtain kind d1 where "decode_record_body raw known kind d1 = Inr ((r, known'), d')"
    by (auto simp: decode_record_def dbind_eq_Inr)
  moreover have "unat b \<le> 255" for b :: byte using unat_byte_less [of b] by simp
  ultimately show ?thesis
    by (auto simp: decode_record_body_def dbind_eq_Inr split: if_splits
        dest!: decode_name_ok read_array_length read_bounded_vec_length read_txt_strings_ok)
qed

lemma decode_records_loop_ok:
  "decode_records_loop raw known d = Inr (rs, d') \<Longrightarrow>
     list_all record_ok rs \<and> length rs + decoder_remaining d' \<le> decoder_remaining d"
proof (induction raw known d arbitrary: rs d' rule: decode_records_loop.induct)
  case (1 raw known d)
  show ?case
  proof (cases "decoder_remaining d = 0")
    case True
    then show ?thesis using "1.prems" by (simp add: decode_records_loop.simps [of raw known d])
  next
    case False
    then obtain r known' d1 rs1 where 2: "decode_record raw known d = Inr ((r, known'), d1)"
      and 3: "decode_records_loop raw known' d1 = Inr (rs1, d')" and rs: "rs = r # rs1"
      using "1.prems" by (auto simp: decode_records_loop.simps [of raw known d] bind_res_eq_Inr)
    from "1.IH" [OF False 2] 3 have "list_all record_ok rs1" "length rs1 + decoder_remaining d' \<le> decoder_remaining d1"
      by auto
    with decode_record_ok [OF 2] decode_record_progress [OF 2] rs show ?thesis by simp
  qed
qed

text \<open>
  C39: resource decoding is total, keeps the exact input, and every name it returns respects
  the DNS limits: labels of 1 to 63 bytes and at most 255 bytes in wire form, whatever
  compression pointers the input holds. Addresses have their exact widths and the number of
  records is below the number of bytes.
\<close>

theorem resource_decode_bounds:
  assumes "resource_decode raw = Inr r"
  shows "res_raw r = raw \<and> length raw \<le> 512 \<and> list_all record_ok (res_records r) \<and>
    length (res_records r) < length raw"
proof -
  from assms obtain v d records d' where len: "length raw \<le> 512"
    and u8: "read_u8 (decoder_new raw) = Inr (v, d)"
    and loop: "decode_records_loop raw (replicate max_resource_size False) d = Inr (records, d')"
    and r: "r = \<lparr>res_raw = raw, res_records = records\<rparr>"
    by (auto simp: resource_decode_def resource_new_def decode_records_def max_resource_size_def bind_res_eq_Inr
        split: if_splits)
  have "decoder_remaining d < length raw"
    using read_u8_progress [OF u8] by (simp add: decoder_remaining_def decoder_new_def)
  with decode_records_loop_ok [OF loop] len r show ?thesis by simp
qed

theorem resource_decode_bounds_witness:
  "list_all record_ok (res_records \<lparr>res_raw = [0, 1, 3, 0x66, 0x6f, 0x6f, 0, 1, 0xc0, 2],
     res_records = [Ns [[0x66, 0x6f, 0x6f]], Ns [[0x66, 0x6f, 0x6f]]]\<rparr>)"
proof -
  have "resource_decode [0, 1, 3, 0x66, 0x6f, 0x6f, 0, 1, 0xc0, 2] =
      Inr \<lparr>res_raw = [0, 1, 3, 0x66, 0x6f, 0x6f, 0, 1, 0xc0, 2],
        res_records = [Ns [[0x66, 0x6f, 0x6f]], Ns [[0x66, 0x6f, 0x6f]]]\<rparr>"
    by (simp add: resource_decode_def resource_new_def decode_records_def covenant_limits reader_eval
        decode_records_loop.simps decode_record_def decode_record_body_def decode_name_def
        decode_name_loop.simps get_def get_range_def checked_sub_usize_def max_dns_name_size_def max_dns_pointers_def)
      (simp add: nth_list_update numeral_2_eq_2)
  from resource_decode_bounds [OF this] show ?thesis by blast
qed

end
