(* ===== verification/NameTransition.thy ===== *)
theory NameTransition
  imports NameState
begin

text \<open>
  Model of \<^verbatim>\<open>crates/hns-covenants/src/name_transition.rs\<close>: the typed TRANSFER and FINALIZE
  covenants, their construction, validation and strict parsing.
\<close>

section \<open>TRANSFER\<close>

record transfer_covenant =
  tc_name_hash :: hash32
  tc_start_height :: height
  tc_recipient_version :: byte
  tc_recipient_hash :: bytes

definition transfer_validate :: "transfer_covenant \<Rightarrow> covenant_error + unit" where
  "transfer_validate t =
     (if tc_recipient_version t > 31
      then Inl (InvalidTransferCovenant ''recipient version exceeds 31'')
      else if \<not> (2 \<le> length (tc_recipient_hash t) \<and> length (tc_recipient_hash t) \<le> 40)
      then Inl (InvalidTransferCovenant ''recipient hash length is outside 2..=40'')
      else Inr ())"

definition transfer_new :: "hash32 \<Rightarrow> height \<Rightarrow> byte \<Rightarrow> bytes \<Rightarrow> covenant_error + transfer_covenant" where
  "transfer_new name_hash start_height recipient_version recipient_hash =
     (let t = \<lparr>tc_name_hash = name_hash, tc_start_height = start_height,
        tc_recipient_version = recipient_version, tc_recipient_hash = recipient_hash\<rparr>
      in bind_res (transfer_validate t) (\<lambda>_. Inr t))"

definition transfer_to_covenant :: "transfer_covenant \<Rightarrow> covenant_error + covenant" where
  "transfer_to_covenant t =
     bind_res (transfer_validate t) (\<lambda>_. Inr \<lparr>cov_kind = Transfer, cov_items =
       [tc_name_hash t, u32_to_le (tc_start_height t), [tc_recipient_version t], tc_recipient_hash t]\<rparr>)"

definition transfer_try_from :: "covenant \<Rightarrow> covenant_error + transfer_covenant" where
  "transfer_try_from c =
     (if cov_kind c \<noteq> Transfer then Inl (InvalidTransferCovenant ''covenant kind is not TRANSFER'')
      else case cov_items c of
        [name_hash, start_height, recipient_version, recipient_hash] \<Rightarrow>
          if length recipient_version \<noteq> 1
          then Inl (InvalidTransferCovenant ''recipient version is not one byte'')
          else if \<not> (2 \<le> length recipient_hash \<and> length recipient_hash \<le> 40)
          then Inl (InvalidTransferCovenant ''recipient hash length is outside 2..=40'')
          else
            bind_res (ok_or (as_array 32 name_hash) (InvalidTransferCovenant ''name hash is not 32 bytes'')) (\<lambda>nh.
            bind_res (ok_or (as_array 4 start_height) (InvalidTransferCovenant ''start height is not four bytes'')) (\<lambda>sh.
            let t = \<lparr>tc_name_hash = nh, tc_start_height = u32_of_le sh,
              tc_recipient_version = recipient_version ! 0, tc_recipient_hash = recipient_hash\<rparr>
            in bind_res (transfer_validate t) (\<lambda>_. Inr t)))
      | _ \<Rightarrow> Inl (InvalidTransferCovenant ''expected exactly four items''))"

section \<open>FINALIZE\<close>

record finalize_covenant =
  fc_name_hash :: hash32
  fc_start_height :: height
  fc_name :: bytes
  fc_flags :: byte
  fc_claimed :: height
  fc_renewals :: u32
  fc_renewal_block :: hash32

definition finalize_validate :: "(bytes \<Rightarrow> bytes) \<Rightarrow> finalize_covenant \<Rightarrow> covenant_error + unit" where
  "finalize_validate sha3 f =
     (if \<not> validate_name (fc_name f) then Inl InvalidName
      else bind_res (hash_name sha3 (fc_name f)) (\<lambda>h.
        if h \<noteq> fc_name_hash f then Inl FinalizeNameHashMismatch else Inr ()))"

definition finalize_new ::
  "(bytes \<Rightarrow> bytes) \<Rightarrow> bytes \<Rightarrow> height \<Rightarrow> bool \<Rightarrow> height \<Rightarrow> u32 \<Rightarrow> hash32 \<Rightarrow> covenant_error + finalize_covenant" where
  "finalize_new sha3 name start_height weak claimed renewals renewal_block =
     bind_res (hash_name sha3 name) (\<lambda>name_hash.
       let f = \<lparr>fc_name_hash = name_hash, fc_start_height = start_height, fc_name = name,
         fc_flags = of_bool weak, fc_claimed = claimed, fc_renewals = renewals,
         fc_renewal_block = renewal_block\<rparr>
       in bind_res (finalize_validate sha3 f) (\<lambda>_. Inr f))"

definition finalize_from_name_state ::
  "(bytes \<Rightarrow> bytes) \<Rightarrow> name_state \<Rightarrow> hash32 \<Rightarrow> covenant_error + finalize_covenant" where
  "finalize_from_name_state sha3 s renewal_block =
     (if name_state_is_null s then Inl (InvalidFinalizeCovenant ''name state is null'')
      else bind_res (validate_key_binding sha3 s) (\<lambda>_.
        let f = \<lparr>fc_name_hash = ns_name_hash s, fc_start_height = ns_height s, fc_name = ns_name s,
          fc_flags = of_bool (ns_weak s), fc_claimed = ns_claimed s, fc_renewals = ns_renewals s,
          fc_renewal_block = renewal_block\<rparr>
        in bind_res (finalize_validate sha3 f) (\<lambda>_. Inr f)))"

definition finalize_weak :: "finalize_covenant \<Rightarrow> bool" where
  "finalize_weak f \<longleftrightarrow> fc_flags f AND 1 \<noteq> 0"

definition finalize_to_covenant :: "(bytes \<Rightarrow> bytes) \<Rightarrow> finalize_covenant \<Rightarrow> covenant_error + covenant" where
  "finalize_to_covenant sha3 f =
     bind_res (finalize_validate sha3 f) (\<lambda>_. Inr \<lparr>cov_kind = Finalize, cov_items =
       [fc_name_hash f, u32_to_le (fc_start_height f), fc_name f, [fc_flags f],
        u32_to_le (fc_claimed f), u32_to_le (fc_renewals f), fc_renewal_block f]\<rparr>)"

definition finalize_try_from :: "(bytes \<Rightarrow> bytes) \<Rightarrow> covenant \<Rightarrow> covenant_error + finalize_covenant" where
  "finalize_try_from sha3 c =
     (if cov_kind c \<noteq> Finalize then Inl (InvalidFinalizeCovenant ''covenant kind is not FINALIZE'')
      else case cov_items c of
        [name_hash, start_height, name, flags, claimed, renewals, renewal_block] \<Rightarrow>
          if length flags \<noteq> 1 then Inl (InvalidFinalizeCovenant ''flags field is not one byte'')
          else if \<not> validate_name name then Inl InvalidName
          else
            bind_res (ok_or (as_array 32 name_hash) (InvalidFinalizeCovenant ''name hash is not 32 bytes'')) (\<lambda>parsed.
            bind_res (hash_name sha3 name) (\<lambda>h.
            if h \<noteq> parsed then Inl FinalizeNameHashMismatch
            else
            bind_res (ok_or (as_array 4 start_height) (InvalidFinalizeCovenant ''start height is not four bytes'')) (\<lambda>sh.
            bind_res (ok_or (as_array 4 claimed) (InvalidFinalizeCovenant ''claim height is not four bytes'')) (\<lambda>cl.
            bind_res (ok_or (as_array 4 renewals) (InvalidFinalizeCovenant ''renewal count is not four bytes'')) (\<lambda>rn.
            bind_res (ok_or (as_array 32 renewal_block) (InvalidFinalizeCovenant ''renewal block hash is not 32 bytes'')) (\<lambda>rb.
            let f = \<lparr>fc_name_hash = parsed, fc_start_height = u32_of_le sh, fc_name = name,
              fc_flags = flags ! 0, fc_claimed = u32_of_le cl, fc_renewals = u32_of_le rn,
              fc_renewal_block = rb\<rparr>
            in bind_res (finalize_validate sha3 f) (\<lambda>_. Inr f)))))))
      | _ \<Rightarrow> Inl (InvalidFinalizeCovenant ''expected exactly seven items''))"

section \<open>Strict parsing inverts construction\<close>

lemma list_4_cases:
  "(case xs of [a, b, c, d] \<Rightarrow> f a b c d | _ \<Rightarrow> z) = y \<longleftrightarrow>
     (\<exists>a b c d. xs = [a, b, c, d] \<and> f a b c d = y) \<or> (\<nexists>a b c d. xs = [a, b, c, d]) \<and> z = y"
  by (auto split: list.splits)

lemma list_7_cases:
  "(case xs of [a, b, c, d, e, g, h] \<Rightarrow> f a b c d e g h | _ \<Rightarrow> z) = y \<longleftrightarrow>
     (\<exists>a b c d e g h. xs = [a, b, c, d, e, g, h] \<and> f a b c d e g h = y) \<or>
     (\<nexists>a b c d e g h. xs = [a, b, c, d, e, g, h]) \<and> z = y"
  by (auto split: list.splits)

lemma finalize_validate_iff:
  "finalize_validate sha3 f = Inr u \<longleftrightarrow> validate_name (fc_name f) \<and> sha3 (fc_name f) = fc_name_hash f"
  by (auto simp: finalize_validate_def hash_name_def)

lemma transfer_parse_iff:
  "transfer_try_from c = Inr t \<longleftrightarrow> length (tc_name_hash t) = 32 \<and> transfer_to_covenant t = Inr c"
proof
  assume "transfer_try_from c = Inr t"
  then show "length (tc_name_hash t) = 32 \<and> transfer_to_covenant t = Inr c"
    by (cases c) (auto simp: transfer_try_from_def transfer_to_covenant_def list_4_cases bind_res_eq_Inr
        Let_def length_Suc_conv split: if_splits)
next
  assume "length (tc_name_hash t) = 32 \<and> transfer_to_covenant t = Inr c"
  then show "transfer_try_from c = Inr t"
    by (auto simp: transfer_try_from_def transfer_to_covenant_def bind_res_eq_Inr transfer_validate_def
        Let_def split: if_splits)
qed

lemma finalize_parse_iff:
  "finalize_try_from sha3 c = Inr f \<longleftrightarrow>
     length (fc_name_hash f) = 32 \<and> length (fc_renewal_block f) = 32 \<and>
     validate_name (fc_name f) \<and> sha3 (fc_name f) = fc_name_hash f \<and>
     finalize_to_covenant sha3 f = Inr c"
proof
  assume "finalize_try_from sha3 c = Inr f"
  then show "length (fc_name_hash f) = 32 \<and> length (fc_renewal_block f) = 32 \<and>
     validate_name (fc_name f) \<and> sha3 (fc_name f) = fc_name_hash f \<and> finalize_to_covenant sha3 f = Inr c"
    by (cases c) (auto simp: finalize_try_from_def finalize_to_covenant_def list_7_cases bind_res_eq_Inr
        finalize_validate_iff hash_name_def Let_def length_Suc_conv split: if_splits)
next
  assume "length (fc_name_hash f) = 32 \<and> length (fc_renewal_block f) = 32 \<and>
     validate_name (fc_name f) \<and> sha3 (fc_name f) = fc_name_hash f \<and> finalize_to_covenant sha3 f = Inr c"
  then show "finalize_try_from sha3 c = Inr f"
    by (auto simp: finalize_try_from_def finalize_to_covenant_def bind_res_eq_Inr finalize_validate_iff
        finalize_validate_def hash_name_def Let_def split: if_splits)
qed

text \<open>
  Parsing a TRANSFER covenant is the inverse of building one: a covenant parses to a
  transfer exactly when that transfer is valid and builds that covenant.
\<close>

theorem transfer_parse_exact:
  "transfer_try_from c = Inr t \<longleftrightarrow> length (tc_name_hash t) = 32 \<and> transfer_to_covenant t = Inr c"
  by (rule transfer_parse_iff)

text \<open>
  Parsing a FINALIZE covenant is the inverse of building one, and a parsed covenant's
  name is valid and hashes to its committed name hash.
\<close>

theorem finalize_parse_exact:
  "finalize_try_from sha3 c = Inr f \<longleftrightarrow>
     length (fc_name_hash f) = 32 \<and> length (fc_renewal_block f) = 32 \<and>
     validate_name (fc_name f) \<and> sha3 (fc_name f) = fc_name_hash f \<and>
     finalize_to_covenant sha3 f = Inr c"
  by (rule finalize_parse_iff)

end
