(* ===== verification/Transaction.thy ===== *)
theory Transaction
  imports Covenants
begin

text \<open>
  Model of \<^verbatim>\<open>crates/hns-transaction/src/lib.rs\<close>: witnesses, inputs, addresses, outputs and
  transactions with their size, weight and decoding budgets. The hash functions of the
  BLAKE2b crate are arguments. The theory ends with the exactness of the transaction codec.
\<close>

section \<open>Values\<close>

record tx_input =
  in_previous_output :: outpoint
  in_sequence :: u32
  in_witness :: "bytes list"

record address =
  addr_version :: byte
  addr_hash :: bytes

record tx_output =
  out_value :: dollarydoos
  out_address :: address
  out_covenant :: covenant

record transaction =
  tx_version :: u32
  tx_inputs :: "tx_input list"
  tx_outputs :: "tx_output list"
  tx_locktime :: u32

record coin =
  coin_outpoint :: outpoint
  coin_value :: dollarydoos
  coin_height :: height
  coin_coinbase :: bool
  coin_address :: address
  coin_covenant :: covenant

datatype transaction_error =
    TxDecode decode_error
  | TxCovenant covenant_error
  | TxTooLarge nat nat
  | InvalidAddress string
  | ArithmeticOverflow

definition max_transaction_size :: nat where "max_transaction_size = 1000000"
definition max_transaction_raw_size :: nat where "max_transaction_raw_size = 4000000"
definition max_transaction_weight :: nat where "max_transaction_weight = 4000000"
definition max_witness_items :: nat where "max_witness_items = 1000"

lemmas transaction_limits = max_transaction_size_def max_transaction_raw_size_def
  max_transaction_weight_def max_witness_items_def

text \<open>A loop whose body may return an error.\<close>

primrec fold_res :: "('a \<Rightarrow> 's \<Rightarrow> 'e + 's) \<Rightarrow> 'a list \<Rightarrow> 's \<Rightarrow> 'e + 's" where
  "fold_res f [] s = Inr s"
| "fold_res f (x # xs) s = bind_res (f x s) (\<lambda>s'. fold_res f xs s')"

section \<open>Budgets and sizes\<close>

definition remaining_decode_budget :: "nat \<Rightarrow> nat \<Rightarrow> (transaction_error, nat) reader" where
  "remaining_decode_budget start maximum =
     dbind decoder_position (\<lambda>position.
       let consumed = position - start in
       if consumed > maximum then derror (TxTooLarge consumed maximum)
       else dreturn (maximum - consumed))"

definition read_transaction_varbytes :: "nat \<Rightarrow> nat \<Rightarrow> (transaction_error, bytes) reader" where
  "read_transaction_varbytes start maximum =
     dbind (dlift TxDecode (read_compact_usize max_transaction_raw_size)) (\<lambda>len.
     dbind (remaining_decode_budget start maximum) (\<lambda>remaining.
     dbind decoder_position (\<lambda>position.
       if len > remaining
       then derror (TxTooLarge (saturating_add_usize (position - start) len) maximum)
       else dlift TxDecode (read_bounded_vec len remaining))))"

definition transaction_weight :: "nat \<Rightarrow> nat \<Rightarrow> transaction_error + nat" where
  "transaction_weight base witness =
     bind_res (ok_or (Option.bind (checked_mul_usize base 4) (\<lambda>weight. checked_add_usize weight witness))
       ArithmeticOverflow) (\<lambda>weight.
     if weight > max_transaction_weight then Inl (TxTooLarge weight max_transaction_weight)
     else Inr weight)"

section \<open>Witnesses\<close>

definition witness_size_step :: "bytes \<Rightarrow> nat \<Rightarrow> transaction_error + nat" where
  "witness_size_step item acc =
     (if length item > max_transaction_raw_size
      then Inl (TxTooLarge (length item) max_transaction_raw_size)
      else bind_res
        (ok_or (Option.bind (checked_add_usize acc (compact_size_len (word_of_nat (length item))))
                  (\<lambda>size. checked_add_usize size (length item))) ArithmeticOverflow)
        (\<lambda>size. if size > max_transaction_raw_size
                 then Inl (TxTooLarge size max_transaction_raw_size) else Inr size))"

definition witness_encoded_size :: "bytes list \<Rightarrow> transaction_error + nat" where
  "witness_encoded_size items =
     (if length items > max_witness_items then Inl (TxTooLarge (length items) max_witness_items)
      else fold_res witness_size_step items (compact_size_len (word_of_nat (length items))))"

definition witness_encode_to :: "bytes list \<Rightarrow> encoder \<Rightarrow> transaction_error + encoder" where
  "witness_encode_to items e =
     bind_res (witness_encoded_size items) (\<lambda>_.
       Inr (put_seq (put_compact_size (word_of_nat (length items)) # map put_varbytes items) e))"

definition witness_decode_from :: "nat \<Rightarrow> nat \<Rightarrow> (transaction_error, bytes list) reader" where
  "witness_decode_from start maximum =
     dbind (dlift TxDecode (read_compact_usize max_witness_items)) (\<lambda>count.
     dbind (remaining_decode_budget start maximum) (\<lambda>_.
       read_times count (read_transaction_varbytes start maximum)))"

section \<open>Inputs\<close>

definition put_outpoint :: "outpoint \<Rightarrow> encoder \<Rightarrow> encoder" where
  "put_outpoint op = put_bytes (outpoint_encode op)"

definition decode_outpoint_from :: "(transaction_error, outpoint) reader" where
  "decode_outpoint_from =
     dbind (dlift TxDecode (read_array 32)) (\<lambda>h.
     dbind (dlift TxDecode read_u32_le) (\<lambda>i. dreturn \<lparr>op_hash = h, op_index = i\<rparr>))"

definition put_input_base :: "tx_input \<Rightarrow> encoder \<Rightarrow> encoder" where
  "put_input_base i = put_seq [put_outpoint (in_previous_output i), put_u32_le (in_sequence i)]"

definition input_decode_base_from :: "(transaction_error, tx_input) reader" where
  "input_decode_base_from =
     dbind decode_outpoint_from (\<lambda>op.
     dbind (dlift TxDecode read_u32_le) (\<lambda>s.
       dreturn \<lparr>in_previous_output = op, in_sequence = s, in_witness = []\<rparr>))"

section \<open>Addresses\<close>

definition address_validate :: "address \<Rightarrow> transaction_error + unit" where
  "address_validate a =
     (if addr_version a > 31 then Inl (InvalidAddress ''version exceeds 31'')
      else if \<not> (2 \<le> length (addr_hash a) \<and> length (addr_hash a) \<le> 40)
      then Inl (InvalidAddress ''hash length is outside 2..=40'')
      else if addr_version a = 0 \<and> length (addr_hash a) \<notin> {20, 32}
      then Inl (InvalidAddress ''version 0 program must be 20 or 32 bytes'')
      else Inr ())"

definition address_new :: "byte \<Rightarrow> bytes \<Rightarrow> transaction_error + address" where
  "address_new version hash =
     (let a = \<lparr>addr_version = version, addr_hash = hash\<rparr>
      in bind_res (address_validate a) (\<lambda>_. Inr a))"

definition address_is_null_data :: "address \<Rightarrow> bool" where
  "address_is_null_data a \<longleftrightarrow> addr_version a = 31"

definition address_from_compressed_public_key ::
  "(bytes \<Rightarrow> bytes) \<Rightarrow> bytes \<Rightarrow> transaction_error + address" where
  "address_from_compressed_public_key blake2b_160 public_key =
     (if \<not> (public_key ! 0 = 2 \<or> public_key ! 0 = 3)
      then Inl (InvalidAddress ''compressed public key must begin with 02 or 03'')
      else address_new 0 (blake2b_160 public_key))"

definition address_encode_to :: "address \<Rightarrow> encoder \<Rightarrow> transaction_error + encoder" where
  "address_encode_to a e =
     bind_res (address_validate a) (\<lambda>_.
       Inr (put_seq [put_u8 (addr_version a), put_u8 (word_of_nat (length (addr_hash a))),
         put_bytes (addr_hash a)] e))"

definition address_decode_from :: "(transaction_error, address) reader" where
  "address_decode_from =
     dbind (dlift TxDecode read_u8) (\<lambda>version.
     dbind (dlift TxDecode read_u8) (\<lambda>len.
     dbind (dlift TxDecode (read_bounded_vec (unat len) 40)) (\<lambda>hash.
       dcheck (address_new version hash))))"

section \<open>Outputs\<close>

definition output_is_unspendable :: "tx_output \<Rightarrow> bool" where
  "output_is_unspendable out \<longleftrightarrow>
     address_is_null_data (out_address out) \<or> kind_is_unspendable (cov_kind (out_covenant out))"

definition output_encode_to :: "tx_output \<Rightarrow> encoder \<Rightarrow> transaction_error + encoder" where
  "output_encode_to out e =
     bind_res (address_encode_to (out_address out) (put_u64_le (out_value out) e)) (\<lambda>e.
       map_err TxCovenant (covenant_encode_to (out_covenant out) e))"

definition output_encode :: "tx_output \<Rightarrow> transaction_error + bytes" where
  "output_encode out = bind_res (output_encode_to out encoder_new) (\<lambda>e. Inr (into_bytes e))"

definition output_decode_from :: "nat \<Rightarrow> nat \<Rightarrow> (transaction_error, tx_output) reader" where
  "output_decode_from start maximum =
     dbind (dlift TxDecode read_u64_le) (\<lambda>v.
     dbind address_decode_from (\<lambda>a.
     dbind (remaining_decode_budget start maximum) (\<lambda>remaining.
     dbind (dlift TxCovenant (covenant_decode_from_with_limit remaining)) (\<lambda>c.
     dbind (remaining_decode_budget start maximum) (\<lambda>_.
       dreturn \<lparr>out_value = v, out_address = a, out_covenant = c\<rparr>)))))"

section \<open>Transactions\<close>

definition output_size_step :: "tx_output \<Rightarrow> nat \<Rightarrow> transaction_error + nat" where
  "output_size_step out acc =
     bind_res (address_validate (out_address out)) (\<lambda>_.
     bind_res (map_err TxCovenant (covenant_encoded_size (out_covenant out))) (\<lambda>covenant_size.
     bind_res (ok_or
       (Option.bind (checked_add_usize acc 8) (\<lambda>size.
        Option.bind (checked_add_usize size 2) (\<lambda>size.
        Option.bind (checked_add_usize size (length (addr_hash (out_address out)))) (\<lambda>size.
          checked_add_usize size covenant_size)))) ArithmeticOverflow) (\<lambda>size.
     if size > max_transaction_size then Inl (TxTooLarge size max_transaction_size) else Inr size)))"

definition tx_base_encoded_size :: "transaction \<Rightarrow> transaction_error + nat" where
  "tx_base_encoded_size tx =
     (if length (tx_inputs tx) > max_transaction_size div 40 \<or>
         length (tx_outputs tx) > max_transaction_size div 12
      then Inl (TxTooLarge (max (length (tx_inputs tx)) (length (tx_outputs tx))) (max_transaction_size div 12))
      else
        bind_res (ok_or (checked_mul_usize (length (tx_inputs tx)) 40) ArithmeticOverflow) (\<lambda>input_bytes.
        bind_res (ok_or
          (Option.bind (checked_add_usize 4 (compact_size_len (word_of_nat (length (tx_inputs tx))))) (\<lambda>size.
           Option.bind (checked_add_usize size input_bytes) (\<lambda>size.
             checked_add_usize size (compact_size_len (word_of_nat (length (tx_outputs tx)))))))
          ArithmeticOverflow) (\<lambda>size.
        bind_res (fold_res output_size_step (tx_outputs tx) size) (\<lambda>size.
        bind_res (ok_or (checked_add_usize size 4) ArithmeticOverflow) (\<lambda>size.
          if size > max_transaction_size then Inl (TxTooLarge size max_transaction_size)
          else Inr size)))))"

definition input_witness_size_step :: "tx_input \<Rightarrow> nat \<Rightarrow> transaction_error + nat" where
  "input_witness_size_step i acc =
     bind_res (witness_encoded_size (in_witness i)) (\<lambda>n.
     bind_res (ok_or (checked_add_usize acc n) ArithmeticOverflow) (\<lambda>size.
       if size > max_transaction_raw_size then Inl (TxTooLarge size max_transaction_raw_size)
       else Inr size))"

definition tx_witness_encoded_size :: "transaction \<Rightarrow> transaction_error + nat" where
  "tx_witness_encoded_size tx = fold_res input_witness_size_step (tx_inputs tx) 0"

definition tx_encoded_sizes :: "transaction \<Rightarrow> transaction_error + nat \<times> nat" where
  "tx_encoded_sizes tx =
     bind_res (tx_base_encoded_size tx) (\<lambda>base.
     bind_res (tx_witness_encoded_size tx) (\<lambda>witness.
     bind_res (transaction_weight base witness) (\<lambda>_. Inr (base, witness))))"

definition tx_base_encode :: "transaction \<Rightarrow> transaction_error + bytes" where
  "tx_base_encode tx =
     bind_res (tx_base_encoded_size tx) (\<lambda>_.
     let e = put_seq ([put_u32_le (tx_version tx), put_compact_size (word_of_nat (length (tx_inputs tx)))] @
               map put_input_base (tx_inputs tx) @
               [put_compact_size (word_of_nat (length (tx_outputs tx)))]) encoder_new
     in bind_res (fold_res output_encode_to (tx_outputs tx) e) (\<lambda>e.
          Inr (into_bytes (put_u32_le (tx_locktime tx) e))))"

definition tx_witness_encode :: "transaction \<Rightarrow> transaction_error + bytes" where
  "tx_witness_encode tx =
     bind_res (tx_witness_encoded_size tx) (\<lambda>_.
     bind_res (fold_res (\<lambda>i. witness_encode_to (in_witness i)) (tx_inputs tx) encoder_new) (\<lambda>e.
       Inr (into_bytes e)))"

text \<open>
  The two \<^verbatim>\<open>debug_assert_eq!\<close> calls of \<^verbatim>\<open>encode\<close> are the lemma that the sizes are the
  lengths, below.
\<close>

definition tx_encode :: "transaction \<Rightarrow> transaction_error + bytes" where
  "tx_encode tx =
     bind_res (tx_encoded_sizes tx) (\<lambda>(base_size, witness_size).
     bind_res (tx_base_encode tx) (\<lambda>base.
     bind_res (tx_witness_encode tx) (\<lambda>witness.
     bind_res (ok_or (checked_add_usize base_size witness_size) ArithmeticOverflow) (\<lambda>_.
       Inr (base @ witness)))))"

definition read_input :: "nat \<Rightarrow> nat \<Rightarrow> (transaction_error, tx_input) reader" where
  "read_input start maximum =
     dbind input_decode_base_from (\<lambda>i.
     dbind (remaining_decode_budget start maximum) (\<lambda>_. dreturn i))"

definition tx_decode_from :: "(transaction_error, transaction) reader" where
  "tx_decode_from =
     dbind decoder_position (\<lambda>start.
     dbind (dlift TxDecode read_u32_le) (\<lambda>version.
     dbind (dlift TxDecode (read_compact_usize (max_transaction_size div 40))) (\<lambda>input_count.
     dbind (remaining_decode_budget start max_transaction_size) (\<lambda>_.
     dbind (read_times input_count (read_input start max_transaction_size)) (\<lambda>inputs.
     dbind (dlift TxDecode (read_compact_usize (max_transaction_size div 12))) (\<lambda>output_count.
     dbind (remaining_decode_budget start max_transaction_size) (\<lambda>_.
     dbind (read_times output_count (output_decode_from start max_transaction_size)) (\<lambda>outputs.
     dbind (dlift TxDecode read_u32_le) (\<lambda>locktime.
     dbind decoder_position (\<lambda>position.
     dbind (remaining_decode_budget start max_transaction_size) (\<lambda>_.
     dbind (dcheck (ok_or (checked_mul_usize (position - start) 4) ArithmeticOverflow)) (\<lambda>base_weight.
     dbind (dcheck (ok_or (checked_sub_usize max_transaction_weight base_weight)
       (TxTooLarge base_weight max_transaction_weight))) (\<lambda>spare.
     dbind (dcheck (ok_or (checked_add_usize (position - start) spare) ArithmeticOverflow)) (\<lambda>total.
     let maximum = min total max_transaction_raw_size in
     dbind (read_times (length inputs) (witness_decode_from start maximum)) (\<lambda>witnesses.
     dbind (remaining_decode_budget start maximum) (\<lambda>_.
       dreturn \<lparr>tx_version = version,
         tx_inputs = map2 (\<lambda>i w. i\<lparr>in_witness := w\<rparr>) inputs witnesses,
         tx_outputs = outputs, tx_locktime = locktime\<rparr>))))))))))))))))"

definition tx_decode :: "bytes \<Rightarrow> transaction_error + transaction" where
  "tx_decode bs =
     (if length bs > max_transaction_raw_size then Inl (TxTooLarge (length bs) max_transaction_raw_size)
      else bind_res (tx_decode_from (decoder_new bs)) (\<lambda>(tx, d).
           bind_res (map_err TxDecode (decoder_finish d)) (\<lambda>_. Inr tx)))"

definition tx_decode_prefix :: "bytes \<Rightarrow> transaction_error + transaction \<times> nat" where
  "tx_decode_prefix bs =
     bind_res (tx_decode_from (decoder_new bs)) (\<lambda>(tx, d). Inr (tx, dec_position d))"

definition transaction_hash :: "(bytes \<Rightarrow> bytes) \<Rightarrow> transaction \<Rightarrow> transaction_error + hash32" where
  "transaction_hash blake2b tx = bind_res (tx_base_encode tx) (\<lambda>bs. Inr (blake2b bs))"

definition witness_hash :: "(bytes \<Rightarrow> bytes) \<Rightarrow> transaction \<Rightarrow> transaction_error + hash32" where
  "witness_hash blake2b tx =
     bind_res (transaction_hash blake2b tx) (\<lambda>h.
     bind_res (tx_witness_encode tx) (\<lambda>w. Inr (blake2b (h @ blake2b w))))"

definition tx_size :: "transaction \<Rightarrow> transaction_error + nat" where
  "tx_size tx =
     bind_res (tx_encoded_sizes tx) (\<lambda>(base, witness).
       ok_or (checked_add_usize base witness) ArithmeticOverflow)"

definition tx_weight :: "transaction \<Rightarrow> transaction_error + nat" where
  "tx_weight tx = bind_res (tx_encoded_sizes tx) (\<lambda>(base, witness). transaction_weight base witness)"

definition is_coinbase :: "transaction \<Rightarrow> bool" where
  "is_coinbase tx =
     (case tx_inputs tx of [] \<Rightarrow> False | i # _ \<Rightarrow> outpoint_is_null (in_previous_output i))"

section \<open>Sizes are lengths\<close>

lemma fold_res_size:
  fixes B M acc n :: nat
  assumes step: "\<And>x acc n. acc \<le> B \<Longrightarrow> step x acc = Inr n \<longleftrightarrow> P x \<and> n = acc + f x \<and> n \<le> M"
    and "M \<le> B" and "acc \<le> B"
  shows "fold_res step xs acc = Inr n \<longleftrightarrow>
    (\<forall>x \<in> set xs. P x) \<and> n = acc + sum_list (map f xs) \<and> (xs = [] \<or> n \<le> M)"
  using assms(3)
proof (induction xs arbitrary: acc)
  case (Cons x xs)
  have "step x acc = Inr k \<longleftrightarrow> P x \<and> k = acc + f x \<and> k \<le> M" for k by (rule step [OF Cons.prems])
  moreover have "acc + f x \<le> M \<Longrightarrow> acc + f x \<le> B" using assms(2) by simp
  ultimately show ?case using Cons.IH [of "acc + f x"] by (auto simp: bind_res_eq_Inr)
qed auto

definition witness_bytes :: "bytes list \<Rightarrow> bytes" where
  "witness_bytes items = len_bytes (length items) @ concat (map var_bytes items)"

definition witness_ok :: "bytes list \<Rightarrow> bool" where
  "witness_ok items \<longleftrightarrow> length items \<le> max_witness_items \<and>
     (\<forall>item \<in> set items. length item \<le> max_transaction_raw_size)"

definition input_bytes :: "tx_input \<Rightarrow> bytes" where
  "input_bytes i = op_hash (in_previous_output i) @ u32_to_le (op_index (in_previous_output i)) @
     u32_to_le (in_sequence i)"

definition address_ok :: "address \<Rightarrow> bool" where
  "address_ok a \<longleftrightarrow> addr_version a \<le> 31 \<and> 2 \<le> length (addr_hash a) \<and> length (addr_hash a) \<le> 40 \<and>
     (addr_version a = 0 \<longrightarrow> length (addr_hash a) \<in> {20, 32})"

definition address_bytes :: "address \<Rightarrow> bytes" where
  "address_bytes a = addr_version a # word_of_nat (length (addr_hash a)) # addr_hash a"

definition output_bytes :: "tx_output \<Rightarrow> bytes" where
  "output_bytes out = u64_to_le (out_value out) @ address_bytes (out_address out) @
     covenant_bytes (out_covenant out)"

definition covenant_sized :: "covenant \<Rightarrow> bool" where
  "covenant_sized c \<longleftrightarrow> length (cov_items c) \<le> max_covenant_items \<and>
     (\<forall>item \<in> set (cov_items c). length item \<le> max_covenant_item_size) \<and>
     length (covenant_bytes c) \<le> max_covenant_encoded_size"

definition output_sized :: "tx_output \<Rightarrow> bool" where
  "output_sized out \<longleftrightarrow> address_ok (out_address out) \<and> covenant_sized (out_covenant out)"

definition tx_base_bytes :: "transaction \<Rightarrow> bytes" where
  "tx_base_bytes tx = u32_to_le (tx_version tx) @ len_bytes (length (tx_inputs tx)) @
     concat (map input_bytes (tx_inputs tx)) @ len_bytes (length (tx_outputs tx)) @
     concat (map output_bytes (tx_outputs tx)) @ u32_to_le (tx_locktime tx)"

definition tx_witness_bytes :: "transaction \<Rightarrow> bytes" where
  "tx_witness_bytes tx = concat (map witness_bytes (map in_witness (tx_inputs tx)))"

lemma address_validate_iff [simp]: "address_validate a = Inr u \<longleftrightarrow> address_ok a"
  by (auto simp: address_validate_def address_ok_def)

lemma address_validate_ok [simp]: "address_ok a \<Longrightarrow> address_validate a = Inr ()"
  by simp

lemma length_inputs_bytes:
  "\<forall>i \<in> set is. outpoint_ok (in_previous_output i) \<Longrightarrow>
     sum_list (map (\<lambda>i. length (input_bytes i)) is) = length is * 40"
  by (induction "is") (simp_all add: input_bytes_def outpoint_ok_def)

lemma covenant_encoded_size_sized:
  "covenant_encoded_size c = Inr n \<longleftrightarrow> covenant_sized c \<and> n = length (covenant_bytes c)"
  by (auto simp: covenant_encoded_size_iff covenant_sized_def)

lemma checked_add_usize_small: "a + b \<le> usize_max \<Longrightarrow> checked_add_usize a b = Some (a + b)"
  by (simp add: checked_add_usize_def)

lemma usize_small: "n \<le> 100000000 \<Longrightarrow> n \<le> usize_max"
  by (simp add: usize_max_def)

lemma witness_size_step_iff:
  assumes "acc \<le> 10000000"
  shows "witness_size_step item acc = Inr n \<longleftrightarrow>
    length item \<le> max_transaction_raw_size \<and> n = acc + length (var_bytes item) \<and> n \<le> max_transaction_raw_size"
proof (cases "length item \<le> max_transaction_raw_size")
  case True
  have "acc + length (var_bytes item) \<le> usize_max"
    using True assms compact_size_len_le [of "word_of_nat (length item)"]
    by (intro usize_small) (simp add: length_var_bytes transaction_limits)
  with True show ?thesis
    by (auto simp: witness_size_step_def checked_add_usize_def length_var_bytes)
qed (auto simp: witness_size_step_def)

lemma witness_encoded_size_iff:
  "witness_encoded_size items = Inr n \<longleftrightarrow>
     witness_ok items \<and> n = length (witness_bytes items) \<and> n \<le> max_transaction_raw_size"
proof -
  define s where "s = compact_size_len (word_of_nat (length items))"
  have s: "s \<le> 9" by (simp add: s_def compact_size_len_le)
  have len: "length (witness_bytes items) = s + sum_list (map (\<lambda>x. length (var_bytes x)) items)"
    by (simp add: witness_bytes_def len_bytes_def s_def compact_size_len_bytes length_concat comp_def)
  have "fold_res witness_size_step items s = Inr n \<longleftrightarrow>
      (\<forall>x \<in> set items. length x \<le> max_transaction_raw_size) \<and>
      n = s + sum_list (map (\<lambda>x. length (var_bytes x)) items) \<and> (items = [] \<or> n \<le> max_transaction_raw_size)"
    by (rule fold_res_size [where B = 10000000])
      (use s in \<open>simp_all add: witness_size_step_iff max_transaction_raw_size_def\<close>)
  then show ?thesis using s
    by (auto simp: witness_encoded_size_def s_def [symmetric] witness_ok_def len max_transaction_raw_size_def)
qed

lemma output_size_step_iff:
  assumes "acc \<le> 10000000"
  shows "output_size_step out acc = Inr n \<longleftrightarrow>
    output_sized out \<and> n = acc + length (output_bytes out) \<and> n \<le> max_transaction_size"
proof (cases "output_sized out")
  case True
  have "acc + length (output_bytes out) \<le> usize_max"
    using True assms by (intro usize_small)
      (simp add: output_sized_def output_bytes_def address_bytes_def address_ok_def covenant_sized_def covenant_limits)
  moreover have "covenant_encoded_size (out_covenant out) = Inr (length (covenant_bytes (out_covenant out)))"
    using True by (simp add: covenant_encoded_size_sized output_sized_def)
  ultimately show ?thesis using True
    by (auto simp: output_size_step_def checked_add_usize_def output_bytes_def address_bytes_def output_sized_def)
qed (auto simp: output_size_step_def bind_res_eq_Inr covenant_encoded_size_sized output_sized_def)

lemma tx_base_encoded_size_iff:
  assumes ins: "\<forall>i \<in> set (tx_inputs tx). outpoint_ok (in_previous_output i)"
  shows "tx_base_encoded_size tx = Inr n \<longleftrightarrow>
    length (tx_inputs tx) \<le> 25000 \<and> length (tx_outputs tx) \<le> 83333 \<and>
    (\<forall>out \<in> set (tx_outputs tx). output_sized out) \<and>
    n = length (tx_base_bytes tx) \<and> n \<le> max_transaction_size"
proof -
  define a b where "a = compact_size_len (word_of_nat (length (tx_inputs tx)))"
    and "b = compact_size_len (word_of_nat (length (tx_outputs tx)))"
  have ab: "a \<le> 9" "b \<le> 9" by (simp_all add: a_def b_def compact_size_len_le)
  define s where "s = 4 + a + length (tx_inputs tx) * 40 + b"
  have "sum_list (map (\<lambda>i. length (input_bytes i)) (tx_inputs tx)) = length (tx_inputs tx) * 40"
    by (rule length_inputs_bytes [OF ins])
  then have len: "length (tx_base_bytes tx) =
      s + sum_list (map (\<lambda>x. length (output_bytes x)) (tx_outputs tx)) + 4"
    by (simp add: tx_base_bytes_def len_bytes_def s_def a_def b_def compact_size_len_bytes length_concat comp_def)
  show ?thesis
  proof (cases "length (tx_inputs tx) \<le> 25000 \<and> length (tx_outputs tx) \<le> 83333")
    case True
    then have s: "s \<le> 10000000" using ab by (simp add: s_def)
    have "fold_res output_size_step (tx_outputs tx) s = Inr k \<longleftrightarrow>
        (\<forall>x \<in> set (tx_outputs tx). output_sized x) \<and>
        k = s + sum_list (map (\<lambda>x. length (output_bytes x)) (tx_outputs tx)) \<and>
        (tx_outputs tx = [] \<or> k \<le> max_transaction_size)" for k
      by (rule fold_res_size [where B = 10000000])
        (use s in \<open>simp_all add: output_size_step_iff max_transaction_size_def\<close>)
    note loop = this
    have init: "checked_mul_usize (length (tx_inputs tx)) 40 = Some (length (tx_inputs tx) * 40)"
      "Option.bind (checked_add_usize 4 a) (\<lambda>x. Option.bind (checked_add_usize x (length (tx_inputs tx) * 40))
        (\<lambda>x. checked_add_usize x b)) = Some s"
      using True ab by (simp_all add: checked_mul_usize_def checked_add_usize_def usize_max_def s_def)
    have "tx_base_encoded_size tx = bind_res (fold_res output_size_step (tx_outputs tx) s) (\<lambda>x.
        bind_res (ok_or (checked_add_usize x 4) ArithmeticOverflow) (\<lambda>x.
          if x > max_transaction_size then Inl (TxTooLarge x max_transaction_size) else Inr x))"
      using True unfolding tx_base_encoded_size_def a_def [symmetric] b_def [symmetric]
      by (simp add: max_transaction_size_def init)
    then show ?thesis
      using True by (auto simp: bind_res_eq_Inr loop len checked_add_usize_def max_transaction_size_def
          usize_max_def split: if_splits)
  next
    case False
    then show ?thesis by (auto simp: tx_base_encoded_size_def max_transaction_size_def)
  qed
qed

lemma input_witness_size_step_iff:
  assumes "acc \<le> 10000000"
  shows "input_witness_size_step i acc = Inr n \<longleftrightarrow>
    (witness_ok (in_witness i) \<and> length (witness_bytes (in_witness i)) \<le> max_transaction_raw_size) \<and>
    n = acc + length (witness_bytes (in_witness i)) \<and> n \<le> max_transaction_raw_size"
  using assms by (auto simp: input_witness_size_step_def bind_res_eq_Inr witness_encoded_size_iff
      checked_add_usize_def usize_max_def max_transaction_raw_size_def split: if_splits)

lemma length_tx_witness_bytes:
  "length (tx_witness_bytes tx) = sum_list (map (\<lambda>i. length (witness_bytes (in_witness i))) (tx_inputs tx))"
  by (simp add: tx_witness_bytes_def length_concat comp_def)

lemma witness_part_le:
  "length (tx_witness_bytes tx) \<le> m \<Longrightarrow> i \<in> set (tx_inputs tx) \<Longrightarrow> length (witness_bytes (in_witness i)) \<le> m"
  unfolding length_tx_witness_bytes
  by (rule order_trans [OF member_le_sum_list]) auto

lemma tx_witness_encoded_size_iff:
  "tx_witness_encoded_size tx = Inr n \<longleftrightarrow>
     (\<forall>i \<in> set (tx_inputs tx). witness_ok (in_witness i)) \<and>
     n = length (tx_witness_bytes tx) \<and> n \<le> max_transaction_raw_size"
proof -
  have "tx_witness_encoded_size tx = Inr n \<longleftrightarrow>
      (\<forall>i \<in> set (tx_inputs tx). witness_ok (in_witness i) \<and> length (witness_bytes (in_witness i)) \<le> max_transaction_raw_size) \<and>
      n = 0 + sum_list (map (\<lambda>i. length (witness_bytes (in_witness i))) (tx_inputs tx)) \<and>
      (tx_inputs tx = [] \<or> n \<le> max_transaction_raw_size)"
    unfolding tx_witness_encoded_size_def
    by (rule fold_res_size [where B = 10000000])
      (simp_all add: input_witness_size_step_iff max_transaction_raw_size_def)
  then show ?thesis
    unfolding add_0 length_tx_witness_bytes [symmetric]
    by (cases "tx_inputs tx = []") (simp add: tx_witness_bytes_def, auto dest: witness_part_le)
qed

section \<open>Encoding\<close>

lemma into_bytes_inject: "into_bytes e = into_bytes e' \<longleftrightarrow> e = e'"
  by (cases e; cases e') (simp add: into_bytes_def)

lemma outpoint_encode_bytes: "outpoint_encode op = op_hash op @ u32_to_le (op_index op)"
  by (simp add: outpoint_encode_def)

lemma fold_res_bytes:
  assumes "\<And>x e e'. f x e = Inr e' \<longleftrightarrow> P x \<and> into_bytes e' = into_bytes e @ enc x"
  shows "fold_res f xs e = Inr e' \<longleftrightarrow>
    (\<forall>x \<in> set xs. P x) \<and> into_bytes e' = into_bytes e @ concat (map enc xs)"
proof (induction xs arbitrary: e)
  case (Cons x xs)
  define e1 where "e1 = \<lparr>enc_bytes = into_bytes e @ enc x\<rparr>"
  have "into_bytes e1 = into_bytes e @ enc x" by (simp add: e1_def into_bytes_def)
  then have "f x e = Inr k \<longleftrightarrow> P x \<and> k = e1" for k
    unfolding assms by (metis into_bytes_inject)
  then show ?case using \<open>into_bytes e1 = _\<close> Cons.IH [of e1] by (auto simp: bind_res_eq_Inr)
qed (auto simp: into_bytes_inject)

lemma output_encode_to_iff:
  "output_encode_to out e = Inr e' \<longleftrightarrow> output_sized out \<and> into_bytes e' = into_bytes e @ output_bytes out"
proof -
  define k where "k = put_covenant (out_covenant out) (put_seq [put_u8 (addr_version (out_address out)),
      put_u8 (word_of_nat (length (addr_hash (out_address out)))), put_bytes (addr_hash (out_address out))]
      (put_u64_le (out_value out) e))"
  have "output_encode_to out e = Inr e' \<longleftrightarrow> output_sized out \<and> e' = k"
    by (auto simp: output_encode_to_def bind_res_eq_Inr address_encode_to_def covenant_encode_to_iff
        output_sized_def covenant_sized_def k_def)
  moreover have "into_bytes k = into_bytes e @ output_bytes out"
    by (simp add: k_def output_bytes_def address_bytes_def)
  ultimately show ?thesis by (metis into_bytes_inject)
qed

lemma witness_encode_to_iff:
  "witness_encode_to items e = Inr e' \<longleftrightarrow>
     (witness_ok items \<and> length (witness_bytes items) \<le> max_transaction_raw_size) \<and>
     into_bytes e' = into_bytes e @ witness_bytes items"
  by (auto simp: witness_encode_to_def bind_res_eq_Inr witness_encoded_size_iff witness_bytes_def len_bytes_def
      into_bytes_put_seq_map simp flip: into_bytes_inject)

lemma into_bytes_put_input [simp]: "into_bytes (put_input_base i e) = into_bytes e @ input_bytes i"
  by (simp add: put_input_base_def put_outpoint_def input_bytes_def outpoint_encode_bytes)

definition inputs_ok :: "transaction \<Rightarrow> bool" where
  "inputs_ok tx \<longleftrightarrow> (\<forall>i \<in> set (tx_inputs tx). outpoint_ok (in_previous_output i))"

definition base_sized :: "transaction \<Rightarrow> bool" where
  "base_sized tx \<longleftrightarrow> length (tx_inputs tx) \<le> 25000 \<and> length (tx_outputs tx) \<le> 83333 \<and>
     (\<forall>out \<in> set (tx_outputs tx). output_sized out) \<and> length (tx_base_bytes tx) \<le> max_transaction_size"

lemma tx_base_encode_iff:
  assumes "inputs_ok tx"
  shows "tx_base_encode tx = Inr bs \<longleftrightarrow> base_sized tx \<and> bs = tx_base_bytes tx"
proof -
  define e0 where "e0 = put_seq ([put_u32_le (tx_version tx), put_compact_size (word_of_nat (length (tx_inputs tx)))] @
     map put_input_base (tx_inputs tx) @ [put_compact_size (word_of_nat (length (tx_outputs tx)))]) encoder_new"
  have e0: "into_bytes e0 = u32_to_le (tx_version tx) @ len_bytes (length (tx_inputs tx)) @
      concat (map input_bytes (tx_inputs tx)) @ len_bytes (length (tx_outputs tx))"
    by (simp add: e0_def put_seq_append into_bytes_put_seq_map len_bytes_def)
  define e1 where "e1 = \<lparr>enc_bytes = into_bytes e0 @ concat (map output_bytes (tx_outputs tx))\<rparr>"
  have e1: "into_bytes e1 = into_bytes e0 @ concat (map output_bytes (tx_outputs tx))"
    by (simp add: e1_def into_bytes_def)
  have "fold_res output_encode_to (tx_outputs tx) e0 = Inr e' \<longleftrightarrow>
      (\<forall>out \<in> set (tx_outputs tx). output_sized out) \<and> e' = e1" for e'
    unfolding fold_res_bytes [OF output_encode_to_iff] by (metis e1 into_bytes_inject)
  then show ?thesis
    using tx_base_encoded_size_iff [OF assms [unfolded inputs_ok_def]] e0 e1
    unfolding tx_base_encode_def Let_def e0_def [symmetric]
    by (auto simp: bind_res_eq_Inr base_sized_def tx_base_bytes_def)
qed

lemma tx_witness_encode_iff:
  "tx_witness_encode tx = Inr bs \<longleftrightarrow>
     (\<forall>i \<in> set (tx_inputs tx). witness_ok (in_witness i)) \<and>
     length (tx_witness_bytes tx) \<le> max_transaction_raw_size \<and> bs = tx_witness_bytes tx"
proof -
  define e1 where "e1 = \<lparr>enc_bytes = tx_witness_bytes tx\<rparr>"
  have e1: "into_bytes e1 = tx_witness_bytes tx" by (simp add: e1_def into_bytes_def)
  have "fold_res (\<lambda>i. witness_encode_to (in_witness i)) (tx_inputs tx) encoder_new = Inr e' \<longleftrightarrow>
      (\<forall>i \<in> set (tx_inputs tx). witness_ok (in_witness i) \<and>
        length (witness_bytes (in_witness i)) \<le> max_transaction_raw_size) \<and> e' = e1" for e'
  proof -
    have "concat (map (\<lambda>i. witness_bytes (in_witness i)) (tx_inputs tx)) = tx_witness_bytes tx"
      by (simp add: tx_witness_bytes_def comp_def)
    then show ?thesis
      using fold_res_bytes [where f = "\<lambda>i. witness_encode_to (in_witness i)" and enc = "\<lambda>i. witness_bytes (in_witness i)",
          OF witness_encode_to_iff, of "tx_inputs tx" encoder_new e'] e1 into_bytes_inject [of e' e1]
      by simp
  qed
  then show ?thesis
    using e1 by (auto simp: tx_witness_encode_def bind_res_eq_Inr tx_witness_encoded_size_iff dest: witness_part_le)
qed

definition tx_bytes :: "transaction \<Rightarrow> bytes" where
  "tx_bytes tx = tx_base_bytes tx @ tx_witness_bytes tx"

definition tx_sized :: "transaction \<Rightarrow> bool" where
  "tx_sized tx \<longleftrightarrow> base_sized tx \<and> (\<forall>i \<in> set (tx_inputs tx). witness_ok (in_witness i)) \<and>
     4 * length (tx_base_bytes tx) + length (tx_witness_bytes tx) \<le> max_transaction_weight"

lemma transaction_weight_iff:
  "transaction_weight b w = Inr n \<longleftrightarrow> n = 4 * b + w \<and> n \<le> max_transaction_weight"
  by (auto simp: transaction_weight_def checked_mul_usize_def checked_add_usize_def usize_max_def transaction_limits)

lemma tx_encoded_sizes_iff:
  assumes "inputs_ok tx"
  shows "tx_encoded_sizes tx = Inr (b, w) \<longleftrightarrow>
    tx_sized tx \<and> b = length (tx_base_bytes tx) \<and> w = length (tx_witness_bytes tx)"
  using tx_base_encoded_size_iff [OF assms [unfolded inputs_ok_def]]
  by (auto simp: tx_encoded_sizes_def bind_res_eq_Inr tx_witness_encoded_size_iff tx_sized_def base_sized_def
      transaction_weight_iff) (auto simp: transaction_limits)

lemma tx_encode_iff:
  assumes "inputs_ok tx"
  shows "tx_encode tx = Inr bs \<longleftrightarrow> tx_sized tx \<and> bs = tx_bytes tx"
proof -
  have "length (tx_base_bytes tx) + length (tx_witness_bytes tx) \<le> usize_max" if "tx_sized tx"
    using that by (intro usize_small) (simp add: tx_sized_def base_sized_def transaction_limits)
  moreover have "length (tx_witness_bytes tx) \<le> max_transaction_raw_size" if "tx_sized tx"
    using that by (simp add: tx_sized_def transaction_limits)
  ultimately show ?thesis
    using tx_encoded_sizes_iff [OF assms] tx_base_encode_iff [OF assms] tx_witness_encode_iff
    by (auto simp: tx_encode_def bind_res_eq_Inr tx_bytes_def checked_add_usize_def tx_sized_def)
qed

section \<open>Decoding\<close>

lemma remaining_budget_cursor [simp]:
  "remaining_decode_budget start maximum (cursor pre rest) =
     (if maximum < length pre - start then Inl (TxTooLarge (length pre - start) maximum)
      else Inr (maximum - (length pre - start), cursor pre rest))"
  by (simp add: remaining_decode_budget_def dbind_def Let_def)

lemma budget_run:
  "length pre - start \<le> maximum \<Longrightarrow>
     dbind (remaining_decode_budget start maximum) f (cursor pre rest) =
       f (maximum - (length pre - start)) (cursor pre rest)"
  by (simp add: dbind_def)

lemma budget_back:
  "dbind (remaining_decode_budget start maximum) f (cursor pre rest) = Inr r \<longleftrightarrow>
     length pre - start \<le> maximum \<and> f (maximum - (length pre - start)) (cursor pre rest) = Inr r"
  by (auto simp: dbind_def)

interpretation tx_var: budgeted var_bytes read_transaction_varbytes "\<lambda>item. length item \<le> max_transaction_raw_size"
  unfolding read_transaction_varbytes_def [abs_def] by (rule budgeted_varbytes) (rule remaining_budget_cursor)

interpretation tx_addr: codec address_bytes address_decode_from address_ok
proof
  fix a pre suf
  assume a: "address_ok a" and "fits pre (address_bytes a @ suf)"
  moreover have "unat (word_of_nat (length (addr_hash a)) :: byte) = length (addr_hash a)"
    using a by (simp add: address_ok_def unat_of_nat)
  ultimately show "address_decode_from (cursor pre (address_bytes a @ suf)) = Inr (a, cursor (pre @ address_bytes a) suf)"
    by (simp add: address_decode_from_def address_bytes_def dbind_run address_new_def address_ok_def)
next
  fix pre rest a d'
  assume "address_decode_from (cursor pre rest) = Inr (a, d')"
  then show "address_ok a \<and> (\<exists>suf. rest = address_bytes a @ suf \<and> d' = cursor (pre @ address_bytes a) suf)"
    by (auto simp: address_decode_from_def dbind_eq_Inr bind_res_eq_Inr address_new_def address_bytes_def Let_def
        dest!: read_u8_back read_bounded_vec_back)
qed

interpretation tx_in: budgeted input_bytes read_input
  "\<lambda>i. outpoint_ok (in_previous_output i) \<and> in_witness i = []"
proof
  fix i pre suf start maximum
  assume "outpoint_ok (in_previous_output i) \<and> in_witness i = []" and "fits pre (input_bytes i @ suf)"
    and "start \<le> length pre" and "length (pre @ input_bytes i) - start \<le> maximum"
  then show "read_input start maximum (cursor pre (input_bytes i @ suf)) = Inr (i, cursor (pre @ input_bytes i) suf)"
    by (simp add: read_input_def input_decode_base_from_def decode_outpoint_from_def input_bytes_def dbind_run
        budget_run outpoint_ok_def)
next
  fix start maximum pre rest i d'
  assume "read_input start maximum (cursor pre rest) = Inr (i, d')"
  then show "(outpoint_ok (in_previous_output i) \<and> in_witness i = []) \<and>
      length (pre @ input_bytes i) - start \<le> maximum \<and>
      (\<exists>suf. rest = input_bytes i @ suf \<and> d' = cursor (pre @ input_bytes i) suf)"
    by (auto simp: read_input_def input_decode_base_from_def decode_outpoint_from_def dbind_eq_Inr input_bytes_def
        outpoint_ok_def dest!: arr.reads_back u32.reads_back split: if_splits)
qed

interpretation tx_wit: budgeted witness_bytes witness_decode_from witness_ok
proof
  fix items pre suf start maximum
  assume ok: "witness_ok items" and fit: "fits pre (witness_bytes items @ suf)"
    and start: "start \<le> length pre" and max: "length (pre @ witness_bytes items) - start \<le> maximum"
  have "length items \<le> usize_max" using ok by (intro usize_small) (simp add: witness_ok_def transaction_limits)
  then have "read_compact_usize max_witness_items (cursor pre (witness_bytes items @ suf)) =
      Inr (length items, cursor (pre @ len_bytes (length items)) (concat (map var_bytes items) @ suf))"
    using ok fit by (simp add: witness_bytes_def witness_ok_def len.reads)
  moreover have "read_times (length items) (read_transaction_varbytes start maximum)
      (cursor (pre @ len_bytes (length items)) (concat (map var_bytes items) @ suf)) =
      Inr (items, cursor ((pre @ len_bytes (length items)) @ concat (map var_bytes items)) suf)"
    using ok fit start max by (intro tx_var.times_within) (simp_all add: witness_ok_def witness_bytes_def)
  ultimately show "witness_decode_from start maximum (cursor pre (witness_bytes items @ suf)) =
      Inr (items, cursor (pre @ witness_bytes items) suf)"
    using max by (simp add: witness_decode_from_def dbind_run budget_run witness_bytes_def)
next
  fix start maximum pre rest items d'
  assume run: "witness_decode_from start maximum (cursor pre rest) = Inr (items, d')" and start: "start \<le> length pre"
  from run obtain n d1 where n: "read_compact_usize max_witness_items (cursor pre rest) = Inr (n, d1)"
    and tail: "dbind (remaining_decode_budget start maximum)
      (\<lambda>_. read_times n (read_transaction_varbytes start maximum)) d1 = Inr (items, d')"
    by (auto simp: witness_decode_from_def dbind_eq_Inr)
  from len.reads_back [OF n] obtain suf where suf: "rest = len_bytes n @ suf" "n \<le> max_witness_items"
    and d1: "d1 = cursor (pre @ len_bytes n) suf" by auto
  from tail d1 have "length (pre @ len_bytes n) - start \<le> maximum"
    "read_times n (read_transaction_varbytes start maximum) (cursor (pre @ len_bytes n) suf) = Inr (items, d')"
    by (simp_all add: budget_back)
  with tx_var.times_within_back [OF this(2)] start suf
  show "witness_ok items \<and> length (pre @ witness_bytes items) - start \<le> maximum \<and>
      (\<exists>suf. rest = witness_bytes items @ suf \<and> d' = cursor (pre @ witness_bytes items) suf)"
    by (auto simp: witness_ok_def witness_bytes_def)
qed

definition output_ok :: "tx_output \<Rightarrow> bool" where
  "output_ok out \<longleftrightarrow> output_sized out \<and> kind_ok (cov_kind (out_covenant out))"

lemma covenant_ok_limit:
  "covenant_ok limit c \<longleftrightarrow> covenant_sized c \<and> kind_ok (cov_kind c) \<and> length (covenant_bytes c) \<le> limit"
  by (auto simp: covenant_ok_def covenant_sized_def)

interpretation tx_out: budgeted output_bytes output_decode_from output_ok
proof
  fix out pre suf start maximum
  assume ok: "output_ok out" and fit: "fits pre (output_bytes out @ suf)"
    and start: "start \<le> length pre" and max: "length (pre @ output_bytes out) - start \<le> maximum"
  define p1 where "p1 = pre @ u64_to_le (out_value out) @ address_bytes (out_address out)"
  have p1: "length p1 - start \<le> maximum" "length (p1 @ covenant_bytes (out_covenant out)) - start \<le> maximum"
    "length (covenant_bytes (out_covenant out)) \<le> maximum - (length p1 - start)"
    using max start by (simp_all add: p1_def output_bytes_def)
  have "covenant_decode_from_with_limit (maximum - (length p1 - start)) (cursor p1 (covenant_bytes (out_covenant out) @ suf)) =
      Inr (out_covenant out, cursor (p1 @ covenant_bytes (out_covenant out)) suf)"
    using ok fit p1(3) by (intro cov.reads) (simp_all add: covenant_ok_limit output_ok_def output_sized_def p1_def output_bytes_def)
  moreover have "address_decode_from (cursor (pre @ u64_to_le (out_value out))
      (address_bytes (out_address out) @ covenant_bytes (out_covenant out) @ suf)) =
      Inr (out_address out, cursor p1 (covenant_bytes (out_covenant out) @ suf))"
    using ok fit tx_addr.reads [of "out_address out" "pre @ u64_to_le (out_value out)"]
    by (simp add: output_ok_def output_sized_def output_bytes_def p1_def)
  moreover have "read_u64_le (cursor pre (output_bytes out @ suf)) = Inr (out_value out,
      cursor (pre @ u64_to_le (out_value out)) (address_bytes (out_address out) @ covenant_bytes (out_covenant out) @ suf))"
    using fit by (simp add: output_bytes_def)
  ultimately have "output_decode_from start maximum (cursor pre (output_bytes out @ suf)) =
      Inr (out, cursor (p1 @ covenant_bytes (out_covenant out)) suf)"
    using p1 by (simp add: output_decode_from_def dbind_run budget_run)
  then show "output_decode_from start maximum (cursor pre (output_bytes out @ suf)) =
      Inr (out, cursor (pre @ output_bytes out) suf)"
    by (simp add: p1_def output_bytes_def)
next
  fix start maximum pre rest out d'
  assume run: "output_decode_from start maximum (cursor pre rest) = Inr (out, d')" and start: "start \<le> length pre"
  then show "output_ok out \<and> length (pre @ output_bytes out) - start \<le> maximum \<and>
      (\<exists>suf. rest = output_bytes out @ suf \<and> d' = cursor (pre @ output_bytes out) suf)"
    by (auto simp: output_decode_from_def dbind_eq_Inr output_bytes_def output_ok_def output_sized_def covenant_ok_limit
        dest!: u64.reads_back tx_addr.reads_back cov.reads_back split: if_splits)
qed

definition bare_input :: "tx_input \<Rightarrow> tx_input" where
  "bare_input i = i\<lparr>in_witness := []\<rparr>"

lemma bare_inputs:
  "map input_bytes (map bare_input is) = map input_bytes is"
  "map2 (\<lambda>i w. i\<lparr>in_witness := w\<rparr>) (map bare_input is) (map in_witness is) = is"
  by (induction "is") (simp_all add: input_bytes_def bare_input_def)

lemma map2_witness:
  assumes "length ws = length is" and "\<forall>i \<in> set is. in_witness i = []"
  shows "map bare_input (map2 (\<lambda>i w. i\<lparr>in_witness := w\<rparr>) is ws) = is"
    and "map in_witness (map2 (\<lambda>i w. i\<lparr>in_witness := w\<rparr>) is ws) = ws"
  using assms
  by (induction ws "is" rule: list_induct2) (auto simp: bare_input_def)

text \<open>The decoder up to the lock time, and the budget it leaves for the witnesses.\<close>

definition read_tx_base :: "nat \<Rightarrow> (transaction_error, u32 \<times> tx_input list \<times> tx_output list \<times> u32) reader" where
  "read_tx_base start =
     dbind (dlift TxDecode read_u32_le) (\<lambda>version.
     dbind (dlift TxDecode (read_compact_usize 25000)) (\<lambda>input_count.
     dbind (remaining_decode_budget start max_transaction_size) (\<lambda>_.
     dbind (read_times input_count (read_input start max_transaction_size)) (\<lambda>inputs.
     dbind (dlift TxDecode (read_compact_usize 83333)) (\<lambda>output_count.
     dbind (remaining_decode_budget start max_transaction_size) (\<lambda>_.
     dbind (read_times output_count (output_decode_from start max_transaction_size)) (\<lambda>outputs.
     dbind (dlift TxDecode read_u32_le) (\<lambda>locktime.
       dreturn (version, inputs, outputs, locktime)))))))))"

definition witness_budget :: "nat \<Rightarrow> nat" where
  "witness_budget base = min (base + (4000000 - base * 4)) 4000000"

definition read_tx_witnesses ::
  "nat \<Rightarrow> u32 \<times> tx_input list \<times> tx_output list \<times> u32 \<Rightarrow> (transaction_error, transaction) reader" where
  "read_tx_witnesses start = (\<lambda>(version, inputs, outputs, locktime).
     dbind decoder_position (\<lambda>position.
     dbind (remaining_decode_budget start max_transaction_size) (\<lambda>_.
     dbind (read_times (length inputs) (witness_decode_from start (witness_budget (position - start)))) (\<lambda>witnesses.
     dbind (remaining_decode_budget start (witness_budget (position - start))) (\<lambda>_.
       dreturn \<lparr>tx_version = version,
         tx_inputs = map2 (\<lambda>i w. i\<lparr>in_witness := w\<rparr>) inputs witnesses,
         tx_outputs = outputs, tx_locktime = locktime\<rparr>)))))"

lemma dbind_assoc: "dbind (dbind p f) g = dbind p (\<lambda>x. dbind (f x) g)"
  by (rule ext) (auto simp: dbind_def bind_res_assoc split_def)

lemma dbind_return [simp]: "dbind (dreturn x) f = f x" "dbind (dcheck (Inr x)) f = f x"
  by (rule ext, simp add: dbind_def)+

lemma dbind_position: "dbind decoder_position f d = f (dec_position d) d"
  by (simp add: dbind_def)

lemma tx_decode_from_split:
  "tx_decode_from (cursor pre rest) =
     dbind (read_tx_base (length pre)) (read_tx_witnesses (length pre)) (cursor pre rest)"
proof -
  have tail: "dbind decoder_position (\<lambda>position.
     dbind (remaining_decode_budget start max_transaction_size) (\<lambda>_.
     dbind (dcheck (ok_or (checked_mul_usize (position - start) 4) ArithmeticOverflow)) (\<lambda>base_weight.
     dbind (dcheck (ok_or (checked_sub_usize max_transaction_weight base_weight)
       (TxTooLarge base_weight max_transaction_weight))) (\<lambda>spare.
     dbind (dcheck (ok_or (checked_add_usize (position - start) spare) ArithmeticOverflow)) (\<lambda>total.
     let maximum = min total max_transaction_raw_size in
     dbind (read_times (length inputs) (witness_decode_from start maximum)) (\<lambda>witnesses.
     dbind (remaining_decode_budget start maximum) (\<lambda>_.
       dreturn \<lparr>tx_version = version,
         tx_inputs = map2 (\<lambda>i w. i\<lparr>in_witness := w\<rparr>) inputs witnesses,
         tx_outputs = outputs, tx_locktime = locktime\<rparr>))))))) d =
     read_tx_witnesses start (version, inputs, outputs, locktime) d"
    for start version inputs outputs locktime d
  proof (cases "dec_position d - start \<le> max_transaction_size")
    case True
    define p where "p = dec_position d - start"
    have "checked_mul_usize p 4 = Some (p * 4)"
      "checked_sub_usize max_transaction_weight (p * 4) = Some (4000000 - p * 4)"
      "checked_add_usize p (4000000 - p * 4) = Some (p + (4000000 - p * 4))"
      using True by (simp_all add: p_def [symmetric] checked_mul_usize_def checked_sub_usize_def
          checked_add_usize_def transaction_limits usize_max_def)
    then show ?thesis
      by (simp add: read_tx_witnesses_def dbind_position p_def [symmetric] witness_budget_def Let_def
          max_transaction_raw_size_def)
  next
    case False
    then show ?thesis
      by (simp add: read_tx_witnesses_def dbind_position remaining_decode_budget_def dbind_def)
  qed
  have limits: "max_transaction_size div 40 = 25000" "max_transaction_size div 12 = 83333"
    by (simp_all add: max_transaction_size_def)
  show ?thesis
    unfolding tx_decode_from_def read_tx_base_def tail limits dbind_assoc dbind_return
    by (simp only: dbind_position cursor_sel tail)
qed

definition tx_ok :: "transaction \<Rightarrow> bool" where
  "tx_ok tx \<longleftrightarrow> inputs_ok tx \<and> (\<forall>out \<in> set (tx_outputs tx). kind_ok (cov_kind (out_covenant out)))"

lemma read_tx_base_run:
  assumes ins: "inputs_ok tx" and sized: "base_sized tx" and outs: "\<forall>out \<in> set (tx_outputs tx). output_ok out"
    and fit: "fits pre (tx_base_bytes tx @ suf)"
  shows "read_tx_base (length pre) (cursor pre (tx_base_bytes tx @ suf)) =
    Inr ((tx_version tx, map bare_input (tx_inputs tx), tx_outputs tx, tx_locktime tx), cursor (pre @ tx_base_bytes tx) suf)"
proof -
  define ins1 outs1 where "ins1 = tx_inputs tx" and "outs1 = tx_outputs tx"
  define p1 where "p1 = pre @ u32_to_le (tx_version tx) @ len_bytes (length ins1)"
  define p2 where "p2 = p1 @ concat (map input_bytes ins1)"
  define p3 where "p3 = p2 @ len_bytes (length outs1)"
  define p4 where "p4 = p3 @ concat (map output_bytes outs1)"
  have bytes: "pre @ tx_base_bytes tx = p4 @ u32_to_le (tx_locktime tx)"
    by (simp add: tx_base_bytes_def p1_def p2_def p3_def p4_def ins1_def outs1_def)
  have len: "length (p4 @ u32_to_le (tx_locktime tx)) - length pre \<le> max_transaction_size"
    unfolding bytes [symmetric] using sized by (simp add: base_sized_def)
  have fit': "fits p4 (u32_to_le (tx_locktime tx) @ suf)" using fit unfolding fits_append [symmetric] bytes by simp
  have counts: "length ins1 \<le> 25000" "length outs1 \<le> 83333" "length ins1 \<le> usize_max" "length outs1 \<le> usize_max"
    using sized by (simp_all add: base_sized_def ins1_def outs1_def usize_max_def)
  have ins': "read_times (length ins1) (read_input (length pre) max_transaction_size)
      (cursor p1 (concat (map input_bytes ins1) @ len_bytes (length outs1) @ concat (map output_bytes outs1) @ u32_to_le (tx_locktime tx) @ suf)) =
      Inr (map bare_input ins1, cursor p2 (len_bytes (length outs1) @ concat (map output_bytes outs1) @ u32_to_le (tx_locktime tx) @ suf))"
    using tx_in.times_within [of "map bare_input ins1" p1 _ "length pre" max_transaction_size] ins len fit'
    unfolding bare_inputs by (simp add: bare_input_def inputs_ok_def ins1_def [symmetric] p2_def p3_def p4_def p1_def)
  have outs': "read_times (length outs1) (output_decode_from (length pre) max_transaction_size)
      (cursor p3 (concat (map output_bytes outs1) @ u32_to_le (tx_locktime tx) @ suf)) = Inr (outs1, cursor p4 (u32_to_le (tx_locktime tx) @ suf))"
    using tx_out.times_within [of outs1 p3 _ "length pre" max_transaction_size] outs len fit'
    by (simp add: outs1_def [symmetric] p3_def p4_def p2_def p1_def)
  define r3 where "r3 = concat (map output_bytes outs1) @ u32_to_le (tx_locktime tx) @ suf"
  define r1 where "r1 = concat (map input_bytes ins1) @ len_bytes (length outs1) @ r3"
  have fits: "fits pre (u32_to_le (tx_version tx) @ len_bytes (length ins1) @ r1)"
    "fits p2 (len_bytes (length outs1) @ r3)"
    using fit' by (simp_all add: r1_def r3_def p1_def p2_def p3_def p4_def)
  have "tx_base_bytes tx @ suf = u32_to_le (tx_version tx) @ len_bytes (length ins1) @ r1"
    by (simp add: tx_base_bytes_def ins1_def outs1_def r1_def r3_def)
  moreover have "read_compact_usize 25000 (cursor (pre @ u32_to_le (tx_version tx)) (len_bytes (length ins1) @ r1)) =
      Inr (length ins1, cursor p1 r1)"
    using fits counts by (simp add: len.reads p1_def)
  moreover have "read_compact_usize 83333 (cursor p2 (len_bytes (length outs1) @ r3)) = Inr (length outs1, cursor p3 r3)"
    using fits counts by (simp add: len.reads p3_def)
  moreover have "length p1 - length pre \<le> max_transaction_size" "length p3 - length pre \<le> max_transaction_size"
    using len by (simp_all add: p4_def p3_def p2_def)
  ultimately show ?thesis
    using ins' outs' fit' fits unfolding bytes r1_def [symmetric] r3_def [symmetric]
    by (simp add: read_tx_base_def dbind_run budget_run ins1_def [symmetric] outs1_def [symmetric])
qed

lemma read_tx_base_back:
  assumes "read_tx_base (length pre) (cursor pre rest) = Inr ((version, inputs, outputs, locktime), d')"
  defines "tx \<equiv> \<lparr>tx_version = version, tx_inputs = inputs, tx_outputs = outputs, tx_locktime = locktime\<rparr>"
  shows "inputs_ok tx \<and> (\<forall>i \<in> set inputs. in_witness i = []) \<and> length inputs \<le> 25000 \<and> length outputs \<le> 83333 \<and>
    (\<forall>out \<in> set outputs. output_ok out) \<and>
    (\<exists>suf. rest = tx_base_bytes tx @ suf \<and> d' = cursor (pre @ tx_base_bytes tx) suf)"
proof -
  from assms obtain d1 n d2 d3 m d4 d5 where
    1: "read_u32_le (cursor pre rest) = Inr (version, d1)" and 2: "read_compact_usize 25000 d1 = Inr (n, d2)"
    and 3: "dbind (remaining_decode_budget (length pre) max_transaction_size)
      (\<lambda>_. read_times n (read_input (length pre) max_transaction_size)) d2 = Inr (inputs, d3)"
    and 4: "read_compact_usize 83333 d3 = Inr (m, d4)"
    and 5: "dbind (remaining_decode_budget (length pre) max_transaction_size)
      (\<lambda>_. read_times m (output_decode_from (length pre) max_transaction_size)) d4 = Inr (outputs, d5)"
    and 6: "read_u32_le d5 = Inr (locktime, d')"
    unfolding read_tx_base_def by (fastforce simp: dbind_eq_Inr)
  from u32.reads_back [OF 1] obtain s1 where s1: "rest = u32_to_le version @ s1"
    and d1: "d1 = cursor (pre @ u32_to_le version) s1" by auto
  from len.reads_back [OF 2 [unfolded d1]] obtain s2 where s2: "s1 = len_bytes n @ s2" "n \<le> 25000"
    and d2: "d2 = cursor (pre @ u32_to_le version @ len_bytes n) s2" by auto
  from 3 [unfolded d2] tx_in.times_within_back obtain s3 where
    s3: "length inputs = n" "\<forall>i \<in> set inputs. outpoint_ok (in_previous_output i) \<and> in_witness i = []"
      "s2 = concat (map input_bytes inputs) @ s3"
    and d3: "d3 = cursor (pre @ u32_to_le version @ len_bytes n @ concat (map input_bytes inputs)) s3"
    unfolding budget_back by fastforce
  from len.reads_back [OF 4 [unfolded d3]] obtain s4 where s4: "s3 = len_bytes m @ s4" "m \<le> 83333"
    and d4: "d4 = cursor (pre @ u32_to_le version @ len_bytes n @ concat (map input_bytes inputs) @ len_bytes m) s4" by auto
  from 5 [unfolded d4] tx_out.times_within_back obtain s5 where
    s5: "length outputs = m" "\<forall>out \<in> set outputs. output_ok out" "s4 = concat (map output_bytes outputs) @ s5"
    and d5: "d5 = cursor (pre @ u32_to_le version @ len_bytes n @ concat (map input_bytes inputs) @ len_bytes m @
      concat (map output_bytes outputs)) s5"
    unfolding budget_back by fastforce
  from u32.reads_back [OF 6 [unfolded d5]] s1 s2 s3 s4 s5 show ?thesis
    by (auto simp: tx_def tx_base_bytes_def inputs_ok_def)
qed

lemma witness_budget_iff:
  "b \<le> max_transaction_size \<Longrightarrow> b + w \<le> witness_budget b \<longleftrightarrow> 4 * b + w \<le> max_transaction_weight"
  by (auto simp: witness_budget_def transaction_limits)

interpretation tx: codec tx_bytes tx_decode_from "\<lambda>tx. tx_ok tx \<and> tx_sized tx"
proof
  fix tx pre suf
  assume ok: "tx_ok tx \<and> tx_sized tx" and fit: "fits pre (tx_bytes tx @ suf)"
  define p where "p = pre @ tx_base_bytes tx"
  define b where "b = length (tx_base_bytes tx)"
  have outs: "\<forall>out \<in> set (tx_outputs tx). output_ok out"
    using ok by (simp add: tx_ok_def tx_sized_def base_sized_def output_ok_def)
  have b: "b \<le> max_transaction_size" "b + length (tx_witness_bytes tx) \<le> witness_budget b"
    using ok witness_budget_iff by (simp_all add: b_def tx_sized_def base_sized_def)
  have base: "read_tx_base (length pre) (cursor pre (tx_bytes tx @ suf)) =
      Inr ((tx_version tx, map bare_input (tx_inputs tx), tx_outputs tx, tx_locktime tx), cursor p (tx_witness_bytes tx @ suf))"
    using read_tx_base_run [OF _ _ outs, of pre "tx_witness_bytes tx @ suf"] ok fit
    by (simp add: tx_ok_def tx_sized_def tx_bytes_def p_def)
  have wit: "read_times (length (tx_inputs tx)) (witness_decode_from (length pre) (witness_budget b))
      (cursor p (tx_witness_bytes tx @ suf)) = Inr (map in_witness (tx_inputs tx), cursor (pre @ tx_bytes tx) suf)"
    using tx_wit.times_within [of "map in_witness (tx_inputs tx)" p suf "length pre" "witness_budget b"] ok fit b(2)
    by (simp add: tx_sized_def p_def tx_bytes_def tx_witness_bytes_def b_def)
  show "tx_decode_from (cursor pre (tx_bytes tx @ suf)) = Inr (tx, cursor (pre @ tx_bytes tx) suf)"
    unfolding tx_decode_from_split using base wit b
    by (simp add: dbind_run read_tx_witnesses_def dbind_position budget_run p_def b_def [symmetric] bare_inputs tx_bytes_def)
next
  fix pre rest tx d'
  assume "tx_decode_from (cursor pre rest) = Inr (tx, d')"
  then obtain version inputs outputs locktime d1 where
    base: "read_tx_base (length pre) (cursor pre rest) = Inr ((version, inputs, outputs, locktime), d1)"
    and wit: "read_tx_witnesses (length pre) (version, inputs, outputs, locktime) d1 = Inr (tx, d')"
    unfolding tx_decode_from_split by (auto simp: dbind_eq_Inr)
  define tx0 where "tx0 = \<lparr>tx_version = version, tx_inputs = inputs, tx_outputs = outputs, tx_locktime = locktime\<rparr>"
  define b where "b = length (tx_base_bytes tx0)"
  from read_tx_base_back [OF base, folded tx0_def] obtain s where
    ins: "inputs_ok tx0" "\<forall>i \<in> set inputs. in_witness i = []" "length inputs \<le> 25000" "length outputs \<le> 83333"
    and outs: "\<forall>out \<in> set outputs. output_ok out" and rest: "rest = tx_base_bytes tx0 @ s"
    and d1: "d1 = cursor (pre @ tx_base_bytes tx0) s" by auto
  from wit d1 obtain ws d2 where b: "b \<le> max_transaction_size"
    and ws: "read_times (length inputs) (witness_decode_from (length pre) (witness_budget b)) d1 = Inr (ws, d2)"
    and tx: "tx = tx0\<lparr>tx_inputs := map2 (\<lambda>i w. i\<lparr>in_witness := w\<rparr>) inputs ws\<rparr>" and d2: "d' = d2"
    by (fastforce simp: read_tx_witnesses_def dbind_position budget_back b_def tx0_def dbind_eq_Inr
        remaining_decode_budget_def Let_def split: if_splits)
  have "b \<le> witness_budget b" using b by (simp add: witness_budget_def transaction_limits)
  with tx_wit.times_within_back [OF ws [unfolded d1]] obtain suf where
    w: "length ws = length inputs" "\<forall>w \<in> set ws. witness_ok w" "s = concat (map witness_bytes ws) @ suf"
      "b + length (concat (map witness_bytes ws)) \<le> witness_budget b"
    and d': "d' = cursor (pre @ tx_base_bytes tx0 @ concat (map witness_bytes ws)) suf"
    by (auto simp: b_def d2)
  note m2 = map2_witness [OF w(1) ins(2)]
  have ib: "map input_bytes (map2 (\<lambda>i w. i\<lparr>in_witness := w\<rparr>) inputs ws) = map input_bytes inputs"
    using bare_inputs(1) [of "map2 (\<lambda>i w. i\<lparr>in_witness := w\<rparr>) inputs ws"] unfolding m2(1) ..
  have parts: "tx_base_bytes tx = tx_base_bytes tx0" "tx_witness_bytes tx = concat (map witness_bytes ws)"
    "inputs_ok tx" "tx_outputs tx = outputs" "length (tx_inputs tx) = length inputs"
    using ib m2(2) w(1) ins(1)
    by (auto simp: tx tx0_def tx_base_bytes_def tx_witness_bytes_def inputs_ok_def dest: set_zip_leftD)
  have "\<forall>i \<in> set (tx_inputs tx). witness_ok (in_witness i)"
    using w(2) m2(2) tx by (metis (no_types, lifting) image_eqI list.set_map transaction.select_convs(2) transaction.surjective transaction.update_convs(2))
  then show "(tx_ok tx \<and> tx_sized tx) \<and> (\<exists>suf. rest = tx_bytes tx @ suf \<and> d' = cursor (pre @ tx_bytes tx) suf)"
    using parts ins outs w(3,4) b d' rest witness_budget_iff [OF b]
    by (auto simp: tx_ok_def tx_sized_def base_sized_def tx_bytes_def output_ok_def b_def)
qed

section \<open>Exactness\<close>

lemma tx_decode_iff:
  "tx_decode bs = Inr t \<longleftrightarrow> tx_ok t \<and> tx_encode t = Inr bs"
proof
  assume "tx_decode bs = Inr t"
  then obtain d where rd: "tx_decode_from (cursor [] bs) = Inr (t, d)" and fin: "decoder_finish d = Inr ()"
    by (auto simp: tx_decode_def decoder_new_cursor bind_res_eq_Inr split: if_splits)
  from tx.reads_back [OF rd] fin show "tx_ok t \<and> tx_encode t = Inr bs"
    by (auto simp: tx_ok_def tx_encode_iff split: if_splits)
next
  assume "tx_ok t \<and> tx_encode t = Inr bs"
  then have t: "tx_ok t" "tx_sized t" "bs = tx_bytes t" by (auto simp: tx_ok_def tx_encode_iff)
  then have len: "length bs \<le> max_transaction_raw_size"
    by (simp add: tx_sized_def base_sized_def tx_bytes_def transaction_limits)
  then have "fits [] (tx_bytes t @ [])" using t by (simp add: fits_def transaction_limits usize_max_def)
  with tx.reads [of t "[]" "[]"] t len show "tx_decode bs = Inr t"
    by (simp add: tx_decode_def decoder_new_cursor)
qed

text \<open>
  C10: transaction decoding is the inverse of encoding. An input decodes to a transaction if
  and only if that transaction is canonical (32-byte outpoint hashes, no unknown covenant
  kind that shadows a known one) and encodes to that input. In particular the decoding
  budgets accept exactly what the size and weight limits of the encoder accept.
\<close>

theorem transaction_codec_exact:
  "tx_decode bs = Inr t \<longleftrightarrow> tx_ok t \<and> tx_encode t = Inr bs"
  by (rule tx_decode_iff)

text \<open>
  The declared sizes are the real ones. Whenever a transaction encodes, its computed
  size is the length of the encoding, its weight is four times the base length plus the
  witness length and stays within the consensus maximum, and the two halves of the
  encoding are the base and witness encodings that the hashes commit to.
\<close>

theorem transaction_sizes_exact:
  assumes "tx_ok t" and "tx_encode t = Inr bs"
  shows "\<exists>base witness. tx_base_encode t = Inr base \<and> tx_witness_encode t = Inr witness \<and>
    bs = base @ witness \<and> tx_size t = Inr (length bs) \<and>
    tx_weight t = Inr (4 * length base + length witness) \<and>
    4 * length base + length witness \<le> 4000000 \<and> length base \<le> 1000000"
proof -
  from assms have ins: "inputs_ok t" and sized: "tx_sized t" and bs: "bs = tx_bytes t"
    by (auto simp: tx_ok_def tx_encode_iff)
  have lens: "length (tx_witness_bytes t) \<le> 4000000" "length (tx_base_bytes t) \<le> 1000000"
    "4 * length (tx_base_bytes t) + length (tx_witness_bytes t) \<le> 4000000"
    using sized by (simp_all add: tx_sized_def base_sized_def transaction_limits)
  have "tx_base_encode t = Inr (tx_base_bytes t)"
    using sized by (simp add: tx_base_encode_iff [OF ins] tx_sized_def)
  moreover have "tx_witness_encode t = Inr (tx_witness_bytes t)"
    using sized lens by (simp add: tx_witness_encode_iff tx_sized_def max_transaction_raw_size_def)
  moreover have sizes: "tx_encoded_sizes t = Inr (length (tx_base_bytes t), length (tx_witness_bytes t))"
    using sized by (simp add: tx_encoded_sizes_iff [OF ins])
  moreover have "tx_size t = Inr (length bs)"
    using sizes lens by (simp add: tx_size_def bs tx_bytes_def checked_add_usize_def usize_max_def)
  moreover have "tx_weight t = Inr (4 * length (tx_base_bytes t) + length (tx_witness_bytes t))"
    using sizes lens by (simp add: tx_weight_def transaction_weight_iff max_transaction_weight_def)
  ultimately show ?thesis using lens bs by (auto simp: tx_bytes_def)
qed

definition sample_tx :: transaction where
  "sample_tx = \<lparr>tx_version = 0,
     tx_inputs = [\<lparr>in_previous_output = outpoint_null, in_sequence = 7, in_witness = [[1, 2]]\<rparr>],
     tx_outputs = [\<lparr>out_value = 5, out_address = \<lparr>addr_version = 0, addr_hash = replicate 20 9\<rparr>,
       out_covenant = covenant_default\<rparr>], tx_locktime = 3\<rparr>"

lemma sample_tx_ok: "tx_ok sample_tx" "tx_sized sample_tx"
  by (simp_all add: sample_tx_def tx_ok_def inputs_ok_def kind_ok_def covenant_default_def tx_sized_def base_sized_def
      output_sized_def address_ok_def covenant_sized_def witness_ok_def tx_base_bytes_def tx_witness_bytes_def
      input_bytes_def output_bytes_def address_bytes_def covenant_bytes_eq witness_bytes_def var_bytes_len len_bytes_def
      length_compact_bytes outpoint_null_def outpoint_ok_def transaction_limits covenant_limits)

theorem transaction_sizes_exact_witness:
  "\<exists>base witness. tx_base_encode sample_tx = Inr base \<and> tx_witness_encode sample_tx = Inr witness \<and>
    tx_encode sample_tx = Inr (base @ witness) \<and> tx_weight sample_tx = Inr (4 * length base + length witness)"
proof -
  have enc: "tx_encode sample_tx = Inr (tx_bytes sample_tx)"
    using sample_tx_ok by (simp add: tx_encode_iff tx_ok_def)
  from transaction_sizes_exact [OF sample_tx_ok(1) enc] enc show ?thesis by auto
qed

end
