(* ===== verification/Linkage.thy ===== *)
theory Linkage
  imports Transaction
begin

text \<open>
  Model of \<^verbatim>\<open>crates/hns-transaction/src/linkage.rs\<close>: the covenant transition rules between
  the coins a transaction spends and the outputs at the same index. The permitted
  transitions are stated as the inductive relation \<open>link_allowed\<close>; the verifier is proved to
  accept exactly the transactions whose inputs all follow it. The parameter \<open>blake2b\<close> is the
  hash of the blinded bids.
\<close>

record covenant_link_summary =
  cls_inputs_checked :: nat
  cls_linked_outputs :: nat
  cls_name_inputs :: nat

datatype covenant_link_error =
    CoinbaseRequiresIssuanceVerifier
  | InputCountMismatch nat nat
  | CoinOutpointMismatch nat outpoint outpoint
  | MissingLinkedOutput nat covenant_kind
  | InvalidTransition nat covenant_kind covenant_kind
  | MalformedCovenant nat string
  | NameHashMismatch nat
  | StartHeightMismatch nat
  | BlindCommitmentMismatch nat
  | BidValueInflation nat
  | ClaimCannotRedeem nat
  | AddressMismatch nat
  | LockedValueMismatch nat
  | TransferDestinationMismatch nat
  | RevokedCoinSpent nat
  | UnknownCovenantCreatesName nat covenant_kind
  | UnpairedLinkedOutput nat covenant_kind

section \<open>Field access and single requirements\<close>

definition required_item :: "nat \<Rightarrow> covenant \<Rightarrow> nat \<Rightarrow> string \<Rightarrow> covenant_link_error + bytes" where
  "required_item input_index c item_index field =
     ok_or (cov_item c item_index) (MalformedCovenant input_index field)"

definition required_u8 :: "nat \<Rightarrow> covenant \<Rightarrow> nat \<Rightarrow> string \<Rightarrow> covenant_link_error + byte" where
  "required_u8 input_index c item_index field =
     ok_or (cov_item_u8 c item_index) (MalformedCovenant input_index field)"

definition required_u32 :: "nat \<Rightarrow> covenant \<Rightarrow> nat \<Rightarrow> string \<Rightarrow> covenant_link_error + u32" where
  "required_u32 input_index c item_index field =
     ok_or (cov_item_u32 c item_index) (MalformedCovenant input_index field)"

definition required_hash :: "nat \<Rightarrow> covenant \<Rightarrow> nat \<Rightarrow> string \<Rightarrow> covenant_link_error + bytes" where
  "required_hash input_index c item_index field =
     bind_res (required_item input_index c item_index field) (\<lambda>item.
       ok_or (as_array 32 item) (MalformedCovenant input_index field))"

definition require_linked_output ::
  "nat \<Rightarrow> covenant_kind \<Rightarrow> tx_output option \<Rightarrow> covenant_link_error + tx_output" where
  "require_linked_output input_index from out = ok_or out (MissingLinkedOutput input_index from)"

definition require_transition ::
  "nat \<Rightarrow> covenant_kind \<Rightarrow> tx_output \<Rightarrow> covenant_kind \<Rightarrow> covenant_link_error + unit" where
  "require_transition input_index from out expected =
     (if cov_kind (out_covenant out) \<noteq> expected
      then Inl (InvalidTransition input_index from (cov_kind (out_covenant out))) else Inr ())"

definition require_name_and_start_match :: "nat \<Rightarrow> covenant \<Rightarrow> covenant \<Rightarrow> covenant_link_error + unit" where
  "require_name_and_start_match input_index spent created =
     bind_res (required_hash input_index spent 0 ''spent name'') (\<lambda>spent_name.
     bind_res (required_hash input_index created 0 ''created name'') (\<lambda>created_name.
     if spent_name \<noteq> created_name then Inl (NameHashMismatch input_index)
     else
     bind_res (required_u32 input_index spent 1 ''spent start'') (\<lambda>spent_start.
     bind_res (required_u32 input_index created 1 ''created start'') (\<lambda>created_start.
     if spent_start \<noteq> created_start then Inl (StartHeightMismatch input_index) else Inr ()))))"

definition require_locked_value :: "nat \<Rightarrow> coin \<Rightarrow> tx_output \<Rightarrow> covenant_link_error + unit" where
  "require_locked_value input_index coin out =
     (if out_value out \<noteq> coin_value coin then Inl (LockedValueMismatch input_index) else Inr ())"

definition require_address_match :: "nat \<Rightarrow> address \<Rightarrow> tx_output \<Rightarrow> covenant_link_error + unit" where
  "require_address_match input_index expected out =
     (if out_address out \<noteq> expected then Inl (AddressMismatch input_index) else Inr ())"

section \<open>The transition match\<close>

text \<open>Each arm returns whether the output was linked.\<close>

definition link_free :: "nat \<Rightarrow> covenant_kind \<Rightarrow> tx_output option \<Rightarrow> covenant_link_error + bool" where
  "link_free input_index spent_kind out =
     (case out of
        None \<Rightarrow> Inr False
      | Some out \<Rightarrow>
          if cov_kind (out_covenant out) \<notin> {CNone, Open, Bid}
          then Inl (InvalidTransition input_index spent_kind (cov_kind (out_covenant out)))
          else Inr False)"

definition link_bid ::
  "(bytes \<Rightarrow> bytes) \<Rightarrow> nat \<Rightarrow> coin \<Rightarrow> tx_output option \<Rightarrow> covenant_link_error + bool" where
  "link_bid blake2b input_index coin out =
     bind_res (require_linked_output input_index Bid out) (\<lambda>out.
     bind_res (require_transition input_index Bid out Reveal) (\<lambda>_.
     bind_res (require_name_and_start_match input_index (coin_covenant coin) (out_covenant out)) (\<lambda>_.
     bind_res (required_hash input_index (out_covenant out) 2 ''reveal nonce'') (\<lambda>nonce.
     bind_res (required_hash input_index (coin_covenant coin) 3 ''bid commitment'') (\<lambda>commitment.
     if blind_bid blake2b (out_value out) nonce \<noteq> commitment
     then Inl (BlindCommitmentMismatch input_index)
     else if coin_value coin < out_value out then Inl (BidValueInflation input_index)
     else Inr True)))))"

definition link_award ::
  "nat \<Rightarrow> covenant_kind \<Rightarrow> coin \<Rightarrow> tx_output option \<Rightarrow> covenant_link_error + bool" where
  "link_award input_index spent_kind coin out =
     bind_res (require_linked_output input_index spent_kind out) (\<lambda>out.
     if cov_kind (out_covenant out) = Register then
       bind_res (require_name_and_start_match input_index (coin_covenant coin) (out_covenant out)) (\<lambda>_.
       bind_res (require_address_match input_index (coin_address coin) out) (\<lambda>_. Inr True))
     else if cov_kind (out_covenant out) = Redeem then
       bind_res (require_name_and_start_match input_index (coin_covenant coin) (out_covenant out)) (\<lambda>_.
       if spent_kind = Claim then Inl (ClaimCannotRedeem input_index) else Inr True)
     else Inl (InvalidTransition input_index spent_kind (cov_kind (out_covenant out))))"

definition link_owned ::
  "nat \<Rightarrow> covenant_kind \<Rightarrow> coin \<Rightarrow> tx_output option \<Rightarrow> covenant_link_error + bool" where
  "link_owned input_index spent_kind coin out =
     bind_res (require_linked_output input_index spent_kind out) (\<lambda>out.
     bind_res (require_locked_value input_index coin out) (\<lambda>_.
     bind_res (require_address_match input_index (coin_address coin) out) (\<lambda>_.
     if cov_kind (out_covenant out) \<notin> {Update, Renew, Transfer, Revoke}
     then Inl (InvalidTransition input_index spent_kind (cov_kind (out_covenant out)))
     else bind_res (require_name_and_start_match input_index (coin_covenant coin) (out_covenant out)) (\<lambda>_.
       Inr True))))"

definition link_transfer :: "nat \<Rightarrow> coin \<Rightarrow> tx_output option \<Rightarrow> covenant_link_error + bool" where
  "link_transfer input_index coin out =
     bind_res (require_linked_output input_index Transfer out) (\<lambda>out.
     bind_res (require_locked_value input_index coin out) (\<lambda>_.
     if cov_kind (out_covenant out) \<in> {Update, Renew, Revoke} then
       bind_res (require_name_and_start_match input_index (coin_covenant coin) (out_covenant out)) (\<lambda>_.
       bind_res (require_address_match input_index (coin_address coin) out) (\<lambda>_. Inr True))
     else if cov_kind (out_covenant out) = Finalize then
       bind_res (require_name_and_start_match input_index (coin_covenant coin) (out_covenant out)) (\<lambda>_.
       bind_res (required_u8 input_index (coin_covenant coin) 2 ''transfer version'') (\<lambda>version.
       bind_res (required_item input_index (coin_covenant coin) 3 ''transfer hash'') (\<lambda>hash.
       if addr_version (out_address out) \<noteq> version \<or> addr_hash (out_address out) \<noteq> hash
       then Inl (TransferDestinationMismatch input_index) else Inr True)))
     else Inl (InvalidTransition input_index Transfer (cov_kind (out_covenant out)))))"

definition link_unknown :: "nat \<Rightarrow> tx_output option \<Rightarrow> covenant_link_error + bool" where
  "link_unknown input_index out =
     (case out of
        Some out \<Rightarrow> if kind_is_name (cov_kind (out_covenant out))
          then Inl (UnknownCovenantCreatesName input_index (cov_kind (out_covenant out))) else Inr False
      | None \<Rightarrow> Inr False)"

definition link_match ::
  "(bytes \<Rightarrow> bytes) \<Rightarrow> nat \<Rightarrow> coin \<Rightarrow> tx_output option \<Rightarrow> covenant_link_error + bool" where
  "link_match blake2b input_index coin out =
     (let spent_kind = cov_kind (coin_covenant coin) in
      case spent_kind of
        CNone \<Rightarrow> link_free input_index spent_kind out
      | Open \<Rightarrow> link_free input_index spent_kind out
      | Redeem \<Rightarrow> link_free input_index spent_kind out
      | Bid \<Rightarrow> link_bid blake2b input_index coin out
      | Claim \<Rightarrow> link_award input_index spent_kind coin out
      | Reveal \<Rightarrow> link_award input_index spent_kind coin out
      | Register \<Rightarrow> link_owned input_index spent_kind coin out
      | Update \<Rightarrow> link_owned input_index spent_kind coin out
      | Renew \<Rightarrow> link_owned input_index spent_kind coin out
      | Finalize \<Rightarrow> link_owned input_index spent_kind coin out
      | Transfer \<Rightarrow> link_transfer input_index coin out
      | Revoke \<Rightarrow> Inl (RevokedCoinSpent input_index)
      | CUnknown _ \<Rightarrow> link_unknown input_index out)"

definition link_step ::
  "(bytes \<Rightarrow> bytes) \<Rightarrow> transaction \<Rightarrow> nat \<times> tx_input \<times> coin \<Rightarrow> covenant_link_summary \<Rightarrow>
   covenant_link_error + covenant_link_summary" where
  "link_step blake2b tx = (\<lambda>(input_index, inp, coin) summary.
     if in_previous_output inp \<noteq> coin_outpoint coin
     then Inl (CoinOutpointMismatch input_index (in_previous_output inp) (coin_outpoint coin))
     else
       let summary = (if kind_is_name (cov_kind (coin_covenant coin))
         then summary\<lparr>cls_name_inputs := cls_name_inputs summary + 1\<rparr> else summary)
       in bind_res (link_match blake2b input_index coin (get (tx_outputs tx) input_index)) (\<lambda>linked.
            Inr (if linked then summary\<lparr>cls_linked_outputs := cls_linked_outputs summary + 1\<rparr> else summary)))"

definition unpaired_step :: "nat \<times> tx_output \<Rightarrow> unit \<Rightarrow> covenant_link_error + unit" where
  "unpaired_step = (\<lambda>(output_index, out) _.
     if kind_is_linked (cov_kind (out_covenant out))
     then Inl (UnpairedLinkedOutput output_index (cov_kind (out_covenant out))) else Inr ())"

definition verify_covenant_links ::
  "(bytes \<Rightarrow> bytes) \<Rightarrow> transaction \<Rightarrow> coin list \<Rightarrow> covenant_link_error + covenant_link_summary" where
  "verify_covenant_links blake2b tx input_coins =
     (if is_coinbase tx then Inl CoinbaseRequiresIssuanceVerifier
      else if length (tx_inputs tx) \<noteq> length input_coins
      then Inl (InputCountMismatch (length (tx_inputs tx)) (length input_coins))
      else
        bind_res (fold_res (link_step blake2b tx) (enumerate 0 (zip (tx_inputs tx) input_coins))
          \<lparr>cls_inputs_checked = length input_coins, cls_linked_outputs = 0, cls_name_inputs = 0\<rparr>) (\<lambda>summary.
        bind_res (fold_res unpaired_step (drop (length (tx_inputs tx)) (enumerate 0 (tx_outputs tx))) ()) (\<lambda>_.
          Inr summary)))"

section \<open>The transition relation\<close>

definition same_name :: "covenant \<Rightarrow> covenant \<Rightarrow> bool" where
  "same_name a b \<longleftrightarrow>
     cov_item_name_hash a 0 \<noteq> None \<and> cov_item_name_hash a 0 = cov_item_name_hash b 0 \<and>
     cov_item_u32 a 1 \<noteq> None \<and> cov_item_u32 a 1 = cov_item_u32 b 1"

inductive link_allowed :: "(bytes \<Rightarrow> bytes) \<Rightarrow> coin \<Rightarrow> tx_output option \<Rightarrow> bool" for H where
  free_alone: "cov_kind (coin_covenant c) \<in> {CNone, Open, Redeem} \<Longrightarrow> link_allowed H c None"
| free: "cov_kind (coin_covenant c) \<in> {CNone, Open, Redeem} \<Longrightarrow>
    cov_kind (out_covenant out) \<in> {CNone, Open, Bid} \<Longrightarrow> link_allowed H c (Some out)"
| reveal: "cov_kind (coin_covenant c) = Bid \<Longrightarrow> cov_kind (out_covenant out) = Reveal \<Longrightarrow>
    same_name (coin_covenant c) (out_covenant out) \<Longrightarrow>
    cov_item_name_hash (out_covenant out) 2 = Some nonce \<Longrightarrow>
    cov_item_name_hash (coin_covenant c) 3 = Some (blind_bid H (out_value out) nonce) \<Longrightarrow>
    out_value out \<le> coin_value c \<Longrightarrow> link_allowed H c (Some out)"
| award: "cov_kind (coin_covenant c) \<in> {Claim, Reveal} \<Longrightarrow> cov_kind (out_covenant out) = Register \<Longrightarrow>
    same_name (coin_covenant c) (out_covenant out) \<Longrightarrow> out_address out = coin_address c \<Longrightarrow>
    link_allowed H c (Some out)"
| redeem: "cov_kind (coin_covenant c) = Reveal \<Longrightarrow> cov_kind (out_covenant out) = Redeem \<Longrightarrow>
    same_name (coin_covenant c) (out_covenant out) \<Longrightarrow> link_allowed H c (Some out)"
| owned: "cov_kind (coin_covenant c) \<in> {Register, Update, Renew, Finalize} \<Longrightarrow>
    cov_kind (out_covenant out) \<in> {Update, Renew, Transfer, Revoke} \<Longrightarrow>
    same_name (coin_covenant c) (out_covenant out) \<Longrightarrow> out_value out = coin_value c \<Longrightarrow>
    out_address out = coin_address c \<Longrightarrow> link_allowed H c (Some out)"
| cancel: "cov_kind (coin_covenant c) = Transfer \<Longrightarrow>
    cov_kind (out_covenant out) \<in> {Update, Renew, Revoke} \<Longrightarrow>
    same_name (coin_covenant c) (out_covenant out) \<Longrightarrow> out_value out = coin_value c \<Longrightarrow>
    out_address out = coin_address c \<Longrightarrow> link_allowed H c (Some out)"
| finalize: "cov_kind (coin_covenant c) = Transfer \<Longrightarrow> cov_kind (out_covenant out) = Finalize \<Longrightarrow>
    same_name (coin_covenant c) (out_covenant out) \<Longrightarrow> out_value out = coin_value c \<Longrightarrow>
    cov_item_u8 (coin_covenant c) 2 = Some (addr_version (out_address out)) \<Longrightarrow>
    cov_item (coin_covenant c) 3 = Some (addr_hash (out_address out)) \<Longrightarrow> link_allowed H c (Some out)"
| unknown_alone: "cov_kind (coin_covenant c) = CUnknown k \<Longrightarrow> link_allowed H c None"
| unknown: "cov_kind (coin_covenant c) = CUnknown k \<Longrightarrow> \<not> kind_is_name (cov_kind (out_covenant out)) \<Longrightarrow>
    link_allowed H c (Some out)"

inductive_cases link_allowedE: "link_allowed H c out"

lemma required_hash_iff [simp]:
  "required_hash i c k f = Inr h \<longleftrightarrow> cov_item_name_hash c k = Some h"
  by (auto simp: required_hash_def required_item_def bind_res_eq_Inr cov_item_name_hash_def Option.bind_eq_Some_conv)

lemma required_iff [simp]:
  "required_item i c k f = Inr v \<longleftrightarrow> cov_item c k = Some v"
  "required_u8 i c k f = Inr b \<longleftrightarrow> cov_item_u8 c k = Some b"
  "required_u32 i c k f = Inr w \<longleftrightarrow> cov_item_u32 c k = Some w"
  by (simp_all add: required_item_def required_u8_def required_u32_def)

lemma require_iff [simp]:
  "require_linked_output i k out = Inr x \<longleftrightarrow> out = Some x"
  "require_transition i k x k' = Inr u \<longleftrightarrow> cov_kind (out_covenant x) = k'"
  "require_locked_value i coin x = Inr u \<longleftrightarrow> out_value x = coin_value coin"
  "require_address_match i a x = Inr u \<longleftrightarrow> out_address x = a"
  by (auto simp: require_linked_output_def require_transition_def require_locked_value_def require_address_match_def)

lemma require_name_iff [simp]:
  "require_name_and_start_match i a b = Inr u \<longleftrightarrow> same_name a b"
  by (cases "cov_item_u32 b 1")
    (auto simp: require_name_and_start_match_def same_name_def bind_res_eq_Inr split: if_splits)

lemma link_match_exact: "is_ok (link_match H i c out) \<longleftrightarrow> link_allowed H c out"
proof
  assume "is_ok (link_match H i c out)"
  then obtain b where "link_match H i c out = Inr b" by (auto simp: is_ok_iff)
  then show "link_allowed H c out"
    by (auto simp: link_match_def Let_def link_free_def link_bid_def link_award_def link_owned_def link_transfer_def
        link_unknown_def bind_res_eq_Inr not_less split: covenant_kind.splits option.splits if_splits
        intro: link_allowed.intros)
next
  assume "link_allowed H c out"
  then show "is_ok (link_match H i c out)"
    by cases (auto simp: link_match_def Let_def link_free_def link_bid_def link_award_def link_owned_def
        link_transfer_def link_unknown_def is_ok_iff bind_res_eq_Inr not_less)
qed

section \<open>The verifier\<close>

lemma fold_res_ok:
  assumes "\<And>x s. is_ok (f x s) \<longleftrightarrow> P x"
  shows "is_ok (fold_res f xs s) \<longleftrightarrow> (\<forall>x \<in> set xs. P x)"
proof (induction xs arbitrary: s)
  case (Cons x xs)
  then show ?case using assms [of x s] by (cases "f x s") auto
qed simp

lemma link_step_ok:
  "is_ok (link_step H tx (i, inp, c) s) \<longleftrightarrow>
     in_previous_output inp = coin_outpoint c \<and> link_allowed H c (get (tx_outputs tx) i)"
proof -
  have "is_ok (bind_res m (\<lambda>x. Inr (g x))) \<longleftrightarrow> is_ok m" for m :: "covenant_link_error + bool" and g :: "bool \<Rightarrow> covenant_link_summary"
    by (cases m) auto
  then show ?thesis by (simp add: link_step_def Let_def link_match_exact)
qed

lemma ball_enumerate:
  "(\<forall>p \<in> set (enumerate 0 zs). Q p) \<longleftrightarrow> (\<forall>i < length zs. Q (i, zs ! i))"
  "(\<forall>p \<in> set (drop n (enumerate 0 zs)). Q p) \<longleftrightarrow> (\<forall>i < length zs. n \<le> i \<longrightarrow> Q (i, zs ! i))"
proof -
  show "(\<forall>p \<in> set (enumerate 0 zs). Q p) \<longleftrightarrow> (\<forall>i < length zs. Q (i, zs ! i))"
    by (auto simp: all_set_conv_all_nth nth_enumerate_eq)
  have "(\<forall>p \<in> set (drop n (enumerate 0 zs)). Q p) \<longleftrightarrow> (\<forall>k < length zs - n. Q (n + k, zs ! (n + k)))"
    by (auto simp: all_set_conv_all_nth nth_enumerate_eq)
  also have "\<dots> \<longleftrightarrow> (\<forall>i < length zs. n \<le> i \<longrightarrow> Q (i, zs ! i))"
  proof (intro iffI allI impI)
    fix i
    assume "\<forall>k < length zs - n. Q (n + k, zs ! (n + k))" and "i < length zs" and "n \<le> i"
    then show "Q (i, zs ! i)" by (metis diff_less_mono le_add_diff_inverse)
  qed simp
  finally show "(\<forall>p \<in> set (drop n (enumerate 0 zs)). Q p) \<longleftrightarrow> (\<forall>i < length zs. n \<le> i \<longrightarrow> Q (i, zs ! i))" .
qed

lemma link_loop_ok:
  assumes "length (tx_inputs t) = length coins"
  shows "is_ok (fold_res (link_step H t) (enumerate 0 (zip (tx_inputs t) coins)) s) \<longleftrightarrow>
    (\<forall>i < length coins. in_previous_output (tx_inputs t ! i) = coin_outpoint (coins ! i) \<and>
      link_allowed H (coins ! i) (get (tx_outputs t) i))"
proof -
  have "is_ok (link_step H t x s) \<longleftrightarrow> (case x of (i, inp, c) \<Rightarrow>
      in_previous_output inp = coin_outpoint c \<and> link_allowed H c (get (tx_outputs t) i))" for x s
    by (cases x) (simp add: link_step_ok)
  from fold_res_ok [where f = "link_step H t", OF this] show ?thesis
    using assms by (simp add: ball_enumerate)
qed

lemma unpaired_loop_ok:
  "is_ok (fold_res unpaired_step (drop n (enumerate 0 outs)) u) \<longleftrightarrow>
     (\<forall>j < length outs. n \<le> j \<longrightarrow> \<not> kind_is_linked (cov_kind (out_covenant (outs ! j))))"
proof -
  have "is_ok (unpaired_step x s) \<longleftrightarrow> \<not> kind_is_linked (cov_kind (out_covenant (snd x)))" for x s
    by (cases x) (simp add: unpaired_step_def)
  from fold_res_ok [where f = unpaired_step, OF this] show ?thesis by (simp add: ball_enumerate)
qed

lemma verify_covenant_links_ok:
  "is_ok (verify_covenant_links H t coins) \<longleftrightarrow>
     \<not> is_coinbase t \<and> length (tx_inputs t) = length coins \<and>
     (\<forall>i < length coins. in_previous_output (tx_inputs t ! i) = coin_outpoint (coins ! i) \<and>
        link_allowed H (coins ! i) (get (tx_outputs t) i)) \<and>
     (\<forall>j < length (tx_outputs t). length coins \<le> j \<longrightarrow>
        \<not> kind_is_linked (cov_kind (out_covenant (tx_outputs t ! j))))"
proof (cases "\<not> is_coinbase t \<and> length (tx_inputs t) = length coins")
  case True
  have "is_ok (bind_res m (\<lambda>s. bind_res n (\<lambda>_. Inr s))) \<longleftrightarrow> is_ok m \<and> is_ok n"
    for m :: "covenant_link_error + covenant_link_summary" and n :: "covenant_link_error + unit"
    by (cases m; cases n) auto
  with True show ?thesis by (simp add: verify_covenant_links_def link_loop_ok unpaired_loop_ok)
qed (auto simp: verify_covenant_links_def)

text \<open>
  C2: the covenant link verifier accepts exactly the transactions that are not coinbases,
  whose coins are the ones their inputs spend, in which every coin and the output at its
  index stand in the transition relation, and which have no linked covenant beyond the
  paired outputs.
\<close>

theorem covenant_links_exact:
  "is_ok (verify_covenant_links H t coins) \<longleftrightarrow>
     \<not> is_coinbase t \<and> length (tx_inputs t) = length coins \<and>
     (\<forall>i < length coins. in_previous_output (tx_inputs t ! i) = coin_outpoint (coins ! i) \<and>
        link_allowed H (coins ! i) (get (tx_outputs t) i)) \<and>
     (\<forall>j < length (tx_outputs t). length coins \<le> j \<longrightarrow>
        \<not> kind_is_linked (cov_kind (out_covenant (tx_outputs t ! j))))"
  by (rule verify_covenant_links_ok)

text \<open>
  Names cannot be forged. In an accepted transaction every linked covenant output (reveal,
  redeem, register, update, renew, transfer, finalize, revoke) sits at the index of an input
  that spends a name coin with the same name hash and the same start height.
\<close>

theorem linked_outputs_are_backed:
  assumes "verify_covenant_links H t coins = Inr summary"
    and "j < length (tx_outputs t)" and "kind_is_linked (cov_kind (out_covenant (tx_outputs t ! j)))"
  shows "j < length coins \<and> in_previous_output (tx_inputs t ! j) = coin_outpoint (coins ! j) \<and>
    kind_is_name (cov_kind (coin_covenant (coins ! j))) \<and>
    same_name (coin_covenant (coins ! j)) (out_covenant (tx_outputs t ! j))"
proof -
  have ok: "is_ok (verify_covenant_links H t coins)" using assms(1) by simp
  then have j: "j < length coins" using assms(2,3) unfolding verify_covenant_links_ok by (meson not_le)
  with ok have "in_previous_output (tx_inputs t ! j) = coin_outpoint (coins ! j)"
    and "link_allowed H (coins ! j) (Some (tx_outputs t ! j))"
    using assms(2) unfolding verify_covenant_links_ok by (auto simp: get_def)
  moreover from this(2) have "kind_is_name (cov_kind (coin_covenant (coins ! j))) \<and>
      same_name (coin_covenant (coins ! j)) (out_covenant (tx_outputs t ! j))"
    using assms(3) by cases (auto simp: kind_is_linked_def)
  ultimately show ?thesis using j by simp
qed

text \<open>
  C3: an owned name keeps its locked value and goes only where its covenant allows. Spending
  a registered, updated, renewed, finalized or transferring coin requires the output at the
  same index to carry the same value, name and start height; its address is the coin's own,
  except for a finalize, whose address is the one the transfer covenant committed to.
  A revoked coin is never spendable.
\<close>

theorem owned_name_is_preserved:
  assumes "verify_covenant_links H t coins = Inr summary" and "i < length coins"
    and "c = coins ! i" and "k = cov_kind (coin_covenant c)"
  shows "k \<noteq> Revoke \<and> (k \<in> {Register, Update, Renew, Finalize, Transfer} \<longrightarrow>
    i < length (tx_outputs t) \<and> out_value (tx_outputs t ! i) = coin_value c \<and>
    same_name (coin_covenant c) (out_covenant (tx_outputs t ! i)) \<and>
    (if k = Transfer \<and> cov_kind (out_covenant (tx_outputs t ! i)) = Finalize
     then cov_item_u8 (coin_covenant c) 2 = Some (addr_version (out_address (tx_outputs t ! i))) \<and>
       cov_item (coin_covenant c) 3 = Some (addr_hash (out_address (tx_outputs t ! i)))
     else out_address (tx_outputs t ! i) = coin_address c))"
proof -
  have "is_ok (verify_covenant_links H t coins)" using assms(1) by simp
  then have "link_allowed H c (get (tx_outputs t) i)" using assms(2,3) unfolding verify_covenant_links_ok by blast
  then show ?thesis using assms(4)
    by (cases "i < length (tx_outputs t)"; cases) (auto simp: get_def)
qed

definition sample_name_coin :: coin where
  "sample_name_coin = \<lparr>coin_outpoint = \<lparr>op_hash = replicate 32 1, op_index = 0\<rparr>, coin_value = 5, coin_height = 9,
     coin_coinbase = False, coin_address = \<lparr>addr_version = 0, addr_hash = replicate 20 9\<rparr>,
     coin_covenant = \<lparr>cov_kind = Register, cov_items = [replicate 32 3, [7, 0, 0, 0], [], replicate 32 2]\<rparr>\<rparr>"

definition sample_update_tx :: transaction where
  "sample_update_tx = \<lparr>tx_version = 0, tx_inputs = [\<lparr>in_previous_output = coin_outpoint sample_name_coin,
       in_sequence = 0, in_witness = []\<rparr>],
     tx_outputs = [\<lparr>out_value = 5, out_address = coin_address sample_name_coin,
       out_covenant = \<lparr>cov_kind = Update, cov_items = [replicate 32 3, [7, 0, 0, 0], [1]]\<rparr>\<rparr>], tx_locktime = 0\<rparr>"

lemma sample_update_links:
  "verify_covenant_links (\<lambda>bs. bs) sample_update_tx [sample_name_coin] =
     Inr \<lparr>cls_inputs_checked = 1, cls_linked_outputs = 1, cls_name_inputs = 1\<rparr>"
  by (simp add: verify_covenant_links_def sample_update_tx_def sample_name_coin_def is_coinbase_def
      outpoint_is_null_def link_step_def link_match_def link_owned_def get_def require_linked_output_def
      require_locked_value_def require_address_match_def require_name_and_start_match_def required_hash_def
      required_item_def required_u32_def cov_item_def cov_item_u32_def as_array_def outpoint_null_def)

theorem covenant_links_exact_witness:
  "link_allowed (\<lambda>bs. bs) sample_name_coin (get (tx_outputs sample_update_tx) 0)"
  using covenant_links_exact [of "\<lambda>bs. bs" sample_update_tx "[sample_name_coin]"] sample_update_links by simp

theorem linked_outputs_are_backed_witness:
  "same_name (coin_covenant sample_name_coin) (out_covenant (tx_outputs sample_update_tx ! 0))"
  using linked_outputs_are_backed [OF sample_update_links, of 0]
  by (simp add: sample_update_tx_def kind_is_linked_def)

theorem owned_name_is_preserved_witness:
  "out_value (tx_outputs sample_update_tx ! 0) = coin_value sample_name_coin \<and>
   out_address (tx_outputs sample_update_tx ! 0) = coin_address sample_name_coin"
  using owned_name_is_preserved [OF sample_update_links, of 0 sample_name_coin Register]
  by (simp add: sample_name_coin_def)

end
