(* ===== verification/NameTx.thy ===== *)
theory NameTx
  imports Linkage NameTransition
begin

text \<open>
  Model of \<^verbatim>\<open>crates/hns-transaction/src/name.rs\<close>: the builders and verifiers of canonical
  TRANSFER and FINALIZE transactions. The parameter \<open>sha3\<close> is the name hash function. The
  theorems connect the builders to their verifiers and to the covenant link rules.
\<close>

datatype name_transaction_error =
    NtCovenant covenant_error
  | NtTransaction transaction_error
  | UnsupportedTransferSource covenant_kind
  | MalformedOwnerCovenant string
  | MalformedOwnerField string
  | InvalidTransfer string
  | InvalidFinalize string
  | InvalidTransaction string
  | InvalidSourceCoin string
  | RepeatedNameInput string

section \<open>Checks\<close>

definition validate_name_coin_source :: "coin \<Rightarrow> string \<Rightarrow> name_transaction_error + unit" where
  "validate_name_coin_source c operation =
     (if outpoint_is_null (coin_outpoint c) \<or> coin_coinbase c then Inl (InvalidSourceCoin operation) else Inr ())"

definition require_exact_items :: "covenant \<Rightarrow> nat \<Rightarrow> string \<Rightarrow> name_transaction_error + unit" where
  "require_exact_items c expected kind =
     (if length (cov_items c) \<noteq> expected then Inl (MalformedOwnerCovenant kind) else Inr ())"

definition require_bounded_resource :: "covenant \<Rightarrow> nat \<Rightarrow> string \<Rightarrow> name_transaction_error + unit" where
  "require_bounded_resource c index kind =
     (case cov_item c index of
        None \<Rightarrow> Inl (MalformedOwnerCovenant kind)
      | Some resource \<Rightarrow>
          if length resource > max_resource_size then Inl (MalformedOwnerCovenant kind) else Inr ())"

definition require_hash :: "covenant \<Rightarrow> nat \<Rightarrow> string \<Rightarrow> name_transaction_error + bytes" where
  "require_hash c index field =
     ok_or (Option.bind (cov_item c index) (as_array 32)) (MalformedOwnerField field)"

definition require_u32 :: "covenant \<Rightarrow> nat \<Rightarrow> string \<Rightarrow> name_transaction_error + u32" where
  "require_u32 c index field = ok_or (cov_item_u32 c index) (MalformedOwnerField field)"

definition reject_repeated_name_input :: "coin \<Rightarrow> tx_input list \<Rightarrow> name_transaction_error + unit" where
  "reject_repeated_name_input c additional_inputs =
     (if list_ex (\<lambda>i. in_previous_output i = coin_outpoint c) additional_inputs
      then Inl (RepeatedNameInput ''name transition'') else Inr ())"

definition verify_name_transaction_header ::
  "transaction \<Rightarrow> coin \<Rightarrow> string \<Rightarrow> name_transaction_error + unit" where
  "verify_name_transaction_header tx c operation =
     bind_res (map_err NtTransaction (tx_size tx)) (\<lambda>_.
     if tx_version tx \<noteq> 0 \<or> tx_locktime tx \<noteq> 0
     then Inl (InvalidTransaction ''name transaction version or locktime differs from HSD construction'')
     else case tx_inputs tx of
       [] \<Rightarrow> Inl (InvalidTransaction ''name input at index zero is missing'')
     | name_input # others \<Rightarrow>
         if in_previous_output name_input \<noteq> coin_outpoint c \<or> in_sequence name_input \<noteq> 0xffffffff
         then Inl (InvalidTransaction ''name input is not the canonical index-zero outpoint'')
         else if list_ex (\<lambda>i. in_previous_output i = coin_outpoint c) others
         then Inl (RepeatedNameInput operation)
         else Inr ())"

section \<open>TRANSFER\<close>

definition transferable_owner_anchor ::
  "(bytes \<Rightarrow> bytes) \<Rightarrow> covenant \<Rightarrow> name_transaction_error + hash32 \<times> height" where
  "transferable_owner_anchor sha3 c =
     (let anchor = bind_res (require_hash c 0 ''name hash'') (\<lambda>h.
            bind_res (require_u32 c 1 ''start height'') (\<lambda>s. Inr (h, s)))
      in case cov_kind c of
        Register \<Rightarrow>
          bind_res (require_exact_items c 4 ''REGISTER'') (\<lambda>_.
          bind_res (require_bounded_resource c 2 ''REGISTER'') (\<lambda>_.
          bind_res (require_hash c 3 ''REGISTER renewal block'') (\<lambda>_. anchor)))
      | Update \<Rightarrow>
          bind_res (require_exact_items c 3 ''UPDATE'') (\<lambda>_.
          bind_res (require_bounded_resource c 2 ''UPDATE'') (\<lambda>_. anchor))
      | Renew \<Rightarrow>
          bind_res (require_exact_items c 3 ''RENEW'') (\<lambda>_.
          bind_res (require_hash c 2 ''RENEW renewal block'') (\<lambda>_. anchor))
      | Finalize \<Rightarrow>
          bind_res (map_err NtCovenant (finalize_try_from sha3 c)) (\<lambda>f.
            Inr (fc_name_hash f, fc_start_height f))
      | kind \<Rightarrow> Inl (UnsupportedTransferSource kind))"

definition build_transfer_output ::
  "(bytes \<Rightarrow> bytes) \<Rightarrow> coin \<Rightarrow> address \<Rightarrow> name_transaction_error + tx_output" where
  "build_transfer_output sha3 owner recipient =
     bind_res (validate_name_coin_source owner ''TRANSFER'') (\<lambda>_.
     bind_res (map_err NtTransaction (address_validate (coin_address owner))) (\<lambda>_.
     bind_res (map_err NtTransaction (address_validate recipient)) (\<lambda>_.
     bind_res (transferable_owner_anchor sha3 (coin_covenant owner)) (\<lambda>(name_hash, start_height).
     bind_res (map_err NtCovenant (transfer_new name_hash start_height (addr_version recipient) (addr_hash recipient))) (\<lambda>transfer.
     bind_res (map_err NtCovenant (transfer_to_covenant transfer)) (\<lambda>covenant.
     let out = \<lparr>out_value = coin_value owner, out_address = coin_address owner, out_covenant = covenant\<rparr>
     in bind_res (map_err NtTransaction (output_encode out)) (\<lambda>_. Inr out)))))))"

definition verify_transfer_output ::
  "(bytes \<Rightarrow> bytes) \<Rightarrow> tx_output \<Rightarrow> coin \<Rightarrow> address \<Rightarrow> name_transaction_error + unit" where
  "verify_transfer_output sha3 out owner recipient =
     bind_res (build_transfer_output sha3 owner recipient) (\<lambda>expected.
     if out \<noteq> expected
     then Inl (InvalidTransfer ''linked output differs from the canonical owner-preserving TRANSFER'')
     else bind_res (map_err NtCovenant (transfer_try_from (out_covenant out))) (\<lambda>_. Inr ()))"

definition name_input :: "coin \<Rightarrow> tx_input" where
  "name_input c = \<lparr>in_previous_output = coin_outpoint c, in_sequence = 0xffffffff, in_witness = []\<rparr>"

definition build_transfer_transaction ::
  "(bytes \<Rightarrow> bytes) \<Rightarrow> coin \<Rightarrow> address \<Rightarrow> tx_input list \<Rightarrow> tx_output list \<Rightarrow> name_transaction_error + transaction" where
  "build_transfer_transaction sha3 owner recipient additional_inputs additional_outputs =
     bind_res (reject_repeated_name_input owner additional_inputs) (\<lambda>_.
     bind_res (build_transfer_output sha3 owner recipient) (\<lambda>out.
     let tx = \<lparr>tx_version = 0, tx_inputs = name_input owner # additional_inputs,
       tx_outputs = out # additional_outputs, tx_locktime = 0\<rparr>
     in bind_res (map_err NtTransaction (tx_size tx)) (\<lambda>_. Inr tx)))"

definition verify_transfer_at_index_zero ::
  "(bytes \<Rightarrow> bytes) \<Rightarrow> transaction \<Rightarrow> coin \<Rightarrow> address \<Rightarrow> name_transaction_error + unit" where
  "verify_transfer_at_index_zero sha3 tx owner recipient =
     bind_res (verify_name_transaction_header tx owner ''TRANSFER'') (\<lambda>_.
     case tx_outputs tx of
       [] \<Rightarrow> Inl (InvalidTransfer ''linked output at index zero is missing'')
     | out # _ \<Rightarrow> verify_transfer_output sha3 out owner recipient)"

section \<open>FINALIZE\<close>

definition validate_transfer_state ::
  "(bytes \<Rightarrow> bytes) \<Rightarrow> coin \<Rightarrow> name_state \<Rightarrow> transfer_covenant \<Rightarrow> name_transaction_error + unit" where
  "validate_transfer_state sha3 c state transfer =
     bind_res (map_err NtCovenant (validate_key_binding sha3 state)) (\<lambda>_.
     if name_state_is_null state \<or> \<not> ns_registered state \<or> ns_revoked state \<noteq> 0 \<or> ns_transfer state = 0
     then Inl (InvalidFinalize ''name state is not an active registered transfer'')
     else if owner_outpoint state \<noteq> Some (coin_outpoint c)
     then Inl (InvalidFinalize ''name-state owner does not identify the TRANSFER coin'')
     else if ns_value state \<noteq> coin_value c
     then Inl (InvalidFinalize ''name-state locked value differs from the TRANSFER coin'')
     else if ns_transfer state \<noteq> coin_height c
     then Inl (InvalidFinalize ''name-state transfer height differs from the TRANSFER coin height'')
     else if ns_name_hash state \<noteq> tc_name_hash transfer \<or> ns_height state \<noteq> tc_start_height transfer
     then Inl (InvalidFinalize ''name-state identity differs from the TRANSFER covenant'')
     else Inr ())"

definition build_finalize_output ::
  "(bytes \<Rightarrow> bytes) \<Rightarrow> coin \<Rightarrow> name_state \<Rightarrow> hash32 \<Rightarrow> name_transaction_error + tx_output" where
  "build_finalize_output sha3 c state renewal_block =
     bind_res (validate_name_coin_source c ''FINALIZE'') (\<lambda>_.
     bind_res (map_err NtTransaction (address_validate (coin_address c))) (\<lambda>_.
     bind_res (map_err NtCovenant (transfer_try_from (coin_covenant c))) (\<lambda>transfer.
     bind_res (validate_transfer_state sha3 c state transfer) (\<lambda>_.
     bind_res (map_err NtTransaction (address_new (tc_recipient_version transfer) (tc_recipient_hash transfer))) (\<lambda>recipient.
     bind_res (map_err NtCovenant (finalize_from_name_state sha3 state renewal_block)) (\<lambda>finalize.
     bind_res (map_err NtCovenant (finalize_to_covenant sha3 finalize)) (\<lambda>covenant.
     let out = \<lparr>out_value = coin_value c, out_address = recipient, out_covenant = covenant\<rparr>
     in bind_res (map_err NtTransaction (output_encode out)) (\<lambda>_. Inr out))))))))"

definition verify_finalize_output ::
  "(bytes \<Rightarrow> bytes) \<Rightarrow> tx_output \<Rightarrow> coin \<Rightarrow> name_state \<Rightarrow> hash32 \<Rightarrow> name_transaction_error + unit" where
  "verify_finalize_output sha3 out c state renewal_block =
     bind_res (build_finalize_output sha3 c state renewal_block) (\<lambda>expected.
     if out \<noteq> expected
     then Inl (InvalidFinalize ''linked output differs from the canonical value-preserving FINALIZE'')
     else bind_res (map_err NtCovenant (finalize_try_from sha3 (out_covenant out))) (\<lambda>_. Inr ()))"

definition build_finalize_transaction ::
  "(bytes \<Rightarrow> bytes) \<Rightarrow> coin \<Rightarrow> name_state \<Rightarrow> hash32 \<Rightarrow> tx_input list \<Rightarrow> tx_output list \<Rightarrow>
   name_transaction_error + transaction" where
  "build_finalize_transaction sha3 c state renewal_block additional_inputs additional_outputs =
     bind_res (reject_repeated_name_input c additional_inputs) (\<lambda>_.
     bind_res (build_finalize_output sha3 c state renewal_block) (\<lambda>out.
     let tx = \<lparr>tx_version = 0, tx_inputs = name_input c # additional_inputs,
       tx_outputs = out # additional_outputs, tx_locktime = 0\<rparr>
     in bind_res (map_err NtTransaction (tx_size tx)) (\<lambda>_. Inr tx)))"

definition verify_finalize_at_index_zero ::
  "(bytes \<Rightarrow> bytes) \<Rightarrow> transaction \<Rightarrow> coin \<Rightarrow> name_state \<Rightarrow> hash32 \<Rightarrow> name_transaction_error + unit" where
  "verify_finalize_at_index_zero sha3 tx c state renewal_block =
     bind_res (verify_name_transaction_header tx c ''FINALIZE'') (\<lambda>_.
     case tx_outputs tx of
       [] \<Rightarrow> Inl (InvalidFinalize ''linked output at index zero is missing'')
     | out # _ \<Rightarrow> verify_finalize_output sha3 out c state renewal_block)"

section \<open>Builders and verifiers agree\<close>

lemma require_hash_iff [simp]: "require_hash c i f = Inr h \<longleftrightarrow> cov_item_name_hash c i = Some h"
  by (simp add: require_hash_def cov_item_name_hash_def)

lemma require_u32_iff [simp]: "require_u32 c i f = Inr w \<longleftrightarrow> cov_item_u32 c i = Some w"
  by (simp add: require_u32_def)

lemma transferable_owner_anchor_ok:
  assumes "transferable_owner_anchor sha3 c = Inr (h, s)"
  shows "cov_kind c \<in> {Register, Update, Renew, Finalize} \<and> cov_item_name_hash c 0 = Some h \<and>
    cov_item_u32 c 1 = Some s \<and> length h = 32"
proof (cases "cov_kind c = Finalize")
  case True
  with assms obtain f where f: "finalize_try_from sha3 c = Inr f" "h = fc_name_hash f" "s = fc_start_height f"
    by (auto simp: transferable_owner_anchor_def bind_res_eq_Inr Let_def)
  from f True show ?thesis
    by (auto simp: finalize_parse_iff finalize_to_covenant_def bind_res_eq_Inr cov_item_name_hash_def cov_item_u32_def cov_item_def
        get_def as_array_def)
next
  case False
  with assms show ?thesis
    by (auto simp: transferable_owner_anchor_def bind_res_eq_Inr Let_def cov_item_name_hash_def
        Option.bind_eq_Some_conv split: covenant_kind.splits)
qed

lemma build_transfer_output_ok:
  assumes "build_transfer_output sha3 owner recipient = Inr out"
  shows "\<exists>h s. cov_kind (coin_covenant owner) \<in> {Register, Update, Renew, Finalize} \<and>
    cov_item_name_hash (coin_covenant owner) 0 = Some h \<and> cov_item_u32 (coin_covenant owner) 1 = Some s \<and>
    out = \<lparr>out_value = coin_value owner, out_address = coin_address owner,
      out_covenant = \<lparr>cov_kind = Transfer, cov_items = [h, u32_to_le s, [addr_version recipient], addr_hash recipient]\<rparr>\<rparr> \<and>
    length h = 32 \<and> address_ok recipient \<and> address_ok (coin_address owner)"
proof -
  from assms obtain h s t where "transferable_owner_anchor sha3 (coin_covenant owner) = Inr (h, s)"
    and "address_ok recipient" "address_ok (coin_address owner)"
    and "transfer_new h s (addr_version recipient) (addr_hash recipient) = Inr t"
    and "transfer_to_covenant t = Inr (out_covenant out)"
    and "out_value out = coin_value owner" "out_address out = coin_address owner"
    by (auto simp: build_transfer_output_def bind_res_eq_Inr Let_def)
  with transferable_owner_anchor_ok [OF this(1)] show ?thesis
    by (intro exI [of _ h] exI [of _ s]) (auto simp: transfer_new_def transfer_to_covenant_def bind_res_eq_Inr Let_def
        intro!: tx_output.equality)
qed

lemma transfer_output_links:
  assumes "build_transfer_output sha3 owner recipient = Inr out"
  shows "link_allowed H owner (Some out)"
  using build_transfer_output_ok [OF assms]
  by (auto intro!: link_allowed.owned simp: same_name_def cov_item_name_hash_def cov_item_u32_def cov_item_def get_def
      as_array_def)

lemma transfer_output_parses:
  assumes "build_transfer_output sha3 owner recipient = Inr out"
  shows "transfer_try_from (out_covenant out) = Inr \<lparr>tc_name_hash = the (cov_item_name_hash (coin_covenant owner) 0),
    tc_start_height = the (cov_item_u32 (coin_covenant owner) 1), tc_recipient_version = addr_version recipient,
    tc_recipient_hash = addr_hash recipient\<rparr>"
  using build_transfer_output_ok [OF assms]
  by (auto simp: transfer_parse_iff transfer_to_covenant_def transfer_validate_def address_ok_def)

lemma build_finalize_output_ok:
  assumes "build_finalize_output sha3 c state rb = Inr out"
  shows "\<exists>t f. transfer_try_from (coin_covenant c) = Inr t \<and> finalize_from_name_state sha3 state rb = Inr f \<and>
    finalize_to_covenant sha3 f = Inr (out_covenant out) \<and>
    ns_name_hash state = tc_name_hash t \<and> ns_height state = tc_start_height t \<and>
    out_value out = coin_value c \<and>
    out_address out = \<lparr>addr_version = tc_recipient_version t, addr_hash = tc_recipient_hash t\<rparr>"
  using assms
  by (auto simp: build_finalize_output_def bind_res_eq_Inr Let_def validate_transfer_state_def address_new_def
      split: if_splits)

lemma transfer_parse_items:
  assumes "transfer_try_from c = Inr t"
  shows "c = \<lparr>cov_kind = Transfer, cov_items =
      [tc_name_hash t, u32_to_le (tc_start_height t), [tc_recipient_version t], tc_recipient_hash t]\<rparr> \<and>
    length (tc_name_hash t) = 32"
  using assms by (auto simp: transfer_parse_iff transfer_to_covenant_def bind_res_eq_Inr)

lemma finalize_items:
  assumes "finalize_from_name_state sha3 state rb = Inr f" and "finalize_to_covenant sha3 f = Inr c"
  shows "cov_kind c = Finalize \<and> cov_item c 0 = Some (ns_name_hash state) \<and>
    cov_item c 1 = Some (u32_to_le (ns_height state))"
  using assms
  by (auto simp: finalize_from_name_state_def finalize_to_covenant_def bind_res_eq_Inr Let_def cov_item_def get_def
      split: if_splits)

lemma finalize_output_links:
  assumes "build_finalize_output sha3 c state rb = Inr out"
  shows "link_allowed H c (Some out)"
proof -
  from build_finalize_output_ok [OF assms] obtain t f where t: "transfer_try_from (coin_covenant c) = Inr t"
    and f: "finalize_from_name_state sha3 state rb = Inr f" "finalize_to_covenant sha3 f = Inr (out_covenant out)"
    and out: "ns_name_hash state = tc_name_hash t" "ns_height state = tc_start_height t" "out_value out = coin_value c"
      "out_address out = \<lparr>addr_version = tc_recipient_version t, addr_hash = tc_recipient_hash t\<rparr>" by blast
  show ?thesis
    using transfer_parse_items [OF t] finalize_items [OF f] out
    by (intro link_allowed.finalize) (auto simp: same_name_def cov_item_name_hash_def cov_item_u32_def cov_item_u8_def
        cov_item_def get_def as_array_def split: if_splits)
qed

text \<open>
  Whatever the TRANSFER builder returns, the TRANSFER verifier accepts for the same coin
  and recipient, and its first output is a permitted successor of the owner coin.
\<close>

theorem built_transfer_verifies:
  assumes "build_transfer_transaction sha3 owner recipient ins outs = Inr t"
  shows "verify_transfer_at_index_zero sha3 t owner recipient = Inr () \<and>
    link_allowed H owner (get (tx_outputs t) 0)"
proof -
  from assms obtain out where out: "build_transfer_output sha3 owner recipient = Inr out"
    and rep: "\<not> list_ex (\<lambda>i. in_previous_output i = coin_outpoint owner) ins"
    and t: "t = \<lparr>tx_version = 0, tx_inputs = name_input owner # ins, tx_outputs = out # outs, tx_locktime = 0\<rparr>"
    and size: "is_ok (tx_size t)"
    by (auto simp: build_transfer_transaction_def bind_res_eq_Inr Let_def reject_repeated_name_input_def split: if_splits)
  then have "verify_name_transaction_header t owner ''TRANSFER'' = Inr ()"
    by (auto simp: verify_name_transaction_header_def is_ok_iff name_input_def)
  with out t transfer_output_parses [OF out] transfer_output_links [OF out] show ?thesis
    by (simp add: verify_transfer_at_index_zero_def verify_transfer_output_def get_def)
qed

text \<open>
  The same for FINALIZE: a built transaction verifies for the same coin, name state and
  renewal block, and its first output is a permitted successor of the TRANSFER coin.
\<close>

theorem built_finalize_verifies:
  assumes "build_finalize_transaction sha3 c state rb ins outs = Inr t" and "length rb = 32"
  shows "verify_finalize_at_index_zero sha3 t c state rb = Inr () \<and> link_allowed H c (get (tx_outputs t) 0)"
proof -
  from assms obtain out where out: "build_finalize_output sha3 c state rb = Inr out"
    and rep: "\<not> list_ex (\<lambda>i. in_previous_output i = coin_outpoint c) ins"
    and t: "t = \<lparr>tx_version = 0, tx_inputs = name_input c # ins, tx_outputs = out # outs, tx_locktime = 0\<rparr>"
    and size: "is_ok (tx_size t)"
    by (auto simp: build_finalize_transaction_def bind_res_eq_Inr Let_def reject_repeated_name_input_def split: if_splits)
  then have "verify_name_transaction_header t c ''FINALIZE'' = Inr ()"
    by (auto simp: verify_name_transaction_header_def is_ok_iff name_input_def)
  moreover from build_finalize_output_ok [OF out] obtain tr f where tr: "transfer_try_from (coin_covenant c) = Inr tr"
    and f: "finalize_from_name_state sha3 state rb = Inr f" "finalize_to_covenant sha3 f = Inr (out_covenant out)"
    and nh: "ns_name_hash state = tc_name_hash tr" by blast
  have "finalize_try_from sha3 (out_covenant out) = Inr f"
    using f nh transfer_parse_items [OF tr] assms(2)
    by (auto simp: finalize_parse_iff finalize_from_name_state_def bind_res_eq_Inr Let_def finalize_validate_iff
        split: if_splits)
  ultimately show ?thesis using out t finalize_output_links [OF out]
    by (simp add: verify_finalize_at_index_zero_def verify_finalize_output_def get_def)
qed

text \<open>
  C23: a transfer followed by a finalize moves the name to the chosen recipient. When the coin
  being finalized holds the output of a TRANSFER built for a recipient, the FINALIZE output
  pays the original locked value to exactly that recipient, for the same name hash and start height.
\<close>

theorem transfer_then_finalize:
  assumes "build_transfer_output sha3 owner recipient = Inr out1"
    and "coin_value c = out_value out1" and "coin_covenant c = out_covenant out1"
    and "build_finalize_output sha3 c state rb = Inr out2"
  shows "out_address out2 = recipient \<and> out_value out2 = coin_value owner \<and>
    cov_kind (out_covenant out2) = Finalize \<and> same_name (coin_covenant owner) (out_covenant out2)"
proof -
  note t = transfer_output_parses [OF assms(1)] and ok = build_transfer_output_ok [OF assms(1)]
  from build_finalize_output_ok [OF assms(4)] t obtain f where
    f: "finalize_from_name_state sha3 state rb = Inr f" "finalize_to_covenant sha3 f = Inr (out_covenant out2)"
    and state: "ns_name_hash state = the (cov_item_name_hash (coin_covenant owner) 0)"
      "ns_height state = the (cov_item_u32 (coin_covenant owner) 1)"
    and out2: "out_value out2 = coin_value c"
      "out_address out2 = \<lparr>addr_version = addr_version recipient, addr_hash = addr_hash recipient\<rparr>"
    unfolding assms(3) by auto
  from ok finalize_items [OF f] state out2 assms(2) show ?thesis
    by (cases recipient) (auto simp: same_name_def cov_item_name_hash_def cov_item_u32_def as_array_def
        Option.bind_eq_Some_conv split: if_splits)
qed

section \<open>A concrete transfer\<close>

definition sample_sha3 :: "bytes \<Rightarrow> bytes" where
  "sample_sha3 bs = replicate 32 3"

definition sample_recipient :: address where
  "sample_recipient = \<lparr>addr_version = 0, addr_hash = replicate 20 8\<rparr>"

definition sample_transfer_out :: tx_output where
  "sample_transfer_out = \<lparr>out_value = 5, out_address = coin_address sample_name_coin, out_covenant =
     \<lparr>cov_kind = Transfer, cov_items = [replicate 32 3, [7, 0, 0, 0], [0], replicate 20 8]\<rparr>\<rparr>"

definition sample_transfer_coin :: coin where
  "sample_transfer_coin = sample_name_coin\<lparr>coin_covenant := out_covenant sample_transfer_out\<rparr>"

definition sample_state :: name_state where
  "sample_state = (name_state_null (replicate 32 3))\<lparr>ns_name := [0x61], ns_height := 7, ns_value := 5,
     ns_owner := coin_outpoint sample_name_coin, ns_transfer := 9, ns_registered := True\<rparr>"

definition sample_finalize_out :: tx_output where
  "sample_finalize_out = \<lparr>out_value = 5, out_address = sample_recipient, out_covenant =
     \<lparr>cov_kind = Finalize, cov_items = [replicate 32 3, [7, 0, 0, 0], [0x61], [0], [0, 0, 0, 0], [0, 0, 0, 0],
       replicate 32 2]\<rparr>\<rparr>"

lemmas sample_defs = sample_sha3_def sample_recipient_def sample_transfer_out_def sample_transfer_coin_def
  sample_state_def sample_finalize_out_def sample_name_coin_def name_state_null_def

lemma sample_sized:
  "output_sized sample_transfer_out" "output_sized sample_finalize_out"
  by (simp_all add: sample_defs output_sized_def address_ok_def covenant_sized_def covenant_bytes_eq var_bytes_len
      len_bytes_def length_compact_bytes covenant_limits)

lemma output_encode_sized: "output_sized out \<Longrightarrow> output_encode out = Inr (output_bytes out)"
proof -
  assume "output_sized out"
  then have "output_encode_to out encoder_new = Inr \<lparr>enc_bytes = output_bytes out\<rparr>"
    by (simp add: output_encode_to_iff into_bytes_def encoder_new_def)
  then show ?thesis by (simp add: output_encode_def into_bytes_def)
qed

lemma sample_u32 [simp]: "u32_to_le 7 = [7, 0, 0, 0]" "u32_to_le 0 = [0, 0, 0, 0]" "u32_of_le [7, 0, 0, 0] = 7"
proof -
  show "u32_to_le 7 = [7, 0, 0, 0]" "u32_to_le 0 = [0, 0, 0, 0]" by code_simp+
  then show "u32_of_le [7, 0, 0, 0] = 7" by (metis int_of_bytes(2))
qed

lemma sample_build_transfer:
  "build_transfer_output sample_sha3 sample_name_coin sample_recipient = Inr sample_transfer_out"
proof -
  have "transferable_owner_anchor sample_sha3 (coin_covenant sample_name_coin) = Inr (replicate 32 3, 7)"
    by (simp add: transferable_owner_anchor_def sample_name_coin_def require_exact_items_def require_bounded_resource_def
        require_hash_def require_u32_def cov_item_def cov_item_u32_def get_def as_array_def)
  moreover have "address_ok sample_recipient" "address_ok (coin_address sample_name_coin)"
    by (simp_all add: sample_defs address_ok_def)
  moreover have "transfer_new (replicate 32 3) 7 (addr_version sample_recipient) (addr_hash sample_recipient) =
      Inr \<lparr>tc_name_hash = replicate 32 3, tc_start_height = 7, tc_recipient_version = 0, tc_recipient_hash = replicate 20 8\<rparr>"
    by (simp add: transfer_new_def transfer_validate_def sample_recipient_def)
  moreover have "validate_name_coin_source sample_name_coin ''TRANSFER'' = Inr ()"
    by (simp add: validate_name_coin_source_def sample_name_coin_def outpoint_null_def)
  moreover have "transfer_to_covenant \<lparr>tc_name_hash = replicate 32 3, tc_start_height = 7, tc_recipient_version = 0,
      tc_recipient_hash = replicate 20 8\<rparr> = Inr (out_covenant sample_transfer_out)"
    by (simp add: transfer_to_covenant_def transfer_validate_def sample_transfer_out_def)
  moreover have "\<lparr>out_value = coin_value sample_name_coin, out_address = coin_address sample_name_coin,
      out_covenant = out_covenant sample_transfer_out\<rparr> = sample_transfer_out"
    by (simp add: sample_transfer_out_def sample_name_coin_def)
  ultimately show ?thesis
    by (simp add: build_transfer_output_def output_encode_sized [OF sample_sized(1)])
qed

lemma sample_build_finalize:
  "build_finalize_output sample_sha3 sample_transfer_coin sample_state (replicate 32 2) = Inr sample_finalize_out"
proof -
  define t where "t = \<lparr>tc_name_hash = replicate 32 3, tc_start_height = 7, tc_recipient_version = 0,
    tc_recipient_hash = replicate 20 8\<rparr>"
  define f where "f = \<lparr>fc_name_hash = replicate 32 3, fc_start_height = 7, fc_name = [0x61], fc_flags = 0,
    fc_claimed = 0, fc_renewals = 0, fc_renewal_block = replicate 32 2\<rparr>"
  have name: "validate_name [0x61]" by (simp add: validate_name_def max_name_size_def ascii_def name_char_ok_def)
  have "transfer_try_from (coin_covenant sample_transfer_coin) = Inr t"
    by (simp add: transfer_parse_iff transfer_to_covenant_def transfer_validate_def sample_transfer_coin_def
        sample_transfer_out_def t_def)
  moreover have "validate_transfer_state sample_sha3 sample_transfer_coin sample_state t = Inr ()"
    using name by (simp add: validate_transfer_state_def validate_key_binding_def hash_name_def sample_defs t_def
        name_state_is_null_def owner_outpoint_def outpoint_null_def)
  moreover have "finalize_from_name_state sample_sha3 sample_state (replicate 32 2) = Inr f"
    using name by (simp add: finalize_from_name_state_def validate_key_binding_def hash_name_def finalize_validate_def
        sample_defs name_state_is_null_def f_def outpoint_null_def)
  moreover have "finalize_to_covenant sample_sha3 f = Inr (out_covenant sample_finalize_out)"
    using name by (simp add: finalize_to_covenant_def finalize_validate_def hash_name_def f_def sample_sha3_def
        sample_finalize_out_def)
  moreover have "validate_name_coin_source sample_transfer_coin ''FINALIZE'' = Inr ()"
    by (simp add: validate_name_coin_source_def sample_defs outpoint_null_def)
  moreover have "address_ok (coin_address sample_transfer_coin)" "address_ok sample_recipient"
    by (simp_all add: sample_defs address_ok_def)
  moreover have "address_new (tc_recipient_version t) (tc_recipient_hash t) = Inr sample_recipient"
    using calculation(7) by (simp add: address_new_def t_def sample_recipient_def)
  moreover have "\<lparr>out_value = coin_value sample_transfer_coin, out_address = sample_recipient,
      out_covenant = out_covenant sample_finalize_out\<rparr> = sample_finalize_out"
    by (simp add: sample_finalize_out_def sample_transfer_coin_def sample_name_coin_def)
  ultimately show ?thesis
    by (simp add: build_finalize_output_def output_encode_sized [OF sample_sized(2)])
qed

definition sample_name_tx :: "coin \<Rightarrow> tx_output \<Rightarrow> transaction" where
  "sample_name_tx c out = \<lparr>tx_version = 0, tx_inputs = [name_input c], tx_outputs = [out], tx_locktime = 0\<rparr>"

lemma sample_name_tx_size:
  assumes "c \<in> {sample_name_coin, sample_transfer_coin}" and "out \<in> {sample_transfer_out, sample_finalize_out}"
  shows "\<exists>n. tx_size (sample_name_tx c out) = Inr n"
proof -
  have ins: "inputs_ok (sample_name_tx c out)"
    using assms by (auto simp: inputs_ok_def sample_name_tx_def name_input_def sample_defs outpoint_ok_def)
  have len: "length (tx_base_bytes (sample_name_tx c out)) \<le> 400"
    using assms by (auto simp: tx_base_bytes_def sample_name_tx_def name_input_def sample_defs input_bytes_def
        output_bytes_def address_bytes_def covenant_bytes_eq var_bytes_len len_bytes_def length_compact_bytes)
  have wit: "length (tx_witness_bytes (sample_name_tx c out)) \<le> 400"
    by (simp add: tx_witness_bytes_def sample_name_tx_def name_input_def witness_bytes_def len_bytes_def
        length_compact_bytes)
  have "tx_sized (sample_name_tx c out)"
    using assms sample_sized len wit
    by (auto simp: tx_sized_def base_sized_def transaction_limits sample_name_tx_def name_input_def witness_ok_def)
  then have "tx_encoded_sizes (sample_name_tx c out) =
      Inr (length (tx_base_bytes (sample_name_tx c out)), length (tx_witness_bytes (sample_name_tx c out)))"
    by (simp add: tx_encoded_sizes_iff [OF ins])
  then show ?thesis using len wit by (simp add: tx_size_def checked_add_usize_def usize_max_def)
qed

theorem built_transfer_verifies_witness:
  "verify_transfer_at_index_zero sample_sha3 (sample_name_tx sample_name_coin sample_transfer_out) sample_name_coin
     sample_recipient = Inr ()"
proof -
  have "build_transfer_transaction sample_sha3 sample_name_coin sample_recipient [] [] =
      Inr (sample_name_tx sample_name_coin sample_transfer_out)"
    using sample_name_tx_size [of sample_name_coin sample_transfer_out] sample_build_transfer
    by (auto simp: build_transfer_transaction_def reject_repeated_name_input_def Let_def sample_name_tx_def)
  from built_transfer_verifies [OF this] show ?thesis by blast
qed

theorem built_finalize_verifies_witness:
  "verify_finalize_at_index_zero sample_sha3 (sample_name_tx sample_transfer_coin sample_finalize_out)
     sample_transfer_coin sample_state (replicate 32 2) = Inr ()"
proof -
  have "build_finalize_transaction sample_sha3 sample_transfer_coin sample_state (replicate 32 2) [] [] =
      Inr (sample_name_tx sample_transfer_coin sample_finalize_out)"
    using sample_name_tx_size [of sample_transfer_coin sample_finalize_out] sample_build_finalize
    by (auto simp: build_finalize_transaction_def reject_repeated_name_input_def Let_def sample_name_tx_def)
  from built_finalize_verifies [OF this] show ?thesis by simp
qed

theorem transfer_then_finalize_witness:
  "out_address sample_finalize_out = sample_recipient \<and> out_value sample_finalize_out = coin_value sample_name_coin \<and>
   cov_kind (out_covenant sample_finalize_out) = Finalize"
  using transfer_then_finalize [OF sample_build_transfer _ _ sample_build_finalize]
  by (simp add: sample_transfer_coin_def sample_name_coin_def sample_transfer_out_def)

end
