(* ===== verification/Urkel.thy ===== *)
theory Urkel
  imports Encoding Primitives
begin

text \<open>
  Model of \<^verbatim>\<open>crates/hns-urkel-proof/src/lib.rs\<close>: the wire format of HSD's Urkel proofs and
  their verification. The hash function of the BLAKE2b crate is the parameter \<open>H\<close> on byte
  strings. An abstract radix tree gives the meaning of a root: verification is proved sound
  against it, for inclusion and for absence, for any hash function without collisions among the
  strings hashed for the tree and for the proof.
\<close>

section \<open>Data\<close>

datatype proof_kind = Inclusion | NonInclusion

record bit_prefix =
  bp_len :: u16
  bp_bytes :: bytes

record proof_node =
  pn_prefix :: bit_prefix
  pn_sibling :: bytes

datatype proof_terminal =
    DeadEnd
  | Short bit_prefix bytes bytes
  | Collision hash32 bytes
  | Exists bytes

record hsd_urkel_proof =
  up_depth :: u16
  up_nodes :: "proof_node list"
  up_terminal :: proof_terminal

record urkel_proof =
  uw_name_hash :: hash32
  uw_kind :: proof_kind
  uw_raw :: bytes

datatype urkel_error =
    UTooLarge nat
  | UDepth u16
  | NodeCount nat
  | PrefixLength nat
  | PrefixSize
  | PrefixTrailingBits
  | EmptyExplicitPrefix
  | EmptyShortPrefix
  | UUnexpectedEnd nat
  | OffsetOverflow
  | UTrailingBytes nat
  | NonCanonical
  | ValueTooLarge nat
  | KindMismatch
  | ShortFollowsKey
  | CollisionUsesKey
  | AncestorDepth
  | AncestorPrefix
  | IncompletePath nat
  | RootMismatch bytes bytes

definition urkel_bits :: nat where "urkel_bits = 256"
definition max_hsd_proof_size :: nat where "max_hsd_proof_size = 82469"

text \<open>Bit access; every caller keeps the index inside the array.\<close>

definition key_bit :: "hash32 \<Rightarrow> nat \<Rightarrow> byte" where
  "key_bit key index = drop_bit (7 - index mod 8) (key ! (index div 8)) AND 1"

definition packed_bit :: "bytes \<Rightarrow> nat \<Rightarrow> byte" where
  "packed_bit bs index = drop_bit (7 - index mod 8) (bs ! (index div 8)) AND 1"

definition set_packed_bit :: "nat \<Rightarrow> nat \<Rightarrow> byte \<Rightarrow> bytes \<Rightarrow> bytes" where
  "set_packed_bit base index b bs =
     bs[base + index div 8 := (bs ! (base + index div 8)) OR push_bit (7 - index mod 8) b]"

section \<open>Bit prefixes\<close>

definition bp_default :: bit_prefix where
  "bp_default = \<lparr>bp_len = 0, bp_bytes = []\<rparr>"

definition bit_len :: "bit_prefix \<Rightarrow> nat" where
  "bit_len p = unat (bp_len p)"

definition prefix_bit :: "bit_prefix \<Rightarrow> nat \<Rightarrow> byte" where
  "prefix_bit p index = packed_bit (bp_bytes p) index"

definition matches_key :: "bit_prefix \<Rightarrow> hash32 \<Rightarrow> nat \<Rightarrow> bool" where
  "matches_key p key depth \<longleftrightarrow>
     (case checked_add_usize depth (bit_len p) of None \<Rightarrow> False | Some e \<Rightarrow> e \<le> urkel_bits) \<and>
     list_all (\<lambda>offset. prefix_bit p offset = key_bit key (depth + offset)) [0..<bit_len p]"

definition prefix_validate :: "bit_prefix \<Rightarrow> urkel_error + unit" where
  "prefix_validate p =
     (let n = bit_len p in
      if n > urkel_bits then Inl (PrefixLength n)
      else if length (bp_bytes p) \<noteq> div_ceil n 8 then Inl PrefixSize
      else if n mod 8 \<noteq> 0 \<and> bp_bytes p \<noteq> [] \<and>
        (bp_bytes p ! (length (bp_bytes p) - 1)) AND (push_bit (8 - n mod 8) 1 - 1) \<noteq> 0
      then Inl PrefixTrailingBits
      else Inr ())"

definition write_hsd :: "bit_prefix \<Rightarrow> bytes \<Rightarrow> bytes" where
  "write_hsd p out =
     (out @ (if bit_len p \<ge> 0x80 then [0x80 OR word_of_nat (bit_len p div 256)] else [])) @
     [word_of_nat (bit_len p)] @ bp_bytes p"

section \<open>Reading\<close>

text \<open>\<^verbatim>\<open>ProofReader\<close> has the two fields of \<^verbatim>\<open>Decoder\<close> (input and offset), so it shares its record.\<close>

definition pr_read_slice :: "nat \<Rightarrow> (urkel_error, bytes) reader" where
  "pr_read_slice n d =
     bind_res (ok_or (checked_add_usize (dec_position d) n) OffsetOverflow) (\<lambda>e.
     bind_res (ok_or (get_range (dec_input d) (dec_position d) e) (UUnexpectedEnd (dec_position d))) (\<lambda>bs.
       Inr (bs, d\<lparr>dec_position := e\<rparr>)))"

definition pr_read_u8 :: "(urkel_error, byte) reader" where
  "pr_read_u8 d =
     bind_res (ok_or (get (dec_input d) (dec_position d)) (UUnexpectedEnd (dec_position d))) (\<lambda>b.
       Inr (b, d\<lparr>dec_position := dec_position d + 1\<rparr>))"

definition pr_read_u16 :: "(urkel_error, u16) reader" where
  "pr_read_u16 = dbind (pr_read_slice 2) (\<lambda>bs. dreturn (u16_of_le bs))"

definition pr_read_hash :: "(urkel_error, bytes) reader" where
  "pr_read_hash = pr_read_slice 32"

definition pr_read_vec :: "nat \<Rightarrow> (urkel_error, bytes) reader" where
  "pr_read_vec n = pr_read_slice n"

definition pr_read_prefix :: "(urkel_error, bit_prefix) reader" where
  "pr_read_prefix =
     dbind pr_read_u8 (\<lambda>first.
     dbind (if first AND 0x80 \<noteq> 0
            then dbind pr_read_u8 (\<lambda>low. dreturn (push_bit 8 (unat (first AND 0x7f)) OR unat low))
            else dreturn (unat first)) (\<lambda>n.
     if n > urkel_bits then derror (PrefixLength n)
     else
       dbind (pr_read_vec (div_ceil n 8)) (\<lambda>bs.
       let p = \<lparr>bp_len = word_of_nat n, bp_bytes = bs\<rparr>
       in dbind (dcheck (prefix_validate p)) (\<lambda>_. dreturn p))))"

section \<open>Proofs\<close>

definition validate_nodes :: "proof_node list \<Rightarrow> urkel_error + unit" where
  "validate_nodes nodes =
     foldr (\<lambda>n rest. bind_res (prefix_validate (pn_prefix n)) (\<lambda>_. rest)) nodes (Inr ())"

definition urkel_validate :: "hsd_urkel_proof \<Rightarrow> urkel_error + unit" where
  "urkel_validate p =
     (if unat (up_depth p) > urkel_bits then Inl (UDepth (up_depth p))
      else if length (up_nodes p) > urkel_bits then Inl (NodeCount (length (up_nodes p)))
      else
        bind_res (validate_nodes (up_nodes p)) (\<lambda>_.
        case up_terminal p of
          Short prefix _ _ \<Rightarrow>
            bind_res (prefix_validate prefix) (\<lambda>_.
            if bit_len prefix = 0 then Inl EmptyShortPrefix else Inr ())
        | Exists v \<Rightarrow> if length v > 65535 then Inl (ValueTooLarge (length v)) else Inr ()
        | _ \<Rightarrow> Inr ()))"

definition read_node :: "bytes \<Rightarrow> nat \<Rightarrow> (urkel_error, proof_node) reader" where
  "read_node prefix_field index =
     dbind (if packed_bit prefix_field index = 1
            then dbind pr_read_prefix (\<lambda>p.
                   if bit_len p = 0 then derror EmptyExplicitPrefix else dreturn p)
            else dreturn bp_default) (\<lambda>p.
     dbind pr_read_hash (\<lambda>sibling. dreturn \<lparr>pn_prefix = p, pn_sibling = sibling\<rparr>))"

primrec read_nodes :: "bytes \<Rightarrow> nat list \<Rightarrow> (urkel_error, proof_node list) reader" where
  "read_nodes prefix_field [] = dreturn []"
| "read_nodes prefix_field (i # is) =
     dbind (read_node prefix_field i) (\<lambda>n.
     dbind (read_nodes prefix_field is) (\<lambda>ns. dreturn (n # ns)))"

definition read_terminal :: "u16 \<Rightarrow> (urkel_error, proof_terminal) reader" where
  "read_terminal proof_type =
     (if proof_type = 0 then dreturn DeadEnd
      else if proof_type = 1 then
        dbind pr_read_prefix (\<lambda>p.
        if bit_len p = 0 then derror EmptyShortPrefix
        else dbind pr_read_hash (\<lambda>l. dbind pr_read_hash (\<lambda>r. dreturn (Short p l r))))
      else if proof_type = 2 then
        dbind pr_read_hash (\<lambda>key. dbind pr_read_hash (\<lambda>vh. dreturn (Collision key vh)))
      else
        dbind pr_read_u16 (\<lambda>n. dbind (pr_read_vec (unat n)) (\<lambda>v. dreturn (Exists v))))"

definition urkel_decode_inner :: "bytes \<Rightarrow> urkel_error + hsd_urkel_proof \<times> nat" where
  "urkel_decode_inner raw =
     (if length raw > max_hsd_proof_size then Inl (UTooLarge (length raw))
      else
        bind_res
          (dbind pr_read_u16 (\<lambda>field.
           let proof_type = drop_bit 14 field; depth = field AND 0x3fff in
           if unat depth > urkel_bits then derror (UDepth depth)
           else
             dbind pr_read_u16 (\<lambda>c.
             let count = unat c in
             if count > urkel_bits then derror (NodeCount count)
             else
               dbind (pr_read_vec (div_ceil count 8)) (\<lambda>prefix_field.
               dbind (read_nodes prefix_field [0..<count]) (\<lambda>nodes.
               dbind (read_terminal proof_type) (\<lambda>terminal.
               let p = \<lparr>up_depth = depth, up_nodes = nodes, up_terminal = terminal\<rparr>
               in dbind (dcheck (urkel_validate p)) (\<lambda>_. dreturn p)))))) (decoder_new raw))
          (\<lambda>(p, d). Inr (p, dec_position d)))"

definition urkel_decode_hsd :: "bytes \<Rightarrow> urkel_error + hsd_urkel_proof" where
  "urkel_decode_hsd raw = bind_res (urkel_decode_inner raw) (\<lambda>(p, _). Inr p)"

fun terminal_type :: "proof_terminal \<Rightarrow> u16" where
  "terminal_type DeadEnd = 0"
| "terminal_type (Short _ _ _) = 1"
| "terminal_type (Collision _ _) = 2"
| "terminal_type (Exists _) = 3"

definition write_node :: "nat \<Rightarrow> nat \<times> proof_node \<Rightarrow> bytes \<Rightarrow> bytes" where
  "write_node bitmap_offset = (\<lambda>(index, n) raw.
     (if bit_len (pn_prefix n) \<noteq> 0
      then write_hsd (pn_prefix n) (set_packed_bit bitmap_offset index 1 raw) else raw) @ pn_sibling n)"

fun write_terminal :: "proof_terminal \<Rightarrow> bytes \<Rightarrow> bytes" where
  "write_terminal DeadEnd raw = raw"
| "write_terminal (Short p l r) raw = write_hsd p raw @ l @ r"
| "write_terminal (Collision key vh) raw = raw @ key @ vh"
| "write_terminal (Exists v) raw = raw @ u16_to_le (word_of_nat (length v)) @ v"

definition urkel_encode :: "hsd_urkel_proof \<Rightarrow> urkel_error + bytes" where
  "urkel_encode p =
     bind_res (urkel_validate p) (\<lambda>_.
     let head = u16_to_le (push_bit 14 (terminal_type (up_terminal p)) OR up_depth p) @
           u16_to_le (word_of_nat (length (up_nodes p)));
         bitmap_offset = length head;
         raw = head @ replicate (div_ceil (length (up_nodes p)) 8) 0;
         raw = fold (write_node bitmap_offset) (enumerate 0 (up_nodes p)) raw;
         raw = write_terminal (up_terminal p) raw
     in if length raw > max_hsd_proof_size then Inl (UTooLarge (length raw)) else Inr raw)"

definition urkel_decode_strict :: "bytes \<Rightarrow> urkel_error + hsd_urkel_proof" where
  "urkel_decode_strict raw =
     bind_res (urkel_decode_inner raw) (\<lambda>(p, consumed).
     if consumed \<noteq> length raw then Inl (UTrailingBytes (length raw - consumed))
     else bind_res (urkel_encode p) (\<lambda>encoded.
       if encoded \<noteq> raw then Inl NonCanonical else Inr p))"

fun terminal_kind :: "proof_terminal \<Rightarrow> proof_kind" where
  "terminal_kind (Exists _) = Inclusion"
| "terminal_kind _ = NonInclusion"

definition urkel_kind :: "hsd_urkel_proof \<Rightarrow> proof_kind" where
  "urkel_kind p = terminal_kind (up_terminal p)"

section \<open>Verification\<close>

definition hash_leaf :: "(bytes \<Rightarrow> bytes) \<Rightarrow> bytes \<Rightarrow> bytes \<Rightarrow> bytes" where
  "hash_leaf H key value_hash = H (0 # key @ value_hash)"

definition hash_internal :: "(bytes \<Rightarrow> bytes) \<Rightarrow> bit_prefix \<Rightarrow> bytes \<Rightarrow> bytes \<Rightarrow> bytes" where
  "hash_internal H p left right =
     (if bit_len p = 0 then H (1 # left @ right)
      else H (2 # u16_to_le (bp_len p) @ bp_bytes p @ left @ right))"

definition verify_terminal ::
  "(bytes \<Rightarrow> bytes) \<Rightarrow> hash32 \<Rightarrow> nat \<Rightarrow> proof_terminal \<Rightarrow> urkel_error + bytes \<times> bytes option" where
  "verify_terminal H key depth terminal =
     (case terminal of
        DeadEnd \<Rightarrow> Inr (replicate 32 0, None)
      | Short p l r \<Rightarrow>
          if matches_key p key depth then Inl ShortFollowsKey else Inr (hash_internal H p l r, None)
      | Collision k vh \<Rightarrow>
          if k = key then Inl CollisionUsesKey else Inr (hash_leaf H k vh, None)
      | Exists v \<Rightarrow> Inr (hash_leaf H key (H v), Some v))"

fun verify_path ::
  "(bytes \<Rightarrow> bytes) \<Rightarrow> hash32 \<Rightarrow> proof_node list \<Rightarrow> nat \<times> bytes \<Rightarrow> urkel_error + nat \<times> bytes" where
  "verify_path H key [] (depth, hash) = Inr (depth, hash)"
| "verify_path H key (n # ns) (depth, hash) =
     (let prefix_bits = bit_len (pn_prefix n) in
      if depth < prefix_bits + 1 then Inl AncestorDepth
      else
        let depth1 = depth - 1;
            hash1 = (if key_bit key depth1 = 1 then hash_internal H (pn_prefix n) (pn_sibling n) hash
                     else hash_internal H (pn_prefix n) hash (pn_sibling n));
            depth2 = depth1 - prefix_bits
        in if \<not> matches_key (pn_prefix n) key depth2 then Inl AncestorPrefix
           else verify_path H key ns (depth2, hash1))"

definition urkel_verify ::
  "(bytes \<Rightarrow> bytes) \<Rightarrow> hsd_urkel_proof \<Rightarrow> bytes \<Rightarrow> hash32 \<Rightarrow> urkel_error + bytes option" where
  "urkel_verify H p expected_root key =
     bind_res (urkel_validate p) (\<lambda>_.
     bind_res (verify_terminal H key (unat (up_depth p)) (up_terminal p)) (\<lambda>(hash, result).
     bind_res (verify_path H key (rev (up_nodes p)) (unat (up_depth p), hash)) (\<lambda>(depth, hash).
     if depth \<noteq> 0 then Inl (IncompletePath depth)
     else if hash \<noteq> expected_root then Inl (RootMismatch expected_root hash)
     else Inr result)))"

definition urkel_verify_hsd ::
  "(bytes \<Rightarrow> bytes) \<Rightarrow> urkel_proof \<Rightarrow> bytes \<Rightarrow> urkel_error + bytes option" where
  "urkel_verify_hsd H w root =
     bind_res (urkel_decode_hsd (uw_raw w)) (\<lambda>p.
     if urkel_kind p \<noteq> uw_kind w then Inl KindMismatch else urkel_verify H p root (uw_name_hash w))"

definition urkel_verify_strict ::
  "(bytes \<Rightarrow> bytes) \<Rightarrow> urkel_proof \<Rightarrow> bytes \<Rightarrow> urkel_error + bytes option" where
  "urkel_verify_strict H w root =
     bind_res (urkel_decode_strict (uw_raw w)) (\<lambda>p.
     if urkel_kind p \<noteq> uw_kind w then Inl KindMismatch else urkel_verify H p root (uw_name_hash w))"

section \<open>The tree a root commits to\<close>

text \<open>
  The specification side: a radix tree with compressed prefixes, the value it holds for a key,
  and its root hash. No code under \<^verbatim>\<open>src/\<close> builds such trees; the clients only verify proofs.
\<close>

datatype utree = UNull | ULeaf bytes bytes | UInternal bit_prefix utree utree

primrec tree_hash :: "(bytes \<Rightarrow> bytes) \<Rightarrow> utree \<Rightarrow> bytes" where
  "tree_hash H UNull = replicate 32 0"
| "tree_hash H (ULeaf k v) = hash_leaf H k (H v)"
| "tree_hash H (UInternal p l r) = hash_internal H p (tree_hash H l) (tree_hash H r)"

fun tree_lookup :: "utree \<Rightarrow> bytes \<Rightarrow> nat \<Rightarrow> bytes option" where
  "tree_lookup UNull key depth = None"
| "tree_lookup (ULeaf k v) key depth = (if k = key then Some v else None)"
| "tree_lookup (UInternal p l r) key depth =
     (if matches_key p key depth
      then tree_lookup (if key_bit key (depth + bit_len p) = 1 then r else l) key (depth + bit_len p + 1)
      else None)"

fun tree_wf :: "utree \<Rightarrow> nat \<Rightarrow> bool" where
  "tree_wf UNull depth = True"
| "tree_wf (ULeaf k v) depth = (length k = 32 \<and> length v \<le> 65535)"
| "tree_wf (UInternal p l r) depth =
     (prefix_validate p = Inr () \<and> depth + bit_len p + 1 \<le> urkel_bits \<and>
      tree_wf l (depth + bit_len p + 1) \<and> tree_wf r (depth + bit_len p + 1))"

text \<open>The strings hashed for a tree and for a proof.\<close>

definition internal_input :: "bit_prefix \<Rightarrow> bytes \<Rightarrow> bytes \<Rightarrow> bytes" where
  "internal_input p left right =
     (if bit_len p = 0 then 1 # left @ right else 2 # u16_to_le (bp_len p) @ bp_bytes p @ left @ right)"

lemma hash_internal_input: "hash_internal H p l r = H (internal_input p l r)"
  by (simp add: hash_internal_def internal_input_def)

primrec tree_inputs :: "(bytes \<Rightarrow> bytes) \<Rightarrow> utree \<Rightarrow> bytes list" where
  "tree_inputs H UNull = []"
| "tree_inputs H (ULeaf k v) = [v, 0 # k @ H v]"
| "tree_inputs H (UInternal p l r) =
     internal_input p (tree_hash H l) (tree_hash H r) # tree_inputs H l @ tree_inputs H r"

fun terminal_inputs :: "(bytes \<Rightarrow> bytes) \<Rightarrow> bytes \<Rightarrow> proof_terminal \<Rightarrow> bytes list" where
  "terminal_inputs H key DeadEnd = []"
| "terminal_inputs H key (Short p l r) = [internal_input p l r]"
| "terminal_inputs H key (Collision k vh) = [0 # k @ vh]"
| "terminal_inputs H key (Exists v) = [v, 0 # key @ H v]"

fun terminal_hash :: "(bytes \<Rightarrow> bytes) \<Rightarrow> bytes \<Rightarrow> proof_terminal \<Rightarrow> bytes" where
  "terminal_hash H key DeadEnd = replicate 32 0"
| "terminal_hash H key (Short p l r) = hash_internal H p l r"
| "terminal_hash H key (Collision k vh) = hash_leaf H k vh"
| "terminal_hash H key (Exists v) = hash_leaf H key (H v)"

definition node_input :: "bytes \<Rightarrow> proof_node \<Rightarrow> nat \<Rightarrow> bytes \<Rightarrow> bytes" where
  "node_input key n depth hash =
     (if key_bit key (depth - 1) = 1 then internal_input (pn_prefix n) (pn_sibling n) hash
      else internal_input (pn_prefix n) hash (pn_sibling n))"

fun path_inputs :: "(bytes \<Rightarrow> bytes) \<Rightarrow> bytes \<Rightarrow> proof_node list \<Rightarrow> nat \<times> bytes \<Rightarrow> bytes list" where
  "path_inputs H key [] st = []"
| "path_inputs H key (n # ns) (depth, hash) =
     node_input key n depth hash #
     path_inputs H key ns (depth - 1 - bit_len (pn_prefix n), H (node_input key n depth hash))"

definition proof_inputs :: "(bytes \<Rightarrow> bytes) \<Rightarrow> hsd_urkel_proof \<Rightarrow> bytes \<Rightarrow> bytes list" where
  "proof_inputs H p key =
     terminal_inputs H key (up_terminal p) @
     path_inputs H key (rev (up_nodes p)) (unat (up_depth p), terminal_hash H key (up_terminal p))"

text \<open>Array lengths that the Rust types fix.\<close>

fun terminal_typed :: "proof_terminal \<Rightarrow> bool" where
  "terminal_typed DeadEnd = True"
| "terminal_typed (Short p l r) = (length l = 32 \<and> length r = 32)"
| "terminal_typed (Collision k vh) = (length k = 32 \<and> length vh = 32)"
| "terminal_typed (Exists v) = True"

definition proof_typed :: "hsd_urkel_proof \<Rightarrow> bool" where
  "proof_typed p \<longleftrightarrow> list_all (\<lambda>n. length (pn_sibling n) = 32) (up_nodes p) \<and> terminal_typed (up_terminal p)"

section \<open>Soundness of verification\<close>

lemma validate_nodes_ok: "validate_nodes ns = Inr () \<longleftrightarrow> (\<forall>n\<in>set ns. prefix_validate (pn_prefix n) = Inr ())"
  by (induction ns) (auto simp: validate_nodes_def bind_res_eq_Inr)

lemma prefix_validate_size: "prefix_validate p = Inr () \<Longrightarrow> length (bp_bytes p) = div_ceil (bit_len p) 8"
  by (auto simp: prefix_validate_def Let_def split: if_splits)

lemma prefix_validate_bits: "prefix_validate p = Inr () \<Longrightarrow> bit_len p \<le> urkel_bits"
  by (auto simp: prefix_validate_def Let_def split: if_splits)

lemma length_tree_hash:
  assumes "\<And>x. length (H x) = 32"
  shows "length (tree_hash H t) = 32"
  by (cases t) (simp_all add: assms hash_leaf_def hash_internal_def)

lemma internal_input_tags:
  "internal_input p l r \<noteq> 0 # x"
  by (simp add: internal_input_def)

lemma u16_to_le_inject: "u16_to_le a @ x = u16_to_le b @ y \<longleftrightarrow> a = b \<and> x = y"
  by (simp add: append_eq_append_conv)

lemma internal_input_inject:
  assumes "internal_input p l r = internal_input p' l' r'"
    and "prefix_validate p = Inr ()" "prefix_validate p' = Inr ()"
    and "length l = 32" "length l' = 32" 
  shows "p = p' \<and> l = l' \<and> r = r'"
proof (cases "bit_len p = 0")
  case True
  then have z: "bit_len p' = 0" using assms(1) by (auto simp: internal_input_def split: if_splits)
  with True have "bp_len p = 0" "bp_len p' = 0" by (simp_all add: bit_len_def unat_eq_zero)
  moreover have "bp_bytes p = []" "bp_bytes p' = []"
    using True z assms(2,3)[THEN prefix_validate_size] by (simp_all add: div_ceil_def)
  ultimately have "p = p'" by simp
  then show ?thesis using True z assms by (simp add: internal_input_def)
next
  case False
  then have z: "bit_len p' \<noteq> 0" using assms(1) by (auto simp: internal_input_def split: if_splits)
  have e: "bp_len p = bp_len p' \<and> bp_bytes p @ l @ r = bp_bytes p' @ l' @ r'"
    using assms(1) False z by (simp add: internal_input_def u16_to_le_inject)
  moreover have "length (bp_bytes p) = length (bp_bytes p')"
    using e assms(2,3)[THEN prefix_validate_size] by (simp add: bit_len_def)
  ultimately show ?thesis using assms(4,5) by simp
qed

lemma verify_path_append:
  "verify_path H key (ms @ ns) st = bind_res (verify_path H key ms st) (verify_path H key ns)"
  by (induction H key ms st rule: verify_path.induct) (auto simp: Let_def)

lemma path_inputs_append:
  assumes "verify_path H key ms st = Inr st'"
  shows "path_inputs H key (ms @ ns) st = path_inputs H key ms st @ path_inputs H key ns st'"
  using assms
  by (induction H key ms st arbitrary: st' rule: verify_path.induct)
    (auto simp: Let_def node_input_def hash_internal_input split: if_splits)

lemma verify_path_single:
  assumes "verify_path H key [n] (d1, h1) = Inr (d0, h)"
  shows "d1 = d0 + bit_len (pn_prefix n) + 1" "matches_key (pn_prefix n) key d0"
    and "h = H (node_input key n d1 h1)"
  using assms by (auto simp: Let_def node_input_def hash_internal_input split: if_splits)

text \<open>One proof node under a tree's root hash is the tree's own root.\<close>

lemma node_step_sound:
  assumes path: "verify_path H key [n] (d1, h1) = Inr (d0, tree_hash H t)"
    and cf: "collision_free H xs" and "set (tree_inputs H t) \<subseteq> set xs"
    and "node_input key n d1 h1 \<in> set xs"
    and "prefix_validate (pn_prefix n) = Inr ()" "length (pn_sibling n) = 32" "length h1 = 32"
    and t: "tree_wf t d0" and H: "\<And>x. length (H x) = 32"
  obtains t' where "tree_hash H t' = h1" "tree_lookup t key d0 = tree_lookup t' key d1"
    and "set (tree_inputs H t') \<subseteq> set (tree_inputs H t)" "tree_wf t' d1"
proof (cases t)
  case UNull
  then show ?thesis using verify_path_single(3)[OF path] collision_freeD(2)[OF cf assms(4)] by simp
next
  case (ULeaf k v)
  then have "H (0 # k @ H v) = H (node_input key n d1 h1)"
    using verify_path_single(3)[OF path] by (simp add: hash_leaf_def)
  then have "0 # k @ H v = node_input key n d1 h1"
    using collision_freeD(1)[OF cf _ assms(4)] assms(3) ULeaf by auto
  then show ?thesis by (auto simp: node_input_def internal_input_def split: if_splits)
next
  case (UInternal p l r)
  note s = verify_path_single[OF path]
  have "H (internal_input p (tree_hash H l) (tree_hash H r)) = H (node_input key n d1 h1)"
    using s(3) UInternal by (simp add: hash_internal_input)
  then have e: "internal_input p (tree_hash H l) (tree_hash H r) = node_input key n d1 h1"
    using collision_freeD(1)[OF cf _ assms(4)] assms(3) UInternal by auto
  have inj: "internal_input p (tree_hash H l) (tree_hash H r) = internal_input (pn_prefix n) x y \<Longrightarrow>
      length x = 32 \<Longrightarrow> p = pn_prefix n \<and> tree_hash H l = x \<and> tree_hash H r = y" for x y
    using t UInternal assms(5) by (intro internal_input_inject) (auto simp: length_tree_hash H)
  show ?thesis
  proof (cases "key_bit key (d1 - 1) = 1")
    case True
    then have "p = pn_prefix n \<and> tree_hash H l = pn_sibling n \<and> tree_hash H r = h1"
      using inj e assms(6) by (simp add: node_input_def)
    with True show ?thesis using s(1,2) UInternal t by (intro that[of r]) auto
  next
    case False
    then have "p = pn_prefix n \<and> tree_hash H l = h1 \<and> tree_hash H r = pn_sibling n"
      using inj e assms(7) by (simp add: node_input_def)
    with False show ?thesis using s(1,2) UInternal t by (intro that[of l]) auto
  qed
qed

lemma verify_path_length:
  assumes "verify_path H key ns (d, h) = Inr (d', h')" "length h = 32" "\<And>x. length (H x) = 32"
  shows "length h' = 32"
  using assms
  by (induction H key ns "(d, h)" arbitrary: d h rule: verify_path.induct)
    (auto simp: Let_def hash_internal_input split: if_splits)

text \<open>Descending the whole path, from the root to the terminal.\<close>

lemma path_sound:
  assumes "verify_path H key (rev ns) (d, h) = Inr (d0, tree_hash H t)"
    and cf: "collision_free H xs" and "set (tree_inputs H t) \<subseteq> set xs"
    and "set (path_inputs H key (rev ns) (d, h)) \<subseteq> set xs"
    and "\<forall>n\<in>set ns. prefix_validate (pn_prefix n) = Inr () \<and> length (pn_sibling n) = 32"
    and "length h = 32" "tree_wf t d0" and H: "\<And>x. length (H x) = 32"
  obtains t' where "tree_hash H t' = h" "tree_lookup t key d0 = tree_lookup t' key d"
    and "set (tree_inputs H t') \<subseteq> set (tree_inputs H t)" "tree_wf t' d"
  using assms(1,3-7)
proof (induction ns arbitrary: t d0 thesis)
  case Nil
  then show ?case by simp
next
  case (Cons n ns)
  obtain d1 h1 where up: "verify_path H key (rev ns) (d, h) = Inr (d1, h1)"
    and top: "verify_path H key [n] (d1, h1) = Inr (d0, tree_hash H t)"
    using Cons.prems(2) by (auto simp: verify_path_append bind_res_eq_Inr simp del: verify_path.simps)
  have inputs: "set (path_inputs H key (rev ns) (d, h)) \<subseteq> set xs" "node_input key n d1 h1 \<in> set xs"
    using Cons.prems(4) by (simp_all add: path_inputs_append[OF up])
  have h1: "length h1 = 32" by (rule verify_path_length[OF up Cons.prems(6) H])
  obtain t1 where t1: "tree_hash H t1 = h1" "tree_lookup t key d0 = tree_lookup t1 key d1"
      "set (tree_inputs H t1) \<subseteq> set (tree_inputs H t)" "tree_wf t1 d1"
    using node_step_sound[OF top cf Cons.prems(3) inputs(2)] Cons.prems(5,7) h1 H by auto
  show ?case
    by (rule Cons.IH[of t1 d1]) (use up t1 inputs Cons.prems in auto)
qed

lemma verify_terminal_ok:
  assumes "verify_terminal H key depth tm = Inr (h, r)"
  shows "h = terminal_hash H key tm"
  using assms by (cases tm) (auto simp: verify_terminal_def split: if_splits)

lemma length_terminal_hash: "(\<And>x. length (H x) = 32) \<Longrightarrow> length (terminal_hash H key tm) = 32"
  by (cases tm) (simp_all add: hash_leaf_def hash_internal_def)

text \<open>A subtree whose hash is the terminal's answers the query as the terminal does.\<close>

lemma terminal_sound:
  assumes "verify_terminal H key depth tm = Inr (tree_hash H t, r)"
    and cf: "collision_free H xs"
    and ins: "set (tree_inputs H t) \<subseteq> set xs" "set (terminal_inputs H key tm) \<subseteq> set xs"
    and tm: "terminal_typed tm" "\<And>p l r. tm = Short p l r \<Longrightarrow> prefix_validate p = Inr ()"
    and "length key = 32" "tree_wf t depth" and H: "\<And>x. length (H x) = 32"
  shows "r = tree_lookup t key depth"
proof -
  have root: "terminal_hash H key tm = tree_hash H t"
    using verify_terminal_ok[OF assms(1)] by simp
  note inj = collision_freeD(1)[OF cf] and nz = collision_freeD(2)[OF cf]
  show ?thesis
  proof (cases t)
    case UNull
    then show ?thesis
      using root ins nz[of "hd (rev (terminal_inputs H key tm))"] assms(1)
      by (cases tm) (simp_all add: verify_terminal_def hash_leaf_def hash_internal_input)
  next
    case (ULeaf k v)
    show ?thesis
    proof (cases tm)
      case DeadEnd
      then show ?thesis using root ins nz ULeaf by (auto simp: hash_leaf_def)
    next
      case (Short p l r')
      then have "0 # k @ H v = internal_input p l r'"
        using root ins ULeaf by - (rule inj, auto simp: hash_leaf_def hash_internal_input)
      then show ?thesis by (metis internal_input_tags)
    next
      case (Collision k' vh)
      then have "0 # k @ H v = 0 # k' @ vh"
        using root ins ULeaf by - (rule inj, auto simp: hash_leaf_def)
      then show ?thesis
        using assms(1,8) tm Collision ULeaf by (auto simp: verify_terminal_def split: if_splits)
    next
      case (Exists v')
      then have "0 # k @ H v = 0 # key @ H v'"
        using root ins ULeaf by - (rule inj, auto simp: hash_leaf_def)
      then have "k = key" "H v = H v'" using assms(7,8) ULeaf by auto
      then show ?thesis
        using inj[of v v'] ins Exists ULeaf assms(1) by (auto simp: verify_terminal_def)
    qed
  next
    case (UInternal p l r')
    note u = this
    have tags: "internal_input p (tree_hash H l) (tree_hash H r') = 0 # x \<Longrightarrow> False" for x
      by (simp add: internal_input_tags)
    show ?thesis
    proof (cases tm)
      case DeadEnd
      then show ?thesis using root ins nz u by (auto simp: hash_internal_input)
    next
      case (Short q a b)
      then have "internal_input p (tree_hash H l) (tree_hash H r') = internal_input q a b"
        using root ins u by - (rule inj, auto simp: hash_internal_input)
      moreover have "prefix_validate p = Inr ()" using assms(8) u by simp
      moreover have "prefix_validate q = Inr ()" by (rule tm(2)[OF Short])
      moreover have "length (tree_hash H l) = 32" by (rule length_tree_hash[OF H])
      moreover have "length a = 32" using tm(1) Short by simp
      ultimately have "p = q" by (rule internal_input_inject[THEN conjunct1])
      then show ?thesis using assms(1) Short u by (auto simp: verify_terminal_def split: if_splits)
    next
      case (Collision k vh)
      then have "internal_input p (tree_hash H l) (tree_hash H r') = 0 # k @ vh"
        using root ins u by - (rule inj, auto simp: hash_leaf_def hash_internal_input)
      then show ?thesis by (rule tags[THEN FalseE])
    next
      case (Exists v)
      then have "internal_input p (tree_hash H l) (tree_hash H r') = 0 # key @ H v"
        using root ins u by - (rule inj, auto simp: hash_leaf_def hash_internal_input)
      then show ?thesis by (rule tags[THEN FalseE])
    qed
  qed
qed

lemma urkel_validate_ok:
  assumes "urkel_validate p = Inr ()"
  shows "unat (up_depth p) \<le> urkel_bits" "\<forall>n\<in>set (up_nodes p). prefix_validate (pn_prefix n) = Inr ()"
    and "up_terminal p = Short q l r \<Longrightarrow> prefix_validate q = Inr ()"
  using assms
  by (auto simp: urkel_validate_def bind_res_eq_Inr validate_nodes_ok split: if_splits)

lemma verify_sound:
  assumes v: "urkel_verify H p (tree_hash H t) key = Inr r"
    and typed: "proof_typed p" "length key = 32" "tree_wf t 0"
    and cf: "collision_free H (tree_inputs H t @ proof_inputs H p key)"
    and H: "\<And>x. length (H x) = 32"
  shows "r = tree_lookup t key 0"
proof -
  let ?d = "unat (up_depth p)" and ?xs = "tree_inputs H t @ proof_inputs H p key"
  obtain h where val: "urkel_validate p = Inr ()"
    and tm: "verify_terminal H key ?d (up_terminal p) = Inr (h, r)"
    and path: "verify_path H key (rev (up_nodes p)) (?d, h) = Inr (0, tree_hash H t)"
    using v by (auto simp: urkel_verify_def bind_res_eq_Inr split: if_splits)
  have h: "h = terminal_hash H key (up_terminal p)" by (rule verify_terminal_ok[OF tm])
  obtain t' where t': "tree_hash H t' = h" "tree_lookup t key 0 = tree_lookup t' key ?d"
      "set (tree_inputs H t') \<subseteq> set (tree_inputs H t)" "tree_wf t' ?d"
    by (rule path_sound[OF path cf])
      (use urkel_validate_ok(2)[OF val] typed H h in
        \<open>auto simp: proof_inputs_def proof_typed_def list_all_iff length_terminal_hash\<close>)
  have "r = tree_lookup t' key ?d"
  proof (rule terminal_sound[OF _ cf])
    show "verify_terminal H key ?d (up_terminal p) = Inr (tree_hash H t', r)" using tm t'(1) by simp
    show "terminal_typed (up_terminal p)" using typed(1) by (simp add: proof_typed_def)
    show "prefix_validate q = Inr ()" if "up_terminal p = Short q a b" for q a b
      by (rule urkel_validate_ok(3)[OF val that])
  qed (use t' typed H in \<open>auto simp: proof_inputs_def\<close>)
  with t'(2) show ?thesis by simp
qed

section \<open>Reading what was written\<close>

interpretation pr_slice: codec "\<lambda>bs. bs" "pr_read_slice n" "\<lambda>bs. length bs = n" for n
  by unfold_locales
    (auto simp: pr_read_slice_def bind_res_eq_Inr checked_add_usize_def get_range_def slice_append
      fits_def cursor_def split: if_splits intro!: exI [of _ "drop n _"] append_take_drop_id [symmetric])

interpretation pr_u16: codec u16_to_le pr_read_u16 "\<lambda>_. True"
  unfolding pr_read_u16_def by (rule codec_map [OF pr_slice.codec_axioms]) auto

interpretation pr_u8: codec "\<lambda>b. [b]" pr_read_u8 "\<lambda>_. True"
proof
  fix pre rest v d'
  assume "pr_read_u8 (cursor pre rest) = Inr (v, d')"
  then show "True \<and> (\<exists>suf. rest = [v] @ suf \<and> d' = cursor (pre @ [v]) suf)"
    by (cases rest) (auto simp: pr_read_u8_def bind_res_eq_Inr get_Some cursor_def)
qed (simp add: pr_read_u8_def cursor_def)

lemma pr_read_slice_length: "pr_read_slice n d = Inr (bs, d') \<Longrightarrow> length bs = n"
  by (auto simp: pr_read_slice_def bind_res_eq_Inr checked_add_usize_def get_range_def split: if_splits)

lemma read_nodes_typed:
  "read_nodes bm is d = Inr (ns, d') \<Longrightarrow> list_all (\<lambda>n. length (pn_sibling n) = 32) ns"
  by (induction "is" arbitrary: d ns)
    (auto simp: dbind_eq_Inr read_node_def pr_read_hash_def dest: pr_read_slice_length)

lemma read_terminal_typed: "read_terminal ty d = Inr (tm, d') \<Longrightarrow> terminal_typed tm"
  by (auto simp: read_terminal_def dbind_eq_Inr pr_read_hash_def dest: pr_read_slice_length split: if_splits)

lemma urkel_decode_typed: "urkel_decode_inner raw = Inr (p, n) \<Longrightarrow> proof_typed p"
  by (auto simp: urkel_decode_inner_def bind_res_eq_Inr dbind_eq_Inr Let_def proof_typed_def
      dest: read_nodes_typed read_terminal_typed split: if_splits)

definition prefix_wire :: "bit_prefix \<Rightarrow> bytes" where
  "prefix_wire p = write_hsd p []"

definition node_wire :: "proof_node \<Rightarrow> bytes" where
  "node_wire n = (if bit_len (pn_prefix n) \<noteq> 0 then prefix_wire (pn_prefix n) else []) @ pn_sibling n"

lemma write_hsd_wire: "write_hsd p out = out @ prefix_wire p"
  by (simp add: write_hsd_def prefix_wire_def)

lemma word_of_nat_bit_len: "word_of_nat (bit_len p) = bp_len p"
  by (simp add: bit_len_def)

lemma wide_prefix_length:
  assumes "n \<le> 256" "128 \<le> n"
  shows "(0x80 OR word_of_nat (n div 256) :: byte) AND 0x80 \<noteq> 0"
    and "push_bit 8 (unat ((0x80 OR word_of_nat (n div 256) :: byte) AND 0x7f)) OR unat (word_of_nat n :: byte) = n"
proof -
  have "n div 256 = 0 \<and> n < 256 \<or> n = 256" using assms(1) by auto
  then show "(0x80 OR word_of_nat (n div 256) :: byte) AND 0x80 \<noteq> 0"
    and "push_bit 8 (unat ((0x80 OR word_of_nat (n div 256) :: byte) AND 0x7f)) OR unat (word_of_nat n :: byte) = n"
    by (auto simp: unat_of_nat)
qed

lemma narrow_prefix_length:
  assumes "n < 128"
  shows "(word_of_nat n :: byte) AND 0x80 = 0" "unat (word_of_nat n :: byte) = n"
proof -
  have "unat (word_of_nat n :: byte) = n" using assms by (simp add: unat_of_nat)
  moreover have "(word_of_nat n :: byte) AND 2 ^ 7 \<noteq> 0 \<longleftrightarrow> odd (unat (word_of_nat n :: byte) div 2 ^ 7)"
    by (rule word_and_bit) simp
  ultimately show "(word_of_nat n :: byte) AND 0x80 = 0" "unat (word_of_nat n :: byte) = n"
    using assms by simp_all
qed

lemma pr_read_prefix_run:
  assumes "prefix_validate p = Inr ()" and "fits pre (prefix_wire p @ suf)"
  shows "pr_read_prefix (cursor pre (prefix_wire p @ suf)) = Inr (p, cursor (pre @ prefix_wire p) suf)"
proof -
  have le: "bit_len p \<le> 256" using prefix_validate_bits[OF assms(1)] by (simp add: urkel_bits_def)
  have sz: "length (bp_bytes p) = div_ceil (bit_len p) 8" by (rule prefix_validate_size[OF assms(1)])
  have p: "\<lparr>bp_len = word_of_nat (bit_len p), bp_bytes = bp_bytes p\<rparr> = p" by (simp add: word_of_nat_bit_len)
  have u8: "pr_read_u8 (cursor pre (b # r)) = Inr (b, cursor (pre @ [b]) r)" if "fits pre (b # r)" for pre b r
    using pr_u8.reads[of pre b r] that by simp
  have body: "pr_read_vec (div_ceil (bit_len p) 8) (cursor pre' (bp_bytes p @ suf)) =
      Inr (bp_bytes p, cursor (pre' @ bp_bytes p) suf)" if "fits pre' (bp_bytes p @ suf)" for pre'
    unfolding pr_read_vec_def by (rule pr_slice.reads) (use sz that in auto)
  have tail: "dbind (pr_read_vec (div_ceil (bit_len p) 8)) (\<lambda>bs.
       let p = \<lparr>bp_len = word_of_nat (bit_len p), bp_bytes = bs\<rparr>
       in dbind (dcheck (prefix_validate p)) (\<lambda>_. dreturn p)) (cursor pre' (bp_bytes p @ suf)) =
      Inr (p, cursor (pre' @ bp_bytes p) suf)" if "fits pre' (bp_bytes p @ suf)" for pre'
    by (subst dbind_run, rule body[OF that]) (simp add: Let_def p dbind_run assms(1))
  show ?thesis
  proof (cases "128 \<le> bit_len p")
    case True
    let ?f = "0x80 OR word_of_nat (bit_len p div 256) :: byte"
    have w: "prefix_wire p = ?f # word_of_nat (bit_len p) # bp_bytes p"
      using True by (simp add: prefix_wire_def write_hsd_def)
    note k = wide_prefix_length[OF le True]
    show ?thesis
      unfolding pr_read_prefix_def w append_Cons
      by (subst dbind_run, rule u8)
        (use assms(2) w le tail k in \<open>auto simp: fits_def dbind_run u8 urkel_bits_def\<close>)
  next
    case False
    have w: "prefix_wire p = word_of_nat (bit_len p) # bp_bytes p"
      using False by (simp add: prefix_wire_def write_hsd_def)
    have k: "(word_of_nat (bit_len p) :: byte) AND 0x80 = 0" "unat (word_of_nat (bit_len p) :: byte) = bit_len p"
      using narrow_prefix_length[of "bit_len p"] False by simp_all
    show ?thesis
      unfolding pr_read_prefix_def w append_Cons
      by (subst dbind_run, rule u8)
        (use assms(2) w le tail k in \<open>auto simp: fits_def dbind_run u8 urkel_bits_def\<close>)
  qed
qed

text \<open>The bitmap of explicit prefixes.\<close>

definition mark :: "nat \<times> proof_node \<Rightarrow> bytes \<Rightarrow> bytes" where
  "mark = (\<lambda>(i, n) bm. if bit_len (pn_prefix n) \<noteq> 0 then set_packed_bit 0 i 1 bm else bm)"

lemma packed_bit_alt: "packed_bit bs i = of_bool (bit (bs ! (i div 8)) (7 - i mod 8))"
  by (simp add: packed_bit_def and_one_eq odd_iff_mod_2_eq_one [symmetric] bit_iff_odd_drop_bit of_bool_odd_eq_mod_2 [symmetric])

lemma packed_bit_set:
  assumes "i div 8 < length bs"
  shows "packed_bit (set_packed_bit 0 i 1 bs) j = (if i = j then 1 else packed_bit bs j)"
proof -
  have "i = j \<longleftrightarrow> i div 8 = j div 8 \<and> 7 - i mod 8 = 7 - j mod 8"
  proof
    assume *: "i div 8 = j div 8 \<and> 7 - i mod 8 = 7 - j mod 8"
    have "i mod 8 < 8" "j mod 8 < 8" by simp_all
    with * have "i mod 8 = j mod 8" by linarith
    with * show "i = j" by (metis div_mult_mod_eq)
  qed simp
  moreover have "7 - j mod 8 < LENGTH(8)" by simp
  ultimately show ?thesis
    using assms
    by (auto simp: packed_bit_alt set_packed_bit_def nth_list_update bit_or_iff bit_exp_iff)
qed

lemma length_mark [simp]: "length (mark in' bm) = length bm"
  by (cases in') (simp add: mark_def set_packed_bit_def)

lemma length_marks [simp]: "length (fold mark ins bm) = length bm"
  by (induction ins arbitrary: bm) simp_all

lemma set_packed_bit_inside:
  "i div 8 < length bm \<Longrightarrow>
     set_packed_bit (length front) i b (front @ bm @ body) = front @ set_packed_bit 0 i b bm @ body"
  by (simp add: set_packed_bit_def nth_append list_update_append)

lemma write_nodes_layout:
  assumes "(k + length ns - 1) div 8 < length bm \<or> ns = []"
  shows "fold (write_node (length front)) (enumerate k ns) (front @ bm @ body) =
     front @ fold mark (enumerate k ns) bm @ body @ concat (map node_wire ns)"
  using assms
proof (induction ns arbitrary: k bm body)
  case (Cons n ns)
  have k: "k div 8 < length bm"
    using Cons.prems div_le_mono[of k "k + length (n # ns) - 1" 8] by auto
  have step: "write_node (length front) (k, n) (front @ bm @ body) = front @ mark (k, n) bm @ body @ node_wire n"
    using k by (simp add: write_node_def mark_def node_wire_def write_hsd_wire set_packed_bit_inside)
  show ?case
    using Cons.IH[of "Suc k" "mark (k, n) bm" "body @ node_wire n"] Cons.prems
    by (auto simp: step)
qed simp

lemma packed_bit_marked:
  assumes "(k + length ns - 1) div 8 < length bm \<or> ns = []"
  shows "packed_bit (fold mark (enumerate k ns) bm) i =
     (if k \<le> i \<and> i < k + length ns \<and> bit_len (pn_prefix (ns ! (i - k))) \<noteq> 0 then 1 else packed_bit bm i)"
  using assms
proof (induction ns arbitrary: k bm)
  case (Cons n ns)
  have k: "k div 8 < length bm"
    using Cons.prems div_le_mono[of k "k + length (n # ns) - 1" 8] by auto
  have one: "packed_bit (mark (k, n) bm) i = (if k = i \<and> bit_len (pn_prefix n) \<noteq> 0 then 1 else packed_bit bm i)"
    using packed_bit_set[OF k, of i] by (auto simp: mark_def)
  show ?case
    using Cons.IH[of "Suc k" "mark (k, n) bm"] Cons.prems one
    by (cases "k = i") (auto simp: nth_Cons' Suc_le_eq)
qed auto

lemma packed_bit_zero: "i < 8 * n \<Longrightarrow> packed_bit (replicate n 0) i = 0"
  by (simp add: packed_bit_def)

lemma read_node_run:
  assumes "prefix_validate (pn_prefix n) = Inr ()" "length (pn_sibling n) = 32"
    and "packed_bit bm i = 1 \<longleftrightarrow> bit_len (pn_prefix n) \<noteq> 0"
    and "fits pre (node_wire n @ suf)"
  shows "read_node bm i (cursor pre (node_wire n @ suf)) = Inr (n, cursor (pre @ node_wire n) suf)"
proof (cases "bit_len (pn_prefix n) = 0")
  case True
  then have "pn_prefix n = bp_default"
    using prefix_validate_size[OF assms(1)] by (simp add: bp_default_def bit_len_def unat_eq_zero div_ceil_def)
  then show ?thesis
    using assms True pr_slice.reads[of "pn_sibling n" 32 pre suf]
    by (simp add: read_node_def node_wire_def dbind_run pr_read_hash_def)
next
  case False
  have "pr_read_prefix (cursor pre (prefix_wire (pn_prefix n) @ pn_sibling n @ suf)) =
      Inr (pn_prefix n, cursor (pre @ prefix_wire (pn_prefix n)) (pn_sibling n @ suf))"
    by (rule pr_read_prefix_run) (use assms False in \<open>simp_all add: node_wire_def\<close>)
  moreover have "pr_read_slice 32 (cursor (pre @ prefix_wire (pn_prefix n)) (pn_sibling n @ suf)) =
      Inr (pn_sibling n, cursor ((pre @ prefix_wire (pn_prefix n)) @ pn_sibling n) suf)"
    by (rule pr_slice.reads) (use assms False in \<open>simp_all add: node_wire_def\<close>)
  ultimately show ?thesis
    using assms(3) False by (simp add: read_node_def node_wire_def dbind_run pr_read_hash_def)
qed

lemma read_nodes_run:
  assumes "\<forall>n\<in>set ns. prefix_validate (pn_prefix n) = Inr () \<and> length (pn_sibling n) = 32"
    and "\<forall>j<length ns. packed_bit bm (k + j) = 1 \<longleftrightarrow> bit_len (pn_prefix (ns ! j)) \<noteq> 0"
    and "fits pre (concat (map node_wire ns) @ suf)"
  shows "read_nodes bm [k..<k + length ns] (cursor pre (concat (map node_wire ns) @ suf)) =
     Inr (ns, cursor (pre @ concat (map node_wire ns)) suf)"
  using assms
proof (induction ns arbitrary: k pre)
  case (Cons n ns)
  have "[k..<k + length (n # ns)] = k # [Suc k..<Suc k + length ns]"
    using upt_conv_Cons[of k "k + length (n # ns)"] by (simp del: upt_Suc)
  moreover have "read_node bm k (cursor pre (node_wire n @ concat (map node_wire ns) @ suf)) =
      Inr (n, cursor (pre @ node_wire n) (concat (map node_wire ns) @ suf))"
    using Cons.prems by (intro read_node_run) auto
  moreover have "read_nodes bm [Suc k..<Suc k + length ns]
        (cursor (pre @ node_wire n) (concat (map node_wire ns) @ suf)) =
      Inr (ns, cursor ((pre @ node_wire n) @ concat (map node_wire ns)) suf)"
    using Cons.prems by (intro Cons.IH) auto
  ultimately show ?case by (simp add: dbind_run del: upt_Suc)
qed simp

lemma read_terminal_run:
  assumes "terminal_typed tm" "fits pre (write_terminal tm [] @ suf)"
    and "\<And>p l r. tm = Short p l r \<Longrightarrow> prefix_validate p = Inr () \<and> bit_len p \<noteq> 0"
    and "\<And>v. tm = Exists v \<Longrightarrow> length v \<le> 65535"
  shows "read_terminal (terminal_type tm) (cursor pre (write_terminal tm [] @ suf)) =
     Inr (tm, cursor (pre @ write_terminal tm []) suf)"
proof (cases tm)
  case (Short p l r)
  have "pr_read_prefix (cursor pre (prefix_wire p @ l @ r @ suf)) = Inr (p, cursor (pre @ prefix_wire p) (l @ r @ suf))"
    by (rule pr_read_prefix_run) (use assms Short in \<open>simp_all add: write_hsd_wire\<close>)
  moreover have "pr_read_slice 32 (cursor (pre @ prefix_wire p) (l @ r @ suf)) =
      Inr (l, cursor ((pre @ prefix_wire p) @ l) (r @ suf))"
    by (rule pr_slice.reads) (use assms Short in \<open>simp_all add: write_hsd_wire\<close>)
  moreover have "pr_read_slice 32 (cursor (pre @ prefix_wire p @ l) (r @ suf)) =
      Inr (r, cursor ((pre @ prefix_wire p @ l) @ r) suf)"
    by (rule pr_slice.reads) (use assms Short in \<open>simp_all add: write_hsd_wire\<close>)
  ultimately show ?thesis
    using Short assms(3) by (simp add: read_terminal_def dbind_run pr_read_hash_def write_hsd_wire)
next
  case (Collision k vh)
  have "pr_read_slice 32 (cursor pre (k @ vh @ suf)) = Inr (k, cursor (pre @ k) (vh @ suf))"
    by (rule pr_slice.reads) (use assms Collision in simp_all)
  moreover have "pr_read_slice 32 (cursor (pre @ k) (vh @ suf)) = Inr (vh, cursor ((pre @ k) @ vh) suf)"
    by (rule pr_slice.reads) (use assms Collision in simp_all)
  ultimately show ?thesis
    using Collision by (simp add: read_terminal_def dbind_run pr_read_hash_def)
next
  case (Exists v)
  let ?n = "word_of_nat (length v) :: u16"
  have n: "unat ?n = length v" using assms(4)[OF Exists] by (simp add: unat_of_nat)
  have "pr_read_u16 (cursor pre (u16_to_le ?n @ v @ suf)) = Inr (?n, cursor (pre @ u16_to_le ?n) (v @ suf))"
    by (rule pr_u16.reads) (use assms Exists in simp_all)
  moreover have "pr_read_slice (unat ?n) (cursor (pre @ u16_to_le ?n) (v @ suf)) =
      Inr (v, cursor ((pre @ u16_to_le ?n) @ v) suf)"
    by (rule pr_slice.reads) (use assms Exists n in simp_all)
  ultimately show ?thesis
    using Exists by (simp add: read_terminal_def dbind_run pr_read_vec_def)
qed (simp add: read_terminal_def)

lemma write_terminal_append: "write_terminal tm raw = raw @ write_terminal tm []"
  by (cases tm) (simp_all add: write_hsd_wire)

definition proof_field :: "hsd_urkel_proof \<Rightarrow> u16" where
  "proof_field p = push_bit 14 (terminal_type (up_terminal p)) OR up_depth p"

lemma small_depth_bits:
  assumes "unat d \<le> 256"
  shows "d AND 0x3fff = (d::u16)" "drop_bit 14 d = 0"
proof -
  have d: "unat d < 2 ^ 14" using assms by simp
  have "unat (d AND mask 14) = unat d" unfolding unat_and_mask_mod using d by simp
  then have "d AND mask 14 = d" by (simp only: word_unat_eq_iff)
  then show "d AND 0x3fff = d" by (simp add: mask_eq_exp_minus_1)
  have "unat (drop_bit 14 d) = 0" using d by (simp only: unat_drop_bit_div div_less)
  then show "drop_bit 14 d = 0" by (simp add: unat_eq_zero)
qed

lemma proof_field_split:
  assumes "unat (up_depth p) \<le> 256"
  shows "drop_bit 14 (proof_field p) = terminal_type (up_terminal p)" "proof_field p AND 0x3fff = up_depth p"
  by (cases "up_terminal p"; simp add: proof_field_def bit.conj_disj_distrib2 small_depth_bits[OF assms])+

definition proof_bitmap :: "hsd_urkel_proof \<Rightarrow> bytes" where
  "proof_bitmap p = fold mark (enumerate 0 (up_nodes p)) (replicate (div_ceil (length (up_nodes p)) 8) 0)"

definition proof_wire :: "hsd_urkel_proof \<Rightarrow> bytes" where
  "proof_wire p = u16_to_le (proof_field p) @ u16_to_le (word_of_nat (length (up_nodes p))) @
     proof_bitmap p @ concat (map node_wire (up_nodes p)) @ write_terminal (up_terminal p) []"

lemma div_ceil_room: "(n - 1) div 8 < div_ceil n 8 \<or> n = 0"
  by (cases n) (auto simp: div_ceil_def)

lemma urkel_encode_wire:
  "urkel_encode p = bind_res (urkel_validate p) (\<lambda>_.
     if length (proof_wire p) > max_hsd_proof_size then Inl (UTooLarge (length (proof_wire p)))
     else Inr (proof_wire p))"
proof -
  let ?hd = "u16_to_le (proof_field p) @ u16_to_le (word_of_nat (length (up_nodes p)))"
  have "fold (write_node (length ?hd)) (enumerate 0 (up_nodes p))
      (?hd @ replicate (div_ceil (length (up_nodes p)) 8) 0 @ []) =
      ?hd @ proof_bitmap p @ [] @ concat (map node_wire (up_nodes p))"
    unfolding proof_bitmap_def
    by (rule write_nodes_layout) (use div_ceil_room[of "length (up_nodes p)"] in auto)
  then show ?thesis
    by (simp add: urkel_encode_def Let_def proof_field_def[symmetric] proof_wire_def
        write_terminal_append[of _ "_ @ _"] cong: bind_res_cong)
qed

lemma urkel_decode_wire:
  assumes "urkel_validate p = Inr ()" "proof_typed p" "length (proof_wire p) \<le> max_hsd_proof_size"
  shows "urkel_decode_inner (proof_wire p) = Inr (p, length (proof_wire p))"
proof -
  let ?ns = "up_nodes p" and ?tm = "up_terminal p"
  let ?c = "word_of_nat (length ?ns) :: u16"
  let ?nw = "concat (map node_wire ?ns)" and ?tw = "write_terminal ?tm []"
  have d: "unat (up_depth p) \<le> 256" and ns: "length ?ns \<le> 256"
    using assms(1) by (auto simp: urkel_validate_def urkel_bits_def split: if_splits)
  have c: "unat ?c = length ?ns" using ns by (simp add: unat_of_nat)
  have "length (proof_wire p) \<le> usize_max"
    using assms(3) by (simp add: max_hsd_proof_size_def usize_max_def)
  then have fits: "fits [] (proof_wire p)" by (simp add: fits_def)
  have bm: "length (proof_bitmap p) = div_ceil (length ?ns) 8" by (simp add: proof_bitmap_def)
  have bits: "\<forall>j<length ?ns. packed_bit (proof_bitmap p) (0 + j) = 1 \<longleftrightarrow> bit_len (pn_prefix (?ns ! j)) \<noteq> 0"
  proof (intro allI impI)
    fix j assume j: "j < length ?ns"
    then have "j < 8 * div_ceil (length ?ns) 8" by (simp add: div_ceil_def)
    with j show "packed_bit (proof_bitmap p) (0 + j) = 1 \<longleftrightarrow> bit_len (pn_prefix (?ns ! j)) \<noteq> 0"
      unfolding proof_bitmap_def
      by (subst packed_bit_marked) (use div_ceil_room[of "length ?ns"] in \<open>auto simp: packed_bit_zero\<close>)
  qed
  have tm: "terminal_typed ?tm" "\<And>q l r. ?tm = Short q l r \<Longrightarrow> prefix_validate q = Inr () \<and> bit_len q \<noteq> 0"
      "\<And>v. ?tm = Exists v \<Longrightarrow> length v \<le> 65535"
    using assms(1,2) by (auto simp: urkel_validate_def bind_res_eq_Inr proof_typed_def split: if_splits)
  have r1: "pr_read_u16 (cursor [] (proof_wire p)) =
      Inr (proof_field p, cursor ([] @ u16_to_le (proof_field p)) (u16_to_le ?c @ proof_bitmap p @ ?nw @ ?tw))"
    unfolding proof_wire_def by (rule pr_u16.reads) (use fits in \<open>simp_all add: proof_wire_def\<close>)
  have r2: "pr_read_u16 (cursor (u16_to_le (proof_field p)) (u16_to_le ?c @ proof_bitmap p @ ?nw @ ?tw)) =
      Inr (?c, cursor (u16_to_le (proof_field p) @ u16_to_le ?c) (proof_bitmap p @ ?nw @ ?tw))"
    by (rule pr_u16.reads) (use fits in \<open>simp_all add: proof_wire_def fits_def\<close>)
  let ?p2 = "u16_to_le (proof_field p) @ u16_to_le ?c"
  have r3: "pr_read_slice (div_ceil (length ?ns) 8) (cursor ?p2 (proof_bitmap p @ ?nw @ ?tw)) =
      Inr (proof_bitmap p, cursor (?p2 @ proof_bitmap p) (?nw @ ?tw))"
    by (rule pr_slice.reads) (use fits bm in \<open>simp_all add: proof_wire_def fits_def\<close>)
  have r4: "read_nodes (proof_bitmap p) [0..<0 + length ?ns] (cursor (?p2 @ proof_bitmap p) (?nw @ ?tw)) =
      Inr (?ns, cursor ((?p2 @ proof_bitmap p) @ ?nw) ?tw)"
    by (rule read_nodes_run)
      (use fits bits urkel_validate_ok(2)[OF assms(1)] assms(2) in
        \<open>simp_all add: proof_wire_def fits_def proof_typed_def list_all_iff\<close>)
  have r5: "read_terminal (terminal_type ?tm) (cursor ((?p2 @ proof_bitmap p) @ ?nw) (?tw @ [])) =
      Inr (?tm, cursor (((?p2 @ proof_bitmap p) @ ?nw) @ ?tw) [])"
    by (rule read_terminal_run) (use fits tm in \<open>auto simp add: proof_wire_def fits_def\<close>)
  have size: "\<not> max_hsd_proof_size < length (proof_wire p)" using assms(3) by simp
  have nd: "\<not> urkel_bits < unat (up_depth p)" "\<not> urkel_bits < length ?ns"
    using d ns by (simp_all add: urkel_bits_def)
  have rec: "\<lparr>up_depth = up_depth p, up_nodes = ?ns, up_terminal = ?tm\<rparr> = p" by simp
  have pos: "length (((?p2 @ proof_bitmap p) @ ?nw) @ ?tw) = length (proof_wire p)" by (simp add: proof_wire_def)
  show ?thesis
    unfolding urkel_decode_inner_def decoder_new_cursor if_not_P[OF size] dbind_run[of pr_read_u16, OF r1]
    using r2 r3 r4 r5 pos
    by (simp add: dbind_run proof_field_split[OF d] c nd Let_def pr_read_vec_def rec assms(1) del: length_append)
qed

lemma urkel_strict_iff:
  assumes "proof_typed p"
  shows "urkel_decode_strict raw = Inr p \<longleftrightarrow> urkel_encode p = Inr raw"
proof
  assume "urkel_encode p = Inr raw"
  then have "raw = proof_wire p" "urkel_validate p = Inr ()" "length (proof_wire p) \<le> max_hsd_proof_size"
    by (auto simp: urkel_encode_wire bind_res_eq_Inr split: if_splits)
  with urkel_decode_wire[OF _ assms] show "urkel_decode_strict raw = Inr p"
    by (simp add: urkel_decode_strict_def urkel_encode_wire)
qed (auto simp: urkel_decode_strict_def bind_res_eq_Inr split: if_splits)

section \<open>Every key of a tree has a proof\<close>

text \<open>The prover of the specification: descend, recording the siblings, and stop at the terminal.\<close>

fun tree_path :: "(bytes \<Rightarrow> bytes) \<Rightarrow> utree \<Rightarrow> bytes \<Rightarrow> nat \<Rightarrow> proof_node list \<times> proof_terminal \<times> nat" where
  "tree_path H UNull key depth = ([], DeadEnd, depth)"
| "tree_path H (ULeaf k v) key depth = ([], if k = key then Exists v else Collision k (H v), depth)"
| "tree_path H (UInternal p l r) key depth =
     (if matches_key p key depth then
        let right = key_bit key (depth + bit_len p) = 1;
            (ns, tm, d) = tree_path H (if right then r else l) key (depth + bit_len p + 1)
        in (\<lparr>pn_prefix = p, pn_sibling = tree_hash H (if right then l else r)\<rparr> # ns, tm, d)
      else ([], Short p (tree_hash H l) (tree_hash H r), depth))"

definition tree_prove :: "(bytes \<Rightarrow> bytes) \<Rightarrow> utree \<Rightarrow> bytes \<Rightarrow> hsd_urkel_proof" where
  "tree_prove H t key =
     (case tree_path H t key 0 of (ns, tm, d) \<Rightarrow> \<lparr>up_depth = word_of_nat d, up_nodes = ns, up_terminal = tm\<rparr>)"

lemma matches_empty_prefix:
  "bit_len p = 0 \<Longrightarrow> depth \<le> urkel_bits \<Longrightarrow> matches_key p key depth"
  by (simp add: matches_key_def checked_add_usize_def urkel_bits_def usize_max_def)

lemma tree_path_valid:
  assumes "tree_path H t key depth = (ns, tm, d)" "tree_wf t depth" "depth \<le> urkel_bits"
  shows "depth + length ns \<le> d \<and> d \<le> urkel_bits \<and> (\<forall>n\<in>set ns. prefix_validate (pn_prefix n) = Inr ()) \<and>
     (\<forall>p l r. tm = Short p l r \<longrightarrow> prefix_validate p = Inr () \<and> bit_len p \<noteq> 0) \<and>
     (\<forall>v. tm = Exists v \<longrightarrow> length v \<le> 65535)"
  using assms
proof (induction H t key depth arbitrary: ns tm d rule: tree_path.induct)
  case (3 H p l r key depth)
  show ?case
  proof (cases "matches_key p key depth")
    case False
    with 3 show ?thesis using matches_empty_prefix[of p depth key] by auto
  next
    case True
    let ?c = "if key_bit key (depth + bit_len p) = 1 then r else l"
    obtain ms where path: "tree_path H ?c key (depth + bit_len p + 1) = (ms, tm, d)"
      and ns: "ns = \<lparr>pn_prefix = p, pn_sibling = tree_hash H (if key_bit key (depth + bit_len p) = 1 then l else r)\<rparr> # ms"
      using 3(2) True by (auto simp: Let_def split: prod.splits)
    have wf': "tree_wf ?c (depth + bit_len p + 1)" "depth + bit_len p + 1 \<le> urkel_bits"
      "prefix_validate p = Inr ()" using 3(3) by (auto split: if_splits)
    from 3(1)[OF True refl path wf'(1,2)] show ?thesis using wf'(3) by (auto simp: ns)
  qed
qed (auto split: if_splits)

lemma tree_path_verifies:
  assumes "tree_path H t key depth = (ns, tm, d)" "tree_wf t depth" "depth \<le> urkel_bits"
  shows "verify_terminal H key d tm = Inr (terminal_hash H key tm, tree_lookup t key depth) \<and>
     verify_path H key (rev ns) (d, terminal_hash H key tm) = Inr (depth, tree_hash H t)"
  using assms
proof (induction H t key depth arbitrary: ns tm d rule: tree_path.induct)
  case (3 H p l r key depth)
  show ?case
  proof (cases "matches_key p key depth")
    case False
    with 3(2) show ?thesis by (auto simp: verify_terminal_def)
  next
    case True
    let ?right = "key_bit key (depth + bit_len p) = 1"
    let ?c = "if ?right then r else l"
    let ?n = "\<lparr>pn_prefix = p, pn_sibling = tree_hash H (if ?right then l else r)\<rparr>"
    obtain ms where path: "tree_path H ?c key (depth + bit_len p + 1) = (ms, tm, d)" and ns: "ns = ?n # ms"
      using 3(2) True by (auto simp: Let_def split: prod.splits)
    have wf': "tree_wf ?c (depth + bit_len p + 1)" "depth + bit_len p + 1 \<le> urkel_bits"
      using 3(3) by (auto split: if_splits)
    note ih = 3(1)[OF True refl path wf']
    have "verify_path H key [?n] (depth + bit_len p + 1, tree_hash H ?c) =
        Inr (depth, tree_hash H (UInternal p l r))"
      using True by (simp add: Let_def)
    then show ?thesis using ih True by (simp add: ns verify_path_append del: verify_path.simps)
  qed
qed (auto simp: verify_terminal_def)

section \<open>Properties\<close>

text \<open>
  C1: Soundness of proof verification. When a proof in either decoding mode verifies against the
  root of a well-formed tree, its answer is the tree's: the value stored under the requested name
  hash, or none, and the declared kind says which. The hash is any function to 32 bytes without
  collisions among the strings hashed for the tree and for the proof.\<close>

theorem urkel_verify_sound:
  assumes "urkel_verify_hsd H w (tree_hash H t) = Inr r \<or> urkel_verify_strict H w (tree_hash H t) = Inr r"
    and "length (uw_name_hash w) = 32" and "tree_wf t 0"
    and "\<And>x. length (H x) = 32"
    and "\<And>p. urkel_decode_hsd (uw_raw w) = Inr p \<Longrightarrow>
           collision_free H (tree_inputs H t @ proof_inputs H p (uw_name_hash w))"
  shows "r = tree_lookup t (uw_name_hash w) 0 \<and> (uw_kind w = Inclusion \<longleftrightarrow> r \<noteq> None)"
proof -
  obtain p n where dec: "urkel_decode_inner (uw_raw w) = Inr (p, n)" and kind: "urkel_kind p = uw_kind w"
    and ver: "urkel_verify H p (tree_hash H t) (uw_name_hash w) = Inr r"
    using assms(1)
    by (auto simp: urkel_verify_hsd_def urkel_verify_strict_def urkel_decode_hsd_def urkel_decode_strict_def
        bind_res_eq_Inr split: if_splits)
  have "urkel_decode_hsd (uw_raw w) = Inr p" using dec by (simp add: urkel_decode_hsd_def)
  then have "r = tree_lookup t (uw_name_hash w) 0"
    by (intro verify_sound[OF ver urkel_decode_typed[OF dec]] assms)
  moreover have "uw_kind w = Inclusion \<longleftrightarrow> r \<noteq> None"
    using ver kind[symmetric]
    by (cases "up_terminal p") (auto simp: urkel_verify_def urkel_kind_def bind_res_eq_Inr verify_terminal_def
        split: if_splits)
  ultimately show ?thesis ..
qed

text \<open>
  C28: Completeness of proof verification. Every key has a proof for every well-formed tree: the
  proof read off the tree verifies against its root and answers what the tree holds.\<close>

theorem urkel_verify_complete:
  assumes "tree_wf t 0"
  shows "urkel_verify H (tree_prove H t key) (tree_hash H t) key = Inr (tree_lookup t key 0)"
proof -
  obtain ns tm d where path: "tree_path H t key 0 = (ns, tm, d)" by (cases "tree_path H t key 0")
  note v = tree_path_valid[OF path assms] and run = tree_path_verifies[OF path assms]
  have d: "d \<le> 256" using v by (simp add: urkel_bits_def)
  then have "unat (word_of_nat d :: u16) = d" by (simp add: unat_of_nat)
  moreover have "urkel_validate \<lparr>up_depth = word_of_nat d, up_nodes = ns, up_terminal = tm\<rparr> = Inr ()"
    using v calculation by (cases tm) (auto simp: urkel_validate_def validate_nodes_ok bind_res_eq_Inr)
  ultimately show ?thesis using run by (simp add: tree_prove_def path urkel_verify_def)
qed

text \<open>
  Strict proof decoding is exact. It accepts precisely the encodings of typed proofs, so a
  proof has one strict wire form: no trailing bytes, minimal prefix lengths, clean bitmaps.\<close>

theorem urkel_strict_exact:
  "urkel_decode_strict raw = Inr p \<longleftrightarrow> proof_typed p \<and> urkel_encode p = Inr raw"
proof -
  have "proof_typed p" if "urkel_decode_strict raw = Inr p"
    using that urkel_decode_typed by (auto simp: urkel_decode_strict_def bind_res_eq_Inr split: if_splits)
  then show ?thesis using urkel_strict_iff by blast
qed

section \<open>A concrete tree and proof\<close>

definition sample_tree :: utree where
  "sample_tree = UInternal bp_default (ULeaf (replicate 32 0) [7]) (ULeaf (0x80 # replicate 31 0) [8, 9])"

definition sample_proof :: urkel_proof where
  "sample_proof = \<lparr>uw_name_hash = replicate 32 0, uw_kind = Inclusion,
     uw_raw = [1, 0xc0, 1, 0, 0] @
       tree_hash sample_hash (ULeaf (0x80 # replicate 31 0) [8, 9]) @ [1, 0, 7]\<rparr>"

theorem urkel_verify_sound_witness:
  "urkel_verify_hsd sample_hash sample_proof (tree_hash sample_hash sample_tree) = Inr (Some [7]) \<and>
   Some [7] = tree_lookup sample_tree (uw_name_hash sample_proof) 0 \<and> uw_kind sample_proof = Inclusion"
proof -
  let ?p = "\<lparr>up_depth = 1, up_nodes = [\<lparr>pn_prefix = bp_default,
    pn_sibling = tree_hash sample_hash (ULeaf (0x80 # replicate 31 0) [8, 9])\<rparr>], up_terminal = Exists [7]\<rparr>"
  have dec: "urkel_decode_hsd (uw_raw sample_proof) = Inr ?p" by code_simp
  have "urkel_validate ?p = Inr ()" by code_simp
  moreover have "verify_path sample_hash (replicate 32 0) (rev (up_nodes ?p))
      (1, tree_hash sample_hash (ULeaf (replicate 32 0) [7])) = Inr (0, tree_hash sample_hash sample_tree)"
    by (simp add: sample_tree_def bp_default_def bit_len_def key_bit_def Let_def matches_key_def
        checked_add_usize_def usize_max_def urkel_bits_def)
  ultimately have ver: "urkel_verify_hsd sample_hash sample_proof (tree_hash sample_hash sample_tree) = Inr (Some [7])"
    unfolding urkel_verify_hsd_def dec
    by (simp add: urkel_kind_def sample_proof_def urkel_verify_def verify_terminal_def)
  have free: "collision_free sample_hash (tree_inputs sample_hash sample_tree @
      proof_inputs sample_hash ?p (uw_name_hash sample_proof))" by code_simp
  have "Some [7] = tree_lookup sample_tree (uw_name_hash sample_proof) 0 \<and>
      (uw_kind sample_proof = Inclusion \<longleftrightarrow> Some [7] \<noteq> (None :: bytes option))"
  proof (rule urkel_verify_sound)
    show "urkel_verify_hsd sample_hash sample_proof (tree_hash sample_hash sample_tree) = Inr (Some [7]) \<or>
        urkel_verify_strict sample_hash sample_proof (tree_hash sample_hash sample_tree) = Inr (Some [7])"
      using ver ..
    show "tree_wf sample_tree 0" by code_simp
    show "collision_free sample_hash (tree_inputs sample_hash sample_tree @
        proof_inputs sample_hash p (uw_name_hash sample_proof))"
      if "urkel_decode_hsd (uw_raw sample_proof) = Inr p" for p
      using that dec free by simp
  qed (simp_all add: sample_hash_def sample_proof_def)
  with ver show ?thesis by simp
qed

theorem urkel_verify_complete_witness:
  "tree_wf sample_tree 0 \<and>
   urkel_verify sample_hash (tree_prove sample_hash sample_tree (1 # replicate 31 0))
     (tree_hash sample_hash sample_tree) (1 # replicate 31 0) = Inr None"
proof -
  have wf: "tree_wf sample_tree 0" by code_simp
  have "tree_lookup sample_tree (1 # replicate 31 0) 0 = None" by code_simp
  then show ?thesis using urkel_verify_complete[OF wf, of sample_hash "1 # replicate 31 0"] wf by simp
qed

end
