(* ===== verification/Journal.thy ===== *)
theory Journal
  imports Encoding
begin

text \<open>
  Model of \<^verbatim>\<open>crates/hns-rollback-journal/src/lib.rs\<close>: the external anti-rollback journal. Its record
  and every operation on it, the canonical record format, the reconciliation of ambiguous writes
  and the recovery decision. BLAKE2b-256 is the parameter \<open>H\<close>. The journal together with the
  protocol database it protects is a transition system, in which the database may be rolled back
  at any time; recovery is proved to bring it forward again.
\<close>

section \<open>Data\<close>

datatype journal_error =
    JDecode decode_error
  | JInvalid string
  | WrongState string
  | JournalRevisionExhausted
  | DatabaseMismatch

datatype rollback_protection_class =
    IntegrityOnlySameRollbackDomain
  | IndependentLocalRoot
  | HardwareMonotonic
  | RemoteWitness

fun has_independent_rollback_domain :: "rollback_protection_class \<Rightarrow> bool" where
  "has_independent_rollback_domain IntegrityOnlySameRollbackDomain = False"
| "has_independent_rollback_domain _ = True"

fun protection_byte :: "rollback_protection_class \<Rightarrow> byte" where
  "protection_byte IntegrityOnlySameRollbackDomain = 0"
| "protection_byte IndependentLocalRoot = 1"
| "protection_byte HardwareMonotonic = 2"
| "protection_byte RemoteWitness = 3"

definition protection_decode :: "byte \<Rightarrow> journal_error + rollback_protection_class" where
  "protection_decode v =
     (if v = 0 then Inr IntegrityOnlySameRollbackDomain
      else if v = 1 then Inr IndependentLocalRoot
      else if v = 2 then Inr HardwareMonotonic
      else if v = 3 then Inr RemoteWitness
      else Inl (JInvalid ''unknown rollback protection class''))"

text \<open>\<^verbatim>\<open>JournalBinding\<close> and \<^verbatim>\<open>JournalBindingParts\<close> have the same fields; the binding's integers are nonzero.\<close>

record journal_binding =
  jb_installation_lineage :: bytes
  jb_network_magic :: u32
  jb_role_id :: bytes
  jb_storage_namespace_id :: bytes
  jb_logical_key :: bytes
  jb_protocol_id :: bytes
  jb_protocol_version :: u16
  jb_aead_suite :: u16
  jb_key_version :: u32
  jb_key_id :: bytes
  jb_protection :: rollback_protection_class

record journal_lease_context =
  lease_binding_fingerprint :: bytes
  lease_fencing_token :: u64

record state_identity =
  si_revision :: u64
  si_protocol_fingerprint :: bytes
  si_byte_fingerprint :: bytes

record sealed_snapshot =
  ss_plaintext_len :: u32
  ss_ciphertext :: bytes

record snapshot_image =
  img_identity :: state_identity
  img_sealed :: sealed_snapshot

datatype database_observation = Absent | Present state_identity

datatype journal_state =
    NeverInitialized
  | Stable snapshot_image
  | Prepared bytes snapshot_image snapshot_image
  | Retired state_identity bytes

record journal_record =
  jr_binding :: journal_binding
  jr_journal_revision :: u64
  jr_state :: journal_state

datatype expected_journal_record = ExpectAbsent | ExpectExact u64 bytes

record journal_write_expectation =
  we_binding_fingerprint :: bytes
  we_fencing_token :: u64
  we_prior :: expected_journal_record

record journal_mutation =
  jm_expectation :: journal_write_expectation
  jm_proposed :: journal_record

datatype mutation_reconciliation = Committed | RetryExact | FailClosedConflict

datatype fail_closed_reason =
    MissingJournalRecord
  | BindingMismatch
  | NotEnrolled
  | FcRetired
  | SameRevisionFork
  | DatabaseAhead
  | UnexpectedIntermediateState

datatype recovery_plan =
    Ready snapshot_image
  | RestoreStableThenReread database_observation snapshot_image
  | RetryPreparedDatabaseCas bytes state_identity snapshot_image
  | RestorePreparedOldThenReread bytes database_observation snapshot_image
  | FinalizePrepared bytes
  | FailClosed fail_closed_reason

section \<open>Constants and hashes\<close>

definition ascii_bytes :: "string \<Rightarrow> bytes" where
  "ascii_bytes s = map (\<lambda>c. word_of_nat (of_char c)) s"

definition journal_magic :: bytes where "journal_magic = ascii_bytes ''HNSRBJ1'' @ [0]"
definition format_version :: u16 where "format_version = 1"
definition checksum_domain :: bytes where
  "checksum_domain = ascii_bytes ''HNS-ROLLBACK-JOURNAL-CHECKSUM-V1'' @ [0]"
definition record_fingerprint_domain :: bytes where
  "record_fingerprint_domain = ascii_bytes ''HNS-ROLLBACK-JOURNAL-RECORD-V1'' @ [0]"
definition binding_fingerprint_domain :: bytes where
  "binding_fingerprint_domain = ascii_bytes ''HNS-ROLLBACK-JOURNAL-BINDING-V1'' @ [0]"
definition snapshot_bytes_domain :: bytes where
  "snapshot_bytes_domain = ascii_bytes ''HNS-ROLLBACK-JOURNAL-SNAPSHOT-BYTES-V1'' @ [0]"
definition snapshot_image_domain :: bytes where
  "snapshot_image_domain = ascii_bytes ''HNS-ROLLBACK-JOURNAL-SNAPSHOT-IMAGE-V1'' @ [0]"
definition snapshot_aad_domain :: bytes where
  "snapshot_aad_domain = ascii_bytes ''HNS-ROLLBACK-JOURNAL-SNAPSHOT-AAD-V1'' @ [0]"
definition transition_id_domain :: bytes where
  "transition_id_domain = ascii_bytes ''HNS-ROLLBACK-JOURNAL-TRANSITION-V1'' @ [0]"
definition retirement_id_domain :: bytes where
  "retirement_id_domain = ascii_bytes ''HNS-ROLLBACK-JOURNAL-RETIREMENT-V1'' @ [0]"

definition max_plaintext_snapshot_size :: nat where "max_plaintext_snapshot_size = 16 * 1024 * 1024"
definition aead_suite_aes_256_gcm :: u16 where "aead_suite_aes_256_gcm = 1"
definition nonce_size :: nat where "nonce_size = 12"
definition tag_size :: nat where "tag_size = 16"
definition max_sealed_snapshot_size :: nat where
  "max_sealed_snapshot_size = max_plaintext_snapshot_size + nonce_size + tag_size"
definition max_journal_record_size :: nat where
  "max_journal_record_size = 2048 + 2 * max_sealed_snapshot_size"

lemmas journal_sizes = max_plaintext_snapshot_size_def nonce_size_def tag_size_def
  max_sealed_snapshot_size_def max_journal_record_size_def

definition hash_domain :: "(bytes \<Rightarrow> bytes) \<Rightarrow> bytes \<Rightarrow> bytes list \<Rightarrow> bytes" where
  "hash_domain H domain parts = H (domain @ concat parts)"

definition journal_checksum :: "(bytes \<Rightarrow> bytes) \<Rightarrow> bytes \<Rightarrow> bytes" where
  "journal_checksum H bs = hash_domain H checksum_domain [bs]"

definition is_zero_bytes :: "bytes \<Rightarrow> bool" where
  "is_zero_bytes v = list_all (\<lambda>b. b = 0) v"

definition snapshot_byte_fingerprint :: "(bytes \<Rightarrow> bytes) \<Rightarrow> bytes \<Rightarrow> bytes" where
  "snapshot_byte_fingerprint H plaintext = hash_domain H snapshot_bytes_domain [plaintext]"

section \<open>Bindings\<close>

definition binding_new :: "journal_binding \<Rightarrow> journal_error + journal_binding" where
  "binding_new parts =
     (case find (\<lambda>(v, _). is_zero_bytes v)
        [(jb_installation_lineage parts, ''zero installation lineage''),
         (jb_role_id parts, ''zero role identifier''),
         (jb_storage_namespace_id parts, ''zero storage namespace''),
         (jb_protocol_id parts, ''zero protocol identifier''),
         (jb_key_id parts, ''zero key identifier'')] of
        Some (_, field) \<Rightarrow> Inl (JInvalid field)
      | None \<Rightarrow>
          if jb_protocol_version parts = 0 then Inl (JInvalid ''zero protocol version'')
          else if jb_aead_suite parts = 0 then Inl (JInvalid ''zero AEAD suite'')
          else if jb_aead_suite parts \<noteq> aead_suite_aes_256_gcm then Inl (JInvalid ''unsupported AEAD suite'')
          else if jb_key_version parts = 0 then Inl (JInvalid ''zero key version'')
          else Inr parts)"

definition put_binding :: "journal_binding \<Rightarrow> encoder \<Rightarrow> encoder" where
  "put_binding b = put_seq
     [put_bytes (jb_installation_lineage b), put_u32_le (jb_network_magic b), put_bytes (jb_role_id b),
      put_bytes (jb_storage_namespace_id b), put_bytes (jb_logical_key b), put_bytes (jb_protocol_id b),
      put_u16_le (jb_protocol_version b), put_u16_le (jb_aead_suite b), put_u32_le (jb_key_version b),
      put_bytes (jb_key_id b), put_u8 (protection_byte (jb_protection b))]"

definition binding_fingerprint :: "(bytes \<Rightarrow> bytes) \<Rightarrow> journal_binding \<Rightarrow> bytes" where
  "binding_fingerprint H b = hash_domain H binding_fingerprint_domain [encode_with [put_binding b]]"

definition binding_decode :: "(journal_error, journal_binding) reader" where
  "binding_decode =
     dbind (dlift JDecode (read_array 32)) (\<lambda>lineage.
     dbind (dlift JDecode read_u32_le) (\<lambda>magic.
     dbind (dlift JDecode (read_array 32)) (\<lambda>role.
     dbind (dlift JDecode (read_array 32)) (\<lambda>namespace.
     dbind (dlift JDecode (read_array 32)) (\<lambda>key.
     dbind (dlift JDecode (read_array 32)) (\<lambda>protocol.
     dbind (dlift JDecode read_u16_le) (\<lambda>version.
     dbind (dlift JDecode read_u16_le) (\<lambda>suite.
     dbind (dlift JDecode read_u32_le) (\<lambda>key_version.
     dbind (dlift JDecode (read_array 32)) (\<lambda>key_id.
     dbind (dlift JDecode read_u8) (\<lambda>class.
     dbind (dcheck (protection_decode class)) (\<lambda>protection.
       dcheck (binding_new
         \<lparr>jb_installation_lineage = lineage, jb_network_magic = magic, jb_role_id = role,
          jb_storage_namespace_id = namespace, jb_logical_key = key, jb_protocol_id = protocol,
          jb_protocol_version = version, jb_aead_suite = suite, jb_key_version = key_version,
          jb_key_id = key_id, jb_protection = protection\<rparr>)))))))))))))"

definition lease_new :: "(bytes \<Rightarrow> bytes) \<Rightarrow> journal_binding \<Rightarrow> u64 \<Rightarrow> journal_lease_context" where
  "lease_new H binding token =
     \<lparr>lease_binding_fingerprint = binding_fingerprint H binding, lease_fencing_token = token\<rparr>"

section \<open>Identities and snapshots\<close>

definition identity_from_plaintext ::
  "(bytes \<Rightarrow> bytes) \<Rightarrow> u64 \<Rightarrow> bytes \<Rightarrow> bytes \<Rightarrow> journal_error + state_identity" where
  "identity_from_plaintext H revision protocol plaintext =
     (if length plaintext > max_plaintext_snapshot_size
      then Inl (JInvalid ''plaintext snapshot is too large'')
      else Inr \<lparr>si_revision = revision, si_protocol_fingerprint = protocol,
                si_byte_fingerprint = snapshot_byte_fingerprint H plaintext\<rparr>)"

definition identity_verifies_plaintext :: "(bytes \<Rightarrow> bytes) \<Rightarrow> state_identity \<Rightarrow> bytes \<Rightarrow> bool" where
  "identity_verifies_plaintext H i plaintext \<longleftrightarrow>
     length plaintext \<le> max_plaintext_snapshot_size \<and>
     si_byte_fingerprint i = snapshot_byte_fingerprint H plaintext"

definition put_identity :: "state_identity \<Rightarrow> encoder \<Rightarrow> encoder" where
  "put_identity i = put_seq
     [put_u64_le (si_revision i), put_bytes (si_protocol_fingerprint i), put_bytes (si_byte_fingerprint i)]"

definition identity_decode :: "(journal_error, state_identity) reader" where
  "identity_decode =
     dbind (dlift JDecode read_u64_le) (\<lambda>revision.
     dbind (dlift JDecode (read_array 32)) (\<lambda>protocol.
     dbind (dlift JDecode (read_array 32)) (\<lambda>bs.
       dreturn \<lparr>si_revision = revision, si_protocol_fingerprint = protocol, si_byte_fingerprint = bs\<rparr>)))"

definition snapshot_associated_data ::
  "(bytes \<Rightarrow> bytes) \<Rightarrow> journal_binding \<Rightarrow> state_identity \<Rightarrow> u32 \<Rightarrow> bytes" where
  "snapshot_associated_data H b i plaintext_len =
     encode_with [put_bytes snapshot_aad_domain, put_bytes (binding_fingerprint H b), put_identity i,
       put_u32_le plaintext_len]"

definition sealed_new :: "nat \<Rightarrow> bytes \<Rightarrow> journal_error + sealed_snapshot" where
  "sealed_new plaintext_len ciphertext =
     (if plaintext_len > max_plaintext_snapshot_size
      then Inl (JInvalid ''plaintext snapshot is too large'')
      else
        bind_res (ok_or (checked_add_usize plaintext_len (nonce_size + tag_size))
          (JInvalid ''sealed snapshot length overflow'')) (\<lambda>expected.
        if length ciphertext \<noteq> expected \<or> length ciphertext > max_sealed_snapshot_size
        then Inl (JInvalid ''invalid sealed snapshot size'')
        else
          if plaintext_len < 2 ^ 32
          then Inr \<lparr>ss_plaintext_len = word_of_nat plaintext_len, ss_ciphertext = ciphertext\<rparr>
          else Inl (JInvalid ''plaintext length is not representable'')))"

definition sealed_nonce :: "sealed_snapshot \<Rightarrow> bytes" where
  "sealed_nonce s = take nonce_size (ss_ciphertext s)"

definition sealed_encrypted_payload :: "sealed_snapshot \<Rightarrow> bytes" where
  "sealed_encrypted_payload s = slice_of nonce_size (length (ss_ciphertext s) - tag_size) (ss_ciphertext s)"

definition sealed_tag :: "sealed_snapshot \<Rightarrow> bytes" where
  "sealed_tag s = drop (length (ss_ciphertext s) - tag_size) (ss_ciphertext s)"

definition put_sealed :: "sealed_snapshot \<Rightarrow> encoder \<Rightarrow> encoder" where
  "put_sealed s = put_seq [put_u32_le (ss_plaintext_len s), put_varbytes (ss_ciphertext s)]"

definition sealed_decode :: "(journal_error, sealed_snapshot) reader" where
  "sealed_decode =
     dbind (dlift JDecode read_u32_le) (\<lambda>plaintext_len.
     dbind (dlift JDecode (read_varbytes max_sealed_snapshot_size)) (\<lambda>ciphertext.
       dcheck (sealed_new (unat plaintext_len) ciphertext)))"

definition image_new ::
  "(bytes \<Rightarrow> bytes) \<Rightarrow> u64 \<Rightarrow> bytes \<Rightarrow> bytes \<Rightarrow> bytes \<Rightarrow> journal_error + snapshot_image" where
  "image_new H revision protocol plaintext ciphertext =
     bind_res (identity_from_plaintext H revision protocol plaintext) (\<lambda>i.
     bind_res (sealed_new (length plaintext) ciphertext) (\<lambda>s.
       Inr \<lparr>img_identity = i, img_sealed = s\<rparr>))"

definition image_verifies_plaintext :: "(bytes \<Rightarrow> bytes) \<Rightarrow> snapshot_image \<Rightarrow> bytes \<Rightarrow> bool" where
  "image_verifies_plaintext H img plaintext \<longleftrightarrow>
     length plaintext = unat (ss_plaintext_len (img_sealed img)) \<and>
     identity_verifies_plaintext H (img_identity img) plaintext"

definition put_image :: "snapshot_image \<Rightarrow> encoder \<Rightarrow> encoder" where
  "put_image img = put_seq [put_identity (img_identity img), put_sealed (img_sealed img)]"

definition image_fingerprint :: "(bytes \<Rightarrow> bytes) \<Rightarrow> snapshot_image \<Rightarrow> bytes" where
  "image_fingerprint H img = hash_domain H snapshot_image_domain [encode_with [put_image img]]"

definition image_decode :: "(journal_error, snapshot_image) reader" where
  "image_decode =
     dbind identity_decode (\<lambda>i. dbind sealed_decode (\<lambda>s.
       dreturn \<lparr>img_identity = i, img_sealed = s\<rparr>))"

definition observation_from_plaintext ::
  "(bytes \<Rightarrow> bytes) \<Rightarrow> u64 \<Rightarrow> bytes \<Rightarrow> bytes \<Rightarrow> journal_error + database_observation" where
  "observation_from_plaintext H revision protocol plaintext =
     bind_res (identity_from_plaintext H revision protocol plaintext) (\<lambda>i. Inr (Present i))"

fun observation_identity :: "database_observation \<Rightarrow> state_identity option" where
  "observation_identity Absent = None"
| "observation_identity (Present i) = Some i"

section \<open>Records\<close>

definition transition_id :: "(bytes \<Rightarrow> bytes) \<Rightarrow> journal_binding \<Rightarrow> snapshot_image \<Rightarrow> snapshot_image \<Rightarrow> bytes" where
  "transition_id H b old new = hash_domain H transition_id_domain
     [binding_fingerprint H b, image_fingerprint H old, image_fingerprint H new]"

definition retirement_id :: "(bytes \<Rightarrow> bytes) \<Rightarrow> journal_binding \<Rightarrow> state_identity \<Rightarrow> bytes \<Rightarrow> bytes" where
  "retirement_id H b last_identity prior_record = hash_domain H retirement_id_domain
     [binding_fingerprint H b, encode_with [put_identity last_identity], prior_record]"

definition journal_validate :: "(bytes \<Rightarrow> bytes) \<Rightarrow> journal_record \<Rightarrow> journal_error + unit" where
  "journal_validate H r =
     (let rev = unat (jr_journal_revision r) in
      case jr_state r of
        NeverInitialized \<Rightarrow>
          if rev \<noteq> 0 then Inl (JInvalid ''NeverInitialized must have journal revision zero'') else Inr ()
      | Stable _ \<Rightarrow>
          if rev = 0 \<or> rev mod 2 = 0 then Inl (JInvalid ''Stable journal revision must be odd'') else Inr ()
      | Prepared encoded old new \<Rightarrow>
          if rev < 2 \<or> rev mod 2 \<noteq> 0
          then Inl (JInvalid ''Prepared journal revision must be even and finalizable'')
          else if si_revision (img_identity new) \<le> si_revision (img_identity old)
          then Inl (JInvalid ''Prepared protocol revision does not advance'')
          else if encoded \<noteq> transition_id H (jr_binding r) old new
          then Inl (JInvalid ''prepared transition ID mismatch'') else Inr ()
      | Retired _ _ \<Rightarrow>
          if rev < 2 \<or> rev mod 2 \<noteq> 0 then Inl (JInvalid ''Retired journal revision must be even'') else Inr ())"

fun put_state :: "journal_state \<Rightarrow> encoder \<Rightarrow> encoder" where
  "put_state NeverInitialized = put_u8 0"
| "put_state (Stable current) = put_seq [put_u8 1, put_image current]"
| "put_state (Prepared tid old new) = put_seq [put_u8 2, put_bytes tid, put_image old, put_image new]"
| "put_state (Retired last_identity rid) = put_seq [put_u8 3, put_identity last_identity, put_bytes rid]"

definition journal_body :: "journal_record \<Rightarrow> bytes" where
  "journal_body r = encode_with
     [put_bytes journal_magic, put_u16_le format_version, put_binding (jr_binding r),
      put_u64_le (jr_journal_revision r), put_state (jr_state r)]"

definition journal_encode :: "(bytes \<Rightarrow> bytes) \<Rightarrow> journal_record \<Rightarrow> bytes" where
  "journal_encode H r = journal_body r @ journal_checksum H (journal_body r)"

definition state_decode :: "(journal_error, journal_state) reader" where
  "state_decode =
     dbind (dlift JDecode read_u8) (\<lambda>tag.
     if tag = 0 then dreturn NeverInitialized
     else if tag = 1 then dbind image_decode (\<lambda>current. dreturn (Stable current))
     else if tag = 2 then
       dbind (dlift JDecode (read_array 32)) (\<lambda>tid.
       dbind image_decode (\<lambda>old. dbind image_decode (\<lambda>new. dreturn (Prepared tid old new))))
     else if tag = 3 then
       dbind identity_decode (\<lambda>i. dbind (dlift JDecode (read_array 32)) (\<lambda>rid. dreturn (Retired i rid)))
     else derror (JInvalid ''unknown journal state''))"

definition record_decode :: "(journal_error, journal_record) reader" where
  "record_decode =
     dbind (dlift JDecode (read_array 8)) (\<lambda>magic.
     if magic \<noteq> journal_magic then derror (JInvalid ''invalid journal magic'')
     else dbind (dlift JDecode read_u16_le) (\<lambda>version.
     if version \<noteq> format_version then derror (JInvalid ''unsupported journal format version'')
     else dbind binding_decode (\<lambda>binding.
       dbind (dlift JDecode read_u64_le) (\<lambda>revision.
       dbind state_decode (\<lambda>state.
         dreturn \<lparr>jr_binding = binding, jr_journal_revision = revision, jr_state = state\<rparr>)))))"

definition journal_decode :: "(bytes \<Rightarrow> bytes) \<Rightarrow> bytes \<Rightarrow> journal_error + journal_record" where
  "journal_decode H input =
     (if length input < 8 + 2 + 32 \<or> length input > max_journal_record_size
      then Inl (JInvalid ''invalid journal record size'')
      else
        let body_len = length input - 32; body = take body_len input; checksum = drop body_len input in
        if journal_checksum H body \<noteq> checksum then Inl (JInvalid ''journal checksum mismatch'')
        else
          bind_res (record_decode (decoder_new body)) (\<lambda>(record, d).
          bind_res (map_err JDecode (decoder_finish d)) (\<lambda>_.
          bind_res (journal_validate H record) (\<lambda>_.
          if journal_encode H record \<noteq> input then Inl (JInvalid ''noncanonical journal record'')
          else Inr record))))"

definition record_fingerprint :: "(bytes \<Rightarrow> bytes) \<Rightarrow> journal_record \<Rightarrow> bytes" where
  "record_fingerprint H r = hash_domain H record_fingerprint_domain [journal_encode H r]"

section \<open>Operations\<close>

definition ensure_lease_binding ::
  "(bytes \<Rightarrow> bytes) \<Rightarrow> journal_record \<Rightarrow> journal_lease_context \<Rightarrow> journal_error + unit" where
  "ensure_lease_binding H r lease =
     (if lease_binding_fingerprint lease \<noteq> binding_fingerprint H (jr_binding r)
      then Inl (JInvalid ''journal lease binding does not match the record'') else Inr ())"

definition next_mutation ::
  "(bytes \<Rightarrow> bytes) \<Rightarrow> journal_record \<Rightarrow> journal_lease_context \<Rightarrow> journal_state \<Rightarrow> journal_error + journal_mutation" where
  "next_mutation H r lease state =
     bind_res (ok_or (checked_add (jr_journal_revision r) 1) JournalRevisionExhausted) (\<lambda>revision.
     let proposed = \<lparr>jr_binding = jr_binding r, jr_journal_revision = revision, jr_state = state\<rparr> in
     bind_res (journal_validate H proposed) (\<lambda>_.
       Inr \<lparr>jm_expectation =
              \<lparr>we_binding_fingerprint = binding_fingerprint H (jr_binding r),
               we_fencing_token = lease_fencing_token lease,
               we_prior = ExpectExact (jr_journal_revision r) (record_fingerprint H r)\<rparr>,
            jm_proposed = proposed\<rparr>))"

definition privileged_provision ::
  "(bytes \<Rightarrow> bytes) \<Rightarrow> journal_binding \<Rightarrow> journal_lease_context \<Rightarrow> journal_error + journal_mutation" where
  "privileged_provision H b lease =
     (if lease_binding_fingerprint lease \<noteq> binding_fingerprint H b
      then Inl (JInvalid ''journal lease binding does not match the provisioned namespace'')
      else Inr \<lparr>jm_expectation =
             \<lparr>we_binding_fingerprint = binding_fingerprint H b,
              we_fencing_token = lease_fencing_token lease, we_prior = ExpectAbsent\<rparr>,
           jm_proposed = \<lparr>jr_binding = b, jr_journal_revision = 0, jr_state = NeverInitialized\<rparr>\<rparr>)"

definition privileged_enroll ::
  "(bytes \<Rightarrow> bytes) \<Rightarrow> journal_record \<Rightarrow> journal_lease_context \<Rightarrow> database_observation \<Rightarrow> snapshot_image \<Rightarrow>
   journal_error + journal_mutation" where
  "privileged_enroll H r lease db current =
     bind_res (ensure_lease_binding H r lease) (\<lambda>_.
     if jr_state r \<noteq> NeverInitialized then Inl (WrongState ''not NeverInitialized'')
     else if db \<noteq> Present (img_identity current) then Inl DatabaseMismatch
     else next_mutation H r lease (Stable current))"

definition prepare_transition ::
  "(bytes \<Rightarrow> bytes) \<Rightarrow> journal_record \<Rightarrow> journal_lease_context \<Rightarrow> database_observation \<Rightarrow> snapshot_image \<Rightarrow>
   journal_error + journal_mutation" where
  "prepare_transition H r lease db new =
     bind_res (ensure_lease_binding H r lease) (\<lambda>_.
     case jr_state r of
       Stable old \<Rightarrow>
         if db \<noteq> Present (img_identity old) then Inl DatabaseMismatch
         else if si_revision (img_identity new) \<le> si_revision (img_identity old)
         then Inl (JInvalid ''prepared revision must advance the protocol state'')
         else
           bind_res (ok_or (checked_add (jr_journal_revision r) 2) JournalRevisionExhausted) (\<lambda>_.
           next_mutation H r lease (Prepared (transition_id H (jr_binding r) old new) old new))
     | _ \<Rightarrow> Inl (WrongState ''not Stable''))"

definition finalize_prepared ::
  "(bytes \<Rightarrow> bytes) \<Rightarrow> journal_record \<Rightarrow> journal_lease_context \<Rightarrow> database_observation \<Rightarrow>
   journal_error + journal_mutation" where
  "finalize_prepared H r lease db =
     bind_res (ensure_lease_binding H r lease) (\<lambda>_.
     case jr_state r of
       Prepared _ _ new \<Rightarrow>
         if db \<noteq> Present (img_identity new) then Inl DatabaseMismatch
         else next_mutation H r lease (Stable new)
     | _ \<Rightarrow> Inl (WrongState ''not Prepared''))"

definition privileged_retire ::
  "(bytes \<Rightarrow> bytes) \<Rightarrow> journal_record \<Rightarrow> journal_lease_context \<Rightarrow> database_observation \<Rightarrow>
   journal_error + journal_mutation" where
  "privileged_retire H r lease db =
     bind_res (ensure_lease_binding H r lease) (\<lambda>_.
     case jr_state r of
       Stable current \<Rightarrow>
         if db \<noteq> Present (img_identity current) then Inl DatabaseMismatch
         else next_mutation H r lease (Retired (img_identity current)
                (retirement_id H (jr_binding r) (img_identity current) (record_fingerprint H r)))
     | _ \<Rightarrow> Inl (WrongState ''not Stable''))"

fun recovery_stable :: "database_observation \<Rightarrow> snapshot_image \<Rightarrow> recovery_plan" where
  "recovery_stable Absent current = RestoreStableThenReread Absent current"
| "recovery_stable (Present i) current =
     (if i = img_identity current then Ready current
      else if si_revision i < si_revision (img_identity current)
      then RestoreStableThenReread (Present i) current
      else if si_revision i = si_revision (img_identity current) then FailClosed SameRevisionFork
      else FailClosed DatabaseAhead)"

fun recovery_prepared ::
  "database_observation \<Rightarrow> bytes \<Rightarrow> snapshot_image \<Rightarrow> snapshot_image \<Rightarrow> recovery_plan" where
  "recovery_prepared Absent tid old new = RestorePreparedOldThenReread tid Absent old"
| "recovery_prepared (Present i) tid old new =
     (if i = img_identity old then RetryPreparedDatabaseCas tid (img_identity old) new
      else if i = img_identity new then FinalizePrepared tid
      else if si_revision i < si_revision (img_identity old)
      then RestorePreparedOldThenReread tid (Present i) old
      else if si_revision i = si_revision (img_identity old) \<or> si_revision i = si_revision (img_identity new)
      then FailClosed SameRevisionFork
      else if si_revision (img_identity new) < si_revision i then FailClosed DatabaseAhead
      else FailClosed UnexpectedIntermediateState)"

definition journal_recovery_plan ::
  "journal_record \<Rightarrow> journal_binding \<Rightarrow> database_observation \<Rightarrow> recovery_plan" where
  "journal_recovery_plan r expected db =
     (if jr_binding r \<noteq> expected then FailClosed BindingMismatch
      else case jr_state r of
        NeverInitialized \<Rightarrow> FailClosed NotEnrolled
      | Retired _ _ \<Rightarrow> FailClosed FcRetired
      | Stable current \<Rightarrow> recovery_stable db current
      | Prepared tid old new \<Rightarrow> recovery_prepared db tid old new)"

definition plan_recovery ::
  "journal_binding \<Rightarrow> journal_record option \<Rightarrow> database_observation \<Rightarrow> recovery_plan" where
  "plan_recovery expected r db =
     (case r of Some r \<Rightarrow> journal_recovery_plan r expected db | None \<Rightarrow> FailClosed MissingJournalRecord)"

definition expectation_matches ::
  "(bytes \<Rightarrow> bytes) \<Rightarrow> journal_write_expectation \<Rightarrow> journal_record option \<Rightarrow> bool" where
  "expectation_matches H e loaded =
     (case (we_prior e, loaded) of
        (ExpectAbsent, None) \<Rightarrow> True
      | (ExpectExact revision fp, Some r) \<Rightarrow>
          binding_fingerprint H (jr_binding r) = we_binding_fingerprint e \<and>
          jr_journal_revision r = revision \<and> record_fingerprint H r = fp
      | _ \<Rightarrow> False)"

definition reconcile ::
  "(bytes \<Rightarrow> bytes) \<Rightarrow> journal_mutation \<Rightarrow> journal_record option \<Rightarrow> mutation_reconciliation" where
  "reconcile H m loaded =
     (if (case loaded of None \<Rightarrow> False | Some r \<Rightarrow>
            jr_binding r = jr_binding (jm_proposed m) \<and>
            record_fingerprint H r = record_fingerprint H (jm_proposed m)) then Committed
      else if expectation_matches H (jm_expectation m) loaded then RetryExact
      else FailClosedConflict)"

section \<open>The record format\<close>

definition identity_ok :: "state_identity \<Rightarrow> bool" where
  "identity_ok i \<longleftrightarrow> length (si_protocol_fingerprint i) = 32 \<and> length (si_byte_fingerprint i) = 32"

definition sealed_ok :: "sealed_snapshot \<Rightarrow> bool" where
  "sealed_ok s \<longleftrightarrow> unat (ss_plaintext_len s) \<le> max_plaintext_snapshot_size \<and>
     length (ss_ciphertext s) = unat (ss_plaintext_len s) + nonce_size + tag_size"

definition image_ok :: "snapshot_image \<Rightarrow> bool" where
  "image_ok img \<longleftrightarrow> identity_ok (img_identity img) \<and> sealed_ok (img_sealed img)"

fun state_ok :: "journal_state \<Rightarrow> bool" where
  "state_ok NeverInitialized = True"
| "state_ok (Stable current) = image_ok current"
| "state_ok (Prepared tid old new) = (length tid = 32 \<and> image_ok old \<and> image_ok new)"
| "state_ok (Retired i rid) = (identity_ok i \<and> length rid = 32)"

definition binding_ok :: "journal_binding \<Rightarrow> bool" where
  "binding_ok b \<longleftrightarrow> binding_new b = Inr b \<and>
     list_all (\<lambda>v. length v = 32) [jb_installation_lineage b, jb_role_id b, jb_storage_namespace_id b,
       jb_logical_key b, jb_protocol_id b, jb_key_id b]"

definition record_ok :: "journal_record \<Rightarrow> bool" where
  "record_ok r \<longleftrightarrow> binding_ok (jr_binding r) \<and> state_ok (jr_state r)"

definition identity_bytes :: "state_identity \<Rightarrow> bytes" where
  "identity_bytes i = u64_to_le (si_revision i) @ si_protocol_fingerprint i @ si_byte_fingerprint i"

definition sealed_bytes :: "sealed_snapshot \<Rightarrow> bytes" where
  "sealed_bytes s = u32_to_le (ss_plaintext_len s) @ var_bytes (ss_ciphertext s)"

definition image_bytes :: "snapshot_image \<Rightarrow> bytes" where
  "image_bytes img = identity_bytes (img_identity img) @ sealed_bytes (img_sealed img)"

definition binding_bytes :: "journal_binding \<Rightarrow> bytes" where
  "binding_bytes b = jb_installation_lineage b @ u32_to_le (jb_network_magic b) @ jb_role_id b @
     jb_storage_namespace_id b @ jb_logical_key b @ jb_protocol_id b @ u16_to_le (jb_protocol_version b) @
     u16_to_le (jb_aead_suite b) @ u32_to_le (jb_key_version b) @ jb_key_id b @
     [protection_byte (jb_protection b)]"

fun state_bytes :: "journal_state \<Rightarrow> bytes" where
  "state_bytes NeverInitialized = [0]"
| "state_bytes (Stable current) = 1 # image_bytes current"
| "state_bytes (Prepared tid old new) = 2 # tid @ image_bytes old @ image_bytes new"
| "state_bytes (Retired i rid) = 3 # identity_bytes i @ rid"

lemma into_bytes_put_identity [simp]: "into_bytes (put_identity i e) = into_bytes e @ identity_bytes i"
  by (simp add: put_identity_def identity_bytes_def)

lemma into_bytes_put_image [simp]: "into_bytes (put_image img e) = into_bytes e @ image_bytes img"
  by (simp add: put_image_def put_sealed_def image_bytes_def sealed_bytes_def)

lemma into_bytes_put_binding [simp]: "into_bytes (put_binding b e) = into_bytes e @ binding_bytes b"
  by (simp add: put_binding_def binding_bytes_def)

lemma into_bytes_put_state [simp]: "into_bytes (put_state s e) = into_bytes e @ state_bytes s"
  by (cases s) simp_all

lemma journal_body_eq:
  "journal_body r = journal_magic @ u16_to_le format_version @ binding_bytes (jr_binding r) @
     u64_to_le (jr_journal_revision r) @ state_bytes (jr_state r)"
  by (simp add: journal_body_def encode_with_def)

lemma protection_decode_byte [simp]: "protection_decode (protection_byte c) = Inr c"
  by (cases c) (simp_all add: protection_decode_def)

lemma protection_decode_back: "protection_decode v = Inr c \<Longrightarrow> v = protection_byte c"
  by (auto simp: protection_decode_def split: if_splits)

lemma binding_eta:
  "\<lparr>jb_installation_lineage = jb_installation_lineage b, jb_network_magic = jb_network_magic b,
    jb_role_id = jb_role_id b, jb_storage_namespace_id = jb_storage_namespace_id b,
    jb_logical_key = jb_logical_key b, jb_protocol_id = jb_protocol_id b,
    jb_protocol_version = jb_protocol_version b, jb_aead_suite = jb_aead_suite b,
    jb_key_version = jb_key_version b, jb_key_id = jb_key_id b, jb_protection = jb_protection b\<rparr> = b"
  by simp

lemma binding_new_same: "binding_new b = Inr b' \<Longrightarrow> b' = b"
  by (auto simp: binding_new_def split: option.splits if_splits)

interpretation idn: codec identity_bytes identity_decode identity_ok
proof
  fix i pre suf
  assume "identity_ok i" and "fits pre (identity_bytes i @ suf)"
  then show "identity_decode (cursor pre (identity_bytes i @ suf)) = Inr (i, cursor (pre @ identity_bytes i) suf)"
    by (simp add: identity_decode_def identity_bytes_def identity_ok_def dbind_run)
next
  fix pre rest i d'
  assume "identity_decode (cursor pre rest) = Inr (i, d')"
  then show "identity_ok i \<and> (\<exists>suf. rest = identity_bytes i @ suf \<and> d' = cursor (pre @ identity_bytes i) suf)"
    by (auto simp: identity_decode_def dbind_eq_Inr identity_bytes_def identity_ok_def
        dest!: u64.reads_back arr.reads_back)
qed

lemma sealed_new_iff:
  "sealed_new n c = Inr s \<longleftrightarrow> sealed_ok s \<and> n = unat (ss_plaintext_len s) \<and> c = ss_ciphertext s"
proof -
  have u: "n \<le> 16777216 \<Longrightarrow> unat (word_of_nat n :: u32) = n" by (simp add: unat_of_nat)
  show ?thesis
    by (cases s)
      (auto simp: sealed_new_def sealed_ok_def checked_add_usize_def usize_max_def journal_sizes u
        word_unat_eq_iff split: if_splits)
qed

interpretation sld: codec sealed_bytes sealed_decode sealed_ok
proof
  fix s pre suf
  assume s: "sealed_ok s" and f: "fits pre (sealed_bytes s @ suf)"
  have n: "length (ss_ciphertext s) \<le> max_sealed_snapshot_size \<and> length (ss_ciphertext s) \<le> usize_max"
    using s by (simp add: sealed_ok_def journal_sizes usize_max_def)
  have "sealed_new (unat (ss_plaintext_len s)) (ss_ciphertext s) = Inr s" using s by (simp add: sealed_new_iff)
  then show "sealed_decode (cursor pre (sealed_bytes s @ suf)) = Inr (s, cursor (pre @ sealed_bytes s) suf)"
    using f n by (simp add: sealed_decode_def sealed_bytes_def dbind_run var.reads)
next
  fix pre rest s d'
  assume "sealed_decode (cursor pre rest) = Inr (s, d')"
  then show "sealed_ok s \<and> (\<exists>suf. rest = sealed_bytes s @ suf \<and> d' = cursor (pre @ sealed_bytes s) suf)"
    by (auto simp: sealed_decode_def dbind_eq_Inr bind_res_eq_Inr sealed_new_iff sealed_bytes_def word_unat_eq_iff
        dest!: u32.reads_back var.reads_back)
qed

interpretation img: codec image_bytes image_decode image_ok
proof
  fix i pre suf
  assume "image_ok i" and "fits pre (image_bytes i @ suf)"
  then show "image_decode (cursor pre (image_bytes i @ suf)) = Inr (i, cursor (pre @ image_bytes i) suf)"
    by (simp add: image_decode_def image_bytes_def image_ok_def dbind_run idn.reads sld.reads)
next
  fix pre rest i d'
  assume "image_decode (cursor pre rest) = Inr (i, d')"
  then show "image_ok i \<and> (\<exists>suf. rest = image_bytes i @ suf \<and> d' = cursor (pre @ image_bytes i) suf)"
    by (auto simp: image_decode_def dbind_eq_Inr image_bytes_def image_ok_def
        dest!: idn.reads_back sld.reads_back)
qed

interpretation bnd: codec binding_bytes binding_decode binding_ok
proof
  fix b pre suf
  assume "binding_ok b" and "fits pre (binding_bytes b @ suf)"
  then show "binding_decode (cursor pre (binding_bytes b @ suf)) = Inr (b, cursor (pre @ binding_bytes b) suf)"
    by (simp add: binding_decode_def binding_bytes_def binding_ok_def dbind_run binding_eta)
next
  fix pre rest b d'
  assume "binding_decode (cursor pre rest) = Inr (b, d')"
  then show "binding_ok b \<and> (\<exists>suf. rest = binding_bytes b @ suf \<and> d' = cursor (pre @ binding_bytes b) suf)"
    by (auto simp: binding_decode_def dbind_eq_Inr bind_res_eq_Inr binding_bytes_def binding_ok_def
        dest!: read_u8_back u16.reads_back u32.reads_back arr.reads_back protection_decode_back
        dest: binding_new_same)
qed

interpretation jst: codec state_bytes state_decode state_ok
proof
  fix s pre suf
  assume "state_ok s" and "fits pre (state_bytes s @ suf)"
  then show "state_decode (cursor pre (state_bytes s @ suf)) = Inr (s, cursor (pre @ state_bytes s) suf)"
    by (cases s) (simp_all add: state_decode_def dbind_run img.reads idn.reads)
next
  fix pre rest s d'
  assume "state_decode (cursor pre rest) = Inr (s, d')"
  then show "state_ok s \<and> (\<exists>suf. rest = state_bytes s @ suf \<and> d' = cursor (pre @ state_bytes s) suf)"
    by (auto simp: state_decode_def dbind_eq_Inr split: if_splits
        dest!: read_u8_back arr.reads_back img.reads_back idn.reads_back)
qed

lemma length_magic [simp]: "length journal_magic = 8"
  by (simp add: journal_magic_def ascii_bytes_def)

interpretation jrec: codec journal_body record_decode record_ok
proof
  fix r pre suf
  assume "record_ok r" and "fits pre (journal_body r @ suf)"
  then show "record_decode (cursor pre (journal_body r @ suf)) = Inr (r, cursor (pre @ journal_body r) suf)"
    by (simp add: record_decode_def journal_body_eq record_ok_def dbind_run bnd.reads jst.reads)
next
  fix pre rest r d'
  assume "record_decode (cursor pre rest) = Inr (r, d')"
  then show "record_ok r \<and> (\<exists>suf. rest = journal_body r @ suf \<and> d' = cursor (pre @ journal_body r) suf)"
    by (auto simp: record_decode_def dbind_eq_Inr journal_body_eq record_ok_def split: if_splits
        dest!: arr.reads_back u16.reads_back u64.reads_back bnd.reads_back jst.reads_back)
qed

lemma length_var_bytes_le: "length (var_bytes bs) \<le> 9 + length bs"
  by (simp add: var_bytes_eq length_compact_bytes)

lemma length_image_bytes_le: "image_ok img \<Longrightarrow> length (image_bytes img) \<le> 85 + max_sealed_snapshot_size"
  using length_var_bytes_le [of "ss_ciphertext (img_sealed img)"]
  by (simp add: image_bytes_def image_ok_def identity_bytes_def identity_ok_def sealed_bytes_def sealed_ok_def
      max_sealed_snapshot_size_def)

lemma length_state_bytes_le: "state_ok s \<Longrightarrow> length (state_bytes s) \<le> 300 + 2 * max_sealed_snapshot_size"
  by (cases s) (auto simp: identity_bytes_def identity_ok_def dest: length_image_bytes_le
      dest!: length_image_bytes_le)

lemma length_binding_bytes: "binding_ok b \<Longrightarrow> length (binding_bytes b) = 205"
  by (simp add: binding_ok_def binding_bytes_def)

lemma length_journal_body:
  assumes "record_ok r"
  shows "10 \<le> length (journal_body r)" "length (journal_body r) \<le> 1000 + 2 * max_sealed_snapshot_size"
  using assms length_state_bytes_le [of "jr_state r"]
  by (simp_all add: journal_body_eq record_ok_def length_binding_bytes)

lemma journal_encode_inj:
  assumes "record_ok r" "record_ok r'" and len: "\<And>x. length (H x) = 32"
    and eq: "journal_encode H r = journal_encode H r'"
  shows "r = r'"
proof -
  have "length (journal_checksum H x) = 32" for x by (simp add: journal_checksum_def hash_domain_def len)
  with eq have "journal_body r = journal_body r'"
    unfolding journal_encode_def by (metis append_eq_append_conv)
  moreover have "fits [] (journal_body r)"
    using length_journal_body(2) [OF assms(1)] by (simp add: fits_def journal_sizes usize_max_def)
  ultimately show ?thesis using jrec.enc_inj [OF assms(1,2)] by simp
qed

text \<open>
  The journal record format. A byte string decodes exactly when it is the encoding of a
  well-formed record that satisfies the state rules; every such record fits the size limit, so
  whatever the journal writes it can read back, and a record has one encoding.
\<close>

theorem journal_codec_exact:
  assumes len: "\<And>x. length (H x) = 32"
  shows "journal_decode H input = Inr r \<longleftrightarrow>
    record_ok r \<and> journal_validate H r = Inr () \<and> input = journal_encode H r"
proof
  assume "journal_decode H input = Inr r"
  then obtain d where rd: "record_decode (cursor [] (take (length input - 32) input)) = Inr (r, d)"
    and "journal_validate H r = Inr ()" "input = journal_encode H r"
    by (auto simp: journal_decode_def decoder_new_cursor bind_res_eq_Inr Let_def split: if_splits)
  with jrec.reads_back [OF rd] show "record_ok r \<and> journal_validate H r = Inr () \<and> input = journal_encode H r"
    by simp
next
  assume r: "record_ok r \<and> journal_validate H r = Inr () \<and> input = journal_encode H r"
  have cs: "length (journal_checksum H x) = 32" for x by (simp add: journal_checksum_def hash_domain_def len)
  then have input: "length input = length (journal_body r) + 32"
    "take (length input - 32) input = journal_body r"
    "drop (length input - 32) input = journal_checksum H (journal_body r)"
    using r by (simp_all add: journal_encode_def)
  note size = length_journal_body [of r]
  have "fits [] (journal_body r @ [])" using size r by (simp add: fits_def journal_sizes usize_max_def)
  from jrec.reads [OF _ this] r
  have rd: "record_decode (decoder_new (journal_body r)) = Inr (r, cursor (journal_body r) [])"
    by (simp add: decoder_new_cursor)
  have "\<not> (length input < 8 + 2 + 32 \<or> length input > max_journal_record_size)"
    using size r input(1) by (simp add: max_journal_record_size_def)
  then show "journal_decode H input = Inr r"
    using r unfolding journal_decode_def Let_def input(2,3) by (simp add: rd)
qed

section \<open>The journal and its database\<close>

text \<open>
  The environment of the operations: one namespace with its stored record, the database as it is
  observed under the lease, and the identities acknowledged so far (a ghost history). Besides the
  journal operations there are the database compare-and-swap that a prepared record announces,
  and tampering, which may leave any database state whatever.
\<close>

record journal_system =
  sys_journal :: "journal_record option"
  sys_database :: database_observation
  sys_acked :: "state_identity list"

inductive journal_step :: "(bytes \<Rightarrow> bytes) \<Rightarrow> journal_binding \<Rightarrow> journal_system \<Rightarrow> journal_system \<Rightarrow> bool"
  for H b where
  provision: "sys_journal s = None \<Longrightarrow> privileged_provision H b lease = Inr m \<Longrightarrow>
    journal_step H b s (s\<lparr>sys_journal := Some (jm_proposed m)\<rparr>)"
| enroll: "sys_journal s = Some r \<Longrightarrow> privileged_enroll H r lease (sys_database s) current = Inr m \<Longrightarrow>
    journal_step H b s (s\<lparr>sys_journal := Some (jm_proposed m), sys_acked := [img_identity current]\<rparr>)"
| prepare: "sys_journal s = Some r \<Longrightarrow> prepare_transition H r lease (sys_database s) new = Inr m \<Longrightarrow>
    journal_step H b s (s\<lparr>sys_journal := Some (jm_proposed m)\<rparr>)"
| database_cas: "sys_journal s = Some r \<Longrightarrow> jr_state r = Prepared tid old new \<Longrightarrow>
    sys_database s = Present (img_identity old) \<Longrightarrow>
    journal_step H b s (s\<lparr>sys_database := Present (img_identity new)\<rparr>)"
| finalize: "sys_journal s = Some r \<Longrightarrow> finalize_prepared H r lease (sys_database s) = Inr m \<Longrightarrow>
    jr_state r = Prepared tid old new \<Longrightarrow>
    journal_step H b s (s\<lparr>sys_journal := Some (jm_proposed m), sys_acked := img_identity new # sys_acked s\<rparr>)"
| retire: "sys_journal s = Some r \<Longrightarrow> privileged_retire H r lease (sys_database s) = Inr m \<Longrightarrow>
    journal_step H b s (s\<lparr>sys_journal := Some (jm_proposed m)\<rparr>)"
| tamper: "journal_step H b s (s\<lparr>sys_database := db\<rparr>)"

inductive_cases journal_stepE: "journal_step H b s t"

definition journal_initial :: "database_observation \<Rightarrow> journal_system" where
  "journal_initial db = \<lparr>sys_journal = None, sys_database = db, sys_acked = []\<rparr>"

inductive journal_reachable :: "(bytes \<Rightarrow> bytes) \<Rightarrow> journal_binding \<Rightarrow> journal_system \<Rightarrow> bool"
  for H b where
  start: "journal_reachable H b (journal_initial db)"
| step: "journal_reachable H b s \<Longrightarrow> journal_step H b s t \<Longrightarrow> journal_reachable H b t"

fun acked_head :: "journal_state \<Rightarrow> state_identity option" where
  "acked_head NeverInitialized = None"
| "acked_head (Stable current) = Some (img_identity current)"
| "acked_head (Prepared _ old _) = Some (img_identity old)"
| "acked_head (Retired i _) = Some i"

definition acked_now :: "journal_system \<Rightarrow> state_identity option" where
  "acked_now s = (case sys_journal s of None \<Rightarrow> None | Some r \<Rightarrow> acked_head (jr_state r))"

definition journal_inv :: "(bytes \<Rightarrow> bytes) \<Rightarrow> journal_binding \<Rightarrow> journal_system \<Rightarrow> bool" where
  "journal_inv H b s \<longleftrightarrow>
     (case sys_journal s of None \<Rightarrow> sys_acked s = []
      | Some r \<Rightarrow> jr_binding r = b \<and> journal_validate H r = Inr () \<and>
          (case acked_head (jr_state r) of None \<Rightarrow> sys_acked s = []
           | Some i \<Rightarrow> \<exists>older. sys_acked s = i # older)) \<and>
     sorted_wrt (\<lambda>i j. si_revision j < si_revision i) (sys_acked s)"

lemma next_mutation_ok:
  assumes "next_mutation H r lease st = Inr m"
  shows "jm_proposed m = \<lparr>jr_binding = jr_binding r, jr_journal_revision = jr_journal_revision r + 1, jr_state = st\<rparr>"
    and "journal_validate H (jm_proposed m) = Inr ()"
    and "unat (jr_journal_revision (jm_proposed m)) = unat (jr_journal_revision r) + 1"
  using assms
  by (auto simp: next_mutation_def Let_def bind_res_eq_Inr checked_add_def unat_word_ariths split: if_splits)

lemmas journal_ops = privileged_enroll_def prepare_transition_def finalize_prepared_def privileged_retire_def
  ensure_lease_binding_def bind_res_eq_Inr

lemma prepared_advances:
  "journal_validate H r = Inr () \<Longrightarrow> jr_state r = Prepared tid old new \<Longrightarrow>
     si_revision (img_identity old) < si_revision (img_identity new)"
  by (auto simp: journal_validate_def Let_def split: if_splits)

lemma journal_step_inv:
  assumes "journal_step H b s t" and "journal_inv H b s"
  shows "journal_inv H b t"
  using assms
proof (induction rule: journal_step.induct)
  case (provision s lease m)
  then show ?case by (auto simp: journal_inv_def privileged_provision_def journal_validate_def split: if_splits)
next
  case (enroll s r lease current m)
  then have "next_mutation H r lease (Stable current) = Inr m"
    by (auto simp: journal_ops split: if_splits)
  from next_mutation_ok [OF this] enroll show ?case by (auto simp: journal_inv_def)
next
  case (prepare s r lease new m)
  then obtain old tid where "jr_state r = Stable old" and "next_mutation H r lease (Prepared tid old new) = Inr m"
    by (auto simp: journal_ops split: if_splits journal_state.splits)
  with next_mutation_ok [OF this(2)] prepare show ?case by (auto simp: journal_inv_def)
next
  case (finalize s r lease m tid old new)
  then have "next_mutation H r lease (Stable new) = Inr m"
    by (auto simp: journal_ops split: if_splits)
  moreover have "si_revision (img_identity old) < si_revision (img_identity new)"
    using finalize by (auto simp: journal_inv_def intro: prepared_advances)
  ultimately show ?case
    using next_mutation_ok(1,2) [of H r lease "Stable new" m] finalize
    by (auto simp: journal_inv_def) (metis order.strict_trans)
next
  case (retire s r lease m)
  then obtain current rid where "jr_state r = Stable current"
    and "next_mutation H r lease (Retired (img_identity current) rid) = Inr m"
    by (auto simp: journal_ops split: if_splits journal_state.splits)
  with next_mutation_ok [OF this(2)] retire show ?case by (auto simp: journal_inv_def)
qed (auto simp: journal_inv_def split: option.splits)

lemma journal_reachable_inv: "journal_reachable H b s \<Longrightarrow> journal_inv H b s"
proof (induction rule: journal_reachable.induct)
  case (start db)
  show ?case by (simp add: journal_initial_def journal_inv_def)
qed (rule journal_step_inv)


text \<open>
  The discipline of journal revisions. In every reachable state the record belongs to its
  namespace, its revision is odd exactly when a snapshot is stable, zero exactly for the
  explicit marker, and a prepared record carries the identity of its transition and advances the
  protocol revision.
\<close>

theorem journal_revision_discipline:
  assumes "journal_reachable H b s" and "sys_journal s = Some r"
  shows "jr_binding r = b \<and>
    (odd (unat (jr_journal_revision r)) \<longleftrightarrow> (\<exists>img. jr_state r = Stable img)) \<and>
    (jr_journal_revision r = 0 \<longleftrightarrow> jr_state r = NeverInitialized) \<and>
    (\<forall>tid old new. jr_state r = Prepared tid old new \<longrightarrow> tid = transition_id H b old new \<and>
       si_revision (img_identity old) < si_revision (img_identity new))"
proof -
  have "jr_binding r = b" "journal_validate H r = Inr ()"
    using journal_reachable_inv [OF assms(1)] assms(2) by (auto simp: journal_inv_def)
  then show ?thesis
    by (cases "jr_state r")
      (auto simp: journal_validate_def Let_def unat_eq_zero odd_iff_mod_2_eq_one split: if_splits)
qed

lemma retired_step:
  "journal_step H b s t \<Longrightarrow> sys_journal s = Some r \<Longrightarrow> jr_state r = Retired i rid \<Longrightarrow> sys_journal t = Some r"
  by (induction rule: journal_step.induct) (auto simp: journal_ops split: if_splits)

text \<open>
  Retirement is final. From a retired record no sequence of operations changes the record,
  and recovery fails closed for every database.
\<close>

theorem journal_retired_is_final:
  assumes "(journal_step H b)\<^sup>*\<^sup>* s t" and "sys_journal s = Some r" and "jr_state r = Retired i rid"
  shows "sys_journal t = Some r \<and> (\<exists>reason. plan_recovery b' (sys_journal t) db = FailClosed reason)"
proof -
  from assms have "sys_journal t = Some r"
    by (induction rule: rtranclp_induct) (auto dest: retired_step)
  then show ?thesis using assms(3) by (auto simp: plan_recovery_def journal_recovery_plan_def)
qed

lemma next_mutation_succeeds:
  assumes "unat (jr_journal_revision r) + 1 < 2 ^ 64"
    and "journal_validate H \<lparr>jr_binding = jr_binding r, jr_journal_revision = jr_journal_revision r + 1, jr_state = st\<rparr> = Inr ()"
  shows "\<exists>m. next_mutation H r lease st = Inr m \<and>
    jm_proposed m = \<lparr>jr_binding = jr_binding r, jr_journal_revision = jr_journal_revision r + 1, jr_state = st\<rparr>"
  using assms by (simp add: next_mutation_def checked_add_def Let_def)

lemma even_below_word: "(n::nat) mod 2 = 0 \<Longrightarrow> n < 2 ^ 64 \<Longrightarrow> n + 1 < 2 ^ 64"
  by simp presburger

lemma finalize_succeeds:
  assumes valid: "journal_validate H r = Inr ()" and st: "jr_state r = Prepared tid old new"
    and lease: "lease_binding_fingerprint lease = binding_fingerprint H (jr_binding r)"
  shows "\<exists>m. finalize_prepared H r lease (Present (img_identity new)) = Inr m \<and>
    jm_proposed m = \<lparr>jr_binding = jr_binding r, jr_journal_revision = jr_journal_revision r + 1, jr_state = Stable new\<rparr>"
proof -
  have ev: "unat (jr_journal_revision r) mod 2 = 0"
    using valid st by (auto simp: journal_validate_def Let_def split: if_splits)
  have "unat (jr_journal_revision r) < 2 ^ 64" using unat_less_pow [of "jr_journal_revision r"] by simp
  then have lt: "unat (jr_journal_revision r) + 1 < 2 ^ 64" by (rule even_below_word [OF ev])
  then have rev: "unat (jr_journal_revision r + 1) = unat (jr_journal_revision r) + 1"
    by (simp add: unat_word_ariths)
  have "journal_validate H \<lparr>jr_binding = jr_binding r, jr_journal_revision = jr_journal_revision r + 1, jr_state = Stable new\<rparr> = Inr ()"
    using ev by (simp add: journal_validate_def rev mod_Suc)
  from next_mutation_succeeds [OF lt this] show ?thesis
    using st lease by (simp add: finalize_prepared_def ensure_lease_binding_def)
qed

text \<open>
  What is prepared can be completed. Once a transition was prepared, finalizing it on the
  announced new database state succeeds under any lease of the namespace, and leaves the new
  snapshot stable: the revision space cannot run out in between.
\<close>

theorem prepared_can_finalize:
  assumes "prepare_transition H r lease db new = Inr m"
    and "lease_binding_fingerprint lease' = binding_fingerprint H (jr_binding r)"
  shows "\<exists>m'. finalize_prepared H (jm_proposed m) lease' (Present (img_identity new)) = Inr m' \<and>
    jr_state (jm_proposed m') = Stable new \<and> jr_binding (jm_proposed m') = jr_binding r \<and>
    unat (jr_journal_revision (jm_proposed m')) = unat (jr_journal_revision r) + 2"
proof -
  obtain old tid where nm: "next_mutation H r lease (Prepared tid old new) = Inr m"
    using assms(1) by (auto simp: journal_ops split: if_splits journal_state.splits)
  note m = next_mutation_ok [OF nm]
  have "lease_binding_fingerprint lease' = binding_fingerprint H (jr_binding (jm_proposed m))"
    "jr_state (jm_proposed m) = Prepared tid old new" using assms(2) m(1) by simp_all
  from finalize_succeeds [OF m(2) this(2,1)] obtain m' where
    fin: "finalize_prepared H (jm_proposed m) lease' (Present (img_identity new)) = Inr m'"
    and "jr_state (jm_proposed m') = Stable new" "jr_binding (jm_proposed m') = jr_binding r"
    using m(1) by auto
  moreover from fin have "next_mutation H (jm_proposed m) lease' (Stable new) = Inr m'"
    using m(1) by (auto simp: journal_ops split: if_splits)
  from next_mutation_ok(3) [OF this] have
    "unat (jr_journal_revision (jm_proposed m')) = unat (jr_journal_revision r) + 2" using m(3) by simp
  ultimately show ?thesis by blast
qed

section \<open>Recovery\<close>

text \<open>
  What the plans ask the runtime to do: restore or retry by writing the database, or finalize in
  the journal, and then plan again. \<open>None\<close> is the end: ready, or failed closed.
\<close>

definition recovery_action ::
  "(bytes \<Rightarrow> bytes) \<Rightarrow> journal_lease_context \<Rightarrow> journal_record \<Rightarrow> database_observation \<Rightarrow>
   (journal_record \<times> database_observation) option" where
  "recovery_action H lease r db =
     (case journal_recovery_plan r (jr_binding r) db of
        Ready _ \<Rightarrow> None
      | RestoreStableThenReread _ current \<Rightarrow> Some (r, Present (img_identity current))
      | RetryPreparedDatabaseCas _ _ new \<Rightarrow> Some (r, Present (img_identity new))
      | RestorePreparedOldThenReread _ _ old \<Rightarrow> Some (r, Present (img_identity old))
      | FinalizePrepared _ \<Rightarrow>
          (case finalize_prepared H r lease db of Inr m \<Rightarrow> Some (jm_proposed m, db) | Inl _ \<Rightarrow> None)
      | FailClosed _ \<Rightarrow> None)"

primrec run_recovery ::
  "nat \<Rightarrow> (bytes \<Rightarrow> bytes) \<Rightarrow> journal_lease_context \<Rightarrow> journal_record \<Rightarrow> database_observation \<Rightarrow>
   journal_record \<times> database_observation" where
  "run_recovery 0 H lease r db = (r, db)"
| "run_recovery (Suc n) H lease r db =
     (case recovery_action H lease r db of None \<Rightarrow> (r, db) | Some (r', db') \<Rightarrow> run_recovery n H lease r' db')"

text \<open>The snapshot a record wants in the database, and the databases recovery accepts.\<close>

fun recovery_goal :: "journal_state \<Rightarrow> snapshot_image option" where
  "recovery_goal (Stable current) = Some current"
| "recovery_goal (Prepared _ _ new) = Some new"
| "recovery_goal _ = None"

fun recoverable :: "journal_state \<Rightarrow> database_observation \<Rightarrow> bool" where
  "recoverable st Absent = True"
| "recoverable st (Present i) =
     (case acked_head st of None \<Rightarrow> False
      | Some a \<Rightarrow> si_revision i < si_revision a \<or> i = a \<or>
          map_option img_identity (recovery_goal st) = Some i)"

lemma recover_stable:
  assumes "jr_state r = Stable img" and "recoverable (Stable img) db"
  shows "run_recovery (Suc n) H lease r db = (r, Present (img_identity img))"
proof -
  have ready: "recovery_action H lease r (Present (img_identity img)) = None"
    using assms(1) by (simp add: recovery_action_def journal_recovery_plan_def)
  have stay: "run_recovery k H lease r (Present (img_identity img)) = (r, Present (img_identity img))" for k
    by (cases k) (simp_all add: ready)
  show ?thesis
  proof (cases "db = Present (img_identity img)")
    case False
    then have "recovery_action H lease r db = Some (r, Present (img_identity img))"
      using assms by (cases db) (auto simp: recovery_action_def journal_recovery_plan_def)
    then show ?thesis by (simp add: stay)
  qed (use stay [of "Suc n"] in simp)
qed

lemma recover_prepared:
  assumes valid: "journal_validate H r = Inr ()" and st: "jr_state r = Prepared tid old new"
    and lease: "lease_binding_fingerprint lease = binding_fingerprint H (jr_binding r)"
    and db: "recoverable (jr_state r) db"
  shows "\<exists>r'. run_recovery 4 H lease r db = (r', Present (img_identity new)) \<and>
    jr_state r' = Stable new \<and> jr_binding r' = jr_binding r"
proof -
  have lt: "si_revision (img_identity old) < si_revision (img_identity new)"
    by (rule prepared_advances [OF valid st])
  obtain m where fin: "finalize_prepared H r lease (Present (img_identity new)) = Inr m"
    and m: "jr_state (jm_proposed m) = Stable new" "jr_binding (jm_proposed m) = jr_binding r"
    using finalize_succeeds [OF valid st lease] by auto
  have a_old: "recovery_action H lease r (Present (img_identity old)) = Some (r, Present (img_identity new))"
    using st by (simp add: recovery_action_def journal_recovery_plan_def)
  have a_new: "recovery_action H lease r (Present (img_identity new)) = Some (jm_proposed m, Present (img_identity new))"
    using st lt fin by (auto simp: recovery_action_def journal_recovery_plan_def)
  have fin_run: "run_recovery (Suc (Suc k)) H lease r (Present (img_identity new)) =
      (jm_proposed m, Present (img_identity new))" for k
    using a_new recover_stable [OF m(1), of "Present (img_identity new)" k H lease] by simp
  have a_back: "recovery_action H lease r db = Some (r, Present (img_identity old))"
    if "db \<noteq> Present (img_identity new)" "db \<noteq> Present (img_identity old)"
    using that db st by (cases db) (auto simp: recovery_action_def journal_recovery_plan_def)
  have "run_recovery 4 H lease r db = (jm_proposed m, Present (img_identity new))"
  proof -
    consider "db = Present (img_identity new)" | "db = Present (img_identity old)"
      | "recovery_action H lease r db = Some (r, Present (img_identity old))"
      using a_back by blast
    then show ?thesis
    proof cases
      case 1
      then show ?thesis using fin_run [of 2] by (simp add: eval_nat_numeral)
    next
      case 2
      then show ?thesis using fin_run [of 1] a_old by (simp add: eval_nat_numeral)
    next
      case 3
      then show ?thesis using fin_run [of 0] a_old by (simp add: eval_nat_numeral)
    qed
  qed
  with m show ?thesis by blast
qed

text \<open>
  C36: recovery makes progress and never loses an acknowledged or prepared state. For a valid
  record with a snapshot, and a database that is absent, older than the acknowledged state, at
  it, or at the prepared state, at most four actions lead to a stable record for the newest
  snapshot with the database at it, where recovery reports ready.
\<close>

theorem recovery_converges:
  assumes "journal_validate H r = Inr ()" and "recovery_goal (jr_state r) = Some img"
    and "lease_binding_fingerprint lease = binding_fingerprint H (jr_binding r)"
    and "recoverable (jr_state r) db"
  shows "\<exists>r'. run_recovery 4 H lease r db = (r', Present (img_identity img)) \<and>
    plan_recovery (jr_binding r) (Some r') (Present (img_identity img)) = Ready img"
proof (cases "jr_state r")
  case (Stable current)
  with assms recover_stable [OF Stable, of db 3 H lease] show ?thesis
    by (simp add: eval_nat_numeral plan_recovery_def journal_recovery_plan_def)
next
  case (Prepared tid old new)
  obtain r' where r': "run_recovery 4 H lease r db = (r', Present (img_identity new))" "jr_state r' = Stable new"
    "jr_binding r' = jr_binding r" using recover_prepared [OF assms(1) Prepared assms(3,4)] by blast
  have "img = new" using assms(2) Prepared by simp
  moreover have "plan_recovery (jr_binding r) (Some r') (Present (img_identity new)) = Ready new"
    using r'(2,3) by (simp add: plan_recovery_def journal_recovery_plan_def)
  ultimately show ?thesis using r'(1) by blast
qed (use assms(2) in simp_all)

section \<open>Ambiguous writes\<close>

definition record_input :: "(bytes \<Rightarrow> bytes) \<Rightarrow> journal_record \<Rightarrow> bytes" where
  "record_input H r = record_fingerprint_domain @ journal_encode H r"

definition distinguishes :: "(bytes \<Rightarrow> bytes) \<Rightarrow> journal_record \<Rightarrow> journal_record \<Rightarrow> bool" where
  "distinguishes H r r' \<longleftrightarrow> (H (record_input H r) = H (record_input H r') \<longrightarrow> record_input H r = record_input H r')"

lemma record_fingerprint_eq:
  assumes "record_ok r" "record_ok r'" "\<And>x. length (H x) = 32" "distinguishes H r r'"
  shows "record_fingerprint H r = record_fingerprint H r' \<longleftrightarrow> r = r'"
  using assms journal_encode_inj [of r r' H]
  by (auto simp: record_fingerprint_def hash_domain_def distinguishes_def record_input_def)

text \<open>
  An ambiguous write is resolved exactly. After a journal mutation whose outcome is unknown,
  reloading tells committed exactly when the proposed record is stored, an exact retry exactly
  when the prior record still is, and a conflict for every other record and for a missing one,
  as long as the hash does not confuse the stored record with the prior or the proposed one.
\<close>

theorem reconcile_exact:
  assumes "next_mutation H r lease st = Inr m" and "record_ok r" and "state_ok st"
    and "\<And>x. length (H x) = 32"
    and "\<And>q. loaded = Some q \<Longrightarrow> record_ok q \<and> distinguishes H q r \<and> distinguishes H q (jm_proposed m)"
  shows "(reconcile H m loaded = Committed \<longleftrightarrow> loaded = Some (jm_proposed m)) \<and>
    (reconcile H m loaded = RetryExact \<longleftrightarrow> loaded = Some r) \<and> jm_proposed m \<noteq> r"
proof -
  note p = next_mutation_ok [OF assms(1)]
  have okp: "record_ok (jm_proposed m)" using assms(2,3) p(1) by (simp add: record_ok_def)
  have ne: "jm_proposed m \<noteq> r" using p(3) by auto
  have e: "jm_expectation m = \<lparr>we_binding_fingerprint = binding_fingerprint H (jr_binding r),
      we_fencing_token = lease_fencing_token lease,
      we_prior = ExpectExact (jr_journal_revision r) (record_fingerprint H r)\<rparr>"
    using assms(1) by (auto simp: next_mutation_def Let_def bind_res_eq_Inr)
  show ?thesis
  proof (cases loaded)
    case None
    then show ?thesis using ne by (simp add: reconcile_def expectation_matches_def e)
  next
    case (Some q)
    with assms(5) have q: "record_ok q" "distinguishes H q r" "distinguishes H q (jm_proposed m)" by auto
    note fp = record_fingerprint_eq [OF q(1) assms(2,4) q(2)] record_fingerprint_eq [OF q(1) okp assms(4) q(3)]
    from Some ne show ?thesis by (auto simp: reconcile_def expectation_matches_def e fp)
  qed
qed

section \<open>A concrete journal\<close>

definition length_digest :: "bytes \<Rightarrow> bytes" where
  "length_digest bs = replicate 31 0 @ [word_of_nat (length bs)]"

definition sample_binding :: journal_binding where
  "sample_binding = \<lparr>jb_installation_lineage = replicate 32 1, jb_network_magic = 7, jb_role_id = replicate 32 2,
     jb_storage_namespace_id = replicate 32 3, jb_logical_key = replicate 32 0, jb_protocol_id = replicate 32 4,
     jb_protocol_version = 1, jb_aead_suite = 1, jb_key_version = 1, jb_key_id = replicate 32 5,
     jb_protection = IndependentLocalRoot\<rparr>"

definition sample_image :: "u64 \<Rightarrow> snapshot_image" where
  "sample_image revision =
     \<lparr>img_identity = \<lparr>si_revision = revision, si_protocol_fingerprint = replicate 32 6, si_byte_fingerprint = replicate 32 8\<rparr>,
      img_sealed = \<lparr>ss_plaintext_len = 0, ss_ciphertext = replicate 28 9\<rparr>\<rparr>"

definition sample_lease :: journal_lease_context where
  "sample_lease = lease_new length_digest sample_binding 1"

definition sample_record :: "u64 \<Rightarrow> journal_state \<Rightarrow> journal_record" where
  "sample_record revision st = \<lparr>jr_binding = sample_binding, jr_journal_revision = revision, jr_state = st\<rparr>"

definition sample_prepared :: journal_record where
  "sample_prepared = sample_record 2 (Prepared
     (transition_id length_digest sample_binding (sample_image 5) (sample_image 9)) (sample_image 5) (sample_image 9))"

lemma length_digest_size: "length (length_digest x) = 32"
  by (simp add: length_digest_def)

lemma sample_ok: "binding_ok sample_binding" "image_ok (sample_image v)"
  by (simp_all add: binding_ok_def sample_binding_def binding_new_def is_zero_bytes_def list_all_iff aead_suite_aes_256_gcm_def
      sample_image_def image_ok_def identity_ok_def sealed_ok_def journal_sizes)

lemma sample_lease_fp: "lease_binding_fingerprint sample_lease = binding_fingerprint length_digest sample_binding"
  by (simp add: sample_lease_def lease_new_def)

lemma sample_validates:
  "journal_validate H (sample_record 0 NeverInitialized) = Inr ()"
  "journal_validate H (sample_record 1 (Stable img)) = Inr ()"
  "journal_validate length_digest sample_prepared = Inr ()"
  by (simp_all add: journal_validate_def sample_record_def sample_prepared_def sample_image_def)

lemma sample_next:
  assumes "journal_validate H (sample_record (v + 1) st) = Inr ()" and "unat v + 1 < 2 ^ 64"
  obtains m where "next_mutation H (sample_record v st') lease st = Inr m" "jm_proposed m = sample_record (v + 1) st"
  using next_mutation_succeeds [of "sample_record v st'" H st lease] assms by (auto simp: sample_record_def)

lemma sample_reachable:
  "journal_reachable length_digest sample_binding
     \<lparr>sys_journal = Some (sample_record 1 (Stable (sample_image 5))), sys_database = Present (img_identity (sample_image 5)),
      sys_acked = [img_identity (sample_image 5)]\<rparr>" (is "journal_reachable ?H ?b ?s")
proof -
  let ?db = "Present (img_identity (sample_image 5))"
  let ?init = "journal_initial ?db"
  let ?prov = "?init\<lparr>sys_journal := Some (sample_record 0 NeverInitialized)\<rparr>"
  have "journal_step ?H ?b ?init ?prov"
    using provision [of ?init ?H ?b sample_lease] sample_lease_fp
    by (simp add: journal_initial_def privileged_provision_def sample_record_def)
  with start have r1: "journal_reachable ?H ?b ?prov" by (rule step)
  obtain m where "next_mutation ?H (sample_record 0 NeverInitialized) sample_lease (Stable (sample_image 5)) = Inr m"
    "jm_proposed m = sample_record 1 (Stable (sample_image 5))"
    using sample_next [of ?H 0 "Stable (sample_image 5)" NeverInitialized sample_lease] sample_validates(2) by auto
  then have "journal_step ?H ?b ?prov ?s"
    using enroll [of ?prov "sample_record 0 NeverInitialized" ?H sample_lease "sample_image 5" m ?b] sample_lease_fp
    by (simp add: journal_initial_def privileged_enroll_def ensure_lease_binding_def sample_record_def)
  with r1 show ?thesis by (rule step)
qed

theorem journal_codec_exact_witness:
  "journal_decode length_digest (journal_encode length_digest sample_prepared) = Inr sample_prepared"
  using journal_codec_exact [of length_digest "journal_encode length_digest sample_prepared" sample_prepared]
    sample_ok sample_validates(3)
  by (simp add: length_digest_size record_ok_def sample_prepared_def sample_record_def transition_id_def
      hash_domain_def)


theorem journal_revision_discipline_witness:
  "odd (unat (jr_journal_revision (sample_record 1 (Stable (sample_image 5)))))"
proof -
  have "jr_state (sample_record 1 (Stable (sample_image 5))) = Stable (sample_image 5)"
    by (simp add: sample_record_def)
  then show ?thesis
    using journal_revision_discipline [OF sample_reachable, of "sample_record 1 (Stable (sample_image 5))"] by simp
qed

theorem journal_retired_is_final_witness:
  "\<exists>reason. plan_recovery sample_binding (Some (sample_record 2 (Retired (img_identity (sample_image 5)) [])))
     Absent = FailClosed reason"
  using journal_retired_is_final [of length_digest sample_binding
      "\<lparr>sys_journal = Some (sample_record 2 (Retired (img_identity (sample_image 5)) [])), sys_database = Absent, sys_acked = []\<rparr>"
      "\<lparr>sys_journal = Some (sample_record 2 (Retired (img_identity (sample_image 5)) [])), sys_database = Absent, sys_acked = []\<rparr>"
      "sample_record 2 (Retired (img_identity (sample_image 5)) [])" "img_identity (sample_image 5)" "[]" sample_binding Absent]
  by (simp add: sample_record_def)

theorem prepared_can_finalize_witness:
  "\<exists>m m'. prepare_transition length_digest (sample_record 1 (Stable (sample_image 5))) sample_lease
       (Present (img_identity (sample_image 5))) (sample_image 9) = Inr m \<and>
     finalize_prepared length_digest (jm_proposed m) sample_lease (Present (img_identity (sample_image 9))) = Inr m' \<and>
     jr_state (jm_proposed m') = Stable (sample_image 9)"
proof -
  let ?r = "sample_record 1 (Stable (sample_image 5))"
  obtain m where "next_mutation length_digest ?r sample_lease
      (Prepared (transition_id length_digest sample_binding (sample_image 5) (sample_image 9)) (sample_image 5) (sample_image 9)) = Inr m"
    using sample_next [of length_digest 1 "jr_state sample_prepared" "Stable (sample_image 5)" sample_lease]
      sample_validates(3) by (auto simp: sample_prepared_def sample_record_def)
  then have prep: "prepare_transition length_digest ?r sample_lease
      (Present (img_identity (sample_image 5))) (sample_image 9) = Inr m"
    using sample_lease_fp
    by (simp add: prepare_transition_def ensure_lease_binding_def sample_record_def checked_add_def)
      (simp add: sample_image_def)
  have "lease_binding_fingerprint sample_lease = binding_fingerprint length_digest (jr_binding ?r)"
    using sample_lease_fp by (simp add: sample_record_def)
  from prepared_can_finalize [OF prep this] prep show ?thesis by blast
qed

theorem recovery_converges_witness:
  "\<exists>r'. run_recovery 4 length_digest sample_lease sample_prepared Absent =
     (r', Present (img_identity (sample_image 9))) \<and>
     plan_recovery sample_binding (Some r') (Present (img_identity (sample_image 9))) = Ready (sample_image 9)"
  using recovery_converges [OF sample_validates(3), of "sample_image 9" sample_lease Absent] sample_lease_fp
  by (simp add: sample_prepared_def sample_record_def)

theorem reconcile_exact_witness:
  "\<exists>m. next_mutation length_digest (sample_record 0 NeverInitialized) sample_lease (Stable (sample_image 5)) = Inr m \<and>
     reconcile length_digest m (Some (sample_record 0 NeverInitialized)) = RetryExact"
proof -
  let ?r = "sample_record 0 NeverInitialized"
  obtain m where m: "next_mutation length_digest ?r sample_lease (Stable (sample_image 5)) = Inr m"
    "jm_proposed m = sample_record 1 (Stable (sample_image 5))"
    using sample_next [of length_digest 0 "Stable (sample_image 5)" NeverInitialized sample_lease] sample_validates(2) by auto
  have "record_ok ?r" "state_ok (Stable (sample_image 5))" using sample_ok by (simp_all add: record_ok_def sample_record_def)
  moreover have "distinguishes length_digest ?r ?r" by (simp add: distinguishes_def)
  moreover have "distinguishes length_digest ?r (jm_proposed m)"
    by (simp add: m(2) distinguishes_def length_digest_def record_input_def journal_encode_def journal_body_eq
        sample_record_def journal_checksum_def hash_domain_def length_binding_bytes [OF sample_ok(1)]
        image_bytes_def sample_image_def identity_bytes_def sealed_bytes_def var_bytes_eq length_compact_bytes
        record_fingerprint_domain_def ascii_bytes_def)
  ultimately show ?thesis
    using reconcile_exact [OF m(1) _ _ length_digest_size, of "Some ?r"] m(1) by auto
qed

end
