(* ===== verification/Sighash.thy ===== *)
theory Sighash
  imports Transaction
begin

text \<open>
  Model of \<^verbatim>\<open>crates/hns-script/src/lib.rs\<close>: signature-hash types, the signature hash and the two
  lock-time predicates, with the script errors of \<^verbatim>\<open>interpreter.rs\<close> they share with the
  interpreter. BLAKE2b-256 is the parameter \<open>H\<close>. The lemmas say what a signature commits to and
  what it leaves open.
\<close>

datatype script_error =
    InputIndex nat nat
  | InvalidSignatureHashType u32
  | ScriptTransaction transaction_error
  | InputCoinCount nat nat
  | InputCoinMismatch
  | OpReturn
  | ScriptSize
  | StackSize
  | PushSize
  | WitnessProgramWitnessEmpty
  | WitnessProgramMismatch
  | WitnessProgramWrongLength
  | DiscourageUpgradableWitnessProgram
  | DiscourageUpgradableNops
  | EvalFalse
  | BadOpcode byte
  | DisabledOpcode byte
  | OperationCount
  | MinimalData
  | NonMinimalNumber
  | MinimalIf
  | UnbalancedConditional
  | InvalidStackOperation
  | InvalidAltStackOperation
  | VerifyFailed
  | EqualVerify
  | NumEqualVerify
  | NegativeLocktime
  | UnsatisfiedLocktime
  | NumericOverflow
  | PublicKeyCount
  | SignatureCount
  | PublicKeyEncoding
  | SignatureEncoding
  | SignatureNullDummy
  | NullFail
  | CheckSigVerify
  | CheckMultiSigVerify
  | SignatureBackendUnavailable

section \<open>Signature-hash types\<close>

definition sighash_all :: u32 where "sighash_all = 1"
definition sighash_none :: u32 where "sighash_none = 2"
definition sighash_single :: u32 where "sighash_single = 3"
definition sighash_single_reverse :: u32 where "sighash_single_reverse = 4"
definition sighash_noinput :: u32 where "sighash_noinput = 0x40"
definition sighash_anyone_can_pay :: u32 where "sighash_anyone_can_pay = 0x80"
definition sighash_base_mask :: u32 where "sighash_base_mask = 0x1f"
definition hip1_seller_sighash :: u32 where
  "hip1_seller_sighash = sighash_single_reverse OR sighash_anyone_can_pay"

lemmas sighash_types = sighash_all_def sighash_none_def sighash_single_def sighash_single_reverse_def
  sighash_noinput_def sighash_anyone_can_pay_def sighash_base_mask_def hip1_seller_sighash_def

definition is_valid_signature_hash_type :: "byte \<Rightarrow> bool" where
  "is_valid_signature_hash_type hash_type =
     (let normalized = (ucast hash_type :: u32) AND NOT (sighash_noinput OR sighash_anyone_can_pay)
      in sighash_all \<le> normalized \<and> normalized \<le> sighash_single_reverse)"

section \<open>The signature hash\<close>

definition zero_hash :: bytes where "zero_hash = replicate 32 0"

definition anyone_can_pay :: "u32 \<Rightarrow> bool" where
  "anyone_can_pay ty \<longleftrightarrow> ty AND sighash_anyone_can_pay \<noteq> 0"

definition no_input :: "u32 \<Rightarrow> bool" where
  "no_input ty \<longleftrightarrow> ty AND sighash_noinput \<noteq> 0"

definition hash_prevouts :: "(bytes \<Rightarrow> bytes) \<Rightarrow> transaction \<Rightarrow> u32 \<Rightarrow> bytes" where
  "hash_prevouts H tx ty =
     (if anyone_can_pay ty then zero_hash
      else H (concat (map (\<lambda>i. outpoint_encode (in_previous_output i)) (tx_inputs tx))))"

definition hash_sequences :: "(bytes \<Rightarrow> bytes) \<Rightarrow> transaction \<Rightarrow> u32 \<Rightarrow> bytes" where
  "hash_sequences H tx ty =
     (if anyone_can_pay ty \<or>
         ty AND sighash_base_mask \<in> {sighash_none, sighash_single, sighash_single_reverse}
      then zero_hash
      else H (encode_with (map (\<lambda>i. put_u32_le (in_sequence i)) (tx_inputs tx))))"

definition encode_output :: "tx_output \<Rightarrow> script_error + bytes" where
  "encode_output out = map_err ScriptTransaction (output_encode out)"

definition hash_outputs :: "(bytes \<Rightarrow> bytes) \<Rightarrow> transaction \<Rightarrow> nat \<Rightarrow> u32 \<Rightarrow> script_error + bytes" where
  "hash_outputs H tx input_index base =
     (if base = sighash_none then Inr zero_hash
      else if base = sighash_single then
        (case get (tx_outputs tx) input_index of
           None \<Rightarrow> Inr zero_hash
         | Some out \<Rightarrow> bind_res (encode_output out) (\<lambda>bs. Inr (H bs)))
      else if base = sighash_single_reverse then
        (if input_index < length (tx_outputs tx)
         then bind_res (encode_output (tx_outputs tx ! (length (tx_outputs tx) - 1 - input_index)))
                (\<lambda>bs. Inr (H bs))
         else Inr zero_hash)
      else
        bind_res (fold_res (\<lambda>out acc. bind_res (encode_output out) (\<lambda>bs. Inr (acc @ bs))) (tx_outputs tx) [])
          (\<lambda>bs. Inr (H bs)))"

definition current_input :: "tx_input \<Rightarrow> u32 \<Rightarrow> outpoint \<times> u32" where
  "current_input i ty =
     (if no_input ty then (outpoint_null, 0xffffffff) else (in_previous_output i, in_sequence i))"

definition signature_hash ::
  "(bytes \<Rightarrow> bytes) \<Rightarrow> transaction \<Rightarrow> nat \<Rightarrow> bytes \<Rightarrow> u64 \<Rightarrow> u32 \<Rightarrow> script_error + bytes" where
  "signature_hash H tx input_index previous_script previous_value hash_type =
     bind_res (ok_or (get (tx_inputs tx) input_index) (InputIndex input_index (length (tx_inputs tx)))) (\<lambda>i.
     let base = hash_type AND sighash_base_mask in
     if \<not> (sighash_all \<le> base \<and> base \<le> sighash_single_reverse)
     then Inl (InvalidSignatureHashType hash_type)
     else
       bind_res (hash_outputs H tx input_index base) (\<lambda>outputs.
       let (op, seq) = current_input i hash_type in
       Inr (H (encode_with
         [put_u32_le (tx_version tx), put_bytes (hash_prevouts H tx hash_type),
          put_bytes (hash_sequences H tx hash_type), put_bytes (outpoint_encode op),
          put_varbytes previous_script, put_u64_le previous_value, put_u32_le seq, put_bytes outputs,
          put_u32_le (tx_locktime tx), put_u32_le hash_type]))))"

section \<open>Lock times\<close>

definition locktime_flag :: u32 where "locktime_flag = 0x80000000"
definition locktime_mask :: u32 where "locktime_mask = 0x7fffffff"
definition sequence_disable_flag :: u32 where "sequence_disable_flag = 0x80000000"
definition sequence_type_flag :: u32 where "sequence_type_flag = 0x400000"
definition sequence_mask :: u32 where "sequence_mask = 0xffff"

definition verify_locktime_predicate :: "transaction \<Rightarrow> nat \<Rightarrow> u32 \<Rightarrow> bool" where
  "verify_locktime_predicate tx input_index predicate =
     (case get (tx_inputs tx) input_index of
        None \<Rightarrow> False
      | Some i \<Rightarrow>
          tx_locktime tx AND locktime_flag = predicate AND locktime_flag \<and>
          predicate AND locktime_mask \<le> tx_locktime tx AND locktime_mask \<and>
          in_sequence i \<noteq> 0xffffffff)"

definition verify_sequence_predicate :: "transaction \<Rightarrow> nat \<Rightarrow> u32 \<Rightarrow> bool" where
  "verify_sequence_predicate tx input_index predicate =
     (case get (tx_inputs tx) input_index of
        None \<Rightarrow> False
      | Some i \<Rightarrow>
          if predicate AND sequence_disable_flag \<noteq> 0 then True
          else if in_sequence i AND sequence_disable_flag \<noteq> 0 then False
          else in_sequence i AND sequence_type_flag = predicate AND sequence_type_flag \<and>
            predicate AND sequence_mask \<le> in_sequence i AND sequence_mask)"

section \<open>What a signature commits to\<close>

definition committed_prevouts :: "transaction \<Rightarrow> u32 \<Rightarrow> outpoint list option" where
  "committed_prevouts tx ty = (if anyone_can_pay ty then None else Some (map in_previous_output (tx_inputs tx)))"

definition committed_sequences :: "transaction \<Rightarrow> u32 \<Rightarrow> u32 list option" where
  "committed_sequences tx ty =
     (if anyone_can_pay ty \<or> ty AND sighash_base_mask \<noteq> sighash_all then None
      else Some (map in_sequence (tx_inputs tx)))"

definition committed_outputs :: "transaction \<Rightarrow> nat \<Rightarrow> u32 \<Rightarrow> bytes option" where
  "committed_outputs tx i ty =
     (let base = ty AND sighash_base_mask in
      if base = sighash_none then None
      else if base = sighash_single then map_option output_bytes (get (tx_outputs tx) i)
      else if base = sighash_single_reverse then map_option output_bytes (get (rev (tx_outputs tx)) i)
      else Some (concat (map output_bytes (tx_outputs tx))))"

definition sighash_commitment where
  "sighash_commitment tx i script v ty =
     (tx_version tx, committed_prevouts tx ty, committed_sequences tx ty,
      current_input (tx_inputs tx ! i) ty, script :: bytes, v :: u64, committed_outputs tx i ty, tx_locktime tx, ty)"

definition hash_or_zero :: "(bytes \<Rightarrow> bytes) \<Rightarrow> bytes option \<Rightarrow> bytes" where
  "hash_or_zero H x = (case x of None \<Rightarrow> replicate 32 0 | Some bs \<Rightarrow> H bs)"

definition prevouts_input :: "transaction \<Rightarrow> u32 \<Rightarrow> bytes option" where
  "prevouts_input tx ty = map_option (\<lambda>ops. concat (map outpoint_encode ops)) (committed_prevouts tx ty)"

definition sequences_input :: "transaction \<Rightarrow> u32 \<Rightarrow> bytes option" where
  "sequences_input tx ty = map_option (\<lambda>sq. concat (map u32_to_le sq)) (committed_sequences tx ty)"

definition sighash_preimage :: "(bytes \<Rightarrow> bytes) \<Rightarrow> transaction \<Rightarrow> nat \<Rightarrow> bytes \<Rightarrow> u64 \<Rightarrow> u32 \<Rightarrow> bytes" where
  "sighash_preimage H tx i script v ty =
     u32_to_le (tx_version tx) @ hash_or_zero H (prevouts_input tx ty) @
     hash_or_zero H (sequences_input tx ty) @ outpoint_encode (fst (current_input (tx_inputs tx ! i) ty)) @
     var_bytes script @ u64_to_le v @ u32_to_le (snd (current_input (tx_inputs tx ! i) ty)) @
     hash_or_zero H (committed_outputs tx i ty) @ u32_to_le (tx_locktime tx) @ u32_to_le ty"

definition sighash_inputs :: "(bytes \<Rightarrow> bytes) \<Rightarrow> transaction \<Rightarrow> nat \<Rightarrow> bytes \<Rightarrow> u64 \<Rightarrow> u32 \<Rightarrow> bytes list" where
  "sighash_inputs H tx i script v ty =
     List.map_filter (\<lambda>x. x) [prevouts_input tx ty, sequences_input tx ty, committed_outputs tx i ty] @
     [sighash_preimage H tx i script v ty]"

lemma output_encode_iff: "output_encode out = Inr bs \<longleftrightarrow> output_sized out \<and> bs = output_bytes out"
proof -
  have "into_bytes encoder_new = []" by (simp add: into_bytes_def encoder_new_def)
  then have "output_encode_to out encoder_new = Inr e \<longleftrightarrow> output_sized out \<and> into_bytes e = output_bytes out" for e
    by (simp add: output_encode_to_iff)
  moreover have "\<exists>e. into_bytes e = output_bytes out"
    by (rule exI [of _ "\<lparr>enc_bytes = output_bytes out\<rparr>"]) (simp add: into_bytes_def)
  ultimately show ?thesis by (auto simp: output_encode_def bind_res_eq_Inr)
qed

lemma encode_output_iff: "encode_output out = Inr bs \<longleftrightarrow> output_sized out \<and> bs = output_bytes out"
  by (simp add: encode_output_def output_encode_iff)

lemma fold_encode_outputs:
  "fold_res (\<lambda>out acc. bind_res (encode_output out) (\<lambda>bs. Inr (acc @ bs))) outs acc = Inr bs \<longleftrightarrow>
     (\<forall>out\<in>set outs. output_sized out) \<and> bs = acc @ concat (map output_bytes outs)"
  by (induction outs arbitrary: acc) (auto simp: bind_res_eq_Inr encode_output_iff)

lemma get_rev: "get (rev xs) i = (if i < length xs then Some (xs ! (length xs - 1 - i)) else None)"
  by (simp add: get_def rev_nth)

lemma hash_outputs_Inr:
  assumes "hash_outputs H tx i (ty AND sighash_base_mask) = Inr h"
  shows "h = hash_or_zero H (committed_outputs tx i ty)"
  using assms
  by (auto simp: hash_outputs_def committed_outputs_def Let_def hash_or_zero_def zero_hash_def bind_res_eq_Inr
      encode_output_iff fold_encode_outputs get_rev split: if_splits option.splits)

lemma base_range:
  fixes base :: u32
  assumes "sighash_all \<le> base" "base \<le> sighash_single_reverse"
  shows "base \<in> {sighash_all, sighash_none, sighash_single, sighash_single_reverse}"
proof -
  have "1 \<le> unat base" "unat base \<le> 4" using assms by (simp_all add: sighash_types word_le_nat_alt)
  then have "unat base \<in> {1, 2, 3, 4}" by auto
  then show ?thesis by (auto simp: sighash_types word_unat_eq_iff)
qed

lemma signature_hash_Inr:
  assumes "signature_hash H tx i script v ty = Inr h"
  shows "h = H (sighash_preimage H tx i script v ty)" and "i < length (tx_inputs tx)"
proof -
  obtain op sq where ci: "current_input (tx_inputs tx ! i) ty = (op, sq)" by (cases "current_input (tx_inputs tx ! i) ty")
  let ?pre = "\<lambda>outs. encode_with
     [put_u32_le (tx_version tx), put_bytes (hash_prevouts H tx ty), put_bytes (hash_sequences H tx ty),
      put_bytes (outpoint_encode op), put_varbytes script, put_u64_le v, put_u32_le sq, put_bytes outs,
      put_u32_le (tx_locktime tx), put_u32_le ty]"
  from assms have i: "i < length (tx_inputs tx)"
    by (auto simp: signature_hash_def bind_res_eq_Inr get_def split: if_splits)
  from assms i obtain outs where outs: "hash_outputs H tx i (ty AND sighash_base_mask) = Inr outs"
    and h: "h = H (?pre outs)"
    and range: "sighash_all \<le> ty AND sighash_base_mask" "ty AND sighash_base_mask \<le> sighash_single_reverse"
    by (auto simp: signature_hash_def Let_def bind_res_eq_Inr get_def ci split: if_splits)
  note base = base_range [OF range]
  have seqs: "hash_sequences H tx ty = hash_or_zero H (sequences_input tx ty)"
    using base by (auto simp: hash_sequences_def sequences_input_def committed_sequences_def hash_or_zero_def zero_hash_def
        encode_with_def into_bytes_put_seq_map comp_def sighash_types)
  have prev: "hash_prevouts H tx ty = hash_or_zero H (prevouts_input tx ty)"
    by (simp add: hash_prevouts_def prevouts_input_def committed_prevouts_def hash_or_zero_def zero_hash_def comp_def)
  show "i < length (tx_inputs tx)" by (rule i)
  show "h = H (sighash_preimage H tx i script v ty)"
    unfolding h by (simp add: sighash_preimage_def seqs prev encode_with_def ci hash_outputs_Inr [OF outs])
qed

lemma concat_fixed_inj:
  assumes "\<forall>x\<in>set xs \<union> set ys. length (f x) = n" and "0 < n" and "inj_on f (set xs \<union> set ys)"
    and "concat (map f xs) = concat (map f ys)"
  shows "xs = ys"
proof -
  have "length (concat (map f zs)) = n * length zs" if "set zs \<subseteq> set xs \<union> set ys" for zs
    using that assms(1) by (induction zs) auto
  from this [of xs] this [of ys] assms(2,4) have len: "length xs = length ys" by simp
  have "map f xs = map f ys"
    by (rule concat_injective [OF assms(4)])
      (use len assms(1) in \<open>auto simp: set_zip\<close>)
  then show ?thesis using assms(3) by (simp add: inj_on_map_eq_map)
qed

lemma hash_or_zero_inj:
  assumes cf: "collision_free H xs" and "\<forall>a. x = Some a \<longrightarrow> a \<in> set xs" "\<forall>a. y = Some a \<longrightarrow> a \<in> set xs"
    and eq: "hash_or_zero H x = hash_or_zero H y"
  shows "x = y"
proof (cases x; cases y)
  fix a b assume "x = Some a" "y = Some b"
  then show ?thesis using collision_freeD(1) [OF cf, of a b] assms(2,3) eq unfolding hash_or_zero_def by fastforce
next
  fix a assume "x = Some a" "y = None"
  then show ?thesis using collision_freeD(2) [OF cf, of a] assms(2) eq unfolding hash_or_zero_def by fastforce
next
  fix b assume "x = None" "y = Some b"
  then show ?thesis using collision_freeD(2) [OF cf, of b] assms(3) eq unfolding hash_or_zero_def by fastforce
qed simp

lemma sighash_inputs_mem:
  "prevouts_input tx ty = Some a \<Longrightarrow> a \<in> set (sighash_inputs H tx i script v ty)"
  "sequences_input tx ty = Some a \<Longrightarrow> a \<in> set (sighash_inputs H tx i script v ty)"
  "committed_outputs tx i ty = Some a \<Longrightarrow> a \<in> set (sighash_inputs H tx i script v ty)"
  "sighash_preimage H tx i script v ty \<in> set (sighash_inputs H tx i script v ty)"
  by (auto simp: sighash_inputs_def List.map_filter_def)

text \<open>Transactions as the code represents them: outpoint hashes of 32 bytes.\<close>

definition outpoints_ok :: "transaction \<Rightarrow> bool" where
  "outpoints_ok tx \<longleftrightarrow> (\<forall>i\<in>set (tx_inputs tx). outpoint_ok (in_previous_output i))"

lemma length_outpoint_encode: "outpoint_ok p \<Longrightarrow> length (outpoint_encode p) = 36"
  by (simp add: outpoint_ok_def outpoint_encode_def)

lemma current_input_ok: "outpoints_ok tx \<Longrightarrow> i < length (tx_inputs tx) \<Longrightarrow> outpoint_ok (fst (current_input (tx_inputs tx ! i) ty))"
  by (auto simp: current_input_def outpoints_ok_def)

lemma prevouts_input_inj:
  assumes "outpoints_ok tx" "outpoints_ok tx'" "prevouts_input tx ty = prevouts_input tx' ty"
  shows "committed_prevouts tx ty = committed_prevouts tx' ty"
proof -
  have "map in_previous_output (tx_inputs tx) = map in_previous_output (tx_inputs tx')"
    if "concat (map outpoint_encode (map in_previous_output (tx_inputs tx))) =
        concat (map outpoint_encode (map in_previous_output (tx_inputs tx')))"
    by (rule concat_fixed_inj [OF _ _ _ that, of 36])
      (use assms(1,2) in \<open>auto simp: outpoints_ok_def length_outpoint_encode inj_on_def outpoint_encode_inj\<close>)
  then show ?thesis
    using assms(3) by (auto simp: prevouts_input_def committed_prevouts_def split: if_splits)
qed

lemma sequences_input_inj:
  assumes "sequences_input tx ty = sequences_input tx' ty"
  shows "committed_sequences tx ty = committed_sequences tx' ty"
proof -
  have "map in_sequence (tx_inputs tx) = map in_sequence (tx_inputs tx')"
    if "concat (map u32_to_le (map in_sequence (tx_inputs tx))) = concat (map u32_to_le (map in_sequence (tx_inputs tx')))"
    by (rule concat_fixed_inj [OF _ _ _ that, of 4]) (auto simp: inj_on_def)
  then show ?thesis
    using assms by (auto simp: sequences_input_def committed_sequences_def split: if_splits)
qed

lemma preimage_fields:
  assumes eq: "u32_to_le a @ p @ s @ k @ var_bytes c @ u64_to_le v @ u32_to_le q @ h @ u32_to_le l @ u32_to_le t =
      u32_to_le a' @ p' @ s' @ k' @ var_bytes c' @ u64_to_le v' @ u32_to_le q' @ h' @ u32_to_le l' @ u32_to_le t'"
    and len: "length p = 32" "length p' = 32" "length s = 32" "length s' = 32" "length k = 36" "length k' = 36"
      "length h = 32" "length h' = 32"
    and sz: "length c \<le> 10000" "length c' \<le> 10000"
  shows "a = a' \<and> p = p' \<and> s = s' \<and> k = k' \<and> c = c' \<and> v = v' \<and> q = q' \<and> h = h' \<and> l = l' \<and> t = t'"
proof -
  have 1: "a = a' \<and> p = p' \<and> s = s' \<and> k = k'"
    and tail: "var_bytes c @ u64_to_le v @ u32_to_le q @ h @ u32_to_le l @ u32_to_le t =
      var_bytes c' @ u64_to_le v' @ u32_to_le q' @ h' @ u32_to_le l' @ u32_to_le t'"
    using eq len by simp_all
  have "fits [] (var_bytes c @ u64_to_le v @ u32_to_le q @ h @ u32_to_le l @ u32_to_le t)"
    using sz(1) len by (simp add: fits_def var_bytes_eq length_compact_bytes usize_max_def)
  from var.prefix_free [OF _ _ tail this, of 10000] have 2: "c = c' \<and>
      u64_to_le v @ u32_to_le q @ h @ u32_to_le l @ u32_to_le t = u64_to_le v' @ u32_to_le q' @ h' @ u32_to_le l' @ u32_to_le t'"
    using sz by (simp add: usize_max_def)
  then have "v = v' \<and> q = q' \<and> h = h' \<and> l = l' \<and> t = t'" using len by simp
  with 1 2 show ?thesis by blast
qed

lemma sighash_preimage_inj:
  assumes eq: "sighash_preimage H tx i script v ty = sighash_preimage H tx' i' script' v' ty'"
    and H: "\<And>x. length (H x) = 32"
    and ok: "outpoints_ok tx" "outpoints_ok tx'" "i < length (tx_inputs tx)" "i' < length (tx_inputs tx')"
    and sz: "length script \<le> 10000" "length script' \<le> 10000"
  shows "tx_version tx = tx_version tx' \<and> hash_or_zero H (prevouts_input tx ty) = hash_or_zero H (prevouts_input tx' ty') \<and>
    hash_or_zero H (sequences_input tx ty) = hash_or_zero H (sequences_input tx' ty') \<and>
    current_input (tx_inputs tx ! i) ty = current_input (tx_inputs tx' ! i') ty' \<and> script = script' \<and> v = v' \<and>
    hash_or_zero H (committed_outputs tx i ty) = hash_or_zero H (committed_outputs tx' i' ty') \<and>
    tx_locktime tx = tx_locktime tx' \<and> ty = ty'"
proof -
  have hz: "length (hash_or_zero H x) = 32" for x by (simp add: hash_or_zero_def H split: option.split)
  let ?c = "current_input (tx_inputs tx ! i) ty" and ?c' = "current_input (tx_inputs tx' ! i') ty'"
  have op: "outpoint_ok (fst ?c)" "outpoint_ok (fst ?c')" using ok by (simp_all add: current_input_ok)
  note f = preimage_fields [OF eq [unfolded sighash_preimage_def] hz hz hz hz
      length_outpoint_encode [OF op(1)] length_outpoint_encode [OF op(2)] hz hz sz]
  then have "fst ?c = fst ?c'" using outpoint_encode_inj [OF op] by blast
  with f show ?thesis by (auto simp: prod_eq_iff)
qed

text \<open>
  C22: what a signature hash commits to. Two signature hashes computed by the code agree exactly
  when their commitments agree: the version, lock time, hash type, script and value, the signed
  input (unless the type has the no-input flag), all inputs and their sequence numbers or none of
  them, and the outputs that the base type selects. The hash is any function to 32 bytes with
  no collision among the strings hashed in the two computations.
\<close>

theorem signature_hash_commits:
  assumes "signature_hash H tx i script v ty = Inr h" and "signature_hash H tx' i' script' v' ty' = Inr h'"
    and "outpoints_ok tx" "outpoints_ok tx'" and "length script \<le> 10000" "length script' \<le> 10000"
    and "\<And>x. length (H x) = 32"
    and "collision_free H (sighash_inputs H tx i script v ty @ sighash_inputs H tx' i' script' v' ty')"
  shows "h = h' \<longleftrightarrow> sighash_commitment tx i script v ty = sighash_commitment tx' i' script' v' ty'"
proof
  note s = signature_hash_Inr [OF assms(1)] signature_hash_Inr [OF assms(2)]
  {
    assume "h = h'"
    then have "sighash_preimage H tx i script v ty = sighash_preimage H tx' i' script' v' ty'"
      using collision_freeD(1) [OF assms(8), of "sighash_preimage H tx i script v ty" "sighash_preimage H tx' i' script' v' ty'"]
      by (simp add: s(1,3) sighash_inputs_mem)
    note e = sighash_preimage_inj [OF this assms(7,3,4) s(2,4) assms(5,6)]
    have p: "prevouts_input tx ty = prevouts_input tx' ty'"
      by (rule hash_or_zero_inj [OF assms(8)]) (use e in \<open>auto intro: sighash_inputs_mem\<close>)
    have q: "sequences_input tx ty = sequences_input tx' ty'"
      by (rule hash_or_zero_inj [OF assms(8)]) (use e in \<open>auto intro: sighash_inputs_mem\<close>)
    have r: "committed_outputs tx i ty = committed_outputs tx' i' ty'"
      by (rule hash_or_zero_inj [OF assms(8)]) (use e in \<open>auto intro: sighash_inputs_mem\<close>)
    have t: "ty' = ty" using e by blast
    have "committed_prevouts tx ty = committed_prevouts tx' ty'" "committed_sequences tx ty = committed_sequences tx' ty'"
      using prevouts_input_inj [OF assms(3,4), of ty] sequences_input_inj [of tx ty tx'] p q unfolding t by simp_all
    with e r show "sighash_commitment tx i script v ty = sighash_commitment tx' i' script' v' ty'"
      unfolding sighash_commitment_def by blast
  }
  assume "sighash_commitment tx i script v ty = sighash_commitment tx' i' script' v' ty'"
  then show "h = h'"
    by (auto simp: s(1,3) sighash_commitment_def sighash_preimage_def prevouts_input_def sequences_input_def)
qed

lemma hip1_flags:
  "anyone_can_pay hip1_seller_sighash" "\<not> no_input hip1_seller_sighash"
  "hip1_seller_sighash AND sighash_base_mask = sighash_single_reverse"
  "sighash_single_reverse \<noteq> sighash_none" "sighash_single_reverse \<noteq> sighash_single"
  by code_simp+

text \<open>
  The seller's signature of a HIP-1 sale survives completion by the buyer. With the
  single-reverse, anyone-can-pay type, appending inputs and putting outputs in front of the
  seller's changes nothing of the seller's signature hash.
\<close>

theorem seller_signature_survives:
  assumes "i < length ins" and "i < length outs"
  shows "signature_hash H \<lparr>tx_version = ver, tx_inputs = ins @ buyer_inputs,
      tx_outputs = buyer_outputs @ outs, tx_locktime = lock\<rparr> i script v hip1_seller_sighash =
    signature_hash H \<lparr>tx_version = ver, tx_inputs = ins, tx_outputs = outs, tx_locktime = lock\<rparr>
      i script v hip1_seller_sighash"
proof -
  have "length outs + length buyer_outputs - Suc i - length buyer_outputs = length outs - Suc i" by simp
  moreover have "\<not> length outs + length buyer_outputs - Suc i < length buyer_outputs" using assms(2) by simp
  ultimately show ?thesis
    using assms
    by (simp add: signature_hash_def hash_outputs_def hash_prevouts_def hash_sequences_def current_input_def
        hip1_flags get_def nth_append add.commute)
qed

section \<open>Examples\<close>

definition sample_spend :: transaction where
  "sample_spend = \<lparr>tx_version = 0,
     tx_inputs = [\<lparr>in_previous_output = \<lparr>op_hash = replicate 32 9, op_index = 1\<rparr>, in_sequence = 5, in_witness = []\<rparr>],
     tx_outputs = [\<lparr>out_value = 7, out_address = \<lparr>addr_version = 0, addr_hash = replicate 20 3\<rparr>,
                    out_covenant = covenant_default\<rparr>], tx_locktime = 0\<rparr>"

theorem signature_hash_commits_witness:
  "\<exists>h h'. signature_hash sample_hash sample_spend 0 [0x51] 10 1 = Inr h \<and>
     signature_hash sample_hash sample_spend 0 [0x51] 11 1 = Inr h' \<and> h \<noteq> h'"
proof -
  let ?h = "\<lambda>v. sample_hash (sighash_preimage sample_hash sample_spend 0 [0x51] v 1)"
  have 1: "signature_hash sample_hash sample_spend 0 [0x51] 10 1 = Inr (?h 10)" by code_simp
  have 2: "signature_hash sample_hash sample_spend 0 [0x51] 11 1 = Inr (?h 11)" by code_simp
  have cf: "collision_free sample_hash (sighash_inputs sample_hash sample_spend 0 [0x51] 10 1 @
      sighash_inputs sample_hash sample_spend 0 [0x51] 11 1)" by code_simp
  have "outpoints_ok sample_spend" by (simp add: outpoints_ok_def outpoint_ok_def sample_spend_def)
  from signature_hash_commits [OF 1 2 this this _ _ _ cf]
  have "?h 10 = ?h 11 \<longleftrightarrow> sighash_commitment sample_spend 0 [0x51] 10 1 = sighash_commitment sample_spend 0 [0x51] 11 1"
    by (simp add: sample_hash_def)
  then have "?h 10 \<noteq> ?h 11" by (simp add: sighash_commitment_def)
  with 1 2 show ?thesis by blast
qed

theorem seller_signature_survives_witness:
  "signature_hash sample_hash (sample_spend\<lparr>tx_inputs := tx_inputs sample_spend @ tx_inputs sample_spend,
       tx_outputs := tx_outputs sample_spend @ tx_outputs sample_spend\<rparr>) 0 [0x51] 10 hip1_seller_sighash =
   signature_hash sample_hash sample_spend 0 [0x51] 10 hip1_seller_sighash"
  using seller_signature_survives [of 0 "tx_inputs sample_spend" "tx_outputs sample_spend" sample_hash
      "tx_version sample_spend" "tx_inputs sample_spend" "tx_outputs sample_spend" "tx_locktime sample_spend" "[0x51]" 10]
  by (simp add: sample_spend_def)

end
