(* ===== verification/Script.thy ===== *)
theory Script
  imports Sighash
begin

text \<open>
  Model of \<^verbatim>\<open>crates/hns-script/src/interpreter.rs\<close>: script parsing, signature-operation counting, script
  numbers, and the stack machine with its signature opcodes and witness programs. The hash
  functions and the secp256k1 verifier of other crates are the fields of an environment record.
  A stack is a list with its top at the end, as the vector of the code. The 64-bit signed
  numbers of the code are integers with their range checks written out.
\<close>

section \<open>Limits, opcodes and flags\<close>

definition max_script_size :: nat where "max_script_size = 10000"
definition max_script_push :: nat where "max_script_push = 520"
definition max_script_ops :: nat where "max_script_ops = 201"
definition max_script_stack :: nat where "max_script_stack = 1000"
definition max_multisig_pubkeys :: nat where "max_multisig_pubkeys = 20"

definition op_0 :: byte where "op_0 = 0x00"
definition op_pushdata1 :: byte where "op_pushdata1 = 0x4c"
definition op_pushdata2 :: byte where "op_pushdata2 = 0x4d"
definition op_pushdata4 :: byte where "op_pushdata4 = 0x4e"
definition op_1negate :: byte where "op_1negate = 0x4f"
definition op_1 :: byte where "op_1 = 0x51"
definition op_16 :: byte where "op_16 = 0x60"
definition op_nop :: byte where "op_nop = 0x61"
definition op_if :: byte where "op_if = 0x63"
definition op_notif :: byte where "op_notif = 0x64"
definition op_else :: byte where "op_else = 0x67"
definition op_endif :: byte where "op_endif = 0x68"
definition op_verify :: byte where "op_verify = 0x69"
definition op_return :: byte where "op_return = 0x6a"
definition op_toaltstack :: byte where "op_toaltstack = 0x6b"
definition op_fromaltstack :: byte where "op_fromaltstack = 0x6c"
definition op_2drop :: byte where "op_2drop = 0x6d"
definition op_2dup :: byte where "op_2dup = 0x6e"
definition op_3dup :: byte where "op_3dup = 0x6f"
definition op_2over :: byte where "op_2over = 0x70"
definition op_2rot :: byte where "op_2rot = 0x71"
definition op_2swap :: byte where "op_2swap = 0x72"
definition op_ifdup :: byte where "op_ifdup = 0x73"
definition op_depth :: byte where "op_depth = 0x74"
definition op_drop :: byte where "op_drop = 0x75"
definition op_dup :: byte where "op_dup = 0x76"
definition op_nip :: byte where "op_nip = 0x77"
definition op_over :: byte where "op_over = 0x78"
definition op_pick :: byte where "op_pick = 0x79"
definition op_roll :: byte where "op_roll = 0x7a"
definition op_rot :: byte where "op_rot = 0x7b"
definition op_swap :: byte where "op_swap = 0x7c"
definition op_tuck :: byte where "op_tuck = 0x7d"
definition op_size :: byte where "op_size = 0x82"
definition op_equal :: byte where "op_equal = 0x87"
definition op_equalverify :: byte where "op_equalverify = 0x88"
definition op_1add :: byte where "op_1add = 0x8b"
definition op_1sub :: byte where "op_1sub = 0x8c"
definition op_negate :: byte where "op_negate = 0x8f"
definition op_abs :: byte where "op_abs = 0x90"
definition op_not :: byte where "op_not = 0x91"
definition op_0notequal :: byte where "op_0notequal = 0x92"
definition op_add :: byte where "op_add = 0x93"
definition op_sub :: byte where "op_sub = 0x94"
definition op_booland :: byte where "op_booland = 0x9a"
definition op_boolor :: byte where "op_boolor = 0x9b"
definition op_numequal :: byte where "op_numequal = 0x9c"
definition op_numequalverify :: byte where "op_numequalverify = 0x9d"
definition op_numnotequal :: byte where "op_numnotequal = 0x9e"
definition op_lessthan :: byte where "op_lessthan = 0x9f"
definition op_greaterthan :: byte where "op_greaterthan = 0xa0"
definition op_lessthanorequal :: byte where "op_lessthanorequal = 0xa1"
definition op_greaterthanorequal :: byte where "op_greaterthanorequal = 0xa2"
definition op_min :: byte where "op_min = 0xa3"
definition op_max :: byte where "op_max = 0xa4"
definition op_within :: byte where "op_within = 0xa5"
definition op_ripemd160 :: byte where "op_ripemd160 = 0xa6"
definition op_sha1 :: byte where "op_sha1 = 0xa7"
definition op_sha256 :: byte where "op_sha256 = 0xa8"
definition op_hash160 :: byte where "op_hash160 = 0xa9"
definition op_hash256 :: byte where "op_hash256 = 0xaa"
definition op_codeseparator :: byte where "op_codeseparator = 0xab"
definition op_checksig :: byte where "op_checksig = 0xac"
definition op_checksigverify :: byte where "op_checksigverify = 0xad"
definition op_checkmultisig :: byte where "op_checkmultisig = 0xae"
definition op_checkmultisigverify :: byte where "op_checkmultisigverify = 0xaf"
definition op_nop1 :: byte where "op_nop1 = 0xb0"
definition op_checklocktimeverify :: byte where "op_checklocktimeverify = 0xb1"
definition op_checksequenceverify :: byte where "op_checksequenceverify = 0xb2"
definition op_nop4 :: byte where "op_nop4 = 0xb3"
definition op_nop10 :: byte where "op_nop10 = 0xb9"
definition op_blake160 :: byte where "op_blake160 = 0xc0"
definition op_blake256 :: byte where "op_blake256 = 0xc1"
definition op_sha3 :: byte where "op_sha3 = 0xc2"
definition op_keccak :: byte where "op_keccak = 0xc3"
definition op_type :: byte where "op_type = 0xd0"

lemmas opcodes = op_0_def op_pushdata1_def op_pushdata2_def op_pushdata4_def op_1negate_def op_1_def op_16_def
  op_nop_def op_if_def op_notif_def op_else_def op_endif_def op_verify_def op_return_def op_toaltstack_def
  op_fromaltstack_def op_2drop_def op_2dup_def op_3dup_def op_2over_def op_2rot_def op_2swap_def op_ifdup_def
  op_depth_def op_drop_def op_dup_def op_nip_def op_over_def op_pick_def op_roll_def op_rot_def op_swap_def
  op_tuck_def op_size_def op_equal_def op_equalverify_def op_1add_def op_1sub_def op_negate_def op_abs_def
  op_not_def op_0notequal_def op_add_def op_sub_def op_booland_def op_boolor_def op_numequal_def
  op_numequalverify_def op_numnotequal_def op_lessthan_def op_greaterthan_def op_lessthanorequal_def
  op_greaterthanorequal_def op_min_def op_max_def op_within_def op_ripemd160_def op_sha1_def op_sha256_def
  op_hash160_def op_hash256_def op_codeseparator_def op_checksig_def op_checksigverify_def op_checkmultisig_def
  op_checkmultisigverify_def op_nop1_def op_checklocktimeverify_def op_checksequenceverify_def op_nop4_def
  op_nop10_def op_blake160_def op_blake256_def op_sha3_def op_keccak_def op_type_def

lemmas script_limits = max_script_size_def max_script_push_def max_script_ops_def max_script_stack_def
  max_multisig_pubkeys_def

type_synonym script_flags = u32

definition verify_minimal_data :: script_flags where "verify_minimal_data = 2"
definition verify_discourage_upgradable_nops :: script_flags where "verify_discourage_upgradable_nops = 4"
definition verify_discourage_upgradable_witness_program :: script_flags where
  "verify_discourage_upgradable_witness_program = 8"
definition verify_minimal_if :: script_flags where "verify_minimal_if = 16"
definition verify_nullfail :: script_flags where "verify_nullfail = 32"
definition flags_mandatory :: script_flags where
  "flags_mandatory = verify_minimal_data OR verify_minimal_if OR verify_nullfail"
definition flags_standard :: script_flags where
  "flags_standard = flags_mandatory OR verify_discourage_upgradable_nops OR
     verify_discourage_upgradable_witness_program"

definition flags_contains :: "script_flags \<Rightarrow> script_flags \<Rightarrow> bool" where
  "flags_contains flags other \<longleftrightarrow> flags AND other = other"

section \<open>Parsing\<close>

record instruction =
  ins_opcode :: byte
  ins_data :: "bytes option"
  ins_start :: nat
  ins_end :: nat

definition script_read_u8 :: "bytes \<Rightarrow> nat \<Rightarrow> script_error + byte \<times> nat" where
  "script_read_u8 script offset =
     bind_res (ok_or (get script offset) (BadOpcode op_pushdata1)) (\<lambda>v. Inr (v, offset + 1))"

definition read_le_field :: "byte \<Rightarrow> nat \<Rightarrow> bytes \<Rightarrow> nat \<Rightarrow> script_error + bytes \<times> nat" where
  "read_le_field opcode n script offset =
     (case checked_add_usize offset n of
        Some e \<Rightarrow> if e \<le> length script then Inr (slice_of offset e script, e) else Inl (BadOpcode opcode)
      | None \<Rightarrow> Inl (BadOpcode opcode))"

definition script_read_u16 :: "bytes \<Rightarrow> nat \<Rightarrow> script_error + u16 \<times> nat" where
  "script_read_u16 script offset =
     bind_res (read_le_field op_pushdata2 2 script offset) (\<lambda>(bs, e). Inr (u16_of_le bs, e))"

definition script_read_u32 :: "bytes \<Rightarrow> nat \<Rightarrow> script_error + u32 \<times> nat" where
  "script_read_u32 script offset =
     bind_res (read_le_field op_pushdata4 4 script offset) (\<lambda>(bs, e). Inr (u32_of_le bs, e))"

text \<open>The length of the data an opcode pushes, read after the opcode, and the new offset.\<close>

definition push_length :: "bytes \<Rightarrow> byte \<Rightarrow> nat \<Rightarrow> script_error + nat option \<times> nat" where
  "push_length script opcode offset =
     (if 1 \<le> opcode \<and> opcode \<le> 0x4b then Inr (Some (unat opcode), offset)
      else if opcode = op_pushdata1 then
        bind_res (script_read_u8 script offset) (\<lambda>(v, e). Inr (Some (unat v), e))
      else if opcode = op_pushdata2 then
        bind_res (script_read_u16 script offset) (\<lambda>(v, e). Inr (Some (unat v), e))
      else if opcode = op_pushdata4 then
        bind_res (script_read_u32 script offset) (\<lambda>(v, e). Inr (Some (unat v), e))
      else Inr (None, offset))"

definition parse_instruction :: "bytes \<Rightarrow> nat \<Rightarrow> script_error + instruction" where
  "parse_instruction script start =
     (let opcode = script ! start in
      bind_res (push_length script opcode (start + 1)) (\<lambda>(data_len, offset).
      case data_len of
        None \<Rightarrow> Inr \<lparr>ins_opcode = opcode, ins_data = None, ins_start = start, ins_end = offset\<rparr>
      | Some n \<Rightarrow>
          (case checked_add_usize offset n of
             Some e \<Rightarrow>
               if e \<le> length script
               then Inr \<lparr>ins_opcode = opcode, ins_data = Some (slice_of offset e script),
                         ins_start = start, ins_end = e\<rparr>
               else Inl (BadOpcode opcode)
           | None \<Rightarrow> Inl (BadOpcode opcode))))"

lemma push_length_le:
  assumes "push_length script opcode offset = Inr (n, e)"
  shows "offset \<le> e"
  using assms
  by (auto simp: push_length_def bind_res_eq_Inr script_read_u8_def script_read_u16_def script_read_u32_def
      read_le_field_def checked_add_usize_def split: if_splits option.splits)

lemma parse_instruction_progress:
  assumes "parse_instruction script start = Inr ins"
  shows "ins_start ins = start" "start < ins_end ins"
proof -
  obtain n e where len: "push_length script (script ! start) (start + 1) = Inr (n, e)"
    using assms by (auto simp: parse_instruction_def Let_def bind_res_eq_Inr simp del: One_nat_def)
  from push_length_le [OF len] have e: "start < e" by simp
  have "parse_instruction script start =
      (case n of None \<Rightarrow> Inr \<lparr>ins_opcode = script ! start, ins_data = None, ins_start = start, ins_end = e\<rparr>
       | Some n \<Rightarrow> (case checked_add_usize e n of
             Some e' \<Rightarrow> if e' \<le> length script
               then Inr \<lparr>ins_opcode = script ! start, ins_data = Some (slice_of e e' script), ins_start = start, ins_end = e'\<rparr>
               else Inl (BadOpcode (script ! start))
           | None \<Rightarrow> Inl (BadOpcode (script ! start))))"
    unfolding parse_instruction_def Let_def len by simp
  with assms e show "ins_start ins = start" "start < ins_end ins"
    by (auto simp: checked_add_usize_def split: option.splits if_splits)
qed

function parse_loop :: "bytes \<Rightarrow> nat \<Rightarrow> script_error + instruction list" where
  "parse_loop script offset =
     (if offset < length script then
        bind_res (parse_instruction script offset) (\<lambda>ins.
        bind_res (parse_loop script (ins_end ins)) (\<lambda>rest. Inr (ins # rest)))
      else Inr [])"
  by pat_completeness auto

termination
  by (relation "measure (\<lambda>(script, offset). length script - offset)")
    (auto dest: parse_instruction_progress)

declare parse_loop.simps [simp del]

definition parse_script :: "bytes \<Rightarrow> script_error + instruction list" where
  "parse_script script =
     (if length script > max_script_size then Inl ScriptSize else parse_loop script 0)"

section \<open>Counting signature operations\<close>

text \<open>The scan of \<^verbatim>\<open>count_script_sigops\<close>: \<open>None\<close> is the break out of its loop.\<close>

definition scan_length :: "bytes \<Rightarrow> byte \<Rightarrow> nat \<Rightarrow> (nat option \<times> nat) option" where
  "scan_length script opcode offset =
     (if 1 \<le> opcode \<and> opcode \<le> 0x4b then Some (Some (unat opcode), offset)
      else if opcode = op_pushdata1 then
        (case get script offset of None \<Rightarrow> None | Some v \<Rightarrow> Some (Some (unat v), offset + 1))
      else if opcode = op_pushdata2 then
        (case get_range script offset (saturating_add_usize offset 2) of
           None \<Rightarrow> None
         | Some bs \<Rightarrow> if length bs = 2 then Some (Some (unat (u16_of_le bs)), offset + 2) else None)
      else if opcode = op_pushdata4 then
        (case get_range script offset (saturating_add_usize offset 4) of
           None \<Rightarrow> None
         | Some bs \<Rightarrow> if length bs = 4 then Some (Some (unat (u32_of_le bs)), offset + 4) else None)
      else Some (None, offset))"

definition scan_step :: "bytes \<Rightarrow> nat \<Rightarrow> nat option" where
  "scan_step script offset =
     (case scan_length script (script ! offset) (offset + 1) of
        None \<Rightarrow> None
      | Some (None, e) \<Rightarrow> Some e
      | Some (Some n, e) \<Rightarrow>
          (case checked_add_usize e n of
             None \<Rightarrow> None | Some e' \<Rightarrow> if e' > length script then None else Some e'))"

definition opcode_sigops :: "byte option \<Rightarrow> byte \<Rightarrow> u32" where
  "opcode_sigops last_opcode opcode =
     (if opcode = op_checksig \<or> opcode = op_checksigverify then 1
      else if opcode = op_checkmultisig \<or> opcode = op_checkmultisigverify then
        (case last_opcode of
           Some l \<Rightarrow> if op_1 \<le> l \<and> l \<le> op_16 then ucast (l - 0x50) else word_of_nat max_multisig_pubkeys
         | None \<Rightarrow> word_of_nat max_multisig_pubkeys)
      else 0)"

lemma scan_step_progress: "scan_step script offset = Some e \<Longrightarrow> offset < e"
  by (auto simp: scan_step_def scan_length_def checked_add_usize_def split: option.splits if_splits prod.splits)

function sigops_loop :: "bytes \<Rightarrow> nat \<Rightarrow> byte option \<Rightarrow> u32 \<Rightarrow> u32" where
  "sigops_loop script offset last_opcode tally =
     (if offset < length script then
        (case scan_step script offset of
           None \<Rightarrow> tally
         | Some e \<Rightarrow>
             sigops_loop script e (Some (script ! offset))
               (saturating_add tally (opcode_sigops last_opcode (script ! offset))))
      else tally)"
  by pat_completeness auto

termination
  by (relation "measure (\<lambda>(script, offset, _). length script - offset)")
    (auto dest: scan_step_progress)

declare sigops_loop.simps [simp del]

definition count_script_sigops :: "bytes \<Rightarrow> u32" where
  "count_script_sigops script = sigops_loop script 0 None 0"

definition witness_program_sigops :: "address \<Rightarrow> bytes list \<Rightarrow> u32" where
  "witness_program_sigops a witness =
     (if addr_version a \<noteq> 0 then 0
      else if length (addr_hash a) = 20 then 1
      else if length (addr_hash a) = 32
      then (if witness = [] then 0 else count_script_sigops (last witness))
      else 0)"

definition transaction_sigops :: "transaction \<Rightarrow> coin list \<Rightarrow> script_error + u32" where
  "transaction_sigops tx coins =
     (if is_coinbase tx then Inr 0
      else if length (tx_inputs tx) \<noteq> length coins
      then Inl (InputCoinCount (length (tx_inputs tx)) (length coins))
      else
        fold_res (\<lambda>(i, c) tally.
          if in_previous_output i \<noteq> coin_outpoint c then Inl InputCoinMismatch
          else Inr (saturating_add tally (witness_program_sigops (coin_address c) (in_witness i))))
          (zip (tx_inputs tx) coins) 0)"

end
