(* ===== verification/Interpreter.thy ===== *)
theory Interpreter
  imports Script
begin

text \<open>
  The second part of \<^verbatim>\<open>crates/hns-script/src/interpreter.rs\<close>: script numbers, signature checks, the
  instruction semantics, the execution loop and witness programs.
\<close>

section \<open>Script numbers\<close>

definition i64_checked :: "int \<Rightarrow> int option" where
  "i64_checked v = (if - (2 ^ 63) \<le> v \<and> v < 2 ^ 63 then Some v else None)"

definition is_minimal_script_number :: "bytes \<Rightarrow> bool" where
  "is_minimal_script_number bs \<longleftrightarrow>
     bs = [] \<or> \<not> (last bs AND 0x7f = 0 \<and> (length bs = 1 \<or> (bs ! (length bs - 2)) AND 0x80 = 0))"

definition magnitude_of :: "bytes \<Rightarrow> u64" where
  "magnitude_of bs = fold (\<lambda>(index, b) m. m OR push_bit (8 * index) (ucast b)) (enumerate 0 bs) 0"

definition decode_script_number :: "bytes \<Rightarrow> bool \<Rightarrow> nat \<Rightarrow> script_error + int" where
  "decode_script_number bs require_minimal maximum_size =
     (if length bs > maximum_size then Inl NumericOverflow
      else if require_minimal \<and> \<not> is_minimal_script_number bs then Inl NonMinimalNumber
      else if bs = [] then Inr 0
      else
        let magnitude = magnitude_of bs;
            sign_bit = push_bit (length bs * 8 - 1) 1;
            negative = (magnitude AND sign_bit \<noteq> 0);
            magnitude = magnitude AND NOT sign_bit
        in if unat magnitude < 2 ^ 63
           then Inr (if negative then - int (unat magnitude) else int (unat magnitude))
           else Inl NumericOverflow)"

fun magnitude_bytes :: "nat \<Rightarrow> bytes" where
  "magnitude_bytes m = (if m = 0 then [] else word_of_nat m # magnitude_bytes (m div 256))"

declare magnitude_bytes.simps [simp del]

definition encode_script_number :: "int \<Rightarrow> bytes" where
  "encode_script_number v =
     (if v = 0 then []
      else
        let negative = v < 0; bs = magnitude_bytes (nat \<bar>v\<bar>) in
        if bs \<noteq> [] \<and> last bs AND 0x80 \<noteq> 0 then bs @ [if negative then 0x80 else 0]
        else if negative \<and> bs \<noteq> [] then butlast bs @ [last bs OR 0x80]
        else bs)"

fun cast_bool_loop :: "nat \<Rightarrow> nat \<Rightarrow> bytes \<Rightarrow> bool" where
  "cast_bool_loop n index [] = False"
| "cast_bool_loop n index (b # bs) =
     (if b = 0 then cast_bool_loop n (index + 1) bs
      else if index = n - 1 \<and> b = 0x80 then False
      else True)"

definition cast_to_bool :: "bytes \<Rightarrow> bool" where
  "cast_to_bool bs = cast_bool_loop (length bs) 0 bs"

section \<open>Stacks\<close>

type_synonym script_stack = "bytes list"

definition pop_item :: "script_stack \<Rightarrow> script_error + bytes \<times> script_stack" where
  "pop_item stack = (if stack = [] then Inl InvalidStackOperation else Inr (last stack, butlast stack))"

definition push_bool :: "bool \<Rightarrow> script_stack \<Rightarrow> script_stack" where
  "push_bool v stack = stack @ [if v then [1] else []]"

definition require_stack :: "script_stack \<Rightarrow> nat \<Rightarrow> script_error + unit" where
  "require_stack stack count = (if length stack < count then Inl InvalidStackOperation else Inr ())"

definition remove_at :: "nat \<Rightarrow> 'a list \<Rightarrow> 'a list" where
  "remove_at i xs = take i xs @ drop (Suc i) xs"

definition insert_at :: "nat \<Rightarrow> 'a \<Rightarrow> 'a list \<Rightarrow> 'a list" where
  "insert_at i x xs = take i xs @ x # drop i xs"

definition swap_at :: "nat \<Rightarrow> nat \<Rightarrow> 'a list \<Rightarrow> 'a list" where
  "swap_at i j xs = xs[i := xs ! j, j := xs ! i]"

definition duplicate_tail :: "nat \<Rightarrow> script_stack \<Rightarrow> script_error + script_stack" where
  "duplicate_tail count stack =
     bind_res (require_stack stack count) (\<lambda>_. Inr (stack @ drop (length stack - count) stack))"

definition enforce_stack_limit :: "script_stack \<Rightarrow> script_stack \<Rightarrow> script_error + unit" where
  "enforce_stack_limit stack alt =
     (if saturating_add_usize (length stack) (length alt) > max_script_stack then Inl StackSize else Inr ())"

section \<open>Context and state\<close>

text \<open>Functions of other crates: the hash functions, and the pluggable signature verifier.\<close>

record script_env =
  se_blake2b_160 :: "bytes \<Rightarrow> bytes"
  se_blake2b_256 :: "bytes \<Rightarrow> bytes"
  se_sha3_256 :: "bytes \<Rightarrow> bytes"
  se_keccak256 :: "bytes \<Rightarrow> bytes"
  se_ripemd160 :: "bytes \<Rightarrow> bytes"
  se_sha1 :: "bytes \<Rightarrow> bytes"
  se_sha256 :: "bytes \<Rightarrow> bytes"
  se_validate_signature :: "bytes \<Rightarrow> script_error + unit"
  se_verify_signature :: "bytes \<Rightarrow> bytes \<Rightarrow> bytes \<Rightarrow> script_error + bool"

text \<open>The arguments of \<^verbatim>\<open>execute_script\<close> that do not change.\<close>

record script_context =
  sc_env :: script_env
  sc_script :: bytes
  sc_transaction :: transaction
  sc_input_index :: nat
  sc_previous_value :: u64
  sc_flags :: script_flags

record exec_state =
  ex_stack :: script_stack
  ex_alt_stack :: script_stack
  ex_conditions :: "bool list"
  ex_operation_count :: nat
  ex_last_separator :: nat

definition minimal_numbers :: "script_flags \<Rightarrow> bool" where
  "minimal_numbers flags = flags_contains flags verify_minimal_data"

definition pop_number :: "script_flags \<Rightarrow> script_stack \<Rightarrow> script_error + int \<times> script_stack" where
  "pop_number flags stack =
     bind_res (pop_item stack) (\<lambda>(item, stack).
     bind_res (decode_script_number item (minimal_numbers flags) 4) (\<lambda>v. Inr (v, stack)))"

definition decode_top_number :: "script_flags \<Rightarrow> script_stack \<Rightarrow> nat \<Rightarrow> script_error + int" where
  "decode_top_number flags stack maximum_size =
     (if stack = [] then Inl InvalidStackOperation
      else decode_script_number (last stack) (minimal_numbers flags) maximum_size)"

section \<open>Signatures\<close>

definition check_signature :: "script_context \<Rightarrow> bytes \<Rightarrow> bytes \<Rightarrow> bytes \<Rightarrow> script_error + bool" where
  "check_signature ctx subscript signature public_key =
     bind_res
       (if signature = [] then Inr None
        else if length signature \<noteq> 65 \<or> \<not> is_valid_signature_hash_type (signature ! 64)
        then Inl SignatureEncoding
        else bind_res (se_validate_signature (sc_env ctx) (take 64 signature))
               (\<lambda>_. Inr (Some (take 64 signature)))) (\<lambda>compact.
     if length public_key \<noteq> 33 then Inl PublicKeyEncoding
     else if \<not> (public_key ! 0 = 2 \<or> public_key ! 0 = 3) then Inl PublicKeyEncoding
     else case compact of
       None \<Rightarrow> Inr False
     | Some compact \<Rightarrow>
         bind_res (signature_hash (se_blake2b_256 (sc_env ctx)) (sc_transaction ctx) (sc_input_index ctx)
           subscript (sc_previous_value ctx) (ucast (signature ! 64))) (\<lambda>message.
         se_verify_signature (sc_env ctx) message compact public_key))"

text \<open>The matching loop: both lists are consumed from the end, and a key is used at most once.\<close>

function multisig_loop ::
  "(bytes \<Rightarrow> bytes \<Rightarrow> script_error + bool) \<Rightarrow> bytes list \<Rightarrow> bytes list \<Rightarrow> nat \<Rightarrow> nat \<Rightarrow> script_error + bool" where
  "multisig_loop check sigs keys remaining_sigs remaining_keys =
     (if remaining_sigs > 0 then
        if remaining_sigs > remaining_keys then Inr False
        else
          bind_res (check (sigs ! (remaining_sigs - 1)) (keys ! (remaining_keys - 1))) (\<lambda>ok.
          multisig_loop check sigs keys (if ok then remaining_sigs - 1 else remaining_sigs) (remaining_keys - 1))
      else Inr True)"
  by pat_completeness auto

termination
  by (relation "measure (\<lambda>(check, sigs, keys, rs, rk). rk)") auto

declare multisig_loop.simps [simp del]

definition check_multisig :: "script_context \<Rightarrow> bytes \<Rightarrow> exec_state \<Rightarrow> script_error + bool \<times> exec_state" where
  "check_multisig ctx subscript st =
     bind_res (pop_number (sc_flags ctx) (ex_stack st)) (\<lambda>(key_count, stack).
     if key_count < 0 \<or> nat key_count > max_multisig_pubkeys then Inl PublicKeyCount
     else
       let key_count = nat key_count in
       bind_res (ok_or (checked_add_usize (ex_operation_count st) key_count) OperationCount) (\<lambda>ops.
       if ops > max_script_ops then Inl OperationCount
       else
         bind_res (require_stack stack (saturating_add_usize key_count 1)) (\<lambda>_.
         let keys_start = length stack - key_count; keys = drop keys_start stack; stack = take keys_start stack in
         bind_res (pop_number (sc_flags ctx) stack) (\<lambda>(signature_count, stack).
         if signature_count < 0 \<or> nat signature_count > key_count then Inl SignatureCount
         else
           let signature_count = nat signature_count in
           bind_res (require_stack stack (saturating_add_usize signature_count 1)) (\<lambda>_.
           let sigs_start = length stack - signature_count;
               sigs = drop sigs_start stack; stack = take sigs_start stack in
           bind_res (pop_item stack) (\<lambda>(dummy, stack).
           bind_res (multisig_loop (check_signature ctx subscript) sigs keys (length sigs) (length keys)) (\<lambda>valid.
           if \<not> valid \<and> flags_contains (sc_flags ctx) verify_nullfail \<and> list_ex (\<lambda>s. s \<noteq> []) sigs
           then Inl NullFail
           else if dummy \<noteq> [] then Inl SignatureNullDummy
           else Inr (valid, st\<lparr>ex_stack := stack, ex_operation_count := ops\<rparr>))))))))"

section \<open>Instructions\<close>

definition is_disabled_opcode :: "byte \<Rightarrow> bool" where
  "is_disabled_opcode opcode \<longleftrightarrow>
     opcode \<in> {0x7e, 0x7f, 0x80, 0x81, 0x83, 0x84, 0x85, 0x86, 0x8d, 0x8e, 0x95, 0x96, 0x97, 0x98, 0x99}"

definition is_minimal_push :: "byte \<Rightarrow> bytes \<Rightarrow> bool" where
  "is_minimal_push opcode data =
     (if data = [] then opcode = op_0
      else if length data = 1 \<and> 1 \<le> data ! 0 \<and> data ! 0 \<le> 16 then opcode = op_1 + data ! 0 - 1
      else if data = [0x81] then opcode = op_1negate
      else if length data \<le> 75 then opcode = word_of_nat (length data)
      else if length data \<le> 255 then opcode = op_pushdata1
      else if length data \<le> 65535 then opcode = op_pushdata2
      else opcode = op_pushdata4)"

definition push_item :: "bytes \<Rightarrow> exec_state \<Rightarrow> exec_state" where
  "push_item item st = st\<lparr>ex_stack := ex_stack st @ [item]\<rparr>"

definition exec_constant :: "script_context \<Rightarrow> byte \<Rightarrow> exec_state \<Rightarrow> script_error + exec_state" where
  "exec_constant ctx opcode st =
     (if opcode = op_0 then Inr (push_item [] st)
      else if opcode = op_1negate then Inr (push_item (encode_script_number (- 1)) st)
      else if op_1 \<le> opcode \<and> opcode \<le> op_16
      then Inr (push_item (encode_script_number (int (unat (opcode - op_1 + 1)))) st)
      else if opcode = op_type then
        Inr (push_item (encode_script_number
          (case get (tx_outputs (sc_transaction ctx)) (sc_input_index ctx) of
             Some out \<Rightarrow> int (unat (kind_as_u8 (cov_kind (out_covenant out)))) | None \<Rightarrow> 0)) st)
      else Inr st)"

definition exec_locktime ::
  "(transaction \<Rightarrow> nat \<Rightarrow> u32 \<Rightarrow> bool) \<Rightarrow> script_context \<Rightarrow> exec_state \<Rightarrow> script_error + exec_state" where
  "exec_locktime holds ctx st =
     bind_res (decode_top_number (sc_flags ctx) (ex_stack st) 5) (\<lambda>v.
     if v < 0 then Inl NegativeLocktime
     else if v \<ge> 2 ^ 32 then Inl UnsatisfiedLocktime
     else if \<not> holds (sc_transaction ctx) (sc_input_index ctx) (word_of_int v) then Inl UnsatisfiedLocktime
     else Inr st)"

definition exec_if :: "script_context \<Rightarrow> byte \<Rightarrow> exec_state \<Rightarrow> script_error + exec_state" where
  "exec_if ctx opcode st =
     (if list_all (\<lambda>c. c) (ex_conditions st) then
        if ex_stack st = [] then Inl UnbalancedConditional
        else
          let item = last (ex_stack st) in
          if flags_contains (sc_flags ctx) verify_minimal_if \<and> \<not> (item = [] \<or> item = [1]) then Inl MinimalIf
          else
            let v = cast_to_bool item; v = (if opcode = op_notif then \<not> v else v)
            in Inr (st\<lparr>ex_stack := butlast (ex_stack st), ex_conditions := ex_conditions st @ [v]\<rparr>)
      else Inr (st\<lparr>ex_conditions := ex_conditions st @ [False]\<rparr>))"

definition exec_flow :: "script_context \<Rightarrow> byte \<Rightarrow> exec_state \<Rightarrow> script_error + exec_state" where
  "exec_flow ctx opcode st =
     (if opcode = op_if \<or> opcode = op_notif then exec_if ctx opcode st
      else if opcode = op_else then
        (if ex_conditions st = [] then Inl UnbalancedConditional
         else Inr (st\<lparr>ex_conditions := butlast (ex_conditions st) @ [\<not> last (ex_conditions st)]\<rparr>))
      else if opcode = op_endif then
        (if ex_conditions st = [] then Inl UnbalancedConditional
         else Inr (st\<lparr>ex_conditions := butlast (ex_conditions st)\<rparr>))
      else if opcode = op_verify then
        bind_res (pop_item (ex_stack st)) (\<lambda>(item, stack).
        if \<not> cast_to_bool item then Inl VerifyFailed else Inr (st\<lparr>ex_stack := stack\<rparr>))
      else Inl OpReturn)"

definition exec_pick_roll :: "script_context \<Rightarrow> byte \<Rightarrow> script_stack \<Rightarrow> script_error + script_stack" where
  "exec_pick_roll ctx opcode stack =
     bind_res (pop_number (sc_flags ctx) stack) (\<lambda>(depth, stack).
     if depth < 0 \<or> nat depth \<ge> length stack then Inl InvalidStackOperation
     else
       let index = length stack - 1 - nat depth; item = stack ! index
       in Inr ((if opcode = op_roll then remove_at index stack else stack) @ [item]))"

text \<open>The opcodes that only rearrange the main stack.\<close>

definition exec_stack :: "script_context \<Rightarrow> byte \<Rightarrow> script_stack \<Rightarrow> script_error + script_stack" where
  "exec_stack ctx opcode stack =
     (let len = length stack in
      if opcode = op_2drop then bind_res (require_stack stack 2) (\<lambda>_. Inr (take (len - 2) stack))
      else if opcode = op_2dup then duplicate_tail 2 stack
      else if opcode = op_3dup then duplicate_tail 3 stack
      else if opcode = op_2over then
        bind_res (require_stack stack 4) (\<lambda>_. Inr (stack @ slice_of (len - 4) (len - 2) stack))
      else if opcode = op_2rot then
        bind_res (require_stack stack 6) (\<lambda>_.
          let first = stack ! (len - 6); stack = remove_at (len - 6) stack;
              second = stack ! (len - 6); stack = remove_at (len - 6) stack
          in Inr (stack @ [first, second]))
      else if opcode = op_2swap then
        bind_res (require_stack stack 4) (\<lambda>_.
          Inr (swap_at (len - 3) (len - 1) (swap_at (len - 4) (len - 2) stack)))
      else if opcode = op_ifdup then
        (if stack = [] then Inl InvalidStackOperation
         else Inr (if cast_to_bool (last stack) then stack @ [last stack] else stack))
      else if opcode = op_depth then Inr (stack @ [encode_script_number (int len)])
      else if opcode = op_drop then bind_res (pop_item stack) (\<lambda>(_, stack). Inr stack)
      else if opcode = op_dup then duplicate_tail 1 stack
      else if opcode = op_nip then bind_res (require_stack stack 2) (\<lambda>_. Inr (remove_at (len - 2) stack))
      else if opcode = op_over then bind_res (require_stack stack 2) (\<lambda>_. Inr (stack @ [stack ! (len - 2)]))
      else if opcode = op_pick \<or> opcode = op_roll then exec_pick_roll ctx opcode stack
      else if opcode = op_rot then
        bind_res (require_stack stack 3) (\<lambda>_. Inr (remove_at (len - 3) stack @ [stack ! (len - 3)]))
      else if opcode = op_swap then
        bind_res (require_stack stack 2) (\<lambda>_. Inr (swap_at (len - 2) (len - 1) stack))
      else if opcode = op_tuck then
        bind_res (require_stack stack 2) (\<lambda>_. Inr (insert_at (len - 2) (stack ! (len - 1)) stack))
      else
        if stack = [] then Inl InvalidStackOperation
        else Inr (stack @ [encode_script_number (int (length (last stack)))]))"

definition exec_alt :: "byte \<Rightarrow> exec_state \<Rightarrow> script_error + exec_state" where
  "exec_alt opcode st =
     (if opcode = op_toaltstack then
        bind_res (pop_item (ex_stack st)) (\<lambda>(item, stack).
          Inr (st\<lparr>ex_stack := stack, ex_alt_stack := ex_alt_stack st @ [item]\<rparr>))
      else if ex_alt_stack st = [] then Inl InvalidAltStackOperation
      else Inr (st\<lparr>ex_stack := ex_stack st @ [last (ex_alt_stack st)],
                   ex_alt_stack := butlast (ex_alt_stack st)\<rparr>))"

definition exec_equal :: "byte \<Rightarrow> script_stack \<Rightarrow> script_error + script_stack" where
  "exec_equal opcode stack =
     bind_res (require_stack stack 2) (\<lambda>_.
     bind_res (pop_item stack) (\<lambda>(right, stack).
     bind_res (pop_item stack) (\<lambda>(left, stack).
     if opcode = op_equalverify then (if left \<noteq> right then Inl EqualVerify else Inr stack)
     else Inr (push_bool (left = right) stack))))"

definition unary_result :: "byte \<Rightarrow> int \<Rightarrow> int option" where
  "unary_result opcode v =
     (if opcode = op_1add then i64_checked (v + 1)
      else if opcode = op_1sub then i64_checked (v - 1)
      else if opcode = op_negate then i64_checked (- v)
      else if opcode = op_abs then i64_checked \<bar>v\<bar>
      else if opcode = op_not then Some (of_bool (v = 0))
      else Some (of_bool (v \<noteq> 0)))"

definition exec_unary :: "script_context \<Rightarrow> byte \<Rightarrow> script_stack \<Rightarrow> script_error + script_stack" where
  "exec_unary ctx opcode stack =
     bind_res (pop_number (sc_flags ctx) stack) (\<lambda>(v, stack).
     bind_res (ok_or (unary_result opcode v) NumericOverflow) (\<lambda>r.
       Inr (stack @ [encode_script_number r])))"

definition binary_result :: "byte \<Rightarrow> int \<Rightarrow> int \<Rightarrow> script_error + int" where
  "binary_result opcode left right =
     (if opcode = op_add then ok_or (i64_checked (left + right)) NumericOverflow
      else if opcode = op_sub then ok_or (i64_checked (left - right)) NumericOverflow
      else if opcode = op_booland then Inr (of_bool (left \<noteq> 0 \<and> right \<noteq> 0))
      else if opcode = op_boolor then Inr (of_bool (left \<noteq> 0 \<or> right \<noteq> 0))
      else if opcode = op_numequal \<or> opcode = op_numequalverify then Inr (of_bool (left = right))
      else if opcode = op_numnotequal then Inr (of_bool (left \<noteq> right))
      else if opcode = op_lessthan then Inr (of_bool (left < right))
      else if opcode = op_greaterthan then Inr (of_bool (left > right))
      else if opcode = op_lessthanorequal then Inr (of_bool (left \<le> right))
      else if opcode = op_greaterthanorequal then Inr (of_bool (left \<ge> right))
      else if opcode = op_min then Inr (min left right)
      else Inr (max left right))"

definition exec_binary :: "script_context \<Rightarrow> byte \<Rightarrow> script_stack \<Rightarrow> script_error + script_stack" where
  "exec_binary ctx opcode stack =
     bind_res (require_stack stack 2) (\<lambda>_.
     bind_res (pop_number (sc_flags ctx) stack) (\<lambda>(right, stack).
     bind_res (pop_number (sc_flags ctx) stack) (\<lambda>(left, stack).
     bind_res (binary_result opcode left right) (\<lambda>r.
     if opcode = op_numequalverify then (if r = 0 then Inl NumEqualVerify else Inr stack)
     else Inr (stack @ [encode_script_number r])))))"

definition exec_within :: "script_context \<Rightarrow> script_stack \<Rightarrow> script_error + script_stack" where
  "exec_within ctx stack =
     bind_res (require_stack stack 3) (\<lambda>_.
     bind_res (pop_number (sc_flags ctx) stack) (\<lambda>(maximum, stack).
     bind_res (pop_number (sc_flags ctx) stack) (\<lambda>(minimum, stack).
     bind_res (pop_number (sc_flags ctx) stack) (\<lambda>(v, stack).
       Inr (push_bool (minimum \<le> v \<and> v < maximum) stack)))))"

definition script_digest :: "script_env \<Rightarrow> byte \<Rightarrow> bytes \<Rightarrow> bytes" where
  "script_digest env opcode item =
     (if opcode = op_blake160 then se_blake2b_160 env item
      else if opcode = op_blake256 then se_blake2b_256 env item
      else if opcode = op_sha3 then se_sha3_256 env item
      else if opcode = op_keccak then se_keccak256 env item
      else if opcode = op_ripemd160 then se_ripemd160 env item
      else if opcode = op_sha1 then se_sha1 env item
      else if opcode = op_sha256 then se_sha256 env item
      else if opcode = op_hash160 then se_ripemd160 env (se_sha256 env item)
      else se_sha256 env (se_sha256 env item))"

definition exec_hash :: "script_context \<Rightarrow> byte \<Rightarrow> script_stack \<Rightarrow> script_error + script_stack" where
  "exec_hash ctx opcode stack =
     bind_res (pop_item stack) (\<lambda>(item, stack). Inr (stack @ [script_digest (sc_env ctx) opcode item]))"

definition exec_checksig :: "script_context \<Rightarrow> byte \<Rightarrow> exec_state \<Rightarrow> script_error + exec_state" where
  "exec_checksig ctx opcode st =
     bind_res (require_stack (ex_stack st) 2) (\<lambda>_.
     bind_res (pop_item (ex_stack st)) (\<lambda>(public_key, stack).
     bind_res (pop_item stack) (\<lambda>(signature, stack).
     bind_res (check_signature ctx (drop (ex_last_separator st) (sc_script ctx)) signature public_key) (\<lambda>valid.
     if \<not> valid \<and> flags_contains (sc_flags ctx) verify_nullfail \<and> signature \<noteq> [] then Inl NullFail
     else if opcode = op_checksigverify
     then (if \<not> valid then Inl CheckSigVerify else Inr (st\<lparr>ex_stack := stack\<rparr>))
     else Inr (st\<lparr>ex_stack := push_bool valid stack\<rparr>)))))"

definition exec_checkmultisig :: "script_context \<Rightarrow> byte \<Rightarrow> exec_state \<Rightarrow> script_error + exec_state" where
  "exec_checkmultisig ctx opcode st =
     bind_res (check_multisig ctx (drop (ex_last_separator st) (sc_script ctx)) st) (\<lambda>(valid, st).
     if opcode = op_checkmultisigverify then (if \<not> valid then Inl CheckMultiSigVerify else Inr st)
     else Inr (st\<lparr>ex_stack := push_bool valid (ex_stack st)\<rparr>))"

definition on_stack ::
  "(script_stack \<Rightarrow> script_error + script_stack) \<Rightarrow> exec_state \<Rightarrow> script_error + exec_state" where
  "on_stack f st = bind_res (f (ex_stack st)) (\<lambda>stack. Inr (st\<lparr>ex_stack := stack\<rparr>))"

definition exec_opcode :: "script_context \<Rightarrow> instruction \<Rightarrow> exec_state \<Rightarrow> script_error + exec_state" where
  "exec_opcode ctx ins st =
     (let opcode = ins_opcode ins in
      if opcode = op_0 \<or> opcode = op_1negate \<or> op_1 \<le> opcode \<and> opcode \<le> op_16 \<or> opcode = op_nop \<or> opcode = op_type
      then exec_constant ctx opcode st
      else if opcode = op_checklocktimeverify then exec_locktime verify_locktime_predicate ctx st
      else if opcode = op_checksequenceverify then exec_locktime verify_sequence_predicate ctx st
      else if opcode = op_nop1 \<or> op_nop4 \<le> opcode \<and> opcode \<le> op_nop10
      then (if flags_contains (sc_flags ctx) verify_discourage_upgradable_nops
            then Inl DiscourageUpgradableNops else Inr st)
      else if opcode \<in> {op_if, op_notif, op_else, op_endif, op_verify, op_return} then exec_flow ctx opcode st
      else if opcode \<in> {op_toaltstack, op_fromaltstack} then exec_alt opcode st
      else if opcode \<in> {op_2drop, op_2dup, op_3dup, op_2over, op_2rot, op_2swap, op_ifdup, op_depth, op_drop,
          op_dup, op_nip, op_over, op_pick, op_roll, op_rot, op_swap, op_tuck, op_size}
      then on_stack (exec_stack ctx opcode) st
      else if opcode \<in> {op_equal, op_equalverify} then on_stack (exec_equal opcode) st
      else if opcode \<in> {op_1add, op_1sub, op_negate, op_abs, op_not, op_0notequal}
      then on_stack (exec_unary ctx opcode) st
      else if opcode \<in> {op_add, op_sub, op_booland, op_boolor, op_numequal, op_numequalverify, op_numnotequal,
          op_lessthan, op_greaterthan, op_lessthanorequal, op_greaterthanorequal, op_min, op_max}
      then on_stack (exec_binary ctx opcode) st
      else if opcode = op_within then on_stack (exec_within ctx) st
      else if opcode \<in> {op_blake160, op_blake256, op_sha3, op_keccak, op_ripemd160, op_sha1, op_sha256,
          op_hash160, op_hash256}
      then on_stack (exec_hash ctx opcode) st
      else if opcode = op_codeseparator then Inr (st\<lparr>ex_last_separator := ins_end ins\<rparr>)
      else if opcode \<in> {op_checksig, op_checksigverify} then exec_checksig ctx opcode st
      else if opcode \<in> {op_checkmultisig, op_checkmultisigverify} then exec_checkmultisig ctx opcode st
      else Inl (BadOpcode opcode))"

section \<open>Execution\<close>

definition limit_state :: "exec_state \<Rightarrow> script_error + exec_state" where
  "limit_state st = bind_res (enforce_stack_limit (ex_stack st) (ex_alt_stack st)) (\<lambda>_. Inr st)"

definition count_operation :: "byte \<Rightarrow> exec_state \<Rightarrow> script_error + exec_state" where
  "count_operation opcode st =
     (if opcode > op_16 then
        bind_res (ok_or (checked_add_usize (ex_operation_count st) 1) OperationCount) (\<lambda>n.
        if n > max_script_ops then Inl OperationCount else Inr (st\<lparr>ex_operation_count := n\<rparr>))
      else Inr st)"

definition exec_step :: "script_context \<Rightarrow> instruction \<Rightarrow> exec_state \<Rightarrow> script_error + exec_state" where
  "exec_step ctx ins st =
     (if (case ins_data ins of Some data \<Rightarrow> length data > max_script_push | None \<Rightarrow> False) then Inl PushSize
      else
        bind_res (count_operation (ins_opcode ins) st) (\<lambda>st.
        if is_disabled_opcode (ins_opcode ins) then Inl (DisabledOpcode (ins_opcode ins))
        else
          let executing = list_all (\<lambda>c. c) (ex_conditions st);
              is_branch = (op_if \<le> ins_opcode ins \<and> ins_opcode ins \<le> op_endif) in
          if \<not> executing \<and> \<not> is_branch then limit_state st
          else case ins_data ins of
            Some data \<Rightarrow>
              if flags_contains (sc_flags ctx) verify_minimal_data \<and> \<not> is_minimal_push (ins_opcode ins) data
              then Inl MinimalData
              else limit_state (push_item data st)
          | None \<Rightarrow> bind_res (exec_opcode ctx ins st) limit_state))"

definition exec_initial :: "script_stack \<Rightarrow> exec_state" where
  "exec_initial stack = \<lparr>ex_stack = stack, ex_alt_stack = [], ex_conditions = [], ex_operation_count = 0,
     ex_last_separator = 0\<rparr>"

definition execute_script :: "script_context \<Rightarrow> script_stack \<Rightarrow> script_error + script_stack" where
  "execute_script ctx stack =
     (if get (tx_inputs (sc_transaction ctx)) (sc_input_index ctx) = None
      then Inl (InputIndex (sc_input_index ctx) (length (tx_inputs (sc_transaction ctx))))
      else if length stack > max_script_stack then Inl StackSize
      else if list_ex (\<lambda>item. length item > max_script_push) stack then Inl PushSize
      else
        bind_res (parse_script (sc_script ctx)) (\<lambda>instructions.
        bind_res (fold_res (exec_step ctx) instructions (exec_initial stack)) (\<lambda>st.
        if ex_conditions st \<noteq> [] then Inl UnbalancedConditional else Inr (ex_stack st))))"

definition pubkey_hash_script :: "bytes \<Rightarrow> bytes" where
  "pubkey_hash_script hash = [op_dup, op_blake160, 20] @ hash @ [op_equalverify, op_checksig]"

definition witness_redeem ::
  "script_env \<Rightarrow> address \<Rightarrow> script_stack \<Rightarrow> script_error + bytes \<times> script_stack" where
  "witness_redeem env a stack =
     (if length (addr_hash a) = 32 then
        if stack = [] then Inl WitnessProgramWitnessEmpty
        else
          let witness_script = last stack in
          if length witness_script > max_script_size then Inl ScriptSize
          else if se_sha3_256 env witness_script \<noteq> addr_hash a then Inl WitnessProgramMismatch
          else Inr (witness_script, butlast stack)
      else if length (addr_hash a) = 20 then
        if length stack \<noteq> 2 then Inl WitnessProgramMismatch
        else Inr (pubkey_hash_script (addr_hash a), stack)
      else Inl WitnessProgramWrongLength)"

definition verify_witness_program ::
  "script_env \<Rightarrow> transaction \<Rightarrow> nat \<Rightarrow> coin \<Rightarrow> script_flags \<Rightarrow> script_error + unit" where
  "verify_witness_program env tx input_index c flags =
     bind_res (ok_or (get (tx_inputs tx) input_index) (InputIndex input_index (length (tx_inputs tx)))) (\<lambda>i.
     if in_previous_output i \<noteq> coin_outpoint c then Inl InputCoinMismatch
     else if addr_version (coin_address c) = 31 then Inl OpReturn
     else if length (in_witness i) > max_script_stack then Inl StackSize
     else if addr_version (coin_address c) = 0 then
       bind_res (witness_redeem env (coin_address c) (in_witness i)) (\<lambda>(redeem, stack).
       bind_res (execute_script
         \<lparr>sc_env = env, sc_script = redeem, sc_transaction = tx, sc_input_index = input_index,
          sc_previous_value = coin_value c, sc_flags = flags\<rparr> stack) (\<lambda>stack.
       if length stack \<noteq> 1 \<or> \<not> cast_to_bool (stack ! 0) then Inl EvalFalse else Inr ()))
     else if flags_contains flags verify_discourage_upgradable_witness_program
     then Inl DiscourageUpgradableWitnessProgram
     else Inr ())"

end
