(* ===== verification/ScriptNumber.thy ===== *)
theory ScriptNumber
  imports Interpreter
begin

text \<open>
  Script numbers of \<^verbatim>\<open>crates/hns-script/src/interpreter.rs\<close>: what a byte string denotes, that the word
  arithmetic of the decoder computes it, and that minimal encodings are unique.
\<close>

section \<open>The magnitude\<close>

lemma unat_ucast_byte64: "unat (ucast (b::byte) :: u64) = unat b"
  by (simp add: ucast_le_iff)

lemma magnitude_step:
  fixes m :: u64
  assumes "k < 8" "unat m < 256 ^ k"
  shows "unat (m OR push_bit (8 * k) (ucast (b::byte))) = unat m + 256 ^ k * unat b"
proof -
  have p: "(2::nat) ^ (8 * k) = 256 ^ k" by (simp add: power_mult)
  have "unat b * 2 ^ (8 * k) < 2 ^ 64"
  proof -
    have "unat b * 2 ^ (8 * k) < 2 ^ 8 * 2 ^ (8 * k)" using unat_byte_less [of b] by simp
    also have "\<dots> = (2::nat) ^ (8 + 8 * k)" by (simp add: power_add)
    also have "\<dots> \<le> 2 ^ 64" using assms(1) by (intro power_increasing) auto
    finally show ?thesis .
  qed
  then have "unat (push_bit (8 * k) (ucast b :: u64)) = unat b * 2 ^ (8 * k)"
    using unat_push_bit_small [of "ucast b :: u64" "8 * k"] by (simp add: unat_ucast_byte64)
  then have "unat (m OR push_bit (8 * k) (ucast b)) = push_bit (8 * k) (unat b) OR unat m"
    by (simp add: unsigned_or_eq push_bit_eq_mult or.commute)
  also have "\<dots> = unat b * 2 ^ (8 * k) + unat m"
    using assms(2) p by (intro nat_or_push_bit) simp
  finally show ?thesis unfolding p by simp
qed

lemma magnitude_fold:
  assumes "k + length bs \<le> 8" "unat (m::u64) < 256 ^ k"
  shows "unat (fold (\<lambda>(index, b) m. m OR push_bit (8 * index) (ucast b)) (enumerate k bs) m) =
    unat m + 256 ^ k * le_nat bs"
  using assms
proof (induction bs arbitrary: k m)
  case (Cons b bs)
  note s = magnitude_step [of k m b]
  have "unat m + 256 ^ k * unat b < 256 ^ Suc k"
  proof -
    have "unat b \<le> 255" using unat_byte_less [of b] by simp
    then have "256 ^ k * unat b \<le> 256 ^ k * 255" by simp
    with Cons.prems(2) have "unat m + 256 ^ k * unat b < 256 ^ k + 256 ^ k * 255" by (rule add_less_le_mono)
    then show ?thesis by simp
  qed
  then show ?case
    using Cons.IH [of "Suc k" "m OR push_bit (8 * k) (ucast b)"] Cons.prems s by (simp add: algebra_simps)
qed simp

lemma unat_magnitude: "length bs \<le> 8 \<Longrightarrow> unat (magnitude_of bs) = le_nat bs"
  unfolding magnitude_of_def using magnitude_fold [of 0 bs 0] by simp

lemma and_not_bit:
  fixes w :: u64
  assumes "n < 64" "unat w < 2 ^ Suc n"
  shows "unat (w AND NOT (push_bit n 1)) = unat w mod 2 ^ n"
proof -
  have "unat (take_bit (Suc n) w) = unat w" using assms(2) by (simp add: unsigned_take_bit_eq take_bit_nat_eq_self)
  then have w: "take_bit (Suc n) w = w" by (simp only: word_unat_eq_iff)
  have "w AND NOT (push_bit n 1) = take_bit n w"
  proof (rule bit_word_eqI)
    fix k assume k: "k < LENGTH(64)"
    have "bit w k \<Longrightarrow> k < Suc n" using w by (metis bit_take_bit_iff)
    then show "bit (w AND NOT (push_bit n 1)) k = bit (take_bit n w) k"
      using k by (auto simp: bit_simps less_Suc_eq)
  qed
  then show ?thesis by (simp only: unsigned_take_bit_eq) (simp add: take_bit_eq_mod)
qed

text \<open>The value of a script number: sign and magnitude, little endian, the sign in the top bit.\<close>

definition script_value :: "bytes \<Rightarrow> int" where
  "script_value bs = (if bs = [] then 0
     else let m = le_nat (butlast bs) + 256 ^ (length bs - 1) * (unat (last bs) mod 128)
          in if 128 \<le> unat (last bs) then - int m else int m)"

lemma byte_split: "unat (b::byte) = 128 * (unat b div 128) + unat b mod 128" "unat b div 128 \<le> 1"
  using unat_byte_less [of b] by simp_all

lemma decode_script_number_value:
  assumes "length bs \<le> 8"
  shows "decode_script_number bs req k =
    (if length bs > k then Inl NumericOverflow
     else if req \<and> \<not> is_minimal_script_number bs then Inl NonMinimalNumber
     else Inr (script_value bs))"
proof (cases "bs = []")
  case True
  then show ?thesis by (simp add: decode_script_number_def script_value_def)
next
  case False
  define xs b where "xs = butlast bs" and "b = last bs"
  have bs: "bs = xs @ [b]" using False by (simp add: xs_def b_def)
  let ?n = "length xs" and ?N = "8 * length bs - 1"
  have N: "?N < 64" "?N = 8 * ?n + 7" using assms bs by simp_all
  have p: "(2::nat) ^ ?N = 128 * 256 ^ ?n" unfolding N(2) by (simp add: power_add power_mult)
  have x: "le_nat xs < 256 ^ ?n" by (rule le_nat_less)
  let ?M = "unat (magnitude_of bs)"
  have M: "?M = le_nat xs + 256 ^ ?n * unat b" using unat_magnitude [OF assms] bs by (simp add: le_nat_append)
  have "(2::nat) ^ Suc ?N = 256 ^ length bs" unfolding power_Suc p by (simp add: bs)
  then have bound: "?M < 2 ^ Suc ?N"
    using unat_magnitude [OF assms] le_nat_less [of bs] by (simp only:)
  let ?low = "le_nat xs + 256 ^ ?n * (unat b mod 128)"
  have low: "?low < 128 * 256 ^ ?n"
  proof -
    have "unat b mod 128 \<le> 127" by simp
    then have "256 ^ ?n * (unat b mod 128) \<le> 256 ^ ?n * 127" by simp
    with x have "?low < 256 ^ ?n + 256 ^ ?n * 127" by (rule add_less_le_mono)
    then show ?thesis by simp
  qed
  have split: "?M = (128 * 256 ^ ?n) * (unat b div 128) + ?low"
    unfolding M by (subst byte_split(1) [of b]) (simp only: distrib_left mult_ac add_ac)
  then have dm: "?M div 2 ^ ?N = unat b div 128" "?M mod 2 ^ ?N = ?low"
    using low unfolding p by simp_all
  have "odd (unat b div 128) \<longleftrightarrow> 128 \<le> unat b"
    using unat_byte_less [of b] by (auto simp: odd_iff_mod_2_eq_one)
  then have neg: "magnitude_of bs AND push_bit ?N 1 \<noteq> 0 \<longleftrightarrow> 128 \<le> unat b"
    using word_and_bit [of ?N "magnitude_of bs"] N(1) dm(1) by simp
  have mag: "unat (magnitude_of bs AND NOT (push_bit ?N 1)) = ?low"
    using and_not_bit [OF N(1) bound] dm(2) by simp
  have "?low < 2 ^ 63"
  proof -
    have "?low < 2 ^ ?N" using low p by simp
    also have "\<dots> \<le> 2 ^ 63" using N(1) by (intro power_increasing) auto
    finally show ?thesis .
  qed
  moreover have e: "length bs * 8 - 1 = ?N" by simp
  moreover have "script_value bs = (if 128 \<le> unat b then - int ?low else int ?low)"
    by (simp add: script_value_def bs)
  ultimately show ?thesis
    using False neg mag unfolding decode_script_number_def Let_def e by simp
qed

section \<open>Encoding\<close>

lemma magnitude_bytes_0 [simp]: "magnitude_bytes 0 = []"
  by (simp add: magnitude_bytes.simps)

lemma le_nat_magnitude_bytes [simp]: "le_nat (magnitude_bytes m) = m"
proof (induction m rule: magnitude_bytes.induct)
  case (1 m)
  then show ?case
    by (subst magnitude_bytes.simps) (auto simp: unsigned_of_nat take_bit_eq_mod)
qed

lemma last_magnitude_bytes: "0 < m \<Longrightarrow> magnitude_bytes m \<noteq> [] \<and> last (magnitude_bytes m) \<noteq> 0"
proof (induction m rule: magnitude_bytes.induct)
  case (1 m)
  show ?case
  proof (cases "m div 256 = 0")
    case True
    then have "m < 256" by simp
    then have "unat (word_of_nat m :: byte) = m" by (simp add: unsigned_of_nat take_bit_eq_mod)
    then have "(word_of_nat m :: byte) \<noteq> 0" using 1(2) by (metis unat_0 less_irrefl)
    then show ?thesis using 1(2) True by (subst (1 2) magnitude_bytes.simps) simp
  next
    case False
    then show ?thesis using 1 by (subst (1 2) magnitude_bytes.simps) simp
  qed
qed

lemma magnitude_bytes_le_nat: "xs = [] \<or> last xs \<noteq> 0 \<Longrightarrow> magnitude_bytes (le_nat xs) = xs"
proof (induction xs)
  case (Cons b xs)
  have b: "unat b < 256" by (rule unat_byte_less)
  have pos: "0 < le_nat (b # xs)"
  proof (cases "xs = []")
    case True
    then show ?thesis using Cons.prems by (simp add: unat_gt_0)
  next
    case False
    then have "magnitude_bytes (le_nat xs) = xs" using Cons by simp
    then have "le_nat xs \<noteq> 0" using False by (metis magnitude_bytes_0)
    then show ?thesis by simp
  qed
  have "unat (word_of_nat (unat b + 256 * le_nat xs) :: byte) = unat b"
    unfolding unsigned_of_nat using b by (simp add: take_bit_eq_mod)
  then have "word_of_nat (unat b + 256 * le_nat xs) = b" by (simp only: word_unat_eq_iff)
  moreover have "(unat b + 256 * le_nat xs) div 256 = le_nat xs" using b by simp
  moreover have "magnitude_bytes (le_nat xs) = xs" using Cons by (cases xs) simp_all
  ultimately show ?case using pos by (subst magnitude_bytes.simps) simp
qed simp

lemma le_nat_pos: "xs \<noteq> [] \<Longrightarrow> last xs \<noteq> 0 \<Longrightarrow> 0 < le_nat xs"
  by (metis magnitude_bytes_le_nat magnitude_bytes_0 gr0I)

text \<open>The two parts of the last byte.\<close>

lemma byte_sign: "(b::byte) AND 0x80 = 0 \<longleftrightarrow> unat b < 128"
proof -
  have "b AND 2 ^ 7 \<noteq> 0 \<longleftrightarrow> odd (unat b div 2 ^ 7)" by (rule word_and_bit) simp
  moreover have "odd (unat b div 128) \<longleftrightarrow> 128 \<le> unat b"
    using unat_byte_less [of b] by (auto simp: odd_iff_mod_2_eq_one)
  ultimately show ?thesis by auto
qed

lemma unat_and_7f: "unat ((b::byte) AND 0x7f) = unat b mod 128"
proof -
  have "b AND mask 7 = take_bit 7 b" by (simp add: take_bit_eq_mask)
  then have "unat (b AND mask 7) = take_bit 7 (unat b)" by (simp only: unsigned_take_bit_eq)
  then show ?thesis by (simp add: mask_eq_exp_minus_1 take_bit_eq_mod)
qed

lemma unat_or_80:
  assumes "unat (b::byte) < 128"
  shows "unat (b OR 0x80) = unat b + 128"
proof -
  have "unat (b OR 0x80) = push_bit 7 1 OR unat b" by (simp add: unsigned_or_eq or.commute)
  also have "\<dots> = 1 * 2 ^ 7 + unat b" using assms by (intro nat_or_push_bit) simp
  finally show ?thesis by simp
qed

lemma is_minimal_snoc:
  "is_minimal_script_number (xs @ [b]) \<longleftrightarrow> unat b mod 128 \<noteq> 0 \<or> xs \<noteq> [] \<and> 128 \<le> unat (last xs)"
proof -
  have z: "b AND 0x7f = 0 \<longleftrightarrow> unat b mod 128 = 0"
    unfolding unat_and_7f [symmetric] by (simp add: unat_eq_zero)
  have "xs \<noteq> [] \<Longrightarrow> (xs @ [b]) ! (length (xs @ [b]) - 2) = last xs"
    by (simp add: nth_append last_conv_nth)
  then show ?thesis
    unfolding is_minimal_script_number_def using z by (cases "xs = []") (simp_all add: byte_sign not_less)
qed

lemma script_value_snoc:
  "script_value (xs @ [b]) =
    (let m = int (le_nat xs + 256 ^ length xs * (unat b mod 128)) in if 128 \<le> unat b then - m else m)"
  by (simp add: script_value_def Let_def)

lemma script_value_encode:
  "script_value (encode_script_number v) = v \<and> is_minimal_script_number (encode_script_number v)"
proof (cases "v = 0")
  case True
  then show ?thesis by (simp add: encode_script_number_def script_value_def is_minimal_script_number_def)
next
  case False
  define m where "m = nat \<bar>v\<bar>"
  have "0 < m" using False by (simp add: m_def)
  then obtain xs b where ms: "magnitude_bytes m = xs @ [b]" and b: "b \<noteq> 0"
    using last_magnitude_bytes by (metis append_butlast_last_id)
  have m: "m = le_nat xs + 256 ^ length xs * unat b"
    using arg_cong [OF ms, of le_nat] by (simp add: le_nat_append)
  have v: "v = (if v < 0 then - int m else int m)" by (simp add: m_def)
  have b0: "unat b \<noteq> 0" using b by (simp add: unat_eq_zero)
  show ?thesis
  proof (cases "unat b < 128")
    case True
    have "encode_script_number v = xs @ [if v < 0 then b OR 0x80 else b]"
      using False True ms by (simp add: encode_script_number_def Let_def m_def [symmetric] byte_sign)
    then show ?thesis using True b0 v m
      by (simp add: script_value_snoc is_minimal_snoc unat_or_80 Let_def split: if_splits)
  next
    case neg: False
    have "encode_script_number v = (xs @ [b]) @ [if v < 0 then 0x80 else 0]"
      using False neg ms by (simp add: encode_script_number_def Let_def m_def [symmetric] byte_sign)
    then show ?thesis using neg v m
      by (simp only: script_value_snoc is_minimal_snoc) (simp add: Let_def le_nat_append split: if_splits)
  qed
qed

lemma mod_sub: "128 \<le> n \<Longrightarrow> n < 256 \<Longrightarrow> n mod 128 + 128 = (n::nat)"
  by (simp add: le_mod_geq)

lemma encode_script_value:
  assumes "is_minimal_script_number bs"
  shows "encode_script_number (script_value bs) = bs"
proof (cases "bs = []")
  case True
  then show ?thesis by (simp add: encode_script_number_def script_value_def)
next
  case False
  then obtain xs b where bs: "bs = xs @ [b]" by (metis append_butlast_last_id)
  have b: "unat b < 256" by (rule unat_byte_less)
  show ?thesis
  proof (cases "unat b mod 128 = 0")
    case True
    then have xs: "xs \<noteq> []" "128 \<le> unat (last xs)" using assms bs by (simp_all add: is_minimal_snoc)
    then have l: "last xs \<noteq> 0" by auto
    note pos = le_nat_pos [OF xs(1) l]
    have bb: "b = (if 128 \<le> unat b then 0x80 else 0)"
    proof -
      have "unat b = (if 128 \<le> unat b then 128 else 0)" using True b by presburger
      then show ?thesis by (simp add: word_unat_eq_iff split: if_splits)
    qed
    have val: "script_value bs = (if 128 \<le> unat b then - int (le_nat xs) else int (le_nat xs))"
      using True by (simp add: bs script_value_snoc)
    have "magnitude_bytes (nat \<bar>script_value bs\<bar>) = xs" using val xs l by (simp add: magnitude_bytes_le_nat)
    then show ?thesis using val pos xs bb
      by (auto simp: encode_script_number_def Let_def byte_sign bs split: if_splits)
  next
    case nz: False
    let ?c = "b AND 0x7f"
    have c: "unat ?c = unat b mod 128" by (rule unat_and_7f)
    then have c0: "?c \<noteq> 0" using nz by (metis unat_0)
    have "le_nat (xs @ [?c]) = le_nat xs + 256 ^ length xs * (unat b mod 128)" by (simp add: le_nat_append c)
    then have val: "script_value bs = (if 128 \<le> unat b then - int (le_nat (xs @ [?c])) else int (le_nat (xs @ [?c])))"
      by (simp add: bs script_value_snoc Let_def)
    have pos: "0 < le_nat (xs @ [?c])" using c0 by (intro le_nat_pos) simp_all
    have "magnitude_bytes (nat \<bar>script_value bs\<bar>) = xs @ [?c]"
      using val c0 by (simp add: magnitude_bytes_le_nat)
    moreover have "?c AND 0x80 = 0" unfolding byte_sign c by simp
    moreover have "128 \<le> unat b \<Longrightarrow> ?c OR 0x80 = b"
      using b unat_or_80 [of ?c] c mod_sub [of "unat b"] by (simp add: word_unat_eq_iff)
    moreover have "unat b < 128 \<Longrightarrow> ?c = b" using c by (simp add: word_unat_eq_iff)
    ultimately show ?thesis using val pos
      by (auto simp: encode_script_number_def Let_def bs split: if_splits)
  qed
qed

text \<open>How long the encoding is.\<close>

lemma abs_script_value_snoc:
  "\<bar>script_value (xs @ [b])\<bar> = int (le_nat xs + 256 ^ length xs * (unat b mod 128))"
  unfolding script_value_snoc Let_def by (simp only: abs_minus_cancel abs_of_nat if_cancel split: if_split) simp

lemma script_value_less: "length bs \<le> k \<Longrightarrow> 0 < k \<Longrightarrow> \<bar>script_value bs\<bar> < 128 * 256 ^ (k - 1)"
proof (cases "bs = []")
  case False
  assume k: "length bs \<le> k"
  obtain xs b where bs: "bs = xs @ [b]" using False by (metis append_butlast_last_id)
  have "unat b mod 128 \<le> 127" by simp
  then have "256 ^ length xs * (unat b mod 128) \<le> 256 ^ length xs * 127" by simp
  with le_nat_less [of xs]
  have "le_nat xs + 256 ^ length xs * (unat b mod 128) < 256 ^ length xs + 256 ^ length xs * 127"
    by (rule add_less_le_mono)
  also have "\<dots> = 128 * 256 ^ length xs" by simp
  also have "\<dots> \<le> 128 * 256 ^ (k - 1)" using k bs by (simp add: power_increasing)
  finally have "int (le_nat xs + 256 ^ length xs * (unat b mod 128)) < int (128 * 256 ^ (k - 1))"
    by (simp only: of_nat_less_iff)
  then show ?thesis unfolding bs abs_script_value_snoc by simp
qed (simp add: script_value_def)

lemma script_value_ge:
  assumes "is_minimal_script_number bs" "2 \<le> length bs"
  shows "128 * 256 ^ (length bs - 2) \<le> \<bar>script_value bs\<bar>"
proof -
  obtain xs b where bs: "bs = xs @ [b]" using assms(2) by (cases bs rule: rev_cases) auto
  then obtain ys a where xs: "xs = ys @ [a]" using assms(2) by (cases xs rule: rev_cases) auto
  let ?m = "le_nat xs + 256 ^ length xs * (unat b mod 128)"
  have "128 * 256 ^ length ys \<le> ?m"
  proof (cases "unat b mod 128 = 0")
    case True
    then have "128 \<le> unat a" using assms(1) xs unfolding bs is_minimal_snoc by simp
    then have "128 * 256 ^ length ys \<le> unat a * 256 ^ length ys" by (rule mult_le_mono1)
    also have "\<dots> \<le> le_nat xs" by (simp add: xs le_nat_append)
    finally show ?thesis by simp
  next
    case False
    then have "256 ^ length xs * 1 \<le> 256 ^ length xs * (unat b mod 128)" by (intro mult_le_mono2) simp
    moreover have "128 * 256 ^ length ys \<le> (256::nat) ^ length xs * 1" by (simp add: xs)
    ultimately show ?thesis by linarith
  qed
  then have "int (128 * 256 ^ length ys) \<le> int ?m" by (simp only: of_nat_le_iff)
  then show ?thesis using xs unfolding bs abs_script_value_snoc by simp
qed

lemma length_encode_script_number:
  assumes "0 < k"
  shows "length (encode_script_number v) \<le> k \<longleftrightarrow> \<bar>v\<bar> < 128 * 256 ^ (k - 1)"
proof -
  let ?e = "encode_script_number v"
  have e: "script_value ?e = v" "is_minimal_script_number ?e" using script_value_encode by auto
  have "\<bar>v\<bar> < 128 * 256 ^ (k - 1) \<Longrightarrow> length ?e \<le> k"
  proof (rule ccontr)
    assume v: "\<bar>v\<bar> < 128 * 256 ^ (k - 1)" and "\<not> length ?e \<le> k"
    then have n: "2 \<le> length ?e" "k - 1 \<le> length ?e - 2" using assms by simp_all
    have "(128::int) * 256 ^ (k - 1) \<le> 128 * 256 ^ (length ?e - 2)" using n by (simp add: power_increasing)
    also have "\<dots> \<le> \<bar>v\<bar>" using script_value_ge [OF e(2) n(1)] e(1) by simp
    finally show False using v by simp
  qed
  moreover have "length ?e \<le> k \<Longrightarrow> \<bar>v\<bar> < 128 * 256 ^ (k - 1)"
    using script_value_less [of ?e k] assms e(1) by simp
  ultimately show ?thesis by blast
qed

text \<open>
  Script numbers.  With minimal encodings required and a size limit of up to eight bytes, decoding
  accepts a byte string exactly when it is the encoding of the number returned and fits the limit; and a
  number fits a limit of \<^term>\<open>k\<close> bytes exactly when its magnitude needs at most \<open>8 k - 1\<close> bits.
  Without the minimality requirement every string within the limit denotes a number, and re-encoding it
  gives back the string exactly when it was minimal.
\<close>

theorem script_number_exact:
  assumes "0 < k" "k \<le> 8"
  shows "(decode_script_number bs True k = Inr v \<longleftrightarrow> bs = encode_script_number v \<and> \<bar>v\<bar> < 2 ^ (8 * k - 1)) \<and>
    (length bs \<le> k \<longrightarrow> (\<exists>w. decode_script_number bs False k = Inr w \<and>
       (encode_script_number w = bs \<longleftrightarrow> is_minimal_script_number bs))) \<and>
    (length bs > k \<longrightarrow> (\<forall>m. decode_script_number bs m k = Inl NumericOverflow))"
proof -
  have "8 * k - 1 = 7 + 8 * (k - 1)" using assms(1) by simp
  then have p: "(2::int) ^ (8 * k - 1) = 128 * 256 ^ (k - 1)" by (simp add: power_add power_mult)
  note len = length_encode_script_number [OF assms(1), of v]
  show ?thesis
  proof (cases "length bs \<le> k")
    case True
    then have "length bs \<le> 8" using assms(2) by simp
    note d = decode_script_number_value [OF this]
    have "is_minimal_script_number bs \<and> script_value bs = v \<longleftrightarrow> bs = encode_script_number v"
      using script_value_encode [of v] encode_script_value [of bs] by auto
    moreover have "encode_script_number (script_value bs) = bs \<longleftrightarrow> is_minimal_script_number bs"
      using script_value_encode [of "script_value bs"] encode_script_value [of bs] by auto
    ultimately show ?thesis using True len unfolding d p by auto
  next
    case False
    then show ?thesis using len unfolding decode_script_number_def p by auto
  qed
qed

theorem script_number_exact_witness:
  "decode_script_number [0x39, 0x85] True 4 = Inr (- 1337)"
proof -
  have "[0x39, 0x85] = encode_script_number (- 1337)" by code_simp
  then show ?thesis using script_number_exact [of 4 "[0x39, 0x85]" "- 1337"] by simp
qed

end
