(* ===== verification/ScriptRun.thy ===== *)
theory ScriptRun
  imports ScriptNumber
begin

text \<open>
  Properties of the script parser, the signature-operation counter, the multisignature matcher and the
  execution loop of \<^verbatim>\<open>crates/hns-script/src/interpreter.rs\<close>.
\<close>

section \<open>Parsing\<close>

text \<open>
  The written form of an instruction: the opcode, the length field of a \<^verbatim>\<open>PUSHDATA\<close>, the data.
\<close>

definition is_push_opcode :: "byte \<Rightarrow> bool" where
  "is_push_opcode opcode \<longleftrightarrow> 1 \<le> opcode \<and> opcode \<le> op_pushdata4"

definition push_width :: "byte \<Rightarrow> nat" where
  "push_width opcode =
     (if opcode = op_pushdata1 then 1 else if opcode = op_pushdata2 then 2
      else if opcode = op_pushdata4 then 4 else 0)"

definition push_count :: "byte \<Rightarrow> bytes \<Rightarrow> nat" where
  "push_count opcode field = (if push_width opcode = 0 then unat opcode else le_nat field)"

definition instruction_bytes :: "instruction \<Rightarrow> bytes" where
  "instruction_bytes ins =
     ins_opcode ins #
     (case ins_data ins of
        None \<Rightarrow> []
      | Some d \<Rightarrow> le_bytes (push_width (ins_opcode ins)) (length d) @ d)"

text \<open>An instruction that can be written: a push has data of a length its opcode can announce.\<close>

definition instruction_ok :: "instruction \<Rightarrow> bool" where
  "instruction_ok ins =
     (case ins_data ins of
        None \<Rightarrow> \<not> is_push_opcode (ins_opcode ins)
      | Some d \<Rightarrow> is_push_opcode (ins_opcode ins) \<and>
          (if push_width (ins_opcode ins) = 0 then length d = unat (ins_opcode ins)
           else length d < 256 ^ push_width (ins_opcode ins)))"

text \<open>Instructions that cover a byte string from an offset on, without gaps.\<close>

fun script_layout :: "nat \<Rightarrow> instruction list \<Rightarrow> bytes \<Rightarrow> bool" where
  "script_layout offset [] bs \<longleftrightarrow> bs = []"
| "script_layout offset (ins # rest) bs \<longleftrightarrow>
     instruction_ok ins \<and> ins_start ins = offset \<and> ins_end ins = offset + length (instruction_bytes ins) \<and>
     take (length (instruction_bytes ins)) bs = instruction_bytes ins \<and>
     script_layout (ins_end ins) rest (drop (length (instruction_bytes ins)) bs)"

lemma is_push_cases:
  "is_push_opcode op \<longleftrightarrow>
    1 \<le> op \<and> op \<le> 0x4b \<or> op = op_pushdata1 \<or> op = op_pushdata2 \<or> op = op_pushdata4"
  by (auto simp: is_push_opcode_def opcodes word_le_nat_alt word_unat_eq_iff)

lemma read_le_field_append:
  assumes "length xs + n \<le> usize_max"
  shows "read_le_field op n (xs @ ys) (length xs) =
    (if n \<le> length ys then Inr (take n ys, length xs + n) else Inl (BadOpcode op))"
  using assms by (simp add: read_le_field_def checked_add_usize_def slice_append)

text \<open>Both readers of a push length see the same field.\<close>

lemma push_length_append:
  assumes "length xs + 4 \<le> usize_max"
  shows "push_length (xs @ ys) op (length xs) =
    (if \<not> is_push_opcode op then Inr (None, length xs)
     else if push_width op \<le> length ys
     then Inr (Some (push_count op (take (push_width op) ys)), length xs + push_width op)
     else Inl (BadOpcode op))"
proof -
  consider "1 \<le> op \<and> op \<le> 0x4b" | "op = op_pushdata1" | "op = op_pushdata2" | "op = op_pushdata4"
    | "\<not> is_push_opcode op" by (auto simp: is_push_cases)
  then show ?thesis
  proof cases
    case 1
    then have "push_width op = 0"
      by (auto simp: push_width_def opcodes word_le_nat_alt)
    then show ?thesis using 1 by (simp add: push_length_def is_push_cases push_count_def)
  next
    case 2
    have "\<not> (1 \<le> op \<and> op \<le> 0x4b)" "push_width op = 1"
      by (auto simp: 2 opcodes push_width_def word_le_nat_alt)
    then show ?thesis using 2
      by (cases ys) (simp_all add: push_length_def is_push_cases push_count_def script_read_u8_def get_def ok_or_def
          nth_append)
  next
    case 3
    have "\<not> (1 \<le> op \<and> op \<le> 0x4b)" "push_width op = 2" "op \<noteq> op_pushdata1"
      by (auto simp: 3 opcodes push_width_def word_le_nat_alt)
    then show ?thesis using 3 assms
      by (simp add: push_length_def is_push_cases push_count_def script_read_u16_def read_le_field_append
          unat_int_of_bytes)
  next
    case 4
    have "\<not> (1 \<le> op \<and> op \<le> 0x4b)" "push_width op = 4" "op \<noteq> op_pushdata1" "op \<noteq> op_pushdata2"
      by (auto simp: 4 opcodes push_width_def word_le_nat_alt)
    then show ?thesis using 4 assms
      by (simp add: push_length_def is_push_cases push_count_def script_read_u32_def read_le_field_append
          unat_int_of_bytes)
  next
    case 5
    then show ?thesis by (simp add: push_length_def is_push_cases)
  qed
qed

lemma scan_length_eq:
  assumes "offset + 4 \<le> usize_max"
  shows "scan_length script op offset =
    (case push_length script op offset of Inr v \<Rightarrow> Some v | Inl _ \<Rightarrow> None)"
proof -
  have g: "get_range script offset (saturating_add_usize offset n) =
      (if offset + n \<le> length script then Some (slice_of offset (offset + n) script) else None)"
    if "n \<le> 4" for n
    using assms that by (simp add: get_range_def saturating_add_usize_def)
  show ?thesis
    unfolding scan_length_def push_length_def
    using assms g [of 2] g [of 4]
    by (auto simp: script_read_u8_def script_read_u16_def script_read_u32_def read_le_field_def
        checked_add_usize_def ok_or_def split: option.splits)
qed

lemma push_count_less: "push_count op (take (push_width op) ys) < 2 ^ 32"
proof -
  have "le_nat (take (push_width op) ys) < 256 ^ length (take (push_width op) ys)" by (rule le_nat_less)
  also have "\<dots> \<le> 256 ^ 4" by (rule power_increasing) (auto simp: push_width_def)
  finally show ?thesis using unat_byte_less [of op] by (simp add: push_count_def)
qed

lemma parse_instruction_append:
  assumes "length xs + length ys < 2 ^ 32"
  shows "parse_instruction (xs @ op # ys) (length xs) =
    (if \<not> is_push_opcode op
     then Inr \<lparr>ins_opcode = op, ins_data = None, ins_start = length xs, ins_end = length xs + 1\<rparr>
     else let w = push_width op; n = push_count op (take w ys) in
       if w + n \<le> length ys
       then Inr \<lparr>ins_opcode = op, ins_data = Some (take n (drop w ys)), ins_start = length xs,
                 ins_end = length xs + 1 + w + n\<rparr>
       else Inl (BadOpcode op))"
proof -
  let ?w = "push_width op" and ?n = "push_count op (take (push_width op) ys)"
  have u: "length (xs @ [op]) + 4 \<le> usize_max" "length xs + 1 + ?w + ?n \<le> usize_max"
    using assms push_count_less [of op ys] by (auto simp: usize_max_def push_width_def)
  have "slice_of (length xs + 1 + ?w) (length xs + 1 + ?w + ?n) (xs @ op # ys) = take ?n (drop ?w ys)"
    by (simp add: slice_of_def)
  then show ?thesis
    using u push_length_append [of "xs @ [op]" ys op]
    by (auto simp: parse_instruction_def Let_def checked_add_usize_def)
qed

lemma take_written:
  assumes "push_width op \<noteq> 0 \<Longrightarrow> n < 256 ^ push_width op" "n = length d"
  shows "take (push_width op + n) ys = le_bytes (push_width op) n @ d \<longleftrightarrow>
    push_width op + n \<le> length ys \<and> (push_width op \<noteq> 0 \<longrightarrow> le_nat (take (push_width op) ys) = n) \<and>
    d = take n (drop (push_width op) ys)"
    (is "?l \<longleftrightarrow> ?r")
proof
  assume l: ?l
  then have len: "push_width op + n \<le> length ys" using assms(2) by (metis length_append length_le_bytes length_take min.absorb_iff2)
  from l have "take (push_width op) ys @ take n (drop (push_width op) ys) = le_bytes (push_width op) n @ d"
    by (simp add: take_add)
  then have "take (push_width op) ys = le_bytes (push_width op) n" "d = take n (drop (push_width op) ys)"
    using len by (auto simp: append_eq_append_conv)
  then show ?r using len assms(1) by (auto simp: le_nat_le_bytes)
next
  assume r: ?r
  then have "take (push_width op) ys = le_bytes (push_width op) n"
    using le_bytes_le_nat [of "take (push_width op) ys"] by (cases "push_width op = 0") auto
  then show ?l using r by (simp add: take_add)
qed

lemma parse_instruction_exact:
  assumes "length xs + length ys < 2 ^ 32"
  shows "parse_instruction (xs @ op # ys) (length xs) = Inr ins \<longleftrightarrow>
    instruction_ok ins \<and> ins_start ins = length xs \<and> ins_end ins = length xs + length (instruction_bytes ins) \<and>
    take (length (instruction_bytes ins)) (op # ys) = instruction_bytes ins"
proof (cases ins)
  case (fields op' d' s' e')
  show ?thesis
  proof (cases d')
    case None
    then show ?thesis unfolding parse_instruction_append [OF assms]
      by (auto simp: fields instruction_ok_def instruction_bytes_def Let_def)
  next
    case (Some d)
    show ?thesis
    proof (cases "op' = op \<and> is_push_opcode op")
      case False
      then show ?thesis unfolding parse_instruction_append [OF assms]
        by (auto simp: fields Some instruction_ok_def instruction_bytes_def Let_def)
    next
      case True
      let ?w = "push_width op"
      have "parse_instruction (xs @ op # ys) (length xs) = Inr ins \<longleftrightarrow>
          ?w + length d \<le> length ys \<and> length d = push_count op (take ?w ys) \<and> d = take (length d) (drop ?w ys) \<and>
          s' = length xs \<and> e' = length xs + 1 + ?w + length d"
        unfolding parse_instruction_append [OF assms] using True by (auto simp: fields Some Let_def)
      moreover have "length (instruction_bytes ins) = 1 + ?w + length d"
        using True by (simp add: fields Some instruction_bytes_def)
      moreover have "take (1 + ?w + length d) (op # ys) = instruction_bytes ins \<longleftrightarrow>
          take (?w + length d) ys = le_bytes ?w (length d) @ d"
        using True by (simp add: fields Some instruction_bytes_def)
      moreover have "instruction_ok ins \<longleftrightarrow> (if ?w = 0 then length d = unat op else length d < 256 ^ ?w)"
        using True by (simp add: fields Some instruction_ok_def)
      ultimately show ?thesis
        using take_written [of op "length d" d ys] le_nat_less [of "take ?w ys"]
        by (auto simp: fields push_count_def)
    qed
  qed
qed

lemma parse_loop_exact:
  assumes "length xs + length ys < 2 ^ 32"
  shows "parse_loop (xs @ ys) (length xs) = Inr inss \<longleftrightarrow> script_layout (length xs) inss ys"
  using assms
proof (induction inss arbitrary: xs ys)
  case Nil
  then show ?case by (subst parse_loop.simps) (auto simp: bind_res_eq_Inr)
next
  case (Cons ins rest)
  show ?case
  proof (cases ys)
    case Nil
    then show ?thesis by (subst parse_loop.simps) (simp add: instruction_bytes_def)
  next
    case (Cons op zs)
    have b: "length xs + length zs < 2 ^ 32" using Cons.prems Cons by simp
    let ?ib = "instruction_bytes ins"
    have step: "parse_loop (xs @ ys) (length xs + length ?ib) = Inr rest \<longleftrightarrow>
        script_layout (length xs + length ?ib) rest (drop (length ?ib) ys)"
      if "take (length ?ib) ys = ?ib"
    proof -
      have ys: "ys = ?ib @ drop (length ?ib) ys" using that by (metis append_take_drop_id)
      then have "length xs + length ys = length (xs @ ?ib) + length (drop (length ?ib) ys)"
        by (metis add.assoc length_append)
      with Cons.prems Cons.IH [of "xs @ ?ib" "drop (length ?ib) ys"] ys
      show ?thesis by (metis append.assoc length_append)
    qed
    have "parse_loop (xs @ ys) (length xs) = Inr (ins # rest) \<longleftrightarrow>
        parse_instruction (xs @ op # zs) (length xs) = Inr ins \<and> parse_loop (xs @ ys) (ins_end ins) = Inr rest"
      by (subst parse_loop.simps) (auto simp: bind_res_eq_Inr Cons)
    then show ?thesis
      unfolding parse_instruction_exact [OF b] using step by (auto simp: Cons [symmetric])
  qed
qed

text \<open>
  The script parser is exact.  It accepts a script exactly when the script is at most 10000 bytes
  and is the concatenation of written instructions (opcode, little-endian length field of a
  \<^verbatim>\<open>PUSHDATA\<close>, data), and it returns those instructions with the byte ranges they occupy.
\<close>

theorem parse_script_exact:
  "parse_script script = Inr inss \<longleftrightarrow> length script \<le> max_script_size \<and> script_layout 0 inss script"
  using parse_loop_exact [of "[]" script inss] by (auto simp: parse_script_def script_limits)

section \<open>Counting signature operations\<close>

definition sigop_weight :: "byte option \<Rightarrow> byte \<Rightarrow> nat" where
  "sigop_weight previous opcode =
     (if opcode = op_checksig \<or> opcode = op_checksigverify then 1
      else if opcode = op_checkmultisig \<or> opcode = op_checkmultisigverify
      then (case previous of
              Some l \<Rightarrow> if unat op_1 \<le> unat l \<and> unat l \<le> unat op_16 then unat l - 80 else 20
            | None \<Rightarrow> 20)
      else 0)"

fun sigops_of :: "byte option \<Rightarrow> instruction list \<Rightarrow> nat" where
  "sigops_of previous [] = 0"
| "sigops_of previous (ins # rest) =
     sigop_weight previous (ins_opcode ins) + sigops_of (Some (ins_opcode ins)) rest"

definition starts_with_instruction :: "bytes \<Rightarrow> bool" where
  "starts_with_instruction bs \<longleftrightarrow>
     (\<exists>ins. instruction_ok ins \<and> take (length (instruction_bytes ins)) bs = instruction_bytes ins)"

lemma opcode_sigops_weight: "unat (opcode_sigops previous op) = sigop_weight previous op"
proof -
  have "unat (ucast (l - 0x50) :: u32) = unat l - 80" if "op_1 \<le> l" for l :: byte
  proof -
    have "0x50 \<le> l" using that by (simp add: opcodes word_le_nat_alt)
    then have "unat (l - 0x50) = unat l - 80" by (simp add: unat_sub)
    moreover have "unat (ucast (l - 0x50) :: u32) = unat (l - 0x50)"
      using unat_byte_less [of "l - 0x50"] by (simp add: unsigned_ucast_eq take_bit_nat_eq_self)
    ultimately show ?thesis by simp
  qed
  then show ?thesis
    by (auto simp: opcode_sigops_def sigop_weight_def script_limits word_le_nat_alt split: option.split)
qed

lemma scan_step_eq:
  assumes "offset + 5 \<le> usize_max"
  shows "scan_step script offset =
    (case parse_instruction script offset of Inr ins \<Rightarrow> Some (ins_end ins) | Inl _ \<Rightarrow> None)"
  using assms scan_length_eq [of "offset + 1" script "script ! offset"]
  by (cases "push_length script (script ! offset) (offset + 1)")
    (auto simp: scan_step_def parse_instruction_def Let_def split: option.splits)

lemma script_layout_Cons_append:
  assumes "instruction_ok ins" "ins_start ins = n" "ins_end ins = n + length (instruction_bytes ins)"
    "script_layout (n + length (instruction_bytes ins)) inss p"
  shows "script_layout n (ins # inss) (instruction_bytes ins @ p)"
  using assms by simp

lemma instruction_bytes_moved [simp]:
  "instruction_bytes (ins\<lparr>ins_start := a, ins_end := b\<rparr>) = instruction_bytes ins"
  "instruction_ok (ins\<lparr>ins_start := a, ins_end := b\<rparr>) = instruction_ok ins"
  by (simp_all add: instruction_bytes_def instruction_ok_def cong: option.case_cong)

lemma sigops_loop_exact:
  assumes "length xs + length ys < 2 ^ 32"
  shows "\<exists>inss p rest. ys = p @ rest \<and> script_layout (length xs) inss p \<and> \<not> starts_with_instruction rest \<and>
    unat (sigops_loop (xs @ ys) (length xs) previous tally) = min (unat tally + sigops_of previous inss) (2 ^ 32 - 1)"
  using assms
proof (induction "length ys" arbitrary: xs ys previous tally rule: less_induct)
  case less
  have t: "unat tally = min (unat tally) (2 ^ 32 - 1)" using unat_less_pow [of tally] by simp
  have stop: ?case if "\<not> starts_with_instruction ys" "sigops_loop (xs @ ys) (length xs) previous tally = tally"
    using that t by (intro exI [of _ "[]"] exI [of _ ys]) simp
  show ?case
  proof (cases ys)
    case Nil
    then show ?thesis
      by (intro stop) (simp_all add: starts_with_instruction_def instruction_bytes_def sigops_loop.simps)
  next
    case (Cons op zs)
    have b: "length xs + length zs < 2 ^ 32" and u: "length xs + 5 \<le> usize_max"
      using less.prems by (simp_all add: Cons usize_max_def)
    note pe = parse_instruction_exact [OF b, of op, folded Cons]
    show ?thesis
    proof (cases "parse_instruction (xs @ ys) (length xs)")
      case (Inl e)
      have "\<not> starts_with_instruction ys"
      proof
        assume "starts_with_instruction ys"
        then obtain ins where "instruction_ok ins" "take (length (instruction_bytes ins)) ys = instruction_bytes ins"
          by (auto simp: starts_with_instruction_def)
        then have "parse_instruction (xs @ ys) (length xs) =
            Inr (ins\<lparr>ins_start := length xs, ins_end := length xs + length (instruction_bytes ins)\<rparr>)"
          unfolding pe by simp
        with Inl show False by simp
      qed
      then show ?thesis using Inl by (intro stop) (simp_all add: sigops_loop.simps scan_step_eq [OF u])
    next
      case (Inr ins)
      let ?ib = "instruction_bytes ins"
      have ins: "instruction_ok ins" "ins_start ins = length xs" "ins_end ins = length xs + length ?ib"
        "take (length ?ib) ys = ?ib" using Inr unfolding pe by auto
      define r where "r = drop (length ?ib) ys"
      have ys: "ys = ?ib @ r" using ins(4) unfolding r_def by (metis append_take_drop_id)
      have op: "op = ins_opcode ins" "ys ! 0 = op" using ys Cons by (simp_all add: instruction_bytes_def)
      have "length r < length ys" "length (xs @ ?ib) + length r < 2 ^ 32"
        using less.prems ys by (auto simp: instruction_bytes_def)
      from less.hyps [OF this, of "Some op" "saturating_add tally (opcode_sigops previous op)"]
      obtain inss p rest where IH: "r = p @ rest" "script_layout (length (xs @ ?ib)) inss p"
        "\<not> starts_with_instruction rest"
        "unat (sigops_loop ((xs @ ?ib) @ r) (length (xs @ ?ib)) (Some op)
           (saturating_add tally (opcode_sigops previous op))) =
         min (unat (saturating_add tally (opcode_sigops previous op)) + sigops_of (Some op) inss) (2 ^ 32 - 1)"
        by blast
      have step: "sigops_loop (xs @ ys) (length xs) previous tally =
          sigops_loop (xs @ ys) (length xs + length ?ib) (Some op) (saturating_add tally (opcode_sigops previous op))"
      proof -
        have "(xs @ ys) ! length xs = op" "length xs < length (xs @ ys)" by (simp_all add: Cons)
        then show ?thesis by (subst sigops_loop.simps) (simp only: scan_step_eq [OF u] Inr ins(3) if_True sum.case option.case)
      qed
      have x: "(xs @ ?ib) @ r = xs @ ys" using ys by simp
      have "unat (sigops_loop (xs @ ys) (length xs) previous tally) =
          min (unat tally + sigops_of previous (ins # inss)) (2 ^ 32 - 1)"
        using IH(4) unfolding x length_append step
        by (simp add: unat_saturating_add opcode_sigops_weight op(1) min_def)
      moreover have "script_layout (length xs) (ins # inss) (?ib @ p)"
        using script_layout_Cons_append [OF ins(1-3)] IH(2) by simp
      moreover have "ys = (?ib @ p) @ rest" using ys IH(1) by simp
      ultimately show ?thesis using IH(3) by blast
    qed
  qed
qed

text \<open>
  The signature-operation counter agrees with the parser.  The scan of
  \<^verbatim>\<open>count_script_sigops\<close> walks exactly the instructions the script is written from, up to the first
  place where no instruction starts (the end, or a truncated push), and returns their weight, capped at
  the largest 32-bit number: one for a \<^verbatim>\<open>CHECKSIG\<close>, the number pushed just before for a
  \<^verbatim>\<open>CHECKMULTISIG\<close>, and 20 when it is not known.
\<close>

theorem count_script_sigops_exact:
  assumes "length script < 2 ^ 32"
  shows "\<exists>inss p rest. script = p @ rest \<and> script_layout 0 inss p \<and> \<not> starts_with_instruction rest \<and>
    unat (count_script_sigops script) = min (sigops_of None inss) (2 ^ 32 - 1)"
  using sigops_loop_exact [of "[]" script None 0] assms by (simp add: count_script_sigops_def)

theorem count_script_sigops_exact_witness:
  "\<exists>inss p rest. [op_1 + 1, op_checkmultisig, op_checksig, op_pushdata1] = p @ rest \<and> script_layout 0 inss p \<and>
    \<not> starts_with_instruction rest \<and>
    unat (count_script_sigops [op_1 + 1, op_checkmultisig, op_checksig, op_pushdata1]) = min (sigops_of None inss) (2 ^ 32 - 1)"
  by (rule count_script_sigops_exact) simp

end
