(* ===== verification/ScriptExec.thy ===== *)
theory ScriptExec
  imports ScriptRun
begin

text \<open>
  Properties of script execution: the multisignature matcher finds a matching whenever there is one, the
  machine keeps its limits at every instruction, and a public-key-hash program accepts exactly a
  valid signature by the hashed key.
\<close>

section \<open>Multisignatures\<close>

text \<open>
  The first \<open>m\<close> signatures belong, in order, to distinct keys among the first \<open>n\<close>.
\<close>

definition signatures_match :: "(bytes \<Rightarrow> bytes \<Rightarrow> bool) \<Rightarrow> bytes list \<Rightarrow> bytes list \<Rightarrow> nat \<Rightarrow> nat \<Rightarrow> bool" where
  "signatures_match ok sigs keys m n \<longleftrightarrow>
     (\<exists>f. (\<forall>i j. i < j \<longrightarrow> j < m \<longrightarrow> f i < f j) \<and> (\<forall>i<m. f i < n \<and> ok (sigs ! i) (keys ! f i)))"

lemma signatures_match_0 [simp]: "signatures_match ok sigs keys 0 n"
  by (simp add: signatures_match_def)

lemma signatures_match_le:
  assumes "signatures_match ok sigs keys m n"
  shows "m \<le> n"
proof -
  obtain f where f: "\<And>i j. i < j \<Longrightarrow> j < m \<Longrightarrow> f i < f j" "\<And>i. i < m \<Longrightarrow> f i < n"
    using assms by (auto simp: signatures_match_def)
  have "i \<le> f i" if "i < m" for i using that
  proof (induction i)
    case (Suc i)
    then have "i \<le> f i" "f i < f (Suc i)" using f(1) [of i "Suc i"] by simp_all
    then show ?case by simp
  qed simp
  then have "k < n" if "m = Suc k" for k using f(2) [of k] that by fastforce
  then show ?thesis by (cases m) auto
qed

lemma signatures_match_use:
  assumes "ok (sigs ! m) (keys ! n)"
  shows "signatures_match ok sigs keys (Suc m) (Suc n) \<longleftrightarrow> signatures_match ok sigs keys m n"
proof
  assume "signatures_match ok sigs keys (Suc m) (Suc n)"
  then obtain f where f: "\<And>i j. i < j \<Longrightarrow> j < Suc m \<Longrightarrow> f i < f j" "\<And>i. i < Suc m \<Longrightarrow> f i < Suc n"
      "\<And>i. i < Suc m \<Longrightarrow> ok (sigs ! i) (keys ! f i)"
    by (auto simp: signatures_match_def)
  have "f i < n" if "i < m" for i using f(1) [of i m] f(2) [of m] that by simp
  then show "signatures_match ok sigs keys m n" unfolding signatures_match_def
    using f by (intro exI [of _ f]) simp
next
  assume "signatures_match ok sigs keys m n"
  then obtain f where f: "\<And>i j. i < j \<Longrightarrow> j < m \<Longrightarrow> f i < f j" "\<And>i. i < m \<Longrightarrow> f i < n"
      "\<And>i. i < m \<Longrightarrow> ok (sigs ! i) (keys ! f i)"
    by (auto simp: signatures_match_def)
  have "f i < Suc n" if "i < m" for i using f(2) [OF that] by simp
  then show "signatures_match ok sigs keys (Suc m) (Suc n)" unfolding signatures_match_def
    using f assms by (intro exI [of _ "f(m := n)"]) (auto simp: less_Suc_eq)
qed

lemma signatures_match_skip:
  assumes "\<not> ok (sigs ! m) (keys ! n)"
  shows "signatures_match ok sigs keys (Suc m) (Suc n) \<longleftrightarrow> signatures_match ok sigs keys (Suc m) n"
proof
  assume "signatures_match ok sigs keys (Suc m) (Suc n)"
  then obtain f where f: "\<And>i j. i < j \<Longrightarrow> j < Suc m \<Longrightarrow> f i < f j" "\<And>i. i < Suc m \<Longrightarrow> f i < Suc n"
      "\<And>i. i < Suc m \<Longrightarrow> ok (sigs ! i) (keys ! f i)"
    by (auto simp: signatures_match_def)
  have "f m \<noteq> n" using f(3) [of m] assms by auto
  then have m: "f m < n" using f(2) [of m] by simp
  have "f i < n" if "i < Suc m" for i
    using f(1) [of i m] m that by (cases "i = m") auto
  then show "signatures_match ok sigs keys (Suc m) n" unfolding signatures_match_def
    using f by (intro exI [of _ f]) simp
next
  assume "signatures_match ok sigs keys (Suc m) n"
  then show "signatures_match ok sigs keys (Suc m) (Suc n)"
    unfolding signatures_match_def by (meson less_SucI)
qed

lemma multisig_loop_match:
  assumes "\<And>s k. s \<in> set sigs \<Longrightarrow> k \<in> set keys \<Longrightarrow> check s k = Inr (ok s k)"
    "m \<le> length sigs" "n \<le> length keys"
  shows "multisig_loop check sigs keys m n = Inr (signatures_match ok sigs keys m n)"
  using assms(2,3)
proof (induction n arbitrary: m)
  case 0
  then show ?case
    by (subst multisig_loop.simps) (auto dest: signatures_match_le)
next
  case (Suc n)
  show ?case
  proof (cases m)
    case 0
    then show ?thesis by (subst multisig_loop.simps) simp
  next
    case (Suc m')
    show ?thesis
    proof (cases "m > Suc n")
      case True
      then have "\<not> signatures_match ok sigs keys m (Suc n)" by (auto dest: signatures_match_le)
      then show ?thesis using True by (subst multisig_loop.simps) simp
    next
      case False
      have "check (sigs ! m') (keys ! n) = Inr (ok (sigs ! m') (keys ! n))"
        using Suc.prems Suc by (intro assms(1)) simp_all
      then show ?thesis
        using False Suc.prems Suc Suc.IH [of m'] Suc.IH [of m]
        by (subst multisig_loop.simps) (auto simp: signatures_match_use signatures_match_skip)
    qed
  qed
qed

lemma pop_number_encoded:
  assumes "\<bar>v\<bar> < 2 ^ 31"
  shows "pop_number flags (stack @ [encode_script_number v]) = Inr (v, stack)"
proof -
  have "length (encode_script_number v) \<le> 4"
    using length_encode_script_number [of 4 v] assms by simp
  then show ?thesis
    using decode_script_number_value [of "encode_script_number v"] script_value_encode [of v]
    by (simp add: pop_number_def pop_item_def)
qed

text \<open>
  C35: \<^verbatim>\<open>CHECKMULTISIG\<close>.  On a stack that ends with the empty dummy, \<open>m\<close> signatures, \<open>m\<close>, \<open>n\<close> keys and \<open>n\<close>
  (with \<open>m \<le> n \<le> 20\<close> and room in the operation count), when every single check gives an answer, the
  matcher, which walks both lists once from the end, answers true exactly when the signatures belong in
  order to distinct keys.  It consumes all its operands, adds \<open>n\<close> operations, and fails with
  \<^verbatim>\<open>NullFail\<close> when the answer is false, the flag asks for it and some signature is not empty.
\<close>

theorem check_multisig_exact:
  assumes "ex_stack st = base @ [[]] @ sigs @ [encode_script_number (int (length sigs))] @ keys @
      [encode_script_number (int (length keys))]"
    and "length sigs \<le> length keys" "length keys \<le> max_multisig_pubkeys"
    and "ex_operation_count st + length keys \<le> max_script_ops"
    and "\<And>s k. s \<in> set sigs \<Longrightarrow> k \<in> set keys \<Longrightarrow> check_signature ctx subscript s k = Inr (ok s k)"
  shows "check_multisig ctx subscript st =
    (let valid = signatures_match ok sigs keys (length sigs) (length keys) in
     if \<not> valid \<and> flags_contains (sc_flags ctx) verify_nullfail \<and> list_ex (\<lambda>s. s \<noteq> []) sigs then Inl NullFail
     else Inr (valid, st\<lparr>ex_stack := base, ex_operation_count := ex_operation_count st + length keys\<rparr>))"
proof -
  let ?n = "length keys" and ?m = "length sigs"
  have len: "?n \<le> 20" "?m \<le> 20" "ex_operation_count st + ?n \<le> 201"
    using assms(2,3,4) by (simp_all add: script_limits)
  have p1: "pop_number (sc_flags ctx) (ex_stack st) =
      Inr (int ?n, base @ [[]] @ sigs @ [encode_script_number (int ?m)] @ keys)"
    using pop_number_encoded [of "int ?n" _ "base @ [[]] @ sigs @ [encode_script_number (int ?m)] @ keys"] len
    unfolding assms(1) by simp
  have p2: "pop_number (sc_flags ctx) (base @ [[]] @ sigs @ [encode_script_number (int ?m)]) =
      Inr (int ?m, base @ [[]] @ sigs)"
    using pop_number_encoded [of "int ?m" _ "base @ [[]] @ sigs"] len by simp
  have "check_multisig ctx subscript st =
      bind_res (multisig_loop (check_signature ctx subscript) sigs keys ?m ?n) (\<lambda>valid.
        if \<not> valid \<and> flags_contains (sc_flags ctx) verify_nullfail \<and> list_ex (\<lambda>s. s \<noteq> []) sigs then Inl NullFail
        else Inr (valid, st\<lparr>ex_stack := base, ex_operation_count := ex_operation_count st + ?n\<rparr>))"
    using len p2 assms(2)
    by (simp add: check_multisig_def p1 script_limits checked_add_usize_def usize_max_def ok_or_def require_stack_def
        saturating_add_usize_def Let_def pop_item_def butlast_append cong: if_cong)
  then show ?thesis using multisig_loop_match [where m = ?m and n = ?n, OF assms(5)] by (simp add: Let_def)
qed


section \<open>Limits of the machine\<close>

text \<open>
  What holds of the machine between instructions: the two stacks together have at most 1000 items, no item
  is longer than 520 bytes, at most 201 operations were counted.
\<close>

definition items_ok :: "script_stack \<Rightarrow> bool" where
  "items_ok stack \<longleftrightarrow> (\<forall>item \<in> set stack. length item \<le> max_script_push)"

definition machine_ok :: "exec_state \<Rightarrow> bool" where
  "machine_ok st \<longleftrightarrow> length (ex_stack st) + length (ex_alt_stack st) \<le> max_script_stack \<and>
     items_ok (ex_stack st) \<and> items_ok (ex_alt_stack st) \<and> ex_operation_count st \<le> max_script_ops"

text \<open>The digests of the hash functions are not longer than a push.\<close>

definition digests_ok :: "script_env \<Rightarrow> bool" where
  "digests_ok env \<longleftrightarrow> (\<forall>x. length (se_blake2b_160 env x) \<le> max_script_push \<and>
     length (se_blake2b_256 env x) \<le> max_script_push \<and> length (se_sha3_256 env x) \<le> max_script_push \<and>
     length (se_keccak256 env x) \<le> max_script_push \<and> length (se_ripemd160 env x) \<le> max_script_push \<and>
     length (se_sha1 env x) \<le> max_script_push \<and> length (se_sha256 env x) \<le> max_script_push)"

lemma items_ok_simps [simp]:
  "items_ok []" "items_ok (x # xs) \<longleftrightarrow> length x \<le> max_script_push \<and> items_ok xs"
  "items_ok (xs @ ys) \<longleftrightarrow> items_ok xs \<and> items_ok ys"
  by (auto simp: items_ok_def)

lemma items_ok_mono: "items_ok xs \<Longrightarrow> set ys \<subseteq> set xs \<Longrightarrow> items_ok ys"
  by (auto simp: items_ok_def)

lemma items_ok_parts [simp]:
  assumes "items_ok xs"
  shows "items_ok (take n xs)" "items_ok (drop n xs)" "items_ok (butlast xs)" "items_ok (slice_of a b xs)"
    "items_ok (remove_at n xs)"
  using assms by (auto intro!: items_ok_mono [OF assms]
      dest: in_set_takeD in_set_dropD in_set_butlastD simp: slice_of_def remove_at_def)

lemma items_ok_nth [simp]: "items_ok xs \<Longrightarrow> n < length xs \<Longrightarrow> length (xs ! n) \<le> max_script_push"
  "items_ok xs \<Longrightarrow> xs \<noteq> [] \<Longrightarrow> length (last xs) \<le> max_script_push"
  by (auto simp: items_ok_def)

lemma items_ok_number [intro]: "\<bar>v\<bar> \<le> 2 ^ 63 \<Longrightarrow> length (encode_script_number v) \<le> max_script_push"
  using length_encode_script_number [of 9 v] by (simp add: script_limits)


lemmas stack_ops = pop_item_def require_stack_def duplicate_tail_def push_bool_def

lemma pop_number_items:
  assumes "pop_number flags stack = Inr (v, stack')" "items_ok stack"
  shows "items_ok stack' \<and> \<bar>v\<bar> < 2 ^ 31"
proof -
  from assms(1) have "decode_script_number (last stack) (minimal_numbers flags) 4 = Inr v" "stack' = butlast stack"
    by (auto simp: pop_number_def bind_res_eq_Inr pop_item_def split: if_splits)
  moreover from this have "length (last stack) \<le> 4" by (auto simp: decode_script_number_def split: if_splits)
  ultimately show ?thesis
    using assms(2) decode_script_number_value [of "last stack" "minimal_numbers flags" 4]
      script_value_less [of "last stack" 4]
    by (auto split: if_splits)
qed

lemma exec_pick_roll_items:
  assumes "exec_pick_roll ctx op stack = Inr stack'" "items_ok stack"
  shows "items_ok stack'"
proof -
  from assms(1) obtain depth rest where pop: "pop_number (sc_flags ctx) stack = Inr (depth, rest)"
    and r: "\<not> (depth < 0 \<or> nat depth \<ge> length rest)"
    "stack' = (if op = op_roll then remove_at (length rest - 1 - nat depth) rest else rest) @
      [rest ! (length rest - 1 - nat depth)]"
    by (auto simp: exec_pick_roll_def bind_res_eq_Inr Let_def split: if_splits)
  have "items_ok rest" using pop_number_items [OF pop assms(2)] by simp
  then show ?thesis using r by auto
qed

lemma set_swap_at: "i < length xs \<Longrightarrow> j < length xs \<Longrightarrow> set (swap_at i j xs) = set xs"
  by (simp add: swap_at_def)

lemma length_swap_at [simp]: "length (swap_at i j xs) = length xs"
  by (simp add: swap_at_def)

lemma length_remove_at [simp]: "n < length xs \<Longrightarrow> length (remove_at n xs) = length xs - 1"
  by (simp add: remove_at_def)

lemma items_ok_swap: "i < length xs \<Longrightarrow> j < length xs \<Longrightarrow> items_ok (swap_at i j xs) = items_ok xs"
  by (simp add: items_ok_def set_swap_at)

lemma exec_stack_items:
  assumes "exec_stack ctx op stack = Inr stack'" "items_ok stack" "length stack \<le> max_script_stack"
  shows "items_ok stack'"
proof -
  have n: "length (encode_script_number (int (length stack))) \<le> max_script_push"
    using assms(3) by (intro items_ok_number) (simp add: script_limits)
  have l: "stack = [] \<or> length (encode_script_number (int (length (last stack)))) \<le> max_script_push"
  proof (cases "stack = []")
    case False
    have "\<bar>int (length (last stack))\<bar> \<le> 2 ^ 63"
      using items_ok_nth(2) [OF assms(2) False] by (simp add: script_limits)
    then show ?thesis by blast
  qed simp
  show ?thesis
    using assms(1,2) n l
    unfolding exec_stack_def Let_def
    by (auto simp: bind_res_eq_Inr stack_ops items_ok_swap insert_at_def length_swap_at
        intro: exec_pick_roll_items split: if_splits)
qed

lemma push_bool_items [simp]: "items_ok (push_bool v stack) = items_ok stack"
  by (simp add: push_bool_def script_limits)

lemma exec_equal_items: "exec_equal op stack = Inr stack' \<Longrightarrow> items_ok stack \<Longrightarrow> items_ok stack'"
  by (auto simp: exec_equal_def bind_res_eq_Inr require_stack_def pop_item_def split: if_splits)

lemma unary_result_bound: "unary_result op v = Some r \<Longrightarrow> \<bar>r\<bar> \<le> 2 ^ 63"
  by (auto simp: unary_result_def i64_checked_def split: if_splits)

lemma binary_result_bound:
  "binary_result op l r = Inr v \<Longrightarrow> \<bar>l\<bar> < 2 ^ 31 \<Longrightarrow> \<bar>r\<bar> < 2 ^ 31 \<Longrightarrow> \<bar>v\<bar> \<le> 2 ^ 63"
  by (auto simp: binary_result_def i64_checked_def ok_or_def min_def max_def split: if_splits option.splits)

lemma exec_unary_items:
  assumes "exec_unary ctx op stack = Inr stack'" "items_ok stack"
  shows "items_ok stack'"
proof -
  from assms(1) obtain v rest r where "pop_number (sc_flags ctx) stack = Inr (v, rest)"
      "unary_result op v = Some r" "stack' = rest @ [encode_script_number r]"
    by (auto simp: exec_unary_def bind_res_eq_Inr ok_or_def split: option.splits)
  then show ?thesis using pop_number_items assms(2) unary_result_bound by (auto intro!: items_ok_number)
qed

lemma exec_binary_items:
  assumes "exec_binary ctx op stack = Inr stack'" "items_ok stack"
  shows "items_ok stack'"
proof -
  from assms(1) obtain r s1 l s2 v where p: "pop_number (sc_flags ctx) stack = Inr (r, s1)"
      "pop_number (sc_flags ctx) s1 = Inr (l, s2)" "binary_result op l r = Inr v"
      "stack' = s2 \<or> stack' = s2 @ [encode_script_number v]"
    by (auto simp: exec_binary_def bind_res_eq_Inr split: if_splits)
  note 1 = pop_number_items [OF p(1) assms(2)]
  note 2 = pop_number_items [OF p(2) conjunct1 [OF 1]]
  have "\<bar>v\<bar> \<le> 2 ^ 63" using binary_result_bound [OF p(3)] 1 2 by blast
  then show ?thesis using p(4) 2 by (auto intro!: items_ok_number)
qed

lemma exec_within_items:
  assumes "exec_within ctx stack = Inr stack'" "items_ok stack"
  shows "items_ok stack'"
proof -
  from assms(1) obtain a s1 b s2 c s3 v where p: "pop_number (sc_flags ctx) stack = Inr (a, s1)"
      "pop_number (sc_flags ctx) s1 = Inr (b, s2)" "pop_number (sc_flags ctx) s2 = Inr (c, s3)"
      "stack' = push_bool v s3"
    by (auto simp: exec_within_def bind_res_eq_Inr)
  note 1 = conjunct1 [OF pop_number_items [OF p(1) assms(2)]]
  note 2 = conjunct1 [OF pop_number_items [OF p(2) 1]]
  show ?thesis using p(4) pop_number_items [OF p(3) 2] by simp
qed

lemma exec_hash_items:
  assumes "exec_hash ctx op stack = Inr stack'" "items_ok stack" "digests_ok (sc_env ctx)"
  shows "items_ok stack'"
  using assms by (auto simp: exec_hash_def bind_res_eq_Inr pop_item_def script_digest_def digests_ok_def split: if_splits)

text \<open>What an instruction may do to the state: the stacks keep their items, operations only grow.\<close>

definition exec_keeps :: "exec_state \<Rightarrow> exec_state \<Rightarrow> bool" where
  "exec_keeps st st' \<longleftrightarrow> items_ok (ex_stack st') \<and> items_ok (ex_alt_stack st') \<and>
     ex_operation_count st \<le> ex_operation_count st' \<and> ex_operation_count st' \<le> max_script_ops"

lemma on_stack_keeps:
  assumes "on_stack f st = Inr st'" "machine_ok st" "\<And>stack. f (ex_stack st) = Inr stack \<Longrightarrow> items_ok stack"
  shows "exec_keeps st st'"
  using assms by (auto simp: on_stack_def bind_res_eq_Inr exec_keeps_def machine_ok_def)

lemma exec_constant_keeps:
  assumes "exec_constant ctx op st = Inr st'" "machine_ok st"
  shows "exec_keeps st st'"
proof -
  have n: "\<bar>int (unat (b::byte))\<bar> \<le> 2 ^ 63" for b using uint_bounded [of b] by simp
  have m: "\<bar>- 1 :: int\<bar> \<le> 2 ^ 63" "\<bar>0 :: int\<bar> \<le> 2 ^ 63" by simp_all
  show ?thesis
    using assms n [THEN items_ok_number] m [THEN items_ok_number]
    by (auto simp: exec_constant_def push_item_def exec_keeps_def machine_ok_def split: if_splits option.splits)
qed

lemma exec_flow_keeps:
  "exec_flow ctx op st = Inr st' \<Longrightarrow> machine_ok st \<Longrightarrow> exec_keeps st st'"
  by (auto simp: exec_flow_def exec_if_def bind_res_eq_Inr pop_item_def exec_keeps_def machine_ok_def Let_def
      split: if_splits)

lemma exec_alt_keeps: "exec_alt op st = Inr st' \<Longrightarrow> machine_ok st \<Longrightarrow> exec_keeps st st'"
  by (auto simp: exec_alt_def bind_res_eq_Inr pop_item_def exec_keeps_def machine_ok_def split: if_splits)

lemma exec_locktime_keeps: "exec_locktime holds ctx st = Inr st' \<Longrightarrow> machine_ok st \<Longrightarrow> exec_keeps st st'"
  by (auto simp: exec_locktime_def bind_res_eq_Inr exec_keeps_def machine_ok_def split: if_splits)

lemma exec_checksig_keeps: "exec_checksig ctx op st = Inr st' \<Longrightarrow> machine_ok st \<Longrightarrow> exec_keeps st st'"
  by (auto simp: exec_checksig_def bind_res_eq_Inr pop_item_def exec_keeps_def machine_ok_def split: if_splits)

lemma check_multisig_keeps:
  assumes "check_multisig ctx sub st = Inr (valid, st')" "machine_ok st"
  shows "exec_keeps st st'"
proof -
  from assms(1) obtain n s1 m s2 s3 dummy ops where
    p: "pop_number (sc_flags ctx) (ex_stack st) = Inr (n, s1)"
      "pop_number (sc_flags ctx) (take (length s1 - nat n) s1) = Inr (m, s2)"
      "pop_item (take (length s2 - nat m) s2) = Inr (dummy, s3)"
      "ops = ex_operation_count st + nat n" "ops \<le> max_script_ops"
      "st' = st\<lparr>ex_stack := s3, ex_operation_count := ops\<rparr>"
    by (auto simp: check_multisig_def bind_res_eq_Inr Let_def ok_or_def checked_add_usize_def
        split: if_splits option.splits)
  have 0: "items_ok (ex_stack st)" "items_ok (ex_alt_stack st)" using assms(2) by (simp_all add: machine_ok_def)
  note 1 = conjunct1 [OF pop_number_items [OF p(1) 0(1)]]
  have 2: "items_ok s2" using pop_number_items [OF p(2)] 1 by simp
  have "items_ok s3" using p(3) 2 by (auto simp: pop_item_def split: if_splits)
  then show ?thesis using 0 p by (simp add: exec_keeps_def)
qed

lemma exec_checkmultisig_keeps:
  assumes "exec_checkmultisig ctx op st = Inr st'" "machine_ok st"
  shows "exec_keeps st st'"
proof -
  from assms(1) obtain valid st1 where c: "check_multisig ctx (drop (ex_last_separator st) (sc_script ctx)) st = Inr (valid, st1)"
    and "st' = st1 \<or> st' = st1\<lparr>ex_stack := push_bool valid (ex_stack st1)\<rparr>"
    by (auto simp: exec_checkmultisig_def bind_res_eq_Inr split: if_splits)
  with check_multisig_keeps [OF c assms(2)] show ?thesis by (auto simp: exec_keeps_def)
qed

lemma if_res: "(if c then a else b) = Inr x \<Longrightarrow> (a = Inr x \<Longrightarrow> P) \<Longrightarrow> (b = Inr x \<Longrightarrow> P) \<Longrightarrow> P"
  by (simp split: if_splits)

lemma exec_opcode_keeps:
  assumes "exec_opcode ctx ins st = Inr st'" "machine_ok st" "digests_ok (sc_env ctx)"
  shows "exec_keeps st st'"
proof -
  have st: "items_ok (ex_stack st)" "length (ex_stack st) \<le> max_script_stack"
    using assms(2) by (simp_all add: machine_ok_def)
  have refl: "exec_keeps st st" "exec_keeps st (st\<lparr>ex_last_separator := n\<rparr>)" for n
    using assms(2) by (simp_all add: machine_ok_def exec_keeps_def)
  note on = on_stack_keeps [OF _ assms(2)]
  have on_items:
    "on_stack (exec_stack ctx op) st = Inr st' \<Longrightarrow> exec_keeps st st'"
    "on_stack (exec_equal op) st = Inr st' \<Longrightarrow> exec_keeps st st'"
    "on_stack (exec_unary ctx op) st = Inr st' \<Longrightarrow> exec_keeps st st'"
    "on_stack (exec_binary ctx op) st = Inr st' \<Longrightarrow> exec_keeps st st'"
    "on_stack (exec_within ctx) st = Inr st' \<Longrightarrow> exec_keeps st st'"
    "on_stack (exec_hash ctx op) st = Inr st' \<Longrightarrow> exec_keeps st st'" for op
    by (erule on, erule exec_stack_items [OF _ st] exec_equal_items [OF _ st(1)] exec_unary_items [OF _ st(1)]
      exec_binary_items [OF _ st(1)] exec_within_items [OF _ st(1)] exec_hash_items [OF _ st(1) assms(3)])+
  have leaf: "(Inr st :: script_error + exec_state) = Inr st' \<Longrightarrow> exec_keeps st st'"
    "(Inr (st\<lparr>ex_last_separator := n\<rparr>) :: script_error + exec_state) = Inr st' \<Longrightarrow> exec_keeps st st'"
    "(Inl e :: script_error + exec_state) = Inr st' \<Longrightarrow> exec_keeps st st'" for n e
    using refl by auto
  note keeps = exec_constant_keeps [OF _ assms(2)] exec_locktime_keeps [OF _ assms(2)] exec_flow_keeps [OF _ assms(2)]
    exec_alt_keeps [OF _ assms(2)] exec_checksig_keeps [OF _ assms(2)] exec_checkmultisig_keeps [OF _ assms(2)]
    on_items
  have "exec_opcode ctx ins st = Inr st' \<Longrightarrow> exec_keeps st st'"
    unfolding exec_opcode_def Let_def
    by (elim if_res; erule keeps leaf)
  with assms(1) show ?thesis by blast
qed

lemma limit_state_ok:
  assumes "limit_state st = Inr st'" "exec_keeps u st"
  shows "machine_ok st' \<and> st' = st"
  using assms by (auto simp: limit_state_def enforce_stack_limit_def saturating_add_usize_def bind_res_eq_Inr
      exec_keeps_def machine_ok_def script_limits usize_max_def split: if_splits)

lemma count_operation_ok:
  assumes "count_operation op st = Inr st'" "machine_ok st"
  shows "machine_ok st'"
  using assms by (auto simp: count_operation_def bind_res_eq_Inr machine_ok_def split: if_splits)

lemma exec_step_ok:
  assumes "exec_step ctx ins st = Inr st'" "machine_ok st" "digests_ok (sc_env ctx)"
  shows "machine_ok st'"
proof -
  from assms(1) obtain st1 where size: "case ins_data ins of Some data \<Rightarrow> length data \<le> max_script_push | None \<Rightarrow> True"
    and c: "count_operation (ins_opcode ins) st = Inr st1"
    and cases: "limit_state st1 = Inr st' \<or> (\<exists>data. ins_data ins = Some data \<and> limit_state (push_item data st1) = Inr st') \<or>
        (\<exists>st2. exec_opcode ctx ins st1 = Inr st2 \<and> limit_state st2 = Inr st')"
    by (auto simp: exec_step_def bind_res_eq_Inr Let_def split: if_splits option.splits)
  note ok = count_operation_ok [OF c assms(2)]
  have "exec_keeps st1 st1" using ok by (simp add: machine_ok_def exec_keeps_def)
  moreover have "exec_keeps st1 (push_item data st1)" if "ins_data ins = Some data" for data
    using ok size that by (simp add: machine_ok_def exec_keeps_def push_item_def)
  ultimately show ?thesis
    using cases limit_state_ok exec_opcode_keeps [OF _ ok assms(3)] by blast
qed

lemma fold_res_invariant:
  assumes "\<And>x s s'. x \<in> set xs \<Longrightarrow> P s \<Longrightarrow> f x s = Inr s' \<Longrightarrow> P s'" "P s" "fold_res f xs s = Inr s'"
  shows "P s'"
  using assms
proof (induction xs arbitrary: s)
  case (Cons x xs)
  from Cons.prems(3) obtain t where t: "f x s = Inr t" "fold_res f xs t = Inr s'" by (auto simp: bind_res_eq_Inr)
  have "P t" using Cons.prems(1) [of x s t] Cons.prems(2) t(1) by simp
  from Cons.IH [OF _ this t(2)] Cons.prems(1) show ?case by (meson list.set_intros(2))
qed simp

text \<open>
  C37: the limits of the script machine.  Whenever execution starts (the initial stack passed its
  checks), after any number of executed instructions the two stacks hold at most 1000 items together,
  no item exceeds 520 bytes, and at most 201 operations were counted, so also the final stack is within
  the limits.
\<close>

theorem execution_limits:
  assumes "digests_ok (sc_env ctx)" "length stack \<le> max_script_stack" "items_ok stack"
  shows "(fold_res (exec_step ctx) (take n instructions) (exec_initial stack) = Inr st \<longrightarrow> machine_ok st) \<and>
    (execute_script ctx stack = Inr result \<longrightarrow> length result \<le> max_script_stack \<and> items_ok result)"
proof -
  have 0: "machine_ok (exec_initial stack)"
    using assms(2,3) by (simp add: machine_ok_def exec_initial_def script_limits)
  have run: "machine_ok st'" if "fold_res (exec_step ctx) xs (exec_initial stack) = Inr st'" for xs st'
    using fold_res_invariant [where P = machine_ok, OF _ 0 that] exec_step_ok [OF _ _ assms(1)] by blast
  have "length result \<le> max_script_stack \<and> items_ok result" if "execute_script ctx stack = Inr result"
    using that run by (fastforce simp: execute_script_def bind_res_eq_Inr machine_ok_def split: if_splits)
  with run show ?thesis by blast
qed

section \<open>Public-key-hash programs\<close>

definition pkh_state :: "script_stack \<Rightarrow> nat \<Rightarrow> exec_state" where
  "pkh_state stack ops = \<lparr>ex_stack = stack, ex_alt_stack = [], ex_conditions = [], ex_operation_count = ops,
     ex_last_separator = 0\<rparr>"

definition pkh_instructions :: "bytes \<Rightarrow> instruction list" where
  "pkh_instructions hash =
     [\<lparr>ins_opcode = op_dup, ins_data = None, ins_start = 0, ins_end = 1\<rparr>,
      \<lparr>ins_opcode = op_blake160, ins_data = None, ins_start = 1, ins_end = 2\<rparr>,
      \<lparr>ins_opcode = 20, ins_data = Some hash, ins_start = 2, ins_end = 23\<rparr>,
      \<lparr>ins_opcode = op_equalverify, ins_data = None, ins_start = 23, ins_end = 24\<rparr>,
      \<lparr>ins_opcode = op_checksig, ins_data = None, ins_start = 24, ins_end = 25\<rparr>]"

lemma parse_pubkey_hash_script:
  assumes "length hash = 20"
  shows "parse_script (pubkey_hash_script hash) = Inr (pkh_instructions hash)"
proof -
  have "script_layout 0 (pkh_instructions hash) (pubkey_hash_script hash)"
    using assms by (simp add: pkh_instructions_def pubkey_hash_script_def instruction_bytes_def instruction_ok_def
        is_push_opcode_def push_width_def opcodes word_le_nat_alt)
  moreover have "length (pubkey_hash_script hash) = 25" using assms by (simp add: pubkey_hash_script_def)
  ultimately show ?thesis
    using parse_loop_exact [of "[]" "pubkey_hash_script hash" "pkh_instructions hash"]
    by (simp add: parse_script_def script_limits)
qed

lemmas step_defs = exec_step_def pkh_state_def count_operation_def checked_add_usize_def usize_max_def ok_or_def
  is_disabled_opcode_def limit_state_def enforce_stack_limit_def saturating_add_usize_def script_limits Let_def

lemma exec_dup_step:
  "exec_step ctx \<lparr>ins_opcode = op_dup, ins_data = None, ins_start = a, ins_end = b\<rparr> (pkh_state [s, k] 0) =
    Inr (pkh_state [s, k, k] 1)"
  by (simp add: step_defs opcodes exec_opcode_def on_stack_def exec_stack_def duplicate_tail_def require_stack_def
      word_less_nat_alt word_le_nat_alt)

lemma exec_blake160_step:
  "exec_step ctx \<lparr>ins_opcode = op_blake160, ins_data = None, ins_start = a, ins_end = b\<rparr> (pkh_state [s, k, k] 1) =
    Inr (pkh_state [s, k, se_blake2b_160 (sc_env ctx) k] 2)"
  by (simp add: step_defs opcodes exec_opcode_def on_stack_def exec_hash_def pop_item_def script_digest_def
      word_less_nat_alt word_le_nat_alt)

lemma exec_push20_step:
  assumes "length hash = 20"
  shows "exec_step ctx \<lparr>ins_opcode = 20, ins_data = Some hash, ins_start = a, ins_end = b\<rparr> (pkh_state [s, k, h] 2) =
    Inr (pkh_state [s, k, h, hash] 2)"
proof -
  have "is_minimal_push 20 hash" using assms by (auto simp: is_minimal_push_def)
  then show ?thesis using assms by (simp add: step_defs opcodes push_item_def word_less_nat_alt word_le_nat_alt)
qed

lemma exec_equalverify_step:
  "exec_step ctx \<lparr>ins_opcode = op_equalverify, ins_data = None, ins_start = a, ins_end = b\<rparr> (pkh_state [s, k, h, hash] 2) =
    (if h = hash then Inr (pkh_state [s, k] 3) else Inl EqualVerify)"
  by (simp add: step_defs opcodes exec_opcode_def on_stack_def exec_equal_def require_stack_def pop_item_def
      word_less_nat_alt word_le_nat_alt)

lemma exec_checksig_step:
  "exec_step ctx \<lparr>ins_opcode = op_checksig, ins_data = None, ins_start = a, ins_end = b\<rparr> (pkh_state [s, k] 3) =
    bind_res (check_signature ctx (sc_script ctx) s k) (\<lambda>valid.
      if \<not> valid \<and> flags_contains (sc_flags ctx) verify_nullfail \<and> s \<noteq> [] then Inl NullFail
      else Inr (pkh_state [if valid then [1] else []] 4))"
  by (cases "check_signature ctx (sc_script ctx) s k")
    (auto simp add: step_defs opcodes exec_opcode_def exec_checksig_def require_stack_def pop_item_def push_bool_def
      word_less_nat_alt word_le_nat_alt)

lemma check_signature_sizes:
  "check_signature ctx sub s k = Inr True \<Longrightarrow> length s = 65 \<and> length k = 33"
  by (auto simp: check_signature_def bind_res_eq_Inr split: if_splits option.splits)

lemma execute_pubkey_hash:
  assumes "length hash = 20" "sc_script ctx = pubkey_hash_script hash" "sc_input_index ctx < length (tx_inputs (sc_transaction ctx))"
  shows "execute_script ctx [s, k] =
    (if length s > 520 \<or> length k > 520 then Inl PushSize
     else if se_blake2b_160 (sc_env ctx) k \<noteq> hash then Inl EqualVerify
     else bind_res (check_signature ctx (pubkey_hash_script hash) s k) (\<lambda>valid.
       if \<not> valid \<and> flags_contains (sc_flags ctx) verify_nullfail \<and> s \<noteq> [] then Inl NullFail
       else Inr [if valid then [1] else []]))"
proof -
  have i: "exec_initial [s, k] = pkh_state [s, k] 0" by (simp add: exec_initial_def pkh_state_def)
  have c: "ex_conditions (pkh_state st n) = []" "ex_stack (pkh_state st n) = st" for st n by (simp_all add: pkh_state_def)
  show ?thesis
    using assms(3)
    by (cases "check_signature ctx (pubkey_hash_script hash) s k")
      (simp_all add: execute_script_def assms(2) parse_pubkey_hash_script [OF assms(1)] pkh_instructions_def get_def i
        exec_dup_step exec_blake160_step exec_push20_step [OF assms(1)] exec_equalverify_step exec_checksig_step c
        script_limits del: One_nat_def)
qed

text \<open>
  C5: who can spend a public-key-hash coin.  An input that refers to a coin at a version-0 address with a
  20-byte hash is accepted exactly when its witness is a signature and a public key, the key's
  BLAKE2b-160 digest is the address hash, and the signature is valid for the key, the transaction
  and the value of the coin, over the script \<^verbatim>\<open>DUP BLAKE160 hash EQUALVERIFY CHECKSIG\<close>.
\<close>

theorem pubkey_hash_spend_exact:
  assumes "i < length (tx_inputs tx)" "in_previous_output (tx_inputs tx ! i) = coin_outpoint c"
    and "addr_version (coin_address c) = 0" "length (addr_hash (coin_address c)) = 20"
  shows "verify_witness_program env tx i c flags = Inr () \<longleftrightarrow>
    (\<exists>s k. in_witness (tx_inputs tx ! i) = [s, k] \<and> se_blake2b_160 env k = addr_hash (coin_address c) \<and>
      check_signature \<lparr>sc_env = env, sc_script = pubkey_hash_script (addr_hash (coin_address c)), sc_transaction = tx,
        sc_input_index = i, sc_previous_value = coin_value c, sc_flags = flags\<rparr>
        (pubkey_hash_script (addr_hash (coin_address c))) s k = Inr True)"
proof -
  let ?h = "addr_hash (coin_address c)"
  let ?ctx = "\<lparr>sc_env = env, sc_script = pubkey_hash_script ?h, sc_transaction = tx,
        sc_input_index = i, sc_previous_value = coin_value c, sc_flags = flags\<rparr>"
  let ?w = "in_witness (tx_inputs tx ! i)"
  show ?thesis
  proof (cases "length ?w = 2")
    case False
    then have "verify_witness_program env tx i c flags \<noteq> Inr ()"
      using assms by (auto simp: verify_witness_program_def witness_redeem_def get_def ok_or_def)
    then show ?thesis using False by auto
  next
    case True
    then obtain s k where w: "?w = [s, k]" by (auto simp: length_Suc_conv numeral_2_eq_2)
    have e: "execute_script ?ctx [s, k] =
      (if length s > 520 \<or> length k > 520 then Inl PushSize
       else if se_blake2b_160 env k \<noteq> ?h then Inl EqualVerify
       else bind_res (check_signature ?ctx (pubkey_hash_script ?h) s k) (\<lambda>valid.
         if \<not> valid \<and> flags_contains flags verify_nullfail \<and> s \<noteq> [] then Inl NullFail
         else Inr [if valid then [1] else []]))"
      using execute_pubkey_hash [of ?h ?ctx s k] assms by simp
    have b: "cast_to_bool [1]" "\<not> cast_to_bool []" by (simp_all add: cast_to_bool_def)
    have "verify_witness_program env tx i c flags =
        bind_res (execute_script ?ctx [s, k]) (\<lambda>stack.
          if length stack \<noteq> 1 \<or> \<not> cast_to_bool (stack ! 0) then Inl EvalFalse else Inr ())"
      using assms w by (simp add: verify_witness_program_def witness_redeem_def get_def ok_or_def script_limits)
    then show ?thesis
      using check_signature_sizes [of ?ctx "pubkey_hash_script ?h" s k] b
      unfolding w e by (cases "check_signature ?ctx (pubkey_hash_script ?h) s k") (auto split: if_splits)
  qed
qed

section \<open>Examples\<close>

text \<open>Digests that depend on the length only are enough here.\<close>

definition length_digest_of :: "nat \<Rightarrow> bytes \<Rightarrow> bytes" where
  "length_digest_of n x = replicate n (word_of_nat (length x))"

definition sample_env :: script_env where
  "sample_env = \<lparr>se_blake2b_160 = length_digest_of 20, se_blake2b_256 = length_digest_of 32,
     se_sha3_256 = length_digest_of 32, se_keccak256 = length_digest_of 32, se_ripemd160 = length_digest_of 20,
     se_sha1 = length_digest_of 20, se_sha256 = length_digest_of 32, se_validate_signature = (\<lambda>_. Inr ()),
     se_verify_signature = (\<lambda>message compact key. Inr (compact ! 0 = key ! 1))\<rparr>"

definition sample_key :: "byte \<Rightarrow> bytes" where
  "sample_key b = 2 # replicate 32 b"

definition sample_signature :: "byte \<Rightarrow> bytes" where
  "sample_signature b = replicate 64 b @ [1]"

definition sample_script_context :: script_context where
  "sample_script_context = \<lparr>sc_env = sample_env, sc_script = [op_checkmultisig], sc_transaction = sample_spend,
     sc_input_index = 0, sc_previous_value = 10, sc_flags = flags_mandatory\<rparr>"

lemma sample_digests_ok: "digests_ok sample_env"
  by (simp add: digests_ok_def sample_env_def length_digest_of_def script_limits)

theorem execution_limits_witness:
  "(\<exists>st. fold_res (exec_step sample_script_context) (take 1 [\<lparr>ins_opcode = op_dup, ins_data = None, ins_start = 0, ins_end = 1\<rparr>])
      (exec_initial [[7]]) = Inr st \<and> machine_ok st)"
proof -
  have "fold_res (exec_step sample_script_context) (take 1 [\<lparr>ins_opcode = op_dup, ins_data = None, ins_start = 0, ins_end = 1\<rparr>])
      (exec_initial [[7]]) = Inr (pkh_state [[7], [7]] 1)" by code_simp
  moreover have "digests_ok (sc_env sample_script_context)" "length [[7]] \<le> max_script_stack" "items_ok [[7]]"
    using sample_digests_ok by (simp_all add: sample_script_context_def script_limits)
  ultimately show ?thesis using execution_limits [THEN conjunct1, THEN mp] by blast
qed

theorem check_multisig_exact_witness:
  "check_multisig sample_script_context [op_checkmultisig]
     (exec_initial ([[]] @ [sample_signature 5] @ [encode_script_number 1] @ [sample_key 4, sample_key 5] @
        [encode_script_number 2])) =
   Inr (True, (exec_initial [])\<lparr>ex_operation_count := 2\<rparr>)"
proof -
  let ?st = "exec_initial ([[]] @ [sample_signature 5] @ [encode_script_number 1] @ [sample_key 4, sample_key 5] @
        [encode_script_number 2])"
  let ?ok = "\<lambda>s k. s ! 0 = k ! 1"
  have c: "check_signature sample_script_context [op_checkmultisig] (sample_signature 5) (sample_key 4) = Inr False"
    "check_signature sample_script_context [op_checkmultisig] (sample_signature 5) (sample_key 5) = Inr True"
    by code_simp+
  have oks: "\<not> ?ok (sample_signature 5) (sample_key 4)" "?ok (sample_signature 5) (sample_key 5)" by code_simp+
  have "check_signature sample_script_context [op_checkmultisig] s k = Inr (?ok s k)"
    if "s \<in> set [sample_signature 5]" "k \<in> set [sample_key 4, sample_key 5]" for s k
    using that c oks by auto
  moreover have "signatures_match ?ok [sample_signature 5] [sample_key 4, sample_key 5] (Suc 0) (Suc (Suc 0))"
    unfolding signatures_match_def by (rule exI [of _ "\<lambda>_. 1"]) (use oks in simp)
  ultimately show ?thesis
    using check_multisig_exact [of ?st "[]" "[sample_signature 5]" "[sample_key 4, sample_key 5]" sample_script_context
        "[op_checkmultisig]" ?ok]
    by (simp add: exec_initial_def script_limits)
qed

definition sample_pkh_coin :: coin where
  "sample_pkh_coin = \<lparr>coin_outpoint = \<lparr>op_hash = replicate 32 9, op_index = 1\<rparr>, coin_value = 10, coin_height = 0,
     coin_coinbase = False,
     coin_address = \<lparr>addr_version = 0, addr_hash = length_digest_of 20 (sample_key 5)\<rparr>, coin_covenant = covenant_default\<rparr>"

definition sample_pkh_spend :: transaction where
  "sample_pkh_spend = sample_spend\<lparr>tx_inputs := [\<lparr>in_previous_output = \<lparr>op_hash = replicate 32 9, op_index = 1\<rparr>,
     in_sequence = 5, in_witness = [sample_signature 5, sample_key 5]\<rparr>]\<rparr>"

theorem pubkey_hash_spend_exact_witness:
  "verify_witness_program sample_env sample_pkh_spend 0 sample_pkh_coin flags_standard = Inr ()"
proof -
  have "check_signature \<lparr>sc_env = sample_env, sc_script = pubkey_hash_script (addr_hash (coin_address sample_pkh_coin)),
      sc_transaction = sample_pkh_spend, sc_input_index = 0, sc_previous_value = coin_value sample_pkh_coin,
      sc_flags = flags_standard\<rparr> (pubkey_hash_script (addr_hash (coin_address sample_pkh_coin)))
      (sample_signature 5) (sample_key 5) = Inr True" by code_simp
  moreover have "0 < length (tx_inputs sample_pkh_spend)"
    "in_previous_output (tx_inputs sample_pkh_spend ! 0) = coin_outpoint sample_pkh_coin"
    "addr_version (coin_address sample_pkh_coin) = 0" "length (addr_hash (coin_address sample_pkh_coin)) = 20"
    "in_witness (tx_inputs sample_pkh_spend ! 0) = [sample_signature 5, sample_key 5]"
    "se_blake2b_160 sample_env (sample_key 5) = addr_hash (coin_address sample_pkh_coin)" by code_simp+
  ultimately show ?thesis by (intro pubkey_hash_spend_exact [THEN iffD2] exI conjI)
qed

end
