(* ===== verification/FeePolicy.thy ===== *)
theory FeePolicy
  imports ScriptExec
begin

text \<open>
  Model of \<^verbatim>\<open>crates/hns-script/src/policy.rs\<close>: policy sizes and minimum fees.  The newtypes
  \<^verbatim>\<open>TransactionWeight\<close>, \<^verbatim>\<open>SigopCost\<close>, \<^verbatim>\<open>PolicyVirtualSize\<close> and \<^verbatim>\<open>FeeRate\<close> are the 32-bit words they wrap.
\<close>

section \<open>Definitions\<close>

type_synonym transaction_weight_units = u32
type_synonym sigop_cost = u32
type_synonym policy_virtual_size = u32
type_synonym fee_rate = u32

datatype fee_policy_error =
    FpTransaction transaction_error
  | FpScript script_error
  | TransactionWeightOutOfRange
  | VirtualSizeOutOfRange u64
  | FpArithmeticOverflow

definition policy_witness_scale_factor :: u32 where "policy_witness_scale_factor = 4"
definition policy_bytes_per_sigop :: u32 where "policy_bytes_per_sigop = 20"
definition policy_fee_rate_scale :: u32 where "policy_fee_rate_scale = 1000"
definition min_relay_fee_rate :: fee_rate where "min_relay_fee_rate = 1000"
definition max_policy_transaction_weight :: transaction_weight_units where "max_policy_transaction_weight = 400000"
definition max_policy_transaction_sigops :: sigop_cost where "max_policy_transaction_sigops = 16000"

lemmas policy_constants = policy_witness_scale_factor_def policy_bytes_per_sigop_def policy_fee_rate_scale_def

definition sigop_adjusted_virtual_size ::
  "transaction_weight_units \<Rightarrow> sigop_cost \<Rightarrow> fee_policy_error + policy_virtual_size" where
  "sigop_adjusted_virtual_size weight sigops =
     bind_res (ok_or (checked_mul (ucast sigops :: u64) (ucast policy_bytes_per_sigop)) FpArithmeticOverflow) (\<lambda>sigop_weight.
     let adjusted_weight = max (ucast weight) sigop_weight in
     bind_res (ok_or (checked_add adjusted_weight (ucast (policy_witness_scale_factor - 1))) FpArithmeticOverflow) (\<lambda>total.
     let virtual_bytes = total div ucast policy_witness_scale_factor in
     if unat virtual_bytes < 2 ^ 32 then Inr (ucast virtual_bytes) else Inl (VirtualSizeOutOfRange virtual_bytes)))"

definition transaction_policy_virtual_size ::
  "transaction \<Rightarrow> coin list \<Rightarrow> fee_policy_error + policy_virtual_size" where
  "transaction_policy_virtual_size tx input_coins =
     bind_res (map_err FpTransaction (tx_weight tx)) (\<lambda>weight.
     if weight \<ge> 2 ^ 32 then Inl TransactionWeightOutOfRange
     else
       bind_res (map_err FpScript (transaction_sigops tx input_coins)) (\<lambda>sigops.
       sigop_adjusted_virtual_size (word_of_nat weight) sigops))"

definition minimum_policy_fee :: "policy_virtual_size \<Rightarrow> fee_rate \<Rightarrow> fee_policy_error + dollarydoos" where
  "minimum_policy_fee virtual_size rate =
     (if virtual_size = 0 then Inr 0
      else
        bind_res (ok_or (checked_mul (ucast rate :: u64) (ucast virtual_size)) FpArithmeticOverflow) (\<lambda>product.
        let fee = product div ucast policy_fee_rate_scale in
        if fee = 0 \<and> rate > 0 then Inr (ucast rate) else Inr fee))"

section \<open>Exact arithmetic\<close>

lemma unat_ucast_u64 [simp]: "unat (ucast (w::u32) :: u64) = unat w"
proof -
  have "unat w < 2 ^ 64" using unat_less_pow [of w] by simp
  then show ?thesis by (simp add: unsigned_ucast_eq take_bit_nat_eq_self)
qed

lemma unat_max: "unat (max a b) = max (unat a) (unat (b::'w::len word))"
  by (simp add: max_def word_le_nat_alt)

text \<open>The size on natural numbers: the larger of weight and twenty per operation, in units of four, rounded up.\<close>

definition policy_size_of :: "nat \<Rightarrow> nat \<Rightarrow> nat" where
  "policy_size_of weight sigops = div_ceil (max weight (20 * sigops)) 4"

definition policy_fee_of :: "nat \<Rightarrow> nat \<Rightarrow> nat" where
  "policy_fee_of virtual_size rate =
     (if virtual_size = 0 then 0
      else if rate * virtual_size < 1000 then rate else rate * virtual_size div 1000)"

lemma virtual_size_exact:
  "sigop_adjusted_virtual_size w s =
    (if policy_size_of (unat w) (unat s) < 2 ^ 32 then Inr (word_of_nat (policy_size_of (unat w) (unat s)))
     else Inl (VirtualSizeOutOfRange (word_of_nat (policy_size_of (unat w) (unat s)))))"
proof -
  have b: "unat w < 2 ^ 32" "unat s < 2 ^ 32" using unat_less_pow [of w] unat_less_pow [of s] by simp_all
  let ?sw = "ucast s * 20 :: u64"
  have c: "ucast policy_bytes_per_sigop = (20::u64)" "ucast (policy_witness_scale_factor - 1) = (3::u64)"
    "ucast policy_witness_scale_factor = (4::u64)" by (simp_all add: policy_constants)
  have sw: "unat ?sw = 20 * unat s" using b by (simp add: unat_word_ariths)
  let ?aw = "max (ucast w) ?sw :: u64"
  have aw: "unat ?aw = max (unat w) (20 * unat s)" by (simp add: unat_max sw)
  have t: "unat (?aw + 3) = max (unat w) (20 * unat s) + 3" using b aw by (simp add: unat_word_ariths)
  have v: "unat ((?aw + 3) div 4) = policy_size_of (unat w) (unat s)"
    unfolding unat_div t by (simp add: policy_size_of_def div_ceil_def)
  have m: "checked_mul (ucast s :: u64) 20 = Some ?sw" using b by (simp add: checked_mul_def)
  have a: "checked_add ?aw 3 = Some (?aw + 3)" using b aw by (simp add: checked_add_def)
  have "sigop_adjusted_virtual_size w s =
      (if unat ((?aw + 3) div 4) < 2 ^ 32 then Inr (ucast ((?aw + 3) div 4)) else Inl (VirtualSizeOutOfRange ((?aw + 3) div 4)))"
    unfolding sigop_adjusted_virtual_size_def c m Let_def ok_or_def by (simp add: a)
  moreover have "(ucast ((?aw + 3) div 4) :: u32) = word_of_nat (policy_size_of (unat w) (unat s))"
    "(?aw + 3) div 4 = word_of_nat (policy_size_of (unat w) (unat s))"
    unfolding v [symmetric] by simp_all
  ultimately show ?thesis unfolding v by simp
qed

lemma fee_exact: "minimum_policy_fee vs r = Inr (word_of_nat (policy_fee_of (unat vs) (unat r)))"
proof (cases "vs = 0")
  case False
  have b: "unat r < 2 ^ 32" "unat vs < 2 ^ 32" using unat_less_pow [of r] unat_less_pow [of vs] by simp_all
  have "unat r * unat vs \<le> unat r * 2 ^ 32" using b by simp
  also have "\<dots> < 2 ^ 32 * 2 ^ 32" using b by simp
  finally have lt: "unat r * unat vs < 2 ^ 64" by simp
  let ?p = "ucast r * ucast vs :: u64"
  have p: "unat ?p = unat r * unat vs" using lt by (simp add: unat_word_ariths)
  have c: "ucast policy_fee_rate_scale = (1000::u64)" by (simp add: policy_constants)
  have m: "checked_mul (ucast r :: u64) (ucast vs) = Some ?p" using lt by (simp add: checked_mul_def)
  have q: "unat (?p div 1000) = unat r * unat vs div 1000" unfolding unat_div p by simp
  then have z: "?p div 1000 = 0 \<longleftrightarrow> unat r * unat vs < 1000" by (simp add: unat_eq_zero [symmetric] div_eq_0_iff)
  have "minimum_policy_fee vs r = (if ?p div 1000 = 0 \<and> r > 0 then Inr (ucast r) else Inr (?p div 1000))"
    using False unfolding minimum_policy_fee_def c m Let_def ok_or_def by simp
  moreover have "?p div 1000 = word_of_nat (unat r * unat vs div 1000)" unfolding q [symmetric] by simp
  moreover have "(ucast r :: u64) = word_of_nat (unat r)" by (simp only: of_nat_unat)
  moreover have "\<not> r > 0 \<longleftrightarrow> unat r = 0" by (simp add: word_gt_0 unat_eq_zero)
  moreover have "unat vs \<noteq> 0" using False by (simp add: unat_eq_zero)
  ultimately show ?thesis using z
    by (cases "unat r * unat vs < 1000"; cases "unat r = 0") (simp_all only: policy_fee_of_def if_True if_False simp_thms
      mult_0 div_0 not_less_zero)
qed (simp add: minimum_policy_fee_def policy_fee_of_def)

text \<open>
  Fee policy: the 64-bit arithmetic never overflows: the policy size is the larger of the weight
  and twenty times the signature operations, divided by four and rounded up (an error exactly when that does not
  fit 32 bits), and the minimum fee is the rate times the size over 1000, rounded down, where a quotient of
  zero is replaced by the whole rate.
\<close>

theorem fee_policy_exact:
  "minimum_policy_fee vs r = Inr (word_of_nat (policy_fee_of (unat vs) (unat r))) \<and>
   policy_fee_of (unat vs) (unat r) < 2 ^ 64 \<and>
   sigop_adjusted_virtual_size w s =
    (if policy_size_of (unat w) (unat s) < 2 ^ 32 then Inr (word_of_nat (policy_size_of (unat w) (unat s)))
     else Inl (VirtualSizeOutOfRange (word_of_nat (policy_size_of (unat w) (unat s)))))"
proof -
  have b: "unat r < 2 ^ 32" "unat vs < 2 ^ 32" using unat_less_pow [of r] unat_less_pow [of vs] by simp_all
  have "unat r * unat vs \<le> unat r * 2 ^ 32" using b by simp
  also have "\<dots> < 2 ^ 32 * 2 ^ 32" using b by simp
  finally have "unat r * unat vs div 1000 < 2 ^ 64" by simp
  then have "policy_fee_of (unat vs) (unat r) < 2 ^ 64" using b by (simp add: policy_fee_of_def)
  then show ?thesis using virtual_size_exact fee_exact by blast
qed

end
