(* ===== verification/Verifier.thy ===== *)
theory Verifier
  imports ScriptExec
begin

text \<open>
  The signature verifiers of \<^verbatim>\<open>crates/hns-script/src/interpreter.rs\<close> over the \<^verbatim>\<open>k256\<close> crate, which is
  a parameter: parsing of signatures and public keys, the low-S form, and verification.
  A 64-byte string stands for the signature it parses to.
\<close>

record k256 =
  k_signature_parses :: "bytes \<Rightarrow> bool"
  k_normalize_s :: "bytes \<Rightarrow> bytes option"
  k_public_key_parses :: "bytes \<Rightarrow> bool"
  k_verify_prehash :: "bytes \<Rightarrow> bytes \<Rightarrow> bytes \<Rightarrow> bool"

definition k256_validate_compact_signature :: "k256 \<Rightarrow> bytes \<Rightarrow> script_error + unit" where
  "k256_validate_compact_signature K signature =
     (if \<not> k_signature_parses K signature then Inl SignatureEncoding
      else if k_normalize_s K signature \<noteq> None then Inl SignatureEncoding
      else Inr ())"

definition k256_verify :: "k256 \<Rightarrow> bytes \<Rightarrow> bytes \<Rightarrow> bytes \<Rightarrow> script_error + bool" where
  "k256_verify K message signature public_key =
     (if \<not> k_signature_parses K signature then Inl SignatureEncoding
      else if \<not> k_public_key_parses K public_key then Inl PublicKeyEncoding
      else Inr (k_verify_prehash K public_key message signature))"

definition k256_env :: "k256 \<Rightarrow> script_env \<Rightarrow> script_env" where
  "k256_env K env = env\<lparr>se_validate_signature := k256_validate_compact_signature K,
     se_verify_signature := k256_verify K\<rparr>"

definition unavailable_env :: "script_env \<Rightarrow> script_env" where
  "unavailable_env env = env\<lparr>se_validate_signature := (\<lambda>_. Inl SignatureBackendUnavailable),
     se_verify_signature := (\<lambda>_ _ _. Inl SignatureBackendUnavailable)\<rparr>"

fun hsd_code :: "script_error \<Rightarrow> string" where
  "hsd_code OpReturn = ''OP_RETURN''"
| "hsd_code ScriptSize = ''SCRIPT_SIZE''"
| "hsd_code StackSize = ''STACK_SIZE''"
| "hsd_code PushSize = ''PUSH_SIZE''"
| "hsd_code WitnessProgramWitnessEmpty = ''WITNESS_PROGRAM_WITNESS_EMPTY''"
| "hsd_code WitnessProgramMismatch = ''WITNESS_PROGRAM_MISMATCH''"
| "hsd_code WitnessProgramWrongLength = ''WITNESS_PROGRAM_WRONG_LENGTH''"
| "hsd_code DiscourageUpgradableWitnessProgram = ''DISCOURAGE_UPGRADABLE_WITNESS_PROGRAM''"
| "hsd_code DiscourageUpgradableNops = ''DISCOURAGE_UPGRADABLE_NOPS''"
| "hsd_code EvalFalse = ''EVAL_FALSE''"
| "hsd_code (BadOpcode _) = ''BAD_OPCODE''"
| "hsd_code (DisabledOpcode _) = ''DISABLED_OPCODE''"
| "hsd_code OperationCount = ''OP_COUNT''"
| "hsd_code MinimalData = ''MINIMALDATA''"
| "hsd_code MinimalIf = ''MINIMALIF''"
| "hsd_code UnbalancedConditional = ''UNBALANCED_CONDITIONAL''"
| "hsd_code InvalidStackOperation = ''INVALID_STACK_OPERATION''"
| "hsd_code InvalidAltStackOperation = ''INVALID_ALTSTACK_OPERATION''"
| "hsd_code VerifyFailed = ''VERIFY''"
| "hsd_code EqualVerify = ''EQUALVERIFY''"
| "hsd_code NumEqualVerify = ''NUMEQUALVERIFY''"
| "hsd_code NegativeLocktime = ''NEGATIVE_LOCKTIME''"
| "hsd_code UnsatisfiedLocktime = ''UNSATISFIED_LOCKTIME''"
| "hsd_code PublicKeyCount = ''PUBKEY_COUNT''"
| "hsd_code SignatureCount = ''SIG_COUNT''"
| "hsd_code PublicKeyEncoding = ''PUBKEY_ENCODING''"
| "hsd_code SignatureEncoding = ''SIG_ENCODING''"
| "hsd_code SignatureNullDummy = ''SIG_NULLDUMMY''"
| "hsd_code NullFail = ''NULLFAIL''"
| "hsd_code CheckSigVerify = ''CHECKSIGVERIFY''"
| "hsd_code CheckMultiSigVerify = ''CHECKMULTISIGVERIFY''"
| "hsd_code (InputIndex _ _) = ''UNKNOWN_ERROR''"
| "hsd_code (InvalidSignatureHashType _) = ''UNKNOWN_ERROR''"
| "hsd_code (ScriptTransaction _) = ''UNKNOWN_ERROR''"
| "hsd_code (InputCoinCount _ _) = ''UNKNOWN_ERROR''"
| "hsd_code InputCoinMismatch = ''UNKNOWN_ERROR''"
| "hsd_code NumericOverflow = ''UNKNOWN_ERROR''"
| "hsd_code NonMinimalNumber = ''UNKNOWN_ERROR''"
| "hsd_code SignatureBackendUnavailable = ''UNKNOWN_ERROR''"

section \<open>What a checked signature means\<close>

lemma k256_env_simps [simp]:
  "se_blake2b_160 (k256_env K env) = se_blake2b_160 env" "se_blake2b_256 (k256_env K env) = se_blake2b_256 env"
  "se_sha3_256 (k256_env K env) = se_sha3_256 env" "se_sha256 (k256_env K env) = se_sha256 env"
  "se_validate_signature (k256_env K env) = k256_validate_compact_signature K"
  "se_verify_signature (k256_env K env) = k256_verify K"
  by (simp_all add: k256_env_def)

text \<open>A signature is accepted exactly when it is well formed, low-S and verifies the signature hash.\<close>

lemma check_signature_k256:
  assumes "sc_env ctx = k256_env K env"
  shows "check_signature ctx subscript s k = Inr True \<longleftrightarrow>
    length s = 65 \<and> is_valid_signature_hash_type (s ! 64) \<and> k_signature_parses K (take 64 s) \<and>
    k_normalize_s K (take 64 s) = None \<and> length k = 33 \<and> (k ! 0 = 2 \<or> k ! 0 = 3) \<and> k_public_key_parses K k \<and>
    (\<exists>message. signature_hash (se_blake2b_256 env) (sc_transaction ctx) (sc_input_index ctx) subscript
       (sc_previous_value ctx) (ucast (s ! 64)) = Inr message \<and> k_verify_prehash K k message (take 64 s))"
  by (cases "s = []")
    (auto simp: check_signature_def assms bind_res_eq_Inr k256_validate_compact_signature_def k256_verify_def
      split: if_splits)

lemma check_signature_empty:
  assumes "length k = 33" "k ! 0 = 2 \<or> k ! 0 = 3"
  shows "check_signature ctx subscript [] k = Inr False"
  using assms by (simp add: check_signature_def)

text \<open>Without a backend no non-empty signature is ever accepted or called false: the check fails closed.\<close>

lemma unavailable_fails_closed:
  assumes "sc_env ctx = unavailable_env env" "s \<noteq> []"
  shows "\<exists>e. check_signature ctx subscript s k = Inl e"
  using assms by (auto simp: check_signature_def unavailable_env_def)

end
