(* ===== verification/Swap.thy ===== *)
theory Swap
  imports Verifier NameTx
begin

text \<open>
  Model of \<^verbatim>\<open>crates/hns-swap/src/lib.rs\<close>: HIP-0001 name sales.  A name is locked in a coin of the swap
  script; the seller presigns the sale, a buyer completes the transaction, or the seller recovers the
  name.  The hash functions are those of a script environment \<open>E\<close>, ECDSA is the record \<open>K\<close>.
\<close>

section \<open>Data\<close>

datatype (plugins only: size) swap_error =
    SwDecode decode_error
  | SwCovenant covenant_error
  | SwScript script_error
  | SwTransaction transaction_error
  | SwNameTransaction name_transaction_error
  | SwUnsupportedVersion u16
  | ProofTooLarge nat
  | BundleTooLarge nat
  | InvalidPresenceFlag string
  | SwInvalidName
  | InvalidPublicKey
  | ZeroPrice
  | InvalidFee
  | LockTimeOutOfRange u64
  | WrongSellerHashType byte
  | UnsignedProof
  | NetworkMismatch
  | SigningKeyMismatch
  | SignatureFailure
  | InvalidSignature
  | HighSignature
  | OutpointMismatch
  | NullShakedexLockingOutpoint
  | CoinbaseShakedexLockingCoin
  | LockingCoinNotFinalize
  | SwNameMismatch
  | SwNameHashMismatch
  | LockScriptMismatch
  | MissingShakedexBuyerInputs
  | MissingShakedexRecoveryFundingInputs
  | DuplicateShakedexSellerInput
  | InvalidShakedexLockingCovenant
  | InvalidShakedexFulfillment string
  | UnrecognizedShakedexSpend
  | MissingShakedexRecoveryRecipient
  | InvalidShakedexRecovery string
  | WrongShakedexSpendHashType byte byte
  | InvalidStepCount nat
  | InvalidPriceSchedule
  | InvalidLockSchedule
  | NonCanonicalSchedule
  | InconsistentAuction
  | ZeroListingSequence
  | UnsupportedListingVersion u16
  | InvalidListingLifetime
  | ListingTooLarge nat
  | UnsignedListingProof
  | UnsignedListing
  | ListingHashMismatch
  | ListingNotYetActive
  | ListingExpired
  | ZeroCancellationSequence
  | UnsupportedCancellationVersion u16
  | InvalidCancellationLifetime
  | CancellationTooLarge nat
  | UnsignedCancellation
  | CancellationHashMismatch
  | CancellationListingMismatch
  | CancellationSequenceNotNewer
  | CancellationExpiresTooEarly
  | CancellationNotYetActive
  | CancellationExpired
  | HighMarketplaceSignature
  | UnsupportedHtlcVersion u16
  | HtlcTooLarge nat
  | ZeroHtlcValue
  | ZeroHtlcHashlock
  | HtlcKeyReuse
  | ZeroHtlcRefundLocktime
  | HtlcValueMismatch
  | HtlcAddressMismatch
  | HtlcCovenantMismatch
  | HtlcFundingOutputIndex nat nat
  | HtlcSpendInputIndex nat nat
  | HtlcOutpointMismatch
  | InvalidHtlcSignatureHashType byte
  | InvalidHtlcSignature
  | HighHtlcSignature
  | HtlcPreimageMismatch
  | InvalidHtlcWitness
  | SwArithmeticOverflow

text \<open>Equality of errors, for the evaluation of examples.\<close>

instantiation swap_error :: equal
begin

definition equal_swap_error :: "swap_error \<Rightarrow> swap_error \<Rightarrow> bool" where
  "equal_swap_error a b \<longleftrightarrow> a = b"

instance by standard (simp add: equal_swap_error_def)

end

definition shakedex_protocol_version :: u16 where "shakedex_protocol_version = 2"
definition max_swap_proof_size :: nat where "max_swap_proof_size = 4 * 1024"
definition max_auction_steps :: nat where "max_auction_steps = 512"
definition max_auction_bundle_size :: nat where "max_auction_bundle_size = 1024 * 1024"
definition hsd_locktime_multiplier :: u64 where "hsd_locktime_multiplier = 512"
definition max_hsd_time_lock :: u64 where "max_hsd_time_lock = push_bit 40 1"
definition shakedex_recovery_sighash :: u32 where
  "shakedex_recovery_sighash = sighash_single OR sighash_anyone_can_pay"

definition op_9 :: byte where "op_9 = 0x59"
definition op_10 :: byte where "op_10 = 0x5a"

record hsd_time_lock =
  tl_encoded :: u32
  tl_effective_time_seconds :: u64

record network_binding =
  nb_magic :: u32
  nb_genesis :: bytes

record swap_proof =
  sp_network :: network_binding
  sp_locking_outpoint :: outpoint
  sp_name :: bytes
  sp_seller_public_key :: bytes
  sp_payment_address :: address
  sp_price :: dollarydoos
  sp_lock_time_seconds :: u64
  sp_signature :: "bytes option"
  sp_fee_address :: "address option"
  sp_fee :: dollarydoos

datatype shakedex_spend_kind = Fulfillment | Recovery

record shakedex_lock_descriptor =
  sl_network :: network_binding
  sl_locking_outpoint :: outpoint
  sl_name :: bytes
  sl_seller_public_key :: bytes

section \<open>Lock scripts and time locks\<close>

definition create_lock_script :: "bytes \<Rightarrow> bytes" where
  "create_lock_script public_key =
     [op_type, op_9, op_equal, op_if, 33] @ public_key @
     [op_checksig, op_else, op_type, op_10, op_equal, op_endif]"

definition lock_script_hash :: "script_env \<Rightarrow> bytes \<Rightarrow> bytes" where
  "lock_script_hash E public_key = se_sha3_256 E (create_lock_script public_key)"

definition encode_time_lock :: "u64 \<Rightarrow> swap_error + u32" where
  "encode_time_lock seconds =
     (if seconds \<ge> max_hsd_time_lock then Inl (LockTimeOutOfRange seconds)
      else
        let units = seconds div hsd_locktime_multiplier in
        if unat units < 2 ^ 32 then Inr (locktime_flag OR ucast units) else Inl (LockTimeOutOfRange seconds))"

definition encode_time_lock_not_before :: "u64 \<Rightarrow> swap_error + hsd_time_lock" where
  "encode_time_lock_not_before seconds =
     (if seconds = 0 \<or> seconds \<ge> max_hsd_time_lock then Inl (LockTimeOutOfRange seconds)
      else
        bind_res (ok_or (checked_add seconds (hsd_locktime_multiplier - 1)) SwArithmeticOverflow) (\<lambda>total.
        let units = total div hsd_locktime_multiplier in
        if units > ucast locktime_mask then Inl (LockTimeOutOfRange seconds)
        else if unat units < 2 ^ 32 then
          bind_res (ok_or (checked_mul (ucast (ucast units :: u32)) hsd_locktime_multiplier) SwArithmeticOverflow) (\<lambda>t.
          Inr \<lparr>tl_encoded = locktime_flag OR ucast units, tl_effective_time_seconds = t\<rparr>)
        else Inl (LockTimeOutOfRange seconds)))"

section \<open>Lock descriptors\<close>

definition descriptor_validate :: "k256 \<Rightarrow> shakedex_lock_descriptor \<Rightarrow> swap_error + unit" where
  "descriptor_validate K d =
     (if outpoint_is_null (sl_locking_outpoint d) then Inl NullShakedexLockingOutpoint
      else if \<not> validate_name (sl_name d) then Inl SwInvalidName
      else if \<not> k_public_key_parses K (sl_seller_public_key d) then Inl InvalidPublicKey
      else Inr ())"

definition descriptor_new ::
  "k256 \<Rightarrow> network_binding \<Rightarrow> outpoint \<Rightarrow> bytes \<Rightarrow> bytes \<Rightarrow> swap_error + shakedex_lock_descriptor" where
  "descriptor_new K network locking_outpoint name seller_public_key =
     (let d = \<lparr>sl_network = network, sl_locking_outpoint = locking_outpoint, sl_name = name,
               sl_seller_public_key = seller_public_key\<rparr>
      in bind_res (descriptor_validate K d) (\<lambda>_. Inr d))"

definition descriptor_lock_script :: "k256 \<Rightarrow> shakedex_lock_descriptor \<Rightarrow> swap_error + bytes" where
  "descriptor_lock_script K d =
     bind_res (descriptor_validate K d) (\<lambda>_. Inr (create_lock_script (sl_seller_public_key d)))"

definition lock_script_identifier :: "script_env \<Rightarrow> k256 \<Rightarrow> shakedex_lock_descriptor \<Rightarrow> swap_error + bytes" where
  "lock_script_identifier E K d =
     bind_res (descriptor_validate K d) (\<lambda>_. Inr (lock_script_hash E (sl_seller_public_key d)))"

definition descriptor_verify_locking_coin ::
  "script_env \<Rightarrow> k256 \<Rightarrow> shakedex_lock_descriptor \<Rightarrow> coin \<Rightarrow> swap_error + unit" where
  "descriptor_verify_locking_coin E K d c =
     bind_res (descriptor_validate K d) (\<lambda>_.
     if outpoint_is_null (coin_outpoint c) then Inl NullShakedexLockingOutpoint
     else if coin_coinbase c then Inl CoinbaseShakedexLockingCoin
     else if coin_outpoint c \<noteq> sl_locking_outpoint d then Inl OutpointMismatch
     else if cov_kind (coin_covenant c) \<noteq> Finalize then Inl LockingCoinNotFinalize
     else if cov_item (coin_covenant c) 2 \<noteq> Some (sl_name d) then Inl SwNameMismatch
     else
       bind_res (map_err SwCovenant (hash_name (se_sha3_256 E) (sl_name d))) (\<lambda>expected_name_hash.
       if cov_item_name_hash (coin_covenant c) 0 \<noteq> Some expected_name_hash then Inl SwNameHashMismatch
       else
         bind_res (map_err (\<lambda>_. InvalidShakedexLockingCovenant) (finalize_try_from (se_sha3_256 E) (coin_covenant c))) (\<lambda>_.
         if addr_version (coin_address c) \<noteq> 0 \<or>
            addr_hash (coin_address c) \<noteq> lock_script_hash E (sl_seller_public_key d)
         then Inl LockScriptMismatch
         else Inr ())))"

definition descriptor_from_locking_coin ::
  "script_env \<Rightarrow> k256 \<Rightarrow> network_binding \<Rightarrow> coin \<Rightarrow> bytes \<Rightarrow> swap_error + shakedex_lock_descriptor" where
  "descriptor_from_locking_coin E K network c seller_public_key =
     (if cov_kind (coin_covenant c) \<noteq> Finalize then Inl LockingCoinNotFinalize
      else
        bind_res (map_err (\<lambda>_. InvalidShakedexLockingCovenant) (finalize_try_from (se_sha3_256 E) (coin_covenant c))) (\<lambda>f.
        bind_res (descriptor_new K network (coin_outpoint c) (fc_name f) seller_public_key) (\<lambda>d.
        bind_res (descriptor_verify_locking_coin E K d c) (\<lambda>_. Inr d))))"

definition descriptor_verify_for_network ::
  "script_env \<Rightarrow> k256 \<Rightarrow> shakedex_lock_descriptor \<Rightarrow> network_binding \<Rightarrow> coin \<Rightarrow> swap_error + unit" where
  "descriptor_verify_for_network E K d expected_network c =
     (if sl_network d \<noteq> expected_network then Inl NetworkMismatch else descriptor_verify_locking_coin E K d c)"

section \<open>Recovery\<close>

definition validate_shakedex_signature :: "k256 \<Rightarrow> bytes \<Rightarrow> byte \<Rightarrow> swap_error + bytes" where
  "validate_shakedex_signature K encoded expected_hash_type =
     (if encoded ! 64 \<noteq> expected_hash_type then Inl (WrongShakedexSpendHashType (encoded ! 64) expected_hash_type)
      else if \<not> k_signature_parses K (take 64 encoded) then Inl InvalidSignature
      else if k_normalize_s K (take 64 encoded) \<noteq> None then Inl HighSignature
      else Inr (take 64 encoded))"

definition verify_recovery_layout ::
  "script_env \<Rightarrow> k256 \<Rightarrow> shakedex_lock_descriptor \<Rightarrow> transaction \<Rightarrow> coin \<Rightarrow> address \<Rightarrow> bool \<Rightarrow> swap_error + unit" where
  "verify_recovery_layout E K d tx c recipient require_witness =
     bind_res (descriptor_verify_locking_coin E K d c) (\<lambda>_.
     bind_res (map_err SwTransaction (address_validate recipient)) (\<lambda>_.
     if tx_version tx \<noteq> 0 \<or> tx_locktime tx \<noteq> 0 \<or> length (tx_inputs tx) < 2
     then Inl (InvalidShakedexRecovery ''transaction header or funding layout differs'')
     else
       let seller_input = tx_inputs tx ! 0; script = create_lock_script (sl_seller_public_key d) in
       if in_previous_output seller_input \<noteq> coin_outpoint c \<or> in_sequence seller_input \<noteq> 0xffffffff
       then Inl (InvalidShakedexRecovery ''seller input is not canonical index zero'')
       else if list_ex (\<lambda>i. in_previous_output i = coin_outpoint c) (drop 1 (tx_inputs tx))
       then Inl DuplicateShakedexSellerInput
       else
         bind_res
           (if require_witness then
              (case in_witness seller_input of
                 [_, witness_script] \<Rightarrow>
                   if witness_script \<noteq> script then Inl (InvalidShakedexRecovery ''seller witness script differs'') else Inr ()
               | _ \<Rightarrow> Inl (InvalidShakedexRecovery ''seller witness layout differs''))
            else if in_witness seller_input \<noteq> [] then
              (case in_witness seller_input of
                 [_, witness_script] \<Rightarrow>
                   if witness_script \<noteq> script then Inl (InvalidShakedexRecovery ''seller witness script differs'') else Inr ()
               | _ \<Rightarrow> Inl (InvalidShakedexRecovery ''seller witness is neither absent nor canonical''))
            else Inr ()) (\<lambda>_.
         bind_res (ok_or (get (tx_outputs tx) 0) (InvalidShakedexRecovery ''recovery TRANSFER output is missing'')) (\<lambda>transfer.
         bind_res (map_err SwNameTransaction (build_transfer_output (se_sha3_256 E) c recipient)) (\<lambda>expected.
         if transfer \<noteq> expected then Inl (InvalidShakedexRecovery ''recovery TRANSFER output differs'')
         else Inr ())))))"

definition descriptor_recovery_transaction ::
  "script_env \<Rightarrow> k256 \<Rightarrow> shakedex_lock_descriptor \<Rightarrow> coin \<Rightarrow> address \<Rightarrow> tx_input list \<Rightarrow> tx_output list \<Rightarrow>
   swap_error + transaction" where
  "descriptor_recovery_transaction E K d c recipient funding_inputs funding_outputs =
     bind_res (descriptor_verify_locking_coin E K d c) (\<lambda>_.
     if funding_inputs = [] then Inl MissingShakedexRecoveryFundingInputs
     else if list_ex (\<lambda>i. in_previous_output i = coin_outpoint c) funding_inputs
     then Inl DuplicateShakedexSellerInput
     else
       bind_res (map_err SwNameTransaction
         (build_transfer_transaction (se_sha3_256 E) c recipient funding_inputs funding_outputs)) (\<lambda>tx.
       bind_res (verify_recovery_layout E K d tx c recipient False) (\<lambda>_. Inr tx)))"

definition descriptor_recovery_signature_hash ::
  "script_env \<Rightarrow> k256 \<Rightarrow> shakedex_lock_descriptor \<Rightarrow> transaction \<Rightarrow> coin \<Rightarrow> address \<Rightarrow> swap_error + bytes" where
  "descriptor_recovery_signature_hash E K d tx c recipient =
     bind_res (verify_recovery_layout E K d tx c recipient False) (\<lambda>_.
     map_err SwScript (signature_hash (se_blake2b_256 E) tx 0 (create_lock_script (sl_seller_public_key d))
       (coin_value c) shakedex_recovery_sighash))"

definition descriptor_recovery_witness ::
  "k256 \<Rightarrow> shakedex_lock_descriptor \<Rightarrow> bytes \<Rightarrow> swap_error + bytes list" where
  "descriptor_recovery_witness K d signature =
     bind_res (descriptor_validate K d) (\<lambda>_.
     bind_res (validate_shakedex_signature K signature (ucast shakedex_recovery_sighash)) (\<lambda>_.
     Inr [signature, create_lock_script (sl_seller_public_key d)]))"

definition finalize_witness :: "k256 \<Rightarrow> shakedex_lock_descriptor \<Rightarrow> swap_error + bytes list" where
  "finalize_witness K d =
     bind_res (descriptor_validate K d) (\<lambda>_. Inr [create_lock_script (sl_seller_public_key d)])"

definition descriptor_verify_recovery ::
  "script_env \<Rightarrow> k256 \<Rightarrow> shakedex_lock_descriptor \<Rightarrow> transaction \<Rightarrow> coin \<Rightarrow> address \<Rightarrow> swap_error + unit" where
  "descriptor_verify_recovery E K d tx c recipient =
     bind_res (verify_recovery_layout E K d tx c recipient True) (\<lambda>_.
     bind_res (ok_or (as_array 65 (in_witness (tx_inputs tx ! 0) ! 0)) InvalidSignature) (\<lambda>signature.
     bind_res (validate_shakedex_signature K signature (ucast shakedex_recovery_sighash)) (\<lambda>value.
     if \<not> k_public_key_parses K (sl_seller_public_key d) then Inl InvalidPublicKey
     else
       bind_res (descriptor_recovery_signature_hash E K d tx c recipient) (\<lambda>digest.
       if k_verify_prehash K (sl_seller_public_key d) digest value then Inr () else Inl InvalidSignature))))"

end
