(* ===== verification/SwapSale.thy ===== *)
theory SwapSale
  imports Swap
begin

text \<open>
  Second part of the model of \<^verbatim>\<open>crates/hns-swap/src/lib.rs\<close>: presigned sales, their fulfilment by a
  buyer, the classification of spends, and reverse Dutch auctions.
\<close>

section \<open>Proofs\<close>

definition proof_validate :: "k256 \<Rightarrow> swap_proof \<Rightarrow> swap_error + unit" where
  "proof_validate K p =
     (if \<not> validate_name (sp_name p) then Inl SwInvalidName
      else if \<not> k_public_key_parses K (sp_seller_public_key p) then Inl InvalidPublicKey
      else
        bind_res (map_err SwTransaction (address_validate (sp_payment_address p))) (\<lambda>_.
        if sp_price p = 0 then Inl ZeroPrice
        else
          bind_res (encode_time_lock (sp_lock_time_seconds p)) (\<lambda>_.
          bind_res
            (case sp_fee_address p of
               None \<Rightarrow> if sp_fee p = 0 then Inr () else Inl InvalidFee
             | Some a \<Rightarrow> if sp_fee p > 0 then map_err SwTransaction (address_validate a) else Inl InvalidFee) (\<lambda>_.
          case sp_signature p of
            Some s \<Rightarrow> if s ! 64 \<noteq> ucast hip1_seller_sighash then Inl (WrongSellerHashType (s ! 64)) else Inr ()
          | None \<Rightarrow> Inr ()))))"

definition put_address :: "address \<Rightarrow> encoder \<Rightarrow> encoder" where
  "put_address a = put_seq [put_u8 (addr_version a), put_u8 (word_of_nat (length (addr_hash a))), put_bytes (addr_hash a)]"

definition put_proof :: "swap_proof \<Rightarrow> encoder \<Rightarrow> encoder" where
  "put_proof p = put_seq
     ([put_u16_le shakedex_protocol_version, put_u32_le (nb_magic (sp_network p)), put_bytes (nb_genesis (sp_network p)),
       put_bytes (outpoint_encode (sp_locking_outpoint p)), put_varbytes (sp_name p),
       put_bytes (sp_seller_public_key p), put_address (sp_payment_address p), put_u64_le (sp_price p),
       put_u64_le (sp_lock_time_seconds p)] @
      (case sp_signature p of Some s \<Rightarrow> [put_u8 1, put_bytes s] | None \<Rightarrow> [put_u8 0]) @
      [put_u64_le (sp_fee p)] @
      (case sp_fee_address p of Some a \<Rightarrow> [put_u8 1, put_address a] | None \<Rightarrow> [put_u8 0]))"

definition proof_encode :: "k256 \<Rightarrow> swap_proof \<Rightarrow> swap_error + bytes" where
  "proof_encode K p =
     bind_res (proof_validate K p) (\<lambda>_.
     let encoded = encode_with [put_proof p] in
     if length encoded > max_swap_proof_size then Inl (ProofTooLarge (length encoded)) else Inr encoded)"

definition lock_descriptor :: "k256 \<Rightarrow> swap_proof \<Rightarrow> swap_error + shakedex_lock_descriptor" where
  "lock_descriptor K p =
     (if \<not> validate_name (sp_name p) then Inl SwInvalidName
      else descriptor_new K (sp_network p) (sp_locking_outpoint p) (sp_name p) (sp_seller_public_key p))"

definition read_swap_address :: "(swap_error, address) reader" where
  "read_swap_address =
     dbind (dlift SwDecode read_u8) (\<lambda>version.
     dbind (dlift SwDecode read_u8) (\<lambda>len.
     dbind (dlift SwDecode (read_bounded_vec (unat len) 40)) (\<lambda>hash.
       dcheck (map_err SwTransaction (address_new version hash)))))"

definition read_presence :: "string \<Rightarrow> (swap_error, 'a) reader \<Rightarrow> (swap_error, 'a option) reader" where
  "read_presence what rd =
     dbind (dlift SwDecode read_u8) (\<lambda>flag.
       if flag = 0 then dreturn None
       else if flag = 1 then dbind rd (\<lambda>v. dreturn (Some v))
       else derror (InvalidPresenceFlag what))"

definition read_proof :: "(swap_error, swap_proof) reader" where
  "read_proof =
     dbind (dlift SwDecode read_u16_le) (\<lambda>version.
     if version \<noteq> shakedex_protocol_version then derror (SwUnsupportedVersion version)
     else
       dbind (dlift SwDecode read_u32_le) (\<lambda>magic.
       dbind (dlift SwDecode (read_array 32)) (\<lambda>genesis.
       dbind (dlift SwDecode (read_array 32)) (\<lambda>hash.
       dbind (dlift SwDecode read_u32_le) (\<lambda>index.
       dbind (dlift SwDecode (read_varbytes 63)) (\<lambda>name.
       dbind (dlift SwDecode (read_array 33)) (\<lambda>key.
       dbind read_swap_address (\<lambda>payment.
       dbind (dlift SwDecode read_u64_le) (\<lambda>price.
       dbind (dlift SwDecode read_u64_le) (\<lambda>lock.
       dbind (read_presence ''signature'' (dlift SwDecode (read_array 65))) (\<lambda>signature.
       dbind (dlift SwDecode read_u64_le) (\<lambda>fee.
       dbind (read_presence ''fee address'' read_swap_address) (\<lambda>fee_address.
         dreturn \<lparr>sp_network = \<lparr>nb_magic = magic, nb_genesis = genesis\<rparr>,
           sp_locking_outpoint = \<lparr>op_hash = hash, op_index = index\<rparr>, sp_name = name, sp_seller_public_key = key,
           sp_payment_address = payment, sp_price = price, sp_lock_time_seconds = lock, sp_signature = signature,
           sp_fee_address = fee_address, sp_fee = fee\<rparr>)))))))))))))"

definition proof_decode :: "k256 \<Rightarrow> bytes \<Rightarrow> swap_error + swap_proof" where
  "proof_decode K input =
     (if length input > max_swap_proof_size then Inl (ProofTooLarge (length input))
      else
        bind_res (read_proof (decoder_new input)) (\<lambda>(p, d).
        bind_res (map_err SwDecode (decoder_finish d)) (\<lambda>_.
        bind_res (proof_validate K p) (\<lambda>_. Inr p))))"

definition offer_domain :: bytes where "offer_domain = ascii ''HIP-0001/Shakedex-v2/offer''"

definition offer_id :: "script_env \<Rightarrow> k256 \<Rightarrow> swap_proof \<Rightarrow> swap_error + bytes" where
  "offer_id E K p =
     (case sp_signature p of
        None \<Rightarrow> Inl UnsignedProof
      | Some _ \<Rightarrow> bind_res (proof_encode K p) (\<lambda>encoded. Inr (se_blake2b_256 E (encoded @ offer_domain))))"

definition verify_locking_coin :: "script_env \<Rightarrow> k256 \<Rightarrow> swap_proof \<Rightarrow> coin \<Rightarrow> swap_error + unit" where
  "verify_locking_coin E K p c =
     bind_res (lock_descriptor K p) (\<lambda>d. descriptor_verify_locking_coin E K d c)"

section \<open>Presigned sales\<close>

definition payment_output :: "swap_proof \<Rightarrow> tx_output" where
  "payment_output p = \<lparr>out_value = sp_price p, out_address = sp_payment_address p, out_covenant = covenant_default\<rparr>"

definition transfer_placeholder :: tx_output where
  "transfer_placeholder = \<lparr>out_value = 0, out_address = \<lparr>addr_version = 0, addr_hash = replicate 20 0\<rparr>,
     out_covenant = \<lparr>cov_kind = Transfer, cov_items = []\<rparr>\<rparr>"

definition fee_outputs :: "swap_proof \<Rightarrow> swap_error + tx_output list" where
  "fee_outputs p =
     (if sp_fee p > 0 then
        bind_res (ok_or (sp_fee_address p) InvalidFee) (\<lambda>a.
        Inr [\<lparr>out_value = sp_fee p, out_address = a, out_covenant = covenant_default\<rparr>])
      else Inr [])"

definition presigned_transaction :: "script_env \<Rightarrow> k256 \<Rightarrow> swap_proof \<Rightarrow> coin \<Rightarrow> swap_error + transaction" where
  "presigned_transaction E K p c =
     bind_res (proof_validate K p) (\<lambda>_.
     bind_res (verify_locking_coin E K p c) (\<lambda>_.
     let witness = (case sp_signature p of Some s \<Rightarrow> [s, create_lock_script (sp_seller_public_key p)] | None \<Rightarrow> []) in
     bind_res (map_err SwTransaction (address_new 0 (replicate 20 0))) (\<lambda>_.
     bind_res (fee_outputs p) (\<lambda>fees.
     bind_res (encode_time_lock (sp_lock_time_seconds p)) (\<lambda>lock.
     Inr \<lparr>tx_version = 0,
          tx_inputs = [\<lparr>in_previous_output = sp_locking_outpoint p, in_sequence = 0xfffffffe, in_witness = witness\<rparr>],
          tx_outputs = transfer_placeholder # fees @ [payment_output p],
          tx_locktime = lock\<rparr>)))))"

definition seller_digest :: "script_env \<Rightarrow> swap_proof \<Rightarrow> transaction \<Rightarrow> coin \<Rightarrow> swap_error + bytes" where
  "seller_digest E p tx c =
     map_err SwScript (signature_hash (se_blake2b_256 E) tx 0 (create_lock_script (sp_seller_public_key p))
       (coin_value c) hip1_seller_sighash)"

definition proof_verify :: "script_env \<Rightarrow> k256 \<Rightarrow> swap_proof \<Rightarrow> coin \<Rightarrow> swap_error + unit" where
  "proof_verify E K p c =
     bind_res (proof_validate K p) (\<lambda>_.
     bind_res (verify_locking_coin E K p c) (\<lambda>_.
     bind_res (ok_or (sp_signature p) UnsignedProof) (\<lambda>s.
     if \<not> k_signature_parses K (take 64 s) then Inl InvalidSignature
     else if k_normalize_s K (take 64 s) \<noteq> None then Inl HighSignature
     else
       bind_res (presigned_transaction E K p c) (\<lambda>tx.
       bind_res (seller_digest E p tx c) (\<lambda>digest.
       if \<not> k_public_key_parses K (sp_seller_public_key p) then Inl InvalidPublicKey
       else if k_verify_prehash K (sp_seller_public_key p) digest (take 64 s) then Inr ()
       else Inl InvalidSignature)))))"

definition proof_verify_for_network ::
  "script_env \<Rightarrow> k256 \<Rightarrow> swap_proof \<Rightarrow> network_binding \<Rightarrow> coin \<Rightarrow> swap_error + unit" where
  "proof_verify_for_network E K p expected_network c =
     (if sp_network p \<noteq> expected_network then Inl NetworkMismatch else proof_verify E K p c)"

text \<open>A signing key: its compressed public key, and signing a digest, which may fail.\<close>

record signing_key =
  sk_public_key :: bytes
  sk_sign_prehash :: "bytes \<Rightarrow> bytes option"

text \<open>Signing changes the proof; the result comes with the proof as it is left.\<close>

definition proof_sign ::
  "script_env \<Rightarrow> k256 \<Rightarrow> swap_proof \<Rightarrow> coin \<Rightarrow> signing_key \<Rightarrow> (swap_error + unit) \<times> swap_proof" where
  "proof_sign E K p c key =
     (if sk_public_key key \<noteq> sp_seller_public_key p then (Inl SigningKeyMismatch, p)
      else
        let p = p\<lparr>sp_signature := None\<rparr> in
        case bind_res (presigned_transaction E K p c) (\<lambda>tx.
             bind_res (seller_digest E p tx c) (\<lambda>digest.
             ok_or (sk_sign_prehash key digest) SignatureFailure)) of
          Inl e \<Rightarrow> (Inl e, p)
        | Inr s \<Rightarrow>
            let s = (case k_normalize_s K s of Some low \<Rightarrow> low | None \<Rightarrow> s);
                p = p\<lparr>sp_signature := Some (s @ [ucast hip1_seller_sighash])\<rparr>
            in (proof_verify E K p c, p))"

definition seller_signature_hash :: "script_env \<Rightarrow> k256 \<Rightarrow> swap_proof \<Rightarrow> transaction \<Rightarrow> coin \<Rightarrow> swap_error + bytes" where
  "seller_signature_hash E K p tx c =
     bind_res (proof_validate K p) (\<lambda>_.
     bind_res (verify_locking_coin E K p c) (\<lambda>_.
     bind_res (ok_or (get (tx_inputs tx) 0) (InvalidShakedexFulfillment ''seller input is missing'')) (\<lambda>i.
     if in_previous_output i \<noteq> coin_outpoint c then Inl OutpointMismatch
     else seller_digest E p tx c)))"

definition verify_seller_signature ::
  "script_env \<Rightarrow> k256 \<Rightarrow> swap_proof \<Rightarrow> transaction \<Rightarrow> coin \<Rightarrow> swap_error + unit" where
  "verify_seller_signature E K p tx c =
     bind_res (ok_or (sp_signature p) UnsignedProof) (\<lambda>s.
     if \<not> k_signature_parses K (take 64 s) then Inl InvalidSignature
     else if k_normalize_s K (take 64 s) \<noteq> None then Inl HighSignature
     else if \<not> k_public_key_parses K (sp_seller_public_key p) then Inl InvalidPublicKey
     else
       bind_res (seller_signature_hash E K p tx c) (\<lambda>digest.
       if k_verify_prehash K (sp_seller_public_key p) digest (take 64 s) then Inr () else Inl InvalidSignature))"

section \<open>Fulfilment\<close>

definition transfer_recipient ::
  "script_env \<Rightarrow> tx_output \<Rightarrow> swap_proof \<Rightarrow> coin \<Rightarrow> swap_error + address" where
  "transfer_recipient E transfer p c =
     bind_res (map_err (\<lambda>_. InvalidShakedexFulfillment ''TRANSFER covenant does not bind the locked name'')
       (transfer_try_from (out_covenant transfer))) (\<lambda>t.
     bind_res (map_err (\<lambda>_. InvalidShakedexLockingCovenant)
       (finalize_try_from (se_sha3_256 E) (coin_covenant c))) (\<lambda>f.
     bind_res (map_err SwCovenant (hash_name (se_sha3_256 E) (sp_name p))) (\<lambda>h.
     if tc_name_hash t \<noteq> h \<or> tc_name_hash t \<noteq> fc_name_hash f \<or> tc_start_height t \<noteq> fc_start_height f
     then Inl (InvalidShakedexFulfillment ''TRANSFER covenant does not bind the locked name'')
     else map_err SwTransaction (address_new (tc_recipient_version t) (tc_recipient_hash t)))))"

definition fulfillment_layout ::
  "script_env \<Rightarrow> k256 \<Rightarrow> swap_proof \<Rightarrow> transaction \<Rightarrow> coin \<Rightarrow> swap_error + unit" where
  "fulfillment_layout E K p tx c =
     bind_res
       (if tx_version tx \<noteq> 0 then Inr True
        else bind_res (encode_time_lock (sp_lock_time_seconds p)) (\<lambda>lock.
               Inr (tx_locktime tx \<noteq> lock \<or> length (tx_inputs tx) < 2))) (\<lambda>differs.
     if differs
     then Inl (InvalidShakedexFulfillment ''transaction header or buyer funding layout differs'')
     else
       let seller_input = tx_inputs tx ! 0 in
       if in_previous_output seller_input \<noteq> coin_outpoint c \<or> in_sequence seller_input \<noteq> 0xfffffffe
       then Inl (InvalidShakedexFulfillment ''seller input is not canonical index zero'')
       else if list_ex (\<lambda>i. in_previous_output i = coin_outpoint c) (drop 1 (tx_inputs tx))
       then Inl DuplicateShakedexSellerInput
       else case in_witness seller_input of
         [encoded_signature, witness_script] \<Rightarrow>
           bind_res (ok_or (sp_signature p) UnsignedProof) (\<lambda>expected_signature.
           if encoded_signature \<noteq> expected_signature \<or> witness_script \<noteq> create_lock_script (sp_seller_public_key p)
           then Inl (InvalidShakedexFulfillment ''seller witness differs from the presign'')
           else Inr ())
       | _ \<Rightarrow> Inl (InvalidShakedexFulfillment ''seller witness layout differs''))"

definition fulfillment_outputs ::
  "script_env \<Rightarrow> swap_proof \<Rightarrow> transaction \<Rightarrow> coin \<Rightarrow> swap_error + unit" where
  "fulfillment_outputs E p tx c =
     bind_res (ok_or (get (tx_outputs tx) 0) (InvalidShakedexFulfillment ''transfer output is missing'')) (\<lambda>transfer.
     bind_res (transfer_recipient E transfer p c) (\<lambda>recipient.
     bind_res (map_err SwNameTransaction (build_transfer_output (se_sha3_256 E) c recipient)) (\<lambda>expected.
     if transfer \<noteq> expected then Inl (InvalidShakedexFulfillment ''transfer output differs from the locked name'')
     else if last (tx_outputs tx) \<noteq> payment_output p
     then Inl (InvalidShakedexFulfillment ''seller payment is not the final output'')
     else if sp_fee p > 0 then
       bind_res (ok_or (get (tx_outputs tx) 1) (InvalidShakedexFulfillment ''marketplace fee output is missing'')) (\<lambda>fee.
       if out_value fee \<noteq> sp_fee p \<or> Some (out_address fee) \<noteq> sp_fee_address p \<or> out_covenant fee \<noteq> covenant_default
       then Inl (InvalidShakedexFulfillment ''marketplace fee output differs'')
       else Inr ())
     else Inr ())))"

definition verify_fulfillment ::
  "script_env \<Rightarrow> k256 \<Rightarrow> swap_proof \<Rightarrow> transaction \<Rightarrow> coin \<Rightarrow> swap_error + unit" where
  "verify_fulfillment E K p tx c =
     bind_res (proof_verify E K p c) (\<lambda>_.
     bind_res (fulfillment_layout E K p tx c) (\<lambda>_.
     bind_res (fulfillment_outputs E p tx c) (\<lambda>_.
     verify_seller_signature E K p tx c)))"

definition fulfillment_transaction ::
  "script_env \<Rightarrow> k256 \<Rightarrow> swap_proof \<Rightarrow> coin \<Rightarrow> address \<Rightarrow> tx_input list \<Rightarrow> tx_output list \<Rightarrow> swap_error + transaction" where
  "fulfillment_transaction E K p c name_recipient buyer_inputs buyer_outputs =
     bind_res (proof_verify E K p c) (\<lambda>_.
     bind_res (map_err SwTransaction (address_validate name_recipient)) (\<lambda>_.
     if buyer_inputs = [] then Inl MissingShakedexBuyerInputs
     else if list_ex (\<lambda>i. in_previous_output i = coin_outpoint c) buyer_inputs
     then Inl DuplicateShakedexSellerInput
     else
       bind_res (presigned_transaction E K p c) (\<lambda>tx.
       bind_res (map_err SwNameTransaction (build_transfer_output (se_sha3_256 E) c name_recipient)) (\<lambda>transfer.
       let outputs = transfer # tl (tx_outputs tx);
           tx = tx\<lparr>tx_inputs := tx_inputs tx @ buyer_inputs,
                   tx_outputs := butlast outputs @ buyer_outputs @ [last outputs]\<rparr>
       in bind_res (verify_fulfillment E K p tx c) (\<lambda>_. Inr tx)))))"

section \<open>Recovery and classification\<close>

definition proof_recovery_transaction where
  "proof_recovery_transaction E K p c recipient funding_inputs funding_outputs =
     bind_res (lock_descriptor K p) (\<lambda>d.
     descriptor_recovery_transaction E K d c recipient funding_inputs funding_outputs)"

definition proof_recovery_signature_hash where
  "proof_recovery_signature_hash E K p tx c recipient =
     bind_res (lock_descriptor K p) (\<lambda>d. descriptor_recovery_signature_hash E K d tx c recipient)"

definition proof_recovery_witness where
  "proof_recovery_witness K p signature =
     bind_res (lock_descriptor K p) (\<lambda>d. descriptor_recovery_witness K d signature)"

definition proof_verify_recovery where
  "proof_verify_recovery E K p tx c recipient =
     bind_res (lock_descriptor K p) (\<lambda>d. descriptor_verify_recovery E K d tx c recipient)"

definition classify_spend ::
  "script_env \<Rightarrow> k256 \<Rightarrow> swap_proof \<Rightarrow> transaction \<Rightarrow> coin \<Rightarrow> address option \<Rightarrow> swap_error + shakedex_spend_kind" where
  "classify_spend E K p tx c expected_recovery_recipient =
     bind_res (ok_or (get (tx_inputs tx) 0) UnrecognizedShakedexSpend) (\<lambda>seller_input.
     case in_witness seller_input of
       [signature, witness_script] \<Rightarrow>
         if witness_script \<noteq> create_lock_script (sp_seller_public_key p) then Inl UnrecognizedShakedexSpend
         else
           bind_res (ok_or (as_array 65 signature) InvalidSignature) (\<lambda>signature.
           let hash_type = (ucast (signature ! 64) :: u32) in
           if hash_type = hip1_seller_sighash then
             bind_res (verify_fulfillment E K p tx c) (\<lambda>_. Inr Fulfillment)
           else if hash_type = shakedex_recovery_sighash then
             bind_res (ok_or expected_recovery_recipient MissingShakedexRecoveryRecipient) (\<lambda>recipient.
             bind_res (proof_verify_recovery E K p tx c recipient) (\<lambda>_. Inr Recovery))
           else Inl UnrecognizedShakedexSpend)
     | _ \<Rightarrow> Inl UnrecognizedShakedexSpend)"

definition is_executable :: "swap_proof \<Rightarrow> u64 \<Rightarrow> swap_error + bool" where
  "is_executable p parent_median_time =
     bind_res (encode_time_lock (sp_lock_time_seconds p)) (\<lambda>encoded.
     bind_res (ok_or (checked_mul (ucast (encoded AND locktime_mask)) hsd_locktime_multiplier) SwArithmeticOverflow) (\<lambda>threshold.
     Inr (threshold < parent_median_time)))"

section \<open>Reverse Dutch auctions\<close>

record dutch_step =
  ds_price :: dollarydoos
  ds_lock_time_seconds :: u64

definition schedule_step ::
  "u64 \<Rightarrow> u64 \<Rightarrow> u64 \<Rightarrow> u64 \<Rightarrow> u64 \<Rightarrow> nat \<Rightarrow> swap_error + dutch_step" where
  "schedule_step start_price price_delta start_time duration intervals index =
     (let index = (word_of_nat index :: u64) in
      bind_res (ok_or (checked_mul (duration div hsd_locktime_multiplier) index) SwArithmeticOverflow) (\<lambda>scaled.
      let lock_units = start_time div hsd_locktime_multiplier + scaled div intervals;
          reduction = (ucast price_delta * ucast index div ucast intervals :: u128) in
      if unat reduction < 2 ^ 64 then
        bind_res (ok_or (checked_mul lock_units hsd_locktime_multiplier) SwArithmeticOverflow) (\<lambda>t.
        Inr \<lparr>ds_price = start_price - ucast reduction, ds_lock_time_seconds = t\<rparr>)
      else Inl SwArithmeticOverflow))"

fun check_pairs :: "(u64 \<times> u64) list \<Rightarrow> swap_error + unit" where
  "check_pairs ((price, time) # (price', time') # rest) =
     (if price < price' then Inl NonCanonicalSchedule
      else
        bind_res (encode_time_lock time) (\<lambda>l.
        bind_res (encode_time_lock time') (\<lambda>l'.
        if l \<ge> l' then Inl NonCanonicalSchedule else check_pairs ((price', time') # rest))))"
| "check_pairs _ = Inr ()"

definition canonical_reverse_dutch_schedule ::
  "dollarydoos \<Rightarrow> dollarydoos \<Rightarrow> u64 \<Rightarrow> u64 \<Rightarrow> nat \<Rightarrow> swap_error + dutch_step list" where
  "canonical_reverse_dutch_schedule start_price end_price start_time end_time steps =
     (if \<not> (2 \<le> steps \<and> steps \<le> max_auction_steps) then Inl (InvalidStepCount steps)
      else if start_price < end_price \<or> end_price = 0 then Inl InvalidPriceSchedule
      else if start_time \<ge> end_time \<or> start_time mod hsd_locktime_multiplier \<noteq> 0 \<or> end_time mod hsd_locktime_multiplier \<noteq> 0
      then Inl InvalidLockSchedule
      else
        let intervals = word_of_nat (steps - 1); duration = end_time - start_time in
        if duration div hsd_locktime_multiplier < intervals then Inl InvalidLockSchedule
        else
          let price_delta = start_price - end_price in
          bind_res (fold_res (\<lambda>index schedule.
              bind_res (schedule_step start_price price_delta start_time duration intervals index) (\<lambda>s. Inr (schedule @ [s])))
            [0..<steps] []) (\<lambda>schedule.
          if map_option ds_price (get schedule 0) \<noteq> Some start_price \<or>
             map_option ds_price (get schedule (length schedule - 1)) \<noteq> Some end_price \<or>
             map_option ds_lock_time_seconds (get schedule 0) \<noteq> Some start_time \<or>
             map_option ds_lock_time_seconds (get schedule (length schedule - 1)) \<noteq> Some end_time
          then Inl NonCanonicalSchedule
          else
            bind_res (check_pairs (map (\<lambda>s. (ds_price s, ds_lock_time_seconds s)) schedule)) (\<lambda>_. Inr schedule)))"

text \<open>An auction is the list of its proofs.\<close>

definition auction_step :: "k256 \<Rightarrow> swap_proof \<Rightarrow> swap_proof \<Rightarrow> nat \<Rightarrow> swap_error + nat" where
  "auction_step K first_proof p bundle_size =
     bind_res (proof_validate K p) (\<lambda>_.
     if sp_signature p = None then Inl UnsignedProof
     else if sp_network p \<noteq> sp_network first_proof \<or> sp_locking_outpoint p \<noteq> sp_locking_outpoint first_proof \<or>
       sp_name p \<noteq> sp_name first_proof \<or> sp_seller_public_key p \<noteq> sp_seller_public_key first_proof \<or>
       sp_payment_address p \<noteq> sp_payment_address first_proof \<or> sp_fee_address p \<noteq> sp_fee_address first_proof
     then Inl InconsistentAuction
     else
       bind_res (proof_encode K p) (\<lambda>encoded.
       bind_res (ok_or (checked_add_usize bundle_size (length encoded)) SwArithmeticOverflow) (\<lambda>bundle_size.
       if bundle_size > max_auction_bundle_size then Inl (BundleTooLarge bundle_size) else Inr bundle_size)))"

definition auction_new :: "k256 \<Rightarrow> swap_proof list \<Rightarrow> swap_error + swap_proof list" where
  "auction_new K proofs =
     (if proofs = [] \<or> length proofs > max_auction_steps then Inl (InvalidStepCount (length proofs))
      else
        bind_res (proof_validate K (hd proofs)) (\<lambda>_.
        bind_res (fold_res (auction_step K (hd proofs)) proofs 0) (\<lambda>_.
        bind_res (check_pairs (map (\<lambda>p. (sp_price p, sp_lock_time_seconds p)) proofs)) (\<lambda>_. Inr proofs))))"

definition auction_verify_all_for_network ::
  "script_env \<Rightarrow> k256 \<Rightarrow> swap_proof list \<Rightarrow> network_binding \<Rightarrow> coin \<Rightarrow> swap_error + unit" where
  "auction_verify_all_for_network E K proofs expected_network c =
     fold_res (\<lambda>p _. proof_verify_for_network E K p expected_network c) proofs ()"

definition auction_new_verified ::
  "script_env \<Rightarrow> k256 \<Rightarrow> swap_proof list \<Rightarrow> network_binding \<Rightarrow> coin \<Rightarrow> swap_error + swap_proof list" where
  "auction_new_verified E K proofs expected_network c =
     bind_res (auction_new K proofs) (\<lambda>auction.
     bind_res (auction_verify_all_for_network E K auction expected_network c) (\<lambda>_. Inr auction))"

fun first_executable :: "swap_proof list \<Rightarrow> u64 \<Rightarrow> swap_error + swap_proof option" where
  "first_executable [] t = Inr None"
| "first_executable (p # ps) t =
     bind_res (is_executable p t) (\<lambda>e. if e then Inr (Some p) else first_executable ps t)"

definition best_executable :: "swap_proof list \<Rightarrow> u64 \<Rightarrow> swap_error + swap_proof option" where
  "best_executable proofs parent_median_time = first_executable (rev proofs) parent_median_time"

end
