(* ===== verification/Htlc.thy ===== *)
theory Htlc
  imports Swap
begin

text \<open>
  Model of \<^verbatim>\<open>crates/hns-swap/src/htlc.rs\<close>: hash-time-locked contracts.  The receiver can take the coin
  with the preimage of the hash lock, the refund owner can take it back after the lock time.
\<close>

section \<open>Descriptors\<close>

definition hns_htlc_version :: u16 where "hns_htlc_version = 1"
definition hns_htlc_preimage_size :: nat where "hns_htlc_preimage_size = 32"
definition hns_htlc_hashlock_size :: nat where "hns_htlc_hashlock_size = 32"
definition max_hns_htlc_descriptor_size :: nat where "max_hns_htlc_descriptor_size = 256"
definition hns_htlc_sighash :: byte where "hns_htlc_sighash = ucast sighash_all"
definition hns_htlc_descriptor_hash_domain :: bytes where
  "hns_htlc_descriptor_hash_domain = ascii ''hns-rs/hns-swap/hns-htlc/v1/descriptor''"

record hns_htlc =
  ht_network :: network_binding
  ht_value :: dollarydoos
  ht_hashlock :: bytes
  ht_receiver_public_key :: bytes
  ht_refund_public_key :: bytes
  ht_refund_locktime :: u32

datatype hns_htlc_spend = HtlcRedeem bytes | HtlcRefund

fun preimage_for_settlement :: "hns_htlc_spend \<Rightarrow> bytes option" where
  "preimage_for_settlement (HtlcRedeem preimage) = Some preimage"
| "preimage_for_settlement HtlcRefund = None"

definition htlc_validate :: "k256 \<Rightarrow> hns_htlc \<Rightarrow> swap_error + unit" where
  "htlc_validate K h =
     (if ht_value h = 0 then Inl ZeroHtlcValue
      else if ht_hashlock h = replicate hns_htlc_hashlock_size 0 then Inl ZeroHtlcHashlock
      else if \<not> k_public_key_parses K (ht_receiver_public_key h) then Inl InvalidPublicKey
      else if \<not> k_public_key_parses K (ht_refund_public_key h) then Inl InvalidPublicKey
      else if ht_receiver_public_key h = ht_refund_public_key h then Inl HtlcKeyReuse
      else if ht_refund_locktime h AND locktime_mask = 0 then Inl ZeroHtlcRefundLocktime
      else Inr ())"

definition htlc_verify_for_network :: "k256 \<Rightarrow> hns_htlc \<Rightarrow> network_binding \<Rightarrow> swap_error + unit" where
  "htlc_verify_for_network K h expected_network =
     (if ht_network h \<noteq> expected_network then Inl NetworkMismatch else htlc_validate K h)"

definition put_htlc :: "hns_htlc \<Rightarrow> encoder \<Rightarrow> encoder" where
  "put_htlc h = put_seq
     [put_u16_le hns_htlc_version, put_u32_le (nb_magic (ht_network h)), put_bytes (nb_genesis (ht_network h)),
      put_u64_le (ht_value h), put_bytes (ht_hashlock h), put_bytes (ht_receiver_public_key h),
      put_bytes (ht_refund_public_key h), put_u32_le (ht_refund_locktime h)]"

definition htlc_encode :: "k256 \<Rightarrow> hns_htlc \<Rightarrow> swap_error + bytes" where
  "htlc_encode K h =
     bind_res (htlc_validate K h) (\<lambda>_.
     let encoded = encode_with [put_htlc h] in
     if length encoded > max_hns_htlc_descriptor_size then Inl (HtlcTooLarge (length encoded)) else Inr encoded)"

definition read_htlc :: "(swap_error, hns_htlc) reader" where
  "read_htlc =
     dbind (dlift SwDecode read_u16_le) (\<lambda>version.
     if version \<noteq> hns_htlc_version then derror (UnsupportedHtlcVersion version)
     else
       dbind (dlift SwDecode read_u32_le) (\<lambda>magic.
       dbind (dlift SwDecode (read_array 32)) (\<lambda>genesis.
       dbind (dlift SwDecode read_u64_le) (\<lambda>v.
       dbind (dlift SwDecode (read_array 32)) (\<lambda>hashlock.
       dbind (dlift SwDecode (read_array 33)) (\<lambda>receiver.
       dbind (dlift SwDecode (read_array 33)) (\<lambda>refund.
       dbind (dlift SwDecode read_u32_le) (\<lambda>lock.
         dreturn \<lparr>ht_network = \<lparr>nb_magic = magic, nb_genesis = genesis\<rparr>, ht_value = v, ht_hashlock = hashlock,
           ht_receiver_public_key = receiver, ht_refund_public_key = refund, ht_refund_locktime = lock\<rparr>))))))))"

definition htlc_decode :: "k256 \<Rightarrow> bytes \<Rightarrow> swap_error + hns_htlc" where
  "htlc_decode K input =
     (if length input > max_hns_htlc_descriptor_size then Inl (HtlcTooLarge (length input))
      else
        bind_res (read_htlc (decoder_new input)) (\<lambda>(h, d).
        bind_res (map_err SwDecode (decoder_finish d)) (\<lambda>_.
        bind_res (htlc_validate K h) (\<lambda>_. Inr h))))"

definition descriptor_hash :: "script_env \<Rightarrow> k256 \<Rightarrow> hns_htlc \<Rightarrow> swap_error + bytes" where
  "descriptor_hash E K h =
     bind_res (htlc_encode K h) (\<lambda>encoded. Inr (se_blake2b_256 E (hns_htlc_descriptor_hash_domain @ encoded)))"

definition hash_preimage :: "script_env \<Rightarrow> bytes \<Rightarrow> bytes" where
  "hash_preimage E preimage = se_sha256 E preimage"

section \<open>Scripts and outputs\<close>

definition swap_encode_script_number :: "u64 \<Rightarrow> bytes" where
  "swap_encode_script_number v =
     (if v = 0 then []
      else let bs = magnitude_bytes (unat v) in if bs \<noteq> [] \<and> last bs AND 0x80 \<noteq> 0 then bs @ [0] else bs)"

definition push_minimal_data :: "bytes \<Rightarrow> bytes" where
  "push_minimal_data data =
     (if length data = 1 \<and> 1 \<le> data ! 0 \<and> data ! 0 \<le> 16 then [op_1 + data ! 0 - 1]
      else word_of_nat (length data) # data)"

definition htlc_script :: "k256 \<Rightarrow> hns_htlc \<Rightarrow> swap_error + bytes" where
  "htlc_script K h =
     bind_res (htlc_validate K h) (\<lambda>_.
     Inr ([op_if, op_sha256, 32] @ ht_hashlock h @ [op_equalverify, 33] @ ht_receiver_public_key h @ [op_else] @
       push_minimal_data (swap_encode_script_number (ucast (ht_refund_locktime h))) @
       [op_checklocktimeverify, op_drop, 33] @ ht_refund_public_key h @ [op_endif, op_checksig]))"

definition htlc_script_hash :: "script_env \<Rightarrow> k256 \<Rightarrow> hns_htlc \<Rightarrow> swap_error + bytes" where
  "htlc_script_hash E K h = bind_res (htlc_script K h) (\<lambda>script. Inr (se_sha3_256 E script))"

definition htlc_address :: "script_env \<Rightarrow> k256 \<Rightarrow> hns_htlc \<Rightarrow> swap_error + address" where
  "htlc_address E K h =
     bind_res (htlc_script_hash E K h) (\<lambda>hash. map_err SwTransaction (address_new 0 hash))"

definition funding_output :: "script_env \<Rightarrow> k256 \<Rightarrow> hns_htlc \<Rightarrow> swap_error + tx_output" where
  "funding_output E K h =
     bind_res (htlc_address E K h) (\<lambda>a.
     Inr \<lparr>out_value = ht_value h, out_address = a, out_covenant = covenant_default\<rparr>)"

definition verify_funding_output :: "script_env \<Rightarrow> k256 \<Rightarrow> hns_htlc \<Rightarrow> tx_output \<Rightarrow> swap_error + unit" where
  "verify_funding_output E K h out =
     bind_res (htlc_validate K h) (\<lambda>_.
     if out_value out \<noteq> ht_value h then Inl HtlcValueMismatch
     else
       bind_res (htlc_address E K h) (\<lambda>a.
       if out_address out \<noteq> a then Inl HtlcAddressMismatch
       else if cov_kind (out_covenant out) \<noteq> CNone \<or> cov_items (out_covenant out) \<noteq> [] then Inl HtlcCovenantMismatch
       else Inr ()))"

definition verify_funding_transaction ::
  "script_env \<Rightarrow> k256 \<Rightarrow> hns_htlc \<Rightarrow> transaction \<Rightarrow> nat \<Rightarrow> swap_error + outpoint" where
  "verify_funding_transaction E K h tx output_index =
     bind_res (ok_or (get (tx_outputs tx) output_index) (HtlcFundingOutputIndex output_index (length (tx_outputs tx)))) (\<lambda>out.
     bind_res (verify_funding_output E K h out) (\<lambda>_.
     bind_res (map_err SwTransaction (transaction_hash (se_blake2b_256 E) tx)) (\<lambda>hash.
     if output_index < 2 ^ 32 then Inr \<lparr>op_hash = hash, op_index = word_of_nat output_index\<rparr>
     else Inl SwArithmeticOverflow)))"

definition verify_funding_coin :: "script_env \<Rightarrow> k256 \<Rightarrow> hns_htlc \<Rightarrow> coin \<Rightarrow> swap_error + unit" where
  "verify_funding_coin E K h c =
     verify_funding_output E K h
       \<lparr>out_value = coin_value c, out_address = coin_address c, out_covenant = coin_covenant c\<rparr>"

section \<open>Spending\<close>

definition htlc_signature_hash ::
  "script_env \<Rightarrow> k256 \<Rightarrow> hns_htlc \<Rightarrow> transaction \<Rightarrow> nat \<Rightarrow> coin \<Rightarrow> swap_error + bytes" where
  "htlc_signature_hash E K h tx input_index c =
     bind_res (verify_funding_coin E K h c) (\<lambda>_.
     bind_res (ok_or (get (tx_inputs tx) input_index) (HtlcSpendInputIndex input_index (length (tx_inputs tx)))) (\<lambda>i.
     if in_previous_output i \<noteq> coin_outpoint c then Inl HtlcOutpointMismatch
     else
       bind_res (htlc_script K h) (\<lambda>script.
       map_err SwScript (signature_hash (se_blake2b_256 E) tx input_index script (coin_value c) (ucast hns_htlc_sighash)))))"

definition validate_htlc_signature :: "k256 \<Rightarrow> bytes \<Rightarrow> swap_error + unit" where
  "validate_htlc_signature K signature =
     (if signature ! 64 \<noteq> hns_htlc_sighash then Inl (InvalidHtlcSignatureHashType (signature ! 64))
      else if \<not> k_signature_parses K (take 64 signature) then Inl InvalidHtlcSignature
      else if k_normalize_s K (take 64 signature) \<noteq> None then Inl HighHtlcSignature
      else Inr ())"

definition redeem_witness ::
  "script_env \<Rightarrow> k256 \<Rightarrow> hns_htlc \<Rightarrow> bytes \<Rightarrow> bytes \<Rightarrow> swap_error + bytes list" where
  "redeem_witness E K h signature preimage =
     bind_res (htlc_validate K h) (\<lambda>_.
     bind_res (validate_htlc_signature K signature) (\<lambda>_.
     if hash_preimage E preimage \<noteq> ht_hashlock h then Inl HtlcPreimageMismatch
     else bind_res (htlc_script K h) (\<lambda>script. Inr [signature, preimage, [1], script])))"

definition refund_witness :: "k256 \<Rightarrow> hns_htlc \<Rightarrow> bytes \<Rightarrow> swap_error + bytes list" where
  "refund_witness K h signature =
     bind_res (htlc_validate K h) (\<lambda>_.
     bind_res (validate_htlc_signature K signature) (\<lambda>_.
     bind_res (htlc_script K h) (\<lambda>script. Inr [signature, [], script])))"

definition extract_preimage :: "script_env \<Rightarrow> k256 \<Rightarrow> hns_htlc \<Rightarrow> bytes list \<Rightarrow> swap_error + bytes" where
  "extract_preimage E K h witness =
     (case witness of
        [signature, preimage, selector, script] \<Rightarrow>
          bind_res (ok_or (as_array 65 signature) InvalidHtlcWitness) (\<lambda>signature.
          bind_res (validate_htlc_signature K signature) (\<lambda>_.
          bind_res
            (if selector \<noteq> [1] then Inr True
             else bind_res (htlc_script K h) (\<lambda>expected. Inr (script \<noteq> expected))) (\<lambda>differs.
          if differs then Inl InvalidHtlcWitness
          else
            bind_res (ok_or (as_array 32 preimage) InvalidHtlcWitness) (\<lambda>preimage.
            if hash_preimage E preimage \<noteq> ht_hashlock h then Inl HtlcPreimageMismatch else Inr preimage))))
      | _ \<Rightarrow> Inl InvalidHtlcWitness)"

definition verify_spend ::
  "script_env \<Rightarrow> k256 \<Rightarrow> hns_htlc \<Rightarrow> transaction \<Rightarrow> nat \<Rightarrow> coin \<Rightarrow> swap_error + hns_htlc_spend" where
  "verify_spend E K h tx input_index c =
     bind_res (ok_or (get (tx_inputs tx) input_index) (HtlcSpendInputIndex input_index (length (tx_inputs tx)))) (\<lambda>i.
     bind_res (verify_funding_coin E K h c) (\<lambda>_.
     bind_res (map_err SwScript (verify_witness_program (k256_env K E) tx input_index c flags_standard)) (\<lambda>_.
     case in_witness i of
       [signature, selector, script] \<Rightarrow>
         bind_res
           (if selector = [] then bind_res (htlc_script K h) (\<lambda>expected. Inr (script = expected)) else Inr False) (\<lambda>refund.
         if refund then
           bind_res (ok_or (as_array 65 signature) InvalidHtlcWitness) (\<lambda>signature.
           bind_res (validate_htlc_signature K signature) (\<lambda>_. Inr HtlcRefund))
         else Inl InvalidHtlcWitness)
     | [_, _, _, _] \<Rightarrow> bind_res (extract_preimage E K h (in_witness i)) (\<lambda>preimage. Inr (HtlcRedeem preimage))
     | _ \<Rightarrow> Inl InvalidHtlcWitness)))"

end
