(* ===== verification/ScriptSteps.thy ===== *)
theory ScriptSteps
  imports Verifier
begin

text \<open>
  Symbolic execution of scripts: the effect of one instruction on a machine whose alternative stack is
  empty and whose code separator is at the start, as equivalences that chain through a program.
\<close>

section \<open>Programs\<close>

text \<open>Opcodes with their data, laid out from an offset.\<close>

definition op_bytes :: "byte \<times> bytes option \<Rightarrow> bytes" where
  "op_bytes od = instruction_bytes \<lparr>ins_opcode = fst od, ins_data = snd od, ins_start = 0, ins_end = 0\<rparr>"

definition op_ok :: "byte \<times> bytes option \<Rightarrow> bool" where
  "op_ok od = instruction_ok \<lparr>ins_opcode = fst od, ins_data = snd od, ins_start = 0, ins_end = 0\<rparr>"

fun place :: "nat \<Rightarrow> (byte \<times> bytes option) list \<Rightarrow> instruction list" where
  "place n [] = []"
| "place n ((op, d) # rest) =
     \<lparr>ins_opcode = op, ins_data = d, ins_start = n, ins_end = n + length (op_bytes (op, d))\<rparr> #
     place (n + length (op_bytes (op, d))) rest"

lemma instruction_bytes_place:
  "instruction_bytes \<lparr>ins_opcode = op, ins_data = d, ins_start = a, ins_end = b\<rparr> = op_bytes (op, d)"
  "instruction_ok \<lparr>ins_opcode = op, ins_data = d, ins_start = a, ins_end = b\<rparr> = op_ok (op, d)"
  by (simp_all add: op_bytes_def op_ok_def instruction_bytes_def instruction_ok_def cong: option.case_cong)

lemma script_layout_place:
  "list_all op_ok ods \<Longrightarrow> script_layout n (place n ods) (concat (map op_bytes ods))"
proof (induction ods arbitrary: n)
  case (Cons od ods)
  then show ?case by (cases od) (simp add: instruction_bytes_place)
qed simp

lemma parse_program:
  assumes "list_all op_ok ods" "script = concat (map op_bytes ods)" "length script \<le> max_script_size"
  shows "parse_script script = Inr (place 0 ods)"
  using parse_loop_exact [of "[]" script "place 0 ods"] script_layout_place [OF assms(1), of 0] assms
  by (simp add: parse_script_def script_limits)

lemma op_bytes_simps:
  "op_bytes (op, None) = [op]"
  "push_width op = 0 \<Longrightarrow> op_bytes (op, Some d) = op # d"
  "op_ok (op, None) \<longleftrightarrow> \<not> is_push_opcode op"
  "push_width op = 0 \<Longrightarrow> op_ok (op, Some d) \<longleftrightarrow> is_push_opcode op \<and> length d = unat op"
  by (simp_all add: op_bytes_def op_ok_def instruction_bytes_def instruction_ok_def)

section \<open>Steps\<close>

definition run_state :: "script_stack \<Rightarrow> bool list \<Rightarrow> nat \<Rightarrow> exec_state" where
  "run_state stack conds ops = \<lparr>ex_stack = stack, ex_alt_stack = [], ex_conditions = conds, ex_operation_count = ops,
     ex_last_separator = 0\<rparr>"

lemma run_state_sel [simp]:
  "ex_stack (run_state st c n) = st" "ex_alt_stack (run_state st c n) = []" "ex_conditions (run_state st c n) = c"
  "ex_operation_count (run_state st c n) = n" "ex_last_separator (run_state st c n) = 0"
  "run_state st c n = run_state st' c' n' \<longleftrightarrow> st = st' \<and> c = c' \<and> n = n'"
  by (auto simp: run_state_def)

lemma run_state_upd [simp]:
  "(run_state st c n)\<lparr>ex_stack := st'\<rparr> = run_state st' c n"
  "(run_state st c n)\<lparr>ex_conditions := c'\<rparr> = run_state st c' n"
  "(run_state st c n)\<lparr>ex_operation_count := n'\<rparr> = run_state st c n'"
  "(run_state st c n)\<lparr>ex_stack := st', ex_conditions := c'\<rparr> = run_state st' c' n"
  "push_item d (run_state st c n) = run_state (st @ [d]) c n"
  by (simp_all add: run_state_def push_item_def)

lemma limit_run [simp]:
  "limit_state (run_state st c n) = Inr t \<longleftrightarrow> length st \<le> max_script_stack \<and> t = run_state st c n"
  by (auto simp: limit_state_def enforce_stack_limit_def saturating_add_usize_def usize_max_def script_limits
      bind_res_eq_Inr split: if_splits)

lemma count_run [simp]:
  "count_operation op (run_state st c n) = Inr t \<longleftrightarrow>
    (if op > op_16 then Suc n \<le> max_script_ops \<and> t = run_state st c (Suc n) else t = run_state st c n)"
  by (auto simp: count_operation_def checked_add_usize_def usize_max_def script_limits ok_or_def bind_res_eq_Inr)

text \<open>An instruction in a branch that is not taken.\<close>

lemma skip_step:
  assumes "\<not> list_all (\<lambda>b. b) c" "\<not> (op_if \<le> op \<and> op \<le> op_endif)" "\<not> is_disabled_opcode op"
    "case d of Some x \<Rightarrow> length x \<le> max_script_push | None \<Rightarrow> True"
  shows "exec_step ctx \<lparr>ins_opcode = op, ins_data = d, ins_start = a, ins_end = b\<rparr> (run_state st c n) = Inr t \<longleftrightarrow>
    (op > op_16 \<longrightarrow> Suc n \<le> max_script_ops) \<and> length st \<le> max_script_stack \<and>
    t = run_state st c (if op > op_16 then Suc n else n)"
  using assms
  by (auto simp: exec_step_def bind_res_eq_Inr Let_def split: option.splits if_splits)

text \<open>A push in a branch that is taken.\<close>

lemma push_step:
  assumes "list_all (\<lambda>b. b) c" "\<not> op > op_16" "\<not> is_disabled_opcode op" "length d \<le> max_script_push"
    "is_minimal_push op d"
  shows "exec_step ctx \<lparr>ins_opcode = op, ins_data = Some d, ins_start = a, ins_end = b\<rparr> (run_state st c n) = Inr t \<longleftrightarrow>
    Suc (length st) \<le> max_script_stack \<and> t = run_state (st @ [d]) c n"
  using assms by (auto simp: exec_step_def bind_res_eq_Inr Let_def)

text \<open>An opcode that is executed.\<close>

lemma op_step:
  assumes "list_all (\<lambda>b. b) c \<or> op_if \<le> op \<and> op \<le> op_endif" "\<not> is_disabled_opcode op"
  shows "exec_step ctx \<lparr>ins_opcode = op, ins_data = None, ins_start = a, ins_end = b\<rparr> (run_state st c n) = Inr t \<longleftrightarrow>
    (op > op_16 \<longrightarrow> Suc n \<le> max_script_ops) \<and>
     (\<exists>u. exec_opcode ctx \<lparr>ins_opcode = op, ins_data = None, ins_start = a, ins_end = b\<rparr>
         (run_state st c (if op > op_16 then Suc n else n)) = Inr u \<and> limit_state u = Inr t)"
  using assms by (auto simp: exec_step_def bind_res_eq_Inr Let_def split: if_splits)


section \<open>Opcodes\<close>

lemmas op_eval = opcodes word_less_nat_alt word_le_nat_alt is_disabled_opcode_def

lemma not_disabled [simp]:
  "\<not> is_disabled_opcode op_if" "\<not> is_disabled_opcode op_else" "\<not> is_disabled_opcode op_endif"
  "\<not> is_disabled_opcode op_sha256" "\<not> is_disabled_opcode op_equalverify" "\<not> is_disabled_opcode op_equal"
  "\<not> is_disabled_opcode op_checksig" "\<not> is_disabled_opcode op_checklocktimeverify" "\<not> is_disabled_opcode op_drop"
  "\<not> is_disabled_opcode op_type"
  by (simp_all add: op_eval)

lemma above_op_16 [simp]:
  "op_if > op_16" "op_else > op_16" "op_endif > op_16" "op_sha256 > op_16" "op_equalverify > op_16" "op_equal > op_16"
  "op_checksig > op_16" "op_checklocktimeverify > op_16" "op_drop > op_16" "op_type > op_16"
  by (simp_all add: op_eval)

lemma branch_ops [simp]:
  "op_if \<le> op_else" "op_else \<le> op_endif" "op_if \<le> op_endif"
  by (simp_all add: op_eval)

lemma no_branch_ops [simp]:
  "\<not> op_checklocktimeverify \<le> op_endif" "\<not> op_drop \<le> op_endif" "\<not> op_sha256 \<le> op_endif"
  "\<not> op_equalverify \<le> op_endif" "\<not> op_equal \<le> op_endif" "\<not> op_checksig \<le> op_endif" "\<not> op_type \<le> op_endif"
  by (simp_all add: op_eval)

lemma if_step:
  "exec_step ctx \<lparr>ins_opcode = op_if, ins_data = None, ins_start = a, ins_end = b\<rparr> (run_state st [] n) = Inr t \<longleftrightarrow>
    Suc n \<le> max_script_ops \<and> st \<noteq> [] \<and> length st \<le> Suc max_script_stack \<and>
    (flags_contains (sc_flags ctx) verify_minimal_if \<longrightarrow> last st = [] \<or> last st = [1]) \<and>
    t = run_state (butlast st) [cast_to_bool (last st)] (Suc n)"
proof -
  have "exec_opcode ctx \<lparr>ins_opcode = op_if, ins_data = None, ins_start = a, ins_end = b\<rparr> s = exec_if ctx op_if s" for s
    by (simp add: exec_opcode_def exec_flow_def op_eval)
  moreover have "op_if \<noteq> op_notif" by (simp add: opcodes)
  ultimately show ?thesis by (auto simp: op_step exec_if_def Let_def split: if_splits)
qed

lemma else_step:
  "exec_step ctx \<lparr>ins_opcode = op_else, ins_data = None, ins_start = a, ins_end = b\<rparr> (run_state st [v] n) = Inr t \<longleftrightarrow>
    Suc n \<le> max_script_ops \<and> length st \<le> max_script_stack \<and> t = run_state st [\<not> v] (Suc n)"
proof -
  have "exec_opcode ctx \<lparr>ins_opcode = op_else, ins_data = None, ins_start = a, ins_end = b\<rparr> s = exec_flow ctx op_else s" for s
    by (simp add: exec_opcode_def op_eval)
  moreover have "op_else \<noteq> op_if" "op_else \<noteq> op_notif" by (simp_all add: opcodes)
  ultimately show ?thesis by (auto simp: op_step exec_flow_def)
qed

lemma endif_step:
  "exec_step ctx \<lparr>ins_opcode = op_endif, ins_data = None, ins_start = a, ins_end = b\<rparr> (run_state st [v] n) = Inr t \<longleftrightarrow>
    Suc n \<le> max_script_ops \<and> length st \<le> max_script_stack \<and> t = run_state st [] (Suc n)"
proof -
  have "exec_opcode ctx \<lparr>ins_opcode = op_endif, ins_data = None, ins_start = a, ins_end = b\<rparr> s = exec_flow ctx op_endif s" for s
    by (simp add: exec_opcode_def op_eval)
  moreover have "op_endif \<noteq> op_if" "op_endif \<noteq> op_notif" "op_endif \<noteq> op_else" by (simp_all add: opcodes)
  ultimately show ?thesis by (auto simp: op_step exec_flow_def)
qed

lemma sha256_step:
  assumes "list_all (\<lambda>b. b) c"
  shows "exec_step ctx \<lparr>ins_opcode = op_sha256, ins_data = None, ins_start = a, ins_end = b\<rparr> (run_state st c n) = Inr t \<longleftrightarrow>
    Suc n \<le> max_script_ops \<and> st \<noteq> [] \<and> length st \<le> max_script_stack \<and>
    t = run_state (butlast st @ [se_sha256 (sc_env ctx) (last st)]) c (Suc n)"
proof -
  have "exec_opcode ctx \<lparr>ins_opcode = op_sha256, ins_data = None, ins_start = a, ins_end = b\<rparr> s =
      on_stack (exec_hash ctx op_sha256) s" for s
    by (simp add: exec_opcode_def op_eval)
  moreover have "script_digest env op_sha256 x = se_sha256 env x" for env x by (simp add: script_digest_def op_eval)
  ultimately show ?thesis
    using assms by (auto simp: op_step on_stack_def exec_hash_def pop_item_def bind_res_eq_Inr Suc_le_eq split: if_splits)
qed

lemma equalverify_step:
  assumes "list_all (\<lambda>b. b) c"
  shows "exec_step ctx \<lparr>ins_opcode = op_equalverify, ins_data = None, ins_start = a, ins_end = b\<rparr> (run_state st c n) = Inr t \<longleftrightarrow>
    Suc n \<le> max_script_ops \<and> 2 \<le> length st \<and> last (butlast st) = last st \<and> length st \<le> max_script_stack + 2 \<and>
    t = run_state (butlast (butlast st)) c (Suc n)"
proof -
  have "exec_opcode ctx \<lparr>ins_opcode = op_equalverify, ins_data = None, ins_start = a, ins_end = b\<rparr> s =
      on_stack (exec_equal op_equalverify) s" for s
    by (simp add: exec_opcode_def op_eval)
  moreover have "2 \<le> length st \<Longrightarrow> st \<noteq> [] \<and> butlast st \<noteq> []" by (cases st rule: rev_cases) auto
  ultimately show ?thesis
    using assms by (auto simp: op_step on_stack_def exec_equal_def pop_item_def require_stack_def bind_res_eq_Inr
        split: if_splits)
qed

lemma equal_step:
  assumes "list_all (\<lambda>b. b) c"
  shows "exec_step ctx \<lparr>ins_opcode = op_equal, ins_data = None, ins_start = a, ins_end = b\<rparr> (run_state st c n) = Inr t \<longleftrightarrow>
    Suc n \<le> max_script_ops \<and> 2 \<le> length st \<and> length st \<le> Suc max_script_stack \<and>
    t = run_state (butlast (butlast st) @ [if last (butlast st) = last st then [1] else []]) c (Suc n)"
proof -
  have "exec_opcode ctx \<lparr>ins_opcode = op_equal, ins_data = None, ins_start = a, ins_end = b\<rparr> s =
      on_stack (exec_equal op_equal) s" for s
    by (simp add: exec_opcode_def op_eval)
  moreover have "op_equal \<noteq> op_equalverify" by (simp add: opcodes)
  moreover have "2 \<le> length st \<Longrightarrow> st \<noteq> [] \<and> butlast st \<noteq> []" by (cases st rule: rev_cases) auto
  ultimately show ?thesis
    using assms by (auto simp: op_step on_stack_def exec_equal_def pop_item_def require_stack_def bind_res_eq_Inr push_bool_def
        split: if_splits)
qed

lemma drop_step:
  assumes "list_all (\<lambda>b. b) c"
  shows "exec_step ctx \<lparr>ins_opcode = op_drop, ins_data = None, ins_start = a, ins_end = b\<rparr> (run_state st c n) = Inr t \<longleftrightarrow>
    Suc n \<le> max_script_ops \<and> st \<noteq> [] \<and> length st \<le> Suc max_script_stack \<and> t = run_state (butlast st) c (Suc n)"
proof -
  have "exec_opcode ctx \<lparr>ins_opcode = op_drop, ins_data = None, ins_start = a, ins_end = b\<rparr> s =
      on_stack (exec_stack ctx op_drop) s" for s
    by (simp add: exec_opcode_def op_eval)
  moreover have "exec_stack ctx op_drop s = bind_res (pop_item s) (\<lambda>(_, s). Inr s)" for s
    by (simp add: exec_stack_def op_eval Let_def)
  ultimately show ?thesis using assms by (auto simp: op_step on_stack_def pop_item_def bind_res_eq_Inr split: if_splits)
qed

lemma cltv_step:
  assumes "list_all (\<lambda>b. b) c" "st \<noteq> []" "last st = encode_script_number v" "0 \<le> v" "v < 2 ^ 32"
  shows "exec_step ctx \<lparr>ins_opcode = op_checklocktimeverify, ins_data = None, ins_start = a, ins_end = b\<rparr>
      (run_state st c n) = Inr t \<longleftrightarrow>
    Suc n \<le> max_script_ops \<and> length st \<le> max_script_stack \<and>
    verify_locktime_predicate (sc_transaction ctx) (sc_input_index ctx) (word_of_int v) \<and> t = run_state st c (Suc n)"
proof -
  have "exec_opcode ctx \<lparr>ins_opcode = op_checklocktimeverify, ins_data = None, ins_start = a, ins_end = b\<rparr> s =
      exec_locktime verify_locktime_predicate ctx s" for s
    by (simp add: exec_opcode_def op_eval)
  moreover have "decode_top_number flags st 5 = Inr v" for flags
  proof -
    have "length (encode_script_number v) \<le> 5" using length_encode_script_number [of 5 v] assms(4,5) by simp
    then show ?thesis
      using decode_script_number_value [of "encode_script_number v"] script_value_encode [of v] assms(2,3)
      by (simp add: decode_top_number_def)
  qed
  ultimately show ?thesis
    using assms by (auto simp: op_step exec_locktime_def Suc_le_eq split: if_splits)
qed

text \<open>The signature check over the whole script.\<close>

lemma checksig_step:
  assumes "list_all (\<lambda>b. b) c"
  shows "exec_step ctx \<lparr>ins_opcode = op_checksig, ins_data = None, ins_start = a, ins_end = b\<rparr> (run_state st c n) = Inr t \<longleftrightarrow>
    Suc n \<le> max_script_ops \<and> 2 \<le> length st \<and> length st \<le> Suc max_script_stack \<and>
    (\<exists>valid. check_signature ctx (sc_script ctx) (last (butlast st)) (last st) = Inr valid \<and>
      \<not> (\<not> valid \<and> flags_contains (sc_flags ctx) verify_nullfail \<and> last (butlast st) \<noteq> []) \<and>
      t = run_state (butlast (butlast st) @ [if valid then [1] else []]) c (Suc n))"
proof -
  have "exec_opcode ctx \<lparr>ins_opcode = op_checksig, ins_data = None, ins_start = a, ins_end = b\<rparr> s =
      exec_checksig ctx op_checksig s" for s
    by (simp add: exec_opcode_def op_eval)
  note step = op_step [of c op_checksig, OF disjI1 [OF assms] not_disabled(7), of ctx a b, unfolded this]
  show ?thesis
  proof (cases "2 \<le> length st")
    case False
    then show ?thesis unfolding step by (simp add: exec_checksig_def require_stack_def)
  next
    case True
    then obtain st' k where st': "st = st' @ [k]" "1 \<le> length st'" by (cases st rule: rev_cases) simp_all
    then obtain ss s where snoc: "st' = ss @ [s]" by (cases st' rule: rev_cases) simp_all
    have "op_checksig \<noteq> op_checksigverify" by (simp add: opcodes)
    then have e: "exec_checksig ctx op_checksig (run_state st c m) =
        bind_res (check_signature ctx (sc_script ctx) s k) (\<lambda>valid.
          if \<not> valid \<and> flags_contains (sc_flags ctx) verify_nullfail \<and> s \<noteq> [] then Inl NullFail
          else Inr (run_state (ss @ [if valid then [1] else []]) c m))" for m
      by (simp add: exec_checksig_def require_stack_def pop_item_def push_bool_def st' snoc butlast_append cong: if_cong)
    show ?thesis unfolding step e
      by (cases "check_signature ctx (sc_script ctx) s k") (auto simp: st' snoc butlast_append split: if_splits)
  qed
qed

text \<open>The push of a small positive number: one of the small-number opcodes or its bytes.\<close>

definition number_op :: "bytes \<Rightarrow> byte \<times> bytes option" where
  "number_op data =
     (if length data = 1 \<and> 1 \<le> data ! 0 \<and> data ! 0 \<le> 16 then (op_1 + data ! 0 - 1, None)
      else (word_of_nat (length data), Some data))"

lemma small_byte:
  assumes "1 \<le> (b::byte)" "b \<le> 16"
  shows "op_1 \<le> op_1 + b - 1" "op_1 + b - 1 \<le> op_16" "op_1 + b - 1 - op_1 + 1 = b"
proof -
  have b: "1 \<le> unat b" "unat b \<le> 16" using assms by (simp_all add: word_le_nat_alt)
  have "unat (op_1 + b - 1) = 80 + unat b"
  proof -
    have e: "op_1 + b - 1 = 0x50 + b" by (simp add: opcodes)
    show ?thesis unfolding e using b by (subst unat_add_lem [THEN iffD1]) simp_all
  qed
  then show "op_1 \<le> op_1 + b - 1" "op_1 + b - 1 \<le> op_16" using b by (simp_all add: word_le_nat_alt opcodes)
  show "op_1 + b - 1 - op_1 + 1 = b" by (simp add: opcodes)
qed

lemma op_bytes_number:
  assumes "1 \<le> length data" "length data \<le> 75"
  shows "op_bytes (number_op data) =
      (if length data = 1 \<and> 1 \<le> data ! 0 \<and> data ! 0 \<le> 16 then [op_1 + data ! 0 - 1] else word_of_nat (length data) # data)"
    and "op_ok (number_op data)"
proof -
  have u: "unat (word_of_nat (length data) :: byte) = length data"
    using assms by (simp add: unsigned_of_nat take_bit_eq_mod)
  then have w: "push_width (word_of_nat (length data)) = 0"
    using assms by (auto simp: push_width_def opcodes word_unat_eq_iff)
  have p: "is_push_opcode (word_of_nat (length data))"
    using assms u by (simp add: is_push_opcode_def word_le_nat_alt opcodes)
  show "op_bytes (number_op data) =
      (if length data = 1 \<and> 1 \<le> data ! 0 \<and> data ! 0 \<le> 16 then [op_1 + data ! 0 - 1] else word_of_nat (length data) # data)"
    using w by (simp add: number_op_def op_bytes_simps)
  have "1 \<le> b \<Longrightarrow> b \<le> 16 \<Longrightarrow> \<not> is_push_opcode (op_1 + b - 1)" for b
    using small_byte(1) [of b] by (auto simp: is_push_opcode_def word_le_nat_alt opcodes)
  then show "op_ok (number_op data)" using w p u by (auto simp: number_op_def op_bytes_simps)
qed

lemma number_op_not_branch:
  assumes "1 \<le> length data" "length data \<le> 75" "number_op data = (opc, d)"
  shows "\<not> opc > op_16" "\<not> (op_if \<le> opc \<and> opc \<le> op_endif)" "\<not> is_disabled_opcode opc"
    "case d of Some x \<Rightarrow> length x \<le> max_script_push | None \<Rightarrow> True"
proof -
  have u: "unat (word_of_nat (length data) :: byte) = length data"
    using assms by (simp add: unsigned_of_nat take_bit_eq_mod)
  have "opc \<le> op_16 \<and> (case d of Some x \<Rightarrow> length x \<le> max_script_push | None \<Rightarrow> True)"
    using assms u small_byte(2) [of "data ! 0"]
    by (auto simp: number_op_def word_le_nat_alt opcodes script_limits split: if_splits)
  moreover from this have "unat opc \<le> 96" by (simp add: word_le_nat_alt opcodes)
  ultimately show "\<not> opc > op_16" "\<not> (op_if \<le> opc \<and> opc \<le> op_endif)" "\<not> is_disabled_opcode opc"
    "case d of Some x \<Rightarrow> length x \<le> max_script_push | None \<Rightarrow> True"
    by (auto simp: word_le_nat_alt word_less_nat_alt opcodes is_disabled_opcode_def split: option.splits)
qed

lemma number_step:
  assumes "list_all (\<lambda>b. b) c" "0 < v" "v < 2 ^ 32" "number_op (encode_script_number v) = (opc, d)"
  shows "exec_step ctx \<lparr>ins_opcode = opc, ins_data = d, ins_start = a, ins_end = b\<rparr> (run_state st c n) = Inr t \<longleftrightarrow>
    Suc (length st) \<le> max_script_stack \<and> t = run_state (st @ [encode_script_number v]) c n"
proof -
  let ?e = "encode_script_number v"
  have val: "script_value ?e = v" using script_value_encode by blast
  have len: "length ?e \<le> 5" using length_encode_script_number [of 5 v] assms(2,3) by simp
  have ne: "?e \<noteq> []" using val assms(2) by (auto simp: script_value_def)
  then have "1 \<le> length ?e" "length ?e \<le> 75" using len by (auto simp: Suc_le_eq)
  note nb = number_op_not_branch [OF this assms(4)]
  show ?thesis
  proof (cases "length ?e = 1 \<and> 1 \<le> ?e ! 0 \<and> ?e ! 0 \<le> 16")
    case True
    then obtain x where e: "?e = [x]" by (cases ?e) auto
    then have x: "1 \<le> x" "x \<le> 16" "opc = op_1 + x - 1" "d = None" using True assms(4) by (auto simp: number_op_def)
    have "v = int (unat x)" using val x(2) unfolding e by (simp add: script_value_def byte_sign word_le_nat_alt le_nat_def)
    moreover have "exec_opcode ctx \<lparr>ins_opcode = opc, ins_data = None, ins_start = a, ins_end = b\<rparr> s =
        Inr (push_item (encode_script_number (int (unat x))) s)" for s
    proof -
      have "op_1 \<le> opc" "opc \<le> op_16" "opc - op_1 + 1 = x" using small_byte [OF x(1,2)] unfolding x(3) by auto
      moreover from this have "opc \<noteq> op_0" "opc \<noteq> op_1negate" by (auto simp: word_le_nat_alt opcodes)
      ultimately show ?thesis by (simp add: exec_opcode_def exec_constant_def)
    qed
    ultimately show ?thesis using nb assms(1) unfolding x(4) by (simp add: op_step)
  next
    case False
    then have o: "opc = word_of_nat (length ?e)" "d = Some ?e" using assms(4) by (auto simp: number_op_def)
    have "?e \<noteq> [0x81]" using val assms(2) by (auto simp: script_value_def byte_sign)
    then have "is_minimal_push opc ?e" using False ne len unfolding o is_minimal_push_def by auto
    then show ?thesis using nb len assms(1) unfolding o(2) by (simp add: push_step script_limits)
  qed
qed

lemma fold_res_Cons_iff: "fold_res f (x # xs) s = Inr t \<longleftrightarrow> (\<exists>u. f x s = Inr u \<and> fold_res f xs u = Inr t)"
  by (simp add: bind_res_eq_Inr)

lemmas chain_steps = fold_res_Cons_iff if_step else_step endif_step sha256_step equalverify_step equal_step drop_step
  checksig_step

end
