(* ===== verification/SwapSpend.thy ===== *)
theory SwapSpend
  imports SwapSale Htlc ScriptSteps
begin

text \<open>
  What the scripts of the swap crate mean to the script machine: who can spend a hash-time-locked coin and
  who can spend a locked name.
\<close>

section \<open>Running a program\<close>

lemma flags_standard_contains [simp]:
  "flags_contains flags_standard verify_minimal_if" "flags_contains flags_standard verify_nullfail"
  "flags_contains flags_standard verify_minimal_data"
  by code_simp+

text \<open>When the last witness item is the committed script, acceptance is a run that leaves one true item.\<close>

lemma script_spend_iff:
  assumes "i < length (tx_inputs tx)" "in_previous_output (tx_inputs tx ! i) = coin_outpoint c"
    and "coin_address c = \<lparr>addr_version = 0, addr_hash = se_sha3_256 env script\<rparr>" "length (se_sha3_256 env script) = 32"
    and "in_witness (tx_inputs tx ! i) = stack @ [script]"
    and "list_all op_ok ods" "script = concat (map op_bytes ods)" "length script \<le> max_script_size"
  shows "verify_witness_program env tx i c flags = Inr () \<longleftrightarrow>
    length stack < max_script_stack \<and> items_ok stack \<and>
    (\<exists>t. fold_res (exec_step \<lparr>sc_env = env, sc_script = script, sc_transaction = tx, sc_input_index = i,
        sc_previous_value = coin_value c, sc_flags = flags\<rparr>) (place 0 ods) (run_state stack [] 0) = Inr t \<and>
      ex_conditions t = [] \<and> (\<exists>x. ex_stack t = [x] \<and> cast_to_bool x))"
proof -
  have p: "parse_script script = Inr (place 0 ods)" by (rule parse_program [OF assms(6-8)])
  have init: "exec_initial stack = run_state stack [] 0" by (simp add: exec_initial_def run_state_def)
  have items: "list_ex (\<lambda>item. max_script_push < length item) stack \<longleftrightarrow> \<not> items_ok stack"
    by (auto simp: items_ok_def list_ex_iff not_le)
  let ?run = "fold_res (exec_step \<lparr>sc_env = env, sc_script = script, sc_transaction = tx, sc_input_index = i,
      sc_previous_value = coin_value c, sc_flags = flags\<rparr>) (place 0 ods) (run_state stack [] 0)"
  have v: "verify_witness_program env tx i c flags =
      (if \<not> length stack < max_script_stack then Inl StackSize
       else if \<not> items_ok stack then Inl PushSize
       else bind_res (bind_res ?run (\<lambda>st. if ex_conditions st \<noteq> [] then Inl UnbalancedConditional else Inr (ex_stack st)))
         (\<lambda>stack. if length stack \<noteq> 1 \<or> \<not> cast_to_bool (stack ! 0) then Inl EvalFalse else Inr ()))"
    using assms(1-5,8) unfolding verify_witness_program_def execute_script_def
    by (simp add: get_def ok_or_def witness_redeem_def p init items Let_def not_le)
  have one: "(length st = Suc 0 \<and> cast_to_bool (st ! 0)) \<longleftrightarrow> (\<exists>x. st = [x] \<and> cast_to_bool x)" for st
    by (cases st) auto
  show ?thesis unfolding v
    by (cases ?run) (auto simp: one [symmetric] split: if_splits)
qed

section \<open>Hash-time-locked coins\<close>

lemma swap_encode_script_number_eq: "swap_encode_script_number v = encode_script_number (uint v)"
proof (cases "v = 0")
  case False
  then have p: "0 < uint v" by (metis uint_0_iff uint_ge_0 less_le)
  then have "nat \<bar>uint v\<bar> = unat v" "\<not> uint v < 0" "uint v \<noteq> 0" by simp_all
  then show ?thesis using False by (simp add: swap_encode_script_number_def encode_script_number_def Let_def)
qed (simp add: swap_encode_script_number_def encode_script_number_def)

definition htlc_ops :: "bytes \<Rightarrow> bytes \<Rightarrow> bytes \<Rightarrow> u32 \<Rightarrow> (byte \<times> bytes option) list" where
  "htlc_ops hashlock receiver refund lock =
     [(op_if, None), (op_sha256, None), (32, Some hashlock), (op_equalverify, None), (33, Some receiver), (op_else, None),
      number_op (encode_script_number (uint lock)), (op_checklocktimeverify, None), (op_drop, None), (33, Some refund),
      (op_endif, None), (op_checksig, None)]"

definition htlc_shape :: "hns_htlc \<Rightarrow> bool" where
  "htlc_shape h \<longleftrightarrow> length (ht_hashlock h) = 32 \<and> length (ht_receiver_public_key h) = 33 \<and> length (ht_refund_public_key h) = 33"

lemma lock_number:
  assumes "(lock :: u32) AND locktime_mask \<noteq> 0"
  shows "0 < uint lock" "uint lock < 2 ^ 32" "1 \<le> length (encode_script_number (uint lock))"
    "length (encode_script_number (uint lock)) \<le> 5"
proof -
  have "lock \<noteq> 0" using assms by auto
  then show p: "0 < uint lock" by (metis uint_0_iff uint_ge_0 less_le)
  show b: "uint lock < 2 ^ 32" using uint_lt2p [of lock] by simp
  show "length (encode_script_number (uint lock)) \<le> 5" using length_encode_script_number [of 5 "uint lock"] p b by simp
  have "encode_script_number (uint lock) \<noteq> []"
    using script_value_encode [of "uint lock"] p by (auto simp: script_value_def)
  then show "1 \<le> length (encode_script_number (uint lock))" by (simp add: Suc_le_eq)
qed

lemma push32: "push_width 32 = 0" "push_width 33 = 0" "is_push_opcode 32" "is_push_opcode 33"
  by (simp_all add: push_width_def is_push_opcode_def opcodes word_le_nat_alt)

lemma opcode_not_push:
  "\<not> is_push_opcode op_if" "\<not> is_push_opcode op_sha256" "\<not> is_push_opcode op_equalverify" "\<not> is_push_opcode op_else"
  "\<not> is_push_opcode op_checklocktimeverify" "\<not> is_push_opcode op_drop" "\<not> is_push_opcode op_endif"
  "\<not> is_push_opcode op_checksig" "\<not> is_push_opcode op_equal" "\<not> is_push_opcode op_type" "\<not> is_push_opcode op_9"
  "\<not> is_push_opcode op_10"
  by (simp_all add: is_push_opcode_def opcodes word_le_nat_alt op_9_def op_10_def)

lemma htlc_script_program:
  assumes "htlc_script K h = Inr script" "htlc_shape h"
  defines "ods \<equiv> htlc_ops (ht_hashlock h) (ht_receiver_public_key h) (ht_refund_public_key h) (ht_refund_locktime h)"
  shows "list_all op_ok ods" "script = concat (map op_bytes ods)" "length script \<le> max_script_size"
    "ht_refund_locktime h AND locktime_mask \<noteq> 0"
proof -
  have v: "htlc_validate K h = Inr ()"
    and sc: "script = [op_if, op_sha256, 32] @ ht_hashlock h @ [op_equalverify, 33] @ ht_receiver_public_key h @ [op_else] @
       push_minimal_data (encode_script_number (uint (ht_refund_locktime h))) @
       [op_checklocktimeverify, op_drop, 33] @ ht_refund_public_key h @ [op_endif, op_checksig]"
    using assms(1) by (auto simp: htlc_script_def bind_res_eq_Inr swap_encode_script_number_eq uint_up_ucast is_up)
  show m: "ht_refund_locktime h AND locktime_mask \<noteq> 0"
    using v by (auto simp: htlc_validate_def split: if_splits)
  note num = lock_number [OF m]
  have "op_bytes (number_op (encode_script_number (uint (ht_refund_locktime h)))) =
      push_minimal_data (encode_script_number (uint (ht_refund_locktime h)))"
    using op_bytes_number(1) num by (simp add: push_minimal_data_def)
  then show "script = concat (map op_bytes ods)"
    unfolding sc ods_def htlc_ops_def by (simp add: op_bytes_simps push32)
  show "list_all op_ok ods" using num op_bytes_number(2) assms(2)
    by (simp add: ods_def htlc_ops_def htlc_shape_def op_bytes_simps push32 opcode_not_push)
  show "length script \<le> max_script_size"
    using num assms(2) unfolding sc by (simp add: htlc_shape_def push_minimal_data_def script_limits)
qed

lemma push32_step:
  assumes "length d = 32 \<and> opc = 32 \<or> length d = 33 \<and> opc = 33"
  shows "exec_step ctx \<lparr>ins_opcode = opc, ins_data = Some d, ins_start = a, ins_end = b\<rparr> (run_state st [v] n) = Inr t \<longleftrightarrow>
    (if v then Suc (length st) \<le> max_script_stack \<and> t = run_state (st @ [d]) [v] n
     else length st \<le> max_script_stack \<and> t = run_state st [v] n)"
proof -
  have op: "\<not> opc > op_16" "\<not> is_disabled_opcode opc" "\<not> (op_if \<le> opc \<and> opc \<le> op_endif)" "length d \<le> max_script_push"
    using assms by (auto simp: op_eval script_limits)
  moreover have "is_minimal_push opc d" using assms by (cases d) (auto simp: is_minimal_push_def)
  ultimately show ?thesis by (simp add: push_step skip_step)
qed

lemma number_branch_step:
  assumes "0 < v" "v < 2 ^ 32" "number_op (encode_script_number v) = (opc, d)"
    "1 \<le> length (encode_script_number v)" "length (encode_script_number v) \<le> 5"
  shows "exec_step ctx \<lparr>ins_opcode = opc, ins_data = d, ins_start = a, ins_end = b\<rparr> (run_state st [u] n) = Inr t \<longleftrightarrow>
    (if u then Suc (length st) \<le> max_script_stack \<and> t = run_state (st @ [encode_script_number v]) [u] n
     else length st \<le> max_script_stack \<and> t = run_state st [u] n)"
  using number_op_not_branch [OF assms(4) _ assms(3)] number_step [OF _ assms(1-3)] assms(5)
  by (simp add: skip_step)

lemma skipped_op_step:
  assumes "opc \<in> {op_sha256, op_equalverify, op_checklocktimeverify, op_drop, op_checksig}"
  shows "exec_step ctx \<lparr>ins_opcode = opc, ins_data = None, ins_start = a, ins_end = b\<rparr> (run_state st [False] n) = Inr t \<longleftrightarrow>
    Suc n \<le> max_script_ops \<and> length st \<le> max_script_stack \<and> t = run_state st [False] (Suc n)"
  using assms by (auto simp: skip_step)

lemma htlc_run:
  fixes lock :: u32
  assumes "length hashlock = 32" "length receiver = 33" "length refund = 33" "lock AND locktime_mask \<noteq> 0"
    and "flags_contains (sc_flags ctx) verify_minimal_if" "length stack < max_script_stack"
  shows "(\<exists>t. fold_res (exec_step ctx) (place 0 (htlc_ops hashlock receiver refund lock)) (run_state stack [] 0) = Inr t \<and>
      ex_conditions t = [] \<and> (\<exists>x. ex_stack t = [x] \<and> cast_to_bool x)) \<longleftrightarrow>
    (\<exists>s x. stack = [s, x, [1]] \<and> se_sha256 (sc_env ctx) x = hashlock \<and>
      check_signature ctx (sc_script ctx) s receiver = Inr True) \<or>
    (\<exists>s. stack = [s, []] \<and> verify_locktime_predicate (sc_transaction ctx) (sc_input_index ctx) lock \<and>
      check_signature ctx (sc_script ctx) s refund = Inr True)"
proof -
  note num = lock_number [OF assms(4)]
  obtain opc d where nop: "number_op (encode_script_number (uint lock)) = (opc, d)" by fastforce
  note nstep = number_branch_step [OF num(1,2) nop num(3,4)]
  note cltv = cltv_step [of "[True]" _ "uint lock", OF _ _ _ _ num(2)]
  have cast: "cast_to_bool [1]" "\<not> cast_to_bool []" by code_simp+
  consider "stack = []" | st where "stack = st @ [[1]]" | st where "stack = st @ [[]]" |
      st y where "stack = st @ [y]" "y \<noteq> []" "y \<noteq> [1]"
    by (cases stack rule: rev_cases) blast+
  then show ?thesis
  proof cases
    case 1
    then show ?thesis by (simp add: htlc_ops_def chain_steps del: fold_res.simps(2))
  next
    case 2
    then have st: "Suc (length st) < max_script_stack" using assms(6) by simp
    show ?thesis
    proof (cases "2 \<le> length st")
      case True
      then obtain st' k where st': "st = st' @ [k]" "1 \<le> length st'" by (cases st rule: rev_cases) simp_all
      then obtain ss s where snoc: "st' = ss @ [s]" by (cases st' rule: rev_cases) simp_all
      show ?thesis using st num assms(1-5) unfolding 2 st' snoc htlc_ops_def place.simps nop
        by (simp add: chain_steps cast push32_step skipped_op_step nstep butlast_append del: fold_res.simps(2))
          (auto simp: cast script_limits)
    next
      case False
      then consider "st = []" | x where "st = [x]" by (cases st rule: remdups_adj.cases) simp_all
      then show ?thesis using st num assms(1-5) unfolding 2 htlc_ops_def place.simps nop
        by cases (simp_all add: chain_steps cast push32_step skipped_op_step nstep butlast_append del: fold_res.simps(2))
    qed
  next
    case 3
    then have st: "Suc (length st) < max_script_stack" using assms(6) by simp
    show ?thesis using st num assms(1-5) unfolding 3 htlc_ops_def place.simps nop
      by (cases st rule: rev_cases)
        (simp_all add: chain_steps cast push32_step skipped_op_step nstep cltv butlast_append del: fold_res.simps(2),
          auto simp: cast script_limits)
  next
    case 4
    then show ?thesis using assms(5) by (auto simp: htlc_ops_def chain_steps simp del: fold_res.simps(2))
  qed
qed

section \<open>Locked names\<close>

definition lock_ops :: "bytes \<Rightarrow> (byte \<times> bytes option) list" where
  "lock_ops key =
     [(op_type, None), (op_9, None), (op_equal, None), (op_if, None), (33, Some key), (op_checksig, None), (op_else, None),
      (op_type, None), (op_10, None), (op_equal, None), (op_endif, None)]"

lemma lock_script_program:
  assumes "length key = 33"
  shows "list_all op_ok (lock_ops key)" "create_lock_script key = concat (map op_bytes (lock_ops key))"
    "length (create_lock_script key) \<le> max_script_size"
  using assms by (simp_all add: lock_ops_def create_lock_script_def op_bytes_simps push32 opcode_not_push script_limits)

definition output_kind_number :: "transaction \<Rightarrow> nat \<Rightarrow> int" where
  "output_kind_number tx i =
     (case get (tx_outputs tx) i of Some out \<Rightarrow> int (unat (kind_as_u8 (cov_kind (out_covenant out)))) | None \<Rightarrow> 0)"

lemma type_step:
  assumes "list_all (\<lambda>b. b) c"
  shows "exec_step ctx \<lparr>ins_opcode = op_type, ins_data = None, ins_start = a, ins_end = b\<rparr> (run_state st c n) = Inr t \<longleftrightarrow>
    Suc n \<le> max_script_ops \<and> Suc (length st) \<le> max_script_stack \<and>
    t = run_state (st @ [encode_script_number (output_kind_number (sc_transaction ctx) (sc_input_index ctx))]) c (Suc n)"
proof -
  have "exec_opcode ctx \<lparr>ins_opcode = op_type, ins_data = None, ins_start = a, ins_end = b\<rparr> s =
      Inr (push_item (encode_script_number (output_kind_number (sc_transaction ctx) (sc_input_index ctx))) s)" for s
    by (simp add: exec_opcode_def exec_constant_def output_kind_number_def op_eval)
  then show ?thesis using assms by (auto simp: op_step)
qed

lemma small_ops:
  "op_1 \<le> op_9" "op_9 \<le> op_16" "op_9 \<noteq> op_0" "op_9 \<noteq> op_1negate" "unat (op_9 - op_1 + 1) = 9"
  "op_1 \<le> op_10" "op_10 \<le> op_16" "op_10 \<noteq> op_0" "op_10 \<noteq> op_1negate" "unat (op_10 - op_1 + 1) = 10"
  "\<not> is_disabled_opcode op_9" "\<not> is_disabled_opcode op_10" "op_10 \<le> op_endif" "\<not> op_if \<le> op_10"
  by (simp_all add: op_eval op_9_def op_10_def)

lemma small_number_step:
  assumes "list_all (\<lambda>b. b) c" "op_1 \<le> opc" "opc \<le> op_16" "\<not> is_disabled_opcode opc" "opc \<noteq> op_0" "opc \<noteq> op_1negate"
    "unat (opc - op_1 + 1) = m"
  shows "exec_step ctx \<lparr>ins_opcode = opc, ins_data = None, ins_start = a, ins_end = b\<rparr> (run_state st c n) = Inr t \<longleftrightarrow>
    Suc (length st) \<le> max_script_stack \<and> t = run_state (st @ [encode_script_number (int m)]) c n"
proof -
  have "exec_opcode ctx \<lparr>ins_opcode = opc, ins_data = None, ins_start = a, ins_end = b\<rparr> s =
      Inr (push_item (encode_script_number (int m)) s)" for s
    using assms(2-6) unfolding assms(7) [symmetric] by (simp add: exec_opcode_def exec_constant_def)
  moreover have "\<not> opc > op_16" using assms(3) by simp
  ultimately show ?thesis using assms(1,4) by (auto simp: op_step)
qed

lemmas op_9_step = small_number_step [OF _ small_ops(1,2,11,3,4,5), simplified]
lemmas op_10_step = small_number_step [OF _ small_ops(6,7,12,8,9,10), simplified]

lemma skipped_lock_step:
  "exec_step ctx \<lparr>ins_opcode = op_type, ins_data = None, ins_start = a, ins_end = b\<rparr> (run_state st [False] n) = Inr t \<longleftrightarrow>
    Suc n \<le> max_script_ops \<and> length st \<le> max_script_stack \<and> t = run_state st [False] (Suc n)"
  "exec_step ctx \<lparr>ins_opcode = op_equal, ins_data = None, ins_start = a, ins_end = b\<rparr> (run_state st [False] n) = Inr t \<longleftrightarrow>
    Suc n \<le> max_script_ops \<and> length st \<le> max_script_stack \<and> t = run_state st [False] (Suc n)"
  "exec_step ctx \<lparr>ins_opcode = op_10, ins_data = None, ins_start = a, ins_end = b\<rparr> (run_state st [False] n) = Inr t \<longleftrightarrow>
    length st \<le> max_script_stack \<and> t = run_state st [False] n"
  using small_ops by (auto simp: skip_step not_less)

lemma encode_script_number_eq_iff: "encode_script_number a = encode_script_number b \<longleftrightarrow> a = b"
  using script_value_encode by metis

lemma lock_run:
  assumes "length key = 33" "flags_contains (sc_flags ctx) verify_minimal_if"
    "length stack < max_script_stack"
  defines "kind \<equiv> output_kind_number (sc_transaction ctx) (sc_input_index ctx)"
  shows "(\<exists>t. fold_res (exec_step ctx) (place 0 (lock_ops key)) (run_state stack [] 0) = Inr t \<and>
      ex_conditions t = [] \<and> (\<exists>x. ex_stack t = [x] \<and> cast_to_bool x)) \<longleftrightarrow>
    (kind = 9 \<and> (\<exists>s. stack = [s] \<and> check_signature ctx (sc_script ctx) s key = Inr True)) \<or> (kind = 10 \<and> stack = [])"
proof -
  have cast: "cast_to_bool [1]" "\<not> cast_to_bool []" by code_simp+
  have small: "length stack < 1000" using assms(3) by (simp add: script_limits)
  consider "kind = 9" "stack = []" | st x where "kind = 9" "stack = st @ [x]" | "kind \<noteq> 9"
    by (cases stack rule: rev_cases) blast+
  then show ?thesis
  proof cases
    case 1
    then show ?thesis using small assms(1,2) unfolding lock_ops_def place.simps
      by (simp add: chain_steps cast push32_step op_9_step op_10_step type_step kind_def [symmetric] encode_script_number_eq_iff
          butlast_append del: fold_res.simps(2))
  next
    case 2
    then show ?thesis using small assms(1,2) unfolding lock_ops_def place.simps
      by (simp add: chain_steps cast push32_step op_9_step op_10_step type_step kind_def [symmetric] encode_script_number_eq_iff
          skipped_lock_step skipped_op_step butlast_append del: fold_res.simps(2)) (auto simp: cast script_limits chain_steps skipped_lock_step ex_bool_eq simp del: fold_res.simps(2))
  next
    case 3
    then show ?thesis using small assms(1,2) unfolding lock_ops_def place.simps
      by (simp add: chain_steps cast push32_step op_9_step op_10_step type_step kind_def [symmetric] encode_script_number_eq_iff
          skipped_lock_step skipped_op_step butlast_append del: fold_res.simps(2)) (auto simp: cast script_limits)
  qed
qed

end
