(* ===== verification/SwapSecurity.thy ===== *)
theory SwapSecurity
  imports SwapSpend
begin

text \<open>
  Who can take the coins of the swap crate: the exact spends of a hash-time-locked coin that
  \<^verbatim>\<open>HnsHtlc::verify_spend\<close> accepts, and of a locked name that consensus accepts.
\<close>

section \<open>Hash-time-locked coins\<close>

text \<open>A signature of the whole transaction by a key, in the only form the HTLC code accepts.\<close>

definition htlc_signed ::
  "script_env \<Rightarrow> k256 \<Rightarrow> bytes \<Rightarrow> transaction \<Rightarrow> nat \<Rightarrow> u64 \<Rightarrow> bytes \<Rightarrow> bytes \<Rightarrow> bool" where
  "htlc_signed E K script tx i amount key s \<longleftrightarrow>
     length s = 65 \<and> s ! 64 = hns_htlc_sighash \<and> k_signature_parses K (take 64 s) \<and> k_normalize_s K (take 64 s) = None \<and>
     (key ! 0 = 2 \<or> key ! 0 = 3) \<and> k_public_key_parses K key \<and>
     (\<exists>message. signature_hash (se_blake2b_256 E) tx i script amount (ucast hns_htlc_sighash) = Inr message \<and>
        k_verify_prehash K key message (take 64 s))"

lemma htlc_signed_check:
  assumes "sc_env ctx = k256_env K E" "sc_transaction ctx = tx" "sc_input_index ctx = i" "sc_previous_value ctx = amount"
    "length key = 33"
  shows "htlc_signed E K script tx i amount key s \<longleftrightarrow>
    length s = 65 \<and> validate_htlc_signature K s = Inr () \<and> check_signature ctx script s key = Inr True"
proof -
  have "is_valid_signature_hash_type hns_htlc_sighash" by code_simp
  then show ?thesis
    using check_signature_k256 [OF assms(1), of script s key] assms(2-5)
    by (auto simp: htlc_signed_def validate_htlc_signature_def split: if_splits)
qed

lemma funding_coin_address:
  assumes "verify_funding_coin E K h c = Inr ()" "htlc_script K h = Inr script"
  shows "coin_address c = \<lparr>addr_version = 0, addr_hash = se_sha3_256 E script\<rparr>"
  using assms
  by (auto simp: verify_funding_coin_def verify_funding_output_def htlc_address_def htlc_script_hash_def address_new_def
      bind_res_eq_Inr map_err_eq_Inr Let_def split: if_splits)

lemma htlc_program_accepts:
  assumes "htlc_shape h" "length (se_sha3_256 E script) = 32" "htlc_script K h = Inr script"
    and "verify_funding_coin E K h c = Inr ()" "i < length (tx_inputs tx)"
    and "in_previous_output (tx_inputs tx ! i) = coin_outpoint c" "in_witness (tx_inputs tx ! i) = stack @ [script]"
  defines "ctx \<equiv> \<lparr>sc_env = k256_env K E, sc_script = script, sc_transaction = tx, sc_input_index = i,
        sc_previous_value = coin_value c, sc_flags = flags_standard\<rparr>"
  shows "verify_witness_program (k256_env K E) tx i c flags_standard = Inr () \<longleftrightarrow>
    (\<exists>s x. stack = [s, x, [1]] \<and> length x \<le> max_script_push \<and> se_sha256 E x = ht_hashlock h \<and>
      check_signature ctx script s (ht_receiver_public_key h) = Inr True) \<or>
    (\<exists>s. stack = [s, []] \<and> verify_locktime_predicate tx i (ht_refund_locktime h) \<and>
      check_signature ctx script s (ht_refund_public_key h) = Inr True)"
proof -
  note prog = htlc_script_program [OF assms(3,1)]
  note shape = assms(1) [unfolded htlc_shape_def]
  have sig: "length s \<le> max_script_push" if "check_signature ctx script s k = Inr True" for s k
    using that check_signature_k256 [of ctx K E script s k] by (simp add: ctx_def script_limits)
  have adr: "coin_address c = \<lparr>addr_version = 0, addr_hash = se_sha3_256 (k256_env K E) script\<rparr>"
    using funding_coin_address [OF assms(4,3)] by simp
  have len: "length (se_sha3_256 (k256_env K E) script) = 32" using assms(2) by simp
  note run = htlc_run [of "ht_hashlock h" "ht_receiver_public_key h" "ht_refund_public_key h" "ht_refund_locktime h" ctx stack,
      OF _ _ _ prog(4)]
  show ?thesis
    using script_spend_iff [OF assms(5,6) adr len assms(7) prog(1-3), of flags_standard, folded ctx_def] run shape sig
    by (auto simp: ctx_def items_ok_def script_limits)
qed

lemma witness_program_input:
  assumes "verify_witness_program env tx i c flags = Inr ()"
  shows "i < length (tx_inputs tx)" "in_previous_output (tx_inputs tx ! i) = coin_outpoint c"
  using assms by (auto simp: verify_witness_program_def bind_res_eq_Inr get_def ok_or_def split: if_splits)

lemma verify_spend_iff:
  "verify_spend E K h tx i c = Inr r \<longleftrightarrow>
     i < length (tx_inputs tx) \<and> verify_funding_coin E K h c = Inr () \<and>
     verify_witness_program (k256_env K E) tx i c flags_standard = Inr () \<and>
     (\<exists>script s. htlc_script K h = Inr script \<and> length s = 65 \<and> validate_htlc_signature K s = Inr () \<and>
       ((\<exists>p. in_witness (tx_inputs tx ! i) = [s, p, [1], script] \<and> length p = 32 \<and> hash_preimage E p = ht_hashlock h \<and>
           r = HtlcRedeem p) \<or>
        in_witness (tx_inputs tx ! i) = [s, [], script] \<and> r = HtlcRefund))"
  by (cases "i < length (tx_inputs tx)")
    (auto simp: verify_spend_def extract_preimage_def get_def ok_or_def as_array_def bind_res_eq_Inr map_err_eq_Inr
      split: list.splits if_splits)

text \<open>
  C6: \<^verbatim>\<open>HnsHtlc::verify_spend\<close> reports a redemption with a preimage exactly when the coin funds the contract,
  the input spends that coin, and the witness is the receiver's signature of the whole transaction with a
  32-byte preimage of the hash lock; it reports a refund exactly when the transaction satisfies the
  refund lock time and the witness is the refund owner's signature.  Nothing else is accepted.
\<close>

theorem htlc_spend_exact:
  assumes "htlc_shape h" "\<forall>x. length (se_sha3_256 E x) = 32"
  shows "verify_spend E K h tx i c = Inr r \<longleftrightarrow>
    i < length (tx_inputs tx) \<and> in_previous_output (tx_inputs tx ! i) = coin_outpoint c \<and>
    verify_funding_coin E K h c = Inr () \<and>
    (\<exists>script s. htlc_script K h = Inr script \<and>
      ((\<exists>p. r = HtlcRedeem p \<and> in_witness (tx_inputs tx ! i) = [s, p, [1], script] \<and> length p = 32 \<and>
          se_sha256 E p = ht_hashlock h \<and> htlc_signed E K script tx i (coin_value c) (ht_receiver_public_key h) s) \<or>
       r = HtlcRefund \<and> in_witness (tx_inputs tx ! i) = [s, [], script] \<and>
       verify_locktime_predicate tx i (ht_refund_locktime h) \<and>
       htlc_signed E K script tx i (coin_value c) (ht_refund_public_key h) s))"
proof -
  let ?acc = "verify_witness_program (k256_env K E) tx i c flags_standard = Inr ()"
  let ?in = "i < length (tx_inputs tx) \<and> in_previous_output (tx_inputs tx ! i) = coin_outpoint c"
  let ?w = "in_witness (tx_inputs tx ! i)"
  have keys: "length (ht_receiver_public_key h) = 33" "length (ht_refund_public_key h) = 33"
    using assms(1) by (simp_all add: htlc_shape_def)
  have acc: "?acc \<Longrightarrow> ?in" using witness_program_input by blast
  have redeem: "?acc \<and> length s = 65 \<and> validate_htlc_signature K s = Inr () \<longleftrightarrow>
      htlc_signed E K script tx i (coin_value c) (ht_receiver_public_key h) s"
    if "?in" "verify_funding_coin E K h c = Inr ()" "htlc_script K h = Inr script" "?w = [s, p, [1], script]"
      "length p = 32" "se_sha256 E p = ht_hashlock h" for s p script
    using htlc_program_accepts [of h E script K c i tx "[s, p, [1]]"] that assms keys
    by (subst htlc_signed_check [of "\<lparr>sc_env = k256_env K E, sc_script = script, sc_transaction = tx, sc_input_index = i,
        sc_previous_value = coin_value c, sc_flags = flags_standard\<rparr>"]) (auto simp: script_limits)
  have refund: "?acc \<and> length s = 65 \<and> validate_htlc_signature K s = Inr () \<longleftrightarrow>
      verify_locktime_predicate tx i (ht_refund_locktime h) \<and>
      htlc_signed E K script tx i (coin_value c) (ht_refund_public_key h) s"
    if "?in" "verify_funding_coin E K h c = Inr ()" "htlc_script K h = Inr script" "?w = [s, [], script]" for s script
    using htlc_program_accepts [of h E script K c i tx "[s, []]"] that assms keys
    by (subst htlc_signed_check [of "\<lparr>sc_env = k256_env K E, sc_script = script, sc_transaction = tx, sc_input_index = i,
        sc_previous_value = coin_value c, sc_flags = flags_standard\<rparr>"]) auto
  show ?thesis unfolding verify_spend_iff hash_preimage_def using acc redeem refund by metis
qed

section \<open>Locked names\<close>

lemma output_kind_number_eq:
  "output_kind_number tx i = 9 \<longleftrightarrow> (\<exists>out. get (tx_outputs tx) i = Some out \<and> kind_as_u8 (cov_kind (out_covenant out)) = 9)"
  "output_kind_number tx i = 10 \<longleftrightarrow> (\<exists>out. get (tx_outputs tx) i = Some out \<and> kind_as_u8 (cov_kind (out_covenant out)) = 10)"
  by (auto simp: output_kind_number_def word_uint_eq_iff split: option.splits)

lemma locked_name_accepts:
  assumes "length key = 33" "length (lock_script_hash E key) = 32"
    and "coin_address c = \<lparr>addr_version = 0, addr_hash = lock_script_hash E key\<rparr>"
    and "i < length (tx_inputs tx)" "in_previous_output (tx_inputs tx ! i) = coin_outpoint c"
    and "in_witness (tx_inputs tx ! i) = stack @ [create_lock_script key]"
  shows "verify_witness_program (k256_env K E) tx i c flags_standard = Inr () \<longleftrightarrow>
    (\<exists>out. get (tx_outputs tx) i = Some out \<and>
      (kind_as_u8 (cov_kind (out_covenant out)) = 9 \<and>
         (\<exists>s message. stack = [s] \<and> length s = 65 \<and> is_valid_signature_hash_type (s ! 64) \<and>
            k_signature_parses K (take 64 s) \<and> k_normalize_s K (take 64 s) = None \<and>
            (key ! 0 = 2 \<or> key ! 0 = 3) \<and> k_public_key_parses K key \<and>
            signature_hash (se_blake2b_256 E) tx i (create_lock_script key) (coin_value c) (ucast (s ! 64)) = Inr message \<and>
            k_verify_prehash K key message (take 64 s)) \<or>
       kind_as_u8 (cov_kind (out_covenant out)) = 10 \<and> stack = []))"
proof -
  let ?ctx = "\<lparr>sc_env = k256_env K E, sc_script = create_lock_script key, sc_transaction = tx, sc_input_index = i,
        sc_previous_value = coin_value c, sc_flags = flags_standard\<rparr>"
  have adr: "coin_address c = \<lparr>addr_version = 0, addr_hash = se_sha3_256 (k256_env K E) (create_lock_script key)\<rparr>"
    "length (se_sha3_256 (k256_env K E) (create_lock_script key)) = 32"
    using assms(2,3) by (simp_all add: lock_script_hash_def)
  note prog = lock_script_program [OF assms(1)]
  have sig: "check_signature ?ctx (create_lock_script key) s key = Inr True \<Longrightarrow> length s \<le> max_script_push" for s
    using check_signature_k256 [of ?ctx K E "create_lock_script key" s key] by (simp add: script_limits)
  have "verify_witness_program (k256_env K E) tx i c flags_standard = Inr () \<longleftrightarrow>
      output_kind_number tx i = 9 \<and> (\<exists>s. stack = [s] \<and> check_signature ?ctx (create_lock_script key) s key = Inr True) \<or>
      output_kind_number tx i = 10 \<and> stack = []"
    using script_spend_iff [OF assms(4,5) adr assms(6) prog, of flags_standard] lock_run [of key ?ctx stack] sig assms(1)
    by (auto simp: items_ok_def script_limits)
  then show ?thesis
    using check_signature_k256 [of ?ctx K E "create_lock_script key" _ key] assms(1)
    unfolding output_kind_number_eq by auto
qed

text \<open>
  C30: a coin locked by \<^verbatim>\<open>create_lock_script\<close> can be spent in exactly two ways once the script is revealed: into a
  TRANSFER output at the same index with a signature of the seller's key that verifies the signature hash, or into a
  FINALIZE output at the same index with no other witness item.
\<close>

theorem locked_name_spend_exact:
  assumes "length key = 33" "length (lock_script_hash E key) = 32"
    and "coin_address c = \<lparr>addr_version = 0, addr_hash = lock_script_hash E key\<rparr>"
    and "i < length (tx_inputs tx)" "in_previous_output (tx_inputs tx ! i) = coin_outpoint c"
    and "in_witness (tx_inputs tx ! i) = stack @ [create_lock_script key]"
  shows "verify_witness_program (k256_env K E) tx i c flags_standard = Inr () \<longleftrightarrow>
    (\<exists>out. get (tx_outputs tx) i = Some out \<and>
      (kind_as_u8 (cov_kind (out_covenant out)) = 9 \<and>
         (\<exists>s message. stack = [s] \<and> length s = 65 \<and> is_valid_signature_hash_type (s ! 64) \<and>
            k_signature_parses K (take 64 s) \<and> k_normalize_s K (take 64 s) = None \<and>
            (key ! 0 = 2 \<or> key ! 0 = 3) \<and> k_public_key_parses K key \<and>
            signature_hash (se_blake2b_256 E) tx i (create_lock_script key) (coin_value c) (ucast (s ! 64)) = Inr message \<and>
            k_verify_prehash K key message (take 64 s)) \<or>
       kind_as_u8 (cov_kind (out_covenant out)) = 10 \<and> stack = []))"
  by (rule locked_name_accepts [OF assms])

section \<open>Examples\<close>

definition sample_k256 :: k256 where
  "sample_k256 = \<lparr>k_signature_parses = (\<lambda>_. True), k_normalize_s = (\<lambda>_. None),
     k_public_key_parses = (\<lambda>k. k ! 0 = 2 \<or> k ! 0 = 3), k_verify_prehash = (\<lambda>k _ s. s ! 0 = k ! 1)\<rparr>"

definition sample_htlc :: hns_htlc where
  "sample_htlc = \<lparr>ht_network = \<lparr>nb_magic = 1, nb_genesis = replicate 32 0\<rparr>, ht_value = 10, ht_hashlock = replicate 32 32,
     ht_receiver_public_key = sample_key 5, ht_refund_public_key = sample_key 6, ht_refund_locktime = 300\<rparr>"

definition sample_htlc_script :: bytes where
  "sample_htlc_script = (case htlc_script sample_k256 sample_htlc of Inr s \<Rightarrow> s | Inl _ \<Rightarrow> [])"

definition sample_htlc_coin :: coin where
  "sample_htlc_coin = sample_pkh_coin\<lparr>coin_address := \<lparr>addr_version = 0, addr_hash = length_digest_of 32 sample_htlc_script\<rparr>\<rparr>"

definition sample_htlc_redeem :: transaction where
  "sample_htlc_redeem = sample_spend\<lparr>tx_inputs := [\<lparr>in_previous_output = \<lparr>op_hash = replicate 32 9, op_index = 1\<rparr>,
     in_sequence = 5, in_witness = [sample_signature 5, replicate 32 7, [1], sample_htlc_script]\<rparr>]\<rparr>"

theorem htlc_spend_exact_witness:
  "verify_spend sample_env sample_k256 sample_htlc sample_htlc_redeem 0 sample_htlc_coin = Inr (HtlcRedeem (replicate 32 7))"
proof -
  have "htlc_signed sample_env sample_k256 sample_htlc_script sample_htlc_redeem 0 (coin_value sample_htlc_coin)
      (ht_receiver_public_key sample_htlc) (sample_signature 5)"
  proof -
    have "\<not> isl (signature_hash (se_blake2b_256 sample_env) sample_htlc_redeem 0 sample_htlc_script (coin_value sample_htlc_coin)
        (ucast hns_htlc_sighash))" by code_simp
    then obtain m where "signature_hash (se_blake2b_256 sample_env) sample_htlc_redeem 0 sample_htlc_script
        (coin_value sample_htlc_coin) (ucast hns_htlc_sighash) = Inr m" by (metis isl_def sum.exhaust)
    moreover have "length (sample_signature 5) = 65 \<and> sample_signature 5 ! 64 = hns_htlc_sighash" by code_simp
    ultimately show ?thesis
      by (simp add: htlc_signed_def sample_k256_def sample_htlc_def sample_key_def) code_simp
  qed
  moreover have "\<forall>x. length (se_sha3_256 sample_env x) = 32" by (simp add: sample_env_def length_digest_of_def)
  moreover have "htlc_shape sample_htlc" "0 < length (tx_inputs sample_htlc_redeem)"
    "in_previous_output (tx_inputs sample_htlc_redeem ! 0) = coin_outpoint sample_htlc_coin"
    "verify_funding_coin sample_env sample_k256 sample_htlc sample_htlc_coin = Inr ()"
    "htlc_script sample_k256 sample_htlc = Inr sample_htlc_script"
    "in_witness (tx_inputs sample_htlc_redeem ! 0) = [sample_signature 5, replicate 32 7, [1], sample_htlc_script]"
    "se_sha256 sample_env (replicate 32 7) = ht_hashlock sample_htlc"
    by code_simp+
  ultimately show ?thesis
    using htlc_spend_exact [of sample_htlc sample_env sample_k256 sample_htlc_redeem 0 sample_htlc_coin
        "HtlcRedeem (replicate 32 7)"] by (metis (no_types) length_replicate)
qed

definition sample_lock_coin :: coin where
  "sample_lock_coin = sample_pkh_coin\<lparr>coin_address := \<lparr>addr_version = 0, addr_hash = lock_script_hash sample_env (sample_key 5)\<rparr>\<rparr>"

definition sample_lock_finalize :: transaction where
  "sample_lock_finalize = sample_spend\<lparr>
     tx_inputs := [\<lparr>in_previous_output = coin_outpoint sample_lock_coin, in_sequence = 5,
       in_witness = [create_lock_script (sample_key 5)]\<rparr>],
     tx_outputs := [\<lparr>out_value = 10, out_address = coin_address sample_pkh_coin,
       out_covenant = \<lparr>cov_kind = Finalize, cov_items = []\<rparr>\<rparr>]\<rparr>"

theorem locked_name_spend_exact_witness:
  "verify_witness_program (k256_env sample_k256 sample_env) sample_lock_finalize 0 sample_lock_coin flags_standard = Inr ()"
  using locked_name_spend_exact [of "sample_key 5" sample_env sample_lock_coin 0 sample_lock_finalize "[]" sample_k256]
  by (simp add: sample_lock_finalize_def sample_lock_coin_def sample_key_def lock_script_hash_def sample_env_def
      length_digest_of_def get_def)

end
