(* ===== verification/SwapProofs.thy ===== *)
theory SwapProofs
  imports SwapSecurity
begin

text \<open>
  Properties of the sales of the swap crate: a presigned sale can always be completed by a buyer and the
  completed transaction is accepted by the script machine, and an auction sells at the lowest price that is open.
\<close>

section \<open>Completing a sale\<close>

text \<open>The seller's hash depends on the header, the first input and the last output only.\<close>

lemma seller_hash_eq:
  assumes "tx_version t = tx_version t'" "tx_locktime t = tx_locktime t'"
    and "tx_inputs t = i # ins" "tx_inputs t' = i # ins'" "tx_outputs t \<noteq> []" "tx_outputs t' \<noteq> []"
    and "last (tx_outputs t) = last (tx_outputs t')"
  shows "signature_hash H t 0 script v hip1_seller_sighash = signature_hash H t' 0 script v hip1_seller_sighash"
  using assms
  by (simp add: signature_hash_def hash_outputs_def hash_prevouts_def hash_sequences_def hip1_flags get_def last_conv_nth
      cong: if_cong)

lemma verify_locking_coin_ok:
  assumes "verify_locking_coin E K p c = Inr ()"
  shows "\<not> outpoint_is_null (coin_outpoint c)" "\<not> coin_coinbase c" "coin_outpoint c = sp_locking_outpoint p"
    "cov_kind (coin_covenant c) = Finalize" "\<exists>f. finalize_try_from (se_sha3_256 E) (coin_covenant c) = Inr f"
    "coin_address c = \<lparr>addr_version = 0, addr_hash = lock_script_hash E (sp_seller_public_key p)\<rparr>"
    "\<exists>h. hash_name (se_sha3_256 E) (sp_name p) = Inr h \<and> cov_item_name_hash (coin_covenant c) 0 = Some h"
    "validate_name (sp_name p)" "k_public_key_parses K (sp_seller_public_key p)"
  using assms
  by (auto simp: verify_locking_coin_def lock_descriptor_def descriptor_new_def descriptor_verify_locking_coin_def
      descriptor_validate_def bind_res_eq_Inr map_err_eq_Inr Let_def split: if_splits intro: address.equality)

lemma finalize_try_from_anchor:
  assumes "finalize_try_from sha3 c = Inr f"
  shows "cov_item_name_hash c 0 = Some (fc_name_hash f)" "length (fc_name_hash f) = 32"
    "cov_item_u32 c 1 = Some (fc_start_height f)"
  using transferable_owner_anchor_ok [of sha3 c "fc_name_hash f" "fc_start_height f"] assms
  by (auto simp: transferable_owner_anchor_def finalize_try_from_def split: if_splits list.splits)

lemma var_bytes_le: "length (compact_bytes v) \<le> 9" "length (var_bytes x) \<le> 9 + length x"
  by (simp_all add: var_bytes_eq length_compact_bytes)

lemma build_transfer_output_succeeds:
  assumes "verify_locking_coin E K p c = Inr ()" "length (lock_script_hash E (sp_seller_public_key p)) = 32"
    and "address_ok recipient"
  shows "\<exists>transfer. build_transfer_output (se_sha3_256 E) c recipient = Inr transfer"
proof -
  note lock = verify_locking_coin_ok [OF assms(1)]
  obtain f where f: "finalize_try_from (se_sha3_256 E) (coin_covenant c) = Inr f" using lock(5) by blast
  note anchor = finalize_try_from_anchor [OF f]
  let ?out = "\<lparr>out_value = coin_value c, out_address = coin_address c, out_covenant = \<lparr>cov_kind = Transfer, cov_items =
      [fc_name_hash f, u32_to_le (fc_start_height f), [addr_version recipient], addr_hash recipient]\<rparr>\<rparr>"
  have adr: "address_ok (coin_address c)" using lock(6) assms(2) by (simp add: address_ok_def)
  have "length (addr_hash recipient) \<le> 40" "2 \<le> length (addr_hash recipient)" "addr_version recipient \<le> 31"
    using assms(3) by (auto simp: address_ok_def)
  then have "output_sized ?out"
    using adr anchor(2) var_bytes_le(1) [of 4] var_bytes_le(2) [of "fc_name_hash f"]
      var_bytes_le(2) [of "u32_to_le (fc_start_height f)"] var_bytes_le(2) [of "[addr_version recipient]"]
      var_bytes_le(2) [of "addr_hash recipient"]
    by (simp add: output_sized_def covenant_sized_def covenant_bytes_def put_covenant_def covenant_limits)
  then have "\<exists>bs. output_encode ?out = Inr bs"
    using output_encode_sized [of ?out] by blast
  then show ?thesis
    using lock(1,2,4) f adr assms(3) \<open>length (addr_hash recipient) \<le> 40\<close> \<open>2 \<le> length (addr_hash recipient)\<close>
      \<open>addr_version recipient \<le> 31\<close> [THEN leD]
    by (auto simp: build_transfer_output_def validate_name_coin_source_def transferable_owner_anchor_def transfer_new_def
        transfer_to_covenant_def transfer_validate_def Let_def)
qed

text \<open>The facts a verified proof carries.\<close>

lemma proof_verify_ok:
  assumes "proof_verify E K p c = Inr ()"
  shows "\<exists>s lock fees digest tx. proof_validate K p = Inr () \<and> verify_locking_coin E K p c = Inr () \<and>
    sp_signature p = Some s \<and> s ! 64 = ucast hip1_seller_sighash \<and> k_signature_parses K (take 64 s) \<and>
    k_normalize_s K (take 64 s) = None \<and> fee_outputs p = Inr fees \<and> encode_time_lock (sp_lock_time_seconds p) = Inr lock \<and>
    tx = \<lparr>tx_version = 0, tx_inputs = [\<lparr>in_previous_output = sp_locking_outpoint p, in_sequence = 0xfffffffe,
        in_witness = [s, create_lock_script (sp_seller_public_key p)]\<rparr>],
      tx_outputs = transfer_placeholder # fees @ [payment_output p], tx_locktime = lock\<rparr> \<and>
    presigned_transaction E K p c = Inr tx \<and> seller_digest E p tx c = Inr digest \<and>
    k_verify_prehash K (sp_seller_public_key p) digest (take 64 s)"
  using assms
  by (auto simp: proof_verify_def presigned_transaction_def proof_validate_def bind_res_eq_Inr map_err_eq_Inr ok_or_def Let_def
      split: if_splits option.splits)

lemma transfer_recipient_built:
  assumes "build_transfer_output (se_sha3_256 E) c recipient = Inr transfer" "verify_locking_coin E K p c = Inr ()"
  shows "transfer_recipient E transfer p c = Inr recipient"
proof -
  note lock = verify_locking_coin_ok [OF assms(2)]
  obtain f where f: "finalize_try_from (se_sha3_256 E) (coin_covenant c) = Inr f" using lock(5) by blast
  note parses = transfer_output_parses [OF assms(1)]
  have "address_ok recipient" using build_transfer_output_ok [OF assms(1)] by blast
  then show ?thesis
    using lock(7) finalize_try_from_anchor [OF f] f parses
    by (cases recipient) (auto simp: transfer_recipient_def address_new_def Let_def)
qed

definition fulfilled :: "swap_proof \<Rightarrow> u32 \<Rightarrow> tx_output \<Rightarrow> tx_output list \<Rightarrow> tx_input list \<Rightarrow> tx_output list \<Rightarrow> transaction" where
  "fulfilled p lock transfer fees buyer_inputs buyer_outputs =
     \<lparr>tx_version = 0,
      tx_inputs = \<lparr>in_previous_output = sp_locking_outpoint p, in_sequence = 0xfffffffe,
        in_witness = [the (sp_signature p), create_lock_script (sp_seller_public_key p)]\<rparr> # buyer_inputs,
      tx_outputs = transfer # fees @ buyer_outputs @ [payment_output p], tx_locktime = lock\<rparr>"

lemma fulfilled_digest:
  assumes "seller_digest E p \<lparr>tx_version = 0, tx_inputs = [\<lparr>in_previous_output = sp_locking_outpoint p,
        in_sequence = 0xfffffffe, in_witness = [the (sp_signature p), create_lock_script (sp_seller_public_key p)]\<rparr>],
      tx_outputs = transfer_placeholder # fees @ [payment_output p], tx_locktime = lock\<rparr> c = Inr digest"
  shows "seller_digest E p (fulfilled p lock transfer fees buyer_inputs buyer_outputs) c = Inr digest"
  using assms unfolding seller_digest_def
  by (subst seller_hash_eq [where t' = "\<lparr>tx_version = 0, tx_inputs = [\<lparr>in_previous_output = sp_locking_outpoint p,
        in_sequence = 0xfffffffe, in_witness = [the (sp_signature p), create_lock_script (sp_seller_public_key p)]\<rparr>],
      tx_outputs = transfer_placeholder # fees @ [payment_output p], tx_locktime = lock\<rparr>"])
    (simp_all add: fulfilled_def)

lemma verify_fulfilled:
  assumes "proof_verify E K p c = Inr ()" "fee_outputs p = Inr fees"
    and "encode_time_lock (sp_lock_time_seconds p) = Inr lock"
    and "build_transfer_output (se_sha3_256 E) c recipient = Inr transfer" "buyer_inputs \<noteq> []"
    and "\<not> list_ex (\<lambda>i. in_previous_output i = coin_outpoint c) buyer_inputs"
  shows "verify_fulfillment E K p (fulfilled p lock transfer fees buyer_inputs buyer_outputs) c = Inr ()"
proof -
  obtain s digest where p: "proof_validate K p = Inr ()" "verify_locking_coin E K p c = Inr ()" "sp_signature p = Some s"
    "k_signature_parses K (take 64 s)" "k_normalize_s K (take 64 s) = None"
    "k_verify_prehash K (sp_seller_public_key p) digest (take 64 s)"
    and d: "seller_digest E p \<lparr>tx_version = 0, tx_inputs = [\<lparr>in_previous_output = sp_locking_outpoint p,
        in_sequence = 0xfffffffe, in_witness = [the (sp_signature p), create_lock_script (sp_seller_public_key p)]\<rparr>],
      tx_outputs = transfer_placeholder # fees @ [payment_output p], tx_locktime = lock\<rparr> c = Inr digest"
    using proof_verify_ok [OF assms(1)] assms(2,3) by auto
  note lock = verify_locking_coin_ok [OF p(2)]
  let ?t = "fulfilled p lock transfer fees buyer_inputs buyer_outputs"
  have "fulfillment_layout E K p ?t c = Inr ()"
    using assms(3,5,6) p(3) lock(3)
    by (cases buyer_inputs) (auto simp: fulfillment_layout_def fulfilled_def)
  moreover have "fulfillment_outputs E p ?t c = Inr ()"
    using transfer_recipient_built [OF assms(4) p(2)] assms(2,4)
    by (cases "sp_fee_address p")
      (auto simp: fulfillment_outputs_def fulfilled_def get_def fee_outputs_def payment_output_def split: if_splits)
  moreover have "verify_seller_signature E K p ?t c = Inr ()"
    using fulfilled_digest [OF d] p lock(3,9)
    by (simp add: verify_seller_signature_def seller_signature_hash_def) (simp add: fulfilled_def get_def)
  ultimately show ?thesis using assms(1) by (simp add: verify_fulfillment_def)
qed

lemma fulfillment_transaction_eq:
  assumes "proof_verify E K p c = Inr ()" "fee_outputs p = Inr fees"
    and "encode_time_lock (sp_lock_time_seconds p) = Inr lock" "address_ok recipient"
    and "build_transfer_output (se_sha3_256 E) c recipient = Inr transfer" "buyer_inputs \<noteq> []"
    and "\<not> list_ex (\<lambda>i. in_previous_output i = coin_outpoint c) buyer_inputs"
  shows "fulfillment_transaction E K p c recipient buyer_inputs buyer_outputs =
    Inr (fulfilled p lock transfer fees buyer_inputs buyer_outputs)"
proof -
  obtain s where "sp_signature p = Some s"
    and tx: "presigned_transaction E K p c = Inr \<lparr>tx_version = 0,
      tx_inputs = [\<lparr>in_previous_output = sp_locking_outpoint p, in_sequence = 0xfffffffe,
        in_witness = [the (sp_signature p), create_lock_script (sp_seller_public_key p)]\<rparr>],
      tx_outputs = transfer_placeholder # fees @ [payment_output p], tx_locktime = lock\<rparr>"
    using proof_verify_ok [OF assms(1)] assms(2,3) by auto
  with verify_fulfilled [OF assms(1-3,5-7)] show ?thesis
    using assms(1,4-7) by (simp add: fulfillment_transaction_def Let_def butlast_append) (simp add: fulfilled_def)
qed

text \<open>The seller's input of a completed sale satisfies the lock script.\<close>

lemma fulfilled_accepted:
  assumes "proof_verify E K p c = Inr ()" "fee_outputs p = Inr fees"
    and "encode_time_lock (sp_lock_time_seconds p) = Inr lock" "build_transfer_output (se_sha3_256 E) c recipient = Inr transfer"
    and "length (the (sp_signature p)) = 65" "length (sp_seller_public_key p) = 33"
    and "sp_seller_public_key p ! 0 = 2 \<or> sp_seller_public_key p ! 0 = 3" "length (lock_script_hash E (sp_seller_public_key p)) = 32"
  shows "verify_witness_program (k256_env K E) (fulfilled p lock transfer fees buyer_inputs buyer_outputs) 0 c flags_standard = Inr ()"
proof -
  obtain s digest where p: "verify_locking_coin E K p c = Inr ()" "sp_signature p = Some s" "s ! 64 = ucast hip1_seller_sighash"
    "k_signature_parses K (take 64 s)" "k_normalize_s K (take 64 s) = None"
    "k_verify_prehash K (sp_seller_public_key p) digest (take 64 s)"
    and d: "seller_digest E p \<lparr>tx_version = 0, tx_inputs = [\<lparr>in_previous_output = sp_locking_outpoint p,
        in_sequence = 0xfffffffe, in_witness = [the (sp_signature p), create_lock_script (sp_seller_public_key p)]\<rparr>],
      tx_outputs = transfer_placeholder # fees @ [payment_output p], tx_locktime = lock\<rparr> c = Inr digest"
    using proof_verify_ok [OF assms(1)] assms(2,3) by auto
  note lock = verify_locking_coin_ok [OF p(1)]
  let ?t = "fulfilled p lock transfer fees buyer_inputs buyer_outputs"
  have ty: "is_valid_signature_hash_type (ucast hip1_seller_sighash)" "ucast (ucast hip1_seller_sighash :: byte) = hip1_seller_sighash"
    by code_simp+
  have dig: "signature_hash (se_blake2b_256 E) ?t 0 (create_lock_script (sp_seller_public_key p)) (coin_value c)
      (ucast (s ! 64)) = Inr digest"
    using fulfilled_digest [OF d] p(3) ty(2) by (simp add: seller_digest_def map_err_eq_Inr)
  have inp: "0 < length (tx_inputs ?t)" "in_previous_output (tx_inputs ?t ! 0) = coin_outpoint c"
    "in_witness (tx_inputs ?t ! 0) = [s] @ [create_lock_script (sp_seller_public_key p)]"
    using lock(3) p(2) by (simp_all add: fulfilled_def)
  have "get (tx_outputs ?t) 0 = Some transfer" "kind_as_u8 (cov_kind (out_covenant transfer)) = 9"
    using build_transfer_output_ok [OF assms(4)] by (auto simp: fulfilled_def get_def)
  then show ?thesis
    using locked_name_accepts [OF assms(6,8) lock(6) inp, of K] dig p assms(5,7) lock(9) ty(1)
    by auto
qed

text \<open>
  C7: a presigned sale can always be completed.  When the seller's proof verifies against the locked coin, then for every valid
  recipient and any other funding inputs and outputs of the buyer, \<^verbatim>\<open>fulfillment_transaction\<close> succeeds; in its result the
  first output transfers the name to that recipient, the last output pays the price to the seller, the fee output follows
  the transfer, the buyer's inputs are all there, and the script machine accepts the seller's input.
\<close>

theorem presigned_sale_completes:
  assumes "proof_verify E K p c = Inr ()" "\<forall>x. length (se_sha3_256 E x) = 32"
    and "length (the (sp_signature p)) = 65" "length (sp_seller_public_key p) = 33"
    and "sp_seller_public_key p ! 0 = 2 \<or> sp_seller_public_key p ! 0 = 3"
    and "address_validate recipient = Inr ()" "buyer_inputs \<noteq> []"
    and "\<not> list_ex (\<lambda>i. in_previous_output i = coin_outpoint c) buyer_inputs"
  shows "\<exists>tx transfer fees. fulfillment_transaction E K p c recipient buyer_inputs buyer_outputs = Inr tx \<and>
    tl (tx_inputs tx) = buyer_inputs \<and> fee_outputs p = Inr fees \<and>
    tx_outputs tx = transfer # fees @ buyer_outputs @ [payment_output p] \<and>
    transfer_recipient E transfer p c = Inr recipient \<and>
    verify_fulfillment E K p tx c = Inr () \<and>
    verify_witness_program (k256_env K E) tx 0 c flags_standard = Inr ()"
proof -
  obtain fees lock where fl: "fee_outputs p = Inr fees" "encode_time_lock (sp_lock_time_seconds p) = Inr lock"
    and vl: "verify_locking_coin E K p c = Inr ()"
    using proof_verify_ok [OF assms(1)] by blast
  have adr: "address_ok recipient" and len: "length (lock_script_hash E (sp_seller_public_key p)) = 32"
    using assms(2,6) by (simp_all add: lock_script_hash_def)
  obtain transfer where tr: "build_transfer_output (se_sha3_256 E) c recipient = Inr transfer"
    using build_transfer_output_succeeds [OF vl len adr] by blast
  let ?t = "fulfilled p lock transfer fees buyer_inputs buyer_outputs"
  have "tl (tx_inputs ?t) = buyer_inputs" "tx_outputs ?t = transfer # fees @ buyer_outputs @ [payment_output p]"
    by (simp_all add: fulfilled_def)
  with fulfillment_transaction_eq [OF assms(1) fl adr tr assms(7,8)] transfer_recipient_built [OF tr vl] fl(1)
    verify_fulfilled [OF assms(1) fl tr assms(7,8)] fulfilled_accepted [OF assms(1) fl tr assms(3-5) len]
  show ?thesis by blast
qed

section \<open>Auctions\<close>

lemma check_pairs_sorted:
  assumes "check_pairs ps = Inr u"
  shows "sorted_wrt (\<lambda>(a, _) (b, _). b \<le> a) ps"
  using assms
proof (induction ps rule: check_pairs.induct)
  case (1 price time price' time' rest)
  from 1(2) obtain l l' where l: "\<not> price < price'" "encode_time_lock time = Inr l" "encode_time_lock time' = Inr l'"
    "\<not> l \<ge> l'" "check_pairs ((price', time') # rest) = Inr u"
    by (auto simp: bind_res_eq_Inr split: if_splits)
  from 1(1) [OF l] l(1) show ?case by (fastforce intro: order_trans)
qed simp_all

lemma auction_new_ok:
  assumes "auction_new K proofs = Inr ps"
  shows "ps = proofs" "\<forall>p \<in> set ps. proof_validate K p = Inr ()" "sorted_wrt (\<lambda>p q. sp_price q \<le> sp_price p) ps"
proof -
  have fold: "fold_res (auction_step K f) l n = Inr m \<Longrightarrow> \<forall>p \<in> set l. proof_validate K p = Inr ()" for f l n m
    by (induction l arbitrary: n) (auto simp: auction_step_def bind_res_eq_Inr)
  from assms obtain n where r: "ps = proofs" "fold_res (auction_step K (hd proofs)) proofs 0 = Inr n"
    "check_pairs (map (\<lambda>p. (sp_price p, sp_lock_time_seconds p)) proofs) = Inr ()"
    by (auto simp: auction_new_def bind_res_eq_Inr split: if_splits)
  then show "ps = proofs" "\<forall>p \<in> set ps. proof_validate K p = Inr ()" using fold by auto
  show "sorted_wrt (\<lambda>p q. sp_price q \<le> sp_price p) ps"
    using check_pairs_sorted [OF r(3)] r(1) by (simp add: sorted_wrt_map)
qed

text \<open>Whether a validated proof is open is always decided, and is a comparison with its rounded lock time.\<close>

lemma is_executable_valid:
  assumes "proof_validate K p = Inr ()"
  shows "is_executable p t = Inr (unat (sp_lock_time_seconds p) div 512 * 512 < unat t)"
proof -
  have "sp_lock_time_seconds p < max_hsd_time_lock"
    using assms by (auto simp: proof_validate_def encode_time_lock_def bind_res_eq_Inr split: if_splits)
  then have b: "unat (sp_lock_time_seconds p) < 2 ^ 40"
    by (simp add: word_less_nat_alt max_hsd_time_lock_def push_bit_eq_mult)
  let ?u = "sp_lock_time_seconds p div hsd_locktime_multiplier"
  have u: "unat ?u = unat (sp_lock_time_seconds p) div 512" by (simp add: unat_div hsd_locktime_multiplier_def)
  then have small: "unat ?u < 2 ^ 31" using b by simp
  have lt: "\<not> sp_lock_time_seconds p \<ge> max_hsd_time_lock" using \<open>sp_lock_time_seconds p < max_hsd_time_lock\<close> by simp
  have enc: "encode_time_lock (sp_lock_time_seconds p) = Inr (locktime_flag OR ucast ?u)"
    using lt small by (simp add: encode_time_lock_def Let_def)
  have m: "(locktime_flag OR ucast ?u) AND locktime_mask = (ucast ?u :: u32)"
  proof -
    have "locktime_flag AND locktime_mask = 0" "locktime_mask = mask 31" by code_simp+
    moreover have "unat (take_bit 31 (ucast ?u :: u32)) = unat (ucast ?u :: u32)"
      unfolding unsigned_take_bit_eq using small by (simp add: unsigned_ucast_eq take_bit_nat_eq_self)
    then have "take_bit 31 (ucast ?u :: u32) = ucast ?u" by (simp only: word_unat_eq_iff)
    ultimately show ?thesis by (simp add: bit.conj_disj_distrib2 take_bit_eq_mask)
  qed
  have "unat (ucast (ucast ?u :: u32) :: u64) = unat ?u"
    unfolding unsigned_ucast_eq using small by (simp add: unsigned_take_bit_eq take_bit_nat_eq_self)
  then show ?thesis using small u unfolding is_executable_def enc bind_res_Inr m
    by (simp add: checked_mul_def hsd_locktime_multiplier_def word_less_nat_alt unat_mult_lem [THEN iffD1])
qed

lemma first_executable_valid:
  assumes "\<forall>p \<in> set ps. proof_validate K p = Inr ()" "sorted_wrt (\<lambda>p q. sp_price p \<le> sp_price q) ps"
  shows "\<exists>r. first_executable ps t = Inr r \<and>
    (case r of None \<Rightarrow> \<forall>p \<in> set ps. is_executable p t = Inr False
     | Some p \<Rightarrow> p \<in> set ps \<and> is_executable p t = Inr True \<and>
         (\<forall>q \<in> set ps. is_executable q t = Inr True \<longrightarrow> sp_price p \<le> sp_price q))"
  using assms
proof (induction ps)
  case (Cons p ps)
  then obtain e where e: "is_executable p t = Inr e" using is_executable_valid by (metis list.set_intros(1))
  from Cons show ?case by (cases e) (auto simp: e split: option.splits)
qed simp

text \<open>
  C31: in a validated auction the choice of \<^verbatim>\<open>best_executable\<close> never fails and is right: it returns no proof exactly when no proof
  of the auction is open at the parent's median time, and otherwise a proof that is open and has the lowest price of all
  that are open.
\<close>

theorem auction_sells_at_lowest_price:
  assumes "auction_new K proofs = Inr ps"
  shows "\<exists>r. best_executable ps t = Inr r \<and>
    (case r of None \<Rightarrow> \<forall>p \<in> set ps. is_executable p t = Inr False
     | Some p \<Rightarrow> p \<in> set ps \<and> is_executable p t = Inr True \<and>
         (\<forall>q \<in> set ps. is_executable q t = Inr True \<longrightarrow> sp_price p \<le> sp_price q))"
  using first_executable_valid [of "rev ps" K t] auction_new_ok(2,3) [OF assms]
  unfolding best_executable_def set_rev sorted_wrt_rev .

section \<open>Examples\<close>

definition sale_name :: bytes where "sale_name = ascii ''abc''"

definition sample_sale :: swap_proof where
  "sample_sale = \<lparr>sp_network = \<lparr>nb_magic = 1, nb_genesis = replicate 32 0\<rparr>,
     sp_locking_outpoint = \<lparr>op_hash = replicate 32 9, op_index = 1\<rparr>, sp_name = sale_name,
     sp_seller_public_key = sample_key 5, sp_payment_address = \<lparr>addr_version = 0, addr_hash = replicate 20 4\<rparr>,
     sp_price = 100, sp_lock_time_seconds = 1024, sp_signature = Some (replicate 64 5 @ [ucast hip1_seller_sighash]),
     sp_fee_address = None, sp_fee = 0\<rparr>"

definition sample_sale_coin :: coin where
  "sample_sale_coin = \<lparr>coin_outpoint = \<lparr>op_hash = replicate 32 9, op_index = 1\<rparr>, coin_value = 10, coin_height = 0,
     coin_coinbase = False,
     coin_address = \<lparr>addr_version = 0, addr_hash = lock_script_hash sample_env (sample_key 5)\<rparr>,
     coin_covenant = \<lparr>cov_kind = Finalize, cov_items = [length_digest_of 32 sale_name, u32_to_le 7, sale_name, [0],
       u32_to_le 0, u32_to_le 0, replicate 32 1]\<rparr>\<rparr>"

definition sample_buyer_input :: tx_input where
  "sample_buyer_input = \<lparr>in_previous_output = \<lparr>op_hash = replicate 32 8, op_index = 0\<rparr>, in_sequence = 0, in_witness = []\<rparr>"

lemma sale_values:
  "validate_name sale_name" "hash_name (se_sha3_256 sample_env) sale_name = Inr (length_digest_of 32 sale_name)"
  by code_simp+

lemma sale_time: "encode_time_lock 1024 = Inr 0x80000002" "encode_time_lock 2048 = Inr 0x80000004"
  by (simp_all add: encode_time_lock_def max_hsd_time_lock_def hsd_locktime_multiplier_def locktime_flag_def Let_def
      push_bit_eq_mult)

lemma sale_valid:
  "proof_validate sample_k256 sample_sale = Inr ()"
  "proof_validate sample_k256 (sample_sale\<lparr>sp_price := 50, sp_lock_time_seconds := 2048\<rparr>) = Inr ()"
  by (simp_all add: proof_validate_def sample_sale_def sale_values sale_time sample_k256_def sample_key_def address_ok_def
      nth_append)

lemma sale_finalize: "\<exists>f. finalize_try_from (se_sha3_256 sample_env) (coin_covenant sample_sale_coin) = Inr f"
  by (simp add: finalize_try_from_def sample_sale_coin_def sale_values as_array_def length_digest_of_def Let_def
      finalize_validate_def)

lemma sale_locked: "verify_locking_coin sample_env sample_k256 sample_sale sample_sale_coin = Inr ()"
  using sale_finalize
  by (auto simp: verify_locking_coin_def lock_descriptor_def descriptor_new_def descriptor_validate_def
      descriptor_verify_locking_coin_def sample_sale_def sample_sale_coin_def sale_values sample_k256_def sample_key_def
      Let_def cov_item_def cov_item_name_hash_def get_def outpoint_null_def as_array_def length_digest_of_def)

lemma sale_verifies: "proof_verify sample_env sample_k256 sample_sale sample_sale_coin = Inr ()"
proof -
  have p: "output_sized (payment_output sample_sale)"
    using var_bytes_le(1) [of 0]
    by (simp add: output_sized_def payment_output_def sample_sale_def address_ok_def covenant_sized_def covenant_default_def
        covenant_bytes_def put_covenant_def covenant_limits)
  have f: "fee_outputs sample_sale = Inr []" "encode_time_lock (sp_lock_time_seconds sample_sale) = Inr 0x80000002"
    by (simp_all add: fee_outputs_def sample_sale_def sale_time)
  have s: "sp_signature sample_sale = Some (replicate 64 5 @ [ucast hip1_seller_sighash])"
    "k_public_key_parses sample_k256 (sp_seller_public_key sample_sale)"
    by (simp_all add: sample_sale_def sample_k256_def sample_key_def)
  have "sighash_all \<le> sighash_single_reverse" by code_simp
  then show ?thesis
    using sale_valid(1) sale_locked p
    by (simp add: proof_verify_def presigned_transaction_def f s Let_def address_new_def address_ok_def seller_digest_def
        signature_hash_def hash_outputs_def hip1_flags get_def encode_output_iff [THEN iffD2]
        current_input_def)
      (simp add: sample_k256_def sample_sale_def sample_key_def)
qed

theorem presigned_sale_completes_witness:
  "\<exists>tx. fulfillment_transaction sample_env sample_k256 sample_sale sample_sale_coin
      \<lparr>addr_version = 0, addr_hash = replicate 20 6\<rparr> [sample_buyer_input] [] = Inr tx \<and>
    verify_witness_program (k256_env sample_k256 sample_env) tx 0 sample_sale_coin flags_standard = Inr ()"
proof -
  have "proof_verify sample_env sample_k256 sample_sale sample_sale_coin = Inr ()" by (rule sale_verifies)
  moreover have "\<forall>x. length (se_sha3_256 sample_env x) = 32" by (simp add: sample_env_def length_digest_of_def)
  moreover have "length (the (sp_signature sample_sale)) = 65" "length (sp_seller_public_key sample_sale) = 33"
    "sp_seller_public_key sample_sale ! 0 = 2 \<or> sp_seller_public_key sample_sale ! 0 = 3"
    by (simp_all add: sample_sale_def sample_key_def)
  moreover have "address_validate \<lparr>addr_version = 0, addr_hash = replicate 20 6\<rparr> = Inr ()" by (simp add: address_ok_def)
  moreover have "\<not> list_ex (\<lambda>i. in_previous_output i = coin_outpoint sample_sale_coin) [sample_buyer_input]"
    by (simp add: sample_sale_coin_def sample_buyer_input_def)
  ultimately show ?thesis
    using presigned_sale_completes [of sample_env sample_k256 sample_sale sample_sale_coin
        "\<lparr>addr_version = 0, addr_hash = replicate 20 6\<rparr>" "[sample_buyer_input]" "[]"] by blast
qed

lemma sale_encodes:
  assumes "p = sample_sale \<or> p = sample_sale\<lparr>sp_price := 50, sp_lock_time_seconds := 2048\<rparr>"
  shows "\<exists>bs. proof_encode sample_k256 p = Inr bs \<and> length bs \<le> 1000"
proof -
  have "length (encode_with [put_proof p]) \<le> 1000"
  proof -
    have "length sale_name = 3" by code_simp
    then show ?thesis using assms var_bytes_le(2) [of sale_name]
      by (auto simp: encode_with_def put_proof_def put_address_def sample_sale_def sample_key_def outpoint_encode_bytes)
  qed
  then show ?thesis using assms sale_valid by (auto simp: proof_encode_def Let_def max_swap_proof_size_def)
qed

theorem auction_sells_at_lowest_price_witness:
  "best_executable [sample_sale, sample_sale\<lparr>sp_price := 50, sp_lock_time_seconds := 2048\<rparr>] 1500 = Inr (Some sample_sale)"
proof -
  let ?ps = "[sample_sale, sample_sale\<lparr>sp_price := 50, sp_lock_time_seconds := 2048\<rparr>]"
  have new: "auction_new sample_k256 ?ps = Inr ?ps"
  proof -
    obtain b where "proof_encode sample_k256 sample_sale = Inr b" "length b \<le> 1000" using sale_encodes by blast
    moreover obtain b' where "proof_encode sample_k256 (sample_sale\<lparr>sp_price := 50, sp_lock_time_seconds := 2048\<rparr>) = Inr b'"
      "length b' \<le> 1000" using sale_encodes by blast
    moreover have "sp_signature sample_sale \<noteq> None" "sp_price sample_sale = 100" "sp_lock_time_seconds sample_sale = 1024"
      by (simp_all add: sample_sale_def)
    ultimately show ?thesis using sale_valid
      by (simp add: auction_new_def auction_step_def max_auction_steps_def max_auction_bundle_size_def checked_add_usize_def
          usize_max_def sale_time)
  qed
  have "is_executable sample_sale 1500 = Inr True"
    "is_executable (sample_sale\<lparr>sp_price := 50, sp_lock_time_seconds := 2048\<rparr>) 1500 = Inr False"
    using is_executable_valid [OF sale_valid(1), of 1500] is_executable_valid [OF sale_valid(2), of 1500]
    by (simp_all add: sample_sale_def)
  then show ?thesis using auction_sells_at_lowest_price [OF new, of 1500] by (auto split: option.splits)
qed

end
