(* ===== verification/Blocks.thy ===== *)
theory Blocks
  imports Header NameTx
begin

text \<open>
  Model of the first part of \<^verbatim>\<open>crates/hns-mining/src/lib.rs\<close>: blocks and their codec, block metrics, Merkle
  roots, the sanity of transactions, block limits, the coinbase and the subsidy.  The hash functions are those of
  the record \<^typ>\<open>pow_hashes\<close>.
\<close>

section \<open>Data\<close>

definition coin_unit :: nat where "coin_unit = 1000000"
definition base_reward :: u64 where "base_reward = 2000000000"
definition max_money :: u64 where "max_money = 2040000000000000"
definition max_block_base_size :: nat where "max_block_base_size = 1000000"
definition max_block_weight :: nat where "max_block_weight = 4000000"
definition max_block_opens :: u32 where "max_block_opens = 300"
definition max_block_updates :: u32 where "max_block_updates = 600"
definition max_block_renewals :: u32 where "max_block_renewals = 600"
definition max_covenant_size :: nat where "max_covenant_size = 585"
definition max_coinbase_witness_size :: nat where "max_coinbase_witness_size = 1000"
definition max_coinbase_claim_witness_item_size :: nat where "max_coinbase_claim_witness_item_size = 10000"

lemmas block_limits = max_block_base_size_def max_block_weight_def max_covenant_size_def max_coinbase_witness_size_def
  max_coinbase_claim_witness_item_size_def

datatype mining_error =
    MnDecode decode_error
  | MnHeader header_error
  | MnTransaction transaction_error
  | MnArithmetic arithmetic_error
  | InvalidSnapshot
  | InvalidTemplate
  | InvalidJob
  | InvalidCoinbaseHeight
  | StaleJob
  | InvalidReconstruction
  | InsufficientProofOfWork
  | JobConflict
  | JobCapacity
  | UnknownJob
  | InvalidHalvingInterval
  | GenerationOutOfRange u64
  | MnArithmeticOverflow
  | OutputValue
  | MnInvalidTransaction string
  | InvalidBlockBody string

record block =
  blk_header :: header
  blk_transactions :: "transaction list"

record block_measures =
  bm_base_size :: nat
  bm_witness_size :: nat
  bm_serialized_size :: nat
  bm_weight :: nat
  bm_merkle_root :: hash32
  bm_witness_root :: hash32

section \<open>Merkle roots\<close>

fun merkle_pairs :: "(bytes \<Rightarrow> bytes) \<Rightarrow> bytes \<Rightarrow> bytes list \<Rightarrow> bytes list" where
  "merkle_pairs H sentinel [] = []"
| "merkle_pairs H sentinel [a] = [H ([1] @ a @ sentinel)]"
| "merkle_pairs H sentinel (a # b # rest) = H ([1] @ a @ b) # merkle_pairs H sentinel rest"

lemma length_merkle_pairs [simp]: "length (merkle_pairs H s ns) = (length ns + 1) div 2"
  by (induction H s ns rule: merkle_pairs.induct) simp_all

function merkle_loop :: "(bytes \<Rightarrow> bytes) \<Rightarrow> bytes \<Rightarrow> bytes list \<Rightarrow> bytes" where
  "merkle_loop H sentinel nodes =
     (if length nodes > 1 then merkle_loop H sentinel (merkle_pairs H sentinel nodes) else nodes ! 0)"
  by pat_completeness auto
termination by (relation "measure (\<lambda>(_, _, nodes). length nodes)") auto

declare merkle_loop.simps [simp del]

definition merkle_root :: "(bytes \<Rightarrow> bytes) \<Rightarrow> bytes list \<Rightarrow> bytes" where
  "merkle_root H hashes =
     (let sentinel = H []; nodes = map (\<lambda>hash. H ([0] @ hash)) hashes in
      if nodes = [] then sentinel else merkle_loop H sentinel nodes)"

fun map_res :: "('a \<Rightarrow> 'e + 'b) \<Rightarrow> 'a list \<Rightarrow> 'e + 'b list" where
  "map_res f [] = Inr []"
| "map_res f (x # xs) = bind_res (f x) (\<lambda>y. bind_res (map_res f xs) (\<lambda>ys. Inr (y # ys)))"

definition block_merkle_root :: "pow_hashes \<Rightarrow> transaction list \<Rightarrow> mining_error + hash32" where
  "block_merkle_root H txs =
     bind_res (map_err MnTransaction (map_res (transaction_hash (ph_blake2b_256 H)) txs)) (\<lambda>hashes.
     Inr (merkle_root (ph_blake2b_256 H) hashes))"

definition block_witness_root :: "pow_hashes \<Rightarrow> transaction list \<Rightarrow> mining_error + hash32" where
  "block_witness_root H txs =
     bind_res (map_err MnTransaction (map_res (witness_hash (ph_blake2b_256 H)) txs)) (\<lambda>hashes.
     Inr (merkle_root (ph_blake2b_256 H) hashes))"

section \<open>Metrics and limits\<close>

definition metrics_step :: "transaction \<Rightarrow> nat \<times> nat \<Rightarrow> mining_error + nat \<times> nat" where
  "metrics_step tx = (\<lambda>(base_size, witness_size).
     bind_res (map_err MnTransaction (tx_base_encoded_size tx)) (\<lambda>n.
     bind_res (ok_or (checked_add_usize base_size n) MnArithmeticOverflow) (\<lambda>base_size.
     bind_res (map_err MnTransaction (tx_witness_encode tx)) (\<lambda>w.
     bind_res (ok_or (checked_add_usize witness_size (length w)) MnArithmeticOverflow) (\<lambda>witness_size.
     Inr (base_size, witness_size))))))"

definition block_metrics :: "pow_hashes \<Rightarrow> transaction list \<Rightarrow> mining_error + block_measures" where
  "block_metrics H txs =
     bind_res (ok_or (checked_add_usize 236 (compact_size_len (word_of_nat (length txs)))) MnArithmeticOverflow) (\<lambda>start.
     bind_res (fold_res metrics_step txs (start, 0)) (\<lambda>(base_size, witness_size).
     bind_res (ok_or (checked_add_usize base_size witness_size) MnArithmeticOverflow) (\<lambda>serialized_size.
     bind_res (ok_or (Option.bind (checked_mul_usize base_size 4) (\<lambda>b. checked_add_usize b witness_size))
       MnArithmeticOverflow) (\<lambda>weight.
     bind_res (block_merkle_root H txs) (\<lambda>merkle.
     bind_res (block_witness_root H txs) (\<lambda>witness.
     Inr \<lparr>bm_base_size = base_size, bm_witness_size = witness_size, bm_serialized_size = serialized_size,
          bm_weight = weight, bm_merkle_root = merkle, bm_witness_root = witness\<rparr>))))))"

definition validate_block_limits :: "pow_hashes \<Rightarrow> block \<Rightarrow> mining_error + block_measures" where
  "validate_block_limits H b =
     (if length (blk_transactions b) > max_block_base_size then Inl (InvalidBlockBody ''invalid transaction count'')
      else
        bind_res (block_metrics H (blk_transactions b)) (\<lambda>metrics.
        if bm_base_size metrics > max_block_base_size then Inl (InvalidBlockBody ''base size exceeds limit'')
        else if bm_weight metrics > max_block_weight then Inl (InvalidBlockBody ''weight exceeds limit'')
        else Inr metrics))"

section \<open>The block codec\<close>

definition read_block :: "(mining_error, block) reader" where
  "read_block =
     dbind (dlift MnDecode (read_slice 236)) (\<lambda>bs.
     dbind (dcheck (map_err MnHeader (header_decode bs))) (\<lambda>header.
     dbind (dlift MnDecode (read_compact_usize max_block_base_size)) (\<lambda>count.
     dbind (read_times count (dlift MnTransaction tx_decode_from)) (\<lambda>txs.
       dreturn \<lparr>blk_header = header, blk_transactions = txs\<rparr>))))"

definition block_decode :: "pow_hashes \<Rightarrow> bytes \<Rightarrow> mining_error + block" where
  "block_decode H input =
     (if length input > max_block_weight then Inl (InvalidBlockBody ''serialized block exceeds allocation bound'')
      else
        bind_res (read_block (decoder_new input)) (\<lambda>(b, d).
        bind_res (map_err MnDecode (decoder_finish d)) (\<lambda>_.
        bind_res (validate_block_limits H b) (\<lambda>_. Inr b))))"

definition put_transaction :: "transaction \<Rightarrow> encoder \<Rightarrow> mining_error + encoder" where
  "put_transaction tx e = bind_res (map_err MnTransaction (tx_encode tx)) (\<lambda>bs. Inr (put_bytes bs e))"

definition block_encode :: "pow_hashes \<Rightarrow> block \<Rightarrow> mining_error + bytes" where
  "block_encode H b =
     bind_res (validate_block_limits H b) (\<lambda>_.
     bind_res (fold_res put_transaction (blk_transactions b)
       (put_seq [put_bytes (header_encode (blk_header b)),
          put_compact_size (word_of_nat (length (blk_transactions b)))] encoder_new)) (\<lambda>e.
     Inr (into_bytes e)))"

section \<open>Name operations\<close>

record name_operation_counts =
  no_opens :: u32
  no_updates :: u32
  no_renewals :: u32

definition count_name_output :: "tx_output \<Rightarrow> name_operation_counts \<Rightarrow> name_operation_counts" where
  "count_name_output out c =
     (case cov_kind (out_covenant out) of
        Open \<Rightarrow> c\<lparr>no_opens := saturating_add (no_opens c) 1, no_updates := saturating_add (no_updates c) 1\<rparr>
      | Claim \<Rightarrow> c\<lparr>no_updates := saturating_add (no_updates c) 1\<rparr>
      | Update \<Rightarrow> c\<lparr>no_updates := saturating_add (no_updates c) 1\<rparr>
      | Transfer \<Rightarrow> c\<lparr>no_updates := saturating_add (no_updates c) 1\<rparr>
      | Revoke \<Rightarrow> c\<lparr>no_updates := saturating_add (no_updates c) 1\<rparr>
      | Register \<Rightarrow> c\<lparr>no_renewals := saturating_add (no_renewals c) 1\<rparr>
      | Renew \<Rightarrow> c\<lparr>no_renewals := saturating_add (no_renewals c) 1\<rparr>
      | Finalize \<Rightarrow> c\<lparr>no_renewals := saturating_add (no_renewals c) 1\<rparr>
      | _ \<Rightarrow> c)"

definition count_name_operations :: "transaction \<Rightarrow> name_operation_counts" where
  "count_name_operations tx =
     fold count_name_output (tx_outputs tx) \<lparr>no_opens = 0, no_updates = 0, no_renewals = 0\<rparr>"

text \<open>An expected length \<open>None\<close> is the \<^verbatim>\<open>usize::MAX\<close> that matches any item.\<close>

definition item_lengths :: "bytes list \<Rightarrow> nat option list \<Rightarrow> bool" where
  "item_lengths items expected \<longleftrightarrow> length items = length expected \<and>
     list_all (\<lambda>(item, n). n = None \<or> n = Some (length item)) (zip items expected)"

definition item_u32 :: "bytes list \<Rightarrow> nat \<Rightarrow> u32 option" where
  "item_u32 items index = Option.bind (get items index) (\<lambda>item. map_option u32_of_le (as_array 4 item))"

definition valid_name_hash :: "(bytes \<Rightarrow> bytes) \<Rightarrow> bytes \<Rightarrow> bytes \<Rightarrow> bool" where
  "valid_name_hash sha3 hash name = (case hash_name sha3 name of Inr expected \<Rightarrow> expected = hash | Inl _ \<Rightarrow> False)"

definition sane_coinbase_covenant :: "(bytes \<Rightarrow> bytes) \<Rightarrow> tx_input list \<Rightarrow> nat \<Rightarrow> covenant \<Rightarrow> bool" where
  "sane_coinbase_covenant sha3 inputs index c =
     (let items = cov_items c in
      case cov_kind c of
        CNone \<Rightarrow> items = []
      | Claim \<Rightarrow>
          \<not> (index = 0 \<or> index \<ge> length inputs \<or> length (in_witness (inputs ! index)) \<noteq> 1 \<or>
             \<not> item_lengths items [Some 32, Some 4, None, Some 1, Some 32, Some 4] \<or>
             \<not> valid_name_hash sha3 (items ! 0) (items ! 2))
      | _ \<Rightarrow> False)"

definition sane_covenant :: "(bytes \<Rightarrow> bytes) \<Rightarrow> bool \<Rightarrow> covenant \<Rightarrow> bool" where
  "sane_covenant sha3 linked c =
     (let items = cov_items c in
      case cov_kind c of
        CNone \<Rightarrow> items = []
      | Claim \<Rightarrow> False
      | Open \<Rightarrow> item_lengths items [Some 32, Some 4, None] \<and> item_u32 items 1 = Some 0 \<and>
          valid_name_hash sha3 (items ! 0) (items ! 2)
      | Bid \<Rightarrow> item_lengths items [Some 32, Some 4, None, Some 32] \<and> valid_name_hash sha3 (items ! 0) (items ! 2)
      | Reveal \<Rightarrow> linked \<and> item_lengths items [Some 32, Some 4, Some 32]
      | Redeem \<Rightarrow> linked \<and> item_lengths items [Some 32, Some 4]
      | Register \<Rightarrow> linked \<and> item_lengths items [Some 32, Some 4, None, Some 32] \<and> length (items ! 2) \<le> max_resource_size
      | Update \<Rightarrow> linked \<and> item_lengths items [Some 32, Some 4, None] \<and> length (items ! 2) \<le> max_resource_size
      | Renew \<Rightarrow> linked \<and> item_lengths items [Some 32, Some 4, Some 32]
      | Transfer \<Rightarrow> linked \<and> item_lengths items [Some 32, Some 4, Some 1, None] \<and> items ! 2 ! 0 \<le> 31 \<and>
          2 \<le> length (items ! 3) \<and> length (items ! 3) \<le> 40
      | Finalize \<Rightarrow> linked \<and> item_lengths items [Some 32, Some 4, None, Some 1, Some 4, Some 4, Some 32] \<and>
          valid_name_hash sha3 (items ! 0) (items ! 2)
      | Revoke \<Rightarrow> linked \<and> item_lengths items [Some 32, Some 4]
      | CUnknown _ \<Rightarrow> length items \<le> max_covenant_items \<and>
          (case covenant_encode c of Inr encoded \<Rightarrow> length encoded \<le> max_covenant_size | Inl _ \<Rightarrow> False))"

definition has_sane_covenants :: "(bytes \<Rightarrow> bytes) \<Rightarrow> transaction \<Rightarrow> bool" where
  "has_sane_covenants sha3 tx =
     (if is_coinbase tx then
        \<not> length (tx_inputs tx) > length (tx_outputs tx) \<and>
        list_all (\<lambda>(index, out). sane_coinbase_covenant sha3 (tx_inputs tx) index (out_covenant out))
          (enumerate 0 (tx_outputs tx))
      else
        list_all (\<lambda>(index, out). sane_covenant sha3 (index < length (tx_inputs tx)) (out_covenant out))
          (enumerate 0 (tx_outputs tx)))"

section \<open>Transaction sanity\<close>

text \<open>The encoded size of a witness, for the coinbase limit.\<close>

definition coinbase_witness_size :: "bytes list \<Rightarrow> nat" where
  "coinbase_witness_size items =
     saturating_add_usize (compact_size_len (word_of_nat (length items)))
       (sum_list (map (\<lambda>item. saturating_add_usize (compact_size_len (word_of_nat (length item))) (length item)) items))"

definition output_total_step :: "tx_output \<Rightarrow> u64 \<Rightarrow> mining_error + u64" where
  "output_total_step out acc =
     bind_res (map_err MnTransaction (address_validate (out_address out))) (\<lambda>_.
     bind_res (ok_or (checked_add acc (out_value out)) OutputValue) (\<lambda>acc.
     if acc > max_money then Inl OutputValue else Inr acc))"

fun check_claim_inputs :: "tx_input list \<Rightarrow> mining_error + unit" where
  "check_claim_inputs [] = Inr ()"
| "check_claim_inputs (i # rest) =
     (if \<not> outpoint_is_null (in_previous_output i) then Inl (MnInvalidTransaction ''coinbase claim input is not null'')
      else if length (in_witness i) \<noteq> 1
      then Inl (MnInvalidTransaction ''coinbase claim input must have one witness item'')
      else if length (in_witness i ! 0) > max_coinbase_claim_witness_item_size
      then Inl (MnInvalidTransaction ''coinbase claim witness item exceeds limit'')
      else check_claim_inputs rest)"

fun check_spent_inputs :: "outpoint list \<Rightarrow> tx_input list \<Rightarrow> mining_error + unit" where
  "check_spent_inputs seen [] = Inr ()"
| "check_spent_inputs seen (i # rest) =
     (if outpoint_is_null (in_previous_output i) then Inl (MnInvalidTransaction ''non-coinbase spends null outpoint'')
      else if in_previous_output i \<in> set seen then Inl (MnInvalidTransaction ''transaction contains duplicate inputs'')
      else check_spent_inputs (in_previous_output i # seen) rest)"

definition check_inputs :: "transaction \<Rightarrow> mining_error + unit" where
  "check_inputs tx =
     (if is_coinbase tx then
        if coinbase_witness_size (in_witness (tx_inputs tx ! 0)) > max_coinbase_witness_size
        then Inl (MnInvalidTransaction ''coinbase witness exceeds limit'')
        else check_claim_inputs (drop 1 (tx_inputs tx))
      else check_spent_inputs [] (tx_inputs tx))"

definition check_transaction_size :: "transaction \<Rightarrow> mining_error + unit" where
  "check_transaction_size tx =
     bind_res (map_err MnTransaction (tx_base_encoded_size tx)) (\<lambda>base.
     bind_res (if base > max_block_base_size then Inr True
               else bind_res (map_err MnTransaction (tx_weight tx)) (\<lambda>weight. Inr (weight > max_block_weight))) (\<lambda>over.
     if over then Inl (MnInvalidTransaction ''transaction exceeds consensus size'') else Inr ()))"

definition validate_transaction_sanity :: "(bytes \<Rightarrow> bytes) \<Rightarrow> transaction \<Rightarrow> mining_error + unit" where
  "validate_transaction_sanity sha3 tx =
     (if tx_inputs tx = [] then Inl (MnInvalidTransaction ''transaction has no inputs'')
      else if tx_outputs tx = [] then Inl (MnInvalidTransaction ''transaction has no outputs'')
      else
        bind_res (check_transaction_size tx) (\<lambda>_.
        let c = count_name_operations tx in
        if no_opens c > max_block_opens then Inl (MnInvalidTransaction ''transaction open limit exceeded'')
        else if no_updates c > max_block_updates then Inl (MnInvalidTransaction ''transaction update limit exceeded'')
        else if no_renewals c > max_block_renewals then Inl (MnInvalidTransaction ''transaction renewal limit exceeded'')
        else
          bind_res (fold_res output_total_step (tx_outputs tx) 0) (\<lambda>_.
          bind_res (check_inputs tx) (\<lambda>_.
          if \<not> has_sane_covenants sha3 tx
          then Inl (MnInvalidTransaction ''transaction covenants are structurally invalid'')
          else Inr ()))))"

section \<open>Block bodies\<close>

definition kind_is_exclusive :: "covenant_kind \<Rightarrow> bool" where
  "kind_is_exclusive k \<longleftrightarrow> k \<in> {Claim, Open, Register, Update, Renew, Transfer, Finalize, Revoke}"

text \<open>The exclusive names of one transaction, checked against those of the earlier transactions.\<close>

fun exclusive_outputs :: "bytes list \<Rightarrow> tx_output list \<Rightarrow> bytes list \<Rightarrow> mining_error + bytes list" where
  "exclusive_outputs earlier [] own = Inr own"
| "exclusive_outputs earlier (out # outs) own =
     (if kind_is_exclusive (cov_kind (out_covenant out)) then
        bind_res (ok_or (Option.bind (cov_item (out_covenant out) 0) (as_array 32))
          (InvalidBlockBody ''name covenant hash has invalid length'')) (\<lambda>name_hash.
        if name_hash \<in> set earlier then Inl (InvalidBlockBody ''block contains duplicate exclusive name updates'')
        else exclusive_outputs earlier outs (name_hash # own))
      else exclusive_outputs earlier outs own)"

record covenant_totals =
  ct_counts :: name_operation_counts
  ct_names :: "bytes list"

definition covenant_limit_step :: "transaction \<Rightarrow> covenant_totals \<Rightarrow> mining_error + covenant_totals" where
  "covenant_limit_step tx t =
     (let c = count_name_operations tx; old = ct_counts t in
      bind_res (exclusive_outputs (ct_names t) (tx_outputs tx) []) (\<lambda>own.
      Inr \<lparr>ct_counts = \<lparr>no_opens = saturating_add (no_opens old) (no_opens c),
             no_updates = saturating_add (no_updates old) (no_updates c),
             no_renewals = saturating_add (no_renewals old) (no_renewals c)\<rparr>,
           ct_names = own @ ct_names t\<rparr>))"

definition validate_block_covenant_limits :: "transaction list \<Rightarrow> mining_error + unit" where
  "validate_block_covenant_limits txs =
     bind_res (fold_res covenant_limit_step txs
       \<lparr>ct_counts = \<lparr>no_opens = 0, no_updates = 0, no_renewals = 0\<rparr>, ct_names = []\<rparr>) (\<lambda>t.
     if no_opens (ct_counts t) > max_block_opens then Inl (InvalidBlockBody ''block open limit exceeded'')
     else if no_updates (ct_counts t) > max_block_updates then Inl (InvalidBlockBody ''block update limit exceeded'')
     else if no_renewals (ct_counts t) > max_block_renewals then Inl (InvalidBlockBody ''block renewal limit exceeded'')
     else Inr ())"

definition body_transaction_step :: "(bytes \<Rightarrow> bytes) \<Rightarrow> nat \<times> transaction \<Rightarrow> unit \<Rightarrow> mining_error + unit" where
  "body_transaction_step sha3 = (\<lambda>(index, tx) _.
     bind_res (validate_transaction_sanity sha3 tx) (\<lambda>_.
     if index \<noteq> 0 \<and> is_coinbase tx
     then Inl (InvalidBlockBody ''block contains multiple coinbase transactions'') else Inr ()))"

definition validate_block_body :: "pow_hashes \<Rightarrow> block \<Rightarrow> mining_error + block_measures" where
  "validate_block_body H b =
     bind_res (validate_block_limits H b) (\<lambda>metrics.
     if blk_transactions b = [] then Inl (InvalidBlockBody ''invalid transaction count'')
     else if bm_merkle_root metrics = replicate 32 0 then Inl (InvalidBlockBody ''zero merkle root'')
     else if bm_merkle_root metrics \<noteq> h_merkle_root (blk_header b) then Inl (InvalidBlockBody ''merkle root mismatch'')
     else if bm_witness_root metrics \<noteq> h_witness_root (blk_header b) then Inl (InvalidBlockBody ''witness root mismatch'')
     else if \<not> is_coinbase (blk_transactions b ! 0) then Inl (InvalidBlockBody ''first transaction is not coinbase'')
     else
       bind_res (fold_res (body_transaction_step (ph_sha3_256 H)) (enumerate 0 (blk_transactions b)) ()) (\<lambda>_.
       bind_res (validate_block_covenant_limits (blk_transactions b)) (\<lambda>_. Inr metrics)))"

definition block_decode_validated :: "pow_hashes \<Rightarrow> bytes \<Rightarrow> mining_error + block" where
  "block_decode_validated H input =
     bind_res (block_decode H input) (\<lambda>b. bind_res (validate_block_body H b) (\<lambda>_. Inr b))"

section \<open>Coinbase and subsidy\<close>

definition block_subsidy :: "height \<Rightarrow> u32 \<Rightarrow> mining_error + dollarydoos" where
  "block_subsidy h interval =
     (if interval = 0 then Inl InvalidHalvingInterval
      else
        let halvings = h div interval in
        Inr (if halvings \<ge> 52 then 0 else drop_bit (unat halvings) base_reward))"

fun halving_interval :: "network \<Rightarrow> u32" where
  "halving_interval Regtest = 2500"
| "halving_interval Mainnet = 170000"
| "halving_interval Testnet = 170000"
| "halving_interval Simnet = 170000"

definition create_coinbase ::
  "(bytes \<Rightarrow> bytes) \<Rightarrow> height \<Rightarrow> u64 \<Rightarrow> dollarydoos \<Rightarrow> dollarydoos \<Rightarrow> address \<Rightarrow> bytes \<Rightarrow> mining_error + transaction" where
  "create_coinbase sha3 h generation subsidy fees payout_address coinbase_flags =
     bind_res (map_err MnTransaction (address_validate payout_address)) (\<lambda>_.
     bind_res (map_err MnArithmetic (dollarydoos_checked_add subsidy fees)) (\<lambda>reward.
     if reward > max_money then Inl OutputValue
     else if unat generation \<ge> 2 ^ 32 then Inl (GenerationOutOfRange generation)
     else
       let tx = \<lparr>tx_version = 0,
             tx_inputs = [\<lparr>in_previous_output = outpoint_null, in_sequence = ucast generation,
               in_witness = [coinbase_flags, replicate 8 0, replicate 8 0]\<rparr>],
             tx_outputs = [\<lparr>out_value = reward, out_address = payout_address, out_covenant = covenant_default\<rparr>],
             tx_locktime = h\<rparr>
       in bind_res (validate_transaction_sanity sha3 tx) (\<lambda>_. Inr tx)))"

end
