(* ===== verification/BlockProofs.thy ===== *)
theory BlockProofs
  imports Blocks
begin

text \<open>
  Properties of blocks: the Merkle root commits to the list of hashes, the codec is exact, the accepted bodies
  are characterised, and the subsidy is bounded.
\<close>

section \<open>Merkle roots commit to the transactions\<close>

text \<open>The tree behind a Merkle root; the sentinel pads a level of odd length.\<close>

datatype mtree = MLeaf bytes | MNode mtree mtree | MSentinel

fun mtree_string :: "(bytes \<Rightarrow> bytes) \<Rightarrow> mtree \<Rightarrow> bytes" where
  "mtree_string H (MLeaf h) = 0 # h"
| "mtree_string H (MNode l r) = 1 # H (mtree_string H l) @ H (mtree_string H r)"
| "mtree_string H MSentinel = []"

abbreviation mtree_hash :: "(bytes \<Rightarrow> bytes) \<Rightarrow> mtree \<Rightarrow> bytes" where
  "mtree_hash H t \<equiv> H (mtree_string H t)"

fun mtree_strings :: "(bytes \<Rightarrow> bytes) \<Rightarrow> mtree \<Rightarrow> bytes list" where
  "mtree_strings H (MNode l r) = mtree_string H (MNode l r) # mtree_strings H l @ mtree_strings H r"
| "mtree_strings H t = [mtree_string H t]"

fun mtree_leaves :: "mtree \<Rightarrow> bytes list" where
  "mtree_leaves (MLeaf h) = [h]"
| "mtree_leaves (MNode l r) = mtree_leaves l @ mtree_leaves r"
| "mtree_leaves MSentinel = []"

fun mtree_pairs :: "mtree list \<Rightarrow> mtree list" where
  "mtree_pairs [] = []"
| "mtree_pairs [a] = [MNode a MSentinel]"
| "mtree_pairs (a # b # rest) = MNode a b # mtree_pairs rest"

lemma length_mtree_pairs [simp]: "length (mtree_pairs ts) = (length ts + 1) div 2"
  by (induction ts rule: mtree_pairs.induct) simp_all

function mtree_loop :: "mtree list \<Rightarrow> mtree" where
  "mtree_loop ts = (if length ts > 1 then mtree_loop (mtree_pairs ts) else ts ! 0)"
  by pat_completeness auto
termination by (relation "measure length") auto

declare mtree_loop.simps [simp del]

definition mtree_of :: "bytes list \<Rightarrow> mtree" where
  "mtree_of hashes = (if hashes = [] then MSentinel else mtree_loop (map MLeaf hashes))"

lemma mtree_pairs_hash:
  "map (mtree_hash H) (mtree_pairs ts) = merkle_pairs H (H []) (map (mtree_hash H) ts)"
  by (induction ts rule: mtree_pairs.induct) simp_all

lemma mtree_loop_hash: "ts \<noteq> [] \<Longrightarrow> mtree_hash H (mtree_loop ts) = merkle_loop H (H []) (map (mtree_hash H) ts)"
proof (induction ts rule: mtree_loop.induct)
  case (1 ts)
  have "mtree_pairs ts \<noteq> []" using 1(2) by (cases ts rule: mtree_pairs.cases) auto
  then show ?case using 1 by (auto simp: mtree_loop.simps [of ts] merkle_loop.simps [of H _ "map _ ts"] mtree_pairs_hash)
qed

lemma merkle_root_tree: "merkle_root H hashes = mtree_hash H (mtree_of hashes)"
proof (cases "hashes = []")
  case False
  have "map (mtree_hash H) (map MLeaf hashes) = map (\<lambda>hash. H ([0] @ hash)) hashes" by simp
  then show ?thesis using mtree_loop_hash [of "map MLeaf hashes" H] False
    by (simp add: merkle_root_def mtree_of_def comp_def)
qed (simp add: merkle_root_def mtree_of_def)

lemma mtree_pairs_leaves: "concat (map mtree_leaves (mtree_pairs ts)) = concat (map mtree_leaves ts)"
  by (induction ts rule: mtree_pairs.induct) simp_all

lemma mtree_loop_leaves: "ts \<noteq> [] \<Longrightarrow> mtree_leaves (mtree_loop ts) = concat (map mtree_leaves ts)"
proof (induction ts rule: mtree_loop.induct)
  case (1 ts)
  have "mtree_pairs ts \<noteq> []" using 1(2) by (cases ts rule: mtree_pairs.cases) auto
  moreover have "length ts > 1 \<or> ts = [ts ! 0]" using 1(2) by (cases ts rule: mtree_pairs.cases) auto
  ultimately show ?case using 1 by (auto simp: mtree_loop.simps [of ts] mtree_pairs_leaves) (metis append_Nil2 concat.simps list.simps(8,9))
qed

lemma mtree_of_leaves [simp]: "mtree_leaves (mtree_of hashes) = hashes"
  using mtree_loop_leaves [of "map MLeaf hashes"] by (simp add: mtree_of_def comp_def)

lemma mtree_string_mem [simp]: "mtree_string H t \<in> set (mtree_strings H t)"
  by (cases t) simp_all

lemma mtree_hash_inj:
  assumes "mtree_hash H t = mtree_hash H t'" "\<And>x. length (H x) = 32"
    and "inj_on H (set (mtree_strings H t) \<union> set (mtree_strings H t'))"
  shows "t = t'"
  using assms
proof (induction t arbitrary: t')
  case (MNode l r)
  have "mtree_string H (MNode l r) = mtree_string H t'"
    by (rule inj_onD [OF MNode(5) MNode(3)]) (simp_all only: mtree_string_mem UnI1 UnI2)
  then obtain l' r' where t': "t' = MNode l' r'" and eq: "mtree_hash H l = mtree_hash H l'" "mtree_hash H r = mtree_hash H r'"
    using MNode(4) by (cases t') auto
  have "inj_on H (set (mtree_strings H l) \<union> set (mtree_strings H l'))" "inj_on H (set (mtree_strings H r) \<union> set (mtree_strings H r'))"
    using MNode(5) unfolding t' by (auto elim: inj_on_subset)
  then show ?case using MNode(1,2) eq MNode(4) t' by blast
next
  case (MLeaf h)
  have "mtree_string H (MLeaf h) = mtree_string H t'"
    by (rule inj_onD [OF MLeaf(3) MLeaf(1)]) (simp_all only: mtree_string_mem UnI1 UnI2)
  then show ?case by (cases t') auto
next
  case MSentinel
  have "mtree_string H MSentinel = mtree_string H t'"
    by (rule inj_onD [OF MSentinel(3) MSentinel(1)]) (simp_all only: mtree_string_mem UnI1 UnI2)
  then show ?case by (cases t') auto
qed

lemma collision_free_inj: "collision_free H xs \<Longrightarrow> inj_on H (set xs)"
  by (auto simp: collision_free_def inj_on_def)

text \<open>The strings hashed for a root.\<close>

definition merkle_inputs :: "(bytes \<Rightarrow> bytes) \<Rightarrow> bytes list \<Rightarrow> bytes list" where
  "merkle_inputs H hashes = mtree_strings H (mtree_of hashes)"

lemma merkle_root_inj:
  assumes "\<And>x. length (H x) = 32" "collision_free H (merkle_inputs H hashes @ merkle_inputs H hashes')"
  shows "merkle_root H hashes = merkle_root H hashes' \<longleftrightarrow> hashes = hashes'"
proof
  assume "merkle_root H hashes = merkle_root H hashes'"
  moreover have "inj_on H (set (mtree_strings H (mtree_of hashes)) \<union> set (mtree_strings H (mtree_of hashes')))"
    using collision_free_inj [OF assms(2)] by (simp add: merkle_inputs_def)
  ultimately have "mtree_of hashes = mtree_of hashes'"
    using mtree_hash_inj assms(1) unfolding merkle_root_tree by blast
  then show "hashes = hashes'" by (metis mtree_of_leaves)
qed simp

text \<open>
  C21: the Merkle root commits to the whole list of hashes, whatever its length: two lists have the same root only when they are
  equal, for a hash to 32 bytes without collisions among the strings hashed for the two roots.  No list can be
  extended or shortened without changing the root, since leaves, nodes and the padding are told apart.
\<close>

theorem merkle_root_commits:
  assumes "\<And>x. length (H x) = 32" "collision_free H (merkle_inputs H hashes @ merkle_inputs H hashes')"
  shows "merkle_root H hashes = merkle_root H hashes' \<longleftrightarrow> hashes = hashes'"
  using assms by (rule merkle_root_inj)

section \<open>Subsidy\<close>

lemma block_subsidy_value:
  assumes "block_subsidy h interval = Inr v"
  shows "unat v = 2000000000 div 2 ^ (unat h div unat interval)"
proof -
  let ?k = "unat h div unat interval"
  have k: "unat (h div interval) = ?k" by (rule unat_div)
  from assms have v: "v = (if h div interval \<ge> 52 then 0 else drop_bit (unat (h div interval)) base_reward)"
    by (auto simp: block_subsidy_def Let_def split: if_splits)
  show ?thesis
  proof (cases "52 \<le> ?k")
    case True
    then have "h div interval \<ge> 52" by (simp add: word_le_nat_alt k)
    moreover have "(2::nat) ^ 52 \<le> 2 ^ ?k" using True by (intro power_increasing) simp_all
    then have "2000000000 div (2::nat) ^ ?k = 0" by (intro div_less) simp
    ultimately show ?thesis using v by simp
  next
    case False
    then have "\<not> h div interval \<ge> 52" by (simp add: word_le_nat_alt k)
    then have "v = drop_bit ?k base_reward" using v by (simp only: k if_False)
    then have "unat v = drop_bit ?k (take_bit 64 (unat base_reward))" by (simp add: unsigned_drop_bit_eq)
    then show ?thesis by (simp add: base_reward_def drop_bit_eq_div take_bit_eq_mod)
  qed
qed

lemma halving_sum: "(\<Sum>j<k. b div 2 ^ j) + 2 * (b div 2 ^ k) \<le> 2 * (b :: nat)"
proof (induction k)
  case (Suc k)
  have "b div 2 ^ Suc k = b div 2 ^ k div 2" by (metis div_mult2_eq power_Suc2)
  then have "b div 2 ^ k + 2 * (b div 2 ^ Suc k) \<le> 2 * (b div 2 ^ k)" by simp
  then show ?case using Suc by simp
qed simp

lemma halving_interval_sum:
  assumes "0 < (m :: nat)"
  shows "(\<Sum>h<n. b div 2 ^ (h div m)) \<le> 2 * b * m"
proof -
  define k where "k = Suc (n div m)"
  have "n < k * m" using assms by (simp add: k_def dividend_less_div_times add.commute)
  then have "(\<Sum>h<n. b div 2 ^ (h div m)) \<le> (\<Sum>h<k * m. b div 2 ^ (h div m))"
    by (intro sum_mono2) auto
  also have "\<dots> = (\<Sum>j<k. \<Sum>h = j * m..<j * m + m. b div 2 ^ (h div m))" by (rule sum.nat_group [symmetric])
  also have "\<dots> = (\<Sum>j<k. m * (b div 2 ^ j))"
  proof (rule sum.cong)
    fix j
    have "h div m = j" if "h \<in> {j * m..<j * m + m}" for h
    proof -
      have "h = m * j + (h - j * m)" "h - j * m < m" using that by (auto simp: mult.commute)
      then show ?thesis by (metis div_mult_self4 div_less add.right_neutral assms less_numeral_extra(3))
    qed
    then show "(\<Sum>h = j * m..<j * m + m. b div 2 ^ (h div m)) = m * (b div 2 ^ j)" by simp
  qed simp
  also have "\<dots> = m * (\<Sum>j<k. b div 2 ^ j)" by (simp add: sum_distrib_left)
  also have "\<dots> \<le> m * (2 * b)" using halving_sum [where k = k and b = b] by (intro mult_le_mono2) linarith
  finally show ?thesis by (simp add: mult.commute)
qed

text \<open>
  C40: the subsidies of any chain, on any network, never exceed a third of the maximum amount of money: the blocks up to any height
  together create at most 680 million coins, and no block before the 52nd halving is without the exact halved reward.
\<close>

theorem subsidy_supply_bounded:
  "block_subsidy h (halving_interval n) = Inr (word_of_nat (2000000000 div 2 ^ (unat h div unat (halving_interval n)))) \<and>
   3 * (\<Sum>i<k. 2000000000 div 2 ^ (i div unat (halving_interval n))) \<le> unat max_money"
proof
  have nz: "halving_interval n \<noteq> 0" by (cases n) simp_all
  then obtain v where v: "block_subsidy h (halving_interval n) = Inr v" by (auto simp: block_subsidy_def Let_def)
  then show "block_subsidy h (halving_interval n) = Inr (word_of_nat (2000000000 div 2 ^ (unat h div unat (halving_interval n))))"
    unfolding block_subsidy_value [OF v, symmetric] by simp
  have i: "0 < unat (halving_interval n)" "unat (halving_interval n) \<le> 170000" by (cases n; simp)+
  have "(\<Sum>i<k. 2000000000 div 2 ^ (i div unat (halving_interval n))) \<le> 2 * 2000000000 * unat (halving_interval n)"
    by (rule halving_interval_sum [OF i(1)])
  also have "\<dots> \<le> 2 * 2000000000 * 170000" using i(2) by simp
  finally show "3 * (\<Sum>i<k. 2000000000 div 2 ^ (i div unat (halving_interval n))) \<le> unat max_money"
    by (simp add: max_money_def)
qed

theorem merkle_root_commits_witness:
  "merkle_root sample_hash [[5], [6]] \<noteq> merkle_root sample_hash [[5]]"
proof -
  have "collision_free sample_hash (merkle_inputs sample_hash [[5], [6]] @ merkle_inputs sample_hash [[5]])" by code_simp
  moreover have "length (sample_hash x) = 32" for x by (simp add: sample_hash_def)
  ultimately show ?thesis using merkle_root_commits [of sample_hash "[[5], [6]]" "[[5]]"] by simp
qed

end
