(* ===== verification/BlockCodec.thy ===== *)
theory BlockCodec
  imports BlockProofs
begin

text \<open>The block codec: decoding accepts exactly the encodings of blocks within the limits.\<close>

definition block_bytes :: "block \<Rightarrow> bytes" where
  "block_bytes b = header_encode (blk_header b) @ len_bytes (length (blk_transactions b)) @
     concat (map tx_bytes (blk_transactions b))"

text \<open>What a value of the Rust types always satisfies: array lengths and known covenant kinds.\<close>

definition block_wire :: "block \<Rightarrow> bool" where
  "block_wire b \<longleftrightarrow> header_ok (blk_header b) \<and> (\<forall>tx \<in> set (blk_transactions b). tx_ok tx)"

definition block_ok :: "block \<Rightarrow> bool" where
  "block_ok b \<longleftrightarrow> block_wire b \<and> (\<forall>tx \<in> set (blk_transactions b). tx_sized tx) \<and>
     length (blk_transactions b) \<le> max_block_base_size"

interpretation blk: codec block_bytes read_block block_ok
proof
  fix b pre suf
  assume ok: "block_ok b" and fit: "fits pre (block_bytes b @ suf)"
  let ?txs = "blk_transactions b"
  define p1 p2 where "p1 = pre @ header_encode (blk_header b)" and "p2 = p1 @ len_bytes (length ?txs)"
  define r2 where "r2 = concat (map tx_bytes ?txs) @ suf"
  have h: "header_ok (blk_header b)" "length (header_encode (blk_header b)) = 236"
    using ok length_header_encode by (auto simp: block_ok_def block_wire_def)
  have f1: "fits p1 (len_bytes (length ?txs) @ r2)" and f2: "fits p2 r2"
    using fit by (simp_all add: p2_def p1_def r2_def block_bytes_def)
  have "read_slice 236 (cursor pre (header_encode (blk_header b) @ len_bytes (length ?txs) @ r2)) =
      Inr (header_encode (blk_header b), cursor p1 (len_bytes (length ?txs) @ r2))"
    using arr.reads [of "header_encode (blk_header b)" 236 pre "len_bytes (length ?txs) @ r2"] h(2) fit
    by (simp add: read_array_def p1_def r2_def block_bytes_def)
  moreover have "header_decode (header_encode (blk_header b)) = Inr (blk_header b)" using h(1) by (simp add: header_decode_iff)
  moreover have "read_compact_usize max_block_base_size (cursor p1 (len_bytes (length ?txs) @ r2)) = Inr (length ?txs, cursor p2 r2)"
    using len.reads [of "length ?txs" max_block_base_size p1 r2] ok f1
    by (simp add: block_ok_def p2_def block_limits usize_max_def)
  moreover have "read_times (length ?txs) (dlift MnTransaction tx_decode_from) (cursor p2 r2) =
      Inr (?txs, cursor (pre @ block_bytes b) suf)"
    using codec.times_reads [OF codec_dlift [OF tx.codec_axioms], of ?txs p2 suf MnTransaction] ok f2
    by (simp add: block_ok_def block_wire_def r2_def p2_def p1_def block_bytes_def)
  ultimately show "read_block (cursor pre (block_bytes b @ suf)) = Inr (b, cursor (pre @ block_bytes b) suf)"
    by (simp add: read_block_def block_bytes_def r2_def dbind_run dcheck_def)
next
  fix pre rest b d'
  assume "read_block (cursor pre rest) = Inr (b, d')"
  then obtain bs d1 h n d2 txs where 1: "read_slice 236 (cursor pre rest) = Inr (bs, d1)" and 2: "header_decode bs = Inr h"
    and 3: "read_compact_usize max_block_base_size d1 = Inr (n, d2)"
    and 4: "read_times n (dlift MnTransaction tx_decode_from) d2 = Inr (txs, d')"
    and b: "b = \<lparr>blk_header = h, blk_transactions = txs\<rparr>"
    by (fastforce simp: read_block_def dbind_eq_Inr dcheck_def bind_res_eq_Inr)
  from arr.reads_back [of 236 pre rest bs d1] 1 obtain s1 where s1: "rest = bs @ s1" "d1 = cursor (pre @ bs) s1"
    by (auto simp: read_array_def)
  from len.reads_back [OF 3 [unfolded s1]] obtain s2 where s2: "s1 = len_bytes n @ s2" "n \<le> max_block_base_size"
    "d2 = cursor ((pre @ bs) @ len_bytes n) s2" by auto
  from codec.times_back [OF codec_dlift [OF tx.codec_axioms] 4 [unfolded s2(3)]] obtain s3 where
    s3: "length txs = n" "\<forall>tx \<in> set txs. tx_ok tx \<and> tx_sized tx" "s2 = concat (map tx_bytes txs) @ s3"
      "d' = cursor (((pre @ bs) @ len_bytes n) @ concat (map tx_bytes txs)) s3" by auto
  show "block_ok b \<and> (\<exists>suf. rest = block_bytes b @ suf \<and> d' = cursor (pre @ block_bytes b) suf)"
    using 2 s1 s2 s3 b by (auto simp: block_ok_def block_wire_def block_bytes_def header_decode_iff)
qed

text \<open>The metrics are the lengths of the encoding.\<close>

lemma metrics_fold:
  assumes "\<forall>tx \<in> set txs. inputs_ok tx" "fold_res metrics_step txs (b0, w0) = Inr (b, w)"
  shows "b = b0 + (\<Sum>tx\<leftarrow>txs. length (tx_base_bytes tx)) \<and> w = w0 + (\<Sum>tx\<leftarrow>txs. length (tx_witness_bytes tx))"
  using assms
proof (induction txs arbitrary: b0 w0)
  case (Cons tx txs)
  from Cons.prems obtain s where s: "metrics_step tx (b0, w0) = Inr s" and fold: "fold_res metrics_step txs s = Inr (b, w)"
    by (auto simp: bind_res_eq_Inr)
  from s obtain n where n: "tx_base_encoded_size tx = Inr n" and "s = (b0 + n, w0 + length (tx_witness_bytes tx))"
    by (auto simp: metrics_step_def bind_res_eq_Inr map_err_eq_Inr ok_or_eq_Inr checked_add_usize_def tx_witness_encode_iff
        split: if_splits)
  then have rest: "fold_res metrics_step txs (b0 + n, w0 + length (tx_witness_bytes tx)) = Inr (b, w)" using fold by simp
  have "n = length (tx_base_bytes tx)"
    using n tx_base_encoded_size_iff [of tx n] Cons.prems(1) by (auto simp: inputs_ok_def)
  with Cons.IH [OF _ rest] Cons.prems(1) show ?case by simp
qed simp

lemma limits_bound:
  assumes "validate_block_limits H b = Inr m" "\<forall>tx \<in> set (blk_transactions b). inputs_ok tx" "header_ok (blk_header b)"
  shows "length (block_bytes b) \<le> max_block_weight" "length (blk_transactions b) \<le> max_block_base_size"
    "bm_serialized_size m = length (block_bytes b)"
proof -
  let ?txs = "blk_transactions b"
  let ?n = "compact_size_len (word_of_nat (length ?txs))"
  from assms(1) have len: "length ?txs \<le> max_block_base_size" by (auto simp: validate_block_limits_def split: if_splits)
  from assms(1) obtain x y where f: "fold_res metrics_step ?txs (236 + ?n, 0) = Inr (x, y)"
    and m: "bm_serialized_size m = x + y" "bm_weight m = 4 * x + y" "4 * x + y \<le> max_block_weight"
    by (auto simp: validate_block_limits_def block_metrics_def bind_res_eq_Inr ok_or_eq_Inr checked_add_usize_def
        checked_mul_usize_def Option.bind_eq_Some_conv mult.commute split: if_splits)
  have "length (block_bytes b) = x + y"
    using metrics_fold [OF assms(2) f] assms(3)
    by (simp add: block_bytes_def length_header_encode len_bytes_def compact_size_len_bytes length_concat tx_bytes_def comp_def
        sum_list_addf)
  with m len show "length (block_bytes b) \<le> max_block_weight" "length ?txs \<le> max_block_base_size"
    "bm_serialized_size m = length (block_bytes b)" by simp_all
qed

lemma put_transactions_iff:
  assumes "\<forall>tx \<in> set txs. inputs_ok tx"
  shows "fold_res put_transaction txs e = Inr e' \<longleftrightarrow>
    (\<forall>tx \<in> set txs. tx_sized tx) \<and> into_bytes e' = into_bytes e @ concat (map tx_bytes txs)"
  using assms
proof (induction txs arbitrary: e)
  case Nil
  then show ?case by (auto simp flip: into_bytes_inject)
next
  case (Cons tx txs)
  then have "tx_encode tx = Inr bs \<longleftrightarrow> tx_sized tx \<and> bs = tx_bytes tx" for bs by (intro tx_encode_iff) simp
  then show ?case using Cons by (auto simp: put_transaction_def bind_res_eq_Inr map_err_eq_Inr)
qed

lemma block_encode_iff:
  assumes "block_wire b"
  shows "block_encode H b = Inr bs \<longleftrightarrow>
    is_ok (validate_block_limits H b) \<and> (\<forall>tx \<in> set (blk_transactions b). tx_sized tx) \<and> bs = block_bytes b"
proof -
  have ins: "\<forall>tx \<in> set (blk_transactions b). inputs_ok tx" using assms by (simp add: block_wire_def tx_ok_def)
  have ex: "\<exists>e. into_bytes e = x" for x by (rule exI [of _ "\<lparr>enc_bytes = x\<rparr>"]) (simp add: into_bytes_def)
  show ?thesis
    using put_transactions_iff [OF ins] ex
    by (auto simp: block_encode_def bind_res_eq_Inr is_ok_iff block_bytes_def len_bytes_def)
qed

lemma block_decode_iff:
  "block_decode H input = Inr b \<longleftrightarrow> block_wire b \<and> block_encode H b = Inr input"
proof
  assume "block_decode H input = Inr b"
  then obtain d m where rd: "read_block (cursor [] input) = Inr (b, d)" and fin: "decoder_finish d = Inr ()"
    and lim: "validate_block_limits H b = Inr m"
    by (auto simp: block_decode_def decoder_new_cursor bind_res_eq_Inr map_err_eq_Inr split: if_splits)
  from blk.reads_back [OF rd] fin have "block_ok b" "input = block_bytes b" by (auto split: if_splits)
  then show "block_wire b \<and> block_encode H b = Inr input"
    using block_encode_iff [of b H input] lim by (auto simp: block_ok_def is_ok_iff)
next
  assume b: "block_wire b \<and> block_encode H b = Inr input"
  then obtain m where m: "validate_block_limits H b = Inr m" and sized: "\<forall>tx \<in> set (blk_transactions b). tx_sized tx"
    and input: "input = block_bytes b"
    using block_encode_iff [of b H input] by (auto simp: is_ok_iff)
  have bound: "length input \<le> max_block_weight" "length (blk_transactions b) \<le> max_block_base_size"
    using limits_bound [OF m] b input by (auto simp: block_wire_def tx_ok_def)
  have "fits [] (block_bytes b @ [])" using bound(1) input by (simp add: fits_def block_limits usize_max_def)
  from blk.reads [OF _ this] have "read_block (cursor [] input) = Inr (b, cursor input [])"
    using b sized bound(2) input by (simp add: block_ok_def)
  then show "block_decode H input = Inr b" using bound(1) m by (simp add: block_decode_def decoder_new_cursor)
qed

text \<open>
  The block codec is exact: a byte string decodes to a block if and only if it is the encoding that \<^verbatim>\<open>encode\<close> produces for
  that block.  So accepted blocks are within the size and weight limits, their encoding is unique, and every block
  that encodes decodes to itself.
\<close>

theorem block_codec_exact:
  "block_decode H input = Inr b \<longleftrightarrow> block_wire b \<and> block_encode H b = Inr input"
  by (rule block_decode_iff)

end
