(* ===== verification/MiningJobs.thy ===== *)
theory MiningJobs
  imports Blocks
begin

text \<open>
  Model of the second part of \<^verbatim>\<open>crates/hns-mining/src/lib.rs\<close>: mining snapshots, header templates, prepared
  jobs, solutions and the bounded set of prepared jobs.
\<close>

section \<open>Snapshots and templates\<close>

definition max_prepared_jobs :: nat where "max_prepared_jobs = 16"

record mining_snapshot =
  ms_network :: network
  ms_generation :: u64
  ms_tip_hash :: hash32
  ms_tip_height :: height
  ms_tip_time :: block_time
  ms_parent_median_time :: block_time
  ms_next_tree_root :: hash32
  ms_expected_bits :: compact_target

definition next_height :: "mining_snapshot \<Rightarrow> mining_error + height" where
  "next_height s = ok_or (checked_add (ms_tip_height s) 1) MnArithmeticOverflow"

definition snapshot_validate :: "mining_snapshot \<Rightarrow> mining_error + unit" where
  "snapshot_validate s = (if ms_generation s = 0 \<or> ms_expected_bits s = 0 then Inl InvalidSnapshot else Inr ())"

record header_template =
  mt_parent_hash :: hash32
  mt_tree_root :: hash32
  mt_reserved_root :: hash32
  mt_witness_root :: hash32
  mt_merkle_root :: hash32
  mt_version :: u32
  mt_bits :: compact_target
  mt_minimum_time :: block_time
  mt_mask_hash :: hash32

definition job_mask_hash :: "pow_hashes \<Rightarrow> hash32 \<Rightarrow> hash32 \<Rightarrow> bytes" where
  "job_mask_hash H parent msk = blake2b_256 H [parent, msk]"

definition template_from_transactions ::
  "pow_hashes \<Rightarrow> mining_snapshot \<Rightarrow> hash32 \<Rightarrow> u32 \<Rightarrow> block_time \<Rightarrow> hash32 \<Rightarrow> transaction list \<Rightarrow>
   mining_error + header_template" where
  "template_from_transactions H s reserved_root version minimum_time msk txs =
     bind_res (snapshot_validate s) (\<lambda>_.
     if minimum_time \<le> ms_parent_median_time s \<or> txs = [] then Inl InvalidTemplate
     else
       bind_res (block_witness_root H txs) (\<lambda>witness_root.
       bind_res (block_merkle_root H txs) (\<lambda>merkle_root.
       Inr \<lparr>mt_parent_hash = ms_tip_hash s, mt_tree_root = ms_next_tree_root s, mt_reserved_root = reserved_root,
            mt_witness_root = witness_root, mt_merkle_root = merkle_root, mt_version = version,
            mt_bits = ms_expected_bits s, mt_minimum_time = minimum_time,
            mt_mask_hash = job_mask_hash H (ms_tip_hash s) msk\<rparr>)))"

section \<open>Jobs\<close>

record prepared_job =
  pj_job_id :: bytes
  pj_snapshot_generation :: u64
  pj_network :: network
  pj_header :: header_template
  pj_maximum_target_time :: "block_time option"
  pj_transactions :: "transaction list"

definition put_job_transaction :: "transaction \<Rightarrow> encoder \<Rightarrow> mining_error + encoder" where
  "put_job_transaction tx e =
     bind_res (map_err MnTransaction (tx_encode tx)) (\<lambda>encoded.
     Inr (put_seq [put_u64_le (word_of_nat (length encoded)), put_bytes encoded] e))"

definition job_id_of :: "pow_hashes \<Rightarrow> mining_snapshot \<Rightarrow> header_template \<Rightarrow> transaction list \<Rightarrow> mining_error + bytes" where
  "job_id_of H s t txs =
     bind_res (fold_res put_job_transaction txs (put_u64_le (word_of_nat (length txs)) encoder_new)) (\<lambda>e.
     Inr (blake2b_256 H
       [ascii ''hsrd/mining-job/v1'', [network_id (ms_network s)], u64_to_le (ms_generation s), mt_parent_hash t,
        mt_tree_root t, mt_reserved_root t, mt_witness_root t, mt_merkle_root t, u32_to_le (mt_version t),
        u32_to_le (mt_bits t), u64_to_le (mt_minimum_time t), mt_mask_hash t, into_bytes e]))"

definition saturating_mul :: "u64 \<Rightarrow> u64 \<Rightarrow> u64" where
  "saturating_mul a b = (case checked_mul a b of Some c \<Rightarrow> c | None \<Rightarrow> - 1)"

definition maximum_target_time_for :: "mining_snapshot \<Rightarrow> header_template \<Rightarrow> block_time option" where
  "maximum_target_time_for s t =
     (let p = np_pow (parameters (ms_network s)) in
      if pp_target_reset p \<and> mt_bits t \<noteq> pp_bits p
      then Some (saturating_add (ms_tip_time s) (saturating_mul (ucast (pp_target_spacing p)) 2)) else None)"

definition job_block :: "header_template \<Rightarrow> u32 \<Rightarrow> block_time \<Rightarrow> bytes \<Rightarrow> hash32 \<Rightarrow> transaction list \<Rightarrow> block" where
  "job_block t nonce time extra_nonce msk txs =
     \<lparr>blk_header = \<lparr>h_nonce = nonce, h_time = time, h_previous_block = mt_parent_hash t, h_tree_root = mt_tree_root t,
        h_extra_nonce = extra_nonce, h_reserved_root = mt_reserved_root t, h_witness_root = mt_witness_root t,
        h_merkle_root = mt_merkle_root t, h_version = mt_version t, h_bits = mt_bits t, h_mask = msk\<rparr>,
      blk_transactions = txs\<rparr>"

definition job_new :: "pow_hashes \<Rightarrow> mining_snapshot \<Rightarrow> header_template \<Rightarrow> transaction list \<Rightarrow> mining_error + prepared_job" where
  "job_new H s t txs =
     bind_res (snapshot_validate s) (\<lambda>_.
     if mt_parent_hash t \<noteq> ms_tip_hash s \<or> mt_tree_root t \<noteq> ms_next_tree_root s \<or>
        mt_minimum_time t \<le> ms_parent_median_time s \<or> mt_bits t \<noteq> ms_expected_bits s \<or> txs = []
     then Inl InvalidJob
     else
       bind_res (validate_block_body H (job_block t 0 (mt_minimum_time t) (h_extra_nonce header_default)
         (h_mask header_default) txs)) (\<lambda>_.
       bind_res (next_height s) (\<lambda>height.
       if tx_locktime (txs ! 0) \<noteq> height then Inl InvalidCoinbaseHeight
       else
         let maximum_target_time = maximum_target_time_for s t in
         if (case maximum_target_time of Some maximum \<Rightarrow> mt_minimum_time t > maximum | None \<Rightarrow> False) then Inl InvalidJob
         else
           bind_res (job_id_of H s t txs) (\<lambda>job_id.
           Inr \<lparr>pj_job_id = job_id, pj_snapshot_generation = ms_generation s, pj_network = ms_network s, pj_header = t,
                pj_maximum_target_time = maximum_target_time, pj_transactions = txs\<rparr>))))"

definition job_prepare ::
  "pow_hashes \<Rightarrow> mining_snapshot \<Rightarrow> hash32 \<Rightarrow> u32 \<Rightarrow> block_time \<Rightarrow> hash32 \<Rightarrow> transaction list \<Rightarrow> mining_error + prepared_job" where
  "job_prepare H s reserved_root version minimum_time msk txs =
     bind_res (template_from_transactions H s reserved_root version minimum_time msk txs) (\<lambda>t. job_new H s t txs)"

definition validate_for_snapshot :: "pow_hashes \<Rightarrow> prepared_job \<Rightarrow> mining_snapshot \<Rightarrow> mining_error + unit" where
  "validate_for_snapshot H j s =
     bind_res (map_err (\<lambda>_. StaleJob) (snapshot_validate s)) (\<lambda>_.
     let t = pj_header j in
     if pj_network j \<noteq> ms_network s \<or> pj_snapshot_generation j \<noteq> ms_generation s \<or> mt_parent_hash t \<noteq> ms_tip_hash s \<or>
        mt_tree_root t \<noteq> ms_next_tree_root s \<or> mt_bits t \<noteq> ms_expected_bits s \<or>
        mt_minimum_time t \<le> ms_parent_median_time s \<or> pj_maximum_target_time j \<noteq> maximum_target_time_for s t
     then Inl StaleJob
     else
       bind_res (job_id_of H s t (pj_transactions j)) (\<lambda>job_id.
       if pj_job_id j \<noteq> job_id then Inl StaleJob else Inr ()))"

definition reconstruct ::
  "pow_hashes \<Rightarrow> prepared_job \<Rightarrow> u32 \<Rightarrow> block_time \<Rightarrow> bytes \<Rightarrow> hash32 \<Rightarrow> mining_error + block" where
  "reconstruct H j nonce time extra_nonce msk =
     (let t = pj_header j in
      if time < mt_minimum_time t \<or>
         (case pj_maximum_target_time j of Some maximum \<Rightarrow> time > maximum | None \<Rightarrow> False) \<or>
         job_mask_hash H (mt_parent_hash t) msk \<noteq> mt_mask_hash t
      then Inl InvalidReconstruction
      else
        let b = job_block t nonce time extra_nonce msk (pj_transactions j) in
        bind_res (map_err (\<lambda>_. InvalidReconstruction) (validate_block_body H b)) (\<lambda>_.
        if mask_hash H (blk_header b) \<noteq> mt_mask_hash t then Inl InvalidReconstruction else Inr b))"

record solved_candidate =
  sc_job_id :: bytes
  sc_snapshot_generation :: u64
  sc_parent_height :: height
  sc_block :: block

definition admit_solution ::
  "pow_hashes \<Rightarrow> prepared_job \<Rightarrow> mining_snapshot \<Rightarrow> u32 \<Rightarrow> block_time \<Rightarrow> bytes \<Rightarrow> hash32 \<Rightarrow> mining_error + solved_candidate" where
  "admit_solution H j s nonce time extra_nonce msk =
     bind_res (validate_for_snapshot H j s) (\<lambda>_.
     bind_res (reconstruct H j nonce time extra_nonce msk) (\<lambda>b.
     if \<not> verify_pow H (blk_header b) then Inl InsufficientProofOfWork
     else Inr \<lparr>sc_job_id = pj_job_id j, sc_snapshot_generation = pj_snapshot_generation j,
            sc_parent_height = ms_tip_height s, sc_block = b\<rparr>))"

section \<open>The set of prepared jobs\<close>

text \<open>The ordered map from job identifiers is an association list; every operation returns the set it leaves.\<close>

type_synonym job_set = "(bytes \<times> prepared_job) list"

definition jobs_insert :: "prepared_job \<Rightarrow> job_set \<Rightarrow> (mining_error + prepared_job) \<times> job_set" where
  "jobs_insert j jobs =
     (case map_of jobs (pj_job_id j) of
        Some existing \<Rightarrow> if existing = j then (Inr existing, jobs) else (Inl JobConflict, jobs)
      | None \<Rightarrow>
          if length jobs \<ge> max_prepared_jobs then (Inl JobCapacity, jobs)
          else (Inr j, (pj_job_id j, j) # jobs))"

definition jobs_activate :: "pow_hashes \<Rightarrow> bytes \<Rightarrow> mining_snapshot \<Rightarrow> job_set \<Rightarrow> (mining_error + prepared_job) \<times> job_set" where
  "jobs_activate H job_id s jobs =
     (case map_of jobs job_id of
        None \<Rightarrow> (Inl UnknownJob, jobs)
      | Some j \<Rightarrow>
          (case validate_for_snapshot H j s of
             Inl e \<Rightarrow> (Inl e, jobs)
           | Inr _ \<Rightarrow>
               (Inr j, filter (\<lambda>(_, candidate). pj_snapshot_generation candidate = ms_generation s \<and>
                  pj_network candidate = ms_network s) jobs)))"

definition jobs_retain_generation :: "u64 \<Rightarrow> job_set \<Rightarrow> job_set" where
  "jobs_retain_generation generation jobs =
     filter (\<lambda>(_, candidate). pj_snapshot_generation candidate = generation) jobs"

definition jobs_clear :: "job_set \<Rightarrow> job_set" where
  "jobs_clear jobs = []"

end
