(* ===== verification/BlockBody.thy ===== *)
theory BlockBody
  imports BlockProofs
begin

text \<open>What the sanity checks on transactions and blocks accept, stated without the order of the checks.\<close>

section \<open>Counters\<close>

lemma unat_u32_less: "unat (v :: u32) < 2 ^ 32"
  using unsigned_less [of v] by simp

definition opens_of :: "tx_output list \<Rightarrow> nat" where
  "opens_of outs = length (filter (\<lambda>out. cov_kind (out_covenant out) = Open) outs)"

definition updates_of :: "tx_output list \<Rightarrow> nat" where
  "updates_of outs = length (filter (\<lambda>out. cov_kind (out_covenant out) \<in> {Open, Claim, Update, Transfer, Revoke}) outs)"

definition renewals_of :: "tx_output list \<Rightarrow> nat" where
  "renewals_of outs = length (filter (\<lambda>out. cov_kind (out_covenant out) \<in> {Register, Renew, Finalize}) outs)"

lemmas counts_of = opens_of_def updates_of_def renewals_of_def

lemma count_fold:
  "unat (no_opens (fold count_name_output outs c)) = min (unat (no_opens c) + opens_of outs) (2 ^ 32 - 1)"
  "unat (no_updates (fold count_name_output outs c)) = min (unat (no_updates c) + updates_of outs) (2 ^ 32 - 1)"
  "unat (no_renewals (fold count_name_output outs c)) = min (unat (no_renewals c) + renewals_of outs) (2 ^ 32 - 1)"
proof (induction outs arbitrary: c)
  case Nil
  {
    case 1 show ?case using unat_u32_less [of "no_opens c"] by (simp add: counts_of)
  next
    case 2 show ?case using unat_u32_less [of "no_updates c"] by (simp add: counts_of)
  next
    case 3 show ?case using unat_u32_less [of "no_renewals c"] by (simp add: counts_of)
  }
next
  case (Cons out outs)
  have one: "unat (saturating_add v 1) = min (Suc (unat v)) (2 ^ 32 - 1)" for v :: u32 by (simp add: unat_saturating_add)
  {
    case 1 show ?case using Cons(1) [of "count_name_output out c"] unat_u32_less [of "no_opens c"]
      by (auto simp: counts_of count_name_output_def one split: covenant_kind.split)
  next
    case 2 show ?case using Cons(2) [of "count_name_output out c"] unat_u32_less [of "no_updates c"]
      by (auto simp: counts_of count_name_output_def one split: covenant_kind.split)
  next
    case 3 show ?case using Cons(3) [of "count_name_output out c"] unat_u32_less [of "no_renewals c"]
      by (auto simp: counts_of count_name_output_def one split: covenant_kind.split)
  }
qed

lemma count_name_operations_unat:
  "unat (no_opens (count_name_operations tx)) = min (opens_of (tx_outputs tx)) (2 ^ 32 - 1)"
  "unat (no_updates (count_name_operations tx)) = min (updates_of (tx_outputs tx)) (2 ^ 32 - 1)"
  "unat (no_renewals (count_name_operations tx)) = min (renewals_of (tx_outputs tx)) (2 ^ 32 - 1)"
  by (simp_all add: count_name_operations_def count_fold)

section \<open>Transactions\<close>

lemma output_total_iff:
  "fold_res output_total_step outs acc = Inr t \<longleftrightarrow>
    (\<forall>out \<in> set outs. address_ok (out_address out)) \<and> unat t = unat acc + (\<Sum>out\<leftarrow>outs. unat (out_value out)) \<and>
    (outs = [] \<or> t \<le> max_money)"
proof (induction outs arbitrary: acc)
  case Nil
  then show ?case by (auto simp: word_unat_eq_iff)
next
  case (Cons out outs)
  have m: "unat max_money = 2040000000000000" by (simp add: max_money_def)
  have step: "output_total_step out acc = Inr a \<longleftrightarrow>
      address_ok (out_address out) \<and> unat a = unat acc + unat (out_value out) \<and> unat a \<le> unat max_money" for a
  proof (cases "unat acc + unat (out_value out) < 2 ^ 64")
    case True
    then have "unat (acc + out_value out) = unat acc + unat (out_value out)" by (simp add: unat_word_ariths)
    then show ?thesis using True
      by (auto simp: output_total_step_def bind_res_eq_Inr map_err_eq_Inr checked_add_def word_less_nat_alt word_unat_eq_iff
          split: if_splits)
  next
    case False
    then show ?thesis by (auto simp: output_total_step_def bind_res_eq_Inr checked_add_def m)
  qed
  show ?case
  proof
    assume "fold_res output_total_step (out # outs) acc = Inr t"
    then obtain a where a: "output_total_step out acc = Inr a" and "fold_res output_total_step outs a = Inr t"
      by (auto simp: bind_res_eq_Inr)
    then show "(\<forall>out \<in> set (out # outs). address_ok (out_address out)) \<and>
        unat t = unat acc + (\<Sum>out\<leftarrow>out # outs. unat (out_value out)) \<and> (out # outs = [] \<or> t \<le> max_money)"
      using Cons [of a] step [of a] by (auto simp: word_le_nat_alt)
  next
    assume r: "(\<forall>out \<in> set (out # outs). address_ok (out_address out)) \<and>
        unat t = unat acc + (\<Sum>out\<leftarrow>out # outs. unat (out_value out)) \<and> (out # outs = [] \<or> t \<le> max_money)"
    then have le: "unat acc + unat (out_value out) \<le> unat max_money" by (auto simp: word_le_nat_alt)
    then have "unat (acc + out_value out) = unat acc + unat (out_value out)" by (simp add: unat_word_ariths m)
    with le r step [of "acc + out_value out"] Cons [of "acc + out_value out"]
    show "fold_res output_total_step (out # outs) acc = Inr t" by auto
  qed
qed

lemma check_spent_inputs_iff:
  "check_spent_inputs seen ins = Inr u \<longleftrightarrow>
    (\<forall>i \<in> set ins. \<not> outpoint_is_null (in_previous_output i) \<and> in_previous_output i \<notin> set seen) \<and>
    distinct (map in_previous_output ins)"
proof (induction seen ins rule: check_spent_inputs.induct)
  case (2 seen i rest)
  then show ?case by (auto simp: image_iff)
qed simp

lemma check_claim_inputs_iff:
  "check_claim_inputs ins = Inr u \<longleftrightarrow>
    (\<forall>i \<in> set ins. outpoint_is_null (in_previous_output i) \<and>
      (\<exists>w. in_witness i = [w] \<and> length w \<le> max_coinbase_claim_witness_item_size))"
proof (induction ins)
  case (Cons i ins)
  have "length (in_witness i) = 1 \<longleftrightarrow> (\<exists>w. in_witness i = [w])" by (auto simp: length_Suc_conv)
  then show ?case using Cons by auto
qed simp

text \<open>The inputs a transaction may have.\<close>

definition inputs_sane :: "transaction \<Rightarrow> bool" where
  "inputs_sane tx \<longleftrightarrow>
     (if is_coinbase tx
      then coinbase_witness_size (in_witness (tx_inputs tx ! 0)) \<le> max_coinbase_witness_size \<and>
        (\<forall>i \<in> set (tl (tx_inputs tx)). outpoint_is_null (in_previous_output i) \<and>
          (\<exists>w. in_witness i = [w] \<and> length w \<le> max_coinbase_claim_witness_item_size))
      else distinct (map in_previous_output (tx_inputs tx)) \<and>
        (\<forall>i \<in> set (tx_inputs tx). \<not> outpoint_is_null (in_previous_output i)))"

lemma check_inputs_iff: "check_inputs tx = Inr u \<longleftrightarrow> inputs_sane tx"
  by (auto simp: check_inputs_def inputs_sane_def check_spent_inputs_iff check_claim_inputs_iff drop_Suc)

definition transaction_sane :: "(bytes \<Rightarrow> bytes) \<Rightarrow> transaction \<Rightarrow> bool" where
  "transaction_sane sha3 tx \<longleftrightarrow>
     tx_inputs tx \<noteq> [] \<and> tx_outputs tx \<noteq> [] \<and> check_transaction_size tx = Inr () \<and>
     opens_of (tx_outputs tx) \<le> 300 \<and> updates_of (tx_outputs tx) \<le> 600 \<and> renewals_of (tx_outputs tx) \<le> 600 \<and>
     (\<forall>out \<in> set (tx_outputs tx). address_ok (out_address out)) \<and>
     (\<Sum>out\<leftarrow>tx_outputs tx. unat (out_value out)) \<le> unat max_money \<and>
     inputs_sane tx \<and> has_sane_covenants sha3 tx"

lemma validate_transaction_sanity_iff:
  "validate_transaction_sanity sha3 tx = Inr () \<longleftrightarrow> transaction_sane sha3 tx"
proof -
  have total: "(\<exists>t. fold_res output_total_step (tx_outputs tx) 0 = Inr t) \<longleftrightarrow>
      (\<forall>out \<in> set (tx_outputs tx). address_ok (out_address out)) \<and> (\<Sum>out\<leftarrow>tx_outputs tx. unat (out_value out)) \<le> unat max_money"
    if "tx_outputs tx \<noteq> []"
  proof -
    let ?s = "\<Sum>out\<leftarrow>tx_outputs tx. unat (out_value out)"
    have "unat (word_of_nat ?s :: u64) = ?s" if "?s \<le> unat max_money"
      using that by (simp add: unsigned_of_nat take_bit_nat_eq_self max_money_def)
    then show ?thesis using that
      by (auto simp: output_total_iff word_le_nat_alt intro: exI [of _ "word_of_nat ?s"])
  qed
  have c: "no_opens (count_name_operations tx) > max_block_opens \<longleftrightarrow> \<not> opens_of (tx_outputs tx) \<le> 300"
    "no_updates (count_name_operations tx) > max_block_updates \<longleftrightarrow> \<not> updates_of (tx_outputs tx) \<le> 600"
    "no_renewals (count_name_operations tx) > max_block_renewals \<longleftrightarrow> \<not> renewals_of (tx_outputs tx) \<le> 600"
    by (auto simp: word_less_nat_alt count_name_operations_unat max_block_opens_def max_block_updates_def max_block_renewals_def)
  show ?thesis
    unfolding validate_transaction_sanity_def transaction_sane_def Let_def c
    using total by (auto simp: bind_res_eq_Inr check_inputs_iff)
qed

text \<open>
  The exact condition of transaction sanity: inputs and outputs present, size within consensus, at most 300 opens,
  600 updates and 600 renewals, every address valid, an output total that does not exceed the maximum amount of money
  even without wrap-around, structurally valid covenants, and inputs that are distinct and not null (or, for a coinbase, null
  with bounded witnesses).
\<close>

theorem transaction_sanity_exact:
  "validate_transaction_sanity sha3 tx = Inr () \<longleftrightarrow> transaction_sane sha3 tx"
  by (rule validate_transaction_sanity_iff)

section \<open>Blocks\<close>

definition exclusive_names :: "transaction \<Rightarrow> bytes list" where
  "exclusive_names tx =
     map (\<lambda>out. the (cov_item (out_covenant out) 0)) (filter (\<lambda>out. kind_is_exclusive (cov_kind (out_covenant out))) (tx_outputs tx))"

definition exclusive_hashes_ok :: "tx_output list \<Rightarrow> bool" where
  "exclusive_hashes_ok outs \<longleftrightarrow> (\<forall>out \<in> set outs. kind_is_exclusive (cov_kind (out_covenant out)) \<longrightarrow>
     (\<exists>h. cov_item (out_covenant out) 0 = Some h \<and> length h = 32))"

lemma exclusive_outputs_iff:
  "exclusive_outputs earlier outs own = Inr r \<longleftrightarrow>
    exclusive_hashes_ok outs \<and>
    r = rev (map (\<lambda>out. the (cov_item (out_covenant out) 0)) (filter (\<lambda>out. kind_is_exclusive (cov_kind (out_covenant out))) outs)) @ own \<and>
    set (map (\<lambda>out. the (cov_item (out_covenant out) 0)) (filter (\<lambda>out. kind_is_exclusive (cov_kind (out_covenant out))) outs)) \<inter>
      set earlier = {}"
proof (induction earlier outs own rule: exclusive_outputs.induct)
  case (2 earlier out outs own)
  show ?case
  proof (cases "kind_is_exclusive (cov_kind (out_covenant out))")
    case True
    then show ?thesis
      using 2(1) by (cases "cov_item (out_covenant out) 0") (auto simp: exclusive_hashes_ok_def as_array_def)
  next
    case False
    then show ?thesis using 2(2) by (simp add: exclusive_hashes_ok_def)
  qed
qed (auto simp: exclusive_hashes_ok_def)

lemma covenant_limit_step_iff:
  "covenant_limit_step tx t = Inr t' \<longleftrightarrow>
    exclusive_hashes_ok (tx_outputs tx) \<and> set (exclusive_names tx) \<inter> set (ct_names t) = {} \<and>
    t' = \<lparr>ct_counts = \<lparr>no_opens = saturating_add (no_opens (ct_counts t)) (no_opens (count_name_operations tx)),
             no_updates = saturating_add (no_updates (ct_counts t)) (no_updates (count_name_operations tx)),
             no_renewals = saturating_add (no_renewals (ct_counts t)) (no_renewals (count_name_operations tx))\<rparr>,
           ct_names = rev (exclusive_names tx) @ ct_names t\<rparr>"
  by (auto simp: covenant_limit_step_def Let_def bind_res_eq_Inr exclusive_outputs_iff exclusive_names_def)

definition names_exclusive :: "transaction list \<Rightarrow> bool" where
  "names_exclusive txs \<longleftrightarrow> sorted_wrt (\<lambda>t u. set (exclusive_names t) \<inter> set (exclusive_names u) = {}) txs"

lemma covenant_limit_fold:
  "(\<exists>t'. fold_res covenant_limit_step txs t = Inr t') \<longleftrightarrow>
    (\<forall>tx \<in> set txs. exclusive_hashes_ok (tx_outputs tx) \<and> set (exclusive_names tx) \<inter> set (ct_names t) = {}) \<and>
    names_exclusive txs"
proof (induction txs arbitrary: t)
  case (Cons tx txs)
  let ?t = "\<lparr>ct_counts = \<lparr>no_opens = saturating_add (no_opens (ct_counts t)) (no_opens (count_name_operations tx)),
             no_updates = saturating_add (no_updates (ct_counts t)) (no_updates (count_name_operations tx)),
             no_renewals = saturating_add (no_renewals (ct_counts t)) (no_renewals (count_name_operations tx))\<rparr>,
           ct_names = rev (exclusive_names tx) @ ct_names t\<rparr>"
  have "(\<exists>t'. fold_res covenant_limit_step (tx # txs) t = Inr t') \<longleftrightarrow>
      (exclusive_hashes_ok (tx_outputs tx) \<and> set (exclusive_names tx) \<inter> set (ct_names t) = {}) \<and>
      (\<exists>t'. fold_res covenant_limit_step txs ?t = Inr t')"
    by (auto simp: bind_res_eq_Inr covenant_limit_step_iff)
  then show ?case unfolding Cons by (auto simp: names_exclusive_def)
qed (simp add: names_exclusive_def)

lemma covenant_counts_fold:
  assumes "fold_res covenant_limit_step txs t = Inr t'"
  shows "unat (no_opens (ct_counts t')) = min (unat (no_opens (ct_counts t)) + (\<Sum>tx\<leftarrow>txs. opens_of (tx_outputs tx))) (2 ^ 32 - 1)"
    "unat (no_updates (ct_counts t')) = min (unat (no_updates (ct_counts t)) + (\<Sum>tx\<leftarrow>txs. updates_of (tx_outputs tx))) (2 ^ 32 - 1)"
    "unat (no_renewals (ct_counts t')) = min (unat (no_renewals (ct_counts t)) + (\<Sum>tx\<leftarrow>txs. renewals_of (tx_outputs tx))) (2 ^ 32 - 1)"
  using assms
proof (induction txs arbitrary: t)
  case Nil
  {
    case 1 then show ?case using unat_u32_less [of "no_opens (ct_counts t)"] by simp
  next
    case 2 then show ?case using unat_u32_less [of "no_updates (ct_counts t)"] by simp
  next
    case 3 then show ?case using unat_u32_less [of "no_renewals (ct_counts t)"] by simp
  }
next
  case (Cons tx txs)
  {
    case 1
    then obtain u where "covenant_limit_step tx t = Inr u" and f: "fold_res covenant_limit_step txs u = Inr t'" by (auto simp: bind_res_eq_Inr)
    with Cons(1) [OF f] show ?case by (auto simp: covenant_limit_step_iff unat_saturating_add count_name_operations_unat)
  next
    case 2
    then obtain u where "covenant_limit_step tx t = Inr u" and f: "fold_res covenant_limit_step txs u = Inr t'" by (auto simp: bind_res_eq_Inr)
    with Cons(2) [OF f] show ?case by (auto simp: covenant_limit_step_iff unat_saturating_add count_name_operations_unat)
  next
    case 3
    then obtain u where "covenant_limit_step tx t = Inr u" and f: "fold_res covenant_limit_step txs u = Inr t'" by (auto simp: bind_res_eq_Inr)
    with Cons(3) [OF f] show ?case by (auto simp: covenant_limit_step_iff unat_saturating_add count_name_operations_unat)
  }
qed

lemma validate_block_covenant_limits_iff:
  "validate_block_covenant_limits txs = Inr () \<longleftrightarrow>
    (\<forall>tx \<in> set txs. exclusive_hashes_ok (tx_outputs tx)) \<and> names_exclusive txs \<and>
    (\<Sum>tx\<leftarrow>txs. opens_of (tx_outputs tx)) \<le> 300 \<and> (\<Sum>tx\<leftarrow>txs. updates_of (tx_outputs tx)) \<le> 600 \<and>
    (\<Sum>tx\<leftarrow>txs. renewals_of (tx_outputs tx)) \<le> 600"
proof -
  let ?t = "\<lparr>ct_counts = \<lparr>no_opens = 0, no_updates = 0, no_renewals = 0\<rparr>, ct_names = []\<rparr>"
  note ex = covenant_limit_fold [of txs ?t]
  show ?thesis
  proof (cases "\<exists>t'. fold_res covenant_limit_step txs ?t = Inr t'")
    case True
    then obtain t' where t': "fold_res covenant_limit_step txs ?t = Inr t'" by blast
    have "no_opens (ct_counts t') > max_block_opens \<longleftrightarrow> \<not> (\<Sum>tx\<leftarrow>txs. opens_of (tx_outputs tx)) \<le> 300"
      "no_updates (ct_counts t') > max_block_updates \<longleftrightarrow> \<not> (\<Sum>tx\<leftarrow>txs. updates_of (tx_outputs tx)) \<le> 600"
      "no_renewals (ct_counts t') > max_block_renewals \<longleftrightarrow> \<not> (\<Sum>tx\<leftarrow>txs. renewals_of (tx_outputs tx)) \<le> 600"
      using covenant_counts_fold [OF t']
      by (auto simp: word_less_nat_alt max_block_opens_def max_block_updates_def max_block_renewals_def)
    then show ?thesis using ex t' True by (auto simp: validate_block_covenant_limits_def)
  next
    case False
    then have "\<exists>e. fold_res covenant_limit_step txs ?t = Inl e" by (metis sum.exhaust)
    then show ?thesis using ex False by (auto simp: validate_block_covenant_limits_def)
  qed
qed

lemma body_transactions_iff:
  "fold_res (body_transaction_step sha3) (enumerate n txs) () = Inr () \<longleftrightarrow>
    (\<forall>tx \<in> set txs. transaction_sane sha3 tx) \<and> (\<forall>tx \<in> set (if n = 0 then tl txs else txs). \<not> is_coinbase tx)"
proof (induction txs arbitrary: n)
  case (Cons tx txs)
  have "body_transaction_step sha3 (n, tx) () = Inr u \<longleftrightarrow> transaction_sane sha3 tx \<and> (n = 0 \<or> \<not> is_coinbase tx)" for u
    by (auto simp: body_transaction_step_def bind_res_eq_Inr validate_transaction_sanity_iff split: if_splits)
  then show ?case using Cons [of "Suc n"] by (auto simp: bind_res_eq_Inr)
qed simp

lemma validate_block_body_iff:
  "validate_block_body H b = Inr m \<longleftrightarrow>
    validate_block_limits H b = Inr m \<and> bm_merkle_root m \<noteq> replicate 32 0 \<and>
    bm_merkle_root m = h_merkle_root (blk_header b) \<and> bm_witness_root m = h_witness_root (blk_header b) \<and>
    blk_transactions b \<noteq> [] \<and> is_coinbase (hd (blk_transactions b)) \<and>
    (\<forall>tx \<in> set (tl (blk_transactions b)). \<not> is_coinbase tx) \<and>
    (\<forall>tx \<in> set (blk_transactions b). transaction_sane (ph_sha3_256 H) tx \<and> exclusive_hashes_ok (tx_outputs tx)) \<and>
    names_exclusive (blk_transactions b) \<and>
    (\<Sum>tx\<leftarrow>blk_transactions b. opens_of (tx_outputs tx)) \<le> 300 \<and>
    (\<Sum>tx\<leftarrow>blk_transactions b. updates_of (tx_outputs tx)) \<le> 600 \<and>
    (\<Sum>tx\<leftarrow>blk_transactions b. renewals_of (tx_outputs tx)) \<le> 600"
  unfolding validate_block_body_def
  by (cases "validate_block_limits H b")
    (auto simp: bind_res_eq_Inr body_transactions_iff validate_block_covenant_limits_iff hd_conv_nth)

text \<open>
  C19: a block body is accepted exactly when the block is within its size limits, its header commits to the Merkle and witness
  roots of its transactions, the first transaction and no other is a coinbase, every transaction is sane, no name is
  changed exclusively by two transactions, and the block has at most 300 opens, 600 updates and 600 renewals.
\<close>

theorem block_body_exact:
  "validate_block_body H b = Inr m \<longleftrightarrow>
    validate_block_limits H b = Inr m \<and> bm_merkle_root m \<noteq> replicate 32 0 \<and>
    bm_merkle_root m = h_merkle_root (blk_header b) \<and> bm_witness_root m = h_witness_root (blk_header b) \<and>
    blk_transactions b \<noteq> [] \<and> is_coinbase (hd (blk_transactions b)) \<and>
    (\<forall>tx \<in> set (tl (blk_transactions b)). \<not> is_coinbase tx) \<and>
    (\<forall>tx \<in> set (blk_transactions b). transaction_sane (ph_sha3_256 H) tx \<and> exclusive_hashes_ok (tx_outputs tx)) \<and>
    names_exclusive (blk_transactions b) \<and>
    (\<Sum>tx\<leftarrow>blk_transactions b. opens_of (tx_outputs tx)) \<le> 300 \<and>
    (\<Sum>tx\<leftarrow>blk_transactions b. updates_of (tx_outputs tx)) \<le> 600 \<and>
    (\<Sum>tx\<leftarrow>blk_transactions b. renewals_of (tx_outputs tx)) \<le> 600"
  by (rule validate_block_body_iff)

section \<open>Examples\<close>

definition mining_hashes :: pow_hashes where
  "mining_hashes = \<lparr>ph_blake2b_256 = \<lambda>_. replicate 32 1, ph_blake2b_512 = \<lambda>_. [], ph_sha3_256 = \<lambda>_. []\<rparr>"

definition sample_coinbase :: transaction where
  "sample_coinbase = \<lparr>tx_version = 0,
     tx_inputs = [\<lparr>in_previous_output = outpoint_null, in_sequence = 7, in_witness = [[1]]\<rparr>],
     tx_outputs = [\<lparr>out_value = 5, out_address = \<lparr>addr_version = 0, addr_hash = replicate 20 9\<rparr>, out_covenant = covenant_default\<rparr>],
     tx_locktime = 1\<rparr>"

lemma sample_encodings:
  "tx_base_encoded_size sample_coinbase = Inr 82" "tx_witness_encode sample_coinbase = Inr [1, 1, 1]"
  "\<not> isl (tx_base_encode sample_coinbase)" "\<not> isl (tx_encode sample_coinbase)"
  by code_simp+

lemma sample_size: "check_transaction_size sample_coinbase = Inr ()"
  by code_simp

lemma sample_coinbase_sane: "transaction_sane sha3 sample_coinbase \<and> exclusive_hashes_ok (tx_outputs sample_coinbase)"
  using sample_size
  by (simp add: transaction_sane_def counts_of inputs_sane_def has_sane_covenants_def sane_coinbase_covenant_def is_coinbase_def
      exclusive_hashes_ok_def kind_is_exclusive_def)
    (simp add: sample_coinbase_def covenant_default_def address_ok_def max_money_def coinbase_witness_size_def
      max_coinbase_witness_size_def saturating_add_usize_def usize_max_def compact_size_len_def kind_is_exclusive_def)

lemma sample_roots:
  "block_merkle_root mining_hashes [sample_coinbase] = Inr (replicate 32 1)"
  "block_witness_root mining_hashes [sample_coinbase] = Inr (replicate 32 1)"
proof -
  obtain bs where "tx_base_encode sample_coinbase = Inr bs" using sample_encodings(3) by (cases "tx_base_encode sample_coinbase") auto
  then show "block_merkle_root mining_hashes [sample_coinbase] = Inr (replicate 32 1)"
    "block_witness_root mining_hashes [sample_coinbase] = Inr (replicate 32 1)"
    by (simp_all add: block_merkle_root_def block_witness_root_def transaction_hash_def witness_hash_def sample_encodings(2)
        merkle_root_def merkle_loop.simps mining_hashes_def)
qed

lemma sample_body:
  assumes "blk_transactions b = [sample_coinbase]" "h_merkle_root (blk_header b) = replicate 32 1"
    "h_witness_root (blk_header b) = replicate 32 1"
  shows "is_ok (validate_block_body mining_hashes b)"
proof -
  obtain m where "validate_block_limits mining_hashes b = Inr m" "bm_merkle_root m = replicate 32 1"
    "bm_witness_root m = replicate 32 1"
    by (simp add: validate_block_limits_def block_metrics_def metrics_step_def sample_encodings sample_roots assms(1)
        checked_add_usize_def checked_mul_usize_def usize_max_def compact_size_len_def block_limits)
  then have "validate_block_body mining_hashes b = Inr m"
    using sample_coinbase_sane assms
    by (simp add: validate_block_body_iff names_exclusive_def)
      (simp add: sample_coinbase_def is_coinbase_def counts_of covenant_default_def)
  then show ?thesis by (simp add: is_ok_iff)
qed

definition sample_block :: block where
  "sample_block = \<lparr>blk_header = header_default\<lparr>h_merkle_root := replicate 32 1, h_witness_root := replicate 32 1\<rparr>,
     blk_transactions = [sample_coinbase]\<rparr>"

theorem block_body_exact_witness:
  "is_ok (validate_block_body mining_hashes sample_block) \<and> names_exclusive (blk_transactions sample_block)"
proof -
  have ok: "is_ok (validate_block_body mining_hashes sample_block)" by (rule sample_body) (simp_all add: sample_block_def)
  then obtain m where "validate_block_body mining_hashes sample_block = Inr m" by (meson is_ok_iff)
  with block_body_exact [of mining_hashes sample_block m] ok show ?thesis by blast
qed

end
