(* ===== verification/MiningProofs.thy ===== *)
theory MiningProofs
  imports MiningJobs BlockBody
begin

text \<open>
  Properties of mining: a solution that is admitted is a valid block on the tip of the snapshot, and the set of
  prepared jobs keeps its bounds under every sequence of operations.
\<close>

section \<open>Solutions\<close>

lemma job_prepare_ok:
  assumes "job_prepare H s reserved_root version minimum_time msk txs = Inr j"
  shows "snapshot_validate s = Inr () \<and> mt_parent_hash (pj_header j) = ms_tip_hash s \<and> mt_tree_root (pj_header j) = ms_next_tree_root s \<and>
    mt_bits (pj_header j) = ms_expected_bits s \<and> ms_parent_median_time s < minimum_time \<and> mt_minimum_time (pj_header j) = minimum_time \<and>
    mt_mask_hash (pj_header j) = job_mask_hash H (ms_tip_hash s) msk \<and>
    block_merkle_root H txs = Inr (mt_merkle_root (pj_header j)) \<and> block_witness_root H txs = Inr (mt_witness_root (pj_header j)) \<and>
    pj_transactions j = txs \<and> txs \<noteq> [] \<and> next_height s = Inr (tx_locktime (txs ! 0)) \<and>
    pj_snapshot_generation j = ms_generation s \<and> pj_network j = ms_network s \<and>
    pj_maximum_target_time j = maximum_target_time_for s (pj_header j) \<and>
    (case pj_maximum_target_time j of Some maximum \<Rightarrow> minimum_time \<le> maximum | None \<Rightarrow> True) \<and>
    job_id_of H s (pj_header j) txs = Inr (pj_job_id j) \<and>
    is_ok (validate_block_body H (job_block (pj_header j) 0 minimum_time (h_extra_nonce header_default) (h_mask header_default) txs))"
  using assms
  by (auto simp: job_prepare_def template_from_transactions_def job_new_def bind_res_eq_Inr Let_def is_ok_iff
      split: if_splits option.splits)

text \<open>The body of a job does not depend on the header fields a miner chooses.\<close>

lemma validate_block_body_header:
  assumes "blk_transactions b = blk_transactions b'" "h_merkle_root (blk_header b) = h_merkle_root (blk_header b')"
    "h_witness_root (blk_header b) = h_witness_root (blk_header b')"
  shows "validate_block_body H b = validate_block_body H b'"
  unfolding validate_block_body_def validate_block_limits_def assms by (rule refl)

lemma target_proof_exists:
  assumes "target_is_valid (from_compact bits)"
  shows "\<exists>w. target_proof (from_compact bits) = Some w"
proof -
  let ?t = "from_compact bits"
  have len: "length (dt_bytes ?t) = 32" by (simp add: from_compact_value)
  then have "be_nat (dt_bytes ?t) \<noteq> 0" using assms target_is_valid_nat by blast
  then have "2 ^ 256 div (be_nat (dt_bytes ?t) + 1) < (2 ^ 256 :: nat)" by (intro div_less_dividend) simp_all
  then show ?thesis using target_proof_work [OF len] assms work_nat_of_nat by blast
qed

definition solution_context :: "mining_snapshot \<Rightarrow> height \<Rightarrow> block_time \<Rightarrow> header_validation_context" where
  "solution_context s h now = \<lparr>hvc_height = h, hvc_previous_block = ms_tip_hash s, hvc_median_time = ms_parent_median_time s,
     hvc_now = now, hvc_expected_bits = ms_expected_bits s\<rparr>"

lemma admit_solution_ok:
  assumes "admit_solution H j s nonce time extra_nonce msk = Inr cand"
  shows "validate_for_snapshot H j s = Inr () \<and> is_ok (validate_block_body H (sc_block cand)) \<and>
    verify_pow H (blk_header (sc_block cand)) \<and> mt_minimum_time (pj_header j) \<le> time \<and>
    sc_block cand = job_block (pj_header j) nonce time extra_nonce msk (pj_transactions j) \<and>
    sc_job_id cand = pj_job_id j \<and> sc_parent_height cand = ms_tip_height s"
  using assms
  by (auto simp: admit_solution_def reconstruct_def Let_def bind_res_eq_Inr map_err_eq_Inr is_ok_iff split: if_splits)

text \<open>
  C20: an admitted solution of a prepared job is a valid block on the tip of the snapshot: its body passes block validation, it
  carries exactly the prepared transactions, its coinbase commits to the next height, and its proof of work is met. Its
  header passes header validation for the next height, the tip as parent, the median time and the expected bits of the
  snapshot exactly at the clocks that are not more than two hours behind the time chosen by the miner: admission does not
  look at a clock, so this is the only check that can still fail.
\<close>

theorem solved_block_is_valid:
  assumes "job_prepare H s reserved_root version minimum_time msk0 txs = Inr j"
    and "admit_solution H j s nonce time extra_nonce msk = Inr cand"
  shows "\<exists>m h. validate_block_body H (sc_block cand) = Inr m \<and> blk_transactions (sc_block cand) = txs \<and>
    next_height s = Inr h \<and> tx_locktime (hd txs) = h \<and> unat h = unat (ms_tip_height s) + 1 \<and>
    verify_pow H (blk_header (sc_block cand)) \<and>
    ((\<exists>w. validate_header H (parameters (ms_network s)) (blk_header (sc_block cand)) (solution_context s h now) = Inr w) \<longleftrightarrow>
      time \<le> saturating_add now 7200)"
proof -
  note p = job_prepare_ok [OF assms(1)]
  note a = admit_solution_ok [OF assms(2)]
  let ?h = "blk_header (sc_block cand)"
  have bits: "h_bits ?h = ms_expected_bits s" "h_previous_block ?h = ms_tip_hash s" "h_time ?h = time"
    using a p by (simp_all add: job_block_def)
  have pow: "target_is_met_by (from_compact (h_bits ?h)) (pow_hash H ?h)" using a unfolding verify_pow_def by blast
  then obtain w where w: "target_proof (from_compact (h_bits ?h)) = Some w"
    using target_proof_exists by (auto simp: target_is_met_by_def)
  have nh: "next_height s = Inr (tx_locktime (txs ! 0))" using p by simp
  then have height: "unat (tx_locktime (txs ! 0)) = unat (ms_tip_height s) + 1"
    using unat_word_ariths(1) [of "ms_tip_height s" 1]
    by (auto simp: next_height_def ok_or_eq_Inr checked_add_def split: if_splits)
  then have nz: "tx_locktime (txs ! 0) \<noteq> 0" by (metis add_is_0 one_neq_zero unat_0)
  have "ms_parent_median_time s < time" using a p by (auto intro: less_le_trans)
  then have "(\<exists>w. validate_header H (parameters (ms_network s)) ?h (solution_context s (tx_locktime (txs ! 0)) now) = Inr w) \<longleftrightarrow>
      time \<le> saturating_add now 7200"
    using bits pow w nz by (auto simp: validate_header_def solution_context_def Let_def not_le not_less)
  moreover obtain m where "validate_block_body H (sc_block cand) = Inr m" using a by (auto simp: is_ok_iff)
  moreover have "blk_transactions (sc_block cand) = txs" using a p by (simp add: job_block_def)
  ultimately show ?thesis using nh height a p by (auto simp: hd_conv_nth)
qed

section \<open>The set of prepared jobs\<close>

text \<open>The steps of the set: every operation, successful or not, with the set it leaves.\<close>

inductive jobs_step :: "pow_hashes \<Rightarrow> job_set \<Rightarrow> job_set \<Rightarrow> bool" for H where
  step_insert: "jobs_insert j jobs = (r, jobs') \<Longrightarrow> jobs_step H jobs jobs'"
| step_activate: "jobs_activate H job_id s jobs = (r, jobs') \<Longrightarrow> jobs_step H jobs jobs'"
| step_retain: "jobs_step H jobs (jobs_retain_generation generation jobs)"
| step_clear: "jobs_step H jobs (jobs_clear jobs)"

inductive jobs_reachable :: "pow_hashes \<Rightarrow> job_set \<Rightarrow> bool" for H where
  reach_empty: "jobs_reachable H []"
| reach_step: "jobs_reachable H jobs \<Longrightarrow> jobs_step H jobs jobs' \<Longrightarrow> jobs_reachable H jobs'"

definition jobs_ok :: "job_set \<Rightarrow> bool" where
  "jobs_ok jobs \<longleftrightarrow> distinct (map fst jobs) \<and> length jobs \<le> max_prepared_jobs \<and> (\<forall>(k, j) \<in> set jobs. k = pj_job_id j)"

lemma jobs_ok_filter: "jobs_ok jobs \<Longrightarrow> jobs_ok (filter P jobs)"
  by (auto simp: jobs_ok_def distinct_map_filter intro: order_trans [OF length_filter_le])

lemma jobs_step_ok: "jobs_step H jobs jobs' \<Longrightarrow> jobs_ok jobs \<Longrightarrow> jobs_ok jobs'"
proof (induction rule: jobs_step.induct)
  case (step_insert j jobs r jobs')
  then show ?case
    by (auto simp: jobs_insert_def jobs_ok_def map_of_eq_None_iff image_iff split: option.splits if_splits)
next
  case (step_activate job_id s jobs r jobs')
  then show ?case by (auto simp: jobs_activate_def intro: jobs_ok_filter split: option.splits sum.splits)
next
  case (step_retain jobs generation)
  then show ?case by (simp add: jobs_retain_generation_def jobs_ok_filter)
next
  case (step_clear jobs)
  then show ?case by (simp add: jobs_clear_def jobs_ok_def)
qed

lemma jobs_reachable_ok: "jobs_reachable H jobs \<Longrightarrow> jobs_ok jobs"
  by (induction rule: jobs_reachable.induct) (auto simp: jobs_step_ok, simp add: jobs_ok_def)

lemma map_of_filter_distinct:
  assumes "distinct (map fst kvs)"
  shows "map_of (filter (\<lambda>(_, v). P v) kvs) k = (case map_of kvs k of Some v \<Rightarrow> if P v then Some v else None | None \<Rightarrow> None)"
  using assms
proof (induction kvs)
  case (Cons kv kvs)
  then have "fst kv \<notin> fst ` set kvs" by simp
  then have "map_of kvs (fst kv) = None" by (simp add: map_of_eq_None_iff)
  with Cons show ?case by (cases kv) (auto split: option.splits)
qed simp

text \<open>
  In every reachable set of prepared jobs the identifiers are distinct and are those of their jobs, at most 16 jobs are held,
  and no step replaces the job stored under an identifier by another one.  Activation returns the stored job, which is then valid for
  the snapshot, keeps it, and leaves only jobs of the snapshot's generation and network.
\<close>

theorem job_set_invariant:
  assumes "jobs_reachable H jobs"
  shows "jobs_ok jobs \<and>
    (\<forall>jobs' k j. jobs_step H jobs jobs' \<and> map_of jobs k = Some j \<longrightarrow> map_of jobs' k = Some j \<or> map_of jobs' k = None) \<and>
    (\<forall>k s j jobs'. jobs_activate H k s jobs = (Inr j, jobs') \<longrightarrow>
      map_of jobs k = Some j \<and> map_of jobs' k = Some j \<and> validate_for_snapshot H j s = Inr () \<and>
      (\<forall>(_, c) \<in> set jobs'. pj_snapshot_generation c = ms_generation s \<and> pj_network c = ms_network s))"
proof (intro conjI allI impI)
  show ok: "jobs_ok jobs" by (rule jobs_reachable_ok [OF assms])
  then have dist: "distinct (map fst jobs)" by (simp add: jobs_ok_def)
  fix jobs' k j
  assume "jobs_step H jobs jobs' \<and> map_of jobs k = Some j"
  then have step: "jobs_step H jobs jobs'" and m: "map_of jobs k = Some j" by auto
  from step show "map_of jobs' k = Some j \<or> map_of jobs' k = None"
  proof cases
    case (step_insert j' r)
    then show ?thesis using m by (auto simp: jobs_insert_def split: option.splits if_splits)
  next
    case (step_activate job_id s r)
    then show ?thesis using m map_of_filter_distinct [OF dist]
      by (auto simp: jobs_activate_def split: option.splits sum.splits if_splits)
  qed (use m map_of_filter_distinct [OF dist] in \<open>auto simp: jobs_retain_generation_def jobs_clear_def\<close>)
next
  fix k s j jobs'
  assume act: "jobs_activate H k s jobs = (Inr j, jobs')"
  then have j: "map_of jobs k = Some j" "validate_for_snapshot H j s = Inr ()"
    "jobs' = filter (\<lambda>(_, candidate). pj_snapshot_generation candidate = ms_generation s \<and> pj_network candidate = ms_network s) jobs"
    by (auto simp: jobs_activate_def split: option.splits sum.splits)
  have "distinct (map fst jobs)" using jobs_reachable_ok [OF assms] by (simp add: jobs_ok_def)
  moreover have "pj_snapshot_generation j = ms_generation s \<and> pj_network j = ms_network s"
    using j(2) by (auto simp: validate_for_snapshot_def bind_res_eq_Inr Let_def split: if_splits)
  ultimately have "map_of jobs' k = Some j" using j(1) map_of_filter_distinct [of jobs] unfolding j(3) by simp
  then show "map_of jobs k = Some j" "map_of jobs' k = Some j" "validate_for_snapshot H j s = Inr ()"
    "\<forall>(_, c) \<in> set jobs'. pj_snapshot_generation c = ms_generation s \<and> pj_network c = ms_network s"
    using j by auto
qed

section \<open>Examples\<close>

definition sample_snapshot :: mining_snapshot where
  "sample_snapshot = \<lparr>ms_network = Regtest, ms_generation = 7, ms_tip_hash = replicate 32 2, ms_tip_height = 0, ms_tip_time = 50,
     ms_parent_median_time = 40, ms_next_tree_root = replicate 32 3, ms_expected_bits = 0x207fffff\<rparr>"

definition sample_template :: header_template where
  "sample_template = \<lparr>mt_parent_hash = replicate 32 2, mt_tree_root = replicate 32 3, mt_reserved_root = replicate 32 0,
     mt_witness_root = replicate 32 1, mt_merkle_root = replicate 32 1, mt_version = 0, mt_bits = 0x207fffff,
     mt_minimum_time = 45, mt_mask_hash = replicate 32 1\<rparr>"

definition sample_job :: prepared_job where
  "sample_job = \<lparr>pj_job_id = replicate 32 1, pj_snapshot_generation = 7, pj_network = Regtest, pj_header = sample_template,
     pj_maximum_target_time = None, pj_transactions = [sample_coinbase]\<rparr>"

lemma sample_job_id: "job_id_of mining_hashes sample_snapshot t [sample_coinbase] = Inr (replicate 32 1)"
proof -
  obtain bs where "tx_encode sample_coinbase = Inr bs" using sample_encodings(4) by (cases "tx_encode sample_coinbase") auto
  then show ?thesis by (simp add: job_id_of_def put_job_transaction_def mining_hashes_def blake2b_256_def)
qed

lemma sample_prepare:
  "job_prepare mining_hashes sample_snapshot (replicate 32 0) 0 45 (replicate 32 0) [sample_coinbase] = Inr sample_job"
proof -
  have t: "template_from_transactions mining_hashes sample_snapshot (replicate 32 0) 0 45 (replicate 32 0) [sample_coinbase] =
      Inr sample_template"
    by (simp add: template_from_transactions_def snapshot_validate_def sample_roots sample_template_def)
      (simp add: sample_snapshot_def job_mask_hash_def blake2b_256_def mining_hashes_def)
  have "is_ok (validate_block_body mining_hashes (job_block sample_template 0 45 e k [sample_coinbase]))" for e k
    by (rule sample_body) (simp_all add: job_block_def sample_template_def)
  then obtain m where "validate_block_body mining_hashes (job_block sample_template 0 45 (h_extra_nonce header_default)
      (h_mask header_default) [sample_coinbase]) = Inr m" by (meson is_ok_iff)
  moreover have "maximum_target_time_for sample_snapshot sample_template = None"
    by (simp add: maximum_target_time_for_def sample_snapshot_def sample_template_def Let_def)
  moreover have "next_height sample_snapshot = Inr 1" by (simp add: next_height_def sample_snapshot_def checked_add_def)
  moreover have "tx_locktime sample_coinbase = 1" by (simp add: sample_coinbase_def)
  moreover have "mt_minimum_time sample_template = 45" by (simp add: sample_template_def)
  moreover have "snapshot_validate sample_snapshot = Inr ()" by (simp add: snapshot_validate_def sample_snapshot_def)
  ultimately have "job_new mining_hashes sample_snapshot sample_template [sample_coinbase] = Inr sample_job"
    by (simp add: job_new_def sample_job_id) (simp add: sample_snapshot_def sample_template_def sample_job_def)
  then show ?thesis by (simp add: job_prepare_def t)
qed

lemma sample_admit:
  "\<exists>cand. admit_solution mining_hashes sample_job sample_snapshot 0 45 (replicate 24 0) (replicate 32 0) = Inr cand"
proof -
  let ?b = "job_block sample_template 0 45 (replicate 24 0) (replicate 32 0) [sample_coinbase]"
  have "validate_for_snapshot mining_hashes sample_job sample_snapshot = Inr ()"
    by (simp add: validate_for_snapshot_def snapshot_validate_def sample_job_def sample_job_id Let_def)
      (simp add: sample_snapshot_def sample_template_def maximum_target_time_for_def Let_def)
  moreover have "is_ok (validate_block_body mining_hashes ?b)"
    by (rule sample_body) (simp_all add: job_block_def sample_template_def)
  then obtain m where "validate_block_body mining_hashes ?b = Inr m" by (meson is_ok_iff)
  then have "reconstruct mining_hashes sample_job 0 45 (replicate 24 0) (replicate 32 0) = Inr ?b"
    by (simp add: reconstruct_def sample_job_def Let_def)
      (simp add: sample_template_def job_mask_hash_def mask_hash_def blake2b_256_def mining_hashes_def)
  moreover have "verify_pow mining_hashes (blk_header ?b)"
    by (simp add: verify_pow_def job_block_def sample_template_def) code_simp
  ultimately show ?thesis by (simp add: admit_solution_def)
qed

theorem solved_block_is_valid_witness:
  "\<exists>cand w. admit_solution mining_hashes sample_job sample_snapshot 0 45 (replicate 24 0) (replicate 32 0) = Inr cand \<and>
     validate_header mining_hashes (parameters Regtest) (blk_header (sc_block cand)) (solution_context sample_snapshot 1 45) = Inr w"
proof -
  obtain cand where cand: "admit_solution mining_hashes sample_job sample_snapshot 0 45 (replicate 24 0) (replicate 32 0) = Inr cand"
    using sample_admit by blast
  have "(45 :: u64) \<le> saturating_add 45 7200" by (simp add: saturating_add_def)
  with solved_block_is_valid [OF sample_prepare cand, of 45] obtain h w where
    "next_height sample_snapshot = Inr h"
    "validate_header mining_hashes (parameters (ms_network sample_snapshot)) (blk_header (sc_block cand))
      (solution_context sample_snapshot h 45) = Inr w" by blast
  moreover have "next_height sample_snapshot = Inr 1" "ms_network sample_snapshot = Regtest"
    by (simp_all add: next_height_def sample_snapshot_def checked_add_def)
  ultimately show ?thesis using cand by auto
qed

theorem job_set_invariant_witness:
  "jobs_ok [(replicate 32 1, sample_job)] \<and>
   snd (jobs_activate mining_hashes (replicate 32 1) sample_snapshot [(replicate 32 1, sample_job)]) = [(replicate 32 1, sample_job)]"
proof -
  have "jobs_insert sample_job [] = (Inr sample_job, [(replicate 32 1, sample_job)])"
    by (simp add: jobs_insert_def max_prepared_jobs_def sample_job_def)
  then have "jobs_reachable mining_hashes [(replicate 32 1, sample_job)]" by (meson reach_empty reach_step step_insert)
  from job_set_invariant [OF this] have "jobs_ok [(replicate 32 1, sample_job)]" by blast
  moreover have "validate_for_snapshot mining_hashes sample_job sample_snapshot = Inr ()"
    using sample_admit by (auto simp: admit_solution_def bind_res_eq_Inr)
  then have "snd (jobs_activate mining_hashes (replicate 32 1) sample_snapshot [(replicate 32 1, sample_job)]) =
      [(replicate 32 1, sample_job)]"
    by (simp add: jobs_activate_def) (simp add: sample_job_def sample_snapshot_def)
  ultimately show ?thesis by blast
qed

end
