(* ===== verification/Wire.thy ===== *)
theory Wire
  imports Blocks Urkel
begin

text \<open>
  Model of the first half of \<^verbatim>\<open>crates/hns-p2p-wire/src/lib.rs\<close>: limits, errors, packet and inventory types,
  network addresses, version, inventory and reject packets, bounded counts, and the SipHash of compact blocks.
  A Rust string is the list of its UTF-8 bytes. An error that carries the text of a transaction error carries
  the error itself. A socket address is its IP address and port.
\<close>

section \<open>Limits and errors\<close>

definition frame_header_size :: nat where "frame_header_size = 9"
definition max_frame_payload_size :: nat where "max_frame_payload_size = 8000000"
definition max_inventory_items :: nat where "max_inventory_items = 50000"
definition max_locator_hashes :: nat where "max_locator_hashes = max_inventory_items"
definition max_headers :: nat where "max_headers = 2000"
definition max_addr_items :: nat where "max_addr_items = 1000"
definition max_user_agent_size :: nat where "max_user_agent_size = 255"
definition max_reject_reason_size :: nat where "max_reject_reason_size = 255"
definition max_compact_block_transactions :: nat where "max_compact_block_transactions = 16662"
definition net_address_size :: nat where "net_address_size = 88"
definition max_stream_buffer_size :: nat where
  "max_stream_buffer_size = 2 * (frame_header_size + max_frame_payload_size)"

lemmas wire_limits = frame_header_size_def max_frame_payload_size_def max_inventory_items_def max_locator_hashes_def
  max_headers_def max_addr_items_def max_user_agent_size_def max_reject_reason_size_def
  max_compact_block_transactions_def net_address_size_def max_stream_buffer_size_def

datatype compact_block_error =
    CbMalformed string
  | ShortIdCollision u64
  | ResponseHashMismatch
  | ResponseCountMismatch nat nat
  | CbIncomplete
  | CbInvalidTransaction
  | CbInvalidBlockBody

datatype wire_error =
    WireDecode decode_error
  | NetworkMagicMismatch u32 u32
  | PayloadTooLarge nat nat
  | CountTooLarge string nat nat
  | IncompleteFrame nat
  | InvalidPacket string string
  | WireInvalidTransaction transaction_error
  | WireUrkel urkel_error
  | WireCompactBlock compact_block_error

text \<open>Decimal text of a number, as formatted into an error.\<close>

fun decimal :: "nat \<Rightarrow> string" where
  "decimal n = (if n < 10 then [char_of (48 + n)] else decimal (n div 10) @ [char_of (48 + n mod 10)])"

declare decimal.simps [simp del]

datatype network_magic = MagicMainnet | MagicTestnet | MagicRegtest | MagicSimnet

fun magic_as_u32 :: "network_magic \<Rightarrow> u32" where
  "magic_as_u32 MagicMainnet = 0x5b6ef2d3"
| "magic_as_u32 MagicTestnet = 0xb1520dd2"
| "magic_as_u32 MagicRegtest = 0xae3895cf"
| "magic_as_u32 MagicSimnet = 0x0e648edc"

section \<open>Packet and inventory types\<close>

datatype (plugins only: size) packet_type =
    PtVersion | PtVerack | PtPing | PtPong | PtGetAddr | PtAddr | PtInv | PtGetData | PtNotFound | PtGetBlocks
  | PtGetHeaders | PtHeaders | PtSendHeaders | PtBlock | PtTx | PtReject | PtMempool | PtFilterLoad | PtFilterAdd
  | PtFilterClear | PtMerkleBlock | PtFeeFilter | PtSendCmpct | PtCmpctBlock | PtGetBlockTxn | PtBlockTxn
  | PtGetProof | PtProof | PtClaim | PtAirdrop | PtUnknown byte

fun packet_type_as_u8 :: "packet_type \<Rightarrow> byte" where
  "packet_type_as_u8 PtVersion = 0"
| "packet_type_as_u8 PtVerack = 1"
| "packet_type_as_u8 PtPing = 2"
| "packet_type_as_u8 PtPong = 3"
| "packet_type_as_u8 PtGetAddr = 4"
| "packet_type_as_u8 PtAddr = 5"
| "packet_type_as_u8 PtInv = 6"
| "packet_type_as_u8 PtGetData = 7"
| "packet_type_as_u8 PtNotFound = 8"
| "packet_type_as_u8 PtGetBlocks = 9"
| "packet_type_as_u8 PtGetHeaders = 10"
| "packet_type_as_u8 PtHeaders = 11"
| "packet_type_as_u8 PtSendHeaders = 12"
| "packet_type_as_u8 PtBlock = 13"
| "packet_type_as_u8 PtTx = 14"
| "packet_type_as_u8 PtReject = 15"
| "packet_type_as_u8 PtMempool = 16"
| "packet_type_as_u8 PtFilterLoad = 17"
| "packet_type_as_u8 PtFilterAdd = 18"
| "packet_type_as_u8 PtFilterClear = 19"
| "packet_type_as_u8 PtMerkleBlock = 20"
| "packet_type_as_u8 PtFeeFilter = 21"
| "packet_type_as_u8 PtSendCmpct = 22"
| "packet_type_as_u8 PtCmpctBlock = 23"
| "packet_type_as_u8 PtGetBlockTxn = 24"
| "packet_type_as_u8 PtBlockTxn = 25"
| "packet_type_as_u8 PtGetProof = 26"
| "packet_type_as_u8 PtProof = 27"
| "packet_type_as_u8 PtClaim = 28"
| "packet_type_as_u8 PtAirdrop = 29"
| "packet_type_as_u8 (PtUnknown v) = v"

definition known_packet_types :: "packet_type list" where
  "known_packet_types =
     [PtVersion, PtVerack, PtPing, PtPong, PtGetAddr, PtAddr, PtInv, PtGetData, PtNotFound, PtGetBlocks,
      PtGetHeaders, PtHeaders, PtSendHeaders, PtBlock, PtTx, PtReject, PtMempool, PtFilterLoad, PtFilterAdd,
      PtFilterClear, PtMerkleBlock, PtFeeFilter, PtSendCmpct, PtCmpctBlock, PtGetBlockTxn, PtBlockTxn,
      PtGetProof, PtProof, PtClaim, PtAirdrop]"

text \<open>The match of \<^verbatim>\<open>from_u8\<close> lists the known types in the order of their bytes, from zero.\<close>

definition packet_type_from_u8 :: "byte \<Rightarrow> packet_type" where
  "packet_type_from_u8 v =
     (case get known_packet_types (unat v) of Some t \<Rightarrow> t | None \<Rightarrow> PtUnknown v)"

fun carries_reject_hash :: "packet_type \<Rightarrow> bool" where
  "carries_reject_hash PtBlock = True"
| "carries_reject_hash PtTx = True"
| "carries_reject_hash PtClaim = True"
| "carries_reject_hash PtAirdrop = True"
| "carries_reject_hash _ = False"

datatype inventory_kind =
    InvTransaction | InvBlock | InvFilteredBlock | InvCompactBlock | InvClaim | InvAirdrop | InvUnknown u32

fun inventory_kind_as_u32 :: "inventory_kind \<Rightarrow> u32" where
  "inventory_kind_as_u32 InvTransaction = 1"
| "inventory_kind_as_u32 InvBlock = 2"
| "inventory_kind_as_u32 InvFilteredBlock = 3"
| "inventory_kind_as_u32 InvCompactBlock = 4"
| "inventory_kind_as_u32 InvClaim = 5"
| "inventory_kind_as_u32 InvAirdrop = 6"
| "inventory_kind_as_u32 (InvUnknown v) = v"

definition inventory_kind_from_u32 :: "u32 \<Rightarrow> inventory_kind" where
  "inventory_kind_from_u32 v =
     (if v = 1 then InvTransaction else if v = 2 then InvBlock else if v = 3 then InvFilteredBlock
      else if v = 4 then InvCompactBlock else if v = 5 then InvClaim else if v = 6 then InvAirdrop
      else InvUnknown v)"

record inventory =
  inv_kind :: inventory_kind
  inv_hash :: hash32

section \<open>Bounded counts and text\<close>

definition check_count :: "string \<Rightarrow> nat \<Rightarrow> nat \<Rightarrow> wire_error + unit" where
  "check_count ctx actual maximum = (if actual > maximum then Inl (CountTooLarge ctx actual maximum) else Inr ())"

definition check_payload_size :: "nat \<Rightarrow> wire_error + unit" where
  "check_payload_size actual =
     (if actual > max_frame_payload_size then Inl (PayloadTooLarge actual max_frame_payload_size) else Inr ())"

definition check_ascii_u8 :: "string \<Rightarrow> bytes \<Rightarrow> nat \<Rightarrow> wire_error + unit" where
  "check_ascii_u8 ctx val maximum =
     (if length val > maximum then Inl (CountTooLarge ctx (length val) maximum)
      else if \<not> list_all (\<lambda>b. b < 0x80) val then Inl (InvalidPacket ctx ''outbound text must be ASCII'')
      else Inr ())"

definition decode_hsd_ascii :: "bytes \<Rightarrow> bytes" where
  "decode_hsd_ascii input = map (\<lambda>b. b AND 0x7f) input"

definition read_count :: "string \<Rightarrow> nat \<Rightarrow> (wire_error, nat) reader" where
  "read_count ctx maximum =
     dbind (dlift WireDecode read_compact_size) (\<lambda>v.
     dbind (dcheck (check_count ctx (unat v) maximum)) (\<lambda>_. dreturn (unat v)))"

definition read_bounded_index :: "string \<Rightarrow> (wire_error, nat) reader" where
  "read_bounded_index ctx =
     dbind (dlift WireDecode read_compact_size) (\<lambda>v.
     dbind (dcheck (check_count ctx (unat v) 0xffff)) (\<lambda>_. dreturn (unat v)))"

definition take_remaining :: "(wire_error, bytes) reader" where
  "take_remaining d = dlift WireDecode (read_slice (decoder_remaining d)) d"

section \<open>Network addresses\<close>

datatype ip_addr = IpV4 bytes | IpV6 bytes

record net_address =
  na_time :: u64
  na_services :: u64
  na_ip :: bytes
  na_port :: u16
  na_key :: bytes

definition to_ipv6_mapped :: "bytes \<Rightarrow> bytes" where
  "to_ipv6_mapped ip = replicate 10 0 @ [0xff, 0xff] @ ip"

definition to_ipv4_mapped :: "bytes \<Rightarrow> bytes option" where
  "to_ipv4_mapped ip = (if take 12 ip = replicate 10 0 @ [0xff, 0xff] then Some (drop 12 ip) else None)"

definition from_socket_addr :: "ip_addr \<Rightarrow> u16 \<Rightarrow> u64 \<Rightarrow> u64 \<Rightarrow> net_address" where
  "from_socket_addr address port time services =
     \<lparr>na_time = time, na_services = services,
      na_ip = (case address of IpV4 ip \<Rightarrow> to_ipv6_mapped ip | IpV6 ip \<Rightarrow> ip),
      na_port = port, na_key = replicate 33 0\<rparr>"

definition socket_addr :: "net_address \<Rightarrow> ip_addr \<times> u16" where
  "socket_addr a = (case to_ipv4_mapped (na_ip a) of Some ip \<Rightarrow> IpV4 ip | None \<Rightarrow> IpV6 (na_ip a), na_port a)"

definition default_address :: net_address where
  "default_address = from_socket_addr (IpV4 [0, 0, 0, 0]) 0 0 0"

definition put_net_address :: "net_address \<Rightarrow> encoder \<Rightarrow> encoder" where
  "put_net_address a = put_seq
     [put_u64_le (na_time a), put_u32_le (ucast (na_services a)), put_u32_le 0, put_u8 0, put_bytes (na_ip a),
      put_bytes (replicate 20 0), put_u16_le (na_port a), put_bytes (na_key a)]"

definition read_net_address :: "(wire_error, net_address) reader" where
  "read_net_address =
     dbind (dlift WireDecode read_u64_le) (\<lambda>time.
     dbind (dlift WireDecode read_u32_le) (\<lambda>services.
     dbind (dlift WireDecode read_u32_le) (\<lambda>_.
     dbind (dlift WireDecode read_u8) (\<lambda>host_kind.
     dbind (dlift WireDecode (read_array 36)) (\<lambda>host.
     dbind (dlift WireDecode read_u16_le) (\<lambda>port.
     dbind (dlift WireDecode (read_array 33)) (\<lambda>key.
       dreturn \<lparr>na_time = time, na_services = ucast services,
         na_ip = (if host_kind = 0 then take 16 host else replicate 16 0), na_port = port, na_key = key\<rparr>)))))))"

definition net_address_encode :: "net_address \<Rightarrow> bytes" where
  "net_address_encode a = into_bytes (put_net_address a encoder_new)"

definition net_address_decode :: "bytes \<Rightarrow> wire_error + net_address" where
  "net_address_decode input =
     (if length input \<noteq> net_address_size
      then Inl (InvalidPacket ''network address'' ''the encoding must be exactly 88 bytes'')
      else
        bind_res (read_net_address (decoder_new input)) (\<lambda>(a, d).
        bind_res (map_err WireDecode (decoder_finish d)) (\<lambda>_. Inr a)))"

section \<open>Version, inventory, locator, reject and proof packets\<close>

record version_packet =
  vp_version :: u32
  vp_services :: u64
  vp_time :: u64
  vp_remote :: net_address
  vp_nonce :: bytes
  vp_agent :: bytes
  vp_height :: u32
  vp_no_relay :: bool

record locator_packet =
  lp_locator :: "hash32 list"
  lp_stop :: hash32

record reject_packet =
  rp_message :: packet_type
  rp_code :: byte
  rp_reason :: bytes
  rp_hash :: "hash32 option"

record get_proof_packet =
  gp_root :: hash32
  gp_key :: hash32

record proof_packet =
  pp_root :: hash32
  pp_key :: hash32
  pp_proof :: hsd_urkel_proof

definition proof_packet_verify :: "(bytes \<Rightarrow> bytes) \<Rightarrow> proof_packet \<Rightarrow> urkel_error + bytes option" where
  "proof_packet_verify blake2b p = urkel_verify blake2b (pp_proof p) (pp_root p) (pp_key p)"

definition encode_version :: "version_packet \<Rightarrow> encoder \<Rightarrow> wire_error + encoder" where
  "encode_version p e =
     bind_res (check_ascii_u8 ''version user agent'' (vp_agent p) max_user_agent_size) (\<lambda>_.
     Inr (put_seq
       [put_u32_le (vp_version p), put_u32_le (ucast (vp_services p)), put_u32_le 0, put_u64_le (vp_time p),
        put_net_address (vp_remote p), put_bytes (vp_nonce p), put_u8 (word_of_nat (length (vp_agent p))),
        put_bytes (vp_agent p), put_u32_le (vp_height p), put_u8 (if vp_no_relay p then 1 else 0)] e))"

definition decode_version :: "(wire_error, version_packet) reader" where
  "decode_version =
     dbind (dlift WireDecode read_u32_le) (\<lambda>version.
     dbind (dlift WireDecode read_u32_le) (\<lambda>services.
     dbind (dlift WireDecode read_u32_le) (\<lambda>_.
     dbind (dlift WireDecode read_u64_le) (\<lambda>time.
     dbind read_net_address (\<lambda>remote.
     dbind (dlift WireDecode (read_array 8)) (\<lambda>nonce.
     dbind (dlift WireDecode read_u8) (\<lambda>agent_length.
     dbind (dlift WireDecode (read_slice (unat agent_length))) (\<lambda>agent.
     dbind (dlift WireDecode read_u32_le) (\<lambda>height.
     dbind (dlift WireDecode read_u8) (\<lambda>no_relay.
       dreturn \<lparr>vp_version = version, vp_services = ucast services, vp_time = time, vp_remote = remote, vp_nonce = nonce,
         vp_agent = decode_hsd_ascii agent, vp_height = height, vp_no_relay = (no_relay = 1)\<rparr>))))))))))"

definition put_inventory :: "inventory \<Rightarrow> encoder \<Rightarrow> encoder" where
  "put_inventory i = put_seq [put_u32_le (inventory_kind_as_u32 (inv_kind i)), put_bytes (inv_hash i)]"

definition encode_inventory :: "inventory list \<Rightarrow> encoder \<Rightarrow> wire_error + encoder" where
  "encode_inventory items e =
     bind_res (check_count ''inventory'' (length items) max_inventory_items) (\<lambda>_.
     Inr (put_seq (map put_inventory items) (put_compact_size (word_of_nat (length items)) e)))"

definition read_inventory :: "(wire_error, inventory) reader" where
  "read_inventory =
     dbind (dlift WireDecode read_u32_le) (\<lambda>kind.
     dbind (dlift WireDecode (read_array 32)) (\<lambda>hash.
       dreturn \<lparr>inv_kind = inventory_kind_from_u32 kind, inv_hash = hash\<rparr>))"

definition decode_inventory :: "(wire_error, inventory list) reader" where
  "decode_inventory = dbind (read_count ''inventory'' max_inventory_items) (\<lambda>count. read_times count read_inventory)"

definition encode_reject :: "reject_packet \<Rightarrow> encoder \<Rightarrow> wire_error + encoder" where
  "encode_reject p e =
     bind_res (check_ascii_u8 ''reject reason'' (rp_reason p) max_reject_reason_size) (\<lambda>_.
     if carries_reject_hash (rp_message p) \<noteq> (rp_hash p \<noteq> None)
     then Inl (InvalidPacket ''reject packet'' ''hash presence does not match the rejected packet type'')
     else
       let e = put_seq [put_u8 (packet_type_as_u8 (rp_message p)), put_u8 (rp_code p),
             put_u8 (word_of_nat (length (rp_reason p))), put_bytes (rp_reason p)] e in
       Inr (case rp_hash p of Some hash \<Rightarrow> put_bytes hash e | None \<Rightarrow> e))"

definition decode_reject :: "(wire_error, reject_packet) reader" where
  "decode_reject =
     dbind (dlift WireDecode read_u8) (\<lambda>message.
     dbind (dlift WireDecode read_u8) (\<lambda>code.
     dbind (dlift WireDecode read_u8) (\<lambda>reason_length.
     dbind (dlift WireDecode (read_slice (unat reason_length))) (\<lambda>reason.
     dbind (if carries_reject_hash (packet_type_from_u8 message)
            then dbind (dlift WireDecode (read_array 32)) (\<lambda>hash. dreturn (Some hash)) else dreturn None) (\<lambda>hash.
       dreturn \<lparr>rp_message = packet_type_from_u8 message, rp_code = code, rp_reason = decode_hsd_ascii reason,
         rp_hash = hash\<rparr>)))))"

section \<open>SipHash-2-4\<close>

type_synonym sip_state = "u64 \<times> u64 \<times> u64 \<times> u64"

definition siphash_round :: "sip_state \<Rightarrow> sip_state" where
  "siphash_round = (\<lambda>(s0, s1, s2, s3).
     let s0 = s0 + s1; s1 = word_rotl 13 s1; s1 = s1 XOR s0; s0 = word_rotl 32 s0;
         s2 = s2 + s3; s3 = word_rotl 16 s3; s3 = s3 XOR s2;
         s0 = s0 + s3; s3 = word_rotl 21 s3; s3 = s3 XOR s0;
         s2 = s2 + s1; s1 = word_rotl 17 s1; s1 = s1 XOR s2; s2 = word_rotl 32 s2 in
     (s0, s1, s2, s3))"

definition siphash_word :: "u64 \<Rightarrow> sip_state \<Rightarrow> sip_state" where
  "siphash_word message = (\<lambda>(s0, s1, s2, s3).
     case siphash_round (siphash_round (s0, s1, s2, s3 XOR message)) of
       (s0, s1, s2, s3) \<Rightarrow> (s0 XOR message, s1, s2, s3))"

text \<open>Whole eight-byte chunks are absorbed; the remainder is returned with the state.\<close>

fun siphash_chunks :: "bytes \<Rightarrow> sip_state \<Rightarrow> bytes \<times> sip_state" where
  "siphash_chunks input s =
     (if length input < 8 then (input, s)
      else siphash_chunks (drop 8 input) (siphash_word (u64_of_le (take 8 input)) s))"

declare siphash_chunks.simps [simp del]

definition siphash_tail :: "nat \<Rightarrow> bytes \<Rightarrow> u64" where
  "siphash_tail len remainder =
     foldl (\<lambda>tail (offset, b). tail OR push_bit (8 * offset) (ucast b)) (push_bit 56 (word_of_nat len))
       (enumerate 0 remainder)"

definition siphash24 :: "bytes \<Rightarrow> bytes \<Rightarrow> u64" where
  "siphash24 input key =
     (let key0 = u64_of_le (take 8 key); key1 = u64_of_le (drop 8 key);
          (remainder, s) = siphash_chunks input
            (key0 XOR 0x736f6d6570736575, key1 XOR 0x646f72616e646f6d, key0 XOR 0x6c7967656e657261,
             key1 XOR 0x7465646279746573);
          (s0, s1, s2, s3) = siphash_word (siphash_tail (length input) remainder) s;
          (s0, s1, s2, s3) = (siphash_round ^^ 4) (s0, s1, s2 XOR 0xff, s3) in
      s0 XOR s1 XOR s2 XOR s3)"

end
