(* ===== verification/CompactBlock.thy ===== *)
theory CompactBlock
  imports Wire
begin

text \<open>
  Model of the compact blocks of \<^verbatim>\<open>crates/hns-p2p-wire/src/lib.rs\<close>: short identifiers, their layout, the
  reconstruction of a block from a memory pool and from the transactions of a response, and the three wire formats.
  The vectors of a reconstruction hold at most 16662 entries, so additions of slot numbers that saturate in the code
  are plain additions here; hash maps are partial functions and hash sets are lists.
\<close>

section \<open>Data\<close>

record prefilled_transaction =
  pf_index :: nat
  pf_transaction :: transaction

record compact_block =
  cb_header :: header
  cb_key_nonce :: bytes
  cb_short_ids :: "u64 list"
  cb_prefilled :: "prefilled_transaction list"

record compact_block_request =
  cr_block_hash :: hash32
  cr_indexes :: "nat list"

record compact_block_response =
  ct_block_hash :: hash32
  ct_transactions :: "transaction list"

record reconstruction =
  rc_header :: header
  rc_available :: "nat option list"
  rc_transactions :: "transaction option list"
  rc_short_id_indexes :: "u64 \<Rightarrow> nat option"
  rc_filled :: nat

section \<open>Indexes\<close>

definition absolute_prefilled_index :: "nat option \<Rightarrow> nat \<Rightarrow> compact_block_error + nat" where
  "absolute_prefilled_index previous differential =
     (case previous of
        Some p \<Rightarrow>
          (case Option.bind (checked_add_usize p differential) (\<lambda>index. checked_add_usize index 1) of
             Some index \<Rightarrow>
               if index \<le> 0xffff then Inr index else Inl (CbMalformed ''differential index overflow'')
           | None \<Rightarrow> Inl (CbMalformed ''differential index overflow''))
      | None \<Rightarrow>
          if differential \<le> 0xffff then Inr differential
          else Inl (CbMalformed ''first differential index exceeds u16''))"

fun check_absolute_indexes :: "nat option \<Rightarrow> nat list \<Rightarrow> compact_block_error + unit" where
  "check_absolute_indexes previous [] = Inr ()"
| "check_absolute_indexes previous (index # rest) =
     (if index > 0xffff then Inl (CbMalformed (''transaction index '' @ decimal index @ '' exceeds u16''))
      else if (case previous of Some p \<Rightarrow> p \<ge> index | None \<Rightarrow> False)
      then Inl (CbMalformed ''absolute transaction indexes are not strictly increasing'')
      else check_absolute_indexes (Some index) rest)"

definition validate_absolute_indexes :: "nat list \<Rightarrow> compact_block_error + unit" where
  "validate_absolute_indexes indexes =
     (if length indexes > max_compact_block_transactions
      then Inl (CbMalformed (''index count '' @ decimal (length indexes) @ '' exceeds '' @
        decimal max_compact_block_transactions))
      else check_absolute_indexes None indexes)"

section \<open>Short identifiers and layout\<close>

definition siphash_key :: "pow_hashes \<Rightarrow> header \<Rightarrow> bytes \<Rightarrow> bytes" where
  "siphash_key H header key_nonce = take 16 (blake2b_256 H [header_encode header, key_nonce])"

definition short_id_with_key :: "bytes \<Rightarrow> bytes \<Rightarrow> u64" where
  "short_id_with_key hash key = siphash24 hash key AND 0x0000ffffffffffff"

definition compact_hash :: "pow_hashes \<Rightarrow> compact_block \<Rightarrow> hash32" where
  "compact_hash H c = block_hash H (cb_header c)"

definition total_transactions :: "compact_block \<Rightarrow> nat" where
  "total_transactions c = saturating_add_usize (length (cb_short_ids c)) (length (cb_prefilled c))"

definition short_id :: "pow_hashes \<Rightarrow> compact_block \<Rightarrow> bytes \<Rightarrow> u64" where
  "short_id H c hash = short_id_with_key hash (siphash_key H (cb_header c) (cb_key_nonce c))"

fun check_prefilled :: "nat \<Rightarrow> nat option \<Rightarrow> prefilled_transaction list \<Rightarrow> compact_block_error + unit" where
  "check_prefilled tot previous [] = Inr ()"
| "check_prefilled tot previous (p # rest) =
     bind_res (absolute_prefilled_index previous (pf_index p)) (\<lambda>index.
     if index \<ge> tot
     then Inl (CbMalformed (''prefilled index '' @ decimal index @ '' exceeds transaction count '' @ decimal tot))
     else check_prefilled tot (Some index) rest)"

definition validate_layout :: "compact_block \<Rightarrow> compact_block_error + nat" where
  "validate_layout c =
     (let tot = total_transactions c in
      if tot = 0 then Inl (CbMalformed ''empty short-id and prefilled vectors'')
      else if tot > max_compact_block_transactions
      then Inl (CbMalformed (''transaction count '' @ decimal tot @ '' exceeds '' @
        decimal max_compact_block_transactions))
      else if list_ex (\<lambda>s. s > 0x0000ffffffffffff) (cb_short_ids c) then Inl (CbMalformed ''short ID exceeds 48 bits'')
      else bind_res (check_prefilled tot None (cb_prefilled c)) (\<lambda>_. Inr tot))"

definition transaction_short_id :: "pow_hashes \<Rightarrow> bytes \<Rightarrow> transaction \<Rightarrow> compact_block_error + u64" where
  "transaction_short_id H key tx =
     bind_res (map_err (\<lambda>_. CbInvalidTransaction) (witness_hash (ph_blake2b_256 H) tx)) (\<lambda>hash.
     Inr (short_id_with_key hash key))"

definition from_block_with_nonce :: "pow_hashes \<Rightarrow> block \<Rightarrow> bytes \<Rightarrow> compact_block_error + compact_block" where
  "from_block_with_nonce H b key_nonce =
     bind_res (map_err (\<lambda>_. CbInvalidBlockBody) (validate_block_body H b)) (\<lambda>_.
     let key = siphash_key H (blk_header b) key_nonce in
     bind_res (map_res (transaction_short_id H key) (drop 1 (blk_transactions b))) (\<lambda>short_ids.
     let compact = \<lparr>cb_header = blk_header b, cb_key_nonce = key_nonce, cb_short_ids = short_ids,
           cb_prefilled = (case blk_transactions b of [] \<Rightarrow> []
             | coinbase # _ \<Rightarrow> [\<lparr>pf_index = 0, pf_transaction = coinbase\<rparr>])\<rparr> in
     bind_res (validate_layout compact) (\<lambda>_. Inr compact)))"

section \<open>Reconstruction\<close>

definition rc_is_complete :: "reconstruction \<Rightarrow> bool" where
  "rc_is_complete r \<longleftrightarrow> rc_filled r = length (rc_available r)"

definition rc_insert :: "nat \<Rightarrow> transaction \<Rightarrow> reconstruction \<Rightarrow> compact_block_error + reconstruction" where
  "rc_insert index tx r =
     (case get (rc_available r) index of
        None \<Rightarrow> Inl (CbMalformed (''transaction index '' @ decimal index @ '' is out of bounds''))
      | Some (Some _) \<Rightarrow> Inl (CbMalformed (''transaction index '' @ decimal index @ '' is filled more than once''))
      | Some None \<Rightarrow>
          Inr (r\<lparr>rc_available := (rc_available r)[index := Some (length (rc_transactions r))],
                 rc_transactions := rc_transactions r @ [Some tx], rc_filled := rc_filled r + 1\<rparr>))"

fun insert_prefilled ::
  "nat option \<Rightarrow> prefilled_transaction list \<Rightarrow> reconstruction \<Rightarrow> compact_block_error + reconstruction" where
  "insert_prefilled previous [] r = Inr r"
| "insert_prefilled previous (p # rest) r =
     bind_res (absolute_prefilled_index previous (pf_index p)) (\<lambda>index.
     bind_res (rc_insert index (pf_transaction p) r) (\<lambda>r. insert_prefilled (Some index) rest r))"

function skip_filled :: "nat option list \<Rightarrow> nat \<Rightarrow> nat \<Rightarrow> nat" where
  "skip_filled available relative offset =
     (if relative + offset < length available \<and> available ! (relative + offset) \<noteq> None
      then skip_filled available relative (offset + 1) else offset)"
  by pat_completeness auto
termination by (relation "measure (\<lambda>(available, relative, offset). length available - (relative + offset))") auto

declare skip_filled.simps [simp del]

fun index_short_ids ::
  "nat \<Rightarrow> nat \<Rightarrow> nat \<Rightarrow> u64 list \<Rightarrow> reconstruction \<Rightarrow> compact_block_error + reconstruction" where
  "index_short_ids tot relative offset [] r = Inr r"
| "index_short_ids tot relative offset (s # rest) r =
     (let offset = skip_filled (rc_available r) relative offset in
      bind_res (ok_or (checked_add_usize relative offset) (CbMalformed ''short-id index overflow'')) (\<lambda>index.
      if index \<ge> tot then Inl (CbMalformed ''short-id layout exceeds transaction count'')
      else if rc_short_id_indexes r s \<noteq> None then Inl (ShortIdCollision s)
      else index_short_ids tot (relative + 1) offset rest
             (r\<lparr>rc_short_id_indexes := (rc_short_id_indexes r)(s \<mapsto> index)\<rparr>)))"

definition rc_take :: "nat \<Rightarrow> reconstruction \<Rightarrow> reconstruction" where
  "rc_take index r =
     (if rc_available r ! index \<noteq> None
      then r\<lparr>rc_available := (rc_available r)[index := None], rc_filled := rc_filled r - 1\<rparr> else r)"

fun fill_loop ::
  "pow_hashes \<Rightarrow> bytes \<Rightarrow> nat list \<Rightarrow> transaction list \<Rightarrow> reconstruction \<Rightarrow> compact_block_error + reconstruction" where
  "fill_loop H key matched [] r = Inr r"
| "fill_loop H key matched (tx # rest) r =
     bind_res (transaction_short_id H key tx) (\<lambda>s.
     case rc_short_id_indexes r s of
       None \<Rightarrow> fill_loop H key matched rest r
     | Some index \<Rightarrow>
         if index \<in> set matched then fill_loop H key matched rest (rc_take index r)
         else
           bind_res (if rc_available r ! index = None then rc_insert index tx r else Inr r) (\<lambda>r.
           if rc_is_complete r then Inr r else fill_loop H key (index # matched) rest r))"

definition fill_mempool ::
  "pow_hashes \<Rightarrow> compact_block \<Rightarrow> transaction list \<Rightarrow> reconstruction \<Rightarrow> compact_block_error + reconstruction" where
  "fill_mempool H c mempool r =
     (if rc_is_complete r then Inr r else fill_loop H (siphash_key H (cb_header c) (cb_key_nonce c)) [] mempool r)"

definition compact_reconstruct ::
  "pow_hashes \<Rightarrow> compact_block \<Rightarrow> transaction list \<Rightarrow> compact_block_error + reconstruction" where
  "compact_reconstruct H c mempool =
     bind_res (validate_layout c) (\<lambda>tot.
     bind_res (insert_prefilled None (cb_prefilled c)
       \<lparr>rc_header = cb_header c, rc_available = replicate tot None, rc_transactions = [],
        rc_short_id_indexes = (\<lambda>_. None), rc_filled = 0\<rparr>) (\<lambda>r.
     bind_res (index_short_ids tot 0 0 (cb_short_ids c) r) (\<lambda>r. fill_mempool H c mempool r)))"

definition missing_indexes :: "reconstruction \<Rightarrow> nat list" where
  "missing_indexes r = filter (\<lambda>i. rc_available r ! i = None) [0..<length (rc_available r)]"

definition missing_request :: "pow_hashes \<Rightarrow> reconstruction \<Rightarrow> compact_block_request" where
  "missing_request H r = \<lparr>cr_block_hash = block_hash H (rc_header r), cr_indexes = missing_indexes r\<rparr>"

definition fill_missing ::
  "pow_hashes \<Rightarrow> compact_block_response \<Rightarrow> reconstruction \<Rightarrow> compact_block_error + reconstruction" where
  "fill_missing H response r =
     (if ct_block_hash response \<noteq> block_hash H (rc_header r) then Inl ResponseHashMismatch
      else
        let missing = length (filter (\<lambda>item. item = None) (rc_available r)) in
        if length (ct_transactions response) \<noteq> missing
        then Inl (ResponseCountMismatch missing (length (ct_transactions response)))
        else fold_res (\<lambda>(index, tx). rc_insert index tx) (zip (missing_indexes r) (ct_transactions response)) r)"

fun take_resolved :: "nat option list \<Rightarrow> transaction option list \<Rightarrow> compact_block_error + transaction list" where
  "take_resolved [] resolved = Inr []"
| "take_resolved (item # rest) resolved =
     bind_res (ok_or item CbIncomplete) (\<lambda>index.
     bind_res (ok_or (Option.bind (get resolved index) (\<lambda>slot. slot))
       (CbMalformed ''multiple compact-block slots reference one transaction'')) (\<lambda>tx.
     bind_res (take_resolved rest (resolved[index := None])) (\<lambda>txs. Inr (tx # txs))))"

definition into_block :: "pow_hashes \<Rightarrow> reconstruction \<Rightarrow> compact_block_error + block" where
  "into_block H r =
     (if \<not> rc_is_complete r then Inl CbIncomplete
      else
        bind_res (take_resolved (rc_available r) (rc_transactions r)) (\<lambda>txs.
        let b = \<lparr>blk_header = rc_header r, blk_transactions = txs\<rparr> in
        bind_res (map_err (\<lambda>_. CbInvalidBlockBody) (validate_block_body H b)) (\<lambda>_. Inr b)))"

section \<open>Requests and responses\<close>

definition request_from_block :: "pow_hashes \<Rightarrow> block \<Rightarrow> nat list \<Rightarrow> compact_block_request" where
  "request_from_block H b indexes = \<lparr>cr_block_hash = block_hash H (blk_header b), cr_indexes = indexes\<rparr>"

definition requested_transaction :: "block \<Rightarrow> nat \<Rightarrow> compact_block_error + transaction" where
  "requested_transaction b index =
     ok_or (get (blk_transactions b) index)
       (CbMalformed (''requested transaction index '' @ decimal index @ '' is out of bounds''))"

definition response_from_block ::
  "pow_hashes \<Rightarrow> block \<Rightarrow> compact_block_request \<Rightarrow> compact_block_error + compact_block_response" where
  "response_from_block H b request =
     bind_res (validate_absolute_indexes (cr_indexes request)) (\<lambda>_.
     if cr_block_hash request \<noteq> block_hash H (blk_header b) then Inl ResponseHashMismatch
     else
       bind_res (map_res (requested_transaction b) (cr_indexes request)) (\<lambda>txs.
       Inr \<lparr>ct_block_hash = cr_block_hash request, ct_transactions = txs\<rparr>))"

section \<open>Wire formats\<close>

definition put_wire_transaction :: "transaction \<Rightarrow> encoder \<Rightarrow> wire_error + encoder" where
  "put_wire_transaction tx e = bind_res (map_err WireInvalidTransaction (tx_encode tx)) (\<lambda>bs. Inr (put_bytes bs e))"

definition put_short_id :: "u64 \<Rightarrow> encoder \<Rightarrow> encoder" where
  "put_short_id s = put_seq [put_u32_le (ucast s), put_u16_le (ucast (drop_bit 32 s))]"

definition put_prefilled :: "prefilled_transaction \<Rightarrow> encoder \<Rightarrow> wire_error + encoder" where
  "put_prefilled p e = put_wire_transaction (pf_transaction p) (put_compact_size (word_of_nat (pf_index p)) e)"

definition compact_encode_to :: "compact_block \<Rightarrow> encoder \<Rightarrow> wire_error + encoder" where
  "compact_encode_to c e =
     bind_res (map_err WireCompactBlock (validate_layout c)) (\<lambda>_.
     fold_res put_prefilled (cb_prefilled c)
       (put_compact_size (word_of_nat (length (cb_prefilled c)))
         (put_seq (map put_short_id (cb_short_ids c))
           (put_seq [put_bytes (header_encode (cb_header c)), put_bytes (cb_key_nonce c),
             put_compact_size (word_of_nat (length (cb_short_ids c)))] e))))"

definition read_short_id :: "(wire_error, u64) reader" where
  "read_short_id =
     dbind (dlift WireDecode read_u32_le) (\<lambda>low.
     dbind (dlift WireDecode read_u16_le) (\<lambda>high. dreturn (push_bit 32 (ucast high) OR ucast low)))"

primrec read_prefilled :: "nat \<Rightarrow> nat \<Rightarrow> nat option \<Rightarrow> (wire_error, prefilled_transaction list) reader" where
  "read_prefilled 0 tot previous = dreturn []"
| "read_prefilled (Suc n) tot previous =
     dbind (read_bounded_index ''compact-block prefilled index'') (\<lambda>index.
     dbind (dcheck (map_err WireCompactBlock (absolute_prefilled_index previous index))) (\<lambda>absolute.
     if absolute \<ge> tot
     then derror (WireCompactBlock (CbMalformed (''prefilled index '' @ decimal absolute @
            '' exceeds transaction count '' @ decimal tot)))
     else
       dbind (dlift WireInvalidTransaction tx_decode_from) (\<lambda>tx.
       dbind (read_prefilled n tot (Some absolute)) (\<lambda>rest.
         dreturn (\<lparr>pf_index = index, pf_transaction = tx\<rparr> # rest)))))"

definition read_wire_header :: "string \<Rightarrow> string \<Rightarrow> (wire_error, header) reader" where
  "read_wire_header ctx reason =
     dbind (dlift WireDecode (read_slice 236)) (\<lambda>bs. dcheck (map_err (\<lambda>_. InvalidPacket ctx reason) (header_decode bs)))"

definition compact_decode_from :: "(wire_error, compact_block) reader" where
  "compact_decode_from =
     dbind (read_wire_header ''compact block'' ''the nested header is malformed'') (\<lambda>header.
     dbind (dlift WireDecode (read_array 8)) (\<lambda>key_nonce.
     dbind (read_count ''compact-block short IDs'' max_compact_block_transactions) (\<lambda>short_id_count.
     dbind (read_times short_id_count read_short_id) (\<lambda>short_ids.
     dbind (read_count ''compact-block prefilled transactions'' (max_compact_block_transactions - short_id_count)) (\<lambda>prefilled_count.
     dbind (read_prefilled prefilled_count (saturating_add_usize short_id_count prefilled_count) None) (\<lambda>prefilled.
     let compact = \<lparr>cb_header = header, cb_key_nonce = key_nonce, cb_short_ids = short_ids, cb_prefilled = prefilled\<rparr> in
     dbind (dcheck (map_err WireCompactBlock (validate_layout compact))) (\<lambda>_. dreturn compact)))))))"

fun differential_indexes :: "nat option \<Rightarrow> nat list \<Rightarrow> nat list" where
  "differential_indexes previous [] = []"
| "differential_indexes previous (index # rest) =
     (case previous of None \<Rightarrow> index | Some p \<Rightarrow> index - p - 1) # differential_indexes (Some index) rest"

definition request_encode_to :: "compact_block_request \<Rightarrow> encoder \<Rightarrow> wire_error + encoder" where
  "request_encode_to q e =
     bind_res (map_err WireCompactBlock (validate_absolute_indexes (cr_indexes q))) (\<lambda>_.
     Inr (put_seq (map (\<lambda>n. put_compact_size (word_of_nat n)) (differential_indexes None (cr_indexes q)))
       (put_seq [put_bytes (cr_block_hash q), put_compact_size (word_of_nat (length (cr_indexes q)))] e)))"

primrec read_requested :: "nat \<Rightarrow> nat option \<Rightarrow> (wire_error, nat list) reader" where
  "read_requested 0 previous = dreturn []"
| "read_requested (Suc n) previous =
     dbind (read_bounded_index ''compact-block requested index'') (\<lambda>differential.
     dbind (dcheck (map_err WireCompactBlock (absolute_prefilled_index previous differential))) (\<lambda>absolute.
     dbind (read_requested n (Some absolute)) (\<lambda>rest. dreturn (absolute # rest))))"

definition request_decode_from :: "(wire_error, compact_block_request) reader" where
  "request_decode_from =
     dbind (dlift WireDecode (read_array 32)) (\<lambda>hash.
     dbind (read_count ''compact-block requested indexes'' max_compact_block_transactions) (\<lambda>count.
     dbind (read_requested count None) (\<lambda>indexes. dreturn \<lparr>cr_block_hash = hash, cr_indexes = indexes\<rparr>)))"

definition response_encode_to :: "compact_block_response \<Rightarrow> encoder \<Rightarrow> wire_error + encoder" where
  "response_encode_to t e =
     bind_res (check_count ''compact-block response transactions'' (length (ct_transactions t))
       max_compact_block_transactions) (\<lambda>_.
     fold_res put_wire_transaction (ct_transactions t)
       (put_seq [put_bytes (ct_block_hash t), put_compact_size (word_of_nat (length (ct_transactions t)))] e))"

definition response_decode_from :: "(wire_error, compact_block_response) reader" where
  "response_decode_from =
     dbind (dlift WireDecode (read_array 32)) (\<lambda>hash.
     dbind (read_count ''compact-block response transactions'' max_compact_block_transactions) (\<lambda>count.
     dbind (read_times count (dlift WireInvalidTransaction tx_decode_from)) (\<lambda>txs.
       dreturn \<lparr>ct_block_hash = hash, ct_transactions = txs\<rparr>)))"

end
