(* ===== verification/Packets.thy ===== *)
theory Packets
  imports CompactBlock
begin

text \<open>
  Model of the packets, frames and frame decoder of \<^verbatim>\<open>crates/hns-p2p-wire/src/lib.rs\<close>. The fee rate of a
  \<^verbatim>\<open>FeeFilter\<close> packet is its 64-bit pattern, which the casts between \<^verbatim>\<open>i64\<close> and \<^verbatim>\<open>u64\<close> keep. A push on the frame
  decoder returns its result together with the buffer it leaves, also when it fails.
\<close>

section \<open>Packets\<close>

datatype (plugins only: size) packet =
    Version version_packet
  | Verack
  | Ping bytes
  | Pong bytes
  | GetAddr
  | Addr "net_address list"
  | Inv "inventory list"
  | GetData "inventory list"
  | NotFound "inventory list"
  | GetBlocks locator_packet
  | GetHeaders locator_packet
  | Headers "header list"
  | SendHeaders
  | BlockPacket block
  | TxPacket transaction
  | Reject reject_packet
  | Mempool
  | FilterLoad bytes
  | FilterAdd bytes
  | FilterClear
  | MerkleBlock bytes
  | FeeFilter u64
  | SendCmpct byte u64
  | CmpctBlock compact_block
  | GetBlockTxn compact_block_request
  | BlockTxn compact_block_response
  | GetProof get_proof_packet
  | Proof proof_packet
  | ClaimPacket bytes
  | Airdrop bytes
  | UnknownPacket byte bytes

primrec packet_type_of :: "packet \<Rightarrow> packet_type" where
  "packet_type_of (Version p) = PtVersion"
| "packet_type_of Verack = PtVerack"
| "packet_type_of (Ping n) = PtPing"
| "packet_type_of (Pong n) = PtPong"
| "packet_type_of GetAddr = PtGetAddr"
| "packet_type_of (Addr items) = PtAddr"
| "packet_type_of (Inv items) = PtInv"
| "packet_type_of (GetData items) = PtGetData"
| "packet_type_of (NotFound items) = PtNotFound"
| "packet_type_of (GetBlocks p) = PtGetBlocks"
| "packet_type_of (GetHeaders p) = PtGetHeaders"
| "packet_type_of (Headers hs) = PtHeaders"
| "packet_type_of SendHeaders = PtSendHeaders"
| "packet_type_of (BlockPacket b) = PtBlock"
| "packet_type_of (TxPacket tx) = PtTx"
| "packet_type_of (Reject p) = PtReject"
| "packet_type_of Mempool = PtMempool"
| "packet_type_of (FilterLoad bs) = PtFilterLoad"
| "packet_type_of (FilterAdd bs) = PtFilterAdd"
| "packet_type_of FilterClear = PtFilterClear"
| "packet_type_of (MerkleBlock bs) = PtMerkleBlock"
| "packet_type_of (FeeFilter rate) = PtFeeFilter"
| "packet_type_of (SendCmpct mode version) = PtSendCmpct"
| "packet_type_of (CmpctBlock c) = PtCmpctBlock"
| "packet_type_of (GetBlockTxn q) = PtGetBlockTxn"
| "packet_type_of (BlockTxn t) = PtBlockTxn"
| "packet_type_of (GetProof p) = PtGetProof"
| "packet_type_of (Proof p) = PtProof"
| "packet_type_of (ClaimPacket bs) = PtClaim"
| "packet_type_of (Airdrop bs) = PtAirdrop"
| "packet_type_of (UnknownPacket t bs) = PtUnknown t"

definition encode_addresses :: "net_address list \<Rightarrow> encoder \<Rightarrow> wire_error + encoder" where
  "encode_addresses items e =
     bind_res (check_count ''address'' (length items) max_addr_items) (\<lambda>_.
     Inr (put_seq (map put_net_address items) (put_compact_size (word_of_nat (length items)) e)))"

definition encode_locator :: "locator_packet \<Rightarrow> encoder \<Rightarrow> wire_error + encoder" where
  "encode_locator p e =
     bind_res (check_count ''locator'' (length (lp_locator p)) max_locator_hashes) (\<lambda>_.
     Inr (put_bytes (lp_stop p) (put_seq (map put_bytes (lp_locator p))
       (put_compact_size (word_of_nat (length (lp_locator p))) e))))"

definition encode_headers :: "header list \<Rightarrow> encoder \<Rightarrow> wire_error + encoder" where
  "encode_headers hs e =
     bind_res (check_count ''header'' (length hs) max_headers) (\<lambda>_.
     Inr (put_seq (map (\<lambda>h. put_bytes (header_encode h)) hs) (put_compact_size (word_of_nat (length hs)) e)))"

definition encode_proof_packet :: "proof_packet \<Rightarrow> encoder \<Rightarrow> wire_error + encoder" where
  "encode_proof_packet p e =
     bind_res (map_err WireUrkel (urkel_encode (pp_proof p))) (\<lambda>bs.
     Inr (put_seq [put_bytes (pp_root p), put_bytes (pp_key p), put_bytes bs] e))"

definition encode_block_packet :: "pow_hashes \<Rightarrow> block \<Rightarrow> encoder \<Rightarrow> wire_error + encoder" where
  "encode_block_packet H b e =
     bind_res (map_err (\<lambda>_. InvalidPacket ''block'' ''the nested block is malformed'') (block_encode H b)) (\<lambda>bs.
     Inr (put_bytes bs e))"

primrec put_packet :: "pow_hashes \<Rightarrow> packet \<Rightarrow> encoder \<Rightarrow> wire_error + encoder" where
  "put_packet H (Version p) e = encode_version p e"
| "put_packet H Verack e = Inr e"
| "put_packet H (Ping n) e = Inr (put_bytes n e)"
| "put_packet H (Pong n) e = Inr (put_bytes n e)"
| "put_packet H GetAddr e = Inr e"
| "put_packet H (Addr items) e = encode_addresses items e"
| "put_packet H (Inv items) e = encode_inventory items e"
| "put_packet H (GetData items) e = encode_inventory items e"
| "put_packet H (NotFound items) e = encode_inventory items e"
| "put_packet H (GetBlocks p) e = encode_locator p e"
| "put_packet H (GetHeaders p) e = encode_locator p e"
| "put_packet H (Headers hs) e = encode_headers hs e"
| "put_packet H SendHeaders e = Inr e"
| "put_packet H (BlockPacket b) e = encode_block_packet H b e"
| "put_packet H (TxPacket tx) e = put_wire_transaction tx e"
| "put_packet H (Reject p) e = encode_reject p e"
| "put_packet H Mempool e = Inr e"
| "put_packet H (FilterLoad bs) e = Inr (put_bytes bs e)"
| "put_packet H (FilterAdd bs) e = Inr (put_bytes bs e)"
| "put_packet H FilterClear e = Inr e"
| "put_packet H (MerkleBlock bs) e = Inr (put_bytes bs e)"
| "put_packet H (FeeFilter rate) e = Inr (put_u64_le rate e)"
| "put_packet H (SendCmpct mode version) e = Inr (put_seq [put_u8 mode, put_u64_le version] e)"
| "put_packet H (CmpctBlock c) e = compact_encode_to c e"
| "put_packet H (GetBlockTxn q) e = request_encode_to q e"
| "put_packet H (BlockTxn t) e = response_encode_to t e"
| "put_packet H (GetProof p) e = Inr (put_seq [put_bytes (gp_root p), put_bytes (gp_key p)] e)"
| "put_packet H (Proof p) e = encode_proof_packet p e"
| "put_packet H (ClaimPacket bs) e = Inr (put_bytes bs e)"
| "put_packet H (Airdrop bs) e = Inr (put_bytes bs e)"
| "put_packet H (UnknownPacket t bs) e = Inr (put_bytes bs e)"

definition encode_payload :: "pow_hashes \<Rightarrow> packet \<Rightarrow> wire_error + bytes" where
  "encode_payload H p =
     bind_res (put_packet H p encoder_new) (\<lambda>e.
     bind_res (check_payload_size (length (into_bytes e))) (\<lambda>_. Inr (into_bytes e)))"

definition dmap :: "('a \<Rightarrow> 'b) \<Rightarrow> ('e, 'a) reader \<Rightarrow> ('e, 'b) reader" where
  "dmap f p = dbind p (\<lambda>x. dreturn (f x))"

definition read_addresses :: "(wire_error, net_address list) reader" where
  "read_addresses = dbind (read_count ''address'' max_addr_items) (\<lambda>count. read_times count read_net_address)"

definition read_locator :: "(wire_error, locator_packet) reader" where
  "read_locator =
     dbind (read_count ''locator'' max_locator_hashes) (\<lambda>count.
     dbind (read_times count (dlift WireDecode (read_array 32))) (\<lambda>locator.
     dbind (dlift WireDecode (read_array 32)) (\<lambda>stop. dreturn \<lparr>lp_locator = locator, lp_stop = stop\<rparr>)))"

definition read_headers :: "(wire_error, header list) reader" where
  "read_headers =
     dbind (read_count ''header'' max_headers) (\<lambda>count.
     read_times count (read_wire_header ''headers'' ''a nested header is malformed''))"

definition read_get_proof :: "(wire_error, get_proof_packet) reader" where
  "read_get_proof =
     dbind (dlift WireDecode (read_array 32)) (\<lambda>root.
     dbind (dlift WireDecode (read_array 32)) (\<lambda>key. dreturn \<lparr>gp_root = root, gp_key = key\<rparr>))"

definition read_proof_packet :: "(wire_error, proof_packet) reader" where
  "read_proof_packet =
     dbind (dlift WireDecode (read_array 32)) (\<lambda>root.
     dbind (dlift WireDecode (read_array 32)) (\<lambda>key.
     dbind take_remaining (\<lambda>raw.
     dbind (dcheck (map_err WireUrkel (urkel_decode_strict raw))) (\<lambda>p.
       dreturn \<lparr>pp_root = root, pp_key = key, pp_proof = p\<rparr>))))"

definition read_send_cmpct :: "(wire_error, packet) reader" where
  "read_send_cmpct =
     dbind (dlift WireDecode read_u8) (\<lambda>mode.
     dbind (dlift WireDecode read_u64_le) (\<lambda>version. dreturn (SendCmpct mode version)))"

definition finish_packet :: "(wire_error, packet) reader \<Rightarrow> bytes \<Rightarrow> wire_error + packet" where
  "finish_packet rd payload =
     bind_res (rd (decoder_new payload)) (\<lambda>(p, d).
     bind_res (map_err WireDecode (decoder_finish d)) (\<lambda>_. Inr p))"

primrec decode_payload :: "pow_hashes \<Rightarrow> packet_type \<Rightarrow> bytes \<Rightarrow> wire_error + packet" where
  "decode_payload H PtVersion = finish_packet (dmap Version decode_version)"
| "decode_payload H PtVerack = finish_packet (dreturn Verack)"
| "decode_payload H PtPing = finish_packet (dmap Ping (dlift WireDecode (read_array 8)))"
| "decode_payload H PtPong = finish_packet (dmap Pong (dlift WireDecode (read_array 8)))"
| "decode_payload H PtGetAddr = finish_packet (dreturn GetAddr)"
| "decode_payload H PtAddr = finish_packet (dmap Addr read_addresses)"
| "decode_payload H PtInv = finish_packet (dmap Inv decode_inventory)"
| "decode_payload H PtGetData = finish_packet (dmap GetData decode_inventory)"
| "decode_payload H PtNotFound = finish_packet (dmap NotFound decode_inventory)"
| "decode_payload H PtGetBlocks = finish_packet (dmap GetBlocks read_locator)"
| "decode_payload H PtGetHeaders = finish_packet (dmap GetHeaders read_locator)"
| "decode_payload H PtHeaders = finish_packet (dmap Headers read_headers)"
| "decode_payload H PtSendHeaders = finish_packet (dreturn SendHeaders)"
| "decode_payload H PtBlock = (\<lambda>payload.
     bind_res (map_err (\<lambda>_. InvalidPacket ''block'' ''the nested block is malformed'') (block_decode H payload)) (\<lambda>b.
     Inr (BlockPacket b)))"
| "decode_payload H PtTx = (\<lambda>payload.
     bind_res (map_err WireInvalidTransaction (tx_decode payload)) (\<lambda>tx. Inr (TxPacket tx)))"
| "decode_payload H PtReject = finish_packet (dmap Reject decode_reject)"
| "decode_payload H PtMempool = finish_packet (dreturn Mempool)"
| "decode_payload H PtFilterLoad = finish_packet (dmap FilterLoad take_remaining)"
| "decode_payload H PtFilterAdd = finish_packet (dmap FilterAdd take_remaining)"
| "decode_payload H PtFilterClear = finish_packet (dreturn FilterClear)"
| "decode_payload H PtMerkleBlock = finish_packet (dmap MerkleBlock take_remaining)"
| "decode_payload H PtFeeFilter = finish_packet (dmap FeeFilter (dlift WireDecode read_u64_le))"
| "decode_payload H PtSendCmpct = finish_packet read_send_cmpct"
| "decode_payload H PtCmpctBlock = finish_packet (dmap CmpctBlock compact_decode_from)"
| "decode_payload H PtGetBlockTxn = finish_packet (dmap GetBlockTxn request_decode_from)"
| "decode_payload H PtBlockTxn = finish_packet (dmap BlockTxn response_decode_from)"
| "decode_payload H PtGetProof = finish_packet (dmap GetProof read_get_proof)"
| "decode_payload H PtProof = finish_packet (dmap Proof read_proof_packet)"
| "decode_payload H PtClaim = finish_packet (dmap ClaimPacket take_remaining)"
| "decode_payload H PtAirdrop = finish_packet (dmap Airdrop take_remaining)"
| "decode_payload H (PtUnknown t) = (\<lambda>payload. Inr (UnknownPacket t payload))"

definition packet_decode :: "pow_hashes \<Rightarrow> packet_type \<Rightarrow> bytes \<Rightarrow> wire_error + packet" where
  "packet_decode H t payload =
     bind_res (check_payload_size (length payload)) (\<lambda>_. decode_payload H t payload)"

section \<open>Frames\<close>

record frame =
  fr_packet_type :: packet_type
  fr_payload :: bytes

definition frame_new :: "packet_type \<Rightarrow> bytes \<Rightarrow> wire_error + frame" where
  "frame_new t payload =
     bind_res (check_payload_size (length payload)) (\<lambda>_. Inr \<lparr>fr_packet_type = t, fr_payload = payload\<rparr>)"

definition frame_from_packet :: "pow_hashes \<Rightarrow> packet \<Rightarrow> wire_error + frame" where
  "frame_from_packet H p = bind_res (encode_payload H p) (\<lambda>payload. frame_new (packet_type_of p) payload)"

definition frame_decode_packet :: "pow_hashes \<Rightarrow> frame \<Rightarrow> wire_error + packet" where
  "frame_decode_packet H f = packet_decode H (fr_packet_type f) (fr_payload f)"

definition frame_encode :: "network_magic \<Rightarrow> frame \<Rightarrow> wire_error + bytes" where
  "frame_encode network f =
     bind_res (check_payload_size (length (fr_payload f))) (\<lambda>_.
     if length (fr_payload f) \<ge> 2 ^ 32 then Inl (PayloadTooLarge (length (fr_payload f)) max_frame_payload_size)
     else Inr (encode_with
       [put_u32_le (magic_as_u32 network), put_u8 (packet_type_as_u8 (fr_packet_type f)),
        put_u32_le (word_of_nat (length (fr_payload f))), put_bytes (fr_payload f)]))"

definition read_frame_header :: "network_magic \<Rightarrow> (wire_error, packet_type \<times> nat) reader" where
  "read_frame_header network =
     dbind (dlift WireDecode read_u32_le) (\<lambda>actual_magic.
     if actual_magic \<noteq> magic_as_u32 network
     then derror (NetworkMagicMismatch (magic_as_u32 network) actual_magic)
     else
       dbind (dlift WireDecode read_u8) (\<lambda>packet_type.
       dbind (dlift WireDecode read_u32_le) (\<lambda>payload_length.
         dreturn (packet_type_from_u8 packet_type, unat payload_length))))"

definition decode_frame_prefix :: "network_magic \<Rightarrow> bytes \<Rightarrow> wire_error + (frame \<times> nat) option" where
  "decode_frame_prefix network input =
     (if length input < frame_header_size then Inr None
      else
        bind_res (read_frame_header network (decoder_new (take frame_header_size input))) (\<lambda>((packet_type, payload_length), d).
        bind_res (map_err WireDecode (decoder_finish d)) (\<lambda>_.
        bind_res (check_payload_size payload_length) (\<lambda>_.
        let frame_length = frame_header_size + payload_length in
        if length input < frame_length then Inr None
        else Inr (Some (\<lparr>fr_packet_type = packet_type, fr_payload = slice_of frame_header_size frame_length input\<rparr>,
               frame_length))))))"

definition bytes_needed_for_frame :: "bytes \<Rightarrow> nat" where
  "bytes_needed_for_frame input =
     (if length input < frame_header_size then frame_header_size - length input
      else saturating_add_usize frame_header_size (unat (u32_of_le (slice_of 5 9 input))) - length input)"

definition frame_decode_exact :: "network_magic \<Rightarrow> bytes \<Rightarrow> wire_error + frame" where
  "frame_decode_exact network input =
     bind_res (decode_frame_prefix network input) (\<lambda>result.
     case result of
       Some (f, consumed) \<Rightarrow>
         if consumed \<noteq> length input then Inl (WireDecode (TrailingBytes (length input - consumed))) else Inr f
     | None \<Rightarrow> Inl (IncompleteFrame (bytes_needed_for_frame input)))"

section \<open>The frame decoder\<close>

record frame_decoder =
  fd_network :: network_magic
  fd_buffered :: bytes

definition frame_decoder_new :: "network_magic \<Rightarrow> frame_decoder" where
  "frame_decoder_new network = \<lparr>fd_network = network, fd_buffered = []\<rparr>"

lemma decode_frame_prefix_bounds:
  "decode_frame_prefix network input = Inr (Some (f, n)) \<Longrightarrow> frame_header_size \<le> n \<and> n \<le> length input"
  by (auto simp: decode_frame_prefix_def bind_res_eq_Inr Let_def split: if_splits)

text \<open>
  The loop of \<^verbatim>\<open>push\<close> from the current position: the frames found and the number of bytes they take, or the first
  error.
\<close>

function decode_frames :: "network_magic \<Rightarrow> bytes \<Rightarrow> wire_error + frame list \<times> nat" where
  "decode_frames network input =
     (case decode_frame_prefix network input of
        Inl e \<Rightarrow> Inl e
      | Inr None \<Rightarrow> Inr ([], 0)
      | Inr (Some (f, n)) \<Rightarrow>
          if n = length input then Inr ([f], n)
          else bind_res (decode_frames network (drop n input)) (\<lambda>(fs, consumed). Inr (f # fs, n + consumed)))"
  by pat_completeness auto
termination
  by (relation "measure (\<lambda>(_, input). length input)")
    (auto simp: frame_header_size_def dest!: decode_frame_prefix_bounds)

declare decode_frames.simps [simp del]

definition frame_decoder_push :: "bytes \<Rightarrow> frame_decoder \<Rightarrow> (wire_error + frame list) \<times> frame_decoder" where
  "frame_decoder_push input s =
     (case checked_add_usize (length (fd_buffered s)) (length input) of
        None \<Rightarrow> (Inl (PayloadTooLarge usize_max max_stream_buffer_size), s)
      | Some tot \<Rightarrow>
          if tot > max_stream_buffer_size then (Inl (PayloadTooLarge tot max_stream_buffer_size), s)
          else
            let s = s\<lparr>fd_buffered := fd_buffered s @ input\<rparr> in
            (case decode_frames (fd_network s) (fd_buffered s) of
               Inl e \<Rightarrow> (Inl e, s)
             | Inr (frames, consumed) \<Rightarrow> (Inr frames, s\<lparr>fd_buffered := drop consumed (fd_buffered s)\<rparr>)))"

end
