(* ===== verification/FrameProofs.thy ===== *)
theory FrameProofs
  imports Packets
begin

text \<open>
  The frame decoder: whatever way a byte stream is cut into chunks, it delivers the frames of the stream, buffers less
  than one frame, and stops for good at the first malformed frame header.
\<close>

section \<open>One frame\<close>

lemma frame_split:
  assumes "frame_header_size \<le> length input"
  obtains m t l rest where "input = u32_to_le m @ t # u32_to_le l @ rest"
proof -
  let ?m = "take 4 input" and ?l = "take 4 (drop 5 input)"
  have len: "9 \<le> length input" using assms by (simp add: frame_header_size_def)
  have "input = ?m @ drop 4 input" by simp
  also have "drop 4 input = input ! 4 # drop 5 input" using len by (simp add: Cons_nth_drop_Suc [symmetric])
  also have "drop 5 input = ?l @ drop 9 input" using append_take_drop_id [of 4 "drop 5 input"] by simp
  finally have "input = ?m @ input ! 4 # ?l @ drop 9 input" .
  moreover have "?m = u32_to_le (u32_of_le ?m)" "?l = u32_to_le (u32_of_le ?l)" using len by simp_all
  ultimately show thesis using that by metis
qed

lemma decode_frame_prefix_eq:
  "decode_frame_prefix network (u32_to_le m @ t # u32_to_le l @ rest) =
     (if m \<noteq> magic_as_u32 network then Inl (NetworkMagicMismatch (magic_as_u32 network) m)
      else if unat l > max_frame_payload_size then Inl (PayloadTooLarge (unat l) max_frame_payload_size)
      else if length rest < unat l then Inr None
      else Inr (Some (\<lparr>fr_packet_type = packet_type_from_u8 t, fr_payload = take (unat l) rest\<rparr>, 9 + unat l)))"
proof -
  let ?head = "u32_to_le m @ t # u32_to_le l"
  have "read_frame_header network (decoder_new ?head) =
      (if m \<noteq> magic_as_u32 network then Inl (NetworkMagicMismatch (magic_as_u32 network) m)
       else Inr ((packet_type_from_u8 t, unat l), cursor ?head []))"
  proof -
    have fit: "fits [] ?head" by (simp add: fits_def usize_max_def)
    have 1: "read_u32_le (cursor [] ?head) = Inr (m, cursor (u32_to_le m) (t # u32_to_le l))"
      using u32.reads [where v = m and pre = "[]" and suf = "t # u32_to_le l"] fit by simp
    have 2: "read_u8 (cursor (u32_to_le m) (t # u32_to_le l)) = Inr (t, cursor (u32_to_le m @ [t]) (u32_to_le l))"
      using fit by (simp add: fits_def)
    have 3: "read_u32_le (cursor (u32_to_le m @ [t]) (u32_to_le l)) = Inr (l, cursor ?head [])"
      using u32.reads [where v = l and pre = "u32_to_le m @ [t]" and suf = "[]"] fit by (simp add: fits_def)
    show ?thesis using 2 3 by (auto simp: read_frame_header_def decoder_new_cursor dbind_run 1)
  qed
  moreover have "slice_of 9 (9 + unat l) (u32_to_le m @ t # u32_to_le l @ rest) = take (unat l) rest"
    using slice_append [of ?head "unat l" rest] by simp
  ultimately show ?thesis
    by (auto simp: decode_frame_prefix_def frame_header_size_def check_payload_size_def)
qed

text \<open>More input never changes a decision already taken.\<close>

lemma decode_frame_prefix_stable:
  assumes "decode_frame_prefix network x = r" "r \<noteq> Inr None"
  shows "decode_frame_prefix network (x @ y) = r"
proof (cases "frame_header_size \<le> length x")
  case True
  then obtain m t l rest where "x = u32_to_le m @ t # u32_to_le l @ rest" by (rule frame_split)
  then show ?thesis using assms decode_frame_prefix_eq [of network m t l rest]
      decode_frame_prefix_eq [of network m t l "rest @ y"] by (auto split: if_splits)
qed (use assms in \<open>auto simp: decode_frame_prefix_def\<close>)

lemma decode_frame_prefix_None_bound:
  assumes "decode_frame_prefix network x = Inr None"
  shows "length x < frame_header_size + max_frame_payload_size"
proof (cases "frame_header_size \<le> length x")
  case True
  then obtain m t l rest where "x = u32_to_le m @ t # u32_to_le l @ rest" by (rule frame_split)
  then show ?thesis using assms decode_frame_prefix_eq [of network m t l rest] by (auto simp: frame_header_size_def split: if_splits)
qed (simp add: frame_header_size_def)

section \<open>The decoding loop\<close>

lemma decode_frames_Nil [simp]: "decode_frames network [] = Inr ([], 0)"
  by (subst decode_frames.simps) (simp add: decode_frame_prefix_def frame_header_size_def)

lemma decode_frames_Some:
  assumes "decode_frame_prefix network x = Inr (Some (f, n))"
  shows "decode_frames network x = bind_res (decode_frames network (drop n x)) (\<lambda>(fs, k). Inr (f # fs, n + k))"
  using assms by (subst decode_frames.simps) auto

lemma decode_frames_append:
  "decode_frames network (x @ y) =
     bind_res (decode_frames network x) (\<lambda>(fs, n).
     bind_res (decode_frames network (drop n x @ y)) (\<lambda>(gs, k). Inr (fs @ gs, n + k)))"
proof (induction network x rule: decode_frames.induct)
  case (1 network x)
  consider e where "decode_frame_prefix network x = Inl e" | "decode_frame_prefix network x = Inr None"
    | f n where "decode_frame_prefix network x = Inr (Some (f, n))"
    by (cases "decode_frame_prefix network x") (auto, metis option.exhaust surj_pair)
  then show ?case
  proof cases
    case (1 e)
    then show ?thesis using decode_frame_prefix_stable [OF 1, of y]
      by (simp add: decode_frames.simps [of network "x @ y"] decode_frames.simps [of network x])
  next
    case 2
    then have "decode_frames network x = Inr ([], 0)" by (simp add: decode_frames.simps)
    then show ?thesis by (cases "decode_frames network (x @ y)") auto
  next
    case (3 f n)
    have n: "0 < n" "n \<le> length x" using decode_frame_prefix_bounds [OF 3] by (auto simp: frame_header_size_def)
    have xy: "decode_frames network (x @ y) =
        bind_res (decode_frames network (drop n x @ y)) (\<lambda>(fs, k). Inr (f # fs, n + k))"
      using decode_frames_Some [OF decode_frame_prefix_stable [OF 3, of y]] n by simp
    have IH: "decode_frames network (drop n x @ y) =
        bind_res (decode_frames network (drop n x)) (\<lambda>(fs, k).
        bind_res (decode_frames network (drop k (drop n x) @ y)) (\<lambda>(gs, k'). Inr (fs @ gs, k + k')))"
    proof (cases "n = length x")
      case True
      then show ?thesis by (cases "decode_frames network y") auto
    next
      case False
      then show ?thesis using "1.IH" [OF 3 refl refl] by simp
    qed
    show ?thesis unfolding xy IH decode_frames_Some [OF 3] using n
      by (simp add: bind_res_assoc split_beta drop_drop add.commute add.left_commute)
  qed
qed

lemma decode_frames_rest:
  assumes "decode_frames network x = Inr (fs, n)"
  shows "n \<le> length x \<and> decode_frame_prefix network (drop n x) = Inr None"
  using assms
proof (induction network x arbitrary: fs n rule: decode_frames.induct)
  case (1 network x)
  show ?case
  proof (cases "decode_frame_prefix network x")
    case (Inr r)
    show ?thesis
    proof (cases r)
      case None
      then show ?thesis using 1 Inr by (auto simp: decode_frames.simps)
    next
      case (Some p)
      obtain f k where p: "p = (f, k)" by (cases p)
      with Some Inr have pre: "decode_frame_prefix network x = Inr (Some (f, k))" by simp
      from "1.prems" obtain gs j where g: "decode_frames network (drop k x) = Inr (gs, j)" "n = k + j"
        unfolding decode_frames_Some [OF pre] by (auto simp: bind_res_eq_Inr)
      have "j \<le> length (drop k x) \<and> decode_frame_prefix network (drop j (drop k x)) = Inr None"
      proof (cases "k = length x")
        case True
        then show ?thesis using g by (simp add: decode_frame_prefix_def frame_header_size_def)
      next
        case False
        then show ?thesis using "1.IH" [OF pre refl refl] g by simp
      qed
      then show ?thesis using g decode_frame_prefix_bounds [OF pre] by (auto simp: add.commute)
    qed
  qed (use 1 in \<open>simp add: decode_frames.simps\<close>)
qed

lemma decode_frame_prefix_error:
  assumes "decode_frame_prefix network x = Inl e"
  shows "(\<exists>actual. e = NetworkMagicMismatch (magic_as_u32 network) actual) \<or>
    (\<exists>n > max_frame_payload_size. e = PayloadTooLarge n max_frame_payload_size)"
proof (cases "frame_header_size \<le> length x")
  case True
  then obtain m t l rest where "x = u32_to_le m @ t # u32_to_le l @ rest" by (rule frame_split)
  then show ?thesis using assms decode_frame_prefix_eq [of network m t l rest] by (auto split: if_splits)
qed (use assms in \<open>auto simp: decode_frame_prefix_def\<close>)

lemma decode_frames_error:
  assumes "decode_frames network x = Inl e"
  shows "(\<exists>actual. e = NetworkMagicMismatch (magic_as_u32 network) actual) \<or>
    (\<exists>n > max_frame_payload_size. e = PayloadTooLarge n max_frame_payload_size)"
  using assms
proof (induction network x rule: decode_frames.induct)
  case (1 network x)
  consider "decode_frame_prefix network x = Inl e"
    | f n where "decode_frame_prefix network x = Inr (Some (f, n))" "n \<noteq> length x" "decode_frames network (drop n x) = Inl e"
    using "1.prems" by (subst (asm) decode_frames.simps)
      (auto simp: bind_res_eq_Inl split: sum.splits option.splits if_splits prod.splits)
  then show ?case
  proof cases
    case 1
    then show ?thesis by (rule decode_frame_prefix_error)
  next
    case (2 f n)
    from "1.IH" [OF 2(1) refl refl 2(2,3)] show ?thesis .
  qed
qed

section \<open>Pushing chunks\<close>

text \<open>A chunk no longer than the longest frame always fits beside what is buffered.\<close>

definition chunk_ok :: "bytes \<Rightarrow> bool" where
  "chunk_ok c \<longleftrightarrow> length c \<le> frame_header_size + max_frame_payload_size"

definition decoder_settled :: "frame_decoder \<Rightarrow> bool" where
  "decoder_settled s \<longleftrightarrow> decode_frame_prefix (fd_network s) (fd_buffered s) = Inr None"

fun push_chunks :: "bytes list \<Rightarrow> frame_decoder \<Rightarrow> (wire_error + frame list) \<times> frame_decoder" where
  "push_chunks [] s = (Inr [], s)"
| "push_chunks (c # cs) s =
     (case frame_decoder_push c s of
        (Inl e, s') \<Rightarrow> (Inl e, s')
      | (Inr fs, s') \<Rightarrow>
          (case push_chunks cs s' of (Inl e, s'') \<Rightarrow> (Inl e, s'') | (Inr gs, s'') \<Rightarrow> (Inr (fs @ gs), s'')))"

lemma push_settled:
  assumes "decoder_settled s" "chunk_ok c"
  shows "frame_decoder_push c s =
    (case decode_frames (fd_network s) (fd_buffered s @ c) of
       Inl e \<Rightarrow> (Inl e, s\<lparr>fd_buffered := fd_buffered s @ c\<rparr>)
     | Inr (fs, n) \<Rightarrow> (Inr fs, s\<lparr>fd_buffered := drop n (fd_buffered s @ c)\<rparr>))"
proof -
  have "length (fd_buffered s) + length c \<le> max_stream_buffer_size"
    using decode_frame_prefix_None_bound assms by (fastforce simp: decoder_settled_def chunk_ok_def max_stream_buffer_size_def)
  moreover from this have "length (fd_buffered s) + length c \<le> usize_max" by (simp add: wire_limits usize_max_def)
  ultimately show ?thesis
    by (simp add: frame_decoder_push_def checked_add_usize_def Let_def split: sum.splits prod.splits)
qed

lemma push_chunks_settled:
  assumes "decoder_settled s" "\<forall>c \<in> set cs. chunk_ok c"
  shows "push_chunks cs s = (Inr fs, s') \<longleftrightarrow>
    (\<exists>n. decode_frames (fd_network s) (fd_buffered s @ concat cs) = Inr (fs, n) \<and>
      s' = s\<lparr>fd_buffered := drop n (fd_buffered s @ concat cs)\<rparr>)"
  using assms
proof (induction cs arbitrary: s fs)
  case Nil
  then have "decode_frames (fd_network s) (fd_buffered s) = Inr ([], 0)"
    by (subst decode_frames.simps) (simp add: decoder_settled_def)
  then show ?case by auto
next
  case (Cons c cs)
  let ?buf = "fd_buffered s @ c"
  have push: "frame_decoder_push c s = (case decode_frames (fd_network s) ?buf of
       Inl e \<Rightarrow> (Inl e, s\<lparr>fd_buffered := ?buf\<rparr>) | Inr (fs, n) \<Rightarrow> (Inr fs, s\<lparr>fd_buffered := drop n ?buf\<rparr>))"
    using Cons.prems by (intro push_settled) simp_all
  have all: "decode_frames (fd_network s) (fd_buffered s @ concat (c # cs)) =
      bind_res (decode_frames (fd_network s) ?buf) (\<lambda>(fs, n).
      bind_res (decode_frames (fd_network s) (drop n ?buf @ concat cs)) (\<lambda>(gs, k). Inr (fs @ gs, n + k)))"
    using decode_frames_append [of "fd_network s" ?buf "concat cs"] by simp
  show ?case
  proof (cases "decode_frames (fd_network s) ?buf")
    case (Inl e)
    then show ?thesis unfolding all by (simp add: push)
  next
    case (Inr r)
    obtain gs n where r: "r = (gs, n)" by (cases r)
    define t where "t = s\<lparr>fd_buffered := drop n ?buf\<rparr>"
    have n: "n \<le> length ?buf" and t: "decoder_settled t"
      using decode_frames_rest [of "fd_network s" ?buf gs n] Inr r by (auto simp: decoder_settled_def t_def)
    have IH: "push_chunks cs t = (Inr hs, s') \<longleftrightarrow>
        (\<exists>k. decode_frames (fd_network s) (drop n ?buf @ concat cs) = Inr (hs, k) \<and>
          s' = s\<lparr>fd_buffered := drop k (drop n ?buf @ concat cs)\<rparr>)" for hs
      using Cons.IH [OF t] Cons.prems by (simp add: t_def)
    have step: "push_chunks (c # cs) s = (Inr fs, s') \<longleftrightarrow> (\<exists>hs. push_chunks cs t = (Inr hs, s') \<and> fs = gs @ hs)"
      by (auto simp: push Inr r t_def split: prod.splits sum.splits)
    have drops: "drop k (drop n ?buf @ concat cs) = drop (n + k) (?buf @ concat cs)" for k
    proof -
      have "drop (n + k) (?buf @ concat cs) = drop k (drop n (?buf @ concat cs))" by (simp only: drop_drop add.commute)
      also have "drop n (?buf @ concat cs) = drop n ?buf @ concat cs" using n by (simp only: drop_append) simp
      finally show ?thesis by simp
    qed
    show ?thesis unfolding step IH all using drops by (auto simp: Inr r bind_res_eq_Inr)
  qed
qed

text \<open>
  C32: the frame decoder does not depend on how the stream is cut. For chunks no longer than the longest frame,
  pushed into a new decoder, the frames delivered together are those of one pass over the whole stream, what stays
  buffered is exactly the tail after them, and a push fails exactly when that pass meets a malformed frame header.
\<close>

theorem frame_decoder_chunking:
  assumes "\<forall>c \<in> set cs. chunk_ok c"
  shows "push_chunks cs (frame_decoder_new network) = (Inr fs, s) \<longleftrightarrow>
    (\<exists>n. decode_frames network (concat cs) = Inr (fs, n) \<and>
      s = \<lparr>fd_network = network, fd_buffered = drop n (concat cs)\<rparr>)"
proof -
  have "decoder_settled (frame_decoder_new network)"
    by (simp add: decoder_settled_def frame_decoder_new_def decode_frame_prefix_def frame_header_size_def)
  from push_chunks_settled [OF this assms] show ?thesis by (simp add: frame_decoder_new_def)
qed

text \<open>Two chunks of a small stream, cut inside the second frame.\<close>

definition sample_frames :: "frame list" where
  "sample_frames = [\<lparr>fr_packet_type = PtVerack, fr_payload = []\<rparr>, \<lparr>fr_packet_type = PtPing, fr_payload = replicate 8 7\<rparr>]"

definition sample_chunks :: "bytes list" where
  "sample_chunks =
     [[0xd3, 0xf2, 0x6e, 0x5b, 1, 0, 0, 0, 0, 0xd3, 0xf2, 0x6e, 0x5b, 2, 8], [0, 0, 0, 7, 7, 7, 7, 7, 7, 7, 7]]"

lemma sample_stream: "decode_frames MagicMainnet (concat sample_chunks) = Inr (sample_frames, 26)"
proof -
  let ?m = "0x5b6ef2d3 :: u32"
  have m: "u32_to_le ?m = [0xd3, 0xf2, 0x6e, 0x5b]" "u32_to_le 0 = [0, 0, 0, 0]" "u32_to_le 8 = [8, 0, 0, 0]" by code_simp+
  have t: "packet_type_from_u8 1 = PtVerack" "packet_type_from_u8 2 = PtPing"
    by (simp_all add: packet_type_from_u8_def known_packet_types_def get_def)
  have 1: "concat sample_chunks = u32_to_le ?m @ 1 # u32_to_le 0 @ u32_to_le ?m @ 2 # u32_to_le 8 @ replicate 8 7"
    unfolding m by (simp add: sample_chunks_def eval_nat_numeral)
  have 2: "decode_frames MagicMainnet (u32_to_le ?m @ 2 # u32_to_le 8 @ replicate 8 7) = Inr ([sample_frames ! 1], 17)"
    using decode_frame_prefix_eq [of MagicMainnet ?m 2 8 "replicate 8 7"]
    by (subst decode_frames.simps) (simp add: wire_limits t sample_frames_def)
  show ?thesis unfolding 1 using decode_frame_prefix_eq [of MagicMainnet ?m 1 0] 2
    by (subst decode_frames.simps) (simp add: wire_limits t sample_frames_def)
qed

lemma sample_chunks_ok: "\<forall>c \<in> set sample_chunks. chunk_ok c"
  by (simp add: sample_chunks_def chunk_ok_def wire_limits)

theorem frame_decoder_chunking_witness:
  "push_chunks sample_chunks (frame_decoder_new MagicMainnet) = (Inr sample_frames, frame_decoder_new MagicMainnet)"
  using frame_decoder_chunking [OF sample_chunks_ok, of MagicMainnet sample_frames "frame_decoder_new MagicMainnet"] sample_stream
  by (simp add: frame_decoder_new_def sample_chunks_def)

section \<open>Delivery of encoded frames\<close>

definition frame_canonical :: "frame \<Rightarrow> bool" where
  "frame_canonical f \<longleftrightarrow> packet_type_from_u8 (packet_type_as_u8 (fr_packet_type f)) = fr_packet_type f"

lemma frame_encode_iff:
  "frame_encode network f = Inr bs \<longleftrightarrow> length (fr_payload f) \<le> max_frame_payload_size \<and>
     bs = u32_to_le (magic_as_u32 network) @ packet_type_as_u8 (fr_packet_type f) #
       u32_to_le (word_of_nat (length (fr_payload f))) @ fr_payload f"
  by (auto simp: frame_encode_def check_payload_size_def encode_with_def max_frame_payload_size_def)

lemma frame_prefix_encode:
  assumes "frame_encode network f = Inr bs" "frame_canonical f"
  shows "decode_frame_prefix network (bs @ rest) = Inr (Some (f, length bs))"
proof -
  have n: "length (fr_payload f) \<le> max_frame_payload_size" using assms(1) by (simp add: frame_encode_iff)
  then have "unat (word_of_nat (length (fr_payload f)) :: u32) = length (fr_payload f)"
    by (intro unat_word_of_nat_small) (simp add: max_frame_payload_size_def)
  then show ?thesis
    using assms n decode_frame_prefix_eq [of network "magic_as_u32 network" "packet_type_as_u8 (fr_packet_type f)"
        "word_of_nat (length (fr_payload f))" "fr_payload f @ rest"]
    by (auto simp: frame_encode_iff frame_canonical_def)
qed

lemma decode_frames_encoded:
  assumes "map_res (frame_encode network) fs = Inr bss" "\<forall>f \<in> set fs. frame_canonical f"
  shows "decode_frames network (concat bss) = Inr (fs, length (concat bss))"
  using assms
proof (induction fs arbitrary: bss)
  case (Cons f fs)
  then obtain bs rest where bs: "frame_encode network f = Inr bs" and rest: "map_res (frame_encode network) fs = Inr rest"
    and bss: "bss = bs # rest" by (auto simp: bind_res_eq_Inr)
  from frame_prefix_encode [OF bs, of "concat rest"] Cons.prems
  have "decode_frame_prefix network (concat bss) = Inr (Some (f, length bs))" by (simp add: bss)
  from decode_frames_Some [OF this] Cons.IH [OF rest] Cons.prems show ?case by (simp add: bss)
qed simp

text \<open>
  A sequence of frames, encoded one after the other and cut into chunks in any way, is delivered complete and in
  order by the frame decoder of the same network, which then has nothing buffered. The type of a frame must be the one
  its byte stands for.
\<close>

lemma frame_stream_delivered:
  assumes "map_res (frame_encode network) fs = Inr bss" "\<forall>f \<in> set fs. frame_canonical f"
    and "concat cs = concat bss" "\<forall>c \<in> set cs. chunk_ok c"
  shows "push_chunks cs (frame_decoder_new network) = (Inr fs, frame_decoder_new network)"
proof -
  have settled: "decoder_settled (frame_decoder_new network)"
    by (simp add: decoder_settled_def frame_decoder_new_def decode_frame_prefix_def frame_header_size_def)
  show ?thesis
    unfolding push_chunks_settled [OF settled assms(4)] using decode_frames_encoded [OF assms(1,2)] assms(3)
    by (simp add: frame_decoder_new_def)
qed

section \<open>Failure is final\<close>

fun push_each :: "bytes list \<Rightarrow> frame_decoder \<Rightarrow> (wire_error + frame list) list" where
  "push_each [] s = []"
| "push_each (c # cs) s = (case frame_decoder_push c s of (r, s') \<Rightarrow> r # push_each cs s')"

definition decoder_failed :: "frame_decoder \<Rightarrow> bool" where
  "decoder_failed s \<longleftrightarrow> \<not> is_ok (decode_frames (fd_network s) (fd_buffered s))"

lemma push_failed:
  assumes "decoder_failed s" "frame_decoder_push c s = (r, s')"
  shows "\<not> is_ok r \<and> decoder_failed s'"
proof -
  have "\<not> is_ok (decode_frames (fd_network s) (fd_buffered s @ c))"
    using assms(1) decode_frames_append [of "fd_network s" "fd_buffered s" c]
    by (cases "decode_frames (fd_network s) (fd_buffered s)") (simp_all add: decoder_failed_def is_ok_def)
  then obtain e where "decode_frames (fd_network s) (fd_buffered s @ c) = Inl e"
    by (cases "decode_frames (fd_network s) (fd_buffered s @ c)") (auto simp: is_ok_iff)
  then show ?thesis using assms
    by (auto simp: frame_decoder_push_def Let_def decoder_failed_def is_ok_iff split: option.splits if_splits)
qed

lemma push_each_failed: "decoder_failed s \<Longrightarrow> \<forall>r \<in> set (push_each cs s). \<not> is_ok r"
proof (induction cs arbitrary: s)
  case (Cons c cs)
  obtain r s' where rs: "frame_decoder_push c s = (r, s')" by (cases "frame_decoder_push c s")
  with push_failed [OF Cons.prems rs] Cons.IH [of s'] show ?case by auto
qed simp

text \<open>
  C33: a push that fails on a frame header is the last one of the connection: whatever is pushed afterwards, every
  further push fails and no further frame is delivered. A stream that lost its framing is never resynchronised.
\<close>

theorem frame_decoder_error_final:
  assumes "decoder_settled s" "chunk_ok c" "frame_decoder_push c s = (Inl e, s')"
  shows "(\<forall>r \<in> set (push_each cs s'). \<not> is_ok r) \<and>
    ((\<exists>actual. e = NetworkMagicMismatch (magic_as_u32 (fd_network s)) actual) \<or>
     (\<exists>n > max_frame_payload_size. e = PayloadTooLarge n max_frame_payload_size))"
proof
  have s': "decode_frames (fd_network s) (fd_buffered s @ c) = Inl e" "s' = s\<lparr>fd_buffered := fd_buffered s @ c\<rparr>"
    using assms(3) unfolding push_settled [OF assms(1,2)]
    by (cases "decode_frames (fd_network s) (fd_buffered s @ c)"; auto split: prod.splits)+
  then have "decoder_failed s'" by (simp add: decoder_failed_def is_ok_iff)
  then show "\<forall>r \<in> set (push_each cs s'). \<not> is_ok r" by (rule push_each_failed)
  show "(\<exists>actual. e = NetworkMagicMismatch (magic_as_u32 (fd_network s)) actual) \<or>
     (\<exists>n > max_frame_payload_size. e = PayloadTooLarge n max_frame_payload_size)"
    using decode_frames_error [OF s'(1)] .
qed

theorem frame_decoder_error_final_witness:
  "list_all (\<lambda>r. \<not> is_ok r) (push_each [[1, 2, 3], replicate 20 0] \<lparr>fd_network = MagicMainnet, fd_buffered = replicate 9 0\<rparr>)"
proof -
  let ?s = "frame_decoder_new MagicMainnet"
  have z: "replicate 9 0 = u32_to_le 0 @ 0 # u32_to_le 0 @ []" by code_simp
  have f: "decode_frames MagicMainnet (replicate 9 0) = Inl (NetworkMagicMismatch 0x5b6ef2d3 0)"
    unfolding z by (subst decode_frames.simps) (simp only: decode_frame_prefix_eq, simp)
  have s: "decoder_settled ?s"
    by (simp add: decoder_settled_def frame_decoder_new_def decode_frame_prefix_def frame_header_size_def)
  have c: "chunk_ok (replicate 9 0)" by (simp add: chunk_ok_def wire_limits)
  have p: "frame_decoder_push (replicate 9 0) ?s =
      (Inl (NetworkMagicMismatch 0x5b6ef2d3 0), \<lparr>fd_network = MagicMainnet, fd_buffered = replicate 9 0\<rparr>)"
    unfolding push_settled [OF s c] using f by (simp add: frame_decoder_new_def)
  show ?thesis using frame_decoder_error_final [OF s c p, of "[[1, 2, 3], replicate 20 0]"] by (simp add: list_all_iff)
qed

end
