(* ===== verification/CompactProofs.thy ===== *)
theory CompactProofs
  imports CompactBlock BlockBody BlockCodec
begin

text \<open>
  Compact blocks: the header commits to the transactions of a block, a reconstruction keeps its slots consistent
  whatever it is fed, and a compact block of an honest peer becomes the block it was made from.
\<close>

section \<open>What a header commits to\<close>

abbreviation witness_id :: "(bytes \<Rightarrow> bytes) \<Rightarrow> transaction \<Rightarrow> bytes" where
  "witness_id B tx \<equiv> B (B (tx_base_bytes tx) @ B (tx_witness_bytes tx))"

text \<open>The strings hashed for the witness root of a list of transactions.\<close>

definition witness_inputs :: "(bytes \<Rightarrow> bytes) \<Rightarrow> transaction list \<Rightarrow> bytes list" where
  "witness_inputs B txs =
     concat (map (\<lambda>tx. [tx_base_bytes tx, tx_witness_bytes tx, B (tx_base_bytes tx) @ B (tx_witness_bytes tx)]) txs) @
     merkle_inputs B (map (witness_id B) txs)"

lemma witness_hash_eq:
  assumes "inputs_ok tx" "tx_sized tx"
  shows "witness_hash B tx = Inr (witness_id B tx)"
proof -
  have "length (tx_witness_bytes tx) \<le> max_transaction_raw_size"
    using assms(2) by (simp add: tx_sized_def transaction_limits)
  then have "tx_base_encode tx = Inr (tx_base_bytes tx)" "tx_witness_encode tx = Inr (tx_witness_bytes tx)"
    using assms by (simp_all add: tx_base_encode_iff tx_witness_encode_iff tx_sized_def)
  then show ?thesis by (simp add: witness_hash_def transaction_hash_def)
qed

lemma map_res_eq:
  assumes "\<forall>x \<in> set xs. f x = Inr (g x)"
  shows "map_res f xs = Inr (map g xs)"
  using assms by (induction xs) simp_all

lemma sane_sized:
  assumes "transaction_sane sha3 tx" "inputs_ok tx"
  shows "tx_sized tx"
proof -
  have "check_transaction_size tx = Inr ()" using assms(1) by (simp add: transaction_sane_def)
  then have "\<exists>s. tx_encoded_sizes tx = Inr s"
    by (auto simp: check_transaction_size_def tx_weight_def bind_res_eq_Inr map_err_eq_Inr split: if_splits)
  then show ?thesis using tx_encoded_sizes_iff [OF assms(2)] by auto
qed

lemma body_witness_root:
  assumes "validate_block_body H b = Inr m" "block_wire b"
  shows "h_witness_root (blk_header b) = merkle_root (ph_blake2b_256 H) (map (witness_id (ph_blake2b_256 H)) (blk_transactions b))"
    and "\<forall>tx \<in> set (blk_transactions b). tx_ok tx \<and> tx_sized tx"
proof -
  let ?B = "ph_blake2b_256 H"
  have lim: "validate_block_limits H b = Inr m" and root: "bm_witness_root m = h_witness_root (blk_header b)"
    and sane: "\<forall>tx \<in> set (blk_transactions b). transaction_sane (ph_sha3_256 H) tx"
    using assms(1) by (auto simp: validate_block_body_iff)
  show ok: "\<forall>tx \<in> set (blk_transactions b). tx_ok tx \<and> tx_sized tx"
    using assms(2) sane sane_sized by (auto simp: block_wire_def tx_ok_def)
  then have "map_res (witness_hash ?B) (blk_transactions b) = Inr (map (witness_id ?B) (blk_transactions b))"
    by (intro map_res_eq) (simp add: witness_hash_eq tx_ok_def)
  moreover from lim have "block_witness_root H (blk_transactions b) = Inr (bm_witness_root m)"
    by (auto simp: validate_block_limits_def block_metrics_def bind_res_eq_Inr split: if_splits)
  ultimately show "h_witness_root (blk_header b) = merkle_root ?B (map (witness_id ?B) (blk_transactions b))"
    using root by (simp add: block_witness_root_def)
qed

lemma tx_bytes_inj:
  assumes "tx_ok tx" "tx_sized tx" "tx_ok tx'" "tx_sized tx'" "tx_bytes tx = tx_bytes tx'"
  shows "tx = tx'"
proof -
  have "length (tx_bytes tx) \<le> usize_max"
    using assms(2) by (simp add: tx_sized_def tx_bytes_def usize_max_def transaction_limits)
  then show ?thesis using tx.enc_inj [of tx tx'] assms by (simp add: fits_def)
qed

lemma witness_ids_inj:
  assumes len: "\<And>x. length (B x) = 32" and inj: "inj_on B (set (witness_inputs B txs) \<union> set (witness_inputs B txs'))"
    and ok: "\<forall>tx \<in> set txs. tx_ok tx \<and> tx_sized tx" "\<forall>tx \<in> set txs'. tx_ok tx \<and> tx_sized tx"
    and eq: "map (witness_id B) txs = map (witness_id B) txs'"
  shows "txs = txs'"
proof (rule nth_equalityI)
  show lens: "length txs = length txs'" using eq by (rule map_eq_imp_length_eq)
  fix i
  assume i: "i < length txs"
  then have i': "i < length txs'" by (simp only: lens)
  let ?t = "txs ! i" and ?t' = "txs' ! i"
  have mem: "{tx_base_bytes t, tx_witness_bytes t, B (tx_base_bytes t) @ B (tx_witness_bytes t)} \<subseteq> set (witness_inputs B ts)"
    if "t \<in> set ts" for t ts using that by (auto simp: witness_inputs_def)
  note in_t = mem [OF nth_mem [OF i]] and in_t' = mem [OF nth_mem [OF i']]
  have "witness_id B ?t = witness_id B ?t'" using arg_cong [OF eq, of "\<lambda>xs. xs ! i"] i i' by simp
  then have "B (tx_base_bytes ?t) @ B (tx_witness_bytes ?t) = B (tx_base_bytes ?t') @ B (tx_witness_bytes ?t')"
    using inj_onD [OF inj] in_t in_t' by blast
  then have "B (tx_base_bytes ?t) = B (tx_base_bytes ?t')" "B (tx_witness_bytes ?t) = B (tx_witness_bytes ?t')"
    by (metis append_eq_append_conv len)+
  then have "tx_base_bytes ?t = tx_base_bytes ?t'" "tx_witness_bytes ?t = tx_witness_bytes ?t'"
    using inj_onD [OF inj] in_t in_t' by blast+
  then have "tx_bytes ?t = tx_bytes ?t'" by (simp add: tx_bytes_def)
  then show "?t = ?t'" using ok i i' by (intro tx_bytes_inj) auto
qed

lemma collision_free_subset: "collision_free H xs \<Longrightarrow> set ys \<subseteq> set xs \<Longrightarrow> collision_free H ys"
  unfolding collision_free_def by blast

lemma body_transactions_unique:
  assumes len: "\<And>x. length (ph_blake2b_256 H x) = 32"
    and body: "validate_block_body H b = Inr m" "validate_block_body H b' = Inr m'" and wire: "block_wire b" "block_wire b'"
    and root: "h_witness_root (blk_header b) = h_witness_root (blk_header b')"
    and free: "collision_free (ph_blake2b_256 H)
      (witness_inputs (ph_blake2b_256 H) (blk_transactions b) @ witness_inputs (ph_blake2b_256 H) (blk_transactions b'))"
  shows "blk_transactions b = blk_transactions b'"
proof -
  let ?B = "ph_blake2b_256 H"
  let ?ids = "\<lambda>b. map (witness_id ?B) (blk_transactions b)"
  have "collision_free ?B (merkle_inputs ?B (?ids b) @ merkle_inputs ?B (?ids b'))"
    by (rule collision_free_subset [OF free]) (auto simp: witness_inputs_def)
  from merkle_root_inj [OF len this] have ids: "?ids b = ?ids b'"
    using root unfolding body_witness_root(1) [OF body(1) wire(1)] body_witness_root(1) [OF body(2) wire(2)] by (rule iffD1)
  have "inj_on ?B (set (witness_inputs ?B (blk_transactions b)) \<union> set (witness_inputs ?B (blk_transactions b')))"
    using collision_free_inj [OF free] by (simp only: set_append)
  from witness_ids_inj [OF len this body_witness_root(2) [OF body(1) wire(1)] body_witness_root(2) [OF body(2) wire(2)] ids]
  show ?thesis .
qed

section \<open>Slots\<close>

fun slots_of :: "nat option list \<Rightarrow> nat list" where
  "slots_of [] = []"
| "slots_of (None # xs) = slots_of xs"
| "slots_of (Some k # xs) = k # slots_of xs"

lemma slots_of_append [simp]: "slots_of (xs @ ys) = slots_of xs @ slots_of ys"
  by (induction xs rule: slots_of.induct) simp_all

lemma slots_of_replicate [simp]: "slots_of (replicate n None) = []"
  by (induction n) simp_all

lemma set_slots_of: "k \<in> set (slots_of xs) \<longleftrightarrow> Some k \<in> set xs"
  by (induction xs rule: slots_of.induct) auto

lemma length_slots_of: "length (slots_of xs) + length (filter (\<lambda>x. x = None) xs) = length xs"
  by (induction xs rule: slots_of.induct) simp_all

text \<open>Every filled slot refers to a resolved transaction of its own, and the count of filled slots is right.\<close>

definition rc_ok :: "reconstruction \<Rightarrow> bool" where
  "rc_ok r \<longleftrightarrow> distinct (slots_of (rc_available r)) \<and> rc_filled r = length (slots_of (rc_available r)) \<and>
     (\<forall>k \<in> set (slots_of (rc_available r)). k < length (rc_transactions r) \<and> rc_transactions r ! k \<noteq> None) \<and>
     (\<forall>s i. rc_short_id_indexes r s = Some i \<longrightarrow> i < length (rc_available r))"

lemma slot_split:
  assumes "i < length xs"
  shows "xs = take i xs @ xs ! i # drop (Suc i) xs" "xs[i := v] = take i xs @ v # drop (Suc i) xs"
  using assms by (simp_all add: id_take_nth_drop [symmetric] upd_conv_take_nth_drop)

lemma rc_insert_iff:
  "rc_insert i tx r = Inr r' \<longleftrightarrow> i < length (rc_available r) \<and> rc_available r ! i = None \<and>
     r' = r\<lparr>rc_available := (rc_available r)[i := Some (length (rc_transactions r))],
            rc_transactions := rc_transactions r @ [Some tx], rc_filled := rc_filled r + 1\<rparr>"
  by (auto simp: rc_insert_def get_def split: option.splits)

lemma rc_insert_ok:
  assumes "rc_ok r" "rc_insert i tx r = Inr r'"
  shows "rc_ok r' \<and> length (rc_available r') = length (rc_available r)"
proof -
  let ?a = "rc_available r"
  have i: "i < length ?a" "?a ! i = None" using assms(2) by (auto simp: rc_insert_iff)
  have a: "slots_of ?a = slots_of (take i ?a) @ slots_of (drop (Suc i) ?a)"
    using slot_split(1) [OF i(1)] i(2) by (metis slots_of.simps(2) slots_of_append)
  have a': "slots_of (?a[i := Some k]) = slots_of (take i ?a) @ k # slots_of (drop (Suc i) ?a)" for k
    by (simp add: slot_split(2) [OF i(1)])
  have lt: "k < length (rc_transactions r)" if "k \<in> set (slots_of ?a)" for k using assms(1) that by (simp add: rc_ok_def)
  show ?thesis using assms lt
    by (auto simp: rc_insert_iff rc_ok_def a a' nth_append less_Suc_eq)
qed

lemma rc_take_ok:
  assumes "rc_ok r" "i < length (rc_available r)"
  shows "rc_ok (rc_take i r) \<and> length (rc_available (rc_take i r)) = length (rc_available r)"
proof (cases "rc_available r ! i")
  case (Some k)
  let ?a = "rc_available r"
  have a: "slots_of ?a = slots_of (take i ?a) @ k # slots_of (drop (Suc i) ?a)"
    using slot_split(1) [OF assms(2)] Some by (metis slots_of.simps(3) slots_of_append)
  have a': "slots_of (?a[i := None]) = slots_of (take i ?a) @ slots_of (drop (Suc i) ?a)"
    by (simp add: slot_split(2) [OF assms(2)])
  show ?thesis using assms Some by (auto simp: rc_take_def rc_ok_def a a')
qed (use assms in \<open>simp add: rc_take_def\<close>)

lemma insert_prefilled_ok:
  assumes "rc_ok r" "insert_prefilled previous ps r = Inr r'"
  shows "rc_ok r' \<and> length (rc_available r') = length (rc_available r) \<and> rc_header r' = rc_header r"
  using assms
proof (induction previous ps r rule: insert_prefilled.induct)
  case (2 previous p rest r)
  from "2.prems"(2) obtain i r1 where i: "absolute_prefilled_index previous (pf_index p) = Inr i"
    and r1: "rc_insert i (pf_transaction p) r = Inr r1" and rest: "insert_prefilled (Some i) rest r1 = Inr r'"
    by (auto simp: bind_res_eq_Inr)
  from "2.IH" [OF i r1 _ rest] rc_insert_ok [OF "2.prems"(1) r1] r1 show ?case by (simp add: rc_insert_iff)
qed simp

lemma index_short_ids_ok:
  assumes "rc_ok r" "length (rc_available r) = tot" "index_short_ids tot relative offset ids r = Inr r'"
  shows "rc_ok r' \<and> length (rc_available r') = tot \<and> rc_header r' = rc_header r"
  using assms
proof (induction tot relative offset ids r rule: index_short_ids.induct)
  case (2 tot relative offset s rest r)
  let ?o = "skip_filled (rc_available r) relative offset"
  from "2.prems"(3) obtain i where i: "ok_or (checked_add_usize relative ?o) (CbMalformed ''short-id index overflow'') = Inr i"
    "\<not> i \<ge> tot" "\<not> rc_short_id_indexes r s \<noteq> None"
    and rest: "index_short_ids tot (relative + 1) ?o rest (r\<lparr>rc_short_id_indexes := (rc_short_id_indexes r)(s \<mapsto> i)\<rparr>) = Inr r'"
    by (auto simp: Let_def bind_res_eq_Inr split: if_splits)
  have "rc_ok (r\<lparr>rc_short_id_indexes := (rc_short_id_indexes r)(s \<mapsto> i)\<rparr>)"
    using "2.prems"(1,2) i(2) by (simp add: rc_ok_def)
  with "2.IH" [OF refl i _ _ rest] "2.prems"(2) show ?case by simp
qed simp

lemma fill_loop_ok:
  assumes "rc_ok r" "fill_loop H key matched txs r = Inr r'"
  shows "rc_ok r' \<and> length (rc_available r') = length (rc_available r) \<and> rc_header r' = rc_header r"
  using assms
proof (induction txs arbitrary: matched r)
  case (Cons tx txs)
  from Cons.prems(2) obtain s where s: "transaction_short_id H key tx = Inr s" by (auto simp: bind_res_eq_Inr)
  show ?case
  proof (cases "rc_short_id_indexes r s")
    case None
    then show ?thesis using Cons s by simp
  next
    case (Some i)
    then have i: "i < length (rc_available r)" using Cons.prems(1) by (simp add: rc_ok_def)
    show ?thesis
    proof (cases "i \<in> set matched")
      case True
      then have "fill_loop H key matched txs (rc_take i r) = Inr r'" using Cons.prems(2) s Some by simp
      from Cons.IH [OF _ this] rc_take_ok [OF Cons.prems(1) i] show ?thesis by (simp add: rc_take_def split: if_splits)
    next
      case False
      with Cons.prems(2) s Some obtain r1 where r1: "(if rc_available r ! i = None then rc_insert i tx r else Inr r) = Inr r1"
        and rest: "(if rc_is_complete r1 then Inr r1 else fill_loop H key (i # matched) txs r1) = Inr r'"
        by (auto simp: bind_res_eq_Inr)
      have ok: "rc_ok r1 \<and> length (rc_available r1) = length (rc_available r) \<and> rc_header r1 = rc_header r"
        using r1 rc_insert_ok [OF Cons.prems(1), of i tx r1] Cons.prems(1) by (auto simp: rc_insert_iff split: if_splits)
      then show ?thesis using rest Cons.IH [of r1 "i # matched"] by (auto split: if_splits)
    qed
  qed
qed simp

lemma compact_reconstruct_ok:
  assumes "compact_reconstruct H c mempool = Inr r"
  shows "rc_ok r \<and> length (rc_available r) = total_transactions c \<and> rc_header r = cb_header c"
proof -
  let ?r0 = "\<lambda>tot. \<lparr>rc_header = cb_header c, rc_available = replicate tot None, rc_transactions = [],
        rc_short_id_indexes = (\<lambda>_. None), rc_filled = 0\<rparr>"
  from assms obtain tot r1 r2 where tot: "validate_layout c = Inr tot" and r1: "insert_prefilled None (cb_prefilled c) (?r0 tot) = Inr r1"
    and r2: "index_short_ids tot 0 0 (cb_short_ids c) r1 = Inr r2" and r: "fill_mempool H c mempool r2 = Inr r"
    by (auto simp: compact_reconstruct_def bind_res_eq_Inr)
  have t: "tot = total_transactions c" using tot by (auto simp: validate_layout_def Let_def bind_res_eq_Inr split: if_splits)
  have "rc_ok (?r0 tot)" by (simp add: rc_ok_def)
  from insert_prefilled_ok [OF this r1] index_short_ids_ok [OF _ _ r2]
  have "rc_ok r2 \<and> length (rc_available r2) = tot \<and> rc_header r2 = cb_header c" by simp
  with r fill_loop_ok [of r2] show ?thesis by (auto simp: fill_mempool_def t split: if_splits)
qed

lemma fold_insert_ok:
  assumes "rc_ok r" "fold_res (\<lambda>(i, tx). rc_insert i tx) ps r = Inr r'"
  shows "rc_ok r' \<and> length (rc_available r') = length (rc_available r) \<and> rc_header r' = rc_header r"
  using assms
proof (induction ps arbitrary: r)
  case (Cons p ps)
  obtain i tx where p: "p = (i, tx)" by (cases p)
  from Cons.prems(2) obtain r1 where r1: "rc_insert i tx r = Inr r1" and rest: "fold_res (\<lambda>(i, tx). rc_insert i tx) ps r1 = Inr r'"
    by (auto simp: p bind_res_eq_Inr)
  from Cons.IH [OF _ rest] rc_insert_ok [OF Cons.prems(1) r1] r1 show ?case by (simp add: rc_insert_iff)
qed simp

lemma fill_missing_ok:
  assumes "rc_ok r" "fill_missing H t r = Inr r'"
  shows "rc_ok r' \<and> length (rc_available r') = length (rc_available r) \<and> rc_header r' = rc_header r"
  using assms fold_insert_ok [OF assms(1)] by (auto simp: fill_missing_def Let_def split: if_splits)

text \<open>The reconstructions a node can hold for a compact block: started from any memory pool, fed with any responses.\<close>

inductive rc_reachable :: "pow_hashes \<Rightarrow> compact_block \<Rightarrow> reconstruction \<Rightarrow> bool" for H c where
  start: "compact_reconstruct H c mempool = Inr r \<Longrightarrow> rc_reachable H c r"
| fill: "rc_reachable H c r \<Longrightarrow> fill_missing H t r = Inr r' \<Longrightarrow> rc_reachable H c r'"

lemma rc_reachable_ok:
  "rc_reachable H c r \<Longrightarrow> rc_ok r \<and> length (rc_available r) = total_transactions c \<and> rc_header r = cb_header c"
proof (induction rule: rc_reachable.induct)
  case (start mempool r)
  then show ?case by (rule compact_reconstruct_ok)
next
  case (fill r t r')
  then show ?case using fill_missing_ok [of r H t r'] by simp
qed

lemma take_resolved_eq:
  assumes "distinct (slots_of av)" "\<forall>x \<in> set av. x \<noteq> None"
    and "\<forall>k \<in> set (slots_of av). k < length tr \<and> tr ! k \<noteq> None"
  shows "take_resolved av tr = Inr (map (\<lambda>x. the (tr ! the x)) av)"
  using assms
proof (induction av arbitrary: tr)
  case (Cons x av)
  then obtain k where x: "x = Some k" by (cases x) auto
  with Cons.prems obtain tx where tx: "k < length tr" "tr ! k = Some tx" and k: "k \<notin> set (slots_of av)" by auto
  have "take_resolved av (tr[k := None]) = Inr (map (\<lambda>x. the (tr[k := None] ! the x)) av)"
    using Cons.prems x k by (intro Cons.IH) (auto simp: nth_list_update)
  moreover have "map (\<lambda>x. the (tr[k := None] ! the x)) av = map (\<lambda>x. the (tr ! the x)) av"
  proof (intro map_cong refl)
    fix z
    assume "z \<in> set av"
    then obtain j where "z = Some j" "j \<noteq> k" using Cons.prems(2) k by (cases z) (auto simp: set_slots_of)
    then show "the (tr[k := None] ! the z) = the (tr ! the z)" by simp
  qed
  ultimately show ?case using tx by (simp add: x get_def)
qed simp

text \<open>The transactions of the slots, for a complete reconstruction.\<close>

definition rc_body :: "reconstruction \<Rightarrow> transaction list" where
  "rc_body r = map (\<lambda>x. the (rc_transactions r ! the x)) (rc_available r)"

lemma rc_complete_iff: "rc_ok r \<Longrightarrow> rc_is_complete r \<longleftrightarrow> (\<forall>x \<in> set (rc_available r). x \<noteq> None)"
  using length_slots_of [of "rc_available r"] by (auto simp: rc_ok_def rc_is_complete_def filter_empty_conv)

lemma missing_indexes_Nil: "missing_indexes r = [] \<longleftrightarrow> (\<forall>x \<in> set (rc_available r). x \<noteq> None)"
  by (auto simp: missing_indexes_def filter_empty_conv all_set_conv_all_nth)

lemma into_block_eq:
  assumes "rc_ok r"
  shows "into_block H r =
    (if missing_indexes r \<noteq> [] then Inl CbIncomplete
     else if is_ok (validate_block_body H \<lparr>blk_header = rc_header r, blk_transactions = rc_body r\<rparr>)
     then Inr \<lparr>blk_header = rc_header r, blk_transactions = rc_body r\<rparr> else Inl CbInvalidBlockBody)"
proof (cases "rc_is_complete r")
  case True
  then have "take_resolved (rc_available r) (rc_transactions r) = Inr (rc_body r)"
    using assms rc_complete_iff [OF assms] unfolding rc_body_def by (intro take_resolved_eq) (auto simp: rc_ok_def)
  then show ?thesis using True rc_complete_iff [OF assms]
    by (cases "validate_block_body H \<lparr>blk_header = rc_header r, blk_transactions = rc_body r\<rparr>")
      (simp_all add: into_block_def missing_indexes_Nil is_ok_def Let_def)
next
  case False
  then show ?thesis using rc_complete_iff [OF assms] by (simp add: into_block_def missing_indexes_Nil)
qed

end
