(* ===== verification/CompactRelay.thy ===== *)
theory CompactRelay
  imports CompactProofs
begin

text \<open>
  Relay of a block between honest peers: the compact block of a block, a reconstruction from any memory pool, the request
  for what is missing and the answer of the sender give the block back.
\<close>

section \<open>Reconstructions of a block\<close>

definition rc_of :: "block \<Rightarrow> reconstruction \<Rightarrow> bool" where
  "rc_of b r \<longleftrightarrow> rc_ok r \<and> rc_header r = blk_header b \<and> length (rc_available r) = length (blk_transactions b) \<and>
     (\<forall>i k. i < length (rc_available r) \<longrightarrow> rc_available r ! i = Some k \<longrightarrow> rc_transactions r ! k = Some (blk_transactions b ! i))"

lemma rc_of_insert:
  assumes "rc_of b r" "i < length (rc_available r)" "rc_available r ! i = None"
  obtains r' where "rc_insert i (blk_transactions b ! i) r = Inr r'" "rc_of b r'"
    "rc_available r' = (rc_available r)[i := Some (length (rc_transactions r))]"
    "rc_short_id_indexes r' = rc_short_id_indexes r"
proof
  let ?r' = "r\<lparr>rc_available := (rc_available r)[i := Some (length (rc_transactions r))],
    rc_transactions := rc_transactions r @ [Some (blk_transactions b ! i)], rc_filled := rc_filled r + 1\<rparr>"
  show ins: "rc_insert i (blk_transactions b ! i) r = Inr ?r'" using assms(2,3) by (simp add: rc_insert_iff)
  have "k < length (rc_transactions r)" if "j < length (rc_available r)" "rc_available r ! j = Some k" for j k
  proof -
    have "k \<in> set (slots_of (rc_available r))" using that by (metis nth_mem set_slots_of)
    then show ?thesis using assms(1) by (simp add: rc_of_def rc_ok_def)
  qed
  then show "rc_of b ?r'"
    using assms rc_insert_ok [OF _ ins] by (auto simp: rc_of_def nth_list_update nth_append)
qed simp_all

lemma rc_of_take:
  assumes "rc_of b r" "i < length (rc_available r)"
  shows "rc_of b (rc_take i r)" "rc_short_id_indexes (rc_take i r) = rc_short_id_indexes r"
  using assms rc_take_ok [of r i] by (auto simp: rc_of_def rc_take_def nth_list_update split: if_splits)

lemma rc_body_of:
  assumes "rc_of b r" "missing_indexes r = []"
  shows "rc_body r = blk_transactions b"
proof (rule nth_equalityI)
  show len: "length (rc_body r) = length (blk_transactions b)" using assms(1) by (simp add: rc_of_def rc_body_def)
  fix i
  assume "i < length (rc_body r)"
  then have i: "i < length (rc_available r)" by (simp add: rc_body_def)
  then obtain k where "rc_available r ! i = Some k" using assms(2) by (metis missing_indexes_Nil not_Some_eq nth_mem)
  then show "rc_body r ! i = blk_transactions b ! i" using assms(1) i by (simp add: rc_of_def rc_body_def)
qed

section \<open>The short identifiers of a block\<close>

lemma skip_filled_1:
  assumes "0 < relative"
  shows "skip_filled (Some x # replicate m None) relative (Suc 0) = Suc 0"
  using assms by (subst skip_filled.simps) (auto simp: nth_Cons')

lemma skip_filled_0: "skip_filled (Some x # replicate m None) 0 0 = Suc 0"
  by (subst skip_filled.simps, subst skip_filled.simps) (auto simp: nth_Cons')

lemma index_short_ids_run:
  assumes "rc_available r = Some x # replicate m None" "skip_filled (rc_available r) relative offset = Suc 0"
    and "relative + length ids = m" "m < usize_max" "distinct ids" "\<forall>s \<in> set ids. rc_short_id_indexes r s = None"
  shows "\<exists>f. index_short_ids (Suc m) relative offset ids r = Inr (r\<lparr>rc_short_id_indexes := f\<rparr>) \<and>
    (\<forall>s i. f s = Some i \<longrightarrow> rc_short_id_indexes r s = Some i \<or>
      (\<exists>j < length ids. ids ! j = s \<and> i = Suc (relative + j)))"
  using assms
proof (induction ids arbitrary: relative offset r)
  case Nil
  show ?case by (rule exI [of _ "rc_short_id_indexes r"]) simp
next
  case (Cons s ids)
  let ?r = "r\<lparr>rc_short_id_indexes := (rc_short_id_indexes r)(s \<mapsto> Suc relative)\<rparr>"
  have "\<exists>f. index_short_ids (Suc m) (Suc relative) (Suc 0) ids ?r = Inr (?r\<lparr>rc_short_id_indexes := f\<rparr>) \<and>
    (\<forall>t i. f t = Some i \<longrightarrow> rc_short_id_indexes ?r t = Some i \<or> (\<exists>j < length ids. ids ! j = t \<and> i = Suc (Suc relative + j)))"
    using Cons.prems by (intro Cons.IH) (auto simp: skip_filled_1)
  then obtain f where run: "index_short_ids (Suc m) (Suc relative) (Suc 0) ids ?r = Inr (r\<lparr>rc_short_id_indexes := f\<rparr>)"
    and f: "\<And>t i. f t = Some i \<Longrightarrow> rc_short_id_indexes ?r t = Some i \<or> (\<exists>j < length ids. ids ! j = t \<and> i = Suc (Suc relative + j))"
    by auto
  have "index_short_ids (Suc m) relative offset (s # ids) r = Inr (r\<lparr>rc_short_id_indexes := f\<rparr>)"
    using Cons.prems run by (simp add: Let_def checked_add_usize_def)
  moreover have "rc_short_id_indexes r t = Some i \<or> (\<exists>j < length (s # ids). (s # ids) ! j = t \<and> i = Suc (relative + j))"
    if "f t = Some i" for t i
    using f [OF that] by (auto split: if_splits intro: exI [of _ 0] exI [of _ "Suc _"])
  ultimately show ?case by blast
qed

text \<open>A short identifier that occurs twice stops the indexing.\<close>

lemma index_short_ids_collision:
  assumes "rc_available r = Some x # replicate m None" "skip_filled (rc_available r) relative offset = Suc 0"
    and "relative + length ids = m" "m < usize_max" "\<not> (distinct ids \<and> (\<forall>s \<in> set ids. rc_short_id_indexes r s = None))"
  shows "\<exists>s. index_short_ids (Suc m) relative offset ids r = Inl (ShortIdCollision s)"
  using assms
proof (induction ids arbitrary: relative offset r)
  case (Cons s ids)
  show ?case
  proof (cases "rc_short_id_indexes r s")
    case None
    let ?r = "r\<lparr>rc_short_id_indexes := (rc_short_id_indexes r)(s \<mapsto> Suc relative)\<rparr>"
    have "\<exists>t. index_short_ids (Suc m) (Suc relative) (Suc 0) ids ?r = Inl (ShortIdCollision t)"
      using Cons.prems None by (intro Cons.IH) (auto simp: skip_filled_1)
    then show ?thesis using Cons.prems None by (simp add: Let_def checked_add_usize_def)
  next
    case (Some i)
    then show ?thesis using Cons.prems by (simp add: Let_def checked_add_usize_def)
  qed
qed simp

section \<open>The memory pool\<close>

text \<open>Every transaction of the pool has a short identifier, and shares it with no other transaction of the block.\<close>

definition pool_agrees :: "pow_hashes \<Rightarrow> bytes \<Rightarrow> block \<Rightarrow> transaction list \<Rightarrow> bool" where
  "pool_agrees H key b mempool \<longleftrightarrow>
     (\<forall>tx \<in> set mempool. \<exists>s. transaction_short_id H key tx = Inr s \<and>
        (\<forall>tx' \<in> set (tl (blk_transactions b)). transaction_short_id H key tx' = Inr s \<longrightarrow> tx = tx'))"

definition indexes_of :: "pow_hashes \<Rightarrow> bytes \<Rightarrow> block \<Rightarrow> reconstruction \<Rightarrow> bool" where
  "indexes_of H key b r \<longleftrightarrow> (\<forall>s i. rc_short_id_indexes r s = Some i \<longrightarrow>
     0 < i \<and> i < length (blk_transactions b) \<and> transaction_short_id H key (blk_transactions b ! i) = Inr s)"

lemma fill_loop_of:
  assumes "rc_of b r" "indexes_of H key b r" "pool_agrees H key b mempool"
  shows "\<exists>r'. fill_loop H key matched mempool r = Inr r' \<and> rc_of b r'"
  using assms
proof (induction mempool arbitrary: matched r)
  case (Cons tx mempool)
  have pool: "pool_agrees H key b mempool" using Cons.prems(3) by (simp add: pool_agrees_def)
  from Cons.prems(3) obtain s where s: "transaction_short_id H key tx = Inr s"
    and same: "\<forall>tx' \<in> set (tl (blk_transactions b)). transaction_short_id H key tx' = Inr s \<longrightarrow> tx = tx'"
    by (auto simp: pool_agrees_def)
  show ?case
  proof (cases "rc_short_id_indexes r s")
    case None
    then show ?thesis using Cons pool s by simp
  next
    case (Some i)
    then have i: "0 < i" "i < length (blk_transactions b)" "transaction_short_id H key (blk_transactions b ! i) = Inr s"
      using Cons.prems(2) by (auto simp: indexes_of_def)
    have av: "i < length (rc_available r)" using i Cons.prems(1) by (simp add: rc_of_def)
    have "blk_transactions b ! i \<in> set (tl (blk_transactions b))"
      using i by (cases "blk_transactions b") (auto simp: nth_Cons')
    then have tx: "tx = blk_transactions b ! i" using same i(3) by blast
    show ?thesis
    proof (cases "i \<in> set matched")
      case True
      have "indexes_of H key b (rc_take i r)" using Cons.prems(2) rc_of_take(2) [OF Cons.prems(1) av] by (simp add: indexes_of_def)
      from Cons.IH [OF rc_of_take(1) [OF Cons.prems(1) av] this pool] True s Some show ?thesis by simp
    next
      case False
      obtain r1 where r1: "(if rc_available r ! i = None then rc_insert i tx r else Inr r) = Inr r1" "rc_of b r1"
        "rc_short_id_indexes r1 = rc_short_id_indexes r"
        using rc_of_insert [OF Cons.prems(1) av] Cons.prems(1) tx by metis
      have "indexes_of H key b r1" using Cons.prems(2) r1(3) by (simp add: indexes_of_def)
      from Cons.IH [OF r1(2) this pool, of "i # matched"] r1 False s Some show ?thesis by auto
    qed
  qed
qed auto

section \<open>Requests and responses\<close>

lemma check_absolute_indexes_sorted:
  assumes "sorted_wrt (<) xs" "\<forall>x \<in> set xs. x \<le> 0xffff" "\<forall>p. previous = Some p \<longrightarrow> (\<forall>x \<in> set xs. p < x)"
  shows "check_absolute_indexes previous xs = Inr ()"
  using assms by (induction previous xs rule: check_absolute_indexes.induct) (auto split: option.splits)

lemma missing_indexes_facts:
  "sorted_wrt (<) (missing_indexes r)" "distinct (missing_indexes r)"
  "i \<in> set (missing_indexes r) \<longleftrightarrow> i < length (rc_available r) \<and> rc_available r ! i = None"
  by (auto simp: missing_indexes_def intro: sorted_wrt_filter)

lemma length_missing_indexes: "length (missing_indexes r) = length (filter (\<lambda>x. x = None) (rc_available r))"
proof -
  have "filter (\<lambda>x. x = None) (rc_available r) = filter (\<lambda>x. x = None) (map ((!) (rc_available r)) [0..<length (rc_available r)])"
    by (simp only: map_nth)
  then show ?thesis by (simp add: missing_indexes_def filter_map comp_def)
qed

lemma fold_insert_of:
  assumes "rc_of b r" "distinct js" "\<forall>i \<in> set js. i < length (rc_available r) \<and> rc_available r ! i = None"
  shows "\<exists>r'. fold_res (\<lambda>(i, tx). rc_insert i tx) (zip js (map ((!) (blk_transactions b)) js)) r = Inr r' \<and> rc_of b r' \<and>
    (\<forall>i < length (rc_available r). rc_available r' ! i = None \<longrightarrow> rc_available r ! i = None \<and> i \<notin> set js)"
  using assms
proof (induction js arbitrary: r)
  case (Cons i js)
  obtain r1 where r1: "rc_insert i (blk_transactions b ! i) r = Inr r1" "rc_of b r1"
    "rc_available r1 = (rc_available r)[i := Some (length (rc_transactions r))]"
    using rc_of_insert [OF Cons.prems(1), of i] Cons.prems(3) by auto
  have "\<forall>j \<in> set js. j < length (rc_available r1) \<and> rc_available r1 ! j = None"
    using Cons.prems(2,3) r1(3) by (auto simp: nth_list_update)
  from Cons.IH [OF r1(2) _ this] Cons.prems(2) obtain r' where
    r': "fold_res (\<lambda>(i, tx). rc_insert i tx) (zip js (map ((!) (blk_transactions b)) js)) r1 = Inr r'" "rc_of b r'"
    "\<forall>j < length (rc_available r1). rc_available r' ! j = None \<longrightarrow> rc_available r1 ! j = None \<and> j \<notin> set js" by auto
  show ?case
  proof (intro exI conjI)
    show "fold_res (\<lambda>(i, tx). rc_insert i tx) (zip (i # js) (map ((!) (blk_transactions b)) (i # js))) r = Inr r'"
      using r1(1) r'(1) by simp
    show "\<forall>j < length (rc_available r). rc_available r' ! j = None \<longrightarrow> rc_available r ! j = None \<and> j \<notin> set (i # js)"
    proof (intro allI impI)
      fix j
      assume j: "j < length (rc_available r)" "rc_available r' ! j = None"
      then have "rc_available r1 ! j = None" "j \<notin> set js" using r'(3) r1(3) by auto
      then show "rc_available r ! j = None \<and> j \<notin> set (i # js)" using j r1(3) by (cases "i = j") auto
    qed
  qed (rule r'(2))
qed auto

lemma fill_missing_of:
  assumes "rc_of b r" "length (blk_transactions b) \<le> max_compact_block_transactions"
  shows "\<exists>t r'. response_from_block H b (missing_request H r) = Inr t \<and> fill_missing H t r = Inr r' \<and> rc_of b r' \<and>
    missing_indexes r' = []"
proof -
  let ?js = "missing_indexes r"
  let ?t = "\<lparr>ct_block_hash = block_hash H (blk_header b), ct_transactions = map ((!) (blk_transactions b)) ?js\<rparr>"
  have len: "length (rc_available r) = length (blk_transactions b)" and head: "rc_header r = blk_header b"
    using assms(1) by (auto simp: rc_of_def)
  have "length ?js \<le> length (rc_available r)" unfolding length_missing_indexes by simp
  then have "validate_absolute_indexes ?js = Inr ()"
    using assms(2) len unfolding validate_absolute_indexes_def
    by (auto simp: max_compact_block_transactions_def missing_indexes_facts intro!: check_absolute_indexes_sorted)
  moreover have "map_res (requested_transaction b) ?js = Inr (map ((!) (blk_transactions b)) ?js)"
    by (rule map_res_eq) (auto simp: missing_indexes_facts len requested_transaction_def get_def)
  ultimately have t: "response_from_block H b (missing_request H r) = Inr ?t"
    by (simp add: response_from_block_def missing_request_def head)
  have none: "\<forall>i \<in> set ?js. i < length (rc_available r) \<and> rc_available r ! i = None" by (simp add: missing_indexes_facts)
  from fold_insert_of [OF assms(1) missing_indexes_facts(2) none] obtain r' where
    r': "fold_res (\<lambda>(i, tx). rc_insert i tx) (zip ?js (map ((!) (blk_transactions b)) ?js)) r = Inr r'" "rc_of b r'"
    "\<forall>i < length (rc_available r). rc_available r' ! i = None \<longrightarrow> rc_available r ! i = None \<and> i \<notin> set ?js"
    by blast
  have "length (rc_available r') = length (rc_available r)" using r'(2) assms(1) by (simp add: rc_of_def)
  then have "missing_indexes r' = []" using r'(3) by (auto simp: missing_indexes_Nil missing_indexes_facts all_set_conv_all_nth)
  moreover have "fill_missing H ?t r = Inr r'" using r'(1) by (simp add: fill_missing_def head length_missing_indexes)
  ultimately show ?thesis using t r'(2) by blast
qed

section \<open>Relay\<close>

lemma from_block_parts:
  assumes "from_block_with_nonce H b nonce = Inr c"
  obtains m ids cb rest where "validate_block_body H b = Inr m" "blk_transactions b = cb # rest"
    "map_res (transaction_short_id H (siphash_key H (blk_header b) nonce)) rest = Inr ids"
    "c = \<lparr>cb_header = blk_header b, cb_key_nonce = nonce, cb_short_ids = ids,
          cb_prefilled = [\<lparr>pf_index = 0, pf_transaction = cb\<rparr>]\<rparr>"
    "validate_layout c = Inr (total_transactions c)" "total_transactions c \<le> max_compact_block_transactions"
proof -
  from assms obtain m where m: "validate_block_body H b = Inr m"
    by (auto simp: from_block_with_nonce_def bind_res_eq_Inr map_err_eq_Inr)
  then obtain cb rest where txs: "blk_transactions b = cb # rest" by (auto simp: validate_block_body_iff neq_Nil_conv)
  from assms obtain ids tot where ids: "map_res (transaction_short_id H (siphash_key H (blk_header b) nonce)) rest = Inr ids"
    and c: "c = \<lparr>cb_header = blk_header b, cb_key_nonce = nonce, cb_short_ids = ids,
          cb_prefilled = [\<lparr>pf_index = 0, pf_transaction = cb\<rparr>]\<rparr>" and tot: "validate_layout c = Inr tot"
    by (auto simp: from_block_with_nonce_def m txs bind_res_eq_Inr Let_def)
  from tot have "tot = total_transactions c \<and> total_transactions c \<le> max_compact_block_transactions"
    by (auto simp: validate_layout_def Let_def bind_res_eq_Inr split: if_splits)
  with that [OF m txs ids c] tot show thesis by simp
qed

lemma map_res_nth:
  "map_res f xs = Inr ys \<Longrightarrow> length ys = length xs \<and> (\<forall>i < length xs. f (xs ! i) = Inr (ys ! i))"
  by (induction xs arbitrary: ys) (auto simp: bind_res_eq_Inr nth_Cons')

text \<open>What a node makes of the compact block of an honest peer before it looks at its memory pool.\<close>

lemma compact_reconstruct_start:
  assumes c: "from_block_with_nonce H b nonce = Inr c"
  obtains cb rest where "blk_transactions b = cb # rest" "length (cb_short_ids c) = length rest" "length rest < usize_max"
    "\<forall>i < length rest. transaction_short_id H (siphash_key H (blk_header b) nonce) (rest ! i) = Inr (cb_short_ids c ! i)"
    "\<forall>mempool. compact_reconstruct H c mempool =
       bind_res (index_short_ids (Suc (length rest)) 0 0 (cb_short_ids c)
         \<lparr>rc_header = blk_header b, rc_available = Some 0 # replicate (length rest) None, rc_transactions = [Some cb],
          rc_short_id_indexes = (\<lambda>_. None), rc_filled = 1\<rparr>) (fill_mempool H c mempool)"
proof -
  let ?key = "siphash_key H (blk_header b) nonce"
  from c obtain m cb rest where txs: "blk_transactions b = cb # rest"
    and short: "map_res (transaction_short_id H ?key) rest = Inr (cb_short_ids c)"
    and cs: "cb_header c = blk_header b" "cb_key_nonce c = nonce" "cb_prefilled c = [\<lparr>pf_index = 0, pf_transaction = cb\<rparr>]"
    and lay: "validate_layout c = Inr (total_transactions c)" "total_transactions c \<le> max_compact_block_transactions"
    by (rule from_block_parts) auto
  have len: "length (cb_short_ids c) = length rest"
    and nth: "\<forall>i < length rest. transaction_short_id H ?key (rest ! i) = Inr (cb_short_ids c ! i)"
    using map_res_nth [OF short] by auto
  have small: "length rest < usize_max" and tot: "total_transactions c = Suc (length rest)"
    using lay(2) len by (auto simp: total_transactions_def saturating_add_usize_def cs usize_max_def max_compact_block_transactions_def)
  have one: "insert_prefilled None (cb_prefilled c) \<lparr>rc_header = cb_header c, rc_available = replicate (Suc (length rest)) None,
      rc_transactions = [], rc_short_id_indexes = (\<lambda>_. None), rc_filled = 0\<rparr> =
    Inr \<lparr>rc_header = blk_header b, rc_available = Some 0 # replicate (length rest) None, rc_transactions = [Some cb],
        rc_short_id_indexes = (\<lambda>_. None), rc_filled = 1\<rparr>"
    by (simp add: cs absolute_prefilled_index_def rc_insert_def get_def)
  show thesis
    by (rule that [OF txs len small nth]) (unfold compact_reconstruct_def lay(1) tot bind_res_Inr one, simp)
qed

lemma compact_reconstruct_collision:
  assumes "from_block_with_nonce H b nonce = Inr c" "\<not> distinct (cb_short_ids c)"
  shows "\<exists>s. compact_reconstruct H c mempool = Inl (ShortIdCollision s)"
proof -
  obtain cb rest where "blk_transactions b = cb # rest" and len: "length (cb_short_ids c) = length rest" "length rest < usize_max"
    and "\<forall>i < length rest. transaction_short_id H (siphash_key H (blk_header b) nonce) (rest ! i) = Inr (cb_short_ids c ! i)"
    and run: "\<forall>mempool. compact_reconstruct H c mempool =
       bind_res (index_short_ids (Suc (length rest)) 0 0 (cb_short_ids c)
         \<lparr>rc_header = blk_header b, rc_available = Some 0 # replicate (length rest) None, rc_transactions = [Some cb],
          rc_short_id_indexes = (\<lambda>_. None), rc_filled = 1\<rparr>) (fill_mempool H c mempool)"
    by (rule compact_reconstruct_start [OF assms(1)])
  let ?r = "\<lparr>rc_header = blk_header b, rc_available = Some 0 # replicate (length rest) None, rc_transactions = [Some cb],
          rc_short_id_indexes = (\<lambda>_. None), rc_filled = 1\<rparr>"
  have "\<exists>s. index_short_ids (Suc (length rest)) 0 0 (cb_short_ids c) ?r = Inl (ShortIdCollision s)"
    by (rule index_short_ids_collision) (simp_all add: skip_filled_0 len assms(2))
  then show ?thesis using run by auto
qed

lemma compact_reconstruct_of:
  assumes c: "from_block_with_nonce H b nonce = Inr c" and ids: "distinct (cb_short_ids c)"
    and pool: "pool_agrees H (siphash_key H (blk_header b) nonce) b mempool"
  shows "\<exists>r. compact_reconstruct H c mempool = Inr r \<and> rc_of b r"
proof -
  let ?key = "siphash_key H (blk_header b) nonce" and ?ids = "cb_short_ids c"
  obtain cb rest where txs: "blk_transactions b = cb # rest" and len: "length ?ids = length rest" and small: "length rest < usize_max"
    and nth: "\<forall>i < length rest. transaction_short_id H ?key (rest ! i) = Inr (?ids ! i)"
    and run: "\<forall>mempool. compact_reconstruct H c mempool =
       bind_res (index_short_ids (Suc (length rest)) 0 0 ?ids
         \<lparr>rc_header = blk_header b, rc_available = Some 0 # replicate (length rest) None, rc_transactions = [Some cb],
          rc_short_id_indexes = (\<lambda>_. None), rc_filled = 1\<rparr>) (fill_mempool H c mempool)"
    by (rule compact_reconstruct_start [OF c])
  let ?r1 = "\<lparr>rc_header = blk_header b, rc_available = Some 0 # replicate (length rest) None, rc_transactions = [Some cb],
        rc_short_id_indexes = (\<lambda>_. None), rc_filled = 1\<rparr>"
  have cs: "cb_header c = blk_header b" "cb_key_nonce c = nonce" using c by (rule from_block_parts, simp)+
  have "\<exists>f. index_short_ids (Suc (length rest)) 0 0 ?ids ?r1 = Inr (?r1\<lparr>rc_short_id_indexes := f\<rparr>) \<and>
    (\<forall>s i. f s = Some i \<longrightarrow> rc_short_id_indexes ?r1 s = Some i \<or> (\<exists>j < length ?ids. ?ids ! j = s \<and> i = Suc (0 + j)))"
    by (rule index_short_ids_run) (simp_all add: skip_filled_0 len small ids)
  then obtain f where two: "index_short_ids (Suc (length rest)) 0 0 ?ids ?r1 = Inr (?r1\<lparr>rc_short_id_indexes := f\<rparr>)"
    and f: "\<And>s i. f s = Some i \<Longrightarrow> \<exists>j < length rest. ?ids ! j = s \<and> i = Suc j" by (auto simp: len)
  let ?r2 = "?r1\<lparr>rc_short_id_indexes := f\<rparr>"
  have of2: "rc_of b ?r2"
    using f by (fastforce simp: rc_of_def rc_ok_def txs nth_Cons' split: if_splits)
  have "indexes_of H ?key b ?r2" using f nth by (fastforce simp: indexes_of_def txs)
  from fill_loop_of [OF of2 this pool, of "[]"] obtain r where r: "fill_loop H ?key [] mempool ?r2 = Inr r" "rc_of b r" by blast
  show ?thesis
  proof (cases "rc_is_complete ?r2")
    case True
    then show ?thesis using run two of2 by (simp add: fill_mempool_def)
  next
    case False
    then show ?thesis using run two r by (simp add: fill_mempool_def cs)
  qed
qed

text \<open>
  C12: relay of compact blocks completes, up to collisions of short identifiers. Take the compact block an honest peer made
  of a valid block. When two of its short identifiers are equal, every reconstruction is refused with the error of a
  collision. Otherwise, for every memory pool none of whose transactions shares a short identifier with a different
  transaction of the block, a node reconstructs, asks the peer for what is missing, fills in the answer and obtains
  exactly that block; duplicates in the pool, transactions the pool lacks and transactions of other blocks do no harm.
\<close>

theorem compact_block_relay:
  assumes "from_block_with_nonce H b nonce = Inr c"
  shows "(\<not> distinct (cb_short_ids c) \<longrightarrow> (\<exists>s. compact_reconstruct H c mempool = Inl (ShortIdCollision s))) \<and>
    (distinct (cb_short_ids c) \<and> pool_agrees H (siphash_key H (blk_header b) nonce) b mempool \<longrightarrow>
      (\<exists>r t r'. compact_reconstruct H c mempool = Inr r \<and> response_from_block H b (missing_request H r) = Inr t \<and>
        fill_missing H t r = Inr r' \<and> into_block H r' = Inr b))"
proof (intro conjI impI)
  assume "\<not> distinct (cb_short_ids c)"
  with assms show "\<exists>s. compact_reconstruct H c mempool = Inl (ShortIdCollision s)" by (rule compact_reconstruct_collision)
next
  assume free: "distinct (cb_short_ids c) \<and> pool_agrees H (siphash_key H (blk_header b) nonce) b mempool"
  from compact_reconstruct_of [OF assms] free obtain r where r: "compact_reconstruct H c mempool = Inr r" "rc_of b r" by blast
  have "length (blk_transactions b) = total_transactions c"
    using compact_reconstruct_ok [OF r(1)] r(2) by (simp add: rc_of_def)
  then have "length (blk_transactions b) \<le> max_compact_block_transactions" using assms(1) by (metis from_block_parts)
  from fill_missing_of [OF r(2) this, of H] obtain t r' where
    t: "response_from_block H b (missing_request H r) = Inr t" "fill_missing H t r = Inr r'" "rc_of b r'" "missing_indexes r' = []" by blast
  have "\<lparr>blk_header = rc_header r', blk_transactions = rc_body r'\<rparr> = b"
    using t(3) rc_body_of [OF t(3,4)] by (simp add: rc_of_def)
  moreover have "is_ok (validate_block_body H b)"
    using assms(1) by (rule from_block_parts) (simp add: is_ok_def)
  ultimately have "into_block H r' = Inr b" using into_block_eq [of r' H] t(3,4) by (simp add: rc_of_def)
  with r(1) t(1,2) show "\<exists>r t r'. compact_reconstruct H c mempool = Inr r \<and> response_from_block H b (missing_request H r) = Inr t \<and>
        fill_missing H t r = Inr r' \<and> into_block H r' = Inr b" by blast
qed

section \<open>Safety of reconstructions\<close>

text \<open>
  A reconstruction is always consistent, whatever memory pool it started from and whatever responses it was fed. It
  has one slot per transaction of the compact block, it is complete exactly when it asks for nothing more, and
  turning it into a block fails only because something is missing or because the body does not match the header: the
  defensive error about shared slots is never reported.
\<close>

theorem reconstruction_invariant:
  assumes "rc_reachable H c r"
  shows "length (rc_available r) = total_transactions c \<and>
    (rc_is_complete r \<longleftrightarrow> cr_indexes (missing_request H r) = []) \<and>
    into_block H r =
      (if missing_indexes r \<noteq> [] then Inl CbIncomplete
       else if is_ok (validate_block_body H \<lparr>blk_header = cb_header c, blk_transactions = rc_body r\<rparr>)
       then Inr \<lparr>blk_header = cb_header c, blk_transactions = rc_body r\<rparr> else Inl CbInvalidBlockBody)"
proof (intro conjI)
  have ok: "rc_ok r" "length (rc_available r) = total_transactions c" "rc_header r = cb_header c"
    using rc_reachable_ok [OF assms] by auto
  then show "length (rc_available r) = total_transactions c"
    "rc_is_complete r \<longleftrightarrow> cr_indexes (missing_request H r) = []"
    by (simp_all add: rc_complete_iff missing_request_def missing_indexes_Nil)
  show "into_block H r =
      (if missing_indexes r \<noteq> [] then Inl CbIncomplete
       else if is_ok (validate_block_body H \<lparr>blk_header = cb_header c, blk_transactions = rc_body r\<rparr>)
       then Inr \<lparr>blk_header = cb_header c, blk_transactions = rc_body r\<rparr> else Inl CbInvalidBlockBody)"
    using into_block_eq [OF ok(1)] unfolding ok(3) .
qed

text \<open>
  C11: a compact block cannot be completed into anything but the block its header belongs to. Whatever memory pool and
  whatever responses were used, if the result is a block and some valid block has the same header, the two are
  equal, for a 32-byte hash without collisions among the strings hashed for the two witness roots.
\<close>

theorem compact_block_sound:
  assumes "\<And>x. length (ph_blake2b_256 H x) = 32"
    and "rc_reachable H c r" "into_block H r = Inr b" "block_wire b"
    and "blk_header b' = cb_header c" "validate_block_body H b' = Inr m" "block_wire b'"
    and "collision_free (ph_blake2b_256 H)
      (witness_inputs (ph_blake2b_256 H) (blk_transactions b) @ witness_inputs (ph_blake2b_256 H) (blk_transactions b'))"
  shows "b = b'"
proof -
  have r: "rc_ok r" "rc_header r = cb_header c" using rc_reachable_ok [OF assms(2)] by auto
  from assms(3) obtain m' where "validate_block_body H b = Inr m'" and h: "blk_header b = cb_header c"
    unfolding into_block_eq [OF r(1)] r(2) by (auto simp: is_ok_iff split: if_splits)
  then have "blk_transactions b = blk_transactions b'"
    using body_transactions_unique [OF assms(1) _ assms(6) assms(4,7) _ assms(8)] assms(5) by simp
  then show ?thesis using h assms(5) by (simp add: block.equality)
qed

section \<open>An example\<close>

definition relay_hashes :: pow_hashes where
  "relay_hashes = \<lparr>ph_blake2b_256 = sample_hash, ph_blake2b_512 = \<lambda>_. [], ph_sha3_256 = \<lambda>_. []\<rparr>"

definition relay_spend :: transaction where
  "relay_spend = \<lparr>tx_version = 0,
     tx_inputs = [\<lparr>in_previous_output = \<lparr>op_hash = replicate 32 3, op_index = 1\<rparr>, in_sequence = 5, in_witness = [[2, 3]]\<rparr>],
     tx_outputs = [\<lparr>out_value = 4, out_address = \<lparr>addr_version = 0, addr_hash = replicate 20 8\<rparr>, out_covenant = covenant_default\<rparr>],
     tx_locktime = 0\<rparr>"

definition relay_block :: block where
  "relay_block = \<lparr>blk_header = header_default\<lparr>h_merkle_root := replicate 30 170 @ [138, 65],
     h_witness_root := replicate 30 170 @ [204, 65]\<rparr>, blk_transactions = [sample_coinbase, relay_spend]\<rparr>"

lemma relay_body: "is_ok (validate_block_body relay_hashes relay_block)"
  by code_simp

lemma relay_free:
  "collision_free sample_hash (witness_inputs sample_hash (blk_transactions relay_block))"
  by code_simp

lemma relay_witness_hash: "\<not> isl (witness_hash sample_hash relay_spend)"
  by code_simp

lemma short_id_bound: "\<not> short_id_with_key hash key > 0x0000ffffffffffff"
  using word_and_le1 [of "siphash24 hash key" "0x0000ffffffffffff"] by (simp add: short_id_with_key_def not_less)

lemma relay_compact:
  obtains c s where "from_block_with_nonce relay_hashes relay_block nonce = Inr c" "cb_short_ids c = [s]"
    "transaction_short_id relay_hashes (siphash_key relay_hashes (blk_header relay_block) nonce) relay_spend = Inr s"
    "cb_header c = blk_header relay_block"
proof -
  obtain m where m: "validate_block_body relay_hashes relay_block = Inr m" using relay_body by (auto simp: is_ok_iff)
  obtain h where h: "witness_hash (ph_blake2b_256 relay_hashes) relay_spend = Inr h"
    using relay_witness_hash by (cases "witness_hash sample_hash relay_spend") (auto simp: relay_hashes_def)
  have "is_ok (from_block_with_nonce relay_hashes relay_block nonce)"
    by (simp add: from_block_with_nonce_def m) (simp add: relay_block_def transaction_short_id_def h Let_def validate_layout_def
      short_id_bound total_transactions_def saturating_add_usize_def usize_max_def max_compact_block_transactions_def
      absolute_prefilled_index_def is_ok_def)
  then obtain c where c: "from_block_with_nonce relay_hashes relay_block nonce = Inr c" by (auto simp: is_ok_iff)
  then obtain ids where
    "map_res (transaction_short_id relay_hashes (siphash_key relay_hashes (blk_header relay_block) nonce)) [relay_spend] = Inr ids"
    "cb_short_ids c = ids" "cb_header c = blk_header relay_block"
    by (rule from_block_parts) (auto simp: relay_block_def)
  then obtain s where "transaction_short_id relay_hashes (siphash_key relay_hashes (blk_header relay_block) nonce) relay_spend = Inr s"
    "cb_short_ids c = [s]" "cb_header c = blk_header relay_block" by (auto simp: bind_res_eq_Inr)
  then show thesis using that [OF c] by blast
qed

text \<open>The memory pool of the example holds the one transaction twice, so that its slot is emptied again.\<close>

theorem compact_block_relay_witness:
  "\<exists>c r t r'. from_block_with_nonce relay_hashes relay_block (replicate 8 0) = Inr c \<and>
    compact_reconstruct relay_hashes c [relay_spend, relay_spend] = Inr r \<and>
    response_from_block relay_hashes relay_block (missing_request relay_hashes r) = Inr t \<and>
    fill_missing relay_hashes t r = Inr r' \<and> into_block relay_hashes r' = Inr relay_block"
proof -
  let ?n = "replicate 8 0 :: bytes"
  obtain c s where c: "from_block_with_nonce relay_hashes relay_block ?n = Inr c" and ids: "cb_short_ids c = [s]"
    and s: "transaction_short_id relay_hashes (siphash_key relay_hashes (blk_header relay_block) ?n) relay_spend = Inr s"
    using relay_compact [of ?n] by metis
  have "pool_agrees relay_hashes (siphash_key relay_hashes (blk_header relay_block) ?n) relay_block [relay_spend, relay_spend]"
    using s by (simp add: pool_agrees_def relay_block_def)
  with compact_block_relay [OF c, of "[relay_spend, relay_spend]"] ids c show ?thesis by auto
qed

lemma relay_wire: "block_wire relay_block"
  by code_simp

lemma relay_reachable:
  obtains c r where "rc_reachable relay_hashes c r" "into_block relay_hashes r = Inr relay_block"
    "cb_header c = blk_header relay_block"
proof -
  obtain c s where c: "from_block_with_nonce relay_hashes relay_block [] = Inr c" and ids: "cb_short_ids c = [s]"
    and h: "cb_header c = blk_header relay_block"
    using relay_compact [of "[]"] by metis
  have pool: "pool_agrees H key b []" for H key b by (simp add: pool_agrees_def)
  have "distinct (cb_short_ids c)" using ids by simp
  from compact_reconstruct_of [OF c this pool] obtain r where
    r: "compact_reconstruct relay_hashes c [] = Inr r" "rc_of relay_block r" by blast
  have "length (blk_transactions relay_block) \<le> max_compact_block_transactions"
    by (simp add: relay_block_def max_compact_block_transactions_def)
  from fill_missing_of [OF r(2) this, of relay_hashes] obtain t r' where t: "fill_missing relay_hashes t r = Inr r'"
    "rc_of relay_block r'" "missing_indexes r' = []" by blast
  have "\<lparr>blk_header = rc_header r', blk_transactions = rc_body r'\<rparr> = relay_block"
    using t(2) rc_body_of [OF t(2,3)] by (simp add: rc_of_def)
  then have "into_block relay_hashes r' = Inr relay_block"
    using into_block_eq [of r' relay_hashes] t(2,3) relay_body by (simp add: rc_of_def)
  then show thesis using that rc_reachable.fill [OF rc_reachable.start [OF r(1)] t(1)] h by blast
qed

theorem reconstruction_invariant_witness:
  "\<exists>c r. rc_reachable relay_hashes c r \<and> rc_is_complete r \<and> into_block relay_hashes r = Inr relay_block"
proof -
  obtain c r where r: "rc_reachable relay_hashes c r" "into_block relay_hashes r = Inr relay_block" by (rule relay_reachable)
  with reconstruction_invariant [OF r(1)] show ?thesis by (auto simp: missing_request_def split: if_splits)
qed

theorem compact_block_sound_witness:
  "\<exists>c r b. rc_reachable relay_hashes c r \<and> into_block relay_hashes r = Inr b \<and> b = relay_block"
proof -
  obtain c r where r: "rc_reachable relay_hashes c r" "into_block relay_hashes r = Inr relay_block"
    "cb_header c = blk_header relay_block" by (rule relay_reachable)
  obtain m where m: "validate_block_body relay_hashes relay_block = Inr m" using relay_body by (auto simp: is_ok_iff)
  have "relay_block = relay_block"
  proof (rule compact_block_sound [OF _ r(1,2) relay_wire r(3) [symmetric] m relay_wire])
    show "length (ph_blake2b_256 relay_hashes x) = 32" for x by (simp add: relay_hashes_def sample_hash_def)
    show "collision_free (ph_blake2b_256 relay_hashes) (witness_inputs (ph_blake2b_256 relay_hashes) (blk_transactions relay_block) @
        witness_inputs (ph_blake2b_256 relay_hashes) (blk_transactions relay_block))"
      by (rule collision_free_subset [of _ "witness_inputs sample_hash (blk_transactions relay_block)"])
        (use relay_free in \<open>simp_all add: relay_hashes_def\<close>)
  qed
  with r show ?thesis by blast
qed

end
