(* ===== verification/PacketCodec.thy ===== *)
theory PacketCodec
  imports Packets BlockCodec
begin

text \<open>
  The packet codec. Decoding is lenient: reserved words, the host kind of an address and the high bit of text are
  dropped, as HSD does. The interface \<open>lenient_codec\<close> states what is kept: an encoding is read back, and a successful
  read consumes as many bytes as the encoding of its value.
\<close>

section \<open>Lenient codecs\<close>

locale lenient_codec =
  fixes enc :: "'a \<Rightarrow> bytes"
    and rd :: "decoder \<Rightarrow> 'e + 'a \<times> decoder"
    and vld :: "'a \<Rightarrow> bool"
  assumes reads: "vld v \<Longrightarrow> fits pre (enc v @ suf) \<Longrightarrow> rd (cursor pre (enc v @ suf)) = Inr (v, cursor (pre @ enc v) suf)"
    and reads_back: "rd (cursor pre rest) = Inr (v, d') \<Longrightarrow>
      vld v \<and> (\<exists>raw suf. rest = raw @ suf \<and> length raw = length (enc v) \<and> d' = cursor (pre @ raw) suf)"
begin

lemma reads_length:
  assumes "rd (cursor [] bs) = Inr (v, d)" "decoder_finish d = Inr u"
  shows "vld v \<and> length (enc v) = length bs"
  using reads_back [OF assms(1)] assms(2) by (auto split: if_splits)

end

lemma finish_reads:
  assumes "lenient_codec enc rd vld" "vld v" "length (enc v) \<le> usize_max"
  shows "finish_packet (dmap C rd) (enc v) = Inr (C v)"
  using lenient_codec.reads [OF assms(1,2), of "[]" "[]"] assms(3)
  by (simp add: finish_packet_def dmap_def decoder_new_cursor dbind_run fits_def)

lemma finish_back:
  assumes "lenient_codec enc rd vld" "finish_packet (dmap C rd) bs = Inr p"
  shows "\<exists>v. p = C v \<and> vld v \<and> length (enc v) = length bs"
proof -
  from assms(2) obtain v d where v: "rd (cursor [] bs) = Inr (v, d)" "p = C v" "decoder_finish d = Inr ()"
    by (auto simp: finish_packet_def dmap_def decoder_new_cursor bind_res_eq_Inr dbind_eq_Inr map_err_eq_Inr)
  then show ?thesis using lenient_codec.reads_length [OF assms(1) v(1,3)] by blast
qed

lemma codec_lenient:
  assumes "codec enc rd vld"
  shows "lenient_codec enc rd vld"
proof
  show "rd (cursor pre (enc v @ suf)) = Inr (v, cursor (pre @ enc v) suf)" if "vld v" "fits pre (enc v @ suf)" for v pre suf
    using codec.reads [OF assms] that .
  show "vld v \<and> (\<exists>raw suf. rest = raw @ suf \<and> length raw = length (enc v) \<and> d' = cursor (pre @ raw) suf)"
    if "rd (cursor pre rest) = Inr (v, d')" for pre rest v d'
    using codec.reads_back [OF assms that] by blast
qed

lemma lenient_cong:
  assumes "lenient_codec enc rd vld" "\<And>v. vld v = vld' v" "\<And>v. vld v \<Longrightarrow> enc v = enc' v"
  shows "lenient_codec enc' rd vld'"
proof
  show "rd (cursor pre (enc' v @ suf)) = Inr (v, cursor (pre @ enc' v) suf)" if "vld' v" "fits pre (enc' v @ suf)" for v pre suf
    using lenient_codec.reads [OF assms(1), of v pre suf] assms(2,3) [of v] that by simp
  show "vld' v \<and> (\<exists>raw suf. rest = raw @ suf \<and> length raw = length (enc' v) \<and> d' = cursor (pre @ raw) suf)"
    if "rd (cursor pre rest) = Inr (v, d')" for pre rest v d'
    using lenient_codec.reads_back [OF assms(1) that] assms(2,3) by fastforce
qed

lemma lenient_dlift: "lenient_codec enc rd vld \<Longrightarrow> lenient_codec enc (dlift g rd) vld"
  by (auto simp: lenient_codec_def)

lemma lenient_return: "lenient_codec (\<lambda>_. []) (dreturn w) (\<lambda>v. v = w)"
  by unfold_locales auto

lemma lenient_fail: "(\<And>v. \<not> vld v) \<Longrightarrow> (\<And>c r. rd c \<noteq> Inr r) \<Longrightarrow> lenient_codec enc rd vld"
  by unfold_locales blast+

text \<open>
  Sequencing: the first reader yields \<open>a\<close>, the rest a value \<open>w\<close> related to it; \<open>sel w\<close> is what is written for \<open>a\<close>.
\<close>

lemma lenient_dbind:
  assumes A: "lenient_codec encA rdA vA" and F: "\<And>a. vA a \<Longrightarrow> lenient_codec encR (f a) (\<lambda>w. vR w \<and> rel a w)"
    and norm: "\<And>a w. vA a \<Longrightarrow> vR w \<Longrightarrow> rel a w \<Longrightarrow> vA (sel w) \<and> rel (sel w) w \<and> length (encA (sel w)) = length (encA a)"
  shows "lenient_codec (\<lambda>w. encA (sel w) @ encR w) (dbind rdA f) (\<lambda>w. vA (sel w) \<and> vR w \<and> rel (sel w) w)"
proof
  fix w pre suf
  assume w: "vA (sel w) \<and> vR w \<and> rel (sel w) w" and fit: "fits pre ((encA (sel w) @ encR w) @ suf)"
  have "rdA (cursor pre (encA (sel w) @ encR w @ suf)) = Inr (sel w, cursor (pre @ encA (sel w)) (encR w @ suf))"
    using lenient_codec.reads [OF A, of "sel w" pre "encR w @ suf"] w fit by simp
  moreover have "f (sel w) (cursor (pre @ encA (sel w)) (encR w @ suf)) = Inr (w, cursor ((pre @ encA (sel w)) @ encR w) suf)"
    using w fit by (intro lenient_codec.reads [OF F]) simp_all
  ultimately show "dbind rdA f (cursor pre ((encA (sel w) @ encR w) @ suf)) = Inr (w, cursor (pre @ encA (sel w) @ encR w) suf)"
    by (simp add: dbind_run)
next
  fix pre rest w d'
  assume "dbind rdA f (cursor pre rest) = Inr (w, d')"
  then obtain a d1 where a: "rdA (cursor pre rest) = Inr (a, d1)" and w: "f a d1 = Inr (w, d')" by (auto simp: dbind_eq_Inr)
  from lenient_codec.reads_back [OF A a] obtain raw suf where va: "vA a" and raw: "rest = raw @ suf" "length raw = length (encA a)"
    and d1: "d1 = cursor (pre @ raw) suf" by auto
  from lenient_codec.reads_back [OF F [OF va] w [unfolded d1]] obtain raw' suf' where vw: "vR w" "rel a w"
    and raw': "suf = raw' @ suf'" "length raw' = length (encR w)" "d' = cursor ((pre @ raw) @ raw') suf'" by auto
  show "(vA (sel w) \<and> vR w \<and> rel (sel w) w) \<and> (\<exists>raw suf. rest = raw @ suf \<and>
      length raw = length (encA (sel w) @ encR w) \<and> d' = cursor (pre @ raw) suf)"
    using norm [OF va vw] vw raw raw' by (auto intro!: exI [of _ "raw @ raw'"])
qed

text \<open>The common case: the first value is recovered exactly from the result.\<close>

lemma lenient_field:
  assumes "lenient_codec encA rdA vA" "\<And>a. vA a \<Longrightarrow> lenient_codec encR (f a) (\<lambda>w. vR w \<and> sel w = a)"
  shows "lenient_codec (\<lambda>w. encA (sel w) @ encR w) (dbind rdA f) (\<lambda>w. vA (sel w) \<and> vR w)"
  using lenient_dbind [of encA rdA vA encR f vR "\<lambda>a w. sel w = a" sel, OF assms] by simp

lemma lenient_times:
  assumes "lenient_codec enc rd vld"
  shows "lenient_codec (\<lambda>vs. concat (map enc vs)) (read_times n rd) (\<lambda>vs. (\<forall>v \<in> set vs. vld v) \<and> length vs = n)"
proof (induction n)
  case 0
  show ?case unfolding read_times.simps by (rule lenient_cong [OF lenient_return]) auto
next
  case (Suc n)
  have rest: "lenient_codec (\<lambda>ws. concat (map enc (tl ws))) (dbind (read_times n rd) (\<lambda>xs. dreturn (a # xs)))
      (\<lambda>ws. ((\<forall>v \<in> set (tl ws). vld v) \<and> length ws = Suc n) \<and> hd ws = a)" for a
    by (rule lenient_cong [OF lenient_field [OF Suc, where f = "\<lambda>xs. dreturn (a # xs)" and sel = tl and encR = "\<lambda>_. []"
            and vR = "\<lambda>ws. ws \<noteq> [] \<and> hd ws = a"]])
      (rule lenient_cong [OF lenient_return], auto simp: neq_Nil_conv length_Suc_conv)
  show ?case unfolding read_times.simps
    by (rule lenient_cong [OF lenient_field [OF assms, where sel = hd and vR = "\<lambda>ws. (\<forall>v \<in> set (tl ws). vld v) \<and> length ws = Suc n",
            OF rest]]) (auto simp: length_Suc_conv)
qed

interpretation wcount: lenient_codec len_bytes "read_count ctx maximum" "\<lambda>n. n \<le> maximum \<and> n \<le> usize_max" for ctx maximum
proof
  fix v pre suf
  assume v: "v \<le> maximum \<and> v \<le> usize_max" and fit: "fits pre (len_bytes v @ suf)"
  then have "unat (word_of_nat v :: u64) = v" by (simp add: unat_of_nat usize_max_def)
  with v fit show "read_count ctx maximum (cursor pre (len_bytes v @ suf)) = Inr (v, cursor (pre @ len_bytes v) suf)"
    by (simp add: read_count_def len_bytes_def dbind_run compact_reads check_count_def)
next
  fix pre rest v d'
  assume "read_count ctx maximum (cursor pre rest) = Inr (v, d')"
  then obtain w where w: "read_compact_size (cursor pre rest) = Inr (w, d')" and v: "v = unat w" "unat w \<le> maximum"
    by (auto simp: read_count_def dbind_eq_Inr check_count_def bind_res_eq_Inr map_err_eq_Inr split: if_splits)
  have "unat w \<le> usize_max" using unat_less_pow [of w] by (simp add: usize_max_def)
  with v compact_back [OF w] show "(v \<le> maximum \<and> v \<le> usize_max) \<and>
      (\<exists>raw suf. rest = raw @ suf \<and> length raw = length (len_bytes v) \<and> d' = cursor (pre @ raw) suf)"
    by (auto simp: len_bytes_def)
qed

lemma read_bounded_index_eq: "read_bounded_index ctx = read_count ctx 0xffff"
  by (simp add: read_bounded_index_def read_count_def)

lemma lenient_list:
  assumes "lenient_codec enc rd vld" "maximum \<le> usize_max"
  shows "lenient_codec (\<lambda>vs. len_bytes (length vs) @ concat (map enc vs))
    (dbind (read_count ctx maximum) (\<lambda>n. read_times n rd)) (\<lambda>vs. length vs \<le> maximum \<and> (\<forall>v \<in> set vs. vld v))"
  by (rule lenient_cong [OF lenient_field [OF wcount.lenient_codec_axioms lenient_times [OF assms(1)]]]) (use assms(2) in auto)

lemmas fixed_lenient =
  u8.codec_axioms [THEN codec_lenient, THEN lenient_dlift] u16.codec_axioms [THEN codec_lenient, THEN lenient_dlift]
  u32.codec_axioms [THEN codec_lenient, THEN lenient_dlift] u64.codec_axioms [THEN codec_lenient, THEN lenient_dlift]
  arr.codec_axioms [THEN codec_lenient, THEN lenient_dlift]

end
