(* ===== verification/PacketParts.thy ===== *)
theory PacketParts
  imports PacketCodec
begin

text \<open>Lenient codecs of the parts of packets, and what each encoder writes.\<close>

declare sample_u32 [simp del]

section \<open>Addresses and text\<close>

definition short_services :: "u64 \<Rightarrow> bool" where
  "short_services s \<longleftrightarrow> s \<le> 0xffffffff"

lemma short_services_ucast [simp]: "short_services (ucast (w :: u32))"
  by (simp add: short_services_def ucast_le_iff)

lemma short_services_back: "short_services s \<Longrightarrow> ucast (ucast s :: u32) = s"
  by (simp add: short_services_def ucast_ucast_back)

definition net_address_bytes :: "net_address \<Rightarrow> bytes" where
  "net_address_bytes a = u64_to_le (na_time a) @ u32_to_le (ucast (na_services a)) @ u32_to_le 0 @ [0] @ na_ip a @
     replicate 20 0 @ u16_to_le (na_port a) @ na_key a"

definition net_address_ok :: "net_address \<Rightarrow> bool" where
  "net_address_ok a \<longleftrightarrow> short_services (na_services a) \<and> length (na_ip a) = 16 \<and> length (na_key a) = 33"

lemma into_bytes_put_net_address [simp]: "into_bytes (put_net_address a e) = into_bytes e @ net_address_bytes a"
  by (simp add: put_net_address_def net_address_bytes_def)

interpretation naddr: lenient_codec net_address_bytes read_net_address net_address_ok
proof
  fix a pre suf
  assume a: "net_address_ok a" and fit: "fits pre (net_address_bytes a @ suf)"
  have host: "read_array 36 (cursor p (na_ip a @ replicate 20 0 @ s)) =
      Inr (na_ip a @ replicate 20 0, cursor (p @ na_ip a @ replicate 20 0) s)"
    if "fits p (na_ip a @ replicate 20 0 @ s)" for p s
    using arr.reads [where n = 36 and v = "na_ip a @ replicate 20 0" and pre = p and suf = s] that a
    by (simp add: net_address_ok_def)
  show "read_net_address (cursor pre (net_address_bytes a @ suf)) = Inr (a, cursor (pre @ net_address_bytes a) suf)"
    using a fit by (simp add: read_net_address_def net_address_bytes_def net_address_ok_def dbind_run host short_services_back)
next
  fix pre rest a d'
  assume "read_net_address (cursor pre rest) = Inr (a, d')"
  then obtain t s z k host port key suf where
    "rest = u64_to_le t @ u32_to_le s @ u32_to_le z @ [k] @ host @ u16_to_le port @ key @ suf"
    "d' = cursor (pre @ u64_to_le t @ u32_to_le s @ u32_to_le z @ [k] @ host @ u16_to_le port @ key) suf"
    "length host = 36" "length key = 33"
    "a = \<lparr>na_time = t, na_services = ucast s, na_ip = (if k = 0 then take 16 host else replicate 16 0),
      na_port = port, na_key = key\<rparr>"
    by (auto simp: read_net_address_def dbind_eq_Inr dest!: u8.reads_back u16.reads_back u32.reads_back u64.reads_back arr.reads_back)
  then show "net_address_ok a \<and> (\<exists>raw suf. rest = raw @ suf \<and> length raw = length (net_address_bytes a) \<and> d' = cursor (pre @ raw) suf)"
    by (auto simp: net_address_ok_def net_address_bytes_def
        intro!: exI [of _ "u64_to_le t @ u32_to_le s @ u32_to_le z @ [k] @ host @ u16_to_le port @ key"])
qed

definition ascii_text :: "bytes \<Rightarrow> bool" where
  "ascii_text s \<longleftrightarrow> length s \<le> 255 \<and> list_all (\<lambda>b. b < 0x80) s"

lemma byte_and_7f: "(b :: byte) AND 0x7f < 0x80" "b < 0x80 \<Longrightarrow> b AND 0x7f = b"
proof -
  have m: "(0x7f :: byte) = mask 7" by (simp add: mask_eq_exp_minus_1)
  have "unat (b AND 0x7f) = unat b mod 128" unfolding m by (simp add: unat_and_mask_mod)
  then show "b AND 0x7f < 0x80" "b < 0x80 \<Longrightarrow> b AND 0x7f = b"
    by (simp_all add: word_less_nat_alt word_unat_eq_iff)
qed

lemma decode_hsd_ascii_facts:
  "length (decode_hsd_ascii s) = length s" "list_all (\<lambda>b. b < 0x80) (decode_hsd_ascii s)"
  "list_all (\<lambda>b. b < 0x80) s \<Longrightarrow> decode_hsd_ascii s = s"
  by (simp_all add: decode_hsd_ascii_def list_all_iff byte_and_7f map_idI)

lemma check_ascii_u8_iff: "check_ascii_u8 ctx s 255 = Inr u \<longleftrightarrow> ascii_text s"
  by (auto simp: check_ascii_u8_def ascii_text_def)

lemma ascii_text_length: "ascii_text s \<Longrightarrow> unat (word_of_nat (length s) :: byte) = length s"
  by (rule unat_word_of_nat_small) (simp add: ascii_text_def)

section \<open>Version and reject packets\<close>

definition version_bytes :: "version_packet \<Rightarrow> bytes" where
  "version_bytes p = u32_to_le (vp_version p) @ u32_to_le (ucast (vp_services p)) @ u32_to_le 0 @ u64_to_le (vp_time p) @
     net_address_bytes (vp_remote p) @ vp_nonce p @ [word_of_nat (length (vp_agent p))] @ vp_agent p @
     u32_to_le (vp_height p) @ [if vp_no_relay p then 1 else 0]"

definition version_wire :: "version_packet \<Rightarrow> bool" where
  "version_wire p \<longleftrightarrow> short_services (vp_services p) \<and> net_address_ok (vp_remote p) \<and> length (vp_nonce p) = 8"

lemma encode_version_iff:
  "encode_version p e = Inr e' \<longleftrightarrow> ascii_text (vp_agent p) \<and> into_bytes e' = into_bytes e @ version_bytes p"
  by (auto simp: encode_version_def bind_res_eq_Inr check_ascii_u8_iff max_user_agent_size_def version_bytes_def
      simp flip: into_bytes_inject)

interpretation vers: lenient_codec version_bytes decode_version "\<lambda>p. version_wire p \<and> ascii_text (vp_agent p)"
proof
  fix p pre suf
  assume p: "version_wire p \<and> ascii_text (vp_agent p)" and fit: "fits pre (version_bytes p @ suf)"
  have "decode_hsd_ascii (vp_agent p) = vp_agent p" using p by (simp add: ascii_text_def decode_hsd_ascii_facts)
  then show "decode_version (cursor pre (version_bytes p @ suf)) = Inr (p, cursor (pre @ version_bytes p) suf)"
    using p fit by (simp add: decode_version_def version_bytes_def version_wire_def dbind_run naddr.reads short_services_back
      ascii_text_length)
next
  fix pre rest p d'
  assume "decode_version (cursor pre rest) = Inr (p, d')"
  then obtain v s z t a raw n l agent h r suf where
    raw: "length raw = length (net_address_bytes a)" "net_address_ok a" "length n = 8" "length agent = unat l"
    and rest: "rest = u32_to_le v @ u32_to_le s @ u32_to_le z @ u64_to_le t @ raw @ n @ [l] @ agent @ u32_to_le h @ [r] @ suf"
      "d' = cursor (pre @ u32_to_le v @ u32_to_le s @ u32_to_le z @ u64_to_le t @ raw @ n @ [l] @ agent @ u32_to_le h @ [r]) suf"
    and p: "p = \<lparr>vp_version = v, vp_services = ucast s, vp_time = t, vp_remote = a, vp_nonce = n,
      vp_agent = decode_hsd_ascii agent, vp_height = h, vp_no_relay = (r = 1)\<rparr>"
    by (auto simp: decode_version_def dbind_eq_Inr
        dest!: u8.reads_back u32.reads_back u64.reads_back arr.reads_back naddr.reads_back read_slice_back)
  have "ascii_text (decode_hsd_ascii agent)"
    using raw(4) unat_byte_less [of l] by (simp add: ascii_text_def decode_hsd_ascii_facts)
  with raw rest p show "(version_wire p \<and> ascii_text (vp_agent p)) \<and>
      (\<exists>raw suf. rest = raw @ suf \<and> length raw = length (version_bytes p) \<and> d' = cursor (pre @ raw) suf)"
    by (auto simp: version_wire_def version_bytes_def decode_hsd_ascii_facts
        intro!: exI [of _ "u32_to_le v @ u32_to_le s @ u32_to_le z @ u64_to_le t @ raw @ n @ [l] @ agent @ u32_to_le h @ [r]"])
qed

definition type_canonical :: "packet_type \<Rightarrow> bool" where
  "type_canonical t \<longleftrightarrow> packet_type_from_u8 (packet_type_as_u8 t) = t"

lemma packet_type_round: "packet_type_as_u8 (packet_type_from_u8 b) = b"
proof (cases "unat b < length known_packet_types")
  case True
  then have "unat b < 30" by (simp add: known_packet_types_def)
  moreover have "list_all (\<lambda>n. unat (packet_type_as_u8 (known_packet_types ! n)) = n) [0..<30]"
    by (simp add: known_packet_types_def upt_rec)
  ultimately show ?thesis using True by (simp add: packet_type_from_u8_def get_def word_unat_eq_iff list_all_iff)
qed (simp add: packet_type_from_u8_def get_def)

definition reject_bytes :: "reject_packet \<Rightarrow> bytes" where
  "reject_bytes p = [packet_type_as_u8 (rp_message p), rp_code p, word_of_nat (length (rp_reason p))] @ rp_reason p @
     (case rp_hash p of Some h \<Rightarrow> h | None \<Rightarrow> [])"

definition reject_wire :: "reject_packet \<Rightarrow> bool" where
  "reject_wire p \<longleftrightarrow> type_canonical (rp_message p) \<and> (\<forall>h. rp_hash p = Some h \<longrightarrow> length h = 32)"

definition reject_encodes :: "reject_packet \<Rightarrow> bool" where
  "reject_encodes p \<longleftrightarrow> ascii_text (rp_reason p) \<and> carries_reject_hash (rp_message p) = (rp_hash p \<noteq> None)"

lemma encode_reject_iff:
  "encode_reject p e = Inr e' \<longleftrightarrow> reject_encodes p \<and> into_bytes e' = into_bytes e @ reject_bytes p"
  by (auto simp: encode_reject_def bind_res_eq_Inr check_ascii_u8_iff max_reject_reason_size_def reject_bytes_def reject_encodes_def
      Let_def split: option.splits simp flip: into_bytes_inject)

interpretation rejc: lenient_codec reject_bytes decode_reject "\<lambda>p. reject_wire p \<and> reject_encodes p"
proof
  fix p pre suf
  assume p: "reject_wire p \<and> reject_encodes p" and fit: "fits pre (reject_bytes p @ suf)"
  have asc: "decode_hsd_ascii (rp_reason p) = rp_reason p" "ascii_text (rp_reason p)"
    and canon: "packet_type_from_u8 (packet_type_as_u8 (rp_message p)) = rp_message p"
    using p by (simp_all add: reject_encodes_def reject_wire_def type_canonical_def ascii_text_def decode_hsd_ascii_facts)
  show "decode_reject (cursor pre (reject_bytes p @ suf)) = Inr (p, cursor (pre @ reject_bytes p) suf)"
  proof (cases "rp_hash p")
    case None
    then show ?thesis using p fit asc canon
      by (simp add: decode_reject_def reject_bytes_def reject_encodes_def dbind_run ascii_text_length)
  next
    case (Some h)
    then show ?thesis using p fit asc canon
      by (simp add: decode_reject_def reject_bytes_def reject_encodes_def reject_wire_def dbind_run ascii_text_length)
  qed
next
  fix pre rest p d'
  assume "decode_reject (cursor pre rest) = Inr (p, d')"
  then obtain m c l reason s2 hash where 1: "length reason = unat l" "rest = [m, c, l] @ reason @ s2"
    and 2: "(if carries_reject_hash (packet_type_from_u8 m) then dbind (dlift WireDecode (read_array 32)) (\<lambda>hash. dreturn (Some hash))
      else dreturn None) (cursor (pre @ [m, c, l] @ reason) s2) = Inr (hash, d')"
    and p: "p = \<lparr>rp_message = packet_type_from_u8 m, rp_code = c, rp_reason = decode_hsd_ascii reason, rp_hash = hash\<rparr>"
    by (auto simp: decode_reject_def dbind_eq_Inr dest!: u8.reads_back read_slice_back)
  have hash: "carries_reject_hash (packet_type_from_u8 m) = (hash \<noteq> None) \<and> (\<forall>h. hash = Some h \<longrightarrow> length h = 32) \<and>
      (\<exists>suf. s2 = (case hash of Some h \<Rightarrow> h | None \<Rightarrow> []) @ suf \<and>
        d' = cursor (pre @ [m, c, l] @ reason @ (case hash of Some h \<Rightarrow> h | None \<Rightarrow> [])) suf)"
    using 2 by (auto simp: dbind_eq_Inr split: if_splits dest!: arr.reads_back)
  have asc: "ascii_text (decode_hsd_ascii reason)"
    using 1(1) unat_byte_less [of l] by (simp add: ascii_text_def decode_hsd_ascii_facts)
  from hash obtain suf where "s2 = (case hash of Some h \<Rightarrow> h | None \<Rightarrow> []) @ suf"
    "d' = cursor (pre @ [m, c, l] @ reason @ (case hash of Some h \<Rightarrow> h | None \<Rightarrow> [])) suf" by blast
  then have "\<exists>raw suf. rest = raw @ suf \<and> length raw = length (reject_bytes p) \<and> d' = cursor (pre @ raw) suf"
    using 1 p by (intro exI [of _ "[m, c, l] @ reason @ (case hash of Some h \<Rightarrow> h | None \<Rightarrow> [])"] exI [of _ suf])
      (simp add: reject_bytes_def decode_hsd_ascii_facts)
  moreover have "reject_wire p \<and> reject_encodes p"
    using hash asc p by (auto simp: reject_wire_def reject_encodes_def type_canonical_def packet_type_round)
  ultimately show "(reject_wire p \<and> reject_encodes p) \<and>
      (\<exists>raw suf. rest = raw @ suf \<and> length raw = length (reject_bytes p) \<and> d' = cursor (pre @ raw) suf)" by simp
qed

section \<open>Inventories, locators, headers and proofs\<close>

definition kind_canonical :: "inventory_kind \<Rightarrow> bool" where
  "kind_canonical k \<longleftrightarrow> inventory_kind_from_u32 (inventory_kind_as_u32 k) = k"

lemma inventory_kind_round: "inventory_kind_as_u32 (inventory_kind_from_u32 v) = v"
  by (simp add: inventory_kind_from_u32_def)

definition inventory_bytes :: "inventory \<Rightarrow> bytes" where
  "inventory_bytes i = u32_to_le (inventory_kind_as_u32 (inv_kind i)) @ inv_hash i"

definition inventory_ok :: "inventory \<Rightarrow> bool" where
  "inventory_ok i \<longleftrightarrow> kind_canonical (inv_kind i) \<and> length (inv_hash i) = 32"

interpretation invt: codec inventory_bytes read_inventory inventory_ok
proof
  fix i pre suf
  assume "inventory_ok i" and "fits pre (inventory_bytes i @ suf)"
  then show "read_inventory (cursor pre (inventory_bytes i @ suf)) = Inr (i, cursor (pre @ inventory_bytes i) suf)"
    by (simp add: read_inventory_def inventory_bytes_def inventory_ok_def kind_canonical_def dbind_run)
next
  fix pre rest i d'
  assume "read_inventory (cursor pre rest) = Inr (i, d')"
  then show "inventory_ok i \<and> (\<exists>suf. rest = inventory_bytes i @ suf \<and> d' = cursor (pre @ inventory_bytes i) suf)"
    by (auto simp: read_inventory_def dbind_eq_Inr inventory_bytes_def inventory_ok_def kind_canonical_def inventory_kind_round
        dest!: u32.reads_back arr.reads_back)
qed

abbreviation list_bytes :: "('a \<Rightarrow> bytes) \<Rightarrow> 'a list \<Rightarrow> bytes" where
  "list_bytes enc vs \<equiv> len_bytes (length vs) @ concat (map enc vs)"

lemma put_list:
  assumes "\<And>x e. into_bytes (p x e) = into_bytes e @ f x"
  shows "into_bytes (put_seq (map p xs) (put_compact_size (word_of_nat (length xs)) e)) = into_bytes e @ list_bytes f xs"
  by (simp add: into_bytes_put_seq_map [of p f, OF assms] len_bytes_def)

lemma encode_inventory_iff:
  "encode_inventory items e = Inr e' \<longleftrightarrow>
     length items \<le> max_inventory_items \<and> into_bytes e' = into_bytes e @ list_bytes inventory_bytes items"
proof -
  have "into_bytes (put_inventory i e) = into_bytes e @ inventory_bytes i" for i e
    by (simp add: put_inventory_def inventory_bytes_def)
  from put_list [of put_inventory inventory_bytes, OF this] show ?thesis
    by (auto simp: encode_inventory_def check_count_def simp flip: into_bytes_inject)
qed

lemma decode_inventory_lenient:
  "lenient_codec (list_bytes inventory_bytes) decode_inventory (\<lambda>vs. length vs \<le> max_inventory_items \<and> (\<forall>v \<in> set vs. inventory_ok v))"
  unfolding decode_inventory_def
  by (rule lenient_list [OF codec_lenient [OF invt.codec_axioms]]) (simp add: wire_limits usize_max_def)

lemma encode_addresses_iff:
  "encode_addresses items e = Inr e' \<longleftrightarrow>
     length items \<le> max_addr_items \<and> into_bytes e' = into_bytes e @ list_bytes net_address_bytes items"
  using put_list [of put_net_address net_address_bytes, OF into_bytes_put_net_address]
  by (auto simp: encode_addresses_def check_count_def simp flip: into_bytes_inject)

lemma read_addresses_lenient:
  "lenient_codec (list_bytes net_address_bytes) read_addresses (\<lambda>vs. length vs \<le> max_addr_items \<and> (\<forall>v \<in> set vs. net_address_ok v))"
  unfolding read_addresses_def
  by (rule lenient_list [OF naddr.lenient_codec_axioms]) (simp add: wire_limits usize_max_def)

definition locator_bytes :: "locator_packet \<Rightarrow> bytes" where
  "locator_bytes p = list_bytes (\<lambda>h. h) (lp_locator p) @ lp_stop p"

definition locator_wire :: "locator_packet \<Rightarrow> bool" where
  "locator_wire p \<longleftrightarrow> (\<forall>h \<in> set (lp_locator p). length h = 32) \<and> length (lp_stop p) = 32"

lemma encode_locator_iff:
  "encode_locator p e = Inr e' \<longleftrightarrow>
     length (lp_locator p) \<le> max_locator_hashes \<and> into_bytes e' = into_bytes e @ locator_bytes p"
  using put_list [of put_bytes "\<lambda>h. h"]
  by (auto simp: encode_locator_def check_count_def locator_bytes_def simp flip: into_bytes_inject)

interpretation lctr: lenient_codec locator_bytes read_locator
    "\<lambda>p. locator_wire p \<and> length (lp_locator p) \<le> max_locator_hashes"
proof -
  have stop: "lenient_codec lp_stop (dbind (dlift WireDecode (read_array 32)) (\<lambda>stop. dreturn \<lparr>lp_locator = hs, lp_stop = stop\<rparr>))
      (\<lambda>p. length (lp_stop p) = 32 \<and> lp_locator p = hs)" for hs
    by (rule lenient_cong [OF lenient_field [OF fixed_lenient(5), where sel = lp_stop and encR = "\<lambda>_. []" and vR = "\<lambda>p. lp_locator p = hs"]])
      (rule lenient_cong [OF lenient_return], auto)
  have times: "lenient_codec (\<lambda>p. concat (map (\<lambda>h. h) (lp_locator p)) @ lp_stop p)
      (dbind (read_times n (dlift WireDecode (read_array 32))) (\<lambda>hs. dbind (dlift WireDecode (read_array 32)) (\<lambda>stop. dreturn \<lparr>lp_locator = hs, lp_stop = stop\<rparr>)))
      (\<lambda>p. locator_wire p \<and> length (lp_locator p) = n)" for n
    by (rule lenient_cong [OF lenient_field [OF lenient_times [OF fixed_lenient(5)] stop]]) (auto simp: locator_wire_def)
  have max: "max_locator_hashes \<le> usize_max" by (simp add: wire_limits usize_max_def)
  show "lenient_codec locator_bytes read_locator (\<lambda>p. locator_wire p \<and> length (lp_locator p) \<le> max_locator_hashes)"
    unfolding read_locator_def
    by (rule lenient_cong [OF lenient_field [OF wcount.lenient_codec_axioms times]]) (use max in \<open>auto simp: locator_bytes_def\<close>)
qed

interpretation whdr: codec header_encode "read_wire_header ctx reason" header_ok for ctx reason
proof
  fix h pre suf
  assume h: "header_ok h" and fit: "fits pre (header_encode h @ suf)"
  then show "read_wire_header ctx reason (cursor pre (header_encode h @ suf)) = Inr (h, cursor (pre @ header_encode h) suf)"
    using header_decode_iff [of "header_encode h" h] by (simp add: read_wire_header_def dbind_run length_header_encode)
next
  fix pre rest h d'
  assume "read_wire_header ctx reason (cursor pre rest) = Inr (h, d')"
  then show "header_ok h \<and> (\<exists>suf. rest = header_encode h @ suf \<and> d' = cursor (pre @ header_encode h) suf)"
    by (auto simp: read_wire_header_def dbind_eq_Inr bind_res_eq_Inr map_err_eq_Inr header_decode_iff dest!: read_slice_back)
qed

lemma encode_headers_iff:
  "encode_headers hs e = Inr e' \<longleftrightarrow> length hs \<le> max_headers \<and> into_bytes e' = into_bytes e @ list_bytes header_encode hs"
  using put_list [of "\<lambda>h. put_bytes (header_encode h)" header_encode]
  by (auto simp: encode_headers_def check_count_def simp flip: into_bytes_inject)

lemma read_headers_lenient:
  "lenient_codec (list_bytes header_encode) read_headers (\<lambda>vs. length vs \<le> max_headers \<and> (\<forall>v \<in> set vs. header_ok v))"
  unfolding read_headers_def
  by (rule lenient_list [OF codec_lenient [OF whdr.codec_axioms]]) (simp add: wire_limits usize_max_def)

definition get_proof_ok :: "get_proof_packet \<Rightarrow> bool" where
  "get_proof_ok p \<longleftrightarrow> length (gp_root p) = 32 \<and> length (gp_key p) = 32"

interpretation getp: lenient_codec "\<lambda>p. gp_root p @ gp_key p" read_get_proof get_proof_ok
proof (rule codec_lenient, unfold_locales)
  fix p pre suf
  assume "get_proof_ok p" and "fits pre ((gp_root p @ gp_key p) @ suf)"
  then show "read_get_proof (cursor pre ((gp_root p @ gp_key p) @ suf)) = Inr (p, cursor (pre @ gp_root p @ gp_key p) suf)"
    by (simp add: read_get_proof_def get_proof_ok_def dbind_run)
next
  fix pre rest p d'
  assume "read_get_proof (cursor pre rest) = Inr (p, d')"
  then show "get_proof_ok p \<and> (\<exists>suf. rest = (gp_root p @ gp_key p) @ suf \<and> d' = cursor (pre @ gp_root p @ gp_key p) suf)"
    by (auto simp: read_get_proof_def get_proof_ok_def dbind_eq_Inr dest!: arr.reads_back)
qed

end
