(* ===== verification/PacketProofs.thy ===== *)
theory PacketProofs
  imports PacketParts
begin

text \<open>The codecs of compact blocks and their requests and responses, and the round trip of every packet.\<close>

section \<open>Transactions in packets\<close>

lemma wire_tx_lenient:
  "lenient_codec tx_bytes (dlift WireInvalidTransaction tx_decode_from) (\<lambda>tx. tx_ok tx \<and> tx_sized tx)"
  by (rule lenient_dlift [OF codec_lenient [OF tx.codec_axioms]])

lemma put_wire_transaction_iff:
  assumes "tx_ok tx"
  shows "put_wire_transaction tx e = Inr e' \<longleftrightarrow> tx_sized tx \<and> into_bytes e' = into_bytes e @ tx_bytes tx"
  using tx_encode_iff [of tx] assms
  by (auto simp: put_wire_transaction_def bind_res_eq_Inr map_err_eq_Inr tx_ok_def simp flip: into_bytes_inject)

lemma put_each_iff:
  assumes "\<And>x e e'. x \<in> set xs \<Longrightarrow> p x e = Inr e' \<longleftrightarrow> c x \<and> into_bytes e' = into_bytes e @ f x"
  shows "fold_res p xs e = Inr e' \<longleftrightarrow> (\<forall>x \<in> set xs. c x) \<and> into_bytes e' = into_bytes e @ concat (map f xs)"
  using assms
proof (induction xs arbitrary: e)
  case Nil
  then show ?case by (auto simp flip: into_bytes_inject)
next
  case (Cons x xs)
  obtain d where d: "into_bytes d = into_bytes e @ f x"
    using that [of "\<lparr>enc_bytes = into_bytes e @ f x\<rparr>"] by (simp add: into_bytes_def)
  have IH: "fold_res p xs d = Inr e' \<longleftrightarrow> (\<forall>x \<in> set xs. c x) \<and> into_bytes e' = into_bytes d @ concat (map f xs)" for d
    using Cons by simp
  have "p x e = Inr e'' \<longleftrightarrow> c x \<and> e'' = d" for e'' using Cons.prems [of x e e''] d by (auto simp flip: into_bytes_inject)
  then show ?case using d by (auto simp: bind_res_eq_Inr IH)
qed

section \<open>Responses\<close>

definition response_bytes :: "compact_block_response \<Rightarrow> bytes" where
  "response_bytes t = ct_block_hash t @ list_bytes tx_bytes (ct_transactions t)"

definition response_wire :: "compact_block_response \<Rightarrow> bool" where
  "response_wire t \<longleftrightarrow> length (ct_block_hash t) = 32 \<and> (\<forall>tx \<in> set (ct_transactions t). tx_ok tx)"

definition response_encodes :: "compact_block_response \<Rightarrow> bool" where
  "response_encodes t \<longleftrightarrow> length (ct_transactions t) \<le> max_compact_block_transactions \<and>
     (\<forall>tx \<in> set (ct_transactions t). tx_sized tx)"

lemma response_encode_iff:
  assumes "response_wire t"
  shows "response_encode_to t e = Inr e' \<longleftrightarrow> response_encodes t \<and> into_bytes e' = into_bytes e @ response_bytes t"
  using put_each_iff [of "ct_transactions t" put_wire_transaction tx_sized tx_bytes] assms put_wire_transaction_iff
  by (auto simp: response_encode_to_def response_wire_def response_encodes_def response_bytes_def check_count_def len_bytes_def)

interpretation resp: lenient_codec response_bytes response_decode_from "\<lambda>t. response_wire t \<and> response_encodes t"
proof -
  let ?txs = "\<lambda>h n. dbind (read_times n (dlift WireInvalidTransaction tx_decode_from)) (\<lambda>txs.
    dreturn \<lparr>ct_block_hash = h, ct_transactions = txs\<rparr>)"
  have ret: "lenient_codec (\<lambda>_. []) (dreturn \<lparr>ct_block_hash = h, ct_transactions = txs\<rparr>)
      (\<lambda>t. ct_block_hash t = h \<and> ct_transactions t = txs)" for h txs
    by (rule lenient_cong [OF lenient_return]) auto
  have txs: "lenient_codec (\<lambda>t. concat (map tx_bytes (ct_transactions t))) (?txs h n)
      (\<lambda>t. ((\<forall>tx \<in> set (ct_transactions t). tx_ok tx \<and> tx_sized tx) \<and> ct_block_hash t = h) \<and> length (ct_transactions t) = n)" for h n
    by (rule lenient_cong [OF lenient_field [OF lenient_times [OF wire_tx_lenient] ret]]) auto
  have count: "lenient_codec (\<lambda>t. list_bytes tx_bytes (ct_transactions t))
      (dbind (read_count ''compact-block response transactions'' max_compact_block_transactions) (?txs h))
      (\<lambda>t. (length (ct_transactions t) \<le> max_compact_block_transactions \<and>
        (\<forall>tx \<in> set (ct_transactions t). tx_ok tx \<and> tx_sized tx)) \<and> ct_block_hash t = h)" for h
    by (rule lenient_cong [OF lenient_field [OF wcount.lenient_codec_axioms txs]]) (auto simp: wire_limits usize_max_def)
  show "lenient_codec response_bytes response_decode_from (\<lambda>t. response_wire t \<and> response_encodes t)"
    unfolding response_decode_from_def
    by (rule lenient_cong [OF lenient_field [OF fixed_lenient(5) count]])
      (auto simp: response_bytes_def response_wire_def response_encodes_def)
qed

section \<open>Requests\<close>

definition request_bytes :: "compact_block_request \<Rightarrow> bytes" where
  "request_bytes q = cr_block_hash q @ len_bytes (length (cr_indexes q)) @
     concat (map len_bytes (differential_indexes None (cr_indexes q)))"

lemma request_encode_iff:
  "request_encode_to q e = Inr e' \<longleftrightarrow>
     is_ok (validate_absolute_indexes (cr_indexes q)) \<and> into_bytes e' = into_bytes e @ request_bytes q"
proof -
  have "into_bytes (put_seq (map (\<lambda>n. put_compact_size (word_of_nat n)) ns) e) = into_bytes e @ concat (map len_bytes ns)" for ns e
    by (rule into_bytes_put_seq_map) (simp add: len_bytes_def)
  then show ?thesis
    by (auto simp: request_encode_to_def bind_res_eq_Inr map_err_eq_Inr is_ok_iff request_bytes_def len_bytes_def
        simp flip: into_bytes_inject)
qed

lemma absolute_index_iff:
  "absolute_prefilled_index previous d = Inr i \<longleftrightarrow>
     i \<le> 0xffff \<and> i = (case previous of None \<Rightarrow> d | Some p \<Rightarrow> p + d + 1)"
  by (cases previous) (auto simp: absolute_prefilled_index_def checked_add_usize_def usize_max_def)

lemma read_requested_lenient:
  "lenient_codec (\<lambda>xs. concat (map len_bytes (differential_indexes previous xs))) (read_requested n previous)
     (\<lambda>xs. is_ok (check_absolute_indexes previous xs) \<and> length xs = n)"
proof (induction n arbitrary: previous)
  case 0
  show ?case unfolding read_requested.simps by (rule lenient_cong [OF lenient_return]) (auto simp: is_ok_def)
next
  case (Suc n)
  let ?d = "\<lambda>xs. case previous of None \<Rightarrow> hd xs | Some p \<Rightarrow> hd xs - p - 1"
  have rest: "lenient_codec (\<lambda>xs. concat (map len_bytes (differential_indexes (Some i) (tl xs))))
      (dbind (read_requested n (Some i)) (\<lambda>rest. dreturn (i # rest)))
      (\<lambda>xs. is_ok (check_absolute_indexes (Some i) (tl xs)) \<and> length (tl xs) = n \<and> xs \<noteq> [] \<and> hd xs = i)" for i
    by (rule lenient_cong [OF lenient_field [OF Suc, where sel = tl and f = "\<lambda>rest. dreturn (i # rest)" and encR = "\<lambda>_. []"
            and vR = "\<lambda>xs. xs \<noteq> [] \<and> hd xs = i"]])
      (rule lenient_cong [OF lenient_return], auto simp: neq_Nil_conv)
  have chk: "lenient_codec (\<lambda>xs. concat (map len_bytes (differential_indexes (Some (hd xs)) (tl xs))))
      (dbind (dcheck (map_err WireCompactBlock (absolute_prefilled_index previous d))) (\<lambda>absolute.
        dbind (read_requested n (Some absolute)) (\<lambda>rest. dreturn (absolute # rest))))
      (\<lambda>xs. (is_ok (check_absolute_indexes previous xs) \<and> length xs = Suc n) \<and> ?d xs = d)" for d
  proof (cases "absolute_prefilled_index previous d")
    case (Inr i)
    then have i: "i \<le> 0xffff" "i = (case previous of None \<Rightarrow> d | Some p \<Rightarrow> p + d + 1)" by (simp_all add: absolute_index_iff)
    have eq: "dbind (dcheck (map_err WireCompactBlock (absolute_prefilled_index previous d))) F = F i" for F
      by (rule ext) (simp add: Inr dbind_def)
    show ?thesis unfolding eq
      by (rule lenient_cong [OF rest [of i]])
        (use i in \<open>auto simp: neq_Nil_conv length_Suc_conv is_ok_def split: option.splits if_splits\<close>)
  next
    case (Inl er)
    have no: "\<not> (\<exists>i. absolute_prefilled_index previous d = Inr i)" using Inl by simp
    have vac: "\<not> ((is_ok (check_absolute_indexes previous xs) \<and> length xs = Suc n) \<and> ?d xs = d)" for xs
      using no by (cases xs) (auto simp: absolute_index_iff is_ok_def split: option.splits if_splits)
    show ?thesis by (rule lenient_fail [OF vac]) (simp add: Inl dbind_def)
  qed
  show ?case unfolding read_requested.simps read_bounded_index_eq
    by (rule lenient_cong [OF lenient_field [OF wcount.lenient_codec_axioms chk]])
      (auto simp: length_Suc_conv is_ok_def usize_max_def split: option.splits if_splits)
qed

definition request_ok :: "compact_block_request \<Rightarrow> bool" where
  "request_ok q \<longleftrightarrow> length (cr_block_hash q) = 32 \<and> is_ok (validate_absolute_indexes (cr_indexes q))"

interpretation reqc: lenient_codec request_bytes request_decode_from request_ok
proof -
  let ?xs = "\<lambda>h n. dbind (read_requested n None) (\<lambda>xs. dreturn \<lparr>cr_block_hash = h, cr_indexes = xs\<rparr>)"
  have ret: "lenient_codec (\<lambda>_. []) (dreturn \<lparr>cr_block_hash = h, cr_indexes = xs\<rparr>) (\<lambda>q. cr_block_hash q = h \<and> cr_indexes q = xs)" for h xs
    by (rule lenient_cong [OF lenient_return]) auto
  have xs: "lenient_codec (\<lambda>q. concat (map len_bytes (differential_indexes None (cr_indexes q)))) (?xs h n)
      (\<lambda>q. (is_ok (check_absolute_indexes None (cr_indexes q)) \<and> cr_block_hash q = h) \<and> length (cr_indexes q) = n)" for h n
    by (rule lenient_cong [OF lenient_field [OF read_requested_lenient ret]]) auto
  have count: "lenient_codec (\<lambda>q. len_bytes (length (cr_indexes q)) @ concat (map len_bytes (differential_indexes None (cr_indexes q))))
      (dbind (read_count ''compact-block requested indexes'' max_compact_block_transactions) (?xs h))
      (\<lambda>q. is_ok (validate_absolute_indexes (cr_indexes q)) \<and> cr_block_hash q = h)" for h
    by (rule lenient_cong [OF lenient_field [OF wcount.lenient_codec_axioms xs]])
      (auto simp: validate_absolute_indexes_def wire_limits usize_max_def is_ok_def)
  show "lenient_codec request_bytes request_decode_from request_ok"
    unfolding request_decode_from_def
    by (rule lenient_cong [OF lenient_field [OF fixed_lenient(5) count]]) (auto simp: request_bytes_def request_ok_def)
qed

section \<open>Compact blocks\<close>

lemma short_id_take: "(s :: u64) \<le> 0xffffffffffff \<longleftrightarrow> take_bit 48 s = s"
proof -
  have "unat (take_bit 48 s) = unat s mod 2 ^ 48" unfolding unsigned_take_bit_eq by (rule take_bit_eq_mod)
  then have "take_bit 48 s = s \<longleftrightarrow> unat s < 2 ^ 48" by (simp add: word_unat_eq_iff mod_eq_self_iff_div_eq_0 div_eq_0_iff)
  also have "\<dots> \<longleftrightarrow> unat s \<le> 0xffffffffffff" by (simp add: less_Suc_eq_le [symmetric])
  finally show ?thesis by (simp add: word_le_nat_alt)
qed

lemma short_id_split:
  assumes "(s :: u64) \<le> 0xffffffffffff"
  shows "push_bit 32 (ucast (ucast (drop_bit 32 s) :: u16)) OR ucast (ucast s :: u32) = s"
proof (rule bit_word_eqI)
  fix n
  assume "n < LENGTH(64)"
  have "bit s n \<Longrightarrow> n < 48" using assms unfolding short_id_take by (metis bit_take_bit_iff)
  then show "bit (push_bit 32 (ucast (ucast (drop_bit 32 s) :: u16)) OR ucast (ucast s :: u32) :: u64) n = bit s n"
    using \<open>n < LENGTH(64)\<close> by (auto simp: bit_simps)
qed

lemma short_id_join:
  fixes low :: u32 and high :: u16
  defines "w \<equiv> push_bit 32 (ucast high) OR ucast low :: u64"
  shows "w \<le> 0xffffffffffff" "ucast w = low" "ucast (drop_bit 32 w) = high"
proof -
  have hi: "bit high n \<Longrightarrow> n < 16" and lo: "bit low n \<Longrightarrow> n < 32" for n
    using bit_imp_le_length [of high n] bit_imp_le_length [of low n] by auto
  show "w \<le> 0xffffffffffff" unfolding short_id_take w_def
    by (rule bit_word_eqI) (auto simp: bit_simps dest: hi lo)
  show "ucast w = low" unfolding w_def by (rule bit_word_eqI) (auto simp: bit_simps)
  show "ucast (drop_bit 32 w) = high" unfolding w_def by (rule bit_word_eqI) (auto simp: bit_simps dest: lo)
qed
definition short_id_bytes :: "u64 \<Rightarrow> bytes" where
  "short_id_bytes s = u32_to_le (ucast s) @ u16_to_le (ucast (drop_bit 32 s))"

interpretation sid: codec short_id_bytes read_short_id "\<lambda>s. s \<le> 0xffffffffffff"
proof
  fix s pre suf
  assume "s \<le> 0xffffffffffff" and "fits pre (short_id_bytes s @ suf)"
  then show "read_short_id (cursor pre (short_id_bytes s @ suf)) = Inr (s, cursor (pre @ short_id_bytes s) suf)"
    by (simp add: read_short_id_def short_id_bytes_def dbind_run short_id_split)
next
  fix pre rest s d'
  show "s \<le> 0xffffffffffff \<and> (\<exists>suf. rest = short_id_bytes s @ suf \<and> d' = cursor (pre @ short_id_bytes s) suf)"
    if "read_short_id (cursor pre rest) = Inr (s, d')"
  proof -
    from that obtain low high suf where s: "s = push_bit 32 (ucast (high :: u16)) OR ucast (low :: u32)"
      and "rest = u32_to_le low @ u16_to_le high @ suf" "d' = cursor (pre @ u32_to_le low @ u16_to_le high) suf"
      by (auto simp: read_short_id_def dbind_eq_Inr dest!: u32.reads_back u16.reads_back)
    moreover have "s \<le> 0xffffffffffff" "ucast s = low" "ucast (drop_bit 32 s) = high" unfolding s by (rule short_id_join)+
    ultimately show ?thesis by (auto simp: short_id_bytes_def)
  qed
qed

definition prefilled_bytes :: "prefilled_transaction \<Rightarrow> bytes" where
  "prefilled_bytes p = len_bytes (pf_index p) @ tx_bytes (pf_transaction p)"

lemma check_prefilled_Cons:
  "is_ok (check_prefilled tot previous (p # ps)) \<longleftrightarrow>
     (\<exists>i. absolute_prefilled_index previous (pf_index p) = Inr i \<and> i < tot \<and> is_ok (check_prefilled tot (Some i) ps))"
  by (cases "absolute_prefilled_index previous (pf_index p)") (auto simp: is_ok_def)

lemma read_prefilled_lenient:
  "lenient_codec (\<lambda>ps. concat (map prefilled_bytes ps)) (read_prefilled n tot previous)
     (\<lambda>ps. (is_ok (check_prefilled tot previous ps) \<and> (\<forall>p \<in> set ps. tx_ok (pf_transaction p) \<and> tx_sized (pf_transaction p))) \<and>
        length ps = n)"
proof (induction n arbitrary: previous)
  case 0
  show ?case unfolding read_prefilled.simps by (rule lenient_cong [OF lenient_return]) (auto simp: is_ok_def)
next
  case (Suc n)
  let ?good = "\<lambda>ps. \<forall>p \<in> set ps. tx_ok (pf_transaction p) \<and> tx_sized (pf_transaction p)"
  have ret: "lenient_codec (\<lambda>_. []) (dreturn (\<lparr>pf_index = d, pf_transaction = tx\<rparr> # rest))
      (\<lambda>ps. (ps \<noteq> [] \<and> pf_index (hd ps) = d \<and> pf_transaction (hd ps) = tx) \<and> tl ps = rest)" for d tx rest
    by (rule lenient_cong [OF lenient_return]) (auto simp: neq_Nil_conv)
  have rest: "lenient_codec (\<lambda>ps. concat (map prefilled_bytes (tl ps)))
      (dbind (read_prefilled n tot (Some i)) (\<lambda>rest. dreturn (\<lparr>pf_index = d, pf_transaction = tx\<rparr> # rest)))
      (\<lambda>ps. (is_ok (check_prefilled tot (Some i) (tl ps)) \<and> ?good (tl ps) \<and> length ps = Suc n \<and> pf_index (hd ps) = d) \<and>
        pf_transaction (hd ps) = tx)" for i d tx
    by (rule lenient_cong [OF lenient_field [OF Suc ret]]) (auto simp: neq_Nil_conv length_Suc_conv)
  have txs: "lenient_codec (\<lambda>ps. tx_bytes (pf_transaction (hd ps)) @ concat (map prefilled_bytes (tl ps)))
      (dbind (dlift WireInvalidTransaction tx_decode_from) (\<lambda>tx.
        dbind (read_prefilled n tot (Some i)) (\<lambda>rest. dreturn (\<lparr>pf_index = d, pf_transaction = tx\<rparr> # rest))))
      (\<lambda>ps. (is_ok (check_prefilled tot (Some i) (tl ps)) \<and> ?good ps \<and> length ps = Suc n) \<and> pf_index (hd ps) = d)" for i d
    by (rule lenient_cong [OF lenient_field [OF wire_tx_lenient rest]]) (auto simp: length_Suc_conv)
  let ?F = "\<lambda>d absolute. if absolute \<ge> tot
     then derror (WireCompactBlock (CbMalformed (''prefilled index '' @ decimal absolute @
            '' exceeds transaction count '' @ decimal tot)))
     else dbind (dlift WireInvalidTransaction tx_decode_from) (\<lambda>tx.
       dbind (read_prefilled n tot (Some absolute)) (\<lambda>rest. dreturn (\<lparr>pf_index = d, pf_transaction = tx\<rparr> # rest)))"
  have chk: "lenient_codec (\<lambda>ps. tx_bytes (pf_transaction (hd ps)) @ concat (map prefilled_bytes (tl ps)))
      (dbind (dcheck (map_err WireCompactBlock (absolute_prefilled_index previous d))) (?F d))
      (\<lambda>ps. (is_ok (check_prefilled tot previous ps) \<and> ?good ps \<and> length ps = Suc n) \<and> pf_index (hd ps) = d)" for d
  proof (cases "\<exists>i. absolute_prefilled_index previous d = Inr i \<and> i < tot")
    case True
    then obtain i where i: "absolute_prefilled_index previous d = Inr i" "i < tot" by blast
    have eq: "dbind (dcheck (map_err WireCompactBlock (absolute_prefilled_index previous d))) (?F d) = ?F d i"
      by (rule ext) (simp add: i dbind_def)
    show ?thesis unfolding eq using i
      by (simp only: not_le if_not_P [of "tot \<le> i"], intro lenient_cong [OF txs [of i d]])
        (auto simp: length_Suc_conv check_prefilled_Cons simp del: check_prefilled.simps)
  next
    case False
    then have vac: "\<not> ((is_ok (check_prefilled tot previous ps) \<and> ?good ps \<and> length ps = Suc n) \<and> pf_index (hd ps) = d)" for ps
      by (cases ps) (auto simp: check_prefilled_Cons simp del: check_prefilled.simps)
    have fail: "dbind (dcheck (map_err WireCompactBlock (absolute_prefilled_index previous d))) (?F d) c \<noteq> Inr r" for c r
      using False by (cases "absolute_prefilled_index previous d") (auto simp: dbind_def)
    show ?thesis by (rule lenient_fail [OF vac fail])
  qed
  have small: "pf_index p \<le> 0xffff" if "is_ok (check_prefilled tot previous (p # ps))" for p ps
    using that unfolding check_prefilled_Cons absolute_index_iff by (cases previous) auto
  show ?case unfolding read_prefilled.simps read_bounded_index_eq
    by (rule lenient_cong [OF lenient_field [OF wcount.lenient_codec_axioms chk]])
      (auto simp: length_Suc_conv prefilled_bytes_def [abs_def] usize_max_def simp del: check_prefilled.simps dest: small)
qed

definition compact_bytes_of :: "compact_block \<Rightarrow> bytes" where
  "compact_bytes_of c = header_encode (cb_header c) @ cb_key_nonce c @ list_bytes short_id_bytes (cb_short_ids c) @
     list_bytes prefilled_bytes (cb_prefilled c)"

definition compact_wire :: "compact_block \<Rightarrow> bool" where
  "compact_wire c \<longleftrightarrow> header_ok (cb_header c) \<and> length (cb_key_nonce c) = 8 \<and> (\<forall>p \<in> set (cb_prefilled c). tx_ok (pf_transaction p))"

definition compact_encodes :: "compact_block \<Rightarrow> bool" where
  "compact_encodes c \<longleftrightarrow> is_ok (validate_layout c) \<and> (\<forall>p \<in> set (cb_prefilled c). tx_sized (pf_transaction p))"

lemma compact_encode_iff:
  assumes "compact_wire c"
  shows "compact_encode_to c e = Inr e' \<longleftrightarrow> compact_encodes c \<and> into_bytes e' = into_bytes e @ compact_bytes_of c"
proof -
  have ids: "into_bytes (put_seq (map put_short_id ids) e) = into_bytes e @ concat (map short_id_bytes ids)" for ids e
    by (rule into_bytes_put_seq_map) (simp add: put_short_id_def short_id_bytes_def)
  have "put_prefilled p e = Inr e' \<longleftrightarrow> tx_sized (pf_transaction p) \<and> into_bytes e' = into_bytes e @ prefilled_bytes p"
    if "p \<in> set (cb_prefilled c)" for p e e'
    using put_wire_transaction_iff [of "pf_transaction p"] assms that
    by (simp add: put_prefilled_def prefilled_bytes_def len_bytes_def compact_wire_def)
  from put_each_iff [of "cb_prefilled c" put_prefilled "\<lambda>p. tx_sized (pf_transaction p)" prefilled_bytes, OF this]
  show ?thesis
    by (auto simp: compact_encode_to_def bind_res_eq_Inr map_err_eq_Inr is_ok_iff compact_encodes_def compact_bytes_of_def ids
        len_bytes_def)
qed

lemma validate_layout_iff:
  "is_ok (validate_layout c) \<longleftrightarrow> 0 < length (cb_short_ids c) + length (cb_prefilled c) \<and>
     length (cb_short_ids c) + length (cb_prefilled c) \<le> max_compact_block_transactions \<and>
     (\<forall>s \<in> set (cb_short_ids c). s \<le> 0xffffffffffff) \<and>
     is_ok (check_prefilled (length (cb_short_ids c) + length (cb_prefilled c)) None (cb_prefilled c))"
proof (cases "length (cb_short_ids c) + length (cb_prefilled c) \<le> usize_max")
  case True
  then have "total_transactions c = length (cb_short_ids c) + length (cb_prefilled c)"
    by (simp add: total_transactions_def saturating_add_usize_def)
  then show ?thesis
    by (auto simp: validate_layout_def Let_def is_ok_iff bind_res_eq_Inr list_ex_iff not_less split: if_splits)
      (auto dest!: bspec leD)
next
  case False
  then have "total_transactions c = usize_max" by (simp add: total_transactions_def saturating_add_usize_def)
  then show ?thesis using False by (simp add: validate_layout_def Let_def is_ok_def wire_limits usize_max_def)
qed

interpretation cblk: lenient_codec compact_bytes_of compact_decode_from "\<lambda>c. compact_wire c \<and> compact_encodes c"
proof -
  let ?good = "\<lambda>c. \<forall>p \<in> set (cb_prefilled c). tx_ok (pf_transaction p) \<and> tx_sized (pf_transaction p)"
  let ?fin = "\<lambda>h k ids ps. let compact = \<lparr>cb_header = h, cb_key_nonce = k, cb_short_ids = ids, cb_prefilled = ps\<rparr> in
     dbind (dcheck (map_err WireCompactBlock (validate_layout compact))) (\<lambda>_. dreturn compact)"
  let ?pre = "\<lambda>h k n ids m. dbind (read_prefilled m (saturating_add_usize n m) None) (?fin h k ids)"
  let ?cnt = "\<lambda>h k n ids. dbind (read_count ''compact-block prefilled transactions'' (max_compact_block_transactions - n)) (?pre h k n ids)"
  let ?ids = "\<lambda>h k n. dbind (read_times n read_short_id) (?cnt h k n)"
  have fin: "lenient_codec (\<lambda>_. []) (?fin h k ids ps)
      (\<lambda>c. (is_ok (validate_layout c) \<and> cb_header c = h \<and> cb_key_nonce c = k \<and> cb_short_ids c = ids) \<and> cb_prefilled c = ps)" for h k ids ps
  proof (cases "validate_layout \<lparr>cb_header = h, cb_key_nonce = k, cb_short_ids = ids, cb_prefilled = ps\<rparr>")
    case (Inl er)
    show ?thesis by (rule lenient_fail) (use Inl in \<open>auto simp: dbind_def is_ok_def\<close>, metis compact_block.surjective old.unit.exhaust Inl sum.simps(5))
  next
    case (Inr tot)
    have "?fin h k ids ps = dreturn \<lparr>cb_header = h, cb_key_nonce = k, cb_short_ids = ids, cb_prefilled = ps\<rparr>"
      by (rule ext) (simp add: Inr dbind_def)
    then show ?thesis by (simp only:) (rule lenient_cong [OF lenient_return], use Inr in \<open>auto simp: is_ok_def\<close>)
  qed
  have pre: "lenient_codec (\<lambda>c. concat (map prefilled_bytes (cb_prefilled c))) (?pre h k n ids m)
      (\<lambda>c. (is_ok (validate_layout c) \<and> ?good c \<and> cb_header c = h \<and> cb_key_nonce c = k \<and> cb_short_ids c = ids) \<and> length (cb_prefilled c) = m)"
    if "length ids = n" "n \<le> max_compact_block_transactions" "m \<le> max_compact_block_transactions - n" for h k n ids m
  proof -
    have "saturating_add_usize n m = n + m" using that by (simp add: saturating_add_usize_def wire_limits usize_max_def)
    then show ?thesis
      by (intro lenient_cong [OF lenient_field [OF read_prefilled_lenient fin]]) (use that in \<open>auto simp: validate_layout_iff\<close>)
  qed
  have cnt: "lenient_codec (\<lambda>c. list_bytes prefilled_bytes (cb_prefilled c)) (?cnt h k n ids)
      (\<lambda>c. (is_ok (validate_layout c) \<and> ?good c \<and> cb_header c = h \<and> cb_key_nonce c = k) \<and> cb_short_ids c = ids)"
    if "length ids = n" "n \<le> max_compact_block_transactions" for h k n ids
    by (rule lenient_cong [OF lenient_field [OF wcount.lenient_codec_axioms pre]])
      (use that in \<open>auto simp: validate_layout_iff wire_limits usize_max_def\<close>)
  have ids: "lenient_codec (\<lambda>c. concat (map short_id_bytes (cb_short_ids c)) @ list_bytes prefilled_bytes (cb_prefilled c)) (?ids h k n)
      (\<lambda>c. (is_ok (validate_layout c) \<and> ?good c \<and> cb_header c = h \<and> cb_key_nonce c = k) \<and> length (cb_short_ids c) = n)"
    if "n \<le> max_compact_block_transactions" for h k n
    by (rule lenient_cong [OF lenient_field [OF lenient_times [OF codec_lenient [OF sid.codec_axioms]] cnt]])
      (use that in \<open>auto simp: validate_layout_iff\<close>)
  have num: "lenient_codec (\<lambda>c. list_bytes short_id_bytes (cb_short_ids c) @ list_bytes prefilled_bytes (cb_prefilled c))
      (dbind (read_count ''compact-block short IDs'' max_compact_block_transactions) (?ids h k))
      (\<lambda>c. (is_ok (validate_layout c) \<and> ?good c \<and> cb_header c = h) \<and> cb_key_nonce c = k)" for h k
    by (rule lenient_cong [OF lenient_field [OF wcount.lenient_codec_axioms ids]])
      (auto simp: validate_layout_iff wire_limits usize_max_def)
  have nonce: "lenient_codec (\<lambda>c. cb_key_nonce c @ list_bytes short_id_bytes (cb_short_ids c) @ list_bytes prefilled_bytes (cb_prefilled c))
      (dbind (dlift WireDecode (read_array 8)) (\<lambda>k. dbind (read_count ''compact-block short IDs'' max_compact_block_transactions) (?ids h k)))
      (\<lambda>c. (length (cb_key_nonce c) = 8 \<and> is_ok (validate_layout c) \<and> ?good c) \<and> cb_header c = h)" for h
    by (rule lenient_cong [OF lenient_field [OF fixed_lenient(5) num]]) auto
  show "lenient_codec compact_bytes_of compact_decode_from (\<lambda>c. compact_wire c \<and> compact_encodes c)"
    unfolding compact_decode_from_def
    by (rule lenient_cong [OF lenient_field [OF codec_lenient [OF whdr.codec_axioms] nonce]])
      (auto simp: compact_wire_def compact_encodes_def compact_bytes_of_def)
qed

section \<open>Packets\<close>

definition proof_raw :: "hsd_urkel_proof \<Rightarrow> bytes" where
  "proof_raw p = (case urkel_encode p of Inr bs \<Rightarrow> bs | Inl _ \<Rightarrow> [])"

definition proof_packet_wire :: "proof_packet \<Rightarrow> bool" where
  "proof_packet_wire p \<longleftrightarrow> length (pp_root p) = 32 \<and> length (pp_key p) = 32 \<and> proof_typed (pp_proof p)"

text \<open>
  What the types of the source guarantee of a packet, with the service bits that travel and with the type and kind
  numbers that stand for no named value.
\<close>

primrec packet_wire :: "packet \<Rightarrow> bool" where
  "packet_wire (Version p) = version_wire p"
| "packet_wire Verack = True"
| "packet_wire (Ping n) = (length n = 8)"
| "packet_wire (Pong n) = (length n = 8)"
| "packet_wire GetAddr = True"
| "packet_wire (Addr items) = (\<forall>a \<in> set items. net_address_ok a)"
| "packet_wire (Inv items) = (\<forall>i \<in> set items. inventory_ok i)"
| "packet_wire (GetData items) = (\<forall>i \<in> set items. inventory_ok i)"
| "packet_wire (NotFound items) = (\<forall>i \<in> set items. inventory_ok i)"
| "packet_wire (GetBlocks p) = locator_wire p"
| "packet_wire (GetHeaders p) = locator_wire p"
| "packet_wire (Headers hs) = (\<forall>h \<in> set hs. header_ok h)"
| "packet_wire SendHeaders = True"
| "packet_wire (BlockPacket b) = block_wire b"
| "packet_wire (TxPacket tx) = tx_ok tx"
| "packet_wire (Reject p) = reject_wire p"
| "packet_wire Mempool = True"
| "packet_wire (FilterLoad bs) = True"
| "packet_wire (FilterAdd bs) = True"
| "packet_wire FilterClear = True"
| "packet_wire (MerkleBlock bs) = True"
| "packet_wire (FeeFilter rate) = True"
| "packet_wire (SendCmpct mode version) = True"
| "packet_wire (CmpctBlock c) = compact_wire c"
| "packet_wire (GetBlockTxn q) = (length (cr_block_hash q) = 32)"
| "packet_wire (BlockTxn t) = response_wire t"
| "packet_wire (GetProof p) = get_proof_ok p"
| "packet_wire (Proof p) = proof_packet_wire p"
| "packet_wire (ClaimPacket bs) = True"
| "packet_wire (Airdrop bs) = True"
| "packet_wire (UnknownPacket t bs) = True"

primrec packet_encodes :: "pow_hashes \<Rightarrow> packet \<Rightarrow> bool" where
  "packet_encodes H (Version p) = ascii_text (vp_agent p)"
| "packet_encodes H Verack = True"
| "packet_encodes H (Ping n) = True"
| "packet_encodes H (Pong n) = True"
| "packet_encodes H GetAddr = True"
| "packet_encodes H (Addr items) = (length items \<le> max_addr_items)"
| "packet_encodes H (Inv items) = (length items \<le> max_inventory_items)"
| "packet_encodes H (GetData items) = (length items \<le> max_inventory_items)"
| "packet_encodes H (NotFound items) = (length items \<le> max_inventory_items)"
| "packet_encodes H (GetBlocks p) = (length (lp_locator p) \<le> max_locator_hashes)"
| "packet_encodes H (GetHeaders p) = (length (lp_locator p) \<le> max_locator_hashes)"
| "packet_encodes H (Headers hs) = (length hs \<le> max_headers)"
| "packet_encodes H SendHeaders = True"
| "packet_encodes H (BlockPacket b) = (block_encode H b = Inr (block_bytes b))"
| "packet_encodes H (TxPacket tx) = tx_sized tx"
| "packet_encodes H (Reject p) = reject_encodes p"
| "packet_encodes H Mempool = True"
| "packet_encodes H (FilterLoad bs) = True"
| "packet_encodes H (FilterAdd bs) = True"
| "packet_encodes H FilterClear = True"
| "packet_encodes H (MerkleBlock bs) = True"
| "packet_encodes H (FeeFilter rate) = True"
| "packet_encodes H (SendCmpct mode version) = True"
| "packet_encodes H (CmpctBlock c) = compact_encodes c"
| "packet_encodes H (GetBlockTxn q) = is_ok (validate_absolute_indexes (cr_indexes q))"
| "packet_encodes H (BlockTxn t) = response_encodes t"
| "packet_encodes H (GetProof p) = True"
| "packet_encodes H (Proof p) = is_ok (urkel_encode (pp_proof p))"
| "packet_encodes H (ClaimPacket bs) = True"
| "packet_encodes H (Airdrop bs) = True"
| "packet_encodes H (UnknownPacket t bs) = True"

primrec packet_bytes :: "packet \<Rightarrow> bytes" where
  "packet_bytes (Version p) = version_bytes p"
| "packet_bytes Verack = []"
| "packet_bytes (Ping n) = n"
| "packet_bytes (Pong n) = n"
| "packet_bytes GetAddr = []"
| "packet_bytes (Addr items) = list_bytes net_address_bytes items"
| "packet_bytes (Inv items) = list_bytes inventory_bytes items"
| "packet_bytes (GetData items) = list_bytes inventory_bytes items"
| "packet_bytes (NotFound items) = list_bytes inventory_bytes items"
| "packet_bytes (GetBlocks p) = locator_bytes p"
| "packet_bytes (GetHeaders p) = locator_bytes p"
| "packet_bytes (Headers hs) = list_bytes header_encode hs"
| "packet_bytes SendHeaders = []"
| "packet_bytes (BlockPacket b) = block_bytes b"
| "packet_bytes (TxPacket tx) = tx_bytes tx"
| "packet_bytes (Reject p) = reject_bytes p"
| "packet_bytes Mempool = []"
| "packet_bytes (FilterLoad bs) = bs"
| "packet_bytes (FilterAdd bs) = bs"
| "packet_bytes FilterClear = []"
| "packet_bytes (MerkleBlock bs) = bs"
| "packet_bytes (FeeFilter rate) = u64_to_le rate"
| "packet_bytes (SendCmpct mode version) = [mode] @ u64_to_le version"
| "packet_bytes (CmpctBlock c) = compact_bytes_of c"
| "packet_bytes (GetBlockTxn q) = request_bytes q"
| "packet_bytes (BlockTxn t) = response_bytes t"
| "packet_bytes (GetProof p) = gp_root p @ gp_key p"
| "packet_bytes (Proof p) = pp_root p @ pp_key p @ proof_raw (pp_proof p)"
| "packet_bytes (ClaimPacket bs) = bs"
| "packet_bytes (Airdrop bs) = bs"
| "packet_bytes (UnknownPacket t bs) = bs"

lemma put_packet_iff:
  assumes "packet_wire p"
  shows "put_packet H p e = Inr e' \<longleftrightarrow> packet_encodes H p \<and> into_bytes e' = into_bytes e @ packet_bytes p"
proof (cases p)
  case (BlockPacket b)
  have "block_encode H b = Inr bs \<Longrightarrow> bs = block_bytes b" for bs
    using block_encode_iff [of b H bs] assms BlockPacket by simp
  then show ?thesis using BlockPacket
    by (auto simp: encode_block_packet_def bind_res_eq_Inr map_err_eq_Inr simp flip: into_bytes_inject)
next
  case (Proof q)
  then show ?thesis
    by (auto simp: encode_proof_packet_def bind_res_eq_Inr map_err_eq_Inr proof_raw_def is_ok_def split: sum.splits
        simp flip: into_bytes_inject)
next
  case (TxPacket tx)
  then show ?thesis using assms put_wire_transaction_iff by simp
next
  case (CmpctBlock c)
  then show ?thesis using assms compact_encode_iff by simp
next
  case (BlockTxn t)
  then show ?thesis using assms response_encode_iff by simp
qed (auto simp: encode_version_iff encode_addresses_iff encode_inventory_iff encode_locator_iff encode_headers_iff encode_reject_iff
    request_encode_iff simp flip: into_bytes_inject)

lemma take_remaining_run: "fits pre rest \<Longrightarrow> take_remaining (cursor pre rest) = Inr (rest, cursor (pre @ rest) [])"
  using read_slice_run [of pre rest "[]" "length rest"] by (simp add: take_remaining_def)

lemma finish_rest: "length bs \<le> usize_max \<Longrightarrow> finish_packet (dmap C take_remaining) bs = Inr (C bs)"
  by (simp add: finish_packet_def dmap_def decoder_new_cursor dbind_run take_remaining_run fits_def)

lemma finish_return: "finish_packet (dreturn p) bs = Inr q \<longleftrightarrow> q = p \<and> bs = []"
  by (auto simp: finish_packet_def decoder_new_cursor bind_res_eq_Inr)

lemma fixed_codecs:
  "lenient_codec (\<lambda>bs. bs) (dlift WireDecode (read_array n)) (\<lambda>bs. length bs = n)"
  "lenient_codec u64_to_le (dlift WireDecode read_u64_le) (\<lambda>_. True)"
  by (rule fixed_lenient)+

lemma read_send_cmpct_eq: "read_send_cmpct = dmap (\<lambda>(m, v). SendCmpct m v)
    (dbind (dlift WireDecode read_u8) (\<lambda>m. dbind (dlift WireDecode read_u64_le) (\<lambda>v. dreturn (m, v))))"
  by (rule ext) (simp add: read_send_cmpct_def dmap_def dbind_def bind_res_assoc case_prod_unfold)

lemma send_cmpct_lenient: "lenient_codec (\<lambda>(m, v). [m] @ u64_to_le v)
    (dbind (dlift WireDecode read_u8) (\<lambda>m. dbind (dlift WireDecode read_u64_le) (\<lambda>v. dreturn (m, v)))) (\<lambda>_. True)"
proof (rule codec_lenient, unfold_locales)
  fix p :: "byte \<times> u64" and pre suf
  assume "fits pre ((case p of (m, v) \<Rightarrow> [m] @ u64_to_le v) @ suf)"
  then show "dbind (dlift WireDecode read_u8) (\<lambda>m. dbind (dlift WireDecode read_u64_le) (\<lambda>v. dreturn (m, v)))
      (cursor pre ((case p of (m, v) \<Rightarrow> [m] @ u64_to_le v) @ suf)) = Inr (p, cursor (pre @ (case p of (m, v) \<Rightarrow> [m] @ u64_to_le v)) suf)"
    by (cases p) (simp add: dbind_run)
next
  fix pre rest p d'
  assume "dbind (dlift WireDecode read_u8) (\<lambda>m. dbind (dlift WireDecode read_u64_le) (\<lambda>v. dreturn (m, v))) (cursor pre rest) = Inr (p, d')"
  then show "True \<and> (\<exists>suf. rest = (case p of (m, v) \<Rightarrow> [m] @ u64_to_le v) @ suf \<and>
      d' = cursor (pre @ (case p of (m, v) \<Rightarrow> [m] @ u64_to_le v)) suf)"
    by (auto simp: dbind_eq_Inr dest!: u8.reads_back u64.reads_back)
qed

lemma finish_proof:
  assumes "length bs \<le> usize_max"
  shows "finish_packet (dmap Proof read_proof_packet) bs = Inr p \<longleftrightarrow>
    (\<exists>q. p = Proof q \<and> proof_packet_wire q \<and> is_ok (urkel_encode (pp_proof q)) \<and> bs = packet_bytes (Proof q))"
proof
  assume "finish_packet (dmap Proof read_proof_packet) bs = Inr p"
  then obtain root key raw s q where len: "length root = 32" "length key = 32" "bs = root @ key @ s"
    and raw: "take_remaining (cursor (root @ key) s) = Inr (raw, q)" and dec: "\<exists>u. urkel_decode_strict raw = Inr u \<and>
      p = Proof \<lparr>pp_root = root, pp_key = key, pp_proof = u\<rparr>"
    by (auto simp: finish_packet_def dmap_def decoder_new_cursor read_proof_packet_def bind_res_eq_Inr dbind_eq_Inr
        map_err_eq_Inr dest!: arr.reads_back)
  have "raw = s" using raw take_remaining_run [of "root @ key" s] assms len by (simp add: fits_def)
  then show "\<exists>q. p = Proof q \<and> proof_packet_wire q \<and> is_ok (urkel_encode (pp_proof q)) \<and> bs = packet_bytes (Proof q)"
    using dec len by (auto simp: proof_packet_wire_def urkel_strict_exact proof_raw_def is_ok_def)
next
  assume "\<exists>q. p = Proof q \<and> proof_packet_wire q \<and> is_ok (urkel_encode (pp_proof q)) \<and> bs = packet_bytes (Proof q)"
  then obtain q raw where q: "p = Proof q" "length (pp_root q) = 32" "length (pp_key q) = 32"
    and raw: "urkel_decode_strict raw = Inr (pp_proof q)" and bs: "bs = pp_root q @ pp_key q @ raw"
    by (auto simp: proof_packet_wire_def urkel_strict_exact proof_raw_def is_ok_iff)
  have fit: "fits [] (pp_root q @ pp_key q @ raw)" "fits (pp_root q) (pp_key q @ raw)" using assms bs by (simp_all add: fits_def)
  then have "take_remaining (cursor (pp_root q @ pp_key q) raw) = Inr (raw, cursor bs [])"
    using take_remaining_run [of "pp_root q @ pp_key q" raw] bs by (simp add: fits_def)
  then show "finish_packet (dmap Proof read_proof_packet) bs = Inr p"
    using q raw bs fit by (simp add: finish_packet_def dmap_def decoder_new_cursor read_proof_packet_def dbind_run)
qed

text \<open>The readers of the packets, one codec each.\<close>

lemmas packet_codecs =
  vers.lenient_codec_axioms fixed_codecs read_addresses_lenient decode_inventory_lenient lctr.lenient_codec_axioms
  read_headers_lenient rejc.lenient_codec_axioms cblk.lenient_codec_axioms reqc.lenient_codec_axioms
  resp.lenient_codec_axioms getp.lenient_codec_axioms

lemmas packet_reads = packet_codecs [THEN finish_reads]
lemmas packet_backs = packet_codecs [THEN finish_back]

lemma send_cmpct_reads: "finish_packet read_send_cmpct ([m] @ u64_to_le v) = Inr (SendCmpct m v)"
  using finish_reads [OF send_cmpct_lenient, of "(m, v)" "\<lambda>(m, v). SendCmpct m v"]
  unfolding read_send_cmpct_eq by (simp add: usize_max_def)

lemma send_cmpct_back: "finish_packet read_send_cmpct bs = Inr p \<Longrightarrow> \<exists>m v. p = SendCmpct m v \<and> length bs = 9"
  using finish_back [OF send_cmpct_lenient, of "\<lambda>(m, v). SendCmpct m v" bs p]
  unfolding read_send_cmpct_eq by (auto split: prod.splits)

lemma decode_payload_reads:
  assumes "packet_wire p" "packet_encodes H p" "length (packet_bytes p) \<le> usize_max"
  shows "decode_payload H (packet_type_of p) (packet_bytes p) = Inr p"
proof (cases p)
  case (BlockPacket b)
  then have "block_decode H (block_bytes b) = Inr b" using assms by (simp add: block_decode_iff)
  then show ?thesis using BlockPacket by simp
next
  case (TxPacket tx)
  then have "tx_decode (tx_bytes tx) = Inr tx" using assms tx_encode_iff [of tx] by (simp add: tx_decode_iff tx_ok_def)
  then show ?thesis using TxPacket by simp
qed (use assms in \<open>auto simp: packet_reads finish_rest finish_return finish_proof request_ok_def send_cmpct_reads [simplified]\<close>)

lemma decode_payload_back:
  assumes "decode_payload H t bs = Inr p" "length bs \<le> usize_max"
  shows "packet_type_of p = t \<and> packet_wire p \<and> packet_encodes H p \<and> length (packet_bytes p) = length bs"
proof (cases t)
  case PtBlock
  with assms obtain b where b: "block_decode H bs = Inr b" "p = BlockPacket b" by (auto simp: bind_res_eq_Inr map_err_eq_Inr)
  then have "block_wire b" "block_encode H b = Inr bs" by (auto simp: block_decode_iff)
  then show ?thesis using PtBlock b block_encode_iff [of b H bs] by simp
next
  case PtTx
  with assms obtain tx where tx: "tx_decode bs = Inr tx" "p = TxPacket tx" by (auto simp: bind_res_eq_Inr map_err_eq_Inr)
  then show ?thesis using PtTx tx_encode_iff [of tx bs] by (simp add: tx_decode_iff tx_ok_def)
next
  case PtProof
  then show ?thesis using assms by (auto simp: finish_proof)
qed (use assms in \<open>auto simp: finish_rest finish_return request_ok_def dest!: packet_backs send_cmpct_back\<close>)

end
