(* ===== verification/WireDelivery.thy ===== *)
theory WireDelivery
  imports FrameProofs PacketProofs
begin

text \<open>Packets end to end: encoded into frames, cut into chunks, reassembled and decoded.\<close>

lemma encode_payload_iff:
  assumes "packet_wire p"
  shows "encode_payload H p = Inr bs \<longleftrightarrow>
    packet_encodes H p \<and> bs = packet_bytes p \<and> length (packet_bytes p) \<le> max_frame_payload_size"
proof -
  obtain d where d: "into_bytes d = packet_bytes p"
    using that [of "\<lparr>enc_bytes = packet_bytes p\<rparr>"] by (simp add: into_bytes_def)
  have "put_packet H p encoder_new = Inr e \<longleftrightarrow> packet_encodes H p \<and> e = d" for e
    using put_packet_iff [OF assms, of H encoder_new e] d by (auto simp flip: into_bytes_inject)
  then show ?thesis using d by (auto simp: encode_payload_def bind_res_eq_Inr check_payload_size_def)
qed

lemma packet_decode_encoded:
  assumes "packet_wire p" "encode_payload H p = Inr bs"
  shows "packet_decode H (packet_type_of p) bs = Inr p"
  using assms decode_payload_reads [of p H]
  by (simp add: encode_payload_iff packet_decode_def check_payload_size_def max_frame_payload_size_def usize_max_def)

lemma packet_decode_back:
  assumes "packet_decode H t bs = Inr p"
  shows "packet_type_of p = t \<and> packet_wire p \<and> encode_payload H p = Inr (packet_bytes p) \<and> length (packet_bytes p) = length bs"
proof -
  have b: "length bs \<le> max_frame_payload_size" "decode_payload H t bs = Inr p"
    using assms by (auto simp: packet_decode_def check_payload_size_def bind_res_eq_Inr split: if_splits)
  then have "length bs \<le> usize_max" by (simp add: max_frame_payload_size_def usize_max_def)
  from decode_payload_back [OF b(2) this] b(1) show ?thesis by (simp add: encode_payload_iff)
qed

text \<open>
  The packet codec. A packet of any of the thirty-one kinds that encodes is decoded back from its payload. Decoding is lenient
  about reserved fields, but what it accepts is always of the announced kind, encodes again to a payload of the same
  length, and that payload decodes to the same packet: decoding and encoding agree on one normal form.
\<close>

theorem packet_codec_normal_form:
  "(packet_wire p \<and> encode_payload H p = Inr bs \<longrightarrow> packet_decode H (packet_type_of p) bs = Inr p) \<and>
   (packet_decode H t bs = Inr p \<longrightarrow> packet_type_of p = t \<and> packet_wire p \<and>
     (\<exists>bs'. encode_payload H p = Inr bs' \<and> length bs' = length bs \<and> packet_decode H t bs' = Inr p))"
proof (intro conjI impI)
  assume "packet_wire p \<and> encode_payload H p = Inr bs"
  then show "packet_decode H (packet_type_of p) bs = Inr p" using packet_decode_encoded by blast
next
  assume d: "packet_decode H t bs = Inr p"
  from packet_decode_back [OF d] show "packet_type_of p = t" "packet_wire p"
    "\<exists>bs'. encode_payload H p = Inr bs' \<and> length bs' = length bs \<and> packet_decode H t bs' = Inr p"
    using packet_decode_encoded [of p H "packet_bytes p"] by auto
qed

definition wire_hashes :: pow_hashes where
  "wire_hashes = \<lparr>ph_blake2b_256 = sample_hash, ph_blake2b_512 = sample_hash, ph_sha3_256 = sample_hash\<rparr>"

text \<open>A reject packet with a text byte outside ASCII, which decodes to its seven-bit form.\<close>

theorem packet_codec_normal_form_witness:
  "packet_decode wire_hashes PtReject [1, 16, 2, 0xe1, 0x62] =
     Inr (Reject \<lparr>rp_message = PtVerack, rp_code = 16, rp_reason = [0x61, 0x62], rp_hash = None\<rparr>) \<and>
   packet_decode wire_hashes PtReject [1, 16, 2, 0x61, 0x62] =
     Inr (Reject \<lparr>rp_message = PtVerack, rp_code = 16, rp_reason = [0x61, 0x62], rp_hash = None\<rparr>)"
  (is "?a = Inr ?p \<and> _")
proof -
  have t: "packet_type_from_u8 1 = PtVerack" by (simp add: packet_type_from_u8_def known_packet_types_def get_def)
  have runs: "read_u8 (cursor [] [1, 16, 2, a, b]) = Inr (1, cursor [1] [16, 2, a, b])"
    "read_u8 (cursor [1] [16, 2, a, b]) = Inr (16, cursor [1, 16] [2, a, b])"
    "read_u8 (cursor [1, 16] [2, a, b]) = Inr (2, cursor [1, 16, 2] [a, b])"
    "read_slice 2 (cursor [1, 16, 2] [a, b]) = Inr ([a, b], cursor [1, 16, 2, a, b] [])" for a b :: byte
    using read_slice_run [of "[1, 16, 2]" "[a, b]" "[]" 2] by (simp_all add: fits_def usize_max_def)
  have one: "?a = Inr ?p"
    by (simp add: packet_decode_def check_payload_size_def max_frame_payload_size_def finish_packet_def dmap_def decode_reject_def
        decoder_new_cursor dbind_run runs t decode_hsd_ascii_def)
  have "packet_wire ?p \<and> encode_payload wire_hashes ?p = Inr [1, 16, 2, 0x61, 0x62]"
    using packet_decode_back [OF one]
    by (simp add: reject_bytes_def)
  with packet_codec_normal_form [of ?p wire_hashes "[1, 16, 2, 0x61, 0x62]"] one show ?thesis by simp
qed

text \<open>
  A packet as the other side sees it: the service bits of versions and addresses are 64 bits wide and only the lower half
  of them travels.
\<close>

definition services_arrived :: "u64 \<Rightarrow> u64" where
  "services_arrived services = ucast (ucast services :: u32)"

definition address_arrived :: "net_address \<Rightarrow> net_address" where
  "address_arrived a = a\<lparr>na_services := services_arrived (na_services a)\<rparr>"

definition packet_arrived :: "packet \<Rightarrow> packet" where
  "packet_arrived p =
     (case p of
        Version v \<Rightarrow> Version (v\<lparr>vp_services := services_arrived (vp_services v), vp_remote := address_arrived (vp_remote v)\<rparr>)
      | Addr items \<Rightarrow> Addr (map address_arrived items)
      | _ \<Rightarrow> p)"

lemma services_arrived_narrow [simp]: "(ucast (services_arrived s) :: u32) = ucast s"
  by (simp add: services_arrived_def ucast_down_ucast_id is_down)

lemma services_arrived_short: "short_services s \<Longrightarrow> services_arrived s = s"
  by (simp add: services_arrived_def short_services_back)

lemma packet_arrived_wire: "packet_wire p \<Longrightarrow> packet_arrived p = p"
  by (cases p) (simp_all add: packet_arrived_def address_arrived_def version_wire_def net_address_ok_def services_arrived_short
      map_idI)

lemma put_address_arrived [simp]: "put_net_address (address_arrived a) = put_net_address a"
  by (simp add: put_net_address_def address_arrived_def)

lemma packet_arrived_type [simp]: "packet_type_of (packet_arrived p) = packet_type_of p"
  by (cases p) (simp_all add: packet_arrived_def)

lemma encode_payload_arrived [simp]: "encode_payload H (packet_arrived p) = encode_payload H p"
proof -
  have "put_packet H (packet_arrived p) e = put_packet H p e" for e
    by (cases p) (simp_all add: packet_arrived_def encode_version_def encode_addresses_def comp_def)
  then show ?thesis by (simp add: encode_payload_def)
qed

text \<open>
  C13: packets arrive. A sequence of packets, each put into a frame, encoded for a network and cut into chunks of at most
  8,000,009 bytes (the longest frame) in any way, is delivered by a frame decoder of that network: it returns exactly one
  frame per packet, in order, nothing stays buffered, and the frames decode to the packets that were sent, with service
  bits cut to the 32 bits that travel. Fields of a fixed size must have that size, and the unknown variants of packet,
  inventory and covenant kinds must not hold a number that names a known kind.
\<close>

theorem packets_delivered:
  assumes packets: "\<forall>p \<in> set ps. packet_wire (packet_arrived p) \<and> type_canonical (packet_type_of p)"
    and sent: "map_res (frame_from_packet H) ps = Inr fs" "map_res (frame_encode network) fs = Inr bss"
    and cut: "concat cs = concat bss" "\<forall>c \<in> set cs. chunk_ok c"
  shows "push_chunks cs (frame_decoder_new network) = (Inr fs, frame_decoder_new network) \<and>
    map_res (frame_decode_packet H) fs = Inr (map packet_arrived ps)"
proof -
  have "(\<forall>f \<in> set fs. frame_canonical f) \<and> map_res (frame_decode_packet H) fs = Inr (map packet_arrived ps)"
    using packets sent(1)
  proof (induction ps arbitrary: fs)
    case (Cons p ps)
    then obtain f rest where f: "frame_from_packet H p = Inr f" and rest: "map_res (frame_from_packet H) ps = Inr rest"
      and fs: "fs = f # rest" by (auto simp: bind_res_eq_Inr)
    from f obtain bs where bs: "encode_payload H p = Inr bs" "f = \<lparr>fr_packet_type = packet_type_of p, fr_payload = bs\<rparr>"
      by (auto simp: frame_from_packet_def frame_new_def bind_res_eq_Inr)
    have "frame_decode_packet H f = Inr (packet_arrived p)" "frame_canonical f"
      using packet_decode_encoded [of "packet_arrived p" H bs] Cons.prems(1) bs
      by (simp_all add: frame_decode_packet_def frame_canonical_def type_canonical_def)
    with Cons.IH [OF _ rest] Cons.prems(1) fs show ?case by simp
  qed simp
  with frame_stream_delivered [OF sent(2) _ cut] show ?thesis by simp
qed

theorem packets_delivered_witness:
  "push_chunks sample_chunks (frame_decoder_new MagicMainnet) = (Inr sample_frames, frame_decoder_new MagicMainnet) \<and>
    map_res (frame_decode_packet wire_hashes) sample_frames = Inr [Verack, Ping (replicate 8 7)]"
proof -
  let ?ps = "[Verack, Ping (replicate 8 7)]"
  let ?bss = "[[0xd3, 0xf2, 0x6e, 0x5b, 1, 0, 0, 0, 0], [0xd3, 0xf2, 0x6e, 0x5b, 2, 8, 0, 0, 0, 7, 7, 7, 7, 7, 7, 7, 7]] :: bytes list"
  have m: "u32_to_le 0x5b6ef2d3 = [0xd3, 0xf2, 0x6e, 0x5b]" "u32_to_le 0 = [0, 0, 0, 0]" "u32_to_le 8 = [8, 0, 0, 0]"
    by code_simp+
  have r: "replicate 8 7 = [7, 7, 7, 7, 7, 7, 7, 7 :: byte]" by (simp add: eval_nat_numeral)
  have "\<forall>p \<in> set ?ps. packet_wire (packet_arrived p) \<and> type_canonical (packet_type_of p)"
    by (simp add: packet_arrived_def type_canonical_def packet_type_from_u8_def known_packet_types_def get_def)
  moreover have "map_res (frame_from_packet wire_hashes) ?ps = Inr sample_frames"
    by (simp add: frame_from_packet_def frame_new_def encode_payload_iff check_payload_size_def max_frame_payload_size_def
        sample_frames_def bind_res_eq_Inr)
  moreover have "map_res (frame_encode MagicMainnet) sample_frames = Inr ?bss"
    by (simp add: sample_frames_def bind_res_eq_Inr frame_encode_iff m r max_frame_payload_size_def)
  moreover have "concat sample_chunks = concat ?bss" by (simp add: sample_chunks_def)
  ultimately have "push_chunks sample_chunks (frame_decoder_new MagicMainnet) = (Inr sample_frames, frame_decoder_new MagicMainnet) \<and>
      map_res (frame_decode_packet wire_hashes) sample_frames = Inr (map packet_arrived ?ps)"
    using sample_chunks_ok by (rule packets_delivered)
  then show ?thesis by (simp add: packet_arrived_def)
qed

end
