(* ===== verification/Cbor.thy ===== *)
theory Cbor
  imports Encoding
begin

text \<open>
  Model of \<^verbatim>\<open>crates/hns-hrm/src/cbor.rs\<close>: the deterministic CBOR subset of registry messages, its encoder and its
  decoder under explicit limits. A depth is given by the levels that remain, \<^verbatim>\<open>max_depth + 1 - depth\<close>. A value in
  memory has fewer than \<open>2 ^ 64\<close> items, so the counters that saturate in the code are plain here. Text is the
  list of its UTF-8 bytes and \<open>utf8_valid\<close> is the check of the standard library.
\<close>

section \<open>Values, limits and errors\<close>

datatype cval =
    CUnsigned u64
  | CNegative int
  | CBytes bytes
  | CText bytes
  | CArray "cval list"
  | CMap "(u64 \<times> cval) list"
  | CBool bool
  | CNull

record decode_limits =
  dl_max_depth :: nat
  dl_max_items :: nat
  dl_max_bytes :: nat
  dl_max_array_len :: nat
  dl_max_map_len :: nat
  dl_max_string_bytes :: nat

definition default_limits :: decode_limits where
  "default_limits = \<lparr>dl_max_depth = 32, dl_max_items = 1048576, dl_max_bytes = 1048576, dl_max_array_len = 4096,
     dl_max_map_len = 4096, dl_max_string_bytes = 1048576\<rparr>"

datatype cbor_error =
    InvalidLimits string | CborEmpty | CborTooLarge | CborTruncated | NonPreferred | CborUnsupported | CborFloat
  | CborIndefinite | CborUtf8 | CborDepth | CborItems | CborContainer | CborString | CborMapKey | NegativeRange
  | CborTrailing

definition validate_limits :: "decode_limits \<Rightarrow> cbor_error + unit" where
  "validate_limits L =
     (if dl_max_depth L = 0 then Inl (InvalidLimits ''max_depth must be nonzero'')
      else if dl_max_items L = 0 then Inl (InvalidLimits ''max_items must be nonzero'')
      else if dl_max_bytes L = 0 then Inl (InvalidLimits ''max_bytes must be nonzero'')
      else Inr ())"

text \<open>Well-formed UTF-8: no overlong form, no surrogate, nothing beyond the last code point.\<close>

definition continuation :: "byte \<Rightarrow> bool" where
  "continuation b \<longleftrightarrow> 0x80 \<le> b \<and> b \<le> 0xbf"

fun utf8_valid :: "bytes \<Rightarrow> bool" where
  "utf8_valid [] = True"
| "utf8_valid (a # rest) =
     (if a \<le> 0x7f then utf8_valid rest
      else if 0xc2 \<le> a \<and> a \<le> 0xdf then
        (case rest of b # rest \<Rightarrow> continuation b \<and> utf8_valid rest | _ \<Rightarrow> False)
      else if 0xe0 \<le> a \<and> a \<le> 0xef then
        (case rest of b # c # rest \<Rightarrow>
           continuation b \<and> continuation c \<and> (a = 0xe0 \<longrightarrow> 0xa0 \<le> b) \<and> (a = 0xed \<longrightarrow> b \<le> 0x9f) \<and> utf8_valid rest
         | _ \<Rightarrow> False)
      else if 0xf0 \<le> a \<and> a \<le> 0xf4 then
        (case rest of b # c # d # rest \<Rightarrow>
           continuation b \<and> continuation c \<and> continuation d \<and> (a = 0xf0 \<longrightarrow> 0x90 \<le> b) \<and> (a = 0xf4 \<longrightarrow> b \<le> 0x8f) \<and>
           utf8_valid rest
         | _ \<Rightarrow> False)
      else False)"

section \<open>The encoder\<close>

definition u16_to_be :: "u16 \<Rightarrow> bytes" where "u16_to_be w = be_bytes 2 (unat w)"
definition u32_to_be :: "u32 \<Rightarrow> bytes" where "u32_to_be w = be_bytes 4 (unat w)"
definition u32_of_be :: "bytes \<Rightarrow> u32" where "u32_of_be bs = word_of_nat (be_nat bs)"

definition encode_head :: "byte \<Rightarrow> u64 \<Rightarrow> bytes" where
  "encode_head major argument =
     (let prefix = push_bit 5 major in
      if argument \<le> 23 then [prefix OR ucast argument]
      else if argument \<le> 0xff then [prefix OR 24, ucast argument]
      else if argument \<le> 0xffff then (prefix OR 25) # u16_to_be (ucast argument)
      else if argument \<le> 0xffffffff then (prefix OR 26) # u32_to_be (ucast argument)
      else (prefix OR 27) # u64_to_be argument)"

record cbor_encoder =
  ce_output :: bytes
  ce_items :: nat

definition ce_extend :: "decode_limits \<Rightarrow> bytes \<Rightarrow> cbor_encoder \<Rightarrow> cbor_error + cbor_encoder" where
  "ce_extend L bs e =
     bind_res (ok_or (checked_add_usize (length (ce_output e)) (length bs)) CborTooLarge) (\<lambda>new_len.
     if new_len > dl_max_bytes L then Inl CborTooLarge else Inr (e\<lparr>ce_output := ce_output e @ bs\<rparr>))"

definition ce_push :: "decode_limits \<Rightarrow> byte \<Rightarrow> cbor_encoder \<Rightarrow> cbor_error + cbor_encoder" where
  "ce_push L b e =
     (if length (ce_output e) = dl_max_bytes L then Inl CborTooLarge else Inr (e\<lparr>ce_output := ce_output e @ [b]\<rparr>))"

definition ce_head :: "decode_limits \<Rightarrow> byte \<Rightarrow> u64 \<Rightarrow> cbor_encoder \<Rightarrow> cbor_error + cbor_encoder" where
  "ce_head L major argument e = ce_extend L (encode_head major argument) e"

text \<open>
  The counter of items is only ever raised by one, for an item that takes at least one byte of the buffer, so it stays below
  the length of a vector and its addition cannot saturate; the look-ahead adds a length from the input and can,
  which also covers the saturating doubling of the length of a map.
\<close>

definition ce_bump_item :: "decode_limits \<Rightarrow> cbor_encoder \<Rightarrow> cbor_error + cbor_encoder" where
  "ce_bump_item L e =
     (if ce_items e + 1 > dl_max_items L then Inl CborItems else Inr (e\<lparr>ce_items := ce_items e + 1\<rparr>))"

definition ce_ensure_future_items :: "decode_limits \<Rightarrow> nat \<Rightarrow> cbor_encoder \<Rightarrow> cbor_error + unit" where
  "ce_ensure_future_items L additional e = (if saturating_add_usize (ce_items e) additional > dl_max_items L then Inl CborItems else Inr ())"

definition ce_string_len :: "decode_limits \<Rightarrow> nat \<Rightarrow> cbor_error + unit" where
  "ce_string_len L len = (if len > dl_max_string_bytes L then Inl CborString else Inr ())"

fun check_keys :: "u64 option \<Rightarrow> (u64 \<times> cval) list \<Rightarrow> cbor_error + unit" where
  "check_keys previous [] = Inr ()"
| "check_keys previous ((key, _) # rest) =
     (if (case previous of Some p \<Rightarrow> p \<ge> key | None \<Rightarrow> False) then Inl CborMapKey else check_keys (Some key) rest)"

definition ce_string :: "decode_limits \<Rightarrow> byte \<Rightarrow> bytes \<Rightarrow> cbor_encoder \<Rightarrow> cbor_error + cbor_encoder" where
  "ce_string L major bs e =
     bind_res (ce_string_len L (length bs)) (\<lambda>_.
     bind_res (ce_head L major (word_of_nat (length bs)) e) (\<lambda>e. ce_extend L bs e))"

fun ce_value :: "decode_limits \<Rightarrow> cval \<Rightarrow> nat \<Rightarrow> cbor_encoder \<Rightarrow> cbor_error + cbor_encoder"
and ce_values :: "decode_limits \<Rightarrow> cval list \<Rightarrow> nat \<Rightarrow> cbor_encoder \<Rightarrow> cbor_error + cbor_encoder"
and ce_fields :: "decode_limits \<Rightarrow> (u64 \<times> cval) list \<Rightarrow> nat \<Rightarrow> cbor_encoder \<Rightarrow> cbor_error + cbor_encoder" where
  "ce_value L v levels e =
     (if levels = 0 then Inl CborDepth
      else
        bind_res (ce_bump_item L e) (\<lambda>e.
        case v of
          CUnsigned n \<Rightarrow> ce_head L 0 n e
        | CNegative n \<Rightarrow>
            if n \<ge> 0 then Inl NegativeRange
            else if -1 - n > 0xffffffffffffffff then Inl NegativeRange else ce_head L 1 (word_of_int (-1 - n)) e
        | CBytes bs \<Rightarrow> ce_string L 2 bs e
        | CText bs \<Rightarrow> ce_string L 3 bs e
        | CArray vs \<Rightarrow>
            if length vs > dl_max_array_len L then Inl CborContainer
            else
              bind_res (ce_ensure_future_items L (length vs) e) (\<lambda>_.
              bind_res (ce_head L 4 (word_of_nat (length vs)) e) (\<lambda>e. ce_values L vs (levels - 1) e))
        | CMap fs \<Rightarrow>
            if length fs > dl_max_map_len L then Inl CborContainer
            else
              bind_res (ce_ensure_future_items L (length fs * 2) e) (\<lambda>_.
              bind_res (check_keys None fs) (\<lambda>_.
              bind_res (ce_head L 5 (word_of_nat (length fs)) e) (\<lambda>e. ce_fields L fs (levels - 1) e)))
        | CBool b \<Rightarrow> ce_push L (if b then 0xf5 else 0xf4) e
        | CNull \<Rightarrow> ce_push L 0xf6 e))"
| "ce_values L [] levels e = Inr e"
| "ce_values L (v # vs) levels e = bind_res (ce_value L v levels e) (\<lambda>e. ce_values L vs levels e)"
| "ce_fields L [] levels e = Inr e"
| "ce_fields L ((key, v) # fs) levels e =
     bind_res (ce_bump_item L e) (\<lambda>e.
     bind_res (ce_head L 0 key e) (\<lambda>e.
     bind_res (ce_value L v levels e) (\<lambda>e. ce_fields L fs levels e)))"

declare ce_value.simps [simp del]

definition encode_canonical_with_limits :: "cval \<Rightarrow> decode_limits \<Rightarrow> cbor_error + bytes" where
  "encode_canonical_with_limits v L =
     bind_res (validate_limits L) (\<lambda>_.
     bind_res (ce_value L v (dl_max_depth L) \<lparr>ce_output = [], ce_items = 0\<rparr>) (\<lambda>e. Inr (ce_output e)))"

definition encode_canonical :: "cval \<Rightarrow> cbor_error + bytes" where
  "encode_canonical v = encode_canonical_with_limits v default_limits"

section \<open>The decoder\<close>

record cbor_decoder =
  cd_input :: bytes
  cd_position :: nat
  cd_items :: nat

type_synonym 'a cbor_reader = "cbor_decoder \<Rightarrow> cbor_error + 'a \<times> cbor_decoder"

definition cbind :: "'a cbor_reader \<Rightarrow> ('a \<Rightarrow> 'b cbor_reader) \<Rightarrow> 'b cbor_reader" where
  "cbind p f d = bind_res (p d) (\<lambda>(x, d'). f x d')"

definition cret :: "'a \<Rightarrow> 'a cbor_reader" where "cret x d = Inr (x, d)"
definition cfail :: "cbor_error \<Rightarrow> 'a cbor_reader" where "cfail e d = Inl e"

definition cd_bump_item :: "decode_limits \<Rightarrow> unit cbor_reader" where
  "cd_bump_item L d = (if cd_items d + 1 > dl_max_items L then Inl CborItems else Inr ((), d\<lparr>cd_items := cd_items d + 1\<rparr>))"

definition cd_ensure_future_items :: "decode_limits \<Rightarrow> nat \<Rightarrow> unit cbor_reader" where
  "cd_ensure_future_items L additional d = (if saturating_add_usize (cd_items d) additional > dl_max_items L then Inl CborItems else Inr ((), d))"

definition cd_byte :: "byte cbor_reader" where
  "cd_byte d = bind_res (ok_or (get (cd_input d) (cd_position d)) CborTruncated) (\<lambda>b.
     Inr (b, d\<lparr>cd_position := cd_position d + 1\<rparr>))"

definition cd_slice :: "nat \<Rightarrow> bytes cbor_reader" where
  "cd_slice len d =
     bind_res (ok_or (checked_add_usize (cd_position d) len) CborTruncated) (\<lambda>end_pos.
     bind_res (ok_or (get_range (cd_input d) (cd_position d) end_pos) CborTruncated) (\<lambda>bs.
     Inr (bs, d\<lparr>cd_position := end_pos\<rparr>)))"

definition preferred :: "u64 \<Rightarrow> u64 \<Rightarrow> u64 cbor_reader" where
  "preferred bound v = (if v \<le> bound then cfail NonPreferred else cret v)"

definition cd_argument :: "byte \<Rightarrow> u64 cbor_reader" where
  "cd_argument additional =
     (if additional \<le> 23 then cret (ucast additional)
      else if additional = 24 then cbind cd_byte (\<lambda>b. preferred 23 (ucast b))
      else if additional = 25 then cbind (cd_slice 2) (\<lambda>bs. preferred 0xff (ucast (u16_of_be bs)))
      else if additional = 26 then cbind (cd_slice 4) (\<lambda>bs. preferred 0xffff (ucast (u32_of_be bs)))
      else if additional = 27 then cbind (cd_slice 8) (\<lambda>bs. preferred 0xffffffff (u64_of_be bs))
      else if additional = 31 then cfail CborIndefinite
      else cfail CborUnsupported)"

definition cd_string :: "decode_limits \<Rightarrow> byte \<Rightarrow> bytes cbor_reader" where
  "cd_string L additional =
     cbind (cd_argument additional) (\<lambda>len.
     if unat len > dl_max_string_bytes L then cfail CborString else cd_slice (unat len))"

definition cd_container_length :: "byte \<Rightarrow> nat \<Rightarrow> nat cbor_reader" where
  "cd_container_length additional maximum =
     cbind (cd_argument additional) (\<lambda>len. if unat len > maximum then cfail CborContainer else cret (unat len))"

text \<open>The counted loops over array elements and map fields, for the reader of one element.\<close>

primrec cd_values :: "nat \<Rightarrow> cval cbor_reader \<Rightarrow> cval list cbor_reader" where
  "cd_values 0 p = cret []"
| "cd_values (Suc n) p = cbind p (\<lambda>v. cbind (cd_values n p) (\<lambda>vs. cret (v # vs)))"

primrec cd_fields :: "decode_limits \<Rightarrow> nat \<Rightarrow> u64 option \<Rightarrow> cval cbor_reader \<Rightarrow> (u64 \<times> cval) list cbor_reader" where
  "cd_fields L 0 previous p = cret []"
| "cd_fields L (Suc n) previous p =
     cbind (cd_bump_item L) (\<lambda>_.
     cbind cd_byte (\<lambda>initial.
     if drop_bit 5 initial \<noteq> 0 then cfail CborMapKey
     else
       cbind (cd_argument (initial AND 0x1f)) (\<lambda>key.
       if (case previous of Some q \<Rightarrow> q \<ge> key | None \<Rightarrow> False) then cfail CborMapKey
       else cbind p (\<lambda>v. cbind (cd_fields L n (Some key) p) (\<lambda>fs. cret ((key, v) # fs))))))"

text \<open>The match on the initial byte, for the reader of the nested values.\<close>

definition cd_match :: "decode_limits \<Rightarrow> cval cbor_reader \<Rightarrow> byte \<Rightarrow> byte \<Rightarrow> cval cbor_reader" where
  "cd_match L p major additional =
     (if major = 0 then cbind (cd_argument additional) (\<lambda>n. cret (CUnsigned n))
      else if major = 1 then cbind (cd_argument additional) (\<lambda>n. cret (CNegative (-1 - uint n)))
      else if major = 2 then cbind (cd_string L additional) (\<lambda>bs. cret (CBytes bs))
      else if major = 3 then
        cbind (cd_string L additional) (\<lambda>bs. if utf8_valid bs then cret (CText bs) else cfail CborUtf8)
      else if major = 4 then
        cbind (cd_container_length additional (dl_max_array_len L)) (\<lambda>n.
        cbind (cd_ensure_future_items L n) (\<lambda>_.
        cbind (cd_values n p) (\<lambda>vs. cret (CArray vs))))
      else if major = 5 then
        cbind (cd_container_length additional (dl_max_map_len L)) (\<lambda>n.
        cbind (cd_ensure_future_items L (n * 2)) (\<lambda>_.
        cbind (cd_fields L n None p) (\<lambda>fs. cret (CMap fs))))
      else if major = 6 then cfail CborUnsupported
      else if additional = 20 then cret (CBool False)
      else if additional = 21 then cret (CBool True)
      else if additional = 22 then cret CNull
      else if 25 \<le> additional \<and> additional \<le> 27 then cfail CborFloat
      else if additional = 31 then cfail CborIndefinite
      else cfail CborUnsupported)"

primrec cd_value :: "decode_limits \<Rightarrow> nat \<Rightarrow> cval cbor_reader" where
  "cd_value L 0 = cfail CborDepth"
| "cd_value L (Suc levels) =
     cbind (cd_bump_item L) (\<lambda>_.
     cbind cd_byte (\<lambda>initial. cd_match L (cd_value L levels) (drop_bit 5 initial) (initial AND 0x1f)))"

definition decode_canonical :: "bytes \<Rightarrow> decode_limits \<Rightarrow> cbor_error + cval" where
  "decode_canonical input L =
     bind_res (validate_limits L) (\<lambda>_.
     if input = [] then Inl CborEmpty
     else if length input > dl_max_bytes L then Inl CborTooLarge
     else
       bind_res (cd_value L (dl_max_depth L) \<lparr>cd_input = input, cd_position = 0, cd_items = 0\<rparr>) (\<lambda>(v, d).
       if cd_position d \<noteq> length input then Inl CborTrailing
       else
         bind_res (encode_canonical_with_limits v L) (\<lambda>again.
         if again \<noteq> input then Inl NonPreferred else Inr v)))"

end
