(* ===== verification/CborProofs.thy ===== *)
theory CborProofs
  imports Cbor
begin

text \<open>
  Deterministic CBOR: the bytes and the item count of a value, the limits on it, and that the encoder succeeds
  exactly within the limits, with these bytes.
\<close>

section \<open>The encoding of a value\<close>

fun cbor_bytes :: "cval \<Rightarrow> bytes"
and values_bytes :: "cval list \<Rightarrow> bytes"
and fields_bytes :: "(u64 \<times> cval) list \<Rightarrow> bytes" where
  "cbor_bytes (CUnsigned n) = encode_head 0 n"
| "cbor_bytes (CNegative n) = encode_head 1 (word_of_int (-1 - n))"
| "cbor_bytes (CBytes bs) = encode_head 2 (word_of_nat (length bs)) @ bs"
| "cbor_bytes (CText bs) = encode_head 3 (word_of_nat (length bs)) @ bs"
| "cbor_bytes (CArray vs) = encode_head 4 (word_of_nat (length vs)) @ values_bytes vs"
| "cbor_bytes (CMap fs) = encode_head 5 (word_of_nat (length fs)) @ fields_bytes fs"
| "cbor_bytes (CBool b) = [if b then 0xf5 else 0xf4]"
| "cbor_bytes CNull = [0xf6]"
| "values_bytes [] = []"
| "values_bytes (v # vs) = cbor_bytes v @ values_bytes vs"
| "fields_bytes [] = []"
| "fields_bytes ((key, v) # fs) = encode_head 0 key @ cbor_bytes v @ fields_bytes fs"

fun cbor_count :: "cval \<Rightarrow> nat"
and values_count :: "cval list \<Rightarrow> nat"
and fields_count :: "(u64 \<times> cval) list \<Rightarrow> nat" where
  "cbor_count (CArray vs) = Suc (values_count vs)"
| "cbor_count (CMap fs) = Suc (fields_count fs)"
| "cbor_count _ = 1"
| "values_count [] = 0"
| "values_count (v # vs) = cbor_count v + values_count vs"
| "fields_count [] = 0"
| "fields_count ((key, v) # fs) = Suc (cbor_count v) + fields_count fs"

text \<open>The limits of depth, containers and strings, the range of negative integers and the order of keys.\<close>

fun cbor_fits :: "decode_limits \<Rightarrow> nat \<Rightarrow> cval \<Rightarrow> bool"
and values_fit :: "decode_limits \<Rightarrow> nat \<Rightarrow> cval list \<Rightarrow> bool"
and fields_fit :: "decode_limits \<Rightarrow> nat \<Rightarrow> (u64 \<times> cval) list \<Rightarrow> bool" where
  "cbor_fits L 0 v = False"
| "cbor_fits L (Suc k) (CUnsigned n) = True"
| "cbor_fits L (Suc k) (CNegative n) = (n < 0 \<and> - 0x10000000000000000 \<le> n)"
| "cbor_fits L (Suc k) (CBytes bs) = (length bs \<le> dl_max_string_bytes L)"
| "cbor_fits L (Suc k) (CText bs) = (length bs \<le> dl_max_string_bytes L)"
| "cbor_fits L (Suc k) (CArray vs) = (length vs \<le> dl_max_array_len L \<and> values_fit L k vs)"
| "cbor_fits L (Suc k) (CMap fs) = (length fs \<le> dl_max_map_len L \<and> check_keys None fs = Inr () \<and> fields_fit L k fs)"
| "cbor_fits L (Suc k) (CBool b) = True"
| "cbor_fits L (Suc k) CNull = True"
| "values_fit L k [] = True"
| "values_fit L k (v # vs) = (cbor_fits L k v \<and> values_fit L k vs)"
| "fields_fit L k [] = True"
| "fields_fit L k ((key, v) # fs) = (cbor_fits L k v \<and> fields_fit L k fs)"

text \<open>What the Rust type of text guarantees.\<close>

fun cbor_typed :: "cval \<Rightarrow> bool"
and values_typed :: "cval list \<Rightarrow> bool"
and fields_typed :: "(u64 \<times> cval) list \<Rightarrow> bool" where
  "cbor_typed (CText bs) = utf8_valid bs"
| "cbor_typed (CArray vs) = values_typed vs"
| "cbor_typed (CMap fs) = fields_typed fs"
| "cbor_typed _ = True"
| "values_typed [] = True"
| "values_typed (v # vs) = (cbor_typed v \<and> values_typed vs)"
| "fields_typed [] = True"
| "fields_typed ((key, v) # fs) = (cbor_typed v \<and> fields_typed fs)"

definition limits_ok :: "decode_limits \<Rightarrow> bool" where
  "limits_ok L \<longleftrightarrow> dl_max_bytes L \<le> usize_max \<and> dl_max_array_len L \<le> usize_max \<and> dl_max_map_len L \<le> usize_max \<and>
     dl_max_string_bytes L \<le> usize_max"

lemma cbor_count_pos: "0 < cbor_count v"
  by (cases v) auto

lemma values_count_ge: "length vs \<le> values_count vs"
proof (induction vs)
  case (Cons v vs)
  then show ?case using cbor_count_pos [of v] by simp
qed simp

lemma fields_count_ge: "2 * length fs \<le> fields_count fs"
proof (induction fs)
  case (Cons f fs)
  then show ?case using cbor_count_pos [of "snd f"] by (cases f) simp
qed simp

section \<open>The encoder\<close>

definition ce_ok :: "decode_limits \<Rightarrow> cbor_encoder \<Rightarrow> bool" where
  "ce_ok L e \<longleftrightarrow> length (ce_output e) \<le> dl_max_bytes L \<and> ce_items e \<le> dl_max_items L"

definition ce_add :: "bytes \<Rightarrow> nat \<Rightarrow> cbor_encoder \<Rightarrow> cbor_encoder" where
  "ce_add bs n e = \<lparr>ce_output = ce_output e @ bs, ce_items = ce_items e + n\<rparr>"

definition ce_room :: "decode_limits \<Rightarrow> bytes \<Rightarrow> nat \<Rightarrow> cbor_encoder \<Rightarrow> bool" where
  "ce_room L bs n e \<longleftrightarrow> length (ce_output e) + length bs \<le> dl_max_bytes L \<and> ce_items e + n \<le> dl_max_items L"

lemma ce_add_simps [simp]:
  "ce_add [] 0 e = e" "ce_add bs n (ce_add as m e) = ce_add (as @ bs) (m + n) e"
  "ce_room L bs n (ce_add as m e) \<longleftrightarrow> ce_room L (as @ bs) (m + n) e"
  "ce_output (ce_add bs n e) = ce_output e @ bs" "ce_items (ce_add bs n e) = ce_items e + n"
  by (simp_all add: ce_add_def ce_room_def add.assoc)

lemma ce_ok_add: "ce_ok L (ce_add bs n e) \<longleftrightarrow> ce_room L bs n e"
  by (simp add: ce_ok_def ce_room_def)

lemma ce_room_mono: "ce_room L (as @ bs) (m + n) e \<Longrightarrow> ce_room L as m e"
  by (simp add: ce_room_def)

text \<open>An encoder step that succeeds exactly under a condition and within the room, and then adds known bytes and items.\<close>

definition ce_runs :: "decode_limits \<Rightarrow> (cbor_encoder \<Rightarrow> cbor_error + cbor_encoder) \<Rightarrow> bool \<Rightarrow> bytes \<Rightarrow> nat \<Rightarrow> bool" where
  "ce_runs L f P bs n \<longleftrightarrow> (\<forall>e e'. ce_ok L e \<longrightarrow> (f e = Inr e' \<longleftrightarrow> P \<and> ce_room L bs n e \<and> e' = ce_add bs n e))"

lemma ce_runsD: "ce_runs L f P bs n \<Longrightarrow> ce_ok L e \<Longrightarrow> f e = Inr e' \<longleftrightarrow> P \<and> ce_room L bs n e \<and> e' = ce_add bs n e"
  by (simp add: ce_runs_def)

lemma ce_runs_seq:
  assumes "ce_runs L f P as m" "ce_runs L g Q bs n"
  shows "ce_runs L (\<lambda>e. bind_res (f e) g) (P \<and> Q) (as @ bs) (m + n)"
  unfolding ce_runs_def
proof (intro allI impI)
  fix e e'
  assume e: "ce_ok L e"
  have f: "f e = Inr d \<longleftrightarrow> P \<and> ce_room L as m e \<and> d = ce_add as m e" for d using ce_runsD [OF assms(1) e] .
  have g: "g (ce_add as m e) = Inr e' \<longleftrightarrow> Q \<and> ce_room L (as @ bs) (m + n) e \<and> e' = ce_add (as @ bs) (m + n) e"
    if "ce_room L as m e"
    using ce_runsD [OF assms(2), of "ce_add as m e" e'] that by (simp add: ce_ok_add)
  have "bind_res (f e) g = Inr e' \<longleftrightarrow> (\<exists>d. f e = Inr d \<and> g d = Inr e')" by (auto simp: bind_res_eq_Inr)
  also have "\<dots> \<longleftrightarrow> P \<and> ce_room L as m e \<and> g (ce_add as m e) = Inr e'" by (simp only: f) blast
  also have "\<dots> \<longleftrightarrow> (P \<and> Q) \<and> ce_room L (as @ bs) (m + n) e \<and> e' = ce_add (as @ bs) (m + n) e"
    using g ce_room_mono [of L as bs m n e] by blast
  finally show "bind_res (f e) g = Inr e' \<longleftrightarrow> (P \<and> Q) \<and> ce_room L (as @ bs) (m + n) e \<and> e' = ce_add (as @ bs) (m + n) e" .
qed

lemma ce_runs_cong:
  assumes "ce_runs L f P bs n" "P = P'" "P \<Longrightarrow> bs = bs'" "P \<Longrightarrow> n = n'"
  shows "ce_runs L f P' bs' n'"
  using assms unfolding ce_runs_def by blast

lemma ce_runs_fail: "ce_runs L (\<lambda>e. Inl er) False bs n"
  by (simp add: ce_runs_def)

lemma ce_runs_skip: "ce_runs L Inr True [] 0"
  by (auto simp: ce_runs_def ce_ok_def ce_room_def)

lemma ce_runs_guard:
  assumes "ce_runs L f P bs n"
  shows "ce_runs L (\<lambda>e. bind_res m (\<lambda>_. f e)) (is_ok m \<and> P) bs n"
  using assms by (cases m) (simp_all add: ce_runs_def is_ok_def)

lemma ce_runs_future:
  assumes "ce_runs L f P bs n" "additional \<le> n"
  shows "ce_runs L (\<lambda>e. bind_res (ce_ensure_future_items L additional e) (\<lambda>_. f e)) P bs n"
proof -
  have "ce_room L bs n e \<Longrightarrow> \<not> saturating_add_usize (ce_items e) additional > dl_max_items L" for e
    using assms(2) by (simp add: ce_room_def saturating_add_usize_def)
  then show ?thesis using assms(1) by (auto simp: ce_runs_def ce_ensure_future_items_def bind_res_eq_Inr)
qed

lemma ce_runs_bump: "ce_runs L (ce_bump_item L) True [] 1"
  unfolding ce_runs_def
proof (intro allI impI)
  fix e e'
  show "ce_bump_item L e = Inr e' \<longleftrightarrow> True \<and> ce_room L [] 1 e \<and> e' = ce_add [] 1 e" if "ce_ok L e"
    using that by (cases e) (auto simp: ce_bump_item_def ce_room_def ce_add_def ce_ok_def)
qed

lemma ce_runs_push: "ce_runs L (ce_push L b) True [b] 0"
  unfolding ce_runs_def
proof (intro allI impI)
  fix e e'
  show "ce_push L b e = Inr e' \<longleftrightarrow> True \<and> ce_room L [b] 0 e \<and> e' = ce_add [b] 0 e" if "ce_ok L e"
    using that by (cases e) (auto simp: ce_push_def ce_room_def ce_add_def ce_ok_def)
qed

lemma ce_runs_extend:
  assumes "limits_ok L"
  shows "ce_runs L (ce_extend L bs) True bs 0"
  unfolding ce_runs_def
proof (intro allI impI)
  fix e e'
  show "ce_extend L bs e = Inr e' \<longleftrightarrow> True \<and> ce_room L bs 0 e \<and> e' = ce_add bs 0 e" if "ce_ok L e"
    using that assms
    by (cases e) (auto simp: ce_extend_def bind_res_eq_Inr ok_or_eq_Inr checked_add_usize_def limits_ok_def ce_room_def ce_add_def ce_ok_def)
qed

lemma ce_runs_head: "limits_ok L \<Longrightarrow> ce_runs L (ce_head L major n) True (encode_head major n) 0"
  using ce_runs_extend [of L "encode_head major n"] by (simp add: ce_runs_def ce_head_def)

lemma ce_runs_string:
  assumes "limits_ok L"
  shows "ce_runs L (ce_string L major bs) (length bs \<le> dl_max_string_bytes L) (encode_head major (word_of_nat (length bs)) @ bs) 0"
  unfolding ce_string_def
  by (rule ce_runs_cong [OF ce_runs_guard [OF ce_runs_seq [OF ce_runs_head ce_runs_extend]]])
    (auto simp: assms ce_string_len_def is_ok_def)

lemma ce_runs_values:
  assumes "\<forall>v \<in> set vs. \<forall>k. ce_runs L (ce_value L v k) (cbor_fits L k v) (cbor_bytes v) (cbor_count v)"
  shows "ce_runs L (ce_values L vs k) (values_fit L k vs) (values_bytes vs) (values_count vs)"
  using assms
proof (induction vs)
  case Nil
  show ?case using ce_runs_skip [of L] by (simp add: ce_runs_def)
next
  case (Cons v vs)
  show ?case using ce_runs_seq [of L "ce_value L v k" _ _ _ "ce_values L vs k"] Cons by simp
qed

lemma ce_runs_fields:
  assumes "limits_ok L" "\<forall>f \<in> set fs. \<forall>k. ce_runs L (ce_value L (snd f) k) (cbor_fits L k (snd f)) (cbor_bytes (snd f)) (cbor_count (snd f))"
  shows "ce_runs L (ce_fields L fs k) (fields_fit L k fs) (fields_bytes fs) (fields_count fs)"
  using assms(2)
proof (induction fs)
  case Nil
  show ?case using ce_runs_skip [of L] by (simp add: ce_runs_def)
next
  case (Cons f fs)
  obtain key v where f: "f = (key, v)" by (cases f)
  have v: "ce_runs L (ce_value L v k) (cbor_fits L k v) (cbor_bytes v) (cbor_count v)"
    and fs: "ce_runs L (ce_fields L fs k) (fields_fit L k fs) (fields_bytes fs) (fields_count fs)"
    using Cons by (auto simp: f)
  show ?case unfolding f ce_fields.simps
    by (rule ce_runs_cong [OF ce_runs_seq [OF ce_runs_bump ce_runs_seq [OF ce_runs_head [OF assms(1)] ce_runs_seq [OF v fs]]]]) simp_all
qed

lemma ce_runs_value:
  assumes L: "limits_ok L"
  shows "ce_runs L (ce_value L v k) (cbor_fits L k v) (cbor_bytes v) (cbor_count v)"
proof (induction v arbitrary: k)
  have step: "ce_runs L (ce_value L v k) (cbor_fits L k v) (cbor_bytes v) (cbor_count v)"
    if "\<And>j. k = Suc j \<Longrightarrow> ce_runs L (body j) (cbor_fits L k v) (cbor_bytes v) (cbor_count v - 1)"
      "\<And>j e. k = Suc j \<Longrightarrow> ce_value L v k e = bind_res (ce_bump_item L e) (body j)" for v k body
  proof (cases k)
    case 0
    then show ?thesis by (simp add: ce_runs_def ce_value.simps)
  next
    case (Suc j)
    have "ce_runs L (\<lambda>e. bind_res (ce_bump_item L e) (body j)) (cbor_fits L k v) (cbor_bytes v) (cbor_count v)"
      by (rule ce_runs_cong [OF ce_runs_seq [OF ce_runs_bump that(1) [OF Suc]]]) (use cbor_count_pos [of v] in auto)
    then show ?thesis using that(2) [OF Suc] by (simp add: ce_runs_def)
  qed
  {
    case (CUnsigned n)
    show ?case by (rule step [where body = "\<lambda>_. ce_head L 0 n"]) (auto simp: ce_value.simps ce_runs_head L)
  next
    case (CNegative n)
    show ?case
    proof (rule step [where body = "\<lambda>_ e. if n \<ge> 0 then Inl NegativeRange
        else if -1 - n > 0xffffffffffffffff then Inl NegativeRange else ce_head L 1 (word_of_int (-1 - n)) e"])
      fix j
      assume "k = Suc j"
      then show "ce_runs L (\<lambda>e. if n \<ge> 0 then Inl NegativeRange
          else if -1 - n > 0xffffffffffffffff then Inl NegativeRange else ce_head L 1 (word_of_int (-1 - n)) e)
          (cbor_fits L k (CNegative n)) (cbor_bytes (CNegative n)) (cbor_count (CNegative n) - 1)"
        using ce_runs_head [OF L, of 1 "word_of_int (-1 - n)"] by (auto simp: ce_runs_def)
    qed (simp add: ce_value.simps)
  next
    case (CBytes bs)
    show ?case by (rule step [where body = "\<lambda>_. ce_string L 2 bs"]) (auto simp: ce_value.simps ce_runs_string L)
  next
    case (CText bs)
    show ?case by (rule step [where body = "\<lambda>_. ce_string L 3 bs"]) (auto simp: ce_value.simps ce_runs_string L)
  next
    case (CArray vs)
    let ?f = "\<lambda>j e. bind_res (ce_ensure_future_items L (length vs) e) (\<lambda>_.
      bind_res (ce_head L 4 (word_of_nat (length vs)) e) (ce_values L vs j))"
    show ?case
    proof (rule step [where body = "\<lambda>j e. if length vs > dl_max_array_len L then Inl CborContainer else ?f j e"])
      fix j
      assume k: "k = Suc j"
      have "ce_runs L (ce_values L vs j) (values_fit L j vs) (values_bytes vs) (values_count vs)"
        using CArray by (intro ce_runs_values) blast
      from ce_runs_future [OF ce_runs_seq [OF ce_runs_head [OF L] this], of "length vs" 4 "word_of_nat (length vs)"]
      show "ce_runs L (\<lambda>e. if length vs > dl_max_array_len L then Inl CborContainer else ?f j e)
          (cbor_fits L k (CArray vs)) (cbor_bytes (CArray vs)) (cbor_count (CArray vs) - 1)"
        using values_count_ge [of vs] by (auto simp: k ce_runs_def)
    qed (auto simp: ce_value.simps fun_eq_iff intro!: arg_cong2 [where f = bind_res])
  next
    case (CMap fs)
    let ?f = "\<lambda>j e. bind_res (ce_ensure_future_items L (length fs * 2) e) (\<lambda>_. bind_res (check_keys None fs) (\<lambda>_.
      bind_res (ce_head L 5 (word_of_nat (length fs)) e) (ce_fields L fs j)))"
    show ?case
    proof (rule step [where body = "\<lambda>j e. if length fs > dl_max_map_len L then Inl CborContainer else ?f j e"])
      fix j
      assume k: "k = Suc j"
      have "ce_runs L (ce_fields L fs j) (fields_fit L j fs) (fields_bytes fs) (fields_count fs)"
        using CMap by (intro ce_runs_fields [OF L]) (metis prod.collapse snds.intros)
      from ce_runs_future [OF ce_runs_guard [OF ce_runs_seq [OF ce_runs_head [OF L] this]], of "length fs * 2" "check_keys None fs" 5 "word_of_nat (length fs)"]
      show "ce_runs L (\<lambda>e. if length fs > dl_max_map_len L then Inl CborContainer else ?f j e)
          (cbor_fits L k (CMap fs)) (cbor_bytes (CMap fs)) (cbor_count (CMap fs) - 1)"
        using fields_count_ge [of fs] by (auto simp: k ce_runs_def is_ok_iff)
    qed (auto simp: ce_value.simps fun_eq_iff intro!: arg_cong2 [where f = bind_res])
  next
    case (CBool b)
    show ?case by (rule step [where body = "\<lambda>_. ce_push L (if b then 0xf5 else 0xf4)"]) (auto simp: ce_value.simps ce_runs_push)
  next
    case CNull
    show ?case by (rule step [where body = "\<lambda>_. ce_push L 0xf6"]) (auto simp: ce_value.simps ce_runs_push)
  }
qed

lemma encode_canonical_iff:
  assumes "limits_ok L"
  shows "encode_canonical_with_limits v L = Inr bs \<longleftrightarrow> is_ok (validate_limits L) \<and> cbor_fits L (dl_max_depth L) v \<and>
    length (cbor_bytes v) \<le> dl_max_bytes L \<and> cbor_count v \<le> dl_max_items L \<and> bs = cbor_bytes v"
proof -
  let ?e = "\<lparr>ce_output = [], ce_items = 0\<rparr>"
  have "ce_ok L ?e" by (simp add: ce_ok_def)
  from ce_runsD [OF ce_runs_value [OF assms] this] show ?thesis
    by (auto simp: encode_canonical_with_limits_def bind_res_eq_Inr is_ok_iff ce_room_def)
qed

end
