(* ===== verification/CborCodec.thy ===== *)
theory CborCodec
  imports CborProofs
begin

text \<open>
  The decoder of deterministic CBOR reads back what the encoder wrote, and accepts nothing else.
\<close>

section \<open>Readers on a known prefix\<close>

text \<open>A reader that consumes given bytes and counts given items, wherever they stand in the input.\<close>

definition cd_reads :: "decode_limits \<Rightarrow> 'a cbor_reader \<Rightarrow> bytes \<Rightarrow> nat \<Rightarrow> 'a \<Rightarrow> bool" where
  "cd_reads L p bs n x \<longleftrightarrow>
     (\<forall>pre post items. length (pre @ bs @ post) \<le> usize_max \<longrightarrow> items + n \<le> dl_max_items L \<longrightarrow>
        p \<lparr>cd_input = pre @ bs @ post, cd_position = length pre, cd_items = items\<rparr> =
          Inr (x, \<lparr>cd_input = pre @ bs @ post, cd_position = length (pre @ bs), cd_items = items + n\<rparr>))"

lemma cd_readsD:
  "cd_reads L p bs n x \<Longrightarrow> length (pre @ bs @ post) \<le> usize_max \<Longrightarrow> items + n \<le> dl_max_items L \<Longrightarrow>
    p \<lparr>cd_input = pre @ bs @ post, cd_position = length pre, cd_items = items\<rparr> =
      Inr (x, \<lparr>cd_input = pre @ bs @ post, cd_position = length (pre @ bs), cd_items = items + n\<rparr>)"
  unfolding cd_reads_def by blast

lemma cd_reads_bind:
  assumes "cd_reads L p as m x" "cd_reads L (f x) bs n y"
  shows "cd_reads L (cbind p f) (as @ bs) (m + n) y"
  unfolding cd_reads_def
proof (intro allI impI)
  fix pre post items
  assume len: "length (pre @ (as @ bs) @ post) \<le> usize_max" "items + (m + n) \<le> dl_max_items L"
  have "p \<lparr>cd_input = pre @ as @ (bs @ post), cd_position = length pre, cd_items = items\<rparr> =
      Inr (x, \<lparr>cd_input = pre @ as @ (bs @ post), cd_position = length (pre @ as), cd_items = items + m\<rparr>)"
    using cd_readsD [OF assms(1), of pre "bs @ post" items] len by simp
  moreover have "f x \<lparr>cd_input = (pre @ as) @ bs @ post, cd_position = length (pre @ as), cd_items = items + m\<rparr> =
      Inr (y, \<lparr>cd_input = (pre @ as) @ bs @ post, cd_position = length ((pre @ as) @ bs), cd_items = items + m + n\<rparr>)"
    using cd_readsD [OF assms(2), of "pre @ as" post "items + m"] len by simp
  ultimately show "cbind p f \<lparr>cd_input = pre @ (as @ bs) @ post, cd_position = length pre, cd_items = items\<rparr> =
      Inr (y, \<lparr>cd_input = pre @ (as @ bs) @ post, cd_position = length (pre @ (as @ bs)), cd_items = items + (m + n)\<rparr>)"
    by (simp add: cbind_def add.assoc)
qed

lemma cd_reads_cret: "cd_reads L (cret x) [] 0 x"
  by (simp add: cd_reads_def cret_def)

lemma cd_reads_done: "cd_reads L p bs n x \<Longrightarrow> f x = cret y \<Longrightarrow> cd_reads L (cbind p f) bs n y"
  using cd_reads_bind [of L p bs n x f "[]" 0 y] cd_reads_cret [of L y] by simp

lemma cd_reads_bump: "cd_reads L (cd_bump_item L) [] 1 ()"
  by (simp add: cd_reads_def cd_bump_item_def)

lemma cd_reads_future:
  assumes "cd_reads L p bs n x" "additional \<le> n"
  shows "cd_reads L (cbind (cd_ensure_future_items L additional) (\<lambda>_. p)) bs n x"
  using assms by (auto simp: cd_reads_def cbind_def cd_ensure_future_items_def saturating_add_usize_def)

lemma cd_reads_byte: "cd_reads L cd_byte [b] 0 b"
  by (simp add: cd_reads_def cd_byte_def get_def nth_append ok_or_def)

lemma cd_reads_slice: "n = length bs \<Longrightarrow> cd_reads L (cd_slice n) bs 0 bs"
  by (simp add: cd_reads_def cd_slice_def checked_add_usize_def get_range_def slice_of_def ok_or_def)

section \<open>Heads\<close>

lemma small_bits:
  fixes a :: byte
  assumes "unat a < 2 ^ k" "bit a n"
  shows "n < k"
proof -
  have "take_bit k (unat a) = unat a" using assms(1) by (simp add: take_bit_nat_eq_self)
  then have "take_bit k a = a" by (simp add: word_unat_eq_iff unsigned_take_bit_eq)
  then show ?thesis using assms(2) by (metis bit_take_bit_iff)
qed

lemma head_bits:
  fixes major a :: byte
  assumes "major < 8" "a < 32"
  shows "drop_bit 5 (push_bit 5 major OR a) = major" "(push_bit 5 major OR a) AND 0x1f = a"
proof -
  have m: "bit major n \<Longrightarrow> n < 3" and a: "bit a n \<Longrightarrow> n < 5" for n
    using small_bits [of major 3 n] small_bits [of a 5 n] assms by (simp_all add: word_less_nat_alt)
  show "drop_bit 5 (push_bit 5 major OR a) = major"
  proof (rule bit_word_eqI)
    fix n
    show "bit (drop_bit 5 (push_bit 5 major OR a)) n = bit major n" using m [of n] a [of "n + 5"] by (auto simp: bit_simps add.commute)
  qed
  have "(0x1f :: byte) = mask 5" by (simp add: mask_eq_exp_minus_1)
  moreover have "(push_bit 5 major OR a) AND mask 5 = a"
    by (rule bit_word_eqI) (use a in \<open>auto simp: bit_simps not_le\<close>)
  ultimately show "(push_bit 5 major OR a) AND 0x1f = a" by simp
qed

lemma narrow_word:
  fixes n :: u64
  assumes "n \<le> 0xffff"
  shows "ucast (u16_of_be (u16_to_be (ucast n))) = n"
proof -
  have "unat n < 65536" using assms by (simp add: word_le_nat_alt)
  then show ?thesis
    by (simp add: word_unat_eq_iff unsigned_ucast_eq u16_of_be_def u16_to_be_def be_nat_be_bytes unat_of_nat take_bit_eq_mod unat_mod_distrib)
qed

lemma narrow_word32:
  fixes n :: u64
  assumes "n \<le> 0xffffffff"
  shows "ucast (u32_of_be (u32_to_be (ucast n))) = n"
proof -
  have "unat n < 4294967296" using assms by (simp add: word_le_nat_alt)
  then show ?thesis
    by (simp add: word_unat_eq_iff unsigned_ucast_eq u32_of_be_def u32_to_be_def be_nat_be_bytes unat_of_nat take_bit_eq_mod unat_mod_distrib)
qed

lemma length_to_be: "length (u16_to_be w) = 2" "length (u32_to_be x) = 4" "length (u64_to_be y) = 8"
  by (simp_all add: u16_to_be_def u32_to_be_def u64_to_be_def)

lemma narrow_byte:
  fixes n :: u64
  assumes "n \<le> 0xff"
  shows "ucast (ucast n :: byte) = n" "unat (ucast n :: byte) = unat n"
proof -
  have "unat n < 256" using assms by (simp add: word_le_nat_alt)
  then show "ucast (ucast n :: byte) = n" "unat (ucast n :: byte) = unat n"
    by (simp_all add: word_unat_eq_iff unsigned_ucast_eq take_bit_eq_mod unat_mod_distrib)
qed

lemma cd_reads_slice_argument:
  assumes "length rest = k" "f rest = n" "\<not> n \<le> bound"
  shows "cd_reads L (cbind (cd_slice k) (\<lambda>bs. preferred bound (f bs))) rest 0 n"
  by (rule cd_reads_done [OF cd_reads_slice]) (use assms in \<open>auto simp: preferred_def\<close>)

lemma encode_head_reads:
  obtains a rest where "encode_head major n = (push_bit 5 major OR a) # rest" "a < 32" "cd_reads L (cd_argument a) rest 0 n"
proof (cases "n \<le> 23")
  case True
  then have n: "n \<le> 0xff" by (rule order_trans) simp
  have "ucast n < (32 :: byte)" "ucast n \<le> (23 :: byte)"
    using True by (simp_all add: word_less_nat_alt word_le_nat_alt narrow_byte [OF n])
  then show ?thesis using True that [of "ucast n" "[]"] cd_reads_cret [of L n]
    by (simp add: encode_head_def cd_argument_def narrow_byte [OF n])
next
  case big: False
  consider "n \<le> 0xff" | "\<not> n \<le> 0xff" "n \<le> 0xffff" | "\<not> n \<le> 0xff" "\<not> n \<le> 0xffff" "n \<le> 0xffffffff"
    | "\<not> n \<le> 0xff" "\<not> n \<le> 0xffff" "\<not> n \<le> 0xffffffff" by blast
  then show ?thesis
  proof cases
    case 1
    have "cd_reads L (cd_argument 24) [ucast n] 0 n"
      using cd_reads_done [OF cd_reads_byte [of L "ucast n"], of "\<lambda>b. preferred 23 (ucast b)" "n"] big
      by (simp add: cd_argument_def preferred_def narrow_byte [OF 1])
    then show ?thesis using 1 big that [of 24 "[ucast n]"] by (simp add: encode_head_def)
  next
    case 2
    have "cd_reads L (cd_argument 25) (u16_to_be (ucast n)) 0 n"
      using cd_reads_slice_argument [of "u16_to_be (ucast n)" 2 "\<lambda>bs. ucast (u16_of_be bs)" n "0xff" L] 2
      by (simp add: cd_argument_def narrow_word length_to_be)
    then show ?thesis using 2 big that [of 25] by (simp add: encode_head_def)
  next
    case 3
    have "cd_reads L (cd_argument 26) (u32_to_be (ucast n)) 0 n"
      using cd_reads_slice_argument [of "u32_to_be (ucast n)" 4 "\<lambda>bs. ucast (u32_of_be bs)" n "0xffff" L] 3
      by (simp add: cd_argument_def narrow_word32 length_to_be)
    then show ?thesis using 3 big that [of 26] by (simp add: encode_head_def)
  next
    case 4
    have "cd_reads L (cd_argument 27) (u64_to_be n) 0 n"
      using cd_reads_slice_argument [of "u64_to_be n" 8 u64_of_be n "0xffffffff" L] 4
      by (simp add: cd_argument_def length_to_be)
    then show ?thesis using 4 big that [of 27] by (simp add: encode_head_def)
  qed
qed

section \<open>Values\<close>

definition cd_lead :: "(byte \<Rightarrow> byte \<Rightarrow> 'a cbor_reader) \<Rightarrow> 'a cbor_reader" where
  "cd_lead f = cbind cd_byte (\<lambda>b. f (drop_bit 5 b) (b AND 0x1f))"

lemma cd_reads_initial:
  assumes "major < 8" "a < 32" "cd_reads L (f major a) bs m x"
  shows "cd_reads L (cd_lead f) ((push_bit 5 major OR a) # bs) m x"
proof -
  let ?b = "push_bit 5 major OR a"
  have "cd_reads L (f (drop_bit 5 ?b) (?b AND 0x1f)) bs m x"
    using assms(3) by (simp only: head_bits [OF assms(1,2)])
  from cd_reads_bind [OF cd_reads_byte [of L ?b], of "\<lambda>b. f (drop_bit 5 b) (b AND 0x1f)", OF this]
  show ?thesis by (simp add: cd_lead_def)
qed

lemma cd_reads_head:
  assumes "major < 8" "\<And>a as. cd_reads L (cd_argument a) as 0 n \<Longrightarrow> cd_reads L (f major a) (as @ bs) m x"
  shows "cd_reads L (cd_lead f) (encode_head major n @ bs) m x"
proof (rule encode_head_reads [of major n L])
  fix a rest
  assume *: "encode_head major n = (push_bit 5 major OR a) # rest" "a < 32" "cd_reads L (cd_argument a) rest 0 n"
  show ?thesis using cd_reads_initial [of major a L f, OF assms(1) *(2) assms(2) [OF *(3)]] by (simp add: *(1))
qed

lemma cd_reads_bumped:
  assumes "cd_reads L (cd_lead (cd_match L (cd_value L j))) bs m x"
  shows "cd_reads L (cd_value L (Suc j)) bs (Suc m) x"
  using cd_reads_bind [OF cd_reads_bump, of L "\<lambda>_. cd_lead (cd_match L (cd_value L j))", OF assms]
  by (simp add: cd_lead_def)

lemma cd_reads_headed:
  assumes "major < 8" "k = Suc j"
    "\<And>a as. cd_reads L (cd_argument a) as 0 n \<Longrightarrow> cd_reads L (cd_match L (cd_value L j) major a) (as @ bs) m x"
  shows "cd_reads L (cd_value L k) (encode_head major n @ bs) (Suc m) x"
  unfolding assms(2) by (intro cd_reads_bumped cd_reads_head assms(1,3))

lemma usize_word: "n \<le> usize_max \<Longrightarrow> unat (word_of_nat n :: u64) = n"
  by (simp add: usize_max_def unat_of_nat)

lemma cd_reads_string:
  assumes "cd_reads L (cd_argument a) as 0 (word_of_nat (length bs))" "limits_ok L" "length bs \<le> dl_max_string_bytes L"
  shows "cd_reads L (cd_string L a) (as @ bs) 0 bs"
  using cd_reads_bind [OF assms(1), of "\<lambda>len. if unat len > dl_max_string_bytes L then cfail CborString else cd_slice (unat len)" bs 0 bs]
    assms(2,3) cd_reads_slice [of _ bs L]
  by (simp add: cd_string_def usize_word limits_ok_def)

lemma cd_reads_length:
  assumes "cd_reads L (cd_argument a) as 0 (word_of_nat n)" "n \<le> maximum" "maximum \<le> usize_max"
  shows "cd_reads L (cd_container_length a maximum) as 0 n"
  unfolding cd_container_length_def by (rule cd_reads_done [OF assms(1)]) (use assms in \<open>simp add: usize_word\<close>)

lemma cd_reads_values:
  assumes "\<forall>v \<in> set vs. cd_reads L p (cbor_bytes v) (cbor_count v) v"
  shows "cd_reads L (cd_values (length vs) p) (values_bytes vs) (values_count vs) vs"
  using assms
proof (induction vs)
  case Nil
  show ?case using cd_reads_cret [of L "[]"] by simp
next
  case (Cons v vs)
  then have "cd_reads L p (cbor_bytes v) (cbor_count v) v" "cd_reads L (cd_values (length vs) p) (values_bytes vs) (values_count vs) vs"
    by auto
  then show ?case unfolding list.size cd_values.simps values_bytes.simps values_count.simps add_Suc_right add_0_right
    by (intro cd_reads_bind [where x = v] cd_reads_done [where x = vs]) simp_all
qed

lemma cd_reads_fields:
  assumes "\<forall>f \<in> set fs. cd_reads L p (cbor_bytes (snd f)) (cbor_count (snd f)) (snd f)" "check_keys previous fs = Inr ()"
  shows "cd_reads L (cd_fields L (length fs) previous p) (fields_bytes fs) (fields_count fs) fs"
  using assms
proof (induction fs arbitrary: previous)
  case Nil
  show ?case using cd_reads_cret [of L "[]"] by simp
next
  case (Cons f fs)
  obtain key v where f: "f = (key, v)" by (cases f)
  have keys: "\<not> (case previous of Some q \<Rightarrow> q \<ge> key | None \<Rightarrow> False)" "check_keys (Some key) fs = Inr ()"
    using Cons.prems(2) by (auto simp: f split: if_splits)
  have v: "cd_reads L p (cbor_bytes v) (cbor_count v) v" using Cons.prems(1) by (simp add: f)
  have "cd_reads L (cd_fields L (length fs) (Some key) p) (fields_bytes fs) (fields_count fs) fs"
    using Cons.IH Cons.prems(1) keys(2) by simp
  then have rest: "cd_reads L (cbind p (\<lambda>v. cbind (cd_fields L (length fs) (Some key) p) (\<lambda>fs. cret ((key, v) # fs))))
      (cbor_bytes v @ fields_bytes fs) (cbor_count v + fields_count fs) (f # fs)"
    unfolding f by (intro cd_reads_bind [OF v] cd_reads_done) auto
  let ?f = "\<lambda>major a. if major \<noteq> (0 :: byte) then cfail CborMapKey else cbind (cd_argument a) (\<lambda>key.
    if (case previous of Some q \<Rightarrow> q \<ge> key | None \<Rightarrow> False) then cfail CborMapKey
    else cbind p (\<lambda>v. cbind (cd_fields L (length fs) (Some key) p) (\<lambda>fs. cret ((key, v) # fs))))"
  have "cd_reads L (cd_lead ?f)
      (encode_head 0 key @ cbor_bytes v @ fields_bytes fs) (cbor_count v + fields_count fs) (f # fs)"
  proof (rule cd_reads_head)
    fix a as
    assume "cd_reads L (cd_argument a) as 0 key"
    from cd_reads_bind [OF this, of "\<lambda>key. if (case previous of Some q \<Rightarrow> q \<ge> key | None \<Rightarrow> False) then cfail CborMapKey
      else cbind p (\<lambda>v. cbind (cd_fields L (length fs) (Some key) p) (\<lambda>fs. cret ((key, v) # fs)))"] rest keys(1)
    show "cd_reads L (?f 0 a) (as @ cbor_bytes v @ fields_bytes fs) (cbor_count v + fields_count fs) (f # fs)"
      by auto
  qed simp
  from cd_reads_bind [OF cd_reads_bump, of L "\<lambda>_. cd_lead ?f", OF this] show ?case by (simp add: f cd_lead_def)
qed

lemma values_fit_set: "values_fit L k vs \<Longrightarrow> v \<in> set vs \<Longrightarrow> cbor_fits L k v"
  by (induction vs) auto

lemma fields_fit_set: "fields_fit L k fs \<Longrightarrow> (key, v) \<in> set fs \<Longrightarrow> cbor_fits L k v"
  by (induction fs) auto

lemma values_typed_iff: "values_typed vs \<longleftrightarrow> (\<forall>v \<in> set vs. cbor_typed v)"
  by (induction vs) auto

lemma fields_typed_iff: "fields_typed fs \<longleftrightarrow> (\<forall>f \<in> set fs. cbor_typed (snd f))"
  by (induction fs) auto

lemma cd_reads_value:
  assumes L: "limits_ok L"
  shows "cbor_fits L k v \<Longrightarrow> cbor_typed v \<Longrightarrow> cd_reads L (cd_value L k) (cbor_bytes v) (cbor_count v) v"
proof (induction v arbitrary: k)
  case (CUnsigned n)
  then obtain j where k: "k = Suc j" by (cases k) auto
  have "cd_reads L (cd_match L (cd_value L j) 0 a) (as @ []) 0 (CUnsigned n)" if "cd_reads L (cd_argument a) as 0 n" for a as
    using cd_reads_done [OF that, of "\<lambda>n. cret (CUnsigned n)"] by (simp add: cd_match_def)
  from cd_reads_headed [OF _ k this] show ?case by simp
next
  case (CNegative n)
  then obtain j where k: "k = Suc j" by (cases k) auto
  have "uint (word_of_int (-1 - n) :: u64) = -1 - n"
    using CNegative.prems by (simp only: k cbor_fits.simps unsigned_of_int take_bit_eq_mod) simp
  then have "cd_reads L (cd_match L (cd_value L j) 1 a) (as @ []) 0 (CNegative n)"
    if "cd_reads L (cd_argument a) as 0 (word_of_int (-1 - n))" for a as
    using cd_reads_done [OF that, of "\<lambda>n. cret (CNegative (-1 - uint n))"] by (simp add: cd_match_def)
  from cd_reads_headed [OF _ k this] show ?case by simp
next
  case (CBytes bs)
  then obtain j where k: "k = Suc j" by (cases k) auto
  have "cd_reads L (cd_match L (cd_value L j) 2 a) (as @ bs) 0 (CBytes bs)"
    if "cd_reads L (cd_argument a) as 0 (word_of_nat (length bs))" for a as
    using cd_reads_done [OF cd_reads_string [OF that L], of "\<lambda>bs. cret (CBytes bs)"] CBytes.prems by (simp add: k cd_match_def)
  from cd_reads_headed [OF _ k this] show ?case by simp
next
  case (CText bs)
  then obtain j where k: "k = Suc j" by (cases k) auto
  have "cd_reads L (cd_match L (cd_value L j) 3 a) (as @ bs) 0 (CText bs)"
    if "cd_reads L (cd_argument a) as 0 (word_of_nat (length bs))" for a as
    using cd_reads_done [OF cd_reads_string [OF that L], of "\<lambda>bs. if utf8_valid bs then cret (CText bs) else cfail CborUtf8"]
      CText.prems by (simp add: k cd_match_def)
  from cd_reads_headed [OF _ k this] show ?case by simp
next
  case (CArray vs)
  then obtain j where k: "k = Suc j" by (cases k) auto
  have fits: "length vs \<le> dl_max_array_len L" "dl_max_array_len L \<le> usize_max" using CArray.prems L by (simp_all add: k limits_ok_def)
  have "cd_reads L (cd_value L j) (cbor_bytes v) (cbor_count v) v" if "v \<in> set vs" for v
    using CArray.IH [OF that] CArray.prems that values_fit_set values_typed_iff by (auto simp: k)
  then have "cd_reads L (cd_values (length vs) (cd_value L j)) (values_bytes vs) (values_count vs) vs"
    by (intro cd_reads_values) blast
  from cd_reads_future [OF cd_reads_done [OF this, of "\<lambda>vs. cret (CArray vs)"] values_count_ge]
  have "cd_reads L (cd_match L (cd_value L j) 4 a) (as @ values_bytes vs) (values_count vs) (CArray vs)"
    if "cd_reads L (cd_argument a) as 0 (word_of_nat (length vs))" for a as
    using cd_reads_bind [OF cd_reads_length [OF that fits]] by (fastforce simp: cd_match_def)
  from cd_reads_headed [OF _ k this] show ?case by simp
next
  case (CMap fs)
  then obtain j where k: "k = Suc j" by (cases k) auto
  have fits: "length fs \<le> dl_max_map_len L" "dl_max_map_len L \<le> usize_max" using CMap.prems L by (simp_all add: k limits_ok_def)
  have "cd_reads L (cd_value L j) (cbor_bytes (snd f)) (cbor_count (snd f)) (snd f)" if "f \<in> set fs" for f
    using CMap.IH [of f "snd f"] CMap.prems that fields_fit_set fields_typed_iff by (cases f) (auto simp: k)
  then have "cd_reads L (cd_fields L (length fs) None (cd_value L j)) (fields_bytes fs) (fields_count fs) fs"
    using CMap.prems by (intro cd_reads_fields) (auto simp: k)
  from cd_reads_future [OF cd_reads_done [OF this, of "\<lambda>fs. cret (CMap fs)"], where additional = "length fs * 2"]
  have "cd_reads L (cd_match L (cd_value L j) 5 a) (as @ fields_bytes fs) (fields_count fs) (CMap fs)"
    if "cd_reads L (cd_argument a) as 0 (word_of_nat (length fs))" for a as
    using cd_reads_bind [OF cd_reads_length [OF that fits]] fields_count_ge [of fs] by (fastforce simp: cd_match_def)
  from cd_reads_headed [OF _ k this] show ?case by simp
next
  case (CBool b)
  then obtain j where k: "k = Suc j" by (cases k) auto
  have "cd_reads L (cd_lead (cd_match L (cd_value L j))) [push_bit 5 7 OR (if b then 21 else 20)] 0 (CBool b)"
    by (rule cd_reads_initial) (auto simp: cd_match_def cd_reads_cret)
  from cd_reads_bumped [OF this] show ?case by (cases b) (simp_all add: k del: cd_value.simps)
next
  case CNull
  then obtain j where k: "k = Suc j" by (cases k) auto
  have "cd_reads L (cd_lead (cd_match L (cd_value L j))) [push_bit 5 7 OR 22] 0 CNull"
    by (rule cd_reads_initial) (auto simp: cd_match_def cd_reads_cret)
  from cd_reads_bumped [OF this] show ?case by (simp add: k del: cd_value.simps)
qed

lemma cd_value_typed:
  "cd_value L k d = Inr (v, d') \<Longrightarrow> cbor_typed v"
proof (induction k arbitrary: v d d')
  case (Suc k)
  have vs: "values_typed vs" if "cd_values n (cd_value L k) d = Inr (vs, d')" for n vs d d'
    using that Suc.IH by (induction n arbitrary: vs d) (auto simp: cret_def cbind_def bind_res_eq_Inr)
  have fs: "fields_typed fs" if "cd_fields L n q (cd_value L k) d = Inr (fs, d')" for n q fs d d'
    using that Suc.IH
    by (induction n arbitrary: q fs d) (auto simp: cret_def cfail_def cbind_def bind_res_eq_Inr split: if_splits)
  show ?case using Suc.prems vs fs
    by (auto simp: cd_match_def cret_def cfail_def cbind_def bind_res_eq_Inr split: if_splits)
qed (simp add: cfail_def)

lemma cbor_bytes_nonempty: "cbor_bytes v \<noteq> []"
  by (cases v) (auto simp: encode_head_def Let_def)

lemma decode_canonical_iff:
  assumes L: "limits_ok L"
  shows "decode_canonical input L = Inr v \<longleftrightarrow> cbor_typed v \<and> encode_canonical_with_limits v L = Inr input"
proof
  assume d: "decode_canonical input L = Inr v"
  then show "cbor_typed v \<and> encode_canonical_with_limits v L = Inr input"
    by (auto simp: decode_canonical_def bind_res_eq_Inr split: if_splits intro: cd_value_typed)
next
  assume e: "cbor_typed v \<and> encode_canonical_with_limits v L = Inr input"
  then have v: "cbor_fits L (dl_max_depth L) v" "cbor_count v \<le> dl_max_items L" "length input \<le> dl_max_bytes L"
    "input = cbor_bytes v" "validate_limits L = Inr ()"
    by (auto simp: encode_canonical_iff [OF L] is_ok_iff)
  have "cd_reads L (cd_value L (dl_max_depth L)) input (cbor_count v) v" using cd_reads_value [OF L v(1)] e v(4) by simp
  from cd_readsD [OF this, of "[]" "[]" 0] show "decode_canonical input L = Inr v"
    using v(2,3,5) e L cbor_bytes_nonempty [of v] by (simp add: decode_canonical_def limits_ok_def v(4))
qed

section \<open>The codec\<close>

text \<open>
  C38: Deterministic CBOR is exact. For limits that fit a machine word, the decoder accepts an input with a value exactly when
  the value's text is UTF-8 and the encoder, under the same limits, writes that very input for the value: every value has
  one accepted encoding, and everything the encoder writes is read back as it was.
\<close>

theorem cbor_codec_exact:
  assumes "limits_ok L"
  shows "decode_canonical input L = Inr v \<longleftrightarrow> cbor_typed v \<and> encode_canonical_with_limits v L = Inr input"
  by (rule decode_canonical_iff [OF assms])

theorem cbor_codec_exact_witness:
  "limits_ok default_limits \<and>
   decode_canonical [0xa2, 0x01, 0x19, 0x01, 0xf4, 0x02, 0x82, 0x63, 0x68, 0x6e, 0x73, 0x20] default_limits =
     Inr (CMap [(1, CUnsigned 500), (2, CArray [CText [0x68, 0x6e, 0x73], CNegative (-1)])])"
proof -
  let ?v = "CMap [(1, CUnsigned 500), (2, CArray [CText [0x68, 0x6e, 0x73], CNegative (-1)])]"
  have "limits_ok default_limits" by code_simp
  moreover have "cbor_typed ?v" by code_simp
  moreover have "encode_canonical_with_limits ?v default_limits =
      Inr [0xa2, 0x01, 0x19, 0x01, 0xf4, 0x02, 0x82, 0x63, 0x68, 0x6e, 0x73, 0x20]" by code_simp
  ultimately show ?thesis using cbor_codec_exact [of default_limits] by blast
qed

end
