(* ===== verification/Listing.thy ===== *)
theory Listing
  imports SwapSale
begin

text \<open>
  Model of \<^verbatim>\<open>crates/hns-swap/src/listing.rs\<close>: signed, expiring publications of fixed-price sales and the signed
  cancellations of them. As in the other swap theories the hash functions are those of \<open>E\<close> and ECDSA is the record \<open>K\<close>.
\<close>

section \<open>Signatures and domains\<close>

definition fixed_price_listing_version :: u16 where "fixed_price_listing_version = 1"
definition listing_cancellation_version :: u16 where "listing_cancellation_version = 1"
definition max_fixed_price_listing_size :: nat where "max_fixed_price_listing_size = 8 * 1024"
definition max_listing_cancellation_size :: nat where "max_listing_cancellation_size = 512"

definition listing_signature_domain :: bytes where
  "listing_signature_domain = ascii ''hns-rs/hns-swap/fixed-price-listing/v1/signature''"
definition listing_hash_domain :: bytes where
  "listing_hash_domain = ascii ''hns-rs/hns-swap/fixed-price-listing/v1/hash''"
definition cancellation_signature_domain :: bytes where
  "cancellation_signature_domain = ascii ''hns-rs/hns-swap/listing-cancellation/v1/signature''"
definition cancellation_hash_domain :: bytes where
  "cancellation_hash_domain = ascii ''hns-rs/hns-swap/listing-cancellation/v1/hash''"

definition domain_hash :: "script_env \<Rightarrow> bytes \<Rightarrow> bytes \<Rightarrow> bytes" where
  "domain_hash E domain encoded = se_blake2b_256 E (domain @ encoded)"

definition validate_marketplace_signature :: "k256 \<Rightarrow> bytes \<Rightarrow> swap_error + bytes" where
  "validate_marketplace_signature K encoded =
     (if \<not> k_signature_parses K encoded then Inl InvalidSignature
      else if k_normalize_s K encoded \<noteq> None then Inl HighMarketplaceSignature
      else Inr encoded)"

definition check_marketplace_signature :: "k256 \<Rightarrow> bytes option \<Rightarrow> swap_error + unit" where
  "check_marketplace_signature K signature =
     (case signature of
        Some s \<Rightarrow> bind_res (validate_marketplace_signature K s) (\<lambda>_. Inr ())
      | None \<Rightarrow> Inr ())"

text \<open>The last steps of both verifications: the key parses and the signature fits the digest.\<close>

definition verify_marketplace_digest :: "k256 \<Rightarrow> bytes \<Rightarrow> bytes \<Rightarrow> bytes \<Rightarrow> swap_error + unit" where
  "verify_marketplace_digest K key digest signature =
     (if \<not> k_public_key_parses K key then Inl InvalidPublicKey
      else if k_verify_prehash K key digest signature then Inr ()
      else Inl InvalidSignature)"

definition put_marketplace_signature :: "bytes option \<Rightarrow> bytes" where
  "put_marketplace_signature signature = (case signature of Some s \<Rightarrow> 1 # s | None \<Rightarrow> [0])"

definition decode_marketplace_signature :: "string \<Rightarrow> (swap_error, bytes option) reader" where
  "decode_marketplace_signature field =
     dbind (dlift SwDecode read_u8) (\<lambda>flag.
     if flag = 0 then dreturn None
     else if flag = 1 then dbind (dlift SwDecode (read_array 64)) (\<lambda>s. dreturn (Some s))
     else derror (InvalidPresenceFlag field))"

section \<open>Listings\<close>

record fixed_price_listing =
  fl_proof :: swap_proof
  fl_created_at :: u64
  fl_expires_at :: u64
  fl_sequence :: u64
  fl_signature :: "bytes option"

definition listing_validate :: "k256 \<Rightarrow> fixed_price_listing \<Rightarrow> swap_error + unit" where
  "listing_validate K l =
     bind_res (proof_validate K (fl_proof l)) (\<lambda>_.
     if sp_signature (fl_proof l) = None then Inl UnsignedListingProof
     else if fl_sequence l = 0 then Inl ZeroListingSequence
     else if fl_expires_at l \<le> fl_created_at l then Inl InvalidListingLifetime
     else check_marketplace_signature K (fl_signature l))"

definition listing_network :: "fixed_price_listing \<Rightarrow> network_binding" where
  "listing_network l = sp_network (fl_proof l)"

definition listing_name_hash :: "script_env \<Rightarrow> fixed_price_listing \<Rightarrow> swap_error + bytes" where
  "listing_name_hash E l = map_err SwCovenant (hash_name (se_sha3_256 E) (sp_name (fl_proof l)))"

definition listing_lock_script_identifier :: "script_env \<Rightarrow> fixed_price_listing \<Rightarrow> bytes" where
  "listing_lock_script_identifier E l = lock_script_hash E (sp_seller_public_key (fl_proof l))"

definition listing_offer_id :: "script_env \<Rightarrow> k256 \<Rightarrow> fixed_price_listing \<Rightarrow> swap_error + bytes" where
  "listing_offer_id E K l = offer_id E K (fl_proof l)"

definition listing_seller_public_key :: "fixed_price_listing \<Rightarrow> bytes" where
  "listing_seller_public_key l = sp_seller_public_key (fl_proof l)"

definition listing_signing_bytes :: "k256 \<Rightarrow> fixed_price_listing \<Rightarrow> swap_error + bytes" where
  "listing_signing_bytes K l =
     bind_res (listing_validate K l) (\<lambda>_.
     bind_res (proof_encode K (fl_proof l)) (\<lambda>p.
     Inr (encode_with [put_u16_le fixed_price_listing_version, put_u64_le (fl_created_at l),
       put_u64_le (fl_expires_at l), put_u64_le (fl_sequence l), put_varbytes p])))"

definition listing_encoding_without_hash :: "k256 \<Rightarrow> fixed_price_listing \<Rightarrow> swap_error + bytes" where
  "listing_encoding_without_hash K l =
     bind_res (listing_signing_bytes K l) (\<lambda>encoded. Inr (encoded @ put_marketplace_signature (fl_signature l)))"

definition listing_verify :: "script_env \<Rightarrow> k256 \<Rightarrow> fixed_price_listing \<Rightarrow> swap_error + unit" where
  "listing_verify E K l =
     bind_res (listing_validate K l) (\<lambda>_.
     bind_res (ok_or (fl_signature l) UnsignedListing) (\<lambda>encoded.
     bind_res (validate_marketplace_signature K encoded) (\<lambda>signature.
     bind_res (listing_signing_bytes K l) (\<lambda>bs.
     verify_marketplace_digest K (sp_seller_public_key (fl_proof l)) (domain_hash E listing_signature_domain bs)
       signature))))"

definition listing_is_active_at :: "script_env \<Rightarrow> k256 \<Rightarrow> fixed_price_listing \<Rightarrow> u64 \<Rightarrow> swap_error + bool" where
  "listing_is_active_at E K l now =
     bind_res (listing_verify E K l) (\<lambda>_. Inr (fl_created_at l \<le> now \<and> now < fl_expires_at l))"

definition listing_sign ::
  "script_env \<Rightarrow> k256 \<Rightarrow> fixed_price_listing \<Rightarrow> signing_key \<Rightarrow> (swap_error + unit) \<times> fixed_price_listing" where
  "listing_sign E K l key =
     (if sk_public_key key \<noteq> sp_seller_public_key (fl_proof l) then (Inl SigningKeyMismatch, l)
      else
        let l = l\<lparr>fl_signature := None\<rparr> in
        case bind_res (listing_validate K l) (\<lambda>_.
             bind_res (listing_signing_bytes K l) (\<lambda>bs.
             ok_or (sk_sign_prehash key (domain_hash E listing_signature_domain bs)) SignatureFailure)) of
          Inl e \<Rightarrow> (Inl e, l)
        | Inr s \<Rightarrow>
            let s = (case k_normalize_s K s of Some low \<Rightarrow> low | None \<Rightarrow> s);
                l = l\<lparr>fl_signature := Some s\<rparr>
            in (listing_verify E K l, l))"

definition listing_verify_for_network ::
  "script_env \<Rightarrow> k256 \<Rightarrow> fixed_price_listing \<Rightarrow> network_binding \<Rightarrow> u64 \<Rightarrow> coin \<Rightarrow> swap_error + unit" where
  "listing_verify_for_network E K l expected_network now locking_coin =
     (if listing_network l \<noteq> expected_network then Inl NetworkMismatch
      else if now < fl_created_at l then Inl ListingNotYetActive
      else if now \<ge> fl_expires_at l then Inl ListingExpired
      else
        bind_res (listing_verify E K l) (\<lambda>_.
        proof_verify_for_network E K (fl_proof l) expected_network locking_coin))"

definition listing_hash :: "script_env \<Rightarrow> k256 \<Rightarrow> fixed_price_listing \<Rightarrow> swap_error + bytes" where
  "listing_hash E K l =
     bind_res (listing_verify E K l) (\<lambda>_.
     bind_res (listing_encoding_without_hash K l) (\<lambda>bs. Inr (domain_hash E listing_hash_domain bs)))"

definition listing_encode :: "script_env \<Rightarrow> k256 \<Rightarrow> fixed_price_listing \<Rightarrow> swap_error + bytes" where
  "listing_encode E K l =
     bind_res (listing_verify E K l) (\<lambda>_.
     bind_res (listing_encoding_without_hash K l) (\<lambda>encoded.
     let encoded = encoded @ domain_hash E listing_hash_domain encoded in
     if length encoded > max_fixed_price_listing_size then Inl (ListingTooLarge (length encoded)) else Inr encoded))"

definition read_listing :: "k256 \<Rightarrow> (swap_error, fixed_price_listing \<times> bytes) reader" where
  "read_listing K =
     dbind (dlift SwDecode read_u16_le) (\<lambda>version.
     if version \<noteq> fixed_price_listing_version then derror (UnsupportedListingVersion version)
     else
       dbind (dlift SwDecode read_u64_le) (\<lambda>created_at.
       dbind (dlift SwDecode read_u64_le) (\<lambda>expires_at.
       dbind (dlift SwDecode read_u64_le) (\<lambda>sequence.
       dbind (dlift SwDecode (read_varbytes max_swap_proof_size)) (\<lambda>proof_bytes.
       dbind (dcheck (proof_decode K proof_bytes)) (\<lambda>p.
       dbind (decode_marketplace_signature ''listing signature'') (\<lambda>signature.
       dbind (dlift SwDecode (read_array 32)) (\<lambda>claimed_hash.
         dreturn (\<lparr>fl_proof = p, fl_created_at = created_at, fl_expires_at = expires_at, fl_sequence = sequence,
           fl_signature = signature\<rparr>, claimed_hash)))))))))"

definition listing_decode :: "script_env \<Rightarrow> k256 \<Rightarrow> bytes \<Rightarrow> swap_error + fixed_price_listing" where
  "listing_decode E K input =
     (if length input > max_fixed_price_listing_size then Inl (ListingTooLarge (length input))
      else
        bind_res (read_listing K (decoder_new input)) (\<lambda>((l, claimed_hash), d).
        bind_res (map_err SwDecode (decoder_finish d)) (\<lambda>_.
        bind_res (listing_validate K l) (\<lambda>_.
        bind_res (listing_encoding_without_hash K l) (\<lambda>bs.
        if claimed_hash \<noteq> domain_hash E listing_hash_domain bs then Inl ListingHashMismatch
        else bind_res (listing_verify E K l) (\<lambda>_. Inr l))))))"

section \<open>Cancellations\<close>

record listing_cancellation =
  lc_network :: network_binding
  lc_listing_hash :: bytes
  lc_seller_public_key :: bytes
  lc_created_at :: u64
  lc_expires_at :: u64
  lc_sequence :: u64
  lc_signature :: "bytes option"

definition cancellation_validate :: "k256 \<Rightarrow> listing_cancellation \<Rightarrow> swap_error + unit" where
  "cancellation_validate K c =
     (if \<not> k_public_key_parses K (lc_seller_public_key c) then Inl InvalidPublicKey
      else if lc_sequence c = 0 then Inl ZeroCancellationSequence
      else if lc_expires_at c \<le> lc_created_at c then Inl InvalidCancellationLifetime
      else check_marketplace_signature K (lc_signature c))"

definition cancellation_for_listing ::
  "script_env \<Rightarrow> k256 \<Rightarrow> fixed_price_listing \<Rightarrow> u64 \<Rightarrow> u64 \<Rightarrow> u64 \<Rightarrow> swap_error + listing_cancellation" where
  "cancellation_for_listing E K l created_at expires_at sequence =
     bind_res (listing_verify E K l) (\<lambda>_.
     bind_res (listing_hash E K l) (\<lambda>h.
     let c = \<lparr>lc_network = listing_network l, lc_listing_hash = h, lc_seller_public_key = listing_seller_public_key l,
       lc_created_at = created_at, lc_expires_at = expires_at, lc_sequence = sequence, lc_signature = None\<rparr> in
     bind_res (cancellation_validate K c) (\<lambda>_.
     if lc_sequence c \<le> fl_sequence l then Inl CancellationSequenceNotNewer
     else if lc_created_at c < fl_created_at l then Inl CancellationListingMismatch
     else if lc_expires_at c < fl_expires_at l then Inl CancellationExpiresTooEarly
     else Inr c)))"

definition put_cancellation :: "listing_cancellation \<Rightarrow> encoder \<Rightarrow> encoder" where
  "put_cancellation c = put_seq
     [put_u16_le listing_cancellation_version, put_u32_le (nb_magic (lc_network c)), put_bytes (nb_genesis (lc_network c)),
      put_bytes (lc_listing_hash c), put_bytes (lc_seller_public_key c), put_u64_le (lc_created_at c),
      put_u64_le (lc_expires_at c), put_u64_le (lc_sequence c)]"

definition cancellation_signing_bytes :: "k256 \<Rightarrow> listing_cancellation \<Rightarrow> swap_error + bytes" where
  "cancellation_signing_bytes K c = bind_res (cancellation_validate K c) (\<lambda>_. Inr (encode_with [put_cancellation c]))"

definition cancellation_encoding_without_hash :: "k256 \<Rightarrow> listing_cancellation \<Rightarrow> swap_error + bytes" where
  "cancellation_encoding_without_hash K c =
     bind_res (cancellation_signing_bytes K c) (\<lambda>encoded. Inr (encoded @ put_marketplace_signature (lc_signature c)))"

definition cancellation_verify :: "script_env \<Rightarrow> k256 \<Rightarrow> listing_cancellation \<Rightarrow> swap_error + unit" where
  "cancellation_verify E K c =
     bind_res (cancellation_validate K c) (\<lambda>_.
     bind_res (ok_or (lc_signature c) UnsignedCancellation) (\<lambda>encoded.
     bind_res (validate_marketplace_signature K encoded) (\<lambda>signature.
     bind_res (cancellation_signing_bytes K c) (\<lambda>bs.
     verify_marketplace_digest K (lc_seller_public_key c) (domain_hash E cancellation_signature_domain bs) signature))))"

definition cancellation_is_active_at :: "script_env \<Rightarrow> k256 \<Rightarrow> listing_cancellation \<Rightarrow> u64 \<Rightarrow> swap_error + bool" where
  "cancellation_is_active_at E K c now =
     bind_res (cancellation_verify E K c) (\<lambda>_. Inr (lc_created_at c \<le> now \<and> now < lc_expires_at c))"

definition cancellation_sign ::
  "script_env \<Rightarrow> k256 \<Rightarrow> listing_cancellation \<Rightarrow> signing_key \<Rightarrow> (swap_error + unit) \<times> listing_cancellation" where
  "cancellation_sign E K c key =
     (if sk_public_key key \<noteq> lc_seller_public_key c then (Inl SigningKeyMismatch, c)
      else
        let c = c\<lparr>lc_signature := None\<rparr> in
        case bind_res (cancellation_validate K c) (\<lambda>_.
             bind_res (cancellation_signing_bytes K c) (\<lambda>bs.
             ok_or (sk_sign_prehash key (domain_hash E cancellation_signature_domain bs)) SignatureFailure)) of
          Inl e \<Rightarrow> (Inl e, c)
        | Inr s \<Rightarrow>
            let s = (case k_normalize_s K s of Some low \<Rightarrow> low | None \<Rightarrow> s);
                c = c\<lparr>lc_signature := Some s\<rparr>
            in (cancellation_verify E K c, c))"

definition cancellation_verify_for_listing ::
  "script_env \<Rightarrow> k256 \<Rightarrow> listing_cancellation \<Rightarrow> fixed_price_listing \<Rightarrow> network_binding \<Rightarrow> u64 \<Rightarrow> swap_error + unit" where
  "cancellation_verify_for_listing E K c l expected_network now =
     (if lc_network c \<noteq> expected_network \<or> listing_network l \<noteq> expected_network then Inl NetworkMismatch
      else if now < lc_created_at c then Inl CancellationNotYetActive
      else if now \<ge> lc_expires_at c then Inl CancellationExpired
      else
        bind_res (cancellation_verify E K c) (\<lambda>_.
        bind_res (listing_verify E K l) (\<lambda>_.
        bind_res (listing_hash E K l) (\<lambda>h.
        if lc_listing_hash c \<noteq> h \<or> lc_seller_public_key c \<noteq> listing_seller_public_key l \<or>
          lc_created_at c < fl_created_at l then Inl CancellationListingMismatch
        else if lc_sequence c \<le> fl_sequence l then Inl CancellationSequenceNotNewer
        else if lc_expires_at c < fl_expires_at l then Inl CancellationExpiresTooEarly
        else Inr ()))))"

definition cancellation_hash :: "script_env \<Rightarrow> k256 \<Rightarrow> listing_cancellation \<Rightarrow> swap_error + bytes" where
  "cancellation_hash E K c =
     bind_res (cancellation_verify E K c) (\<lambda>_.
     bind_res (cancellation_encoding_without_hash K c) (\<lambda>bs. Inr (domain_hash E cancellation_hash_domain bs)))"

definition cancellation_encode :: "script_env \<Rightarrow> k256 \<Rightarrow> listing_cancellation \<Rightarrow> swap_error + bytes" where
  "cancellation_encode E K c =
     bind_res (cancellation_verify E K c) (\<lambda>_.
     bind_res (cancellation_encoding_without_hash K c) (\<lambda>encoded.
     let encoded = encoded @ domain_hash E cancellation_hash_domain encoded in
     if length encoded > max_listing_cancellation_size then Inl (CancellationTooLarge (length encoded)) else Inr encoded))"

definition read_cancellation :: "(swap_error, listing_cancellation \<times> bytes) reader" where
  "read_cancellation =
     dbind (dlift SwDecode read_u16_le) (\<lambda>version.
     if version \<noteq> listing_cancellation_version then derror (UnsupportedCancellationVersion version)
     else
       dbind (dlift SwDecode read_u32_le) (\<lambda>magic.
       dbind (dlift SwDecode (read_array 32)) (\<lambda>genesis.
       dbind (dlift SwDecode (read_array 32)) (\<lambda>hash.
       dbind (dlift SwDecode (read_array 33)) (\<lambda>key.
       dbind (dlift SwDecode read_u64_le) (\<lambda>created_at.
       dbind (dlift SwDecode read_u64_le) (\<lambda>expires_at.
       dbind (dlift SwDecode read_u64_le) (\<lambda>sequence.
       dbind (decode_marketplace_signature ''cancellation signature'') (\<lambda>signature.
       dbind (dlift SwDecode (read_array 32)) (\<lambda>claimed_hash.
         dreturn (\<lparr>lc_network = \<lparr>nb_magic = magic, nb_genesis = genesis\<rparr>, lc_listing_hash = hash,
           lc_seller_public_key = key, lc_created_at = created_at, lc_expires_at = expires_at, lc_sequence = sequence,
           lc_signature = signature\<rparr>, claimed_hash)))))))))))"

definition cancellation_decode :: "script_env \<Rightarrow> k256 \<Rightarrow> bytes \<Rightarrow> swap_error + listing_cancellation" where
  "cancellation_decode E K input =
     (if length input > max_listing_cancellation_size then Inl (CancellationTooLarge (length input))
      else
        bind_res (read_cancellation (decoder_new input)) (\<lambda>((c, claimed_hash), d).
        bind_res (map_err SwDecode (decoder_finish d)) (\<lambda>_.
        bind_res (cancellation_validate K c) (\<lambda>_.
        bind_res (cancellation_encoding_without_hash K c) (\<lambda>bs.
        if claimed_hash \<noteq> domain_hash E cancellation_hash_domain bs then Inl CancellationHashMismatch
        else bind_res (cancellation_verify E K c) (\<lambda>_. Inr c))))))"

end
