(* ===== verification/ListingProofs.thy ===== *)
theory ListingProofs
  imports SwapProofs Listing
begin

text \<open>
  Listings: the swap proof and both envelopes have one encoding each, a cancellation belongs to one listing, and a seller
  can always cancel what is listed.
\<close>

section \<open>The swap proof format\<close>

interpretation sw_addr: codec address_bytes read_swap_address address_ok
proof
  fix a pre suf
  assume a: "address_ok a" and "fits pre (address_bytes a @ suf)"
  moreover have "unat (word_of_nat (length (addr_hash a)) :: byte) = length (addr_hash a)"
    using a by (simp add: address_ok_def unat_of_nat)
  ultimately show "read_swap_address (cursor pre (address_bytes a @ suf)) = Inr (a, cursor (pre @ address_bytes a) suf)"
    by (simp add: read_swap_address_def address_bytes_def dbind_run address_new_def address_ok_def)
next
  fix pre rest a d'
  assume "read_swap_address (cursor pre rest) = Inr (a, d')"
  then show "address_ok a \<and> (\<exists>suf. rest = address_bytes a @ suf \<and> d' = cursor (pre @ address_bytes a) suf)"
    by (auto simp: read_swap_address_def dbind_eq_Inr bind_res_eq_Inr map_err_eq_Inr address_new_def address_bytes_def Let_def
        dest!: read_u8_back read_bounded_vec_back)
qed

definition presence_bytes :: "('a \<Rightarrow> bytes) \<Rightarrow> 'a option \<Rightarrow> bytes" where
  "presence_bytes enc x = (case x of None \<Rightarrow> [0] | Some v \<Rightarrow> 1 # enc v)"

lemma codec_presence:
  assumes "codec enc rd vld"
  shows "codec (presence_bytes enc) (read_presence what rd) (pred_option vld)"
proof
  fix x pre suf
  assume "pred_option vld x" "fits pre (presence_bytes enc x @ suf)"
  then show "read_presence what rd (cursor pre (presence_bytes enc x @ suf)) = Inr (x, cursor (pre @ presence_bytes enc x) suf)"
    using codec.reads [OF assms]
    by (cases x) (simp_all add: read_presence_def presence_bytes_def dbind_run codec.reads [OF assms])
next
  fix pre rest x d'
  assume "read_presence what rd (cursor pre rest) = Inr (x, d')"
  then show "pred_option vld x \<and> (\<exists>suf. rest = presence_bytes enc x @ suf \<and> d' = cursor (pre @ presence_bytes enc x) suf)"
    by (auto simp: read_presence_def dbind_eq_Inr presence_bytes_def split: if_splits
        dest!: read_u8_back codec.reads_back [OF assms])
qed

interpretation sig65: codec "presence_bytes (\<lambda>bs. bs)" "read_presence what (dlift SwDecode (read_array 65))"
  "pred_option (\<lambda>bs. length bs = 65)" for what
  by (rule codec_presence [OF codec_dlift [OF arr.codec_axioms]])

interpretation fee_addr: codec "presence_bytes address_bytes" "read_presence what read_swap_address" "pred_option address_ok" for what
  by (rule codec_presence [OF sw_addr.codec_axioms])

text \<open>What the Rust types of a proof guarantee, with addresses that were checked when they were made.\<close>

definition proof_shaped :: "swap_proof \<Rightarrow> bool" where
  "proof_shaped p \<longleftrightarrow> length (nb_genesis (sp_network p)) = 32 \<and> length (op_hash (sp_locking_outpoint p)) = 32 \<and>
     length (sp_name p) \<le> 63 \<and> length (sp_seller_public_key p) = 33 \<and> address_ok (sp_payment_address p) \<and>
     pred_option (\<lambda>s. length s = 65) (sp_signature p) \<and> pred_option address_ok (sp_fee_address p)"

definition proof_bytes :: "swap_proof \<Rightarrow> bytes" where
  "proof_bytes p = u16_to_le shakedex_protocol_version @ u32_to_le (nb_magic (sp_network p)) @ nb_genesis (sp_network p) @
     op_hash (sp_locking_outpoint p) @ u32_to_le (op_index (sp_locking_outpoint p)) @ var_bytes (sp_name p) @
     sp_seller_public_key p @ address_bytes (sp_payment_address p) @ u64_to_le (sp_price p) @
     u64_to_le (sp_lock_time_seconds p) @ presence_bytes (\<lambda>bs. bs) (sp_signature p) @ u64_to_le (sp_fee p) @
     presence_bytes address_bytes (sp_fee_address p)"

lemma encode_proof: "encode_with [put_proof p] = proof_bytes p"
  by (cases "sp_signature p"; cases "sp_fee_address p")
    (simp_all add: encode_with_def put_proof_def put_address_def proof_bytes_def presence_bytes_def address_bytes_def
      outpoint_encode_bytes)

interpretation swp: codec proof_bytes read_proof proof_shaped
proof
  fix p pre suf
  assume "proof_shaped p" and "fits pre (proof_bytes p @ suf)"
  then show "read_proof (cursor pre (proof_bytes p @ suf)) = Inr (p, cursor (pre @ proof_bytes p) suf)"
    by (simp add: read_proof_def proof_bytes_def proof_shaped_def dbind_run var.reads sw_addr.reads sig65.reads fee_addr.reads
        usize_max_def)
next
  fix pre rest p d'
  assume "read_proof (cursor pre rest) = Inr (p, d')"
  then show "proof_shaped p \<and> (\<exists>suf. rest = proof_bytes p @ suf \<and> d' = cursor (pre @ proof_bytes p) suf)"
    by (auto simp: read_proof_def dbind_eq_Inr proof_bytes_def proof_shaped_def split: if_splits
        dest!: u16.reads_back u32.reads_back u64.reads_back arr.reads_back var.reads_back sw_addr.reads_back
          sig65.reads_back fee_addr.reads_back)
qed

lemma proof_encode_iff:
  "proof_encode K p = Inr bs \<longleftrightarrow>
     proof_validate K p = Inr () \<and> bs = proof_bytes p \<and> length (proof_bytes p) \<le> max_swap_proof_size"
  by (auto simp: proof_encode_def bind_res_eq_Inr Let_def encode_proof)

lemma proof_decode_iff:
  "proof_decode K input = Inr p \<longleftrightarrow> proof_shaped p \<and> proof_encode K p = Inr input"
proof
  assume "proof_decode K input = Inr p"
  then show "proof_shaped p \<and> proof_encode K p = Inr input"
    by (auto simp: proof_decode_def proof_encode_iff bind_res_eq_Inr map_err_eq_Inr decoder_new_cursor split: if_splits
        dest!: swp.reads_back)
next
  assume p: "proof_shaped p \<and> proof_encode K p = Inr input"
  then have "fits [] (proof_bytes p @ [])"
    by (simp add: proof_encode_iff fits_def max_swap_proof_size_def usize_max_def)
  from swp.reads [OF _ this] p show "proof_decode K input = Inr p"
    by (simp add: proof_decode_def proof_encode_iff decoder_new_cursor)
qed

section \<open>The envelopes\<close>

interpretation sig64: codec "presence_bytes (\<lambda>bs. bs)" "decode_marketplace_signature field"
  "pred_option (\<lambda>bs. length bs = 64)" for field
  using codec_presence [OF codec_dlift [OF arr.codec_axioms], of field SwDecode 64]
  by (simp add: decode_marketplace_signature_def read_presence_def)

lemma put_marketplace_signature_eq: "put_marketplace_signature s = presence_bytes (\<lambda>bs. bs) s"
  by (simp add: put_marketplace_signature_def presence_bytes_def split: option.split)

definition listing_shaped :: "fixed_price_listing \<Rightarrow> bool" where
  "listing_shaped l \<longleftrightarrow> proof_shaped (fl_proof l) \<and> pred_option (\<lambda>bs. length bs = 64) (fl_signature l)"

definition listing_unsigned_bytes :: "fixed_price_listing \<Rightarrow> bytes" where
  "listing_unsigned_bytes l = u16_to_le fixed_price_listing_version @ u64_to_le (fl_created_at l) @
     u64_to_le (fl_expires_at l) @ u64_to_le (fl_sequence l) @ var_bytes (proof_bytes (fl_proof l))"

definition listing_bytes :: "fixed_price_listing \<Rightarrow> bytes" where
  "listing_bytes l = listing_unsigned_bytes l @ presence_bytes (\<lambda>bs. bs) (fl_signature l)"

definition listing_writable :: "k256 \<Rightarrow> fixed_price_listing \<Rightarrow> bool" where
  "listing_writable K l \<longleftrightarrow> listing_validate K l = Inr () \<and> length (proof_bytes (fl_proof l)) \<le> max_swap_proof_size"

lemma listing_validate_proof: "listing_validate K l = Inr () \<Longrightarrow> proof_validate K (fl_proof l) = Inr ()"
  by (auto simp: listing_validate_def bind_res_eq_Inr)

lemma listing_signing_bytes_iff:
  "listing_signing_bytes K l = Inr bs \<longleftrightarrow> listing_writable K l \<and> bs = listing_unsigned_bytes l"
  by (auto simp: listing_signing_bytes_def bind_res_eq_Inr proof_encode_iff listing_writable_def listing_unsigned_bytes_def
      encode_with_def dest: listing_validate_proof)

lemma listing_encoding_without_hash_iff:
  "listing_encoding_without_hash K l = Inr bs \<longleftrightarrow> listing_writable K l \<and> bs = listing_bytes l"
  by (auto simp: listing_encoding_without_hash_def bind_res_eq_Inr listing_signing_bytes_iff listing_bytes_def
      put_marketplace_signature_eq)

interpretation lst: codec "\<lambda>(l, h). listing_bytes l @ h" "read_listing K"
  "\<lambda>(l, h). listing_shaped l \<and> proof_encode K (fl_proof l) = Inr (proof_bytes (fl_proof l)) \<and> length h = 32" for K
proof
  fix x pre suf
  assume x: "case x of (l, h) \<Rightarrow> listing_shaped l \<and> proof_encode K (fl_proof l) = Inr (proof_bytes (fl_proof l)) \<and> length h = 32"
    and fit: "fits pre ((case x of (l, h) \<Rightarrow> listing_bytes l @ h) @ suf)"
  obtain l h where lh: "x = (l, h)" by (cases x)
  have "proof_decode K (proof_bytes (fl_proof l)) = Inr (fl_proof l)" "length (proof_bytes (fl_proof l)) \<le> max_swap_proof_size"
    using x by (auto simp: lh proof_decode_iff listing_shaped_def proof_encode_iff)
  then show "read_listing K (cursor pre ((case x of (l, h) \<Rightarrow> listing_bytes l @ h) @ suf)) =
      Inr (x, cursor (pre @ (case x of (l, h) \<Rightarrow> listing_bytes l @ h)) suf)"
    using x fit
    by (simp add: lh read_listing_def listing_bytes_def listing_unsigned_bytes_def listing_shaped_def dbind_run var.reads sig64.reads
        max_swap_proof_size_def usize_max_def)
next
  fix pre rest x d'
  assume "read_listing K (cursor pre rest) = Inr (x, d')"
  then show "(case x of (l, h) \<Rightarrow> listing_shaped l \<and> proof_encode K (fl_proof l) = Inr (proof_bytes (fl_proof l)) \<and> length h = 32) \<and>
      (\<exists>suf. rest = (case x of (l, h) \<Rightarrow> listing_bytes l @ h) @ suf \<and> d' = cursor (pre @ (case x of (l, h) \<Rightarrow> listing_bytes l @ h)) suf)"
    by (auto simp: read_listing_def dbind_eq_Inr bind_res_eq_Inr listing_bytes_def listing_unsigned_bytes_def listing_shaped_def
        proof_decode_iff proof_encode_iff split: if_splits
        dest!: u16.reads_back u64.reads_back arr.reads_back var.reads_back sig64.reads_back)
qed

text \<open>What the accessors of a listing return for a writable one.\<close>

lemma listing_verify_writable: "listing_verify E K l = Inr () \<Longrightarrow> listing_writable K l"
  by (auto simp: listing_verify_def bind_res_eq_Inr listing_signing_bytes_iff)

lemma listing_hash_iff:
  "listing_hash E K l = Inr h \<longleftrightarrow> listing_verify E K l = Inr () \<and> h = domain_hash E listing_hash_domain (listing_bytes l)"
  by (auto simp: listing_hash_def bind_res_eq_Inr listing_encoding_without_hash_iff dest: listing_verify_writable)

lemma presence_bytes_le: "pred_option (\<lambda>bs. length bs = n) x \<Longrightarrow> length (presence_bytes (\<lambda>bs. bs) x) \<le> Suc n"
  by (cases x) (simp_all add: presence_bytes_def)

lemma length_listing_bytes:
  assumes "listing_shaped l" "listing_writable K l"
  shows "length (listing_bytes l) \<le> 4200"
  using presence_bytes_le [of 64 "fl_signature l"] var_bytes_le(2) [of "proof_bytes (fl_proof l)"] assms
  by (simp add: listing_bytes_def listing_unsigned_bytes_def listing_shaped_def listing_writable_def max_swap_proof_size_def)

lemma listing_decode_iff:
  assumes len: "\<forall>x. length (se_blake2b_256 E x) = 32"
  shows "listing_decode E K input = Inr l \<longleftrightarrow> listing_shaped l \<and> listing_encode E K l = Inr input"
proof
  assume "listing_decode E K input = Inr l"
  then obtain d where rd: "read_listing K (cursor [] input) = Inr ((l, domain_hash E listing_hash_domain (listing_bytes l)), d)"
    and d: "map_err SwDecode (decoder_finish d) = Inr ()" and ok: "listing_verify E K l = Inr ()" "listing_writable K l"
      "length input \<le> max_fixed_price_listing_size"
    by (auto simp: listing_decode_def bind_res_eq_Inr decoder_new_cursor listing_encoding_without_hash_iff split: if_splits)
  from lst.reads_back [OF rd] d have "listing_shaped l" "input = listing_bytes l @ domain_hash E listing_hash_domain (listing_bytes l)"
    by (auto simp: map_err_eq_Inr split: if_splits)
  then show "listing_shaped l \<and> listing_encode E K l = Inr input"
    using ok listing_encoding_without_hash_iff [of K l "listing_bytes l"] by (simp add: listing_encode_def Let_def)
next
  assume l: "listing_shaped l \<and> listing_encode E K l = Inr input"
  then have v: "listing_verify E K l = Inr ()" "listing_writable K l"
    and input: "input = listing_bytes l @ domain_hash E listing_hash_domain (listing_bytes l)"
    by (auto simp: listing_encode_def bind_res_eq_Inr listing_encoding_without_hash_iff Let_def split: if_splits)
  have "length (listing_bytes l) \<le> 4200" using l v(2) length_listing_bytes by blast
  then have n: "fits [] (input @ [])" "length input \<le> max_fixed_price_listing_size"
    using len by (simp_all add: input fits_def usize_max_def domain_hash_def max_fixed_price_listing_size_def)
  have "proof_encode K (fl_proof l) = Inr (proof_bytes (fl_proof l))" "listing_validate K l = Inr ()"
    using v(2) listing_validate_proof [of K l] by (auto simp: proof_encode_iff listing_writable_def)
  then show "listing_decode E K input = Inr l"
    using lst.reads [of K "(l, domain_hash E listing_hash_domain (listing_bytes l))" "[]" "[]"] n l v len
      listing_encoding_without_hash_iff [of K l "listing_bytes l"]
    by (simp add: listing_decode_def input decoder_new_cursor domain_hash_def)
qed

section \<open>Cancellations\<close>

definition cancellation_shaped :: "listing_cancellation \<Rightarrow> bool" where
  "cancellation_shaped c \<longleftrightarrow> length (nb_genesis (lc_network c)) = 32 \<and> length (lc_listing_hash c) = 32 \<and>
     length (lc_seller_public_key c) = 33 \<and> pred_option (\<lambda>bs. length bs = 64) (lc_signature c)"

definition cancellation_unsigned_bytes :: "listing_cancellation \<Rightarrow> bytes" where
  "cancellation_unsigned_bytes c = u16_to_le listing_cancellation_version @ u32_to_le (nb_magic (lc_network c)) @
     nb_genesis (lc_network c) @ lc_listing_hash c @ lc_seller_public_key c @ u64_to_le (lc_created_at c) @
     u64_to_le (lc_expires_at c) @ u64_to_le (lc_sequence c)"

definition cancellation_bytes :: "listing_cancellation \<Rightarrow> bytes" where
  "cancellation_bytes c = cancellation_unsigned_bytes c @ presence_bytes (\<lambda>bs. bs) (lc_signature c)"

lemma cancellation_signing_bytes_iff:
  "cancellation_signing_bytes K c = Inr bs \<longleftrightarrow> cancellation_validate K c = Inr () \<and> bs = cancellation_unsigned_bytes c"
  by (auto simp: cancellation_signing_bytes_def bind_res_eq_Inr cancellation_unsigned_bytes_def encode_with_def put_cancellation_def)

lemma cancellation_encoding_without_hash_iff:
  "cancellation_encoding_without_hash K c = Inr bs \<longleftrightarrow> cancellation_validate K c = Inr () \<and> bs = cancellation_bytes c"
  by (auto simp: cancellation_encoding_without_hash_def bind_res_eq_Inr cancellation_signing_bytes_iff cancellation_bytes_def
      put_marketplace_signature_eq)

interpretation can: codec "\<lambda>(c, h). cancellation_bytes c @ h" read_cancellation "\<lambda>(c, h). cancellation_shaped c \<and> length h = 32"
proof
  fix x pre suf
  assume x: "case x of (c, h) \<Rightarrow> cancellation_shaped c \<and> length h = 32"
    and fit: "fits pre ((case x of (c, h) \<Rightarrow> cancellation_bytes c @ h) @ suf)"
  obtain c h where ch: "x = (c, h)" by (cases x)
  show "read_cancellation (cursor pre ((case x of (c, h) \<Rightarrow> cancellation_bytes c @ h) @ suf)) =
      Inr (x, cursor (pre @ (case x of (c, h) \<Rightarrow> cancellation_bytes c @ h)) suf)"
    using x fit
    by (simp add: ch read_cancellation_def cancellation_bytes_def cancellation_unsigned_bytes_def cancellation_shaped_def
        dbind_run sig64.reads)
next
  fix pre rest x d'
  assume "read_cancellation (cursor pre rest) = Inr (x, d')"
  then show "(case x of (c, h) \<Rightarrow> cancellation_shaped c \<and> length h = 32) \<and>
      (\<exists>suf. rest = (case x of (c, h) \<Rightarrow> cancellation_bytes c @ h) @ suf \<and>
        d' = cursor (pre @ (case x of (c, h) \<Rightarrow> cancellation_bytes c @ h)) suf)"
    by (auto simp: read_cancellation_def dbind_eq_Inr cancellation_bytes_def cancellation_unsigned_bytes_def cancellation_shaped_def
        split: if_splits dest!: u16.reads_back u32.reads_back u64.reads_back arr.reads_back sig64.reads_back)
qed

lemma cancellation_verify_valid: "cancellation_verify E K c = Inr () \<Longrightarrow> cancellation_validate K c = Inr ()"
  by (auto simp: cancellation_verify_def bind_res_eq_Inr)

lemma length_cancellation_bytes: "cancellation_shaped c \<Longrightarrow> length (cancellation_bytes c) \<le> 200"
  using presence_bytes_le [of 64 "lc_signature c"]
  by (simp add: cancellation_bytes_def cancellation_unsigned_bytes_def cancellation_shaped_def)

lemma cancellation_decode_iff:
  assumes len: "\<forall>x. length (se_blake2b_256 E x) = 32"
  shows "cancellation_decode E K input = Inr c \<longleftrightarrow> cancellation_shaped c \<and> cancellation_encode E K c = Inr input"
proof
  let ?h = "domain_hash E cancellation_hash_domain (cancellation_bytes c)"
  assume "cancellation_decode E K input = Inr c"
  then obtain d where rd: "read_cancellation (cursor [] input) = Inr ((c, ?h), d)"
    and d: "map_err SwDecode (decoder_finish d) = Inr ()" and ok: "cancellation_verify E K c = Inr ()"
      "length input \<le> max_listing_cancellation_size"
    by (auto simp: cancellation_decode_def bind_res_eq_Inr decoder_new_cursor cancellation_encoding_without_hash_iff split: if_splits)
  from can.reads_back [OF rd] d have "cancellation_shaped c" "input = cancellation_bytes c @ ?h"
    by (auto simp: map_err_eq_Inr split: if_splits)
  then show "cancellation_shaped c \<and> cancellation_encode E K c = Inr input"
    using ok cancellation_verify_valid [OF ok(1)] cancellation_encoding_without_hash_iff [of K c "cancellation_bytes c"]
    by (simp add: cancellation_encode_def Let_def)
next
  let ?h = "domain_hash E cancellation_hash_domain (cancellation_bytes c)"
  assume c: "cancellation_shaped c \<and> cancellation_encode E K c = Inr input"
  then have v: "cancellation_verify E K c = Inr ()" "cancellation_validate K c = Inr ()" and input: "input = cancellation_bytes c @ ?h"
    by (auto simp: cancellation_encode_def bind_res_eq_Inr cancellation_encoding_without_hash_iff Let_def split: if_splits)
  have "length (cancellation_bytes c) \<le> 200" using c length_cancellation_bytes by blast
  then have n: "fits [] (input @ [])" "length input \<le> max_listing_cancellation_size"
    using len by (simp_all add: input fits_def usize_max_def domain_hash_def max_listing_cancellation_size_def)
  then show "cancellation_decode E K input = Inr c"
    using can.reads [of "(c, ?h)" "[]" "[]"] c v len cancellation_encoding_without_hash_iff [of K c "cancellation_bytes c"]
    by (simp add: cancellation_decode_def input decoder_new_cursor domain_hash_def)
qed

text \<open>
  C24: listings and cancellations have one encoding each. For a hash of 32 bytes, a byte string decodes to a listing (or a
  cancellation) exactly when that value has the shape of its type and encodes to the string: the version, the embedded
  proof, the signature and the content hash are all checked, and whatever was encoded is read back unchanged.
\<close>

theorem listing_codec_exact:
  assumes "\<forall>x. length (se_blake2b_256 E x) = 32"
  shows "(listing_decode E K input = Inr l \<longleftrightarrow> listing_shaped l \<and> listing_encode E K l = Inr input) \<and>
    (cancellation_decode E K input = Inr c \<longleftrightarrow> cancellation_shaped c \<and> cancellation_encode E K c = Inr input)"
  using listing_decode_iff [OF assms] cancellation_decode_iff [OF assms] by blast

section \<open>Cancelling\<close>

lemma listing_bytes_inj:
  assumes "listing_shaped l" "listing_shaped l'" "listing_writable K l" "listing_writable K l'" "listing_bytes l = listing_bytes l'"
  shows "l = l'"
proof -
  let ?h = "replicate 32 0"
  have p: "proof_encode K (fl_proof l) = Inr (proof_bytes (fl_proof l))" "proof_encode K (fl_proof l') = Inr (proof_bytes (fl_proof l'))"
    using assms(3,4) listing_validate_proof [of K] by (auto simp: proof_encode_iff listing_writable_def)
  have "fits [] (listing_bytes l @ ?h)"
    using length_listing_bytes [OF assms(1,3)] by (simp add: fits_def usize_max_def)
  then show ?thesis using lst.enc_inj [of K "(l, ?h)" "(l', ?h)"] assms p by simp
qed

lemma verify_for_listing_ok:
  assumes "cancellation_verify_for_listing E K c l network now = Inr ()"
  shows "lc_network c = network" "listing_network l = network" "lc_created_at c \<le> now" "now < lc_expires_at c"
    "cancellation_verify E K c = Inr ()" "listing_verify E K l = Inr ()"
    "lc_listing_hash c = domain_hash E listing_hash_domain (listing_bytes l)"
    "lc_seller_public_key c = listing_seller_public_key l" "fl_created_at l \<le> lc_created_at c"
    "fl_sequence l < lc_sequence c" "fl_expires_at l \<le> lc_expires_at c"
  using assms
  by (auto simp: cancellation_verify_for_listing_def bind_res_eq_Inr listing_hash_iff not_less not_le split: if_splits)

text \<open>What is verified carries a signature of its own bytes under the key of the seller.\<close>

lemma listing_verify_signed:
  assumes "listing_verify E K l = Inr ()"
  shows "\<exists>s. fl_signature l = Some s \<and>
    k_verify_prehash K (sp_seller_public_key (fl_proof l)) (domain_hash E listing_signature_domain (listing_unsigned_bytes l)) s"
  using assms
  by (auto simp: listing_verify_def bind_res_eq_Inr ok_or_eq_Inr listing_signing_bytes_iff validate_marketplace_signature_def
      verify_marketplace_digest_def split: if_splits)

lemma cancellation_verify_signed:
  assumes "cancellation_verify E K c = Inr ()"
  shows "\<exists>s. lc_signature c = Some s \<and>
    k_verify_prehash K (lc_seller_public_key c) (domain_hash E cancellation_signature_domain (cancellation_unsigned_bytes c)) s"
  using assms
  by (auto simp: cancellation_verify_def bind_res_eq_Inr ok_or_eq_Inr cancellation_signing_bytes_iff validate_marketplace_signature_def
      verify_marketplace_digest_def split: if_splits)

text \<open>
  C8: a cancellation cancels one listing for good. For a hash without collisions among the two strings hashed, one
  cancellation is accepted for no two different listings, on any network and at any time. The listing and the accepted
  cancellation each carry a signature of their own bytes that verifies under the seller key of the listing, the
  cancellation is newer than the listing, and it stays active until the listing itself has expired.
\<close>

theorem cancellation_binds_listing:
  assumes "listing_shaped l" "listing_shaped l'"
    and "collision_free (se_blake2b_256 E) [listing_hash_domain @ listing_bytes l, listing_hash_domain @ listing_bytes l']"
    and "cancellation_verify_for_listing E K c l network now = Inr ()"
    and "cancellation_verify_for_listing E K c l' network' now' = Inr ()"
  shows "l = l' \<and> lc_seller_public_key c = sp_seller_public_key (fl_proof l) \<and>
    (\<exists>s. lc_signature c = Some s \<and> k_verify_prehash K (sp_seller_public_key (fl_proof l))
      (domain_hash E cancellation_signature_domain (cancellation_unsigned_bytes c)) s) \<and>
    (\<exists>s. fl_signature l = Some s \<and> k_verify_prehash K (sp_seller_public_key (fl_proof l))
      (domain_hash E listing_signature_domain (listing_unsigned_bytes l)) s) \<and>
    fl_sequence l < lc_sequence c \<and>
    (\<forall>t. now \<le> t \<longrightarrow> listing_is_active_at E K l t = Inr True \<longrightarrow> cancellation_is_active_at E K c t = Inr True)"
proof -
  note v = verify_for_listing_ok [OF assms(4)] and v' = verify_for_listing_ok [OF assms(5)]
  have "se_blake2b_256 E (listing_hash_domain @ listing_bytes l) = se_blake2b_256 E (listing_hash_domain @ listing_bytes l')"
    using v(7) v'(7) by (simp add: domain_hash_def)
  from collision_freeD(1) [OF assms(3) _ _ this] have "listing_bytes l = listing_bytes l'" by simp
  then have "l = l'"
    using listing_bytes_inj [OF assms(1,2)] listing_verify_writable [OF v(6)] listing_verify_writable [OF v'(6)] by blast
  moreover have "cancellation_is_active_at E K c t = Inr True" if "now \<le> t" "listing_is_active_at E K l t = Inr True" for t
  proof -
    have "t < fl_expires_at l" using that(2) v(6) by (simp add: listing_is_active_at_def)
    then have "t < lc_expires_at c" using v(11) by simp
    moreover have "lc_created_at c \<le> t" using v(3) that(1) by (rule order_trans)
    ultimately show ?thesis using v(5) by (simp add: cancellation_is_active_at_def)
  qed
  ultimately show ?thesis
    using v(8,10) cancellation_verify_signed [OF v(5)] listing_verify_signed [OF v(6)] by (simp add: listing_seller_public_key_def)
qed

text \<open>A signing key that never fails and whose signatures, once normalized, verify.\<close>

definition key_signs :: "k256 \<Rightarrow> signing_key \<Rightarrow> bool" where
  "key_signs K key \<longleftrightarrow> (\<forall>digest. \<exists>s. sk_sign_prehash key digest = Some s \<and>
     (let low = (case k_normalize_s K s of Some low \<Rightarrow> low | None \<Rightarrow> s) in
      k_signature_parses K low \<and> k_normalize_s K low = None \<and> k_verify_prehash K (sk_public_key key) digest low))"

lemma cancellation_sign_ok:
  assumes "key_signs K key" "sk_public_key key = lc_seller_public_key c" "cancellation_validate K (c\<lparr>lc_signature := None\<rparr>) = Inr ()"
  shows "\<exists>s. cancellation_sign E K c key = (Inr (), c\<lparr>lc_signature := Some s\<rparr>) \<and>
    cancellation_verify E K (c\<lparr>lc_signature := Some s\<rparr>) = Inr ()"
proof -
  let ?d = "domain_hash E cancellation_signature_domain (cancellation_unsigned_bytes (c\<lparr>lc_signature := None\<rparr>))"
  obtain s low where s: "sk_sign_prehash key ?d = Some s" and low_def: "low = (case k_normalize_s K s of Some low \<Rightarrow> low | None \<Rightarrow> s)"
    and low: "k_signature_parses K low" "k_normalize_s K low = None" "k_verify_prehash K (sk_public_key key) ?d low"
    using assms(1) unfolding key_signs_def Let_def by blast
  have valid: "cancellation_validate K (c\<lparr>lc_signature := Some low\<rparr>) = Inr ()"
    using assms(3) low(1,2)
    by (auto simp: cancellation_validate_def check_marketplace_signature_def validate_marketplace_signature_def split: if_splits)
  have bytes: "cancellation_signing_bytes K (c\<lparr>lc_signature := Some low\<rparr>) = Inr (cancellation_unsigned_bytes (c\<lparr>lc_signature := None\<rparr>))"
    "cancellation_signing_bytes K (c\<lparr>lc_signature := None\<rparr>) = Inr (cancellation_unsigned_bytes (c\<lparr>lc_signature := None\<rparr>))"
    unfolding cancellation_signing_bytes_iff using valid assms(3) by (simp_all add: cancellation_unsigned_bytes_def)
  have "k_public_key_parses K (lc_seller_public_key c)"
    using assms(3) by (auto simp: cancellation_validate_def split: if_splits)
  then have verified: "cancellation_verify E K (c\<lparr>lc_signature := Some low\<rparr>) = Inr ()"
    using valid low assms(2)
    by (simp add: cancellation_verify_def bytes(1) validate_marketplace_signature_def verify_marketplace_digest_def)
  have "cancellation_sign E K c key = (cancellation_verify E K (c\<lparr>lc_signature := Some low\<rparr>), c\<lparr>lc_signature := Some low\<rparr>)"
    using assms(2,3) s by (simp add: cancellation_sign_def Let_def bytes(2) low_def)
  with verified show ?thesis by auto
qed

text \<open>
  A seller can always cancel. For a verified listing, a key of its seller that signs, a newer sequence number and a
  lifetime that covers the listing, the cancellation is made, signed and then accepted for the listing at every time of
  its lifetime.
\<close>

theorem listing_can_be_cancelled:
  assumes "listing_verify E K l = Inr ()" "key_signs K key" "sk_public_key key = listing_seller_public_key l"
    and "fl_sequence l < sequence" "fl_created_at l \<le> created_at" "fl_expires_at l \<le> expires_at" "created_at < expires_at"
    and "created_at \<le> now" "now < expires_at"
  shows "\<exists>c c'. cancellation_for_listing E K l created_at expires_at sequence = Inr c \<and>
    cancellation_sign E K c key = (Inr (), c') \<and>
    cancellation_verify_for_listing E K c' l (listing_network l) now = Inr ()"
proof -
  let ?c = "\<lparr>lc_network = listing_network l, lc_listing_hash = domain_hash E listing_hash_domain (listing_bytes l),
    lc_seller_public_key = listing_seller_public_key l, lc_created_at = created_at, lc_expires_at = expires_at,
    lc_sequence = sequence, lc_signature = None\<rparr>"
  have hash: "listing_hash E K l = Inr (domain_hash E listing_hash_domain (listing_bytes l))"
    using assms(1) by (simp add: listing_hash_iff)
  have "proof_validate K (fl_proof l) = Inr ()"
    using listing_verify_writable [OF assms(1)] listing_validate_proof by (auto simp: listing_writable_def)
  then have "k_public_key_parses K (listing_seller_public_key l)"
    by (auto simp: proof_validate_def listing_seller_public_key_def split: if_splits)
  moreover have "sequence \<noteq> 0" using assms(4) by auto
  ultimately have valid: "cancellation_validate K ?c = Inr ()"
    using assms(7) by (simp add: cancellation_validate_def check_marketplace_signature_def not_le)
  have made: "cancellation_for_listing E K l created_at expires_at sequence = Inr ?c"
    using assms valid by (simp add: cancellation_for_listing_def hash not_le not_less Let_def)
  obtain s where s: "cancellation_sign E K ?c key = (Inr (), ?c\<lparr>lc_signature := Some s\<rparr>)"
    "cancellation_verify E K (?c\<lparr>lc_signature := Some s\<rparr>) = Inr ()"
    using cancellation_sign_ok [OF assms(2), of ?c] assms(3) valid by auto
  then have "cancellation_verify_for_listing E K (?c\<lparr>lc_signature := Some s\<rparr>) l (listing_network l) now = Inr ()"
    using assms by (simp add: cancellation_verify_for_listing_def hash not_le not_less)
  with made s(1) show ?thesis by blast
qed

section \<open>Examples\<close>

definition sample_listing :: fixed_price_listing where
  "sample_listing = \<lparr>fl_proof = sample_sale, fl_created_at = 10, fl_expires_at = 20, fl_sequence = 1,
     fl_signature = Some (replicate 64 5)\<rparr>"

definition sample_signing_key :: signing_key where
  "sample_signing_key = \<lparr>sk_public_key = sample_key 5, sk_sign_prehash = (\<lambda>_. Some (replicate 64 5))\<rparr>"

lemma sample_listing_shaped: "listing_shaped sample_listing"
proof -
  have "length sale_name = 3" by code_simp
  then show ?thesis by (simp add: listing_shaped_def sample_listing_def proof_shaped_def sample_sale_def sample_key_def address_ok_def)
qed

lemma sample_listing_verifies: "listing_verify sample_env sample_k256 sample_listing = Inr ()"
proof -
  have v: "listing_validate sample_k256 sample_listing = Inr ()"
    using sale_valid(1)
    by (simp add: listing_validate_def sample_listing_def check_marketplace_signature_def validate_marketplace_signature_def)
      (simp add: sample_k256_def sample_sale_def)
  have "length (proof_bytes sample_sale) \<le> max_swap_proof_size"
    using sale_encodes [of sample_sale] by (auto simp: proof_encode_iff max_swap_proof_size_def)
  then have "listing_writable sample_k256 sample_listing" using v by (simp add: listing_writable_def sample_listing_def)
  then have "listing_signing_bytes sample_k256 sample_listing = Inr (listing_unsigned_bytes sample_listing)"
    by (simp add: listing_signing_bytes_iff)
  then show ?thesis using v
    by (simp add: listing_verify_def validate_marketplace_signature_def verify_marketplace_digest_def)
      (simp add: sample_listing_def sample_k256_def sample_sale_def sample_key_def)
qed

lemma sample_key_signs: "key_signs sample_k256 sample_signing_key"
  by (simp add: key_signs_def sample_k256_def sample_signing_key_def sample_key_def)

lemma sample_env_blake: "\<forall>x. length (se_blake2b_256 sample_env x) = 32"
  by (simp add: sample_env_def length_digest_of_def)

theorem listing_codec_exact_witness:
  "\<exists>bs. listing_encode sample_env sample_k256 sample_listing = Inr bs \<and> listing_decode sample_env sample_k256 bs = Inr sample_listing"
proof -
  have w: "listing_writable sample_k256 sample_listing" by (rule listing_verify_writable [OF sample_listing_verifies])
  let ?bs = "listing_bytes sample_listing @ domain_hash sample_env listing_hash_domain (listing_bytes sample_listing)"
  have "listing_encoding_without_hash sample_k256 sample_listing = Inr (listing_bytes sample_listing)"
    using w by (simp add: listing_encoding_without_hash_iff)
  then have "listing_encode sample_env sample_k256 sample_listing = Inr ?bs"
    using sample_listing_verifies length_listing_bytes [OF sample_listing_shaped w] sample_env_blake
    by (simp add: listing_encode_def max_fixed_price_listing_size_def domain_hash_def)
  then show ?thesis
    using listing_codec_exact [OF sample_env_blake, of sample_k256 ?bs sample_listing] sample_listing_shaped by blast
qed

theorem listing_can_be_cancelled_witness:
  "\<exists>c c'. cancellation_for_listing sample_env sample_k256 sample_listing 15 30 2 = Inr c \<and>
    cancellation_sign sample_env sample_k256 c sample_signing_key = (Inr (), c') \<and>
    cancellation_verify_for_listing sample_env sample_k256 c' sample_listing (listing_network sample_listing) 16 = Inr ()"
  by (rule listing_can_be_cancelled [OF sample_listing_verifies sample_key_signs])
    (simp_all add: sample_listing_def sample_signing_key_def listing_seller_public_key_def sample_sale_def)

definition sample_cancellation :: listing_cancellation where
  "sample_cancellation = \<lparr>lc_network = listing_network sample_listing,
     lc_listing_hash = domain_hash sample_env listing_hash_domain (listing_bytes sample_listing),
     lc_seller_public_key = sample_key 5, lc_created_at = 15, lc_expires_at = 30, lc_sequence = 2,
     lc_signature = Some (replicate 64 5)\<rparr>"

lemma sample_listing_free:
  "collision_free (se_blake2b_256 sample_env)
     [listing_hash_domain @ listing_bytes sample_listing, listing_hash_domain @ listing_bytes sample_listing]"
proof -
  have "length listing_hash_domain = 43" "length sale_name = 3" "length (var_bytes sale_name) = 4" by code_simp+
  then have p: "length (proof_bytes sample_sale) = 224"
    by (simp add: proof_bytes_def sample_sale_def sample_key_def address_bytes_def presence_bytes_def)
  have "length (listing_bytes sample_listing) = 316"
    using p by (simp add: listing_bytes_def listing_unsigned_bytes_def sample_listing_def presence_bytes_def var_bytes_eq
        length_compact_bytes)
  then show ?thesis using \<open>length listing_hash_domain = 43\<close>
    by (simp add: collision_free_def sample_env_def length_digest_of_def)
qed

lemma sample_cancellation_verifies:
  "cancellation_verify_for_listing sample_env sample_k256 sample_cancellation sample_listing (listing_network sample_listing) 16 = Inr ()"
proof -
  have v: "cancellation_validate sample_k256 sample_cancellation = Inr ()"
    by (simp add: cancellation_validate_def sample_cancellation_def check_marketplace_signature_def
        validate_marketplace_signature_def sample_k256_def sample_key_def)
  then have "cancellation_verify sample_env sample_k256 sample_cancellation = Inr ()"
    by (simp add: cancellation_verify_def cancellation_signing_bytes_def validate_marketplace_signature_def
        verify_marketplace_digest_def) (simp add: sample_cancellation_def sample_k256_def sample_key_def)
  moreover have "listing_hash sample_env sample_k256 sample_listing =
      Inr (domain_hash sample_env listing_hash_domain (listing_bytes sample_listing))"
    using sample_listing_verifies by (simp add: listing_hash_iff)
  moreover have "fl_created_at sample_listing = 10" "fl_expires_at sample_listing = 20" "fl_sequence sample_listing = 1"
    "listing_seller_public_key sample_listing = sample_key 5"
    by (simp_all add: sample_listing_def listing_seller_public_key_def sample_sale_def)
  moreover have "\<not> (2 :: u64) \<le> 1" by (simp add: word_le_nat_alt)
  ultimately show ?thesis
    using sample_listing_verifies by (simp add: cancellation_verify_for_listing_def sample_cancellation_def)
qed

theorem cancellation_binds_listing_witness:
  "listing_is_active_at sample_env sample_k256 sample_listing 17 = Inr True \<and>
   cancellation_is_active_at sample_env sample_k256 sample_cancellation 17 = Inr True"
proof -
  have "listing_is_active_at sample_env sample_k256 sample_listing 17 = Inr True"
    using sample_listing_verifies by (simp add: listing_is_active_at_def) (simp add: sample_listing_def)
  moreover have "(16 :: u64) \<le> 17" by simp
  ultimately show ?thesis
    using cancellation_binds_listing [OF sample_listing_shaped sample_listing_shaped sample_listing_free
        sample_cancellation_verifies sample_cancellation_verifies] by blast
qed

end
