(* ===== verification/Negotiation.thy ===== *)
theory Negotiation
  imports Covenants "HOL-Library.Product_Lexorder"
begin

text \<open>
  Model of \<^verbatim>\<open>crates/hns-p2p-experimental/src/assignment.rs\<close> and \<^verbatim>\<open>negotiation.rs\<close>: service bits, packet numbers and wire
  profiles of the experimental extension, and the negotiation of registry and protocol versions between two peers.
\<close>

section \<open>Assignments\<close>

type_synonym service_bit = u64
type_synonym service_mask = u64

definition hnsr_rendezvous_service :: service_bit where "hnsr_rendezvous_service = 0x04000000"
definition hnsr_relay_service :: service_bit where "hnsr_relay_service = 0x08000000"
definition shakescape_extension_service :: service_bit where "shakescape_extension_service = 0x10000000"
definition odoh_service :: service_bit where "odoh_service = 0x20000000"
definition dns_relay_service :: service_bit where "dns_relay_service = 0x40000000"
definition dns_relay_request_packet :: byte where "dns_relay_request_packet = 0xf0"
definition dns_relay_response_packet :: byte where "dns_relay_response_packet = 0xf1"
definition odoh_packet :: byte where "odoh_packet = 0xf2"
definition hnsr_packet :: byte where "hnsr_packet = 0xf3"
definition shakescape_extension_packet :: byte where "shakescape_extension_packet = 0xf4"

definition count_ones :: "u64 \<Rightarrow> nat" where
  "count_ones w = length (filter (bit w) [0..<64])"

definition is_single_bit :: "service_bit \<Rightarrow> bool" where
  "is_single_bit s \<longleftrightarrow> s \<noteq> 0 \<and> count_ones s = 1"

definition mask_contains :: "service_mask \<Rightarrow> service_bit \<Rightarrow> bool" where
  "mask_contains m s \<longleftrightarrow> m AND s = s"

definition mask_with :: "service_mask \<Rightarrow> service_bit \<Rightarrow> service_mask" where
  "mask_with m s = m OR s"

definition mask_without :: "service_mask \<Rightarrow> service_bit \<Rightarrow> service_mask" where
  "mask_without m s = m AND NOT s"

datatype exp_network = ExpMainnet | ExpTestnet | ExpRegtest | ExpSimnet

fun exp_network_byte :: "exp_network \<Rightarrow> byte" where
  "exp_network_byte ExpMainnet = 0"
| "exp_network_byte ExpTestnet = 1"
| "exp_network_byte ExpRegtest = 2"
| "exp_network_byte ExpSimnet = 3"

datatype assignment_error =
    LegacyProfileProhibited exp_network
  | UnknownOfficialProfile u16
  | AsUnknownNetwork byte

definition exp_network_try_from :: "byte \<Rightarrow> assignment_error + exp_network" where
  "exp_network_try_from v =
     (if v = 0 then Inr ExpMainnet else if v = 1 then Inr ExpTestnet else if v = 2 then Inr ExpRegtest
      else if v = 3 then Inr ExpSimnet else Inl (AsUnknownNetwork v))"

datatype wire_profile = ShakescapeV1 | LegacyDraftRegtest | Official u16 | AutoProfile

fun profile_validate_for_network :: "wire_profile \<Rightarrow> exp_network \<Rightarrow> bool \<Rightarrow> assignment_error + unit" where
  "profile_validate_for_network LegacyDraftRegtest network controlled_network =
     (if network \<noteq> ExpRegtest \<and> \<not> controlled_network then Inl (LegacyProfileProhibited network) else Inr ())"
| "profile_validate_for_network (Official version) network controlled_network = Inl (UnknownOfficialProfile version)"
| "profile_validate_for_network _ network controlled_network = Inr ()"

record wire_assignments =
  wa_dns_relay_service :: service_bit
  wa_dns_relay_request :: byte
  wa_dns_relay_response :: byte
  wa_odoh_service :: service_bit
  wa_odoh_packet :: byte
  wa_hnsr_rendezvous_service :: service_bit
  wa_hnsr_relay_service :: service_bit
  wa_hnsr_packet :: byte
  wa_shakescape_extension_service :: service_bit
  wa_shakescape_extension_packet :: byte

definition shakescape_v1_assignments :: wire_assignments where
  "shakescape_v1_assignments =
     \<lparr>wa_dns_relay_service = dns_relay_service, wa_dns_relay_request = dns_relay_request_packet,
      wa_dns_relay_response = dns_relay_response_packet, wa_odoh_service = odoh_service, wa_odoh_packet = odoh_packet,
      wa_hnsr_rendezvous_service = hnsr_rendezvous_service, wa_hnsr_relay_service = hnsr_relay_service,
      wa_hnsr_packet = hnsr_packet, wa_shakescape_extension_service = shakescape_extension_service,
      wa_shakescape_extension_packet = shakescape_extension_packet\<rparr>"

definition assignments_for_profile :: "wire_profile \<Rightarrow> exp_network \<Rightarrow> bool \<Rightarrow> assignment_error + wire_assignments" where
  "assignments_for_profile profile network controlled_network =
     bind_res (profile_validate_for_network profile network controlled_network) (\<lambda>_.
     case profile of Official version \<Rightarrow> Inl (UnknownOfficialProfile version) | _ \<Rightarrow> Inr shakescape_v1_assignments)"

section \<open>The hello message\<close>

definition hello_magic :: bytes where "hello_magic = ascii ''SKRN''"
definition hello_format_version :: u16 where "hello_format_version = 1"
definition max_registry_versions :: nat where "max_registry_versions = 16"
definition max_protocol_ranges :: nat where "max_protocol_ranges = 64"
definition registry_negotiation_protocol_id :: u16 where "registry_negotiation_protocol_id = 0"
definition registry_negotiation_protocol_version :: u16 where "registry_negotiation_protocol_version = 1"
definition registry_negotiation_max_payload :: nat where "registry_negotiation_max_payload = 16384"

definition shakescape_v1_registry_version :: u16 where "shakescape_v1_registry_version = 1"
definition shakescape_v1_registry_fingerprint :: bytes where
  "shakescape_v1_registry_fingerprint =
     [0x04, 0xfc, 0xe3, 0xf1, 0x2b, 0x71, 0x7c, 0x42, 0x54, 0xbb, 0x66, 0xac, 0x07, 0x47, 0x4a, 0x6c,
      0x9f, 0x61, 0xbd, 0x29, 0x16, 0xef, 0xc1, 0x8e, 0xbf, 0xc7, 0x9d, 0xf8, 0x2a, 0x89, 0xa6, 0x6b]"

record protocol_range =
  pr_protocol_id :: u16
  pr_minimum_version :: u16
  pr_maximum_version :: u16

datatype negotiation_error =
    NegDecode decode_error
  | NegWrongMagic bytes
  | UnknownFormatVersion u16
  | RegistryVersionCount nat
  | ProtocolCount nat
  | DuplicateOrZeroRegistryVersion
  | DuplicateProtocol
  | ManagedRegistryProtocol
  | MissingRegistryProtocol
  | UnsupportedRegistryProtocolRange protocol_range
  | RegistryProtocolNotNegotiated
  | InvalidProtocolRange protocol_range
  | ZeroResourceLimit
  | ZeroGenesis
  | NegUnknownNetwork byte
  | NegWrongFingerprint bytes bytes
  | NegWrongNetwork exp_network exp_network
  | NegWrongGenesis
  | NoCommonRegistry

text \<open>A loop whose body checks one element and may return an error.\<close>

primrec iter_res :: "('a \<Rightarrow> 'e + unit) \<Rightarrow> 'a list \<Rightarrow> 'e + unit" where
  "iter_res f [] = Inr ()"
| "iter_res f (x # xs) = bind_res (f x) (\<lambda>_. iter_res f xs)"

definition range_validate :: "protocol_range \<Rightarrow> negotiation_error + unit" where
  "range_validate p =
     (if pr_minimum_version p = 0 \<or> pr_minimum_version p > pr_maximum_version p then Inl (InvalidProtocolRange p)
      else Inr ())"

record registry_hello =
  rh_fingerprint :: bytes
  rh_registry_versions :: "u16 list"
  rh_protocols :: "protocol_range list"
  rh_maximum_receive_size :: u32
  rh_maximum_live_requests :: u16
  rh_network :: exp_network
  rh_genesis_hash :: bytes
  rh_feature_flags :: u64

definition find_protocol :: "u16 \<Rightarrow> protocol_range list \<Rightarrow> protocol_range option" where
  "find_protocol i ps = find (\<lambda>p. pr_protocol_id p = i) ps"

definition hello_validate :: "registry_hello \<Rightarrow> negotiation_error + unit" where
  "hello_validate h =
     (if rh_registry_versions h = [] \<or> length (rh_registry_versions h) > max_registry_versions then
        Inl (RegistryVersionCount (length (rh_registry_versions h)))
      else if length (rh_protocols h) > max_protocol_ranges then Inl (ProtocolCount (length (rh_protocols h)))
      else if rh_maximum_receive_size h = 0 \<or> rh_maximum_live_requests h = 0 then Inl ZeroResourceLimit
      else if rh_genesis_hash h = replicate 32 0 then Inl ZeroGenesis
      else if \<not> distinct (rh_registry_versions h) \<or> 0 \<in> set (rh_registry_versions h) then
        Inl DuplicateOrZeroRegistryVersion
      else if \<not> distinct (map pr_protocol_id (rh_protocols h)) then Inl DuplicateProtocol
      else
        bind_res (iter_res range_validate (rh_protocols h)) (\<lambda>_.
        case find_protocol registry_negotiation_protocol_id (rh_protocols h) of
          None \<Rightarrow> Inl MissingRegistryProtocol
        | Some p \<Rightarrow>
            if pr_minimum_version p > registry_negotiation_protocol_version \<or>
              pr_maximum_version p < registry_negotiation_protocol_version
            then Inl (UnsupportedRegistryProtocolRange p)
            else Inr ()))"

definition hello_shakescape ::
  "bytes \<Rightarrow> u16 \<Rightarrow> exp_network \<Rightarrow> bytes \<Rightarrow> protocol_range list \<Rightarrow> u32 \<Rightarrow> u16 \<Rightarrow> u64 \<Rightarrow>
   negotiation_error + registry_hello" where
  "hello_shakescape fingerprint registry_version network genesis_hash protocols receive_size live_requests feature_flags =
     (if list_ex (\<lambda>p. pr_protocol_id p = registry_negotiation_protocol_id) protocols then Inl ManagedRegistryProtocol
      else
        let protocols = protocols @ [\<lparr>pr_protocol_id = registry_negotiation_protocol_id,
              pr_minimum_version = registry_negotiation_protocol_version,
              pr_maximum_version = registry_negotiation_protocol_version\<rparr>];
            hello = \<lparr>rh_fingerprint = fingerprint, rh_registry_versions = [registry_version], rh_protocols = protocols,
              rh_maximum_receive_size = receive_size, rh_maximum_live_requests = live_requests, rh_network = network,
              rh_genesis_hash = genesis_hash, rh_feature_flags = feature_flags\<rparr>
        in bind_res (hello_validate hello) (\<lambda>_. Inr hello))"

definition hello_shakescape_v1 ::
  "exp_network \<Rightarrow> bytes \<Rightarrow> protocol_range list \<Rightarrow> u32 \<Rightarrow> u16 \<Rightarrow> u64 \<Rightarrow> negotiation_error + registry_hello" where
  "hello_shakescape_v1 = hello_shakescape shakescape_v1_registry_fingerprint shakescape_v1_registry_version"

definition put_range :: "protocol_range \<Rightarrow> encoder \<Rightarrow> encoder" where
  "put_range p = put_seq [put_u16_le (pr_protocol_id p), put_u16_le (pr_minimum_version p), put_u16_le (pr_maximum_version p)]"

definition sort_ranges :: "protocol_range list \<Rightarrow> protocol_range list" where
  "sort_ranges = sort_key (\<lambda>p. (pr_protocol_id p, pr_minimum_version p, pr_maximum_version p))"

definition hello_encode :: "registry_hello \<Rightarrow> negotiation_error + bytes" where
  "hello_encode h =
     bind_res (hello_validate h) (\<lambda>_.
     let versions = sort (rh_registry_versions h);
         protocols = sort_ranges (rh_protocols h)
     in Inr (encode_with
          ([put_bytes hello_magic, put_u16_le hello_format_version, put_bytes (rh_fingerprint h),
            put_u8 (word_of_nat (length versions))] @ map put_u16_le versions @
           [put_u8 (word_of_nat (length protocols))] @ map put_range protocols @
           [put_u32_le (rh_maximum_receive_size h), put_u16_le (rh_maximum_live_requests h),
            put_u8 (exp_network_byte (rh_network h)), put_bytes (rh_genesis_hash h), put_u64_le (rh_feature_flags h)])))"

definition read_range :: "(negotiation_error, protocol_range) reader" where
  "read_range =
     dbind (dlift NegDecode read_u16_le) (\<lambda>i.
     dbind (dlift NegDecode read_u16_le) (\<lambda>lo.
     dbind (dlift NegDecode read_u16_le) (\<lambda>hi.
       dreturn \<lparr>pr_protocol_id = i, pr_minimum_version = lo, pr_maximum_version = hi\<rparr>)))"

definition read_exp_network :: "(negotiation_error, exp_network) reader" where
  "read_exp_network =
     dbind (dlift NegDecode read_u8) (\<lambda>b. dcheck (map_err (\<lambda>_. NegUnknownNetwork b) (exp_network_try_from b)))"

definition read_hello :: "(negotiation_error, registry_hello) reader" where
  "read_hello =
     dbind (dlift NegDecode (read_array 4)) (\<lambda>magic.
     if magic \<noteq> hello_magic then derror (NegWrongMagic magic)
     else
       dbind (dlift NegDecode read_u16_le) (\<lambda>format_version.
       if format_version \<noteq> hello_format_version then derror (UnknownFormatVersion format_version)
       else
         dbind (dlift NegDecode (read_array 32)) (\<lambda>fingerprint.
         dbind (dlift NegDecode read_u8) (\<lambda>registry_count.
         if unat registry_count = 0 \<or> unat registry_count > max_registry_versions then
           derror (RegistryVersionCount (unat registry_count))
         else
           dbind (read_times (unat registry_count) (dlift NegDecode read_u16_le)) (\<lambda>versions.
           dbind (dlift NegDecode read_u8) (\<lambda>protocol_count.
           if unat protocol_count > max_protocol_ranges then derror (ProtocolCount (unat protocol_count))
           else
             dbind (read_times (unat protocol_count) read_range) (\<lambda>protocols.
             dbind (dlift NegDecode read_u32_le) (\<lambda>receive_size.
             dbind (dlift NegDecode read_u16_le) (\<lambda>live_requests.
             dbind read_exp_network (\<lambda>network.
             dbind (dlift NegDecode (read_array 32)) (\<lambda>genesis_hash.
             dbind (dlift NegDecode read_u64_le) (\<lambda>feature_flags.
               dreturn \<lparr>rh_fingerprint = fingerprint, rh_registry_versions = versions, rh_protocols = protocols,
                 rh_maximum_receive_size = receive_size, rh_maximum_live_requests = live_requests, rh_network = network,
                 rh_genesis_hash = genesis_hash, rh_feature_flags = feature_flags\<rparr>))))))))))))"

definition hello_decode :: "bytes \<Rightarrow> negotiation_error + registry_hello" where
  "hello_decode input =
     bind_res (read_hello (decoder_new input)) (\<lambda>(h, d).
     bind_res (map_err NegDecode (decoder_finish d)) (\<lambda>_.
     bind_res (hello_validate h) (\<lambda>_. Inr h)))"

section \<open>Negotiation\<close>

record negotiated_registry =
  nr_fingerprint :: bytes
  nr_registry_version :: u16
  nr_protocols :: "(u16 \<times> u16) list"
  nr_maximum_send_size :: u32
  nr_maximum_live_requests :: u16
  nr_network :: exp_network
  nr_genesis_hash :: bytes
  nr_feature_flags :: u64

fun largest :: "u16 list \<Rightarrow> u16 option" where
  "largest [] = None"
| "largest (x # xs) = (case largest xs of None \<Rightarrow> Some x | Some y \<Rightarrow> Some (max x y))"

text \<open>The version agreed for one local protocol, if the remote side has it in a common range.\<close>

definition agree_protocol :: "protocol_range list \<Rightarrow> protocol_range \<Rightarrow> (u16 \<times> u16) option" where
  "agree_protocol remote l =
     (case find_protocol (pr_protocol_id l) remote of
        None \<Rightarrow> None
      | Some r \<Rightarrow>
          let minimum = max (pr_minimum_version l) (pr_minimum_version r);
              maximum = min (pr_maximum_version l) (pr_maximum_version r)
          in if minimum \<le> maximum then
               Some (pr_protocol_id l,
                 if pr_protocol_id l = registry_negotiation_protocol_id then registry_negotiation_protocol_version
                 else maximum)
             else None)"

definition negotiate :: "registry_hello \<Rightarrow> registry_hello \<Rightarrow> negotiation_error + negotiated_registry" where
  "negotiate local remote =
     bind_res (hello_validate local) (\<lambda>_.
     bind_res (hello_validate remote) (\<lambda>_.
     if rh_fingerprint local \<noteq> rh_fingerprint remote then
       Inl (NegWrongFingerprint (rh_fingerprint local) (rh_fingerprint remote))
     else if rh_network local \<noteq> rh_network remote then Inl (NegWrongNetwork (rh_network local) (rh_network remote))
     else if rh_genesis_hash local \<noteq> rh_genesis_hash remote then Inl NegWrongGenesis
     else
       bind_res
         (ok_or (largest (filter (\<lambda>v. v \<in> set (rh_registry_versions remote)) (rh_registry_versions local)))
            NoCommonRegistry) (\<lambda>registry_version.
       let protocols = sort (List.map_filter (agree_protocol (rh_protocols remote)) (rh_protocols local)) in
       if (registry_negotiation_protocol_id, registry_negotiation_protocol_version) \<notin> set protocols then
         Inl RegistryProtocolNotNegotiated
       else
         Inr \<lparr>nr_fingerprint = rh_fingerprint local, nr_registry_version = registry_version, nr_protocols = protocols,
           nr_maximum_send_size = min (rh_maximum_receive_size local) (rh_maximum_receive_size remote),
           nr_maximum_live_requests = min (rh_maximum_live_requests local) (rh_maximum_live_requests remote),
           nr_network = rh_network local, nr_genesis_hash = rh_genesis_hash local,
           nr_feature_flags = rh_feature_flags local AND rh_feature_flags remote\<rparr>)))"

definition nr_supports :: "negotiated_registry \<Rightarrow> u16 \<Rightarrow> u16 \<Rightarrow> bool" where
  "nr_supports n protocol_id protocol_version \<longleftrightarrow> (protocol_id, protocol_version) \<in> set (nr_protocols n)"

end
