(* ===== verification/Registry.thy ===== *)
theory Registry
  imports Negotiation Cbor "HOL-Library.List_Lexorder"
begin

text \<open>
  Model of \<^verbatim>\<open>crates/hns-p2p-experimental/src/registry.rs\<close>: the document of experimental assignments, its validation and
  its canonical binary form. Text is the list of its UTF-8 bytes. The TOML parser and SHA-256 are parameters.
\<close>

section \<open>Documents\<close>

definition shakescape_v1_registry_name :: bytes where
  "shakescape_v1_registry_name = ascii ''Shakescape Experimental Handshake P2P Registry''"
definition shakescape_v1_registry_protocol_version :: u16 where "shakescape_v1_registry_protocol_version = 1"
definition shakescape_v1_wire_profile :: bytes where "shakescape_v1_wire_profile = ascii ''shakescape-v1''"
definition hnsr_profile_registry_name :: bytes where
  "hnsr_profile_registry_name = ascii ''Shakescape Experimental HNSR Service Profile Registry''"
definition hnsr_profile_registry_version :: u16 where "hnsr_profile_registry_version = 1"
definition hnsr_profile_registry_protocol_version :: u16 where "hnsr_profile_registry_protocol_version = 1"
definition hnsr_profile_wire_profile :: bytes where "hnsr_profile_wire_profile = ascii ''hnsr-service-profiles-v1''"

definition registry_magic :: bytes where "registry_magic = ascii ''SKR1''"
definition canonical_format_version :: u16 where "canonical_format_version = 1"
definition max_registry_text :: nat where "max_registry_text = 256 * 1024"
definition max_registry_binary :: nat where "max_registry_binary = 512 * 1024"
definition max_assignments :: nat where "max_assignments = 256"
definition max_field_length :: nat where "max_field_length = 4096"

datatype assignment_kind = ServiceBitKind | PacketTypeKind | ProtocolIdKind | ServiceProfileKind

fun assignment_kind_byte :: "assignment_kind \<Rightarrow> byte" where
  "assignment_kind_byte ServiceBitKind = 1"
| "assignment_kind_byte PacketTypeKind = 2"
| "assignment_kind_byte ProtocolIdKind = 3"
| "assignment_kind_byte ServiceProfileKind = 4"

datatype assignment_status =
    StExperimental | StStableExperimental | StDeprecated | StOfficialAlias | StRetired | StReserved

fun assignment_status_byte :: "assignment_status \<Rightarrow> byte" where
  "assignment_status_byte StExperimental = 1"
| "assignment_status_byte StStableExperimental = 2"
| "assignment_status_byte StDeprecated = 3"
| "assignment_status_byte StOfficialAlias = 4"
| "assignment_status_byte StRetired = 5"
| "assignment_status_byte StReserved = 6"

record registry_metadata =
  rm_name :: bytes
  rm_version :: u16
  rm_protocol_version :: u16
  rm_status :: assignment_status
  rm_owner :: bytes
  rm_wire_profile :: bytes

record registry_assignment =
  ra_semantic_name :: bytes
  ra_kind :: assignment_kind
  ra_value :: u64
  ra_range_end :: "u64 option"
  ra_registry_version :: u16
  ra_protocol_version :: u16
  ra_status :: assignment_status
  ra_owner :: bytes
  ra_source_proposal_url :: bytes
  ra_source_implementation_url :: bytes
  ra_network_applicability :: "exp_network list"
  ra_maximum_payload :: u32
  ra_security_classification :: bytes
  ra_first_supported_release :: bytes
  ra_deprecation_state :: bytes
  ra_replacement_assignment :: "bytes option"

record registry_document =
  rd_registry :: registry_metadata
  rd_assignments :: "registry_assignment list"

datatype registry_error =
    RgDocumentTooLarge nat nat
  | RgToml
  | RgDecode decode_error
  | RgWrongMagic bytes
  | UnknownCanonicalFormat u16
  | UnsupportedRegistryVersion u16 u16
  | InvalidRegistryStatus assignment_status
  | InvalidWireProfile bytes
  | AssignmentCount nat
  | NetworkCount nat
  | RgUnknownNetwork byte
  | UnknownAssignmentKind byte
  | UnknownAssignmentStatus byte
  | InvalidBoolean string byte
  | InvalidField string
  | InvalidUtf8
  | EntryVersionMismatch bytes
  | ReversedRange bytes
  | ValueOutsideKind bytes u64 assignment_kind
  | InvalidServiceBit bytes u64
  | NonReservedRange bytes
  | DuplicateNetwork bytes
  | AssignmentCollision bytes bytes
  | DuplicateSemanticName bytes
  | InvalidProfileRegistryAssignment
  | MissingRequiredAssignment string assignment_kind u64
  | MissingRequiredAssignmentRange string assignment_kind u64 u64
  | NonCanonicalBinary

definition assignment_kind_try_from :: "byte \<Rightarrow> registry_error + assignment_kind" where
  "assignment_kind_try_from v =
     (if v = 1 then Inr ServiceBitKind else if v = 2 then Inr PacketTypeKind else if v = 3 then Inr ProtocolIdKind
      else if v = 4 then Inr ServiceProfileKind else Inl (UnknownAssignmentKind v))"

definition assignment_status_try_from :: "byte \<Rightarrow> registry_error + assignment_status" where
  "assignment_status_try_from v =
     (if v = 1 then Inr StExperimental else if v = 2 then Inr StStableExperimental else if v = 3 then Inr StDeprecated
      else if v = 4 then Inr StOfficialAlias else if v = 5 then Inr StRetired else if v = 6 then Inr StReserved
      else Inl (UnknownAssignmentStatus v))"

section \<open>Validation\<close>

definition validate_field :: "string \<Rightarrow> bytes \<Rightarrow> registry_error + unit" where
  "validate_field field v = (if v = [] \<or> length v > max_field_length then Inl (InvalidField field) else Inr ())"

definition metadata_validate :: "registry_metadata \<Rightarrow> registry_error + unit" where
  "metadata_validate m =
     bind_res (validate_field ''registry.name'' (rm_name m)) (\<lambda>_.
     bind_res (validate_field ''registry.owner'' (rm_owner m)) (\<lambda>_.
     bind_res (validate_field ''registry.wire_profile'' (rm_wire_profile m)) (\<lambda>_.
     bind_res
       (if rm_name m = shakescape_v1_registry_name \<and> rm_version m = shakescape_v1_registry_version \<and>
           rm_protocol_version m = shakescape_v1_registry_protocol_version then Inr shakescape_v1_wire_profile
        else if rm_name m = hnsr_profile_registry_name \<and> rm_version m = hnsr_profile_registry_version \<and>
           rm_protocol_version m = hnsr_profile_registry_protocol_version then Inr hnsr_profile_wire_profile
        else Inl (UnsupportedRegistryVersion (rm_version m) (rm_protocol_version m))) (\<lambda>expected_wire_profile.
     if rm_status m \<noteq> StStableExperimental then Inl (InvalidRegistryStatus (rm_status m))
     else if rm_wire_profile m \<noteq> expected_wire_profile then Inl (InvalidWireProfile (rm_wire_profile m))
     else Inr ()))))"

definition assignment_end :: "registry_assignment \<Rightarrow> u64" where
  "assignment_end a = (case ra_range_end a of Some e \<Rightarrow> e | None \<Rightarrow> ra_value a)"

fun kind_maximum :: "assignment_kind \<Rightarrow> u64" where
  "kind_maximum ServiceBitKind = 0xffffffffffffffff"
| "kind_maximum PacketTypeKind = 0xff"
| "kind_maximum ProtocolIdKind = 0xffff"
| "kind_maximum ServiceProfileKind = 0xffff"

definition assignment_fields :: "registry_assignment \<Rightarrow> (string \<times> bytes) list" where
  "assignment_fields a =
     [(''semantic_name'', ra_semantic_name a), (''owner'', ra_owner a), (''source_proposal_url'', ra_source_proposal_url a),
      (''source_implementation_url'', ra_source_implementation_url a),
      (''security_classification'', ra_security_classification a),
      (''first_supported_release'', ra_first_supported_release a), (''deprecation_state'', ra_deprecation_state a)] @
     (case ra_replacement_assignment a of Some r \<Rightarrow> [(''replacement_assignment'', r)] | None \<Rightarrow> [])"

definition assignment_validate :: "registry_metadata \<Rightarrow> registry_assignment \<Rightarrow> registry_error + unit" where
  "assignment_validate m a =
     bind_res (iter_res (\<lambda>(field, v). validate_field field v) (assignment_fields a)) (\<lambda>_.
     if ra_registry_version a \<noteq> rm_version m \<or> ra_protocol_version a \<noteq> rm_protocol_version m then
       Inl (EntryVersionMismatch (ra_semantic_name a))
     else if assignment_end a < ra_value a then Inl (ReversedRange (ra_semantic_name a))
     else if assignment_end a > kind_maximum (ra_kind a) then
       Inl (ValueOutsideKind (ra_semantic_name a) (assignment_end a) (ra_kind a))
     else if ra_kind a = ServiceBitKind \<and> (ra_range_end a \<noteq> None \<or> count_ones (ra_value a) \<noteq> 1) then
       Inl (InvalidServiceBit (ra_semantic_name a) (ra_value a))
     else if ra_range_end a \<noteq> None \<and> ra_status a \<noteq> StReserved then Inl (NonReservedRange (ra_semantic_name a))
     else if ra_network_applicability a = [] \<or> length (ra_network_applicability a) > 4 then
       Inl (NetworkCount (length (ra_network_applicability a)))
     else if \<not> distinct (ra_network_applicability a) then Inl (DuplicateNetwork (ra_semantic_name a))
     else Inr ())"

text \<open>The body of the loop over pairs of assignments, and the two loops.\<close>

definition check_pair :: "registry_assignment \<Rightarrow> registry_assignment \<Rightarrow> registry_error + unit" where
  "check_pair l r =
     (if ra_kind l = ra_kind r \<and> ra_value l \<le> assignment_end r \<and> ra_value r \<le> assignment_end l then
        Inl (AssignmentCollision (ra_semantic_name l) (ra_semantic_name r))
      else if ra_semantic_name l = ra_semantic_name r then Inl (DuplicateSemanticName (ra_semantic_name l))
      else Inr ())"

fun check_assignment_pairs :: "registry_assignment list \<Rightarrow> registry_error + unit" where
  "check_assignment_pairs [] = Inr ()"
| "check_assignment_pairs (l # rest) = bind_res (iter_res (check_pair l) rest) (\<lambda>_. check_assignment_pairs rest)"

definition require_assignment :: "registry_document \<Rightarrow> string \<times> assignment_kind \<times> u64 \<Rightarrow> registry_error + unit" where
  "require_assignment d = (\<lambda>(name, kind, v).
     if list_ex (\<lambda>a. ra_semantic_name a = ascii name \<and> ra_kind a = kind \<and> ra_value a = v \<and> ra_range_end a = None)
       (rd_assignments d)
     then Inr () else Inl (MissingRequiredAssignment name kind v))"

definition require_assignment_range ::
  "registry_document \<Rightarrow> string \<Rightarrow> assignment_kind \<Rightarrow> u64 \<Rightarrow> u64 \<Rightarrow> registry_error + unit" where
  "require_assignment_range d name kind v range_end =
     (if list_ex (\<lambda>a. ra_semantic_name a = ascii name \<and> ra_kind a = kind \<and> ra_value a = v \<and>
          ra_range_end a = Some range_end \<and> ra_status a = StReserved) (rd_assignments d)
      then Inr () else Inl (MissingRequiredAssignmentRange name kind v range_end))"

definition profile_requirements :: "(string \<times> assignment_kind \<times> u64) list" where
  "profile_requirements =
     [(''hnsr-profile-hns-node-v1'', ServiceProfileKind, 1), (''hnsr-profile-hns-web-v1'', ServiceProfileKind, 2),
      (''hnsr-profile-hns-chat-v1'', ServiceProfileKind, 3), (''hnsr-profile-shakescape-swap-v1'', ServiceProfileKind, 4)]"

definition shakescape_requirements :: "(string \<times> assignment_kind \<times> u64) list" where
  "shakescape_requirements =
     [(''hnsr-rendezvous-service'', ServiceBitKind, 0x04000000), (''hnsr-relay-service'', ServiceBitKind, 0x08000000),
      (''shakescape-extension-service'', ServiceBitKind, 0x10000000), (''p2p-odoh-service'', ServiceBitKind, 0x20000000),
      (''p2p-dns-relay-service'', ServiceBitKind, 0x40000000), (''getdnsrelay'', PacketTypeKind, 0xf0),
      (''dnsrelay'', PacketTypeKind, 0xf1), (''odns'', PacketTypeKind, 0xf2), (''hnsr'', PacketTypeKind, 0xf3),
      (''shakescape-ext'', PacketTypeKind, 0xf4), (''registry-negotiation'', ProtocolIdKind, 0),
      (''atomic-name-marketplace'', ProtocolIdKind, 1), (''cross-chain-marketplace'', ProtocolIdKind, 2)]"

definition document_validate :: "registry_document \<Rightarrow> registry_error + unit" where
  "document_validate d =
     bind_res (metadata_validate (rd_registry d)) (\<lambda>_.
     if rd_assignments d = [] \<or> length (rd_assignments d) > max_assignments then
       Inl (AssignmentCount (length (rd_assignments d)))
     else
       bind_res (iter_res (assignment_validate (rd_registry d)) (rd_assignments d)) (\<lambda>_.
       bind_res (check_assignment_pairs (rd_assignments d)) (\<lambda>_.
       if rm_name (rd_registry d) = hnsr_profile_registry_name then
         bind_res (iter_res (require_assignment d) profile_requirements) (\<lambda>_.
         bind_res (require_assignment_range d ''reserved-hnsr-profiles-0x0005-0xffff'' ServiceProfileKind 5 0xffff) (\<lambda>_.
         if list_ex (\<lambda>a. ra_kind a \<noteq> ServiceProfileKind) (rd_assignments d) then Inl InvalidProfileRegistryAssignment
         else Inr ()))
       else
         bind_res (iter_res (require_assignment d) shakescape_requirements) (\<lambda>_.
         require_assignment_range d ''reserved-protocols-0x0003-0xffff'' ProtocolIdKind 3 0xffff))))"

section \<open>The canonical form\<close>

definition put_string :: "bytes \<Rightarrow> encoder \<Rightarrow> registry_error + encoder" where
  "put_string v e =
     bind_res (validate_field ''canonical string'' v) (\<lambda>_.
     if length v > 0xffff then Inl (InvalidField ''canonical string'')
     else Inr (put_bytes v (put_u16_le (word_of_nat (length v)) e)))"

definition put_optional_string :: "bytes option \<Rightarrow> encoder \<Rightarrow> registry_error + encoder" where
  "put_optional_string v e = (case v of Some s \<Rightarrow> put_string s (put_u8 1 e) | None \<Rightarrow> Inr (put_u8 0 e))"

primrec put_strings :: "bytes list \<Rightarrow> encoder \<Rightarrow> registry_error + encoder" where
  "put_strings [] e = Inr e"
| "put_strings (s # ss) e = bind_res (put_string s e) (put_strings ss)"

definition canonical_networks :: "exp_network list \<Rightarrow> exp_network list" where
  "canonical_networks ns = remdups_adj (sort_key exp_network_byte ns)"

definition put_assignment :: "registry_assignment \<Rightarrow> encoder \<Rightarrow> registry_error + encoder" where
  "put_assignment a e =
     bind_res
       (put_strings
          [ra_semantic_name a, ra_owner a, ra_source_proposal_url a, ra_source_implementation_url a,
           ra_security_classification a, ra_first_supported_release a, ra_deprecation_state a]
          (put_seq ([put_u8 (assignment_kind_byte (ra_kind a)), put_u8 (assignment_status_byte (ra_status a)),
             put_u64_le (ra_value a)] @
             (case ra_range_end a of Some r \<Rightarrow> [put_u8 1, put_u64_le r] | None \<Rightarrow> [put_u8 0]) @
             [put_u16_le (ra_registry_version a), put_u16_le (ra_protocol_version a), put_u32_le (ra_maximum_payload a)]) e)) (\<lambda>e.
     bind_res (put_optional_string (ra_replacement_assignment a) e) (\<lambda>e.
     let networks = canonical_networks (ra_network_applicability a) in
     if length networks > 0xff then Inl (NetworkCount (length networks))
     else
       Inr (put_seq (put_u8 (word_of_nat (length networks)) # map (\<lambda>n. put_u8 (exp_network_byte n)) networks) e)))"

primrec put_assignments :: "registry_assignment list \<Rightarrow> encoder \<Rightarrow> registry_error + encoder" where
  "put_assignments [] e = Inr e"
| "put_assignments (a # as) e = bind_res (put_assignment a e) (put_assignments as)"

definition sort_assignments :: "registry_assignment list \<Rightarrow> registry_assignment list" where
  "sort_assignments =
     sort_key (\<lambda>a. (assignment_kind_byte (ra_kind a), ra_value a, assignment_end a, ra_semantic_name a))"

definition canonical_bytes :: "registry_document \<Rightarrow> registry_error + bytes" where
  "canonical_bytes d =
     bind_res (document_validate d) (\<lambda>_.
     let assignments = sort_assignments (rd_assignments d); m = rd_registry d in
     bind_res
       (put_strings [rm_name m, rm_owner m, rm_wire_profile m]
          (put_seq [put_bytes registry_magic, put_u16_le canonical_format_version, put_u16_le (rm_version m),
             put_u16_le (rm_protocol_version m), put_u8 (assignment_status_byte (rm_status m))] encoder_new)) (\<lambda>e.
     if length assignments > 0xffff then Inl (AssignmentCount (length assignments))
     else
       bind_res (put_assignments assignments (put_u16_le (word_of_nat (length assignments)) e)) (\<lambda>e.
       Inr (into_bytes e))))"

definition document_id :: "(bytes \<Rightarrow> bytes) \<Rightarrow> registry_document \<Rightarrow> registry_error + bytes" where
  "document_id sha256 d = bind_res (canonical_bytes d) (\<lambda>bs. Inr (sha256 bs))"

definition read_string :: "(registry_error, bytes) reader" where
  "read_string =
     dbind (dlift RgDecode read_u16_le) (\<lambda>len.
     if unat len = 0 \<or> unat len > max_field_length then derror (InvalidField ''canonical string'')
     else
       dbind (dlift RgDecode (read_bounded_vec (unat len) max_field_length)) (\<lambda>bs.
       if utf8_valid bs then dreturn bs else derror InvalidUtf8))"

definition read_optional_string :: "(registry_error, bytes option) reader" where
  "read_optional_string =
     dbind (dlift RgDecode read_u8) (\<lambda>flag.
     if flag = 0 then dreturn None
     else if flag = 1 then dbind read_string (\<lambda>s. dreturn (Some s))
     else derror (InvalidBoolean ''optional_string'' flag))"

definition read_range_end :: "(registry_error, u64 option) reader" where
  "read_range_end =
     dbind (dlift RgDecode read_u8) (\<lambda>flag.
     if flag = 0 then dreturn None
     else if flag = 1 then dbind (dlift RgDecode read_u64_le) (\<lambda>v. dreturn (Some v))
     else derror (InvalidBoolean ''range_end'' flag))"

definition read_kind :: "(registry_error, assignment_kind) reader" where
  "read_kind = dbind (dlift RgDecode read_u8) (\<lambda>b. dcheck (assignment_kind_try_from b))"

definition read_status :: "(registry_error, assignment_status) reader" where
  "read_status = dbind (dlift RgDecode read_u8) (\<lambda>b. dcheck (assignment_status_try_from b))"

definition read_assignment_network :: "(registry_error, exp_network) reader" where
  "read_assignment_network =
     dbind (dlift RgDecode read_u8) (\<lambda>b. dcheck (map_err (\<lambda>_. RgUnknownNetwork b) (exp_network_try_from b)))"

definition read_assignment :: "(registry_error, registry_assignment) reader" where
  "read_assignment =
     dbind read_kind (\<lambda>kind.
     dbind read_status (\<lambda>status.
     dbind (dlift RgDecode read_u64_le) (\<lambda>v.
     dbind read_range_end (\<lambda>range_end.
     dbind (dlift RgDecode read_u16_le) (\<lambda>registry_version.
     dbind (dlift RgDecode read_u16_le) (\<lambda>protocol_version.
     dbind (dlift RgDecode read_u32_le) (\<lambda>maximum_payload.
     dbind read_string (\<lambda>semantic_name.
     dbind read_string (\<lambda>owner.
     dbind read_string (\<lambda>proposal.
     dbind read_string (\<lambda>implementation.
     dbind read_string (\<lambda>security.
     dbind read_string (\<lambda>release.
     dbind read_string (\<lambda>deprecation.
     dbind read_optional_string (\<lambda>replacement.
     dbind (dlift RgDecode read_u8) (\<lambda>network_count.
     if unat network_count = 0 \<or> unat network_count > 4 then derror (NetworkCount (unat network_count))
     else
       dbind (read_times (unat network_count) read_assignment_network) (\<lambda>networks.
         dreturn \<lparr>ra_semantic_name = semantic_name, ra_kind = kind, ra_value = v, ra_range_end = range_end,
           ra_registry_version = registry_version, ra_protocol_version = protocol_version, ra_status = status,
           ra_owner = owner, ra_source_proposal_url = proposal, ra_source_implementation_url = implementation,
           ra_network_applicability = networks, ra_maximum_payload = maximum_payload,
           ra_security_classification = security, ra_first_supported_release = release,
           ra_deprecation_state = deprecation, ra_replacement_assignment = replacement\<rparr>)))))))))))))))))"

definition read_document :: "(registry_error, registry_document) reader" where
  "read_document =
     dbind (dlift RgDecode (read_array 4)) (\<lambda>magic.
     if magic \<noteq> registry_magic then derror (RgWrongMagic magic)
     else
       dbind (dlift RgDecode read_u16_le) (\<lambda>format_version.
       if format_version \<noteq> canonical_format_version then derror (UnknownCanonicalFormat format_version)
       else
         dbind (dlift RgDecode read_u16_le) (\<lambda>registry_version.
         dbind (dlift RgDecode read_u16_le) (\<lambda>protocol_version.
         dbind read_status (\<lambda>status.
         dbind read_string (\<lambda>name.
         dbind read_string (\<lambda>owner.
         dbind read_string (\<lambda>wire_profile.
         dbind (dlift RgDecode read_u16_le) (\<lambda>assignment_count.
         if unat assignment_count = 0 \<or> unat assignment_count > max_assignments then
           derror (AssignmentCount (unat assignment_count))
         else
           dbind (read_times (unat assignment_count) read_assignment) (\<lambda>assignments.
             dreturn \<lparr>rd_registry = \<lparr>rm_name = name, rm_version = registry_version, rm_protocol_version = protocol_version,
               rm_status = status, rm_owner = owner, rm_wire_profile = wire_profile\<rparr>, rd_assignments = assignments\<rparr>))))))))))"

definition from_canonical_bytes :: "bytes \<Rightarrow> registry_error + registry_document" where
  "from_canonical_bytes input =
     (if length input > max_registry_binary then Inl (RgDocumentTooLarge (length input) max_registry_binary)
      else
        bind_res (read_document (decoder_new input)) (\<lambda>(d, c).
        bind_res (map_err RgDecode (decoder_finish c)) (\<lambda>_.
        bind_res (document_validate d) (\<lambda>_.
        bind_res (canonical_bytes d) (\<lambda>bs.
        if bs \<noteq> input then Inl NonCanonicalBinary else Inr d)))))"

definition from_toml :: "(bytes \<Rightarrow> registry_document option) \<Rightarrow> bytes \<Rightarrow> registry_error + registry_document" where
  "from_toml toml_from_str input =
     (if length input > max_registry_text then Inl (RgDocumentTooLarge (length input) max_registry_text)
      else
        bind_res (ok_or (toml_from_str input) RgToml) (\<lambda>d.
        bind_res (document_validate d) (\<lambda>_. Inr d)))"

end
