(* ===== verification/ExtensionEnvelope.thy ===== *)
theory ExtensionEnvelope
  imports Negotiation
begin

text \<open>
  Model of \<^verbatim>\<open>crates/hns-p2p-experimental/src/envelope.rs\<close>: the envelope of extension messages, the classification of
  protocols and messages, and the registry hello inside an envelope.
\<close>

section \<open>Constants, messages and errors\<close>

definition shakescape_envelope_magic :: bytes where "shakescape_envelope_magic = ascii ''SKX1''"
definition shakescape_envelope_overhead :: nat where "shakescape_envelope_overhead = 26"
definition shakescape_extension_max_packet_payload :: nat where "shakescape_extension_max_packet_payload = 1048576"
definition shakescape_extension_max_nested_payload :: nat where
  "shakescape_extension_max_nested_payload = shakescape_extension_max_packet_payload - shakescape_envelope_overhead"
definition atomic_market_protocol_id :: u16 where "atomic_market_protocol_id = 1"
definition atomic_market_protocol_version :: u16 where "atomic_market_protocol_version = 1"
definition cross_chain_market_protocol_id :: u16 where "cross_chain_market_protocol_id = 2"
definition cross_chain_market_protocol_version :: u16 where "cross_chain_market_protocol_version = 4"

datatype known_message =
    RegistryHello | RegistryHelloAck | RegistryReject
  | MarketHello | GetOfferInventory | OfferInventory | GetOffers | Offers | GetOffer | Offer | OfferTombstone
  | DirectOfferInventory | GetDirectOffer | DirectOffer | CancelDirectOffer | AcceptDirectOffer
  | SwapSessionHello | SwapFundingStatus | SwapRedeemStatus | SwapRefundStatus | SwapSessionProposal | SwapWatchReady

definition requires_request_id :: "known_message \<Rightarrow> bool" where
  "requires_request_id m \<longleftrightarrow>
     m \<notin> {RegistryReject, MarketHello, OfferTombstone, DirectOfferInventory, CancelDirectOffer, SwapFundingStatus,
       SwapRedeemStatus, SwapRefundStatus, SwapWatchReady}"

datatype protocol_disposition = KnownMessageOf known_message | UnknownProtocol u16 u16

datatype envelope_error =
    EnvDecode decode_error
  | EnvWrongMagic bytes
  | EnvPayloadTooLarge nat nat
  | EnvPacketTooLarge nat nat
  | EnvLengthMismatch nat nat
  | EnvUnknownMessage u16 u16
  | EnvProtocolUnavailable u16 u16
  | EnvUnsupportedFlags u16 u16 u16
  | EnvZeroRequestId u16 u16

datatype registry_envelope_error =
    RegEnvelope envelope_error
  | RegNegotiation negotiation_error
  | RegWrongRegistryVersion u16
  | RegIdentityMismatch u16
  | RegWrongProtocol u16 u16
  | RegUnsupportedFlags u16
  | RegUnexpectedMessage known_message known_message

record extension_envelope =
  ee_registry_version :: u16
  ee_protocol_id :: u16
  ee_protocol_version :: u16
  ee_message_type :: u16
  ee_flags :: u16
  ee_request_id :: u64
  ee_payload :: bytes

section \<open>Classification\<close>

definition supported_protocol_version :: "extension_envelope \<Rightarrow> u16 option" where
  "supported_protocol_version e =
     (if ee_protocol_id e = registry_negotiation_protocol_id then Some registry_negotiation_protocol_version
      else if ee_protocol_id e = atomic_market_protocol_id then Some atomic_market_protocol_version
      else if ee_protocol_id e = cross_chain_market_protocol_id \<and> ee_registry_version e = shakescape_v1_registry_version then
        Some cross_chain_market_protocol_version
      else None)"

definition registry_message_of :: "u16 \<Rightarrow> known_message option" where
  "registry_message_of t =
     (if t = 1 then Some RegistryHello else if t = 2 then Some RegistryHelloAck
      else if t = 3 then Some RegistryReject else None)"

definition atomic_market_message_of :: "u16 \<Rightarrow> known_message option" where
  "atomic_market_message_of t =
     (if t = 1 then Some MarketHello else if t = 2 then Some GetOfferInventory
      else if t = 3 then Some OfferInventory else if t = 4 then Some GetOffers
      else if t = 5 then Some Offers else if t = 6 then Some GetOffer
      else if t = 7 then Some Offer else if t = 8 then Some OfferTombstone else None)"

definition cross_chain_message_of :: "u16 \<Rightarrow> known_message option" where
  "cross_chain_message_of t =
     (if t = 1 then Some DirectOfferInventory else if t = 2 then Some GetDirectOffer
      else if t = 3 then Some DirectOffer else if t = 4 then Some CancelDirectOffer
      else if t = 5 then Some AcceptDirectOffer else if t = 6 then Some SwapSessionProposal
      else if t = 7 then Some SwapSessionHello else if t = 8 then Some SwapFundingStatus
      else if t = 9 then Some SwapRedeemStatus else if t = 10 then Some SwapRefundStatus
      else if t = 11 then Some SwapWatchReady else None)"

text \<open>The match on registry version, protocol and message type: a message, none for a foreign protocol, or an error.\<close>

definition classify_message :: "extension_envelope \<Rightarrow> envelope_error + known_message option" where
  "classify_message e =
     (let unknown = Inl (EnvUnknownMessage (ee_protocol_id e) (ee_message_type e));
          known = (\<lambda>m. case m of Some k \<Rightarrow> Inr (Some k) | None \<Rightarrow> unknown)
      in if ee_protocol_id e = registry_negotiation_protocol_id then known (registry_message_of (ee_message_type e))
         else if ee_protocol_id e = atomic_market_protocol_id then known (atomic_market_message_of (ee_message_type e))
         else if ee_protocol_id e = cross_chain_market_protocol_id \<and> ee_registry_version e = shakescape_v1_registry_version then
           known (cross_chain_message_of (ee_message_type e))
         else Inr None)"

definition classify :: "extension_envelope \<Rightarrow> envelope_error + protocol_disposition" where
  "classify e =
     (let unknown_protocol = UnknownProtocol (ee_protocol_id e) (ee_protocol_version e);
          messages =
            bind_res (classify_message e) (\<lambda>known.
            case known of
              Some m \<Rightarrow>
                if requires_request_id m \<and> ee_request_id e = 0 then
                  Inl (EnvZeroRequestId (ee_protocol_id e) (ee_message_type e))
                else Inr (KnownMessageOf m)
            | None \<Rightarrow> Inr unknown_protocol)
      in case supported_protocol_version e of
           Some expected \<Rightarrow>
             if ee_protocol_version e \<noteq> expected then Inr unknown_protocol
             else if ee_flags e \<noteq> 0 then
               Inl (EnvUnsupportedFlags (ee_protocol_id e) (ee_protocol_version e) (ee_flags e))
             else messages
         | None \<Rightarrow> messages)"

section \<open>The codec\<close>

definition envelope_validate_size :: "extension_envelope \<Rightarrow> nat \<Rightarrow> envelope_error + unit" where
  "envelope_validate_size e maximum_payload =
     (if length (ee_payload e) > maximum_payload \<or> length (ee_payload e) > 0xffffffff then
        Inl (EnvPayloadTooLarge (length (ee_payload e)) (min maximum_payload 0xffffffff))
      else Inr ())"

definition put_envelope :: "extension_envelope \<Rightarrow> encoder \<Rightarrow> encoder" where
  "put_envelope e = put_seq
     [put_bytes shakescape_envelope_magic, put_u16_le (ee_registry_version e), put_u16_le (ee_protocol_id e),
      put_u16_le (ee_protocol_version e), put_u16_le (ee_message_type e), put_u16_le (ee_flags e),
      put_u64_le (ee_request_id e), put_u32_le (word_of_nat (length (ee_payload e))), put_bytes (ee_payload e)]"

definition envelope_encode :: "extension_envelope \<Rightarrow> nat \<Rightarrow> envelope_error + bytes" where
  "envelope_encode e maximum_payload =
     bind_res (envelope_validate_size e maximum_payload) (\<lambda>_.
     bind_res (classify e) (\<lambda>_. Inr (encode_with [put_envelope e])))"

definition read_payload :: "nat \<Rightarrow> u32 \<Rightarrow> (envelope_error, bytes) reader" where
  "read_payload maximum_payload payload_length d =
     (if unat payload_length > maximum_payload then Inl (EnvPayloadTooLarge (unat payload_length) maximum_payload)
      else if unat payload_length \<noteq> decoder_remaining d then
        Inl (EnvLengthMismatch (unat payload_length) (decoder_remaining d))
      else dlift EnvDecode (read_bounded_vec (unat payload_length) maximum_payload) d)"

definition read_envelope :: "nat \<Rightarrow> (envelope_error, extension_envelope) reader" where
  "read_envelope maximum_payload =
     dbind (dlift EnvDecode (read_array 4)) (\<lambda>magic.
     if magic \<noteq> shakescape_envelope_magic then derror (EnvWrongMagic magic)
     else
       dbind (dlift EnvDecode read_u16_le) (\<lambda>registry_version.
       dbind (dlift EnvDecode read_u16_le) (\<lambda>protocol_id.
       dbind (dlift EnvDecode read_u16_le) (\<lambda>protocol_version.
       dbind (dlift EnvDecode read_u16_le) (\<lambda>message_type.
       dbind (dlift EnvDecode read_u16_le) (\<lambda>flags.
       dbind (dlift EnvDecode read_u64_le) (\<lambda>request_id.
       dbind (dlift EnvDecode read_u32_le) (\<lambda>payload_length.
       dbind (read_payload maximum_payload payload_length) (\<lambda>payload.
         dreturn \<lparr>ee_registry_version = registry_version, ee_protocol_id = protocol_id,
           ee_protocol_version = protocol_version, ee_message_type = message_type, ee_flags = flags,
           ee_request_id = request_id, ee_payload = payload\<rparr>)))))))))"

definition envelope_decode :: "bytes \<Rightarrow> nat \<Rightarrow> envelope_error + extension_envelope" where
  "envelope_decode input maximum_payload =
     bind_res (read_envelope maximum_payload (decoder_new input)) (\<lambda>(e, d).
     bind_res (map_err EnvDecode (decoder_finish d)) (\<lambda>_.
     bind_res (classify e) (\<lambda>_. Inr e)))"

definition envelope_encode_canonical :: "extension_envelope \<Rightarrow> envelope_error + bytes" where
  "envelope_encode_canonical e = envelope_encode e shakescape_extension_max_nested_payload"

definition envelope_decode_canonical :: "bytes \<Rightarrow> envelope_error + extension_envelope" where
  "envelope_decode_canonical input =
     (if length input > shakescape_extension_max_packet_payload then
        Inl (EnvPacketTooLarge (length input) shakescape_extension_max_packet_payload)
      else envelope_decode input shakescape_extension_max_nested_payload)"

section \<open>Registry messages\<close>

definition validate_registry_identity :: "u16 \<Rightarrow> registry_hello \<Rightarrow> registry_envelope_error + unit" where
  "validate_registry_identity registry_version hello =
     (if registry_version \<noteq> shakescape_v1_registry_version then Inl (RegWrongRegistryVersion registry_version)
      else if rh_fingerprint hello \<noteq> shakescape_v1_registry_fingerprint \<or> rh_registry_versions hello \<noteq> [registry_version] then
        Inl (RegIdentityMismatch registry_version)
      else if registry_version = shakescape_v1_registry_version \<and>
        list_ex (\<lambda>p. pr_protocol_id p = cross_chain_market_protocol_id) (rh_protocols hello) then
        Inl (RegEnvelope (EnvProtocolUnavailable registry_version cross_chain_market_protocol_id))
      else Inr ())"

definition registry_message :: "u16 \<Rightarrow> u16 \<Rightarrow> u64 \<Rightarrow> registry_hello \<Rightarrow> registry_envelope_error + extension_envelope" where
  "registry_message registry_version message_type request_id hello =
     bind_res (validate_registry_identity registry_version hello) (\<lambda>_.
     bind_res (map_err RegNegotiation (hello_encode hello)) (\<lambda>payload.
     if length payload > registry_negotiation_max_payload then
       Inl (RegEnvelope (EnvPayloadTooLarge (length payload) registry_negotiation_max_payload))
     else
       let envelope = \<lparr>ee_registry_version = registry_version, ee_protocol_id = registry_negotiation_protocol_id,
         ee_protocol_version = registry_negotiation_protocol_version, ee_message_type = message_type, ee_flags = 0,
         ee_request_id = request_id, ee_payload = payload\<rparr> in
       bind_res (map_err RegEnvelope (classify envelope)) (\<lambda>_. Inr envelope)))"

definition registry_hello_message :: "u64 \<Rightarrow> registry_hello \<Rightarrow> registry_envelope_error + extension_envelope" where
  "registry_hello_message = registry_message shakescape_v1_registry_version 1"

definition registry_hello_ack_message :: "u64 \<Rightarrow> registry_hello \<Rightarrow> registry_envelope_error + extension_envelope" where
  "registry_hello_ack_message = registry_message shakescape_v1_registry_version 2"

definition decode_registry_message ::
  "bytes \<Rightarrow> u16 \<Rightarrow> known_message \<Rightarrow> registry_envelope_error + u64 \<times> registry_hello" where
  "decode_registry_message input expected_registry_version expected =
     (if length input > shakescape_extension_max_packet_payload then
        Inl (RegEnvelope (EnvPacketTooLarge (length input) shakescape_extension_max_packet_payload))
      else
        bind_res (map_err RegEnvelope (envelope_decode input registry_negotiation_max_payload)) (\<lambda>e.
        if ee_registry_version e \<noteq> expected_registry_version then Inl (RegWrongRegistryVersion (ee_registry_version e))
        else if ee_protocol_id e \<noteq> registry_negotiation_protocol_id \<or>
          ee_protocol_version e \<noteq> registry_negotiation_protocol_version then
          Inl (RegWrongProtocol (ee_protocol_id e) (ee_protocol_version e))
        else if ee_flags e \<noteq> 0 then Inl (RegUnsupportedFlags (ee_flags e))
        else
          bind_res (map_err RegEnvelope (classify e)) (\<lambda>disposition.
          case disposition of
            UnknownProtocol _ _ \<Rightarrow> Inl (RegWrongProtocol (ee_protocol_id e) (ee_protocol_version e))
          | KnownMessageOf actual \<Rightarrow>
              if actual \<noteq> expected then Inl (RegUnexpectedMessage expected actual)
              else
                bind_res (map_err RegNegotiation (hello_decode (ee_payload e))) (\<lambda>hello.
                bind_res (validate_registry_identity expected_registry_version hello) (\<lambda>_.
                Inr (ee_request_id e, hello))))))"

definition decode_registry_hello :: "bytes \<Rightarrow> registry_envelope_error + u64 \<times> registry_hello" where
  "decode_registry_hello input = decode_registry_message input shakescape_v1_registry_version RegistryHello"

definition decode_registry_hello_ack :: "bytes \<Rightarrow> registry_envelope_error + u64 \<times> registry_hello" where
  "decode_registry_hello_ack input = decode_registry_message input shakescape_v1_registry_version RegistryHelloAck"

end
