(* ===== verification/NegotiationProofs.thy ===== *)
theory NegotiationProofs
  imports ExtensionEnvelope "HOL-Library.Multiset"
begin

text \<open>
  Negotiation: both sides of a connection compute the same result, whatever the order in which they list versions and
  protocols, and the registry messages carry a hello to the other side without changing that result.
\<close>

section \<open>Valid hellos\<close>

definition in_range :: "protocol_range \<Rightarrow> u16 \<Rightarrow> bool" where
  "in_range p v \<longleftrightarrow> pr_minimum_version p \<le> v \<and> v \<le> pr_maximum_version p"

lemma iter_res_iff: "iter_res f xs = Inr () \<longleftrightarrow> (\<forall>x \<in> set xs. f x = Inr ())"
  by (induction xs) (auto simp: bind_res_eq_Inr)

lemma find_protocol_iff:
  assumes "distinct (map pr_protocol_id ps)"
  shows "find_protocol i ps = Some p \<longleftrightarrow> p \<in> set ps \<and> pr_protocol_id p = i"
  using assms by (induction ps) (auto simp: find_protocol_def)

lemma find_protocol_unique:
  assumes "distinct (map pr_protocol_id ps)" "find_protocol i ps = Some p"
  shows "p \<in> set ps" "pr_protocol_id p = i" "q \<in> set ps \<Longrightarrow> pr_protocol_id q = i \<Longrightarrow> q = p"
proof -
  show "p \<in> set ps" "pr_protocol_id p = i" using find_protocol_iff [OF assms(1), of i p] assms(2) by auto
  show "q = p" if "q \<in> set ps" "pr_protocol_id q = i"
    using find_protocol_iff [OF assms(1), of i q] that assms(2) by simp
qed

lemma find_protocol_None: "find_protocol i ps = None \<longleftrightarrow> (\<forall>p \<in> set ps. pr_protocol_id p \<noteq> i)"
  by (auto simp: find_protocol_def find_None_iff)

lemma range_validate_iff: "range_validate p = Inr () \<longleftrightarrow> pr_minimum_version p \<noteq> 0 \<and> pr_minimum_version p \<le> pr_maximum_version p"
  by (auto simp: range_validate_def)

text \<open>The checks of a hello, as a condition that does not depend on the order of its lists.\<close>

lemma hello_validate_iff:
  "hello_validate h = Inr () \<longleftrightarrow>
     rh_registry_versions h \<noteq> [] \<and> length (rh_registry_versions h) \<le> max_registry_versions \<and>
     length (rh_protocols h) \<le> max_protocol_ranges \<and> rh_maximum_receive_size h \<noteq> 0 \<and> rh_maximum_live_requests h \<noteq> 0 \<and>
     rh_genesis_hash h \<noteq> replicate 32 0 \<and> distinct (rh_registry_versions h) \<and> 0 \<notin> set (rh_registry_versions h) \<and>
     distinct (map pr_protocol_id (rh_protocols h)) \<and> (\<forall>p \<in> set (rh_protocols h). range_validate p = Inr ()) \<and>
     (\<exists>p \<in> set (rh_protocols h). pr_protocol_id p = registry_negotiation_protocol_id \<and>
        in_range p registry_negotiation_protocol_version)"
proof -
  have "(case find_protocol registry_negotiation_protocol_id (rh_protocols h) of None \<Rightarrow> Inl MissingRegistryProtocol
      | Some p \<Rightarrow> if pr_minimum_version p > registry_negotiation_protocol_version \<or>
          pr_maximum_version p < registry_negotiation_protocol_version
        then Inl (UnsupportedRegistryProtocolRange p) else Inr ()) = Inr () \<longleftrightarrow>
      (\<exists>p \<in> set (rh_protocols h). pr_protocol_id p = registry_negotiation_protocol_id \<and>
        in_range p registry_negotiation_protocol_version)"
    if d: "distinct (map pr_protocol_id (rh_protocols h))"
  proof (cases "find_protocol registry_negotiation_protocol_id (rh_protocols h)")
    case None
    then have "\<forall>p \<in> set (rh_protocols h). pr_protocol_id p \<noteq> registry_negotiation_protocol_id" by (simp add: find_protocol_None)
    with None show ?thesis by auto
  next
    case (Some p)
    note u = find_protocol_unique [OF d Some]
    have "(\<exists>q \<in> set (rh_protocols h). pr_protocol_id q = registry_negotiation_protocol_id \<and>
        in_range q registry_negotiation_protocol_version) \<longleftrightarrow> in_range p registry_negotiation_protocol_version"
      using u by metis
    then show ?thesis using Some by (auto simp: in_range_def not_less)
  qed
  then show ?thesis by (auto simp: hello_validate_def bind_res_eq_Inr iter_res_iff)
qed

section \<open>Agreement\<close>

lemma largest_iff: "largest xs = Some v \<longleftrightarrow> v \<in> set xs \<and> (\<forall>x \<in> set xs. x \<le> v)"
proof (induction xs arbitrary: v)
  case (Cons x xs)
  show ?case
  proof (cases "largest xs")
    case None
    then have "xs = []" by (cases xs) (auto split: option.splits)
    then show ?thesis by auto
  next
    case (Some y)
    then have y: "y \<in> set xs" "\<forall>z \<in> set xs. z \<le> y" using Cons.IH by auto
    show ?thesis
    proof
      assume "largest (x # xs) = Some v"
      then have v: "v = max x y" using Some by simp
      then show "v \<in> set (x # xs) \<and> (\<forall>z \<in> set (x # xs). z \<le> v)" using y by (auto simp: max_def intro: order_trans)
    next
      assume v: "v \<in> set (x # xs) \<and> (\<forall>z \<in> set (x # xs). z \<le> v)"
      then have "v = max x y" using y by (intro antisym) auto
      then show "largest (x # xs) = Some v" using Some by simp
    qed
  qed
qed simp

lemma largest_common:
  "largest (filter (\<lambda>v. v \<in> set bs) as) = largest (filter (\<lambda>v. v \<in> set as) bs)"
proof -
  have "largest (filter (\<lambda>v. v \<in> set bs) as) = Some v \<longleftrightarrow> largest (filter (\<lambda>v. v \<in> set as) bs) = Some v" for v
    unfolding largest_iff by auto
  then show ?thesis by (metis not_Some_eq)
qed

text \<open>What two ranges of one protocol agree on.\<close>

definition agreed :: "protocol_range \<Rightarrow> protocol_range \<Rightarrow> u16 \<Rightarrow> bool" where
  "agreed l r v \<longleftrightarrow> pr_protocol_id l = pr_protocol_id r \<and>
     max (pr_minimum_version l) (pr_minimum_version r) \<le> min (pr_maximum_version l) (pr_maximum_version r) \<and>
     v = (if pr_protocol_id l = registry_negotiation_protocol_id then registry_negotiation_protocol_version
       else min (pr_maximum_version l) (pr_maximum_version r))"

lemma agreed_sym: "agreed l r v \<longleftrightarrow> agreed r l v"
  by (auto simp: agreed_def max.commute min.commute)

lemma agreed_id: "agreed l r v \<Longrightarrow> pr_protocol_id l = pr_protocol_id r"
  by (simp add: agreed_def)

lemma agree_protocol_iff:
  assumes "distinct (map pr_protocol_id remote)"
  shows "agree_protocol remote l = Some (i, v) \<longleftrightarrow> pr_protocol_id l = i \<and> (\<exists>r \<in> set remote. agreed l r v)"
proof (cases "find_protocol (pr_protocol_id l) remote")
  case None
  then have "\<forall>r \<in> set remote. pr_protocol_id r \<noteq> pr_protocol_id l" by (simp add: find_protocol_None)
  with None show ?thesis by (auto simp: agree_protocol_def agreed_def)
next
  case (Some r)
  note u = find_protocol_unique [OF assms Some]
  have "(\<exists>s \<in> set remote. agreed l s v) \<longleftrightarrow> agreed l r v"
  proof
    assume "\<exists>s \<in> set remote. agreed l s v"
    then obtain s where s: "s \<in> set remote" "agreed l s v" by blast
    moreover from s(2) have "pr_protocol_id s = pr_protocol_id l" by (simp add: agreed_def)
    ultimately show "agreed l r v" using u(3) by blast
  qed (use u(1) in blast)
  moreover have "agree_protocol remote l = Some (i, v) \<longleftrightarrow> pr_protocol_id l = i \<and> agreed l r v"
    using Some u(2) by (cases "pr_protocol_id l = registry_negotiation_protocol_id") (auto simp: agree_protocol_def agreed_def Let_def)
  ultimately show ?thesis by simp
qed

lemma set_map_filter: "set (List.map_filter f xs) = {y. \<exists>x \<in> set xs. f x = Some y}"
  by (induction xs) (auto simp: List.map_filter_def)

lemma agree_fst: "agree_protocol remote l = Some y \<Longrightarrow> fst y = pr_protocol_id l"
  by (auto simp: agree_protocol_def Let_def split: option.splits if_splits)

lemma distinct_agreements:
  assumes "distinct (map pr_protocol_id ps)"
  shows "distinct (List.map_filter (agree_protocol remote) ps)"
proof -
  have "fst ` set (List.map_filter (agree_protocol remote) ps) \<subseteq> set (map pr_protocol_id ps)" for ps
    by (auto simp: set_map_filter dest!: agree_fst)
  then show ?thesis using assms
    by (induction ps) (force simp: List.map_filter_def set_map_filter split: option.splits dest: agree_fst)+
qed

lemma set_agreements:
  assumes "distinct (map pr_protocol_id remote)"
  shows "set (List.map_filter (agree_protocol remote) ps) = {(i, v). \<exists>l \<in> set ps. \<exists>r \<in> set remote. pr_protocol_id l = i \<and> agreed l r v}"
  unfolding set_map_filter using agree_protocol_iff [OF assms] by fast

lemma agreements_sym:
  assumes "distinct (map pr_protocol_id as)" "distinct (map pr_protocol_id bs)"
  shows "sort (List.map_filter (agree_protocol bs) as) = sort (List.map_filter (agree_protocol as) bs)"
proof (rule sorted_distinct_set_unique)
  have swap: "\<exists>l \<in> set ys. \<exists>r \<in> set xs. pr_protocol_id l = i \<and> agreed l r v"
    if lr: "\<exists>l \<in> set xs. \<exists>r \<in> set ys. pr_protocol_id l = i \<and> agreed l r v" for xs ys i v
  proof -
    obtain l r where "l \<in> set xs" "r \<in> set ys" "pr_protocol_id l = i" and a: "agreed l r v" using lr by blast
    moreover have "agreed r l v" "pr_protocol_id r = pr_protocol_id l"
      using a agreed_sym [of l r v] agreed_id [OF a] by simp_all
    ultimately show ?thesis by auto
  qed
  have "(\<exists>l \<in> set as. \<exists>r \<in> set bs. pr_protocol_id l = i \<and> agreed l r v) \<longleftrightarrow>
      (\<exists>l \<in> set bs. \<exists>r \<in> set as. pr_protocol_id l = i \<and> agreed l r v)" for i v
    using swap [of as bs i v] swap [of bs as i v] by (rule iffI)
  then show "set (sort (List.map_filter (agree_protocol bs) as)) = set (sort (List.map_filter (agree_protocol as) bs))"
    unfolding set_sort set_agreements [OF assms(2)] set_agreements [OF assms(1)] by simp
qed (use distinct_agreements assms in auto)

text \<open>A negotiation depends on the sets of versions and protocols only, and on neither side's point of view.\<close>

lemma negotiate_sym: "negotiate a b = Inr n \<Longrightarrow> negotiate b a = Inr n"
proof -
  assume ab: "negotiate a b = Inr n"
  then have v: "hello_validate a = Inr ()" "hello_validate b = Inr ()" by (auto simp: negotiate_def bind_res_eq_Inr)
  then have "distinct (map pr_protocol_id (rh_protocols a))" "distinct (map pr_protocol_id (rh_protocols b))"
    by (auto simp: hello_validate_iff)
  from agreements_sym [OF this] show ?thesis
    using ab v largest_common [of "rh_registry_versions b" "rh_registry_versions a"]
    by (auto simp: negotiate_def bind_res_eq_Inr ok_or_eq_Inr Let_def min.commute and.commute split: if_splits)
qed

lemma negotiate_supports:
  assumes "negotiate a b = Inr n"
  shows "nr_supports n i v \<longleftrightarrow> (\<exists>l \<in> set (rh_protocols a). \<exists>r \<in> set (rh_protocols b). pr_protocol_id l = i \<and> agreed l r v)"
proof -
  have "hello_validate b = Inr ()" using assms by (auto simp: negotiate_def bind_res_eq_Inr)
  then have d: "distinct (map pr_protocol_id (rh_protocols b))" by (simp add: hello_validate_iff)
  have "nr_protocols n = sort (List.map_filter (agree_protocol (rh_protocols b)) (rh_protocols a))"
    using assms by (auto simp: negotiate_def bind_res_eq_Inr Let_def split: if_splits)
  then have "set (nr_protocols n) = {(i, v). \<exists>l \<in> set (rh_protocols a). \<exists>r \<in> set (rh_protocols b). pr_protocol_id l = i \<and> agreed l r v}"
    using set_agreements [OF d] by simp
  then show ?thesis unfolding nr_supports_def by blast
qed

section \<open>The hello format\<close>

definition hello_shaped :: "registry_hello \<Rightarrow> bool" where
  "hello_shaped h \<longleftrightarrow> length (rh_fingerprint h) = 32 \<and> length (rh_genesis_hash h) = 32"

definition range_bytes :: "protocol_range \<Rightarrow> bytes" where
  "range_bytes p = u16_to_le (pr_protocol_id p) @ u16_to_le (pr_minimum_version p) @ u16_to_le (pr_maximum_version p)"

definition hello_bytes :: "registry_hello \<Rightarrow> bytes" where
  "hello_bytes h = hello_magic @ u16_to_le hello_format_version @ rh_fingerprint h @
     [word_of_nat (length (rh_registry_versions h))] @ concat (map u16_to_le (rh_registry_versions h)) @
     [word_of_nat (length (rh_protocols h))] @ concat (map range_bytes (rh_protocols h)) @
     u32_to_le (rh_maximum_receive_size h) @ u16_to_le (rh_maximum_live_requests h) @
     [exp_network_byte (rh_network h)] @ rh_genesis_hash h @ u64_to_le (rh_feature_flags h)"

text \<open>A hello as it is sent: versions and protocols in order.\<close>

definition hello_sorted :: "registry_hello \<Rightarrow> registry_hello" where
  "hello_sorted h = h\<lparr>rh_registry_versions := sort (rh_registry_versions h), rh_protocols := sort_ranges (rh_protocols h)\<rparr>"

interpretation rng: codec range_bytes read_range "\<lambda>_. True"
proof
  fix p pre suf
  assume "fits pre (range_bytes p @ suf)"
  then show "read_range (cursor pre (range_bytes p @ suf)) = Inr (p, cursor (pre @ range_bytes p) suf)"
    by (simp add: read_range_def range_bytes_def dbind_run)
next
  fix pre rest p d'
  assume "read_range (cursor pre rest) = Inr (p, d')"
  then show "True \<and> (\<exists>suf. rest = range_bytes p @ suf \<and> d' = cursor (pre @ range_bytes p) suf)"
    by (auto simp: read_range_def dbind_eq_Inr range_bytes_def dest!: u16.reads_back)
qed

interpretation ver: codec u16_to_le "dlift NegDecode read_u16_le" "\<lambda>_. True"
  by (rule codec_dlift [OF u16.codec_axioms])

lemma exp_network_round: "exp_network_try_from (exp_network_byte n) = Inr n"
  by (cases n) (simp_all add: exp_network_try_from_def)

lemma exp_network_back: "exp_network_try_from b = Inr n \<Longrightarrow> b = exp_network_byte n"
  by (auto simp: exp_network_try_from_def split: if_splits)

interpretation net: codec "\<lambda>n. [exp_network_byte n]" read_exp_network "\<lambda>_. True"
proof
  fix n pre suf
  assume "fits pre ([exp_network_byte n] @ suf)"
  then show "read_exp_network (cursor pre ([exp_network_byte n] @ suf)) = Inr (n, cursor (pre @ [exp_network_byte n]) suf)"
    by (simp add: read_exp_network_def dbind_run exp_network_round)
next
  fix pre rest n d'
  assume "read_exp_network (cursor pre rest) = Inr (n, d')"
  then show "True \<and> (\<exists>suf. rest = [exp_network_byte n] @ suf \<and> d' = cursor (pre @ [exp_network_byte n]) suf)"
    by (auto simp: read_exp_network_def dbind_eq_Inr bind_res_eq_Inr map_err_eq_Inr dest!: read_u8_back exp_network_back)
qed

lemma length_hello_magic [simp]: "length hello_magic = 4"
  by (simp add: hello_magic_def ascii_def)

definition hello_counted :: "registry_hello \<Rightarrow> bool" where
  "hello_counted h \<longleftrightarrow> hello_shaped h \<and> rh_registry_versions h \<noteq> [] \<and>
     length (rh_registry_versions h) \<le> max_registry_versions \<and> length (rh_protocols h) \<le> max_protocol_ranges"

lemma small_count: "n \<le> 64 \<Longrightarrow> unat (word_of_nat n :: byte) = n"
  by (simp add: unat_of_nat)

interpretation hlo: codec hello_bytes read_hello hello_counted
proof
  fix h pre suf
  assume h: "hello_counted h" and "fits pre (hello_bytes h @ suf)"
  moreover have "unat (word_of_nat (length (rh_registry_versions h)) :: byte) = length (rh_registry_versions h)"
    "unat (word_of_nat (length (rh_protocols h)) :: byte) = length (rh_protocols h)"
    using h by (intro small_count; simp add: hello_counted_def max_registry_versions_def max_protocol_ranges_def)+
  ultimately show "read_hello (cursor pre (hello_bytes h @ suf)) = Inr (h, cursor (pre @ hello_bytes h) suf)"
    using net.reads [OF TrueI, simplified]
    by (simp add: read_hello_def hello_bytes_def hello_counted_def hello_shaped_def dbind_run ver.times_reads rng.times_reads)
next
  fix pre rest h d'
  assume "read_hello (cursor pre rest) = Inr (h, d')"
  then show "hello_counted h \<and> (\<exists>suf. rest = hello_bytes h @ suf \<and> d' = cursor (pre @ hello_bytes h) suf)"
    by (auto simp: read_hello_def dbind_eq_Inr hello_bytes_def hello_counted_def hello_shaped_def split: if_splits
        dest!: read_u8_back u16.reads_back u32.reads_back u64.reads_back arr.reads_back ver.times_back rng.times_back net.reads_back)
qed

lemma sort_ranges_facts:
  "set (sort_ranges ps) = set ps" "length (sort_ranges ps) = length ps"
  "distinct (map pr_protocol_id (sort_ranges ps)) \<longleftrightarrow> distinct (map pr_protocol_id ps)"
proof -
  have "mset (map pr_protocol_id (sort_ranges ps)) = mset (map pr_protocol_id ps)" by (simp add: sort_ranges_def)
  then show "distinct (map pr_protocol_id (sort_ranges ps)) \<longleftrightarrow> distinct (map pr_protocol_id ps)"
    by (rule mset_eq_imp_distinct_iff)
qed (simp_all add: sort_ranges_def)

lemma hello_validate_sorted: "hello_validate (hello_sorted h) = Inr () \<longleftrightarrow> hello_validate h = Inr ()"
proof -
  have "sort (rh_registry_versions h) = [] \<longleftrightarrow> rh_registry_versions h = []" by (metis length_0_conv length_sort)
  then show ?thesis by (simp add: hello_validate_iff hello_sorted_def sort_ranges_facts)
qed

lemma hello_encode_iff:
  "hello_encode h = Inr bs \<longleftrightarrow> hello_validate h = Inr () \<and> bs = hello_bytes (hello_sorted h)"
proof -
  have v: "into_bytes (put_seq (map put_u16_le vs) e) = into_bytes e @ concat (map u16_to_le vs)" for vs e
    by (rule into_bytes_put_seq_map) simp
  have p: "into_bytes (put_seq (map put_range ps) e) = into_bytes e @ concat (map range_bytes ps)" for ps e
    by (rule into_bytes_put_seq_map) (simp add: put_range_def range_bytes_def)
  show ?thesis
    by (auto simp: hello_encode_def bind_res_eq_Inr Let_def encode_with_def put_seq_append v p hello_bytes_def hello_sorted_def)
qed

lemma length_hello_bytes:
  assumes "hello_counted h"
  shows "length (hello_bytes h) \<le> 1000"
proof -
  have "length (concat (map u16_to_le vs)) = 2 * length vs" for vs by (induction vs) simp_all
  moreover have "length (concat (map range_bytes ps)) = 6 * length ps" for ps by (induction ps) (simp_all add: range_bytes_def)
  ultimately show ?thesis using assms
    by (simp add: hello_bytes_def hello_counted_def hello_shaped_def max_registry_versions_def max_protocol_ranges_def)
qed

lemma hello_counted_valid: "hello_shaped h \<Longrightarrow> hello_validate h = Inr () \<Longrightarrow> hello_counted h"
  by (simp add: hello_counted_def hello_validate_iff)

lemma hello_decode_iff:
  "hello_decode bs = Inr h \<longleftrightarrow> hello_shaped h \<and> hello_validate h = Inr () \<and> bs = hello_bytes h"
proof
  assume "hello_decode bs = Inr h"
  then show "hello_shaped h \<and> hello_validate h = Inr () \<and> bs = hello_bytes h"
    by (auto simp: hello_decode_def bind_res_eq_Inr map_err_eq_Inr decoder_new_cursor hello_counted_def split: if_splits
        dest!: hlo.reads_back)
next
  assume h: "hello_shaped h \<and> hello_validate h = Inr () \<and> bs = hello_bytes h"
  then have c: "hello_counted h" using hello_counted_valid by blast
  then have "fits [] (hello_bytes h @ [])" using length_hello_bytes by (fastforce simp: fits_def usize_max_def)
  from hlo.reads [OF c this] h show "hello_decode bs = Inr h" by (simp add: hello_decode_def decoder_new_cursor)
qed

lemma hello_round_trip:
  assumes "hello_shaped h" "hello_encode h = Inr bs"
  shows "hello_decode bs = Inr (hello_sorted h)" "length bs \<le> 1000"
proof -
  have h: "hello_shaped (hello_sorted h)" "hello_validate (hello_sorted h) = Inr ()" "bs = hello_bytes (hello_sorted h)"
    using assms by (simp_all add: hello_encode_iff hello_validate_sorted) (simp add: hello_shaped_def hello_sorted_def)
  then show "hello_decode bs = Inr (hello_sorted h)" by (simp add: hello_decode_iff)
  show "length bs \<le> 1000" using length_hello_bytes [OF hello_counted_valid [OF h(1,2)]] h(3) by simp
qed

text \<open>The order of the lists of a hello does not matter to a negotiation.\<close>

lemma negotiate_sorted:
  assumes "negotiate b a = Inr n"
  shows "negotiate b (hello_sorted a) = Inr n"
proof -
  have v: "hello_validate a = Inr ()" "hello_validate b = Inr ()" using assms by (auto simp: negotiate_def bind_res_eq_Inr)
  then have d: "distinct (map pr_protocol_id (rh_protocols a))" by (simp add: hello_validate_iff)
  have "find_protocol i (sort_ranges (rh_protocols a)) = find_protocol i (rh_protocols a)" for i
    using find_protocol_iff [OF d, of i] find_protocol_iff [of "sort_ranges (rh_protocols a)" i] d
    by (metis option.exhaust sort_ranges_facts(1,3))
  then have "agree_protocol (sort_ranges (rh_protocols a)) = agree_protocol (rh_protocols a)"
    by (simp add: agree_protocol_def fun_eq_iff)
  moreover have "hello_validate (hello_sorted a) = Inr ()" using v(1) by (simp add: hello_validate_sorted)
  moreover have sel: "set (rh_registry_versions (hello_sorted a)) = set (rh_registry_versions a)"
    "rh_protocols (hello_sorted a) = sort_ranges (rh_protocols a)" "rh_fingerprint (hello_sorted a) = rh_fingerprint a"
    "rh_network (hello_sorted a) = rh_network a" "rh_genesis_hash (hello_sorted a) = rh_genesis_hash a"
    "rh_maximum_receive_size (hello_sorted a) = rh_maximum_receive_size a"
    "rh_maximum_live_requests (hello_sorted a) = rh_maximum_live_requests a"
    "rh_feature_flags (hello_sorted a) = rh_feature_flags a"
    by (simp_all add: hello_sorted_def)
  ultimately have "negotiate b (hello_sorted a) = negotiate b a" using v unfolding negotiate_def sel by simp
  then show ?thesis using assms by simp
qed

section \<open>Envelopes\<close>

definition envelope_bytes :: "extension_envelope \<Rightarrow> bytes" where
  "envelope_bytes e = shakescape_envelope_magic @ u16_to_le (ee_registry_version e) @ u16_to_le (ee_protocol_id e) @
     u16_to_le (ee_protocol_version e) @ u16_to_le (ee_message_type e) @ u16_to_le (ee_flags e) @ u64_to_le (ee_request_id e) @
     u32_to_le (word_of_nat (length (ee_payload e))) @ ee_payload e"

lemma length_envelope_magic [simp]: "length shakescape_envelope_magic = 4"
  by (simp add: shakescape_envelope_magic_def ascii_def)

lemma read_payload_back:
  assumes "read_payload maximum w (cursor pre rest) = Inr (payload, d)"
  shows "length payload = unat w \<and> unat w \<le> maximum \<and> (\<exists>suf. rest = payload @ suf \<and> d = cursor (pre @ payload) suf)"
proof -
  have "read_bounded_vec (unat w) maximum (cursor pre rest) = Inr (payload, d)"
    using assms by (simp add: read_payload_def split: if_splits)
  from read_bounded_vec_back [OF this] show ?thesis by blast
qed

lemma read_payload_run:
  assumes "length payload = unat w" "unat w \<le> maximum" "fits pre payload"
  shows "read_payload maximum w (cursor pre payload) = Inr (payload, cursor (pre @ payload) [])"
  using assms read_bounded_vec_run [of pre payload "[]" "unat w" maximum] by (simp add: read_payload_def decoder_remaining_def)

lemma envelope_encode_iff:
  "envelope_encode e maximum = Inr bs \<longleftrightarrow> length (ee_payload e) \<le> maximum \<and> length (ee_payload e) \<le> 0xffffffff \<and>
     is_ok (classify e) \<and> bs = envelope_bytes e"
  by (auto simp: envelope_encode_def envelope_validate_size_def bind_res_eq_Inr is_ok_iff encode_with_def put_envelope_def
      envelope_bytes_def)

lemma envelope_decode_iff:
  "envelope_decode input maximum = Inr e \<longleftrightarrow> envelope_encode e maximum = Inr input"
proof
  assume "envelope_decode input maximum = Inr e"
  then obtain d where rd: "read_envelope maximum (cursor [] input) = Inr (e, d)" and c: "is_ok (classify e)"
    and d: "map_err EnvDecode (decoder_finish d) = Inr ()"
    by (auto simp: envelope_decode_def bind_res_eq_Inr decoder_new_cursor is_ok_iff)
  have u: "unat (w :: u32) \<le> 0xffffffff" for w using unat_less_pow [of w] by simp
  have "\<exists>w suf. length (ee_payload e) = unat (w :: u32) \<and> unat w \<le> maximum \<and> input = shakescape_envelope_magic @
      u16_to_le (ee_registry_version e) @ u16_to_le (ee_protocol_id e) @ u16_to_le (ee_protocol_version e) @
      u16_to_le (ee_message_type e) @ u16_to_le (ee_flags e) @ u64_to_le (ee_request_id e) @ u32_to_le w @ ee_payload e @ suf \<and>
      (\<exists>pre. d = cursor pre suf)"
    using rd
    by (auto simp: read_envelope_def dbind_eq_Inr split: if_splits
        dest!: u16.reads_back u32.reads_back u64.reads_back arr.reads_back read_payload_back)
  then obtain w where w: "length (ee_payload e) = unat (w :: u32)" "unat w \<le> maximum" "input = shakescape_envelope_magic @
      u16_to_le (ee_registry_version e) @ u16_to_le (ee_protocol_id e) @ u16_to_le (ee_protocol_version e) @
      u16_to_le (ee_message_type e) @ u16_to_le (ee_flags e) @ u64_to_le (ee_request_id e) @ u32_to_le w @ ee_payload e"
    using d by (auto simp: map_err_eq_Inr split: if_splits)
  then have "length (ee_payload e) \<le> maximum \<and> length (ee_payload e) \<le> 0xffffffff \<and> input = envelope_bytes e"
    using u [of w] by (simp add: envelope_bytes_def)
  then show "envelope_encode e maximum = Inr input" using c by (simp add: envelope_encode_iff)
next
  assume "envelope_encode e maximum = Inr input"
  then have e: "length (ee_payload e) \<le> maximum" "length (ee_payload e) \<le> 0xffffffff" "is_ok (classify e)" "input = envelope_bytes e"
    by (simp_all add: envelope_encode_iff)
  then have u: "unat (word_of_nat (length (ee_payload e)) :: u32) = length (ee_payload e)" by (simp add: unat_of_nat)
  have run: "read_envelope maximum (cursor pre (envelope_bytes e)) = Inr (e, cursor (pre @ envelope_bytes e) [])"
    if "fits pre (envelope_bytes e)" for pre
    using that e(1) u by (simp add: read_envelope_def envelope_bytes_def dbind_run read_payload_run)
  have "fits [] (envelope_bytes e)" using e(2) by (simp add: envelope_bytes_def fits_def usize_max_def)
  from run [OF this] have "read_envelope maximum (cursor [] (envelope_bytes e)) = Inr (e, cursor (envelope_bytes e) [])" by simp
  then show "envelope_decode input maximum = Inr e" using e(3,4) by (auto simp: envelope_decode_def decoder_new_cursor is_ok_iff)
qed

section \<open>The handshake\<close>

lemma registry_message_ok:
  assumes "registry_message shakescape_v1_registry_version t request_id h = Inr e" "hello_shaped h"
    and "registry_message_of t = Some m"
  shows "\<exists>bs. envelope_encode_canonical e = Inr bs \<and>
    decode_registry_message bs shakescape_v1_registry_version m = Inr (request_id, hello_sorted h)"
proof -
  obtain payload where p: "hello_encode h = Inr payload" "validate_registry_identity shakescape_v1_registry_version h = Inr ()"
    and e: "e = \<lparr>ee_registry_version = shakescape_v1_registry_version, ee_protocol_id = registry_negotiation_protocol_id,
      ee_protocol_version = registry_negotiation_protocol_version, ee_message_type = t, ee_flags = 0,
      ee_request_id = request_id, ee_payload = payload\<rparr>" and c: "is_ok (classify e)"
    using assms(1) by (auto simp: registry_message_def bind_res_eq_Inr map_err_eq_Inr Let_def is_ok_iff split: if_splits)
  note hello = hello_round_trip [OF assms(2) p(1)]
  have v: "validate_registry_identity shakescape_v1_registry_version (hello_sorted h) = Inr ()"
    using p(2) by (auto simp: validate_registry_identity_def hello_sorted_def sort_ranges_facts list_ex_iff split: if_splits)
  have m: "classify e = Inr (KnownMessageOf m)"
    using c assms(3)
    by (auto simp: e classify_def classify_message_def supported_protocol_version_def is_ok_iff split: if_splits)
  have enc: "envelope_encode_canonical e = Inr (envelope_bytes e)" "envelope_encode e registry_negotiation_max_payload = Inr (envelope_bytes e)"
    using hello(2) c unfolding envelope_encode_canonical_def envelope_encode_iff
    by (simp_all add: e shakescape_extension_max_nested_payload_def shakescape_extension_max_packet_payload_def
        shakescape_envelope_overhead_def registry_negotiation_max_payload_def)
  have "length (envelope_bytes e) \<le> shakescape_extension_max_packet_payload"
    using hello(2) by (simp add: envelope_bytes_def e shakescape_extension_max_packet_payload_def)
  then have "decode_registry_message (envelope_bytes e) shakescape_v1_registry_version m = Inr (request_id, hello_sorted h)"
    using enc(2) m hello(1) v unfolding decode_registry_message_def
    by (simp add: envelope_decode_iff [THEN iffD2]) (simp add: e)
  with enc(1) show ?thesis by blast
qed

lemma common_range:
  "max (pr_minimum_version l) (pr_minimum_version r) \<le> min (pr_maximum_version l) (pr_maximum_version r) \<and>
     v = min (pr_maximum_version l) (pr_maximum_version r) \<longleftrightarrow>
   in_range l v \<and> in_range r v \<and> (\<forall>w. in_range l w \<longrightarrow> in_range r w \<longrightarrow> w \<le> v)"
proof -
  define lo hi where "lo = max (pr_minimum_version l) (pr_minimum_version r)" and "hi = min (pr_maximum_version l) (pr_maximum_version r)"
  have both: "in_range l w \<and> in_range r w \<longleftrightarrow> lo \<le> w \<and> w \<le> hi" for w
    unfolding in_range_def lo_def hi_def max.bounded_iff min.bounded_iff by blast
  have "lo \<le> hi \<and> v = hi \<longleftrightarrow> (lo \<le> v \<and> v \<le> hi) \<and> (\<forall>w. lo \<le> w \<and> w \<le> hi \<longrightarrow> w \<le> v)"
    by (metis order_antisym order_refl order_trans)
  then show ?thesis unfolding lo_def [symmetric] hi_def [symmetric] using both by blast
qed

text \<open>
  C17: the negotiation of two peers agrees. When a negotiation succeeds on one side it succeeds with the same result on the
  other, whichever way the sides list their versions and protocols. The registry version is the largest both sides have;
  a protocol is agreed exactly when both sides have it with a common version, then at the largest common version (at
  version 1 for the registry protocol itself).
\<close>

theorem negotiation_agrees:
  assumes "negotiate a b = Inr n"
  shows "negotiate b a = Inr n \<and>
    nr_registry_version n \<in> set (rh_registry_versions a) \<inter> set (rh_registry_versions b) \<and>
    (\<forall>v \<in> set (rh_registry_versions a) \<inter> set (rh_registry_versions b). v \<le> nr_registry_version n) \<and>
    (nr_supports n i v \<longleftrightarrow> (\<exists>l \<in> set (rh_protocols a). \<exists>r \<in> set (rh_protocols b). pr_protocol_id l = i \<and> pr_protocol_id r = i \<and>
       in_range l v \<and> in_range r v \<and>
       (if i = registry_negotiation_protocol_id then v = registry_negotiation_protocol_version
        else \<forall>w. in_range l w \<longrightarrow> in_range r w \<longrightarrow> w \<le> v)))"
proof (intro conjI)
  show "negotiate b a = Inr n" by (rule negotiate_sym [OF assms])
  have "largest (filter (\<lambda>v. v \<in> set (rh_registry_versions b)) (rh_registry_versions a)) = Some (nr_registry_version n)"
    using assms by (auto simp: negotiate_def bind_res_eq_Inr ok_or_eq_Inr Let_def split: if_splits)
  then show "nr_registry_version n \<in> set (rh_registry_versions a) \<inter> set (rh_registry_versions b)"
    "\<forall>v \<in> set (rh_registry_versions a) \<inter> set (rh_registry_versions b). v \<le> nr_registry_version n"
    by (auto simp: largest_iff)
  have reg: "in_range p registry_negotiation_protocol_version"
    if "h = a \<or> h = b" "p \<in> set (rh_protocols h)" "pr_protocol_id p = registry_negotiation_protocol_id" for h p
  proof -
    have "hello_validate h = Inr ()" using assms that(1) by (auto simp: negotiate_def bind_res_eq_Inr)
    then obtain q where q: "q \<in> set (rh_protocols h)" "pr_protocol_id q = registry_negotiation_protocol_id"
      "in_range q registry_negotiation_protocol_version" and inj: "inj_on pr_protocol_id (set (rh_protocols h))"
      by (auto simp: hello_validate_iff distinct_map)
    then have "q = p" using inj_onD [OF inj, of q p] that(2,3) by simp
    with q(3) show ?thesis by simp
  qed
  have "agreed l r v \<longleftrightarrow> pr_protocol_id r = pr_protocol_id l \<and> in_range l v \<and> in_range r v \<and>
      (if pr_protocol_id l = registry_negotiation_protocol_id then v = registry_negotiation_protocol_version
       else \<forall>w. in_range l w \<longrightarrow> in_range r w \<longrightarrow> w \<le> v)"
    if "l \<in> set (rh_protocols a)" "r \<in> set (rh_protocols b)" for l r
  proof (cases "pr_protocol_id l = registry_negotiation_protocol_id")
    case True
    then show ?thesis using reg [of a l] reg [of b r] that by (auto simp: agreed_def in_range_def intro: order_trans)
  next
    case False
    then show ?thesis using common_range [of l r v] by (auto simp: agreed_def)
  qed
  then show "nr_supports n i v \<longleftrightarrow> (\<exists>l \<in> set (rh_protocols a). \<exists>r \<in> set (rh_protocols b). pr_protocol_id l = i \<and> pr_protocol_id r = i \<and>
       in_range l v \<and> in_range r v \<and>
       (if i = registry_negotiation_protocol_id then v = registry_negotiation_protocol_version
        else \<forall>w. in_range l w \<longrightarrow> in_range r w \<longrightarrow> w \<le> v))"
    unfolding negotiate_supports [OF assms] by fastforce
qed

text \<open>
  C18: the registry handshake. When the hellos of two peers can be put into a hello message and an acknowledgement and the
  peers can agree, both messages encode and decode at the other side, and each side that negotiates with what it received
  comes to the same registry.
\<close>

theorem registry_handshake:
  assumes "registry_hello_message ra a = Inr ea" "registry_hello_ack_message rb b = Inr eb" "hello_shaped a" "hello_shaped b"
    and "negotiate a b = Inr n"
  shows "\<exists>as bs a' b'. envelope_encode_canonical ea = Inr as \<and> decode_registry_hello as = Inr (ra, a') \<and>
    envelope_encode_canonical eb = Inr bs \<and> decode_registry_hello_ack bs = Inr (rb, b') \<and>
    negotiate a b' = Inr n \<and> negotiate b a' = Inr n"
proof -
  have "registry_message_of 1 = Some RegistryHello" "registry_message_of 2 = Some RegistryHelloAck"
    by (simp_all add: registry_message_of_def)
  with registry_message_ok [OF assms(1) [unfolded registry_hello_message_def] assms(3)]
    registry_message_ok [OF assms(2) [unfolded registry_hello_ack_message_def] assms(4)]
  obtain as bs where "envelope_encode_canonical ea = Inr as" "decode_registry_hello as = Inr (ra, hello_sorted a)"
    "envelope_encode_canonical eb = Inr bs" "decode_registry_hello_ack bs = Inr (rb, hello_sorted b)"
    by (auto simp: decode_registry_hello_def decode_registry_hello_ack_def)
  then show ?thesis using negotiate_sorted [OF assms(5)] negotiate_sorted [OF negotiate_sym [OF assms(5)]] by blast
qed

text \<open>
  The cross-chain market is refused in every registry hello, so no negotiation with a received hello ever supports it.
\<close>

lemma decode_registry_message_identity:
  assumes "decode_registry_message input version m = Inr (r, a)"
  shows "validate_registry_identity version a = Inr ()"
proof (cases "envelope_decode input registry_negotiation_max_payload")
  case (Inl e)
  then show ?thesis using assms by (simp add: decode_registry_message_def split: if_splits)
next
  case e: (Inr e)
  show ?thesis
  proof (cases "classify e")
    case (Inl x)
    then show ?thesis using assms e by (simp add: decode_registry_message_def split: if_splits)
  next
    case (Inr x)
    then show ?thesis using assms e
      by (cases x) (auto simp: decode_registry_message_def bind_res_eq_Inr split: if_splits)
  qed
qed

lemma cross_chain_never_negotiated:
  assumes "decode_registry_hello input = Inr (r, a)" "negotiate b a = Inr n"
  shows "\<not> nr_supports n cross_chain_market_protocol_id v"
proof -
  have "validate_registry_identity shakescape_v1_registry_version a = Inr ()"
    by (rule decode_registry_message_identity) (rule assms(1) [unfolded decode_registry_hello_def])
  then have "\<forall>p \<in> set (rh_protocols a). pr_protocol_id p \<noteq> cross_chain_market_protocol_id"
    by (auto simp: validate_registry_identity_def list_ex_iff split: if_splits)
  then show ?thesis using negotiate_supports [OF assms(2), of cross_chain_market_protocol_id v] by (auto dest: agreed_id)
qed

section \<open>Examples\<close>

definition sample_hello :: "u16 \<Rightarrow> u32 \<Rightarrow> registry_hello" where
  "sample_hello highest size_limit = \<lparr>rh_fingerprint = shakescape_v1_registry_fingerprint, rh_registry_versions = [1],
     rh_protocols = [\<lparr>pr_protocol_id = 1, pr_minimum_version = 1, pr_maximum_version = highest\<rparr>,
       \<lparr>pr_protocol_id = 0, pr_minimum_version = 1, pr_maximum_version = 1\<rparr>],
     rh_maximum_receive_size = size_limit, rh_maximum_live_requests = 8, rh_network = ExpRegtest,
     rh_genesis_hash = replicate 32 7, rh_feature_flags = 0\<rparr>"

definition sample_negotiated :: negotiated_registry where
  "sample_negotiated = \<lparr>nr_fingerprint = shakescape_v1_registry_fingerprint, nr_registry_version = 1,
     nr_protocols = [(0, 1), (1, 3)], nr_maximum_send_size = 1000, nr_maximum_live_requests = 8, nr_network = ExpRegtest,
     nr_genesis_hash = replicate 32 7, nr_feature_flags = 0\<rparr>"

lemma sample_negotiation: "negotiate (sample_hello 3 1000) (sample_hello 5 2000) = Inr sample_negotiated"
  by code_simp

theorem negotiation_agrees_witness:
  "negotiate (sample_hello 5 2000) (sample_hello 3 1000) = Inr sample_negotiated \<and> nr_supports sample_negotiated 1 3"
proof -
  have "nr_supports sample_negotiated 1 3" by code_simp
  with negotiation_agrees [OF sample_negotiation] show ?thesis by blast
qed

theorem registry_handshake_witness:
  "\<exists>as a'. decode_registry_hello as = Inr (7, a') \<and> negotiate (sample_hello 5 2000) a' = Inr sample_negotiated"
proof -
  obtain ea eb where "registry_hello_message 7 (sample_hello 3 1000) = Inr ea" "registry_hello_ack_message 7 (sample_hello 5 2000) = Inr eb"
  proof -
    have "is_ok (registry_hello_message 7 (sample_hello 3 1000))" "is_ok (registry_hello_ack_message 7 (sample_hello 5 2000))"
      by code_simp+
    then show ?thesis using that by (auto simp: is_ok_iff)
  qed
  moreover have "hello_shaped (sample_hello 3 1000)" "hello_shaped (sample_hello 5 2000)" by code_simp+
  ultimately show ?thesis using registry_handshake [OF _ _ _ _ sample_negotiation] by blast
qed

end
