(* ===== verification/RegistryProofs.thy ===== *)
theory RegistryProofs
  imports Registry NegotiationProofs
begin

text \<open>
  The registry of experimental assignments: numbers are assigned once and as the code uses them, and the canonical binary
  form of a document is unique.
\<close>

section \<open>Numbers\<close>

definition covers :: "registry_assignment \<Rightarrow> u64 \<Rightarrow> bool" where
  "covers a v \<longleftrightarrow> ra_value a \<le> v \<and> v \<le> assignment_end a"

lemma check_pair_iff:
  "check_pair l r = Inr () \<longleftrightarrow>
     \<not> (ra_kind l = ra_kind r \<and> ra_value l \<le> assignment_end r \<and> ra_value r \<le> assignment_end l) \<and>
     ra_semantic_name l \<noteq> ra_semantic_name r"
  by (auto simp: check_pair_def)

lemma check_assignment_pairs_iff:
  "check_assignment_pairs xs = Inr () \<longleftrightarrow> sorted_wrt (\<lambda>l r. check_pair l r = Inr ()) xs"
  by (induction xs) (auto simp: bind_res_eq_Inr iter_res_iff)

lemma check_pair_sym: "check_pair l r = Inr () \<Longrightarrow> check_pair r l = Inr ()"
  by (auto simp: check_pair_iff)

lemma sorted_wrt_pair:
  assumes "sorted_wrt P xs" "\<And>x y. P x y \<Longrightarrow> P y x" "x \<in> set xs" "y \<in> set xs" "x \<noteq> y"
  shows "P x y"
  using assms by (induction xs) auto

lemma document_validate_parts:
  assumes "document_validate d = Inr ()"
  shows "metadata_validate (rd_registry d) = Inr ()" "rd_assignments d \<noteq> []" "length (rd_assignments d) \<le> max_assignments"
    "\<forall>a \<in> set (rd_assignments d). assignment_validate (rd_registry d) a = Inr ()"
    "sorted_wrt (\<lambda>l r. check_pair l r = Inr ()) (rd_assignments d)"
  using assms
  by (auto simp: document_validate_def bind_res_eq_Inr iter_res_iff check_assignment_pairs_iff split: if_splits)

lemma document_validate_required:
  assumes "document_validate d = Inr ()" "rm_name (rd_registry d) \<noteq> hnsr_profile_registry_name"
  shows "iter_res (require_assignment d) shakescape_requirements = Inr ()"
  using assms by (auto simp: document_validate_def bind_res_eq_Inr split: if_splits)

lemma covers_unique:
  assumes "document_validate d = Inr ()" "a \<in> set (rd_assignments d)" "b \<in> set (rd_assignments d)"
    and "ra_kind a = ra_kind b" "covers a v" "covers b v"
  shows "a = b"
proof (rule ccontr)
  assume "a \<noteq> b"
  then have "check_pair a b = Inr ()"
    using sorted_wrt_pair [OF document_validate_parts(5) [OF assms(1)] check_pair_sym assms(2,3)] by simp
  moreover have "ra_value a \<le> assignment_end b" "ra_value b \<le> assignment_end a"
    using assms(5,6) by (auto simp: covers_def intro: order_trans)
  ultimately show False using assms(4) by (simp add: check_pair_iff)
qed

text \<open>The numbers the code of the extension uses, with the names the registry must give them.\<close>

definition assigned_numbers :: "(string \<times> assignment_kind \<times> u64) list" where
  "assigned_numbers =
     [(''hnsr-rendezvous-service'', ServiceBitKind, hnsr_rendezvous_service),
      (''hnsr-relay-service'', ServiceBitKind, hnsr_relay_service),
      (''shakescape-extension-service'', ServiceBitKind, shakescape_extension_service),
      (''p2p-odoh-service'', ServiceBitKind, odoh_service), (''p2p-dns-relay-service'', ServiceBitKind, dns_relay_service),
      (''getdnsrelay'', PacketTypeKind, ucast dns_relay_request_packet),
      (''dnsrelay'', PacketTypeKind, ucast dns_relay_response_packet), (''odns'', PacketTypeKind, ucast odoh_packet),
      (''hnsr'', PacketTypeKind, ucast hnsr_packet),
      (''shakescape-ext'', PacketTypeKind, ucast shakescape_extension_packet),
      (''registry-negotiation'', ProtocolIdKind, ucast registry_negotiation_protocol_id),
      (''atomic-name-marketplace'', ProtocolIdKind, ucast atomic_market_protocol_id),
      (''cross-chain-marketplace'', ProtocolIdKind, ucast cross_chain_market_protocol_id)]"

lemma assigned_numbers_required: "assigned_numbers = shakescape_requirements"
  by code_simp

text \<open>
  C27: numbers of the registry. In a valid document two assignments of one kind never cover the same number, and in a
  Shakescape registry every service bit, packet number and protocol identifier the code of the extension uses is assigned
  to the name it stands for, as a single number, and to nothing else.
\<close>

theorem registry_numbers_unique:
  assumes "document_validate d = Inr ()"
  shows "(a \<in> set (rd_assignments d) \<longrightarrow> b \<in> set (rd_assignments d) \<longrightarrow> ra_kind a = ra_kind b \<longrightarrow> covers a v \<longrightarrow> covers b v \<longrightarrow> a = b) \<and>
    (rm_name (rd_registry d) = shakescape_v1_registry_name \<longrightarrow> (name, kind, w) \<in> set assigned_numbers \<longrightarrow>
      (\<exists>!a. a \<in> set (rd_assignments d) \<and> ra_kind a = kind \<and> covers a w) \<and>
      (\<exists>a \<in> set (rd_assignments d). ra_kind a = kind \<and> ra_value a = w \<and> ra_range_end a = None \<and> ra_semantic_name a = ascii name))"
proof (intro conjI impI)
  assume "a \<in> set (rd_assignments d)" "b \<in> set (rd_assignments d)" "ra_kind a = ra_kind b" "covers a v" "covers b v"
  then show "a = b" using covers_unique [OF assms] by blast
next
  assume n: "rm_name (rd_registry d) = shakescape_v1_registry_name" and w: "(name, kind, w) \<in> set assigned_numbers"
  have "shakescape_v1_registry_name \<noteq> hnsr_profile_registry_name"
    by (auto dest!: arg_cong [of _ _ length] simp: shakescape_v1_registry_name_def hnsr_profile_registry_name_def ascii_def)
  then have "iter_res (require_assignment d) assigned_numbers = Inr ()"
    unfolding assigned_numbers_required by (intro document_validate_required [OF assms]) (simp add: n)
  then have "require_assignment d (name, kind, w) = Inr ()" using w unfolding iter_res_iff by (rule bspec)
  then show ex: "\<exists>a \<in> set (rd_assignments d). ra_kind a = kind \<and> ra_value a = w \<and> ra_range_end a = None \<and> ra_semantic_name a = ascii name"
    by (auto simp: require_assignment_def list_ex_iff split: if_splits)
  then obtain a where a: "a \<in> set (rd_assignments d)" "ra_kind a = kind" "covers a w"
    by (auto simp: covers_def assignment_end_def)
  show "\<exists>!a. a \<in> set (rd_assignments d) \<and> ra_kind a = kind \<and> covers a w"
  proof (rule ex1I [of _ a])
    show "a \<in> set (rd_assignments d) \<and> ra_kind a = kind \<and> covers a w" using a by blast
    show "b = a" if "b \<in> set (rd_assignments d) \<and> ra_kind b = kind \<and> covers b w" for b
      using covers_unique [OF assms, of b a w] that a by simp
  qed
qed

text \<open>A registry with exactly the required assignments.\<close>

definition sample_assignment :: "string \<Rightarrow> assignment_kind \<Rightarrow> u64 \<Rightarrow> u64 option \<Rightarrow> assignment_status \<Rightarrow> registry_assignment" where
  "sample_assignment name kind v range_end status = \<lparr>ra_semantic_name = ascii name, ra_kind = kind, ra_value = v, ra_range_end = range_end,
     ra_registry_version = 1, ra_protocol_version = 1, ra_status = status, ra_owner = ascii ''o'',
     ra_source_proposal_url = ascii ''u'', ra_source_implementation_url = ascii ''u'', ra_network_applicability = [ExpMainnet],
     ra_maximum_payload = 0, ra_security_classification = ascii ''s'', ra_first_supported_release = ascii ''r'',
     ra_deprecation_state = ascii ''d'', ra_replacement_assignment = None\<rparr>"

definition sample_registry :: registry_document where
  "sample_registry = \<lparr>rd_registry = \<lparr>rm_name = shakescape_v1_registry_name, rm_version = 1, rm_protocol_version = 1,
       rm_status = StStableExperimental, rm_owner = ascii ''o'', rm_wire_profile = shakescape_v1_wire_profile\<rparr>,
     rd_assignments = map (\<lambda>(name, kind, v). sample_assignment name kind v None StStableExperimental) assigned_numbers @
       [sample_assignment ''reserved-protocols-0x0003-0xffff'' ProtocolIdKind 3 (Some 0xffff) StReserved]\<rparr>"

lemma sample_assignment_fields:
  "ra_semantic_name (sample_assignment name kind v r st) = ascii name" "ra_kind (sample_assignment name kind v r st) = kind"
  "ra_value (sample_assignment name kind v r st) = v" "ra_range_end (sample_assignment name kind v r st) = r"
  "ra_status (sample_assignment name kind v r st) = st" "ra_registry_version (sample_assignment name kind v r st) = 1"
  "ra_protocol_version (sample_assignment name kind v r st) = 1"
  "ra_network_applicability (sample_assignment name kind v r st) = [ExpMainnet]"
  "ra_owner (sample_assignment name kind v r st) = ascii ''o''"
  "ra_source_proposal_url (sample_assignment name kind v r st) = ascii ''u''"
  "ra_source_implementation_url (sample_assignment name kind v r st) = ascii ''u''"
  "ra_security_classification (sample_assignment name kind v r st) = ascii ''s''"
  "ra_first_supported_release (sample_assignment name kind v r st) = ascii ''r''"
  "ra_deprecation_state (sample_assignment name kind v r st) = ascii ''d''"
  "ra_replacement_assignment (sample_assignment name kind v r st) = None"
  by (simp_all add: sample_assignment_def)

lemma sample_registry_required:
  "require_assignment sample_registry x = Inr ()" if "x \<in> set shakescape_requirements"
proof -
  obtain name kind v where x: "x = (name, kind, v)" by (cases x)
  have "sample_assignment name kind v None StStableExperimental \<in> set (rd_assignments sample_registry)"
    using that image_eqI [of _ "\<lambda>(name, kind, v). sample_assignment name kind v None StStableExperimental" "(name, kind, v)"]
    unfolding x assigned_numbers_required [symmetric] by (simp add: sample_registry_def)
  then show ?thesis unfolding x require_assignment_def list_ex_iff
    by (auto intro: bexI [of _ "sample_assignment name kind v None StStableExperimental"] simp: sample_assignment_fields)
qed

lemma count_ones_power: "n < 64 \<Longrightarrow> count_ones (2 ^ n) = 1"
proof -
  assume "n < 64"
  then have "{i. i < 64 \<and> bit (2 ^ n :: u64) ([0..<64] ! i)} = {n}" by (auto simp: bit_simps)
  then show ?thesis by (simp add: count_ones_def length_filter_conv_card)
qed

lemma sample_assignment_valid:
  assumes "name \<noteq> []" "length name \<le> max_field_length" "assignment_end (sample_assignment name kind v r st) \<ge> v"
    and "assignment_end (sample_assignment name kind v r st) \<le> kind_maximum kind"
    and "kind = ServiceBitKind \<longrightarrow> r = None \<and> count_ones v = 1" "r \<noteq> None \<longrightarrow> st = StReserved"
  shows "assignment_validate (rd_registry sample_registry) (sample_assignment name kind v r st) = Inr ()"
proof -
  have f: "iter_res (\<lambda>(field, v). validate_field field v) (assignment_fields (sample_assignment name kind v r st)) = Inr ()"
    using assms(1,2) by (simp add: assignment_fields_def sample_assignment_fields validate_field_def ascii_def max_field_length_def)
  have v: "rm_version (rd_registry sample_registry) = 1" "rm_protocol_version (rd_registry sample_registry) = 1"
    by (simp_all add: sample_registry_def)
  show ?thesis unfolding assignment_validate_def f v sample_assignment_fields using assms(3-6) by (auto simp: not_less)
qed

lemma sample_registry_assignments:
  "a \<in> set (rd_assignments sample_registry) \<Longrightarrow> assignment_validate (rd_registry sample_registry) a = Inr ()"
proof -
  have "count_ones 0x04000000 = 1" "count_ones 0x08000000 = 1" "count_ones 0x10000000 = 1" "count_ones 0x20000000 = 1"
    "count_ones 0x40000000 = 1"
    using count_ones_power [of 26] count_ones_power [of 27] count_ones_power [of 28] count_ones_power [of 29] count_ones_power [of 30]
    by simp_all
  then have "\<forall>(name, kind, v) \<in> set assigned_numbers. name \<noteq> [] \<and> length name \<le> max_field_length \<and> v \<le> kind_maximum kind \<and>
      (kind = ServiceBitKind \<longrightarrow> count_ones v = 1)"
    unfolding assigned_numbers_required by (simp add: shakescape_requirements_def max_field_length_def)
  then have valid: "assignment_validate (rd_registry sample_registry) (sample_assignment name kind v None StStableExperimental) = Inr ()"
    if "(name, kind, v) \<in> set assigned_numbers" for name kind v
    using that by (intro sample_assignment_valid) (auto simp: assignment_end_def sample_assignment_fields)
  have reserved: "assignment_validate (rd_registry sample_registry)
      (sample_assignment ''reserved-protocols-0x0003-0xffff'' ProtocolIdKind 3 (Some 0xffff) StReserved) = Inr ()"
    by (rule sample_assignment_valid) (simp_all add: assignment_end_def sample_assignment_fields max_field_length_def)
  assume "a \<in> set (rd_assignments sample_registry)"
  then consider name kind v where "(name, kind, v) \<in> set assigned_numbers" "a = sample_assignment name kind v None StStableExperimental"
    | "a = sample_assignment ''reserved-protocols-0x0003-0xffff'' ProtocolIdKind 3 (Some 0xffff) StReserved"
    by (auto simp: sample_registry_def)
  then show "assignment_validate (rd_registry sample_registry) a = Inr ()" using valid reserved by cases simp_all
qed

lemma ascii_inject: "ascii s = ascii t \<longleftrightarrow> s = t"
proof
  have "inj (of_char :: char \<Rightarrow> byte)"
  proof (rule injI)
    fix c d :: char
    assume "of_char c = (of_char d :: byte)"
    then have "unat (word_of_nat (of_char c) :: byte) = unat (word_of_nat (of_char d) :: byte)"
      by (simp only: of_nat_of_char)
    then have "(of_char c :: nat) mod 256 = of_char d mod 256" by (simp only: unat_of_nat) simp
    then show "c = d" by simp
  qed
  then show "ascii s = ascii t \<Longrightarrow> s = t" by (simp add: ascii_def)
qed simp

lemma check_sample_pair:
  "check_pair (sample_assignment n k v r st) (sample_assignment n' k' v' r' st') = Inr () \<longleftrightarrow>
     \<not> (k = k' \<and> v \<le> (case r' of Some e \<Rightarrow> e | None \<Rightarrow> v') \<and> v' \<le> (case r of Some e \<Rightarrow> e | None \<Rightarrow> v)) \<and> n \<noteq> n'"
  by (cases r; cases r') (simp_all add: check_pair_iff assignment_end_def sample_assignment_fields ascii_inject)

lemma sample_registry_pairs: "check_assignment_pairs (rd_assignments sample_registry) = Inr ()"
  unfolding check_assignment_pairs_iff sample_registry_def assigned_numbers_required shakescape_requirements_def
  by (simp add: check_sample_pair word_le_nat_alt)

lemma registry_name_lengths:
  "length shakescape_v1_registry_name = 46" "length shakescape_v1_wire_profile = 13" "length hnsr_profile_registry_name \<noteq> 46"
  by (simp_all add: shakescape_v1_registry_name_def shakescape_v1_wire_profile_def hnsr_profile_registry_name_def ascii_def)

lemma sample_registry_valid: "document_validate sample_registry = Inr ()"
proof -
  have "shakescape_v1_registry_name \<noteq> []" "shakescape_v1_wire_profile \<noteq> []" using registry_name_lengths by auto
  then have "metadata_validate (rd_registry sample_registry) = Inr ()"
    using registry_name_lengths
    by (simp add: metadata_validate_def sample_registry_def validate_field_def max_field_length_def ascii_def
        shakescape_v1_registry_version_def shakescape_v1_registry_protocol_version_def)
  moreover have "rd_assignments sample_registry \<noteq> [] \<and> \<not> length (rd_assignments sample_registry) > max_assignments"
    by (simp add: sample_registry_def assigned_numbers_def max_assignments_def)
  moreover have "iter_res (assignment_validate (rd_registry sample_registry)) (rd_assignments sample_registry) = Inr ()"
    unfolding iter_res_iff using sample_registry_assignments by blast
  moreover have "rm_name (rd_registry sample_registry) \<noteq> hnsr_profile_registry_name"
    using registry_name_lengths by (auto simp: sample_registry_def)
  moreover have "iter_res (require_assignment sample_registry) shakescape_requirements = Inr ()"
    unfolding iter_res_iff using sample_registry_required by blast
  moreover have "require_assignment_range sample_registry ''reserved-protocols-0x0003-0xffff'' ProtocolIdKind 3 0xffff = Inr ()"
    by (simp add: require_assignment_range_def sample_registry_def sample_assignment_def)
  ultimately show ?thesis unfolding document_validate_def using sample_registry_pairs by simp
qed

theorem registry_numbers_unique_witness:
  "\<exists>a. list_all (\<lambda>b. ra_kind b = PacketTypeKind \<and> covers b 0xf4 \<longleftrightarrow> b = a) (rd_assignments sample_registry) \<and>
     ra_semantic_name a = ascii ''shakescape-ext''"
proof -
  have "rm_name (rd_registry sample_registry) = shakescape_v1_registry_name" by (simp add: sample_registry_def)
  moreover have "(''shakescape-ext'', PacketTypeKind, 0xf4) \<in> set assigned_numbers" by code_simp
  ultimately have "(\<exists>!a. a \<in> set (rd_assignments sample_registry) \<and> ra_kind a = PacketTypeKind \<and> covers a 0xf4) \<and>
      (\<exists>a \<in> set (rd_assignments sample_registry). ra_kind a = PacketTypeKind \<and> ra_value a = 0xf4 \<and> ra_range_end a = None \<and>
        ra_semantic_name a = ascii ''shakescape-ext'')"
    by (rule mp [OF mp [OF conjunct2 [OF registry_numbers_unique [OF sample_registry_valid]]]])
  then have u: "\<exists>!a. a \<in> set (rd_assignments sample_registry) \<and> ra_kind a = PacketTypeKind \<and> covers a 0xf4"
    and ex: "\<exists>a \<in> set (rd_assignments sample_registry). ra_kind a = PacketTypeKind \<and> ra_value a = 0xf4 \<and> ra_range_end a = None \<and>
      ra_semantic_name a = ascii ''shakescape-ext''" by (rule conjunct1, rule conjunct2)
  from ex obtain a where a: "a \<in> set (rd_assignments sample_registry)" "ra_kind a = PacketTypeKind"
    "ra_semantic_name a = ascii ''shakescape-ext''" and v: "ra_value a = 0xf4" "ra_range_end a = None" by (elim bexE conjE)
  have "covers a 0xf4" using v by (simp add: covers_def assignment_end_def)
  then have "list_all (\<lambda>b. ra_kind b = PacketTypeKind \<and> covers b 0xf4 \<longleftrightarrow> b = a) (rd_assignments sample_registry)"
    unfolding list_all_iff using u a(1,2) by blast
  then show ?thesis using a(3) by blast
qed

section \<open>The canonical form\<close>

definition text_ok :: "bytes \<Rightarrow> bool" where
  "text_ok s \<longleftrightarrow> s \<noteq> [] \<and> length s \<le> max_field_length \<and> utf8_valid s"

definition text_bytes :: "bytes \<Rightarrow> bytes" where
  "text_bytes s = u16_to_le (word_of_nat (length s)) @ s"

interpretation txts: codec text_bytes read_string text_ok
proof
  fix s pre suf
  assume s: "text_ok s" and "fits pre (text_bytes s @ suf)"
  moreover have "unat (word_of_nat (length s) :: u16) = length s"
    using s by (simp add: text_ok_def max_field_length_def unat_of_nat)
  ultimately show "read_string (cursor pre (text_bytes s @ suf)) = Inr (s, cursor (pre @ text_bytes s) suf)"
    by (simp add: read_string_def text_bytes_def text_ok_def dbind_run)
next
  fix pre rest s d'
  assume "read_string (cursor pre rest) = Inr (s, d')"
  then obtain w d1 where w: "read_u16_le (cursor pre rest) = Inr (w, d1)" "unat w \<noteq> 0" "unat w \<le> max_field_length"
    and r: "read_bounded_vec (unat w) max_field_length d1 = Inr (s, d')" and u: "utf8_valid s"
    by (auto simp: read_string_def dbind_eq_Inr split: if_splits)
  from u16.reads_back [OF w(1)] obtain suf where d1: "rest = u16_to_le w @ suf" "d1 = cursor (pre @ u16_to_le w) suf" by blast
  from read_bounded_vec_back [OF r [unfolded d1(2)]] d1 w u
  show "text_ok s \<and> (\<exists>suf. rest = text_bytes s @ suf \<and> d' = cursor (pre @ text_bytes s) suf)"
    by (auto simp: text_ok_def text_bytes_def)
qed

definition flagged_bytes :: "('a \<Rightarrow> bytes) \<Rightarrow> 'a option \<Rightarrow> bytes" where
  "flagged_bytes enc x = (case x of None \<Rightarrow> [0] | Some v \<Rightarrow> 1 # enc v)"

interpretation opts: codec "flagged_bytes text_bytes" read_optional_string "pred_option text_ok"
proof
  fix x pre suf
  assume "pred_option text_ok x" "fits pre (flagged_bytes text_bytes x @ suf)"
  then show "read_optional_string (cursor pre (flagged_bytes text_bytes x @ suf)) = Inr (x, cursor (pre @ flagged_bytes text_bytes x) suf)"
    by (cases x) (simp_all add: read_optional_string_def flagged_bytes_def dbind_run txts.reads)
next
  fix pre rest x d'
  assume "read_optional_string (cursor pre rest) = Inr (x, d')"
  then show "pred_option text_ok x \<and> (\<exists>suf. rest = flagged_bytes text_bytes x @ suf \<and> d' = cursor (pre @ flagged_bytes text_bytes x) suf)"
    by (auto simp: read_optional_string_def dbind_eq_Inr flagged_bytes_def split: if_splits dest!: read_u8_back txts.reads_back)
qed

interpretation rend: codec "flagged_bytes u64_to_le" read_range_end "\<lambda>_. True"
proof
  fix x pre suf
  assume "fits pre (flagged_bytes u64_to_le x @ suf)"
  then show "read_range_end (cursor pre (flagged_bytes u64_to_le x @ suf)) = Inr (x, cursor (pre @ flagged_bytes u64_to_le x) suf)"
    by (cases x) (simp_all add: read_range_end_def flagged_bytes_def dbind_run)
next
  fix pre rest x d'
  assume "read_range_end (cursor pre rest) = Inr (x, d')"
  then show "True \<and> (\<exists>suf. rest = flagged_bytes u64_to_le x @ suf \<and> d' = cursor (pre @ flagged_bytes u64_to_le x) suf)"
    by (auto simp: read_range_end_def dbind_eq_Inr flagged_bytes_def split: if_splits dest!: read_u8_back u64.reads_back)
qed

text \<open>Enumerations of one byte.\<close>

lemma codec_enum:
  assumes "\<And>v. f (g v) = Inr v" "\<And>b v. f b = Inr v \<Longrightarrow> b = g v"
  shows "codec (\<lambda>v. [g v]) (dbind (dlift wrap read_u8) (\<lambda>b. dcheck (f b))) (\<lambda>_. True)"
proof
  fix v pre suf
  assume "fits pre ([g v] @ suf)"
  then show "dbind (dlift wrap read_u8) (\<lambda>b. dcheck (f b)) (cursor pre ([g v] @ suf)) = Inr (v, cursor (pre @ [g v]) suf)"
    by (simp add: dbind_run assms(1))
next
  fix pre rest v d'
  assume "dbind (dlift wrap read_u8) (\<lambda>b. dcheck (f b)) (cursor pre rest) = Inr (v, d')"
  then show "True \<and> (\<exists>suf. rest = [g v] @ suf \<and> d' = cursor (pre @ [g v]) suf)"
    by (auto simp: dbind_eq_Inr bind_res_eq_Inr dest!: read_u8_back assms(2))
qed

interpretation knd: codec "\<lambda>k. [assignment_kind_byte k]" read_kind "\<lambda>_. True"
proof -
  have "assignment_kind_try_from (assignment_kind_byte k) = Inr k" for k by (cases k) (simp_all add: assignment_kind_try_from_def)
  moreover have "assignment_kind_try_from b = Inr k \<Longrightarrow> b = assignment_kind_byte k" for b k
    by (auto simp: assignment_kind_try_from_def split: if_splits)
  ultimately show "codec (\<lambda>k. [assignment_kind_byte k]) read_kind (\<lambda>_. True)" unfolding read_kind_def by (rule codec_enum)
qed

interpretation sta: codec "\<lambda>k. [assignment_status_byte k]" read_status "\<lambda>_. True"
proof -
  have "assignment_status_try_from (assignment_status_byte k) = Inr k" for k by (cases k) (simp_all add: assignment_status_try_from_def)
  moreover have "assignment_status_try_from b = Inr k \<Longrightarrow> b = assignment_status_byte k" for b k
    by (auto simp: assignment_status_try_from_def split: if_splits)
  ultimately show "codec (\<lambda>k. [assignment_status_byte k]) read_status (\<lambda>_. True)" unfolding read_status_def by (rule codec_enum)
qed

interpretation anet: codec "\<lambda>n. [exp_network_byte n]" read_assignment_network "\<lambda>_. True"
proof
  fix n pre suf
  assume "fits pre ([exp_network_byte n] @ suf)"
  then show "read_assignment_network (cursor pre ([exp_network_byte n] @ suf)) = Inr (n, cursor (pre @ [exp_network_byte n]) suf)"
    by (simp add: read_assignment_network_def dbind_run exp_network_round)
next
  fix pre rest n d'
  assume "read_assignment_network (cursor pre rest) = Inr (n, d')"
  then show "True \<and> (\<exists>suf. rest = [exp_network_byte n] @ suf \<and> d' = cursor (pre @ [exp_network_byte n]) suf)"
    by (auto simp: read_assignment_network_def dbind_eq_Inr bind_res_eq_Inr map_err_eq_Inr dest!: read_u8_back exp_network_back)
qed

definition assignment_texts :: "registry_assignment \<Rightarrow> bytes list" where
  "assignment_texts a = [ra_semantic_name a, ra_owner a, ra_source_proposal_url a, ra_source_implementation_url a,
     ra_security_classification a, ra_first_supported_release a, ra_deprecation_state a]"

definition assignment_bytes :: "registry_assignment \<Rightarrow> bytes" where
  "assignment_bytes a = [assignment_kind_byte (ra_kind a)] @ [assignment_status_byte (ra_status a)] @ u64_to_le (ra_value a) @
     flagged_bytes u64_to_le (ra_range_end a) @ u16_to_le (ra_registry_version a) @ u16_to_le (ra_protocol_version a) @
     u32_to_le (ra_maximum_payload a) @ concat (map text_bytes (assignment_texts a)) @
     flagged_bytes text_bytes (ra_replacement_assignment a) @ [word_of_nat (length (ra_network_applicability a))] @
     concat (map (\<lambda>n. [exp_network_byte n]) (ra_network_applicability a))"

definition assignment_shaped :: "registry_assignment \<Rightarrow> bool" where
  "assignment_shaped a \<longleftrightarrow> list_all text_ok (assignment_texts a) \<and> pred_option text_ok (ra_replacement_assignment a) \<and>
     ra_network_applicability a \<noteq> [] \<and> length (ra_network_applicability a) \<le> 4"

interpretation asg: codec assignment_bytes read_assignment assignment_shaped
proof
  fix a pre suf
  assume a: "assignment_shaped a" and "fits pre (assignment_bytes a @ suf)"
  moreover have "unat (word_of_nat (length (ra_network_applicability a)) :: byte) = length (ra_network_applicability a)"
    using a by (intro small_count) (simp add: assignment_shaped_def)
  ultimately show "read_assignment (cursor pre (assignment_bytes a @ suf)) = Inr (a, cursor (pre @ assignment_bytes a) suf)"
    using knd.reads [OF TrueI, simplified] sta.reads [OF TrueI, simplified] anet.times_reads [of "ra_network_applicability a"]
    by (simp add: read_assignment_def assignment_bytes_def assignment_shaped_def assignment_texts_def dbind_run rend.reads
        txts.reads opts.reads)
next
  fix pre rest a d'
  assume "read_assignment (cursor pre rest) = Inr (a, d')"
  then show "assignment_shaped a \<and> (\<exists>suf. rest = assignment_bytes a @ suf \<and> d' = cursor (pre @ assignment_bytes a) suf)"
    by (auto simp: read_assignment_def dbind_eq_Inr assignment_bytes_def assignment_shaped_def assignment_texts_def split: if_splits
        dest!: knd.reads_back sta.reads_back rend.reads_back read_u8_back u16.reads_back u32.reads_back u64.reads_back
          txts.reads_back opts.reads_back anet.times_back)
qed

definition metadata_texts :: "registry_metadata \<Rightarrow> bytes list" where
  "metadata_texts m = [rm_name m, rm_owner m, rm_wire_profile m]"

definition document_bytes :: "registry_document \<Rightarrow> bytes" where
  "document_bytes d = registry_magic @ u16_to_le canonical_format_version @ u16_to_le (rm_version (rd_registry d)) @
     u16_to_le (rm_protocol_version (rd_registry d)) @ [assignment_status_byte (rm_status (rd_registry d))] @
     concat (map text_bytes (metadata_texts (rd_registry d))) @ u16_to_le (word_of_nat (length (rd_assignments d))) @
     concat (map assignment_bytes (rd_assignments d))"

definition document_shaped :: "registry_document \<Rightarrow> bool" where
  "document_shaped d \<longleftrightarrow> list_all text_ok (metadata_texts (rd_registry d)) \<and> (\<forall>a \<in> set (rd_assignments d). assignment_shaped a) \<and>
     rd_assignments d \<noteq> [] \<and> length (rd_assignments d) \<le> max_assignments"

lemma length_registry_magic [simp]: "length registry_magic = 4"
  by (simp add: registry_magic_def ascii_def)

interpretation doc: codec document_bytes read_document document_shaped
proof
  fix d pre suf
  assume d: "document_shaped d" and "fits pre (document_bytes d @ suf)"
  moreover have "unat (word_of_nat (length (rd_assignments d)) :: u16) = length (rd_assignments d)"
    using d by (simp add: document_shaped_def max_assignments_def unat_of_nat)
  ultimately show "read_document (cursor pre (document_bytes d @ suf)) = Inr (d, cursor (pre @ document_bytes d) suf)"
    using sta.reads [OF TrueI, simplified]
    by (simp add: read_document_def document_bytes_def document_shaped_def metadata_texts_def dbind_run txts.reads asg.times_reads)
next
  fix pre rest d d'
  assume "read_document (cursor pre rest) = Inr (d, d')"
  then show "document_shaped d \<and> (\<exists>suf. rest = document_bytes d @ suf \<and> d' = cursor (pre @ document_bytes d) suf)"
    by (auto simp: read_document_def dbind_eq_Inr document_bytes_def document_shaped_def metadata_texts_def split: if_splits
        dest!: sta.reads_back u16.reads_back arr.reads_back txts.reads_back asg.times_back)
qed

text \<open>What the encoder writes for a valid document.\<close>

definition canonical_assignment :: "registry_assignment \<Rightarrow> registry_assignment" where
  "canonical_assignment a = a\<lparr>ra_network_applicability := canonical_networks (ra_network_applicability a)\<rparr>"

definition canonical_document :: "registry_document \<Rightarrow> registry_document" where
  "canonical_document d = d\<lparr>rd_assignments := map canonical_assignment (sort_assignments (rd_assignments d))\<rparr>"

lemma put_string_ok:
  assumes "validate_field field s = Inr ()"
  shows "\<exists>e'. put_string s e = Inr e' \<and> into_bytes e' = into_bytes e @ text_bytes s"
  using assms by (auto simp: put_string_def validate_field_def text_bytes_def max_field_length_def split: if_splits)

lemma put_strings_ok:
  assumes "\<forall>s \<in> set ss. \<exists>field. validate_field field s = Inr ()"
  shows "\<exists>e'. put_strings ss e = Inr e' \<and> into_bytes e' = into_bytes e @ concat (map text_bytes ss)"
  using assms
proof (induction ss arbitrary: e)
  case (Cons s ss)
  then obtain field where "validate_field field s = Inr ()" by auto
  from put_string_ok [OF this, of e] obtain e1 where "put_string s e = Inr e1" "into_bytes e1 = into_bytes e @ text_bytes s" by blast
  with Cons show ?case by (fastforce simp: bind_res_eq_Inr)
qed simp

lemma put_optional_string_ok:
  assumes "\<forall>s. x = Some s \<longrightarrow> (\<exists>field. validate_field field s = Inr ())"
  shows "\<exists>e'. put_optional_string x e = Inr e' \<and> into_bytes e' = into_bytes e @ flagged_bytes text_bytes x"
proof (cases x)
  case (Some s)
  then obtain field where "validate_field field s = Inr ()" using assms by blast
  from put_string_ok [OF this, of "put_u8 1 e"] Some show ?thesis by (auto simp: put_optional_string_def flagged_bytes_def)
qed (simp add: put_optional_string_def flagged_bytes_def)

lemma assignment_valid_fields:
  assumes "assignment_validate m a = Inr ()"
  shows "\<forall>s \<in> set (assignment_texts a). \<exists>field. validate_field field s = Inr ()"
    "\<forall>s. ra_replacement_assignment a = Some s \<longrightarrow> (\<exists>field. validate_field field s = Inr ())"
    "ra_network_applicability a \<noteq> []" "length (ra_network_applicability a) \<le> 4" "distinct (ra_network_applicability a)"
proof -
  have "iter_res (\<lambda>(field, v). validate_field field v) (assignment_fields a) = Inr ()"
    using assms by (auto simp: assignment_validate_def bind_res_eq_Inr)
  then have all: "\<forall>x \<in> set (assignment_fields a). (case x of (field, v) \<Rightarrow> validate_field field v) = Inr ()"
    by (simp add: iter_res_iff)
  have f: "validate_field field s = Inr ()" if "(field, s) \<in> set (assignment_fields a)" for field s
    using bspec [OF all that] by simp
  show "\<forall>s \<in> set (assignment_texts a). \<exists>field. validate_field field s = Inr ()"
  proof
    fix s
    assume "s \<in> set (assignment_texts a)"
    moreover have "set (assignment_texts a) \<subseteq> snd ` set (assignment_fields a)"
      by (simp add: assignment_texts_def assignment_fields_def image_Un)
    ultimately obtain field where "(field, s) \<in> set (assignment_fields a)" by auto
    then show "\<exists>field. validate_field field s = Inr ()" using f by blast
  qed
  show "\<forall>s. ra_replacement_assignment a = Some s \<longrightarrow> (\<exists>field. validate_field field s = Inr ())"
  proof (intro allI impI)
    fix s
    assume "ra_replacement_assignment a = Some s"
    then have "(''replacement_assignment'', s) \<in> set (assignment_fields a)" by (simp add: assignment_fields_def)
    then show "\<exists>field. validate_field field s = Inr ()" using f by blast
  qed
  show "ra_network_applicability a \<noteq> []" "length (ra_network_applicability a) \<le> 4" "distinct (ra_network_applicability a)"
    using assms by (auto simp: assignment_validate_def bind_res_eq_Inr split: if_splits)
qed

lemma canonical_networks_facts:
  "set (canonical_networks ns) = set ns" "length (canonical_networks ns) \<le> length ns"
  using remdups_adj_length [of "sort_key exp_network_byte ns"] by (simp_all add: canonical_networks_def)

lemma put_assignment_ok:
  assumes "assignment_validate m a = Inr ()"
  shows "\<exists>e'. put_assignment a e = Inr e' \<and> into_bytes e' = into_bytes e @ assignment_bytes (canonical_assignment a)"
proof -
  note a = assignment_valid_fields [OF assms]
  let ?h = "put_seq ([put_u8 (assignment_kind_byte (ra_kind a)), put_u8 (assignment_status_byte (ra_status a)), put_u64_le (ra_value a)] @
      (case ra_range_end a of Some r \<Rightarrow> [put_u8 1, put_u64_le r] | None \<Rightarrow> [put_u8 0]) @
      [put_u16_le (ra_registry_version a), put_u16_le (ra_protocol_version a), put_u32_le (ra_maximum_payload a)]) e"
  have h: "into_bytes ?h = into_bytes e @ [assignment_kind_byte (ra_kind a)] @ [assignment_status_byte (ra_status a)] @
      u64_to_le (ra_value a) @ flagged_bytes u64_to_le (ra_range_end a) @ u16_to_le (ra_registry_version a) @
      u16_to_le (ra_protocol_version a) @ u32_to_le (ra_maximum_payload a)"
    by (cases "ra_range_end a") (simp_all add: flagged_bytes_def)
  obtain e1 where e1: "put_strings (assignment_texts a) ?h = Inr e1" "into_bytes e1 = into_bytes ?h @ concat (map text_bytes (assignment_texts a))"
    using put_strings_ok [OF a(1)] by blast
  obtain e2 where e2: "put_optional_string (ra_replacement_assignment a) e1 = Inr e2"
    "into_bytes e2 = into_bytes e1 @ flagged_bytes text_bytes (ra_replacement_assignment a)"
    using put_optional_string_ok [OF a(2)] by blast
  let ?n = "canonical_networks (ra_network_applicability a)"
  have n: "into_bytes (put_seq (map (\<lambda>n. put_u8 (exp_network_byte n)) ns) e) = into_bytes e @ concat (map (\<lambda>n. [exp_network_byte n]) ns)" for ns e
    by (rule into_bytes_put_seq_map) simp
  have "length ?n \<le> 4" using a(4) canonical_networks_facts(2) order_trans by blast
  then have "put_assignment a e = Inr (put_seq (put_u8 (word_of_nat (length ?n)) # map (\<lambda>n. put_u8 (exp_network_byte n)) ?n) e2)"
    unfolding put_assignment_def using e1(1) [unfolded assignment_texts_def] e2(1) by (simp add: Let_def)
  moreover have "into_bytes (put_seq (put_u8 (word_of_nat (length ?n)) # map (\<lambda>n. put_u8 (exp_network_byte n)) ?n) e2) =
      into_bytes e @ assignment_bytes (canonical_assignment a)"
    using e1(2) e2(2) h n by (simp add: assignment_bytes_def canonical_assignment_def assignment_texts_def)
  ultimately show ?thesis by blast
qed

lemma put_assignments_ok:
  assumes "\<forall>a \<in> set as. assignment_validate m a = Inr ()"
  shows "\<exists>e'. put_assignments as e = Inr e' \<and> into_bytes e' = into_bytes e @ concat (map assignment_bytes (map canonical_assignment as))"
  using assms
proof (induction as arbitrary: e)
  case (Cons a as)
  then obtain e1 where "put_assignment a e = Inr e1" "into_bytes e1 = into_bytes e @ assignment_bytes (canonical_assignment a)"
    using put_assignment_ok by (metis list.set_intros(1))
  with Cons show ?case by (fastforce simp: bind_res_eq_Inr)
qed simp

lemma metadata_valid_fields:
  "metadata_validate m = Inr () \<Longrightarrow> \<forall>s \<in> set (metadata_texts m). \<exists>field. validate_field field s = Inr ()"
  by (auto simp: metadata_validate_def bind_res_eq_Inr metadata_texts_def)

lemma canonical_bytes_iff:
  "canonical_bytes d = Inr bs \<longleftrightarrow> document_validate d = Inr () \<and> bs = document_bytes (canonical_document d)"
proof (cases "document_validate d = Inr ()")
  case True
  note d = document_validate_parts [OF True]
  let ?as = "sort_assignments (rd_assignments d)"
  have as: "set ?as = set (rd_assignments d)" "length ?as = length (rd_assignments d)" by (simp_all add: sort_assignments_def)
  let ?h = "put_seq [put_bytes registry_magic, put_u16_le canonical_format_version, put_u16_le (rm_version (rd_registry d)),
    put_u16_le (rm_protocol_version (rd_registry d)), put_u8 (assignment_status_byte (rm_status (rd_registry d)))] encoder_new"
  obtain e1 where e1: "put_strings (metadata_texts (rd_registry d)) ?h = Inr e1"
    "into_bytes e1 = into_bytes ?h @ concat (map text_bytes (metadata_texts (rd_registry d)))"
    using put_strings_ok [OF metadata_valid_fields [OF d(1)]] by blast
  obtain e2 where e2: "put_assignments ?as (put_u16_le (word_of_nat (length ?as)) e1) = Inr e2"
    "into_bytes e2 = into_bytes (put_u16_le (word_of_nat (length ?as)) e1) @ concat (map assignment_bytes (map canonical_assignment ?as))"
    using put_assignments_ok [of ?as "rd_registry d"] d(4) as(1) by blast
  have "canonical_bytes d = Inr (into_bytes e2)"
    unfolding canonical_bytes_def Let_def using True e1(1) [unfolded metadata_texts_def] e2(1) d(3) as(2)
    by (simp add: max_assignments_def)
  moreover have "into_bytes e2 = document_bytes (canonical_document d)"
    using e1(2) e2(2) as(2) by (simp add: document_bytes_def canonical_document_def)
  ultimately show ?thesis using True by auto
qed (auto simp: canonical_bytes_def bind_res_eq_Inr)

text \<open>The text of a document, as the Rust type of strings has it.\<close>

definition document_text :: "registry_document \<Rightarrow> bool" where
  "document_text d \<longleftrightarrow> list_all utf8_valid (metadata_texts (rd_registry d)) \<and>
     (\<forall>a \<in> set (rd_assignments d). list_all utf8_valid (assignment_texts a) \<and> pred_option utf8_valid (ra_replacement_assignment a))"

lemma canonical_shaped:
  assumes "document_validate d = Inr ()" "document_text d"
  shows "document_shaped d" "document_shaped (canonical_document d)"
proof -
  note d = document_validate_parts [OF assms(1)]
  have ok: "text_ok s" if "\<exists>field. validate_field field s = Inr ()" "utf8_valid s" for s
    using that by (auto simp: validate_field_def text_ok_def split: if_splits)
  have m: "list_all text_ok (metadata_texts (rd_registry d))"
    using metadata_valid_fields [OF d(1)] assms(2) ok unfolding document_text_def list_all_iff by blast
  have a: "assignment_shaped a" if "a \<in> set (rd_assignments d)" for a
  proof -
    note v = assignment_valid_fields [OF d(4) [rule_format, OF that]]
    have t: "list_all utf8_valid (assignment_texts a)" "pred_option utf8_valid (ra_replacement_assignment a)"
      using assms(2) that by (auto simp: document_text_def)
    have "list_all text_ok (assignment_texts a)" using v(1) t(1) ok unfolding list_all_iff by blast
    moreover have "pred_option text_ok (ra_replacement_assignment a)"
      using v(2) t(2) ok by (cases "ra_replacement_assignment a") auto
    ultimately show ?thesis using v(3,4) by (simp add: assignment_shaped_def)
  qed
  then show "document_shaped d" using m d(2,3) by (simp add: document_shaped_def)
  have "assignment_shaped (canonical_assignment a)" if "assignment_shaped a" for a
  proof -
    have "canonical_networks (ra_network_applicability a) \<noteq> []" "length (canonical_networks (ra_network_applicability a)) \<le> 4"
      using that canonical_networks_facts [of "ra_network_applicability a"] by (fastforce simp: assignment_shaped_def)+
    then show ?thesis using that by (simp add: assignment_shaped_def canonical_assignment_def assignment_texts_def)
  qed
  moreover have "length (sort_assignments (rd_assignments d)) = length (rd_assignments d)" by (simp add: sort_assignments_def)
  with d(2) have "sort_assignments (rd_assignments d) \<noteq> []" by (cases "sort_assignments (rd_assignments d)") auto
  ultimately show "document_shaped (canonical_document d)" using m a d(3)
    by (auto simp: document_shaped_def canonical_document_def sort_assignments_def)
qed

lemma shaped_text: "document_shaped d \<Longrightarrow> document_text d"
proof -
  have "pred_option text_ok x \<Longrightarrow> pred_option utf8_valid x" for x by (cases x) (auto simp: text_ok_def)
  then show "document_shaped d \<Longrightarrow> document_text d"
    by (auto simp: document_shaped_def document_text_def assignment_shaped_def list_all_iff text_ok_def)
qed

lemma from_canonical_bytes_iff:
  "from_canonical_bytes input = Inr d \<longleftrightarrow> document_text d \<and> canonical_document d = d \<and> canonical_bytes d = Inr input \<and>
     length input \<le> max_registry_binary"
proof
  assume "from_canonical_bytes input = Inr d"
  then obtain c where rd: "read_document (cursor [] input) = Inr (d, c)" and c: "map_err RgDecode (decoder_finish c) = Inr ()"
    and v: "document_validate d = Inr ()" "canonical_bytes d = Inr input" "length input \<le> max_registry_binary"
    by (auto simp: from_canonical_bytes_def bind_res_eq_Inr decoder_new_cursor split: if_splits)
  from doc.reads_back [OF rd] c have d: "document_shaped d" "input = document_bytes d" by (auto simp: map_err_eq_Inr split: if_splits)
  have "document_bytes d = document_bytes (canonical_document d)" using v(2) d(2) by (simp add: canonical_bytes_iff)
  moreover have "fits [] (document_bytes d)" using v(3) d(2) by (simp add: fits_def max_registry_binary_def usize_max_def)
  ultimately have "d = canonical_document d"
    using doc.enc_inj [OF d(1) canonical_shaped(2) [OF v(1) shaped_text [OF d(1)]]] by simp
  then show "document_text d \<and> canonical_document d = d \<and> canonical_bytes d = Inr input \<and> length input \<le> max_registry_binary"
    using v(2,3) shaped_text [OF d(1)] by simp
next
  assume d: "document_text d \<and> canonical_document d = d \<and> canonical_bytes d = Inr input \<and> length input \<le> max_registry_binary"
  then have v: "document_validate d = Inr ()" "input = document_bytes d" by (simp_all add: canonical_bytes_iff)
  have "fits [] (document_bytes d @ [])" using d v(2) by (simp add: fits_def max_registry_binary_def usize_max_def)
  from doc.reads [OF canonical_shaped(1) [OF v(1)] this] d v
  show "from_canonical_bytes input = Inr d" by (simp add: from_canonical_bytes_def decoder_new_cursor)
qed

text \<open>
  C26: the canonical form of a registry is unique. A byte string within the limit is accepted as the registry document it
  stands for exactly when the document is in canonical order, its text is UTF-8 and it encodes to this string; in
  particular the document is valid and a document in canonical order is read back as it was written.
\<close>

theorem registry_canonical_exact:
  "from_canonical_bytes input = Inr d \<longleftrightarrow> document_text d \<and> canonical_document d = d \<and> canonical_bytes d = Inr input \<and>
     length input \<le> max_registry_binary"
  by (rule from_canonical_bytes_iff)

end
