(* ===== verification/ExperimentalPeer.thy ===== *)
theory ExperimentalPeer
  imports Negotiation
begin

text \<open>
  Model of \<^verbatim>\<open>crates/hns-p2p-experimental/src/policy.rs\<close>, \<^verbatim>\<open>peer.rs\<close> and \<^verbatim>\<open>request.rs\<close>: the transport policy and its
  replacement, the admission of experimental packets of one peer, and the tracker of live requests. Operations of a mutable
  receiver return the new state with their result.
\<close>

section \<open>Policies\<close>

datatype dns_relay_requester_policy = RequesterAuto | RequesterDisabled | RequesterRequired

datatype oblivious_dns_policy = ObliviousRequired | ObliviousPreferred | DirectRelayAllowed | ObliviousDisabled

record hnsr_policy =
  hp_client :: bool
  hp_endpoint :: bool
  hp_relay :: bool
  hp_rendezvous :: bool

definition hnsr_disabled :: hnsr_policy where
  "hnsr_disabled = \<lparr>hp_client = False, hp_endpoint = False, hp_relay = False, hp_rendezvous = False\<rparr>"

definition hnsr_relay_default :: hnsr_policy where
  "hnsr_relay_default = hnsr_disabled\<lparr>hp_relay := True\<rparr>"

definition hnsr_client_relay_default :: hnsr_policy where
  "hnsr_client_relay_default = hnsr_relay_default\<lparr>hp_client := True\<rparr>"

record dns_relay_output_policy =
  dop_enabled :: bool

definition output_disabled :: dns_relay_output_policy where "output_disabled = \<lparr>dop_enabled = False\<rparr>"
definition output_opted_in :: dns_relay_output_policy where "output_opted_in = \<lparr>dop_enabled = True\<rparr>"

record opaque_relay_roles =
  or_odoh_proxy :: bool

definition opaque_relay_default :: opaque_relay_roles where "opaque_relay_default = \<lparr>or_odoh_proxy = True\<rparr>"

record output_roles =
  ou_dns_relay :: dns_relay_output_policy
  ou_odoh_target :: bool

definition output_roles_default :: output_roles where
  "output_roles_default = \<lparr>ou_dns_relay = output_disabled, ou_odoh_target = False\<rparr>"

record provider_roles =
  pv_dns_relay :: bool
  pv_odoh_proxy :: bool
  pv_odoh_target :: bool

definition provider_roles_default :: provider_roles where
  "provider_roles_default = \<lparr>pv_dns_relay = False, pv_odoh_proxy = True, pv_odoh_target = False\<rparr>"

definition provider_split :: "provider_roles \<Rightarrow> opaque_relay_roles \<times> output_roles" where
  "provider_split r =
     (\<lparr>or_odoh_proxy = pv_odoh_proxy r\<rparr>,
      \<lparr>ou_dns_relay = (if pv_dns_relay r then output_opted_in else output_disabled), ou_odoh_target = pv_odoh_target r\<rparr>)"

record transport_policy =
  tp_dns_relay_requester :: dns_relay_requester_policy
  tp_oblivious_dns :: oblivious_dns_policy
  tp_allow_direct_relay_fallback :: bool
  tp_hnsr :: hnsr_policy
  tp_opaque_relays :: opaque_relay_roles
  tp_outputs :: output_roles
  tp_wire_profile :: wire_profile

definition transport_policy_default :: transport_policy where
  "transport_policy_default =
     \<lparr>tp_dns_relay_requester = RequesterAuto, tp_oblivious_dns = ObliviousPreferred, tp_allow_direct_relay_fallback = True,
      tp_hnsr = hnsr_client_relay_default, tp_opaque_relays = opaque_relay_default, tp_outputs = output_roles_default,
      tp_wire_profile = AutoProfile\<rparr>"

definition with_legacy_provider_roles :: "transport_policy \<Rightarrow> provider_roles \<Rightarrow> transport_policy" where
  "with_legacy_provider_roles p roles =
     (let (opaque_relays, outputs) = provider_split roles in
      p\<lparr>tp_opaque_relays := opaque_relays, tp_outputs := outputs\<rparr>)"

datatype policy_action =
    StopAdmittingDnsRelayRequests | CancelDnsRelayRequests | StopAdmittingOdohRequests | CancelOdohRequests
  | WithdrawDnsRelayAdvertisement | WithdrawOdohProxyAdvertisement | WithdrawOdohTargetAdvertisement
  | RevokeOdohTargetConfigurations | WithdrawHnsrRoutes | CloseHnsrCircuits | ClearRequesterSelections
  | DrainOpaqueRelayWork | DrainOutputWork | DrainProviderWork | RefreshStructuredStatus | RenegotiateAffectedPeers

fun policy_action_number :: "policy_action \<Rightarrow> nat" where
  "policy_action_number StopAdmittingDnsRelayRequests = 0"
| "policy_action_number CancelDnsRelayRequests = 1"
| "policy_action_number StopAdmittingOdohRequests = 2"
| "policy_action_number CancelOdohRequests = 3"
| "policy_action_number WithdrawDnsRelayAdvertisement = 4"
| "policy_action_number WithdrawOdohProxyAdvertisement = 5"
| "policy_action_number WithdrawOdohTargetAdvertisement = 6"
| "policy_action_number RevokeOdohTargetConfigurations = 7"
| "policy_action_number WithdrawHnsrRoutes = 8"
| "policy_action_number CloseHnsrCircuits = 9"
| "policy_action_number ClearRequesterSelections = 10"
| "policy_action_number DrainOpaqueRelayWork = 11"
| "policy_action_number DrainOutputWork = 12"
| "policy_action_number DrainProviderWork = 13"
| "policy_action_number RefreshStructuredStatus = 14"
| "policy_action_number RenegotiateAffectedPeers = 15"

record policy_transition =
  pt_previous_generation :: u64
  pt_generation :: u64
  pt_previous :: transport_policy
  pt_current :: transport_policy
  pt_actions :: "policy_action list"

record policy_controller =
  pc_policy :: transport_policy
  pc_generation :: u64

definition policy_controller_default :: policy_controller where
  "policy_controller_default = \<lparr>pc_policy = transport_policy_default, pc_generation = 1\<rparr>"

definition policy_controller_new :: "transport_policy \<Rightarrow> u64 \<Rightarrow> policy_controller" where
  "policy_controller_new policy generation = \<lparr>pc_policy = policy, pc_generation = generation\<rparr>"

definition advertisements_changed :: "transport_policy \<Rightarrow> transport_policy \<Rightarrow> bool" where
  "advertisements_changed previous new \<longleftrightarrow>
     tp_opaque_relays previous \<noteq> tp_opaque_relays new \<or> tp_outputs previous \<noteq> tp_outputs new \<or>
     hp_relay (tp_hnsr previous) \<noteq> hp_relay (tp_hnsr new) \<or> hp_rendezvous (tp_hnsr previous) \<noteq> hp_rendezvous (tp_hnsr new) \<or>
     tp_wire_profile previous \<noteq> tp_wire_profile new"

definition policy_actions :: "transport_policy \<Rightarrow> transport_policy \<Rightarrow> policy_action list" where
  "policy_actions previous new =
     (if tp_dns_relay_requester new = RequesterDisabled then [StopAdmittingDnsRelayRequests, CancelDnsRelayRequests] else []) @
     (if tp_oblivious_dns new = ObliviousDisabled then [StopAdmittingOdohRequests, CancelOdohRequests] else []) @
     (if dop_enabled (ou_dns_relay (tp_outputs previous)) \<and> \<not> dop_enabled (ou_dns_relay (tp_outputs new))
      then [WithdrawDnsRelayAdvertisement, DrainOutputWork] else []) @
     (if or_odoh_proxy (tp_opaque_relays previous) \<and> \<not> or_odoh_proxy (tp_opaque_relays new)
      then [WithdrawOdohProxyAdvertisement, DrainOpaqueRelayWork] else []) @
     (if ou_odoh_target (tp_outputs previous) \<and> \<not> ou_odoh_target (tp_outputs new)
      then [WithdrawOdohTargetAdvertisement, RevokeOdohTargetConfigurations, DrainOutputWork] else []) @
     (if tp_hnsr previous \<noteq> tp_hnsr new then
        [WithdrawHnsrRoutes, CloseHnsrCircuits] @
        (if hp_relay (tp_hnsr previous) \<and> \<not> hp_relay (tp_hnsr new) then [DrainOpaqueRelayWork] else []) @
        (if hp_endpoint (tp_hnsr previous) \<and> \<not> hp_endpoint (tp_hnsr new) then [DrainOutputWork] else [])
      else []) @
     [ClearRequesterSelections, RefreshStructuredStatus] @
     (if advertisements_changed previous new then [RenegotiateAffectedPeers] else [])"

definition policy_replace ::
  "policy_controller \<Rightarrow> transport_policy \<Rightarrow> policy_transition option \<times> policy_controller" where
  "policy_replace c new =
     (if pc_policy c = new then (None, c)
      else
        let c' = \<lparr>pc_policy = new, pc_generation = saturating_add (pc_generation c) 1\<rparr> in
        (Some \<lparr>pt_previous_generation = pc_generation c, pt_generation = pc_generation c', pt_previous = pc_policy c,
           pt_current = new, pt_actions = remdups_adj (sort_key policy_action_number (policy_actions (pc_policy c) new))\<rparr>, c'))"

definition accepts_result_generation :: "policy_controller \<Rightarrow> u64 \<Rightarrow> bool" where
  "accepts_result_generation c generation \<longleftrightarrow> generation = pc_generation c"

section \<open>Peers\<close>

datatype peer_protocol = DnsRelay | ObliviousDns | Hnsr | ShakescapeExtension

fun required_service :: "peer_protocol \<Rightarrow> service_bit" where
  "required_service DnsRelay = dns_relay_service"
| "required_service ObliviousDns = odoh_service"
| "required_service Hnsr = hnsr_rendezvous_service"
| "required_service ShakescapeExtension = shakescape_extension_service"

datatype experimental_admission = OrdinaryHandshake | Experimental peer_protocol | ReservedPrivatePacket

datatype peer_protocol_error =
    ConnectionNotEstablished
  | ProtocolDisabled peer_protocol
  | PacketWithoutService peer_protocol service_bit
  | HnsrPacketWithoutService
  | MissingShakescapeExtensionService peer_protocol
  | AdvertisedServiceWithoutRegistry
  | RegistryNotNegotiated peer_protocol
  | DnsRelayRequesterDisabled
  | LocalDnsRelayProviderDisabled
  | LocalDnsRelayServiceNotAdvertised
  | LocalDnsRelayBackendNotReady
  | LocalDnsRelayRegistryNotAdvertised
  | PeerWrongFingerprint
  | PeerWrongNetwork
  | PeerWrongGenesis

record peer_state =
  ps_profile :: wire_profile
  ps_network :: exp_network
  ps_genesis_hash :: bytes
  ps_expected_fingerprint :: bytes
  ps_services :: service_mask
  ps_established :: bool
  ps_negotiated :: "negotiated_registry option"
  ps_disabled :: "peer_protocol list"

type_synonym 'a peer_op = "peer_state \<Rightarrow> (peer_protocol_error + 'a) \<times> peer_state"

definition peer_new :: "wire_profile \<Rightarrow> exp_network \<Rightarrow> bytes \<Rightarrow> bytes \<Rightarrow> service_mask \<Rightarrow> peer_state" where
  "peer_new profile network genesis_hash fingerprint services =
     \<lparr>ps_profile = profile, ps_network = network, ps_genesis_hash = genesis_hash, ps_expected_fingerprint = fingerprint,
      ps_services = services, ps_established = False, ps_negotiated = None, ps_disabled = []\<rparr>"

definition mark_established :: "peer_state \<Rightarrow> peer_state" where
  "mark_established s = s\<lparr>ps_established := True\<rparr>"

definition install_negotiation :: "negotiated_registry \<Rightarrow> unit peer_op" where
  "install_negotiation n s =
     (if \<not> ps_established s then (Inl ConnectionNotEstablished, s)
      else if nr_fingerprint n \<noteq> ps_expected_fingerprint s then (Inl PeerWrongFingerprint, s)
      else if nr_network n \<noteq> ps_network s then (Inl PeerWrongNetwork, s)
      else if nr_genesis_hash n \<noteq> ps_genesis_hash s then (Inl PeerWrongGenesis, s)
      else (Inr (), s\<lparr>ps_negotiated := Some n\<rparr>))"

definition is_disabled :: "peer_state \<Rightarrow> peer_protocol \<Rightarrow> bool" where
  "is_disabled s p \<longleftrightarrow> p \<in> set (ps_disabled s)"

text \<open>Failing a check disables the protocol for the rest of the connection; a set is kept as a list without repetition.\<close>

definition disable :: "peer_protocol \<Rightarrow> peer_state \<Rightarrow> peer_state" where
  "disable p s = s\<lparr>ps_disabled := List.insert p (ps_disabled s)\<rparr>"

definition refuse :: "peer_protocol \<Rightarrow> peer_protocol_error \<Rightarrow> 'a peer_op" where
  "refuse p e s = (Inl e, disable p s)"

definition pbind :: "'a peer_op \<Rightarrow> ('a \<Rightarrow> 'b peer_op) \<Rightarrow> 'b peer_op" where
  "pbind m f s = (case m s of (Inl e, s') \<Rightarrow> (Inl e, s') | (Inr x, s') \<Rightarrow> f x s')"

definition requires_registry :: "peer_state \<Rightarrow> bool" where
  "requires_registry s \<longleftrightarrow> ps_profile s = ShakescapeV1 \<or> ps_profile s = AutoProfile"

definition ensure_active_and_established :: "peer_protocol \<Rightarrow> unit peer_op" where
  "ensure_active_and_established p s =
     (if p \<in> set (ps_disabled s) then (Inl (ProtocolDisabled p), s)
      else if \<not> ps_established s then refuse p ConnectionNotEstablished s
      else (Inr (), s))"

definition ensure_registry_negotiated :: "peer_protocol \<Rightarrow> unit peer_op" where
  "ensure_registry_negotiated p s =
     (if \<not> requires_registry s \<or> p = ShakescapeExtension then (Inr (), s)
      else if \<not> mask_contains (ps_services s) shakescape_extension_service then
        refuse p (MissingShakescapeExtensionService p) s
      else
        case ps_negotiated s of
          None \<Rightarrow> refuse p (RegistryNotNegotiated p) s
        | Some n \<Rightarrow> if nr_fingerprint n \<noteq> ps_expected_fingerprint s then refuse p PeerWrongFingerprint s else (Inr (), s))"

definition admit_remote_dns_relay_provider :: "experimental_admission peer_op" where
  "admit_remote_dns_relay_provider =
     pbind (ensure_active_and_established DnsRelay) (\<lambda>_ s.
     if \<not> mask_contains (ps_services s) dns_relay_service then refuse DnsRelay (PacketWithoutService DnsRelay dns_relay_service) s
     else pbind (ensure_registry_negotiated DnsRelay) (\<lambda>_ s. (Inr (Experimental DnsRelay), s)) s)"

definition admit_outbound_dns_relay_request :: "dns_relay_requester_policy \<Rightarrow> experimental_admission peer_op" where
  "admit_outbound_dns_relay_request policy s =
     (if policy = RequesterDisabled then (Inl DnsRelayRequesterDisabled, s) else admit_remote_dns_relay_provider s)"

definition admit_inbound_dns_relay_request ::
  "service_mask \<Rightarrow> dns_relay_output_policy \<Rightarrow> bool \<Rightarrow> experimental_admission peer_op" where
  "admit_inbound_dns_relay_request local_services output_policy backend_ready =
     pbind (ensure_active_and_established DnsRelay) (\<lambda>_ s.
     if \<not> dop_enabled output_policy then refuse DnsRelay LocalDnsRelayProviderDisabled s
     else if \<not> mask_contains local_services dns_relay_service then refuse DnsRelay LocalDnsRelayServiceNotAdvertised s
     else if \<not> backend_ready then refuse DnsRelay LocalDnsRelayBackendNotReady s
     else if requires_registry s \<and> \<not> mask_contains local_services shakescape_extension_service then
       refuse DnsRelay LocalDnsRelayRegistryNotAdvertised s
     else pbind (ensure_registry_negotiated DnsRelay) (\<lambda>_ s. (Inr (Experimental DnsRelay), s)) s)"

definition protocol_for_packet :: "byte \<Rightarrow> peer_protocol option" where
  "protocol_for_packet packet =
     (if packet = dns_relay_request_packet \<or> packet = dns_relay_response_packet then Some DnsRelay
      else if packet = odoh_packet then Some ObliviousDns
      else if packet = hnsr_packet then Some Hnsr
      else if packet = shakescape_extension_packet then Some ShakescapeExtension
      else None)"

definition admits_service :: "byte \<Rightarrow> peer_protocol \<Rightarrow> peer_state \<Rightarrow> bool" where
  "admits_service packet p s \<longleftrightarrow>
     (if packet = hnsr_packet then
        mask_contains (ps_services s) hnsr_rendezvous_service \<or> mask_contains (ps_services s) hnsr_relay_service
      else mask_contains (ps_services s) (required_service p))"

definition admit_packet :: "byte \<Rightarrow> experimental_admission peer_op" where
  "admit_packet packet =
     (if packet = dns_relay_request_packet \<or> packet = dns_relay_response_packet then admit_remote_dns_relay_provider
      else
        case protocol_for_packet packet of
          None \<Rightarrow> (\<lambda>s. (Inr (if packet \<ge> 0xf5 then ReservedPrivatePacket else OrdinaryHandshake), s))
        | Some p \<Rightarrow>
            pbind (ensure_active_and_established p) (\<lambda>_ s.
            if \<not> admits_service packet p s then
              refuse p (if packet = hnsr_packet then HnsrPacketWithoutService
                else PacketWithoutService p (required_service p)) s
            else pbind (ensure_registry_negotiated p) (\<lambda>_ s. (Inr (Experimental p), s)) s))"

definition validate_advertisements :: "peer_state \<Rightarrow> peer_protocol_error + unit" where
  "validate_advertisements s =
     (if \<not> requires_registry s then Inr ()
      else
        let advertises_private_role = mask_contains (ps_services s) dns_relay_service \<or>
              mask_contains (ps_services s) odoh_service \<or> mask_contains (ps_services s) hnsr_rendezvous_service \<or>
              mask_contains (ps_services s) hnsr_relay_service
        in if advertises_private_role \<and> \<not> mask_contains (ps_services s) shakescape_extension_service then
             Inl AdvertisedServiceWithoutRegistry
           else Inr ())"

section \<open>Requests\<close>

record request_tracker =
  rt_generation :: u64
  rt_maximum_live :: nat
  rt_live :: "u64 list"
  rt_completed_order :: "u64 list"
  rt_completed :: "u64 list"

datatype request_tracker_error =
    ZeroCapacity
  | RtZeroRequestId
  | StaleGeneration u64 u64
  | DuplicateRequestId u64
  | CapacityExceeded nat
  | UnknownRequestId u64
  | NonIncreasingGeneration u64 u64

definition tracker_new :: "u64 \<Rightarrow> nat \<Rightarrow> request_tracker_error + request_tracker" where
  "tracker_new generation maximum_live =
     (if maximum_live = 0 then Inl ZeroCapacity
      else Inr \<lparr>rt_generation = generation, rt_maximum_live = maximum_live, rt_live = [], rt_completed_order = [],
        rt_completed = []\<rparr>)"

definition tracker_admit :: "request_tracker \<Rightarrow> u64 \<Rightarrow> u64 \<Rightarrow> request_tracker_error + request_tracker" where
  "tracker_admit t request_id generation =
     (if request_id = 0 then Inl RtZeroRequestId
      else if generation \<noteq> rt_generation t then Inl (StaleGeneration (rt_generation t) generation)
      else if request_id \<in> set (rt_live t) \<or> request_id \<in> set (rt_completed t) then Inl (DuplicateRequestId request_id)
      else if length (rt_live t) \<ge> rt_maximum_live t then Inl (CapacityExceeded (rt_maximum_live t))
      else Inr (t\<lparr>rt_live := List.insert request_id (rt_live t)\<rparr>))"

text \<open>The loop that forgets the oldest completed requests.\<close>

fun trim_completed :: "nat \<Rightarrow> u64 list \<Rightarrow> u64 list \<Rightarrow> u64 list \<times> u64 list" where
  "trim_completed maximum_live [] completed = ([], completed)"
| "trim_completed maximum_live (expired # order) completed =
     (if length (expired # order) > maximum_live then trim_completed maximum_live order (remove1 expired completed)
      else (expired # order, completed))"

definition tracker_complete :: "request_tracker \<Rightarrow> u64 \<Rightarrow> request_tracker_error + request_tracker" where
  "tracker_complete t request_id =
     (if request_id \<notin> set (rt_live t) then Inl (UnknownRequestId request_id)
      else
        let (order, completed) =
          trim_completed (rt_maximum_live t) (rt_completed_order t @ [request_id]) (List.insert request_id (rt_completed t))
        in Inr (t\<lparr>rt_live := remove1 request_id (rt_live t), rt_completed_order := order, rt_completed := completed\<rparr>))"

definition tracker_revoke_and_advance :: "request_tracker \<Rightarrow> u64 \<Rightarrow> request_tracker_error + request_tracker" where
  "tracker_revoke_and_advance t generation =
     (if generation \<le> rt_generation t then Inl (NonIncreasingGeneration (rt_generation t) generation)
      else Inr (t\<lparr>rt_generation := generation, rt_live := [], rt_completed_order := [], rt_completed := []\<rparr>))"

end
