(* ===== verification/PeerProofs.thy ===== *)
theory PeerProofs
  imports ExperimentalPeer
begin

text \<open>
  Admission of experimental packets and tracking of requests: what an admitted packet implies, that a refusal is final,
  and the replay window of the request tracker.
\<close>

section \<open>Runs of a peer\<close>

inductive peer_step :: "peer_state \<Rightarrow> peer_state \<Rightarrow> bool" where
  established: "peer_step s (mark_established s)"
| negotiated: "install_negotiation n s = (r, s') \<Longrightarrow> peer_step s s'"
| packet: "admit_packet packet s = (r, s') \<Longrightarrow> peer_step s s'"
| outbound: "admit_outbound_dns_relay_request policy s = (r, s') \<Longrightarrow> peer_step s s'"
| inbound: "admit_inbound_dns_relay_request services policy ready s = (r, s') \<Longrightarrow> peer_step s s'"

inductive peer_run :: "peer_state \<Rightarrow> peer_state \<Rightarrow> bool" for s where
  start: "peer_run s s"
| more: "peer_run s t \<Longrightarrow> peer_step t u \<Longrightarrow> peer_run s u"

definition registry_matches :: "peer_state \<Rightarrow> negotiated_registry \<Rightarrow> bool" where
  "registry_matches s n \<longleftrightarrow> nr_fingerprint n = ps_expected_fingerprint s \<and> nr_network n = ps_network s \<and>
     nr_genesis_hash n = ps_genesis_hash s"

definition peer_ok :: "peer_state \<Rightarrow> bool" where
  "peer_ok s \<longleftrightarrow> distinct (ps_disabled s) \<and>
     (\<forall>n. ps_negotiated s = Some n \<longrightarrow> ps_established s \<and> registry_matches s n)"

text \<open>Whatever an admission answers, the state changes at most by one more disabled protocol.\<close>

definition keeps :: "'a peer_op \<Rightarrow> bool" where
  "keeps m \<longleftrightarrow> (\<forall>s r s'. m s = (r, s') \<longrightarrow> s' = s \<or> (\<exists>p. s' = disable p s))"

lemma ensure_active_eq:
  "ensure_active_and_established p s =
     (if p \<in> set (ps_disabled s) then (Inl (ProtocolDisabled p), s)
      else if \<not> ps_established s then (Inl ConnectionNotEstablished, disable p s) else (Inr (), s))"
  by (simp add: ensure_active_and_established_def refuse_def)

lemma keeps_registry: "keeps (ensure_registry_negotiated p)"
  by (auto simp: keeps_def ensure_registry_negotiated_def refuse_def split: if_splits option.splits)

lemma keeps_refuse: "keeps (refuse p e)"
  by (auto simp: keeps_def refuse_def)

lemma keeps_bind:
  assumes "\<And>x. keeps (f x)"
  shows "keeps (pbind (ensure_active_and_established p) f)"
  using assms by (auto simp: keeps_def pbind_def ensure_active_eq split: if_splits)

lemma keeps_answer:
  assumes "keeps m"
  shows "keeps (pbind m (\<lambda>_ s. (Inr x, s)))"
  using assms unfolding keeps_def pbind_def by (fastforce split: prod.splits sum.splits)

lemma keeps_if: "keeps m \<Longrightarrow> keeps m' \<Longrightarrow> keeps (\<lambda>s. if c s then m s else m' s)"
  by (auto simp: keeps_def)

lemmas keeps_rules = keeps_bind keeps_if keeps_refuse keeps_answer keeps_registry

lemma keeps_remote: "keeps admit_remote_dns_relay_provider"
  unfolding admit_remote_dns_relay_provider_def by (intro keeps_rules)

lemma keeps_packet: "keeps (admit_packet packet)"
  unfolding admit_packet_def
  by (cases "protocol_for_packet packet") (auto intro!: keeps_rules keeps_remote simp: keeps_def [of "\<lambda>s. (Inr _, s)"])

lemma keeps_outbound: "keeps (admit_outbound_dns_relay_request policy)"
  using keeps_remote by (auto simp: keeps_def admit_outbound_dns_relay_request_def split: if_splits)

lemma keeps_inbound: "keeps (admit_inbound_dns_relay_request services policy ready)"
  unfolding admit_inbound_dns_relay_request_def by (intro keeps_rules)

lemma keepsD: "keeps m \<Longrightarrow> m s = (r, s') \<Longrightarrow> s' = s \<or> (\<exists>p. s' = disable p s)"
  unfolding keeps_def by blast

lemma disable_sel [simp]:
  "ps_profile (disable p s) = ps_profile s" "ps_network (disable p s) = ps_network s"
  "ps_genesis_hash (disable p s) = ps_genesis_hash s" "ps_expected_fingerprint (disable p s) = ps_expected_fingerprint s"
  "ps_services (disable p s) = ps_services s" "ps_established (disable p s) = ps_established s"
  "ps_negotiated (disable p s) = ps_negotiated s" "set (ps_disabled (disable p s)) = insert p (set (ps_disabled s))"
  "distinct (ps_disabled (disable p s)) \<longleftrightarrow> distinct (ps_disabled s)"
  by (simp_all add: disable_def)

lemma peer_step_cases:
  assumes "peer_step s s'"
  obtains "s' = s" | p where "s' = disable p s" | "s' = mark_established s"
    | n where "s' = s\<lparr>ps_negotiated := Some n\<rparr>" "ps_established s" "registry_matches s n"
  using assms
proof cases
  case (negotiated n r)
  then show ?thesis using that by (auto simp: install_negotiation_def registry_matches_def split: if_splits)
qed (use that keepsD [OF keeps_packet] keepsD [OF keeps_outbound] keepsD [OF keeps_inbound] in blast)+

lemma peer_step_ok: "peer_step s s' \<Longrightarrow> peer_ok s \<Longrightarrow> peer_ok s'"
  by (erule peer_step_cases) (auto simp: peer_ok_def registry_matches_def mark_established_def)

lemma peer_run_ok: "peer_run s t \<Longrightarrow> peer_ok s \<Longrightarrow> peer_ok t"
  by (induction rule: peer_run.induct) (auto intro: peer_step_ok)

lemma peer_new_ok: "peer_ok (peer_new profile network genesis fingerprint services)"
  by (simp add: peer_ok_def peer_new_def)

lemma peer_step_disabled: "peer_step s s' \<Longrightarrow> set (ps_disabled s) \<subseteq> set (ps_disabled s')"
  by (erule peer_step_cases) (auto simp: mark_established_def)

lemma peer_run_disabled: "peer_run s t \<Longrightarrow> set (ps_disabled s) \<subseteq> set (ps_disabled t)"
  by (induction rule: peer_run.induct) (auto dest: peer_step_disabled)

section \<open>Admission\<close>

lemma packet_numbers: "dns_relay_request_packet \<noteq> hnsr_packet" "dns_relay_response_packet \<noteq> hnsr_packet"
  by (simp_all add: dns_relay_request_packet_def dns_relay_response_packet_def hnsr_packet_def)

text \<open>Both branches of the admission of packets are one sequence of checks.\<close>

lemma admit_packet_eq:
  assumes "protocol_for_packet packet = Some p"
  shows "admit_packet packet s =
    pbind (ensure_active_and_established p) (\<lambda>_ s.
      if \<not> admits_service packet p s then
        refuse p (if packet = hnsr_packet then HnsrPacketWithoutService else PacketWithoutService p (required_service p)) s
      else pbind (ensure_registry_negotiated p) (\<lambda>_ s. (Inr (Experimental p), s)) s) s"
proof (cases "packet = dns_relay_request_packet \<or> packet = dns_relay_response_packet")
  case True
  then have "p = DnsRelay" "packet \<noteq> hnsr_packet" using assms packet_numbers by (auto simp: protocol_for_packet_def)
  then show ?thesis using True by (simp add: admit_packet_def admit_remote_dns_relay_provider_def admits_service_def cong: if_cong)
next
  case False
  then show ?thesis using assms by (simp add: admit_packet_def)
qed

definition registry_ready :: "peer_protocol \<Rightarrow> peer_state \<Rightarrow> bool" where
  "registry_ready p s \<longleftrightarrow> \<not> requires_registry s \<or> p = ShakescapeExtension \<or>
     mask_contains (ps_services s) shakescape_extension_service \<and>
     (\<exists>n. ps_negotiated s = Some n \<and> nr_fingerprint n = ps_expected_fingerprint s)"

lemma ensure_registry_iff:
  "ensure_registry_negotiated p s = (Inr x, s') \<longleftrightarrow> s' = s \<and> registry_ready p s"
  "fst (ensure_registry_negotiated p s) = Inl e \<Longrightarrow> snd (ensure_registry_negotiated p s) = disable p s"
  by (auto simp: ensure_registry_negotiated_def registry_ready_def refuse_def split: option.splits if_splits)

lemma admit_packet_iff:
  assumes "protocol_for_packet packet = Some p"
  shows "admit_packet packet s = (Inr x, s') \<longleftrightarrow> x = Experimental p \<and> s' = s \<and> p \<notin> set (ps_disabled s) \<and>
    ps_established s \<and> admits_service packet p s \<and> registry_ready p s"
proof (cases "ensure_registry_negotiated p s")
  case (Pair r t)
  show ?thesis
  proof (cases r)
    case (Inl e)
    then have "\<not> registry_ready p s" using ensure_registry_iff(1) [of p s "()" s] Pair by auto
    then show ?thesis using Inl Pair by (auto simp: admit_packet_eq [OF assms] pbind_def ensure_active_eq refuse_def)
  next
    case (Inr u)
    then have "t = s" "registry_ready p s" using ensure_registry_iff(1) [of p s u t] Pair by auto
    then show ?thesis using Inr Pair by (auto simp: admit_packet_eq [OF assms] pbind_def ensure_active_eq refuse_def)
  qed
qed

lemma admit_packet_refused:
  assumes "protocol_for_packet packet = Some p" "admit_packet packet s = (Inl e, s')"
  shows "p \<in> set (ps_disabled s')"
proof (cases "ensure_registry_negotiated p s")
  case (Pair r t)
  then show ?thesis
    using assms(2) ensure_registry_iff(2) [of p s]
    by (cases r) (auto simp: admit_packet_eq [OF assms(1)] pbind_def ensure_active_eq refuse_def split: if_splits)
qed

lemma admit_packet_disabled:
  assumes "protocol_for_packet packet = Some p" "p \<in> set (ps_disabled s)"
  shows "admit_packet packet s = (Inl (ProtocolDisabled p), s)"
  using assms(2) by (simp add: admit_packet_eq [OF assms(1)] pbind_def ensure_active_eq)

text \<open>
  C14: admission of experimental packets. In every state a peer can reach, a packet of an experimental protocol is admitted
  exactly when the protocol is not disabled, the connection is established, the peer advertises the service of the packet
  and, for the profiles that need a registry, the peer advertises the extension and a registry of the right
  fingerprint, network and genesis has been installed; admission changes nothing. Other packets are always let through.
\<close>

theorem peer_admission_exact:
  assumes "peer_run (peer_new profile network genesis fingerprint services) s"
  shows "case protocol_for_packet packet of
      None \<Rightarrow> admit_packet packet s = (Inr (if packet \<ge> 0xf5 then ReservedPrivatePacket else OrdinaryHandshake), s)
    | Some p \<Rightarrow> admit_packet packet s = (Inr x, s') \<longleftrightarrow> x = Experimental p \<and> s' = s \<and> \<not> is_disabled s p \<and>
        ps_established s \<and> admits_service packet p s \<and>
        (requires_registry s \<and> p \<noteq> ShakescapeExtension \<longrightarrow>
           mask_contains (ps_services s) shakescape_extension_service \<and>
           (\<exists>n. ps_negotiated s = Some n \<and> registry_matches s n))"
proof (cases "protocol_for_packet packet")
  case None
  then show ?thesis by (auto simp: admit_packet_def protocol_for_packet_def split: if_splits)
next
  case (Some p)
  have ok: "peer_ok s" by (rule peer_run_ok [OF assms peer_new_ok])
  have "registry_ready p s \<longleftrightarrow> (requires_registry s \<and> p \<noteq> ShakescapeExtension \<longrightarrow>
      mask_contains (ps_services s) shakescape_extension_service \<and> (\<exists>n. ps_negotiated s = Some n \<and> registry_matches s n))"
    using ok by (auto simp: registry_ready_def peer_ok_def registry_matches_def)
  then show ?thesis using Some admit_packet_iff [OF Some, of s x s'] by (auto simp: is_disabled_def)
qed

text \<open>
  A refusal is final. When a packet of a protocol is refused, every later packet of the protocol is refused as disabled,
  whatever happens on the connection in between: establishing it, installing a registry, or other admissions.
\<close>

theorem peer_refusal_final:
  assumes "protocol_for_packet packet = Some p" "admit_packet packet s = (Inl e, s')" "peer_run s' t"
    and "protocol_for_packet later = Some p"
  shows "admit_packet later t = (Inl (ProtocolDisabled p), t)"
  by (rule admit_packet_disabled [OF assms(4)])
    (use admit_packet_refused [OF assms(1,2)] peer_run_disabled [OF assms(3)] in blast)

section \<open>Requests\<close>

text \<open>Runs of a tracker with the completed requests of the current generation, oldest first, as a ghost history.\<close>

inductive tracker_run :: "u64 \<Rightarrow> nat \<Rightarrow> request_tracker \<Rightarrow> u64 list \<Rightarrow> bool" for generation maximum where
  new: "tracker_new generation maximum = Inr t \<Longrightarrow> tracker_run generation maximum t []"
| admit: "tracker_run generation maximum t h \<Longrightarrow> tracker_admit t request_id g = Inr t' \<Longrightarrow> tracker_run generation maximum t' h"
| complete: "tracker_run generation maximum t h \<Longrightarrow> tracker_complete t request_id = Inr t' \<Longrightarrow>
    tracker_run generation maximum t' (h @ [request_id])"
| advance: "tracker_run generation maximum t h \<Longrightarrow> tracker_revoke_and_advance t g = Inr t' \<Longrightarrow> tracker_run generation maximum t' []"

definition newest :: "nat \<Rightarrow> 'a list \<Rightarrow> 'a list" where
  "newest n xs = drop (length xs - n) xs"

definition tracker_ok :: "nat \<Rightarrow> request_tracker \<Rightarrow> u64 list \<Rightarrow> bool" where
  "tracker_ok maximum t h \<longleftrightarrow> rt_maximum_live t = maximum \<and> 0 < maximum \<and> distinct (rt_live t) \<and>
     length (rt_live t) \<le> maximum \<and> 0 \<notin> set (rt_live t) \<and> rt_completed_order t = newest maximum h \<and>
     distinct (rt_completed_order t) \<and> distinct (rt_completed t) \<and>
     set (rt_completed t) = set (rt_completed_order t) \<and> set (rt_live t) \<inter> set (rt_completed t) = {}"

lemma trim_completed_within: "length order \<le> maximum \<Longrightarrow> trim_completed maximum order completed = (order, completed)"
  by (cases order) simp_all

lemma trim_completed_snoc:
  assumes "length order \<le> maximum" "0 < maximum"
  shows "trim_completed maximum (order @ [x]) completed =
    (if length order < maximum then (order @ [x], completed) else (tl order @ [x], remove1 (hd order) completed))"
proof (cases order)
  case Nil
  then show ?thesis using assms by simp
next
  case (Cons a as)
  then show ?thesis using assms trim_completed_within [of "as @ [x]" maximum] by simp
qed

lemma length_newest: "length (newest n xs) = min n (length xs)"
  by (simp add: newest_def)

lemma newest_snoc:
  assumes "0 < n"
  shows "newest n (xs @ [x]) = (if length (newest n xs) < n then newest n xs @ [x] else tl (newest n xs) @ [x])"
proof (cases "length xs < n")
  case True
  then show ?thesis by (simp add: newest_def)
next
  case False
  then have "Suc (length xs) - n = Suc (length xs - n)" by simp
  then show ?thesis using False assms by (simp add: newest_def drop_Suc tl_drop)
qed

lemma tracker_complete_ok:
  assumes "tracker_ok maximum t h" "tracker_complete t x = Inr t'"
  shows "tracker_ok maximum t' (h @ [x])"
proof -
  have x: "x \<in> set (rt_live t)" using assms(2) by (auto simp: tracker_complete_def split: if_splits)
  let ?o = "rt_completed_order t"
  have ok: "rt_maximum_live t = maximum" "0 < maximum" "distinct ?o" "length ?o \<le> maximum" "?o = newest maximum h"
    "x \<notin> set (rt_completed t)" "set (rt_completed t) = set ?o"
    using assms(1) x by (auto simp: tracker_ok_def length_newest)
  have t': "t' = t\<lparr>rt_live := remove1 x (rt_live t), rt_completed_order := newest maximum (h @ [x]),
      rt_completed := (if length ?o < maximum then List.insert x (rt_completed t) else remove1 (hd ?o) (List.insert x (rt_completed t)))\<rparr>"
    using assms(2) x trim_completed_snoc [OF ok(4,2), of x "List.insert x (rt_completed t)"]
    by (auto simp: tracker_complete_def ok(1) newest_snoc [OF ok(2)] ok(5) [symmetric] split: if_splits)
  have live: "distinct (remove1 x (rt_live t))" "length (remove1 x (rt_live t)) \<le> maximum" "0 \<notin> set (remove1 x (rt_live t))"
    "set (remove1 x (rt_live t)) = set (rt_live t) - {x}" "set (rt_live t) \<inter> set (rt_completed t) = {}"
    "distinct (rt_completed t)"
    using assms(1) x by (auto simp: tracker_ok_def length_remove1)
  have o: "newest maximum (h @ [x]) = (if length ?o < maximum then ?o @ [x] else tl ?o @ [x])"
    using newest_snoc [OF ok(2), of h x] by (simp only: ok(5) [symmetric])
  show ?thesis
  proof (cases "length ?o < maximum")
    case True
    then show ?thesis unfolding tracker_ok_def t' using ok(1-3,6,7) live o by auto
  next
    case False
    then obtain a as where a: "?o = a # as" using ok(2) by (cases ?o) auto
    then show ?thesis unfolding tracker_ok_def t' using False ok(1-3,6,7) live o by auto
  qed
qed

lemma tracker_run_ok: "tracker_run generation maximum t h \<Longrightarrow> tracker_ok maximum t h"
proof (induction rule: tracker_run.induct)
  case (complete t h x t')
  then show ?case by (intro tracker_complete_ok)
qed (auto simp: tracker_ok_def tracker_new_def tracker_admit_def tracker_revoke_and_advance_def newest_def split: if_splits)

text \<open>
  C34: the replay window of the request tracker. In every reachable state at most the maximum number of requests is live and
  none twice; a request is admitted exactly when its number is not zero, it names the current generation, there is room,
  and its number is neither live nor among the newest completed requests of the generation, as many as may be live.
\<close>

theorem request_tracker_window:
  assumes "tracker_run generation maximum t h"
  shows "length (rt_live t) \<le> maximum \<and> distinct (rt_live t) \<and>
    (is_ok (tracker_admit t request_id g) \<longleftrightarrow> request_id \<noteq> 0 \<and> g = rt_generation t \<and> length (rt_live t) < maximum \<and>
       request_id \<notin> set (rt_live t) \<and> request_id \<notin> set (newest maximum h))"
  using tracker_run_ok [OF assms] by (auto simp: tracker_ok_def tracker_admit_def is_ok_iff not_le)

section \<open>Examples\<close>

definition sample_peer :: peer_state where
  "sample_peer = peer_new AutoProfile ExpRegtest (replicate 32 7) (replicate 32 8) 0x10000000"

theorem peer_admission_exact_witness:
  "admit_packet 0xf4 (mark_established sample_peer) = (Inr (Experimental ShakescapeExtension), mark_established sample_peer)"
proof -
  have r: "peer_run (peer_new AutoProfile ExpRegtest (replicate 32 7) (replicate 32 8) 0x10000000) (mark_established sample_peer)"
    unfolding sample_peer_def by (rule peer_run.more [OF peer_run.start peer_step.established])
  have "protocol_for_packet 0xf4 = Some ShakescapeExtension" by code_simp
  moreover have "\<not> is_disabled (mark_established sample_peer) ShakescapeExtension" "ps_established (mark_established sample_peer)"
    "admits_service 0xf4 ShakescapeExtension (mark_established sample_peer)" by code_simp+
  ultimately show ?thesis
    using peer_admission_exact [OF r, of "0xf4" "Experimental ShakescapeExtension" "mark_established sample_peer"] by simp
qed

theorem peer_refusal_final_witness:
  "admit_packet 0xf2 (mark_established (disable ObliviousDns sample_peer)) =
     (Inl (ProtocolDisabled ObliviousDns), mark_established (disable ObliviousDns sample_peer))"
proof -
  have p: "protocol_for_packet 0xf2 = Some ObliviousDns" by code_simp
  have "admit_packet 0xf2 sample_peer = (Inl ConnectionNotEstablished, disable ObliviousDns sample_peer)" by code_simp
  from peer_refusal_final [OF p this peer_run.more [OF peer_run.start peer_step.established] p] show ?thesis .
qed

theorem request_tracker_window_witness:
  "\<exists>t. tracker_run 1 2 t [5] \<and> \<not> is_ok (tracker_admit t 5 1) \<and> is_ok (tracker_admit t 6 1)"
proof -
  let ?t0 = "\<lparr>rt_generation = 1, rt_maximum_live = 2, rt_live = [], rt_completed_order = [], rt_completed = []\<rparr> :: request_tracker"
  have 1: "tracker_run 1 2 ?t0 []" by (rule tracker_run.new) (simp add: tracker_new_def)
  have 2: "tracker_run 1 2 (?t0\<lparr>rt_live := [5]\<rparr>) []"
    by (rule tracker_run.admit [OF 1, of 5 1]) (simp add: tracker_admit_def)
  have 3: "tracker_run 1 2 (?t0\<lparr>rt_completed_order := [5], rt_completed := [5]\<rparr>) ([] @ [5])"
    by (rule tracker_run.complete [OF 2, of 5]) (simp add: tracker_complete_def)
  then have "\<not> is_ok (tracker_admit (?t0\<lparr>rt_completed_order := [5], rt_completed := [5]\<rparr>) 5 1)"
    "is_ok (tracker_admit (?t0\<lparr>rt_completed_order := [5], rt_completed := [5]\<rparr>) 6 1)"
    using request_tracker_window [OF 3, of 5 1] request_tracker_window [OF 3, of 6 1] by (simp_all add: newest_def)
  with 3 show ?thesis by auto
qed

end
