(* ===== verification/TextForms.thy ===== *)
theory TextForms
  imports Covenants
begin

text \<open>
  Text of the standard library that the records of name resources are written in: decimal numbers, splitting at a
  separator, prefixes, and the visible ASCII characters. Text is the list of its UTF-8 bytes.
\<close>

section \<open>Characters\<close>

definition is_ascii_digit :: "byte \<Rightarrow> bool" where
  "is_ascii_digit b \<longleftrightarrow> 48 \<le> b \<and> b \<le> 57"

definition is_ascii_graphic :: "byte \<Rightarrow> bool" where
  "is_ascii_graphic b \<longleftrightarrow> 33 \<le> b \<and> b \<le> 126"

definition is_ascii :: "bytes \<Rightarrow> bool" where
  "is_ascii s \<longleftrightarrow> list_all (\<lambda>b. b < 128) s"

section \<open>Splitting\<close>

definition strip_prefix :: "bytes \<Rightarrow> bytes \<Rightarrow> bytes option" where
  "strip_prefix p s = (if take (length p) s = p then Some (drop (length p) s) else None)"

definition starts_with :: "bytes \<Rightarrow> bytes \<Rightarrow> bool" where
  "starts_with p s \<longleftrightarrow> take (length p) s = p"

fun split_on :: "byte \<Rightarrow> bytes \<Rightarrow> bytes list" where
  "split_on c [] = [[]]"
| "split_on c (x # xs) =
     (if x = c then [] # split_on c xs
      else case split_on c xs of f # fs \<Rightarrow> (x # f) # fs | [] \<Rightarrow> [[x]])"

section \<open>Decimal numbers\<close>

fun decimal_bytes :: "nat \<Rightarrow> bytes" where
  "decimal_bytes n =
     (if n < 10 then [48 + word_of_nat n] else decimal_bytes (n div 10) @ [48 + word_of_nat (n mod 10)])"

declare decimal_bytes.simps [simp del]

definition digits_value :: "bytes \<Rightarrow> nat" where
  "digits_value = foldl (\<lambda>v b. 10 * v + (unat b - 48)) 0"

text \<open>The parser of an unsigned number: an optional plus sign, then digits.\<close>

definition unsigned_digits :: "bytes \<Rightarrow> bytes" where
  "unsigned_digits s = (case s of c # rest \<Rightarrow> if c = 43 then rest else s | [] \<Rightarrow> [])"

definition parse_u32 :: "bytes \<Rightarrow> u32 option" where
  "parse_u32 s =
     (let ds = unsigned_digits s in
      if ds = [] \<or> \<not> list_all is_ascii_digit ds \<or> digits_value ds > 0xffffffff then None
      else Some (word_of_nat (digits_value ds)))"

section \<open>Lemmas\<close>

lemma strip_prefix_iff: "strip_prefix p s = Some r \<longleftrightarrow> s = p @ r"
  by (auto simp: strip_prefix_def intro: append_take_drop_id [symmetric]) (metis append_take_drop_id)

lemma starts_with_iff: "starts_with p s \<longleftrightarrow> (\<exists>r. s = p @ r)"
  by (auto simp: starts_with_def) (metis append_take_drop_id)

lemma split_on_not_Nil [simp]: "split_on c s \<noteq> []"
  by (cases s) (auto split: list.splits)

lemma split_on_no_sep: "c \<notin> set s \<Longrightarrow> split_on c s = [s]"
  by (induction s) auto

lemma split_on_append: "c \<notin> set s \<Longrightarrow> split_on c (s @ c # rest) = s # split_on c rest"
  by (induction s) auto

lemma split_on_Cons: "split_on c s = f # fs \<Longrightarrow>
  c \<notin> set f \<and> (if fs = [] then s = f else \<exists>rest. s = f @ c # rest \<and> split_on c rest = fs)"
proof (induction s arbitrary: f fs)
  case (Cons x xs)
  obtain g gs where g: "split_on c xs = g # gs" by (metis list.exhaust split_on_not_Nil)
  show ?case
  proof (cases "x = c")
    case True
    then show ?thesis using Cons.prems g by auto
  next
    case False
    with Cons.prems g have f: "f = x # g" "fs = gs" by auto
    then show ?thesis using Cons.IH [OF g] False by auto
  qed
qed auto

lemma digits_value_snoc: "digits_value (ds @ [d]) = 10 * digits_value ds + (unat d - 48)"
  by (simp add: digits_value_def)

lemma digit_word: "d < 10 \<Longrightarrow> unat (48 + word_of_nat d :: byte) = 48 + d"
  by (simp add: unat_word_ariths unat_of_nat)

lemma digit_back:
  assumes "is_ascii_digit b"
  shows "48 + word_of_nat (unat b - 48) = b" "unat b - 48 < 10" "48 \<le> unat b"
proof -
  have r: "48 \<le> unat b" "unat b \<le> 57" using assms by (simp_all add: is_ascii_digit_def word_le_nat_alt)
  then show "unat b - 48 < 10" "48 \<le> unat b" by simp_all
  have "unat (48 + word_of_nat (unat b - 48) :: byte) = unat b" using r digit_word [of "unat b - 48"] by simp
  then show "48 + word_of_nat (unat b - 48) = b" by (simp only: word_unat_eq_iff)
qed

lemma decimal_bytes_digits: "list_all is_ascii_digit (decimal_bytes n)"
proof (induction n rule: decimal_bytes.induct)
  case (1 n)
  have d: "is_ascii_digit (48 + word_of_nat k)" if "k < 10" for k
    using digit_word [OF that] that by (simp add: is_ascii_digit_def word_le_nat_alt)
  show ?case using 1 d [of n] d [of "n mod 10"] by (subst decimal_bytes.simps) auto
qed

lemma decimal_bytes_not_Nil [simp]: "decimal_bytes n \<noteq> []"
  by (subst decimal_bytes.simps) simp

lemma digits_value_decimal [simp]: "digits_value (decimal_bytes n) = n"
proof (induction n rule: decimal_bytes.induct)
  case (1 n)
  show ?case
  proof (cases "n < 10")
    case True
    then show ?thesis by (subst decimal_bytes.simps) (simp add: digits_value_def digit_word)
  next
    case False
    then show ?thesis using 1 by (subst decimal_bytes.simps) (simp add: digits_value_snoc digit_word)
  qed
qed

text \<open>Digits are the decimal form of their value behind zeros.\<close>

lemma digits_decimal:
  assumes "list_all is_ascii_digit ds" "ds \<noteq> []"
  shows "\<exists>n. ds = replicate n 48 @ decimal_bytes (digits_value ds)"
  using assms
proof (induction ds rule: rev_induct)
  case (snoc d ds)
  note b = digit_back [of d]
  show ?case
  proof (cases "digits_value ds = 0")
    case True
    have z: "\<exists>n. ds = replicate n 48"
    proof (cases "ds = []")
      case False
      then obtain n where "ds = replicate n 48 @ decimal_bytes 0" using snoc True by auto
      then have "ds = replicate (Suc n) 48" by (simp add: decimal_bytes.simps [of 0] replicate_append_same)
      then show ?thesis by blast
    qed simp
    have "decimal_bytes (digits_value (ds @ [d])) = [d]"
      using True snoc.prems b by (subst decimal_bytes.simps) (simp add: digits_value_snoc)
    then show ?thesis using z by auto
  next
    case False
    then have ne: "ds \<noteq> []" by (auto simp: digits_value_def)
    then obtain n where n: "ds = replicate n 48 @ decimal_bytes (digits_value ds)" using snoc by auto
    have v: "digits_value (ds @ [d]) div 10 = digits_value ds" "digits_value (ds @ [d]) mod 10 = unat d - 48"
      "\<not> digits_value (ds @ [d]) < 10"
    proof -
      obtain k where k: "unat d - 48 = k" by blast
      then have "k < 10" using b(2) snoc.prems by simp
      then show "digits_value (ds @ [d]) div 10 = digits_value ds" "digits_value (ds @ [d]) mod 10 = unat d - 48"
        "\<not> digits_value (ds @ [d]) < 10"
        using False unfolding digits_value_snoc k by simp_all
    qed
    have "decimal_bytes (digits_value (ds @ [d])) = decimal_bytes (digits_value ds) @ [d]"
      using v b snoc.prems by (subst decimal_bytes.simps) simp
    then show ?thesis using n by (metis append.assoc)
  qed
qed simp

lemma decimal_no_leading_zero: "n \<noteq> 0 \<Longrightarrow> hd (decimal_bytes n) \<noteq> 48"
proof (induction n rule: decimal_bytes.induct)
  case (1 n)
  show ?case
  proof (cases "n < 10")
    case True
    have "unat (48 + word_of_nat n :: byte) \<noteq> unat (48 :: byte)" using digit_word [OF True] 1 by simp
    then show ?thesis using True by (subst decimal_bytes.simps) auto
  next
    case False
    then show ?thesis using 1 by (subst decimal_bytes.simps) (simp add: hd_append)
  qed
qed

lemma digit_zeros: "list_all is_ascii_digit (replicate n 48 @ decimal_bytes v)"
  using decimal_bytes_digits by (simp add: list_all_length is_ascii_digit_def nth_append)

lemma digits_value_zeros: "digits_value (replicate n 48 @ ds) = digits_value ds"
proof -
  have "foldl (\<lambda>v b. 10 * v + (unat b - 48)) 0 (replicate n (48 :: byte)) = 0" by (induction n) simp_all
  then show ?thesis by (simp add: digits_value_def)
qed

lemma unsigned_digits_of: "list_all is_ascii_digit ds \<Longrightarrow> unsigned_digits ds = ds \<and> unsigned_digits (43 # ds) = ds"
  by (auto simp: unsigned_digits_def is_ascii_digit_def split: list.splits)

lemma parse_u32_of:
  assumes "v \<le> 0xffffffff"
  shows "parse_u32 (replicate n 48 @ decimal_bytes v) = Some (word_of_nat v)"
    "parse_u32 (43 # replicate n 48 @ decimal_bytes v) = Some (word_of_nat v)"
  using assms unsigned_digits_of [OF digit_zeros, of n v] digit_zeros [of n v]
  by (simp_all add: parse_u32_def digits_value_zeros)

lemma parse_u32_back:
  assumes "parse_u32 s = Some w"
  shows "\<exists>n. s = replicate n 48 @ decimal_bytes (unat w) \<or> s = 43 # replicate n 48 @ decimal_bytes (unat w)"
proof -
  let ?d = "unsigned_digits s"
  have d: "?d \<noteq> []" "list_all is_ascii_digit ?d" "digits_value ?d \<le> 0xffffffff" "w = word_of_nat (digits_value ?d)"
    using assms by (auto simp: parse_u32_def Let_def not_less split: if_splits)
  then have "unat w = digits_value ?d" by (simp add: unat_of_nat)
  with digits_decimal [OF d(2,1)] obtain n where "?d = replicate n 48 @ decimal_bytes (unat w)" by auto
  moreover have "s = ?d \<or> s = 43 # ?d" using d(1) by (auto simp: unsigned_digits_def split: list.splits if_splits)
  ultimately show ?thesis by metis
qed

text \<open>A number without a sign and without a leading zero is the decimal form itself.\<close>

lemma parse_u32_canonical:
  assumes "\<not> (length s > 1 \<and> starts_with [48] s)"
  shows "parse_u32 s = Some w \<longleftrightarrow>
    s = decimal_bytes (unat w) \<or> (\<exists>n. s = 43 # replicate n 48 @ decimal_bytes (unat w))"
proof
  assume "parse_u32 s = Some w"
  then obtain n where n: "s = replicate n 48 @ decimal_bytes (unat w) \<or> s = 43 # replicate n 48 @ decimal_bytes (unat w)"
    using parse_u32_back by blast
  have "n = 0" if "s = replicate n 48 @ decimal_bytes (unat w)"
  proof (rule ccontr)
    assume "n \<noteq> 0"
    then obtain m where "n = Suc m" by (cases n) auto
    then show False using that assms by (auto simp: starts_with_def)
  qed
  then show "s = decimal_bytes (unat w) \<or> (\<exists>n. s = 43 # replicate n 48 @ decimal_bytes (unat w))" using n by auto
next
  have w: "unat w \<le> 0xffffffff" using unsigned_less [of w, where 'a = nat] by simp
  assume "s = decimal_bytes (unat w) \<or> (\<exists>n. s = 43 # replicate n 48 @ decimal_bytes (unat w))"
  then show "parse_u32 s = Some w" using parse_u32_of [OF w] parse_u32_of(1) [OF w, of 0] by auto
qed

end
