(* ===== verification/Authority.thy ===== *)
theory Authority
  imports TextForms SwapSale Cbor
begin

text \<open>
  Model of \<^verbatim>\<open>crates/hns-service-authority/src/lib.rs\<close>: the \<^verbatim>\<open>hsa1\<close> authority record of a name, the service authorizations its
  root key signs, the endpoint delegations a service key signs, and the selection of the newest of them. The operations of
  the cryptographic crates are the fields of \<open>authority_crypto\<close>; a signature is its compact form and \<open>ac_from_der\<close>,
  \<open>ac_to_der\<close> convert its wire form.
\<close>

section \<open>Constants, errors and cryptography\<close>

definition service_auth_domain :: bytes where "service_auth_domain = ascii ''HNS-SERVICE-AUTH-V1'' @ [0]"
definition service_auth_id_domain :: bytes where "service_auth_id_domain = ascii ''HNS-SERVICE-AUTH-ID-V1'' @ [0]"
definition endpoint_delegation_domain :: bytes where "endpoint_delegation_domain = ascii ''HNS-ENDPOINT-DELEGATION-V1'' @ [0]"
definition endpoint_delegation_id_domain :: bytes where
  "endpoint_delegation_id_domain = ascii ''HNS-ENDPOINT-DELEGATION-ID-V1'' @ [0]"
definition base32_alphabet :: bytes where "base32_alphabet = ascii ''abcdefghijklmnopqrstuvwxyz234567''"
definition compressed_key_base32_length :: nat where "compressed_key_base32_length = 53"
definition hsa_version :: byte where "hsa_version = 1"
definition min_endpoint_lifetime :: u32 where "min_endpoint_lifetime = 300"
definition max_endpoint_lifetime_limit :: u32 where "max_endpoint_lifetime_limit = 604800"
definition max_service_name :: nat where "max_service_name = 63"
definition max_signature_size :: nat where "max_signature_size = 80"
definition max_service_authorization_size :: nat where "max_service_authorization_size = 256"
definition max_endpoint_delegation_size :: nat where "max_endpoint_delegation_size = 256"
definition max_service_authorization_candidates :: nat where "max_service_authorization_candidates = 16"
definition max_endpoint_delegation_candidates :: nat where "max_endpoint_delegation_candidates = 32"

datatype authority_error =
    AuDecode decode_error
  | AuInvalid string
  | AuCryptography
  | AuMissing
  | AuAmbiguous
  | AuConflictingSequence

record authority_crypto =
  ac_k256 :: k256
  ac_blake2b_256 :: "bytes \<Rightarrow> bytes"
  ac_from_der :: "bytes \<Rightarrow> bytes option"
  ac_to_der :: "bytes \<Rightarrow> bytes"
  ac_signing_key :: "bytes \<Rightarrow> signing_key option"

definition validate_public_key :: "k256 \<Rightarrow> bytes \<Rightarrow> authority_error + unit" where
  "validate_public_key K key =
     (if k_public_key_parses K key then Inr () else Inl (AuInvalid ''invalid compressed secp256k1 public key''))"

definition authority_signing_key :: "authority_crypto \<Rightarrow> bytes \<Rightarrow> authority_error + signing_key" where
  "authority_signing_key A private_key = ok_or (ac_signing_key A private_key) AuCryptography"

definition authority_public_key :: "authority_crypto \<Rightarrow> bytes \<Rightarrow> authority_error + bytes" where
  "authority_public_key A private_key =
     bind_res (authority_signing_key A private_key) (\<lambda>key.
     if length (sk_public_key key) = 33 then Inr (sk_public_key key) else Inl AuCryptography)"

definition authority_sign :: "authority_crypto \<Rightarrow> bytes \<Rightarrow> bytes \<Rightarrow> bytes \<Rightarrow> authority_error + bytes" where
  "authority_sign A domain msg private_key =
     bind_res (authority_signing_key A private_key) (\<lambda>key.
     bind_res (ok_or (sk_sign_prehash key (ac_blake2b_256 A (domain @ msg))) AuCryptography) (\<lambda>s.
     Inr (ac_to_der A (case k_normalize_s (ac_k256 A) s of Some low \<Rightarrow> low | None \<Rightarrow> s))))"

definition authority_verify :: "authority_crypto \<Rightarrow> bytes \<Rightarrow> bytes \<Rightarrow> bytes \<Rightarrow> bytes \<Rightarrow> authority_error + unit" where
  "authority_verify A domain msg signature public_key =
     bind_res (validate_public_key (ac_k256 A) public_key) (\<lambda>_.
     if signature = [] \<or> length signature > max_signature_size then Inl (AuInvalid ''invalid signature length'')
     else
       bind_res (ok_or (ac_from_der A signature) AuCryptography) (\<lambda>s.
       if k_normalize_s (ac_k256 A) s \<noteq> None then Inl AuCryptography
       else if k_verify_prehash (ac_k256 A) public_key (ac_blake2b_256 A (domain @ msg)) s then Inr ()
       else Inl AuCryptography))"

section \<open>Base32\<close>

function base32_drain :: "u16 \<Rightarrow> nat \<Rightarrow> bytes \<Rightarrow> bytes \<times> nat" where
  "base32_drain buffer bits out =
     (if bits \<ge> 5 then
        base32_drain buffer (bits - 5) (out @ [base32_alphabet ! unat (drop_bit (bits - 5) buffer AND 31)])
      else (out, bits))"
  by pat_completeness auto

termination
  by (relation "measure (\<lambda>(buffer, bits, out). bits)") auto

declare base32_drain.simps [simp del]

definition base32_step :: "bytes \<times> u16 \<times> nat \<Rightarrow> byte \<Rightarrow> bytes \<times> u16 \<times> nat" where
  "base32_step = (\<lambda>(out, buffer, bits) b.
     let buffer = push_bit 8 buffer OR ucast b; (out, bits) = base32_drain buffer (bits + 8) out in (out, buffer, bits))"

definition encode_base32 :: "bytes \<Rightarrow> bytes" where
  "encode_base32 input =
     (let (out, buffer, bits) = foldl base32_step ([], 0, 0) input in
      if bits \<noteq> 0 then out @ [base32_alphabet ! unat (push_bit (5 - bits) buffer AND 31)] else out)"

fun list_position :: "byte \<Rightarrow> bytes \<Rightarrow> nat option" where
  "list_position x [] = None"
| "list_position x (y # ys) = (if y = x then Some 0 else map_option Suc (list_position x ys))"

fun decode_base32_loop :: "bytes \<Rightarrow> bytes \<times> u16 \<times> nat \<Rightarrow> authority_error + bytes \<times> u16 \<times> nat" where
  "decode_base32_loop [] (out, buffer, bits) = Inr (out, buffer, bits)"
| "decode_base32_loop (c # cs) (out, buffer, bits) =
     bind_res (ok_or (list_position c base32_alphabet) (AuInvalid ''invalid lowercase base32'')) (\<lambda>v.
     let buffer = push_bit 5 buffer OR word_of_nat v; bits = bits + 5 in
     if bits \<ge> 8 then
       let bits = bits - 8 in
       decode_base32_loop cs
         (out @ [ucast (drop_bit bits buffer)], buffer AND saturating_sub (push_bit bits 1) 1, bits)
     else decode_base32_loop cs (out, buffer, bits))"

definition decode_base32 :: "bytes \<Rightarrow> authority_error + bytes" where
  "decode_base32 input =
     bind_res (decode_base32_loop input ([], 0, 0)) (\<lambda>(out, buffer, bits).
     if bits \<noteq> 0 \<and> buffer \<noteq> 0 then Inl (AuInvalid ''nonzero base32 padding bits'') else Inr out)"

section \<open>Authority records\<close>

record authority_record =
  ar_root_key :: bytes
  ar_epoch :: u32

text \<open>The fields of a record, as the iterator over the text hands them out.\<close>

definition record_field :: "string \<Rightarrow> bytes option \<Rightarrow> string \<Rightarrow> authority_error + bytes" where
  "record_field prefix field err =
     ok_or (case field of Some f \<Rightarrow> strip_prefix (ascii prefix) f | None \<Rightarrow> None) (AuInvalid err)"

definition nth_field :: "bytes list \<Rightarrow> nat \<Rightarrow> bytes option" where
  "nth_field fs i = (if i < length fs then Some (fs ! i) else None)"

definition record_parse :: "k256 \<Rightarrow> bytes \<Rightarrow> authority_error + authority_record" where
  "record_parse K t =
     (if \<not> is_ascii t \<or> list_ex (\<lambda>c. \<not> is_ascii_graphic c \<and> c \<noteq> 32) t then Inl (AuInvalid ''non-printable hsa1 record'')
      else
        let fields = split_on 32 t in
        if nth_field fields 0 \<noteq> Some (ascii ''hsa1'') then Inl (AuInvalid ''invalid hsa1 marker'')
        else
          bind_res (record_field ''k='' (nth_field fields 1) ''invalid hsa1 key field'') (\<lambda>key.
          bind_res (record_field ''e='' (nth_field fields 2) ''invalid hsa1 epoch field'') (\<lambda>epoch.
          if nth_field fields 3 \<noteq> None \<or> key = [] \<or> epoch = [] then Inl (AuInvalid ''invalid hsa1 field count'')
          else if length epoch > 1 \<and> starts_with [48] epoch then Inl (AuInvalid ''noncanonical hsa1 epoch'')
          else
            bind_res (ok_or (parse_u32 epoch) (AuInvalid ''invalid hsa1 epoch'')) (\<lambda>epoch.
            if length key \<noteq> compressed_key_base32_length then Inl (AuInvalid ''invalid hsa1 key length'')
            else
              bind_res (decode_base32 key) (\<lambda>decoded.
              if encode_base32 decoded \<noteq> key then Inl (AuInvalid ''noncanonical hsa1 key encoding'')
              else if length decoded \<noteq> 33 then Inl (AuInvalid ''invalid hsa1 key length'')
              else
                bind_res (validate_public_key K decoded) (\<lambda>_.
                Inr \<lparr>ar_root_key = decoded, ar_epoch = epoch\<rparr>))))))"

definition record_encode :: "k256 \<Rightarrow> authority_record \<Rightarrow> authority_error + bytes" where
  "record_encode K r =
     bind_res (validate_public_key K (ar_root_key r)) (\<lambda>_.
     Inr (ascii ''hsa1 k='' @ encode_base32 (ar_root_key r) @ ascii '' e='' @ decimal_bytes (unat (ar_epoch r))))"

fun select_record_loop :: "k256 \<Rightarrow> bytes list \<Rightarrow> authority_record option \<Rightarrow> authority_error + authority_record option" where
  "select_record_loop K [] selected = Inr selected"
| "select_record_loop K (t # ts) selected =
     (if t \<noteq> ascii ''hsa1'' \<and> \<not> starts_with (ascii ''hsa1 '') t then select_record_loop K ts selected
      else
        bind_res (record_parse K t) (\<lambda>parsed.
        if selected \<noteq> None then Inl AuAmbiguous else select_record_loop K ts (Some parsed)))"

definition select_authority_record :: "k256 \<Rightarrow> bytes list \<Rightarrow> authority_error + authority_record" where
  "select_authority_record K ts = bind_res (select_record_loop K ts None) (\<lambda>selected. ok_or selected AuMissing)"

section \<open>Service authorizations\<close>

definition service_name_char :: "byte \<Rightarrow> bool" where
  "service_name_char b \<longleftrightarrow> 97 \<le> b \<and> b \<le> 122 \<or> is_ascii_digit b \<or> b = 45"

definition validate_service_name :: "bytes \<Rightarrow> authority_error + unit" where
  "validate_service_name name =
     (if \<not> (1 \<le> length name \<and> length name \<le> max_service_name) \<or> hd name = 45 \<or> last name = 45 \<or>
         \<not> list_all service_name_char name
      then Inl (AuInvalid ''noncanonical service name'') else Inr ())"

record service_identity =
  si_network_magic :: u32
  si_name_hash :: bytes
  si_service_name :: bytes
  si_profile_id :: u16

definition identity_validate :: "service_identity \<Rightarrow> authority_error + unit" where
  "identity_validate i = validate_service_name (si_service_name i)"

record service_authorization =
  sa_network_magic :: u32
  sa_name_hash :: bytes
  sa_authority_epoch :: u32
  sa_service_name :: bytes
  sa_profile_id :: u16
  sa_service_key :: bytes
  sa_flags :: u16
  sa_serial :: u64
  sa_valid_from_height :: u32
  sa_valid_until_height :: u32
  sa_max_endpoint_lifetime :: u32
  sa_root_signature :: bytes

definition authorization_identity :: "service_authorization \<Rightarrow> service_identity" where
  "authorization_identity a = \<lparr>si_network_magic = sa_network_magic a, si_name_hash = sa_name_hash a,
     si_service_name = sa_service_name a, si_profile_id = sa_profile_id a\<rparr>"

definition put_authorization :: "service_authorization \<Rightarrow> encoder \<Rightarrow> encoder" where
  "put_authorization a = put_seq
     [put_u8 hsa_version, put_u32_le (sa_network_magic a), put_bytes (sa_name_hash a), put_u32_le (sa_authority_epoch a),
      put_u8 (word_of_nat (length (sa_service_name a))), put_bytes (sa_service_name a), put_u16_le (sa_profile_id a),
      put_bytes (sa_service_key a), put_u16_le (sa_flags a), put_u64_le (sa_serial a), put_u32_le (sa_valid_from_height a),
      put_u32_le (sa_valid_until_height a), put_u32_le (sa_max_endpoint_lifetime a)]"

definition authorization_encode_unsigned :: "k256 \<Rightarrow> service_authorization \<Rightarrow> authority_error + bytes" where
  "authorization_encode_unsigned K a =
     bind_res (validate_service_name (sa_service_name a)) (\<lambda>_.
     bind_res (validate_public_key K (sa_service_key a)) (\<lambda>_.
     Inr (encode_with [put_authorization a])))"

definition put_signature :: "bytes \<Rightarrow> encoder \<Rightarrow> authority_error + encoder" where
  "put_signature signature e =
     (if signature = [] \<or> length signature > max_signature_size then Inl (AuInvalid ''invalid signature length'')
      else Inr (put_seq [put_u8 (word_of_nat (length signature)), put_bytes signature] e))"

definition read_signature :: "(authority_error, bytes) reader" where
  "read_signature =
     dbind (dlift AuDecode read_u8) (\<lambda>len.
     if \<not> (1 \<le> unat len \<and> unat len \<le> max_signature_size) then derror (AuInvalid ''invalid signature length'')
     else dlift AuDecode (read_bounded_vec (unat len) max_signature_size))"

definition authorization_sign ::
  "authority_crypto \<Rightarrow> service_authorization \<Rightarrow> bytes \<Rightarrow> authority_error + service_authorization" where
  "authorization_sign A a private_key =
     bind_res (authorization_encode_unsigned (ac_k256 A) a) (\<lambda>unsigned.
     bind_res (authority_sign A service_auth_domain (tl unsigned) private_key) (\<lambda>s.
     Inr (a\<lparr>sa_root_signature := s\<rparr>)))"

definition authorization_context ::
  "service_authorization \<Rightarrow> authority_record \<Rightarrow> service_identity \<Rightarrow> u32 \<Rightarrow> u16 \<Rightarrow> bool" where
  "authorization_context a authority identity current_height allowed_flags \<longleftrightarrow>
     \<not> (authorization_identity a \<noteq> identity \<or> sa_profile_id a = 0 \<or> sa_authority_epoch a \<noteq> ar_epoch authority \<or>
        sa_flags a AND NOT allowed_flags \<noteq> 0 \<or> sa_serial a = 0 \<or> sa_valid_until_height a \<le> sa_valid_from_height a \<or>
        current_height < sa_valid_from_height a \<or> current_height \<ge> sa_valid_until_height a \<or>
        \<not> (min_endpoint_lifetime \<le> sa_max_endpoint_lifetime a \<and> sa_max_endpoint_lifetime a \<le> max_endpoint_lifetime_limit))"

definition authorization_verify ::
  "authority_crypto \<Rightarrow> service_authorization \<Rightarrow> authority_record \<Rightarrow> service_identity \<Rightarrow> u32 \<Rightarrow> u16 \<Rightarrow> authority_error + unit" where
  "authorization_verify A a authority identity current_height allowed_flags =
     bind_res (identity_validate identity) (\<lambda>_.
     if \<not> authorization_context a authority identity current_height allowed_flags then
       Inl (AuInvalid ''invalid service authorization context'')
     else
       bind_res (authorization_encode_unsigned (ac_k256 A) a) (\<lambda>unsigned.
       authority_verify A service_auth_domain (tl unsigned) (sa_root_signature a) (ar_root_key authority)))"

definition authorization_encode :: "k256 \<Rightarrow> service_authorization \<Rightarrow> authority_error + bytes" where
  "authorization_encode K a =
     bind_res (authorization_encode_unsigned K a) (\<lambda>unsigned.
     bind_res (put_signature (sa_root_signature a) (put_bytes unsigned encoder_new)) (\<lambda>e.
     if length (into_bytes e) > max_service_authorization_size then Inl (AuInvalid ''service authorization is too large'')
     else Inr (into_bytes e)))"

definition authorization_id :: "authority_crypto \<Rightarrow> service_authorization \<Rightarrow> authority_error + bytes" where
  "authorization_id A a =
     bind_res (authorization_encode (ac_k256 A) a) (\<lambda>encoded. Inr (ac_blake2b_256 A (service_auth_id_domain @ encoded)))"

definition read_service_name :: "(authority_error, bytes) reader" where
  "read_service_name =
     dbind (dlift AuDecode read_u8) (\<lambda>len.
     if \<not> (1 \<le> unat len \<and> unat len \<le> max_service_name) then derror (AuInvalid ''invalid service name length'')
     else
       dbind (dlift AuDecode (read_slice (unat len))) (\<lambda>name.
       if utf8_valid name then dreturn name else derror (AuInvalid ''service name is not ASCII'')))"

definition read_authorization :: "(authority_error, service_authorization) reader" where
  "read_authorization =
     dbind (dlift AuDecode read_u8) (\<lambda>version.
     if version \<noteq> hsa_version then derror (AuInvalid ''unsupported service authorization version'')
     else
       dbind (dlift AuDecode read_u32_le) (\<lambda>network_magic.
       dbind (dlift AuDecode (read_array 32)) (\<lambda>name_hash.
       dbind (dlift AuDecode read_u32_le) (\<lambda>authority_epoch.
       dbind read_service_name (\<lambda>service_name.
       dbind (dlift AuDecode read_u16_le) (\<lambda>profile_id.
       dbind (dlift AuDecode (read_array 33)) (\<lambda>service_key.
       dbind (dlift AuDecode read_u16_le) (\<lambda>flags.
       dbind (dlift AuDecode read_u64_le) (\<lambda>serial.
       dbind (dlift AuDecode read_u32_le) (\<lambda>valid_from_height.
       dbind (dlift AuDecode read_u32_le) (\<lambda>valid_until_height.
       dbind (dlift AuDecode read_u32_le) (\<lambda>max_endpoint_lifetime.
       dbind read_signature (\<lambda>root_signature.
         dreturn \<lparr>sa_network_magic = network_magic, sa_name_hash = name_hash, sa_authority_epoch = authority_epoch,
           sa_service_name = service_name, sa_profile_id = profile_id, sa_service_key = service_key, sa_flags = flags,
           sa_serial = serial, sa_valid_from_height = valid_from_height, sa_valid_until_height = valid_until_height,
           sa_max_endpoint_lifetime = max_endpoint_lifetime, sa_root_signature = root_signature\<rparr>)))))))))))))"

definition authorization_decode :: "k256 \<Rightarrow> bytes \<Rightarrow> authority_error + service_authorization" where
  "authorization_decode K input =
     (if input = [] \<or> length input > max_service_authorization_size then Inl (AuInvalid ''invalid service authorization size'')
      else
        bind_res (read_authorization (decoder_new input)) (\<lambda>(a, d).
        bind_res (map_err AuDecode (decoder_finish d)) (\<lambda>_.
        bind_res (authorization_encode_unsigned K a) (\<lambda>_. Inr a))))"

section \<open>Endpoint delegations\<close>

record endpoint_delegation =
  ed_network_magic :: u32
  ed_authorization_id :: bytes
  ed_endpoint_key :: bytes
  ed_endpoint_sequence :: u64
  ed_issued_at :: u64
  ed_expires_at :: u64
  ed_capabilities :: u32
  ed_constraints_hash :: bytes
  ed_service_signature :: bytes

definition put_delegation :: "endpoint_delegation \<Rightarrow> encoder \<Rightarrow> encoder" where
  "put_delegation d = put_seq
     [put_u8 hsa_version, put_u32_le (ed_network_magic d), put_bytes (ed_authorization_id d), put_bytes (ed_endpoint_key d),
      put_u64_le (ed_endpoint_sequence d), put_u64_le (ed_issued_at d), put_u64_le (ed_expires_at d),
      put_u32_le (ed_capabilities d), put_bytes (ed_constraints_hash d)]"

definition delegation_encode_unsigned :: "k256 \<Rightarrow> endpoint_delegation \<Rightarrow> authority_error + bytes" where
  "delegation_encode_unsigned K d =
     bind_res (validate_public_key K (ed_endpoint_key d)) (\<lambda>_. Inr (encode_with [put_delegation d]))"

definition delegation_sign ::
  "authority_crypto \<Rightarrow> endpoint_delegation \<Rightarrow> bytes \<Rightarrow> authority_error + endpoint_delegation" where
  "delegation_sign A d private_key =
     bind_res (delegation_encode_unsigned (ac_k256 A) d) (\<lambda>unsigned.
     bind_res (authority_sign A endpoint_delegation_domain (tl unsigned) private_key) (\<lambda>s.
     Inr (d\<lparr>ed_service_signature := s\<rparr>)))"

text \<open>The checks after the identifier has been compared.\<close>

definition delegation_context ::
  "endpoint_delegation \<Rightarrow> service_authorization \<Rightarrow> u64 \<Rightarrow> u32 \<Rightarrow> bytes \<Rightarrow> bool" where
  "delegation_context d a now allowed_capabilities expected_constraints_hash \<longleftrightarrow>
     \<not> (ed_endpoint_sequence d = 0 \<or> ed_capabilities d AND NOT allowed_capabilities \<noteq> 0 \<or>
        ed_constraints_hash d \<noteq> expected_constraints_hash \<or> ed_expires_at d \<le> ed_issued_at d \<or>
        saturating_sub (ed_expires_at d) (ed_issued_at d) > ucast (sa_max_endpoint_lifetime a) \<or>
        now < ed_issued_at d \<or> now \<ge> ed_expires_at d)"

definition delegation_verify ::
  "authority_crypto \<Rightarrow> endpoint_delegation \<Rightarrow> service_authorization \<Rightarrow> u64 \<Rightarrow> u32 \<Rightarrow> bytes \<Rightarrow> authority_error + unit" where
  "delegation_verify A d a now allowed_capabilities expected_constraints_hash =
     (let refused = Inl (AuInvalid ''invalid endpoint delegation context'') in
      if ed_network_magic d \<noteq> sa_network_magic a then refused
      else
        bind_res (authorization_id A a) (\<lambda>i.
        if ed_authorization_id d \<noteq> i \<or> \<not> delegation_context d a now allowed_capabilities expected_constraints_hash then refused
        else
          bind_res (delegation_encode_unsigned (ac_k256 A) d) (\<lambda>unsigned.
          authority_verify A endpoint_delegation_domain (tl unsigned) (ed_service_signature d) (sa_service_key a))))"

definition delegation_encode :: "k256 \<Rightarrow> endpoint_delegation \<Rightarrow> authority_error + bytes" where
  "delegation_encode K d =
     bind_res (delegation_encode_unsigned K d) (\<lambda>unsigned.
     bind_res (put_signature (ed_service_signature d) (put_bytes unsigned encoder_new)) (\<lambda>e.
     if length (into_bytes e) > max_endpoint_delegation_size then Inl (AuInvalid ''endpoint delegation is too large'')
     else Inr (into_bytes e)))"

definition delegation_id :: "authority_crypto \<Rightarrow> endpoint_delegation \<Rightarrow> authority_error + bytes" where
  "delegation_id A d =
     bind_res (delegation_encode (ac_k256 A) d) (\<lambda>encoded.
     Inr (ac_blake2b_256 A (endpoint_delegation_id_domain @ encoded)))"

definition read_delegation :: "(authority_error, endpoint_delegation) reader" where
  "read_delegation =
     dbind (dlift AuDecode read_u8) (\<lambda>version.
     if version \<noteq> hsa_version then derror (AuInvalid ''unsupported endpoint delegation version'')
     else
       dbind (dlift AuDecode read_u32_le) (\<lambda>network_magic.
       dbind (dlift AuDecode (read_array 32)) (\<lambda>authorization_id.
       dbind (dlift AuDecode (read_array 33)) (\<lambda>endpoint_key.
       dbind (dlift AuDecode read_u64_le) (\<lambda>endpoint_sequence.
       dbind (dlift AuDecode read_u64_le) (\<lambda>issued_at.
       dbind (dlift AuDecode read_u64_le) (\<lambda>expires_at.
       dbind (dlift AuDecode read_u32_le) (\<lambda>capabilities.
       dbind (dlift AuDecode (read_array 32)) (\<lambda>constraints_hash.
       dbind read_signature (\<lambda>service_signature.
         dreturn \<lparr>ed_network_magic = network_magic, ed_authorization_id = authorization_id, ed_endpoint_key = endpoint_key,
           ed_endpoint_sequence = endpoint_sequence, ed_issued_at = issued_at, ed_expires_at = expires_at,
           ed_capabilities = capabilities, ed_constraints_hash = constraints_hash,
           ed_service_signature = service_signature\<rparr>))))))))))"

definition delegation_decode :: "k256 \<Rightarrow> bytes \<Rightarrow> authority_error + endpoint_delegation" where
  "delegation_decode K input =
     (if input = [] \<or> length input > max_endpoint_delegation_size then Inl (AuInvalid ''invalid endpoint delegation size'')
      else
        bind_res (read_delegation (decoder_new input)) (\<lambda>(d, c).
        bind_res (map_err AuDecode (decoder_finish c)) (\<lambda>_.
        bind_res (delegation_encode_unsigned K d) (\<lambda>_. Inr d))))"

section \<open>Selection\<close>

fun select_loop ::
  "('a \<Rightarrow> bool) \<Rightarrow> ('a \<Rightarrow> u64) \<Rightarrow> ('a \<Rightarrow> authority_error + bytes) \<Rightarrow> 'a list \<Rightarrow> 'a option \<Rightarrow> authority_error + 'a option" where
  "select_loop is_candidate sequence encode [] selected = Inr selected"
| "select_loop is_candidate sequence encode (c # cs) selected =
     (if \<not> is_candidate c then select_loop is_candidate sequence encode cs selected
      else
        case selected of
          None \<Rightarrow> select_loop is_candidate sequence encode cs (Some c)
        | Some current \<Rightarrow>
            if sequence c > sequence current then select_loop is_candidate sequence encode cs (Some c)
            else if sequence c = sequence current then
              bind_res (encode c) (\<lambda>e. bind_res (encode current) (\<lambda>e'.
              if e \<noteq> e' then Inl AuConflictingSequence else select_loop is_candidate sequence encode cs selected))
            else select_loop is_candidate sequence encode cs selected)"

definition select_by_sequence ::
  "'a list \<Rightarrow> nat \<Rightarrow> ('a \<Rightarrow> bool) \<Rightarrow> ('a \<Rightarrow> u64) \<Rightarrow> ('a \<Rightarrow> authority_error + bytes) \<Rightarrow> authority_error + 'a" where
  "select_by_sequence candidates maximum is_candidate sequence encode =
     (let candidates = take (saturating_add_usize maximum 1) candidates in
      if length candidates > maximum then Inl (AuInvalid ''too many authorization candidates'')
      else
        bind_res (select_loop is_candidate sequence encode candidates None) (\<lambda>selected. ok_or selected AuMissing))"

definition select_service_authorization ::
  "authority_crypto \<Rightarrow> service_authorization list \<Rightarrow> authority_record \<Rightarrow> service_identity \<Rightarrow> u32 \<Rightarrow> u16 \<Rightarrow>
   authority_error + service_authorization" where
  "select_service_authorization A candidates authority identity current_height allowed_flags =
     select_by_sequence candidates max_service_authorization_candidates
       (\<lambda>c. is_ok (authorization_verify A c authority identity current_height allowed_flags)) sa_serial
       (authorization_encode (ac_k256 A))"

definition select_endpoint_delegation ::
  "authority_crypto \<Rightarrow> endpoint_delegation list \<Rightarrow> service_authorization \<Rightarrow> u64 \<Rightarrow> u32 \<Rightarrow> bytes \<Rightarrow>
   (endpoint_delegation \<Rightarrow> bool) \<Rightarrow> authority_error + endpoint_delegation" where
  "select_endpoint_delegation A candidates a now allowed_capabilities expected_constraints_hash is_logical_endpoint =
     select_by_sequence candidates max_endpoint_delegation_candidates
       (\<lambda>c. is_logical_endpoint c \<and> is_ok (delegation_verify A c a now allowed_capabilities expected_constraints_hash))
       ed_endpoint_sequence (delegation_encode (ac_k256 A))"

end
