(* ===== verification/Base32.thy ===== *)
theory Base32
  imports Authority
begin

text \<open>
  Base32 of the authority record: the encoder regroups the bits of the input, most significant first, into digits of five
  bits, and the decoder regroups them back.
\<close>

definition bits_of :: "nat \<Rightarrow> 'w::len word \<Rightarrow> bool list" where
  "bits_of n w = map (bit w) (rev [0..<n])"

lemma length_bits_of [simp]: "length (bits_of n w) = n"
  by (simp add: bits_of_def)

lemma bits_of_0 [simp]: "bits_of 0 w = []"
  by (simp add: bits_of_def)

lemma bits_of_split: "bits_of (m + n) w = bits_of m (drop_bit n w) @ bits_of n w"
proof -
  have "[0..<n + m] = [0..<n] @ [n..<n + m]" by (rule upt_add_eq_append) simp
  moreover have "[n..<n + m] = map (\<lambda>i. i + n) [0..<m]" unfolding map_add_upt by (simp only: add.commute)
  ultimately have "[0..<m + n] = [0..<n] @ map (\<lambda>i. i + n) [0..<m]" by (simp only: add.commute)
  moreover have "bit w (i + n) = bit (drop_bit n w) i" for i by (simp add: bit_drop_bit_eq add.commute)
  ultimately show ?thesis by (simp add: bits_of_def rev_map comp_def)
qed

lemma bits_of_cong: "(\<And>i. i < n \<Longrightarrow> bit v i = bit w i) \<Longrightarrow> bits_of n v = bits_of n w"
  by (simp add: bits_of_def)

lemma bits_of_eqD: "bits_of n v = bits_of n w \<Longrightarrow> i < n \<Longrightarrow> bit v i = bit w i"
  by (simp add: bits_of_def)

lemma bits_of_byte_inject: "bits_of 8 v = bits_of 8 w \<Longrightarrow> v = (w :: byte)"
  by (rule bit_word_eqI) (auto dest: bits_of_eqD)

lemma length_concat_bits: "length (concat (map (bits_of n) xs)) = n * length xs"
  by (induction xs) simp_all

lemma bits_of_zero: "bits_of n (0 :: 'w::len word) = replicate n False"
  by (rule nth_equalityI) (simp_all add: bits_of_def)

lemma concat_bits_inject:
  "concat (map (bits_of 8) xs) @ r = concat (map (bits_of 8) ys) @ s \<Longrightarrow> length r < 8 \<Longrightarrow> length s < 8 \<Longrightarrow>
    xs = (ys :: bytes) \<and> r = s"
proof (induction xs arbitrary: ys)
  case Nil
  then have "length r = 8 * length ys + length s" by (simp add: length_concat_bits)
  with Nil show ?case by (cases ys) auto
next
  case (Cons x xs)
  show ?case
  proof (cases ys)
    case Nil
    have "length (concat (map (bits_of 8) (x # xs)) @ r) = length s" using Cons.prems(1) Nil by simp
    then show ?thesis using Cons.prems by simp
  next
    case (Cons y ys')
    with Cons.prems(1) have "bits_of 8 x = bits_of 8 y"
      and r: "concat (map (bits_of 8) xs) @ r = concat (map (bits_of 8) ys') @ s" by simp_all
    then show ?thesis using Cons.IH [OF r] Cons.prems Cons bits_of_byte_inject by auto
  qed
qed

section \<open>Digits\<close>

definition digit :: "nat \<Rightarrow> byte" where
  "digit v = base32_alphabet ! v"

definition digit_bits :: "nat \<Rightarrow> bool list" where
  "digit_bits v = bits_of 5 (word_of_nat v :: u16)"

lemma list_position_digit: "v < 32 \<Longrightarrow> list_position (digit v) base32_alphabet = Some v"
proof -
  have "\<forall>v \<in> set [0..<32]. list_position (digit v) base32_alphabet = Some v" by code_simp
  then show "v < 32 \<Longrightarrow> list_position (digit v) base32_alphabet = Some v" by simp
qed

lemma digit_chars: "v < 32 \<Longrightarrow> is_ascii_graphic (digit v)"
proof -
  have "\<forall>v \<in> set [0..<32]. is_ascii_graphic (digit v)" by code_simp
  then show "v < 32 \<Longrightarrow> is_ascii_graphic (digit v)" by simp
qed

section \<open>The encoder\<close>

lemma and_31: "unat (w AND 31 :: u16) < 32"
proof -
  have "w AND 31 = take_bit 5 w" by (simp add: take_bit_eq_mask mask_eq_exp_minus_1)
  then show ?thesis by (simp add: take_bit_eq_mod unat_mod_distrib unsigned_take_bit_eq)
qed

lemma digit_bits_and: "digit_bits (unat (w AND 31)) = bits_of 5 w"
proof -
  have "w AND 31 = take_bit 5 w" by (simp add: take_bit_eq_mask mask_eq_exp_minus_1)
  then show ?thesis unfolding digit_bits_def by (intro bits_of_cong) (simp add: bit_simps)
qed

lemma drain_regroups:
  assumes "base32_drain buffer bits out = (out', bits')"
  shows "bits' < 5 \<and> (\<exists>vs. (\<forall>v \<in> set vs. v < 32) \<and> out' = out @ map digit vs \<and>
    concat (map digit_bits vs) @ bits_of bits' buffer = bits_of bits buffer)"
  using assms
proof (induction buffer bits out arbitrary: out' bits' rule: base32_drain.induct)
  case (1 buffer bits out)
  show ?case
  proof (cases "bits \<ge> 5")
    case False
    then have "out' = out" "bits' = bits" using 1(2) by (simp_all add: base32_drain.simps [of buffer bits out])
    then show ?thesis using False by (auto intro: exI [of _ "[]"])
  next
    case True
    let ?v = "unat (drop_bit (bits - 5) buffer AND 31)"
    have "base32_drain buffer (bits - 5) (out @ [digit ?v]) = (out', bits')"
      using 1(2) True by (simp add: base32_drain.simps [of buffer bits out] digit_def)
    from 1(1) [OF True this [unfolded digit_def]] obtain vs where vs: "bits' < 5" "\<forall>v \<in> set vs. v < 32"
      "out' = (out @ [digit ?v]) @ map digit vs" "concat (map digit_bits vs) @ bits_of bits' buffer = bits_of (bits - 5) buffer"
      by (auto simp: digit_def)
    have "bits_of bits buffer = digit_bits ?v @ bits_of (bits - 5) buffer"
      using bits_of_split [of 5 "bits - 5" buffer] True by (simp add: digit_bits_and)
    then show ?thesis using vs and_31 by (intro conjI exI [of _ "?v # vs"]) auto
  qed
qed

lemma step_regroups:
  assumes "base32_step (out, buffer, bits) b = (out', buffer', bits')" "bits < 5"
  shows "bits' < 5 \<and> (\<exists>vs. (\<forall>v \<in> set vs. v < 32) \<and> out' = out @ map digit vs \<and>
    concat (map digit_bits vs) @ bits_of bits' buffer' = bits_of bits buffer @ bits_of 8 b)"
proof -
  have d: "base32_drain buffer' (bits + 8) out = (out', bits')" and b: "buffer' = push_bit 8 buffer OR ucast b"
    using assms(1) by (auto simp: base32_step_def Let_def split: prod.splits)
  have "bits_of (bits + 8) buffer' = bits_of bits (drop_bit 8 buffer') @ bits_of 8 buffer'" by (rule bits_of_split)
  also have "bits_of bits (drop_bit 8 buffer') = bits_of bits buffer"
    using assms(2) unfolding b by (intro bits_of_cong) (auto simp: bit_simps dest: bit_imp_le_length)
  also have "bits_of 8 buffer' = bits_of 8 b" unfolding b by (auto simp: bits_of_def bit_simps)
  finally show ?thesis using drain_regroups [OF d] by simp
qed

lemma fold_regroups:
  assumes "foldl base32_step (out, buffer, bits) xs = (out', buffer', bits')" "bits < 5"
  shows "bits' < 5 \<and> (\<exists>vs. (\<forall>v \<in> set vs. v < 32) \<and> out' = out @ map digit vs \<and>
    concat (map digit_bits vs) @ bits_of bits' buffer' = bits_of bits buffer @ concat (map (bits_of 8) xs))"
  using assms
proof (induction xs arbitrary: out buffer bits)
  case (Cons x xs)
  obtain o1 b1 n1 where s: "base32_step (out, buffer, bits) x = (o1, b1, n1)" by (metis prod_cases3)
  from step_regroups [OF s Cons.prems(2)] obtain vs where vs: "n1 < 5" "\<forall>v \<in> set vs. v < 32" "o1 = out @ map digit vs"
    "concat (map digit_bits vs) @ bits_of n1 b1 = bits_of bits buffer @ bits_of 8 x" by blast
  from Cons.IH [of o1 b1 n1] Cons.prems(1) s vs(1) obtain ws where ws: "bits' < 5" "\<forall>v \<in> set ws. v < 32"
    "out' = o1 @ map digit ws" "concat (map digit_bits ws) @ bits_of bits' buffer' = bits_of n1 b1 @ concat (map (bits_of 8) xs)"
    by auto
  have "concat (map digit_bits (vs @ ws)) @ bits_of bits' buffer' = bits_of bits buffer @ concat (map (bits_of 8) (x # xs))"
    using vs(4) ws(4) by (metis (no_types, lifting) append.assoc concat_append list.simps(9) map_append concat.simps(2))
  then show ?case using vs ws by (intro conjI exI [of _ "vs @ ws"]) auto
qed (auto intro: exI [of _ "[]"])

lemma encode_regroups:
  "\<exists>vs r. (\<forall>v \<in> set vs. v < 32) \<and> encode_base32 xs = map digit vs \<and> r < 5 \<and>
    concat (map digit_bits vs) = concat (map (bits_of 8) xs) @ replicate r False"
proof -
  obtain out buffer bits where f: "foldl base32_step ([], 0, 0) xs = (out, buffer, bits)" by (metis prod_cases3)
  from fold_regroups [OF f] obtain vs where vs: "bits < 5" "\<forall>v \<in> set vs. v < 32" "out = map digit vs"
    "concat (map digit_bits vs) @ bits_of bits buffer = concat (map (bits_of 8) xs)" by auto
  show ?thesis
  proof (cases "bits = 0")
    case True
    then have "encode_base32 xs = map digit vs" using f vs(3) by (simp add: encode_base32_def)
    then show ?thesis using vs True by (intro exI [of _ vs] exI [of _ 0]) simp
  next
    case False
    let ?w = "push_bit (5 - bits) buffer"
    have "encode_base32 xs = map digit (vs @ [unat (?w AND 31)])"
      using f vs(3) False by (simp add: encode_base32_def digit_def)
    moreover have "digit_bits (unat (?w AND 31)) = bits_of bits buffer @ replicate (5 - bits) False"
    proof -
      have "bits_of 5 ?w = bits_of bits (drop_bit (5 - bits) ?w) @ bits_of (5 - bits) ?w"
        using bits_of_split [of bits "5 - bits" ?w] vs(1) by simp
      moreover have "bits_of bits (drop_bit (5 - bits) ?w) = bits_of bits buffer"
        using vs(1) by (intro bits_of_cong) (auto simp: bit_simps)
      moreover have "bits_of (5 - bits) ?w = replicate (5 - bits) False"
        unfolding bits_of_zero [where 'w = 16, symmetric] by (intro bits_of_cong) (simp add: bit_simps)
      ultimately show ?thesis by (simp add: digit_bits_and)
    qed
    ultimately show ?thesis using vs False and_31
      by (intro exI [of _ "vs @ [unat (?w AND 31)]"] exI [of _ "5 - bits"]) auto
  qed
qed

section \<open>The decoder\<close>

definition pending :: "u16 \<Rightarrow> nat \<Rightarrow> bool" where
  "pending buffer bits \<longleftrightarrow> bits < 8 \<and> (\<forall>i \<ge> bits. \<not> bit buffer i)"

lemma saturating_mask: "n < 8 \<Longrightarrow> saturating_sub (2 ^ n) 1 = (mask n :: u16)"
proof -
  assume "n < 8"
  then consider "n = 0" | "n = 1" | "n = 2" | "n = 3" | "n = 4" | "n = 5" | "n = 6" | "n = 7" by linarith
  then show ?thesis by cases (simp_all add: saturating_sub_def mask_eq_exp_minus_1 word_le_nat_alt)
qed

lemma digit_high: "v < 32 \<Longrightarrow> i \<ge> 5 \<Longrightarrow> \<not> bit (word_of_nat v :: u16) i"
proof -
  assume "v < 32" "i \<ge> 5"
  then have "take_bit 5 v = v" by (simp add: take_bit_nat_eq_self_iff)
  then have "\<not> bit v i" using \<open>i \<ge> 5\<close> by (metis bit_take_bit_iff not_less)
  then show ?thesis by (simp add: bit_simps)
qed

lemma decode_step:
  assumes "pending buffer bits" "v < 32"
  shows "decode_base32_loop (digit v # cs) (out, buffer, bits) =
    (let nb = push_bit 5 buffer OR word_of_nat v in
     if bits \<ge> 3 then decode_base32_loop cs (out @ [ucast (drop_bit (bits - 3) nb)], nb AND mask (bits - 3), bits - 3)
     else decode_base32_loop cs (out, nb, bits + 5))"
proof -
  have "saturating_sub (2 ^ (bits - 3)) 1 = (mask (bits - 3) :: u16)"
    using assms(1) by (intro saturating_mask) (auto simp: pending_def)
  then show ?thesis using assms by (simp add: list_position_digit Let_def)
qed

lemma pushed_bits:
  assumes "pending buffer bits" "v < 32"
  defines "nb \<equiv> push_bit 5 buffer OR (word_of_nat v :: u16)"
  shows "bits_of (bits + 5) nb = bits_of bits buffer @ digit_bits v" "\<forall>i \<ge> bits + 5. \<not> bit nb i"
proof -
  have "bits_of (bits + 5) nb = bits_of bits (drop_bit 5 nb) @ bits_of 5 nb" by (rule bits_of_split)
  also have "bits_of bits (drop_bit 5 nb) = bits_of bits buffer"
    using assms(1,2) digit_high unfolding nb_def by (intro bits_of_cong) (auto simp: bit_simps pending_def)
  also have "bits_of 5 nb = digit_bits v"
    unfolding nb_def digit_bits_def by (intro bits_of_cong) (auto simp: bit_simps)
  finally show "bits_of (bits + 5) nb = bits_of bits buffer @ digit_bits v" .
  show "\<forall>i \<ge> bits + 5. \<not> bit nb i"
    using assms(1,2) digit_high unfolding nb_def by (auto simp: bit_simps pending_def)
qed

lemma decode_regroups:
  assumes "\<forall>v \<in> set vs. v < 32" "pending buffer bits"
  shows "\<exists>out' buffer' bits'. decode_base32_loop (map digit vs) (out, buffer, bits) = Inr (out', buffer', bits') \<and>
    pending buffer' bits' \<and> concat (map (bits_of 8) out') @ bits_of bits' buffer' =
      concat (map (bits_of 8) out) @ bits_of bits buffer @ concat (map digit_bits vs)"
  using assms
proof (induction vs arbitrary: out buffer bits)
  case (Cons v vs)
  let ?nb = "push_bit 5 buffer OR (word_of_nat v :: u16)"
  have v: "v < 32" using Cons.prems by simp
  note nb = pushed_bits [OF Cons.prems(2) v]
  have step: "decode_base32_loop (map digit (v # vs)) (out, buffer, bits) =
    (let nb = ?nb in if bits \<ge> 3 then
       decode_base32_loop (map digit vs) (out @ [ucast (drop_bit (bits - 3) nb)], nb AND mask (bits - 3), bits - 3)
     else decode_base32_loop (map digit vs) (out, nb, bits + 5))"
    using decode_step [OF Cons.prems(2) v] by simp
  show ?case
  proof (cases "bits \<ge> 3")
    case False
    then have "pending ?nb (bits + 5)" using nb(2) by (simp add: pending_def)
    then show ?thesis using Cons.IH [of ?nb "bits + 5" out] Cons.prems step False nb(1) by auto
  next
    case True
    let ?b = "ucast (drop_bit (bits - 3) ?nb) :: byte" and ?m = "?nb AND mask (bits - 3)"
    have p: "pending ?m (bits - 3)" using Cons.prems(2) by (auto simp: pending_def bit_simps)
    have "bits_of (8 + (bits - 3)) ?nb = bits_of 8 (drop_bit (bits - 3) ?nb) @ bits_of (bits - 3) ?nb" by (rule bits_of_split)
    moreover have "bits_of 8 (drop_bit (bits - 3) ?nb) = bits_of 8 ?b" by (auto simp: bits_of_def bit_simps)
    moreover have "bits_of (bits - 3) ?nb = bits_of (bits - 3) ?m" by (intro bits_of_cong) (auto simp: bit_simps)
    moreover have "8 + (bits - 3) = bits + 5" using True by simp
    ultimately have s: "bits_of bits buffer @ digit_bits v = bits_of 8 ?b @ bits_of (bits - 3) ?m" using nb(1) by simp
    from Cons.IH [of ?m "bits - 3" "out @ [?b]"] Cons.prems p obtain o' b' n' where
      r: "decode_base32_loop (map digit vs) (out @ [?b], ?m, bits - 3) = Inr (o', b', n')" "pending b' n'"
      "concat (map (bits_of 8) o') @ bits_of n' b' =
        concat (map (bits_of 8) (out @ [?b])) @ bits_of (bits - 3) ?m @ concat (map digit_bits vs)" by auto
    have "concat (map (bits_of 8) o') @ bits_of n' b' =
        concat (map (bits_of 8) out) @ bits_of bits buffer @ concat (map digit_bits (v # vs))"
    proof -
      have "bits_of 8 ?b @ bits_of (bits - 3) ?m @ z = bits_of bits buffer @ digit_bits v @ z" for z
        using arg_cong [OF s, of "\<lambda>x. x @ z"] by simp
      then show ?thesis unfolding r(3) by (simp only: map_append concat_append list.map concat.simps append.assoc append_Nil append_Nil2)
    qed
    then show ?thesis using r(1,2) step True by (simp add: Let_def)
  qed
qed (auto intro: exI)

theorem decode_encode_base32: "decode_base32 (encode_base32 xs) = Inr xs"
proof -
  obtain vs r where vs: "\<forall>v \<in> set vs. v < 32" "encode_base32 xs = map digit vs" "r < 5"
    "concat (map digit_bits vs) = concat (map (bits_of 8) xs) @ replicate r False" using encode_regroups by blast
  have "pending 0 0" by (simp add: pending_def)
  from decode_regroups [OF vs(1) this, of "[]"] obtain out buffer bits where
    d: "decode_base32_loop (map digit vs) ([], 0, 0) = Inr (out, buffer, bits)" "pending buffer bits"
    "concat (map (bits_of 8) out) @ bits_of bits buffer = concat (map (bits_of 8) xs) @ replicate r False"
    using vs(4) by auto
  have o: "out = xs" "bits_of bits buffer = replicate r False"
    using concat_bits_inject [OF d(3)] d(2) vs(3) by (simp_all add: pending_def)
  have "buffer = 0"
  proof (rule bit_word_eqI)
    fix i
    have "\<not> bit buffer i" if "i < bits"
    proof -
      have "bits_of bits buffer = bits_of bits (0 :: u16)" using o(2) by (metis bits_of_zero length_bits_of length_replicate)
      then show ?thesis using bits_of_eqD [OF _ that, of buffer "0 :: u16"] by simp
    qed
    then show "bit buffer i = bit 0 i" using d(2) by (cases "i < bits") (auto simp: pending_def)
  qed
  then show ?thesis using d(1) o(1) vs(2) by (simp add: decode_base32_def)
qed

lemma encode_base32_chars: "list_all is_ascii_graphic (encode_base32 xs)"
  using encode_regroups [of xs] digit_chars by (auto simp: list_all_iff)

lemma length_encode_base32: "length xs = 33 \<Longrightarrow> length (encode_base32 xs) = 53"
proof -
  assume "length xs = 33"
  obtain vs r where vs: "encode_base32 xs = map digit vs" "r < 5"
    "concat (map digit_bits vs) = concat (map (bits_of 8) xs) @ replicate r False" using encode_regroups by blast
  have "length (concat (map digit_bits vs)) = 5 * length vs" by (induction vs) (simp_all add: digit_bits_def)
  then have "5 * length vs = 264 + r" using vs(3) \<open>length xs = 33\<close> by (simp add: length_concat_bits)
  then show ?thesis using vs(1,2) by simp
qed

end
