(* ===== verification/AuthorityProofs.thy ===== *)
theory AuthorityProofs
  imports Base32
begin

text \<open>
  The service authority of a name: the texts that stand for an authority record, the unique encodings of authorizations and
  delegations, what a delegation is bound to, and which candidate a selection returns.
\<close>

section \<open>Authority records\<close>

definition record_text :: "bytes \<Rightarrow> bytes \<Rightarrow> bytes" where
  "record_text key epoch = ascii ''hsa1 k='' @ key @ ascii '' e='' @ epoch"

lemma ascii_parts:
  "ascii ''hsa1 k='' = ascii ''hsa1'' @ 32 # ascii ''k=''" "ascii '' e='' = 32 # ascii ''e=''"
  "32 \<notin> set (ascii ''hsa1'')" "32 \<notin> set (ascii ''k='')" "32 \<notin> set (ascii ''e='')"
  by code_simp+

lemma split_record_text:
  assumes "32 \<notin> set key" "32 \<notin> set epoch"
  shows "split_on 32 (record_text key epoch) = [ascii ''hsa1'', ascii ''k='' @ key, ascii ''e='' @ epoch]"
proof -
  have "record_text key epoch = ascii ''hsa1'' @ 32 # (ascii ''k='' @ key) @ 32 # (ascii ''e='' @ epoch)"
    by (simp add: record_text_def ascii_parts(1,2))
  then show ?thesis using assms ascii_parts(3-5) by (simp only: split_on_append split_on_no_sep set_append Un_iff simp_thms)
qed

lemma split_three:
  assumes "split_on c s = [x, y, z]"
  shows "s = x @ c # y @ c # z" "c \<notin> set x" "c \<notin> set y" "c \<notin> set z"
proof -
  from split_on_Cons [OF assms] obtain r where r: "s = x @ c # r" "split_on c r = [y, z]" "c \<notin> set x" by auto
  from split_on_Cons [OF r(2)] obtain q where q: "r = y @ c # q" "split_on c q = [z]" "c \<notin> set y" by auto
  from split_on_Cons [OF q(2)] have "q = z" "c \<notin> set z" by auto
  then show "s = x @ c # y @ c # z" "c \<notin> set x" "c \<notin> set y" "c \<notin> set z" using r q by auto
qed

definition printable :: "bytes \<Rightarrow> bool" where
  "printable s \<longleftrightarrow> list_all (\<lambda>c. is_ascii_graphic c \<or> c = 32) s"

lemma printable_iff: "is_ascii s \<and> \<not> list_ex (\<lambda>c. \<not> is_ascii_graphic c \<and> c \<noteq> 32) s \<longleftrightarrow> printable s"
proof -
  have "is_ascii_graphic c \<or> c = 32 \<Longrightarrow> c < 128" for c :: byte
    by (auto simp: is_ascii_graphic_def word_less_nat_alt word_le_nat_alt)
  then show ?thesis by (auto simp: printable_def is_ascii_def list_all_iff list_ex_iff)
qed

lemma record_parse_iff:
  "record_parse K t = Inr r \<longleftrightarrow> printable t \<and> (\<exists>epoch. t = record_text (encode_base32 (ar_root_key r)) epoch \<and> 32 \<notin> set epoch \<and>
     epoch \<noteq> [] \<and> \<not> (length epoch > 1 \<and> starts_with [48] epoch) \<and> parse_u32 epoch = Some (ar_epoch r)) \<and>
     length (ar_root_key r) = 33 \<and> k_public_key_parses K (ar_root_key r)"
proof
  assume p: "record_parse K t = Inr r"
  let ?fs = "split_on 32 t"
  have pr: "printable t" using p printable_iff [of t] by (auto simp: record_parse_def split: if_splits)
  from p obtain key epoch where m: "nth_field ?fs 0 = Some (ascii ''hsa1'')"
    and k: "(case nth_field ?fs 1 of Some f \<Rightarrow> strip_prefix (ascii ''k='') f | None \<Rightarrow> None) = Some key"
    and e: "(case nth_field ?fs 2 of Some f \<Rightarrow> strip_prefix (ascii ''e='') f | None \<Rightarrow> None) = Some epoch"
    and n: "nth_field ?fs 3 = None" "epoch \<noteq> []" "\<not> (length epoch > 1 \<and> starts_with [48] epoch)"
    and ep: "parse_u32 epoch = Some (ar_epoch r)"
    and d: "decode_base32 key = Inr (ar_root_key r)" "encode_base32 (ar_root_key r) = key" "length (ar_root_key r) = 33"
      "k_public_key_parses K (ar_root_key r)"
    by (auto simp: record_parse_def record_field_def Let_def bind_res_eq_Inr validate_public_key_def split: if_splits)
  have l: "length ?fs = 3" using n(1) e by (auto simp: nth_field_def split: if_splits)
  then have fs: "?fs = [?fs ! 0, ?fs ! 1, ?fs ! 2]" by (auto simp: numeral_eq_Suc length_Suc_conv)
  have "?fs ! 0 = ascii ''hsa1''" "?fs ! 1 = ascii ''k='' @ key" "?fs ! 2 = ascii ''e='' @ epoch"
    using m k e l by (auto simp: nth_field_def strip_prefix_iff split: if_splits)
  with fs have "?fs = [ascii ''hsa1'', ascii ''k='' @ key, ascii ''e='' @ epoch]" by simp
  note s = split_three [OF this]
  have "t = record_text key epoch" using s(1) by (simp add: record_text_def ascii_parts(1,2))
  then show "printable t \<and> (\<exists>epoch. t = record_text (encode_base32 (ar_root_key r)) epoch \<and> 32 \<notin> set epoch \<and>
     epoch \<noteq> [] \<and> \<not> (length epoch > 1 \<and> starts_with [48] epoch) \<and> parse_u32 epoch = Some (ar_epoch r)) \<and>
     length (ar_root_key r) = 33 \<and> k_public_key_parses K (ar_root_key r)"
    using pr d n(2,3) ep s(4) by auto
next
  assume "printable t \<and> (\<exists>epoch. t = record_text (encode_base32 (ar_root_key r)) epoch \<and> 32 \<notin> set epoch \<and>
     epoch \<noteq> [] \<and> \<not> (length epoch > 1 \<and> starts_with [48] epoch) \<and> parse_u32 epoch = Some (ar_epoch r)) \<and>
     length (ar_root_key r) = 33 \<and> k_public_key_parses K (ar_root_key r)"
  then obtain epoch where pr: "printable t" and t: "t = record_text (encode_base32 (ar_root_key r)) epoch" "32 \<notin> set epoch"
    and e: "epoch \<noteq> []" "\<not> (length epoch > 1 \<and> starts_with [48] epoch)" "parse_u32 epoch = Some (ar_epoch r)"
    and k: "length (ar_root_key r) = 33" "k_public_key_parses K (ar_root_key r)" by auto
  let ?key = "encode_base32 (ar_root_key r)"
  have "32 \<notin> set ?key" using encode_base32_chars [of "ar_root_key r"] by (auto simp: list_all_iff is_ascii_graphic_def)
  note fs = split_record_text [OF this t(2), folded t(1)]
  have len: "length ?key = 53" using length_encode_base32 [OF k(1)] .
  then have ne: "?key \<noteq> []" by auto
  have fields: "nth_field (split_on 32 t) 0 = Some (ascii ''hsa1'')" "nth_field (split_on 32 t) 1 = Some (ascii ''k='' @ ?key)"
    "nth_field (split_on 32 t) 2 = Some (ascii ''e='' @ epoch)" "nth_field (split_on 32 t) 3 = None"
    unfolding fs by (simp_all add: nth_field_def)
  have strip: "strip_prefix p (p @ s) = Some s" for p s by (simp add: strip_prefix_iff)
  show "record_parse K t = Inr r"
    using pr [folded printable_iff] e k ne len
    by (auto simp: record_parse_def record_field_def Let_def fields fields(2) [unfolded One_nat_def] strip decode_encode_base32 compressed_key_base32_length_def
        validate_public_key_def)
qed

lemma digits_graphic:
  assumes "list_all is_ascii_digit ds"
  shows "list_all is_ascii_graphic ds" "32 \<notin> set ds"
proof -
  have "is_ascii_digit c \<Longrightarrow> is_ascii_graphic c \<and> c \<noteq> 32" for c :: byte
    by (auto simp: is_ascii_digit_def is_ascii_graphic_def word_le_nat_alt)
  then show "list_all is_ascii_graphic ds" "32 \<notin> set ds" using assms by (auto simp: list_all_iff)
qed

text \<open>
  C25: the texts of an authority record. A text is parsed as a record exactly when it is the canonical text of the record, or
  when its epoch is written with a plus sign and any number of zeros: the parser of the standard library accepts the sign,
  and the check for a leading zero looks in front of it.
\<close>

theorem authority_record_exact:
  "record_parse K t = Inr r \<longleftrightarrow>
     length (ar_root_key r) = 33 \<and> (record_encode K r = Inr t \<or>
       k_public_key_parses K (ar_root_key r) \<and>
       (\<exists>n. t = ascii ''hsa1 k='' @ encode_base32 (ar_root_key r) @ ascii '' e=+'' @ replicate n 48 @ decimal_bytes (unat (ar_epoch r))))"
proof -
  let ?key = "encode_base32 (ar_root_key r)" and ?e = "decimal_bytes (unat (ar_epoch r))"
  let ?ok = "\<lambda>epoch. 32 \<notin> set epoch \<and> epoch \<noteq> [] \<and> \<not> (length epoch > 1 \<and> starts_with [48] epoch) \<and>
    parse_u32 epoch = Some (ar_epoch r)"
  have d: "list_all is_ascii_graphic ?e" "32 \<notin> set ?e" "list_all is_ascii_graphic (replicate n 48 @ ?e)"
    "32 \<notin> set (replicate n 48 @ ?e)" for n
    by (rule digits_graphic [OF decimal_bytes_digits] digits_graphic [OF digit_zeros])+
  have ok: "?ok epoch \<longleftrightarrow> epoch = ?e \<or> (\<exists>n. epoch = 43 # replicate n 48 @ ?e)" for epoch
  proof
    assume "?ok epoch"
    then show "epoch = ?e \<or> (\<exists>n. epoch = 43 # replicate n 48 @ ?e)" using parse_u32_canonical [of epoch "ar_epoch r"] by blast
  next
    assume e: "epoch = ?e \<or> (\<exists>n. epoch = 43 # replicate n 48 @ ?e)"
    have "\<not> (length ?e > 1 \<and> starts_with [48] ?e)"
    proof
      assume z: "length ?e > 1 \<and> starts_with [48] ?e"
      then have "hd ?e = 48" by (cases ?e) (auto simp: starts_with_def)
      then have "unat (ar_epoch r) = 0" using decimal_no_leading_zero by blast
      then show False using z by (simp add: decimal_bytes.simps [of 0])
    qed
    with e have c: "\<not> (length epoch > 1 \<and> starts_with [48] epoch)" by (auto simp: starts_with_def)
    have "32 \<notin> set epoch" using e
    proof
      assume "\<exists>n. epoch = 43 # replicate n 48 @ ?e"
      then obtain n where "epoch = 43 # replicate n 48 @ ?e" by blast
      then show ?thesis using d(4) [of n] by simp
    qed (use d(2) in simp)
    moreover have "epoch \<noteq> []" using e decimal_bytes_not_Nil [of "unat (ar_epoch r)"] by force
    moreover have "parse_u32 epoch = Some (ar_epoch r)" using parse_u32_canonical [OF c] e by blast
    ultimately show "?ok epoch" using c by blast
  qed
  have pr: "printable (record_text ?key epoch)" if "?ok epoch" for epoch
  proof -
    have "list_all (\<lambda>c. is_ascii_graphic c \<or> c = 32) (ascii ''hsa1 k='')" "list_all (\<lambda>c. is_ascii_graphic c \<or> c = 32) (ascii '' e='')"
      by code_simp+
    moreover have "list_all is_ascii_graphic epoch" using that [unfolded ok]
    proof
      assume "\<exists>n. epoch = 43 # replicate n 48 @ ?e"
      then obtain n where "epoch = 43 # replicate n 48 @ ?e" by blast
      then show ?thesis using d(3) [of n] by (simp add: is_ascii_graphic_def)
    qed (use d(1) in simp)
    ultimately show ?thesis using encode_base32_chars [of "ar_root_key r"]
      by (auto simp: printable_def record_text_def list_all_iff)
  qed
  have plus: "ascii '' e=+'' @ z = ascii '' e='' @ 43 # z" for z by (simp add: ascii_def)
  have "record_parse K t = Inr r \<longleftrightarrow> (\<exists>epoch. t = record_text ?key epoch \<and> ?ok epoch) \<and>
      length (ar_root_key r) = 33 \<and> k_public_key_parses K (ar_root_key r)"
    unfolding record_parse_iff using pr by blast
  also have "\<dots> \<longleftrightarrow> (t = record_text ?key ?e \<or> (\<exists>n. t = record_text ?key (43 # replicate n 48 @ ?e))) \<and>
      length (ar_root_key r) = 33 \<and> k_public_key_parses K (ar_root_key r)"
    unfolding ok by blast
  finally show ?thesis
    unfolding record_encode_def plus by (auto simp: record_text_def validate_public_key_def)
qed

section \<open>Codecs\<close>

definition short_bytes :: "bytes \<Rightarrow> bytes" where
  "short_bytes s = word_of_nat (length s) # s"

interpretation sig: codec short_bytes read_signature "\<lambda>s. s \<noteq> [] \<and> length s \<le> max_signature_size"
proof
  fix s pre suf
  assume s: "s \<noteq> [] \<and> length s \<le> max_signature_size" and "fits pre (short_bytes s @ suf)"
  moreover have "unat (word_of_nat (length s) :: byte) = length s" using s by (simp add: max_signature_size_def unat_of_nat)
  ultimately show "read_signature (cursor pre (short_bytes s @ suf)) = Inr (s, cursor (pre @ short_bytes s) suf)"
    by (simp add: read_signature_def short_bytes_def dbind_run Suc_le_eq)
next
  fix pre rest s d'
  assume "read_signature (cursor pre rest) = Inr (s, d')"
  then show "(s \<noteq> [] \<and> length s \<le> max_signature_size) \<and> (\<exists>suf. rest = short_bytes s @ suf \<and> d' = cursor (pre @ short_bytes s) suf)"
    by (auto simp: read_signature_def short_bytes_def dbind_eq_Inr split: if_splits dest!: read_u8_back read_bounded_vec_back)
qed

interpretation sname: codec short_bytes read_service_name "\<lambda>s. s \<noteq> [] \<and> length s \<le> max_service_name \<and> utf8_valid s"
proof
  fix s pre suf
  assume s: "s \<noteq> [] \<and> length s \<le> max_service_name \<and> utf8_valid s" and "fits pre (short_bytes s @ suf)"
  moreover have "unat (word_of_nat (length s) :: byte) = length s" using s by (simp add: max_service_name_def unat_of_nat)
  ultimately show "read_service_name (cursor pre (short_bytes s @ suf)) = Inr (s, cursor (pre @ short_bytes s) suf)"
    by (simp add: read_service_name_def short_bytes_def dbind_run Suc_le_eq)
next
  fix pre rest s d'
  assume "read_service_name (cursor pre rest) = Inr (s, d')"
  then show "(s \<noteq> [] \<and> length s \<le> max_service_name \<and> utf8_valid s) \<and>
      (\<exists>suf. rest = short_bytes s @ suf \<and> d' = cursor (pre @ short_bytes s) suf)"
    by (auto simp: read_service_name_def short_bytes_def dbind_eq_Inr split: if_splits dest!: read_u8_back read_slice_back)
qed

definition authorization_unsigned_bytes :: "service_authorization \<Rightarrow> bytes" where
  "authorization_unsigned_bytes a = [hsa_version] @ u32_to_le (sa_network_magic a) @ sa_name_hash a @ u32_to_le (sa_authority_epoch a) @
     short_bytes (sa_service_name a) @ u16_to_le (sa_profile_id a) @ sa_service_key a @ u16_to_le (sa_flags a) @
     u64_to_le (sa_serial a) @ u32_to_le (sa_valid_from_height a) @ u32_to_le (sa_valid_until_height a) @
     u32_to_le (sa_max_endpoint_lifetime a)"

definition authorization_bytes :: "service_authorization \<Rightarrow> bytes" where
  "authorization_bytes a = authorization_unsigned_bytes a @ short_bytes (sa_root_signature a)"

text \<open>The arrays of an authorization have their lengths.\<close>

definition authorization_arrays :: "service_authorization \<Rightarrow> bool" where
  "authorization_arrays a \<longleftrightarrow> length (sa_name_hash a) = 32 \<and> length (sa_service_key a) = 33"

definition authorization_shaped :: "service_authorization \<Rightarrow> bool" where
  "authorization_shaped a \<longleftrightarrow> authorization_arrays a \<and> sa_service_name a \<noteq> [] \<and> length (sa_service_name a) \<le> max_service_name \<and>
     utf8_valid (sa_service_name a) \<and> sa_root_signature a \<noteq> [] \<and> length (sa_root_signature a) \<le> max_signature_size"

interpretation auth: codec authorization_bytes read_authorization authorization_shaped
proof
  fix a pre suf
  assume "authorization_shaped a" "fits pre (authorization_bytes a @ suf)"
  then show "read_authorization (cursor pre (authorization_bytes a @ suf)) = Inr (a, cursor (pre @ authorization_bytes a) suf)"
    by (simp add: read_authorization_def authorization_bytes_def authorization_unsigned_bytes_def authorization_shaped_def
        authorization_arrays_def dbind_run sname.reads sig.reads)
next
  fix pre rest a d'
  assume "read_authorization (cursor pre rest) = Inr (a, d')"
  then show "authorization_shaped a \<and> (\<exists>suf. rest = authorization_bytes a @ suf \<and> d' = cursor (pre @ authorization_bytes a) suf)"
    by (auto simp: read_authorization_def dbind_eq_Inr authorization_bytes_def authorization_unsigned_bytes_def
        authorization_shaped_def authorization_arrays_def split: if_splits
        dest!: sname.reads_back sig.reads_back read_u8_back u16.reads_back u32.reads_back u64.reads_back arr.reads_back)
qed

definition delegation_unsigned_bytes :: "endpoint_delegation \<Rightarrow> bytes" where
  "delegation_unsigned_bytes d = [hsa_version] @ u32_to_le (ed_network_magic d) @ ed_authorization_id d @ ed_endpoint_key d @
     u64_to_le (ed_endpoint_sequence d) @ u64_to_le (ed_issued_at d) @ u64_to_le (ed_expires_at d) @
     u32_to_le (ed_capabilities d) @ ed_constraints_hash d"

definition delegation_bytes :: "endpoint_delegation \<Rightarrow> bytes" where
  "delegation_bytes d = delegation_unsigned_bytes d @ short_bytes (ed_service_signature d)"

definition delegation_arrays :: "endpoint_delegation \<Rightarrow> bool" where
  "delegation_arrays d \<longleftrightarrow> length (ed_authorization_id d) = 32 \<and> length (ed_endpoint_key d) = 33 \<and> length (ed_constraints_hash d) = 32"

definition delegation_shaped :: "endpoint_delegation \<Rightarrow> bool" where
  "delegation_shaped d \<longleftrightarrow> delegation_arrays d \<and> ed_service_signature d \<noteq> [] \<and> length (ed_service_signature d) \<le> max_signature_size"

interpretation dele: codec delegation_bytes read_delegation delegation_shaped
proof
  fix d pre suf
  assume "delegation_shaped d" "fits pre (delegation_bytes d @ suf)"
  then show "read_delegation (cursor pre (delegation_bytes d @ suf)) = Inr (d, cursor (pre @ delegation_bytes d) suf)"
    by (simp add: read_delegation_def delegation_bytes_def delegation_unsigned_bytes_def delegation_shaped_def
        delegation_arrays_def dbind_run sig.reads)
next
  fix pre rest d d'
  assume "read_delegation (cursor pre rest) = Inr (d, d')"
  then show "delegation_shaped d \<and> (\<exists>suf. rest = delegation_bytes d @ suf \<and> d' = cursor (pre @ delegation_bytes d) suf)"
    by (auto simp: read_delegation_def dbind_eq_Inr delegation_bytes_def delegation_unsigned_bytes_def delegation_shaped_def
        delegation_arrays_def split: if_splits
        dest!: sig.reads_back read_u8_back u16.reads_back u32.reads_back u64.reads_back arr.reads_back)
qed

lemma utf8_ascii: "list_all (\<lambda>b. b < 128) s \<Longrightarrow> utf8_valid s"
  by (induction s) (auto simp: word_le_nat_alt word_less_nat_alt)

lemma service_name_ok:
  assumes "validate_service_name s = Inr ()"
  shows "s \<noteq> [] \<and> length s \<le> max_service_name \<and> utf8_valid s"
proof -
  have "service_name_char b \<Longrightarrow> b < 128" for b
    by (auto simp: service_name_char_def is_ascii_digit_def word_le_nat_alt word_less_nat_alt)
  then have "list_all (\<lambda>b. b < 128) s" using assms by (auto simp: validate_service_name_def list_all_iff split: if_splits)
  then show ?thesis using assms utf8_ascii by (auto simp: validate_service_name_def split: if_splits)
qed

lemma put_signature_iff:
  "put_signature s e = Inr e' \<longleftrightarrow> s \<noteq> [] \<and> length s \<le> max_signature_size \<and>
     e' = put_seq [put_u8 (word_of_nat (length s)), put_bytes s] e"
  by (auto simp: put_signature_def)

lemma authorization_encode_unsigned_iff:
  "authorization_encode_unsigned K a = Inr bs \<longleftrightarrow> validate_service_name (sa_service_name a) = Inr () \<and>
     k_public_key_parses K (sa_service_key a) \<and> bs = authorization_unsigned_bytes a"
  by (auto simp: authorization_encode_unsigned_def bind_res_eq_Inr validate_public_key_def encode_with_def put_authorization_def
      authorization_unsigned_bytes_def short_bytes_def)

lemma authorization_encode_iff:
  "authorization_encode K a = Inr bs \<longleftrightarrow> validate_service_name (sa_service_name a) = Inr () \<and>
     k_public_key_parses K (sa_service_key a) \<and> sa_root_signature a \<noteq> [] \<and> length (sa_root_signature a) \<le> max_signature_size \<and>
     bs = authorization_bytes a \<and> length bs \<le> max_service_authorization_size"
  by (auto simp: authorization_encode_def bind_res_eq_Inr authorization_encode_unsigned_iff put_signature_iff
      authorization_bytes_def short_bytes_def)

lemma delegation_encode_unsigned_iff:
  "delegation_encode_unsigned K d = Inr bs \<longleftrightarrow> k_public_key_parses K (ed_endpoint_key d) \<and> bs = delegation_unsigned_bytes d"
  by (auto simp: delegation_encode_unsigned_def bind_res_eq_Inr validate_public_key_def encode_with_def put_delegation_def
      delegation_unsigned_bytes_def)

lemma delegation_encode_iff:
  "delegation_encode K d = Inr bs \<longleftrightarrow> k_public_key_parses K (ed_endpoint_key d) \<and> ed_service_signature d \<noteq> [] \<and>
     length (ed_service_signature d) \<le> max_signature_size \<and> bs = delegation_bytes d \<and> length bs \<le> max_endpoint_delegation_size"
  by (auto simp: delegation_encode_def bind_res_eq_Inr delegation_encode_unsigned_iff put_signature_iff
      delegation_bytes_def short_bytes_def)

lemma authorization_bytes_not_Nil [simp]: "authorization_bytes a \<noteq> []" "delegation_bytes d \<noteq> []"
  by (simp_all add: authorization_bytes_def authorization_unsigned_bytes_def delegation_bytes_def delegation_unsigned_bytes_def)

lemma authorization_decode_iff:
  "authorization_decode K input = Inr a \<longleftrightarrow> authorization_arrays a \<and> authorization_encode K a = Inr input"
proof
  assume "authorization_decode K input = Inr a"
  then obtain c bs where r: "read_authorization (cursor [] input) = Inr (a, c)" and c: "map_err AuDecode (decoder_finish c) = Inr ()"
    and e: "authorization_encode_unsigned K a = Inr bs" "length input \<le> max_service_authorization_size"
    by (auto simp: authorization_decode_def bind_res_eq_Inr decoder_new_cursor split: if_splits)
  from auth.reads_back [OF r] c have "authorization_shaped a" "input = authorization_bytes a" by (auto split: if_splits)
  then show "authorization_arrays a \<and> authorization_encode K a = Inr input"
    using e by (auto simp: authorization_shaped_def authorization_encode_iff authorization_encode_unsigned_iff)
next
  assume "authorization_arrays a \<and> authorization_encode K a = Inr input"
  then have s: "authorization_shaped a" and i: "input = authorization_bytes a" "length input \<le> max_service_authorization_size"
    and u: "authorization_encode_unsigned K a = Inr (authorization_unsigned_bytes a)"
    using service_name_ok by (auto simp: authorization_shaped_def authorization_encode_iff authorization_encode_unsigned_iff)
  have "fits [] (authorization_bytes a @ [])" using i by (simp add: fits_def max_service_authorization_size_def usize_max_def)
  from auth.reads [OF s this] i u show "authorization_decode K input = Inr a"
    by (simp add: authorization_decode_def decoder_new_cursor)
qed

lemma delegation_decode_iff:
  "delegation_decode K input = Inr d \<longleftrightarrow> delegation_arrays d \<and> delegation_encode K d = Inr input"
proof
  assume "delegation_decode K input = Inr d"
  then obtain c bs where r: "read_delegation (cursor [] input) = Inr (d, c)" and c: "map_err AuDecode (decoder_finish c) = Inr ()"
    and e: "delegation_encode_unsigned K d = Inr bs" "length input \<le> max_endpoint_delegation_size"
    by (auto simp: delegation_decode_def bind_res_eq_Inr decoder_new_cursor split: if_splits)
  from dele.reads_back [OF r] c have "delegation_shaped d" "input = delegation_bytes d" by (auto split: if_splits)
  then show "delegation_arrays d \<and> delegation_encode K d = Inr input"
    using e by (auto simp: delegation_shaped_def delegation_encode_iff delegation_encode_unsigned_iff)
next
  assume "delegation_arrays d \<and> delegation_encode K d = Inr input"
  then have s: "delegation_shaped d" and i: "input = delegation_bytes d" "length input \<le> max_endpoint_delegation_size"
    and u: "delegation_encode_unsigned K d = Inr (delegation_unsigned_bytes d)"
    by (auto simp: delegation_shaped_def delegation_encode_iff delegation_encode_unsigned_iff)
  have "fits [] (delegation_bytes d @ [])" using i by (simp add: fits_def max_endpoint_delegation_size_def usize_max_def)
  from dele.reads [OF s this] i u show "delegation_decode K input = Inr d"
    by (simp add: delegation_decode_def decoder_new_cursor)
qed

section \<open>Verification\<close>

lemma authority_verify_iff:
  "authority_verify A domain msg signature key = Inr () \<longleftrightarrow> k_public_key_parses (ac_k256 A) key \<and> signature \<noteq> [] \<and>
     length signature \<le> max_signature_size \<and> (\<exists>s. ac_from_der A signature = Some s \<and> k_normalize_s (ac_k256 A) s = None \<and>
       k_verify_prehash (ac_k256 A) key (ac_blake2b_256 A (domain @ msg)) s)"
  by (auto simp: authority_verify_def bind_res_eq_Inr validate_public_key_def)

lemma authorization_verify_encodes:
  assumes "authorization_verify A a authority identity height flags = Inr ()" "authorization_arrays a"
  shows "authorization_encode (ac_k256 A) a = Inr (authorization_bytes a)"
proof -
  have v: "validate_service_name (sa_service_name a) = Inr ()" "k_public_key_parses (ac_k256 A) (sa_service_key a)"
    "sa_root_signature a \<noteq> []" "length (sa_root_signature a) \<le> max_signature_size"
    using assms(1) by (auto simp: authorization_verify_def bind_res_eq_Inr authorization_encode_unsigned_iff authority_verify_iff
        split: if_splits)
  then have "length (authorization_bytes a) \<le> max_service_authorization_size"
    using assms(2) service_name_ok [OF v(1)]
    by (simp add: authorization_bytes_def authorization_unsigned_bytes_def short_bytes_def authorization_arrays_def
        max_service_authorization_size_def max_signature_size_def max_service_name_def)
  then show ?thesis using v by (simp add: authorization_encode_iff)
qed

lemma delegation_verify_encodes:
  assumes "delegation_verify A d a now capabilities constraints = Inr ()" "delegation_arrays d"
  shows "delegation_encode (ac_k256 A) d = Inr (delegation_bytes d)"
proof -
  have v: "k_public_key_parses (ac_k256 A) (ed_endpoint_key d)" "ed_service_signature d \<noteq> []"
    "length (ed_service_signature d) \<le> max_signature_size"
    using assms(1) by (auto simp: delegation_verify_def bind_res_eq_Inr delegation_encode_unsigned_iff authority_verify_iff Let_def
        split: if_splits)
  then have "length (delegation_bytes d) \<le> max_endpoint_delegation_size"
    using assms(2) by (simp add: delegation_bytes_def delegation_unsigned_bytes_def short_bytes_def delegation_arrays_def
        max_endpoint_delegation_size_def max_signature_size_def)
  then show ?thesis using v by (simp add: delegation_encode_iff)
qed

lemma authorization_encode_inject:
  assumes "authorization_arrays a" "authorization_arrays b" "authorization_encode K a = Inr bs" "authorization_encode K b = Inr bs"
  shows "a = b"
proof -
  have "authorization_decode K bs = Inr a" "authorization_decode K bs = Inr b" using assms by (simp_all add: authorization_decode_iff)
  then show ?thesis by simp
qed

lemma delegation_encode_inject:
  assumes "delegation_arrays a" "delegation_arrays b" "delegation_encode K a = Inr bs" "delegation_encode K b = Inr bs"
  shows "a = b"
proof -
  have "delegation_decode K bs = Inr a" "delegation_decode K bs = Inr b" using assms by (simp_all add: delegation_decode_iff)
  then show ?thesis by simp
qed

text \<open>
  C16: a delegation is bound to one authorization. For a hash without collisions among the two strings hashed, one delegation
  verifies under no two different authorizations, at any times and for any expectations. It is signed by the service key of
  the authorization, is valid at the time of the check, and lives no longer than the authorization allows.
\<close>

theorem delegation_binds_authorization:
  assumes "authorization_arrays a" "authorization_arrays a'"
    and "collision_free (ac_blake2b_256 A) [service_auth_id_domain @ authorization_bytes a, service_auth_id_domain @ authorization_bytes a']"
    and "delegation_verify A d a now capabilities constraints = Inr ()"
    and "delegation_verify A d a' now' capabilities' constraints' = Inr ()"
  shows "a = a' \<and> ed_issued_at d \<le> now \<and> now < ed_expires_at d \<and>
    unat (ed_expires_at d) \<le> unat (ed_issued_at d) + unat (sa_max_endpoint_lifetime a) \<and>
    authority_verify A endpoint_delegation_domain (tl (delegation_unsigned_bytes d)) (ed_service_signature d) (sa_service_key a) = Inr ()"
proof -
  have ids: "\<exists>bs. authorization_encode (ac_k256 A) b = Inr bs \<and> bs = authorization_bytes b \<and>
      ed_authorization_id d = ac_blake2b_256 A (service_auth_id_domain @ bs)"
    if "delegation_verify A d b t c x = Inr ()" for b t c x
    using that by (auto simp: delegation_verify_def authorization_id_def bind_res_eq_Inr authorization_encode_iff Let_def split: if_splits)
  from ids [OF assms(4)] ids [OF assms(5)]
  have e: "authorization_encode (ac_k256 A) a = Inr (authorization_bytes a)" "authorization_encode (ac_k256 A) a' = Inr (authorization_bytes a')"
    and h: "ac_blake2b_256 A (service_auth_id_domain @ authorization_bytes a) = ac_blake2b_256 A (service_auth_id_domain @ authorization_bytes a')"
    by auto
  have "authorization_bytes a = authorization_bytes a'" using collision_freeD(1) [OF assms(3) _ _ h] by simp
  then have "a = a'" using authorization_encode_inject [OF assms(1,2) e(1)] e(2) by simp
  moreover have c: "delegation_context d a now capabilities constraints"
    and "authority_verify A endpoint_delegation_domain (tl (delegation_unsigned_bytes d)) (ed_service_signature d) (sa_service_key a) = Inr ()"
    using assms(4) by (auto simp: delegation_verify_def bind_res_eq_Inr delegation_encode_unsigned_iff Let_def split: if_splits)
  moreover have "unat (ed_expires_at d) \<le> unat (ed_issued_at d) + unat (sa_max_endpoint_lifetime a)"
  proof -
    have "saturating_sub (ed_expires_at d) (ed_issued_at d) \<le> ucast (sa_max_endpoint_lifetime a)"
      using c by (auto simp: delegation_context_def not_less)
    then have "unat (ed_expires_at d) - unat (ed_issued_at d) \<le> unat (ucast (sa_max_endpoint_lifetime a) :: u64)"
      by (simp add: word_le_nat_alt unat_saturating_sub)
    also have "\<dots> = unat (sa_max_endpoint_lifetime a)" 
      using unsigned_less [of "sa_max_endpoint_lifetime a", where 'a = nat] by (simp add: unat_ucast_mod)
    finally show ?thesis by simp
  qed
  ultimately show ?thesis by (auto simp: delegation_context_def not_le not_less)
qed

section \<open>Selection\<close>

text \<open>Candidates that are compared by a sequence number and an encoding.\<close>

locale sequenced =
  fixes valid :: "'a \<Rightarrow> bool" and sequence :: "'a \<Rightarrow> u64" and encode :: "'a \<Rightarrow> authority_error + bytes" and shaped :: "'a \<Rightarrow> bool"
  assumes encodes: "shaped c \<Longrightarrow> valid c \<Longrightarrow> \<exists>e. encode c = Inr e"
    and encode_inject: "shaped c \<Longrightarrow> shaped c' \<Longrightarrow> encode c = Inr e \<Longrightarrow> encode c' = Inr e \<Longrightarrow> c = c'"
begin

definition contenders :: "'a list \<Rightarrow> 'a option \<Rightarrow> 'a set" where
  "contenders cs selected = {c \<in> set cs. valid c} \<union> set_option selected"

definition best :: "'a set \<Rightarrow> 'a option \<Rightarrow> bool" where
  "best S r \<longleftrightarrow> (case r of None \<Rightarrow> S = {} | Some c \<Rightarrow> c \<in> S \<and>
     (\<forall>c' \<in> S. sequence c' \<le> sequence c \<and> (sequence c' = sequence c \<longrightarrow> c' = c)))"

lemma best_lower:
  assumes "best S r" "c \<in> S" "sequence b < sequence c"
  shows "best (insert b S) r"
proof (cases r)
  case None
  then show ?thesis using assms by (simp add: best_def)
next
  case (Some x)
  then have x: "x \<in> S" "\<forall>c' \<in> S. sequence c' \<le> sequence x \<and> (sequence c' = sequence x \<longrightarrow> c' = x)"
    using assms(1) by (simp_all add: best_def)
  then have "sequence c \<le> sequence x" using assms(2) by blast
  then have "sequence b < sequence x" using assms(3) by simp
  then show ?thesis using x Some by (auto simp: best_def)
qed

lemma loop_sound:
  assumes "select_loop valid sequence encode cs selected = Inr r" "\<forall>c \<in> contenders cs selected. shaped c"
  shows "best (contenders cs selected) r"
  using assms
proof (induction cs arbitrary: selected)
  case (Cons c cs)
  show ?case
  proof (cases "valid c")
    case False
    then have "contenders (c # cs) selected = contenders cs selected" by (auto simp: contenders_def)
    then show ?thesis using Cons False by simp
  next
    case True
    show ?thesis
    proof (cases selected)
      case None
      then have k: "contenders (c # cs) selected = contenders cs (Some c)" using True by (auto simp: contenders_def)
      then show ?thesis using Cons.IH [of "Some c"] Cons.prems True None by simp
    next
      case (Some b)
      have k: "contenders (c # cs) selected = insert c (contenders cs (Some b))" "contenders (c # cs) selected = insert b (contenders cs (Some c))"
        "c \<in> contenders cs (Some c)" "b \<in> contenders cs (Some b)"
        using True Some by (auto simp: contenders_def)
      have sh: "\<forall>x \<in> contenders cs (Some b). shaped x" "\<forall>x \<in> contenders cs (Some c). shaped x" "shaped b" "shaped c"
        using Cons.prems(2) k by auto
      consider "sequence b < sequence c" | "sequence c = sequence b" | "sequence c < sequence b" by (metis linorder_cases)
      then show ?thesis
      proof cases
        case 1
        then have "select_loop valid sequence encode cs (Some c) = Inr r" using Cons.prems(1) True Some by simp
        from best_lower [OF Cons.IH [OF this sh(2)] k(3) 1] show ?thesis using k(2) by simp
      next
        case 2
        then obtain e where e: "encode c = Inr e" "encode b = Inr e" "select_loop valid sequence encode cs (Some b) = Inr r"
          using Cons.prems(1) True Some by (auto simp: bind_res_eq_Inr split: if_splits)
        have "c = b" by (rule encode_inject [OF sh(4,3) e(1,2)])
        then have "contenders (c # cs) selected = contenders cs (Some b)" using k(1,4) by (simp add: insert_absorb)
        then show ?thesis using Cons.IH [OF e(3) sh(1)] by simp
      next
        case 3
        then have "\<not> sequence b < sequence c" "sequence c \<noteq> sequence b" by simp_all
        then have "select_loop valid sequence encode cs (Some b) = Inr r" using Cons.prems(1) True Some by simp
        from best_lower [OF Cons.IH [OF this sh(1)] k(4) 3] show ?thesis using k(1) by simp
      qed
    qed
  qed
qed (cases r, auto simp: contenders_def best_def)

lemma loop_total:
  assumes "\<forall>c \<in> contenders cs selected. shaped c \<and> valid c"
    and "\<forall>c \<in> contenders cs selected. \<forall>c' \<in> contenders cs selected. sequence c = sequence c' \<longrightarrow> c = c'"
  shows "\<exists>r. select_loop valid sequence encode cs selected = Inr r"
  using assms
proof (induction cs arbitrary: selected)
  case (Cons c cs)
  show ?case
  proof (cases "valid c")
    case False
    then have "contenders (c # cs) selected = contenders cs selected" by (auto simp: contenders_def)
    then show ?thesis using Cons.IH [of selected] Cons.prems False by simp
  next
    case True
    have sub: "contenders cs (Some c) \<subseteq> contenders (c # cs) selected" "contenders cs selected \<subseteq> contenders (c # cs) selected"
      using True by (auto simp: contenders_def)
    have IH: "\<exists>r. select_loop valid sequence encode cs s = Inr r" if "contenders cs s \<subseteq> contenders (c # cs) selected" for s
      using Cons.IH [of s] Cons.prems that by blast
    show ?thesis
    proof (cases selected)
      case None
      then show ?thesis using IH [OF sub(1)] True by simp
    next
      case (Some b)
      have m: "c \<in> contenders (c # cs) selected" "b \<in> contenders (c # cs) selected" using True Some by (simp_all add: contenders_def)
      then have inj: "c = b" if "sequence c = sequence b" using Cons.prems(2) that by blast
      have "shaped c" using Cons.prems(1) m(1) by blast
      then obtain e where e: "encode c = Inr e" using encodes True by blast
      obtain r where r: "select_loop valid sequence encode cs (Some c) = Inr r" using IH [OF sub(1)] by (rule exE)
      obtain r' where r': "select_loop valid sequence encode cs (Some b) = Inr r'" using IH [OF sub(2)] unfolding Some by (rule exE)
      consider "sequence b < sequence c" | "c = b" | "\<not> sequence b < sequence c" "sequence c \<noteq> sequence b" using inj by blast
      then show ?thesis
      proof cases
        case 1
        then show ?thesis using r by (simp add: Some True)
      next
        case 2
        then show ?thesis using r' e True by (simp add: Some)
      next
        case 3
        then show ?thesis using r' by (simp add: Some True)
      qed
    qed
  qed
qed simp

lemma greatest:
  assumes "select_by_sequence cs maximum valid sequence encode = Inr c" "\<forall>c \<in> set cs. shaped c" "maximum < usize_max"
  shows "length cs \<le> maximum \<and> c \<in> set cs \<and> valid c \<and>
    (\<forall>c' \<in> set cs. valid c' \<longrightarrow> sequence c' \<le> sequence c \<and> (sequence c' = sequence c \<longrightarrow> c' = c))"
proof -
  have m: "saturating_add_usize maximum 1 = maximum + 1" using assms(3) by (simp add: saturating_add_usize_def)
  then have len: "length cs \<le> maximum" and l: "select_loop valid sequence encode cs None = Inr (Some c)"
    using assms(1) by (auto simp: select_by_sequence_def bind_res_eq_Inr split: if_splits)
  have "best (contenders cs None) (Some c)" using assms(2) by (intro loop_sound [OF l]) (simp add: contenders_def)
  then show ?thesis using len by (auto simp: contenders_def best_def)
qed

lemma total:
  assumes "length cs \<le> maximum" "\<forall>c \<in> set cs. shaped c" "b \<in> set cs" "valid b" "maximum < usize_max"
    and "\<forall>c \<in> set cs. \<forall>c' \<in> set cs. valid c \<longrightarrow> valid c' \<longrightarrow> sequence c = sequence c' \<longrightarrow> c = c'"
  shows "\<exists>c. select_by_sequence cs maximum valid sequence encode = Inr c"
proof -
  have "saturating_add_usize maximum 1 = maximum + 1" using assms(5) by (simp add: saturating_add_usize_def)
  moreover obtain r where r: "select_loop valid sequence encode cs None = Inr r"
    using loop_total [of cs None] assms(2,6) by (auto simp: contenders_def)
  moreover have "best (contenders cs None) r" using assms(2) by (intro loop_sound [OF r]) (simp add: contenders_def)
  then have "r \<noteq> None" using assms(3,4) by (cases r) (auto simp: contenders_def best_def)
  ultimately show ?thesis using assms(1) by (auto simp: select_by_sequence_def)
qed

end

interpretation asel: sequenced "\<lambda>c. is_ok (authorization_verify A c authority identity height flags)" sa_serial
  "authorization_encode (ac_k256 A)" authorization_arrays for A authority identity height flags
  by unfold_locales (auto simp: is_ok_iff dest: authorization_verify_encodes authorization_encode_inject)

interpretation dsel: sequenced "\<lambda>c. p c \<and> is_ok (delegation_verify A c a now capabilities constraints)" ed_endpoint_sequence
  "delegation_encode (ac_k256 A)" delegation_arrays for p A a now capabilities constraints
  by unfold_locales (auto simp: is_ok_iff dest: delegation_verify_encodes delegation_encode_inject)

text \<open>
  C15: the chain from the name to the endpoint. When an authorization is selected for a service and then a delegation under
  it, the root key of the name has signed the authorization, for this service, epoch and height, and its service key has
  signed the delegation, for this time. Both are the newest: every other valid candidate has a smaller sequence number.
\<close>

theorem endpoint_chain:
  assumes "select_service_authorization A as authority identity height flags = Inr a"
    and "select_endpoint_delegation A ds a now capabilities constraints logical = Inr d"
    and "\<forall>x \<in> set as. authorization_arrays x" "\<forall>x \<in> set ds. delegation_arrays x"
  shows "a \<in> set as \<and> authorization_context a authority identity height flags \<and>
    authority_verify A service_auth_domain (tl (authorization_unsigned_bytes a)) (sa_root_signature a) (ar_root_key authority) = Inr () \<and>
    d \<in> set ds \<and> logical d \<and> delegation_context d a now capabilities constraints \<and>
    authorization_id A a = Inr (ed_authorization_id d) \<and>
    authority_verify A endpoint_delegation_domain (tl (delegation_unsigned_bytes d)) (ed_service_signature d) (sa_service_key a) = Inr () \<and>
    (\<forall>x \<in> set as. authorization_verify A x authority identity height flags = Inr () \<longrightarrow> x = a \<or> sa_serial x < sa_serial a) \<and>
    (\<forall>x \<in> set ds. logical x \<and> delegation_verify A x a now capabilities constraints = Inr () \<longrightarrow>
      x = d \<or> ed_endpoint_sequence x < ed_endpoint_sequence d)"
proof -
  have "max_service_authorization_candidates < usize_max" "max_endpoint_delegation_candidates < usize_max"
    by (simp_all add: max_service_authorization_candidates_def max_endpoint_delegation_candidates_def usize_max_def)
  note limits = this
  note sa = asel.greatest [OF assms(1) [unfolded select_service_authorization_def] assms(3) limits(1)]
  note sd = dsel.greatest [OF assms(2) [unfolded select_endpoint_delegation_def] assms(4) limits(2)]
  have va: "authorization_verify A a authority identity height flags = Inr ()" using sa by (auto simp: is_ok_iff)
  have vd: "delegation_verify A d a now capabilities constraints = Inr ()" using sd by (auto simp: is_ok_iff)
  have "authorization_context a authority identity height flags"
    "authority_verify A service_auth_domain (tl (authorization_unsigned_bytes a)) (sa_root_signature a) (ar_root_key authority) = Inr ()"
    using va by (auto simp: authorization_verify_def bind_res_eq_Inr authorization_encode_unsigned_iff split: if_splits)
  moreover have "delegation_context d a now capabilities constraints" "authorization_id A a = Inr (ed_authorization_id d)"
    "authority_verify A endpoint_delegation_domain (tl (delegation_unsigned_bytes d)) (ed_service_signature d) (sa_service_key a) = Inr ()"
    using vd by (auto simp: delegation_verify_def bind_res_eq_Inr delegation_encode_unsigned_iff Let_def split: if_splits)
  moreover have "x = a \<or> sa_serial x < sa_serial a"
    if "x \<in> set as" "authorization_verify A x authority identity height flags = Inr ()" for x
    using sa that by (metis is_ok_simps(2) order_le_less)
  moreover have "x = d \<or> ed_endpoint_sequence x < ed_endpoint_sequence d"
    if "x \<in> set ds" "logical x" "delegation_verify A x a now capabilities constraints = Inr ()" for x
    using sd that by (metis is_ok_simps(2) order_le_less)
  ultimately show ?thesis using sa sd by blast
qed

text \<open>
  A selection succeeds when some candidate is valid, there are not too many of them, and no two different valid ones have
  the same sequence number.
\<close>

lemma selection_succeeds:
  assumes "length as \<le> max_service_authorization_candidates" "\<forall>x \<in> set as. authorization_arrays x"
    and "b \<in> set as" "authorization_verify A b authority identity height flags = Inr ()"
    and "\<forall>x \<in> set as. \<forall>y \<in> set as. authorization_verify A x authority identity height flags = Inr () \<longrightarrow>
      authorization_verify A y authority identity height flags = Inr () \<longrightarrow> sa_serial x = sa_serial y \<longrightarrow> x = y"
  shows "\<exists>a. select_service_authorization A as authority identity height flags = Inr a"
  unfolding select_service_authorization_def
  using assms by (intro asel.total [of _ _ b]) (auto simp: is_ok_iff max_service_authorization_candidates_def usize_max_def)

text \<open>
  With two valid candidates of one smaller sequence number the outcome depends on the order: the conflict is an error only
  when it is met before the candidate with the greatest number.
\<close>

lemma selection_depends_on_order:
  "select_by_sequence [(1, 1), (1, 2), (2, 3)] 16 (\<lambda>_. True) fst (\<lambda>c. Inr [snd c]) = Inl AuConflictingSequence"
  "select_by_sequence [(2, 3), (1, 1), (1, 2)] 16 (\<lambda>_. True) fst (\<lambda>c. Inr [snd c]) = Inr (2, 3)"
  by code_simp+

section \<open>Examples\<close>

definition sample_crypto :: authority_crypto where
  "sample_crypto = \<lparr>ac_k256 = \<lparr>k_signature_parses = \<lambda>_. True, k_normalize_s = \<lambda>_. None, k_public_key_parses = \<lambda>_. True,
     k_verify_prehash = \<lambda>_ _ _. True\<rparr>, ac_blake2b_256 = \<lambda>_. replicate 32 1, ac_from_der = Some, ac_to_der = (\<lambda>s. s),
     ac_signing_key = \<lambda>_. None\<rparr>"

definition sample_authorization :: "u64 \<Rightarrow> service_authorization" where
  "sample_authorization serial = \<lparr>sa_network_magic = 1, sa_name_hash = replicate 32 2, sa_authority_epoch = 4,
     sa_service_name = [97], sa_profile_id = 3, sa_service_key = replicate 33 2, sa_flags = 0, sa_serial = serial,
     sa_valid_from_height = 10, sa_valid_until_height = 20, sa_max_endpoint_lifetime = 600, sa_root_signature = [7]\<rparr>"

definition sample_delegation :: endpoint_delegation where
  "sample_delegation = \<lparr>ed_network_magic = 1, ed_authorization_id = replicate 32 1, ed_endpoint_key = replicate 33 2,
     ed_endpoint_sequence = 1, ed_issued_at = 100, ed_expires_at = 200, ed_capabilities = 0, ed_constraints_hash = replicate 32 0,
     ed_service_signature = [7]\<rparr>"

theorem endpoint_chain_witness:
  "authority_verify sample_crypto service_auth_domain (tl (authorization_unsigned_bytes (sample_authorization 6)))
     (sa_root_signature (sample_authorization 6)) (replicate 33 2) = Inr () \<and>
   sa_serial (sample_authorization 5) < sa_serial (sample_authorization 6)"
proof -
  let ?as = "[sample_authorization 5, sample_authorization 6]" and ?r = "\<lparr>ar_root_key = replicate 33 2, ar_epoch = 4\<rparr>"
  have "select_service_authorization sample_crypto ?as ?r (authorization_identity (sample_authorization 5)) 15 0 =
      Inr (sample_authorization 6)" by code_simp
  moreover have "select_endpoint_delegation sample_crypto [sample_delegation] (sample_authorization 6) 150 0 (replicate 32 0)
      (\<lambda>_. True) = Inr sample_delegation" by code_simp
  moreover have "\<forall>x \<in> set ?as. authorization_arrays x" "\<forall>x \<in> set [sample_delegation]. delegation_arrays x"
    by (simp_all add: authorization_arrays_def delegation_arrays_def sample_authorization_def sample_delegation_def)
  ultimately have c: "authority_verify sample_crypto service_auth_domain (tl (authorization_unsigned_bytes (sample_authorization 6)))
     (sa_root_signature (sample_authorization 6)) (ar_root_key ?r) = Inr ()"
    "authorization_verify sample_crypto (sample_authorization 5) ?r (authorization_identity (sample_authorization 5)) 15 0 = Inr () \<longrightarrow>
      sample_authorization 5 = sample_authorization 6 \<or> sa_serial (sample_authorization 5) < sa_serial (sample_authorization 6)"
    using endpoint_chain [of sample_crypto ?as ?r _ 15 0 "sample_authorization 6" "[sample_delegation]" 150 0 "replicate 32 0"
        "\<lambda>_. True" sample_delegation] by auto
  moreover have "authorization_verify sample_crypto (sample_authorization 5) ?r (authorization_identity (sample_authorization 5)) 15 0 = Inr ()"
    by code_simp
  moreover have "sample_authorization 5 \<noteq> sample_authorization 6" by (simp add: sample_authorization_def)
  ultimately show ?thesis by simp
qed

theorem delegation_binds_authorization_witness:
  "ed_issued_at sample_delegation \<le> 150 \<and>
   unat (ed_expires_at sample_delegation) \<le> unat (ed_issued_at sample_delegation) + unat (sa_max_endpoint_lifetime (sample_authorization 6)) \<and>
   authority_verify sample_crypto endpoint_delegation_domain (tl (delegation_unsigned_bytes sample_delegation))
     (ed_service_signature sample_delegation) (sa_service_key (sample_authorization 6)) = Inr ()"
proof -
  have "authorization_arrays (sample_authorization 6)" by (simp add: authorization_arrays_def sample_authorization_def)
  moreover have "delegation_verify sample_crypto sample_delegation (sample_authorization 6) 150 0 (replicate 32 0) = Inr ()"
    by code_simp
  moreover have "collision_free (ac_blake2b_256 sample_crypto) [service_auth_id_domain @ authorization_bytes (sample_authorization 6),
      service_auth_id_domain @ authorization_bytes (sample_authorization 6)]"
    by (simp add: collision_free_def sample_crypto_def)
  ultimately show ?thesis
    using delegation_binds_authorization [of "sample_authorization 6" "sample_authorization 6" sample_crypto sample_delegation 150 0
        "replicate 32 0" 150 0 "replicate 32 0"] by blast
qed

end
