(* ===== verification/Spec2Isabelle.thy ===== *)
theory Spec2Isabelle
  imports Header Resource NameTransition NameTx Urkel Journal FeePolicy SwapProofs BlockCodec MiningProofs FrameProofs CompactRelay WireDelivery CborCodec
    ListingProofs RegistryProofs PeerProofs AuthorityProofs
begin

text \<open>
  A verification of the Handshake workspace: the consensus core, the peer protocol, mining, the name sales built on them, and
  the experimental extension. The crates are under \<^verbatim>\<open>crates/\<close>; a theory names the files it models in its opening text.

  \<^bold>\<open>The program and its parts.\<close> Every format is read by the bounded decoder and written by the encoder of
  \<^verbatim>\<open>hns-encoding\<close>. On them stand headers and difficulty (\<^verbatim>\<open>hns-header-consensus\<close>), covenants, names and resources
  (\<^verbatim>\<open>hns-covenants\<close>), transactions and the covenant rules between spent coins and outputs (\<^verbatim>\<open>hns-transaction\<close>), scripts and
  signature hashes (\<^verbatim>\<open>hns-script\<close>), proofs of the name tree (\<^verbatim>\<open>hns-urkel-proof\<close>), blocks and mining jobs (\<^verbatim>\<open>hns-mining\<close>), the
  packets, frames and compact blocks peers exchange (\<^verbatim>\<open>hns-p2p-wire\<close>), sales of names and hash time locks with their
  marketplace listings (\<^verbatim>\<open>hns-swap\<close>), the journal that detects a rolled-back database (\<^verbatim>\<open>hns-rollback-journal\<close>), the
  extension of the peer protocol (\<^verbatim>\<open>hns-p2p-experimental\<close>), the deterministic CBOR of the registry (\<^verbatim>\<open>hns-hrm\<close>) and the
  authority that a name gives to services and endpoints (\<^verbatim>\<open>hns-service-authority\<close>).

  \<^bold>\<open>Conventions.\<close> Byte strings are lists of 8-bit words, machine integers are words of their width, \<^verbatim>\<open>usize\<close> is a natural number
  with the 64-bit bound written out where the code checks it. A fallible function returns a sum whose left side is the error
  of the source; a method on a mutable receiver returns the new state with its result; a panic is an error value of its own.
  The hash functions, the operations of \<^verbatim>\<open>k256\<close> and the TOML parser are arguments; theorems that need a property of them (no
  collision among the strings hashed, a key that signs) say so in a named hypothesis, and a witness instantiates it.

  \<^bold>\<open>Foundations.\<close> \<open>Prelude\<close> has results, checked and saturating arithmetic and byte orders. \<open>Encoding\<close> is the decoder and
  encoder, with the interface \<open>codec\<close>: an encoder and a reader such that what is written is read back and what is read was
  written. Its lemmas (a codec is prefix free, codecs repeat and compose) are proved once and each format is an interpretation;
  \<open>budgeted\<close> adds a byte budget and \<open>lenient_codec\<close> (\<open>PacketCodec\<close>) the readers that drop reserved parts as HSD does.
  \<open>Primitives\<close> has outpoints, amounts and the 256-bit work of a chain.

  \<^bold>\<open>Consensus.\<close> \<open>Target\<close> and \<open>Header\<close>: the limb arithmetic of difficulty refines the rule on natural numbers, header validation
  is characterised exactly. \<open>Covenants\<close>, \<open>NameState\<close>, \<open>Resource\<close>, \<open>NameTransition\<close>: covenant, name-state and DNS-resource
  formats; the loop over a compressed name ends because it either adds a label within 255 bytes or follows one of ten
  pointers. \<open>Transaction\<close>, \<open>Linkage\<close>, \<open>NameTx\<close>: the transaction codec, the verifier of covenant links as a refinement of an
  inductive transition relation, and the builders of name transfers. \<open>Sighash\<close>, \<open>Script\<close>, \<open>Interpreter\<close>, \<open>ScriptNumber\<close>,
  \<open>ScriptRun\<close>, \<open>ScriptExec\<close>, \<open>ScriptSteps\<close>, \<open>Verifier\<close>, \<open>FeePolicy\<close>: what a signature commits to, the parser, every opcode, the
  limits kept at every instruction, symbolic execution of the standard programs, and policy sizes. \<open>Urkel\<close>: soundness and
  completeness of tree proofs. \<open>Blocks\<close>, \<open>BlockProofs\<close>, \<open>BlockBody\<close>, \<open>BlockCodec\<close>, \<open>MiningJobs\<close>, \<open>MiningProofs\<close>: the Merkle
  root commits to the transactions, the exact condition on a block body, the bound on all subsidies, and that an admitted
  solution is a block that body and header validation accept.

  \<^bold>\<open>Peers.\<close> \<open>Wire\<close>, \<open>Packets\<close>, \<open>CompactBlock\<close> are the model; \<open>FrameProofs\<close> shows that the frame decoder does not depend on the
  way a stream is cut and that its errors are final; \<open>PacketCodec\<close>, \<open>PacketParts\<close>, \<open>PacketProofs\<close>, \<open>WireDelivery\<close> that every
  packet sent is delivered; \<open>CompactProofs\<close>, \<open>CompactRelay\<close> that a compact block becomes its own block and no other.

  \<^bold>\<open>Sales and storage.\<close> \<open>Swap\<close>, \<open>SwapSale\<close>, \<open>Htlc\<close>, \<open>Listing\<close> are the model; \<open>SwapSpend\<close>, \<open>SwapSecurity\<close> give the exact spends of
  a locked name and of a hash-time-locked coin on the script machine, \<open>SwapProofs\<close> the completion of a presigned sale,
  \<open>ListingProofs\<close> the unique encodings of listings and what a cancellation cancels. \<open>Journal\<close> is a step relation of the journal
  and its store; recovery of a reachable system reaches a stable state in at most four actions, the fuel of \<open>run_recovery\<close>,
  and reports ready only on the last acknowledged state.

  \<^bold>\<open>The extension.\<close> \<open>Negotiation\<close>, \<open>ExtensionEnvelope\<close>, \<open>ExperimentalPeer\<close>, \<open>Registry\<close> are the model; \<open>NegotiationProofs\<close> shows
  that both sides of a handshake come to the same result, \<open>PeerProofs\<close> when a packet is admitted and the replay window of
  requests over reachable states, \<open>RegistryProofs\<close> that numbers are assigned once and that the canonical form of a registry is
  unique. \<open>Cbor\<close>, \<open>CborProofs\<close>, \<open>CborCodec\<close>: the CBOR decoder accepts exactly what the encoder writes; the decoder recurses on
  the levels of depth that the limits leave, so no fuel is needed.

  \<^bold>\<open>Service authority.\<close> \<open>TextForms\<close> has the text operations of the standard library, \<open>Authority\<close> models \<^verbatim>\<open>lib.rs\<close> of
  \<^verbatim>\<open>hns-service-authority\<close>, \<open>Base32\<close> relates the base32 loops to the bits of their input and shows that they are inverse.
  \<open>AuthorityProofs\<close> gives the texts of an authority record, the unique encodings of authorizations and delegations, the binding
  of a delegation to its authorization, and, in the interface \<open>sequenced\<close> that both selections interpret, that the selected
  candidate is valid and newer than every other valid one.

  \<^bold>\<open>Not modelled.\<close> \<^verbatim>\<open>hns-chat-protocol\<close>, \<^verbatim>\<open>hns-dns-relay-protocol\<close> and \<^verbatim>\<open>hns-odoh-protocol\<close> (message formats above the core, the last
  over an HPKE library), \<^verbatim>\<open>hns-hnsr-protocol\<close> (circuits and routing over encrypted envelopes), \<^verbatim>\<open>hns-marketplace-protocol\<close>
  (messages around the sales modelled here), the rest of \<^verbatim>\<open>hns-hrm\<close> and \<^verbatim>\<open>hns-service-authority\<close> (signed registry messages,
  leases and their durable state): each stands on the modelled crates and none of them is used by them. \<^verbatim>\<open>hns-conformance\<close> only
  compares the crates with pinned vectors.
\<close>

end
